(* ===== verification/Prelude.thy ===== *)
theory Prelude
  imports Complex_Main "HOL-Library.Signed_Division"
begin

section \<open>Shared types, JavaScript primitives and generic lemmas\<close>

text \<open>
  What every component of the development uses: the JavaScript primitives the sources
  call (bigint division, decimal printing and parsing, \<open>padStart\<close>, \<open>padEnd\<close>, \<open>trim\<close>,
  \<open>split\<close>), association lists standing for SQL tables and JavaScript \<open>Map\<close>s, and the
  lemmas about them. Strings are Isabelle \<open>string\<close>s, that is, sequences of code units
  below 256. A JavaScript \<open>bigint\<close> is an \<open>int\<close>; its division and remainder truncate
  towards zero, which is \<open>sdiv\<close> and \<open>smod\<close> of \<open>HOL-Library.Signed_Division\<close>.
\<close>

named_theorems js_simps \<open>evaluation rules for the JavaScript primitives\<close>

subsection \<open>Decimal digits and strings\<close>

definition is_digit :: "char \<Rightarrow> bool" where
  "is_digit c \<longleftrightarrow> 48 \<le> (of_char c :: nat) \<and> (of_char c :: nat) \<le> 57"

definition char_digit :: "char \<Rightarrow> nat" where
  "char_digit c = of_char c - 48"

definition digit_char :: "nat \<Rightarrow> char" where
  "digit_char n = char_of (48 + n)"

text \<open>\<open>BigInt(s)\<close> for a string of decimal digits; \<open>BigInt('')\<close> is 0.\<close>

definition string_to_nat :: "string \<Rightarrow> nat" where
  "string_to_nat s = foldl (\<lambda>a c. 10 * a + char_digit c) 0 s"

text \<open>\<open>toString\<close> of a non-negative integer.\<close>

fun nat_to_string :: "nat \<Rightarrow> string" where
  "nat_to_string n =
     (if n < 10 then [digit_char n] else nat_to_string (n div 10) @ [digit_char (n mod 10)])"

declare nat_to_string.simps [simp del]

definition int_to_string :: "int \<Rightarrow> string" where
  "int_to_string i = (if i < 0 then ''-'' @ nat_to_string (nat (- i)) else nat_to_string (nat i))"

definition padStart :: "nat \<Rightarrow> char \<Rightarrow> string \<Rightarrow> string" where
  "padStart n c s = replicate (n - length s) c @ s"

definition padEnd :: "nat \<Rightarrow> char \<Rightarrow> string \<Rightarrow> string" where
  "padEnd n c s = s @ replicate (n - length s) c"

text \<open>White space of \<open>String.prototype.trim\<close> below code unit 256.\<close>

definition js_space :: "char \<Rightarrow> bool" where
  "js_space c \<longleftrightarrow> (let n = (of_char c :: nat) in (9 \<le> n \<and> n \<le> 13) \<or> n = 32 \<or> n = 160)"

definition trim :: "string \<Rightarrow> string" where
  "trim s = rev (dropWhile js_space (rev (dropWhile js_space s)))"

text \<open>\<open>s.split(c)\<close> for a one-character separator.\<close>

fun split_on :: "char \<Rightarrow> string \<Rightarrow> string list" where
  "split_on c [] = [[]]"
| "split_on c (x # xs) =
     (if x = c then [] # split_on c xs
      else (case split_on c xs of [] \<Rightarrow> [[x]] | p # ps \<Rightarrow> (x # p) # ps))"

lemma is_digit_digit_char [simp]: "n < 10 \<Longrightarrow> is_digit (digit_char n)"
  by (simp add: is_digit_def digit_char_def)

lemma char_digit_digit_char [simp]: "n < 10 \<Longrightarrow> char_digit (digit_char n) = n"
  by (simp add: char_digit_def digit_char_def)

lemma string_to_nat_Nil [simp]: "string_to_nat [] = 0"
  by (simp add: string_to_nat_def)

lemma string_to_nat_snoc [simp]:
  "string_to_nat (s @ [c]) = 10 * string_to_nat s + char_digit c"
  by (simp add: string_to_nat_def)

lemma string_to_nat_append:
  "string_to_nat (s @ t) = string_to_nat s * 10 ^ length t + string_to_nat t"
proof (induction t rule: rev_induct)
  case (snoc c t)
  then show ?case
    by (simp add: append_assoc [symmetric] algebra_simps del: append_assoc)
qed simp

lemma string_to_nat_zeros [simp]: "string_to_nat (replicate k (CHR ''0'')) = 0"
proof (induction k)
  case (Suc k)
  then show ?case
    using string_to_nat_append [of "[CHR ''0'']" "replicate k (CHR ''0'')"]
    by (simp add: string_to_nat_def char_digit_def)
qed simp

lemma string_to_nat_nat_to_string [simp]: "string_to_nat (nat_to_string n) = n"
proof (induction n rule: nat_to_string.induct)
  case (1 n)
  show ?case
  proof (cases "n < 10")
    case True
    then show ?thesis
      by (simp add: nat_to_string.simps [of n] string_to_nat_def)
  next
    case False
    with 1 show ?thesis
      by (simp add: nat_to_string.simps [of n])
  qed
qed

lemma nat_to_string_digits: "list_all is_digit (nat_to_string n)"
proof (induction n rule: nat_to_string.induct)
  case (1 n)
  then show ?case
    by (cases "n < 10") (simp_all add: nat_to_string.simps [of n])
qed

lemma nat_to_string_nonempty [simp]: "nat_to_string n \<noteq> []"
  by (subst nat_to_string.simps) simp

lemma nat_to_string_length: "n < 10 ^ k \<Longrightarrow> 0 < k \<Longrightarrow> length (nat_to_string n) \<le> k"
proof (induction n arbitrary: k rule: nat_to_string.induct)
  case (1 n)
  show ?case
  proof (cases "n < 10")
    case True
    then show ?thesis using "1.prems" by (simp add: nat_to_string.simps [of n])
  next
    case False
    with "1.prems" have k: "1 < k"
      by (cases "k = 1") auto
    then obtain j where j: "k = Suc j" "0 < j"
      by (cases k) auto
    with "1.prems" have "n div 10 < 10 ^ j"
      by (simp add: less_mult_imp_div_less mult.commute)
    with "1.IH" False j have "length (nat_to_string (n div 10)) \<le> j"
      by blast
    with False j show ?thesis
      by (simp add: nat_to_string.simps [of n])
  qed
qed

lemma string_to_nat_padEnd:
  "length s \<le> n \<Longrightarrow> string_to_nat (padEnd n (CHR ''0'') s) = string_to_nat s * 10 ^ (n - length s)"
  by (simp add: padEnd_def string_to_nat_append)

lemma string_to_nat_padStart [simp]:
  "string_to_nat (padStart n (CHR ''0'') s) = string_to_nat s"
  by (simp add: padStart_def string_to_nat_append)

lemma length_padStart: "length s \<le> n \<Longrightarrow> length (padStart n c s) = n"
  by (simp add: padStart_def)

lemma digits_padStart: "list_all is_digit s \<Longrightarrow> list_all is_digit (padStart n (CHR ''0'') s)"
  by (auto simp: padStart_def list_all_iff is_digit_def)

lemma digit_not_space: "is_digit c \<Longrightarrow> \<not> js_space c"
  by (auto simp: is_digit_def js_space_def Let_def)

lemma trim_id:
  assumes "s \<noteq> []" "\<not> js_space (hd s)" "\<not> js_space (last s)"
  shows "trim s = s"
proof -
  have "dropWhile js_space s = s"
    using assms(1,2) by (cases s) auto
  moreover have "dropWhile js_space (rev s) = rev s"
    using assms(1,3) by (cases s rule: rev_cases) auto
  ultimately show ?thesis by (simp add: trim_def)
qed

lemma split_on_absent: "c \<notin> set s \<Longrightarrow> split_on c s = [s]"
  by (induction s) auto

lemma split_on_sep: "c \<notin> set s \<Longrightarrow> split_on c (s @ c # t) = s # split_on c t"
  by (induction s) auto

lemma split_on_nonempty [simp]: "split_on c s \<noteq> []"
  by (cases s) (auto split: list.splits)

text \<open>Rules that evaluate the primitives on literal strings and numerals.\<close>

lemma replicate_numeral_unfold: "replicate (numeral k) c = c # replicate (pred_numeral k) c"
  by (simp add: numeral_eq_Suc)

lemmas string_eval = char_of_def bit_0 trim_def js_space_def is_digit_def padEnd_def padStart_def
  string_to_nat_def char_digit_def digit_char_def nat_to_string.simps int_to_string_def
  replicate_numeral_unfold

declare string_eval [js_simps]

subsection \<open>Truncating division\<close>

text \<open>For a positive divisor, \<open>sdiv\<close> and \<open>smod\<close> against the Euclidean pair.\<close>

lemma sdiv_nonneg: "0 \<le> (n::int) \<Longrightarrow> 0 < d \<Longrightarrow> n sdiv d = n div d"
  by (cases "n = 0") (simp_all add: signed_divide_int_def)

lemma smod_nonneg: "0 \<le> (n::int) \<Longrightarrow> 0 < d \<Longrightarrow> n smod d = n mod d"
  by (cases "n = 0") (simp_all add: signed_modulo_int_def)

lemma sdiv_neg: "(n::int) < 0 \<Longrightarrow> 0 < d \<Longrightarrow> n sdiv d = - ((- n) div d)"
  by (simp add: signed_divide_int_def)

lemma smod_neg: "(n::int) < 0 \<Longrightarrow> 0 < d \<Longrightarrow> n smod d = - ((- n) mod d)"
  by (simp add: signed_modulo_int_def)

end
