(* ===== verification/Money.thy ===== *)
theory Money
  imports Prelude
begin

section \<open>The backend money policy (\<open>backend/src/money/decimal.ts\<close>)\<close>

text \<open>
  Division, parsing, printing and pro-rata splitting of stroop amounts. A \<open>bigint\<close> is an
  \<open>int\<close>; a thrown \<open>MoneyError\<close> is the left side of a sum. A finite JavaScript number is
  the rational it denotes, so \<open>toFixed\<close> is the exact rule of the language standard on it.
\<close>

datatype RoundingMode = HalfEven | HalfUp | Floor | Ceil | OtherMode string

datatype MoneyError =
    DivisionByZero | UnknownRoundingMode string | InvalidDecimal string | NegativeTotal
  | NonzeroOverNoWeights | NegativeWeight | NonzeroOverZeroWeight | DriftDetected
  | TypeErrorThrown

definition STROOP_SCALE :: int where
  "STROOP_SCALE = 10000000"

definition STROOP_DECIMALS :: nat where
  "STROOP_DECIMALS = 7"

definition DEFAULT_MODE :: RoundingMode where
  "DEFAULT_MODE = HalfEven"

definition DISPLAY_DECIMAL_PLACES :: nat where
  "DISPLAY_DECIMAL_PLACES = 2"

subsection \<open>Rounded division\<close>

text \<open>The \<open>switch\<close> of \<open>roundDiv\<close>: whether a non-zero remainder rounds away from zero.\<close>

fun round_away :: "RoundingMode \<Rightarrow> int \<Rightarrow> bool \<Rightarrow> int \<Rightarrow> int \<Rightarrow> MoneyError + bool" where
  "round_away Floor quot remainderIsNegative absRemainder d = Inr remainderIsNegative"
| "round_away Ceil quot remainderIsNegative absRemainder d = Inr (\<not> remainderIsNegative)"
| "round_away HalfUp quot remainderIsNegative absRemainder d = Inr (d \<le> absRemainder * 2)"
| "round_away HalfEven quot remainderIsNegative absRemainder d =
     (let doubled = absRemainder * 2 in
      if d < doubled then Inr True
      else if doubled < d then Inr False
      else Inr (quot smod 2 \<noteq> 0))"
| "round_away (OtherMode m) quot remainderIsNegative absRemainder d =
     Inl (UnknownRoundingMode m)"

definition roundDiv :: "int \<Rightarrow> int \<Rightarrow> RoundingMode \<Rightarrow> MoneyError + int" where
  "roundDiv num den mode =
     (if den = 0 then Inl DivisionByZero
      else
        let n = (if den < 0 then - num else num);
            d = (if den < 0 then - den else den);
            quot = n sdiv d;
            remainder = n smod d
        in if remainder = 0 then Inr quot
           else
             let remainderIsNegative = remainder < 0;
                 absRemainder = (if remainderIsNegative then - remainder else remainder)
             in (case round_away mode quot remainderIsNegative absRemainder d of
                   Inl e \<Rightarrow> Inl e
                 | Inr away \<Rightarrow>
                     (if \<not> away then Inr quot
                      else Inr (if remainderIsNegative then quot - 1 else quot + 1))))"

subsection \<open>Parsing and printing\<close>

text \<open>The regular expression \<^verbatim>\<open>/^-?\d+(\.\d+)?$/\<close>.\<close>

definition decimal_string :: "string \<Rightarrow> bool" where
  "decimal_string s =
     (let u = (case s of [] \<Rightarrow> [] | c # cs \<Rightarrow> if c = CHR ''-'' then cs else s);
          whole = takeWhile is_digit u;
          rest = dropWhile is_digit u
      in whole \<noteq> [] \<and>
         (case rest of [] \<Rightarrow> True
          | c # f \<Rightarrow> c = CHR ''.'' \<and> f \<noteq> [] \<and> list_all is_digit f))"

text \<open>The magnitude of an unsigned decimal, from its whole and fractional digits.\<close>

definition stroop_magnitude :: "string \<Rightarrow> string \<Rightarrow> RoundingMode \<Rightarrow> MoneyError + int" where
  "stroop_magnitude whole fractionRaw mode =
     (if length fractionRaw \<le> STROOP_DECIMALS then
        (let paddedFraction = padEnd STROOP_DECIMALS (CHR ''0'') fractionRaw
         in Inr (int (string_to_nat whole) * STROOP_SCALE + int (string_to_nat paddedFraction)))
      else
        (let extraDigits = length fractionRaw - STROOP_DECIMALS;
             den = 10 ^ extraDigits;
             num = int (string_to_nat whole) * 10 ^ length fractionRaw
                   + int (string_to_nat fractionRaw)
         in roundDiv num den mode))"

definition toStroops :: "string \<Rightarrow> RoundingMode \<Rightarrow> MoneyError + int" where
  "toStroops input mode =
     (let trimmed = trim input in
      if \<not> decimal_string trimmed then Inl (InvalidDecimal input)
      else
        let negative = (take 1 trimmed = ''-'');
            unsigned = (if negative then drop 1 trimmed else trimmed);
            parts = split_on (CHR ''.'') unsigned;
            wholeRaw = hd parts;
            fractionRaw = (case tl parts of [] \<Rightarrow> [] | f # _ \<Rightarrow> f);
            whole = (if wholeRaw \<noteq> [] then wholeRaw else ''0'')
        in (case stroop_magnitude whole fractionRaw mode of
              Inl e \<Rightarrow> Inl e
            | Inr magnitude \<Rightarrow> Inr (if negative then - magnitude else magnitude)))"

definition fromStroops :: "int \<Rightarrow> string" where
  "fromStroops v =
     (let negative = v < 0;
          magnitude = (if negative then - v else v);
          whole = magnitude sdiv STROOP_SCALE;
          fraction = padStart STROOP_DECIMALS (CHR ''0'')
                       (int_to_string (magnitude smod STROOP_SCALE))
      in (if negative then ''-'' else '''') @ int_to_string whole @ ''.'' @ fraction)"

text \<open>
  \<open>Number.prototype.toFixed(7)\<close> on the rational a finite number denotes: the nearest
  multiple of \<open>10\<^sup>-\<^sup>f\<close>, the larger one on a tie, of the absolute value, with the sign in
  front. At \<open>10\<^sup>2\<^sup>1\<close> and above the method prints exponent notation, which is \<open>None\<close> here.
\<close>

definition toFixed :: "nat \<Rightarrow> rat \<Rightarrow> string option" where
  "toFixed f x =
     (let s = (if x < 0 then ''-'' else ''''); y = \<bar>x\<bar>;
          n = nat \<lfloor>y * 10 ^ f + 1 / 2\<rfloor>
      in if 10 ^ 21 \<le> y then None
         else if f = 0 then Some (s @ nat_to_string n)
         else Some (s @ nat_to_string (n div 10 ^ f) @ ''.''
                      @ padStart f (CHR ''0'') (nat_to_string (n mod 10 ^ f))))"

definition amountToStroops :: "rat \<Rightarrow> MoneyError + int" where
  "amountToStroops v =
     (case toFixed STROOP_DECIMALS v of
        None \<Rightarrow> Inl (InvalidDecimal ''exponent notation'')
      | Some s \<Rightarrow> toStroops s DEFAULT_MODE)"

text \<open>The argument of \<open>toWholeStroops\<close>: \<open>string | number | bigint | null | undefined\<close>.\<close>

datatype stroop_value = SStr string | SNum rat | SBig int | SNull | SUndefined

definition whole_of_text :: "string \<Rightarrow> MoneyError + int" where
  "whole_of_text text =
     (case toStroops text DEFAULT_MODE of
        Inl e \<Rightarrow> Inl e
      | Inr stroops \<Rightarrow> roundDiv stroops STROOP_SCALE DEFAULT_MODE)"

fun toWholeStroops :: "stroop_value \<Rightarrow> MoneyError + int" where
  "toWholeStroops SNull = Inr 0"
| "toWholeStroops SUndefined = Inr 0"
| "toWholeStroops (SStr s) = (if s = [] then Inr 0 else whole_of_text s)"
| "toWholeStroops (SBig b) = Inr b"
| "toWholeStroops (SNum x) =
     (case toFixed STROOP_DECIMALS x of
        None \<Rightarrow> Inl (InvalidDecimal ''exponent notation'')
      | Some s \<Rightarrow> whole_of_text s)"

subsection \<open>Splitting pro rata\<close>

text \<open>The first loop of \<open>splitProRata\<close>: floor shares, their remainders, the sum allocated.\<close>

fun split_floor ::
  "int \<Rightarrow> int \<Rightarrow> int list \<Rightarrow> int list \<Rightarrow> int list \<Rightarrow> int \<Rightarrow> MoneyError + (int list \<times> int list \<times> int)"
where
  "split_floor totalAmt weightSum [] parts remainders allocated = Inr (parts, remainders, allocated)"
| "split_floor totalAmt weightSum (w # ws) parts remainders allocated =
     (let numerator = totalAmt * w in
      case roundDiv numerator weightSum Floor of
        Inl e \<Rightarrow> Inl e
      | Inr part \<Rightarrow>
          split_floor totalAmt weightSum ws (parts @ [part])
            (remainders @ [numerator - part * weightSum]) (allocated + part))"

text \<open>The inner \<open>for\<close> loop: the first unused index with the largest remainder, or \<open>-1\<close>.\<close>

fun best_scan :: "nat \<Rightarrow> (int \<times> bool) list \<Rightarrow> int \<Rightarrow> int \<Rightarrow> int" where
  "best_scan i [] bestIdx bestRemainder = bestIdx"
| "best_scan i ((r, u) # rest) bestIdx bestRemainder =
     (if u then best_scan (Suc i) rest bestIdx bestRemainder
      else if bestRemainder < r then best_scan (Suc i) rest (int i) r
      else best_scan (Suc i) rest bestIdx bestRemainder)"

text \<open>The \<open>while (remaining > 0n)\<close> loop; \<open>parts[-1] + 1n\<close> is a \<open>TypeError\<close>.\<close>

fun hand_out :: "nat \<Rightarrow> int list \<Rightarrow> int list \<Rightarrow> bool list \<Rightarrow> MoneyError + int list" where
  "hand_out 0 parts remainders used = Inr parts"
| "hand_out (Suc remaining) parts remainders used =
     (let bestIdx = best_scan 0 (zip remainders used) (-1) (-1) in
      if bestIdx < 0 then Inl TypeErrorThrown
      else
        let b = nat bestIdx in
        hand_out remaining (parts[b := parts ! b + 1]) remainders (used[b := True]))"

definition splitProRata :: "int \<Rightarrow> int list \<Rightarrow> MoneyError + int list" where
  "splitProRata totalAmt weights =
     (if totalAmt < 0 then Inl NegativeTotal
      else if weights = [] then (if totalAmt = 0 then Inr [] else Inl NonzeroOverNoWeights)
      else if list_ex (\<lambda>w. w < 0) weights then Inl NegativeWeight
      else
        let weightSum = foldl (+) 0 weights in
        if weightSum = 0 then
          (if totalAmt = 0 then Inr (map (\<lambda>_. 0) weights) else Inl NonzeroOverZeroWeight)
        else
          (case split_floor totalAmt weightSum weights [] [] 0 of
             Inl e \<Rightarrow> Inl e
           | Inr (parts, remainders, allocated) \<Rightarrow>
               let leftover = totalAmt - allocated in
               if leftover < 0 \<or> int (length weights) \<le> leftover then Inl DriftDetected
               else hand_out (nat leftover) parts remainders
                      (replicate (length weights) False)))"

lemmas money_eval = toStroops_def decimal_string_def stroop_magnitude_def whole_of_text_def
  roundDiv_def signed_divide_int_def signed_modulo_int_def DEFAULT_MODE_def STROOP_SCALE_def
  STROOP_DECIMALS_def fromStroops_def

subsection \<open>Rounding is correct in every mode\<close>

lemma roundDiv_pos:
  assumes "0 < d" "0 \<le> n"
  shows "roundDiv n d mode =
     (if n mod d = 0 then Inr (n div d)
      else case round_away mode (n div d) False (n mod d) d of
             Inl e \<Rightarrow> Inl e
           | Inr away \<Rightarrow> Inr (if away then n div d + 1 else n div d))"
proof -
  have "\<not> n mod d < 0" using assms by (simp add: not_less)
  then show ?thesis
    using assms by (auto simp: roundDiv_def Let_def sdiv_nonneg smod_nonneg split: sum.splits)
qed

lemma roundDiv_neg:
  assumes "0 < d" "n < 0"
  shows "roundDiv n d mode =
     (if (- n) mod d = 0 then Inr (- ((- n) div d))
      else case round_away mode (- ((- n) div d)) True ((- n) mod d) d of
             Inl e \<Rightarrow> Inl e
           | Inr away \<Rightarrow> Inr (if away then - ((- n) div d) - 1 else - ((- n) div d)))"
proof -
  have "0 \<le> (- n) mod d" using assms by simp
  then have "(- n) mod d \<noteq> 0 \<Longrightarrow> 0 < (- n) mod d" by linarith
  then show ?thesis
    using assms by (auto simp: roundDiv_def Let_def sdiv_neg smod_neg split: sum.splits)
qed

lemma roundDiv_flip:
  assumes "den < 0"
  shows "roundDiv num den mode = roundDiv (- num) (- den) mode"
  using assms by (simp add: roundDiv_def Let_def)

lemma smod_two_even: "(q::int) smod 2 = 0 \<longleftrightarrow> even q"
proof (cases "0 \<le> q")
  case True
  then show ?thesis by (simp add: smod_nonneg even_iff_mod_2_eq_zero)
next
  case False
  then have "q smod 2 = - ((- q) mod 2)" by (simp add: smod_neg)
  moreover have "(- q) mod 2 = 0 \<longleftrightarrow> even q"
    by (metis even_iff_mod_2_eq_zero even_minus)
  ultimately show ?thesis by simp
qed

text \<open>A law of the positive divisors that is invariant under a flip of both signs.\<close>

lemma roundDiv_by_sign:
  assumes "den \<noteq> 0" "\<And>n d. 0 < d \<Longrightarrow> roundDiv n d mode = F n d" "F (- num) (- den) = F num den"
  shows "roundDiv num den mode = F num den"
proof (cases "0 < den")
  case False
  with assms(1) have "den < 0" by simp
  then have "roundDiv num den mode = F (- num) (- den)"
    using assms(2) [of "- den" "- num"] by (simp only: roundDiv_flip)
  with assms(3) show ?thesis by simp
qed (rule assms(2))

text \<open>Flooring division, and the same with a ceiling.\<close>

lemma neg_div_split:
  fixes n d :: int
  assumes "0 < d" "n < 0" "(- n) mod d \<noteq> 0"
  shows "n div d = - ((- n) div d) - 1"
  using assms by (simp add: div_minus_right zdiv_zminus1_eq_if zmod_zminus1_eq_if split: if_splits)

lemma neg_div_exact:
  fixes n d :: int
  assumes "(- n) mod d = 0"
  shows "n div d = - ((- n) div d)"
  using assms by (metis add.inverse_inverse zdiv_zminus1_eq_if div_by_0 minus_zero)

lemma roundDiv_floor_pos: "0 < d \<Longrightarrow> roundDiv n d Floor = Inr (n div d)"
  by (cases "0 \<le> n")
     (simp_all add: roundDiv_pos roundDiv_neg not_le neg_div_split neg_div_exact)

lemma roundDiv_floor_eq: "d \<noteq> 0 \<Longrightarrow> roundDiv n d Floor = Inr (n div d)"
  by (rule roundDiv_by_sign) (simp_all add: roundDiv_floor_pos)

text \<open>What the two nearest modes compute, on the normalised operands.\<close>

definition nearest :: "int \<Rightarrow> int \<Rightarrow> int \<Rightarrow> bool" where
  "nearest n d q \<longleftrightarrow> 2 * \<bar>n - q * d\<bar> \<le> \<bar>d\<bar>"

lemma nearest_flip: "nearest (- n) (- d) q \<longleftrightarrow> nearest n d q"
proof -
  have "\<bar>- n - q * (- d)\<bar> = \<bar>n - q * d\<bar>"
    by (simp add: abs_minus_commute)
  then show ?thesis by (simp add: nearest_def)
qed

lemma half_even_pos:
  fixes n d :: int
  assumes "0 < d"
  shows "\<exists>q. roundDiv n d HalfEven = Inr q \<and> nearest n d q
           \<and> (2 * \<bar>n - q * d\<bar> = d \<longrightarrow> even q)"
proof (cases "0 \<le> n")
  case True
  define q r where "q = n div d" and "r = n mod d"
  have n: "n - q * d = r" by (simp add: minus_div_mult_eq_mod q_def r_def)
  then have n1: "n - (q + 1) * d = r - d" by (simp add: algebra_simps)
  have r: "0 \<le> r" "r < d" using assms by (simp_all add: r_def)
  have eq: "roundDiv n d HalfEven =
      Inr (if d < r * 2 \<or> (r * 2 = d \<and> odd q) then q + 1 else q)"
    using r assms unfolding roundDiv_pos [OF assms True, folded q_def r_def]
    by (auto simp: Let_def smod_two_even)
  show ?thesis
  proof (cases "d < r * 2 \<or> (r * 2 = d \<and> odd q)")
    case True
    then show ?thesis using eq r n1 by (intro exI [of _ "q + 1"]) (auto simp: nearest_def)
  next
    case False
    then show ?thesis using eq r n by (intro exI [of _ q]) (auto simp: nearest_def)
  qed
next
  case False
  define q r where "q = (- n) div d" and "r = (- n) mod d"
  have "- n - q * d = r" by (simp add: minus_div_mult_eq_mod q_def r_def)
  then have n: "n - (- q) * d = - r" and n1: "n - (- q - 1) * d = d - r"
    by (simp_all add: algebra_simps)
  have r: "0 \<le> r" "r < d" using assms by (simp_all add: r_def)
  have eq: "roundDiv n d HalfEven =
      Inr (if d < r * 2 \<or> (r * 2 = d \<and> odd q) then - q - 1 else - q)"
    using r assms False roundDiv_neg [OF assms, of n HalfEven, folded q_def r_def]
    by (auto simp: Let_def smod_two_even)
  show ?thesis
  proof (cases "d < r * 2 \<or> (r * 2 = d \<and> odd q)")
    case True
    then show ?thesis using eq r n1 by (intro exI [of _ "- q - 1"]) (auto simp: nearest_def)
  next
    case False
    then show ?thesis using eq r n by (intro exI [of _ "- q"]) (auto simp: nearest_def)
  qed
qed

subsection \<open>Parsing what was printed\<close>

lemma digits_no_char: "list_all is_digit s \<Longrightarrow> \<not> is_digit c \<Longrightarrow> c \<notin> set s"
  by (auto simp: list_all_iff)

lemma dot_not_digit [simp]: "\<not> is_digit (CHR ''.'')"
  and minus_not_digit [simp]: "\<not> is_digit (CHR ''-'')"
  by (simp_all add: is_digit_def)

lemma dot_minus_not_space [simp]: "\<not> js_space (CHR ''-'')" "\<not> js_space (CHR ''.'')"
  by (simp_all add: js_space_def)

lemma takeWhile_digits:
  assumes "list_all is_digit w" "\<not> is_digit c"
  shows "takeWhile is_digit (w @ c # f) = w" "dropWhile is_digit (w @ c # f) = c # f"
  using assms by (induction w) auto

text \<open>The strings the printers produce: a sign, digits, a dot and digits.\<close>

lemma decimal_string_printed:
  assumes "list_all is_digit w" "w \<noteq> []" "list_all is_digit f" "f \<noteq> []"
  shows "decimal_string ((if neg then ''-'' else '''') @ w @ CHR ''.'' # f)"
proof -
  have "hd w \<noteq> CHR ''-''"
    using assms(1,2) by (cases w) auto
  then have u: "(case (if neg then ''-'' else '''') @ w @ CHR ''.'' # f of [] \<Rightarrow> []
       | c # cs \<Rightarrow> if c = CHR ''-'' then cs else (if neg then ''-'' else '''') @ w @ CHR ''.'' # f)
     = w @ CHR ''.'' # f"
    using assms(2) by (cases w) auto
  show ?thesis
    using assms by (simp add: decimal_string_def u takeWhile_digits Let_def)
qed

lemma trim_printed:
  assumes "list_all is_digit w" "w \<noteq> []" "list_all is_digit f" "f \<noteq> []"
  shows "trim ((if neg then ''-'' else '''') @ w @ CHR ''.'' # f)
           = (if neg then ''-'' else '''') @ w @ CHR ''.'' # f"
proof (rule trim_id)
  show "(if neg then ''-'' else '''') @ w @ CHR ''.'' # f \<noteq> []" by simp
  have "is_digit (hd w)" using assms(1,2) by (cases w) auto
  then show "\<not> js_space (hd ((if neg then ''-'' else '''') @ w @ CHR ''.'' # f))"
    using assms(2) by (auto simp: digit_not_space)
  have "is_digit (last f)"
    using assms(3,4) by (auto simp: list_all_iff)
  then show "\<not> js_space (last ((if neg then ''-'' else '''') @ w @ CHR ''.'' # f))"
    using assms(4) by (auto simp: digit_not_space)
qed

lemma toStroops_printed:
  assumes w: "list_all is_digit w" "w \<noteq> []" and f: "list_all is_digit f" "f \<noteq> []"
  shows "toStroops ((if neg then ''-'' else '''') @ w @ CHR ''.'' # f) mode =
     (case stroop_magnitude w f mode of
        Inl e \<Rightarrow> Inl e | Inr m \<Rightarrow> Inr (if neg then - m else m))"
proof -
  have parts: "split_on (CHR ''.'') (w @ CHR ''.'' # f) = [w, f]"
    using w f by (simp add: split_on_sep split_on_absent digits_no_char)
  have hd: "take 1 (w @ CHR ''.'' # f) \<noteq> ''-''"
    using w by (cases w) auto
  show ?thesis
    using parts hd decimal_string_printed [OF w f, of neg] trim_printed [OF w f, of neg] w(2)
    by (cases neg) (simp_all add: toStroops_def Let_def split: sum.split)
qed

lemma stroop_magnitude_seven:
  "length f = 7 \<Longrightarrow>
    stroop_magnitude w f mode = Inr (int (string_to_nat w) * 10000000 + int (string_to_nat f))"
  by (simp add: stroop_magnitude_def STROOP_DECIMALS_def STROOP_SCALE_def padEnd_def)

lemma int_to_string_nonneg: "0 \<le> i \<Longrightarrow> int_to_string i = nat_to_string (nat i)"
  by (simp add: int_to_string_def)

text \<open>A seven-digit print of a magnitude parses back to it, with any sign.\<close>

lemma toStroops_seven:
  "toStroops ((if neg then ''-'' else '''') @ nat_to_string (m div 10000000) @ CHR ''.'' #
      padStart 7 (CHR ''0'') (nat_to_string (m mod 10000000))) mode
     = Inr (if neg then - int m else int m)"
proof -
  let ?f = "padStart 7 (CHR ''0'') (nat_to_string (m mod 10000000))"
  have len: "length ?f = 7"
    using nat_to_string_length [of "m mod 10000000" 7] by (simp add: length_padStart)
  have f: "list_all is_digit ?f" "?f \<noteq> []"
    using len by (auto simp: nat_to_string_digits digits_padStart)
  have "int (m div 10000000) * 10000000 + int (m mod 10000000) = int m"
    by (metis div_mult_mod_eq of_nat_add of_nat_mult of_nat_numeral)
  then show ?thesis
    using toStroops_printed [OF nat_to_string_digits nat_to_string_nonempty f]
    by (simp add: stroop_magnitude_seven [OF len])
qed

lemma fromStroops_form:
  "fromStroops v = (if v < 0 then ''-'' else '''') @ nat_to_string (nat \<bar>v\<bar> div 10000000) @
     CHR ''.'' # padStart 7 (CHR ''0'') (nat_to_string (nat \<bar>v\<bar> mod 10000000))"
proof -
  let ?m = "if v < 0 then - v else v"
  have m: "0 \<le> ?m" "nat ?m = nat \<bar>v\<bar>" by auto
  have "?m sdiv STROOP_SCALE = ?m div 10000000" "?m smod STROOP_SCALE = ?m mod 10000000"
    using m(1) by (simp_all add: STROOP_SCALE_def sdiv_nonneg smod_nonneg)
  moreover have "nat (?m div 10000000) = nat \<bar>v\<bar> div 10000000"
    "nat (?m mod 10000000) = nat \<bar>v\<bar> mod 10000000"
    using m by (simp_all add: nat_div_distrib nat_mod_distrib)
  moreover have "0 \<le> ?m div 10000000" "0 \<le> ?m mod 10000000"
    using m(1) by (simp_all add: pos_imp_zdiv_nonneg_iff)
  ultimately show ?thesis
    unfolding fromStroops_def Let_def STROOP_DECIMALS_def
    by (simp add: int_to_string_nonneg)
qed

lemma toStroops_fromStroops: "toStroops (fromStroops v) mode = Inr v"
  unfolding fromStroops_form using toStroops_seven [of "v < 0" "nat \<bar>v\<bar>" mode] by simp

subsection \<open>Numbers rounded to stroops\<close>

lemma toFixed_seven_parse:
  assumes "\<bar>x\<bar> < 10 ^ 21"
  shows "(case toFixed 7 x of None \<Rightarrow> None | Some s \<Rightarrow> Some (toStroops s mode))
     = Some (Inr (if x < 0 then - \<lfloor>- x * 10000000 + 1 / 2\<rfloor> else \<lfloor>x * 10000000 + 1 / 2\<rfloor>))"
proof -
  let ?n = "nat \<lfloor>\<bar>x\<bar> * 10 ^ 7 + 1 / 2\<rfloor>"
  have "0 \<le> \<bar>x\<bar> * 10 ^ 7 + 1 / 2" by simp
  then have n: "int ?n = \<lfloor>\<bar>x\<bar> * 10 ^ 7 + 1 / 2\<rfloor>" by simp
  have "toFixed 7 x = Some ((if x < 0 then ''-'' else '''') @ nat_to_string (?n div 10000000) @
      CHR ''.'' # padStart 7 (CHR ''0'') (nat_to_string (?n mod 10000000)))"
    using assms unfolding toFixed_def Let_def by simp
  then show ?thesis
    using n by (simp add: toStroops_seven)
qed

lemma floor_near:
  fixes y :: rat
  assumes "\<bar>y - of_int k\<bar> < 1 / 2"
  shows "\<lfloor>y + 1 / 2\<rfloor> = k"
  using assms by (intro floor_unique) linarith+

subsection \<open>Splitting conserves the total\<close>

lemma best_scan_found:
  "(\<exists>k<length xs. best_scan i xs b r = int (i + k) \<and> \<not> snd (xs ! k) \<and> r < fst (xs ! k)
      \<and> (\<forall>j<length xs. \<not> snd (xs ! j) \<longrightarrow> fst (xs ! j) \<le> fst (xs ! k))
      \<and> (\<forall>j<k. \<not> snd (xs ! j) \<longrightarrow> fst (xs ! j) < fst (xs ! k)))
   \<or> (best_scan i xs b r = b \<and> (\<forall>j<length xs. \<not> snd (xs ! j) \<longrightarrow> fst (xs ! j) \<le> r))"
  (is "?found i xs b r \<or> ?none i xs b r")
proof (induction xs arbitrary: i b r)
  case (Cons p xs)
  obtain x u where p: "p = (x, u)" by (cases p)
  show ?case
  proof (cases "\<not> u \<and> r < x")
    case True
    then have step: "best_scan i (p # xs) b r = best_scan (Suc i) xs (int i) x" by (simp add: p)
    from Cons.IH [of "Suc i" "int i" x] show ?thesis
    proof
      assume "?found (Suc i) xs (int i) x"
      then obtain k where k: "k < length xs" "best_scan (Suc i) xs (int i) x = int (Suc i + k)"
        "\<not> snd (xs ! k)" "x < fst (xs ! k)"
        "\<forall>j<length xs. \<not> snd (xs ! j) \<longrightarrow> fst (xs ! j) \<le> fst (xs ! k)"
        "\<forall>j<k. \<not> snd (xs ! j) \<longrightarrow> fst (xs ! j) < fst (xs ! k)" by blast
      have "?found i (p # xs) b r"
        using True k step by (intro exI [of _ "Suc k"]) (auto simp: p nth_Cons split: nat.split)
      then show ?thesis ..
    next
      assume "?none (Suc i) xs (int i) x"
      then have "?found i (p # xs) b r"
        using True step by (intro exI [of _ 0]) (auto simp: p nth_Cons split: nat.split)
      then show ?thesis ..
    qed
  next
    case False
    then have step: "best_scan i (p # xs) b r = best_scan (Suc i) xs b r" by (auto simp: p)
    from Cons.IH [of "Suc i" b r] show ?thesis
    proof
      assume "?found (Suc i) xs b r"
      then obtain k where k: "k < length xs" "best_scan (Suc i) xs b r = int (Suc i + k)"
        "\<not> snd (xs ! k)" "r < fst (xs ! k)"
        "\<forall>j<length xs. \<not> snd (xs ! j) \<longrightarrow> fst (xs ! j) \<le> fst (xs ! k)"
        "\<forall>j<k. \<not> snd (xs ! j) \<longrightarrow> fst (xs ! j) < fst (xs ! k)" by blast
      have "?found i (p # xs) b r"
        using False k step by (intro exI [of _ "Suc k"]) (auto simp: p nth_Cons split: nat.split)
      then show ?thesis ..
    next
      assume "?none (Suc i) xs b r"
      then have "?none i (p # xs) b r"
        using False step by (auto simp: p nth_Cons split: nat.split)
      then show ?thesis ..
    qed
  qed
qed simp

text \<open>
  Index \<open>i\<close> is served before index \<open>j\<close> when its remainder is larger, or equal with a
  smaller index: the documented tie-break.
\<close>

definition served_before :: "int list \<Rightarrow> nat \<Rightarrow> nat \<Rightarrow> bool" where
  "served_before remainders i j \<longleftrightarrow>
     remainders ! j < remainders ! i \<or> (remainders ! j = remainders ! i \<and> i < j)"

lemma best_scan_unused:
  assumes len: "length used = length rs" and rs: "\<forall>r\<in>set rs. 0 \<le> r"
    and free: "False \<in> set used"
  obtains k where "k < length rs" "best_scan 0 (zip rs used) (-1) (-1) = int k" "\<not> used ! k"
    "\<forall>j<length rs. \<not> used ! j \<longrightarrow> j \<noteq> k \<longrightarrow> served_before rs k j"
proof -
  from free obtain j where "j < length used" "\<not> used ! j" by (metis in_set_conv_nth)
  then have some: "\<not> (\<forall>j<length (zip rs used). \<not> snd (zip rs used ! j) \<longrightarrow>
      fst (zip rs used ! j) \<le> -1)"
    using len rs nth_mem by fastforce
  then obtain k where k: "k < length rs" "best_scan 0 (zip rs used) (-1) (-1) = int k"
    "\<not> used ! k" "\<forall>j<length rs. \<not> used ! j \<longrightarrow> rs ! j \<le> rs ! k"
    "\<forall>j<k. \<not> used ! j \<longrightarrow> rs ! j < rs ! k"
    using best_scan_found [of "zip rs used" 0 "-1" "-1"] len by (auto simp del: best_scan.simps)
  have "served_before rs k j" if "j < length rs" "\<not> used ! j" "j \<noteq> k" for j
    using k(4,5) that by (cases "j < k") (auto simp: served_before_def order.order_iff_strict)
  with k that show ?thesis by blast
qed

definition served :: "int list \<Rightarrow> bool list \<Rightarrow> bool" where
  "served remainders used \<longleftrightarrow>
     (\<forall>i<length remainders. \<forall>j<length remainders.
        used ! i \<longrightarrow> \<not> used ! j \<longrightarrow> served_before remainders i j)"

text \<open>
  The hand-out loop: with enough unused entries it returns, adds one to as many entries as
  there are left-over stroops, and serves them in the documented order.
\<close>

lemma sum_list_bump:
  "b < length xs \<Longrightarrow> sum_list (xs[b := xs ! b + 1]) = sum_list xs + (1::int)"
  by (induction xs arbitrary: b) (auto split: nat.split)

lemma hand_out_spec:
  assumes "length parts = length rs" "length used = length rs" "\<forall>r\<in>set rs. 0 \<le> r"
    and "k \<le> card {i. i < length rs \<and> \<not> used ! i}" "served rs used"
  shows "\<exists>parts' used'. hand_out k parts rs used = Inr parts'
     \<and> length parts' = length rs \<and> length used' = length rs \<and> served rs used'
     \<and> sum_list parts' = sum_list parts + int k
     \<and> (\<forall>i<length rs. used ! i \<longrightarrow> used' ! i)
     \<and> (\<forall>i<length rs. parts' ! i = parts ! i + (if used' ! i \<and> \<not> used ! i then 1 else 0))
     \<and> card {i. i < length rs \<and> used' ! i} = card {i. i < length rs \<and> used ! i} + k"
  using assms
proof (induction k arbitrary: parts used)
  case 0
  then show ?case by auto
next
  case (Suc k)
  let ?n = "length rs" and ?free = "{i. i < length rs \<and> \<not> used ! i}"
  from Suc.prems(4) have "0 < card ?free" by linarith
  then have "?free \<noteq> {}" by (metis card.empty less_irrefl)
  then have "False \<in> set used" using Suc.prems(2) by (auto simp: in_set_conv_nth)
  with Suc.prems(2,3) obtain b where b: "b < ?n" "best_scan 0 (zip rs used) (-1) (-1) = int b"
    "\<not> used ! b" "\<forall>j<?n. \<not> used ! j \<longrightarrow> j \<noteq> b \<longrightarrow> served_before rs b j"
    by (rule best_scan_unused)
  let ?parts = "parts[b := parts ! b + 1]" and ?used = "used[b := True]"
  have unfold: "hand_out (Suc k) parts rs used = hand_out k ?parts rs ?used"
    using b(2) by simp
  have "{i. i < ?n \<and> \<not> ?used ! i} = ?free - {b}"
    using Suc.prems(2) b(1) by (auto simp: nth_list_update)
  then have free: "k \<le> card {i. i < ?n \<and> \<not> ?used ! i}"
    using Suc.prems(4) b(1,3) by (simp add: card_Diff_singleton)
  have "{i. i < ?n \<and> ?used ! i} = insert b {i. i < ?n \<and> used ! i}"
    using Suc.prems(2) b(1) by (auto simp: nth_list_update)
  then have used: "card {i. i < ?n \<and> ?used ! i} = Suc (card {i. i < ?n \<and> used ! i})"
    using b(3) by simp
  have dom: "served rs ?used"
    using Suc.prems(2,5) b by (auto simp: served_def nth_list_update)
  from Suc.IH [OF _ _ Suc.prems(3) free dom, of ?parts] Suc.prems(1,2)
  obtain parts' used' where IH: "hand_out k ?parts rs ?used = Inr parts'"
    "length parts' = ?n" "length used' = ?n" "served rs used'"
    "sum_list parts' = sum_list ?parts + int k"
    "\<forall>i<?n. ?used ! i \<longrightarrow> used' ! i"
    "\<forall>i<?n. parts' ! i = ?parts ! i + (if used' ! i \<and> \<not> ?used ! i then 1 else 0)"
    "card {i. i < ?n \<and> used' ! i} = card {i. i < ?n \<and> ?used ! i} + k"
    by auto
  have "sum_list ?parts = sum_list parts + 1"
    using b(1) Suc.prems(1) by (simp add: sum_list_bump)
  moreover have "\<forall>i<?n. parts' ! i = parts ! i + (if used' ! i \<and> \<not> used ! i then 1 else 0)"
    using IH(6,7) b(1,3) Suc.prems(1,2) by (auto simp: nth_list_update)
  ultimately show ?case
    unfolding unfold using IH b Suc.prems(2) used
    by (intro exI [of _ parts'] exI [of _ used']) (auto simp: nth_list_update)
qed

lemma foldl_plus: "foldl (+) a (ws :: int list) = a + sum_list ws"
  by (induction ws arbitrary: a) (simp_all add: algebra_simps)

lemma split_floor_eq:
  assumes "0 < W"
  shows "split_floor t W ws ps rs a =
     Inr (ps @ map (\<lambda>w. t * w div W) ws, rs @ map (\<lambda>w. t * w mod W) ws,
          a + (\<Sum>w\<leftarrow>ws. t * w div W))"
  using assms
  by (induction ws arbitrary: ps rs a)
     (simp_all add: roundDiv_floor_eq minus_div_mult_eq_mod Let_def add.assoc)

lemma sum_floor_remainders:
  "(\<Sum>w\<leftarrow>ws. t * w div W) * W + (\<Sum>w\<leftarrow>ws. t * w mod W) = t * sum_list (ws :: int list)"
  by (induction ws) (simp_all add: algebra_simps)

lemma sum_remainders_less:
  "0 < (W::int) \<Longrightarrow> ws \<noteq> [] \<Longrightarrow> (\<Sum>w\<leftarrow>ws. t * w mod W) < int (length ws) * W"
proof (induction ws)
  case (Cons w ws)
  have "t * w mod W < W" using Cons.prems by simp
  then show ?case
    using Cons by (cases "ws = []") (simp_all add: distrib_right add_strict_mono)
qed simp

lemma sum_list_nonneg_zero_all:
  "\<forall>w\<in>set ws. 0 \<le> (w::int) \<Longrightarrow> sum_list ws = 0 \<Longrightarrow> \<forall>w\<in>set ws. w = 0"
  by (simp add: sum_list_nonneg_eq_0_iff)

text \<open>The remainder a share leaves over, and the share a weight is owed rounded down.\<close>

definition floor_share :: "int \<Rightarrow> int list \<Rightarrow> nat \<Rightarrow> int" where
  "floor_share t ws i = t * ws ! i div sum_list ws"

definition share_remainder :: "int \<Rightarrow> int list \<Rightarrow> nat \<Rightarrow> int" where
  "share_remainder t ws i = t * ws ! i mod sum_list ws"

lemma splitProRata_unfold:
  assumes "0 \<le> t" "\<forall>w\<in>set ws. 0 \<le> w" "0 < sum_list ws"
  shows "\<exists>parts used. splitProRata t ws = Inr parts \<and> length parts = length ws
     \<and> length used = length ws \<and> sum_list parts = t
     \<and> served (map (\<lambda>w. t * w mod sum_list ws) ws) used
     \<and> (\<forall>i<length ws. parts ! i = floor_share t ws i + (if used ! i then 1 else 0))
     \<and> int (card {i. i < length ws \<and> used ! i}) * sum_list ws = (\<Sum>w\<leftarrow>ws. t * w mod sum_list ws)"
proof -
  let ?W = "sum_list ws" and ?n = "length ws"
  let ?ps = "map (\<lambda>w. t * w div ?W) ws" and ?rs = "map (\<lambda>w. t * w mod ?W) ws"
  let ?a = "\<Sum>w\<leftarrow>ws. t * w div ?W" and ?R = "\<Sum>w\<leftarrow>ws. t * w mod ?W"
  have ne: "ws \<noteq> []" using assms(3) by auto
  have R: "(t - ?a) * ?W = ?R"
    using sum_floor_remainders [of t ?W ws] by (simp add: algebra_simps)
  have R0: "0 \<le> ?R" using assms(3) by (intro sum_list_nonneg) auto
  have a1: "0 \<le> t - ?a"
    using R R0 assms(3) by (metis mult_neg_pos not_le)
  have "(t - ?a) * ?W < int ?n * ?W"
    using R sum_remainders_less [OF assms(3) ne, of t] by simp
  then have a2: "t - ?a < int ?n" using assms(3) by simp
  have free: "nat (t - ?a) \<le> card {i. i < length ?rs \<and> \<not> replicate ?n False ! i}"
  proof -
    have "{i. i < length ?rs \<and> \<not> replicate ?n False ! i} = {..<?n}" by auto
    then show ?thesis using a1 a2 by (simp add: nat_le_iff)
  qed
  have "served ?rs (replicate ?n False)" by (simp add: served_def)
  moreover have "\<forall>r\<in>set ?rs. 0 \<le> r" using assms(3) by auto
  moreover have "length ?ps = length ?rs" "length (replicate ?n False) = length ?rs" by simp_all
  ultimately obtain parts used where h:
    "hand_out (nat (t - ?a)) ?ps ?rs (replicate ?n False) = Inr parts"
    "length parts = length ?rs" "length used = length ?rs" "served ?rs used"
    "sum_list parts = ?a + int (nat (t - ?a))"
    "\<forall>i<length ?rs. parts ! i = ?ps ! i + (if used ! i \<and> \<not> replicate ?n False ! i then 1 else 0)"
    "card {i. i < length ?rs \<and> used ! i} =
       card {i. i < length ?rs \<and> replicate ?n False ! i} + nat (t - ?a)"
    using hand_out_spec [of ?ps ?rs "replicate ?n False" "nat (t - ?a)"] free by blast
  have parts: "parts ! i = floor_share t ws i + (if used ! i then 1 else 0)" if "i < ?n" for i
    using h(6) that by (simp add: floor_share_def)
  have "{i. i < length ?rs \<and> replicate ?n False ! i} = {}" by auto
  then have card: "int (card {i. i < ?n \<and> used ! i}) = t - ?a"
    using h(7) a1 by simp
  have "\<not> list_ex (\<lambda>w. w < 0) ws" using assms(2) by (auto simp: list_ex_iff not_less)
  then have "splitProRata t ws = Inr parts"
    using assms(1,3) ne a1 a2 h(1)
    by (simp add: splitProRata_def foldl_plus split_floor_eq Let_def)
  then show ?thesis
    using h(2-5) a1 R parts card by (intro exI [of _ parts] exI [of _ used]) simp
qed

text \<open>An entry that leaves no remainder is never handed a left-over stroop.\<close>

lemma served_zero_remainder:
  assumes len: "length used = length rs" and rs: "\<forall>r\<in>set rs. 0 \<le> r \<and> r < W"
    and served: "served rs used"
    and card: "int (card {i. i < length rs \<and> used ! i}) * W = sum_list rs"
    and i: "i < length rs" "rs ! i = 0"
  shows "\<not> used ! i"
proof
  assume ui: "used ! i"
  let ?U = "{j. j < length rs \<and> used ! j}"
  have rest: "used ! j" if "j < length rs" "rs ! j \<noteq> 0" for j
    using served ui i that rs nth_mem [of j rs] by (fastforce simp: served_def served_before_def)
  have "sum_list rs = (\<Sum>j\<in>{0..<length rs}. rs ! j)" by (simp add: sum_list_sum_nth)
  also have "\<dots> = (\<Sum>j\<in>?U - {i}. rs ! j)"
    using rest i(2) by (intro sum.mono_neutral_right) auto
  also have "\<dots> \<le> (\<Sum>j\<in>?U - {i}. W)"
    using rs by (intro sum_mono) (auto intro: less_imp_le)
  also have "\<dots> = (int (card ?U) - 1) * W"
    using card.remove [of ?U i] ui i(1) by simp
  finally have "W \<le> 0" using card by (simp add: algebra_simps)
  with rs i(1) show False using nth_mem [OF i(1)] by fastforce
qed

text \<open>
  C10. Splitting a non-negative total over non-negative weights that are not all zero
  succeeds; the parts add up to exactly the total, each is the share rounded down or one
  stroop more, the extra stroops go to the largest remainders (to the lower index on a
  tie), and a weight of zero receives nothing.
\<close>

theorem splitProRata_correct:
  assumes "0 \<le> t" "\<forall>w\<in>set ws. 0 \<le> w" "0 < sum_list ws"
  shows "\<exists>parts. splitProRata t ws = Inr parts \<and> length parts = length ws \<and> sum_list parts = t
     \<and> (\<forall>i<length ws. parts ! i = floor_share t ws i \<or> parts ! i = floor_share t ws i + 1)
     \<and> (\<forall>i<length ws. \<forall>j<length ws.
          parts ! i = floor_share t ws i + 1 \<longrightarrow> parts ! j = floor_share t ws j \<longrightarrow>
            share_remainder t ws j < share_remainder t ws i
            \<or> (share_remainder t ws j = share_remainder t ws i \<and> i < j))
     \<and> (\<forall>i<length ws. ws ! i = 0 \<longrightarrow> parts ! i = 0)"
proof -
  let ?rs = "map (\<lambda>w. t * w mod sum_list ws) ws"
  obtain parts used where p: "splitProRata t ws = Inr parts" "length parts = length ws"
    "length used = length ws" "sum_list parts = t" "served ?rs used"
    "\<forall>i<length ws. parts ! i = floor_share t ws i + (if used ! i then 1 else 0)"
    "int (card {i. i < length ws \<and> used ! i}) * sum_list ws = sum_list ?rs"
    using splitProRata_unfold [OF assms] by blast
  have order: "share_remainder t ws j < share_remainder t ws i
      \<or> (share_remainder t ws j = share_remainder t ws i \<and> i < j)"
    if "i < length ws" "j < length ws" "used ! i" "\<not> used ! j" for i j
    using p(5) that by (auto simp: served_def served_before_def share_remainder_def)
  have zero: "parts ! i = 0" if "i < length ws" "ws ! i = 0" for i
  proof -
    have "\<forall>r\<in>set ?rs. 0 \<le> r \<and> r < sum_list ws" using assms(3) by auto
    then have "\<not> used ! i"
      using p(3,5,7) that by (intro served_zero_remainder [of used ?rs "sum_list ws"]) simp_all
    with p(6) that show ?thesis by (simp add: floor_share_def)
  qed
  have "parts ! i = floor_share t ws i + 1 \<longleftrightarrow> used ! i"
    "parts ! i = floor_share t ws i \<longleftrightarrow> \<not> used ! i" if "i < length ws" for i
    using p(6) that by simp_all
  with p(1,2,4) order zero show ?thesis by (intro exI [of _ parts]) simp
qed

theorem splitProRata_correct_witness:
  "splitProRata 100 [1, 1, 1, 0] = Inr [34, 33, 33, 0]
   \<and> (\<exists>parts. splitProRata 100 [1, 1, 1, 0] = Inr parts \<and> sum_list parts = 100)"
proof -
  have "splitProRata 100 [1, 1, 1, 0] = Inr [34, 33, 33, 0]" by code_simp
  then show ?thesis using splitProRata_correct [of 100 "[1, 1, 1, 0]"] by auto
qed

text \<open>
  C39. \<open>splitProRata\<close> throws exactly when the total is negative, a weight is negative, or a
  positive total meets weights that are all zero (or absent); the drift check and the
  indexing of the left-over loop never fail.
\<close>

theorem splitProRata_error_iff:
  "((\<exists>e. splitProRata t ws = Inl e) =
      (t < 0 \<or> (ws \<noteq> [] \<and> (\<exists>w\<in>set ws. w < 0)) \<or> (0 < t \<and> sum_list ws = 0)))
   \<and> splitProRata t ws \<noteq> Inl DriftDetected \<and> splitProRata t ws \<noteq> Inl TypeErrorThrown"
proof (cases "0 \<le> t \<and> (\<forall>w\<in>set ws. 0 \<le> w) \<and> 0 < sum_list ws")
  case True
  then obtain parts where "splitProRata t ws = Inr parts"
    using splitProRata_unfold by blast
  with True show ?thesis by (auto simp: not_less)
next
  case some_fails: False
  show ?thesis
  proof (cases "t < 0 \<or> (\<exists>w\<in>set ws. w < 0)")
    case True
    then show ?thesis by (cases "ws = []") (auto simp: splitProRata_def list_ex_iff)
  next
    case nonneg: False
    with some_fails have "sum_list ws = 0"
      using sum_list_nonneg [of ws] by force
    with nonneg show ?thesis
      by (auto simp: splitProRata_def list_ex_iff foldl_plus Let_def)
  qed
qed

text \<open>
  The default mode rounds to the nearest quotient, for every numerator and every
  non-zero divisor of either sign, and an exact tie goes to the even quotient.
\<close>

theorem roundDiv_half_even:
  assumes "den \<noteq> 0"
  shows "\<exists>q. roundDiv num den DEFAULT_MODE = Inr q \<and> 2 * \<bar>num - q * den\<bar> \<le> \<bar>den\<bar>
           \<and> (2 * \<bar>num - q * den\<bar> = \<bar>den\<bar> \<longrightarrow> even q)"
proof (cases "0 < den")
  case True
  then show ?thesis using half_even_pos [of den num] by (auto simp: DEFAULT_MODE_def nearest_def)
next
  case False
  with assms have d: "den < 0" by simp
  from half_even_pos [of "- den" "- num"] d obtain q where
    q: "roundDiv (- num) (- den) HalfEven = Inr q" "nearest (- num) (- den) q"
    "2 * \<bar>- num - q * - den\<bar> = - den \<longrightarrow> even q" by auto
  have "\<bar>- num - q * - den\<bar> = \<bar>num - q * den\<bar>" by (simp add: abs_minus_commute)
  with q d show ?thesis
    by (intro exI [of _ q]) (auto simp: DEFAULT_MODE_def roundDiv_flip nearest_flip nearest_def)
qed

theorem roundDiv_half_even_witness:
  "roundDiv 25 (- 10) DEFAULT_MODE = Inr (- 2) \<and>
   (\<exists>q. roundDiv 25 (- 10) DEFAULT_MODE = Inr q \<and> 2 * \<bar>25 - q * (- 10)\<bar> \<le> \<bar>(- 10)::int\<bar>
      \<and> (2 * \<bar>25 - q * (- 10)\<bar> = \<bar>- 10\<bar> \<longrightarrow> even q))"
proof -
  have "roundDiv 25 (- 10) DEFAULT_MODE = Inr (- 2)" by code_simp
  then show ?thesis using roundDiv_half_even [of "- 10" 25] by simp
qed

lemma ceil_pos: "0 < d \<Longrightarrow> roundDiv n d Ceil = Inr (- ((- n) div d))"
proof (cases "0 \<le> n")
  case True
  assume d: "0 < d"
  show ?thesis
  proof (cases "n mod d = 0")
    case True
    with d \<open>0 \<le> n\<close> show ?thesis using neg_div_exact [of "- n" d] by (simp add: roundDiv_pos)
  next
    case False
    with d \<open>0 \<le> n\<close> have "n \<noteq> 0" by auto
    with \<open>0 \<le> n\<close> have "- n < 0" by simp
    with False d \<open>0 \<le> n\<close> show ?thesis
      using neg_div_split [of d "- n"] by (simp add: roundDiv_pos)
  qed
qed (simp add: roundDiv_neg)

text \<open>
  The directed modes are exact: \<open>Floor\<close> is the largest integer not above the exact
  quotient and \<open>Ceil\<close> the smallest not below it, for both signs of the divisor; the only
  errors are a zero divisor and an unknown mode on a division with a remainder.
\<close>

theorem roundDiv_directed:
  "roundDiv num den Floor = (if den = 0 then Inl DivisionByZero else Inr (num div den))
   \<and> roundDiv num den Ceil = (if den = 0 then Inl DivisionByZero else Inr (- ((- num) div den)))
   \<and> roundDiv num den (OtherMode m) =
       (if den = 0 then Inl DivisionByZero
        else if den dvd num then Inr (num div den) else Inl (UnknownRoundingMode m))"
proof (cases "den = 0")
  case True
  then show ?thesis by (simp add: roundDiv_def)
next
  case False
  have ceil: "roundDiv num den Ceil = Inr (- ((- num) div den))"
    using False by (rule roundDiv_by_sign) (simp_all only: ceil_pos div_minus_minus)
  have pos: "roundDiv n d (OtherMode m) =
      (if d dvd n then Inr (n div d) else Inl (UnknownRoundingMode m))" if "0 < d" for n d
    using that neg_div_exact [of n d]
    by (cases "0 \<le> n") (auto simp: roundDiv_pos roundDiv_neg mod_eq_0_iff_dvd)
  have "roundDiv num den (OtherMode m) =
      (if den dvd num then Inr (num div den) else Inl (UnknownRoundingMode m))"
    using False by (rule roundDiv_by_sign) (simp_all add: pos)
  with ceil False show ?thesis by (simp add: roundDiv_floor_eq)
qed

text \<open>
  C32. Printing an amount at settlement precision and parsing it back gives the amount, in
  every rounding mode and for every sign.
\<close>

theorem toStroops_fromStroops_roundtrip: "toStroops (fromStroops x) mode = Inr x"
  by (rule toStroops_fromStroops)

text \<open>
  Converting an API number to stroops is exact as long as the number is within half a
  stroop of the intended amount: a double that is the nearest one to \<open>k\<close> stroops converts to
  \<open>k\<close>, of either sign.
\<close>

theorem amountToStroops_exact:
  assumes "\<bar>v - of_int k / 10000000\<bar> < 1 / 20000000" "\<bar>v\<bar> < 10 ^ 21"
  shows "amountToStroops v = Inr k"
proof -
  have near: "\<bar>v * 10000000 - of_int k\<bar> < 1 / 2"
    using assms(1) by (simp add: abs_less_iff field_simps)
  then have pos: "\<lfloor>v * 10000000 + 1 / 2\<rfloor> = k" by (rule floor_near)
  have "\<bar>- v * 10000000 - of_int (- k)\<bar> < 1 / 2"
    using near by (simp add: abs_minus_commute)
  then have neg: "- \<lfloor>- v * 10000000 + 1 / 2\<rfloor> = k" using floor_near by fastforce
  from toFixed_seven_parse [OF assms(2), of HalfEven] show ?thesis
    using pos neg
    by (auto simp: amountToStroops_def STROOP_DECIMALS_def DEFAULT_MODE_def split: option.splits)
qed

theorem amountToStroops_exact_witness:
  "amountToStroops (5 / 2 + 1 / 10 ^ 15) = Inr 25000000
   \<and> amountToStroops (- (1 / 10000000)) = Inr (- 1)"
  using amountToStroops_exact [of "5 / 2 + 1 / 10 ^ 15" 25000000]
    amountToStroops_exact [of "- (1 / 10000000)" "- 1"] by simp

lemma whole_of_text_magnitude:
  assumes "toStroops s DEFAULT_MODE = Inr (m * 10000000)"
  shows "whole_of_text s = Inr m"
proof -
  obtain q where q: "roundDiv (m * 10000000) 10000000 HalfEven = Inr q"
    "nearest (m * 10000000) 10000000 q"
    using half_even_pos [of 10000000 "m * 10000000"] by auto
  then have "q = m" by (simp add: nearest_def)
  with q(1) assms show ?thesis
    by (simp add: whole_of_text_def STROOP_SCALE_def DEFAULT_MODE_def)
qed


lemma toStroops_integer:
  assumes "list_all is_digit w" "w \<noteq> []"
  shows "toStroops ((if neg then ''-'' else '''') @ w) mode =
     Inr (if neg then - int (string_to_nat w) * 10000000 else int (string_to_nat w) * 10000000)"
proof -
  let ?s = "(if neg then ''-'' else '''') @ w"
  have d: "is_digit (hd w)" "is_digit (last w)" using assms by (auto simp: list_all_iff)
  then have nospace: "\<not> js_space (hd ?s)" "\<not> js_space (last ?s)"
    using assms(2) by (auto simp: digit_not_space)
  have trim: "trim ?s = ?s" by (rule trim_id) (use assms(2) nospace in auto)
  have w: "takeWhile is_digit w = w" "dropWhile is_digit w = []"
    using assms(1) by (induction w) auto
  have hd: "hd w \<noteq> CHR ''-''" "take 1 w \<noteq> ''-''"
    using d(1) assms(2) by (cases w; auto)+
  have "decimal_string ?s"
    using w assms(2) hd(1) by (cases w) (auto simp: decimal_string_def Let_def)
  moreover have "split_on (CHR ''.'') w = [w]"
    using assms(1) by (simp add: split_on_absent digits_no_char)
  ultimately show ?thesis
    using trim hd(2) assms(2)
    by (cases neg)
       (simp_all add: toStroops_def Let_def stroop_magnitude_def string_to_nat_padEnd
          STROOP_DECIMALS_def STROOP_SCALE_def padEnd_def)
qed

text \<open>
  A whole number of stroops read back from a database or chain value is that number,
  whether it arrives as a \<open>bigint\<close>, as its decimal text or as a number; a text with a
  fraction is rounded to the nearest stroop, half to even.
\<close>

theorem toWholeStroops_whole:
  "toWholeStroops (SBig i) = Inr i \<and> toWholeStroops (SStr (int_to_string i)) = Inr i
   \<and> (\<bar>i\<bar> < 10 ^ 21 \<longrightarrow> toWholeStroops (SNum (of_int i)) = Inr i)"
proof -
  have eq: "int_to_string i = (if i < 0 then ''-'' else '''') @ nat_to_string (nat \<bar>i\<bar>)"
    by (simp add: int_to_string_def)
  then have parsed: "toStroops (int_to_string i) DEFAULT_MODE = Inr (i * 10000000)"
    using toStroops_integer [OF nat_to_string_digits nat_to_string_nonempty, of "i < 0" "nat \<bar>i\<bar>"]
    by simp
  have ne: "int_to_string i \<noteq> []" by (simp add: eq)
  have "toWholeStroops (SNum (of_int i)) = Inr i" if "\<bar>i\<bar> < 10 ^ 21"
  proof -
    have "(of_int \<bar>i\<bar> :: rat) < of_int (10 ^ 21)" using that by (simp only: of_int_less_iff)
    then have small: "\<bar>of_int i :: rat\<bar> < 10 ^ 21" by simp
    have "\<lfloor>(of_int i :: rat) * 10000000 + 1 / 2\<rfloor> = i * 10000000"
      "\<lfloor>- (of_int i :: rat) * 10000000 + 1 / 2\<rfloor> = - (i * 10000000)"
      by (rule floor_near; simp)+
    with toFixed_seven_parse [OF small, of DEFAULT_MODE]
    show ?thesis
      by (auto simp: STROOP_DECIMALS_def whole_of_text_magnitude split: option.splits)
  qed
  with parsed ne show ?thesis by (simp add: whole_of_text_magnitude)
qed

theorem toWholeStroops_whole_witness:
  "toWholeStroops (SNum 250) = Inr 250 \<and> toWholeStroops (SStr ''250'') = Inr 250
   \<and> toWholeStroops (SStr ''0.5'') = Inr 0 \<and> toWholeStroops (SStr ''1.5'') = Inr 2"
proof -
  have "int_to_string 250 = ''250''" by (simp add: js_simps)
  moreover have "toWholeStroops (SStr ''0.5'') = Inr 0" "toWholeStroops (SStr ''1.5'') = Inr 2"
    by (simp_all add: js_simps money_eval)
  ultimately show ?thesis using toWholeStroops_whole [of 250] by simp
qed

end
