(* ===== verification/MoneyFormat.thy ===== *)
theory MoneyFormat
  imports Money
begin

section \<open>The frontend money policy (\<open>frontend/lib/money/format.ts\<close>)\<close>

text \<open>
  The frontend's own copy of rounded division, with its display formatter and parser, and
  their agreement with the backend's \<open>decimal.ts\<close>. The grouping of \<open>toLocaleString\<close> depends
  on the locale data of the runtime and is a parameter of \<open>formatStroops\<close>.
\<close>

fun round_away_fe :: "RoundingMode \<Rightarrow> int \<Rightarrow> bool \<Rightarrow> int \<Rightarrow> int \<Rightarrow> MoneyError + bool" where
  "round_away_fe mode quot remainderIsNegative absRemainder d =
     (case mode of
        Floor \<Rightarrow> Inr remainderIsNegative
      | Ceil \<Rightarrow> Inr (\<not> remainderIsNegative)
      | HalfUp \<Rightarrow> Inr (absRemainder * 2 \<ge> d)
      | HalfEven \<Rightarrow>
          (if absRemainder * 2 > d then Inr True
           else if absRemainder * 2 < d then Inr False
           else Inr (quot smod 2 \<noteq> 0))
      | OtherMode m \<Rightarrow> Inl (UnknownRoundingMode m))"

definition roundDiv_fe :: "int \<Rightarrow> int \<Rightarrow> RoundingMode \<Rightarrow> MoneyError + int" where
  "roundDiv_fe num den mode =
     (if den = 0 then Inl DivisionByZero
      else
        let (n, d) = (if den < 0 then (- num, - den) else (num, den));
            quot = n sdiv d; remainder = n smod d
        in if remainder = 0 then Inr quot
           else
             let remainderIsNegative = remainder < 0;
                 absRemainder = (if remainderIsNegative then - remainder else remainder)
             in case round_away_fe mode quot remainderIsNegative absRemainder d of
                  Inl e \<Rightarrow> Inl e
                | Inr roundAwayFromZero \<Rightarrow>
                    if \<not> roundAwayFromZero then Inr quot
                    else Inr (if remainderIsNegative then quot - 1 else quot + 1))"

record FormatStroopsOptions =
  decimalPlaces :: "int option"
  mode_opt :: "RoundingMode option"
  grouped :: "bool option"
  locale_opt :: "string option"

datatype FormatError = FMoney MoneyError | NegativeDecimalPlaces

text \<open>Rescaling from stroop precision to the display precision.\<close>

definition rescale :: "int \<Rightarrow> nat \<Rightarrow> RoundingMode \<Rightarrow> MoneyError + int" where
  "rescale magnitude dp mode =
     (if STROOP_DECIMALS \<le> dp then Inr (magnitude * 10 ^ (dp - STROOP_DECIMALS))
      else roundDiv_fe magnitude (10 ^ (STROOP_DECIMALS - dp)) mode)"

definition formatStroops ::
  "(string \<Rightarrow> int \<Rightarrow> string) \<Rightarrow> int \<Rightarrow> FormatStroopsOptions \<Rightarrow> FormatError + string"
where
  "formatStroops toLocaleString v opts =
     (let dp = (case decimalPlaces opts of None \<Rightarrow> int DISPLAY_DECIMAL_PLACES | Some d \<Rightarrow> d);
          mode = (case mode_opt opts of None \<Rightarrow> DEFAULT_MODE | Some m \<Rightarrow> m)
      in if dp < 0 then Inl NegativeDecimalPlaces
         else
           let negative = v < 0;
               magnitude = (if negative then - v else v)
           in case rescale magnitude (nat dp) mode of
                Inl e \<Rightarrow> Inl (FMoney e)
              | Inr scaledMagnitude \<Rightarrow>
                  let scale = 10 ^ nat dp;
                      whole = scaledMagnitude sdiv scale;
                      fraction = scaledMagnitude smod scale;
                      wholeStr =
                        (if (case grouped opts of None \<Rightarrow> False | Some g \<Rightarrow> g)
                         then toLocaleString
                                (case locale_opt opts of None \<Rightarrow> ''en-US'' | Some l \<Rightarrow> l) whole
                         else int_to_string whole);
                      sign = (if negative \<and> scaledMagnitude \<noteq> 0 then ''-'' else '''')
                  in if dp = 0 then Inr (sign @ wholeStr)
                     else Inr (sign @ wholeStr @ ''.''
                                @ padStart (nat dp) (CHR ''0'') (int_to_string fraction)))"

definition parse_magnitude :: "string \<Rightarrow> string \<Rightarrow> RoundingMode \<Rightarrow> MoneyError + int" where
  "parse_magnitude whole fractionRaw mode =
     (if length fractionRaw \<le> STROOP_DECIMALS
      then Inr (int (string_to_nat whole) * STROOP_SCALE
                + int (string_to_nat (padEnd STROOP_DECIMALS (CHR ''0'') fractionRaw)))
      else roundDiv_fe
             (int (string_to_nat whole) * 10 ^ length fractionRaw
              + int (string_to_nat fractionRaw))
             (10 ^ (length fractionRaw - STROOP_DECIMALS)) mode)"

definition parseAmount :: "string \<Rightarrow> RoundingMode \<Rightarrow> MoneyError + int" where
  "parseAmount text_in mode =
     (let trimmed = filter (\<lambda>c. c \<noteq> CHR '','') (trim text_in) in
      if \<not> decimal_string trimmed then Inl (InvalidDecimal text_in)
      else
        let negative = (take 1 trimmed = ''-'');
            unsigned = (if negative then drop 1 trimmed else trimmed);
            parts = split_on (CHR ''.'') unsigned;
            wholeRaw = hd parts;
            fractionRaw = (case tl parts of [] \<Rightarrow> [] | f # _ \<Rightarrow> f);
            whole = (if wholeRaw \<noteq> [] then wholeRaw else ''0'')
        in case parse_magnitude whole fractionRaw mode of
             Inl e \<Rightarrow> Inl e
           | Inr magnitude \<Rightarrow> Inr (if negative then - magnitude else magnitude))"

definition default_opts :: FormatStroopsOptions where
  "default_opts = \<lparr>decimalPlaces = None, mode_opt = None, grouped = None, locale_opt = None\<rparr>"

subsection \<open>The two layers agree\<close>

lemma round_away_fe_eq: "round_away_fe mode q neg a d = round_away mode q neg a d"
  by (cases mode) (simp_all add: Let_def)

lemma roundDiv_fe_eq: "roundDiv_fe num den mode = roundDiv num den mode"
  unfolding roundDiv_fe_def roundDiv_def
  by (cases "den < 0") (simp_all add: round_away_fe_eq Let_def del: round_away_fe.simps)

lemma parse_magnitude_eq: "parse_magnitude w f mode = stroop_magnitude w f mode"
  by (simp add: parse_magnitude_def stroop_magnitude_def roundDiv_fe_eq Let_def)

lemma filter_absent: "c \<notin> set s \<Longrightarrow> filter (\<lambda>x. x \<noteq> c) s = s"
  by (induction s) auto

lemma set_trim: "set (trim s) \<subseteq> set s"
  by (auto simp: trim_def dest!: set_dropWhileD)

lemma parseAmount_no_comma: "CHR '','' \<notin> set s \<Longrightarrow> parseAmount s mode = toStroops s mode"
  using set_trim [of s]
  by (subst parseAmount_def, subst filter_absent)
     (auto simp: toStroops_def parse_magnitude_eq Let_def)

text \<open>
  The frontend and the backend agree bit for bit: rounded division is the same
  function, and an amount typed without thousands separators parses to the same stroops or
  fails with the same error.
\<close>

theorem frontend_backend_agree:
  "roundDiv_fe num den mode = roundDiv num den mode
   \<and> (CHR '','' \<notin> set s \<longrightarrow> parseAmount s mode = toStroops s mode)"
  by (simp add: roundDiv_fe_eq parseAmount_no_comma)

theorem frontend_backend_agree_witness:
  "parseAmount ''12.5'' HalfEven = Inr 125000000 \<and> toStroops ''12.5'' HalfEven = Inr 125000000"
proof -
  have "toStroops ''12.5'' HalfEven = Inr 125000000" by (simp add: js_simps money_eval)
  then show ?thesis using frontend_backend_agree [of 1 1 HalfEven "''12.5''"] by simp
qed


subsection \<open>Display precision\<close>

lemma rescale_nearest:
  assumes "dp \<le> 7" "0 \<le> m"
  shows "\<exists>q. rescale m dp HalfEven = Inr q \<and> 0 \<le> q \<and> 2 * \<bar>m - q * 10 ^ (7 - dp)\<bar> \<le> 10 ^ (7 - dp)"
proof (cases "dp = 7")
  case True
  then show ?thesis using assms(2) by (simp add: rescale_def STROOP_DECIMALS_def)
next
  case False
  let ?d = "10 ^ (7 - dp) :: int"
  have d: "0 < ?d" by simp
  obtain q where q: "roundDiv m ?d HalfEven = Inr q" "nearest m ?d q"
    using half_even_pos [OF d] by blast
  have "0 \<le> m div ?d" using assms(2) d by (simp add: pos_imp_zdiv_nonneg_iff)
  then have "0 \<le> q"
    using q(1) roundDiv_pos [OF d assms(2), of HalfEven]
    by (auto simp: Let_def split: if_splits)
  with q False assms(1) show ?thesis
    by (auto simp: rescale_def STROOP_DECIMALS_def roundDiv_fe_eq nearest_def)
qed

lemma magnitude_of_display:
  assumes "0 \<le> q" "dp \<le> 7" "length f = dp" "string_to_nat f = nat (q mod 10 ^ dp)"
    and "string_to_nat w = nat (q div 10 ^ dp)"
  shows "stroop_magnitude w f mode = Inr (q * 10 ^ (7 - dp))"
proof -
  have nn: "0 \<le> q div 10 ^ dp" "0 \<le> q mod 10 ^ dp"
    using assms(1) by (simp_all add: pos_imp_zdiv_nonneg_iff)
  have scale: "(10000000::int) = 10 ^ dp * 10 ^ (7 - dp)"
    using assms(2) by (simp flip: power_add)
  have "(q div 10 ^ dp) * 10000000 + (q mod 10 ^ dp) * 10 ^ (7 - dp)
      = ((q div 10 ^ dp) * 10 ^ dp + q mod 10 ^ dp) * 10 ^ (7 - dp)"
    unfolding scale by (simp only: distrib_right mult.assoc)
  also have "\<dots> = q * 10 ^ (7 - dp)" by (simp only: div_mult_mod_eq)
  finally show ?thesis
    using assms nn
    by (simp add: stroop_magnitude_def STROOP_DECIMALS_def STROOP_SCALE_def string_to_nat_padEnd)
qed

lemma format_form:
  assumes "dp \<le> 7" "rescale \<bar>v\<bar> dp HalfEven = Inr q" "0 \<le> q"
  shows "formatStroops toLoc v (default_opts\<lparr>decimalPlaces := Some (int dp)\<rparr>) =
     Inr ((if v < 0 \<and> q \<noteq> 0 then ''-'' else '''') @ nat_to_string (nat (q div 10 ^ dp)) @
        (if dp = 0 then [] else CHR ''.'' #
           padStart dp (CHR ''0'') (nat_to_string (nat (q mod 10 ^ dp)))))"
proof -
  have m: "(if v < 0 then - v else v) = \<bar>v\<bar>" by simp
  have q: "q sdiv 10 ^ dp = q div 10 ^ dp" "q smod 10 ^ dp = q mod 10 ^ dp"
    "0 \<le> q div 10 ^ dp" "0 \<le> q mod 10 ^ dp"
    using assms(3) by (simp_all add: sdiv_nonneg smod_nonneg pos_imp_zdiv_nonneg_iff)
  show ?thesis
    unfolding formatStroops_def Let_def m
    using q assms(2,3) by (simp add: default_opts_def DEFAULT_MODE_def int_to_string_nonneg)
qed

lemma parse_display:
  assumes "dp \<le> 7" "0 \<le> q"
  shows "parseAmount ((if neg then ''-'' else '''') @ nat_to_string (nat (q div 10 ^ dp)) @
        (if dp = 0 then [] else CHR ''.'' #
           padStart dp (CHR ''0'') (nat_to_string (nat (q mod 10 ^ dp))))) mode
     = Inr ((if neg then - 1 else 1) * (q * 10 ^ (7 - dp)))"
proof -
  let ?w = "nat_to_string (nat (q div 10 ^ dp))"
  let ?f = "padStart dp (CHR ''0'') (nat_to_string (nat (q mod 10 ^ dp)))"
  let ?s = "(if neg then ''-'' else '''') @ ?w @ (if dp = 0 then [] else CHR ''.'' # ?f)"
  have w: "list_all is_digit ?w" "?w \<noteq> []" by (simp_all add: nat_to_string_digits)
  have f: "list_all is_digit ?f" by (simp add: nat_to_string_digits digits_padStart)
  have nocomma: "\<not> is_digit (CHR '','')" by (simp add: is_digit_def)
  have "CHR '','' \<notin> set ?s"
    using digits_no_char [OF w(1) nocomma] digits_no_char [OF f nocomma] by auto
  then have parse: "parseAmount ?s mode = toStroops ?s mode" by (rule parseAmount_no_comma)
  show ?thesis
  proof (cases "dp = 0")
    case True
    then have "int (string_to_nat ?w) = q" using assms(2) by simp
    with True parse show ?thesis
      using toStroops_integer [OF w, of neg mode] by simp
  next
    case False
    have "nat (q mod 10 ^ dp) < 10 ^ dp" by (simp add: nat_less_iff)
    then have len: "length ?f = dp"
      using nat_to_string_length False by (intro length_padStart) blast
    with False have "?f \<noteq> []" by auto
    with False parse show ?thesis
      using toStroops_printed [OF w f, of neg mode]
        magnitude_of_display [OF assms(2,1) len, of ?w mode] by simp
  qed
qed

text \<open>
  Formatting a stroop amount at \<open>dp\<close> (at most 7) fractional digits and parsing the
  displayed text gives an amount within half a display unit of the original, and the
  original itself whenever it is a multiple of the display unit.
\<close>

theorem parse_format_display:
  assumes "dp \<le> 7"
  shows "\<exists>s r. formatStroops toLoc v (default_opts\<lparr>decimalPlaces := Some (int dp)\<rparr>) = Inr s
     \<and> parseAmount s mode = Inr r
     \<and> 2 * \<bar>v - r\<bar> \<le> 10 ^ (7 - dp) \<and> (10 ^ (7 - dp) dvd v \<longrightarrow> r = v)"
proof -
  let ?u = "10 ^ (7 - dp) :: int"
  obtain q where q: "rescale \<bar>v\<bar> dp HalfEven = Inr q" "0 \<le> q" "2 * \<bar>\<bar>v\<bar> - q * ?u\<bar> \<le> ?u"
    using rescale_nearest [OF assms, of "\<bar>v\<bar>"] by auto
  define r where "r = (if v < 0 \<and> q \<noteq> 0 then - 1 else 1) * (q * ?u)"
  have "\<bar>v - r\<bar> = \<bar>\<bar>v\<bar> - q * ?u\<bar>" by (auto simp: r_def)
  with q(3) have close: "2 * \<bar>v - r\<bar> \<le> ?u" by simp
  have "r = v" if "?u dvd v"
  proof -
    have "?u dvd v - r" using that by (auto simp: r_def intro: dvd_diff)
    with close show ?thesis
      using dvd_imp_le_int [of "v - r" ?u] by (cases "v = r") auto
  qed
  with close q format_form [OF assms q(1,2)] parse_display [OF assms q(2)] r_def
  show ?thesis by auto
qed

theorem parse_format_display_witness:
  "\<exists>s r. formatStroops (\<lambda>_ _. []) 12345678 (default_opts\<lparr>decimalPlaces := Some (int 2)\<rparr>) = Inr s
     \<and> parseAmount s HalfEven = Inr r \<and> 2 * \<bar>12345678 - r\<bar> \<le> 100000"
  using parse_format_display [of 2 "\<lambda>_ _. []" 12345678 HalfEven] by auto

text \<open>
  At settlement precision the display formatter prints exactly what the backend's
  \<open>fromStroops\<close> prints, and a negative number of decimal places is refused.
\<close>

theorem format_seven_is_fromStroops:
  "formatStroops toLoc v (default_opts\<lparr>decimalPlaces := Some 7\<rparr>) = Inr (fromStroops v)
   \<and> formatStroops toLoc v (default_opts\<lparr>decimalPlaces := Some (- 1)\<rparr>) = Inl NegativeDecimalPlaces"
proof -
  have r: "rescale \<bar>v\<bar> 7 HalfEven = Inr \<bar>v\<bar>" by (simp add: rescale_def STROOP_DECIMALS_def)
  have "formatStroops toLoc v (default_opts\<lparr>decimalPlaces := Some (int 7)\<rparr>) = Inr (fromStroops v)"
    using format_form [of 7 v "\<bar>v\<bar>" toLoc] r
    by (simp add: fromStroops_form nat_div_distrib nat_mod_distrib)
  moreover have "formatStroops toLoc v (default_opts\<lparr>decimalPlaces := Some (- 1)\<rparr>)
      = Inl NegativeDecimalPlaces"
    by (simp add: formatStroops_def default_opts_def)
  ultimately show ?thesis by simp
qed

end
