(* ===== verification/JsonParse.thy ===== *)
theory JsonParse
  imports Json
begin

section \<open>\<open>JSON.parse\<close>\<close>

text \<open>
  A recursive-descent model of \<open>JSON.parse\<close> and its round trip with \<open>JSON.stringify\<close>.
  \<open>None\<close> is the \<open>SyntaxError\<close>. Strings hold code units below 256, so a \<open>\u\<close> escape above
  that lies outside the model and is refused. A repeated member keeps its first place and
  takes the last value, as in a JavaScript object. The fuel bounds the call depth; every call
  of \<open>parse_value\<close> consumes a character, so twice the length of the text is enough.
\<close>

definition json_ws :: "char \<Rightarrow> bool" where
  "json_ws c \<longleftrightarrow> (let n = (of_char c :: nat) in n = 32 \<or> n = 9 \<or> n = 10 \<or> n = 13)"

definition skip_ws :: "string \<Rightarrow> string" where
  "skip_ws = dropWhile json_ws"

definition hex_nibble :: "char \<Rightarrow> nat option" where
  "hex_nibble c =
     (let n = (of_char c :: nat) in
      if 48 \<le> n \<and> n \<le> 57 then Some (n - 48)
      else if 97 \<le> n \<and> n \<le> 102 then Some (n - 87)
      else if 65 \<le> n \<and> n \<le> 70 then Some (n - 55)
      else None)"

definition unescape :: "char \<Rightarrow> char option" where
  "unescape c =
     (let n = (of_char c :: nat) in
      if n = 34 \<or> n = 92 \<or> n = 47 then Some c
      else if n = 98 then Some (char_of (8::nat))
      else if n = 116 then Some (char_of (9::nat))
      else if n = 110 then Some (char_of (10::nat))
      else if n = 102 then Some (char_of (12::nat))
      else if n = 114 then Some (char_of (13::nat))
      else None)"

definition unicode_escape :: "char \<Rightarrow> char \<Rightarrow> char \<Rightarrow> char \<Rightarrow> char option" where
  "unicode_escape a b c d =
     (case (hex_nibble a, hex_nibble b, hex_nibble c, hex_nibble d) of
        (Some w, Some x, Some y, Some z) \<Rightarrow>
          (let n = 4096 * w + 256 * x + 16 * y + z in if n < 256 then Some (char_of n) else None)
      | _ \<Rightarrow> None)"

definition cons_result :: "char option \<Rightarrow> (string \<times> string) option \<Rightarrow> (string \<times> string) option" where
  "cons_result c r =
     (case (c, r) of (Some x, Some (xs, rest)) \<Rightarrow> Some (x # xs, rest) | _ \<Rightarrow> None)"

text \<open>The characters of a string up to its closing quote.\<close>

fun parse_chars :: "string \<Rightarrow> (string \<times> string) option" where
  "parse_chars [] = None"
| "parse_chars (c # s) =
     (if c = CHR 0x22 then Some ([], s)
      else if c = CHR 0x5C then
        (case s of
           [] \<Rightarrow> None
         | e # s1 \<Rightarrow>
             if e = CHR ''u'' then
               (case s1 of
                  h1 # h2 # h3 # h4 # s2 \<Rightarrow>
                    cons_result (unicode_escape h1 h2 h3 h4) (parse_chars s2)
                | _ \<Rightarrow> None)
             else cons_result (unescape e) (parse_chars s1))
      else if (of_char c :: nat) < 32 then None
      else cons_result (Some c) (parse_chars s))"

definition JS_MAX_INT :: nat where
  "JS_MAX_INT = 2 ^ 53"

fun lex_sign :: "string \<Rightarrow> string \<times> string" where
  "lex_sign [] = ([], [])"
| "lex_sign (c # cs) = (if c = CHR ''-'' then ([c], cs) else ([], c # cs))"

fun lex_frac :: "string \<Rightarrow> string \<times> string" where
  "lex_frac [] = ([], [])"
| "lex_frac (c # cs) =
     (if c = CHR ''.'' then (c # takeWhile is_digit cs, dropWhile is_digit cs) else ([], c # cs))"

fun lex_exp :: "string \<Rightarrow> string \<times> string" where
  "lex_exp [] = ([], [])"
| "lex_exp (c # cs) =
     (if c = CHR ''e'' \<or> c = CHR ''E'' then
        (case cs of
           d # ds \<Rightarrow>
             if d = CHR ''+'' \<or> d = CHR ''-''
             then (c # d # takeWhile is_digit ds, dropWhile is_digit ds)
             else (c # takeWhile is_digit cs, dropWhile is_digit cs)
         | [] \<Rightarrow> ([c], []))
      else ([], c # cs))"

definition number_value :: "string \<Rightarrow> string \<Rightarrow> string \<Rightarrow> string \<Rightarrow> json option" where
  "number_value sign whole fract expo =
     (if whole = [] \<or> (1 < length whole \<and> hd whole = CHR ''0'') then None
      else if fract = ''.'' then None
      else if expo \<noteq> [] \<and> \<not> is_digit (last expo) then None
      else if fract = [] \<and> expo = [] \<and> string_to_nat whole \<le> JS_MAX_INT
        then Some (JInt (if sign = [] then int (string_to_nat whole)
                         else - int (string_to_nat whole)))
      else Some (JNum (sign @ whole @ fract @ expo)))"

definition parse_number :: "string \<Rightarrow> (json \<times> string) option" where
  "parse_number s =
     (case lex_sign s of (sign, s1) \<Rightarrow>
      case lex_frac (dropWhile is_digit s1) of (fract, s2) \<Rightarrow>
      case lex_exp s2 of (expo, s3) \<Rightarrow>
        map_option (\<lambda>v. (v, s3)) (number_value sign (takeWhile is_digit s1) fract expo))"

definition expect :: "char \<Rightarrow> string \<Rightarrow> string option" where
  "expect c s = (case s of x # xs \<Rightarrow> if x = c then Some xs else None | [] \<Rightarrow> None)"

definition word_then :: "string \<Rightarrow> json \<Rightarrow> string \<Rightarrow> (json \<times> string) option" where
  "word_then w v s = (if take (length w) s = w then Some (v, drop (length w) s) else None)"

fun obj_put :: "string \<Rightarrow> json \<Rightarrow> (string \<times> json) list \<Rightarrow> (string \<times> json) list" where
  "obj_put k v [] = [(k, v)]"
| "obj_put k v ((k', v') # kvs) = (if k' = k then (k, v) # kvs else (k', v') # obj_put k v kvs)"

definition obj_of :: "(string \<times> json) list \<Rightarrow> json" where
  "obj_of kvs = JObj (foldl (\<lambda>acc kv. obj_put (fst kv) (snd kv) acc) [] kvs)"

fun parse_value :: "nat \<Rightarrow> string \<Rightarrow> (json \<times> string) option"
and parse_elems :: "nat \<Rightarrow> string \<Rightarrow> (json list \<times> string) option"
and parse_members :: "nat \<Rightarrow> string \<Rightarrow> ((string \<times> json) list \<times> string) option" where
  "parse_value 0 s = None"
| "parse_value (Suc n) s =
     (case s of
        [] \<Rightarrow> None
      | c # cs \<Rightarrow>
          if c = CHR 0x22 then map_option (\<lambda>(t, rest). (JStr t, rest)) (parse_chars cs)
          else if c = CHR ''['' then
            (case expect (CHR '']'') (skip_ws cs) of
               Some rest \<Rightarrow> Some (JArr [], rest)
             | None \<Rightarrow> map_option (\<lambda>(vs, rest). (JArr vs, rest)) (parse_elems n (skip_ws cs)))
          else if c = CHR ''{'' then
            (case expect (CHR ''}'') (skip_ws cs) of
               Some rest \<Rightarrow> Some (JObj [], rest)
             | None \<Rightarrow> map_option (\<lambda>(kvs, rest). (obj_of kvs, rest)) (parse_members n (skip_ws cs)))
          else if c = CHR ''n'' then word_then ''null'' JNull s
          else if c = CHR ''t'' then word_then ''true'' (JBool True) s
          else if c = CHR ''f'' then word_then ''false'' (JBool False) s
          else parse_number s)"
| "parse_elems 0 s = None"
| "parse_elems (Suc n) s =
     (case parse_value n s of
        None \<Rightarrow> None
      | Some (v, rest) \<Rightarrow>
          (case skip_ws rest of
             [] \<Rightarrow> None
           | c # cs \<Rightarrow>
               if c = CHR '']'' then Some ([v], cs)
               else if c = CHR '','' then
                 map_option (\<lambda>(vs, r). (v # vs, r)) (parse_elems n (skip_ws cs))
               else None))"
| "parse_members 0 s = None"
| "parse_members (Suc n) s =
     (case expect (CHR 0x22) s of
        None \<Rightarrow> None
      | Some s1 \<Rightarrow>
          (case parse_chars s1 of
             None \<Rightarrow> None
           | Some (k, s2) \<Rightarrow>
               (case expect (CHR '':'') (skip_ws s2) of
                  None \<Rightarrow> None
                | Some s3 \<Rightarrow>
                    (case parse_value n (skip_ws s3) of
                       None \<Rightarrow> None
                     | Some (v, rest) \<Rightarrow>
                         (case skip_ws rest of
                            [] \<Rightarrow> None
                          | c # cs \<Rightarrow>
                              if c = CHR ''}'' then Some ([(k, v)], cs)
                              else if c = CHR '','' then
                                map_option (\<lambda>(kvs, r). ((k, v) # kvs, r)) (parse_members n (skip_ws cs))
                              else None)))))"

definition json_parse :: "string \<Rightarrow> json option" where
  "json_parse s =
     (case parse_value (2 * length s + 2) (skip_ws s) of
        Some (v, rest) \<Rightarrow> if skip_ws rest = [] then Some v else None
      | None \<Rightarrow> None)"

text \<open>Property access \<open>o.k\<close>; \<open>None\<close> is \<open>undefined\<close>.\<close>

fun json_get :: "string \<Rightarrow> json \<Rightarrow> json option" where
  "json_get k (JObj kvs) = map_of kvs k"
| "json_get k _ = None"


subsection \<open>Round trip\<close>

fun json_wf :: "json \<Rightarrow> bool" where
  "json_wf (JInt i) \<longleftrightarrow> nat \<bar>i\<bar> \<le> JS_MAX_INT"
| "json_wf (JNum t) \<longleftrightarrow> False"
| "json_wf (JArr vs) \<longleftrightarrow> (\<forall>v\<in>set vs. json_wf v)"
| "json_wf (JObj kvs) \<longleftrightarrow> distinct (map fst kvs) \<and> (\<forall>kv\<in>set kvs. json_wf (snd kv))"
| "json_wf _ \<longleftrightarrow> True"

lemma hex_nibble_hex_digit: "n < 16 \<Longrightarrow> hex_nibble (hex_digit n) = Some n"
  by (auto simp: hex_nibble_def hex_digit_def Let_def)

lemma hex_nibble_zero: "hex_nibble (CHR ''0'') = Some 0"
  by (simp add: hex_nibble_def)

lemma unicode_escape_control:
  "(of_char c :: nat) < 256 \<Longrightarrow>
    unicode_escape (CHR ''0'') (CHR ''0'') (hex_digit (of_char c div 16)) (hex_digit (of_char c mod 16))
      = Some c"
proof -
  assume "(of_char c :: nat) < 256"
  moreover have "16 * (of_char c div 16) + of_char c mod 16 = (of_char c :: nat)"
    by (rule mult_div_mod_eq)
  moreover from calculation(1) have "(of_char c :: nat) div 16 < 16"
    by (simp add: less_mult_imp_div_less)
  ultimately show ?thesis
    by (simp add: unicode_escape_def hex_nibble_hex_digit hex_nibble_zero)
qed

lemma char_code_eq: "(of_char c :: nat) = k \<Longrightarrow> c = char_of k"
  by (metis char_of_char)

lemma parse_chars_escape: "parse_chars (json_escape c @ s) = cons_result (Some c) (parse_chars s)"
proof -
  let ?n = "of_char c :: nat"
  consider "?n \<in> {34, 92, 8, 9, 10, 12, 13}" | "?n \<notin> {34, 92, 8, 9, 10, 12, 13}" "?n < 32"
    | "?n \<notin> {34, 92}" "32 \<le> ?n" by force
  then show ?thesis
  proof cases
    case 1
    then have "c \<in> {char_of (34::nat), char_of (92::nat), char_of (8::nat), char_of (9::nat),
        char_of (10::nat), char_of (12::nat), char_of (13::nat)}"
      using char_code_eq by blast
    then show ?thesis
      by (auto simp: json_escape_def unescape_def char_of_def bit_0 simp del: of_char_eq_iff)
  next
    case 2
    then have e: "json_escape c = CHR 0x5C # ''u00'' @ [hex_digit (?n div 16), hex_digit (?n mod 16)]"
      by (simp add: json_escape_def Let_def)
    have "?n < 256" by simp
    then show ?thesis unfolding e by (simp add: unicode_escape_control)
  next
    case 3
    then have "json_escape c = [c]" by (simp add: json_escape_def Let_def)
    moreover have "c \<noteq> CHR 0x22" "c \<noteq> CHR 0x5C" using 3(1) by auto
    ultimately show ?thesis using 3(2) by simp
  qed
qed

lemma parse_chars_quoted:
  "parse_chars (concat (map json_escape t) @ CHR 0x22 # rest) = Some (t, rest)"
proof (induction t)
  case (Cons c t)
  show ?case by (simp add: parse_chars_escape Cons cons_result_def del: parse_chars.simps)
qed simp

definition stops :: "string \<Rightarrow> bool" where
  "stops s \<longleftrightarrow> (case s of [] \<Rightarrow> True | c # _ \<Rightarrow> c = CHR '','' \<or> c = CHR '']'' \<or> c = CHR ''}'')"

lemma stops_simps [simp]:
  "stops []" "stops (CHR '','' # s)" "stops (CHR '']'' # s)" "stops (CHR ''}'' # s)"
  by (simp_all add: stops_def)

lemma stops_not_digit: "stops (c # s) \<Longrightarrow> \<not> is_digit c"
  by (auto simp: stops_def is_digit_def)

lemma takeWhile_number:
  assumes "list_all is_digit ds" "stops rest"
  shows "takeWhile is_digit (ds @ rest) = ds" "dropWhile is_digit (ds @ rest) = rest"
proof -
  have "takeWhile is_digit rest = []" "dropWhile is_digit rest = rest"
    using assms(2) stops_not_digit by (cases rest; auto)+
  with assms(1) show "takeWhile is_digit (ds @ rest) = ds" "dropWhile is_digit (ds @ rest) = rest"
    by (auto simp: list_all_iff takeWhile_append dropWhile_append)
qed

lemma hd_nat_to_string: "0 < n \<Longrightarrow> hd (nat_to_string n) \<noteq> CHR ''0''"
proof (induction n rule: nat_to_string.induct)
  case (1 n)
  show ?case
  proof (cases "n < 10")
    case True
    then have "char_digit (digit_char n) \<noteq> char_digit (CHR ''0'')"
      using "1.prems" by (simp add: char_digit_def [of "CHR ''0''"])
    then have "digit_char n \<noteq> CHR ''0''" by metis
    with True show ?thesis by (subst nat_to_string.simps) simp
  next
    case False
    with 1 show ?thesis by (subst nat_to_string.simps) auto
  qed
qed

lemma nat_to_string_no_leading_zero:
  "\<not> (1 < length (nat_to_string n) \<and> hd (nat_to_string n) = CHR ''0'')"
  using hd_nat_to_string [of n] by (cases "n = 0") (auto simp: nat_to_string.simps [of 0])

lemma parse_number_nat:
  assumes "stops rest" "sign = [] \<or> sign = ''-''" "n \<le> JS_MAX_INT"
  shows "parse_number (sign @ nat_to_string n @ rest)
     = Some (JInt (if sign = [] then int n else - int n), rest)"
proof -
  have digits: "list_all is_digit (nat_to_string n)" by (rule nat_to_string_digits)
  have head: "lex_sign (sign @ nat_to_string n @ rest) = (sign, nat_to_string n @ rest)"
    using assms(2) digits by (cases "nat_to_string n") (auto simp: is_digit_def)
  have tail: "lex_frac rest = ([], rest)" "lex_exp rest = ([], rest)"
    using assms(1) by (cases rest; auto simp: stops_def)+
  show ?thesis
    using nat_to_string_no_leading_zero [of n] assms(3)
    by (simp add: parse_number_def head takeWhile_number [OF digits assms(1)] tail number_value_def)
qed

lemma int_to_string_start:
  "\<exists>c cs. int_to_string i = c # cs \<and> (is_digit c \<or> c = CHR ''-'')"
proof -
  have "list_all is_digit (nat_to_string (nat i))" by (rule nat_to_string_digits)
  then show ?thesis by (cases "nat_to_string (nat i)") (auto simp: int_to_string_def)
qed

lemma parse_value_int:
  assumes "stops rest" "nat \<bar>i\<bar> \<le> JS_MAX_INT"
  shows "parse_value (Suc n) (int_to_string i @ rest) = Some (JInt i, rest)"
proof -
  have other: "parse_value (Suc n) (c # cs) = parse_number (c # cs)"
    if "is_digit c \<or> c = CHR ''-''" for c cs
    using that by (auto simp: is_digit_def)
  have "parse_value (Suc n) (int_to_string i @ rest) = parse_number (int_to_string i @ rest)"
    using other int_to_string_start [of i] by (metis append_Cons)
  also have "\<dots> = Some (JInt i, rest)"
    using parse_number_nat [OF assms(1), of "''-''" "nat (- i)"]
      parse_number_nat [OF assms(1), of "[]" "nat i"] assms(2)
    by (auto simp: int_to_string_def)
  finally show ?thesis .
qed


lemma skip_ws_id: "(\<And>c cs. s = c # cs \<Longrightarrow> \<not> json_ws c) \<Longrightarrow> skip_ws s = s"
  by (cases s) (auto simp: skip_ws_def)

lemma skip_ws_stops: "stops s \<Longrightarrow> skip_ws s = s"
  by (rule skip_ws_id) (auto simp: stops_def json_ws_def)

text \<open>How a serialised value starts: no white space, no closing bracket.\<close>

lemma stringify_start:
  assumes "json_wf v"
  shows "\<exists>c cs. stringify v = c # cs \<and> \<not> json_ws c \<and> c \<noteq> CHR '']'' \<and> c \<noteq> CHR ''}''"
proof (cases v)
  case (JInt i)
  obtain c cs where "int_to_string i = c # cs" "is_digit c \<or> c = CHR ''-''"
    using int_to_string_start by blast
  then show ?thesis using JInt by (auto simp: json_ws_def is_digit_def)
qed (use assms in \<open>auto simp: json_quote_def json_ws_def\<close>)

lemma skip_ws_stringify: "json_wf v \<Longrightarrow> skip_ws (stringify v @ rest) = stringify v @ rest"
  using stringify_start [of v] by (auto simp: skip_ws_def)

lemma join_with_Cons: "xs \<noteq> [] \<Longrightarrow> join_with sep (x # xs) = x @ sep @ join_with sep xs"
  by (cases xs) simp_all

definition parses :: "json \<Rightarrow> bool" where
  "parses v \<longleftrightarrow> (\<forall>n rest. 2 * length (stringify v) \<le> n \<longrightarrow> stops rest \<longrightarrow>
     parse_value n (stringify v @ rest) = Some (v, rest))"

lemma parsesD:
  "parses v \<Longrightarrow> 2 * length (stringify v) \<le> n \<Longrightarrow> stops rest \<Longrightarrow>
    parse_value n (stringify v @ rest) = Some (v, rest)"
  by (simp add: parses_def)

lemma parse_elems_join:
  assumes "vs \<noteq> []" "\<forall>v\<in>set vs. json_wf v \<and> parses v"
    "2 * length (join_with '','' (map stringify vs)) < n"
  shows "parse_elems n (join_with '','' (map stringify vs) @ '']'' @ rest) = Some (vs, rest)"
  using assms
proof (induction vs arbitrary: n rule: list_nonempty_induct)
  case (single v)
  then show ?case
    by (cases n) (simp_all add: parsesD skip_ws_stops)
next
  case (cons v vs)
  obtain m where n: "n = Suc m" using cons.prems by (cases n) auto
  have wf: "\<forall>v\<in>set vs. json_wf v" using cons.prems by simp
  have join: "join_with '','' (stringify v # map stringify vs) = stringify v @ '','' @ join_with '','' (map stringify vs)"
    using cons.hyps by (simp add: join_with_Cons)
  have tail: "parse_elems m (join_with '','' (map stringify vs) @ '']'' @ rest) = Some (vs, rest)"
    using cons n by (intro cons.IH) (simp_all add: join)
  have skip: "skip_ws (join_with '','' (map stringify vs) @ '']'' @ rest)
      = join_with '','' (map stringify vs) @ '']'' @ rest"
    using skip_ws_stringify wf cons.hyps
    by (cases vs rule: list.exhaust; cases "tl vs") (simp_all add: join_with_Cons)
  have "parse_value m (stringify v @ '','' @ join_with '','' (map stringify vs) @ '']'' @ rest)
      = Some (v, '','' @ join_with '','' (map stringify vs) @ '']'' @ rest)"
    using cons.prems n join by (intro parsesD) simp_all
  then show ?case
    using tail skip by (simp add: n join skip_ws_stops)
qed


definition member_text :: "string \<times> json \<Rightarrow> string" where
  "member_text kv = json_quote (fst kv) @ '':'' @ stringify (snd kv)"

lemma stringify_obj: "stringify (JObj kvs) = ''{'' @ join_with '','' (map member_text kvs) @ ''}''"
  by (simp add: member_text_def [abs_def])

lemma skip_ws_member: "skip_ws (member_text kv @ rest) = member_text kv @ rest"
  by (simp add: member_text_def json_quote_def skip_ws_def json_ws_def)

lemma skip_ws_members:
  "kvs \<noteq> [] \<Longrightarrow> skip_ws (join_with '','' (map member_text kvs) @ rest)
     = join_with '','' (map member_text kvs) @ rest"
  by (cases kvs; cases "tl kvs") (simp_all add: join_with_Cons skip_ws_member)

lemma parse_member:
  assumes "json_wf v" "parses v" "2 * length (stringify v) \<le> n" "stops rest"
  shows "parse_members (Suc n) (member_text (k, v) @ rest) =
     (case rest of
        [] \<Rightarrow> None
      | c # cs \<Rightarrow>
          if c = CHR ''}'' then Some ([(k, v)], cs)
          else if c = CHR '','' then
            map_option (\<lambda>(kvs, r). ((k, v) # kvs, r)) (parse_members n (skip_ws cs))
          else None)"
proof -
  have colon: "skip_ws (CHR '':'' # t) = CHR '':'' # t" for t
    by (simp add: skip_ws_def json_ws_def)
  show ?thesis
    using assms
    by (simp add: member_text_def json_quote_def expect_def parse_chars_quoted colon
        skip_ws_stringify parsesD skip_ws_stops)
qed

lemma parse_members_join:
  assumes "kvs \<noteq> []" "\<forall>kv\<in>set kvs. json_wf (snd kv) \<and> parses (snd kv)"
    "2 * length (join_with '','' (map member_text kvs)) < n"
  shows "parse_members n (join_with '','' (map member_text kvs) @ ''}'' @ rest) = Some (kvs, rest)"
  using assms
proof (induction kvs arbitrary: n rule: list_nonempty_induct)
  case (single kv)
  obtain k v where kv: "kv = (k, v)" by (cases kv)
  obtain m where n: "n = Suc m" using single.prems by (cases n) auto
  have "2 * length (stringify v) \<le> m" using single.prems n kv by (simp add: member_text_def)
  with single.prems kv show ?case
    using parse_member [of v m "''}'' @ rest" k] by (simp add: n)
next
  case (cons kv kvs)
  obtain k v where kv: "kv = (k, v)" by (cases kv)
  obtain m where n: "n = Suc m" using cons.prems by (cases n) auto
  have join: "join_with '','' (member_text kv # map member_text kvs)
      = member_text kv @ '','' @ join_with '','' (map member_text kvs)"
    using cons.hyps by (simp add: join_with_Cons)
  have tail: "parse_members m (join_with '','' (map member_text kvs) @ ''}'' @ rest) = Some (kvs, rest)"
    using cons n by (intro cons.IH) (simp_all add: join)
  have "length (stringify v) \<le> length (member_text kv)" by (simp add: kv member_text_def)
  with cons.prems have "2 * length (stringify v) \<le> m" by (simp add: join n)
  with cons.prems kv have "parse_members (Suc m) (member_text (k, v) @ '','' @
      join_with '','' (map member_text kvs) @ ''}'' @ rest) = Some ((k, v) # kvs, rest)"
    using parse_member [of v m "'','' @ join_with '','' (map member_text kvs) @ ''}'' @ rest" k]
      tail skip_ws_members [OF cons.hyps, of "''}'' @ rest"] by simp
  then show ?case using join by (simp del: parse_members.simps add: n kv)
qed

lemma obj_put_fresh: "k \<notin> fst ` set kvs \<Longrightarrow> obj_put k v kvs = kvs @ [(k, v)]"
  by (induction k v kvs rule: obj_put.induct) auto

lemma obj_of_distinct: "distinct (map fst kvs) \<Longrightarrow> obj_of kvs = JObj kvs"
proof -
  have "distinct (map fst (acc @ kvs)) \<Longrightarrow>
      foldl (\<lambda>acc kv. obj_put (fst kv) (snd kv) acc) acc kvs = acc @ kvs" for acc
    by (induction kvs arbitrary: acc) (simp_all add: obj_put_fresh)
  from this [of "[]"] show "distinct (map fst kvs) \<Longrightarrow> obj_of kvs = JObj kvs"
    by (simp add: obj_of_def)
qed

lemma expect_stringify: "json_wf v \<Longrightarrow> expect (CHR '']'') (stringify v @ rest) = None"
  using stringify_start [of v] by (auto simp: expect_def)

lemma parses_arr:
  assumes "\<forall>v\<in>set vs. json_wf v \<and> parses v"
  shows "parses (JArr vs)"
proof (cases vs)
  case Nil
  have "parse_value n (stringify (JArr []) @ rest) = Some (JArr [], rest)"
    if "2 * length (stringify (JArr [])) \<le> n" for n rest
    using that by (cases n) (simp_all add: expect_def skip_ws_def json_ws_def)
  with Nil show ?thesis by (simp add: parses_def)
next
  case (Cons v vs')
  have "parse_value n (stringify (JArr vs) @ rest) = Some (JArr vs, rest)"
    if n: "2 * length (stringify (JArr vs)) \<le> n" for n rest
  proof -
    obtain m where m: "n = Suc m" using n by (cases n) auto
    have elems: "parse_elems m (join_with '','' (map stringify vs) @ '']'' @ rest) = Some (vs, rest)"
      using assms n m Cons by (intro parse_elems_join) auto
    have start: "\<exists>t. join_with '','' (map stringify vs) = stringify v @ t"
      using Cons by (cases vs') (auto simp: join_with_Cons)
    then obtain t where t: "join_with '','' (map stringify vs) = stringify v @ t" by blast
    have wf: "json_wf v" using assms Cons by simp
    show ?thesis
      using elems wf by (simp add: m t skip_ws_stringify expect_stringify)
  qed
  then show ?thesis by (simp add: parses_def)
qed

lemma parses_obj:
  assumes "distinct (map fst kvs)" "\<forall>kv\<in>set kvs. json_wf (snd kv) \<and> parses (snd kv)"
  shows "parses (JObj kvs)"
proof (cases kvs)
  case Nil
  have "parse_value n (stringify (JObj []) @ rest) = Some (JObj [], rest)"
    if "2 * length (stringify (JObj [])) \<le> n" for n rest
    using that by (cases n) (simp_all add: expect_def skip_ws_def json_ws_def)
  with Nil show ?thesis by (simp add: parses_def)
next
  case (Cons kv kvs')
  have "parse_value n (stringify (JObj kvs) @ rest) = Some (JObj kvs, rest)"
    if n: "2 * length (stringify (JObj kvs)) \<le> n" for n rest
  proof -
    obtain m where m: "n = Suc m" using n by (cases n) auto
    have mem: "parse_members m (join_with '','' (map member_text kvs) @ ''}'' @ rest) = Some (kvs, rest)"
      using assms n m Cons unfolding stringify_obj by (intro parse_members_join) auto
    have "\<exists>t. join_with '','' (map member_text kvs) = CHR 0x22 # t"
      using Cons by (cases kvs') (auto simp: join_with_Cons member_text_def json_quote_def)
    then obtain t where t: "join_with '','' (map member_text kvs) = CHR 0x22 # t" by blast
    have quote: "skip_ws (CHR 0x22 # u) = CHR 0x22 # u" for u by (simp add: skip_ws_def json_ws_def)
    show ?thesis
      unfolding stringify_obj
      using mem by (simp add: m t quote expect_def obj_of_distinct [OF assms(1)])
  qed
  then show ?thesis by (simp add: parses_def)
qed

lemma json_wf_parses: "json_wf v \<Longrightarrow> parses v"
proof (induction v)
  case (JInt i)
  then have "parse_value n (int_to_string i @ rest) = Some (JInt i, rest)"
    if "2 * length (int_to_string i) \<le> n" "stops rest" for n rest
    using that parse_value_int [of rest i] int_to_string_start [of i] by (cases n) auto
  then show ?case by (simp add: parses_def)
next
  case (JStr t)
  have "parse_value n (json_quote t @ rest) = Some (JStr t, rest)"
    if "2 * length (json_quote t) \<le> n" for n rest
    using that by (cases n) (simp_all add: json_quote_def parse_chars_quoted)
  then show ?case by (simp add: parses_def)
next
  case (JArr vs)
  then show ?case by (intro parses_arr) auto
next
  case (JObj kvs)
  then show ?case by (intro parses_obj) (auto simp: snds.simps)
next
  case JNull
  have "parse_value n (''null'' @ rest) = Some (JNull, rest)" if "0 < n" for n rest
    using that by (cases n) (simp_all add: word_then_def)
  then show ?case by (simp add: parses_def)
next
  case (JBool b)
  have "parse_value n (stringify (JBool b) @ rest) = Some (JBool b, rest)" if "0 < n" for n rest
    using that by (cases n) (simp_all add: word_then_def)
  then show ?case by (cases b) (simp_all add: parses_def)
qed simp

lemma json_parse_stringify:
  assumes "json_wf v"
  shows "json_parse (stringify v) = Some v"
  using parsesD [OF json_wf_parses [OF assms], of "2 * length (stringify v) + 2" "[]"]
    skip_ws_stringify [OF assms, of "[]"]
  by (simp add: json_parse_def skip_ws_def)

lemma stringify_eq_iff: "json_wf v \<Longrightarrow> json_wf w \<Longrightarrow> stringify v = stringify w \<longleftrightarrow> v = w"
  using json_parse_stringify by (metis option.inject)

lemma stringify_nonempty: "json_wf v \<Longrightarrow> stringify v \<noteq> []"
  using stringify_start by fastforce

end
