(* ===== verification/Bytes.thy ===== *)
theory Bytes
  imports JsonParse
begin

section \<open>Buffers: UTF-8, hex and base64\<close>

text \<open>
  The conversions of Node's \<open>Buffer\<close> the sources use. A buffer is a string of its bytes. Text
  holds code units below 256, so decoding UTF-8 that stands for another character lies outside
  the model and is \<open>None\<close>. Each decoder undoes its encoder.
\<close>

subsection \<open>UTF-8\<close>

definition utf8 :: "string \<Rightarrow> string" where
  "utf8 s = concat (map (\<lambda>c. let n = (of_char c :: nat) in
      if n < 128 then [c] else [char_of (192 + n div 64), char_of (128 + n mod 64)]) s)"

fun utf8_text :: "string \<Rightarrow> string option" where
  "utf8_text [] = Some []"
| "utf8_text (c # cs) =
     (let n = (of_char c :: nat) in
      if n < 128 then map_option ((#) c) (utf8_text cs)
      else case cs of
          [] \<Rightarrow> None
        | d # ds \<Rightarrow>
            let k = (of_char d :: nat) in
            if (n = 194 \<or> n = 195) \<and> 128 \<le> k \<and> k < 192
            then map_option ((#) (char_of (64 * (n - 192) + (k - 128)))) (utf8_text ds)
            else None)"

subsection \<open>Hex\<close>

text \<open>\<open>Buffer.from(s, 'hex')\<close>: decoding stops at the first pair that is not hexadecimal.\<close>

fun hex_bytes :: "string \<Rightarrow> string" where
  "hex_bytes (a # b # rest) =
     (case (hex_nibble a, hex_nibble b) of
        (Some x, Some y) \<Rightarrow> char_of (16 * x + y) # hex_bytes rest
      | _ \<Rightarrow> [])"
| "hex_bytes _ = []"

definition to_hex :: "string \<Rightarrow> string" where
  "to_hex bs = concat (map (\<lambda>c. let n = (of_char c :: nat) in [hex_digit (n div 16), hex_digit (n mod 16)]) bs)"

subsection \<open>Base64\<close>

definition base64_char :: "nat \<Rightarrow> char" where
  "base64_char n =
     (if n < 26 then char_of (65 + n) else if n < 52 then char_of (71 + n) else if n < 62 then char_of (n - 4)
      else if n = 62 then CHR ''+'' else CHR ''/'')"

text \<open>Both alphabets are read, as Node does.\<close>

definition base64_val :: "char \<Rightarrow> nat option" where
  "base64_val c =
     (let n = (of_char c :: nat) in
      if 65 \<le> n \<and> n \<le> 90 then Some (n - 65)
      else if 97 \<le> n \<and> n \<le> 122 then Some (n - 71)
      else if 48 \<le> n \<and> n \<le> 57 then Some (n + 4)
      else if n = 43 \<or> n = 45 then Some 62
      else if n = 47 \<or> n = 95 then Some 63
      else None)"

fun to_base64 :: "string \<Rightarrow> string" where
  "to_base64 [] = []"
| "to_base64 [a] =
     (let x = (of_char a :: nat) in [base64_char (x div 4), base64_char (16 * (x mod 4)), CHR ''='', CHR ''=''])"
| "to_base64 [a, b] =
     (let x = (of_char a :: nat); y = (of_char b :: nat) in
      [base64_char (x div 4), base64_char (16 * (x mod 4) + y div 16), base64_char (4 * (y mod 16)), CHR ''=''])"
| "to_base64 (a # b # c # rest) =
     (let x = (of_char a :: nat); y = (of_char b :: nat); z = (of_char c :: nat) in
      [base64_char (x div 4), base64_char (16 * (x mod 4) + y div 16), base64_char (4 * (y mod 16) + z div 64),
       base64_char (z mod 64)] @ to_base64 rest)"

fun sextets_bytes :: "nat list \<Rightarrow> string" where
  "sextets_bytes (p # q # r # s # rest) =
     char_of (4 * p + q div 16) # char_of (16 * (q mod 16) + r div 4) # char_of (64 * (r mod 4) + s) # sextets_bytes rest"
| "sextets_bytes [p, q, r] = [char_of (4 * p + q div 16), char_of (16 * (q mod 16) + r div 4)]"
| "sextets_bytes [p, q] = [char_of (4 * p + q div 16)]"
| "sextets_bytes _ = []"

text \<open>\<open>Buffer.from(s, 'base64')\<close>: characters outside the alphabets, padding included, are skipped.\<close>

definition base64_bytes :: "string \<Rightarrow> string" where
  "base64_bytes s = sextets_bytes (List.map_filter base64_val s)"

subsection \<open>Round trips\<close>

lemma of_char_byte [simp]: "(of_char c :: nat) < 256"
  using of_char_mod_256 [of c, where ?'a = nat] by (metis mod_less_divisor zero_less_numeral)

lemma utf8_Nil [simp]: "utf8 [] = []"
  by (simp add: utf8_def)

lemma utf8_append: "utf8 (s @ t) = utf8 s @ utf8 t"
  by (simp add: utf8_def)

lemma utf8_text_utf8 [simp]: "utf8_text (utf8 s) = Some s"
proof (induction s)
  case (Cons c s)
  let ?n = "of_char c :: nat"
  have e: "utf8 (c # s) = (if ?n < 128 then [c] else [char_of (192 + ?n div 64), char_of (128 + ?n mod 64)]) @ utf8 s"
    by (simp add: utf8_def Let_def)
  show ?case
  proof (cases "?n < 128")
    case False
    have n: "192 + ?n div 64 < 256" "192 + ?n div 64 = 194 \<or> 192 + ?n div 64 = 195" "128 + ?n mod 64 < 256"
      using False of_char_byte [of c] by linarith+
    have "char_of (64 * (?n div 64) + ?n mod 64) = c" by simp
    with False n show ?thesis by (auto simp: e Cons.IH Let_def)
  qed (simp add: e Cons.IH Let_def)
qed simp

lemma hex_bytes_to_hex [simp]: "hex_bytes (to_hex bs) = bs"
proof (induction bs)
  case (Cons c bs)
  have "(of_char c :: nat) div 16 < 16" using of_char_byte [of c] by (simp add: less_mult_imp_div_less)
  then show ?case using Cons by (simp add: to_hex_def Let_def hex_nibble_hex_digit)
qed (simp add: to_hex_def)

lemma to_hex_inj: "to_hex s = to_hex t \<Longrightarrow> s = t"
  by (metis hex_bytes_to_hex)

lemma length_to_hex [simp]: "length (to_hex s) = 2 * length s"
  by (induction s) (auto simp: to_hex_def Let_def)

lemma hex_free: "hex_nibble c = None \<Longrightarrow> c \<notin> set (to_hex bs)"
proof (induction bs)
  case (Cons b bs)
  have h: "c \<noteq> hex_digit n" if "n < 16" for n
    using hex_nibble_hex_digit [OF that] Cons.prems by (intro notI) simp
  have "(of_char b :: nat) div 16 < 16" using of_char_byte [of b] by linarith
  from h [OF this] h [of "of_char b mod 16"] show ?case using Cons by (simp add: to_hex_def Let_def)
qed (simp add: to_hex_def)

lemma base64_val_char: "n < 64 \<Longrightarrow> base64_val (base64_char n) = Some n"
  by (auto simp: base64_val_def base64_char_def Let_def)

lemma base64_val_pad: "base64_val (CHR ''='') = None"
  by (simp add: base64_val_def)

lemma sextet_bounds:
  fixes x y z :: nat
  assumes "x < 256" "y < 256" "z < 256"
  shows "x div 4 < 64" "16 * (x mod 4) < 64" "16 * (x mod 4) + y div 16 < 64" "4 * (y mod 16) < 64"
    "4 * (y mod 16) + z div 64 < 64" "z mod 64 < 64"
  using assms by auto

lemma byte_nibbles [simp]:
  "of_char c div 16 div 16 = (0::nat)" "of_char c div 16 mod 16 = (of_char c div 16 :: nat)"
  "of_char c div 64 div 4 = (0::nat)" "of_char c div 64 mod 4 = (of_char c div 64 :: nat)"
proof -
  have "(of_char c :: nat) div 16 < 16" "(of_char c :: nat) div 64 < 4"
    using of_char_byte [of c] by linarith+
  then show "of_char c div 16 div 16 = (0::nat)" "of_char c div 16 mod 16 = (of_char c div 16 :: nat)"
    "of_char c div 64 div 4 = (0::nat)" "of_char c div 64 mod 4 = (of_char c div 64 :: nat)" by simp_all
qed

lemma base64_bytes_to_base64 [simp]: "base64_bytes (to_base64 bs) = bs"
proof (induction bs rule: to_base64.induct)
  case (2 a)
  show ?case
    using sextet_bounds [OF of_char_byte [of a] of_char_byte of_char_byte]
    by (simp add: base64_bytes_def List.map_filter_simps base64_val_char base64_val_pad Let_def)
next
  case (3 a b)
  show ?case
    using sextet_bounds [OF of_char_byte [of a] of_char_byte [of b] of_char_byte]
    by (simp add: base64_bytes_def List.map_filter_simps base64_val_char base64_val_pad Let_def)
next
  case (4 a b c rest)
  show ?case
    using sextet_bounds [OF of_char_byte [of a] of_char_byte [of b] of_char_byte [of c]] 4
    by (simp add: base64_bytes_def List.map_filter_simps base64_val_char Let_def)
qed (simp add: base64_bytes_def List.map_filter_simps)

end
