(* ===== verification/JsDate.thy ===== *)
theory JsDate
  imports Prelude
begin

section \<open>Dates of the language runtime\<close>

text \<open>
  A \<open>Date\<close> is its time value in milliseconds since 1970-01-01T00:00:00Z. \<open>toISOString\<close>
  follows the ECMAScript rules (\<open>DayFromYear\<close>, \<open>YearFromTime\<close>, \<open>MonthFromTime\<close>, \<open>MakeDay\<close>); years
  outside 0..9999 use the expanded six-digit form.
\<close>

definition DayFromYear :: "int \<Rightarrow> int" where
  "DayFromYear y = 365 * (y - 1970) + (y - 1969) div 4 - (y - 1901) div 100 + (y - 1601) div 400"

definition leap_year :: "int \<Rightarrow> bool" where
  "leap_year y \<longleftrightarrow> 4 dvd y \<and> (\<not> 100 dvd y \<or> 400 dvd y)"

lemma div_succ:
  assumes "0 < (n::int)"
  shows "(x + 1) div n = x div n + (if n dvd x + 1 then 1 else 0)"
proof -
  define q r where "q = x div n" and "r = x mod n"
  have x: "x = n * q + r" and r: "0 \<le> r" "r < n" using assms by (simp_all add: q_def r_def)
  show ?thesis
  proof (cases "r + 1 = n")
    case True
    then have eq: "x + 1 = n * (q + 1)" using x by (simp add: algebra_simps)
    then have "n dvd x + 1" by simp
    moreover have "(x + 1) div n = q + 1" using eq assms by simp
    ultimately show ?thesis by (simp add: q_def)
  next
    case False
    have "(x + 1) div n = q" "(x + 1) mod n = r + 1"
      using x r False by (auto intro!: int_div_pos_eq int_mod_pos_eq)
    then show ?thesis using r by (simp add: q_def dvd_eq_mod_eq_0)
  qed
qed

lemma DayFromYear_step: "DayFromYear (y + 1) = DayFromYear y + (if leap_year y then 366 else 365)"
proof -
  have e4: "(y + 1 - 1969) div 4 = (y - 1969) div 4 + (if 4 dvd y then 1 else 0)"
    using div_succ [of 4 "y - 1969"] dvd_diff_left_iff [of 4 1968 y] by (simp add: algebra_simps)
  have e100: "(y + 1 - 1901) div 100 = (y - 1901) div 100 + (if 100 dvd y then 1 else 0)"
    using div_succ [of 100 "y - 1901"] dvd_diff_left_iff [of 100 1900 y] by (simp add: algebra_simps)
  have e400: "(y + 1 - 1601) div 400 = (y - 1601) div 400 + (if 400 dvd y then 1 else 0)"
    using div_succ [of 400 "y - 1601"] dvd_diff_left_iff [of 400 1600 y] by (simp add: algebra_simps)
  have "DayFromYear (y + 1) = DayFromYear y + (365 + (if 4 dvd y then 1 else 0)
      - (if 100 dvd y then 1 else 0) + (if 400 dvd y then 1 else 0))"
    unfolding DayFromYear_def e4 e100 e400 by (simp only: algebra_simps)
  moreover have "100 dvd y \<Longrightarrow> 4 dvd y" "400 dvd y \<Longrightarrow> 100 dvd y"
    using dvd_trans [of 4 100 y] dvd_trans [of 100 400 y] by simp_all
  ultimately show ?thesis
    by (cases "4 dvd y"; cases "100 dvd y"; cases "400 dvd y") (simp_all add: leap_year_def)
qed

function year_up :: "int \<Rightarrow> int \<Rightarrow> int" where
  "year_up y d = (if DayFromYear (y + 1) \<le> d then year_up (y + 1) d else y)"
  by pat_completeness auto
termination
  by (relation "measure (\<lambda>(y, d). nat (d - DayFromYear y))") (auto simp: DayFromYear_step split: if_splits)

declare year_up.simps [simp del]

definition year_of_day :: "int \<Rightarrow> int" where
  "year_of_day d = year_up (1970 + d div (if 0 \<le> d then 366 else 365)) d"

definition month_start :: "bool \<Rightarrow> nat \<Rightarrow> int" where
  "month_start leap m =
     [0, 31, 59, 90, 120, 151, 181, 212, 243, 273, 304, 334] ! m + (if leap \<and> 2 \<le> m then 1 else 0)"

definition month_of :: "bool \<Rightarrow> int \<Rightarrow> nat" where
  "month_of leap doy = length (filter (\<lambda>m. month_start leap m \<le> doy) [1..<12])"

definition pad_num :: "nat \<Rightarrow> nat \<Rightarrow> string" where
  "pad_num k n = padStart k (CHR ''0'') (nat_to_string n)"

definition year_string :: "int \<Rightarrow> string" where
  "year_string y =
     (if 0 \<le> y \<and> y \<le> 9999 then pad_num 4 (nat y)
      else (if y < 0 then ''-'' else ''+'') @ pad_num 6 (nat \<bar>y\<bar>))"

definition toISOString :: "int \<Rightarrow> string" where
  "toISOString t =
     (let day = t div 86400000; ms = t mod 86400000;
          y = year_of_day day; doy = day - DayFromYear y; m = month_of (leap_year y) doy;
          d = doy - month_start (leap_year y) m + 1
      in year_string y @ ''-'' @ pad_num 2 (m + 1) @ ''-'' @ pad_num 2 (nat d) @ ''T''
         @ pad_num 2 (nat (ms div 3600000)) @ '':'' @ pad_num 2 (nat (ms div 60000 mod 60)) @ '':''
         @ pad_num 2 (nat (ms div 1000 mod 60)) @ ''.'' @ pad_num 3 (nat (ms mod 1000)) @ ''Z'')"

subsection \<open>The calendar is consistent\<close>

lemma year_up_bracket:
  "DayFromYear y \<le> d \<Longrightarrow>
    DayFromYear (year_up y d) \<le> d \<and> d < DayFromYear (year_up y d + 1)"
proof (induction y d rule: year_up.induct)
  case (1 y d)
  then show ?case
    by (cases "DayFromYear (y + 1) \<le> d") (simp_all add: year_up.simps [of y d])
qed

lemma DayFromYear_below:
  "0 \<le> k \<Longrightarrow> DayFromYear (1970 + k) \<le> 366 * k" "k \<le> 0 \<Longrightarrow> DayFromYear (1970 + k) \<le> 365 * k"
proof -
  let ?a = "(k + 1) div 4" and ?b = "(k + 69) div 100" and ?c = "(k + 369) div 400"
  have eq: "DayFromYear (1970 + k) = 365 * k + ?a - ?b + ?c"
    by (simp add: DayFromYear_def algebra_simps)
  have b: "4 * ?a \<le> k + 1" "k + 69 < 100 * ?b + 100" "400 * ?c \<le> k + 369" by linarith+
  show "DayFromYear (1970 + k) \<le> 366 * k" if "0 \<le> k"
  proof (cases "2 \<le> k")
    case True
    then show ?thesis using b unfolding eq by linarith
  next
    case False
    then have "k = 0 \<or> k = 1" using that by auto
    then show ?thesis unfolding eq by auto
  qed
  show "DayFromYear (1970 + k) \<le> 365 * k" if "k \<le> 0"
  proof (cases "k \<le> - 2")
    case True
    then show ?thesis using b unfolding eq by linarith
  next
    case False
    then have "k = 0 \<or> k = - 1" using that by auto
    then show ?thesis unfolding eq by auto
  qed
qed

lemma year_of_day_bracket:
  "DayFromYear (year_of_day d) \<le> d \<and> d < DayFromYear (year_of_day d + 1)"
proof -
  have "DayFromYear (1970 + d div (if 0 \<le> d then 366 else 365)) \<le> d"
  proof (cases "0 \<le> d")
    case True
    then have "DayFromYear (1970 + d div 366) \<le> 366 * (d div 366)"
      by (intro DayFromYear_below) simp
    also have "\<dots> \<le> d" by simp
    finally show ?thesis using True by simp
  next
    case False
    then have "DayFromYear (1970 + d div 365) \<le> 365 * (d div 365)"
      by (intro DayFromYear_below) simp
    also have "\<dots> \<le> d" by simp
    finally show ?thesis using False by simp
  qed
  then show ?thesis unfolding year_of_day_def by (rule year_up_bracket)
qed

end
