(* ===== verification/AuditMerkle.thy ===== *)
theory AuditMerkle
  imports Bytes JsDate
begin

section \<open>Tamper-evident audit log (\<open>backend/src/services/auditMerkleService.ts\<close>)\<close>

text \<open>
  Merkle roots, inclusion proofs and their verification over the audit log, the sealing of
  closed hours into epochs, and the anchoring of epoch roots on chain. The hash function of
  \<open>node:crypto\<close> is the parameter \<open>sha256\<close>, from the bytes hashed to the hex digest; the Soroban
  RPC client is the parameter \<open>anchor_rpc\<close>. Tables are lists of rows in insertion order; a
  statement is refused only by a unique constraint, and lost connections are left out.
\<close>

subsection \<open>Merkle trees\<close>

datatype position = LeftPos | RightPos

record MerkleStep =
  step_position :: position
  step_hash :: string

definition node_hash :: "(string \<Rightarrow> string) \<Rightarrow> string \<Rightarrow> string \<Rightarrow> string" where
  "node_hash sha256 left right = sha256 (hex_bytes left @ hex_bytes right)"

text \<open>One pass of the inner loop: pairs of neighbours, the last one with itself.\<close>

fun next_level :: "(string \<Rightarrow> string) \<Rightarrow> string list \<Rightarrow> string list" where
  "next_level sha256 [] = []"
| "next_level sha256 [x] = [node_hash sha256 x x]"
| "next_level sha256 (x # y # rest) = node_hash sha256 x y # next_level sha256 rest"

lemma length_next_level: "length (next_level sha256 xs) = (length xs + 1) div 2"
  by (induction sha256 xs rule: next_level.induct) auto

function reduce_levels :: "(string \<Rightarrow> string) \<Rightarrow> string list \<Rightarrow> string list" where
  "reduce_levels sha256 level =
     (if 1 < length level then reduce_levels sha256 (next_level sha256 level) else level)"
  by pat_completeness auto
termination
  by (relation "measure (\<lambda>(sha256, level). length level)") (auto simp: length_next_level)

declare reduce_levels.simps [simp del]

definition merkleRoot :: "(string \<Rightarrow> string) \<Rightarrow> string list \<Rightarrow> string" where
  "merkleRoot sha256 leaves =
     (if leaves = [] then sha256 [] else hd (reduce_levels sha256 leaves))"

function proof_steps :: "(string \<Rightarrow> string) \<Rightarrow> string list \<Rightarrow> nat \<Rightarrow> MerkleStep list" where
  "proof_steps sha256 level index =
     (if 1 < length level then
        (let siblingIndex = (if even index then index + 1 else index - 1);
             step = \<lparr>step_position = (if even index then RightPos else LeftPos),
                     step_hash = (if siblingIndex < length level then level ! siblingIndex
                                  else level ! index)\<rparr>
         in step # proof_steps sha256 (next_level sha256 level) (index div 2))
      else [])"
  by pat_completeness auto
termination
  by (relation "measure (\<lambda>(sha256, level, index). length level)") (auto simp: length_next_level)

declare proof_steps.simps [simp del]

datatype audit_error = InvalidLeafIndex | UniqueViolation | AnchorNotConfigured
  | AnchorStillPending | AnchorNoHash | AnchorEnded | RpcError string

definition merkleProof ::
  "(string \<Rightarrow> string) \<Rightarrow> string list \<Rightarrow> int \<Rightarrow> audit_error + MerkleStep list" where
  "merkleProof sha256 leaves leafIndex =
     (if leafIndex < 0 \<or> int (length leaves) \<le> leafIndex then Inl InvalidLeafIndex
      else Inr (proof_steps sha256 leaves (nat leafIndex)))"

fun verify_step :: "(string \<Rightarrow> string) \<Rightarrow> string \<Rightarrow> MerkleStep \<Rightarrow> string" where
  "verify_step sha256 current step =
     (let left = (if step_position step = LeftPos then step_hash step else current);
          right = (if step_position step = RightPos then step_hash step else current)
      in sha256 (hex_bytes left @ hex_bytes right))"

definition verifyMerkleProof ::
  "(string \<Rightarrow> string) \<Rightarrow> string \<Rightarrow> MerkleStep list \<Rightarrow> string \<Rightarrow> bool" where
  "verifyMerkleProof sha256 leafHash prf expectedRoot \<longleftrightarrow>
     foldl (verify_step sha256) leafHash prf = expectedRoot"

subsection \<open>The audit tables\<close>

record audit_log =
  al_id :: nat
  al_actor :: "string option"
  al_action :: "string option"
  al_target :: "string option"
  al_payload :: "json option"
  al_ip_address :: "string option"
  al_status :: "int option"
  al_created_at :: int

datatype anchor_status = Pending | Anchored | Failed

record audit_epoch =
  ep_id :: nat
  epoch_start :: int
  epoch_end :: int
  ep_merkle_root :: string
  leaf_count :: nat
  anchor_status :: anchor_status
  stellar_tx_hash :: "string option"

record merkle_leaf =
  lf_epoch_id :: nat
  lf_log_id :: nat
  leaf_index :: nat
  leaf_hash :: string

record audit_db =
  audit_logs :: "audit_log list"
  audit_epochs :: "audit_epoch list"
  audit_merkle_leaves :: "merkle_leaf list"
  next_epoch_id :: nat

definition canonicalAuditEntry :: "audit_log \<Rightarrow> string" where
  "canonicalAuditEntry row =
     stringify (JObj
       [(''id'', JInt (int (al_id row))),
        (''actor'', json_opt JStr (al_actor row)),
        (''action'', json_opt JStr (al_action row)),
        (''target'', json_opt JStr (al_target row)),
        (''payload'', json_opt id (al_payload row)),
        (''ip_address'', json_opt JStr (al_ip_address row)),
        (''status'', json_opt JInt (al_status row)),
        (''created_at'', JStr (toISOString (al_created_at row)))])"

definition hashAuditEntry :: "(string \<Rightarrow> string) \<Rightarrow> audit_log \<Rightarrow> string" where
  "hashAuditEntry sha256 row = sha256 (utf8 (canonicalAuditEntry row))"

text \<open>
  \<open>createEpoch\<close>, run inside \<open>withTransaction\<close>: an error leaves the tables as they were. The
  unique constraints are those of the schema: \<open>epoch_start\<close> of an epoch (the insert does
  nothing then) and \<open>log_id\<close> of a leaf (the insert fails). The serial id is consumed even
  when the insert does nothing.
\<close>

fun insert_leaves ::
  "nat \<Rightarrow> nat \<Rightarrow> (nat \<times> string) list \<Rightarrow> merkle_leaf list \<Rightarrow> audit_error + merkle_leaf list" where
  "insert_leaves epochId index [] leaves = Inr leaves"
| "insert_leaves epochId index ((logId, h) # rest) leaves =
     (if \<exists>l\<in>set leaves. lf_log_id l = logId then Inl UniqueViolation
      else insert_leaves epochId (index + 1) rest
             (leaves @ [\<lparr>lf_epoch_id = epochId, lf_log_id = logId, leaf_index = index,
                         leaf_hash = h\<rparr>]))"

definition createEpoch ::
  "(string \<Rightarrow> string) \<Rightarrow> int \<Rightarrow> int \<Rightarrow> audit_db \<Rightarrow> audit_error + (nat option \<times> audit_db)" where
  "createEpoch sha256 start stop db =
     (let logs = sort_key al_id
            (filter (\<lambda>l. start \<le> al_created_at l \<and> al_created_at l < stop) (audit_logs db))
      in if logs = [] then Inr (None, db)
         else
           let leaves = map (hashAuditEntry sha256) logs;
               epochId = next_epoch_id db;
               db1 = db\<lparr>next_epoch_id := epochId + 1\<rparr>
           in if \<exists>e\<in>set (audit_epochs db). epoch_start e = start then Inr (None, db1)
              else
                let epoch = \<lparr>ep_id = epochId, epoch_start = start, epoch_end = stop,
                             ep_merkle_root = merkleRoot sha256 leaves,
                             leaf_count = length leaves, anchor_status = Pending,
                             stellar_tx_hash = None\<rparr>
                in case insert_leaves epochId 0 (zip (map al_id logs) leaves)
                          (audit_merkle_leaves db) of
                     Inl e \<Rightarrow> Inl e
                   | Inr ls \<Rightarrow>
                       Inr (Some epochId,
                            db1\<lparr>audit_epochs := audit_epochs db @ [epoch],
                                audit_merkle_leaves := ls\<rparr>))"

subsection \<open>Anchoring\<close>

datatype tx_status = TX_SUCCESS | TX_FAILED | TX_NOT_FOUND

record anchor_rpc =
  load_signer :: "audit_error option"
  poll_existing :: "string \<Rightarrow> audit_error + tx_status"
  prepare_tx :: "audit_epoch \<Rightarrow> audit_error option"
  send_tx :: "audit_epoch \<Rightarrow> audit_error + string option"
  poll_sent :: "string \<Rightarrow> audit_error + tx_status"

record anchor_env =
  anchor_enabled :: bool
  anchor_contract_id :: "string option"
  anchor_source_secret :: "string option"

definition truthy :: "string option \<Rightarrow> bool" where
  "truthy v \<longleftrightarrow> v \<noteq> None \<and> v \<noteq> Some []"

definition update_epoch ::
  "nat \<Rightarrow> (audit_epoch \<Rightarrow> audit_epoch) \<Rightarrow> audit_db \<Rightarrow> audit_db" where
  "update_epoch i f db =
     db\<lparr>audit_epochs := map (\<lambda>e. if ep_id e = i then f e else e) (audit_epochs db)\<rparr>"

definition submit_anchor ::
  "anchor_rpc \<Rightarrow> audit_epoch \<Rightarrow> audit_db \<Rightarrow> audit_db \<times> audit_error option" where
  "submit_anchor rpc epoch db =
     (case prepare_tx rpc epoch of
        Some e \<Rightarrow> (db, Some e)
      | None \<Rightarrow>
          (case send_tx rpc epoch of
             Inl e \<Rightarrow> (db, Some e)
           | Inr hash \<Rightarrow>
               if \<not> truthy hash then (db, Some AnchorNoHash)
               else
                 let db1 = update_epoch (ep_id epoch) (\<lambda>e. e\<lparr>stellar_tx_hash := hash\<rparr>) db in
                 case poll_sent rpc (the hash) of
                   Inl e \<Rightarrow> (db1, Some e)
                 | Inr TX_SUCCESS \<Rightarrow>
                     (update_epoch (ep_id epoch)
                        (\<lambda>e. e\<lparr>anchor_status := Anchored, stellar_tx_hash := hash\<rparr>) db1, None)
                 | Inr _ \<Rightarrow> (db1, Some AnchorEnded)))"

definition anchorEpoch ::
  "anchor_env \<Rightarrow> anchor_rpc \<Rightarrow> audit_epoch \<Rightarrow> audit_db \<Rightarrow> audit_db \<times> audit_error option" where
  "anchorEpoch env rpc epoch db =
     (if \<not> truthy (anchor_contract_id env) \<or> \<not> truthy (anchor_source_secret env)
      then (db, Some AnchorNotConfigured)
      else case load_signer rpc of
             Some e \<Rightarrow> (db, Some e)
           | None \<Rightarrow>
               if truthy (stellar_tx_hash epoch) then
                 (case poll_existing rpc (the (stellar_tx_hash epoch)) of
                    Inl e \<Rightarrow> (db, Some e)
                  | Inr TX_SUCCESS \<Rightarrow>
                      (update_epoch (ep_id epoch) (\<lambda>e. e\<lparr>anchor_status := Anchored\<rparr>) db, None)
                  | Inr TX_FAILED \<Rightarrow>
                      submit_anchor rpc epoch
                        (update_epoch (ep_id epoch) (\<lambda>e. e\<lparr>stellar_tx_hash := None\<rparr>) db)
                  | Inr TX_NOT_FOUND \<Rightarrow> (db, Some AnchorStillPending))
               else submit_anchor rpc epoch db)"

fun anchor_pending ::
  "anchor_env \<Rightarrow> anchor_rpc \<Rightarrow> audit_epoch list \<Rightarrow> audit_db \<Rightarrow> audit_db" where
  "anchor_pending env rpc [] db = db"
| "anchor_pending env rpc (epoch # rest) db =
     (case anchorEpoch env rpc epoch db of
        (db1, None) \<Rightarrow> anchor_pending env rpc rest db1
      | (db1, Some e) \<Rightarrow>
          anchor_pending env rpc rest
            (update_epoch (ep_id epoch) (\<lambda>e. e\<lparr>anchor_status := Failed\<rparr>) db1))"

definition hour_ms :: int where
  "hour_ms = 60 * 60 * 1000"

definition open_hours :: "int \<Rightarrow> audit_db \<Rightarrow> int list" where
  "open_hours latestClosedHour db =
     take 24 (sort (remdups (map (\<lambda>l. al_created_at l - al_created_at l mod hour_ms)
       (filter (\<lambda>l. al_created_at l < latestClosedHour
                    \<and> \<not> (\<exists>ml\<in>set (audit_merkle_leaves db). lf_log_id ml = al_id l))
         (audit_logs db)))))"

fun seal_hours ::
  "(string \<Rightarrow> string) \<Rightarrow> int list \<Rightarrow> audit_db \<Rightarrow> audit_db \<times> audit_error option" where
  "seal_hours sha256 [] db = (db, None)"
| "seal_hours sha256 (start # rest) db =
     (case createEpoch sha256 start (start + hour_ms) db of
        Inl e \<Rightarrow> (db\<lparr>next_epoch_id := next_epoch_id db + 1\<rparr>, Some e)
      | Inr (_, db1) \<Rightarrow> seal_hours sha256 rest db1)"

definition sealAndAnchor ::
  "(string \<Rightarrow> string) \<Rightarrow> anchor_env \<Rightarrow> anchor_rpc \<Rightarrow> int \<Rightarrow> audit_db \<Rightarrow> audit_db \<times> audit_error option"
where
  "sealAndAnchor sha256 env rpc now db =
     (let latestClosedHour = now - now mod hour_ms in
      case seal_hours sha256 (open_hours latestClosedHour db) db of
        (db1, Some e) \<Rightarrow> (db1, Some e)
      | (db1, None) \<Rightarrow>
          if \<not> anchor_enabled env then (db1, None)
          else
            let pending = take 24 (sort_key epoch_start
                  (filter (\<lambda>e. anchor_status e = Pending \<or> anchor_status e = Failed)
                    (audit_epochs db1)))
            in (anchor_pending env rpc pending db1, None))"

record AuditProof =
  ap_logId :: nat
  ap_leafHash :: string
  ap_leafIndex :: nat
  ap_merkleRoot :: string
  ap_proof :: "MerkleStep list"
  ap_epochStart :: string
  ap_epochEnd :: string
  ap_stellarTxHash :: "string option"
  ap_anchorStatus :: anchor_status
  ap_anchorContractId :: "string option"
  ap_entry :: audit_log

text \<open>The leaf hashes of an epoch, \<open>ORDER BY leaf_index ASC\<close>.\<close>

definition epoch_hashes :: "nat \<Rightarrow> audit_db \<Rightarrow> string list" where
  "epoch_hashes i db =
     map leaf_hash (sort_key leaf_index (filter (\<lambda>l. lf_epoch_id l = i) (audit_merkle_leaves db)))"

definition getProof ::
  "(string \<Rightarrow> string) \<Rightarrow> anchor_env \<Rightarrow> nat \<Rightarrow> audit_db \<Rightarrow> audit_error + AuditProof option" where
  "getProof sha256 env logId db =
     (case find (\<lambda>l. lf_log_id l = logId) (audit_merkle_leaves db) of
        None \<Rightarrow> Inr None
      | Some ml \<Rightarrow>
          (case (find (\<lambda>e. ep_id e = lf_epoch_id ml) (audit_epochs db),
                 find (\<lambda>l. al_id l = logId) (audit_logs db)) of
             (Some ep, Some entry) \<Rightarrow>
               (case merkleProof sha256 (epoch_hashes (ep_id ep) db) (int (leaf_index ml)) of
                  Inl e \<Rightarrow> Inl e
                | Inr prf \<Rightarrow>
                    Inr (Some \<lparr>ap_logId = logId, ap_leafHash = leaf_hash ml,
                      ap_leafIndex = leaf_index ml, ap_merkleRoot = ep_merkle_root ep,
                      ap_proof = prf, ap_epochStart = toISOString (epoch_start ep),
                      ap_epochEnd = toISOString (epoch_end ep),
                      ap_stellarTxHash = (if truthy (stellar_tx_hash ep)
                                          then stellar_tx_hash ep else None),
                      ap_anchorStatus = anchor_status ep,
                      ap_anchorContractId = anchor_contract_id env,
                      ap_entry = entry\<rparr>))
           | _ \<Rightarrow> Inr None))"

subsection \<open>Inclusion proofs verify\<close>

lemma next_level_nth:
  "i < length (next_level sha256 xs) \<Longrightarrow>
    next_level sha256 xs ! i =
      node_hash sha256 (xs ! (2 * i)) (if 2 * i + 1 < length xs then xs ! (2 * i + 1) else xs ! (2 * i))"
proof (induction sha256 xs arbitrary: i rule: next_level.induct)
  case (3 sha256 x y rest)
  then show ?case by (cases i) auto
qed auto

lemma verify_step_first:
  assumes "index < length level" "1 < length level"
  shows "verify_step sha256 (level ! index)
     \<lparr>step_position = (if even index then RightPos else LeftPos),
      step_hash = (if (if even index then index + 1 else index - 1) < length level
                   then level ! (if even index then index + 1 else index - 1)
                   else level ! index)\<rparr>
     = next_level sha256 level ! (index div 2)"
proof -
  have "index div 2 < length (next_level sha256 level)"
    using assms(1) by (simp add: length_next_level)
  then show ?thesis
    using assms next_level_nth [of "index div 2" sha256 level]
    by (cases "even index") (auto simp: node_hash_def elim!: evenE oddE)
qed

lemma fold_proof_steps:
  "index < length level \<Longrightarrow>
    foldl (verify_step sha256) (level ! index) (proof_steps sha256 level index)
      = hd (reduce_levels sha256 level)"
proof (induction sha256 level index rule: proof_steps.induct)
  case (1 sha256 level index)
  show ?case
  proof (cases "1 < length level")
    case True
    have "index div 2 < length (next_level sha256 level)"
      using "1.prems" by (simp add: length_next_level)
    with 1 True show ?thesis
      using verify_step_first [OF "1.prems" True, of sha256]
      by (simp add: proof_steps.simps [of sha256 level index]
          reduce_levels.simps [of sha256 level] Let_def del: verify_step.simps)
  next
    case False
    with "1.prems" have "index = 0" "level \<noteq> []" by auto
    with False show ?thesis
      by (simp add: proof_steps.simps [of sha256 level] reduce_levels.simps [of sha256 level]
          hd_conv_nth)
  qed
qed

text \<open>
  C13. Every inclusion proof the service builds verifies against the root of the same
  leaves: for any hash function, any number of leaves and any valid index, while an index
  out of range is refused.
\<close>

theorem merkleProof_verifies:
  "(\<exists>prf. merkleProof sha256 leaves i = Inr prf
      \<and> verifyMerkleProof sha256 (leaves ! nat i) prf (merkleRoot sha256 leaves))
   = (0 \<le> i \<and> i < int (length leaves))"
proof (cases "0 \<le> i \<and> i < int (length leaves)")
  case True
  then have "nat i < length leaves" by (simp add: nat_less_iff)
  then show ?thesis
    using True fold_proof_steps [of "nat i" leaves sha256]
    by (auto simp: merkleProof_def verifyMerkleProof_def merkleRoot_def)
qed (auto simp: merkleProof_def)

subsection \<open>A forged leaf needs a hash collision\<close>

definition lower_hex :: "char \<Rightarrow> bool" where
  "lower_hex c \<longleftrightarrow> (let n = (of_char c :: nat) in (48 \<le> n \<and> n \<le> 57) \<or> (97 \<le> n \<and> n \<le> 102))"

definition hexstr :: "nat \<Rightarrow> string \<Rightarrow> bool" where
  "hexstr k s \<longleftrightarrow> length s = 2 * k \<and> list_all lower_hex s"

lemma hex_nibble_lower: "lower_hex c \<Longrightarrow> \<exists>v<16. hex_nibble c = Some v"
  by (auto simp: lower_hex_def hex_nibble_def Let_def)

lemma hex_nibble_inj: "lower_hex c \<Longrightarrow> lower_hex d \<Longrightarrow> hex_nibble c = hex_nibble d \<Longrightarrow> c = d"
proof -
  assume "lower_hex c" "lower_hex d" "hex_nibble c = hex_nibble d"
  then have "(of_char c :: nat) = of_char d"
    by (auto simp: lower_hex_def hex_nibble_def Let_def simp del: of_char_eq_iff split: if_splits)
  then show "c = d" by simp
qed

lemma char_of_pair_inj:
  assumes "x < 16" "y < 16" "x' < 16" "y' < 16" "char_of (16 * x + y :: nat) = (char_of (16 * x' + y') :: char)"
  shows "x = x' \<and> y = y'"
proof -
  have "(16 * x + y) mod 256 = (16 * x' + y') mod 256"
    using arg_cong [OF assms(5), of "of_char :: char \<Rightarrow> nat"] by (simp only: of_char_of)
  moreover have "16 * x + y < 256" "16 * x' + y' < 256" using assms(1-4) by linarith+
  ultimately have "16 * x + y = 16 * x' + y'" by (simp only: mod_less)
  then have "(16 * x + y) div 16 = (16 * x' + y') div 16"
    "(16 * x + y) mod 16 = (16 * x' + y') mod 16" by (simp_all only:)
  then show ?thesis using assms(1-4) by simp
qed

lemma hex_bytes_props:
  "hexstr k s \<Longrightarrow> length (hex_bytes s) = k"
  "hexstr k s \<Longrightarrow> hexstr k t \<Longrightarrow> hex_bytes s = hex_bytes t \<Longrightarrow> s = t"
proof (induction k arbitrary: s t)
  case 0
  { case 1 then show ?case by (simp add: hexstr_def) }
  { case 2 then show ?case by (simp add: hexstr_def) }
next
  case (Suc k)
  have split: "\<exists>a b r x y. u = a # b # r \<and> lower_hex a \<and> lower_hex b \<and> hexstr k r
      \<and> x < 16 \<and> y < 16 \<and> hex_nibble a = Some x \<and> hex_nibble b = Some y
      \<and> hex_bytes u = char_of (16 * x + y) # hex_bytes r"
    if u: "hexstr (Suc k) u" for u
  proof -
    from u obtain a b r where r: "u = a # b # r" "lower_hex a" "lower_hex b" "hexstr k r"
      by (auto simp: hexstr_def length_Suc_conv)
    moreover obtain x y where "x < 16" "hex_nibble a = Some x" "y < 16" "hex_nibble b = Some y"
      using hex_nibble_lower r(2,3) by metis
    ultimately show ?thesis by auto
  qed
  { case 1
    with split [OF 1] Suc.IH(1) show ?case by auto }
  { case 2
    obtain a b r x y where s: "s = a # b # r" "lower_hex a" "lower_hex b" "hexstr k r"
      "x < 16" "y < 16" "hex_nibble a = Some x" "hex_nibble b = Some y"
      "hex_bytes s = char_of (16 * x + y) # hex_bytes r"
      using split [OF 2(1)] by blast
    obtain a' b' r' x' y' where t: "t = a' # b' # r'" "lower_hex a'" "lower_hex b'" "hexstr k r'"
      "x' < 16" "y' < 16" "hex_nibble a' = Some x'" "hex_nibble b' = Some y'"
      "hex_bytes t = char_of (16 * x' + y') # hex_bytes r'"
      using split [OF 2(2)] by blast
    from 2(3) s(9) t(9) have "char_of (16 * x + y :: nat) = (char_of (16 * x' + y') :: char)"
      "hex_bytes r = hex_bytes r'" by simp_all
    then have "x = x' \<and> y = y'" "r = r'"
      using char_of_pair_inj [of x y x' y'] s(5,6) t(5,6) Suc.IH(2) s(4) t(4) by blast+
    then show ?case using s t hex_nibble_inj [of a a'] hex_nibble_inj [of b b'] by simp }
qed

text \<open>The byte strings the verifier hashes, and those of the path of a leaf in the tree.\<close>

fun step_input :: "string \<Rightarrow> MerkleStep \<Rightarrow> string" where
  "step_input current step =
     hex_bytes (if step_position step = LeftPos then step_hash step else current)
     @ hex_bytes (if step_position step = RightPos then step_hash step else current)"

fun verify_inputs :: "(string \<Rightarrow> string) \<Rightarrow> string \<Rightarrow> MerkleStep list \<Rightarrow> string list" where
  "verify_inputs sha256 current [] = []"
| "verify_inputs sha256 current (s # steps) =
     step_input current s # verify_inputs sha256 (verify_step sha256 current s) steps"

lemma step_input_inj:
  assumes "hexstr k a" "hexstr k b" "hexstr k (step_hash s)" "hexstr k (step_hash t)"
    and "step_position s = step_position t" "step_input a s = step_input b t"
  shows "a = b \<and> s = t"
proof (cases "step_position t")
  case LeftPos
  then have "hex_bytes (step_hash s) @ hex_bytes a = hex_bytes (step_hash t) @ hex_bytes b"
    using assms(5,6) by simp
  then have "step_hash s = step_hash t" "a = b"
    using assms(1-4) by (metis append_eq_append_conv hex_bytes_props)+
  with assms(5) show ?thesis by simp
next
  case RightPos
  then have "hex_bytes a @ hex_bytes (step_hash s) = hex_bytes b @ hex_bytes (step_hash t)"
    using assms(5,6) by simp
  then have "step_hash s = step_hash t" "a = b"
    using assms(1-4) by (metis append_eq_append_conv hex_bytes_props)+
  with assms(5) show ?thesis by simp
qed

lemma verify_inputs_agree:
  assumes "\<forall>x. hexstr k (sha256 x)" "hexstr k a" "hexstr k b"
    and "\<forall>s\<in>set ss. hexstr k (step_hash s)" "\<forall>t\<in>set ts. hexstr k (step_hash t)"
    and "map step_position ss = map step_position ts"
    and "foldl (verify_step sha256) a ss = foldl (verify_step sha256) b ts"
    and "\<forall>x\<in>set (verify_inputs sha256 a ss). \<forall>y\<in>set (verify_inputs sha256 b ts).
           sha256 x = sha256 y \<longrightarrow> x = y"
  shows "a = b \<and> ss = ts"
  using assms(2-)
proof (induction ss arbitrary: a b ts)
  case (Cons s ss)
  from Cons.prems(5) obtain t ts' where ts: "ts = t # ts'" by (cases ts) auto
  have out: "verify_step sha256 c u = sha256 (step_input c u)" for c u by (simp add: Let_def)
  have next_eq: "verify_step sha256 a s = verify_step sha256 b t \<and> ss = ts'"
  proof (rule Cons.IH)
    show "hexstr k (verify_step sha256 a s)" "hexstr k (verify_step sha256 b t)"
      using assms(1) by (simp_all only: out)
    show "foldl (verify_step sha256) (verify_step sha256 a s) ss
        = foldl (verify_step sha256) (verify_step sha256 b t) ts'"
      using Cons.prems(6) ts by (simp del: verify_step.simps)
  qed (use Cons.prems ts in \<open>auto simp del: verify_step.simps step_input.simps\<close>)
  then have "step_input a s = step_input b t"
    using Cons.prems(7) ts by (auto simp: out simp del: verify_step.simps step_input.simps)
  then have "a = b \<and> s = t"
    by (rule step_input_inj [of k, rotated 5]) (use Cons.prems(1-5) ts in simp_all)
  with next_eq ts show ?case by simp
qed simp

lemma next_level_hexstr: "\<forall>x. hexstr k (sha256 x) \<Longrightarrow> list_all (hexstr k) (next_level sha256 xs)"
  by (induction sha256 xs rule: next_level.induct) (auto simp: node_hash_def)

lemma proof_steps_hexstr:
  "\<forall>x. hexstr k (sha256 x) \<Longrightarrow> list_all (hexstr k) level \<Longrightarrow> index < length level \<Longrightarrow>
    \<forall>s\<in>set (proof_steps sha256 level index). hexstr k (step_hash s)"
proof (induction sha256 level index rule: proof_steps.induct)
  case (1 sha256 level index)
  have half: "index div 2 < length (next_level sha256 level)"
    using "1.prems"(3) by (simp add: length_next_level)
  show ?case
    using 1 half next_level_hexstr [OF "1.prems"(1), of level]
    by (subst proof_steps.simps) (auto simp: Let_def list_all_length)
qed

text \<open>
  C12. Verification is sound: a proof with the shape of the path to leaf \<open>i\<close> that verifies
  against the root forces the leaf hash and every sibling to be the original ones, unless
  the hash function collides between an input of the verifier and an input of that path.
\<close>

theorem verifyMerkleProof_sound:
  assumes "\<forall>x. hexstr k (sha256 x)" "list_all (hexstr k) leaves" "i < length leaves"
    and "hexstr k leafHash" "\<forall>s\<in>set prf. hexstr k (step_hash s)"
    and "map step_position prf = map step_position (proof_steps sha256 leaves i)"
    and "verifyMerkleProof sha256 leafHash prf (merkleRoot sha256 leaves)"
    and "\<forall>x\<in>set (verify_inputs sha256 leafHash prf).
           \<forall>y\<in>set (verify_inputs sha256 (leaves ! i) (proof_steps sha256 leaves i)).
             sha256 x = sha256 y \<longrightarrow> x = y"
  shows "leafHash = leaves ! i \<and> merkleProof sha256 leaves (int i) = Inr prf"
proof -
  have "leaves \<noteq> []" using assms(3) by auto
  with assms(7) have "foldl (verify_step sha256) leafHash prf
      = foldl (verify_step sha256) (leaves ! i) (proof_steps sha256 leaves i)"
    by (simp only: verifyMerkleProof_def merkleRoot_def fold_proof_steps [OF assms(3)] if_False)
  then have "leafHash = leaves ! i \<and> prf = proof_steps sha256 leaves i"
    using assms proof_steps_hexstr [OF assms(1-3)]
    by (intro verify_inputs_agree [of k sha256]) (simp_all add: list_all_length)
  then show ?thesis using assms(3) by (simp add: merkleProof_def)
qed

theorem verifyMerkleProof_sound_witness:
  "let sha = (\<lambda>_. ''ab''); leaves = [''01'', ''02'']; prf = proof_steps sha leaves 0 in
   verifyMerkleProof sha ''01'' prf (merkleRoot sha leaves)
   \<and> ''01'' = leaves ! 0 \<and> merkleProof sha leaves (int 0) = Inr prf"
proof -
  let ?sha = "\<lambda>_ :: string. ''ab''" and ?ls = "[''01'', ''02'']"
  have steps: "proof_steps ?sha ?ls 0 = [\<lparr>step_position = RightPos, step_hash = ''02''\<rparr>]"
    by (simp add: proof_steps.simps)
  have root: "merkleRoot ?sha ?ls = ''ab''"
    by (simp add: merkleRoot_def reduce_levels.simps node_hash_def)
  have ver: "verifyMerkleProof ?sha ''01'' (proof_steps ?sha ?ls 0) (merkleRoot ?sha ?ls)"
    by (simp add: steps root verifyMerkleProof_def)
  have "''01'' = ?ls ! 0 \<and> merkleProof ?sha ?ls (int 0) = Inr (proof_steps ?sha ?ls 0)"
    by (rule verifyMerkleProof_sound [of 1])
       (use ver in \<open>simp_all add: steps root hexstr_def lower_hex_def\<close>)
  with ver show ?thesis by (simp add: Let_def)
qed

subsection \<open>Sealed epochs stay provable\<close>

definition leaves_of :: "nat \<Rightarrow> audit_db \<Rightarrow> merkle_leaf list" where
  "leaves_of i db = filter (\<lambda>l. lf_epoch_id l = i) (audit_merkle_leaves db)"

definition epoch_ok :: "(string \<Rightarrow> string) \<Rightarrow> audit_db \<Rightarrow> audit_epoch \<Rightarrow> bool" where
  "epoch_ok sha256 db e \<longleftrightarrow>
     ep_id e < next_epoch_id db
     \<and> map leaf_index (leaves_of (ep_id e) db) = [0..<leaf_count e]
     \<and> ep_merkle_root e = merkleRoot sha256 (map leaf_hash (leaves_of (ep_id e) db))"

definition leaf_ok :: "(string \<Rightarrow> string) \<Rightarrow> audit_db \<Rightarrow> merkle_leaf \<Rightarrow> bool" where
  "leaf_ok sha256 db l \<longleftrightarrow>
     lf_epoch_id l \<in> set (map ep_id (audit_epochs db))
     \<and> (\<exists>r\<in>set (audit_logs db). al_id r = lf_log_id l \<and> leaf_hash l = hashAuditEntry sha256 r)"

definition sealed_ok :: "(string \<Rightarrow> string) \<Rightarrow> audit_db \<Rightarrow> bool" where
  "sealed_ok sha256 db \<longleftrightarrow>
     distinct (map al_id (audit_logs db)) \<and> distinct (map ep_id (audit_epochs db))
     \<and> distinct (map lf_log_id (audit_merkle_leaves db))
     \<and> (\<forall>e\<in>set (audit_epochs db). epoch_ok sha256 db e)
     \<and> (\<forall>l\<in>set (audit_merkle_leaves db). leaf_ok sha256 db l)"

definition mk_leaves :: "nat \<Rightarrow> nat \<Rightarrow> (nat \<times> string) list \<Rightarrow> merkle_leaf list" where
  "mk_leaves e i ps =
     map (\<lambda>(k, logId, h). \<lparr>lf_epoch_id = e, lf_log_id = logId, leaf_index = k, leaf_hash = h\<rparr>)
       (zip [i..<i + length ps] ps)"

lemma mk_leaves_simps:
  "map lf_log_id (mk_leaves e i ps) = map fst ps" "map leaf_hash (mk_leaves e i ps) = map snd ps"
  "map leaf_index (mk_leaves e i ps) = [i..<i + length ps]"
  "\<forall>l\<in>set (mk_leaves e i ps). lf_epoch_id l = e"
  "l \<in> set (mk_leaves e i ps) \<Longrightarrow> (lf_log_id l, leaf_hash l) \<in> set ps"
  by (auto simp: mk_leaves_def comp_def case_prod_unfold dest: set_zip_rightD
      intro: nth_equalityI)

lemma insert_leaves_result:
  "insert_leaves e i ps leaves = Inr ls \<Longrightarrow>
    ls = leaves @ mk_leaves e i ps"
proof (induction e i ps leaves rule: insert_leaves.induct)
  case (2 e i logId h rest leaves)
  then have fresh: "logId \<notin> set (map lf_log_id leaves)" by (auto split: if_splits)
  have cons: "mk_leaves e i ((logId, h) # rest) =
      \<lparr>lf_epoch_id = e, lf_log_id = logId, leaf_index = i, leaf_hash = h\<rparr> # mk_leaves e (i + 1) rest"
    by (simp add: mk_leaves_def upt_rec)
  have step: "\<not> (\<exists>l\<in>set leaves. lf_log_id l = logId)" using fresh by auto
  let ?x = "\<lparr>lf_epoch_id = e, lf_log_id = logId, leaf_index = i, leaf_hash = h\<rparr>"
  have "insert_leaves e (i + 1) rest (leaves @ [?x]) = Inr ls"
    using "2.prems" step by simp
  from "2.IH" [OF step this] show ?case by (simp add: cons)
qed (simp add: mk_leaves_def)

lemma insert_leaves_distinct:
  "insert_leaves e i ps leaves = Inr ls \<Longrightarrow> distinct (map lf_log_id leaves) \<Longrightarrow>
    distinct (map lf_log_id ls)"
  by (induction e i ps leaves rule: insert_leaves.induct) (auto split: if_splits)

text \<open>A new epoch with its leaves appended keeps the invariant.\<close>

lemma leaves_of_fresh:
  assumes "sealed_ok sha256 db" "audit_merkle_leaves db' = audit_merkle_leaves db @ mk_leaves n 0 ps"
    and "n = next_epoch_id db"
  shows "leaves_of n db' = mk_leaves n 0 ps"
    and "i < next_epoch_id db \<Longrightarrow> leaves_of i db' = leaves_of i db"
proof -
  have old: "lf_epoch_id l < next_epoch_id db" if "l \<in> set (audit_merkle_leaves db)" for l
    using assms(1) that by (fastforce simp: sealed_ok_def leaf_ok_def epoch_ok_def)
  then have "filter (\<lambda>l. lf_epoch_id l = n) (audit_merkle_leaves db) = []"
    using assms(3) by (fastforce simp: filter_empty_conv)
  moreover have "filter (\<lambda>l. lf_epoch_id l = n) (mk_leaves n 0 ps) = mk_leaves n 0 ps"
    using mk_leaves_simps(4) by (auto simp: filter_id_conv)
  ultimately show "leaves_of n db' = mk_leaves n 0 ps" by (simp add: leaves_of_def assms(2))
  show "leaves_of i db' = leaves_of i db" if "i < next_epoch_id db"
    using that assms(3) mk_leaves_simps(4) [of n 0 ps]
    by (auto simp: leaves_of_def assms(2) filter_empty_conv)
qed

lemma createEpoch_sealed_ok:
  assumes ok: "sealed_ok sha256 db" and run: "createEpoch sha256 start stop db = Inr (r, db')"
  shows "sealed_ok sha256 db'"
proof -
  define logs where "logs = sort_key al_id
      (filter (\<lambda>l. start \<le> al_created_at l \<and> al_created_at l < stop) (audit_logs db))"
  define n where "n = next_epoch_id db"
  define ps where "ps = zip (map al_id logs) (map (hashAuditEntry sha256) logs)"
  have ps: "map snd ps = map (hashAuditEntry sha256) logs" "length ps = length logs"
    by (simp_all add: ps_def)
  consider "db' = db" | "db' = db\<lparr>next_epoch_id := n + 1\<rparr>"
    | ls where "insert_leaves n 0 ps (audit_merkle_leaves db) = Inr ls"
      "db' = db\<lparr>next_epoch_id := n + 1,
         audit_epochs := audit_epochs db @ [\<lparr>ep_id = n, epoch_start = start, epoch_end = stop,
           ep_merkle_root = merkleRoot sha256 (map (hashAuditEntry sha256) logs),
           leaf_count = length logs, anchor_status = Pending, stellar_tx_hash = None\<rparr>],
         audit_merkle_leaves := ls\<rparr>"
    using run unfolding createEpoch_def Let_def logs_def [symmetric] n_def [symmetric] ps_def
    by (auto split: if_splits sum.splits)
  then show ?thesis
  proof cases
    case 1
    with ok show ?thesis by simp
  next
    case 2
    with ok n_def show ?thesis
      by (fastforce simp: sealed_ok_def epoch_ok_def leaf_ok_def leaves_of_def)
  next
    case (3 ls)
    have ls: "ls = audit_merkle_leaves db @ mk_leaves n 0 ps" "distinct (map lf_log_id ls)"
      using insert_leaves_result [OF 3(1)] insert_leaves_distinct [OF 3(1)] ok
      by (simp_all only: sealed_ok_def)
    have db': "audit_merkle_leaves db' = audit_merkle_leaves db @ mk_leaves n 0 ps"
      using 3(2) ls(1) by simp
    note fresh = leaves_of_fresh [OF ok db' n_def]
    have new: "leaf_ok sha256 db' l" if "l \<in> set (mk_leaves n 0 ps)" for l
    proof -
      have "(lf_log_id l, leaf_hash l) \<in> set ps" "lf_epoch_id l = n"
        using mk_leaves_simps(4,5) that by blast+
      then obtain r where "r \<in> set logs" "lf_log_id l = al_id r" "leaf_hash l = hashAuditEntry sha256 r"
        by (auto simp: ps_def zip_map_map zip_same_conv_map)
      then show ?thesis using \<open>lf_epoch_id l = n\<close> 3(2) by (auto simp: leaf_ok_def logs_def)
    qed
    have ids: "n \<notin> set (map ep_id (audit_epochs db))"
      using ok by (fastforce simp: sealed_ok_def epoch_ok_def n_def)
    have "\<forall>e\<in>set (audit_epochs db). epoch_ok sha256 db' e"
      using ok 3(2) fresh(2) by (auto simp: sealed_ok_def epoch_ok_def n_def)
    moreover have "\<forall>l\<in>set (audit_merkle_leaves db). leaf_ok sha256 db' l"
      using ok 3(2) by (auto simp: sealed_ok_def leaf_ok_def)
    ultimately show ?thesis
      using ok 3(2) ls ids new fresh(1) ps
      by (auto simp: sealed_ok_def epoch_ok_def mk_leaves_simps)
  qed
qed

text \<open>What anchoring leaves alone: everything but the status and the transaction hash.\<close>

definition epoch_core :: "audit_epoch \<Rightarrow> nat \<times> int \<times> int \<times> string \<times> nat" where
  "epoch_core e = (ep_id e, epoch_start e, epoch_end e, ep_merkle_root e, leaf_count e)"

definition core_eq :: "audit_db \<Rightarrow> audit_db \<Rightarrow> bool" where
  "core_eq db db' \<longleftrightarrow>
     audit_logs db' = audit_logs db \<and> audit_merkle_leaves db' = audit_merkle_leaves db
     \<and> next_epoch_id db' = next_epoch_id db
     \<and> map epoch_core (audit_epochs db') = map epoch_core (audit_epochs db)"

lemma core_eq_refl [simp]: "core_eq db db"
  by (simp add: core_eq_def)

lemma core_eq_trans: "core_eq a b \<Longrightarrow> core_eq b c \<Longrightarrow> core_eq a c"
  by (simp add: core_eq_def)

lemma core_eq_update: "(\<And>e. epoch_core (f e) = epoch_core e) \<Longrightarrow> core_eq db (update_epoch i f db)"
  by (simp add: core_eq_def update_epoch_def)

lemma core_eq_status [simp]:
  "core_eq db (update_epoch i (\<lambda>e. e\<lparr>anchor_status := s\<rparr>) db)"
  "core_eq db (update_epoch i (\<lambda>e. e\<lparr>stellar_tx_hash := h\<rparr>) db)"
  "core_eq db (update_epoch i (\<lambda>e. e\<lparr>anchor_status := s, stellar_tx_hash := h\<rparr>) db)"
  by (rule core_eq_update; simp add: epoch_core_def)+

lemma core_eq_sealed_ok:
  assumes "core_eq db db'" "sealed_ok sha256 db"
  shows "sealed_ok sha256 db'"
proof -
  have core: "map epoch_core (audit_epochs db') = map epoch_core (audit_epochs db)"
    using assms(1) by (simp add: core_eq_def)
  have via: "map ep_id es = map fst (map epoch_core es)" for es
    by (simp add: comp_def epoch_core_def)
  have ids: "map ep_id (audit_epochs db') = map ep_id (audit_epochs db)"
    by (simp only: via core)
  have "epoch_ok sha256 db' e" if e: "e \<in> set (audit_epochs db')" for e
  proof -
    from e have "epoch_core e \<in> epoch_core ` set (audit_epochs db)"
      using arg_cong [OF core, of set] by (metis image_eqI set_map)
    then obtain e0 where "e0 \<in> set (audit_epochs db)" "epoch_core e = epoch_core e0" by auto
    then show ?thesis
      using assms by (auto simp: sealed_ok_def epoch_ok_def core_eq_def epoch_core_def leaves_of_def)
  qed
  moreover have "set (map ep_id (audit_epochs db')) = set (map ep_id (audit_epochs db))"
    by (simp only: ids)
  ultimately show ?thesis
    using assms ids by (auto simp: sealed_ok_def core_eq_def leaf_ok_def)
qed

lemma submit_anchor_core: "core_eq db (fst (submit_anchor rpc epoch db))"
  by (auto simp: submit_anchor_def Let_def split: option.splits sum.splits tx_status.splits
      intro: core_eq_trans core_eq_status)

lemma anchorEpoch_core: "core_eq db (fst (anchorEpoch env rpc epoch db))"
  by (auto simp: anchorEpoch_def split: option.splits sum.splits tx_status.splits
      intro: core_eq_trans [OF _ submit_anchor_core] submit_anchor_core)

lemma anchor_pending_core: "core_eq db (anchor_pending env rpc es db)"
proof (induction es arbitrary: db)
  case (Cons e es)
  have "core_eq db (fst (anchorEpoch env rpc e db))" by (rule anchorEpoch_core)
  then show ?case
    using Cons.IH by (auto split: prod.splits option.splits intro: core_eq_trans)
      (metis core_eq_trans core_eq_status(1))
qed simp

lemma seal_hours_sealed_ok:
  "sealed_ok sha256 db \<Longrightarrow> sealed_ok sha256 (fst (seal_hours sha256 hs db))"
proof (induction hs arbitrary: db)
  case (Cons h hs)
  show ?case
  proof (cases "createEpoch sha256 h (h + hour_ms) db")
    case (Inl e)
    with Cons.prems show ?thesis
      by (fastforce simp: sealed_ok_def epoch_ok_def leaf_ok_def leaves_of_def)
  next
    case (Inr r)
    with Cons createEpoch_sealed_ok [OF Cons.prems] show ?thesis by (cases r) auto
  qed
qed simp

lemma sealAndAnchor_sealed_ok:
  assumes "sealed_ok sha256 db"
  shows "sealed_ok sha256 (fst (sealAndAnchor sha256 env rpc now db))"
  using seal_hours_sealed_ok [OF assms, of "open_hours (now - now mod hour_ms) db"]
  by (auto simp: sealAndAnchor_def Let_def split: prod.splits option.splits
      intro: core_eq_sealed_ok [OF anchor_pending_core])

subsection \<open>Reachable audit tables\<close>

text \<open>Rows are appended to the log by the rest of the system; the job seals and anchors.\<close>

definition empty_audit_db :: audit_db where
  "empty_audit_db =
     \<lparr>audit_logs = [], audit_epochs = [], audit_merkle_leaves = [], next_epoch_id = 1\<rparr>"

inductive audit_reach :: "(string \<Rightarrow> string) \<Rightarrow> audit_db \<Rightarrow> bool" for sha256 where
  start: "audit_reach sha256 empty_audit_db"
| append: "audit_reach sha256 db \<Longrightarrow> al_id l \<notin> set (map al_id (audit_logs db)) \<Longrightarrow>
     audit_reach sha256 (db\<lparr>audit_logs := audit_logs db @ [l]\<rparr>)"
| seal: "audit_reach sha256 db \<Longrightarrow>
     audit_reach sha256 (fst (sealAndAnchor sha256 env rpc now db))"

lemma audit_reach_sealed_ok: "audit_reach sha256 db \<Longrightarrow> sealed_ok sha256 db"
proof (induction rule: audit_reach.induct)
  case start
  then show ?case by (simp add: sealed_ok_def empty_audit_db_def)
next
  case (append db l)
  then show ?case by (auto simp: sealed_ok_def epoch_ok_def leaf_ok_def leaves_of_def)
next
  case (seal db env rpc now)
  then show ?case by (simp add: sealAndAnchor_sealed_ok)
qed

lemma find_distinct:
  assumes "distinct (map f xs)" "x \<in> set xs"
  shows "find (\<lambda>y. f y = f x) xs = Some x"
  using assms by (induction xs) force+

lemma epoch_hashes_eq:
  "epoch_ok sha256 db e \<Longrightarrow> epoch_hashes (ep_id e) db = map leaf_hash (leaves_of (ep_id e) db)"
  by (simp add: epoch_hashes_def epoch_ok_def leaves_of_def sort_key_id_if_sorted)

lemma leaf_position:
  assumes "map leaf_index ls = [0..<n]" "l \<in> set ls"
  shows "leaf_index l < length ls \<and> ls ! leaf_index l = l"
proof -
  from assms(2) obtain k where k: "k < length ls" "ls ! k = l" by (metis in_set_conv_nth)
  have "length ls = n" using arg_cong [OF assms(1), of length] by simp
  with k have "leaf_index l = k" using arg_cong [OF assms(1), of "\<lambda>xs. xs ! k"] by simp
  with k show ?thesis by simp
qed

lemma getProof_found:
  assumes ok: "sealed_ok sha256 db" and ml: "ml \<in> set (audit_merkle_leaves db)"
  shows "\<exists>p. getProof sha256 env (lf_log_id ml) db = Inr (Some p)
     \<and> verifyMerkleProof sha256 (ap_leafHash p) (ap_proof p) (ap_merkleRoot p)
     \<and> ap_leafHash p = hashAuditEntry sha256 (ap_entry p)
     \<and> ap_entry p \<in> set (audit_logs db) \<and> al_id (ap_entry p) = lf_log_id ml"
proof -
  from ok ml obtain r e where r: "r \<in> set (audit_logs db)" "al_id r = lf_log_id ml"
    "leaf_hash ml = hashAuditEntry sha256 r"
    and e: "e \<in> set (audit_epochs db)" "ep_id e = lf_epoch_id ml" "epoch_ok sha256 db e"
    by (fastforce simp: sealed_ok_def leaf_ok_def)
  have finds: "find (\<lambda>l. lf_log_id l = lf_log_id ml) (audit_merkle_leaves db) = Some ml"
    "find (\<lambda>x. ep_id x = lf_epoch_id ml) (audit_epochs db) = Some e"
    "find (\<lambda>l. al_id l = lf_log_id ml) (audit_logs db) = Some r"
    using ok ml r e find_distinct [of lf_log_id] find_distinct [of ep_id] find_distinct [of al_id]
    by (force simp: sealed_ok_def)+
  let ?ls = "leaves_of (ep_id e) db" and ?hs = "map leaf_hash (leaves_of (ep_id e) db)"
  have "ml \<in> set ?ls" using ml e(2) by (simp add: leaves_of_def)
  with e(3) have pos: "leaf_index ml < length ?ls" "?ls ! leaf_index ml = ml"
    using leaf_position [of ?ls "leaf_count e" ml] by (simp_all add: epoch_ok_def)
  then have "verifyMerkleProof sha256 (leaf_hash ml) (proof_steps sha256 ?hs (leaf_index ml))
      (ep_merkle_root e)"
    using e(3) fold_proof_steps [of "leaf_index ml" ?hs sha256]
    by (auto simp: verifyMerkleProof_def epoch_ok_def merkleRoot_def)
  moreover have "merkleProof sha256 (epoch_hashes (ep_id e) db) (int (leaf_index ml))
      = Inr (proof_steps sha256 ?hs (leaf_index ml))"
    using pos(1) by (simp add: merkleProof_def epoch_hashes_eq [OF e(3)])
  ultimately show ?thesis using finds r e(2) by (simp add: getProof_def)
qed

text \<open>
  C14. In every reachable state the proof endpoint never fails: for a log entry that has not
  been sealed it returns nothing, and for a sealed one it returns a proof that verifies
  against the stored root and whose leaf is the hash of the stored log entry itself.
\<close>

theorem getProof_reachable:
  assumes "audit_reach sha256 db"
  shows "if \<exists>ml\<in>set (audit_merkle_leaves db). lf_log_id ml = logId
     then \<exists>p. getProof sha256 env logId db = Inr (Some p)
        \<and> verifyMerkleProof sha256 (ap_leafHash p) (ap_proof p) (ap_merkleRoot p)
        \<and> ap_leafHash p = hashAuditEntry sha256 (ap_entry p)
        \<and> ap_entry p \<in> set (audit_logs db) \<and> al_id (ap_entry p) = logId
     else getProof sha256 env logId db = Inr None"
proof (cases "\<exists>ml\<in>set (audit_merkle_leaves db). lf_log_id ml = logId")
  case True
  then show ?thesis
    using getProof_found [OF audit_reach_sealed_ok [OF assms]] by auto
next
  case False
  then have "find (\<lambda>l. lf_log_id l = logId) (audit_merkle_leaves db) = None"
    by (auto simp: find_None_iff)
  with False show ?thesis by (auto simp: getProof_def)
qed

definition sample_log :: audit_log where
  "sample_log = \<lparr>al_id = 7, al_actor = Some ''a'', al_action = Some ''x'', al_target = None,
     al_payload = None, al_ip_address = None, al_status = Some 200, al_created_at = 0\<rparr>"

definition sample_env :: anchor_env where
  "sample_env = \<lparr>anchor_enabled = False, anchor_contract_id = None, anchor_source_secret = None\<rparr>"

definition sample_rpc :: anchor_rpc where
  "sample_rpc = \<lparr>load_signer = None, poll_existing = (\<lambda>_. Inr TX_SUCCESS), prepare_tx = (\<lambda>_. None),
    send_tx = (\<lambda>_. Inr None), poll_sent = (\<lambda>_. Inr TX_SUCCESS)\<rparr>"

definition sample_db :: audit_db where
  "sample_db = empty_audit_db\<lparr>audit_logs := [sample_log]\<rparr>"

lemma sample_db_reach: "audit_reach sha256 sample_db"
proof -
  have "audit_reach sha256 (empty_audit_db\<lparr>audit_logs := audit_logs empty_audit_db @ [sample_log]\<rparr>)"
    by (rule audit_reach.append [OF audit_reach.start]) (simp add: empty_audit_db_def)
  then show ?thesis by (simp add: empty_audit_db_def sample_db_def)
qed

lemmas sample_eval = sealAndAnchor_def hour_ms_def open_hours_def createEpoch_def
  empty_audit_db_def sample_log_def hashAuditEntry_def sample_db_def sample_env_def merkleRoot_def
  reduce_levels.simps

lemma sample_db_epochs:
  "audit_epochs (fst (sealAndAnchor (\<lambda>_. ''ab'') sample_env sample_rpc 7200000 sample_db)) =
     [\<lparr>ep_id = 1, epoch_start = 0, epoch_end = 3600000, ep_merkle_root = ''ab'', leaf_count = 1,
       anchor_status = Pending, stellar_tx_hash = None\<rparr>]"
  by (simp add: sample_eval)

theorem getProof_reachable_witness:
  "\<exists>p. getProof (\<lambda>_. ''ab'') sample_env 7
       (fst (sealAndAnchor (\<lambda>_. ''ab'') sample_env sample_rpc 7200000 sample_db)) = Inr (Some p)
     \<and> verifyMerkleProof (\<lambda>_. ''ab'') (ap_leafHash p) (ap_proof p) (ap_merkleRoot p)"
proof -
  let ?db' = "fst (sealAndAnchor (\<lambda>_. ''ab'') sample_env sample_rpc 7200000 sample_db)"
  have reach: "audit_reach (\<lambda>_. ''ab'') ?db'"
    by (rule audit_reach.seal [OF sample_db_reach])
  have "audit_merkle_leaves ?db' =
      [\<lparr>lf_epoch_id = 1, lf_log_id = 7, leaf_index = 0, leaf_hash = ''ab''\<rparr>]"
    by (simp add: sample_eval)
  then have "\<exists>ml\<in>set (audit_merkle_leaves ?db'). lf_log_id ml = 7" by simp
  with getProof_reachable [OF reach, of 7 sample_env] show ?thesis by auto
qed

subsection \<open>What a sealing run keeps\<close>

text \<open>\<open>kept e db\<close>: the epoch \<open>e\<close> is still stored, an anchored one untouched.\<close>

definition kept :: "audit_epoch \<Rightarrow> audit_db \<Rightarrow> bool" where
  "kept e db \<longleftrightarrow>
     (\<exists>e'\<in>set (audit_epochs db). epoch_core e' = epoch_core e \<and> (anchor_status e = Anchored \<longrightarrow> e' = e))"

lemma update_epoch_other:
  "e \<in> set (audit_epochs db) \<Longrightarrow> ep_id e \<noteq> i \<Longrightarrow> e \<in> set (audit_epochs (update_epoch i f db))"
  by (force simp: update_epoch_def)

lemma submit_anchor_other:
  "e \<in> set (audit_epochs db) \<Longrightarrow> ep_id e \<noteq> ep_id epoch \<Longrightarrow>
    e \<in> set (audit_epochs (fst (submit_anchor rpc epoch db)))"
  by (auto simp: submit_anchor_def Let_def update_epoch_other
      split: option.splits sum.splits tx_status.splits)

lemma anchorEpoch_other:
  "e \<in> set (audit_epochs db) \<Longrightarrow> ep_id e \<noteq> ep_id epoch \<Longrightarrow>
    e \<in> set (audit_epochs (fst (anchorEpoch env rpc epoch db)))"
  by (auto simp: anchorEpoch_def update_epoch_other submit_anchor_other
      split: option.splits sum.splits tx_status.splits)

lemma anchor_pending_other:
  "e \<in> set (audit_epochs db) \<Longrightarrow> ep_id e \<notin> ep_id ` set es \<Longrightarrow>
    e \<in> set (audit_epochs (anchor_pending env rpc es db))"
proof (induction es arbitrary: db)
  case (Cons x es)
  have "e \<in> set (audit_epochs (fst (anchorEpoch env rpc x db)))"
    using Cons.prems by (intro anchorEpoch_other) auto
  then show ?case
    using Cons by (cases "anchorEpoch env rpc x db")
      (auto simp: update_epoch_other split: option.splits)
qed simp

lemma core_eq_member:
  assumes "core_eq db db'" "e \<in> set (audit_epochs db)"
  shows "\<exists>e'\<in>set (audit_epochs db'). epoch_core e' = epoch_core e"
proof -
  have "epoch_core e \<in> set (map epoch_core (audit_epochs db'))"
    using assms by (auto simp: core_eq_def)
  then show ?thesis by auto
qed

lemma createEpoch_grows:
  assumes "createEpoch sha256 start stop db = Inr (r, db')"
  shows "\<exists>es ls. audit_epochs db' = audit_epochs db @ es
     \<and> audit_merkle_leaves db' = audit_merkle_leaves db @ ls \<and> audit_logs db' = audit_logs db"
  using assms insert_leaves_result
  by (fastforce simp: createEpoch_def Let_def split: if_splits sum.splits)

lemma seal_hours_grows:
  "\<exists>es ls. audit_epochs (fst (seal_hours sha256 hs db)) = audit_epochs db @ es
     \<and> audit_merkle_leaves (fst (seal_hours sha256 hs db)) = audit_merkle_leaves db @ ls
     \<and> audit_logs (fst (seal_hours sha256 hs db)) = audit_logs db"
proof (induction hs arbitrary: db)
  case (Cons h hs)
  show ?case
  proof (cases "createEpoch sha256 h (h + hour_ms) db")
    case (Inr r)
    obtain v db1 where r: "r = (v, db1)" by (cases r)
    from createEpoch_grows [OF Inr [unfolded r]] Cons.IH [of db1] show ?thesis
      using Inr r by auto
  qed simp
qed simp

lemma sealAndAnchor_cases:
  obtains (sealed) "fst (sealAndAnchor sha256 env rpc now db)
      = fst (seal_hours sha256 (open_hours (now - now mod hour_ms) db) db)"
  | (anchored) db1 es where
      "db1 = fst (seal_hours sha256 (open_hours (now - now mod hour_ms) db) db)"
      "set es \<subseteq> {e \<in> set (audit_epochs db1). anchor_status e \<noteq> Anchored}"
      "fst (sealAndAnchor sha256 env rpc now db) = anchor_pending env rpc es db1"
proof (cases "snd (seal_hours sha256 (open_hours (now - now mod hour_ms) db) db) = None
    \<and> anchor_enabled env")
  case True
  show ?thesis
    by (rule anchored [OF refl, of "take 24 (sort_key epoch_start
        (filter (\<lambda>e. anchor_status e = Pending \<or> anchor_status e = Failed)
          (audit_epochs (fst (seal_hours sha256 (open_hours (now - now mod hour_ms) db) db)))))"])
      (use True in \<open>auto simp: sealAndAnchor_def Let_def split: prod.splits dest: in_set_takeD\<close>)
next
  case False
  then show ?thesis
    by (intro sealed) (auto simp: sealAndAnchor_def Let_def split: prod.splits option.splits)
qed

text \<open>
  A run of the sealing job only ever adds: the log rows are untouched, the stored leaves
  are a prefix of the new ones, every stored epoch keeps its window, root and leaf count, and
  an epoch that has been anchored is not changed at all.
\<close>

theorem sealAndAnchor_append_only:
  assumes reach: "audit_reach sha256 db" and db': "db' = fst (sealAndAnchor sha256 env rpc now db)"
  shows "audit_logs db' = audit_logs db
     \<and> (\<exists>ls. audit_merkle_leaves db' = audit_merkle_leaves db @ ls)
     \<and> (\<forall>e\<in>set (audit_epochs db). kept e db')"
proof -
  let ?d = "fst (seal_hours sha256 (open_hours (now - now mod hour_ms) db) db)"
  obtain es ls where grow: "audit_epochs ?d = audit_epochs db @ es"
    "audit_merkle_leaves ?d = audit_merkle_leaves db @ ls" "audit_logs ?d = audit_logs db"
    using seal_hours_grows by blast
  show ?thesis
  proof (cases rule: sealAndAnchor_cases [of sha256 env rpc now db])
    case sealed
    with grow db' show ?thesis by (auto simp: kept_def)
  next
    case (anchored d1 ps)
    have core: "core_eq ?d db'" using anchored db' anchor_pending_core by simp
    have ids: "distinct (map ep_id (audit_epochs ?d))"
      using seal_hours_sealed_ok [OF audit_reach_sealed_ok [OF reach]] by (simp add: sealed_ok_def)
    have "kept e db'" if e: "e \<in> set (audit_epochs db)" for e
    proof (cases "anchor_status e = Anchored")
      case True
      have "e \<in> set (audit_epochs ?d)" using e grow by simp
      moreover from this have "ep_id e \<notin> ep_id ` set ps"
        using ids anchored(1,2) True by (auto simp: distinct_map inj_on_def)
      ultimately show ?thesis
        using anchor_pending_other anchored(1,3) db' by (auto simp: kept_def)
    next
      case False
      then show ?thesis using core_eq_member [OF core, of e] e grow by (auto simp: kept_def)
    qed
    with core grow show ?thesis by (simp add: core_eq_def)
  qed
qed

theorem sealAndAnchor_append_only_witness:
  "kept \<lparr>ep_id = 1, epoch_start = 0, epoch_end = 3600000, ep_merkle_root = ''ab'', leaf_count = 1,
       anchor_status = Pending, stellar_tx_hash = None\<rparr>
     (fst (sealAndAnchor (\<lambda>_. ''ab'') sample_env sample_rpc 7200000
       (fst (sealAndAnchor (\<lambda>_. ''ab'') sample_env sample_rpc 7200000 sample_db))))"
proof -
  let ?db = "fst (sealAndAnchor (\<lambda>_. ''ab'') sample_env sample_rpc 7200000 sample_db)"
  have reach: "audit_reach (\<lambda>_. ''ab'') ?db"
    by (rule audit_reach.seal [OF sample_db_reach])
  have "audit_epochs ?db = [\<lparr>ep_id = 1, epoch_start = 0, epoch_end = 3600000,
      ep_merkle_root = ''ab'', leaf_count = 1, anchor_status = Pending, stellar_tx_hash = None\<rparr>]"
    by (rule sample_db_epochs)
  with sealAndAnchor_append_only [OF reach refl, of sample_env sample_rpc 7200000] show ?thesis
    by simp
qed

subsection \<open>Entries that arrive after their hour was sealed\<close>

lemma open_hours_aligned: "h \<in> set (open_hours t db) \<Longrightarrow> hour_ms dvd h"
  by (auto simp: open_hours_def dest!: in_set_takeD)

lemma hour_unique:
  assumes "hour_ms dvd h" "h \<le> t" "t < h + hour_ms"
  shows "h = t - t mod hour_ms"
proof -
  from assms(1) obtain k where k: "h = hour_ms * k" by (auto elim: dvdE)
  have "t div hour_ms = k"
    using assms(2,3) by (intro int_div_pos_eq [of t hour_ms k "t - h"]) (simp_all add: k)
  then show ?thesis by (simp add: k minus_mod_eq_mult_div)
qed


definition unsealed :: "audit_log \<Rightarrow> audit_db \<Rightarrow> bool" where
  "unsealed l db \<longleftrightarrow> l \<in> set (audit_logs db) \<and> al_id l \<notin> lf_log_id ` set (audit_merkle_leaves db)"

definition hour_taken :: "int \<Rightarrow> audit_db \<Rightarrow> bool" where
  "hour_taken h db \<longleftrightarrow> h \<in> epoch_start ` set (audit_epochs db)"

lemma core_eq_unsealed: "core_eq db db' \<Longrightarrow> unsealed l db \<Longrightarrow> unsealed l db'"
  by (simp add: core_eq_def unsealed_def)

lemma core_eq_taken:
  assumes core: "core_eq db db'" and "hour_taken h db"
  shows "hour_taken h db'"
proof -
  from assms(2) obtain e where e: "e \<in> set (audit_epochs db)" "h = epoch_start e"
    by (auto simp: hour_taken_def)
  with core_eq_member [OF core] obtain e' where
    "e' \<in> set (audit_epochs db')" "epoch_core e' = epoch_core e" by blast
  with e have "h = epoch_start e'" by (simp add: epoch_core_def)
  with \<open>e' \<in> set (audit_epochs db')\<close> show ?thesis by (simp add: hour_taken_def)
qed

lemma createEpoch_late:
  assumes ok: "distinct (map al_id (audit_logs db))" and late: "unsealed l db"
    and taken: "hour_taken (al_created_at l - al_created_at l mod hour_ms) db"
    and h: "hour_ms dvd h" and run: "createEpoch sha256 h (h + hour_ms) db = Inr (r, db')"
  shows "unsealed l db'"
proof (cases "h = al_created_at l - al_created_at l mod hour_ms")
  case True
  with taken have "\<exists>e\<in>set (audit_epochs db). epoch_start e = h" by (auto simp: hour_taken_def)
  with run late show ?thesis
    by (auto simp: createEpoch_def Let_def unsealed_def split: if_splits)
next
  case False
  define logs where "logs = sort_key al_id
      (filter (\<lambda>l. h \<le> al_created_at l \<and> al_created_at l < h + hour_ms) (audit_logs db))"
  have "l \<notin> set logs" using hour_unique [OF h, of "al_created_at l"] False
    by (auto simp: logs_def)
  moreover have "set logs \<subseteq> set (audit_logs db)" by (auto simp: logs_def)
  ultimately have fresh: "al_id l \<notin> al_id ` set logs"
    using ok late by (auto simp: unsealed_def distinct_map inj_on_def)
  have "al_id l \<notin> lf_log_id ` set ls"
    if "insert_leaves (next_epoch_id db) 0 (zip (map al_id logs) (map (hashAuditEntry sha256) logs))
          (audit_merkle_leaves db) = Inr ls" for ls
    using insert_leaves_result [OF that] late fresh mk_leaves_simps(5)
    by (fastforce simp: unsealed_def dest: set_zip_leftD)
  with run late show ?thesis
    unfolding createEpoch_def Let_def logs_def [symmetric]
    by (auto simp: unsealed_def split: if_splits sum.splits)
qed

lemma seal_hours_late:
  assumes "\<forall>h\<in>set hs. hour_ms dvd h" "distinct (map al_id (audit_logs db))" "unsealed l db"
    "hour_taken (al_created_at l - al_created_at l mod hour_ms) db"
  shows "unsealed l (fst (seal_hours sha256 hs db))"
  using assms
proof (induction hs arbitrary: db)
  case (Cons h hs)
  show ?case
  proof (cases "createEpoch sha256 h (h + hour_ms) db")
    case (Inl e)
    with Cons.prems show ?thesis by (simp add: unsealed_def)
  next
    case (Inr r)
    obtain v db1 where r: "r = (v, db1)" by (cases r)
    have "unsealed l db1"
      by (rule createEpoch_late [OF _ _ _ _ Inr [unfolded r]]) (use Cons.prems in auto)
    moreover have "audit_logs db1 = audit_logs db" "set (audit_epochs db) \<subseteq> set (audit_epochs db1)"
      using createEpoch_grows [OF Inr [unfolded r]] by auto
    ultimately show ?thesis
      using Cons.IH [of db1] Cons.prems Inr r by (auto simp: hour_taken_def)
  qed
qed simp

text \<open>
  A log entry committed into an hour that already has an epoch is never sealed: no later
  run of the job adds a leaf for it (the epoch insert does nothing on conflict and the leaves
  of the hour are skipped with it), so the proof endpoint keeps answering nothing for it.
\<close>

theorem late_log_never_sealed:
  assumes "audit_reach sha256 db" "unsealed l db"
    "hour_taken (al_created_at l - al_created_at l mod hour_ms) db"
  shows "unsealed l (fst (sealAndAnchor sha256 env rpc now db))
     \<and> hour_taken (al_created_at l - al_created_at l mod hour_ms)
         (fst (sealAndAnchor sha256 env rpc now db))"
proof -
  let ?hs = "open_hours (now - now mod hour_ms) db"
  let ?d = "fst (seal_hours sha256 ?hs db)"
  have "distinct (map al_id (audit_logs db))"
    using audit_reach_sealed_ok [OF assms(1)] by (simp add: sealed_ok_def)
  then have d: "unsealed l ?d" "hour_taken (al_created_at l - al_created_at l mod hour_ms) ?d"
    using seal_hours_late [of ?hs db l] open_hours_aligned assms(2,3)
      seal_hours_grows [of sha256 ?hs db] by (auto simp: hour_taken_def)
  show ?thesis
  proof (cases rule: sealAndAnchor_cases [of sha256 env rpc now db])
    case sealed
    with d show ?thesis by simp
  next
    case (anchored d1 es)
    have core: "core_eq ?d (fst (sealAndAnchor sha256 env rpc now db))"
      using anchored anchor_pending_core by simp
    from core_eq_taken [OF core d(2)] core_eq_unsealed [OF core d(1)] show ?thesis by simp
  qed
qed

definition late_log :: audit_log where
  "late_log = sample_log\<lparr>al_id := 8, al_created_at := 5\<rparr>"

theorem late_log_never_sealed_witness:
  "unsealed late_log (fst (sealAndAnchor (\<lambda>_. ''ab'') sample_env sample_rpc 9000000
     ((fst (sealAndAnchor (\<lambda>_. ''ab'') sample_env sample_rpc 7200000 sample_db))
        \<lparr>audit_logs := [sample_log, late_log]\<rparr>)))"
proof -
  let ?db = "fst (sealAndAnchor (\<lambda>_. ''ab'') sample_env sample_rpc 7200000 sample_db)"
  let ?db1 = "?db\<lparr>audit_logs := [sample_log, late_log]\<rparr>"
  have logs: "audit_logs ?db = [sample_log]"
    and leaves: "map lf_log_id (audit_merkle_leaves ?db) = [7]" by (simp_all add: sample_eval)
  have reach: "audit_reach (\<lambda>_. ''ab'') ?db"
    by (rule audit_reach.seal [OF sample_db_reach])
  have "al_id late_log \<notin> set (map al_id (audit_logs ?db))"
    unfolding logs by (simp add: late_log_def sample_log_def)
  from audit_reach.append [OF reach this] have "audit_reach (\<lambda>_. ''ab'') ?db1"
    by (simp only: logs append.simps)
  moreover have "unsealed late_log ?db1"
    using arg_cong [OF leaves, of set] by (auto simp: unsealed_def late_log_def)
  moreover have "hour_taken (al_created_at late_log - al_created_at late_log mod hour_ms) ?db1"
    using sample_db_epochs
    by (simp add: hour_taken_def late_log_def hour_ms_def)
  ultimately show ?thesis using late_log_never_sealed by blast
qed

end
