(* ===== verification/Cache.thy ===== *)
theory Cache
  imports JsonParse
begin

section \<open>The cache service (\<open>backend/src/services/cacheService.ts\<close>)\<close>

text \<open>
  The Redis wrapper: connection handling, the operations that swallow a Redis failure
  (\<open>set\<close>, \<open>get\<close>, \<open>delete\<close>, \<open>setNotExists\<close>, \<open>deleteIfMatch\<close>, \<open>invalidatePattern\<close>, \<open>ping\<close>) and
  the ones that report it (\<open>setRequired\<close>, \<open>reserve\<close>). The Redis server and its client library
  are the parameter \<open>redis\<close>, a record of the commands the service issues; \<open>redis_ok\<close> states
  their documented behaviour through a view of the live keys. A command that fails may or may
  not have reached the server.
\<close>

datatype redis_error = RedisError string

record 's redis =
  r_connect :: "'s \<Rightarrow> bool \<times> 's"
  r_setEx :: "string \<Rightarrow> int \<Rightarrow> string \<Rightarrow> 's \<Rightarrow> bool \<times> 's"
  r_get :: "string \<Rightarrow> 's \<Rightarrow> (redis_error + string option) \<times> 's"
  r_setNX :: "string \<Rightarrow> string \<Rightarrow> int \<Rightarrow> 's \<Rightarrow> (redis_error + string option) \<times> 's"
  r_del :: "string list \<Rightarrow> 's \<Rightarrow> bool \<times> 's"
  r_keys :: "string \<Rightarrow> 's \<Rightarrow> (redis_error + string list) \<times> 's"
  r_ping :: "'s \<Rightarrow> (redis_error + string) \<times> 's"
  r_quit :: "'s \<Rightarrow> 's"
  r_eval :: "('s \<Rightarrow> int \<times> 's) \<Rightarrow> 's \<Rightarrow> (redis_error + int) \<times> 's"
  call_get :: "string \<Rightarrow> 's \<Rightarrow> string option"
  call_del :: "string \<Rightarrow> 's \<Rightarrow> 's"

record 's cache_service =
  isConnected :: bool
  server :: 's

text \<open>The client's event handlers.\<close>

definition on_error :: "'s cache_service \<Rightarrow> 's cache_service" where
  "on_error c = c\<lparr>isConnected := False\<rparr>"

definition on_connect :: "'s cache_service \<Rightarrow> 's cache_service" where
  "on_connect c = c\<lparr>isConnected := True\<rparr>"

definition ensureConnected :: "'s redis \<Rightarrow> 's cache_service \<Rightarrow> bool \<times> 's cache_service" where
  "ensureConnected r c =
     (if isConnected c then (True, c)
      else case r_connect r (server c) of
             (True, s) \<Rightarrow> (True, c\<lparr>isConnected := True, server := s\<rparr>)
           | (False, s) \<Rightarrow> (False, c\<lparr>server := s\<rparr>))"

definition setRequired ::
  "'s redis \<Rightarrow> string \<Rightarrow> json \<Rightarrow> int \<Rightarrow> 's cache_service \<Rightarrow> bool \<times> 's cache_service" where
  "setRequired r key value ttlSeconds c =
     (case ensureConnected r c of
        (False, c1) \<Rightarrow> (False, c1)
      | (True, c1) \<Rightarrow>
          (case r_setEx r key ttlSeconds (stringify value) (server c1) of
             (ok, s) \<Rightarrow> (ok, c1\<lparr>server := s\<rparr>)))"

definition cache_set ::
  "'s redis \<Rightarrow> string \<Rightarrow> json \<Rightarrow> int \<Rightarrow> 's cache_service \<Rightarrow> 's cache_service" where
  "cache_set r key value ttlSeconds c =
     (case ensureConnected r c of
        (False, c1) \<Rightarrow> c1
      | (True, c1) \<Rightarrow>
          (case r_setEx r key ttlSeconds (stringify value) (server c1) of
             (_, s) \<Rightarrow> c1\<lparr>server := s\<rparr>))"

text \<open>\<open>get\<close> returns \<open>null\<close> (\<open>JNull\<close>) for an absent or empty value, a parse error or a failure.\<close>

definition cache_get :: "'s redis \<Rightarrow> string \<Rightarrow> 's cache_service \<Rightarrow> json \<times> 's cache_service" where
  "cache_get r key c =
     (case ensureConnected r c of
        (False, c1) \<Rightarrow> (JNull, c1)
      | (True, c1) \<Rightarrow>
          (case r_get r key (server c1) of
             (Inl e, s) \<Rightarrow> (JNull, c1\<lparr>server := s\<rparr>)
           | (Inr None, s) \<Rightarrow> (JNull, c1\<lparr>server := s\<rparr>)
           | (Inr (Some v), s) \<Rightarrow>
               (if v = [] then JNull
                else case json_parse v of Some j \<Rightarrow> j | None \<Rightarrow> JNull, c1\<lparr>server := s\<rparr>)))"

definition setNotExists ::
  "'s redis \<Rightarrow> string \<Rightarrow> json \<Rightarrow> int \<Rightarrow> 's cache_service \<Rightarrow> bool \<times> 's cache_service" where
  "setNotExists r key value ttlSeconds c =
     (case ensureConnected r c of
        (False, c1) \<Rightarrow> (False, c1)
      | (True, c1) \<Rightarrow>
          if \<not> isConnected c1 then (False, c1)
          else
            (case r_setNX r key (stringify value) ttlSeconds (server c1) of
               (Inl e, s) \<Rightarrow> (False, c1\<lparr>server := s\<rparr>)
             | (Inr reply, s) \<Rightarrow> (reply = Some ''OK'', c1\<lparr>server := s\<rparr>)))"

definition reserve ::
  "'s redis \<Rightarrow> string \<Rightarrow> json \<Rightarrow> int \<Rightarrow> 's cache_service \<Rightarrow> (redis_error + bool) \<times> 's cache_service"
where
  "reserve r key value ttlSeconds c =
     (case ensureConnected r c of
        (False, c1) \<Rightarrow> (Inl (RedisError ''connect''), c1)
      | (True, c1) \<Rightarrow>
          (case r_setNX r key (stringify value) ttlSeconds (server c1) of
             (Inl e, s) \<Rightarrow> (Inl e, c1\<lparr>server := s\<rparr>)
           | (Inr reply, s) \<Rightarrow> (Inr (reply = Some ''OK''), c1\<lparr>server := s\<rparr>)))"

definition cache_delete :: "'s redis \<Rightarrow> string \<Rightarrow> 's cache_service \<Rightarrow> 's cache_service" where
  "cache_delete r key c =
     (case ensureConnected r c of
        (False, c1) \<Rightarrow> c1
      | (True, c1) \<Rightarrow> (case r_del r [key] (server c1) of (_, s) \<Rightarrow> c1\<lparr>server := s\<rparr>))"

text \<open>The Lua script, run by the server in one step.\<close>

definition COMPARE_AND_DELETE_SCRIPT :: "'s redis \<Rightarrow> string \<Rightarrow> string \<Rightarrow> 's \<Rightarrow> int \<times> 's" where
  "COMPARE_AND_DELETE_SCRIPT r key arg s =
     (case call_get r key s of
        None \<Rightarrow> (0, s)
      | Some stored \<Rightarrow> if stored = arg then (1, call_del r key s) else (0, s))"

definition deleteIfMatch ::
  "'s redis \<Rightarrow> string \<Rightarrow> json \<Rightarrow> 's cache_service \<Rightarrow> bool \<times> 's cache_service" where
  "deleteIfMatch r key expectedValue c =
     (case ensureConnected r c of
        (False, c1) \<Rightarrow> (False, c1)
      | (True, c1) \<Rightarrow>
          (case r_eval r (COMPARE_AND_DELETE_SCRIPT r key (stringify expectedValue)) (server c1) of
             (Inl e, s) \<Rightarrow> (False, c1\<lparr>server := s\<rparr>)
           | (Inr result, s) \<Rightarrow> (result = 1, c1\<lparr>server := s\<rparr>)))"

definition invalidatePattern :: "'s redis \<Rightarrow> string \<Rightarrow> 's cache_service \<Rightarrow> 's cache_service" where
  "invalidatePattern r pat c =
     (case ensureConnected r c of
        (False, c1) \<Rightarrow> c1
      | (True, c1) \<Rightarrow>
          (case r_keys r pat (server c1) of
             (Inl e, s) \<Rightarrow> c1\<lparr>server := s\<rparr>
           | (Inr ks, s) \<Rightarrow>
               if ks = [] then c1\<lparr>server := s\<rparr>
               else (case r_del r ks s of (_, s') \<Rightarrow> c1\<lparr>server := s'\<rparr>)))"

definition cache_ping :: "'s redis \<Rightarrow> 's cache_service \<Rightarrow> string \<times> 's cache_service" where
  "cache_ping r c =
     (case ensureConnected r c of
        (False, c1) \<Rightarrow> (''error'', c1)
      | (True, c1) \<Rightarrow>
          (case r_ping r (server c1) of
             (Inl e, s) \<Rightarrow> (''error'', c1\<lparr>server := s\<rparr>)
           | (Inr reply, s) \<Rightarrow> (if reply = ''PONG'' then ''ok'' else ''error'', c1\<lparr>server := s\<rparr>)))"

definition cache_close :: "'s redis \<Rightarrow> 's cache_service \<Rightarrow> 's cache_service" where
  "cache_close r c =
     (if isConnected c then c\<lparr>isConnected := False, server := r_quit r (server c)\<rparr> else c)"

subsection \<open>Documented behaviour of the server\<close>

text \<open>
  \<open>view s k\<close> is the live value of key \<open>k\<close>. The laws say what a command that succeeds did, and
  that one that fails did either that or nothing.
\<close>

definition redis_ok :: "'s redis \<Rightarrow> ('s \<Rightarrow> string \<Rightarrow> string option) \<Rightarrow> bool" where
  "redis_ok r view \<longleftrightarrow>
     (\<forall>s. view (snd (r_connect r s)) = view s) \<and>
     (\<forall>k s. view (snd (r_get r k s)) = view s
        \<and> (\<forall>v. fst (r_get r k s) = Inr v \<longrightarrow> v = view s k)) \<and>
     (\<forall>k t v s. view (snd (r_setEx r k t v s)) = (view s)(k \<mapsto> v)
        \<or> (\<not> fst (r_setEx r k t v s) \<and> view (snd (r_setEx r k t v s)) = view s)) \<and>
     (\<forall>k v t s. (case fst (r_setNX r k v t s) of
          Inr reply \<Rightarrow>
            if view s k = None
            then reply = Some ''OK'' \<and> view (snd (r_setNX r k v t s)) = (view s)(k \<mapsto> v)
            else reply = None \<and> view (snd (r_setNX r k v t s)) = view s
        | Inl _ \<Rightarrow>
            view (snd (r_setNX r k v t s)) = view s
            \<or> (view s k = None \<and> view (snd (r_setNX r k v t s)) = (view s)(k \<mapsto> v)))) \<and>
     (\<forall>ks s. view (snd (r_del r ks s)) = view s |` (- set ks)
        \<or> (\<not> fst (r_del r ks s) \<and> view (snd (r_del r ks s)) = view s)) \<and>
     (\<forall>k s. call_get r k s = view s k) \<and>
     (\<forall>k s. view (call_del r k s) = (view s)(k := None)) \<and>
     (\<forall>f s. (case fst (r_eval r f s) of
          Inr n \<Rightarrow> r_eval r f s = (Inr (fst (f s)), snd (f s))
        | Inl _ \<Rightarrow> snd (r_eval r f s) = s \<or> snd (r_eval r f s) = snd (f s)))"

abbreviation cview :: "('s \<Rightarrow> string \<Rightarrow> string option) \<Rightarrow> 's cache_service \<Rightarrow> string \<Rightarrow> string option" where
  "cview view c \<equiv> view (server c)"

text \<open>The laws one by one.\<close>

lemma redis_law_connect: "redis_ok r view \<Longrightarrow> view (snd (r_connect r s)) = view s"
  by (simp add: redis_ok_def)

lemma redis_law_get:
  "redis_ok r view \<Longrightarrow> view (snd (r_get r k s)) = view s"
  "redis_ok r view \<Longrightarrow> fst (r_get r k s) = Inr v \<Longrightarrow> v = view s k"
  by (simp_all add: redis_ok_def)

lemma redis_law_setEx:
  "redis_ok r view \<Longrightarrow> view (snd (r_setEx r k t v s)) = (view s)(k \<mapsto> v)
     \<or> (\<not> fst (r_setEx r k t v s) \<and> view (snd (r_setEx r k t v s)) = view s)"
  by (simp only: redis_ok_def)

lemma redis_law_setNX:
  assumes "redis_ok r view"
  shows "fst (r_setNX r k v t s) = Inr reply \<Longrightarrow>
       if view s k = None
       then reply = Some ''OK'' \<and> view (snd (r_setNX r k v t s)) = (view s)(k \<mapsto> v)
       else reply = None \<and> view (snd (r_setNX r k v t s)) = view s"
    and "fst (r_setNX r k v t s) = Inl e \<Longrightarrow>
       view (snd (r_setNX r k v t s)) = view s
       \<or> (view s k = None \<and> view (snd (r_setNX r k v t s)) = (view s)(k \<mapsto> v))"
  using assms [unfolded redis_ok_def, THEN conjunct2, THEN conjunct2, THEN conjunct2,
      THEN conjunct1, rule_format, of k v t s] by simp_all

lemma redis_law_del:
  "redis_ok r view \<Longrightarrow> view (snd (r_del r ks s)) = view s |` (- set ks)
     \<or> (\<not> fst (r_del r ks s) \<and> view (snd (r_del r ks s)) = view s)"
  by (simp only: redis_ok_def)

lemma redis_law_call:
  "redis_ok r view \<Longrightarrow> call_get r k s = view s k"
  "redis_ok r view \<Longrightarrow> view (call_del r k s) = (view s)(k := None)"
  by (simp_all add: redis_ok_def)

lemma redis_law_eval:
  assumes "redis_ok r view"
  shows "fst (r_eval r f s) = Inr n \<Longrightarrow> r_eval r f s = (Inr (fst (f s)), snd (f s))"
    and "fst (r_eval r f s) = Inl e \<Longrightarrow> snd (r_eval r f s) = s \<or> snd (r_eval r f s) = snd (f s)"
  using assms [unfolded redis_ok_def, THEN conjunct2, THEN conjunct2, THEN conjunct2,
      THEN conjunct2, THEN conjunct2, THEN conjunct2, THEN conjunct2, rule_format, of f s]
  by simp_all

lemma ensureConnected_view:
  "redis_ok r view \<Longrightarrow> cview view (snd (ensureConnected r c)) = cview view c"
  using redis_law_connect [of r view "server c"]
  by (auto simp: ensureConnected_def split: prod.splits bool.splits)

text \<open>Each operation, through the view.\<close>

lemma cache_get_view: "redis_ok r view \<Longrightarrow> cview view (snd (cache_get r key c)) = cview view c"
  using ensureConnected_view [of r view c] redis_law_get(1) [of r view key]
  by (auto simp: cache_get_def split: prod.splits bool.splits sum.splits option.splits)
    (metis snd_conv)+

lemma cache_get_result:
  assumes "redis_ok r view"
  shows "fst (cache_get r key c) \<in> {JNull,
     (case cview view c key of
        None \<Rightarrow> JNull
      | Some v \<Rightarrow> if v = [] then JNull else case json_parse v of Some j \<Rightarrow> j | None \<Rightarrow> JNull)}"
proof -
  obtain b c1 where e: "ensureConnected r c = (b, c1)" by (cases "ensureConnected r c")
  with ensureConnected_view [OF assms, of c] have v: "cview view c1 = cview view c" by simp
  obtain g s where g: "r_get r key (server c1) = (g, s)" by (cases "r_get r key (server c1)")
  have "g = Inr w \<Longrightarrow> w = cview view c key" for w
    using redis_law_get(2) [OF assms, of key "server c1"] g v by simp
  then show ?thesis
    by (cases b; cases g) (auto simp: cache_get_def e g split: option.splits)
qed

lemma setRequired_view:
  assumes "redis_ok r view"
  shows "cview view (snd (setRequired r key v t c)) = (cview view c)(key \<mapsto> stringify v)
     \<or> (\<not> fst (setRequired r key v t c) \<and> cview view (snd (setRequired r key v t c)) = cview view c)"
proof -
  obtain b c1 where e: "ensureConnected r c = (b, c1)" by (cases "ensureConnected r c")
  with ensureConnected_view [OF assms, of c] have v: "cview view c1 = cview view c" by simp
  obtain ok s where g: "r_setEx r key t (stringify v) (server c1) = (ok, s)"
    by (cases "r_setEx r key t (stringify v) (server c1)")
  have "view s = (cview view c1)(key \<mapsto> stringify v) \<or> (\<not> ok \<and> view s = cview view c1)"
    using redis_law_setEx [OF assms, of key t "stringify v" "server c1"] g by simp
  then show ?thesis by (cases b) (auto simp: setRequired_def e g v)
qed

lemma reserve_view:
  assumes "redis_ok r view"
  shows "case fst (reserve r key v t c) of
       Inr True \<Rightarrow> cview view c key = None
         \<and> cview view (snd (reserve r key v t c)) = (cview view c)(key \<mapsto> stringify v)
     | Inr False \<Rightarrow> cview view c key \<noteq> None \<and> cview view (snd (reserve r key v t c)) = cview view c
     | Inl _ \<Rightarrow> cview view (snd (reserve r key v t c)) = cview view c
         \<or> (cview view c key = None
            \<and> cview view (snd (reserve r key v t c)) = (cview view c)(key \<mapsto> stringify v))"
proof -
  obtain b c1 where e: "ensureConnected r c = (b, c1)" by (cases "ensureConnected r c")
  with ensureConnected_view [OF assms, of c] have v: "cview view c1 = cview view c" by simp
  obtain g s where g: "r_setNX r key (stringify v) t (server c1) = (g, s)"
    by (cases "r_setNX r key (stringify v) t (server c1)")
  have ok: "g = Inr reply \<Longrightarrow>
      if view (server c1) key = None
      then reply = Some ''OK'' \<and> view s = (view (server c1))(key \<mapsto> stringify v)
      else reply = None \<and> view s = view (server c1)" for reply
    using redis_law_setNX(1) [OF assms, of key "stringify v" t "server c1" reply]
    unfolding g fst_conv snd_conv by blast
  have bad: "g = Inl x \<Longrightarrow> view s = view (server c1)
      \<or> (view (server c1) key = None \<and> view s = (view (server c1))(key \<mapsto> stringify v))" for x
    using redis_law_setNX(2) [OF assms, of key "stringify v" t "server c1" x] g by simp
  show ?thesis
  proof (cases b)
    case True
    then show ?thesis using ok bad by (cases g) (simp_all add: reserve_def e g v split: if_splits)
  qed (simp add: reserve_def e v)
qed

lemma deleteIfMatch_view:
  assumes "redis_ok r view"
  shows "cview view (snd (deleteIfMatch r key v c)) = cview view c
     \<or> (cview view c key = Some (stringify v)
        \<and> cview view (snd (deleteIfMatch r key v c)) = (cview view c)(key := None))"
    and "fst (deleteIfMatch r key v c) \<Longrightarrow> cview view c key = Some (stringify v)
        \<and> cview view (snd (deleteIfMatch r key v c)) = (cview view c)(key := None)"
proof -
  obtain b c1 where e: "ensureConnected r c = (b, c1)" by (cases "ensureConnected r c")
  with ensureConnected_view [OF assms, of c] have v: "cview view c1 = cview view c" by simp
  let ?f = "COMPARE_AND_DELETE_SCRIPT r key (stringify v)"
  have script: "?f s = (if view s key = Some (stringify v) then (1, call_del r key s) else (0, s))"
    and del: "view (call_del r key s) = (view s)(key := None)" for s
    using assms by (auto simp: COMPARE_AND_DELETE_SCRIPT_def redis_ok_def split: option.splits)
  obtain g s where g: "r_eval r ?f (server c1) = (g, s)" by (cases "r_eval r ?f (server c1)")
  have good: "g = Inr n \<Longrightarrow> n = fst (?f (server c1)) \<and> s = snd (?f (server c1))" for n
    using redis_law_eval(1) [OF assms, of ?f "server c1" n] g by simp
  have bad: "g = Inl x \<Longrightarrow> s = server c1 \<or> s = snd (?f (server c1))" for x
    using redis_law_eval(2) [OF assms, of ?f "server c1" x] g by simp
  show "cview view (snd (deleteIfMatch r key v c)) = cview view c
     \<or> (cview view c key = Some (stringify v)
        \<and> cview view (snd (deleteIfMatch r key v c)) = (cview view c)(key := None))"
  proof (cases b)
    case True
    then show ?thesis
      using good bad v by (cases g) (auto simp: deleteIfMatch_def e g script del split: if_splits)
  qed (simp add: deleteIfMatch_def e v)
  show "fst (deleteIfMatch r key v c) \<Longrightarrow> cview view c key = Some (stringify v)
        \<and> cview view (snd (deleteIfMatch r key v c)) = (cview view c)(key := None)"
    using good v
    by (cases b; cases g) (auto simp: deleteIfMatch_def e g script del split: if_splits)
qed


text \<open>The connection and the reads do not fail; writes and deletes may.\<close>

definition reads_reliable :: "'s redis \<Rightarrow> bool" where
  "reads_reliable r \<longleftrightarrow> (\<forall>s. fst (r_connect r s)) \<and> (\<forall>k s. \<exists>v. fst (r_get r k s) = Inr v)"

lemma cache_get_exact:
  assumes "redis_ok r view" "reads_reliable r"
  shows "fst (cache_get r key c) =
     (case cview view c key of
        None \<Rightarrow> JNull
      | Some v \<Rightarrow> if v = [] then JNull else case json_parse v of Some j \<Rightarrow> j | None \<Rightarrow> JNull)"
proof -
  obtain b c1 where e: "ensureConnected r c = (b, c1)" by (cases "ensureConnected r c")
  have b: "b" using assms(2) e
    by (auto simp: ensureConnected_def reads_reliable_def split: if_splits prod.splits bool.splits)
      (metis fst_conv)
  have v: "cview view c1 = cview view c" using ensureConnected_view [OF assms(1), of c] e by simp
  obtain w where w: "fst (r_get r key (server c1)) = Inr w"
    using assms(2) unfolding reads_reliable_def by blast
  then have "w = cview view c key" using redis_law_get(2) [OF assms(1) w] v by simp
  with w show ?thesis
    by (cases "r_get r key (server c1)") (auto simp: cache_get_def e b split: option.splits)
qed

text \<open>The connection and the writes do not fail.\<close>

definition writes_reliable :: "'s redis \<Rightarrow> bool" where
  "writes_reliable r \<longleftrightarrow> (\<forall>s. fst (r_connect r s)) \<and> (\<forall>k t v s. fst (r_setEx r k t v s))"

lemma cache_set_view:
  assumes "redis_ok r view"
  shows "cview view (cache_set r key v t c) \<in> {(cview view c)(key \<mapsto> stringify v), cview view c}"
proof -
  obtain b c1 where e: "ensureConnected r c = (b, c1)" by (cases "ensureConnected r c")
  with ensureConnected_view [OF assms, of c] have v: "cview view c1 = cview view c" by simp
  show ?thesis
    using redis_law_setEx [OF assms, of key t "stringify v" "server c1"] by (cases b) (auto simp: cache_set_def e v split: prod.splits)
qed

lemma cache_set_exact:
  assumes "redis_ok r view" "writes_reliable r"
  shows "cview view (cache_set r key v t c) = (cview view c)(key \<mapsto> stringify v)"
proof -
  obtain b c1 where e: "ensureConnected r c = (b, c1)" by (cases "ensureConnected r c")
  have b: "b" using assms(2) e
    by (auto simp: ensureConnected_def writes_reliable_def split: if_splits prod.splits bool.splits)
      (metis fst_conv)
  have v: "cview view c1 = cview view c" using ensureConnected_view [OF assms(1), of c] e by simp
  have "fst (r_setEx r key t (stringify v) (server c1))" using assms(2) by (simp add: writes_reliable_def)
  with redis_law_setEx [OF assms(1), of key t "stringify v" "server c1"] v b show ?thesis
    by (auto simp: cache_set_def e split: prod.splits)
qed

subsection \<open>Properties\<close>

text \<open>A server that never fails and keeps its keys in a map: the laws can hold.\<close>

definition map_redis :: "(string \<Rightarrow> string option) redis" where
  "map_redis =
     \<lparr>r_connect = (\<lambda>s. (True, s)),
      r_setEx = (\<lambda>k t v s. (True, s(k \<mapsto> v))),
      r_get = (\<lambda>k s. (Inr (s k), s)),
      r_setNX = (\<lambda>k v t s. if s k = None then (Inr (Some ''OK''), s(k \<mapsto> v)) else (Inr None, s)),
      r_del = (\<lambda>ks s. (True, s |` (- set ks))),
      r_keys = (\<lambda>pat s. (Inr [], s)),
      r_ping = (\<lambda>s. (Inr ''PONG'', s)),
      r_quit = (\<lambda>s. s),
      r_eval = (\<lambda>f s. (Inr (fst (f s)), snd (f s))),
      call_get = (\<lambda>k s. s k),
      call_del = (\<lambda>k s. s(k := None))\<rparr>"

lemma map_redis_ok: "redis_ok map_redis (\<lambda>s. s)"
  by (simp add: redis_ok_def map_redis_def)

lemma map_redis_reliable: "reads_reliable map_redis"
  by (simp add: reads_reliable_def map_redis_def)

lemma map_redis_writes: "writes_reliable map_redis"
  by (simp add: writes_reliable_def map_redis_def)

text \<open>
  A value the service reports as stored is what a later read returns, and reading never
  invents anything: the read gives the stored value, or \<open>null\<close> when Redis fails, and the other
  keys are untouched by the write.
\<close>

theorem setRequired_get:
  assumes "redis_ok r view" "json_wf v" "fst (setRequired r key v ttl c)"
  shows "fst (cache_get r key (snd (setRequired r key v ttl c))) \<in> {v, JNull}
     \<and> (\<forall>k. k \<noteq> key \<longrightarrow> cview view (snd (setRequired r key v ttl c)) k = cview view c k)"
proof -
  have v: "cview view (snd (setRequired r key v ttl c)) = (cview view c)(key \<mapsto> stringify v)"
    using setRequired_view [OF assms(1), of key v ttl c] assms(3) by blast
  then show ?thesis
    using cache_get_result [OF assms(1), of key "snd (setRequired r key v ttl c)"]
      json_parse_stringify [OF assms(2)] stringify_nonempty [OF assms(2)] by auto
qed

theorem setRequired_get_witness:
  "fst (cache_get map_redis ''k'' (snd (setRequired map_redis ''k'' (JStr ''v'') 60
       \<lparr>isConnected = True, server = (\<lambda>_. None)\<rparr>))) \<in> {JStr ''v'', JNull}"
  using setRequired_get [OF map_redis_ok, of "JStr ''v''" "''k''" 60 "\<lparr>isConnected = True, server = (\<lambda>_. None)\<rparr>"]
  by (simp add: setRequired_def ensureConnected_def map_redis_def)

text \<open>
  The compare-and-delete is fenced: releasing a lock with one token never removes a lock
  held under another token, reports that it did not, and leaves every key as it was.
\<close>

theorem deleteIfMatch_fenced:
  assumes "redis_ok r view" "cview view c key = Some (stringify (JStr held))" "token \<noteq> held"
  shows "cview view (snd (deleteIfMatch r key (JStr token) c)) = cview view c
     \<and> \<not> fst (deleteIfMatch r key (JStr token) c)"
proof -
  have "stringify (JStr held) \<noteq> stringify (JStr token)"
    using stringify_eq_iff [of "JStr held" "JStr token"] assms(3) by simp
  then show ?thesis
    using deleteIfMatch_view [OF assms(1), of key "JStr token" c] assms(2) by auto
qed

theorem deleteIfMatch_fenced_witness:
  "\<not> fst (deleteIfMatch map_redis ''lock'' (JStr ''mine'')
     \<lparr>isConnected = True, server = [''lock'' \<mapsto> stringify (JStr ''theirs'')]\<rparr>)"
  using deleteIfMatch_fenced [OF map_redis_ok,
      of "\<lparr>isConnected = True, server = [''lock'' \<mapsto> stringify (JStr ''theirs'')]\<rparr>" "''lock''" "''theirs''" "''mine''"]
  by simp

end
