(* ===== verification/Idempotency.thy ===== *)
theory Idempotency
  imports Cache
begin

section \<open>Idempotency keys (\<open>backend/src/middleware/idempotency.ts\<close>)\<close>

text \<open>
  The circuit breaker and the middleware. Every \<open>await\<close> of the middleware is a point where
  other requests run, so a request is a thread whose phases are the code between two awaits,
  \<open>advance\<close> runs one phase, and \<open>idem_reach\<close> lets any number of requests interleave. The token of
  \<open>randomUUID\<close> is the parameter \<open>uuid\<close>, the route handler's answer an argument of the step.
  \<open>exec_log\<close> records which requests ran their handler to a cacheable answer, with the status and
  the body the middleware keeps of it; the code has no such variable. What the client was sent
  is in the request's own phase (\<open>client_answer\<close>).
\<close>

subsection \<open>The circuit breaker\<close>

record IdempotencyCircuitBreaker =
  failureCount :: nat
  lastFailureTime :: int
  threshold :: nat
  resetTimeoutMs :: int

definition new_breaker :: IdempotencyCircuitBreaker where
  "new_breaker = \<lparr>failureCount = 0, lastFailureTime = 0, threshold = 3, resetTimeoutMs = 30000\<rparr>"

definition isOpen :: "int \<Rightarrow> IdempotencyCircuitBreaker \<Rightarrow> bool" where
  "isOpen now b \<longleftrightarrow>
     (if threshold b \<le> failureCount b
      then (if now - lastFailureTime b < resetTimeoutMs b then True else False)
      else False)"

definition recordSuccess :: "IdempotencyCircuitBreaker \<Rightarrow> IdempotencyCircuitBreaker" where
  "recordSuccess b = b\<lparr>failureCount := 0\<rparr>"

definition recordFailure :: "int \<Rightarrow> IdempotencyCircuitBreaker \<Rightarrow> IdempotencyCircuitBreaker" where
  "recordFailure now b = b\<lparr>failureCount := failureCount b + 1, lastFailureTime := now\<rparr>"

definition reset :: "IdempotencyCircuitBreaker \<Rightarrow> IdempotencyCircuitBreaker" where
  "reset b = b\<lparr>failureCount := 0, lastFailureTime := 0\<rparr>"

definition getFailures :: "IdempotencyCircuitBreaker \<Rightarrow> nat" where
  "getFailures b = failureCount b"

subsection \<open>Requests, answers and keys\<close>

definition IDEMPOTENCY_TTL :: int where
  "IDEMPOTENCY_TTL = 24 * 60 * 60"

definition IDEMPOTENCY_LOCK_TTL :: int where
  "IDEMPOTENCY_LOCK_TTL = IDEMPOTENCY_TTL"

record request =
  idempotency_key :: "string option"
  user_publicKey :: "string option"
  req_ip :: "string option"
  req_baseUrl :: string
  req_path :: string
  req_originalUrl :: string
  req_method :: string

definition given :: "string option \<Rightarrow> bool" where
  "given v \<longleftrightarrow> (case v of None \<Rightarrow> False | Some s \<Rightarrow> s \<noteq> [])"

definition principal :: "request \<Rightarrow> string" where
  "principal req =
     (if given (user_publicKey req) then ''user:'' @ the (user_publicKey req)
      else ''ip:'' @ (if given (req_ip req) then the (req_ip req) else ''unknown''))"

definition route :: "request \<Rightarrow> string" where
  "route req = req_baseUrl req @ (if req_path req \<noteq> [] then req_path req else req_originalUrl req)"

definition cacheKey :: "request \<Rightarrow> string" where
  "cacheKey req =
     ''idemp:'' @ (principal req @ '':'' @ req_method req @ '':'' @ route req) @ '':'' @
     the (idempotency_key req)"

definition lockKey :: "request \<Rightarrow> string" where
  "lockKey req = cacheKey req @ '':inflight''"

text \<open>What the route handler does with the response object.\<close>

datatype handler_answer = AnsJson json | AnsSend string | AnsEnd

fun json_truthy :: "json \<Rightarrow> bool" where
  "json_truthy JNull = False"
| "json_truthy (JBool b) = b"
| "json_truthy (JInt i) = (i \<noteq> 0)"
| "json_truthy (JStr s) = (s \<noteq> [])"
| "json_truthy _ = True"

text \<open>The overridden \<open>res.send\<close>, and \<open>res.json\<close>, which ends by calling it on the serialised body.\<close>

definition capture_send :: "json option \<Rightarrow> string \<Rightarrow> json option" where
  "capture_send responseBody body =
     (case responseBody of
        Some b \<Rightarrow>
          if json_truthy b then Some b
          else Some (case json_parse body of Some j \<Rightarrow> j | None \<Rightarrow> JStr body)
      | None \<Rightarrow> Some (case json_parse body of Some j \<Rightarrow> j | None \<Rightarrow> JStr body))"

fun captured :: "handler_answer \<Rightarrow> json option" where
  "captured (AnsJson body) = capture_send (Some body) (stringify body)"
| "captured (AnsSend body) = capture_send None body"
| "captured AnsEnd = None"

definition cached_response :: "int \<Rightarrow> json \<Rightarrow> json" where
  "cached_response status body = JObj [(''status'', JInt status), (''body'', body)]"

datatype reply =
    Replay "json option" "json option"
  | Conflict409
  | Unavailable503
  | Fresh int handler_answer

definition replay :: "json \<Rightarrow> reply" where
  "replay cached = Replay (json_get ''status'' cached) (json_get ''body'' cached)"

subsection \<open>The middleware as a thread\<close>

datatype phase =
    Enter | PassedThrough | Lookup | Reserving | Conflicted | Recheck | Redundant json | Handling
  | Storing int handler_answer json | Releasing int handler_answer | Replied reply

record thread =
  th_req :: request
  th_phase :: phase

record 's idem_sys =
  breaker :: IdempotencyCircuitBreaker
  cache :: "'s cache_service"
  threads :: "nat \<Rightarrow> thread option"
  exec_log :: "(nat \<times> int \<times> json) list"

text \<open>One phase: the new phase, the breaker, the cache, and whether a cacheable answer was produced.\<close>

definition cacheable :: "int \<Rightarrow> json option \<Rightarrow> bool" where
  "cacheable statusCode responseBody \<longleftrightarrow> 200 \<le> statusCode \<and> statusCode < 500 \<and> responseBody \<noteq> None"

definition enter_phase :: "int \<Rightarrow> request \<Rightarrow> IdempotencyCircuitBreaker \<Rightarrow> phase" where
  "enter_phase now req b =
     (if \<not> given (idempotency_key req) then PassedThrough
      else if isOpen now b then Replied Unavailable503
      else Lookup)"

definition finish_phase :: "int \<Rightarrow> handler_answer \<Rightarrow> phase" where
  "finish_phase statusCode answer =
     (if cacheable statusCode (captured answer) then Storing statusCode answer (the (captured answer))
      else Releasing statusCode answer)"

fun run_phase ::
  "'s redis \<Rightarrow> string \<Rightarrow> int \<Rightarrow> int \<times> handler_answer \<Rightarrow> request \<Rightarrow> phase
     \<Rightarrow> IdempotencyCircuitBreaker \<times> 's cache_service
     \<Rightarrow> phase \<times> IdempotencyCircuitBreaker \<times> 's cache_service" where
  "run_phase r lockToken now resp req Enter (b, c) = (enter_phase now req b, b, c)"
| "run_phase r lockToken now resp req Lookup (b, c) =
     (case cache_get r (cacheKey req) c of
        (cached, c1) \<Rightarrow>
          (if json_truthy cached then Replied (replay cached) else Reserving, recordSuccess b, c1))"
| "run_phase r lockToken now resp req Reserving (b, c) =
     (case reserve r (lockKey req) (JStr lockToken) IDEMPOTENCY_LOCK_TTL c of
        (Inl e, c1) \<Rightarrow> (Replied Unavailable503, recordFailure now b, c1)
      | (Inr acquired, c1) \<Rightarrow> (if \<not> acquired then Conflicted else Recheck, b, c1))"
| "run_phase r lockToken now resp req Conflicted (b, c) =
     (case cache_get r (cacheKey req) c of
        (completed, c1) \<Rightarrow>
          (Replied (if json_truthy completed then replay completed else Conflict409), b, c1))"
| "run_phase r lockToken now resp req Recheck (b, c) =
     (case cache_get r (cacheKey req) c of
        (completed, c1) \<Rightarrow>
          (if json_truthy completed then Redundant completed else Handling, b, c1))"
| "run_phase r lockToken now resp req (Redundant completed) (b, c) =
     (case deleteIfMatch r (lockKey req) (JStr lockToken) c of
        (_, c1) \<Rightarrow> (Replied (replay completed), b, c1))"
| "run_phase r lockToken now resp req Handling (b, c) =
     (finish_phase (fst resp) (snd resp), b, c)"
| "run_phase r lockToken now resp req (Storing statusCode answer body) (b, c) =
     (case setRequired r (cacheKey req) (cached_response statusCode body) IDEMPOTENCY_TTL c of
        (True, c1) \<Rightarrow> (Releasing statusCode answer, recordSuccess b, c1)
      | (False, c1) \<Rightarrow> (Replied (Fresh statusCode answer), recordFailure now b, c1))"
| "run_phase r lockToken now resp req (Releasing statusCode answer) (b, c) =
     (case deleteIfMatch r (lockKey req) (JStr lockToken) c of
        (_, c1) \<Rightarrow> (Replied (Fresh statusCode answer), b, c1))"
| "run_phase r lockToken now resp req PassedThrough (b, c) = (PassedThrough, b, c)"
| "run_phase r lockToken now resp req (Replied a) (b, c) = (Replied a, b, c)"

fun log_entry :: "nat \<Rightarrow> phase \<Rightarrow> phase \<Rightarrow> (nat \<times> int \<times> json) list" where
  "log_entry tid Handling (Storing st a body) = [(tid, st, body)]"
| "log_entry tid _ _ = []"

definition advance ::
  "'s redis \<Rightarrow> (nat \<Rightarrow> string) \<Rightarrow> int \<Rightarrow> int \<times> handler_answer \<Rightarrow> nat \<Rightarrow> 's idem_sys \<Rightarrow> 's idem_sys" where
  "advance r uuid now resp tid sys =
     (case threads sys tid of
        None \<Rightarrow> sys
      | Some th \<Rightarrow>
          (case run_phase r (uuid tid) now resp (th_req th) (th_phase th) (breaker sys, cache sys) of
             (ph, b, c) \<Rightarrow>
               sys\<lparr>breaker := b, cache := c,
                   threads := (threads sys)(tid \<mapsto> th\<lparr>th_phase := ph\<rparr>),
                   exec_log := exec_log sys @ log_entry tid (th_phase th) ph\<rparr>))"


text \<open>Every interleaving of any number of requests, and of other users of the cache.\<close>

definition key_ok :: "request \<Rightarrow> bool" where
  "key_ok req \<longleftrightarrow> \<not> (\<exists>p. cacheKey req = p @ '':inflight'')"

definition resp_ok :: "int \<times> handler_answer \<Rightarrow> bool" where
  "resp_ok resp \<longleftrightarrow> json_wf (JInt (fst resp))
     \<and> (case captured (snd resp) of None \<Rightarrow> True | Some b \<Rightarrow> json_wf b)"

inductive idem_reach ::
  "'s redis \<Rightarrow> ('s \<Rightarrow> string \<Rightarrow> string option) \<Rightarrow> (nat \<Rightarrow> string) \<Rightarrow> 's idem_sys \<Rightarrow> bool"
  for r view uuid where
  start: "(\<And>req. cview view c (cacheKey req) = None) \<Longrightarrow> (\<And>req. cview view c (lockKey req) = None) \<Longrightarrow>
     idem_reach r view uuid \<lparr>breaker = b, cache = c, threads = (\<lambda>_. None), exec_log = []\<rparr>"
| arrive: "idem_reach r view uuid sys \<Longrightarrow> threads sys tid = None \<Longrightarrow> key_ok req \<Longrightarrow>
     idem_reach r view uuid
       (sys\<lparr>threads := (threads sys)(tid \<mapsto> \<lparr>th_req = req, th_phase = Enter\<rparr>)\<rparr>)"
| step: "idem_reach r view uuid sys \<Longrightarrow> resp_ok resp \<Longrightarrow>
     idem_reach r view uuid (advance r uuid now resp tid sys)"
| other: "idem_reach r view uuid sys \<Longrightarrow>
     (\<And>req. cview view c (cacheKey req) = cview view (cache sys) (cacheKey req)) \<Longrightarrow>
     (\<And>req. cview view c (lockKey req) = cview view (cache sys) (lockKey req)) \<Longrightarrow>
     idem_reach r view uuid (sys\<lparr>cache := c\<rparr>)"

fun holds_lock :: "phase \<Rightarrow> bool" where
  "holds_lock Recheck = True"
| "holds_lock (Redundant _) = True"
| "holds_lock Handling = True"
| "holds_lock (Storing _ _ _) = True"
| "holds_lock (Releasing _ _) = True"
| "holds_lock _ = False"

fun logged_phase :: "phase \<Rightarrow> bool" where
  "logged_phase (Storing _ _ _) = True"
| "logged_phase (Replied (Fresh _ _)) = True"
| "logged_phase _ = False"

subsection \<open>What a phase does to the keys\<close>

lemma lockKey_inj: "lockKey a = lockKey b \<longleftrightarrow> cacheKey a = cacheKey b"
  by (simp add: lockKey_def)

lemma cacheKey_neq_lockKey: "key_ok a \<Longrightarrow> cacheKey a \<noteq> lockKey b"
  by (auto simp: key_ok_def lockKey_def)

abbreviation tok :: "(nat \<Rightarrow> string) \<Rightarrow> nat \<Rightarrow> string" where
  "tok uuid t \<equiv> stringify (JStr (uuid t))"

definition phase_effect ::
  "request \<Rightarrow> string \<Rightarrow> phase \<Rightarrow> (string \<Rightarrow> string option) \<Rightarrow> phase \<Rightarrow> (string \<Rightarrow> string option) \<Rightarrow> bool" where
  "phase_effect req token ph V ph' V' \<longleftrightarrow>
     (V' = V \<and> (holds_lock ph' \<longrightarrow> holds_lock ph) \<and> (logged_phase ph \<longrightarrow> logged_phase ph'))
     \<or> (ph = Reserving \<and> V (lockKey req) = None \<and> V' = V(lockKey req \<mapsto> token)
        \<and> (ph' = Recheck \<or> ph' = Replied Unavailable503))
     \<or> (\<exists>st a body. ph = Storing st a body \<and> V' = V(cacheKey req \<mapsto> stringify (cached_response st body))
        \<and> (ph' = Releasing st a \<or> ph' = Replied (Fresh st a)))
     \<or> (holds_lock ph \<and> \<not> logged_phase ph \<and> V (lockKey req) = Some token
        \<and> V' = V(lockKey req := None) \<and> (\<exists>a. ph' = Replied a))"

lemma run_phase_effect:
  assumes ok: "redis_ok r view"
    and run: "run_phase r token now resp req ph (b, c) = (ph', b', c')"
  shows "phase_effect req (stringify (JStr token)) ph (cview view c) ph' (cview view c')"
proof (cases ph)
  case Reserving
  let ?rv = "reserve r (lockKey req) (JStr token) IDEMPOTENCY_LOCK_TTL c"
  obtain o1 c1 where rv: "?rv = (o1, c1)" by (cases ?rv)
  from reserve_view [OF ok, of "lockKey req" "JStr token" IDEMPOTENCY_LOCK_TTL c]
  show ?thesis
    using run Reserving rv
    by (cases o1) (auto simp: phase_effect_def split: bool.splits)
next
  case (Storing st a body)
  let ?w = "setRequired r (cacheKey req) (cached_response st body) IDEMPOTENCY_TTL c"
  obtain o1 c1 where w: "?w = (o1, c1)" by (cases ?w)
  from setRequired_view [OF ok, of "cacheKey req" "cached_response st body" IDEMPOTENCY_TTL c]
  show ?thesis
    using run Storing w by (cases o1) (auto simp: phase_effect_def)
next
  case (Redundant j)
  obtain o1 c1 where d: "deleteIfMatch r (lockKey req) (JStr token) c = (o1, c1)"
    by (cases "deleteIfMatch r (lockKey req) (JStr token) c")
  with deleteIfMatch_view(1) [OF ok, of "lockKey req" "JStr token" c] run Redundant
  show ?thesis by (auto simp: phase_effect_def)
next
  case (Releasing st a)
  obtain o1 c1 where d: "deleteIfMatch r (lockKey req) (JStr token) c = (o1, c1)"
    by (cases "deleteIfMatch r (lockKey req) (JStr token) c")
  with deleteIfMatch_view(1) [OF ok, of "lockKey req" "JStr token" c] run Releasing
  show ?thesis by (auto simp: phase_effect_def)
qed (use run cache_get_view [OF ok] in
  \<open>auto simp: phase_effect_def enter_phase_def finish_phase_def split: prod.splits if_splits\<close>;
  metis snd_conv)+


subsection \<open>Mutual exclusion\<close>

definition lock_inv :: "('s \<Rightarrow> string \<Rightarrow> string option) \<Rightarrow> (nat \<Rightarrow> string) \<Rightarrow> 's idem_sys \<Rightarrow> bool" where
  "lock_inv view uuid sys \<longleftrightarrow>
     (\<forall>t th. threads sys t = Some th \<longrightarrow> key_ok (th_req th)
        \<and> (holds_lock (th_phase th) \<longrightarrow>
             cview view (cache sys) (lockKey (th_req th)) = Some (tok uuid t)))"

lemma tok_inj: "inj uuid \<Longrightarrow> tok uuid a = tok uuid b \<longleftrightarrow> a = b"
  using stringify_eq_iff [of "JStr (uuid a)" "JStr (uuid b)"] by (auto simp: inj_def)

lemma advance_Some:
  assumes "threads sys tid = Some th"
  obtains ph b c where
    "run_phase r (uuid tid) now resp (th_req th) (th_phase th) (breaker sys, cache sys) = (ph, b, c)"
    "cache (advance r uuid now resp tid sys) = c"
    "threads (advance r uuid now resp tid sys) = (threads sys)(tid \<mapsto> th\<lparr>th_phase := ph\<rparr>)"
    "exec_log (advance r uuid now resp tid sys) = exec_log sys @ log_entry tid (th_phase th) ph"
  using assms
  by (cases "run_phase r (uuid tid) now resp (th_req th) (th_phase th) (breaker sys, cache sys)")
    (auto simp: advance_def)

lemma advance_None: "threads sys tid = None \<Longrightarrow> advance r uuid now resp tid sys = sys"
  by (simp add: advance_def)

text \<open>A phase of one request leaves the lock of every other holder in place.\<close>

lemma effect_other_lock:
  assumes "phase_effect req (tok uuid tid) ph V ph' V'" "key_ok req" "inj uuid" "t \<noteq> tid"
    "V (lockKey req') = Some (tok uuid t)"
  shows "V' (lockKey req') = Some (tok uuid t)"
  using assms cacheKey_neq_lockKey [of req req'] cacheKey_neq_lockKey [of req req', symmetric]
    tok_inj [of uuid t tid]
  by (auto simp: phase_effect_def)

lemma effect_own_lock:
  assumes "phase_effect req token ph V ph' V'" "key_ok req" "holds_lock ph'"
    "holds_lock ph \<Longrightarrow> V (lockKey req) = Some token"
  shows "V' (lockKey req) = Some token"
  using assms cacheKey_neq_lockKey [of req req] by (auto simp: phase_effect_def)

lemma advance_lock_inv:
  assumes "redis_ok r view" "inj uuid" "lock_inv view uuid sys"
  shows "lock_inv view uuid (advance r uuid now resp tid sys)"
proof (cases "threads sys tid")
  case None
  with assms show ?thesis by (simp add: advance_None)
next
  case (Some th)
  let ?s = "advance r uuid now resp tid sys"
  obtain ph b c where run: "run_phase r (uuid tid) now resp (th_req th) (th_phase th) (breaker sys, cache sys) = (ph, b, c)"
    and s: "cache ?s = c" "threads ?s = (threads sys)(tid \<mapsto> th\<lparr>th_phase := ph\<rparr>)"
    using Some advance_Some by metis
  note eff = run_phase_effect [OF assms(1) run]
  have key: "key_ok (th_req th)" using assms(3) Some by (simp add: lock_inv_def)
  have own: "holds_lock ph \<Longrightarrow> cview view c (lockKey (th_req th)) = Some (tok uuid tid)"
    using effect_own_lock [OF eff key] assms(3) Some by (simp add: lock_inv_def)
  have others: "cview view c (lockKey (th_req th')) = Some (tok uuid t)"
    if "threads sys t = Some th'" "t \<noteq> tid" "holds_lock (th_phase th')" for t th'
    using effect_other_lock [OF eff key assms(2) that(2)] assms(3) that by (simp add: lock_inv_def)
  show ?thesis
    using assms(3) key own others by (auto simp: lock_inv_def s)
qed

lemma idem_reach_lock_inv:
  assumes "redis_ok r view" "inj uuid" "idem_reach r view uuid sys"
  shows "lock_inv view uuid sys"
  using assms(3)
proof (induction rule: idem_reach.induct)
  case (step sys resp now tid)
  then show ?case using advance_lock_inv [OF assms(1,2)] by simp
qed (auto simp: lock_inv_def)

text \<open>
  C25. Requests that carry the same idempotency key for the same principal, method and route
  never run their handler at the same time, in any interleaving and whichever Redis commands
  fail, as long as the lock does not expire and no key ends in the lock suffix.
\<close>

theorem handler_mutual_exclusion:
  assumes "redis_ok r view" "inj uuid" "idem_reach r view uuid sys"
    and "threads sys t = Some th" "threads sys t' = Some th'"
    and "th_phase th = Handling" "th_phase th' = Handling"
    and "cacheKey (th_req th) = cacheKey (th_req th')"
  shows "t = t'"
proof -
  have "cview view (cache sys) (lockKey (th_req th)) = Some (tok uuid t)"
    "cview view (cache sys) (lockKey (th_req th')) = Some (tok uuid t')"
    using idem_reach_lock_inv [OF assms(1-3)] assms(4-7) by (simp_all add: lock_inv_def)
  with assms(8) have "tok uuid t = tok uuid t'" by (metis lockKey_inj option.inject)
  then show ?thesis using tok_inj [OF assms(2)] by blast
qed

subsection \<open>At most one execution per key\<close>

definition has_key :: "(nat \<Rightarrow> thread option) \<Rightarrow> string \<Rightarrow> nat \<Rightarrow> bool" where
  "has_key m K t \<longleftrightarrow> (case m t of None \<Rightarrow> False | Some th \<Rightarrow> cacheKey (th_req th) = K)"

text \<open>The executions of one key.\<close>

definition key_log :: "string \<Rightarrow> 's idem_sys \<Rightarrow> (nat \<times> int \<times> json) list" where
  "key_log K sys = filter (\<lambda>e. has_key (threads sys) K (fst e)) (exec_log sys)"

definition answered :: "(nat \<Rightarrow> thread option) \<Rightarrow> string \<Rightarrow> nat \<Rightarrow> bool" where
  "answered m K t \<longleftrightarrow> (\<exists>th. m t = Some th \<and> cacheKey (th_req th) = K \<and> logged_phase (th_phase th))"

lemma answered_upd:
  "answered m K t \<Longrightarrow> (t = tid \<Longrightarrow> cacheKey (th_req th) = K \<and> logged_phase (th_phase th)) \<Longrightarrow>
    answered (m(tid \<mapsto> th)) K t"
  by (auto simp: answered_def)

definition once_inv :: "('s \<Rightarrow> string \<Rightarrow> string option) \<Rightarrow> (nat \<Rightarrow> string) \<Rightarrow> request \<Rightarrow> 's idem_sys \<Rightarrow> bool" where
  "once_inv view uuid req sys \<longleftrightarrow>
     (let K = cacheKey req; kv = cview view (cache sys) K; lv = cview view (cache sys) (lockKey req) in
      (\<forall>t th. threads sys t = Some th \<longrightarrow> cacheKey (th_req th) = K \<longrightarrow>
         (th_phase th = Handling \<longrightarrow> kv = None)
         \<and> (\<forall>st a body. th_phase th = Storing st a body \<longrightarrow> key_log K sys = [(t, st, body)]))
      \<and> (if key_log K sys = [] then kv = None
         else \<exists>t st body. key_log K sys = [(t, st, body)] \<and> json_wf (cached_response st body)
            \<and> (kv = Some (stringify (cached_response st body))
               \<or> (kv = None \<and> lv = Some (tok uuid t)
                  \<and> answered (threads sys) K t))))"


lemma key_log_advance:
  assumes "threads sys tid = Some th"
    and "run_phase r (uuid tid) now resp (th_req th) (th_phase th) (breaker sys, cache sys) = (ph, b, c)"
  shows "key_log K (advance r uuid now resp tid sys) = key_log K sys @
     (if cacheKey (th_req th) = K then log_entry tid (th_phase th) ph else [])"
proof -
  have keep: "has_key ((threads sys)(tid \<mapsto> th\<lparr>th_phase := ph\<rparr>)) K = has_key (threads sys) K"
    using assms(1) by (intro ext) (simp add: has_key_def)
  have entry: "filter (\<lambda>e. P (fst e)) (log_entry tid x y) = (if P tid then log_entry tid x y else [])"
    for P x y by (induction tid x y rule: log_entry.induct) simp_all
  have "exec_log (advance r uuid now resp tid sys) = exec_log sys @ log_entry tid (th_phase th) ph"
    "threads (advance r uuid now resp tid sys) = (threads sys)(tid \<mapsto> th\<lparr>th_phase := ph\<rparr>)"
    using assms by (simp_all add: advance_def)
  then show ?thesis
    using assms(1) entry [of "has_key (threads sys) K"]
    by (simp only: key_log_def keep filter_append) (simp add: has_key_def)
qed

lemma effect_other_key:
  assumes "phase_effect req' token ph V ph' V'" "key_ok req" "key_ok req'" "cacheKey req' \<noteq> cacheKey req"
  shows "V' (cacheKey req) = V (cacheKey req)" "V' (lockKey req) = V (lockKey req)"
proof -
  have "lockKey req' \<noteq> lockKey req" "cacheKey req \<noteq> lockKey req'" "cacheKey req' \<noteq> lockKey req"
    using assms(2-4) cacheKey_neq_lockKey lockKey_inj by metis+
  with assms(1,4) show "V' (cacheKey req) = V (cacheKey req)" "V' (lockKey req) = V (lockKey req)"
    by (auto simp: phase_effect_def)
qed

lemma cached_response_truthy: "json_truthy (cached_response st body)"
  by (simp add: cached_response_def)

lemma recheck_falsy:
  assumes "redis_ok r view" "reads_reliable r" "\<not> json_truthy (fst (cache_get r key c))"
    "cview view c key = None \<or> (\<exists>st body. json_wf (cached_response st body)
       \<and> cview view c key = Some (stringify (cached_response st body)))"
  shows "cview view c key = None"
  using assms(3,4) cache_get_exact [OF assms(1,2), of key c]
  by (auto simp: json_parse_stringify stringify_nonempty cached_response_truthy)

lemma to_Handling:
  "run_phase r token now resp req ph (b, c) = (Handling, b', c') \<Longrightarrow>
    ph = Recheck \<and> \<not> json_truthy (fst (cache_get r (cacheKey req) c))"
  by (cases ph) (auto simp: enter_phase_def finish_phase_def split: prod.splits sum.splits if_splits bool.splits)

lemma to_Storing:
  "run_phase r token now resp req ph (b, c) = (Storing st a body, b', c') \<Longrightarrow>
    ph = Handling \<and> (resp_ok resp \<longrightarrow> json_wf (cached_response st body))"
  by (cases ph) (auto simp: enter_phase_def finish_phase_def resp_ok_def cached_response_def cacheable_def
      split: prod.splits sum.splits if_splits bool.splits option.splits)


text \<open>A step of a request with another key.\<close>

lemma once_inv_other_key:
  assumes inv: "once_inv view uuid req sys" and th: "threads sys tid = Some th"
    and run: "run_phase r (uuid tid) now resp (th_req th) (th_phase th) (breaker sys, cache sys) = (ph, b, c)"
    and keys: "cview view c (cacheKey req) = cview view (cache sys) (cacheKey req)"
      "cview view c (lockKey req) = cview view (cache sys) (lockKey req)"
    and neq: "cacheKey (th_req th) \<noteq> cacheKey req"
  shows "once_inv view uuid req (advance r uuid now resp tid sys)"
proof -
  let ?s = "advance r uuid now resp tid sys"
  have s: "cache ?s = c" "threads ?s = (threads sys)(tid \<mapsto> th\<lparr>th_phase := ph\<rparr>)"
    using th run by (simp_all add: advance_def)
  have log: "key_log (cacheKey req) ?s = key_log (cacheKey req) sys"
    using key_log_advance [where uuid = uuid, OF th run] neq by simp
  have "answered (threads sys) (cacheKey req) t \<Longrightarrow>
      answered ((threads sys)(tid \<mapsto> th\<lparr>th_phase := ph\<rparr>)) (cacheKey req) t" for t
    using th neq by (auto simp: answered_def)
  then show ?thesis
    using inv neq unfolding once_inv_def Let_def log s keys by (auto split: if_splits)
qed

text \<open>What the invariant says of the value stored under the key.\<close>

lemma once_inv_value:
  assumes "once_inv view uuid req sys"
  shows "cview view (cache sys) (cacheKey req) = None \<or> (\<exists>st body. json_wf (cached_response st body)
       \<and> cview view (cache sys) (cacheKey req) = Some (stringify (cached_response st body)))"
  using assms by (auto simp: once_inv_def Let_def split: if_splits)

lemma once_inv_Handling:
  assumes inv: "once_inv view uuid req sys" and lock: "lock_inv view uuid sys" and "inj uuid"
    and th: "threads sys tid = Some th" "cacheKey (th_req th) = cacheKey req" "th_phase th = Handling"
  shows "key_log (cacheKey req) sys = []" "cview view (cache sys) (cacheKey req) = None"
    "cview view (cache sys) (lockKey req) = Some (tok uuid tid)"
proof -
  show kv: "cview view (cache sys) (cacheKey req) = None"
    using inv th by (auto simp: once_inv_def Let_def)
  have "cview view (cache sys) (lockKey (th_req th)) = Some (tok uuid tid)"
    using lock th by (simp add: lock_inv_def)
  then show lv: "cview view (cache sys) (lockKey req) = Some (tok uuid tid)"
    using th(2) lockKey_inj by metis
  show "key_log (cacheKey req) sys = []"
  proof (rule ccontr)
    assume "key_log (cacheKey req) sys \<noteq> []"
    with inv kv obtain t th' where "cview view (cache sys) (lockKey req) = Some (tok uuid t)"
      "threads sys t = Some th'" "logged_phase (th_phase th')"
      by (auto simp: once_inv_def Let_def answered_def)
    moreover from this have "t = tid" using lv tok_inj [OF \<open>inj uuid\<close>] by simp
    ultimately show False using th by simp
  qed
qed


lemma once_inv_same_key:
  assumes ok: "redis_ok r view" "reads_reliable r" "inj uuid" "resp_ok resp"
    and lock: "lock_inv view uuid sys" and inv: "once_inv view uuid req sys"
    and th: "threads sys tid = Some th" and same: "cacheKey (th_req th) = cacheKey req"
    and run: "run_phase r (uuid tid) now resp (th_req th) (th_phase th) (breaker sys, cache sys) = (ph, b, c)"
  shows "once_inv view uuid req (advance r uuid now resp tid sys)"
proof -
  let ?s = "advance r uuid now resp tid sys" and ?K = "cacheKey req" and ?L = "lockKey req"
  let ?V = "cview view (cache sys)" and ?W = "cview view c"
  have s: "cache ?s = c" "threads ?s = (threads sys)(tid \<mapsto> th\<lparr>th_phase := ph\<rparr>)"
    using th run by (simp_all add: advance_def)
  have L: "lockKey (th_req th) = ?L" using same lockKey_inj by blast
  have key: "key_ok (th_req th)" using lock th by (simp add: lock_inv_def)
  have KL: "?K \<noteq> ?L" using key same cacheKey_neq_lockKey by metis
  have log: "key_log ?K ?s = key_log ?K sys @ log_entry tid (th_phase th) ph"
    using key_log_advance [where uuid = uuid, OF th run] same by simp
  have eff: "phase_effect (th_req th) (tok uuid tid) (th_phase th) ?V ph ?W"
    by (rule run_phase_effect [OF ok(1) run])
  show ?thesis
  proof (cases "th_phase th = Handling \<and> (\<exists>st a body. ph = Storing st a body)")
    case True
    then obtain st a body where ph: "th_phase th = Handling" "ph = Storing st a body" by blast
    note h = once_inv_Handling [OF inv lock ok(3) th same ph(1)]
    have wf: "json_wf (cached_response st body)" using to_Storing run ph ok(4) by blast
    have "c = cache sys" using run ph by simp
    moreover have "threads sys t = Some th' \<Longrightarrow> cacheKey (th_req th') = ?K \<Longrightarrow>
        th_phase th' \<noteq> Storing st' a' body'" for t th' st' a' body'
      using inv h(1) by (auto simp: once_inv_def Let_def)
    ultimately show ?thesis
      unfolding once_inv_def Let_def log s using h wf ph by (auto simp: same answered_def)
  next
    case False
    then have log': "key_log ?K ?s = key_log ?K sys"
      unfolding log by (cases "(tid, th_phase th, ph)" rule: log_entry.cases) auto
    have notS: "ph \<noteq> Storing st a body" for st a body using to_Storing run False by blast
    have toH: "?V ?K = None" if "ph = Handling"
      using recheck_falsy [OF ok(1,2) _ once_inv_value [OF inv]] to_Handling run that same by metis
    have others: "threads sys t = Some th' \<Longrightarrow> cacheKey (th_req th') = ?K \<Longrightarrow>
        (th_phase th' = Handling \<longrightarrow> ?V ?K = None)
        \<and> (\<forall>st a body. th_phase th' = Storing st a body \<longrightarrow> key_log ?K sys = [(t, st, body)])" for t th'
      using inv by (simp add: once_inv_def Let_def)
    consider (idle) "?W = ?V" "logged_phase (th_phase th) \<longrightarrow> logged_phase ph"
      | (acquire) "?V ?L = None" "?W ?K = ?V ?K" "ph = Recheck \<or> ph = Replied Unavailable503"
      | (store) st a body where "th_phase th = Storing st a body"
          "?W = ?V(?K \<mapsto> stringify (cached_response st body))" "ph = Releasing st a \<or> ph = Replied (Fresh st a)"
      | (release) "\<not> logged_phase (th_phase th)" "?V ?L = Some (tok uuid tid)" "?W ?K = ?V ?K" "\<exists>a. ph = Replied a"
      using eff KL by (auto simp: phase_effect_def L same)
    then show ?thesis
    proof cases
      case idle
      then have "answered (threads sys) ?K t \<Longrightarrow>
          answered ((threads sys)(tid \<mapsto> th\<lparr>th_phase := ph\<rparr>)) ?K t" for t
        using th same by (intro answered_upd) (auto simp: answered_def)
      with idle show ?thesis
        using inv notS toH th unfolding once_inv_def Let_def log' s
        by (auto split: if_splits)
    next
      case acquire
      then show ?thesis
        using inv others unfolding once_inv_def Let_def log' s by (auto split: if_splits)
    next
      case (store st a body)
      have lg: "key_log ?K sys = [(tid, st, body)]" using others [OF th same] store(1) by simp
      then have wf: "json_wf (cached_response st body)"
        using inv by (auto simp: once_inv_def Let_def)
      have own: "?V (lockKey (th_req th)) = Some (tok uuid tid)"
        using lock th store(1) by (simp add: lock_inv_def)
      have "th_phase th' \<noteq> Handling"
        if "threads sys t = Some th'" "cacheKey (th_req th') = ?K" "t \<noteq> tid" for t th'
      proof
        assume "th_phase th' = Handling"
        then have "?V (lockKey (th_req th')) = Some (tok uuid t)"
          using lock that by (simp add: lock_inv_def)
        moreover have "lockKey (th_req th') = lockKey (th_req th)"
          using that(2) same lockKey_inj by metis
        ultimately show False using own tok_inj [OF ok(3), of t tid] that(3) by simp
      qed
      then show ?thesis
        using store(2,3) lg wf others unfolding once_inv_def Let_def log' s by auto
    next
      case release
      have "\<not> (?V ?L = Some (tok uuid t) \<and> answered (threads sys) ?K t)" for t
        using release th tok_inj [OF ok(3), of t tid] by (auto simp: answered_def)
      then show ?thesis
        using release inv others th unfolding once_inv_def Let_def log' s
        by (auto split: if_splits)
    qed
  qed
qed


lemma idem_reach_log_dom:
  "idem_reach r view uuid sys \<Longrightarrow> \<forall>e\<in>set (exec_log sys). threads sys (fst e) \<noteq> None"
proof (induction rule: idem_reach.induct)
  case (step sys resp now tid)
  have entry: "e \<in> set (log_entry tid x y) \<Longrightarrow> fst e = tid" for e x y
    by (induction tid x y rule: log_entry.induct) auto
  show ?case
  proof (cases "threads sys tid")
    case (Some th)
    show ?thesis
      by (rule advance_Some [OF Some, of r uuid now resp]) (use step.IH in \<open>auto dest!: entry\<close>)
  qed (use step in \<open>simp add: advance_None\<close>)
qed auto

lemma once_inv_arrive:
  assumes "once_inv view uuid req sys" "threads sys tid = None"
    "\<forall>e\<in>set (exec_log sys). threads sys (fst e) \<noteq> None"
  shows "once_inv view uuid req
     (sys\<lparr>threads := (threads sys)(tid \<mapsto> \<lparr>th_req = req', th_phase = Enter\<rparr>)\<rparr>)"
proof -
  let ?s = "sys\<lparr>threads := (threads sys)(tid \<mapsto> \<lparr>th_req = req', th_phase = Enter\<rparr>)\<rparr>"
  have log: "key_log K ?s = key_log K sys" for K
    using assms(2,3) by (auto simp: key_log_def has_key_def intro!: filter_cong split: option.splits)
  have "answered (threads sys) K t \<Longrightarrow> answered (threads ?s) K t" for K t
    using assms(2) by (auto simp: answered_def)
  then show ?thesis
    using assms(1,2) unfolding once_inv_def Let_def log by (auto split: if_splits)
qed

lemma idem_reach_once_inv:
  assumes ok: "redis_ok r view" "reads_reliable r" "inj uuid" and req: "key_ok req"
    and reach: "idem_reach r view uuid sys"
  shows "once_inv view uuid req sys"
  using reach
proof (induction rule: idem_reach.induct)
  case (start c b)
  then show ?case by (simp add: once_inv_def key_log_def Let_def)
next
  case (arrive sys tid req')
  then show ?case using once_inv_arrive idem_reach_log_dom by blast
next
  case (step sys resp now tid)
  have lock: "lock_inv view uuid sys" using idem_reach_lock_inv [OF ok(1,3) step.hyps(1)] .
  show ?case
  proof (cases "threads sys tid")
    case None
    with step show ?thesis by (simp add: advance_None)
  next
    case (Some th)
    obtain ph b c where run: "run_phase r (uuid tid) now resp (th_req th) (th_phase th)
        (breaker sys, cache sys) = (ph, b, c)"
      by (metis prod_cases3)
    show ?thesis
    proof (cases "cacheKey (th_req th) = cacheKey req")
      case True
      with once_inv_same_key [OF ok step.hyps(2) lock step.IH Some] run show ?thesis by blast
    next
      case False
      have "key_ok (th_req th)" using lock Some by (simp add: lock_inv_def)
      then have "cview view c (cacheKey req) = cview view (cache sys) (cacheKey req)"
        "cview view c (lockKey req) = cview view (cache sys) (lockKey req)"
        using effect_other_key [OF run_phase_effect [OF ok(1) run] req _ False] by blast+
      with once_inv_other_key [OF step.IH Some] run False show ?thesis by blast
    qed
  qed
next
  case (other sys c)
  have log: "key_log K (sys\<lparr>cache := c\<rparr>) = key_log K sys" for K by (simp add: key_log_def)
  have upd: "threads (sys\<lparr>cache := c\<rparr>) = threads sys" "cache (sys\<lparr>cache := c\<rparr>) = c" by simp_all
  show ?case
    using other.IH unfolding once_inv_def Let_def log upd other.hyps(2,3) .
qed


text \<open>
  C18. Requests with the same idempotency key run their handler to a cacheable answer at most
  once, in any interleaving and even when storing that answer or releasing the lock fails, as
  long as reads from Redis succeed and nothing expires.
\<close>

theorem handler_at_most_once:
  assumes "redis_ok r view" "reads_reliable r" "inj uuid" "idem_reach r view uuid sys" "key_ok req"
  shows "length (key_log (cacheKey req) sys) \<le> 1"
  using idem_reach_once_inv [OF assms(1-3,5,4)]
  by (auto simp: once_inv_def Let_def split: if_splits)


subsection \<open>Replays\<close>

fun phase_source :: "phase \<Rightarrow> (json option \<times> json option) option" where
  "phase_source (Redundant j) = Some (json_get ''status'' j, json_get ''body'' j)"
| "phase_source (Replied (Replay s b)) = Some (s, b)"
| "phase_source _ = None"

lemma phase_source_step:
  assumes "run_phase r token now resp req ph (b, c) = (ph', b', c')" "phase_source ph' = Some x"
  shows "phase_source ph = Some x
     \<or> (\<exists>j. j = fst (cache_get r (cacheKey req) c) \<and> json_truthy j
          \<and> x = (json_get ''status'' j, json_get ''body'' j))"
  using assms
  by (cases ph) (auto simp: enter_phase_def finish_phase_def replay_def
      split: prod.splits sum.splits if_splits bool.splits)

definition from_log :: "string \<Rightarrow> 's idem_sys \<Rightarrow> json option \<times> json option \<Rightarrow> bool" where
  "from_log K sys x \<longleftrightarrow> (\<exists>(t, st, body)\<in>set (key_log K sys). x = (Some (JInt st), Some body))"

definition replay_inv :: "'s idem_sys \<Rightarrow> bool" where
  "replay_inv sys \<longleftrightarrow>
     (\<forall>t th x. threads sys t = Some th \<longrightarrow> phase_source (th_phase th) = Some x \<longrightarrow>
        from_log (cacheKey (th_req th)) sys x)"

lemma read_is_logged:
  assumes "redis_ok r view" "once_inv view uuid req sys"
    "json_truthy (fst (cache_get r (cacheKey req) (cache sys)))"
  shows "\<exists>(t, st, body)\<in>set (key_log (cacheKey req) sys).
     fst (cache_get r (cacheKey req) (cache sys)) = cached_response st body"
  using assms(2,3) cache_get_result [OF assms(1), of "cacheKey req" "cache sys"]
  by (auto simp: once_inv_def Let_def json_parse_stringify stringify_nonempty split: if_splits)

lemma advance_replay_inv:
  assumes ok: "redis_ok r view" "\<And>req. key_ok req \<Longrightarrow> once_inv view uuid req sys"
    and lock: "lock_inv view uuid sys" and inv: "replay_inv sys"
  shows "replay_inv (advance r uuid now resp tid sys)"
proof (cases "threads sys tid")
  case None
  with inv show ?thesis by (simp add: advance_None)
next
  case (Some th)
  let ?s = "advance r uuid now resp tid sys"
  obtain ph b c where run: "run_phase r (uuid tid) now resp (th_req th) (th_phase th)
      (breaker sys, cache sys) = (ph, b, c)"
    by (metis prod_cases3)
  have s: "threads ?s = (threads sys)(tid \<mapsto> th\<lparr>th_phase := ph\<rparr>)"
    using Some run by (simp add: advance_def)
  have mono: "set (key_log K sys) \<subseteq> set (key_log K ?s)" for K
    using key_log_advance [where uuid = uuid, OF Some run] by auto
  have key: "key_ok (th_req th)" using lock Some by (simp add: lock_inv_def)
  have new: "from_log (cacheKey (th_req th)) sys x"
    if src: "phase_source ph = Some x" for x
  proof (cases "phase_source (th_phase th) = Some x")
    case True
    with inv Some show ?thesis unfolding replay_inv_def by blast
  next
    case False
    then obtain j where "j = fst (cache_get r (cacheKey (th_req th)) (cache sys))" "json_truthy j"
      "x = (json_get ''status'' j, json_get ''body'' j)"
      using phase_source_step [OF run src] by blast
    with read_is_logged [OF ok(1) ok(2) [OF key]] show ?thesis
      by (fastforce simp: cached_response_def from_log_def)
  qed
  show ?thesis
    unfolding replay_inv_def s
  proof (intro allI impI)
    fix t th' x
    assume a: "((threads sys)(tid \<mapsto> th\<lparr>th_phase := ph\<rparr>)) t = Some th'" "phase_source (th_phase th') = Some x"
    have "from_log (cacheKey (th_req th')) sys x"
      using a new inv by (cases x; cases "t = tid") (auto simp: replay_inv_def)
    then show "from_log (cacheKey (th_req th')) ?s x"
      using mono unfolding from_log_def by blast
  qed
qed

lemma idem_reach_replay_inv:
  assumes ok: "redis_ok r view" "reads_reliable r" "inj uuid" and reach: "idem_reach r view uuid sys"
  shows "replay_inv sys"
  using reach
proof (induction rule: idem_reach.induct)
  case (start c b)
  then show ?case by (simp add: replay_inv_def)
next
  case (arrive sys tid req)
  let ?s = "sys\<lparr>threads := (threads sys)(tid \<mapsto> \<lparr>th_req = req, th_phase = Enter\<rparr>)\<rparr>"
  have "key_log K ?s = key_log K sys" for K
    using arrive.hyps(2) idem_reach_log_dom [OF arrive.hyps(1)]
    by (auto simp: key_log_def has_key_def intro!: filter_cong split: option.splits)
  with arrive.IH show ?case by (auto simp: replay_inv_def from_log_def)
next
  case (step sys resp now tid)
  show ?case
    by (rule advance_replay_inv [OF ok(1) idem_reach_once_inv [OF ok _ step.hyps(1)]
        idem_reach_lock_inv [OF ok(1,3) step.hyps(1)] step.IH])
next
  case (other sys c)
  then show ?case by (simp add: replay_inv_def key_log_def from_log_def)
qed

text \<open>
  The answer a request's own handler gave: the middleware hands it to the client unchanged
  (\<open>originalJson\<close>, \<open>originalSend\<close>) and carries it through its last phases.
\<close>

fun client_answer :: "phase \<Rightarrow> (int \<times> handler_answer) option" where
  "client_answer (Storing st a body) = Some (st, a)"
| "client_answer (Releasing st a) = Some (st, a)"
| "client_answer (Replied (Fresh st a)) = Some (st, a)"
| "client_answer _ = None"

definition answer_inv :: "'s idem_sys \<Rightarrow> bool" where
  "answer_inv sys \<longleftrightarrow>
     (\<forall>(t, st, body)\<in>set (exec_log sys).
        \<exists>th a. threads sys t = Some th \<and> client_answer (th_phase th) = Some (st, a)
          \<and> captured a = Some body)"

lemma client_answer_kept:
  "run_phase r token now resp req ph (b, c) = (ph', b', c') \<Longrightarrow> client_answer ph = Some x \<Longrightarrow>
    client_answer ph' = Some x"
  by (cases ph rule: client_answer.cases) (auto split: prod.splits bool.splits)

lemma logged_answer:
  assumes "run_phase r token now resp req ph (b, c) = (ph', b', c')"
    and "(t, st, body) \<in> set (log_entry tid ph ph')"
  shows "t = tid \<and> (\<exists>a. client_answer ph' = Some (st, a) \<and> captured a = Some body)"
proof -
  obtain a where "ph = Handling" "ph' = Storing st a body" "t = tid"
    using assms(2) by (cases "(tid, ph, ph')" rule: log_entry.cases) auto
  with assms(1) show ?thesis by (auto simp: finish_phase_def cacheable_def split: if_splits)
qed

lemma advance_answer_inv:
  assumes "answer_inv sys"
  shows "answer_inv (advance r uuid now resp tid sys)"
proof (cases "threads sys tid")
  case None
  with assms show ?thesis by (simp add: advance_None)
next
  case (Some th)
  obtain ph b c where run: "run_phase r (uuid tid) now resp (th_req th) (th_phase th)
      (breaker sys, cache sys) = (ph, b, c)"
    by (metis prod_cases3)
  show ?thesis
    using assms Some run client_answer_kept [OF run] logged_answer [OF run]
    by (fastforce simp: answer_inv_def advance_def)
qed

lemma idem_reach_answer_inv: "idem_reach r view uuid sys \<Longrightarrow> answer_inv sys"
proof (induction rule: idem_reach.induct)
  case (arrive sys tid req)
  then show ?case by (fastforce simp: answer_inv_def)
qed (simp_all add: advance_answer_inv, simp_all add: answer_inv_def)

text \<open>What is stored of an answer: of \<open>res.json\<close> the value itself, of \<open>res.send\<close> the text read as JSON.\<close>

lemma captured_json: "captured (AnsJson j) = Some j"
proof (cases "json_truthy j")
  case False
  then have "json_wf j" by (cases j) (auto simp: JS_MAX_INT_def)
  then show ?thesis by (simp add: capture_send_def json_parse_stringify del: stringify.simps)
qed (simp add: capture_send_def)

lemma captured_send:
  "captured (AnsSend t) = Some (case json_parse t of Some j \<Rightarrow> j | None \<Rightarrow> JStr t)"
  by (simp add: capture_send_def)



text \<open>A concrete run: one request on an empty, reliable store.\<close>

definition demo_req :: request where
  "demo_req = \<lparr>idempotency_key = Some ''k'', user_publicKey = None, req_ip = None, req_baseUrl = [],
     req_path = ''/p'', req_originalUrl = ''/p'', req_method = ''POST''\<rparr>"

definition demo_uuid :: "nat \<Rightarrow> string" where
  "demo_uuid n = replicate n (CHR ''a'')"

definition demo_sys :: "nat \<Rightarrow> (string \<Rightarrow> string option) idem_sys" where
  "demo_sys n = ((advance map_redis demo_uuid 0 (200, AnsJson (JBool True)) 0) ^^ n)
     \<lparr>breaker = new_breaker, cache = \<lparr>isConnected = True, server = (\<lambda>_. None)\<rparr>,
      threads = [0 \<mapsto> \<lparr>th_req = demo_req, th_phase = Enter\<rparr>], exec_log = []\<rparr>"

lemma demo_uuid_inj: "inj demo_uuid"
proof (rule injI)
  fix a b
  assume "demo_uuid a = demo_uuid b"
  then have "length (demo_uuid a) = length (demo_uuid b)" by simp
  then show "a = b" by (simp add: demo_uuid_def)
qed

lemma demo_key: "cacheKey demo_req = ''idemp:ip:unknown:POST:/p:k''"
  by (simp add: cacheKey_def demo_req_def principal_def route_def given_def)

lemma demo_key_ok: "key_ok demo_req"
proof -
  have "last (cacheKey demo_req) \<noteq> last (p @ '':inflight'')" for p by (simp add: demo_key)
  then show ?thesis unfolding key_ok_def by metis
qed

lemma demo_reach: "idem_reach map_redis (\<lambda>s. s) demo_uuid (demo_sys n)"
proof (induction n)
  case 0
  have "idem_reach map_redis (\<lambda>s. s) demo_uuid \<lparr>breaker = new_breaker,
      cache = \<lparr>isConnected = True, server = (\<lambda>_. None)\<rparr>, threads = (\<lambda>_. None), exec_log = []\<rparr>"
    by (rule idem_reach.start) simp_all
  from idem_reach.arrive [OF this, of 0 demo_req] show ?case
    by (simp add: demo_sys_def demo_key_ok)
next
  case (Suc n)
  have "resp_ok (200, AnsJson (JBool True))" by (simp add: resp_ok_def capture_send_def JS_MAX_INT_def)
  with Suc show ?case by (simp add: demo_sys_def idem_reach.step)
qed

lemmas demo_eval = demo_sys_def advance_def cache_get_def reserve_def ensureConnected_def map_redis_def
  enter_phase_def finish_phase_def isOpen_def new_breaker_def recordSuccess_def cacheable_def
  capture_send_def eval_nat_numeral

lemma demo_handling: "threads (demo_sys 4) 0 = Some \<lparr>th_req = demo_req, th_phase = Handling\<rparr>"
proof -
  have "given (idempotency_key demo_req)" by (simp add: given_def demo_req_def)
  moreover have "cacheKey demo_req \<noteq> lockKey demo_req" by (simp add: lockKey_def)
  ultimately show ?thesis by (simp add: demo_eval)
qed

lemma demo_logged: "exec_log (demo_sys 5) = [(0, 200, JBool True)]"
proof -
  have "given (idempotency_key demo_req)" by (simp add: given_def demo_req_def)
  moreover have "cacheKey demo_req \<noteq> lockKey demo_req" by (simp add: lockKey_def)
  ultimately show ?thesis by (simp add: demo_eval)
qed


theorem handler_mutual_exclusion_witness:
  "\<exists>th. threads (demo_sys 4) 0 = Some th \<and> th_phase th = Handling
     \<and> (\<forall>t'. threads (demo_sys 4) t' = Some th \<longrightarrow> 0 = t')"
  using handler_mutual_exclusion [OF map_redis_ok demo_uuid_inj demo_reach demo_handling] demo_handling
  by auto

theorem handler_at_most_once_witness:
  "exec_log (demo_sys 5) = [(0, 200, JBool True)] \<and> length (key_log (cacheKey demo_req) (demo_sys 5)) \<le> 1"
  using handler_at_most_once [OF map_redis_ok map_redis_reliable demo_uuid_inj demo_reach demo_key_ok]
    demo_logged by blast

definition demo_retry :: "nat \<Rightarrow> (string \<Rightarrow> string option) idem_sys" where
  "demo_retry n = ((advance map_redis demo_uuid 9 (500, AnsEnd) 1) ^^ n)
     ((demo_sys 7)\<lparr>threads := (threads (demo_sys 7))(1 \<mapsto> \<lparr>th_req = demo_req, th_phase = Enter\<rparr>)\<rparr>)"

lemma demo_finished:
  "threads (demo_sys 7) 1 = None" "failureCount (breaker (demo_sys 7)) = 0"
  "threshold (breaker (demo_sys 7)) = 3" "isConnected (cache (demo_sys 7))"
  "server (cache (demo_sys 7)) (cacheKey demo_req) = Some (stringify (cached_response 200 (JBool True)))"
proof -
  have 1: "given (idempotency_key demo_req)" by (simp add: given_def demo_req_def)
  have 2: "cacheKey demo_req \<noteq> lockKey demo_req" "lockKey demo_req \<noteq> cacheKey demo_req"
    by (simp_all add: lockKey_def)
  show "threads (demo_sys 7) 1 = None" "failureCount (breaker (demo_sys 7)) = 0"
    "threshold (breaker (demo_sys 7)) = 3" "isConnected (cache (demo_sys 7))"
    "server (cache (demo_sys 7)) (cacheKey demo_req) = Some (stringify (cached_response 200 (JBool True)))"
    using 1 2
    by (simp_all add: demo_eval setRequired_def deleteIfMatch_def COMPARE_AND_DELETE_SCRIPT_def)
qed

lemma demo_retry_reach: "idem_reach map_redis (\<lambda>s. s) demo_uuid (demo_retry n)"
proof (induction n)
  case 0
  from idem_reach.arrive [OF demo_reach demo_finished(1) demo_key_ok] show ?case
    by (simp add: demo_retry_def)
next
  case (Suc n)
  have "resp_ok (500, AnsEnd)" by (simp add: resp_ok_def JS_MAX_INT_def)
  with Suc show ?case by (simp add: demo_retry_def idem_reach.step)
qed

lemma demo_replayed:
  "threads (demo_retry 2) 1 =
     Some \<lparr>th_req = demo_req, th_phase = Replied (Replay (Some (JInt 200)) (Some (JBool True)))\<rparr>"
proof -
  have key: "given (idempotency_key demo_req)" by (simp add: given_def demo_req_def)
  have wf: "json_wf (cached_response 200 (JBool True))"
    by (simp add: cached_response_def JS_MAX_INT_def)
  have "fst (cache_get map_redis (cacheKey demo_req) (cache (demo_sys 7))) = cached_response 200 (JBool True)"
    using cache_get_exact [OF map_redis_ok map_redis_reliable, of "cacheKey demo_req" "cache (demo_sys 7)"]
    by (simp only: demo_finished(5) json_parse_stringify [OF wf] stringify_nonempty [OF wf]
        option.case if_False)
  then show ?thesis
    using key demo_finished(2,3)
    by (simp add: demo_retry_def advance_def enter_phase_def isOpen_def eval_nat_numeral replay_def
        case_prod_beta cached_response_def)
qed


subsection \<open>The breaker during an outage\<close>

text \<open>One request at a time, from arrival to its answer (at most seven phases).\<close>

definition serve ::
  "'s redis \<Rightarrow> (nat \<Rightarrow> string) \<Rightarrow> int \<times> handler_answer \<Rightarrow> int \<times> nat \<times> request \<Rightarrow> 's idem_sys \<Rightarrow> 's idem_sys" where
  "serve r uuid resp arrival sys =
     (case arrival of (now, tid, req) \<Rightarrow>
        ((advance r uuid now resp tid) ^^ 8)
          (sys\<lparr>threads := (threads sys)(tid \<mapsto> \<lparr>th_req = req, th_phase = Enter\<rparr>)\<rparr>))"

definition outage :: "'s redis \<Rightarrow> bool" where
  "outage r \<longleftrightarrow> (\<forall>s. \<not> fst (r_connect r s))"

definition breaker_idle :: "'s idem_sys \<Rightarrow> bool" where
  "breaker_idle sys \<longleftrightarrow> \<not> isConnected (cache sys) \<and> failureCount (breaker sys) \<le> 1
     \<and> threshold (breaker sys) = threshold new_breaker"

lemma outage_down:
  assumes "outage r" "\<not> isConnected c"
  shows "\<not> fst (ensureConnected r c)" "\<not> isConnected (snd (ensureConnected r c))"
  using assms by (auto simp: outage_def ensureConnected_def split: prod.splits bool.splits) (metis fst_conv)+

lemma outage_ops:
  assumes "outage r" "\<not> isConnected c"
  shows "fst (cache_get r k c) = JNull" "\<not> isConnected (snd (cache_get r k c))"
    "fst (reserve r k v t c) = Inl (RedisError ''connect'')" "\<not> isConnected (snd (reserve r k v t c))"
  using outage_down [OF assms]
  by (cases "ensureConnected r c"; auto simp: cache_get_def reserve_def)+

lemma replied_stays:
  "threads sys tid = Some th \<Longrightarrow> th_phase th = Replied a \<or> th_phase th = PassedThrough \<Longrightarrow>
    advance r uuid now resp tid sys = sys"
  by (auto simp: advance_def fun_upd_idem)

lemma replied_stays_pow:
  "threads sys tid = Some th \<Longrightarrow> th_phase th = Replied a \<or> th_phase th = PassedThrough \<Longrightarrow>
    ((advance r uuid now resp tid) ^^ n) sys = sys"
  by (induction n) (auto simp: replied_stays)


lemma advance_eq:
  assumes "threads sys tid = Some th"
    "run_phase r (uuid tid) now resp (th_req th) (th_phase th) (breaker sys, cache sys) = (ph, b, c)"
  shows "advance r uuid now resp tid sys =
     sys\<lparr>breaker := b, cache := c, threads := (threads sys)(tid \<mapsto> th\<lparr>th_phase := ph\<rparr>),
         exec_log := exec_log sys @ log_entry tid (th_phase th) ph\<rparr>"
  using assms by (simp add: advance_def)

lemma serve_outage:
  assumes "outage r" "breaker_idle sys"
  shows "breaker_idle (serve r uuid resp (now, tid, req) sys)
     \<and> (\<exists>ph. threads (serve r uuid resp (now, tid, req) sys) tid = Some \<lparr>th_req = req, th_phase = ph\<rparr>
          \<and> (if given (idempotency_key req) then ph = Replied Unavailable503 else ph = PassedThrough))"
proof -
  let ?f = "advance r uuid now resp tid"
  let ?x = "sys\<lparr>threads := (threads sys)(tid \<mapsto> \<lparr>th_req = req, th_phase = Enter\<rparr>)\<rparr>"
  have closed: "\<not> isOpen now (breaker sys)"
    using assms(2) by (simp add: breaker_idle_def isOpen_def new_breaker_def)
  have split: "(?f ^^ 8) ?x = (?f ^^ 5) ((?f ^^ 3) ?x)" using funpow_add [of 5 3 ?f] by simp
  show ?thesis
  proof (cases "given (idempotency_key req)")
    case False
    then have "?f ?x = ?x\<lparr>threads := (threads ?x)(tid \<mapsto> \<lparr>th_req = req, th_phase = PassedThrough\<rparr>)\<rparr>"
      by (simp add: advance_def enter_phase_def)
    moreover have "(?f ^^ 8) ?x = (?f ^^ 7) (?f ?x)" using funpow_add [of 7 1 ?f] by simp
    ultimately have "(?f ^^ 8) ?x =
        ?x\<lparr>threads := (threads ?x)(tid \<mapsto> \<lparr>th_req = req, th_phase = PassedThrough\<rparr>)\<rparr>"
      by (simp add: replied_stays_pow)
    then show ?thesis using assms(2) False by (simp add: serve_def breaker_idle_def)
  next
    case True
    define g where "g = cache_get r (cacheKey req) (cache sys)"
    define v where "v = reserve r (lockKey req) (JStr (uuid tid)) IDEMPOTENCY_LOCK_TTL (snd g)"
    have down: "\<not> isConnected (cache sys)" using assms(2) by (simp add: breaker_idle_def)
    have g: "g = (JNull, snd g)" "\<not> isConnected (snd g)"
      using outage_ops(1,2) [OF assms(1) down] by (simp_all add: g_def prod_eq_iff)
    have v: "fst v = Inl (RedisError ''connect'')" "\<not> isConnected (snd v)"
      using outage_ops(3,4) [OF assms(1) g(2)] by (simp_all add: v_def)
    let ?b = "recordSuccess (breaker sys)"
    have 1: "?f ?x = ?x\<lparr>threads := (threads ?x)(tid \<mapsto> \<lparr>th_req = req, th_phase = Lookup\<rparr>)\<rparr>" (is "_ = ?y")
      using True closed by (simp add: advance_def enter_phase_def)
    have 2: "?f ?y = ?y\<lparr>breaker := ?b, cache := snd g,
        threads := (threads ?y)(tid \<mapsto> \<lparr>th_req = req, th_phase = Reserving\<rparr>)\<rparr>" (is "_ = ?z")
      using g(1) by (simp add: advance_def g_def [symmetric] case_prod_beta) (metis fst_conv json_truthy.simps(1))
    have 3: "?f ?z = ?z\<lparr>breaker := recordFailure now ?b, cache := snd v,
        threads := (threads ?z)(tid \<mapsto> \<lparr>th_req = req, th_phase = Replied Unavailable503\<rparr>)\<rparr>" (is "_ = ?w")
      by (subst advance_eq [of ?z tid "\<lparr>th_req = req, th_phase = Reserving\<rparr>" r uuid now resp
            "Replied Unavailable503" "recordFailure now ?b" "snd v"])
        (use v(1) in \<open>simp_all add: v_def [symmetric] case_prod_beta\<close>)
    have "(?f ^^ 3) ?x = ?w" using 1 2 3 by (simp only: eval_nat_numeral funpow.simps comp_def id_def) simp
    then have "(?f ^^ 8) ?x = ?w" unfolding split by (simp add: replied_stays_pow)
    then show ?thesis
      using assms(2) True v(2)
      by (simp add: serve_def breaker_idle_def recordFailure_def recordSuccess_def)
  qed
qed

text \<open>
  During a Redis outage the circuit breaker never opens for requests served one after the
  other: the swallowed read failure counts as a success, so the failure count goes back to
  zero before each failing reservation and stays below the threshold however many requests
  arrive.
\<close>

theorem breaker_never_opens:
  assumes "outage r" "breaker_idle sys"
  shows "\<not> isOpen now (breaker (fold (serve r uuid resp) arrivals sys))
     \<and> failureCount (breaker (fold (serve r uuid resp) arrivals sys)) \<le> 1"
proof -
  have "breaker_idle (fold (serve r uuid resp) arrivals sys)"
    using assms(2)
  proof (induction arrivals arbitrary: sys)
    case (Cons a arrivals)
    obtain n t q where "a = (n, t, q)" by (cases a)
    with Cons serve_outage [OF assms(1) Cons.prems] show ?case by auto
  qed simp
  then show ?thesis by (simp add: breaker_idle_def isOpen_def new_breaker_def)
qed

theorem breaker_never_opens_witness:
  "\<not> isOpen 7 (breaker (fold (serve (map_redis\<lparr>r_connect := (\<lambda>s. (False, s))\<rparr>) demo_uuid (200, AnsEnd))
      [(1, 0, demo_req), (2, 1, demo_req), (3, 2, demo_req), (4, 3, demo_req)]
      \<lparr>breaker = new_breaker, cache = \<lparr>isConnected = False, server = (\<lambda>_. None)\<rparr>,
       threads = (\<lambda>_. None), exec_log = []\<rparr>))"
proof -
  have "outage (map_redis\<lparr>r_connect := (\<lambda>s. (False, s))\<rparr>)" by (simp add: outage_def)
  moreover have "breaker_idle \<lparr>breaker = new_breaker, cache = \<lparr>isConnected = False, server = (\<lambda>_. None)\<rparr>,
      threads = (\<lambda>_. None), exec_log = []\<rparr>"
    by (simp add: breaker_idle_def new_breaker_def)
  ultimately show ?thesis using breaker_never_opens by blast
qed

end
