(* ===== verification/Db.thy ===== *)
theory Db
  imports Prelude
begin

section \<open>Transactions and retries (\<open>backend/src/db/connection.ts\<close>)\<close>

text \<open>
  \<open>withRetry\<close> and \<open>withTransaction\<close>. A statement or a transaction body is a function of the
  attempt number (the environment may fail any attempt), of the variables its closure captures
  and of the tables; an attempt that fails is rolled back in the tables, never in the captured
  variables. The pool, its metrics and the waits between attempts are not modelled.
\<close>

datatype db_error = DbError string

primrec db_code :: "db_error \<Rightarrow> string" where
  "db_code (DbError c) = c"

definition TRANSIENT_ERROR_CODES :: "string list" where
  "TRANSIENT_ERROR_CODES =
     [''ECONNREFUSED'', ''08000'', ''08003'', ''08006'', ''57P01'', ''57P02'', ''57P03'', ''40001'', ''40P01'']"

definition MAX_RETRIES :: nat where
  "MAX_RETRIES = 3"

definition transient :: "db_error \<Rightarrow> bool" where
  "transient e \<longleftrightarrow> db_code e \<in> set TRANSIENT_ERROR_CODES"

text \<open>\<open>retries\<close> counts down to zero; the result also tells how many attempts ran.\<close>

fun withRetry :: "(nat \<Rightarrow> 'st \<Rightarrow> db_error + 'a \<times> 'st) \<Rightarrow> nat \<Rightarrow> 'st \<Rightarrow> (db_error + 'a \<times> 'st) \<times> nat" where
  "withRetry operation retries st =
     (case operation retries st of
        Inr r \<Rightarrow> (Inr r, 1)
      | Inl e \<Rightarrow>
          (case retries of
             Suc n \<Rightarrow>
               if transient e
               then (case withRetry operation n st of (r, k) \<Rightarrow> (r, k + 1))
               else (Inl e, 1)
           | 0 \<Rightarrow> (Inl e, 1)))"

declare withRetry.simps [simp del]

function (sequential) tx_loop ::
  "(nat \<Rightarrow> 'cl \<Rightarrow> 'st \<Rightarrow> (db_error + 'a \<times> 'st) \<times> 'cl) \<Rightarrow> nat \<Rightarrow> nat \<Rightarrow> 'cl \<Rightarrow> 'st
     \<Rightarrow> (db_error + 'a) \<times> 'cl \<times> 'st" where
  "tx_loop fn maxRetries attempt cl st =
     (case fn attempt cl st of
        (Inr (result, st'), cl') \<Rightarrow> (Inr result, cl', st')
      | (Inl e, cl') \<Rightarrow>
          if transient e \<and> attempt < maxRetries
          then tx_loop fn maxRetries (attempt + 1) cl' st
          else (Inl e, cl', st))"
  by pat_completeness auto
termination
  by (relation "measure (\<lambda>(fn, m, a, cl, st). m - a)") auto

declare tx_loop.simps [simp del]

definition withTransaction ::
  "(nat \<Rightarrow> 'cl \<Rightarrow> 'st \<Rightarrow> (db_error + 'a \<times> 'st) \<times> 'cl) \<Rightarrow> 'cl \<Rightarrow> 'st \<Rightarrow> (db_error + 'a) \<times> 'cl \<times> 'st" where
  "withTransaction fn cl st = tx_loop fn 3 0 cl st"

text \<open>A failed transaction leaves the tables alone; a committed one is a single run of its body.\<close>

lemma tx_loop_atomic:
  "(\<exists>e. fst (tx_loop fn m a cl st) = Inl e \<and> snd (snd (tx_loop fn m a cl st)) = st)
   \<or> (\<exists>k cl0 x st' cl'. a \<le> k \<and> k \<le> max a m \<and> fn k cl0 st = (Inr (x, st'), cl')
       \<and> tx_loop fn m a cl st = (Inr x, cl', st'))"
proof (induction fn m a cl st rule: tx_loop.induct)
  case (1 fn m a cl st)
  show ?case
  proof (cases "fn a cl st")
    case (Pair r cl')
    show ?thesis
    proof (cases r)
      case (Inl e)
      show ?thesis
      proof (cases "transient e \<and> a < m")
        case True
        have step: "tx_loop fn m a cl st = tx_loop fn m (a + 1) cl' st"
          using Pair Inl True by (subst tx_loop.simps) simp
        have "max (a + 1) m = max a m" using True by simp
        with 1 [OF Pair [symmetric] Inl True] show ?thesis unfolding step
          by (metis Suc_eq_plus1 Suc_leD)
      next
        case False
        then have "tx_loop fn m a cl st = (Inl e, cl', st)"
          using Pair Inl by (subst tx_loop.simps) auto
        then show ?thesis by simp
      qed
    next
      case (Inr p)
      obtain x st' where "p = (x, st')" by (cases p)
      with Pair Inr show ?thesis by (subst (3) tx_loop.simps) (auto intro: exI [of _ a])
    qed
  qed
qed

text \<open>
  A Hoare rule for transactions: \<open>I\<close> is kept by failed attempts on the captured variables and
  \<open>Q\<close> holds after an attempt that commits.
\<close>

definition tx_post ::
  "('cl \<Rightarrow> bool) \<Rightarrow> ('a \<Rightarrow> 'cl \<Rightarrow> 'st \<Rightarrow> bool) \<Rightarrow> 'st \<Rightarrow> (db_error + 'a) \<times> 'cl \<times> 'st \<Rightarrow> bool" where
  "tx_post I Q st res =
     (case res of (Inl e, cl, st') \<Rightarrow> I cl \<and> st' = st | (Inr x, cl, st') \<Rightarrow> Q x cl st')"

lemma tx_loop_rule:
  assumes "I cl"
    and "\<And>k cl e cl'. I cl \<Longrightarrow> fn k cl st = (Inl e, cl') \<Longrightarrow> I cl'"
    and "\<And>k cl x st' cl'. I cl \<Longrightarrow> fn k cl st = (Inr (x, st'), cl') \<Longrightarrow> Q x cl' st'"
  shows "tx_post I Q st (tx_loop fn m a cl st)"
  using assms
proof (induction fn m a cl st rule: tx_loop.induct)
  case (1 fn m a cl st)
  show ?case
  proof (cases "fn a cl st")
    case (Pair res cl')
    show ?thesis
    proof (cases res)
      case (Inl e)
      have I': "I cl'" using "1.prems" Pair Inl by blast
      show ?thesis
      proof (cases "transient e \<and> a < m")
        case True
        have step: "tx_loop fn m a cl st = tx_loop fn m (a + 1) cl' st"
          using Pair Inl True by (subst tx_loop.simps) simp
        show ?thesis unfolding step
          by (rule "1.IH" [OF Pair [symmetric] Inl True I']) (fact "1.prems")+
      next
        case False
        then have "tx_loop fn m a cl st = (Inl e, cl', st)"
          using Pair Inl by (subst tx_loop.simps) auto
        with I' show ?thesis by (simp add: tx_post_def)
      qed
    next
      case (Inr p)
      obtain x st' where p: "p = (x, st')" by (cases p)
      have "tx_loop fn m a cl st = (Inr x, cl', st')"
        using Pair Inr p by (subst tx_loop.simps) simp
      with "1.prems" Pair Inr p show ?thesis by (simp add: tx_post_def)
    qed
  qed
qed

lemma withTransaction_rule:
  assumes "I cl"
    and "\<And>k cl e cl'. I cl \<Longrightarrow> fn k cl st = (Inl e, cl') \<Longrightarrow> I cl'"
    and "\<And>k cl x st' cl'. I cl \<Longrightarrow> fn k cl st = (Inr (x, st'), cl') \<Longrightarrow> Q x cl' st'"
  shows "tx_post I Q st (withTransaction fn cl st)"
  unfolding withTransaction_def using assms by (rule tx_loop_rule)

text \<open>
  Transactions are atomic: when \<open>withTransaction\<close> reports an error no table changed, and
  when it succeeds the tables are those left by one run of its body from the initial tables,
  after at most four attempts.
\<close>

theorem withTransaction_atomic:
  "(\<exists>e. fst (withTransaction fn cl st) = Inl e \<and> snd (snd (withTransaction fn cl st)) = st)
   \<or> (\<exists>k cl0 x st' cl'. k \<le> 3 \<and> fn k cl0 st = (Inr (x, st'), cl')
       \<and> withTransaction fn cl st = (Inr x, cl', st'))"
  using tx_loop_atomic [of fn 3 0 cl st] by (simp add: withTransaction_def)

text \<open>
  A statement is attempted at most four times, and it is attempted again only after a
  transient error: a permanent error is reported at once with the tables untouched.
\<close>

theorem withRetry_bounded:
  "1 \<le> snd (withRetry operation MAX_RETRIES st) \<and> snd (withRetry operation MAX_RETRIES st) \<le> 4
   \<and> (case operation MAX_RETRIES st of
        Inl e \<Rightarrow> transient e \<or> withRetry operation MAX_RETRIES st = (Inl e, 1)
      | Inr r \<Rightarrow> withRetry operation MAX_RETRIES st = (Inr r, 1))"
proof -
  have "1 \<le> snd (withRetry operation n st) \<and> snd (withRetry operation n st) \<le> n + 1" for n
  proof (induction n)
    case 0
    then show ?case by (subst (1 2) withRetry.simps) (simp split: sum.splits)
  next
    case (Suc n)
    then show ?case
      by (subst (1 2) withRetry.simps) (auto split: sum.splits prod.splits)
  qed
  from this [of MAX_RETRIES] show ?thesis
    by (subst (3 4) withRetry.simps) (auto simp: MAX_RETRIES_def split: sum.splits nat.splits)
qed

subsection \<open>Rows shared by several components\<close>

text \<open>A row of \<open>contract_events\<close>, without the columns nothing reads.\<close>

record contract_event =
  ce_event_id :: string
  ce_event_type :: string
  ce_loan_id :: "int option"
  ce_address :: "string option"
  ce_amount :: "string option"
  ce_ledger :: int
  ce_ledger_closed_at :: int
  ce_tx_hash :: string
  ce_contract_id :: string
  ce_topics :: "string list"
  ce_value :: string
  ce_interest_rate_bps :: "int option"
  ce_term_ledgers :: "int option"

text \<open>The range of a Postgres \<open>integer\<close>.\<close>

definition int4 :: "int \<Rightarrow> bool" where
  "int4 n \<longleftrightarrow> - (2 ^ 31) \<le> n \<and> n < 2 ^ 31"

text \<open>\<open>Number.parseInt(s, 10)\<close>; \<open>None\<close> is \<open>NaN\<close>. Results are taken exactly.\<close>

definition parseInt :: "string \<Rightarrow> int option" where
  "parseInt s =
     (let t = dropWhile js_space s;
          neg = (case t of c # _ \<Rightarrow> c = CHR ''-'' | [] \<Rightarrow> False);
          u = (case t of c # cs \<Rightarrow> if c = CHR ''-'' \<or> c = CHR ''+'' then cs else t | [] \<Rightarrow> t);
          ds = takeWhile is_digit u
      in if ds = [] then None
         else Some (if neg then - int (string_to_nat ds) else int (string_to_nat ds)))"

end
