(* ===== verification/Scores.thy ===== *)
theory Scores
  imports Db Cache
begin

section \<open>Borrower scores (\<open>backend/src/services/scoresService.ts\<close>)\<close>

text \<open>
  The two bulk upserts on the \<open>scores\<close> table (one row per borrower, so a finite map) and the
  cache entries they drop. \<open>updates\<close> is a JavaScript \<open>Map\<close>: an association list with distinct
  keys in insertion order. The score column is a Postgres \<open>integer\<close>, so an expression outside
  its range fails the statement and changes nothing.
\<close>

type_synonym scores_table = "string \<Rightarrow> int option"

definition clamp_score :: "int \<Rightarrow> int" where
  "clamp_score n = min 850 (max 300 n)"

text \<open>One row of the upsert: the inserted value, and the update when the borrower exists.\<close>

definition upsert_delta :: "string \<times> int \<Rightarrow> scores_table \<Rightarrow> scores_table" where
  "upsert_delta row t =
     (let excluded = clamp_score (500 - snd row) in
      t(fst row \<mapsto> (case t (fst row) of
                       None \<Rightarrow> excluded
                     | Some s \<Rightarrow> clamp_score (s + excluded - 500))))"

definition score_rows :: "(string \<times> int) list \<Rightarrow> (string \<times> int) list" where
  "score_rows updates = filter (\<lambda>row. fst row \<noteq> []) updates"

definition apply_deltas :: "(string \<times> int) list \<Rightarrow> scores_table \<Rightarrow> db_error + scores_table" where
  "apply_deltas updates t =
     (let rows = score_rows updates in
      if list_all (\<lambda>row. int4 (snd row) \<and> int4 (500 - snd row)) rows
      then Inr (fold upsert_delta rows t) else Inl (DbError ''22003''))"

definition drop_cached_scores :: "'s redis \<Rightarrow> string list \<Rightarrow> 's cache_service \<Rightarrow> 's cache_service" where
  "drop_cached_scores r userIds c =
     fold (\<lambda>userId c. cache_delete r (''score:breakdown:'' @ userId)
                        (cache_delete r (''score:userId:'' @ userId) c)) userIds c"

definition updateUserScoresBulk ::
  "'s redis \<Rightarrow> (string \<times> int) list \<Rightarrow> scores_table \<times> 's cache_service
     \<Rightarrow> db_error + scores_table \<times> 's cache_service" where
  "updateUserScoresBulk r updates st =
     (if updates = [] then Inr st
      else if score_rows updates = [] then Inr st
      else case apply_deltas updates (fst st) of
             Inl e \<Rightarrow> Inl e
           | Inr t \<Rightarrow> Inr (t, drop_cached_scores r (map fst (score_rows updates)) (snd st)))"

definition set_scores :: "(string \<times> int) list \<Rightarrow> scores_table \<Rightarrow> db_error + scores_table" where
  "set_scores scores t =
     (let rows = score_rows scores in
      if list_all (\<lambda>row. int4 (snd row)) rows
      then Inr (fold (\<lambda>row t. t(fst row \<mapsto> snd row)) rows t) else Inl (DbError ''22003''))"

definition setAbsoluteUserScoresBulk ::
  "'s redis \<Rightarrow> (string \<times> int) list \<Rightarrow> scores_table \<times> 's cache_service
     \<Rightarrow> db_error + scores_table \<times> 's cache_service" where
  "setAbsoluteUserScoresBulk r scores st =
     (if scores = [] then Inr st
      else if score_rows scores = [] then Inr st
      else case set_scores scores (fst st) of
             Inl e \<Rightarrow> Inl e
           | Inr t \<Rightarrow> Inr (t, drop_cached_scores r (map fst (score_rows scores)) (snd st)))"

subsection \<open>The band\<close>

definition in_band :: "scores_table \<Rightarrow> bool" where
  "in_band t \<longleftrightarrow> (\<forall>u s. t u = Some s \<longrightarrow> 300 \<le> s \<and> s \<le> 850)"

lemma clamp_score_band [simp]: "300 \<le> clamp_score n" "clamp_score n \<le> 850"
  by (simp_all add: clamp_score_def)

lemma clamp_score_id: "300 \<le> n \<Longrightarrow> n \<le> 850 \<Longrightarrow> clamp_score n = n"
  by (simp add: clamp_score_def)

lemma upsert_delta_other: "u \<noteq> fst row \<Longrightarrow> upsert_delta row t u = t u"
  by (simp add: upsert_delta_def Let_def)

lemma upsert_delta_band: "in_band t \<Longrightarrow> in_band (upsert_delta row t)"
  by (auto simp: in_band_def upsert_delta_def Let_def split: option.splits)

lemma fold_upsert_band: "in_band t \<Longrightarrow> in_band (fold upsert_delta rows t)"
  by (induction rows arbitrary: t) (simp_all add: upsert_delta_band)

lemma fold_upsert_other: "u \<notin> fst ` set rows \<Longrightarrow> fold upsert_delta rows t u = t u"
  by (induction rows arbitrary: t) (simp_all add: upsert_delta_other)

lemma fold_upsert_row:
  "distinct (map fst rows) \<Longrightarrow> (u, d) \<in> set rows \<Longrightarrow>
    fold upsert_delta rows t u = upsert_delta (u, d) t u"
proof (induction rows arbitrary: t)
  case (Cons row rows)
  show ?case
  proof (cases "row = (u, d)")
    case True
    then have "u \<notin> fst ` set rows" using Cons.prems by auto
    with True show ?thesis by (simp add: fold_upsert_other)
  next
    case False
    then have mem: "(u, d) \<in> set rows" using Cons.prems by simp
    then have "u \<in> fst ` set rows" by force
    moreover have "fst row \<notin> fst ` set rows" using Cons.prems by simp
    ultimately have "u \<noteq> fst row" by metis
    with mem Cons show ?thesis by (simp add: upsert_delta_def Let_def)
  qed
qed simp

lemma score_rows_distinct: "distinct (map fst updates) \<Longrightarrow> distinct (map fst (score_rows updates))"
  unfolding score_rows_def by (induction updates) auto

lemma score_rows_mem: "(u, d) \<in> set (score_rows updates) \<longleftrightarrow> (u, d) \<in> set updates \<and> u \<noteq> []"
  by (auto simp: score_rows_def)

lemma updateUserScoresBulk_table:
  assumes "updateUserScoresBulk r updates st = Inr st'"
  shows "fst st' = fold upsert_delta (score_rows updates) (fst st)"
proof (cases "score_rows updates = []")
  case True
  with assms show ?thesis by (auto simp: updateUserScoresBulk_def split: if_splits)
next
  case False
  then have "updates \<noteq> []" by (auto simp: score_rows_def)
  with False assms show ?thesis
    by (auto simp: updateUserScoresBulk_def apply_deltas_def Let_def split: if_splits sum.splits)
qed

text \<open>
  Score updates keep every stored score within 300..850, touch only the borrowers of the
  batch, and never fail part way: the batch is applied whole or not at all.
\<close>

theorem updateUserScoresBulk_band:
  assumes "in_band (fst st)" "updateUserScoresBulk r updates st = Inr st'"
  shows "in_band (fst st') \<and> (\<forall>u. u \<notin> fst ` set updates \<longrightarrow> fst st' u = fst st u)"
proof -
  note t = updateUserScoresBulk_table [OF assms(2)]
  have "fst ` set (score_rows updates) \<subseteq> fst ` set updates" by (auto simp: score_rows_def)
  then have "u \<notin> fst ` set updates \<Longrightarrow> fst st' u = fst st u" for u
    unfolding t using fold_upsert_other [of u "score_rows updates"] by blast
  then show ?thesis using fold_upsert_band [OF assms(1)] by (simp add: t)
qed

theorem updateUserScoresBulk_band_witness:
  "\<exists>st'. updateUserScoresBulk map_redis [(''u'', 15)]
       ([''u'' \<mapsto> 600], \<lparr>isConnected = True, server = (\<lambda>_. None)\<rparr>) = Inr st'
     \<and> in_band (fst st')"
proof -
  let ?st = "([''u'' \<mapsto> 600], \<lparr>isConnected = True, server = (\<lambda>_. None :: string option)\<rparr>)"
  obtain st' where st': "updateUserScoresBulk map_redis [(''u'', 15)] ?st = Inr st'"
    by (simp add: updateUserScoresBulk_def score_rows_def apply_deltas_def int4_def)
  have "in_band (fst ?st)" by (simp add: in_band_def)
  from updateUserScoresBulk_band [OF this st'] st' show ?thesis by blast
qed

text \<open>
  The sign of a score change is inverted: for a borrower with a stored score and a delta
  that fits the band, the new score is the old score minus the delta, so the positive delta of
  a repayment lowers the score and the negative delta of a default raises it.
\<close>

theorem updateUserScoresBulk_sign_inverted:
  assumes "updateUserScoresBulk r updates st = Inr st'" "distinct (map fst updates)"
    and "(u, d) \<in> set updates" "u \<noteq> []" "fst st u = Some s" "-350 \<le> d" "d \<le> 200"
  shows "fst st' u = Some (clamp_score (s - d))"
proof -
  have "fst st' u = upsert_delta (u, d) (fst st) u"
    using updateUserScoresBulk_table [OF assms(1)] fold_upsert_row [OF score_rows_distinct [OF assms(2)]]
      assms(3,4) by (simp add: score_rows_mem)
  then show ?thesis using assms(5-7) by (simp add: upsert_delta_def clamp_score_id)
qed

theorem updateUserScoresBulk_sign_inverted_witness:
  "\<exists>st'. updateUserScoresBulk map_redis [(''u'', 15)]
       ([''u'' \<mapsto> 600], \<lparr>isConnected = True, server = (\<lambda>_. None)\<rparr>) = Inr st'
     \<and> fst st' ''u'' = Some 585"
proof -
  let ?st = "([''u'' \<mapsto> 600], \<lparr>isConnected = True, server = (\<lambda>_. None :: string option)\<rparr>)"
  obtain st' where st': "updateUserScoresBulk map_redis [(''u'', 15)] ?st = Inr st'"
    by (simp add: updateUserScoresBulk_def score_rows_def apply_deltas_def int4_def)
  have "fst st' ''u'' = Some (clamp_score (600 - 15))"
    by (rule updateUserScoresBulk_sign_inverted [OF st']) simp_all
  with st' show ?thesis by (simp add: clamp_score_def)
qed

subsection \<open>Absolute scores\<close>

lemma set_scores_row:
  assumes "set_scores scores t = Inr t'" "distinct (map fst scores)"
  shows "t' u = (case map_of (score_rows scores) u of Some s \<Rightarrow> Some s | None \<Rightarrow> t u)"
proof -
  have "distinct (map fst rows) \<Longrightarrow> fold (\<lambda>row t. t(fst row \<mapsto> snd row)) rows t u
      = (case map_of rows u of Some s \<Rightarrow> Some s | None \<Rightarrow> t u)" for rows :: "(string \<times> int) list" and t
  proof (induction rows arbitrary: t)
    case (Cons row rows)
    have "map_of rows (fst row) = None" using Cons.prems by (simp add: map_of_eq_None_iff)
    with Cons show ?case by (cases row) (auto split: option.splits)
  qed simp
  then show ?thesis
    using assms score_rows_distinct [OF assms(2)]
    by (auto simp: set_scores_def Let_def split: if_splits)
qed

text \<open>The cache entries of the borrowers are gone when Redis answers.\<close>

definition deletes_reliable :: "'s redis \<Rightarrow> bool" where
  "deletes_reliable r \<longleftrightarrow> (\<forall>s. fst (r_connect r s)) \<and> (\<forall>ks s. fst (r_del r ks s))"

lemma cache_delete_view:
  assumes "redis_ok r view" "deletes_reliable r"
  shows "cview view (cache_delete r k c) = (cview view c)(k := None)"
proof -
  obtain b c1 where e: "ensureConnected r c = (b, c1)" by (cases "ensureConnected r c")
  have "fst (ensureConnected r c)"
    using assms(2) by (cases "r_connect r (server c)")
      (auto simp: ensureConnected_def deletes_reliable_def split: bool.splits, metis fst_conv)
  then have b: b using e by simp
  have v: "cview view c1 = cview view c" using ensureConnected_view [OF assms(1), of c] e by simp
  have "view (snd (r_del r [k] (server c1))) = cview view c1 |` (- {k})"
    using redis_law_del [OF assms(1), of "[k]" "server c1"] assms(2) by (simp add: deletes_reliable_def)
  also have "\<dots> = (cview view c)(k := None)" by (auto simp: v restrict_map_def)
  finally show ?thesis by (simp add: cache_delete_def e b case_prod_beta)
qed

lemma drop_cached_scores_view:
  assumes "redis_ok r view" "deletes_reliable r"
  shows "cview view (drop_cached_scores r us c) k =
     (if k \<in> (\<lambda>u. ''score:userId:'' @ u) ` set us \<union> (\<lambda>u. ''score:breakdown:'' @ u) ` set us
      then None else cview view c k)"
  unfolding drop_cached_scores_def
  by (induction us arbitrary: c) (auto simp: cache_delete_view [OF assms])

text \<open>
  Reconciliation writes are exact: after \<open>setAbsoluteUserScoresBulk\<close> every borrower of the
  batch has the given score, unclamped, every other score is unchanged, and when Redis answers
  no cached score of the batch survives.
\<close>

theorem setAbsoluteUserScoresBulk_exact:
  assumes "setAbsoluteUserScoresBulk r scores st = Inr st'" "distinct (map fst scores)"
    and "redis_ok r view" "deletes_reliable r"
  shows "(\<forall>u s. (u, s) \<in> set scores \<longrightarrow> u \<noteq> [] \<longrightarrow> fst st' u = Some s
            \<and> cview view (snd st') (''score:userId:'' @ u) = None
            \<and> cview view (snd st') (''score:breakdown:'' @ u) = None)
     \<and> (\<forall>u. u \<notin> fst ` set scores \<longrightarrow> fst st' u = fst st u)"
proof (cases "score_rows scores = []")
  case True
  then have "fst st' = fst st" using assms(1) by (auto simp: setAbsoluteUserScoresBulk_def split: if_splits)
  moreover have "u = []" if "(u, s) \<in> set scores" for u s
    using score_rows_mem [of u s scores] True that by simp
  ultimately show ?thesis by auto
next
  case False
  then have ne: "scores \<noteq> []" by (auto simp: score_rows_def)
  then obtain t where t: "set_scores scores (fst st) = Inr t"
    and st': "st' = (t, drop_cached_scores r (map fst (score_rows scores)) (snd st))"
    using assms(1) False by (auto simp: setAbsoluteUserScoresBulk_def split: sum.splits)
  have rows: "(u, s) \<in> set scores \<Longrightarrow> u \<noteq> [] \<Longrightarrow> map_of (score_rows scores) u = Some s" for u s
    using score_rows_distinct [OF assms(2)] by (simp add: score_rows_mem)
  have none: "u \<notin> fst ` set scores \<Longrightarrow> map_of (score_rows scores) u = None" for u
    by (auto simp: map_of_eq_None_iff score_rows_def)
  have mem: "(u, s) \<in> set scores \<Longrightarrow> u \<noteq> [] \<Longrightarrow> u \<in> set (map fst (score_rows scores))" for u s
    using score_rows_mem [of u s scores] by force
  show ?thesis
    using set_scores_row [OF t assms(2)] rows none mem drop_cached_scores_view [OF assms(3,4)]
    by (simp add: st')
qed

theorem setAbsoluteUserScoresBulk_exact_witness:
  "\<exists>st'. setAbsoluteUserScoresBulk map_redis [(''u'', 900)]
       ([''u'' \<mapsto> 600], \<lparr>isConnected = True, server = [''score:userId:u'' \<mapsto> ''600'']\<rparr>) = Inr st'
     \<and> fst st' ''u'' = Some 900 \<and> server (snd st') ''score:userId:u'' = None"
proof -
  let ?st = "([''u'' \<mapsto> 600], \<lparr>isConnected = True, server = [''score:userId:u'' \<mapsto> ''600'']\<rparr>)"
  obtain st' where st': "setAbsoluteUserScoresBulk map_redis [(''u'', 900)] ?st = Inr st'"
    by (simp add: setAbsoluteUserScoresBulk_def score_rows_def set_scores_def int4_def)
  have "deletes_reliable map_redis" by (simp add: deletes_reliable_def map_redis_def)
  from setAbsoluteUserScoresBulk_exact [OF st' _ map_redis_ok this] st' show ?thesis by auto
qed

end
