(* ===== verification/ScoreReconciliation.thy ===== *)
theory ScoreReconciliation
  imports Scores "HOL-Library.List_Lexorder" "HOL-Library.Char_ord"
begin

section \<open>Score reconciliation (\<open>backend/src/services/scoreReconciliationService.ts\<close>)\<close>

text \<open>
  The job that compares the stored scores of borrowers with an active loan with the scores on
  chain, and overwrites the ones that drifted. The on-chain read is the parameter \<open>onChain\<close>
  (\<open>Inl\<close> when the RPC call is rejected); environment variables are a record of optional
  strings; log lines and job metrics are not modelled.
\<close>

subsection \<open>Configuration\<close>

definition parsePositiveInt :: "string option \<Rightarrow> int \<Rightarrow> int" where
  "parsePositiveInt value fallback =
     (case parseInt (case value of None \<Rightarrow> [] | Some s \<Rightarrow> s) of
        Some parsed \<Rightarrow> if 0 < parsed then parsed else fallback
      | None \<Rightarrow> fallback)"

definition parseNonNegativeInt :: "string option \<Rightarrow> int \<Rightarrow> int" where
  "parseNonNegativeInt value fallback =
     (case parseInt (case value of None \<Rightarrow> [] | Some s \<Rightarrow> s) of
        Some parsed \<Rightarrow> if 0 \<le> parsed then parsed else fallback
      | None \<Rightarrow> fallback)"

definition to_lower :: "char \<Rightarrow> char" where
  "to_lower c = (let n = (of_char c :: nat) in if 65 \<le> n \<and> n \<le> 90 then char_of (n + 32) else c)"

definition parseBoolean :: "string option \<Rightarrow> bool \<Rightarrow> bool" where
  "parseBoolean value fallback =
     (case value of
        None \<Rightarrow> fallback
      | Some s \<Rightarrow>
          (let normalized = map to_lower (trim s) in
           if normalized \<in> {''1'', ''true'', ''yes'', ''on''} then True
           else if normalized \<in> {''0'', ''false'', ''no'', ''off''} then False
           else fallback))"

function chunk_from :: "nat \<Rightarrow> 'a list \<Rightarrow> 'a list list" where
  "chunk_from n items =
     (if items = [] \<or> n = 0 then [] else take n items # chunk_from n (drop n items))"
  by pat_completeness auto
termination
  by (relation "measure (\<lambda>(n, items). length items)") auto

declare chunk_from.simps [simp del]

definition chunk :: "'a list \<Rightarrow> int \<Rightarrow> 'a list list" where
  "chunk items sz = (if sz \<le> 0 then [items] else chunk_from (nat sz) items)"

record recon_env =
  BATCH_SIZE :: "string option"
  MAX_BORROWERS_PER_RUN :: "string option"
  AUTOCORRECT_ENABLED :: "string option"
  AUTOCORRECT_THRESHOLD :: "string option"

definition getBatchSize :: "recon_env \<Rightarrow> int" where
  "getBatchSize env = parsePositiveInt (BATCH_SIZE env) 25"

definition getMaxBorrowersPerRun :: "recon_env \<Rightarrow> int" where
  "getMaxBorrowersPerRun env = parsePositiveInt (MAX_BORROWERS_PER_RUN env) 500"

definition isAutoCorrectEnabled :: "recon_env \<Rightarrow> bool" where
  "isAutoCorrectEnabled env = parseBoolean (AUTOCORRECT_ENABLED env) False"

definition getAutoCorrectThreshold :: "recon_env \<Rightarrow> int" where
  "getAutoCorrectThreshold env = parseNonNegativeInt (AUTOCORRECT_THRESHOLD env) 50"

subsection \<open>The borrowers to check\<close>

record ActiveBorrowerScoreRow =
  ab_address :: string
  ab_dbScore :: "int option"

text \<open>Loans approved for a known address and neither repaid nor defaulted.\<close>

definition active_loan :: "contract_event list \<Rightarrow> contract_event \<Rightarrow> bool" where
  "active_loan events approved \<longleftrightarrow>
     ce_event_type approved = ''LoanApproved'' \<and> ce_loan_id approved \<noteq> None
     \<and> ce_address approved \<noteq> None \<and> ce_address approved \<noteq> Some []
     \<and> \<not> (\<exists>e\<in>set events. ce_loan_id e = ce_loan_id approved
             \<and> (ce_event_type e = ''LoanRepaid'' \<or> ce_event_type e = ''LoanDefaulted''))"

definition active_addresses :: "contract_event list \<Rightarrow> string list" where
  "active_addresses events =
     sort (remdups (map (\<lambda>e. the (ce_address e)) (filter (active_loan events) events)))"

definition fetchActiveBorrowerScores ::
  "recon_env \<Rightarrow> contract_event list \<Rightarrow> scores_table \<Rightarrow> ActiveBorrowerScoreRow list" where
  "fetchActiveBorrowerScores env events scores =
     map (\<lambda>a. \<lparr>ab_address = a, ab_dbScore = scores a\<rparr>)
       (take (nat (getMaxBorrowersPerRun env)) (active_addresses events))"

subsection \<open>The run\<close>

record ScoreDivergence =
  sd_address :: string
  sd_dbScore :: "int option"
  sd_contractScore :: int
  sd_absoluteDifference :: "int option"

record ScoreReconciliationResult =
  activeBorrowerCount :: nat
  checkedBorrowerCount :: nat
  failedBorrowerCount :: nat
  divergenceCount :: nat
  correctedCount :: nat
  autoCorrectEnabled :: bool
  autoCorrectThreshold :: int
  divergences :: "ScoreDivergence list"

record recon_acc =
  ra_checked :: nat
  ra_failed :: nat
  ra_divergences :: "ScoreDivergence list"
  ra_corrections :: "(string \<times> int) list"

text \<open>\<open>Map.set\<close> on an association list.\<close>

fun map_set :: "'k \<Rightarrow> 'v \<Rightarrow> ('k \<times> 'v) list \<Rightarrow> ('k \<times> 'v) list" where
  "map_set k v [] = [(k, v)]"
| "map_set k v ((k', v') # m) = (if k' = k then (k, v) # m else (k', v') # map_set k v m)"

definition settle ::
  "bool \<Rightarrow> int \<Rightarrow> (string \<Rightarrow> string + int) \<Rightarrow> ActiveBorrowerScoreRow \<Rightarrow> recon_acc \<Rightarrow> recon_acc" where
  "settle enabled limit onChain row acc =
     (case onChain (ab_address row) of
        Inl reason \<Rightarrow> acc\<lparr>ra_failed := ra_failed acc + 1\<rparr>
      | Inr contractScore \<Rightarrow>
          (let absoluteDifference = map_option (\<lambda>d. \<bar>contractScore - d\<bar>) (ab_dbScore row);
               isDivergent = (ab_dbScore row \<noteq> Some contractScore);
               acc1 = acc\<lparr>ra_checked := ra_checked acc + 1\<rparr>
           in if \<not> isDivergent then acc1
              else
                let exceedsThreshold = (case absoluteDifference of None \<Rightarrow> True | Some d \<Rightarrow> limit \<le> d);
                    acc2 = acc1\<lparr>ra_divergences := ra_divergences acc1 @
                      [\<lparr>sd_address = ab_address row, sd_dbScore = ab_dbScore row,
                        sd_contractScore = contractScore, sd_absoluteDifference = absoluteDifference\<rparr>]\<rparr>
                in if enabled \<and> exceedsThreshold
                   then acc2\<lparr>ra_corrections := map_set (ab_address row) contractScore (ra_corrections acc2)\<rparr>
                   else acc2))"

definition reconcileActiveBorrowerScores ::
  "'s redis \<Rightarrow> recon_env \<Rightarrow> (string \<Rightarrow> string + int) \<Rightarrow> contract_event list
     \<Rightarrow> scores_table \<times> 's cache_service
     \<Rightarrow> db_error + ScoreReconciliationResult \<times> (scores_table \<times> 's cache_service)" where
  "reconcileActiveBorrowerScores r env onChain events st =
     (let activeBorrowers = fetchActiveBorrowerScores env events (fst st);
          enabled = isAutoCorrectEnabled env;
          limit = getAutoCorrectThreshold env;
          acc = fold (\<lambda>batch acc. fold (settle enabled limit onChain) batch acc)
                  (chunk activeBorrowers (getBatchSize env))
                  \<lparr>ra_checked = 0, ra_failed = 0, ra_divergences = [], ra_corrections = []\<rparr>;
          written = (if ra_corrections acc = [] then Inr st
                     else setAbsoluteUserScoresBulk r (ra_corrections acc) st)
      in case written of
           Inl e \<Rightarrow> Inl e
         | Inr st' \<Rightarrow>
             Inr (\<lparr>activeBorrowerCount = length activeBorrowers,
                   checkedBorrowerCount = ra_checked acc, failedBorrowerCount = ra_failed acc,
                   divergenceCount = length (ra_divergences acc),
                   correctedCount = length (ra_corrections acc),
                   autoCorrectEnabled = enabled, autoCorrectThreshold = limit,
                   divergences = ra_divergences acc\<rparr>, st'))"

subsection \<open>The scheduler\<close>

record recon_scheduler =
  reconciliationInterval :: bool
  reconciliationInFlight :: bool
  runs_active :: nat

definition run_begin :: "recon_scheduler \<Rightarrow> recon_scheduler" where
  "run_begin sc =
     (if reconciliationInFlight sc then sc
      else sc\<lparr>reconciliationInFlight := True, runs_active := runs_active sc + 1\<rparr>)"

definition run_end :: "recon_scheduler \<Rightarrow> recon_scheduler" where
  "run_end sc =
     (if runs_active sc = 0 then sc
      else sc\<lparr>reconciliationInFlight := False, runs_active := runs_active sc - 1\<rparr>)"

definition startScoreReconciliationScheduler ::
  "string option \<Rightarrow> string option \<Rightarrow> recon_scheduler \<Rightarrow> recon_scheduler" where
  "startScoreReconciliationScheduler node_env nft_contract sc =
     (if reconciliationInterval sc then sc
      else if node_env = Some ''test'' then sc
      else if nft_contract = None \<or> nft_contract = Some [] then sc
      else (run_begin sc)\<lparr>reconciliationInterval := True\<rparr>)"

definition stopScoreReconciliationScheduler :: "recon_scheduler \<Rightarrow> recon_scheduler" where
  "stopScoreReconciliationScheduler sc =
     (if reconciliationInterval sc then sc\<lparr>reconciliationInterval := False\<rparr> else sc)"

inductive sched_reach :: "recon_scheduler \<Rightarrow> bool" where
  idle: "sched_reach \<lparr>reconciliationInterval = False, reconciliationInFlight = False, runs_active = 0\<rparr>"
| tick: "sched_reach sc \<Longrightarrow> reconciliationInterval sc \<Longrightarrow> sched_reach (run_begin sc)"
| finish: "sched_reach sc \<Longrightarrow> sched_reach (run_end sc)"
| launch: "sched_reach sc \<Longrightarrow> sched_reach (startScoreReconciliationScheduler env c sc)"
| halt: "sched_reach sc \<Longrightarrow> sched_reach (stopScoreReconciliationScheduler sc)"


subsection \<open>Batches do not matter\<close>

lemma concat_chunk_from: "0 < n \<Longrightarrow> concat (chunk_from n items) = items"
proof (induction n items rule: chunk_from.induct)
  case (1 n items)
  then show ?case by (subst chunk_from.simps) simp
qed

lemma concat_chunk: "concat (chunk items sz) = items"
  by (simp add: chunk_def concat_chunk_from)

lemma fold_fold_concat: "fold (\<lambda>b acc. fold f b acc) bs acc = fold f (concat bs) acc"
  by (induction bs arbitrary: acc) simp_all

subsection \<open>What a run computes\<close>

definition needs_correction ::
  "bool \<Rightarrow> int \<Rightarrow> (string \<Rightarrow> string + int) \<Rightarrow> string \<Rightarrow> int option \<Rightarrow> bool" where
  "needs_correction enabled limit onChain a d \<longleftrightarrow>
     enabled \<and> (case onChain a of Inl _ \<Rightarrow> False
       | Inr s \<Rightarrow> d \<noteq> Some s \<and> (case d of None \<Rightarrow> True | Some v \<Rightarrow> limit \<le> \<bar>s - v\<bar>))"

lemma map_set_fresh: "k \<notin> fst ` set m \<Longrightarrow> map_set k v m = m @ [(k, v)]"
  by (induction k v m rule: map_set.induct) auto

lemma settle_corrections:
  assumes "ab_address row \<notin> fst ` set (ra_corrections acc)"
  shows "ra_corrections (settle enabled limit onChain row acc) = ra_corrections acc @
     (if needs_correction enabled limit onChain (ab_address row) (ab_dbScore row)
      then [(ab_address row, projr (onChain (ab_address row)))] else [])"
  using assms
  by (auto simp: settle_def needs_correction_def Let_def map_set_fresh split: sum.splits option.splits)

lemma settle_counts:
  "ra_checked (settle en thr onChain row acc) + ra_failed (settle en thr onChain row acc)
     = ra_checked acc + ra_failed acc + 1"
  "ra_divergences (settle en thr onChain row acc) = ra_divergences acc @
     (case onChain (ab_address row) of Inl _ \<Rightarrow> []
      | Inr s \<Rightarrow> if ab_dbScore row = Some s then []
               else [\<lparr>sd_address = ab_address row, sd_dbScore = ab_dbScore row, sd_contractScore = s,
                      sd_absoluteDifference = map_option (\<lambda>d. \<bar>s - d\<bar>) (ab_dbScore row)\<rparr>])"
  by (auto simp: settle_def Let_def split: sum.splits option.splits)

lemma fold_settle_counts:
  "ra_checked (fold (settle en thr onChain) rows acc) + ra_failed (fold (settle en thr onChain) rows acc)
     = ra_checked acc + ra_failed acc + length rows"
  by (induction rows arbitrary: acc) (simp_all add: settle_counts)

lemma fold_settle_corrections:
  assumes "distinct (map ab_address rows)" "fst ` set (ra_corrections acc) \<inter> ab_address ` set rows = {}"
  shows "ra_corrections (fold (settle en thr onChain) rows acc) = ra_corrections acc @
     map (\<lambda>row. (ab_address row, projr (onChain (ab_address row))))
       (filter (\<lambda>row. needs_correction en thr onChain (ab_address row) (ab_dbScore row)) rows)"
  using assms
proof (induction rows arbitrary: acc)
  case (Cons row rows)
  have fresh: "ab_address row \<notin> fst ` set (ra_corrections acc)" using Cons.prems by auto
  have "fst ` set (ra_corrections (settle en thr onChain row acc)) \<inter> ab_address ` set rows = {}"
    using Cons.prems unfolding settle_corrections [OF fresh] by auto
  with Cons.IH [of "settle en thr onChain row acc"] Cons.prems show ?case
    by (simp add: settle_corrections [OF fresh])
qed simp

lemma active_addresses_ok: "distinct (active_addresses events)" "[] \<notin> set (active_addresses events)"
  by (auto simp: active_addresses_def active_loan_def)

lemma fetch_distinct: "distinct (map ab_address (fetchActiveBorrowerScores env events scores))"
  by (simp add: fetchActiveBorrowerScores_def comp_def active_addresses_ok(1))

definition checked_window :: "recon_env \<Rightarrow> contract_event list \<Rightarrow> string list" where
  "checked_window env events = take (nat (getMaxBorrowersPerRun env)) (active_addresses events)"

definition corrections_of ::
  "recon_env \<Rightarrow> (string \<Rightarrow> string + int) \<Rightarrow> contract_event list \<Rightarrow> scores_table \<Rightarrow> (string \<times> int) list" where
  "corrections_of env onChain events scores =
     map (\<lambda>a. (a, projr (onChain a)))
       (filter (\<lambda>a. needs_correction (isAutoCorrectEnabled env) (getAutoCorrectThreshold env) onChain a (scores a))
         (checked_window env events))"

lemma run_corrections:
  "ra_corrections (fold (\<lambda>batch acc. fold (settle (isAutoCorrectEnabled env) (getAutoCorrectThreshold env) onChain) batch acc)
      (chunk (fetchActiveBorrowerScores env events scores) (getBatchSize env))
      \<lparr>ra_checked = 0, ra_failed = 0, ra_divergences = [], ra_corrections = []\<rparr>)
   = corrections_of env onChain events scores"
  by (simp add: fold_fold_concat concat_chunk fold_settle_corrections fetch_distinct)
    (simp add: corrections_of_def fetchActiveBorrowerScores_def checked_window_def filter_map comp_def)

lemma corrections_of_ok:
  "distinct (map fst (corrections_of env onChain events scores))"
  "score_rows (corrections_of env onChain events scores) = corrections_of env onChain events scores"
proof -
  have "distinct (checked_window env events)" "[] \<notin> set (checked_window env events)"
    using active_addresses_ok [of events] by (auto simp: checked_window_def dest: in_set_takeD)
  then show "distinct (map fst (corrections_of env onChain events scores))"
    "score_rows (corrections_of env onChain events scores) = corrections_of env onChain events scores"
    unfolding score_rows_def
    by (auto simp: corrections_of_def comp_def intro!: filter_True)
qed

lemma map_of_corrections:
  "map_of (corrections_of env onChain events scores) u =
     (if u \<in> set (checked_window env events)
         \<and> needs_correction (isAutoCorrectEnabled env) (getAutoCorrectThreshold env) onChain u (scores u)
      then Some (projr (onChain u)) else None)"
  by (auto simp: corrections_of_def map_of_map_restrict restrict_map_def)


text \<open>
  A reconciliation run checks every active borrower of its window exactly once, batch by
  batch, and writes exactly the scores it should: a borrower whose on-chain score was read,
  differs from the stored one and is unknown or off by at least the threshold gets the
  on-chain score when auto-correction is on; every other score is unchanged.
\<close>

theorem reconcile_writes_exactly:
  assumes "reconcileActiveBorrowerScores r env onChain events st = Inr (res, st')"
  shows "fst st' u =
       (if u \<in> set (checked_window env events)
           \<and> needs_correction (isAutoCorrectEnabled env) (getAutoCorrectThreshold env) onChain u (fst st u)
        then Some (projr (onChain u)) else fst st u)
     \<and> checkedBorrowerCount res + failedBorrowerCount res = activeBorrowerCount res
     \<and> activeBorrowerCount res = length (checked_window env events)
     \<and> correctedCount res = length (corrections_of env onChain events (fst st))"
proof -
  let ?cs = "corrections_of env onChain events (fst st)"
  let ?acc = "fold (\<lambda>batch acc. fold (settle (isAutoCorrectEnabled env) (getAutoCorrectThreshold env) onChain) batch acc)
      (chunk (fetchActiveBorrowerScores env events (fst st)) (getBatchSize env))
      \<lparr>ra_checked = 0, ra_failed = 0, ra_divergences = [], ra_corrections = []\<rparr>"
  have written: "(if ?cs = [] then Inr st else setAbsoluteUserScoresBulk r ?cs st) = Inr st'"
    and res: "checkedBorrowerCount res = ra_checked ?acc" "failedBorrowerCount res = ra_failed ?acc"
      "activeBorrowerCount res = length (fetchActiveBorrowerScores env events (fst st))"
      "correctedCount res = length ?cs"
    using assms unfolding reconcileActiveBorrowerScores_def Let_def run_corrections
    by (auto split: sum.splits)
  have counts: "ra_checked ?acc + ra_failed ?acc = length (fetchActiveBorrowerScores env events (fst st))"
    by (simp add: fold_fold_concat concat_chunk fold_settle_counts)
  have "fst st' u = (case map_of ?cs u of Some s \<Rightarrow> Some s | None \<Rightarrow> fst st u)"
  proof (cases "?cs = []")
    case True
    with written show ?thesis by simp
  next
    case False
    with written obtain t where "set_scores ?cs (fst st) = Inr t" "fst st' = t"
      by (auto simp: setAbsoluteUserScoresBulk_def corrections_of_ok(2) split: sum.splits)
    with set_scores_row corrections_of_ok show ?thesis by metis
  qed
  then show ?thesis
    using counts res by (simp add: map_of_corrections fetchActiveBorrowerScores_def checked_window_def)
qed

definition sample_event :: contract_event where
  "sample_event = \<lparr>ce_event_id = ''e1'', ce_event_type = ''LoanApproved'', ce_loan_id = Some 1,
     ce_address = Some ''G1'', ce_amount = None, ce_ledger = 5, ce_ledger_closed_at = 0,
     ce_tx_hash = ''t'', ce_contract_id = ''C'', ce_topics = [], ce_value = [],
     ce_interest_rate_bps = None, ce_term_ledgers = None\<rparr>"

theorem reconcile_writes_exactly_witness:
  "\<exists>res st'. reconcileActiveBorrowerScores map_redis
      \<lparr>BATCH_SIZE = None, MAX_BORROWERS_PER_RUN = None, AUTOCORRECT_ENABLED = Some ''on'',
       AUTOCORRECT_THRESHOLD = None\<rparr> (\<lambda>_. Inr 700) [sample_event]
      ([''G1'' \<mapsto> 600], \<lparr>isConnected = True, server = (\<lambda>_. None)\<rparr>) = Inr (res, st')
     \<and> fst st' ''G1'' = Some 700"
proof -
  let ?env = "\<lparr>BATCH_SIZE = None, MAX_BORROWERS_PER_RUN = None, AUTOCORRECT_ENABLED = Some ''on'',
     AUTOCORRECT_THRESHOLD = None\<rparr>"
  let ?st = "([''G1'' \<mapsto> 600], \<lparr>isConnected = True, server = (\<lambda>_. None :: string option)\<rparr>)"
  have env: "getMaxBorrowersPerRun ?env = 500" "isAutoCorrectEnabled ?env" "getAutoCorrectThreshold ?env = 50"
    by (simp_all add: getMaxBorrowersPerRun_def isAutoCorrectEnabled_def getAutoCorrectThreshold_def
        parsePositiveInt_def parseNonNegativeInt_def parseBoolean_def parseInt_def trim_def js_space_def
        to_lower_def)
  have window: "checked_window ?env [sample_event] = [''G1'']"
    by (simp add: checked_window_def env active_addresses_def active_loan_def sample_event_def)
  have need: "needs_correction True 50 (\<lambda>_. Inr 700) ''G1'' (Some 600)"
    by (simp add: needs_correction_def)
  have cs: "corrections_of ?env (\<lambda>_. Inr 700) [sample_event] [''G1'' \<mapsto> 600] = [(''G1'', 700)]"
    using need by (simp add: corrections_of_def window env)
  obtain res st' where run: "reconcileActiveBorrowerScores map_redis ?env (\<lambda>_. Inr 700) [sample_event] ?st
      = Inr (res, st')"
    unfolding reconcileActiveBorrowerScores_def Let_def run_corrections fst_conv cs
    by (auto simp: setAbsoluteUserScoresBulk_def score_rows_def set_scores_def int4_def)
  from reconcile_writes_exactly [OF run, of "''G1''"] need have "fst st' ''G1'' = Some 700"
    by (simp add: window env)
  with run show ?thesis by blast
qed

text \<open>
  The scheduler never has two reconciliation runs in flight, whatever the order of timer
  ticks, completions, starts and stops.
\<close>

theorem reconciliation_not_reentrant:
  assumes "sched_reach sc"
  shows "runs_active sc \<le> 1"
proof -
  have "runs_active sc \<le> 1 \<and> (reconciliationInFlight sc \<longleftrightarrow> runs_active sc = 1)"
    using assms
    by (induction rule: sched_reach.induct)
      (auto simp: run_begin_def run_end_def startScoreReconciliationScheduler_def
        stopScoreReconciliationScheduler_def)
  then show ?thesis by simp
qed

theorem reconciliation_not_reentrant_witness:
  "runs_active (run_begin (startScoreReconciliationScheduler None (Some ''C'')
     \<lparr>reconciliationInterval = False, reconciliationInFlight = False, runs_active = 0\<rparr>)) \<le> 1"
  by (rule reconciliation_not_reentrant, rule sched_reach.tick, rule sched_reach.launch, rule sched_reach.idle)
    (simp add: startScoreReconciliationScheduler_def)

end
