(* ===== verification/ScoreDecay.thy ===== *)
theory ScoreDecay
  imports ScoreReconciliation
begin

section \<open>Score decay (\<open>backend/src/services/scoreDecayService.ts\<close>)\<close>

text \<open>
  Exponential decay of the scores of inactive borrowers, the audit rows it leaves, and the
  backfill of those rows from the indexed events. \<open>Math.log\<close>, \<open>Math.exp\<close> and division are
  the real functions: the rounding of IEEE doubles is not modelled. Timestamps are
  milliseconds; \<open>month_ago\<close> is the database's \<open>NOW() - INTERVAL '1 month'\<close>.
\<close>

definition MIN_SCORE :: int where "MIN_SCORE = 300"
definition MAX_SCORE :: int where "MAX_SCORE = 850"
definition DEFAULT_HALF_LIFE_DAYS :: int where "DEFAULT_HALF_LIFE_DAYS = 30"
definition DEFAULT_PENALTY_HALF_LIFE_DAYS :: int where "DEFAULT_PENALTY_HALF_LIFE_DAYS = 90"

record decay_env =
  HALF_LIFE_REPAID :: "string option"
  HALF_LIFE_APPROVED :: "string option"
  HALF_LIFE_DEFAULTED :: "string option"

definition env_half_life :: "string option \<Rightarrow> int \<Rightarrow> int" where
  "env_half_life v dflt =
     (case parseInt (case v of None \<Rightarrow> [] | Some s \<Rightarrow> s) of
        None \<Rightarrow> dflt
      | Some n \<Rightarrow> if n = 0 then dflt else n)"

definition HALF_LIFE_BY_EVENT :: "decay_env \<Rightarrow> string \<Rightarrow> int option" where
  "HALF_LIFE_BY_EVENT env =
     [''LoanRepaid'' \<mapsto> env_half_life (HALF_LIFE_REPAID env) DEFAULT_HALF_LIFE_DAYS,
      ''LoanApproved'' \<mapsto> env_half_life (HALF_LIFE_APPROVED env) DEFAULT_HALF_LIFE_DAYS,
      ''LoanDefaulted'' \<mapsto> env_half_life (HALF_LIFE_DEFAULTED env) DEFAULT_PENALTY_HALF_LIFE_DAYS,
      ''default'' \<mapsto> DEFAULT_HALF_LIFE_DAYS]"

definition getHalfLifeForEvent :: "decay_env \<Rightarrow> string \<Rightarrow> int" where
  "getHalfLifeForEvent env eventType =
     (case HALF_LIFE_BY_EVENT env eventType of
        Some h \<Rightarrow> h
      | None \<Rightarrow> the (HALF_LIFE_BY_EVENT env ''default''))"

datatype decay_error = HalfLifeNotPositive

definition lambdaForHalfLife :: "real \<Rightarrow> decay_error + real" where
  "lambdaForHalfLife halfLifeDays =
     (if halfLifeDays \<le> 0 then Inl HalfLifeNotPositive else Inr (ln 2 / halfLifeDays))"

definition math_round :: "real \<Rightarrow> int" where
  "math_round x = \<lfloor>x + 1 / 2\<rfloor>"

definition decayedScore :: "real \<Rightarrow> real \<Rightarrow> real \<Rightarrow> decay_error + int" where
  "decayedScore initialScore daysSinceEvent halfLifeDays =
     (if daysSinceEvent \<le> 0 then Inr (math_round initialScore)
      else case lambdaForHalfLife halfLifeDays of
             Inl e \<Rightarrow> Inl e
           | Inr lam \<Rightarrow>
               Inr (max MIN_SCORE (math_round (initialScore * exp (- lam * daysSinceEvent)))))"

definition decayFactor :: "real \<Rightarrow> real \<Rightarrow> decay_error + real" where
  "decayFactor daysSinceEvent halfLifeDays =
     (if daysSinceEvent \<le> 0 then Inr 1
      else case lambdaForHalfLife halfLifeDays of
             Inl e \<Rightarrow> Inl e
           | Inr lam \<Rightarrow> Inr (exp (- lam * daysSinceEvent)))"

subsection \<open>Inactive borrowers and decay rows\<close>

record InactiveBorrower =
  ib_borrower :: string
  ib_score :: int
  ib_last_repayment :: "int option"
  ib_last_event_type :: "string option"

record DecayEvent =
  de_borrower :: string
  de_event_type :: string
  de_event_timestamp :: int
  de_initial_score :: int
  de_half_life_days :: int

definition decay_type :: "string \<Rightarrow> bool" where
  "decay_type t \<longleftrightarrow> t = ''LoanRepaid'' \<or> t = ''LoanApproved'' \<or> t = ''LoanDefaulted''"

definition borrower_events :: "contract_event list \<Rightarrow> string \<Rightarrow> contract_event list" where
  "borrower_events events b =
     filter (\<lambda>e. ce_address e = Some b \<and> decay_type (ce_event_type e)) events"

text \<open>\<open>borrowers\<close> are the rows of \<open>scores\<close>, in the order the database returns them.\<close>

definition getInactiveBorrowers ::
  "int \<Rightarrow> contract_event list \<Rightarrow> string list \<Rightarrow> scores_table \<Rightarrow> InactiveBorrower list" where
  "getInactiveBorrowers month_ago events borrowers scores =
     filter (\<lambda>ib. case ib_last_repayment ib of None \<Rightarrow> True | Some t \<Rightarrow> t < month_ago)
       (map (\<lambda>b.
          let es = borrower_events events b;
              newest = rev (sort_key ce_ledger_closed_at es)
          in \<lparr>ib_borrower = b, ib_score = the (scores b),
              ib_last_repayment = (if es = [] then None else Some (ce_ledger_closed_at (hd newest))),
              ib_last_event_type = (if es = [] then None else Some (ce_event_type (hd newest)))\<rparr>)
         borrowers)"

definition decay_key :: "DecayEvent \<Rightarrow> string \<times> string \<times> int" where
  "decay_key d = (de_borrower d, de_event_type d, de_event_timestamp d)"

definition recordDecayEvent :: "DecayEvent \<Rightarrow> DecayEvent list \<Rightarrow> DecayEvent list" where
  "recordDecayEvent d tbl = (if decay_key d \<in> decay_key ` set tbl then tbl else tbl @ [d])"

definition backfill_row :: "scores_table \<Rightarrow> contract_event \<Rightarrow> DecayEvent" where
  "backfill_row scores ce =
     \<lparr>de_borrower = the (ce_address ce), de_event_type = ce_event_type ce,
      de_event_timestamp = ce_ledger_closed_at ce,
      de_initial_score = (case scores (the (ce_address ce)) of None \<Rightarrow> 600 | Some s \<Rightarrow> s),
      de_half_life_days = (if ce_event_type ce = ''LoanDefaulted'' then DEFAULT_PENALTY_HALF_LIFE_DAYS
                           else DEFAULT_HALF_LIFE_DAYS)\<rparr>"

definition backfillDecayEvents ::
  "contract_event list \<Rightarrow> scores_table \<Rightarrow> DecayEvent list \<Rightarrow> nat \<times> DecayEvent list" where
  "backfillDecayEvents events scores tbl =
     (let wanted = filter (\<lambda>ce. decay_type (ce_event_type ce) \<and> ce_address ce \<noteq> None
              \<and> decay_key (backfill_row scores ce) \<notin> decay_key ` set tbl) events;
          tbl' = fold (\<lambda>ce. recordDecayEvent (backfill_row scores ce)) wanted tbl
      in (length tbl' - length tbl, tbl'))"

text \<open>
  \<open>applyScoreDecay\<close>: the new score is stored, then the audit row is inserted; \<open>logged\<close> is
  False when that insert fails, which the code ignores.
\<close>

definition days_since :: "int \<Rightarrow> int option \<Rightarrow> real" where
  "days_since now lastRepayment =
     (case lastRepayment of
        None \<Rightarrow> 30
      | Some t \<Rightarrow> max 0 (real_of_int (now - t) / (24 * 60 * 60 * 1000)))"

definition applyScoreDecay ::
  "decay_env \<Rightarrow> int \<Rightarrow> bool \<Rightarrow> InactiveBorrower \<Rightarrow> scores_table \<times> DecayEvent list
     \<Rightarrow> decay_error + int \<times> (scores_table \<times> DecayEvent list)" where
  "applyScoreDecay env now logged b st =
     (let eventType = (case ib_last_event_type b of None \<Rightarrow> ''default'' | Some t \<Rightarrow> t);
          halfLife = getHalfLifeForEvent env eventType
      in case decayedScore (real_of_int (ib_score b)) (days_since now (ib_last_repayment b))
                (real_of_int halfLife) of
           Inl e \<Rightarrow> Inl e
         | Inr newScore \<Rightarrow>
             (let scores = (if fst st (ib_borrower b) = None then fst st
                            else (fst st)(ib_borrower b \<mapsto> newScore));
                  d = \<lparr>de_borrower = ib_borrower b, de_event_type = ''decay:'' @ eventType,
                       de_event_timestamp = now, de_initial_score = ib_score b,
                       de_half_life_days = halfLife\<rparr>
              in Inr (newScore, scores, if logged then recordDecayEvent d (snd st) else snd st)))"

subsection \<open>Properties\<close>

lemma math_round_mono: "x \<le> y \<Longrightarrow> math_round x \<le> math_round y"
  by (simp add: math_round_def floor_mono)

lemma math_round_int [simp]: "math_round (real_of_int n) = n"
  by (simp add: math_round_def floor_eq_iff)

lemma decayedScore_powr:
  "0 < h \<Longrightarrow> 0 < d \<Longrightarrow> decayedScore s d h = Inr (max MIN_SCORE (math_round (s * 2 powr (- d / h))))"
  by (simp add: decayedScore_def lambdaForHalfLife_def powr_def mult.commute)

text \<open>
  With a positive half-life decay always returns a score, never raises it, never takes it
  below the minimum, and a longer time never leaves a higher score; after exactly one
  half-life the score is half, or the minimum.
\<close>

theorem decayedScore_decays:
  assumes "0 < h" "0 < d" "d \<le> d'" "300 \<le> s"
  shows "\<exists>n n'. decayedScore (real_of_int s) d h = Inr n \<and> decayedScore (real_of_int s) d' h = Inr n'
     \<and> 300 \<le> n' \<and> n' \<le> n \<and> n \<le> s
     \<and> decayedScore (real_of_int s) h h = Inr (max 300 (math_round (real_of_int s / 2)))"
proof -
  let ?f = "\<lambda>d. max MIN_SCORE (math_round (real_of_int s * 2 powr (- d / h)))"
  have "2 powr (- d / h) \<le> (1::real)"
    using assms powr_mono [of "- d / h" 0 2] by simp
  then have "real_of_int s * 2 powr (- d / h) \<le> real_of_int s"
    using assms(4) by (simp add: mult_left_le)
  from math_round_mono [OF this] have top: "?f d \<le> s" using assms(4) by (simp add: MIN_SCORE_def)
  have "2 powr (- d' / h) \<le> (2::real) powr (- d / h)"
    using assms by (intro powr_mono) (simp_all add: divide_right_mono)
  then have "math_round (real_of_int s * 2 powr (- d' / h)) \<le> math_round (real_of_int s * 2 powr (- d / h))"
    using assms(4) by (intro math_round_mono mult_left_mono) simp_all
  then have "?f d' \<le> ?f d" by auto
  moreover have "2 powr (- h / h) = (1/2 :: real)" using assms(1) by (simp add: powr_minus)
  ultimately show ?thesis
    using assms top decayedScore_powr [of h d s] decayedScore_powr [of h d' s] decayedScore_powr [of h h s]
    by (intro exI [of _ "?f d"] exI [of _ "?f d'"] conjI) (auto simp: MIN_SCORE_def)
qed

theorem decayedScore_decays_witness:
  "\<exists>n n'. decayedScore 800 30 30 = Inr n \<and> decayedScore 800 60 30 = Inr n' \<and> 300 \<le> n' \<and> n' \<le> n \<and> n \<le> 800"
  using decayedScore_decays [of 30 30 60 800] by fastforce

lemma recordDecayEvent_distinct:
  "distinct (map decay_key tbl) \<Longrightarrow> distinct (map decay_key (recordDecayEvent d tbl))"
  by (auto simp: recordDecayEvent_def)

lemma recordDecayEvent_keys: "decay_key ` set (recordDecayEvent d tbl) = insert (decay_key d) (decay_key ` set tbl)"
  by (auto simp: recordDecayEvent_def)

lemma fold_record:
  "decay_key ` set (fold (\<lambda>ce. recordDecayEvent (g ce)) ces tbl) = decay_key ` set tbl \<union> (decay_key \<circ> g) ` set ces"
  "distinct (map decay_key tbl) \<Longrightarrow> distinct (map decay_key (fold (\<lambda>ce. recordDecayEvent (g ce)) ces tbl))"
  by (induction ces arbitrary: tbl) (auto simp: recordDecayEvent_keys recordDecayEvent_distinct)

text \<open>
  The backfill is complete and idempotent: afterwards every indexed score event of a known
  address has a decay row, no (borrower, type, timestamp) occurs twice, and running it again
  inserts nothing.
\<close>

theorem backfillDecayEvents_complete:
  assumes "distinct (map decay_key tbl)" and "backfillDecayEvents events scores tbl = (n, tbl')"
  shows "distinct (map decay_key tbl')
     \<and> (\<forall>ce\<in>set events. decay_type (ce_event_type ce) \<and> ce_address ce \<noteq> None \<longrightarrow>
          decay_key (backfill_row scores ce) \<in> decay_key ` set tbl')
     \<and> backfillDecayEvents events scores tbl' = (0, tbl')"
proof -
  let ?w = "\<lambda>t. filter (\<lambda>ce. decay_type (ce_event_type ce) \<and> ce_address ce \<noteq> None
              \<and> decay_key (backfill_row scores ce) \<notin> decay_key ` set t) events"
  have t: "tbl' = fold (\<lambda>ce. recordDecayEvent (backfill_row scores ce)) (?w tbl) tbl"
    using assms(2) by (simp add: backfillDecayEvents_def Let_def)
  have keys: "decay_key ` set tbl' = decay_key ` set tbl \<union> (decay_key \<circ> backfill_row scores) ` set (?w tbl)"
    unfolding t by (rule fold_record(1))
  then have all: "\<forall>ce\<in>set events. decay_type (ce_event_type ce) \<and> ce_address ce \<noteq> None \<longrightarrow>
      decay_key (backfill_row scores ce) \<in> decay_key ` set tbl'" by auto
  then have "?w tbl' = []" by (auto simp: filter_empty_conv)
  then have "backfillDecayEvents events scores tbl' = (0, tbl')"
    unfolding backfillDecayEvents_def Let_def by simp
  with all fold_record(2) [OF assms(1)] show ?thesis by (simp add: t)
qed

theorem backfillDecayEvents_complete_witness:
  "snd (backfillDecayEvents [sample_event] (\<lambda>_. None) []) =
     [\<lparr>de_borrower = ''G1'', de_event_type = ''LoanApproved'', de_event_timestamp = 0,
       de_initial_score = 600, de_half_life_days = 30\<rparr>]
   \<and> backfillDecayEvents [sample_event] (\<lambda>_. None)
       (snd (backfillDecayEvents [sample_event] (\<lambda>_. None) []))
     = (0, snd (backfillDecayEvents [sample_event] (\<lambda>_. None) []))"
proof -
  have "backfillDecayEvents [sample_event] (\<lambda>_. None) [] = (1,
      [\<lparr>de_borrower = ''G1'', de_event_type = ''LoanApproved'', de_event_timestamp = 0,
        de_initial_score = 600, de_half_life_days = 30\<rparr>])" (is "?l = ?r")
    by (simp add: backfillDecayEvents_def sample_event_def decay_type_def recordDecayEvent_def
        backfill_row_def DEFAULT_HALF_LIFE_DAYS_def)
  with backfillDecayEvents_complete [of "[]" "[sample_event]" "\<lambda>_. None"] show ?thesis by simp
qed

text \<open>
  Decay compounds: the stored score is the input of the next run while the age still
  counts from the last event, so two runs at one instant, one half-life after the event, leave
  a quarter of the score (or the minimum) instead of half.
\<close>

theorem applyScoreDecay_compounds:
  assumes "fst st (ib_borrower b) = Some (ib_score b)" "ib_last_repayment b = Some t"
    and "0 < getHalfLifeForEvent env (case ib_last_event_type b of None \<Rightarrow> ''default'' | Some x \<Rightarrow> x)"
    and "now - t = getHalfLifeForEvent env (case ib_last_event_type b of None \<Rightarrow> ''default'' | Some x \<Rightarrow> x)
           * (24 * 60 * 60 * 1000)"
    and "ib_score b = 4 * q" "150 \<le> q"
  shows "\<exists>st'. applyScoreDecay env now logged b st = Inr (2 * q, st')
     \<and> fst st' (ib_borrower b) = Some (2 * q)
     \<and> (\<exists>st''. applyScoreDecay env now logged (b\<lparr>ib_score := 2 * q\<rparr>) st' = Inr (max 300 q, st''))"
proof -
  let ?h = "getHalfLifeForEvent env (case ib_last_event_type b of None \<Rightarrow> ''default'' | Some x \<Rightarrow> x)"
  have days: "days_since now (Some t) = real_of_int ?h"
    using assms(3,4) by (simp add: days_since_def)
  have half: "decayedScore (real_of_int (2 * n)) (real_of_int ?h) (real_of_int ?h) = Inr (max 300 n)" for n
    using decayedScore_powr [of "real_of_int ?h" "real_of_int ?h" "real_of_int (2 * n)"] assms(3)
    by (simp add: powr_minus MIN_SCORE_def)
  from half [of "2 * q"] half [of q] show ?thesis
    using assms(1,2,5,6) by (simp add: applyScoreDecay_def Let_def days)
qed

theorem applyScoreDecay_compounds_witness:
  "\<exists>st'. applyScoreDecay \<lparr>HALF_LIFE_REPAID = None, HALF_LIFE_APPROVED = None, HALF_LIFE_DEFAULTED = None\<rparr>
       2592000000 True \<lparr>ib_borrower = ''G'', ib_score = 800, ib_last_repayment = Some 0,
         ib_last_event_type = None\<rparr> ([''G'' \<mapsto> 800], []) = Inr (400, st')"
proof -
  let ?env = "\<lparr>HALF_LIFE_REPAID = None, HALF_LIFE_APPROVED = None, HALF_LIFE_DEFAULTED = None\<rparr>"
  have "getHalfLifeForEvent ?env ''default'' = 30"
    by (simp add: getHalfLifeForEvent_def HALF_LIFE_BY_EVENT_def DEFAULT_HALF_LIFE_DAYS_def)
  with applyScoreDecay_compounds [of "([''G'' \<mapsto> 800], [])"
      "\<lparr>ib_borrower = ''G'', ib_score = 800, ib_last_repayment = Some 0, ib_last_event_type = None\<rparr>"
      0 ?env 2592000000 200 True]
  show ?thesis by auto
qed

end
