(* ===== verification/Interfaces.thy ===== *)
theory Interfaces
  imports Prelude
begin

section \<open>Interfaces between components\<close>

text \<open>
  The contracts several components share, as locales. Each is interpreted on the model of the
  code in the theory of the component that provides it, and the lemmas proved here once are
  then facts about that component.
\<close>

subsection \<open>Rows with final states\<close>

text \<open>
  A table whose rows reach a final state: a transition keeps the component's invariant and
  never removes or changes a final row.
\<close>

locale row_lifecycle =
  fixes table :: "'db \<Rightarrow> 'row list"
    and final :: "'row \<Rightarrow> bool"
    and inv :: "'db \<Rightarrow> bool"
    and step :: "'db \<Rightarrow> 'db \<Rightarrow> bool"
  assumes step_inv: "inv db \<Longrightarrow> step db db' \<Longrightarrow> inv db'"
    and step_final: "inv db \<Longrightarrow> step db db' \<Longrightarrow> row \<in> set (table db) \<Longrightarrow> final row \<Longrightarrow>
      row \<in> set (table db')"
begin

lemma steps_inv: "step\<^sup>*\<^sup>* db db' \<Longrightarrow> inv db \<Longrightarrow> inv db'"
  by (induction rule: rtranclp_induct) (auto intro: step_inv)

lemma final_forever:
  assumes "step\<^sup>*\<^sup>* db db'" "inv db" "row \<in> set (table db)" "final row"
  shows "row \<in> set (table db')"
  using assms(1)
proof (induction rule: rtranclp_induct)
  case base
  show ?case by (rule assms(3))
next
  case (step d d')
  then show ?case using step_final [OF steps_inv [OF step.hyps(1) assms(2)]] assms(4) by blast
qed

end

subsection \<open>Append-only logs\<close>

text \<open>
  A log next to the data it reports on: writing an entry appends it or, when the write fails,
  does nothing, and never touches the data.
\<close>

locale append_log =
  fixes log_entry :: "'e \<Rightarrow> 'db \<Rightarrow> 'db"
    and trail :: "'db \<Rightarrow> 'e list"
    and data :: "'db \<Rightarrow> 'd"
  assumes trail_grows: "trail (log_entry e db) = trail db @ [e] \<or> trail (log_entry e db) = trail db"
    and data_kept: "data (log_entry e db) = data db"
begin

definition extends :: "'db \<Rightarrow> 'db \<Rightarrow> bool" where
  "extends db db' \<longleftrightarrow> (\<exists>es. trail db' = trail db @ es)"

lemma extends_refl: "extends db db"
  by (simp add: extends_def)

lemma extends_trans: "extends a b \<Longrightarrow> extends b c \<Longrightarrow> extends a c"
  by (auto simp: extends_def)

lemma extends_log: "extends db (log_entry e db)"
  using trail_grows [of e db] by (auto simp: extends_def)

lemma fold_log: "extends db (fold log_entry es db) \<and> data (fold log_entry es db) = data db"
  by (induction es arbitrary: db)
    (auto simp: extends_refl data_kept intro: extends_trans [OF extends_log])

end

end
