(* ===== verification/AgentFloat.thy ===== *)
theory AgentFloat
  imports Money Interfaces Db
begin

section \<open>Agent float transfers (\<open>backend/src/services/agentFloatService.ts\<close>)\<close>

text \<open>
  Transfers of float between agents: pair limits, initiation, the two-approval workflow,
  rejection, and the read endpoints. Requests are taken one at a time. Amounts are exact
  rationals (a JavaScript number on the way in, a \<open>numeric\<close> column at rest). The environment
  record holds what is outside the service: the clock, whether the limits query and the audit
  insert succeed, which of the other statements of the request fail (\<open>fe_fails\<close>), the Soroban
  transaction builder, how Postgres prints a \<open>numeric\<close>, and whether \<open>agent_float_transfers\<close> has
  the \<open>error_message\<close> column that \<open>approveTransfer\<close> writes. No request runs in a transaction, so
  one that fails part way keeps what it wrote: the operations that write twice return the tables
  with an error too. The two read endpoints are given for queries that succeed.
\<close>

subsection \<open>Rows and errors\<close>

datatype transfer_status = PENDING_APPROVAL | COMPLETED | REJECTED | CANCELLED | FAILED

record AgentFloatTransferRow =
  tr_id :: string
  tr_from_agent :: string
  tr_to_agent :: string
  tr_amount :: rat
  tr_reason :: "string option"
  tr_status :: transfer_status
  tr_required_approvals :: nat
  tr_approval_count :: nat
  tr_created_by :: string
  tr_created_at :: int

record TransferApprovalRow =
  ap_transfer_id :: string
  ap_approver :: string
  ap_role :: string

datatype pval = PStr string | PNum rat | PNat nat | PBool bool | PUndefined

record float_audit =
  fa_actor :: string
  fa_action :: string
  fa_target :: string
  fa_payload :: "(string \<times> pval) list"
  fa_status :: nat

record float_db =
  pair_limits :: "string \<times> string \<Rightarrow> (rat \<times> rat) option"
  transfers :: "AgentFloatTransferRow list"
  approvals :: "TransferApprovalRow list"
  audit_trail :: "float_audit list"

datatype float_error = BadRequest string | Forbidden string | NotFound string | QueryFailed string

datatype float_query =
    SelectDaily | SelectWeekly | UpsertLimits | SelectTransfer | InsertTransfer | SelectApproval
  | InsertApproval | UpdateTransfer | SelectApprovals

record float_env =
  fe_now :: int
  fe_transferId :: string
  fe_limits_readable :: bool
  fe_audit_writable :: bool
  fe_fails :: "float_query \<Rightarrow> string option"
  fe_error_column :: bool
  fe_vault_configured :: bool
  fe_build_tx :: "string \<Rightarrow> string \<Rightarrow> int \<Rightarrow> string + string"
  fe_numeric_text :: "rat \<Rightarrow> string"
  fe_money_message :: "MoneyError \<Rightarrow> string"

definition DEFAULT_DAILY_LIMIT :: rat where "DEFAULT_DAILY_LIMIT = 100000"
definition DEFAULT_WEEKLY_LIMIT :: rat where "DEFAULT_WEEKLY_LIMIT = 500000"

definition is_admin :: "string option \<Rightarrow> bool" where
  "is_admin userRole \<longleftrightarrow> userRole = Some ''admin'' \<or> userRole = Some ''super_admin''"

subsection \<open>Operations\<close>

definition logAudit :: "bool \<Rightarrow> float_audit \<Rightarrow> float_db \<Rightarrow> float_db" where
  "logAudit writable entry db =
     (if writable then db\<lparr>audit_trail := audit_trail db @ [entry]\<rparr> else db)"

definition getPairLimits :: "float_env \<Rightarrow> string \<Rightarrow> string \<Rightarrow> float_db \<Rightarrow> rat \<times> rat" where
  "getPairLimits env fromAgent toAgent db =
     (if fe_limits_readable env
      then (case pair_limits db (fromAgent, toAgent) of
              Some l \<Rightarrow> l
            | None \<Rightarrow> (DEFAULT_DAILY_LIMIT, DEFAULT_WEEKLY_LIMIT))
      else (DEFAULT_DAILY_LIMIT, DEFAULT_WEEKLY_LIMIT))"

record SetLimitsInput =
  sl_fromAgent :: string
  sl_toAgent :: string
  sl_dailyLimit :: rat
  sl_weeklyLimit :: rat
  sl_updatedBy :: string

definition setPairLimits :: "float_env \<Rightarrow> SetLimitsInput \<Rightarrow> float_db \<Rightarrow> float_error + float_db" where
  "setPairLimits env input db =
     (if sl_fromAgent input = sl_toAgent input then Inl (BadRequest ''same agents'')
      else if sl_dailyLimit input \<le> 0 \<or> sl_weeklyLimit input \<le> 0 then Inl (BadRequest ''limits'')
      else case fe_fails env UpsertLimits of
        Some code \<Rightarrow> Inl (QueryFailed code)
      | None \<Rightarrow>
        let db1 = db\<lparr>pair_limits := (pair_limits db)((sl_fromAgent input, sl_toAgent input)
                       \<mapsto> (sl_dailyLimit input, sl_weeklyLimit input))\<rparr>
        in Inr (logAudit (fe_audit_writable env)
             \<lparr>fa_actor = sl_updatedBy input, fa_action = ''AGENT_FLOAT_TRANSFER_LIMITS_UPDATED'',
              fa_target = ''Pair:'' @ sl_fromAgent input @ ''->'' @ sl_toAgent input,
              fa_payload = [(''dailyLimit'', PNum (sl_dailyLimit input)),
                            (''weeklyLimit'', PNum (sl_weeklyLimit input))],
              fa_status = 200\<rparr> db1))"

text \<open>\<open>SUM(amount)\<close> over the live transfers of a pair created since a point in time.\<close>

definition counts_towards :: "string \<Rightarrow> string \<Rightarrow> int \<Rightarrow> AgentFloatTransferRow \<Rightarrow> bool" where
  "counts_towards fromAgent toAgent since t \<longleftrightarrow>
     tr_from_agent t = fromAgent \<and> tr_to_agent t = toAgent
     \<and> (tr_status t = PENDING_APPROVAL \<or> tr_status t = COMPLETED) \<and> since \<le> tr_created_at t"

definition pair_total :: "string \<Rightarrow> string \<Rightarrow> int \<Rightarrow> float_db \<Rightarrow> rat" where
  "pair_total fromAgent toAgent since db =
     sum_list (map tr_amount (filter (counts_towards fromAgent toAgent since) (transfers db)))"

definition day_ms :: int where "day_ms = 24 * 60 * 60 * 1000"

definition checkLimits ::
  "float_env \<Rightarrow> string \<Rightarrow> string \<Rightarrow> rat \<Rightarrow> float_db \<Rightarrow> float_error option" where
  "checkLimits env fromAgent toAgent amount db =
     (let limits = getPairLimits env fromAgent toAgent db in
      case fe_fails env SelectDaily of
        Some code \<Rightarrow> Some (QueryFailed code)
      | None \<Rightarrow>
          if fst limits < pair_total fromAgent toAgent (fe_now env - day_ms) db + amount
          then Some (BadRequest ''daily limit'')
          else case fe_fails env SelectWeekly of
              Some code \<Rightarrow> Some (QueryFailed code)
            | None \<Rightarrow>
                if snd limits < pair_total fromAgent toAgent (fe_now env - 7 * day_ms) db + amount
                then Some (BadRequest ''weekly limit'')
                else None)"

record InitiateTransferInput =
  it_fromAgent :: string
  it_toAgent :: string
  it_amount :: rat
  it_reason :: "string option"
  it_createdBy :: string
  it_userRole :: "string option"

definition new_transfer :: "float_env \<Rightarrow> InitiateTransferInput \<Rightarrow> AgentFloatTransferRow" where
  "new_transfer env input =
     \<lparr>tr_id = fe_transferId env, tr_from_agent = it_fromAgent input, tr_to_agent = it_toAgent input,
      tr_amount = it_amount input, tr_reason = it_reason input, tr_status = PENDING_APPROVAL,
      tr_required_approvals = 2, tr_approval_count = 1, tr_created_by = it_createdBy input,
      tr_created_at = fe_now env\<rparr>"

text \<open>The transfer is inserted before the approval of its creator, with that approval already counted.\<close>

definition initiateTransfer ::
  "float_env \<Rightarrow> InitiateTransferInput \<Rightarrow> float_db
     \<Rightarrow> (float_error + AgentFloatTransferRow \<times> TransferApprovalRow list) \<times> float_db" where
  "initiateTransfer env input db =
     (if it_fromAgent input = it_toAgent input then (Inl (BadRequest ''self transfer''), db)
      else if it_amount input \<le> 0 then (Inl (BadRequest ''amount''), db)
      else if it_createdBy input \<noteq> it_fromAgent input \<and> \<not> is_admin (it_userRole input)
        then (Inl (Forbidden ''initiate''), db)
      else case checkLimits env (it_fromAgent input) (it_toAgent input) (it_amount input) db of
             Some e \<Rightarrow> (Inl e, db)
           | None \<Rightarrow>
               (case fe_fails env InsertTransfer of
                  Some code \<Rightarrow> (Inl (QueryFailed code), db)
                | None \<Rightarrow>
                    if fe_transferId env \<in> tr_id ` set (transfers db) then (Inl (QueryFailed ''23505''), db)
                    else
                      let initialRole = (if it_createdBy input = it_fromAgent input then ''initiator'' else ''admin'');
                          transfer = new_transfer env input;
                          db1 = db\<lparr>transfers := transfers db @ [transfer]\<rparr>
                      in (case fe_fails env InsertApproval of
                            Some code \<Rightarrow> (Inl (QueryFailed code), db1)
                          | None \<Rightarrow>
                              let approval = \<lparr>ap_transfer_id = fe_transferId env, ap_approver = it_createdBy input,
                                    ap_role = initialRole\<rparr>;
                                  db2 = db1\<lparr>approvals := approvals db1 @ [approval]\<rparr>
                              in (Inr (transfer, [approval]),
                                  logAudit (fe_audit_writable env)
                                    \<lparr>fa_actor = it_createdBy input, fa_action = ''AGENT_FLOAT_TRANSFER_INITIATED'',
                                     fa_target = ''TransferID:'' @ fe_transferId env,
                                     fa_payload = [(''fromAgent'', PStr (it_fromAgent input)),
                                       (''toAgent'', PStr (it_toAgent input)), (''amount'', PNum (it_amount input)),
                                       (''reason'', case it_reason input of None \<Rightarrow> PUndefined | Some x \<Rightarrow> PStr x),
                                       (''role'', PStr initialRole)],
                                     fa_status = 201\<rparr> db2))))"

definition find_transfer :: "string \<Rightarrow> float_db \<Rightarrow> AgentFloatTransferRow option" where
  "find_transfer transferId db = find (\<lambda>t. tr_id t = transferId) (transfers db)"

definition update_transfer ::
  "string \<Rightarrow> (AgentFloatTransferRow \<Rightarrow> AgentFloatTransferRow) \<Rightarrow> float_db \<Rightarrow> float_db" where
  "update_transfer transferId f db =
     db\<lparr>transfers := map (\<lambda>t. if tr_id t = transferId then f t else t) (transfers db)\<rparr>"

definition approver_role ::
  "string \<Rightarrow> string option \<Rightarrow> AgentFloatTransferRow \<Rightarrow> float_error + string" where
  "approver_role approver userRole transfer =
     (if approver = tr_from_agent transfer then Inr ''initiator''
      else if approver = tr_to_agent transfer then Inr ''recipient''
      else if is_admin userRole then Inr ''admin''
      else Inl (Forbidden ''approve''))"

text \<open>The on-chain part: an error message or the unsigned transaction, if a vault is configured.\<close>

definition execute_on_chain ::
  "float_env \<Rightarrow> AgentFloatTransferRow \<Rightarrow> string + string option" where
  "execute_on_chain env transfer =
     (if fe_vault_configured env
      then (case toStroops (fe_numeric_text env (tr_amount transfer)) DEFAULT_MODE of
              Inl e \<Rightarrow> Inl (fe_money_message env e)
            | Inr stroops \<Rightarrow>
                map_sum id Some (fe_build_tx env (tr_from_agent transfer) (tr_to_agent transfer) stroops))
      else Inr None)"

record ApproveResult =
  ar_transfer :: AgentFloatTransferRow
  ar_approvals :: "TransferApprovalRow list"
  ar_executedOnChain :: bool
  ar_unsignedTxXdr :: "string option"

definition approval_entry :: "string \<Rightarrow> string \<Rightarrow> string \<Rightarrow> nat \<Rightarrow> float_audit" where
  "approval_entry transferId approver role newCount =
     \<lparr>fa_actor = approver, fa_action = ''AGENT_FLOAT_TRANSFER_APPROVED'',
      fa_target = ''TransferID:'' @ transferId,
      fa_payload = [(''role'', PStr role), (''approvalCount'', PNat newCount)], fa_status = 200\<rparr>"

definition execution_entry :: "string \<Rightarrow> AgentFloatTransferRow \<Rightarrow> bool \<Rightarrow> float_audit" where
  "execution_entry approver transfer executed =
     \<lparr>fa_actor = approver, fa_action = ''AGENT_FLOAT_TRANSFER_EXECUTED'',
      fa_target = ''TransferID:'' @ tr_id transfer,
      fa_payload = [(''fromAgent'', PStr (tr_from_agent transfer)), (''toAgent'', PStr (tr_to_agent transfer)),
        (''amount'', PNum (tr_amount transfer)), (''executedOnChain'', PBool executed)],
      fa_status = 200\<rparr>"

definition finish_approval ::
  "float_env \<Rightarrow> string \<Rightarrow> AgentFloatTransferRow \<Rightarrow> nat \<Rightarrow> float_db
     \<Rightarrow> (float_error + AgentFloatTransferRow \<times> bool \<times> string option) \<times> float_db" where
  "finish_approval env approver transfer newCount db =
     (if tr_required_approvals transfer \<le> newCount
      then
        let onChain = execute_on_chain env transfer;
            onChainError = (case onChain of Inl m \<Rightarrow> Some m | Inr _ \<Rightarrow> None);
            executedOnChain = (onChainError = None);
            unsignedTxXdr = (case onChain of Inl _ \<Rightarrow> None | Inr x \<Rightarrow> x);
            transferStatus = (if onChainError \<noteq> None \<and> onChainError \<noteq> Some [] then FAILED else COMPLETED)
        in case (if fe_error_column env then fe_fails env UpdateTransfer else Some ''42703'') of
             Some code \<Rightarrow> (Inl (QueryFailed code), db)
           | None \<Rightarrow>
             let f = (\<lambda>t. t\<lparr>tr_status := transferStatus, tr_approval_count := newCount\<rparr>);
                 db1 = update_transfer (tr_id transfer) f db
             in (Inr (f transfer, executedOnChain, unsignedTxXdr),
                 logAudit (fe_audit_writable env) (execution_entry approver transfer executedOnChain) db1)
      else case fe_fails env UpdateTransfer of
        Some code \<Rightarrow> (Inl (QueryFailed code), db)
      | None \<Rightarrow>
        let f = (\<lambda>t. t\<lparr>tr_approval_count := newCount\<rparr>)
        in (Inr (f transfer, False, None), update_transfer (tr_id transfer) f db))"

definition approveTransfer ::
  "float_env \<Rightarrow> string \<Rightarrow> string \<Rightarrow> string option \<Rightarrow> float_db
     \<Rightarrow> (float_error + ApproveResult) \<times> float_db" where
  "approveTransfer env transferId approver userRole db =
     (case (case fe_fails env SelectTransfer of
              Some code \<Rightarrow> Inl (QueryFailed code)
            | None \<Rightarrow>
                (case find_transfer transferId db of
                   None \<Rightarrow> Inl (NotFound transferId)
                 | Some transfer \<Rightarrow>
                     if tr_status transfer \<noteq> PENDING_APPROVAL then Inl (BadRequest ''status'')
                     else
                       (case approver_role approver userRole transfer of
                          Inl e \<Rightarrow> Inl e
                        | Inr role \<Rightarrow>
                            (case fe_fails env SelectApproval of
                               Some code \<Rightarrow> Inl (QueryFailed code)
                             | None \<Rightarrow>
                                 if \<exists>a\<in>set (approvals db). ap_transfer_id a = transferId \<and> ap_approver a = approver
                                 then Inl (BadRequest ''already approved'')
                                 else (case fe_fails env InsertApproval of
                                         Some code \<Rightarrow> Inl (QueryFailed code)
                                       | None \<Rightarrow> Inr (transfer, role)))))) of
        Inl e \<Rightarrow> (Inl e, db)
      | Inr (transfer, role) \<Rightarrow>
          let db1 = db\<lparr>approvals := approvals db @
                [\<lparr>ap_transfer_id = transferId, ap_approver = approver, ap_role = role\<rparr>]\<rparr>;
              newCount = tr_approval_count transfer + 1;
              db2 = logAudit (fe_audit_writable env)
                      (approval_entry transferId approver role newCount) db1
          in case finish_approval env approver transfer newCount db2 of
               (Inl e, db3) \<Rightarrow> (Inl e, db3)
             | (Inr (updated, executed, xdr), db3) \<Rightarrow>
                 (case fe_fails env SelectApprovals of
                    Some code \<Rightarrow> (Inl (QueryFailed code), db3)
                  | None \<Rightarrow>
                      (Inr \<lparr>ar_transfer = updated,
                            ar_approvals = filter (\<lambda>a. ap_transfer_id a = transferId) (approvals db3),
                            ar_executedOnChain = executed,
                            ar_unsignedTxXdr = (if xdr = Some [] then None else xdr)\<rparr>, db3)))"

definition rejectTransfer ::
  "float_env \<Rightarrow> string \<Rightarrow> string \<Rightarrow> string option \<Rightarrow> float_db
     \<Rightarrow> float_error + AgentFloatTransferRow \<times> float_db" where
  "rejectTransfer env transferId rejector userRole db =
     (case fe_fails env SelectTransfer of
        Some code \<Rightarrow> Inl (QueryFailed code)
      | None \<Rightarrow>
     case find_transfer transferId db of
        None \<Rightarrow> Inl (NotFound transferId)
      | Some transfer \<Rightarrow>
          if tr_status transfer \<noteq> PENDING_APPROVAL then Inl (BadRequest ''status'')
          else if rejector \<noteq> tr_from_agent transfer \<and> rejector \<noteq> tr_to_agent transfer
                  \<and> userRole \<noteq> Some ''admin''
            then Inl (Forbidden ''reject'')
          else case fe_fails env UpdateTransfer of
            Some code \<Rightarrow> Inl (QueryFailed code)
          | None \<Rightarrow>
            let f = (\<lambda>t. t\<lparr>tr_status := REJECTED\<rparr>);
                db1 = update_transfer transferId f db
            in Inr (f transfer,
                 logAudit (fe_audit_writable env)
                   \<lparr>fa_actor = rejector, fa_action = ''AGENT_FLOAT_TRANSFER_REJECTED'',
                    fa_target = ''TransferID:'' @ transferId,
                    fa_payload = [(''rejector'', PStr rejector), (''previousStatus'', PStr ''PENDING_APPROVAL'')],
                    fa_status = 200\<rparr> db1))"

definition getTransferDetails ::
  "string \<Rightarrow> float_db
     \<Rightarrow> float_error + AgentFloatTransferRow \<times> TransferApprovalRow list \<times> float_audit list" where
  "getTransferDetails transferId db =
     (case find_transfer transferId db of
        None \<Rightarrow> Inl (NotFound transferId)
      | Some transfer \<Rightarrow>
          Inr (transfer, filter (\<lambda>a. ap_transfer_id a = transferId) (approvals db),
               filter (\<lambda>a. fa_target a = ''TransferID:'' @ transferId) (audit_trail db)))"

record transfer_filters =
  tf_agent :: "string option"
  tf_status :: "transfer_status option"
  tf_limit :: "int option"
  tf_offset :: "int option"

definition matches_filters :: "transfer_filters \<Rightarrow> AgentFloatTransferRow \<Rightarrow> bool" where
  "matches_filters f t \<longleftrightarrow>
     (case tf_agent f of
        None \<Rightarrow> True
      | Some a \<Rightarrow> a = [] \<or> tr_from_agent t = a \<or> tr_to_agent t = a)
     \<and> (case tf_status f of None \<Rightarrow> True | Some s \<Rightarrow> tr_status t = s)"

definition listTransfers :: "transfer_filters \<Rightarrow> float_db \<Rightarrow> AgentFloatTransferRow list \<times> nat" where
  "listTransfers f db =
     (let limit = min (max (case tf_limit f of None \<Rightarrow> 20 | Some l \<Rightarrow> l) 1) 100;
          offset = max (case tf_offset f of None \<Rightarrow> 0 | Some n \<Rightarrow> n) 0;
          matching = filter (matches_filters f) (transfers db)
      in (take (nat limit) (drop (nat offset) (sort_key (\<lambda>t. - tr_created_at t) matching)),
          length matching))"


subsection \<open>Steps and invariant\<close>

text \<open>
  Whole requests, one after the other, failed ones included. \<open>adm\<close> says who is an administrator:
  requests carry an administrator role only for them. \<open>col\<close> says whether the schema has the
  \<open>error_message\<close> column, \<open>whole\<close> that no initiation stops between its two INSERTs.
\<close>

inductive float_step :: "(string \<Rightarrow> bool) \<Rightarrow> bool \<Rightarrow> bool \<Rightarrow> float_db \<Rightarrow> float_db \<Rightarrow> bool" for adm col whole where
  limits: "setPairLimits env input db = Inr db' \<Longrightarrow> float_step adm col whole db db'"
| initiate: "initiateTransfer env input db = (res, db') \<Longrightarrow>
     (is_admin (it_userRole input) \<Longrightarrow> adm (it_createdBy input)) \<Longrightarrow>
     (whole \<Longrightarrow> fe_fails env InsertApproval = None) \<Longrightarrow> float_step adm col whole db db'"
| approve: "approveTransfer env i approver userRole db = (res, db') \<Longrightarrow> fe_error_column env = col \<Longrightarrow>
     (is_admin userRole \<Longrightarrow> adm approver) \<Longrightarrow> float_step adm col whole db db'"
| reject: "rejectTransfer env i rejector userRole db = Inr (res, db') \<Longrightarrow> float_step adm col whole db db'"

definition empty_float_db :: float_db where
  "empty_float_db = \<lparr>pair_limits = (\<lambda>_. None), transfers = [], approvals = [], audit_trail = []\<rparr>"

definition approvals_of :: "float_db \<Rightarrow> string \<Rightarrow> TransferApprovalRow list" where
  "approvals_of db i = filter (\<lambda>a. ap_transfer_id a = i) (approvals db)"

definition settled :: "AgentFloatTransferRow \<Rightarrow> bool" where
  "settled t \<longleftrightarrow> tr_status t = COMPLETED \<or> tr_status t = FAILED"

definition approval_ok :: "(string \<Rightarrow> bool) \<Rightarrow> AgentFloatTransferRow \<Rightarrow> TransferApprovalRow \<Rightarrow> bool" where
  "approval_ok adm t a \<longleftrightarrow>
     (ap_role a = ''initiator'' \<and> ap_approver a = tr_from_agent t)
     \<or> (ap_role a = ''recipient'' \<and> ap_approver a = tr_to_agent t)
     \<or> (ap_role a = ''admin'' \<and> adm (ap_approver a))"

definition transfer_ok :: "(string \<Rightarrow> bool) \<Rightarrow> bool \<Rightarrow> bool \<Rightarrow> float_db \<Rightarrow> AgentFloatTransferRow \<Rightarrow> bool" where
  "transfer_ok adm col whole db t \<longleftrightarrow>
     tr_from_agent t \<noteq> tr_to_agent t \<and> 0 < tr_amount t \<and> tr_required_approvals t = 2
     \<and> tr_approval_count t \<le> length (approvals_of db (tr_id t)) + (if whole then 0 else 1)
     \<and> distinct (map ap_approver (approvals_of db (tr_id t)))
     \<and> (\<forall>a\<in>set (approvals_of db (tr_id t)). approval_ok adm t a)
     \<and> (settled t \<longrightarrow> col \<and> 2 \<le> tr_approval_count t)"

definition float_inv :: "(string \<Rightarrow> bool) \<Rightarrow> bool \<Rightarrow> bool \<Rightarrow> float_db \<Rightarrow> bool" where
  "float_inv adm col whole db \<longleftrightarrow>
     distinct (map tr_id (transfers db))
     \<and> (\<forall>t\<in>set (transfers db). transfer_ok adm col whole db t)
     \<and> ap_transfer_id ` set (approvals db) \<subseteq> tr_id ` set (transfers db)"

lemma logAudit_simps [simp]:
  "pair_limits (logAudit w e db) = pair_limits db" "transfers (logAudit w e db) = transfers db"
  "approvals (logAudit w e db) = approvals db"
  by (simp_all add: logAudit_def)

lemma float_inv_cong:
  "transfers db' = transfers db \<Longrightarrow> approvals db' = approvals db \<Longrightarrow>
    float_inv adm col whole db' = float_inv adm col whole db"
  by (simp add: float_inv_def transfer_ok_def approvals_of_def)

lemma float_inv_logAudit [simp]: "float_inv adm col whole (logAudit w e db) = float_inv adm col whole db"
  by (simp add: float_inv_def transfer_ok_def approvals_of_def)

interpretation al: append_log "logAudit w" audit_trail "\<lambda>db. (pair_limits db, transfers db, approvals db)"
  for w
  by unfold_locales (simp_all add: logAudit_def)

lemma find_transfer_Some:
  "find_transfer i db = Some t \<Longrightarrow> t \<in> set (transfers db) \<and> tr_id t = i"
  by (auto simp: find_transfer_def find_Some_iff)

text \<open>An update of one row by id, with the other rows in place.\<close>

lemma update_transfer_simps [simp]:
  "pair_limits (update_transfer i f db) = pair_limits db" "approvals (update_transfer i f db) = approvals db"
  "audit_trail (update_transfer i f db) = audit_trail db"
  by (simp_all add: update_transfer_def)

lemma float_inv_update:
  assumes inv: "float_inv adm col whole db" and keep: "\<And>t. tr_id (f t) = tr_id t"
    and ok: "\<And>t. t \<in> set (transfers db) \<Longrightarrow> tr_id t = i \<Longrightarrow> transfer_ok adm col whole db t \<Longrightarrow> transfer_ok adm col whole db (f t)"
  shows "float_inv adm col whole (update_transfer i f db)"
proof -
  have ids: "map tr_id (transfers (update_transfer i f db)) = map tr_id (transfers db)"
    by (simp add: update_transfer_def keep comp_def)
  have same: "transfer_ok adm col whole (update_transfer i f db) t = transfer_ok adm col whole db t" for t
    by (simp add: transfer_ok_def approvals_of_def)
  have "set (transfers (update_transfer i f db)) = (\<lambda>t. if tr_id t = i then f t else t) ` set (transfers db)"
    by (simp add: update_transfer_def)
  then have "\<forall>t\<in>set (transfers (update_transfer i f db)). transfer_ok adm col whole db t"
    using inv ok by (auto simp: float_inv_def)
  moreover have "tr_id ` set (transfers (update_transfer i f db)) = tr_id ` set (transfers db)"
    using arg_cong [OF ids, of set] by simp
  ultimately show ?thesis using inv ids same by (simp add: float_inv_def)
qed

text \<open>A new approval of an existing transfer by someone who has not approved it yet.\<close>

lemma float_inv_approval:
  assumes inv: "float_inv adm col whole db" and t: "t \<in> set (transfers db)" "tr_id t = i"
    and a: "ap_transfer_id a = i" "approval_ok adm t a"
    and new: "\<not> (\<exists>b\<in>set (approvals db). ap_transfer_id b = i \<and> ap_approver b = ap_approver a)"
  shows "float_inv adm col whole (db\<lparr>approvals := approvals db @ [a]\<rparr>)"
proof -
  let ?db = "db\<lparr>approvals := approvals db @ [a]\<rparr>"
  have "transfer_ok adm col whole ?db u" if u: "u \<in> set (transfers db)" for u
  proof (cases "tr_id u = i")
    case True
    then have "u = t" using inv t u by (auto simp: float_inv_def distinct_map inj_on_def)
    with inv t a new show ?thesis by (auto simp: float_inv_def transfer_ok_def approvals_of_def)
  next
    case False
    with inv u a show ?thesis by (auto simp: float_inv_def transfer_ok_def approvals_of_def)
  qed
  with inv t a show ?thesis by (auto simp: float_inv_def)
qed

lemma approver_role_ok:
  assumes "approver_role approver userRole t = Inr role" "is_admin userRole \<Longrightarrow> adm approver"
  shows "approval_ok adm t \<lparr>ap_transfer_id = i, ap_approver = approver, ap_role = role\<rparr>"
  using assms by (auto simp: approver_role_def approval_ok_def split: if_splits)

lemma finish_approval_inv:
  assumes inv: "float_inv adm (fe_error_column env) whole db" and t: "t \<in> set (transfers db)"
    and n: "n \<le> length (approvals_of db (tr_id t)) + (if whole then 0 else 1)" and pending: "tr_status t = PENDING_APPROVAL"
    and run: "finish_approval env approver t n db = (res, db')"
  shows "float_inv adm (fe_error_column env) whole db'"
proof -
  let ?col = "fe_error_column env"
  have uniq: "u = t" if "u \<in> set (transfers db)" "tr_id u = tr_id t" for u
    using inv t that by (auto simp: float_inv_def distinct_map inj_on_def)
  have req: "tr_required_approvals t = 2" using inv t by (simp add: float_inv_def transfer_ok_def)
  have "float_inv adm ?col whole (update_transfer (tr_id t) (\<lambda>t. t\<lparr>tr_status := s, tr_approval_count := n\<rparr>) db)"
    if "2 \<le> n" ?col for s
    using that n uniq by (intro float_inv_update [OF inv]) (auto simp: transfer_ok_def approval_ok_def)
  moreover have "float_inv adm ?col whole (update_transfer (tr_id t) (\<lambda>t. t\<lparr>tr_approval_count := n\<rparr>) db)"
    if "n < 2" "\<not> settled t"
    using that n uniq
    by (intro float_inv_update [OF inv]) (auto simp: transfer_ok_def approval_ok_def settled_def)
  ultimately show ?thesis
    using run req inv pending by (auto simp: settled_def finish_approval_def Let_def split: if_splits option.splits)
qed


text \<open>What a successful or failed approval did, in one rule.\<close>

lemma approveTransfer_cases:
  assumes "approveTransfer env i approver userRole db = (res, db')"
  obtains (refused) e where "res = Inl e" "db' = db"
  | (counted) t role db1 where
      "find_transfer i db = Some t" "tr_status t = PENDING_APPROVAL"
      "approver_role approver userRole t = Inr role"
      "\<not> (\<exists>a\<in>set (approvals db). ap_transfer_id a = i \<and> ap_approver a = approver)"
      "db1 = logAudit (fe_audit_writable env) (approval_entry i approver role (tr_approval_count t + 1))
         (db\<lparr>approvals := approvals db @ [\<lparr>ap_transfer_id = i, ap_approver = approver, ap_role = role\<rparr>]\<rparr>)"
      "snd (finish_approval env approver t (tr_approval_count t + 1) db1) = db'"
  using assms
  by (auto simp: approveTransfer_def Let_def split: option.splits if_splits sum.splits prod.splits)

lemma approve_inv:
  assumes inv: "float_inv adm (fe_error_column env) whole db"
    and run: "approveTransfer env i approver userRole db = (res, db')"
    and adm: "is_admin userRole \<Longrightarrow> adm approver"
  shows "float_inv adm (fe_error_column env) whole db'"
  using run
proof (cases rule: approveTransfer_cases)
  case (refused e)
  with inv show ?thesis by simp
next
  case (counted t role db1)
  let ?a = "\<lparr>ap_transfer_id = i, ap_approver = approver, ap_role = role\<rparr>"
  have t: "t \<in> set (transfers db)" "tr_id t = i" using find_transfer_Some [OF counted(1)] by auto
  have "float_inv adm (fe_error_column env) whole (db\<lparr>approvals := approvals db @ [?a]\<rparr>)"
    using float_inv_approval [OF inv t, of ?a] approver_role_ok [OF counted(3), of adm i] adm counted(4)
    by simp
  then have inv1: "float_inv adm (fe_error_column env) whole db1" using counted(5) by simp
  have "tr_approval_count t \<le> length (approvals_of db (tr_id t)) + (if whole then 0 else 1)"
    using inv t(1) unfolding float_inv_def transfer_ok_def by blast
  then have "tr_approval_count t + 1 \<le> length (approvals_of db1 (tr_id t)) + (if whole then 0 else 1)"
    using t(2) counted(5) by (simp add: approvals_of_def)
  moreover have "t \<in> set (transfers db1)" using t counted(5) by simp
  ultimately show ?thesis
    using finish_approval_inv [OF inv1 _ _ counted(2)] counted(6) by (metis prod.collapse)
qed

text \<open>What an initiation wrote: nothing, the transfer alone, or the transfer and its first approval.\<close>

abbreviation first_approval :: "float_env \<Rightarrow> InitiateTransferInput \<Rightarrow> TransferApprovalRow" where
  "first_approval env input \<equiv> \<lparr>ap_transfer_id = fe_transferId env, ap_approver = it_createdBy input,
     ap_role = (if it_createdBy input = it_fromAgent input then ''initiator'' else ''admin'')\<rparr>"

lemma initiateTransfer_cases:
  assumes "initiateTransfer env input db = (res, db')"
  obtains (refused) e where "res = Inl e" "db' = db"
  | (written) as where "it_fromAgent input \<noteq> it_toAgent input" "0 < it_amount input"
      "it_createdBy input = it_fromAgent input \<or> is_admin (it_userRole input)"
      "checkLimits env (it_fromAgent input) (it_toAgent input) (it_amount input) db = None"
      "fe_transferId env \<notin> tr_id ` set (transfers db)"
      "transfers db' = transfers db @ [new_transfer env input]" "approvals db' = approvals db @ as"
      "if fe_fails env InsertApproval = None then as = [first_approval env input] else as = [] \<and> (\<exists>e. res = Inl e)"
      "\<exists>es. audit_trail db' = audit_trail db @ es"
proof (cases "\<exists>e. res = Inl e \<and> db' = db")
  case True
  then show ?thesis using refused by blast
next
  case False
  from written [of "if fe_fails env InsertApproval = None then [first_approval env input] else []"]
  show ?thesis
    using assms False
    by (auto simp: initiateTransfer_def Let_def logAudit_def split: if_splits option.splits)
qed

lemma initiate_inv:
  assumes inv: "float_inv adm col whole db" and run: "initiateTransfer env input db = (res, db')"
    and adm: "is_admin (it_userRole input) \<Longrightarrow> adm (it_createdBy input)"
    and whole: "whole \<Longrightarrow> fe_fails env InsertApproval = None"
  shows "float_inv adm col whole db'"
  using run
proof (cases rule: initiateTransfer_cases)
  case (refused e)
  with inv show ?thesis by simp
next
  case (written as)
  let ?i = "fe_transferId env" and ?t = "new_transfer env input"
  have as: "as = [first_approval env input] \<or> as = [] \<and> \<not> whole" using written(8) whole by (auto split: if_splits)
  have "?i \<notin> ap_transfer_id ` set (approvals db)"
    using inv written(5) unfolding float_inv_def by blast
  then have fresh: "approvals_of db ?i = []"
    unfolding approvals_of_def filter_empty_conv by (metis image_eqI)
  have own: "approvals_of db' (tr_id ?t) = as"
    using as fresh written(7) by (auto simp: approvals_of_def new_transfer_def)
  have "transfer_ok adm col whole db' ?t"
    unfolding transfer_ok_def own using as
  proof
    assume one: "as = [first_approval env input]"
    show "tr_from_agent ?t \<noteq> tr_to_agent ?t \<and> 0 < tr_amount ?t \<and> tr_required_approvals ?t = 2
      \<and> tr_approval_count ?t \<le> length as + (if whole then 0 else 1) \<and> distinct (map ap_approver as)
      \<and> (\<forall>a\<in>set as. approval_ok adm ?t a) \<and> (settled ?t \<longrightarrow> col \<and> 2 \<le> tr_approval_count ?t)"
      unfolding one using written(1-3) adm by (auto simp: new_transfer_def approval_ok_def settled_def)
  next
    assume "as = [] \<and> \<not> whole"
    with written(1,2) show "tr_from_agent ?t \<noteq> tr_to_agent ?t \<and> 0 < tr_amount ?t \<and> tr_required_approvals ?t = 2
      \<and> tr_approval_count ?t \<le> length as + (if whole then 0 else 1) \<and> distinct (map ap_approver as)
      \<and> (\<forall>a\<in>set as. approval_ok adm ?t a) \<and> (settled ?t \<longrightarrow> col \<and> 2 \<le> tr_approval_count ?t)"
      by (simp add: new_transfer_def settled_def)
  qed
  moreover have "transfer_ok adm col whole db' u" if "u \<in> set (transfers db)" for u
  proof -
    have "tr_id u \<noteq> ?i" using written(5) that by (metis image_eqI)
    then have "approvals_of db' (tr_id u) = approvals_of db (tr_id u)"
      using as written(7) by (auto simp: approvals_of_def)
    with inv that show ?thesis by (simp add: float_inv_def transfer_ok_def)
  qed
  ultimately show ?thesis
    using inv written(5-7) as by (auto simp: float_inv_def new_transfer_def)
qed

lemma float_step_inv: "float_inv adm col whole db \<Longrightarrow> float_step adm col whole db db' \<Longrightarrow> float_inv adm col whole db'"
proof (erule float_step.cases, goal_cases)
  case (1 env input)
  then have "transfers db' = transfers db" "approvals db' = approvals db"
    by (auto simp: setPairLimits_def Let_def split: if_splits option.splits)
  from float_inv_cong [OF this] 1 show ?case by blast
next
  case (2 env input res)
  then show ?case using initiate_inv by blast
next
  case (3 env i approver userRole res)
  then show ?case using approve_inv by blast
next
  case (4 env i rejector userRole res)
  then obtain t where "find_transfer i db = Some t" "tr_status t = PENDING_APPROVAL"
    "float_inv adm col whole db' = float_inv adm col whole (update_transfer i (\<lambda>t. t\<lparr>tr_status := REJECTED\<rparr>) db)"
    by (auto simp: rejectTransfer_def Let_def split: option.splits if_splits)
  moreover have "float_inv adm col whole (update_transfer i (\<lambda>t. t\<lparr>tr_status := REJECTED\<rparr>) db)"
    using 4 by (intro float_inv_update) (auto simp: transfer_ok_def approval_ok_def settled_def)
  ultimately show ?case by simp
qed

lemma update_transfer_keeps:
  assumes "float_inv adm col whole db" "find_transfer i db = Some t" "tr_status t = PENDING_APPROVAL"
    and "u \<in> set (transfers db)" "tr_status u \<noteq> PENDING_APPROVAL"
  shows "u \<in> set (transfers (update_transfer i f db))"
proof -
  have "tr_id u \<noteq> i"
    using assms find_transfer_Some [OF assms(2)] by (auto simp: float_inv_def distinct_map inj_on_def)
  with assms(4) show ?thesis by (force simp: update_transfer_def)
qed

lemma finish_approval_transfers:
  "transfers (snd (finish_approval env approver t n db)) = transfers db
   \<or> (\<exists>f. transfers (snd (finish_approval env approver t n db)) = transfers (update_transfer (tr_id t) f db))"
  by (auto simp: finish_approval_def Let_def split: option.splits)

lemma float_step_final:
  assumes "float_inv adm col whole db" "float_step adm col whole db db'"
    and u: "u \<in> set (transfers db)" "tr_status u \<noteq> PENDING_APPROVAL"
  shows "u \<in> set (transfers db')"
  using assms(2)
proof cases
  case (limits env input)
  with u show ?thesis by (auto simp: setPairLimits_def Let_def split: if_splits option.splits)
next
  case (initiate env input res)
  from initiate(1) show ?thesis by (cases rule: initiateTransfer_cases) (use u in auto)
next
  case (approve env i approver userRole res)
  from approve(1) show ?thesis
  proof (cases rule: approveTransfer_cases)
    case (refused e)
    with u show ?thesis by simp
  next
    case (counted t role db1)
    have id: "tr_id t = i" using find_transfer_Some [OF counted(1)] by simp
    have "transfers (update_transfer i f db1) = transfers (update_transfer i f db)" for f
      using counted(5) by (simp add: update_transfer_def)
    then show ?thesis
      using finish_approval_transfers [of env approver t "tr_approval_count t + 1" db1] counted(5,6) u id
        update_transfer_keeps [OF assms(1) counted(1,2) u] by auto
  qed
next
  case (reject env i rejector userRole res)
  then obtain t where "find_transfer i db = Some t" "tr_status t = PENDING_APPROVAL"
    "transfers db' = transfers (update_transfer i (\<lambda>t. t\<lparr>tr_status := REJECTED\<rparr>) db)"
    by (auto simp: rejectTransfer_def Let_def split: option.splits if_splits)
  with update_transfer_keeps [OF assms(1) _ _ u] show ?thesis by simp
qed

interpretation tl: row_lifecycle transfers "\<lambda>t. tr_status t \<noteq> PENDING_APPROVAL" "float_inv adm col whole" "float_step adm col whole"
  for adm col whole
  by unfold_locales (auto intro: float_step_inv float_step_final)

lemma float_inv_empty: "float_inv adm col whole empty_float_db"
  by (simp add: float_inv_def empty_float_db_def)


subsection \<open>Properties\<close>

text \<open>
  C33. Two people approve every executed transfer, when requests are served one at a time and
  no initiation fails between its two INSERTs: a transfer that is completed or failed then has
  the approvals of two different people, each of them its source agent, its recipient or an
  administrator. After an initiation that stopped between the INSERTs one such approval is all
  that is left of the rule. In both cases the transfer moves a positive amount between two
  different agents, and the schema has the \<open>error_message\<close> column.
\<close>

theorem executed_has_two_approvals:
  assumes "(float_step adm col whole)\<^sup>*\<^sup>* empty_float_db db" "t \<in> set (transfers db)"
    and "tr_status t = COMPLETED \<or> tr_status t = FAILED"
  shows "\<exists>a\<in>set (approvals db). ap_transfer_id a = tr_id t \<and> approval_ok adm t a
     \<and> (whole \<longrightarrow> (\<exists>b\<in>set (approvals db).
          ap_transfer_id b = tr_id t \<and> ap_approver a \<noteq> ap_approver b \<and> approval_ok adm t b))
     \<and> tr_from_agent t \<noteq> tr_to_agent t \<and> 0 < tr_amount t \<and> col"
proof -
  let ?as = "approvals_of db (tr_id t)"
  have "transfer_ok adm col whole db t"
    using tl.steps_inv [OF assms(1) float_inv_empty] assms(2) by (simp add: float_inv_def)
  then have ok: "2 \<le> length ?as + (if whole then 0 else 1)" "distinct (map ap_approver ?as)"
    "\<forall>a\<in>set ?as. approval_ok adm t a" "tr_from_agent t \<noteq> tr_to_agent t" "0 < tr_amount t" "col"
    using assms(3) by (auto simp: transfer_ok_def settled_def)
  have row: "x \<in> set (approvals db) \<and> ap_transfer_id x = tr_id t \<and> approval_ok adm t x" if "x \<in> set ?as" for x
    using that ok(3) by (auto simp: approvals_of_def)
  obtain a rest where a: "?as = a # rest" using ok(1) by (cases ?as) (auto split: if_splits)
  have "\<exists>b\<in>set ?as. ap_approver a \<noteq> ap_approver b" if whole
    using that ok(1,2) a by (cases rest) auto
  with row a ok(4-6) show ?thesis by (intro bexI [of _ a]) auto
qed

text \<open>
  A transfer that has left the pending state is final: no later sequence of limit changes,
  initiations, approvals and rejections changes its status, amount, agents or approval count,
  or removes it.
\<close>

theorem settled_transfer_is_final:
  assumes "(float_step adm col whole)\<^sup>*\<^sup>* empty_float_db db" "(float_step adm col whole)\<^sup>*\<^sup>* db db'"
    and "t \<in> set (transfers db)" "tr_status t \<noteq> PENDING_APPROVAL"
  shows "t \<in> set (transfers db')"
  by (rule tl.final_forever [OF assms(2) tl.steps_inv [OF assms(1) float_inv_empty] assms(3,4)])

text \<open>
  On the schema the migrations create, which has no \<open>error_message\<close> column, no float
  transfer is ever completed: the approval that reaches the threshold fails after its approval
  row was written, and the transfer stays pending.
\<close>

theorem no_transfer_completes_on_migrated_schema:
  assumes "(float_step adm False whole)\<^sup>*\<^sup>* empty_float_db db" "t \<in> set (transfers db)"
  shows "tr_status t \<noteq> COMPLETED \<and> tr_status t \<noteq> FAILED"
proof -
  have "transfer_ok adm False whole db t"
    using tl.steps_inv [OF assms(1) float_inv_empty] assms(2) by (simp add: float_inv_def)
  then show ?thesis by (simp add: transfer_ok_def settled_def)
qed

lemma checkLimits_None:
  "checkLimits env f t a db = None \<Longrightarrow>
     pair_total f t (fe_now env - day_ms) db + a \<le> fst (getPairLimits env f t db)
     \<and> pair_total f t (fe_now env - 7 * day_ms) db + a \<le> snd (getPairLimits env f t db)"
  by (auto simp: checkLimits_def Let_def split: option.splits if_splits)

text \<open>
  A transfer that is accepted keeps the pair within its limits: with it, the live transfers
  of the pair over the last day and over the last week total at most the daily and the weekly
  limit.
\<close>

theorem initiateTransfer_within_limits:
  assumes "initiateTransfer env input db = (Inr res, db')"
  shows "pair_total (it_fromAgent input) (it_toAgent input) (fe_now env - day_ms) db'
       \<le> fst (getPairLimits env (it_fromAgent input) (it_toAgent input) db)
     \<and> pair_total (it_fromAgent input) (it_toAgent input) (fe_now env - 7 * day_ms) db'
       \<le> snd (getPairLimits env (it_fromAgent input) (it_toAgent input) db)"
proof -
  have ok: "checkLimits env (it_fromAgent input) (it_toAgent input) (it_amount input) db = None"
    and db': "transfers db' = transfers db @ [new_transfer env input]"
    by (rule initiateTransfer_cases [OF assms]; simp)+
  have "pair_total (it_fromAgent input) (it_toAgent input) (fe_now env - k * day_ms) db'
      = pair_total (it_fromAgent input) (it_toAgent input) (fe_now env - k * day_ms) db + it_amount input"
    if "0 \<le> k" for k
    using that by (simp add: pair_total_def db' counts_towards_def new_transfer_def day_ms_def)
  from this [of 1] this [of 7] checkLimits_None [OF ok] show ?thesis by simp
qed

text \<open>Concrete data for the witnesses: a transfer from A to B approved by B.\<close>

definition float_sample_env :: float_env where
  "float_sample_env = \<lparr>fe_now = 0, fe_transferId = ''ft1'', fe_limits_readable = True, fe_audit_writable = True,
     fe_fails = (\<lambda>_. None), fe_error_column = True, fe_vault_configured = False, fe_build_tx = (\<lambda>_ _ _. Inr []),
     fe_numeric_text = (\<lambda>_. ''5''), fe_money_message = (\<lambda>_. ''e'')\<rparr>"

definition float_sample_input :: InitiateTransferInput where
  "float_sample_input = \<lparr>it_fromAgent = ''A'', it_toAgent = ''B'', it_amount = 5, it_reason = None,
     it_createdBy = ''A'', it_userRole = None\<rparr>"

definition float_pending :: "bool \<Rightarrow> float_db" where
  "float_pending c = snd (initiateTransfer (float_sample_env\<lparr>fe_error_column := c\<rparr>) float_sample_input empty_float_db)"

definition float_approved :: "bool \<Rightarrow> float_db" where
  "float_approved c = snd (approveTransfer (float_sample_env\<lparr>fe_error_column := c\<rparr>) ''ft1'' ''B'' None (float_pending c))"

lemmas float_eval = initiateTransfer_def float_sample_env_def float_sample_input_def empty_float_db_def
  checkLimits_def getPairLimits_def pair_total_def DEFAULT_DAILY_LIMIT_def DEFAULT_WEEKLY_LIMIT_def
  new_transfer_def approveTransfer_def find_transfer_def approver_role_def finish_approval_def
  execute_on_chain_def update_transfer_def Let_def

lemma float_initiated:
  "initiateTransfer (float_sample_env\<lparr>fe_error_column := c\<rparr>) float_sample_input empty_float_db
     = (Inr (new_transfer float_sample_env float_sample_input,
         [\<lparr>ap_transfer_id = ''ft1'', ap_approver = ''A'', ap_role = ''initiator''\<rparr>]), float_pending c)"
  by (simp add: float_pending_def float_eval)

lemma float_approve_step:
  "float_step (\<lambda>_. False) c whole db
     (snd (approveTransfer (float_sample_env\<lparr>fe_error_column := c\<rparr>) ''ft1'' who None db))"
  by (rule float_step.approve [OF prod.collapse [symmetric]]) (simp_all add: is_admin_def)

lemma float_sample_steps:
  "(float_step (\<lambda>_. False) c True)\<^sup>*\<^sup>* empty_float_db (float_approved c)"
proof -
  have "float_step (\<lambda>_. False) c True empty_float_db (float_pending c)"
    by (rule float_step.initiate [OF float_initiated])
      (simp_all add: float_sample_input_def is_admin_def float_sample_env_def)
  with float_approve_step [of c True "float_pending c" "''B''"] show ?thesis
    unfolding float_approved_def by simp
qed

lemma float_approved_transfers:
  "transfers (float_approved c) =
     [(new_transfer float_sample_env float_sample_input)
       \<lparr>tr_status := (if c then COMPLETED else PENDING_APPROVAL), tr_approval_count := (if c then 2 else 1)\<rparr>]"
  by (cases c) (simp_all add: float_approved_def float_pending_def float_eval)

theorem executed_has_two_approvals_witness:
  "\<exists>t\<in>set (transfers (float_approved True)). tr_status t = COMPLETED
     \<and> (\<exists>a\<in>set (approvals (float_approved True)). \<exists>b\<in>set (approvals (float_approved True)).
          ap_approver a \<noteq> ap_approver b)"
  using executed_has_two_approvals [OF float_sample_steps [of True], of
      "(new_transfer float_sample_env float_sample_input)\<lparr>tr_status := COMPLETED, tr_approval_count := 2\<rparr>"]
  by (auto simp: float_approved_transfers)

text \<open>
  When the second INSERT of an initiation fails, the source agent alone executes the transfer:
  the row counts an approval that was never stored, so one approval reaches the threshold.
\<close>

definition cut_env :: float_env where
  "cut_env = float_sample_env\<lparr>fe_fails := (\<lambda>q. if q = InsertApproval then Some ''08006'' else None)\<rparr>"

definition float_cut :: float_db where
  "float_cut = snd (initiateTransfer cut_env float_sample_input empty_float_db)"

definition float_alone :: float_db where
  "float_alone = snd (approveTransfer (float_sample_env\<lparr>fe_error_column := True\<rparr>) ''ft1'' ''A'' None float_cut)"

theorem one_approval_executes_after_cut_initiation:
  "(float_step (\<lambda>_. False) True False)\<^sup>*\<^sup>* empty_float_db float_alone
   \<and> map tr_status (transfers float_alone) = [COMPLETED] \<and> map ap_approver (approvals float_alone) = [''A'']"
proof -
  have "float_step (\<lambda>_. False) True False empty_float_db float_cut"
    unfolding float_cut_def
    by (rule float_step.initiate [OF prod.collapse [symmetric]]) (simp_all add: float_sample_input_def is_admin_def)
  with float_approve_step [of True False float_cut "''A''"]
  have "(float_step (\<lambda>_. False) True False)\<^sup>*\<^sup>* empty_float_db float_alone" unfolding float_alone_def by simp
  then show ?thesis by (simp add: float_alone_def float_cut_def cut_env_def float_eval)
qed

theorem settled_transfer_is_final_witness:
  "(new_transfer float_sample_env float_sample_input)\<lparr>tr_status := COMPLETED, tr_approval_count := 2\<rparr>
     \<in> set (transfers (float_approved True))"
  by (rule settled_transfer_is_final [OF float_sample_steps rtranclp.rtrancl_refl])
    (simp_all add: float_approved_transfers)

theorem no_transfer_completes_on_migrated_schema_witness:
  "\<exists>t\<in>set (transfers (float_approved False)). tr_status t \<noteq> COMPLETED \<and> tr_status t \<noteq> FAILED"
  using no_transfer_completes_on_migrated_schema [OF float_sample_steps, of
      "(new_transfer float_sample_env float_sample_input)\<lparr>tr_status := PENDING_APPROVAL, tr_approval_count := 1\<rparr>"]
  by (simp add: float_approved_transfers)

theorem initiateTransfer_within_limits_witness:
  "pair_total ''A'' ''B'' (0 - day_ms) (float_pending True) \<le> 100000"
  using initiateTransfer_within_limits [OF float_initiated]
  by (simp add: float_sample_env_def float_sample_input_def getPairLimits_def empty_float_db_def
      DEFAULT_DAILY_LIMIT_def)

text \<open>
  Listing is bounded and exact: a page has at most one hundred transfers and at most the
  requested number, every transfer on it is stored and matches the filters, and the reported
  total counts all matching transfers.
\<close>

theorem listTransfers_page:
  "length (fst (listTransfers f db)) \<le> 100
   \<and> set (fst (listTransfers f db)) \<subseteq> {t \<in> set (transfers db). matches_filters f t}
   \<and> snd (listTransfers f db) = length (filter (matches_filters f) (transfers db))
   \<and> length (fst (listTransfers f db)) \<le> snd (listTransfers f db)"
  by (auto simp: listTransfers_def Let_def dest!: in_set_takeD in_set_dropD)

lemma approve_trail: "\<exists>es. audit_trail (snd (approveTransfer env i approver userRole db)) = audit_trail db @ es"
  by (auto simp: approveTransfer_def finish_approval_def logAudit_def Let_def
      split: option.splits sum.splits prod.splits if_splits)

text \<open>
  The audit trail of float transfers is append-only: no operation, failed ones included,
  removes or rewrites an entry.
\<close>

theorem float_audit_append_only:
  assumes "(float_step adm col whole)\<^sup>*\<^sup>* db db'"
  shows "\<exists>es. audit_trail db' = audit_trail db @ es"
proof -
  have "al.extends a b" if "float_step adm col whole a b" for a b
    using that
  proof cases
    case (limits env input)
    then show ?thesis
      by (auto simp: al.extends_def setPairLimits_def Let_def logAudit_def split: if_splits option.splits)
  next
    case (initiate env input res)
    from initiate(1) show ?thesis
      by (cases rule: initiateTransfer_cases) (auto simp: al.extends_def)
  next
    case (approve env i approver userRole res)
    then show ?thesis using approve_trail [of env i approver userRole a] by (simp add: al.extends_def)
  next
    case (reject env i rejector userRole res)
    then show ?thesis
      by (auto simp: al.extends_def rejectTransfer_def Let_def logAudit_def split: if_splits option.splits)
  qed
  with assms have "al.extends db db'"
    by (induction rule: rtranclp_induct) (auto intro: al.extends_refl al.extends_trans)
  then show ?thesis by (simp add: al.extends_def)
qed

theorem float_audit_append_only_witness:
  "\<exists>es. audit_trail (float_approved True) = audit_trail empty_float_db @ es"
  by (rule float_audit_append_only [OF float_sample_steps])

end
