(* ===== verification/EventDecode.thy ===== *)
theory EventDecode
  imports Db "HOL-Library.Log_Nat"
begin

section \<open>Decoding contract events (\<open>backend/src/services/eventIndexer.ts\<close>)\<close>

text \<open>
  From a raw Soroban event to the \<open>ContractEvent\<close> the indexer stores. The Stellar SDK is the
  parameter \<open>sdk\<close>: \<open>scValToNative\<close> and \<open>sym()\<close>, which may throw, \<open>toXDR\<close>, and what
  \<open>Number\<close> and \<open>toString\<close> give on native values that are neither numbers nor strings. A thrown
  error is \<open>Inl\<close> with its message, shortened to the constant part; a \<open>null\<close> result is \<open>Inr None\<close>.
\<close>

subsection \<open>Event types\<close>

definition EVENT_TYPE_ALIASES :: "(string \<times> string) list" where
  "EVENT_TYPE_ALIASES =
     [(''Mint'', ''NFTMinted''), (''AdmRemint'', ''NFTMinted''), (''ScoreUpd'', ''ScoreUpdated''),
      (''Seized'', ''NFTSeized''), (''NftBurned'', ''NFTBurned''), (''MinScore'', ''MinScoreUpdated''),
      (''GovProp'', ''ProposalCreated''), (''GovAppr'', ''ProposalApproved''),
      (''GovFin'', ''ProposalFinalized''), (''GovCncl'', ''ProposalCancelled''),
      (''GovEmerg'', ''ProposalCancelled''), (''GovExp'', ''ProposalCancelled''),
      (''ColDep'', ''CollateralDeposited''), (''ColRel'', ''CollateralReleased'')]"

definition ADMIN_CONFIG_EVENT_TYPES :: "string list" where
  "ADMIN_CONFIG_EVENT_TYPES =
     [''MinScoreUpdated'', ''InterestRateUpdated'', ''DefaultTermUpdated'', ''TermLimitsUpdated'',
      ''LateFeeRateUpdated'', ''GracePeriodUpdated'', ''DefaultWindowUpdated'', ''MaxLoanAmountUpdated'',
      ''MinRepaymentUpdated'', ''MaxLoansPerBorrower'', ''MinRateBpsUpdated'', ''MaxRateBpsUpdated'',
      ''RateOracleUpdated'']"

definition SUPPORTED_WEBHOOK_EVENT_TYPES :: "string list" where
  "SUPPORTED_WEBHOOK_EVENT_TYPES =
     [''LoanRequested'', ''LoanApproved'', ''LoanRepaid'', ''LoanDefaulted'', ''CollateralLiquidated'',
      ''CollateralReturned'', ''CollateralDeposited'', ''CollateralReleased'', ''ColDep'', ''ColRel'',
      ''LateFeeCharged'', ''LoanExtended'', ''LoanCancelled'', ''LoanRejected'', ''LoanRefinanced'',
      ''InterestRateUpdated'', ''DefaultTermUpdated'', ''TermLimitsUpdated'', ''LateFeeRateUpdated'',
      ''GracePeriodUpdated'', ''DefaultWindowUpdated'', ''MaxLoanAmountUpdated'', ''MinRepaymentUpdated'',
      ''MaxLoansPerBorrower'', ''MinRateBpsUpdated'', ''MaxRateBpsUpdated'', ''RateOracleUpdated'',
      ''Deposit'', ''Withdraw'', ''YieldDistributed'', ''EmergencyWithdraw'', ''DepositCapUpdated'',
      ''WithdrawalCooldownUpdated'', ''NFTMinted'', ''ScoreUpdated'', ''NFTSeized'', ''NFTBurned'',
      ''ProposalCreated'', ''ProposalApproved'', ''ProposalFinalized'', ''ProposalCancelled'', ''LoanApprv'',
      ''LoanLiquidated'', ''Mint'', ''ScoreUpd'', ''ScoreDecr'', ''Seized'', ''NftBurned'', ''AdmRemint'',
      ''HashUpd'', ''GovProp'', ''GovAppr'', ''GovFin'', ''Transfer'', ''MntAuth'', ''MntRev'', ''Paused'',
      ''Unpaused'', ''MinScoreUpdated'', ''PoolPaused'', ''PoolUnpaused'', ''GovCncl'', ''GovEmerg'',
      ''GovExp'']"

subsection \<open>Raw and decoded events\<close>

datatype native = NBig int | NNum int | NStr string | NArr "native list" | NOther string

datatype js_number = NaN | Num int

record 'v sdk =
  sv_native :: "'v \<Rightarrow> string + native"
  sv_sym :: "'v \<Rightarrow> string option"
  sv_xdr :: "'v \<Rightarrow> string"
  nv_number :: "native \<Rightarrow> js_number"
  nv_string :: "native \<Rightarrow> string option"

record 'v SorobanRawEvent =
  ev_id :: string
  ev_topic :: "'v list"
  ev_value :: 'v
  ev_ledger :: int
  ev_ledgerClosedAt :: int
  ev_txHash :: string
  ev_contractId :: string

record ContractEvent =
  x_eventId :: string
  x_eventType :: string
  x_ledger :: int
  x_ledgerClosedAt :: int
  x_txHash :: string
  x_contractId :: string
  x_topics :: "string list"
  x_value :: string
  x_amount :: "string option"
  x_loanId :: "js_number option"
  x_interestRateBps :: "js_number option"
  x_termLedgers :: "js_number option"
  x_address :: "string option"
  x_adminAddress :: "string option"
  x_borrowerRefund :: "string option"

definition try_then :: "'e + 'a \<Rightarrow> ('a \<Rightarrow> 'e + 'b) \<Rightarrow> 'e + 'b" where
  "try_then m f = (case m of Inl e \<Rightarrow> Inl e | Inr x \<Rightarrow> f x)"

lemma try_then_simps [simp]: "try_then (Inl e) f = Inl e" "try_then (Inr x) f = f x"
  by (simp_all add: try_then_def)

lemma try_then_Inr: "try_then m f = Inr y \<longleftrightarrow> (\<exists>x. m = Inr x \<and> f x = Inr y)"
  by (cases m) auto

text \<open>\<open>Number\<close> of a bigint: the nearest double, ties to even.\<close>

definition nearest_double :: "int \<Rightarrow> int" where
  "nearest_double n =
     (let m = nat \<bar>n\<bar>; u = 2 ^ (floorlog 2 m - 53); q = m div u; r = m mod u;
          q' = (if u < 2 * r \<or> (2 * r = u \<and> odd q) then q + 1 else q)
      in (if n < 0 then - int (q' * u) else int (q' * u)))"

fun to_number :: "'v sdk \<Rightarrow> native \<Rightarrow> js_number" where
  "to_number sdk (NNum n) = Num n"
| "to_number sdk (NBig n) = Num (nearest_double n)"
| "to_number sdk v = nv_number sdk v"

fun to_string :: "'v sdk \<Rightarrow> native \<Rightarrow> string + string" where
  "to_string sdk (NNum n) = Inr (int_to_string n)"
| "to_string sdk (NBig n) = Inr (int_to_string n)"
| "to_string sdk (NStr s) = Inr s"
| "to_string sdk v = (case nv_string sdk v of Some s \<Rightarrow> Inr s | None \<Rightarrow> Inl ''toString'')"

subsection \<open>Decoders\<close>

definition decodeEventType :: "'v sdk \<Rightarrow> 'v option \<Rightarrow> string option" where
  "decodeEventType sdk value =
     (case value of
        None \<Rightarrow> None
      | Some v \<Rightarrow>
          (case sv_sym sdk v of
             None \<Rightarrow> None
           | Some rawType \<Rightarrow>
               (let normalizedType = (case map_of EVENT_TYPE_ALIASES rawType of Some t \<Rightarrow> t | None \<Rightarrow> rawType)
                in if normalizedType \<in> set SUPPORTED_WEBHOOK_EVENT_TYPES then Some normalizedType else None)))"

definition isAdminConfigEventType :: "string \<Rightarrow> bool" where
  "isAdminConfigEventType eventType \<longleftrightarrow> eventType \<in> set ADMIN_CONFIG_EVENT_TYPES"

definition decodeAddress :: "'v sdk \<Rightarrow> 'v \<Rightarrow> string + string" where
  "decodeAddress sdk value =
     try_then (sv_native sdk value) (\<lambda>n. case n of NStr s \<Rightarrow> Inr s | _ \<Rightarrow> Inl ''Expected address string'')"

definition decodeAmount :: "'v sdk \<Rightarrow> 'v \<Rightarrow> string + string" where
  "decodeAmount sdk value =
     try_then (sv_native sdk value)
       (\<lambda>n. case n of NBig i \<Rightarrow> Inr (int_to_string i) | NNum i \<Rightarrow> Inr (int_to_string i)
                     | _ \<Rightarrow> Inl ''Expected integer stroop amount'')"

definition decodeLoanId :: "'v sdk \<Rightarrow> 'v \<Rightarrow> js_number option" where
  "decodeLoanId sdk value =
     (case sv_native sdk value of Inl _ \<Rightarrow> None | Inr n \<Rightarrow> Some (to_number sdk n))"

text \<open>Entry \<open>k\<close> of a decoded tuple of length above \<open>k\<close>.\<close>

definition tuple_entry :: "nat \<Rightarrow> native \<Rightarrow> native option" where
  "tuple_entry k n = (case n of NArr xs \<Rightarrow> if k < length xs then Some (xs ! k) else None | _ \<Rightarrow> None)"

definition numeric_text :: "native option \<Rightarrow> string option" where
  "numeric_text v =
     (case v of Some (NBig i) \<Rightarrow> Some (int_to_string i) | Some (NNum i) \<Rightarrow> Some (int_to_string i) | _ \<Rightarrow> None)"

definition decodeTupleFirstNumericValue :: "'v sdk \<Rightarrow> 'v \<Rightarrow> string + string option" where
  "decodeTupleFirstNumericValue sdk value =
     try_then (sv_native sdk value) (\<lambda>n. Inr (numeric_text (tuple_entry 0 n)))"

definition decodeTupleSecondNumericValue :: "'v sdk \<Rightarrow> 'v \<Rightarrow> string + string option" where
  "decodeTupleSecondNumericValue sdk value =
     try_then (sv_native sdk value) (\<lambda>n. Inr (numeric_text (tuple_entry 1 n)))"

definition decodeTupleThirdNumericValue :: "'v sdk \<Rightarrow> 'v \<Rightarrow> string + string option" where
  "decodeTupleThirdNumericValue sdk value =
     try_then (sv_native sdk value) (\<lambda>n. Inr (numeric_text (tuple_entry 2 n)))"

definition decodeTupleSecondAddress :: "'v sdk \<Rightarrow> 'v \<Rightarrow> string + string option" where
  "decodeTupleSecondAddress sdk value =
     try_then (sv_native sdk value)
       (\<lambda>n. Inr (case tuple_entry 1 n of Some (NStr s) \<Rightarrow> Some s | _ \<Rightarrow> None))"

text \<open>\<open>data[1].toString()\<close> of a decoded array with at least two entries.\<close>

definition second_to_string :: "'v sdk \<Rightarrow> 'v \<Rightarrow> string + string option" where
  "second_to_string sdk value =
     try_then (sv_native sdk value)
       (\<lambda>n. case tuple_entry 1 n of None \<Rightarrow> Inr None | Some x \<Rightarrow> map_sum id Some (to_string sdk x))"

subsection \<open>\<open>parseEvent\<close>\<close>

record event_fields =
  f_loanId :: "js_number option"
  f_address :: "string option"
  f_amount :: "string option"
  f_interestRateBps :: "js_number option"
  f_termLedgers :: "js_number option"
  f_borrowerRefund :: "string option"

definition no_fields :: event_fields where
  "no_fields = \<lparr>f_loanId = None, f_address = None, f_amount = None, f_interestRateBps = None,
     f_termLedgers = None, f_borrowerRefund = None\<rparr>"

definition topic_at :: "nat \<Rightarrow> 'v SorobanRawEvent \<Rightarrow> 'v option" where
  "topic_at k event = (if k < length (ev_topic event) then Some (ev_topic event ! k) else None)"

text \<open>\<open>if (!event.topic[k]) return null\<close>\<close>

definition need_topic ::
  "nat \<Rightarrow> 'v SorobanRawEvent \<Rightarrow> ('v \<Rightarrow> string + event_fields option) \<Rightarrow> string + event_fields option" where
  "need_topic k event f = (case topic_at k event of None \<Rightarrow> Inr None | Some t \<Rightarrow> f t)"

text \<open>\<open>if (event.topic[1]) address = this.decodeAddress(event.topic[1])\<close>\<close>

definition optional_address :: "'v sdk \<Rightarrow> 'v option \<Rightarrow> string + string option" where
  "optional_address sdk t =
     (case t of None \<Rightarrow> Inr None | Some v \<Rightarrow> map_sum id Some (decodeAddress sdk v))"

definition ok_fields :: "event_fields \<Rightarrow> string + event_fields option" where
  "ok_fields f = Inr (Some f)"

definition approved_fields ::
  "'v sdk \<Rightarrow> 'v SorobanRawEvent \<Rightarrow> js_number \<Rightarrow> string \<Rightarrow> string + event_fields option" where
  "approved_fields sdk event loanId address =
     try_then (sv_native sdk (ev_value event))
       (\<lambda>data. case (tuple_entry 0 data, tuple_entry 1 data) of
          (Some a, Some b) \<Rightarrow>
            (case to_number sdk a of
               NaN \<Rightarrow> Inl ''LoanApproved event has invalid interest_rate_bps''
             | Num rate \<Rightarrow>
                 (case to_number sdk b of
                    NaN \<Rightarrow> Inl ''LoanApproved event has invalid term_ledgers''
                  | Num term_l \<Rightarrow>
                      ok_fields (no_fields\<lparr>f_loanId := Some loanId, f_address := Some address,
                        f_interestRateBps := Some (Num rate), f_termLedgers := Some (Num term_l)\<rparr>)))
        | _ \<Rightarrow> Inl ''LoanApproved event missing interest_rate_bps or term_ledgers'')"

definition admin_updated_types :: "string list" where
  "admin_updated_types =
     [''MinScoreUpdated'', ''LateFeeRateUpdated'', ''GracePeriodUpdated'', ''DefaultWindowUpdated'',
      ''MaxLoanAmountUpdated'', ''MinRepaymentUpdated'', ''MaxLoansPerBorrower'', ''MinRateBpsUpdated'',
      ''MaxRateBpsUpdated'']"

text \<open>The first half of the chain: loan, pool and NFT events.\<close>

definition parse_loan_fields ::
  "'v sdk \<Rightarrow> string \<Rightarrow> 'v SorobanRawEvent \<Rightarrow> (string + event_fields option) option" where
  "parse_loan_fields sdk ty event =
     (if ty = ''LoanRequested'' then
        Some (need_topic 1 event (\<lambda>t1. need_topic 2 event (\<lambda>t2.
          case decodeLoanId sdk t1 of
            None \<Rightarrow> Inr None
          | Some l \<Rightarrow>
              try_then (decodeAddress sdk t2) (\<lambda>a.
              try_then (decodeAmount sdk (ev_value event)) (\<lambda>m.
                ok_fields (no_fields\<lparr>f_loanId := Some l, f_address := Some a, f_amount := Some m\<rparr>))))))
      else if ty = ''LoanApproved'' then
        Some (need_topic 1 event (\<lambda>t1. need_topic 2 event (\<lambda>t2.
          case decodeLoanId sdk t1 of
            None \<Rightarrow> Inr None
          | Some l \<Rightarrow> try_then (decodeAddress sdk t2) (\<lambda>a. approved_fields sdk event l a))))
      else if ty = ''LoanRepaid'' then
        Some (need_topic 1 event (\<lambda>t1. need_topic 2 event (\<lambda>t2.
          try_then (decodeAddress sdk t1) (\<lambda>a.
          try_then (decodeAmount sdk (ev_value event)) (\<lambda>m.
            ok_fields (no_fields\<lparr>f_loanId := decodeLoanId sdk t2, f_address := Some a, f_amount := Some m\<rparr>))))))
      else if ty = ''LoanDefaulted'' then
        Some (need_topic 1 event (\<lambda>t1.
          case decodeLoanId sdk t1 of
            None \<Rightarrow> Inr None
          | Some l \<Rightarrow>
              try_then (decodeAddress sdk (ev_value event)) (\<lambda>a.
                ok_fields (no_fields\<lparr>f_loanId := Some l, f_address := Some a\<rparr>))))
      else if ty = ''CollateralLiquidated'' then
        Some (need_topic 1 event (\<lambda>t1.
          case decodeLoanId sdk t1 of
            None \<Rightarrow> Inr None
          | Some l \<Rightarrow>
              try_then (decodeAmount sdk (ev_value event)) (\<lambda>m.
                ok_fields (no_fields\<lparr>f_loanId := Some l, f_amount := Some m\<rparr>))))
      else if ty = ''Deposit'' \<or> ty = ''Withdraw'' \<or> ty = ''EmergencyWithdraw'' then
        Some (need_topic 1 event (\<lambda>t1.
          try_then (decodeAddress sdk t1) (\<lambda>a.
          try_then (decodeTupleFirstNumericValue sdk (ev_value event)) (\<lambda>m.
            ok_fields (no_fields\<lparr>f_address := Some a, f_amount := m\<rparr>)))))
      else if ty = ''NFTMinted'' \<or> ty = ''ScoreUpdated'' \<or> ty = ''NFTSeized'' \<or> ty = ''NFTBurned'' then
        Some (need_topic 1 event (\<lambda>t1.
          try_then (decodeAddress sdk t1) (\<lambda>a.
            if ty = ''NFTMinted'' \<or> ty = ''ScoreUpdated''
            then try_then (decodeAmount sdk (ev_value event)) (\<lambda>m.
                   ok_fields (no_fields\<lparr>f_address := Some a, f_amount := Some m\<rparr>))
            else ok_fields (no_fields\<lparr>f_address := Some a\<rparr>))))
      else if ty = ''ProposalCreated'' \<or> ty = ''ProposalApproved'' \<or> ty = ''ProposalFinalized''
              \<or> ty = ''ProposalCancelled'' then
        Some (need_topic 1 event (\<lambda>t1.
          try_then (decodeAddress sdk t1) (\<lambda>a. ok_fields (no_fields\<lparr>f_address := Some a\<rparr>))))
      else if ty = ''Transfer'' then
        Some (try_then (optional_address sdk (topic_at 2 event)) (\<lambda>a. ok_fields (no_fields\<lparr>f_address := a\<rparr>)))
      else None)"

text \<open>The second half: the remaining loan, pool, admin and collateral events.\<close>

definition parse_other_fields ::
  "'v sdk \<Rightarrow> string \<Rightarrow> 'v SorobanRawEvent \<Rightarrow> string + event_fields option" where
  "parse_other_fields sdk ty event =
     (if ty = ''LoanRefinanced'' then
        need_topic 1 event (\<lambda>t1. need_topic 2 event (\<lambda>t2.
          try_then (decodeAddress sdk t2) (\<lambda>a.
          try_then (decodeTupleFirstNumericValue sdk (ev_value event)) (\<lambda>m.
            ok_fields (no_fields\<lparr>f_loanId := decodeLoanId sdk t1, f_address := Some a, f_amount := m\<rparr>)))))
      else if ty = ''LoanExtended'' then
        need_topic 1 event (\<lambda>t1. need_topic 2 event (\<lambda>t2.
          try_then (decodeAddress sdk t2) (\<lambda>a.
          try_then (second_to_string sdk (ev_value event)) (\<lambda>m.
            ok_fields (no_fields\<lparr>f_loanId := decodeLoanId sdk t1, f_address := Some a, f_amount := m\<rparr>)))))
      else if ty = ''LoanCancelled'' then
        need_topic 1 event (\<lambda>t1.
          try_then (decodeAddress sdk t1) (\<lambda>a.
            ok_fields (no_fields\<lparr>f_loanId := decodeLoanId sdk (ev_value event), f_address := Some a\<rparr>)))
      else if ty = ''LoanRejected'' then
        need_topic 1 event (\<lambda>t1. ok_fields (no_fields\<lparr>f_loanId := decodeLoanId sdk t1\<rparr>))
      else if ty = ''LateFeeCharged'' then
        need_topic 1 event (\<lambda>t1.
          try_then (decodeAmount sdk (ev_value event)) (\<lambda>m.
            ok_fields (no_fields\<lparr>f_loanId := decodeLoanId sdk t1, f_amount := Some m\<rparr>)))
      else if ty = ''CollateralReturned'' then
        need_topic 1 event (\<lambda>t1. need_topic 2 event (\<lambda>t2.
          try_then (decodeAddress sdk t1) (\<lambda>a.
          try_then (decodeAmount sdk (ev_value event)) (\<lambda>m.
            ok_fields (no_fields\<lparr>f_loanId := decodeLoanId sdk t2, f_address := Some a, f_amount := Some m\<rparr>)))))
      else if ty = ''YieldDistributed'' \<or> ty = ''DepositCapUpdated'' then
        need_topic 1 event (\<lambda>t1.
          try_then (decodeAddress sdk t1) (\<lambda>a.
            if ty = ''YieldDistributed''
            then try_then (decodeAmount sdk (ev_value event)) (\<lambda>m.
                   ok_fields (no_fields\<lparr>f_address := Some a, f_amount := Some m\<rparr>))
            else try_then (second_to_string sdk (ev_value event)) (\<lambda>m.
                   ok_fields (no_fields\<lparr>f_address := Some a, f_amount := m\<rparr>))))
      else if ty = ''WithdrawalCooldownUpdated'' then
        try_then (second_to_string sdk (ev_value event)) (\<lambda>m. ok_fields (no_fields\<lparr>f_amount := m\<rparr>))
      else if ty = ''InterestRateUpdated'' \<or> ty = ''DefaultTermUpdated'' \<or> ty = ''TermLimitsUpdated'' then
        try_then (decodeTupleSecondNumericValue sdk (ev_value event)) (\<lambda>m.
          ok_fields (no_fields\<lparr>f_amount := m\<rparr>))
      else if ty \<in> set admin_updated_types then
        try_then (optional_address sdk (topic_at 1 event)) (\<lambda>a.
        try_then (decodeTupleSecondNumericValue sdk (ev_value event)) (\<lambda>m.
          ok_fields (no_fields\<lparr>f_address := a, f_amount := m\<rparr>)))
      else if ty = ''RateOracleUpdated'' then
        try_then (decodeTupleSecondAddress sdk (ev_value event)) (\<lambda>a.
          ok_fields (no_fields\<lparr>f_address := a\<rparr>))
      else if ty = ''PoolPaused'' \<or> ty = ''PoolUnpaused'' then ok_fields no_fields
      else if ty = ''CollateralDeposited'' \<or> ty = ''CollateralReleased'' then
        try_then (optional_address sdk (topic_at 1 event)) (\<lambda>a.
          let l = (case topic_at 2 event of None \<Rightarrow> None | Some t2 \<Rightarrow> decodeLoanId sdk t2) in
          if ty = ''CollateralDeposited''
          then try_then (decodeAmount sdk (ev_value event)) (\<lambda>m.
                 ok_fields (no_fields\<lparr>f_loanId := l, f_address := a, f_amount := Some m\<rparr>))
          else ok_fields (no_fields\<lparr>f_loanId := l, f_address := a\<rparr>))
      else if ty = ''ScoreDecr'' then
        need_topic 1 event (\<lambda>t1.
          try_then (decodeAddress sdk t1) (\<lambda>a.
          try_then (second_to_string sdk (ev_value event)) (\<lambda>m.
            ok_fields (no_fields\<lparr>f_address := Some a, f_amount := m\<rparr>))))
      else if ty = ''LoanApprv'' then
        try_then (sv_native sdk (ev_value event)) (\<lambda>data.
          case (tuple_entry 0 data, tuple_entry 1 data) of
            (Some l, Some b) \<Rightarrow>
              try_then (to_string sdk b) (\<lambda>a.
                ok_fields (no_fields\<lparr>f_loanId := Some (to_number sdk l), f_address := Some a\<rparr>))
          | _ \<Rightarrow> ok_fields no_fields)
      else if ty = ''LoanLiquidated'' then
        need_topic 1 event (\<lambda>t1. need_topic 2 event (\<lambda>t2.
          try_then (decodeAddress sdk t2) (\<lambda>a.
          try_then (decodeTupleFirstNumericValue sdk (ev_value event)) (\<lambda>m.
          try_then (decodeTupleThirdNumericValue sdk (ev_value event)) (\<lambda>b.
            ok_fields (no_fields\<lparr>f_loanId := decodeLoanId sdk t1, f_address := Some a, f_amount := m,
              f_borrowerRefund := b\<rparr>))))))
      else ok_fields no_fields)"

definition parse_fields :: "'v sdk \<Rightarrow> string \<Rightarrow> 'v SorobanRawEvent \<Rightarrow> string + event_fields option" where
  "parse_fields sdk ty event =
     (case parse_loan_fields sdk ty event of Some r \<Rightarrow> r | None \<Rightarrow> parse_other_fields sdk ty event)"

definition admin_address :: "'v sdk \<Rightarrow> string \<Rightarrow> 'v SorobanRawEvent \<Rightarrow> string option" where
  "admin_address sdk ty event =
     (if ty = ''LoanApprv'' then
        (case topic_at 1 event of
           None \<Rightarrow> None
         | Some t \<Rightarrow> (case decodeAddress sdk t of Inl _ \<Rightarrow> None | Inr a \<Rightarrow> Some a))
      else None)"

definition parseEvent :: "'v sdk \<Rightarrow> 'v SorobanRawEvent \<Rightarrow> string + ContractEvent option" where
  "parseEvent sdk event =
     (case decodeEventType sdk (topic_at 0 event) of
        None \<Rightarrow> Inr None
      | Some ty \<Rightarrow>
          try_then (parse_fields sdk ty event) (\<lambda>fs.
            Inr (case fs of
                   None \<Rightarrow> None
                 | Some f \<Rightarrow>
                     Some \<lparr>x_eventId = ev_id event, x_eventType = ty, x_ledger = ev_ledger event,
                           x_ledgerClosedAt = ev_ledgerClosedAt event, x_txHash = ev_txHash event,
                           x_contractId = ev_contractId event,
                           x_topics = map (sv_xdr sdk) (ev_topic event), x_value = sv_xdr sdk (ev_value event),
                           x_amount = f_amount f, x_loanId = f_loanId f,
                           x_interestRateBps = f_interestRateBps f, x_termLedgers = f_termLedgers f,
                           x_address = f_address f, x_adminAddress = admin_address sdk ty event,
                           x_borrowerRefund = f_borrowerRefund f\<rparr>)))"

definition isEventParseable :: "'v sdk \<Rightarrow> 'v SorobanRawEvent \<Rightarrow> bool" where
  "isEventParseable sdk event = (case parseEvent sdk event of Inr (Some _) \<Rightarrow> True | _ \<Rightarrow> False)"

subsection \<open>What decoding keeps\<close>

lemma nearest_double_exact: "\<bar>n\<bar> \<le> 2 ^ 53 \<Longrightarrow> nearest_double n = n"
proof -
  assume n: "\<bar>n\<bar> \<le> 2 ^ 53"
  define m where "m = nat \<bar>n\<bar>"
  then have sgn: "n = int m \<or> n = - int m" by auto
  have q: "(let u = 2 ^ (floorlog 2 m - 53); q = m div u; r = m mod u;
       q' = (if u < 2 * r \<or> (2 * r = u \<and> odd q) then q + 1 else q) in q' * u) = m"
  proof (cases "m = 2 ^ 53")
    case True
    have "floorlog 2 (1 * 2 ^ 53) = floorlog 2 1 + 53" by (rule floorlog_power) simp_all
    moreover have "floorlog 2 1 = 1" by (simp add: floorlog_def)
    ultimately have "floorlog 2 m - 53 = 1" unfolding True by simp
    then show ?thesis unfolding Let_def by (simp add: True)
  next
    case False
    with n have "m < 2 ^ 53" by (simp add: m_def)
    then have "floorlog 2 m \<le> 53" by (simp add: floorlog_leI)
    then have "floorlog 2 m - 53 = 0" by simp
    then show ?thesis unfolding Let_def by simp
  qed
  show ?thesis
    using q sgn unfolding nearest_double_def Let_def m_def [symmetric]
    by (cases "n < 0") (simp_all add: m_def)
qed

lemma decodeAmount_exact:
  "decodeAmount sdk v = Inr s \<Longrightarrow>
     \<exists>n. (sv_native sdk v = Inr (NBig n) \<or> sv_native sdk v = Inr (NNum n)) \<and> s = int_to_string n"
  by (cases "sv_native sdk v") (auto simp: decodeAmount_def split: native.split_asm)

lemma decodeEventType_supported:
  assumes "decodeEventType sdk v = Some ty"
  shows "ty \<in> set SUPPORTED_WEBHOOK_EVENT_TYPES \<and> ty \<notin> fst ` set EVENT_TYPE_ALIASES"
proof -
  obtain u raw where u: "v = Some u" "sv_sym sdk u = Some raw"
    using assms by (auto simp: decodeEventType_def split: option.splits)
  have al: "t \<in> snd ` set EVENT_TYPE_ALIASES" if "map_of EVENT_TYPE_ALIASES raw = Some t" for t
    using map_of_SomeD [OF that] by force
  have "snd ` set EVENT_TYPE_ALIASES \<inter> fst ` set EVENT_TYPE_ALIASES = {}"
    by (simp add: EVENT_TYPE_ALIASES_def)
  with assms u al show ?thesis
    by (auto simp: decodeEventType_def Let_def map_of_eq_None_iff split: option.splits if_splits)
qed

lemma parseEvent_Some:
  assumes "parseEvent sdk ev = Inr (Some x)"
  obtains f where "decodeEventType sdk (topic_at 0 ev) = Some (x_eventType x)"
    "parse_fields sdk (x_eventType x) ev = Inr (Some f)"
    "x_eventId x = ev_id ev" "x_ledger x = ev_ledger ev" "x_ledgerClosedAt x = ev_ledgerClosedAt ev"
    "x_txHash x = ev_txHash ev" "x_contractId x = ev_contractId ev" "x_amount x = f_amount f"
    "x_loanId x = f_loanId f" "x_address x = f_address f"
  using assms by (auto simp: parseEvent_def try_then_Inr split: option.splits)

lemma parseEvent_fields:
  assumes "parseEvent sdk ev = Inr (Some x)"
  obtains f where "decodeEventType sdk (topic_at 0 ev) = Some (x_eventType x)" "parse_fields sdk (x_eventType x) ev = Inr (Some f)"
    "x_eventId x = ev_id ev" "x_ledger x = ev_ledger ev" "x_txHash x = ev_txHash ev" "x_contractId x = ev_contractId ev"
    "x_amount x = f_amount f" "x_loanId x = f_loanId f" "x_interestRateBps x = f_interestRateBps f" "x_termLedgers x = f_termLedgers f"
  using assms by (auto simp: parseEvent_def try_then_Inr split: option.splits)

lemmas parse_loan_simps = parse_fields_def parse_loan_fields_def need_topic_def try_then_Inr ok_fields_def
  no_fields_def

lemma approved_fields_Some:
  "approved_fields sdk ev l a = Inr (Some f) \<Longrightarrow> f_loanId f = Some l \<and> f_address f = Some a"
  by (cases "sv_native sdk (ev_value ev)")
    (auto simp: approved_fields_def ok_fields_def split: option.splits js_number.splits)

lemma parse_liquidated:
  "parse_fields sdk ''CollateralLiquidated'' ev = Inr (Some f) \<Longrightarrow>
     f_address f = None \<and> (\<exists>m. decodeAmount sdk (ev_value ev) = Inr m \<and> f_amount f = Some m)"
  by (auto simp: parse_loan_simps split: option.splits)

text \<open>
  Where the chain puts things: the types whose value is the amount, those whose value is a tuple with the amount at an index, and
  the topic that holds the loan id.
\<close>

definition integer_amounts :: "string list" where
  "integer_amounts =
     [''LoanRequested'', ''LoanRepaid'', ''CollateralLiquidated'', ''NFTMinted'', ''ScoreUpdated'', ''LateFeeCharged'',
      ''CollateralReturned'', ''YieldDistributed'', ''CollateralDeposited'']"

definition tuple_amounts :: "(string \<times> nat) list" where
  "tuple_amounts =
     [(''Deposit'', 0), (''Withdraw'', 0), (''EmergencyWithdraw'', 0), (''LoanRefinanced'', 0), (''LoanLiquidated'', 0),
      (''LoanExtended'', 1), (''DepositCapUpdated'', 1), (''WithdrawalCooldownUpdated'', 1), (''ScoreDecr'', 1),
      (''InterestRateUpdated'', 1), (''DefaultTermUpdated'', 1), (''TermLimitsUpdated'', 1), (''MinScoreUpdated'', 1),
      (''LateFeeRateUpdated'', 1), (''GracePeriodUpdated'', 1), (''DefaultWindowUpdated'', 1), (''MaxLoanAmountUpdated'', 1),
      (''MinRepaymentUpdated'', 1), (''MaxLoansPerBorrower'', 1), (''MinRateBpsUpdated'', 1), (''MaxRateBpsUpdated'', 1)]"

definition loan_topics :: "(string \<times> nat) list" where
  "loan_topics =
     [(''LoanRequested'', 1), (''LoanApproved'', 1), (''LoanRepaid'', 2), (''LoanDefaulted'', 1), (''CollateralLiquidated'', 1),
      (''LoanRefinanced'', 1), (''LoanExtended'', 1), (''LoanRejected'', 1), (''LateFeeCharged'', 1), (''CollateralReturned'', 2),
      (''LoanLiquidated'', 1)]"

text \<open>An integer on the chain: a number or a bigint after decoding; as a JavaScript number it is exact up to \<open>2 ^ 53\<close>.\<close>

definition chain_integer :: "native \<Rightarrow> int \<Rightarrow> bool" where
  "chain_integer v n \<longleftrightarrow> v = NNum n \<or> v = NBig n"

definition exact_number :: "native \<Rightarrow> int \<Rightarrow> bool" where
  "exact_number v n \<longleftrightarrow> v = NNum n \<or> v = NBig n \<and> \<bar>n\<bar> \<le> 2 ^ 53"

lemmas parse_all_simps = parse_fields_def parse_loan_fields_def parse_other_fields_def need_topic_def try_then_Inr ok_fields_def
  no_fields_def admin_updated_types_def Let_def

lemma integer_amount:
  "ty \<in> set integer_amounts \<Longrightarrow> parse_fields sdk ty ev = Inr (Some f) \<Longrightarrow>
     \<exists>m. decodeAmount sdk (ev_value ev) = Inr m \<and> f_amount f = Some m"
  unfolding integer_amounts_def set_simps insert_iff empty_iff
  by (elim disjE) (auto simp: parse_all_simps split: option.splits)

lemma tuple_amount:
  "(ty, k) \<in> set tuple_amounts \<Longrightarrow> parse_fields sdk ty ev = Inr (Some f) \<Longrightarrow> sv_native sdk (ev_value ev) = Inr (NArr vs) \<Longrightarrow>
     k < length vs \<Longrightarrow> chain_integer (vs ! k) n \<Longrightarrow> f_amount f = Some (int_to_string n)"
  unfolding tuple_amounts_def set_simps insert_iff empty_iff prod.inject
  by (elim disjE conjE)
    (auto simp: parse_all_simps decodeTupleFirstNumericValue_def decodeTupleSecondNumericValue_def second_to_string_def
      decodeTupleThirdNumericValue_def tuple_entry_def numeric_text_def chain_integer_def split: option.splits)

lemma approved_fields_rates:
  assumes "approved_fields sdk ev l a = Inr (Some f)"
  shows "f_amount f = None \<and> (\<exists>v b c rate term_l. sv_native sdk (ev_value ev) = Inr v \<and> tuple_entry 0 v = Some b \<and> tuple_entry 1 v = Some c
           \<and> to_number sdk b = Num rate \<and> to_number sdk c = Num term_l
           \<and> f_interestRateBps f = Some (Num rate) \<and> f_termLedgers f = Some (Num term_l))"
proof (cases "sv_native sdk (ev_value ev)")
  case (Inr v)
  then show ?thesis using assms
    by (cases "tuple_entry 0 v"; cases "tuple_entry 1 v")
       (auto simp: approved_fields_def ok_fields_def no_fields_def split: js_number.splits)
qed (use assms in \<open>simp add: approved_fields_def\<close>)

lemma approvals_bare_amount:
  assumes "parse_fields sdk ''LoanApprv'' ev = Inr (Some f)"
  shows "f_amount f = None"
proof (cases "sv_native sdk (ev_value ev)")
  case (Inr v)
  then show ?thesis using assms
    by (cases "tuple_entry 0 v"; cases "tuple_entry 1 v") (auto simp: parse_all_simps)
qed (use assms in \<open>simp add: parse_all_simps\<close>)

lemma parse_approved_rates:
  assumes "parse_fields sdk ''LoanApproved'' ev = Inr (Some f)"
  shows "\<exists>vs rate term_l. sv_native sdk (ev_value ev) = Inr (NArr vs) \<and> 2 \<le> length vs
           \<and> to_number sdk (vs ! 0) = Num rate \<and> to_number sdk (vs ! 1) = Num term_l
           \<and> f_interestRateBps f = Some (Num rate) \<and> f_termLedgers f = Some (Num term_l)"
proof -
  obtain l a where "approved_fields sdk ev l a = Inr (Some f)"
    using assms by (auto simp: parse_fields_def parse_loan_fields_def need_topic_def try_then_Inr split: option.splits)
  from approved_fields_rates [OF this] obtain v b c rate term_l
    where v: "sv_native sdk (ev_value ev) = Inr v" "tuple_entry 0 v = Some b" "tuple_entry 1 v = Some c"
      "to_number sdk b = Num rate" "to_number sdk c = Num term_l" "f_interestRateBps f = Some (Num rate)" "f_termLedgers f = Some (Num term_l)"
    by blast
  from v(2,3) obtain vs where "v = NArr vs" "1 < length vs" "b = vs ! 0" "c = vs ! 1"
    by (cases v) (auto simp: tuple_entry_def split: if_splits)
  with v show ?thesis by auto
qed

text \<open>The types without an amount that carry something else.\<close>

definition bare_types :: "string list" where
  "bare_types =
     [''LoanApproved'', ''LoanDefaulted'', ''NFTSeized'', ''NFTBurned'', ''ProposalCreated'', ''ProposalApproved'', ''ProposalFinalized'',
      ''ProposalCancelled'', ''Transfer'', ''LoanCancelled'', ''LoanRejected'', ''RateOracleUpdated'', ''CollateralReleased'', ''LoanApprv'']"

lemma other_amount:
  assumes "ty \<notin> set integer_amounts" "ty \<notin> fst ` set tuple_amounts" "parse_fields sdk ty ev = Inr (Some f)"
  shows "f_amount f = None"
proof (cases "ty \<in> set bare_types")
  case True
  then show ?thesis using assms(3)
    unfolding bare_types_def set_simps insert_iff empty_iff
    by (elim disjE) (simp_all only: approvals_bare_amount, auto simp: parse_all_simps dest!: approved_fields_rates split: option.splits)
next
  case False
  then have "parse_fields sdk ty ev = ok_fields no_fields"
    using assms(1,2) by (simp add: integer_amounts_def tuple_amounts_def bare_types_def parse_all_simps)
  then show ?thesis using assms(3) by (simp add: ok_fields_def no_fields_def)
qed

lemma loan_topic:
  "(ty, k) \<in> set loan_topics \<Longrightarrow> parse_fields sdk ty ev = Inr (Some f) \<Longrightarrow>
     \<exists>t. topic_at k ev = Some t \<and> f_loanId f = decodeLoanId sdk t"
  unfolding loan_topics_def set_simps insert_iff empty_iff prod.inject
  by (elim disjE conjE) (auto simp: parse_all_simps dest!: approved_fields_Some split: option.splits)


text \<open>A concrete SDK over native values, and a repayment of loan 7 beyond the double range.\<close>

definition plain_sdk :: "native sdk" where
  "plain_sdk = \<lparr>sv_native = Inr, sv_sym = (\<lambda>v. case v of NStr s \<Rightarrow> Some s | _ \<Rightarrow> None), sv_xdr = (\<lambda>_. []),
     nv_number = (\<lambda>_. NaN), nv_string = (\<lambda>_. None)\<rparr>"

definition repaid_event :: "string \<Rightarrow> int \<Rightarrow> native SorobanRawEvent" where
  "repaid_event i l = \<lparr>ev_id = i, ev_topic = [NStr ''LoanRepaid'', NStr ''GA'', NBig 7],
     ev_value = NBig 90071992547409931, ev_ledger = l, ev_ledgerClosedAt = 0, ev_txHash = ''tx'',
     ev_contractId = ''C1''\<rparr>"

lemma repaid_event_parses:
  "parseEvent plain_sdk (repaid_event i l) = Inr (Some
     \<lparr>x_eventId = i, x_eventType = ''LoanRepaid'', x_ledger = l, x_ledgerClosedAt = 0, x_txHash = ''tx'',
      x_contractId = ''C1'', x_topics = [[], [], []], x_value = [],
      x_amount = Some (int_to_string 90071992547409931), x_loanId = Some (Num 7), x_interestRateBps = None,
      x_termLedgers = None, x_address = Some ''GA'', x_adminAddress = None, x_borrowerRefund = None\<rparr>)"
  by (simp add: parseEvent_def plain_sdk_def repaid_event_def topic_at_def decodeEventType_def
      EVENT_TYPE_ALIASES_def SUPPORTED_WEBHOOK_EVENT_TYPES_def parse_fields_def parse_loan_fields_def
      need_topic_def decodeAddress_def decodeAmount_def decodeLoanId_def ok_fields_def no_fields_def
      admin_address_def nearest_double_exact Let_def)


end
