(* ===== verification/EventStore.thy ===== *)
theory EventStore
  imports EventDecode ScoreReconciliation Money JsDate Json
begin

section \<open>Storing contract events (\<open>backend/src/services/eventIndexer.ts\<close>)\<close>

text \<open>
  \<open>storeEvents\<close>: quarantine of events that do not parse, one transaction that inserts the
  events, their audit rows and the score changes, and the announcements after the commit.
  \<open>insertedEvents\<close>, \<open>scoreUpdates\<close> and the cache are variables the transaction body captures,
  so they survive an attempt that is rolled back. The environment may fail any statement and
  any commit. The table has the columns the statement names and the unique constraints of the
  migrations: the event id; loan, type and ledger; loan and type for approvals and defaults.
  Log lines are not modelled, except the quarantine alert.
\<close>

subsection \<open>Tables and environment\<close>

record idx_audit =
  ia_actor :: string
  ia_action :: string
  ia_target :: string
  ia_payload :: json
  ia_ip_address :: "string option"
  ia_status :: int

record idx_db =
  ix_events :: "contract_event list"
  ix_audit :: "idx_audit list"
  ix_scores :: scores_table

record quarantine_event =
  q_event_id :: string
  q_ledger :: int
  q_tx_hash :: string
  q_contract_id :: string
  q_raw_xdr :: json
  q_error_message :: string

text \<open>
  \<open>pg_numeric\<close> is the cast of a text parameter to the amount column; \<open>stmt_fault a k\<close> and
  \<open>commit_fault a\<close> are the errors of statement \<open>k\<close> and of the commit of attempt \<open>a\<close>.
\<close>

record store_env =
  pg_numeric :: "string \<Rightarrow> db_error + string"
  score_repaymentDelta :: int
  score_defaultPenalty :: int
  stmt_fault :: "nat \<Rightarrow> nat \<Rightarrow> db_error option"
  commit_fault :: "nat \<Rightarrow> db_error option"
  quarantine_writable :: "string \<Rightarrow> bool"
  quarantine_count_readable :: bool
  quarantineAlertThreshold :: nat
  pause_persists :: "bool \<Rightarrow> string list \<Rightarrow> bool"

record 's store_vars =
  sv_insertedEvents :: "ContractEvent list"
  sv_scoreUpdates :: "(string \<times> int) list"
  sv_cache :: "'s cache_service"

subsection \<open>The insert\<close>

definition int_column :: "js_number option \<Rightarrow> db_error + int option" where
  "int_column v =
     (case v of
        None \<Rightarrow> Inr None
      | Some NaN \<Rightarrow> Inl (DbError ''22P02'')
      | Some (Num n) \<Rightarrow> if int4 n then Inr (Some n) else Inl (DbError ''22003''))"

definition text_column :: "string option \<Rightarrow> db_error + string option" where
  "text_column v =
     (case v of
        None \<Rightarrow> Inr None
      | Some s \<Rightarrow> if length s \<le> 255 then Inr (Some s) else Inl (DbError ''22001''))"

definition numeric_column :: "store_env \<Rightarrow> string option \<Rightarrow> db_error + string option" where
  "numeric_column env v = (case v of None \<Rightarrow> Inr None | Some s \<Rightarrow> map_sum id Some (pg_numeric env s))"

definition to_row :: "store_env \<Rightarrow> ContractEvent \<Rightarrow> db_error + contract_event" where
  "to_row env e =
     try_then (text_column (Some (x_eventId e))) (\<lambda>_.
     try_then (int_column (x_loanId e)) (\<lambda>loan.
     try_then (text_column (x_address e)) (\<lambda>addr.
     try_then (numeric_column env (x_amount e)) (\<lambda>amt.
     try_then (int_column (Some (Num (x_ledger e)))) (\<lambda>_.
     try_then (text_column (Some (x_txHash e))) (\<lambda>_.
     try_then (text_column (Some (x_contractId e))) (\<lambda>_.
     try_then (int_column (x_interestRateBps e)) (\<lambda>rate.
     try_then (int_column (x_termLedgers e)) (\<lambda>tl.
       Inr \<lparr>ce_event_id = x_eventId e, ce_event_type = x_eventType e, ce_loan_id = loan,
            ce_address = addr, ce_amount = amt, ce_ledger = x_ledger e,
            ce_ledger_closed_at = x_ledgerClosedAt e, ce_tx_hash = x_txHash e,
            ce_contract_id = x_contractId e, ce_topics = x_topics e, ce_value = x_value e,
            ce_interest_rate_bps = rate, ce_term_ledgers = tl\<rparr>)))))))))"

text \<open>The unique constraints; \<open>NULL\<close> loan ids never conflict.\<close>

definition conflicts :: "contract_event \<Rightarrow> contract_event \<Rightarrow> bool" where
  "conflicts a b \<longleftrightarrow>
     ce_event_id a = ce_event_id b
     \<or> (ce_loan_id a \<noteq> None \<and> ce_loan_id a = ce_loan_id b \<and> ce_event_type a = ce_event_type b
        \<and> (ce_ledger a = ce_ledger b \<or> ce_event_type a = ''LoanApproved''
           \<or> ce_event_type a = ''LoanDefaulted''))"

text \<open>\<open>INSERT ... ON CONFLICT DO NOTHING\<close>: the new table, or \<open>None\<close> when nothing was inserted.\<close>

definition insert_event ::
  "store_env \<Rightarrow> ContractEvent \<Rightarrow> contract_event list \<Rightarrow> db_error + contract_event list option" where
  "insert_event env e rows =
     try_then (to_row env e) (\<lambda>row.
       Inr (if \<exists>r\<in>set rows. conflicts row r then None else Some (rows @ [row])))"

subsection \<open>Audit rows and score deltas\<close>

definition json_number :: "js_number option \<Rightarrow> json" where
  "json_number v = (case v of Some (Num n) \<Rightarrow> JInt n | _ \<Rightarrow> JNull)"

definition json_text :: "string option \<Rightarrow> json" where
  "json_text v = (case v of None \<Rightarrow> JNull | Some s \<Rightarrow> JStr s)"

definition number_text :: "js_number \<Rightarrow> string" where
  "number_text v = (case v of NaN \<Rightarrow> ''NaN'' | Num n \<Rightarrow> int_to_string n)"

definition or_system :: "string option \<Rightarrow> string" where
  "or_system v = (case v of None \<Rightarrow> ''SYSTEM'' | Some s \<Rightarrow> s)"

definition admin_config_row :: "ContractEvent \<Rightarrow> idx_audit" where
  "admin_config_row e =
     \<lparr>ia_actor = or_system (x_address e), ia_action = ''ADMIN_CONFIG_'' @ x_eventType e,
      ia_target = ''contract:'' @ x_contractId e,
      ia_payload = JObj [(''eventId'', JStr (x_eventId e)), (''eventType'', JStr (x_eventType e)),
        (''loanId'', json_number (x_loanId e)), (''amount'', json_text (x_amount e)),
        (''ledger'', JInt (x_ledger e)), (''txHash'', JStr (x_txHash e))],
      ia_ip_address = Some ''internal-indexer'', ia_status = 200\<rparr>"

definition loan_approved_row :: "ContractEvent \<Rightarrow> idx_audit" where
  "loan_approved_row e =
     \<lparr>ia_actor = or_system (x_adminAddress e), ia_action = ''loan_approved'',
      ia_target = ''loan:'' @ (case x_loanId e of None \<Rightarrow> ''unknown'' | Some n \<Rightarrow> number_text n),
      ia_payload = JObj [(''eventId'', JStr (x_eventId e)), (''loanId'', json_number (x_loanId e)),
        (''borrower'', json_text (x_address e)), (''txHash'', JStr (x_txHash e))],
      ia_ip_address = None, ia_status = 200\<rparr>"

definition audit_rows :: "ContractEvent \<Rightarrow> idx_audit list" where
  "audit_rows e =
     (if isAdminConfigEventType (x_eventType e) then [admin_config_row e] else [])
     @ (if x_eventType e = ''LoanApprv'' then [loan_approved_row e] else [])"

definition map_add_delta :: "string \<Rightarrow> int \<Rightarrow> (string \<times> int) list \<Rightarrow> (string \<times> int) list" where
  "map_add_delta u d m = map_set u ((case map_of m u of None \<Rightarrow> 0 | Some x \<Rightarrow> x) + d) m"

definition score_delta :: "store_env \<Rightarrow> ContractEvent \<Rightarrow> (string \<times> int) option" where
  "score_delta env e =
     (case x_address e of
        None \<Rightarrow> None
      | Some a \<Rightarrow>
          if a = [] then None
          else if x_eventType e = ''LoanRepaid'' then Some (a, score_repaymentDelta env)
          else if x_eventType e = ''LoanDefaulted'' \<or> x_eventType e = ''CollateralLiquidated''
            then Some (a, - score_defaultPenalty env)
          else None)"

definition collect_delta :: "store_env \<Rightarrow> ContractEvent \<Rightarrow> (string \<times> int) list \<Rightarrow> (string \<times> int) list" where
  "collect_delta env e m = (case score_delta env e of None \<Rightarrow> m | Some (u, d) \<Rightarrow> map_add_delta u d m)"

subsection \<open>The transaction\<close>

text \<open>Statement \<open>2 * k\<close> inserts event \<open>k\<close>, statement \<open>2 * k + 1\<close> its audit row.\<close>

definition store_one ::
  "store_env \<Rightarrow> db_error option \<Rightarrow> ContractEvent \<Rightarrow> 's store_vars \<Rightarrow> idx_db
     \<Rightarrow> (db_error + idx_db) \<times> 's store_vars" where
  "store_one env auditFault e v db =
     (case insert_event env e (ix_events db) of
        Inl err \<Rightarrow> (Inl err, v)
      | Inr None \<Rightarrow> (Inr db, v)
      | Inr (Some rows) \<Rightarrow>
          let v1 = v\<lparr>sv_insertedEvents := sv_insertedEvents v @ [e]\<rparr> in
          if audit_rows e \<noteq> [] \<and> auditFault \<noteq> None then (Inl (the auditFault), v1)
          else (Inr (db\<lparr>ix_events := rows, ix_audit := ix_audit db @ audit_rows e\<rparr>),
                v1\<lparr>sv_scoreUpdates := collect_delta env e (sv_scoreUpdates v)\<rparr>))"

fun store_all ::
  "store_env \<Rightarrow> nat \<Rightarrow> nat \<Rightarrow> ContractEvent list \<Rightarrow> 's store_vars \<Rightarrow> idx_db
     \<Rightarrow> (db_error + idx_db) \<times> 's store_vars" where
  "store_all env attempt k [] v db = (Inr db, v)"
| "store_all env attempt k (e # es) v db =
     (case stmt_fault env attempt (2 * k) of
        Some err \<Rightarrow> (Inl err, v)
      | None \<Rightarrow>
          (case store_one env (stmt_fault env attempt (2 * k + 1)) e v db of
             (Inl err, v1) \<Rightarrow> (Inl err, v1)
           | (Inr db1, v1) \<Rightarrow> store_all env attempt (Suc k) es v1 db1))"

definition store_body ::
  "'s redis \<Rightarrow> store_env \<Rightarrow> ContractEvent list \<Rightarrow> nat \<Rightarrow> 's store_vars \<Rightarrow> idx_db
     \<Rightarrow> (db_error + unit \<times> idx_db) \<times> 's store_vars" where
  "store_body r env parsedEvents attempt v db =
     (case store_all env attempt 0 parsedEvents v db of
        (Inl err, v1) \<Rightarrow> (Inl err, v1)
      | (Inr db1, v1) \<Rightarrow>
          (case updateUserScoresBulk r (sv_scoreUpdates v1) (ix_scores db1, sv_cache v1) of
             Inl err \<Rightarrow> (Inl err, v1)
           | Inr (t, c) \<Rightarrow>
               (case commit_fault env attempt of
                  Some err \<Rightarrow> (Inl err, v1\<lparr>sv_cache := c\<rparr>)
                | None \<Rightarrow> (Inr ((), db1\<lparr>ix_scores := t\<rparr>), v1\<lparr>sv_cache := c\<rparr>))))"

subsection \<open>Announcements\<close>

text \<open>\<open>BigInt\<close> of a text: an optional sign and decimal digits, white space around it, or nothing.
  Literals with a radix prefix are not read.\<close>

definition big_int :: "string \<Rightarrow> int option" where
  "big_int s =
     (let t = trim s;
          neg = (t \<noteq> [] \<and> hd t = CHR ''-'');
          ds = (if t \<noteq> [] \<and> (hd t = CHR ''-'' \<or> hd t = CHR ''+'') then drop 1 t else t)
      in if t = [] then Some 0
         else if ds \<noteq> [] \<and> list_all is_digit ds
           then Some (if neg then - int (string_to_nat ds) else int (string_to_nat ds))
         else None)"

record stream_event =
  m_eventId :: string
  m_eventType :: string
  m_loanId :: "js_number option"
  m_address :: "string option"
  m_amount :: "string option"
  m_amountDisplay :: "string option"
  m_ledger :: int
  m_ledgerClosedAt :: string
  m_txHash :: string

record notification =
  n_userId :: string
  n_type :: string
  n_title :: string
  n_message :: string
  n_loanId :: "js_number option"

datatype announcement =
    Dispatched ContractEvent
  | Broadcast stream_event
  | Published stream_event
  | Notified notification
  | PauseSet bool "string list" string
  | QuarantineAlert nat

definition stream_of :: "ContractEvent \<Rightarrow> string option \<Rightarrow> stream_event" where
  "stream_of e display =
     \<lparr>m_eventId = x_eventId e, m_eventType = x_eventType e, m_loanId = x_loanId e,
      m_address = x_address e, m_amount = x_amount e, m_amountDisplay = display,
      m_ledger = x_ledger e, m_ledgerClosedAt = toISOString (x_ledgerClosedAt e), m_txHash = x_txHash e\<rparr>"

definition broadcast_message :: "ContractEvent \<Rightarrow> stream_event option" where
  "broadcast_message e =
     (case x_amount e of
        None \<Rightarrow> Some (stream_of e None)
      | Some a \<Rightarrow> map_option (\<lambda>n. stream_of e (Some (fromStroops n))) (big_int a))"

definition loan_text :: "js_number option \<Rightarrow> (string \<Rightarrow> string) \<Rightarrow> string \<Rightarrow> string" where
  "loan_text l f otherwise =
     (case l of Some (Num n) \<Rightarrow> if n \<noteq> 0 then f (int_to_string n) else otherwise | _ \<Rightarrow> otherwise)"

definition refund_part :: "string option \<Rightarrow> string option" where
  "refund_part refund =
     (case refund of
        None \<Rightarrow> Some ''No refund is owed.''
      | Some s \<Rightarrow>
          if s = [] then Some ''No refund is owed.''
          else map_option (\<lambda>n. if 0 < n then ''A refund of '' @ s @ '' has been returned to you.''
                               else ''No refund is owed.'') (big_int s))"

definition notification_text :: "ContractEvent \<Rightarrow> (string \<times> string \<times> string) option" where
  "notification_text e =
     (if x_eventType e = ''LoanApproved'' then
        Some (''loan_approved'', ''Loan Approved'',
          loan_text (x_loanId e) (\<lambda>l. ''Your loan #'' @ l @ '' has been approved.'')
            ''Your loan has been approved.'')
      else if x_eventType e = ''LoanRepaid'' then
        Some (''repayment_confirmed'', ''Repayment Confirmed'',
          loan_text (x_loanId e) (\<lambda>l. ''Repayment for loan #'' @ l @ '' has been confirmed.'')
            ''Your loan repayment has been confirmed.'')
      else if x_eventType e = ''LoanDefaulted'' then
        Some (''loan_defaulted'', ''Loan Defaulted'',
          loan_text (x_loanId e) (\<lambda>l. ''Loan #'' @ l @ '' has been marked as defaulted.'')
            ''A loan has been marked as defaulted.'')
      else if x_eventType e = ''CollateralLiquidated'' then
        Some (''loan_defaulted'', ''Collateral Seized'',
          loan_text (x_loanId e) (\<lambda>l. ''Collateral for loan #'' @ l @ '' has been seized due to default.'')
            ''Collateral has been seized due to a loan default.'')
      else if x_eventType e = ''LoanLiquidated'' then
        map_option (\<lambda>part. (''loan_liquidated'', ''Loan Liquidated'',
          loan_text (x_loanId e)
            (\<lambda>l. ''Loan #'' @ l @ '' has been liquidated. Your debt has been cleared. '' @ part)
            (''Your loan has been liquidated. Your debt has been cleared. '' @ part)))
          (refund_part (x_borrowerRefund e))
      else None)"

definition triggerNotification :: "ContractEvent \<Rightarrow> announcement list" where
  "triggerNotification e =
     (case x_address e of
        None \<Rightarrow> []
      | Some a \<Rightarrow>
          if a = [] then []
          else (case notification_text e of
                  None \<Rightarrow> []
                | Some (ty, title, message) \<Rightarrow>
                    [Notified \<lparr>n_userId = a, n_type = ty, n_title = title, n_message = message,
                               n_loanId = x_loanId e\<rparr>]))"

text \<open>What is announced of one event, and whether the loop goes on after it.\<close>

definition announce :: "store_env \<Rightarrow> ContractEvent \<Rightarrow> announcement list \<times> bool" where
  "announce env e =
     (case broadcast_message e of
        None \<Rightarrow> ([Dispatched e], False)
      | Some m \<Rightarrow>
          let common = [Dispatched e, Broadcast m, Published (stream_of e None)] @ triggerNotification e in
          if x_eventType e = ''PoolPaused''
            then (common @ [PauseSet True [x_contractId e] ''Emergency pause triggered by contract''],
                  pause_persists env True [x_contractId e])
          else if x_eventType e = ''PoolUnpaused''
            then (common @ [PauseSet False [] ''Contract pause lifted''], pause_persists env False [])
          else (common, True))"

fun announce_all :: "store_env \<Rightarrow> ContractEvent list \<Rightarrow> announcement list \<times> bool" where
  "announce_all env [] = ([], True)"
| "announce_all env (e # es) =
     (case announce env e of
        (out, False) \<Rightarrow> (out, False)
      | (out, True) \<Rightarrow> (case announce_all env es of (rest, ok) \<Rightarrow> (out @ rest, ok)))"

subsection \<open>\<open>storeEvents\<close>\<close>

record 's store_state =
  st_db :: idx_db
  st_quarantine :: "quarantine_event list"
  st_lastObservedQuarantineCount :: nat
  st_cache :: "'s cache_service"

definition quarantineEvent ::
  "'v sdk \<Rightarrow> store_env \<Rightarrow> 'v SorobanRawEvent \<Rightarrow> string \<Rightarrow> quarantine_event list \<Rightarrow> quarantine_event list" where
  "quarantineEvent sdk env ev errorMessage rows =
     (if \<not> quarantine_writable env (ev_id ev) \<or> (\<exists>q\<in>set rows. q_event_id q = ev_id ev) then rows
      else rows @ [\<lparr>q_event_id = ev_id ev, q_ledger = ev_ledger ev, q_tx_hash = ev_txHash ev,
        q_contract_id = ev_contractId ev,
        q_raw_xdr = JObj [(''id'', JStr (ev_id ev)),
          (''topics'', JArr (map (JStr \<circ> sv_xdr sdk) (ev_topic ev))),
          (''value'', JStr (sv_xdr sdk (ev_value ev))), (''ledger'', JInt (ev_ledger ev)),
          (''ledgerClosedAt'', JStr (toISOString (ev_ledgerClosedAt ev))),
          (''txHash'', JStr (ev_txHash ev)), (''contractId'', JStr (ev_contractId ev))],
        q_error_message = errorMessage\<rparr>])"

text \<open>The parsed events in order, the number of parse errors, and the quarantine after them.\<close>

fun parse_all ::
  "'v sdk \<Rightarrow> store_env \<Rightarrow> 'v SorobanRawEvent list \<Rightarrow> quarantine_event list
     \<Rightarrow> ContractEvent list \<times> nat \<times> quarantine_event list" where
  "parse_all sdk env [] q = ([], 0, q)"
| "parse_all sdk env (ev # evs) q =
     (case parseEvent sdk ev of
        Inl err \<Rightarrow>
          (case parse_all sdk env evs (quarantineEvent sdk env ev err q) of
             (es, n, q1) \<Rightarrow> (es, Suc n, q1))
      | Inr None \<Rightarrow> parse_all sdk env evs q
      | Inr (Some e) \<Rightarrow> (case parse_all sdk env evs q of (es, n, q1) \<Rightarrow> (e # es, n, q1)))"

definition logQuarantineGrowth :: "store_env \<Rightarrow> 's store_state \<Rightarrow> announcement list \<times> 's store_state" where
  "logQuarantineGrowth env st =
     (if \<not> quarantine_count_readable env then ([], st)
      else
        let totalCount = length (st_quarantine st);
            previousCount = st_lastObservedQuarantineCount st
        in (if previousCount < totalCount \<and> previousCount < quarantineAlertThreshold env
               \<and> quarantineAlertThreshold env \<le> totalCount
            then [QuarantineAlert totalCount] else [],
            st\<lparr>st_lastObservedQuarantineCount := max previousCount totalCount\<rparr>))"

datatype store_error = TransactionFailed db_error | AnnouncementFailed

text \<open>From the transaction on: its result, then the announcements of the inserted events.\<close>

definition after_transaction ::
  "store_env \<Rightarrow> announcement list \<Rightarrow> 's store_state \<Rightarrow> (db_error + unit) \<times> 's store_vars \<times> idx_db
     \<Rightarrow> (store_error + nat) \<times> announcement list \<times> 's store_state" where
  "after_transaction env alerts st res =
     (case res of
        (Inl err, v, db) \<Rightarrow>
          (Inl (TransactionFailed err), alerts, st\<lparr>st_db := db, st_cache := sv_cache v\<rparr>)
      | (Inr _, v, db) \<Rightarrow>
          (case announce_all env (sv_insertedEvents v) of
             (out, ok) \<Rightarrow>
               (if ok then Inr (length (sv_insertedEvents v)) else Inl AnnouncementFailed,
                alerts @ out, st\<lparr>st_db := db, st_cache := sv_cache v\<rparr>)))"

definition storeEvents ::
  "'v sdk \<Rightarrow> 's redis \<Rightarrow> store_env \<Rightarrow> 'v SorobanRawEvent list \<Rightarrow> 's store_state
     \<Rightarrow> (store_error + nat) \<times> announcement list \<times> 's store_state" where
  "storeEvents sdk r env evs st =
     (case parse_all sdk env evs (st_quarantine st) of
        (parsedEvents, quarantineAttempts, q) \<Rightarrow>
          (case (if 0 < quarantineAttempts then logQuarantineGrowth env (st\<lparr>st_quarantine := q\<rparr>)
                 else ([], st\<lparr>st_quarantine := q\<rparr>)) of
             (alerts, st1) \<Rightarrow>
               if parsedEvents = [] then (Inr 0, alerts, st1)
               else after_transaction env alerts st1
                      (withTransaction (store_body r env parsedEvents)
                         \<lparr>sv_insertedEvents = [], sv_scoreUpdates = [], sv_cache = st_cache st1\<rparr>
                         (st_db st1))))"

subsection \<open>One insert\<close>

definition clash :: "contract_event \<Rightarrow> contract_event list \<Rightarrow> bool" where
  "clash row rows \<longleftrightarrow> (\<exists>r\<in>set rows. conflicts row r)"

lemma conflicts_refl [simp]: "conflicts a a"
  by (simp add: conflicts_def)

lemma conflicts_sym: "conflicts a b \<Longrightarrow> conflicts b a"
  by (auto simp: conflicts_def)

lemma clash_append [simp]: "clash row (xs @ ys) \<longleftrightarrow> clash row xs \<or> clash row ys"
  by (auto simp: clash_def)

lemma clash_self [simp]: "clash row [row]"
  by (simp add: clash_def)

lemma to_row_cong: "pg_numeric env = pg_numeric env' \<Longrightarrow> to_row env e = to_row env' e"
  by (simp add: to_row_def numeric_column_def cong: option.case_cong)

definition added :: "store_env \<Rightarrow> ContractEvent \<Rightarrow> contract_event \<Rightarrow> idx_db \<Rightarrow> idx_db" where
  "added env e row db = db\<lparr>ix_events := ix_events db @ [row], ix_audit := ix_audit db @ audit_rows e\<rparr>"

definition noted :: "store_env \<Rightarrow> ContractEvent \<Rightarrow> 's store_vars \<Rightarrow> 's store_vars" where
  "noted env e v = v\<lparr>sv_insertedEvents := sv_insertedEvents v @ [e],
     sv_scoreUpdates := collect_delta env e (sv_scoreUpdates v)\<rparr>"

lemma store_one_Inr:
  "store_one env f e v db = (Inr db1, v1) \<Longrightarrow>
     \<exists>row. to_row env e = Inr row \<and>
       (if clash row (ix_events db) then db1 = db \<and> v1 = v
        else db1 = added env e row db \<and> v1 = noted env e v)"
  by (cases "to_row env e")
    (auto simp: store_one_def insert_event_def clash_def added_def noted_def Let_def split: if_splits)

lemma store_one_clash:
  "to_row env e = Inr row \<Longrightarrow> clash row (ix_events db) \<Longrightarrow> store_one env f e v db = (Inr db, v)"
  by (auto simp: store_one_def insert_event_def clash_def)

lemma store_one_fresh:
  "to_row env e = Inr row \<Longrightarrow> \<not> clash row (ix_events db) \<Longrightarrow>
     store_one env None e v db = (Inr (added env e row db), noted env e v)"
  by (auto simp: store_one_def insert_event_def clash_def added_def noted_def Let_def)

subsection \<open>Replays\<close>

lemma store_all_covers:
  "store_all env a k es v db = (Inr db', v') \<Longrightarrow>
     (\<exists>new. ix_events db' = ix_events db @ new)
     \<and> (\<forall>e\<in>set es. \<exists>row. to_row env e = Inr row \<and> clash row (ix_events db'))"
proof (induction es arbitrary: k v db)
  case (Cons e es)
  from Cons.prems obtain f db1 v1 where one: "store_one env f e v db = (Inr db1, v1)"
    and rest: "store_all env a (Suc k) es v1 db1 = (Inr db', v')"
    by (auto split: option.splits prod.splits sum.splits)
  from store_one_Inr [OF one] obtain row where row: "to_row env e = Inr row"
    "clash row (ix_events db1)" "\<exists>new. ix_events db1 = ix_events db @ new"
    by (auto simp: added_def split: if_splits)
  with Cons.IH [OF rest] show ?case by (auto simp: clash_def)
qed simp

lemma store_all_replay:
  assumes "\<forall>e\<in>set es. \<exists>row. to_row env e = Inr row \<and> clash row (ix_events db)"
  shows "snd (store_all env a k es v db) = v \<and> (\<forall>db'. fst (store_all env a k es v db) = Inr db' \<longrightarrow> db' = db)"
  using assms
proof (induction es arbitrary: k)
  case (Cons e es)
  then obtain row where "to_row env e = Inr row" "clash row (ix_events db)" by auto
  then have "store_one env f e v db = (Inr db, v)" for f by (rule store_one_clash)
  with Cons show ?case by (simp split: option.splits)
qed simp

lemma updateUserScoresBulk_none [simp]: "updateUserScoresBulk r [] st = Inr st"
  by (simp add: updateUserScoresBulk_def)

definition idle_vars :: "'s store_vars \<Rightarrow> bool" where
  "idle_vars v \<longleftrightarrow> sv_insertedEvents v = [] \<and> sv_scoreUpdates v = []"

lemma store_body_replay:
  assumes "\<forall>e\<in>set es. \<exists>row. to_row env e = Inr row \<and> clash row (ix_events db)" "idle_vars v"
  shows "idle_vars (snd (store_body r env es a v db))
    \<and> (\<forall>x db'. fst (store_body r env es a v db) = Inr (x, db') \<longrightarrow> db' = db)"
proof -
  obtain res v1 where eq: "store_all env a 0 es v db = (res, v1)" by (cases "store_all env a 0 es v db")
  with store_all_replay [OF assms(1), of a 0 v] have "v1 = v" "\<forall>db'. res = Inr db' \<longrightarrow> db' = db" by auto
  with eq assms(2) show ?thesis
    by (auto simp: store_body_def idle_vars_def split: sum.splits option.splits)
qed

subsection \<open>The parsed events of a batch\<close>

definition parsed_events :: "'v sdk \<Rightarrow> 'v SorobanRawEvent list \<Rightarrow> ContractEvent list" where
  "parsed_events sdk evs = List.map_filter (\<lambda>ev. case parseEvent sdk ev of Inr r \<Rightarrow> r | Inl _ \<Rightarrow> None) evs"

lemma parse_all_events: "fst (parse_all sdk env evs q) = parsed_events sdk evs"
proof (induction evs arbitrary: q)
  case (Cons ev evs)
  have IH: "\<And>q. fst (parse_all sdk env evs q) = parsed_events sdk evs" by (rule Cons.IH)
  show ?case
  proof (cases "parseEvent sdk ev")
    case (Inl err)
    then show ?thesis using IH [of "quarantineEvent sdk env ev err q"]
      by (auto simp: parsed_events_def List.map_filter_simps split: prod.splits)
  next
    case (Inr res)
    then show ?thesis using IH [of q]
      by (cases res) (auto simp: parsed_events_def List.map_filter_simps split: prod.splits)
  qed
qed (simp add: parsed_events_def List.map_filter_simps)

definition start_vars :: "'s store_state \<Rightarrow> 's store_vars" where
  "start_vars st = \<lparr>sv_insertedEvents = [], sv_scoreUpdates = [], sv_cache = st_cache st\<rparr>"

text \<open>\<open>storeEvents\<close> as its transaction followed by its announcements.\<close>

definition run_tx ::
  "'s redis \<Rightarrow> store_env \<Rightarrow> ContractEvent list \<Rightarrow> 's store_state \<Rightarrow> (db_error + unit) \<times> 's store_vars \<times> idx_db" where
  "run_tx r env es st =
     (if es = [] then (Inr (), start_vars st, st_db st)
      else withTransaction (store_body r env es) (start_vars st) (st_db st))"

definition outcome :: "store_env \<Rightarrow> (db_error + unit) \<times> 's store_vars \<times> idx_db \<Rightarrow> store_error + nat" where
  "outcome env res =
     (case res of
        (Inl err, v, db) \<Rightarrow> Inl (TransactionFailed err)
      | (Inr _, v, db) \<Rightarrow>
          if snd (announce_all env (sv_insertedEvents v)) then Inr (length (sv_insertedEvents v))
          else Inl AnnouncementFailed)"

definition announced :: "store_env \<Rightarrow> (db_error + unit) \<times> 's store_vars \<times> idx_db \<Rightarrow> announcement list" where
  "announced env res =
     (case res of (Inl err, v, db) \<Rightarrow> [] | (Inr _, v, db) \<Rightarrow> fst (announce_all env (sv_insertedEvents v)))"

lemma storeEvents_run:
  "fst (storeEvents sdk r env evs st) = outcome env (run_tx r env (parsed_events sdk evs) st)
   \<and> (\<exists>alerts. set alerts \<subseteq> range QuarantineAlert
        \<and> fst (snd (storeEvents sdk r env evs st)) =
            alerts @ announced env (run_tx r env (parsed_events sdk evs) st))
   \<and> st_db (snd (snd (storeEvents sdk r env evs st))) = snd (snd (run_tx r env (parsed_events sdk evs) st))"
proof -
  obtain es n q where pa: "parse_all sdk env evs (st_quarantine st) = (es, n, q)"
    by (cases "parse_all sdk env evs (st_quarantine st)") auto
  then have es: "parsed_events sdk evs = es" using parse_all_events [of sdk env evs] by (metis fst_conv)
  obtain alerts st1 where lg: "(if 0 < n then logQuarantineGrowth env (st\<lparr>st_quarantine := q\<rparr>)
      else ([], st\<lparr>st_quarantine := q\<rparr>)) = (alerts, st1)" by fastforce
  have st1: "st_db st1 = st_db st" "st_cache st1 = st_cache st" and al: "set alerts \<subseteq> range QuarantineAlert"
    using lg by (auto simp: logQuarantineGrowth_def Let_def split: if_splits)
  obtain res v db where run: "run_tx r env es st = (res, v, db)" by (cases "run_tx r env es st") auto
  obtain out ok where an: "announce_all env (sv_insertedEvents v) = (out, ok)" by fastforce
  show ?thesis
  proof (cases "es = []")
    case True
    with run have "res = Inr ()" "v = start_vars st" "db = st_db st" by (auto simp: run_tx_def)
    with True al show ?thesis unfolding es run
      by (simp add: storeEvents_def pa lg st1 outcome_def announced_def start_vars_def)
  next
    case False
    then have tx: "withTransaction (store_body r env es)
        \<lparr>sv_insertedEvents = [], sv_scoreUpdates = [], sv_cache = st_cache st\<rparr> (st_db st) = (res, v, db)"
      using run by (simp add: run_tx_def start_vars_def)
    have "storeEvents sdk r env evs st = after_transaction env alerts st1 (res, v, db)"
      using False by (simp only: storeEvents_def pa lg st1 tx prod.case if_False)
    with al show ?thesis unfolding es run
      by (cases res) (auto simp: outcome_def announced_def after_transaction_def an)
  qed
qed

lemmas storeEvents_result = storeEvents_run [THEN conjunct1]
lemmas storeEvents_out = storeEvents_run [THEN conjunct2, THEN conjunct1]
lemmas storeEvents_db = storeEvents_run [THEN conjunct2, THEN conjunct2]

subsection \<open>Properties of storing\<close>

lemma run_tx_rule:
  assumes "I (start_vars st)"
    and "\<And>k v err v'. I v \<Longrightarrow> store_body r env es k v (st_db st) = (Inl err, v') \<Longrightarrow> I v'"
    and "\<And>k v db' v'. I v \<Longrightarrow> store_body r env es k v (st_db st) = (Inr ((), db'), v') \<Longrightarrow> Q v' db'"
    and "es = [] \<Longrightarrow> Q (start_vars st) (st_db st)"
  shows "tx_post I (\<lambda>_. Q) (st_db st) (run_tx r env es st)"
proof (cases "es = []")
  case True
  then show ?thesis using assms(4) by (simp add: run_tx_def tx_post_def)
next
  case False
  then show ?thesis
    using withTransaction_rule [of I "start_vars st" "store_body r env es" "st_db st" "\<lambda>_. Q"] assms(1-3)
    by (simp add: run_tx_def)
qed

lemma run_tx_covers:
  assumes "run_tx r env es st = (Inr x, v, db)"
  shows "\<forall>e\<in>set es. \<exists>row. to_row env e = Inr row \<and> clash row (ix_events db)"
proof -
  have "tx_post (\<lambda>_. True) (\<lambda>_ v db. \<forall>e\<in>set es. \<exists>row. to_row env e = Inr row \<and> clash row (ix_events db))
      (st_db st) (run_tx r env es st)"
    by (rule run_tx_rule)
      (auto simp: store_body_def dest!: store_all_covers split: prod.splits sum.splits option.splits)
  with assms show ?thesis by (simp add: tx_post_def)
qed

lemma run_tx_replay:
  assumes "\<forall>e\<in>set es. \<exists>row. to_row env e = Inr row \<and> clash row (ix_events (st_db st))"
  shows "idle_vars (fst (snd (run_tx r env es st))) \<and> snd (snd (run_tx r env es st)) = st_db st"
proof -
  have "tx_post idle_vars (\<lambda>_ v db. idle_vars v \<and> db = st_db st) (st_db st) (run_tx r env es st)"
  proof (rule run_tx_rule)
    show "idle_vars (start_vars st)" by (simp add: idle_vars_def start_vars_def)
    show "idle_vars v'" if "idle_vars v" "store_body r env es k v (st_db st) = (Inl err, v')" for k v err v'
      using store_body_replay [OF assms that(1), of r k] that(2) by simp
    show "idle_vars v' \<and> db' = st_db st"
      if "idle_vars v" "store_body r env es k v (st_db st) = (Inr ((), db'), v')" for k v db' v'
      using store_body_replay [OF assms that(1), of r k] that(2) by simp
    show "idle_vars (start_vars st) \<and> st_db st = st_db st" by (simp add: idle_vars_def start_vars_def)
  qed
  then show ?thesis by (auto simp: tx_post_def split: prod.splits sum.splits)
qed

lemma storeEvents_replay:
  assumes "\<And>err. fst (storeEvents sdk r env evs st) \<noteq> Inl (TransactionFailed err)"
    and "pg_numeric env' = pg_numeric env"
    and "st' = snd (snd (storeEvents sdk r env evs st))"
  shows "st_db (snd (snd (storeEvents sdk r env' evs st'))) = st_db st'
    \<and> (\<forall>n. fst (storeEvents sdk r env' evs st') = Inr n \<longrightarrow> n = 0)
    \<and> set (fst (snd (storeEvents sdk r env' evs st'))) \<subseteq> range QuarantineAlert"
proof -
  let ?es = "parsed_events sdk evs"
  obtain res v db where run: "run_tx r env ?es st = (res, v, db)" by (cases "run_tx r env ?es st") auto
  obtain x where x: "res = Inr x"
    using assms(1) run by (cases res) (auto simp: storeEvents_result outcome_def)
  have db: "st_db st' = db" using run assms(3) by (simp add: storeEvents_db)
  have cov: "\<forall>e\<in>set ?es. \<exists>row. to_row env' e = Inr row \<and> clash row (ix_events (st_db st'))"
    using run_tx_covers [OF run [unfolded x]] to_row_cong [OF assms(2)] db by metis
  obtain res' v' db' where run': "run_tx r env' ?es st' = (res', v', db')"
    by (cases "run_tx r env' ?es st'") auto
  with run_tx_replay [OF cov, of r] have idle: "sv_insertedEvents v' = []" "db' = st_db st'"
    by (auto simp: idle_vars_def)
  have out: "announced env' (res', v', db') = []" "outcome env' (res', v', db') = Inr n \<longrightarrow> n = 0" for n
    using idle by (auto simp: announced_def outcome_def split: sum.splits)
  obtain alerts where "set alerts \<subseteq> range QuarantineAlert" "fst (snd (storeEvents sdk r env' evs st')) = alerts"
    using storeEvents_out [of sdk r env' evs st'] run' out by auto
  then show ?thesis
    using out idle run' by (simp add: storeEvents_db storeEvents_result)
qed

text \<open>
  C3. Indexing is idempotent: once a batch has been committed, storing it again, whatever
  faults the second run meets, changes no event, audit row or score, inserts nothing and
  announces nothing but a quarantine alert.
\<close>

theorem storeEvents_idempotent:
  assumes "\<And>err. fst (storeEvents sdk r env evs st) \<noteq> Inl (TransactionFailed err)"
    and "pg_numeric env' = pg_numeric env"
    and "st' = snd (snd (storeEvents sdk r env evs st))"
  shows "st_db (snd (snd (storeEvents sdk r env' evs st'))) = st_db st'
    \<and> (\<forall>n. fst (storeEvents sdk r env' evs st') = Inr n \<longrightarrow> n = 0)
    \<and> set (fst (snd (storeEvents sdk r env' evs st'))) \<subseteq> range QuarantineAlert"
  by (rule storeEvents_replay [OF assms])

text \<open>The unique constraints as an invariant of the table.\<close>

definition unique_rows :: "contract_event list \<Rightarrow> bool" where
  "unique_rows rows \<longleftrightarrow> distinct (map ce_event_id rows)
     \<and> (\<forall>a\<in>set rows. \<forall>b\<in>set rows. conflicts a b \<longrightarrow> a = b)"

lemma unique_rows_add: "unique_rows rows \<Longrightarrow> \<not> clash row rows \<Longrightarrow> unique_rows (rows @ [row])"
  by (auto simp: unique_rows_def clash_def dest: conflicts_sym) (auto simp: conflicts_def)

lemma store_all_unique:
  "store_all env a k es v db = (Inr db', v') \<Longrightarrow> unique_rows (ix_events db) \<Longrightarrow>
     unique_rows (ix_events db') \<and> ix_scores db' = ix_scores db
     \<and> (\<exists>more. ix_audit db' = ix_audit db @ more) \<and> (\<exists>new. ix_events db' = ix_events db @ new)"
proof (induction es arbitrary: k v db)
  case (Cons e es)
  from Cons.prems obtain f db1 v1 where one: "store_one env f e v db = (Inr db1, v1)"
    and rest: "store_all env a (Suc k) es v1 db1 = (Inr db', v')"
    by (auto split: option.splits prod.splits sum.splits)
  from store_one_Inr [OF one] Cons.prems(2) have "unique_rows (ix_events db1)" "ix_scores db1 = ix_scores db"
    "\<exists>more. ix_audit db1 = ix_audit db @ more" "\<exists>new. ix_events db1 = ix_events db @ new"
    by (auto simp: added_def unique_rows_add split: if_splits)
  with Cons.IH [OF rest] show ?case by auto
qed simp

text \<open>
  C5. The event table stays well formed through every run, failed ones included: no event is
  stored twice, a loan has at most one approval and one default, stored events and audit rows
  are never changed or removed, and scores stay within 300..850.
\<close>

theorem storeEvents_invariant:
  assumes "unique_rows (ix_events (st_db st))" "in_band (ix_scores (st_db st))"
    and "db' = st_db (snd (snd (storeEvents sdk r env evs st)))"
  shows "unique_rows (ix_events db') \<and> in_band (ix_scores db')
    \<and> (\<exists>new. ix_events db' = ix_events (st_db st) @ new) \<and> (\<exists>more. ix_audit db' = ix_audit (st_db st) @ more)"
proof -
  let ?P = "\<lambda>db'. unique_rows (ix_events db') \<and> in_band (ix_scores db')
    \<and> (\<exists>new. ix_events db' = ix_events (st_db st) @ new) \<and> (\<exists>more. ix_audit db' = ix_audit (st_db st) @ more)"
  have body: "?P db'" if run: "store_body r env es k v (st_db st) = (Inr ((), db'), v')" for es k v db' v'
  proof -
    obtain db1 v1 t c where all: "store_all env k 0 es v (st_db st) = (Inr db1, v1)"
      and up: "updateUserScoresBulk r (sv_scoreUpdates v1) (ix_scores db1, sv_cache v1) = Inr (t, c)"
      and db': "db' = db1\<lparr>ix_scores := t\<rparr>"
      using run by (auto simp: store_body_def split: prod.splits sum.splits option.splits)
    have "in_band t"
      using updateUserScoresBulk_table [OF up] store_all_unique [OF all assms(1)] assms(2)
      by (simp add: fold_upsert_band)
    with store_all_unique [OF all assms(1)] db' show ?thesis by simp
  qed
  have "tx_post (\<lambda>_. True) (\<lambda>_ _. ?P) (st_db st) (run_tx r env (parsed_events sdk evs) st)"
    by (rule run_tx_rule) (use body assms in auto)
  then have "?P (snd (snd (run_tx r env (parsed_events sdk evs) st)))"
    using assms by (auto simp: tx_post_def split: prod.splits sum.splits)
  then show ?thesis unfolding assms(3) storeEvents_db .
qed

text \<open>
  One event with a loan id that is not a number stops its whole batch: the transaction
  fails on every attempt, nothing of the batch is stored, and the event is not quarantined.
\<close>

theorem nan_loan_id_blocks_batch:
  assumes "e \<in> set (parsed_events sdk evs)" "x_loanId e = Some NaN"
  shows "(\<exists>err. fst (storeEvents sdk r env evs st) = Inl (TransactionFailed err))
    \<and> st_db (snd (snd (storeEvents sdk r env evs st))) = st_db st"
proof -
  have "int_column (x_loanId e) = Inl (DbError ''22P02'')" using assms(2) by (simp add: int_column_def)
  then have "to_row env e \<noteq> Inr row" for row by (simp add: to_row_def try_then_Inr)
  then have no: "fst (run_tx r env (parsed_events sdk evs) st) \<noteq> Inr x" for x
    using run_tx_covers [of r env "parsed_events sdk evs" st x] assms(1)
    by (cases "run_tx r env (parsed_events sdk evs) st") auto
  have "tx_post (\<lambda>_. True) (\<lambda>_ _ _. True) (st_db st) (run_tx r env (parsed_events sdk evs) st)"
    by (rule run_tx_rule) auto
  with no have "\<exists>err v. run_tx r env (parsed_events sdk evs) st = (Inl err, v, st_db st)"
    by (cases "run_tx r env (parsed_events sdk evs) st") (auto simp: tx_post_def split: sum.splits)
  then show ?thesis by (auto simp: storeEvents_db storeEvents_result outcome_def)
qed

text \<open>
  A liquidation of collateral never costs the borrower score points and never notifies
  them: the decoded event carries no address, so the penalty and the notification the code has
  for this type are dead.
\<close>

theorem liquidation_without_consequence:
  assumes "parseEvent sdk ev = Inr (Some e)" "x_eventType e = ''CollateralLiquidated''"
  shows "score_delta env e = None \<and> triggerNotification e = []"
proof -
  from assms(1) obtain f where "parse_fields sdk (x_eventType e) ev = Inr (Some f)" "x_address e = f_address f"
    by (rule parseEvent_Some)
  then have "x_address e = None" using parse_liquidated assms(2) by metis
  then show ?thesis by (simp add: score_delta_def triggerNotification_def)
qed

subsection \<open>The effect of a batch\<close>

text \<open>The specification: the events of a batch that are new to the table, with their rows.\<close>

fun fresh_events ::
  "store_env \<Rightarrow> ContractEvent list \<Rightarrow> contract_event list \<Rightarrow> (ContractEvent \<times> contract_event) list" where
  "fresh_events env [] rows = []"
| "fresh_events env (e # es) rows =
     (case to_row env e of
        Inl _ \<Rightarrow> fresh_events env es rows
      | Inr row \<Rightarrow>
          if clash row rows then fresh_events env es rows
          else (e, row) # fresh_events env es (rows @ [row]))"

text \<open>The sum of the score deltas of a list of events for one borrower.\<close>

definition delta_of :: "store_env \<Rightarrow> ContractEvent list \<Rightarrow> string \<Rightarrow> int" where
  "delta_of env es u =
     sum_list (map (\<lambda>e. case score_delta env e of None \<Rightarrow> 0 | Some (a, d) \<Rightarrow> if a = u then d else 0) es)"

definition scored :: "store_env \<Rightarrow> ContractEvent list \<Rightarrow> string \<Rightarrow> bool" where
  "scored env es u \<longleftrightarrow> (\<exists>e\<in>set es. \<exists>d. score_delta env e = Some (u, d))"

text \<open>
  The scores a batch is to leave, by arithmetic alone: a borrower some event scores loses the sum of the deltas, at most 200 points
  down and 350 up, from the stored score or from 500, and stays within 300 and 850. The sign is the one the statement has: a
  positive delta lowers the score.
\<close>

definition score_after :: "store_env \<Rightarrow> ContractEvent list \<Rightarrow> scores_table \<Rightarrow> scores_table" where
  "score_after env es t =
     (\<lambda>u. if scored env es u
          then Some (max 300 (min 850 ((case t u of None \<Rightarrow> 500 | Some s \<Rightarrow> s) + max (- 200) (min 350 (- delta_of env es u)))))
          else t u)"

lemma upsert_delta_score:
  "upsert_delta (u, d) t u = Some (max 300 (min 850 ((case t u of None \<Rightarrow> 500 | Some s \<Rightarrow> s) + max (- 200) (min 350 (- d)))))"
  by (auto simp: upsert_delta_def clamp_score_def Let_def max_def min_def split: option.splits)

lemma store_all_spec:
  assumes "\<And>k. stmt_fault env a k = None" "\<forall>e\<in>set es. \<exists>row. to_row env e = Inr row"
  shows "store_all env a k es v db =
     (Inr (db\<lparr>ix_events := ix_events db @ map snd (fresh_events env es (ix_events db)),
              ix_audit := ix_audit db @ concat (map (audit_rows \<circ> fst) (fresh_events env es (ix_events db)))\<rparr>),
      v\<lparr>sv_insertedEvents := sv_insertedEvents v @ map fst (fresh_events env es (ix_events db)),
        sv_scoreUpdates := fold (collect_delta env) (map fst (fresh_events env es (ix_events db)))
          (sv_scoreUpdates v)\<rparr>)"
  using assms(2)
proof (induction es arbitrary: k v db)
  case (Cons e es)
  then obtain row where row: "to_row env e = Inr row" by auto
  show ?case
  proof (cases "clash row (ix_events db)")
    case True
    then show ?thesis using Cons row assms(1) by (simp add: store_one_clash [OF row])
  next
    case False
    then show ?thesis using Cons row assms(1)
      by (simp add: store_one_fresh [OF row] added_def noted_def)
  qed
qed simp

lemma map_of_map_set: "map_of (map_set k v m) u = (if u = k then Some v else map_of m u)"
  by (induction k v m rule: map_set.induct) auto

lemma keys_map_set: "fst ` set (map_set k v m) = insert k (fst ` set m)"
  by (induction k v m rule: map_set.induct) auto

lemma distinct_map_set: "distinct (map fst m) \<Longrightarrow> distinct (map fst (map_set k v m))"
proof (induction k v m rule: map_set.induct)
  case (2 k v k' v' m)
  have "k' \<notin> fst ` set (map_set k v m)" if "k' \<noteq> k"
    using that "2.prems" by (simp add: keys_map_set)
  with 2 show ?case by auto
qed simp

lemma fold_collect_map:
  "map_of (fold (collect_delta env) es m) u =
     (if scored env es u then Some ((case map_of m u of None \<Rightarrow> 0 | Some x \<Rightarrow> x) + delta_of env es u)
      else map_of m u)"
proof (induction es arbitrary: m)
  case (Cons e es)
  have step: "map_of (collect_delta env e m) u =
      (case score_delta env e of None \<Rightarrow> map_of m u
       | Some (a, d) \<Rightarrow> if a = u then Some ((case map_of m u of None \<Rightarrow> 0 | Some x \<Rightarrow> x) + d) else map_of m u)"
    by (auto simp: collect_delta_def map_add_delta_def map_of_map_set split: option.splits prod.splits)
  have nil: "delta_of env es u = 0" if "\<not> scored env es u"
    using that by (induction es) (auto simp: scored_def delta_of_def split: option.splits)
  show ?case
    using Cons.IH [of "collect_delta env e m"] step nil
    by (auto simp: scored_def delta_of_def split: option.splits prod.splits)
qed (simp add: scored_def)

lemma fold_collect_keys:
  "distinct (map fst m) \<and> [] \<notin> fst ` set m \<Longrightarrow>
     distinct (map fst (fold (collect_delta env) es m)) \<and> [] \<notin> fst ` set (fold (collect_delta env) es m)"
proof (induction es arbitrary: m)
  case (Cons e es)
  have "score_delta env e \<noteq> Some ([], d)" for d by (auto simp: score_delta_def split: option.splits if_splits)
  then have "distinct (map fst (collect_delta env e m)) \<and> [] \<notin> fst ` set (collect_delta env e m)"
    using Cons.prems
    by (auto simp: collect_delta_def map_add_delta_def distinct_map_set keys_map_set
        simp del: map_set.simps split: option.splits prod.splits)
  then show ?case using Cons.IH by simp
qed simp

definition small_deltas :: "store_env \<Rightarrow> ContractEvent list \<Rightarrow> bool" where
  "small_deltas env es \<longleftrightarrow> (\<forall>u. \<bar>delta_of env es u\<bar> \<le> 1000000)"

lemma update_collected:
  assumes "small_deltas env es"
  shows "\<exists>c'. updateUserScoresBulk r (fold (collect_delta env) es []) (t, c) = Inr (score_after env es t, c')"
proof -
  let ?m = "fold (collect_delta env) es []"
  have keys: "distinct (map fst ?m)" "[] \<notin> fst ` set ?m" using fold_collect_keys [of "[]" env es] by auto
  then have rows: "score_rows ?m = ?m" by (auto simp: score_rows_def filter_id_conv image_iff)
  have entry: "d = delta_of env es u \<and> scored env es u" if "(u, d) \<in> set ?m" for u d
    using map_of_is_SomeI [OF keys(1) that] fold_collect_map [of env es "[]" u] by (auto split: if_splits)
  have fits: "list_all (\<lambda>row. int4 (snd row) \<and> int4 (500 - snd row)) ?m"
  proof (unfold list_all_iff, intro ballI)
    fix row assume "row \<in> set ?m"
    then have "\<bar>snd row\<bar> \<le> 1000000" using entry [of "fst row" "snd row"] assms
      by (auto simp: small_deltas_def)
    then show "int4 (snd row) \<and> int4 (500 - snd row)" by (auto simp: int4_def)
  qed
  have eq: "fold upsert_delta ?m t = score_after env es t"
  proof
    fix u
    show "fold upsert_delta ?m t u = score_after env es t u"
    proof (cases "scored env es u")
      case True
      then have "(u, delta_of env es u) \<in> set ?m"
        using fold_collect_map [of env es "[]" u] by (intro map_of_SomeD) simp
      with True show ?thesis by (simp only: score_after_def fold_upsert_row [OF keys(1)] upsert_delta_score if_True)
    next
      case False
      then have "map_of ?m u = None" using fold_collect_map [of env es "[]" u] by simp
      then have "u \<notin> fst ` set ?m" by (simp add: map_of_eq_None_iff)
      with False show ?thesis by (simp add: score_after_def fold_upsert_other)
    qed
  qed
  show ?thesis
    using eq rows fits by (auto simp: updateUserScoresBulk_def apply_deltas_def Let_def)
qed

text \<open>
  One attempt, after earlier attempts have already counted the events \<open>prev\<close>: the tables get the
  fresh events once, the captured variables get them on top of \<open>prev\<close>.
\<close>

definition body_db :: "store_env \<Rightarrow> ContractEvent list \<Rightarrow> ContractEvent list \<Rightarrow> idx_db \<Rightarrow> idx_db" where
  "body_db env prev es db =
     (let fr = fresh_events env es (ix_events db) in
      \<lparr>ix_events = ix_events db @ map snd fr,
       ix_audit = ix_audit db @ concat (map (audit_rows \<circ> fst) fr),
       ix_scores = score_after env (prev @ map fst fr) (ix_scores db)\<rparr>)"

definition counted :: "store_env \<Rightarrow> ContractEvent list \<Rightarrow> 's store_vars \<Rightarrow> bool" where
  "counted env prev v \<longleftrightarrow> sv_insertedEvents v = prev \<and> sv_scoreUpdates v = fold (collect_delta env) prev []"

lemma store_body_spec:
  assumes "\<And>k. stmt_fault env a k = None" "\<forall>e\<in>set es. \<exists>row. to_row env e = Inr row"
    and "counted env prev v"
    and "small_deltas env (prev @ map fst (fresh_events env es (ix_events db)))"
  shows "\<exists>v'. counted env (prev @ map fst (fresh_events env es (ix_events db))) v'
    \<and> store_body r env es a v db =
        ((case commit_fault env a of Some err \<Rightarrow> Inl err | None \<Rightarrow> Inr ((), body_db env prev es db)), v')"
proof -
  let ?all = "prev @ map fst (fresh_events env es (ix_events db))"
  let ?u = "fold (collect_delta env) ?all []"
  obtain c' where "updateUserScoresBulk r ?u (ix_scores db, sv_cache v) = Inr (score_after env ?all (ix_scores db), c')"
    using update_collected [OF assms(4)] by blast
  then show ?thesis
    using assms(3)
    by (auto simp: store_body_def store_all_spec [OF assms(1,2)] counted_def body_db_def Let_def
        split: option.splits)
qed

lemma counted_start: "counted env [] (start_vars st)"
  by (simp add: counted_def start_vars_def)

lemma run_tx_spec:
  assumes "\<And>k. stmt_fault env 0 k = None" "commit_fault env 0 = None"
    and "\<forall>e\<in>set es. \<exists>row. to_row env e = Inr row"
    and "small_deltas env (map fst (fresh_events env es (ix_events (st_db st))))"
  shows "\<exists>v. sv_insertedEvents v = map fst (fresh_events env es (ix_events (st_db st)))
    \<and> run_tx r env es st = (Inr (), v, body_db env [] es (st_db st))"
proof (cases "es = []")
  case True
  then show ?thesis
    by (auto simp: run_tx_def body_db_def start_vars_def score_after_def scored_def)
next
  case False
  obtain v where "counted env (map fst (fresh_events env es (ix_events (st_db st)))) v"
    "store_body r env es 0 (start_vars st) (st_db st) = (Inr ((), body_db env [] es (st_db st)), v)"
    using store_body_spec [where a = 0 and prev = "[]" and v = "start_vars st" and db = "st_db st" and r = r,
        OF assms(1,3) counted_start] assms(2,4) by auto
  with False show ?thesis
    by (auto simp: run_tx_def withTransaction_def tx_loop.simps counted_def)
qed


text \<open>
  A retried transaction counts its events twice: when the first commit fails with a
  transient error and the second succeeds, the rows are stored once, but the number of inserted
  events, the announcements and every score delta are doubled, because the variables the
  transaction body fills live outside it.
\<close>

theorem retry_doubles_deltas:
  assumes "\<And>a k. stmt_fault env a k = None" "commit_fault env 0 = Some err" "transient err"
    and "commit_fault env 1 = None" "parsed_events sdk evs \<noteq> []"
    and "\<forall>e\<in>set (parsed_events sdk evs). \<exists>row. to_row env e = Inr row"
    and "new = map fst (fresh_events env (parsed_events sdk evs) (ix_events (st_db st)))"
    and "small_deltas env new" "small_deltas env (new @ new)" "snd (announce_all env (new @ new))"
    and "db' = st_db (snd (snd (storeEvents sdk r env evs st)))"
  shows "fst (storeEvents sdk r env evs st) = Inr (2 * length new)
    \<and> length (ix_events db') = length (ix_events (st_db st)) + length new
    \<and> ix_scores db' = score_after env (new @ new) (ix_scores (st_db st))
    \<and> (\<forall>u. delta_of env (new @ new) u = 2 * delta_of env new u)"
proof -
  let ?es = "parsed_events sdk evs"
  have fr: "map fst (fresh_events env ?es (ix_events (st_db st))) = new" using assms(7) by simp
  obtain v1 where v1: "counted env new v1"
    "store_body r env ?es 0 (start_vars st) (st_db st) = (Inl err, v1)"
    using store_body_spec [where a = 0 and prev = "[]" and v = "start_vars st" and db = "st_db st" and r = r,
        OF assms(1,6) counted_start] assms(2,8) fr
    by auto
  obtain v2 where v2: "counted env (new @ new) v2"
    "store_body r env ?es 1 v1 (st_db st) = (Inr ((), body_db env new ?es (st_db st)), v2)"
    using store_body_spec [where a = 1 and prev = new and v = v1 and db = "st_db st" and r = r,
        OF assms(1,6) v1(1)] assms(4,9) fr
    by auto
  have "run_tx r env ?es st = (Inr (), v2, body_db env new ?es (st_db st))"
    using v1 v2 assms(3,5) by (simp add: run_tx_def withTransaction_def tx_loop.simps)
  moreover have "length (fresh_events env ?es (ix_events (st_db st))) = length new"
    using fr by (metis length_map)
  ultimately show ?thesis
    using v2(1) assms(10,11) fr
    by (simp add: storeEvents_result storeEvents_db outcome_def counted_def body_db_def Let_def delta_of_def)
qed

text \<open>
  Two repayments of one loan in one ledger: the second one is dropped. Its row, its score
  delta and its announcements are all lost, although it is a different on-chain event.
\<close>

theorem second_repayment_dropped:
  assumes "\<And>k. stmt_fault env 0 k = None" "commit_fault env 0 = None"
    and "parsed_events sdk evs = [e1, e2]" "to_row env e1 = Inr r1" "to_row env e2 = Inr r2"
    and "x_eventType e1 = ''LoanRepaid''" "x_eventType e2 = ''LoanRepaid''"
    and "x_loanId e1 = Some (Num l)" "x_loanId e2 = Some (Num l)" "x_ledger e1 = x_ledger e2"
    and "\<not> clash r1 (ix_events (st_db st))" "small_deltas env [e1]" "snd (announce env e1)"
  shows "fst (storeEvents sdk r env evs st) = Inr 1
    \<and> ix_events (st_db (snd (snd (storeEvents sdk r env evs st)))) = ix_events (st_db st) @ [r1]
    \<and> ix_scores (st_db (snd (snd (storeEvents sdk r env evs st)))) = score_after env [e1] (ix_scores (st_db st))"
proof -
  have "conflicts r2 r1"
    using assms(4-10) by (auto simp: to_row_def try_then_Inr int_column_def conflicts_def split: if_splits)
  then have fr: "fresh_events env [e1, e2] (ix_events (st_db st)) = [(e1, r1)]"
    using assms(4,5,11) by (simp add: clash_def)
  have "\<forall>e\<in>set (parsed_events sdk evs). \<exists>row. to_row env e = Inr row" using assms(3-5) by simp
  then obtain v where "sv_insertedEvents v = [e1]"
    "run_tx r env [e1, e2] st = (Inr (), v, body_db env [] [e1, e2] (st_db st))"
    using run_tx_spec [OF assms(1,2), of "[e1, e2]" st r] assms(3-5,12) fr by auto
  then show ?thesis
    using assms(3,13) fr
    by (auto simp: storeEvents_result storeEvents_db outcome_def body_db_def split: prod.splits)
qed

subsection \<open>Witnesses\<close>

lemma digits_ends:
  assumes "list_all is_digit s" "s \<noteq> []"
  shows "is_digit (hd s)" "is_digit (last s)"
  using assms by (auto simp: list_all_iff)

lemma digit_no_sign: "is_digit c \<Longrightarrow> c \<noteq> CHR ''-'' \<and> c \<noteq> CHR ''+''"
  by (auto simp: is_digit_def)

lemma big_int_text: "big_int (int_to_string n) = Some n"
proof -
  define ds where "ds = nat_to_string (nat \<bar>n\<bar>)"
  have ds: "list_all is_digit ds" "ds \<noteq> []" "string_to_nat ds = nat \<bar>n\<bar>"
    by (simp_all add: ds_def nat_to_string_digits)
  note ends = digits_ends [OF ds(1,2)]
  show ?thesis
  proof (cases "n < 0")
    case True
    then have n: "int_to_string n = CHR ''-'' # ds" by (simp add: int_to_string_def ds_def)
    have "trim (CHR ''-'' # ds) = CHR ''-'' # ds"
      using digit_not_space [OF ends(2)] ds(2) by (intro trim_id) (simp_all add: js_space_def)
    with True n ds show ?thesis by (simp add: big_int_def Let_def)
  next
    case False
    then have n: "int_to_string n = ds" by (simp add: int_to_string_def ds_def)
    have "trim ds = ds" using ends ds(2) by (intro trim_id) (auto simp: digit_not_space)
    with False n ds digit_no_sign [OF ends(1)] show ?thesis by (simp add: big_int_def Let_def)
  qed
qed

text \<open>A repayment of loan 7 by GA, and the state and environment it is stored in.\<close>

definition repaid_parsed :: "string \<Rightarrow> int \<Rightarrow> ContractEvent" where
  "repaid_parsed i l = \<lparr>x_eventId = i, x_eventType = ''LoanRepaid'', x_ledger = l, x_ledgerClosedAt = 0,
     x_txHash = ''tx'', x_contractId = ''C1'', x_topics = [[], [], []], x_value = [],
     x_amount = Some (int_to_string 90071992547409931), x_loanId = Some (Num 7), x_interestRateBps = None,
     x_termLedgers = None, x_address = Some ''GA'', x_adminAddress = None, x_borrowerRefund = None\<rparr>"

definition repaid_row :: "string \<Rightarrow> int \<Rightarrow> contract_event" where
  "repaid_row i l = \<lparr>ce_event_id = i, ce_event_type = ''LoanRepaid'', ce_loan_id = Some 7,
     ce_address = Some ''GA'', ce_amount = Some (int_to_string 90071992547409931), ce_ledger = l,
     ce_ledger_closed_at = 0, ce_tx_hash = ''tx'', ce_contract_id = ''C1'', ce_topics = [[], [], []],
     ce_value = [], ce_interest_rate_bps = None, ce_term_ledgers = None\<rparr>"

definition demo_env :: store_env where
  "demo_env = \<lparr>pg_numeric = Inr, score_repaymentDelta = 15, score_defaultPenalty = 50,
     stmt_fault = (\<lambda>_ _. None), commit_fault = (\<lambda>_. None), quarantine_writable = (\<lambda>_. True),
     quarantine_count_readable = True, quarantineAlertThreshold = 10, pause_persists = (\<lambda>_ _. True)\<rparr>"

definition demo_fault_env :: store_env where
  "demo_fault_env = demo_env\<lparr>commit_fault := (\<lambda>a. if a = 0 then Some (DbError ''40001'') else None)\<rparr>"

definition demo_state :: "(string \<Rightarrow> string option) store_state" where
  "demo_state = \<lparr>st_db = \<lparr>ix_events = [], ix_audit = [], ix_scores = [''GA'' \<mapsto> 600]\<rparr>, st_quarantine = [],
     st_lastObservedQuarantineCount = 0, st_cache = \<lparr>isConnected = True, server = (\<lambda>_. None)\<rparr>\<rparr>"

lemma repaid_parses: "parseEvent plain_sdk (repaid_event i l) = Inr (Some (repaid_parsed i l))"
  by (simp add: repaid_event_parses repaid_parsed_def)

lemma repaid_batch:
  "parsed_events plain_sdk [repaid_event i l] = [repaid_parsed i l]"
  "parsed_events plain_sdk [repaid_event i l, repaid_event j k] = [repaid_parsed i l, repaid_parsed j k]"
  by (simp_all add: parsed_events_def List.map_filter_simps repaid_parses)

lemma repaid_to_row:
  assumes "pg_numeric env = Inr" "length i \<le> 255" "int4 l"
  shows "to_row env (repaid_parsed i l) = Inr (repaid_row i l)"
  using assms
  by (simp add: to_row_def repaid_parsed_def repaid_row_def text_column_def int_column_def
      numeric_column_def int4_def)

lemma repaid_announced: "snd (announce env (repaid_parsed i l))"
  by (simp add: announce_def broadcast_message_def big_int_text repaid_parsed_def Let_def)

lemma repaid_announced_all:
  "snd (announce_all env [repaid_parsed i l])" "snd (announce_all env [repaid_parsed i l, repaid_parsed i l])"
  using repaid_announced [of env i l] by (auto split: prod.splits bool.splits)

lemma repaid_parsed_sel:
  "x_eventType (repaid_parsed i l) = ''LoanRepaid''" "x_loanId (repaid_parsed i l) = Some (Num 7)"
  "x_ledger (repaid_parsed i l) = l"
  by (simp_all add: repaid_parsed_def)

lemma repaid_delta:
  "score_delta env (repaid_parsed i l) = Some (''GA'', score_repaymentDelta env)"
  by (simp add: score_delta_def repaid_parsed_def)

lemma demo_env_sel [simp]:
  "pg_numeric demo_env = Inr" "stmt_fault demo_env a k = None" "commit_fault demo_env a = None"
  "score_repaymentDelta demo_env = 15" "pg_numeric demo_fault_env = Inr"
  "stmt_fault demo_fault_env a k = None" "commit_fault demo_fault_env 0 = Some (DbError ''40001'')"
  "commit_fault demo_fault_env 1 = None" "commit_fault demo_fault_env (Suc 0) = None" "score_repaymentDelta demo_fault_env = 15"
  by (simp_all add: demo_env_def demo_fault_env_def)

lemma demo_state_sel [simp]:
  "ix_events (st_db demo_state) = []" "ix_scores (st_db demo_state) = [''GA'' \<mapsto> 600]"
  by (simp_all add: demo_state_def)

lemma repaid_rows:
  "to_row demo_env (repaid_parsed ''e1'' 5) = Inr (repaid_row ''e1'' 5)"
  "to_row demo_env (repaid_parsed ''e2'' 5) = Inr (repaid_row ''e2'' 5)"
  "to_row demo_fault_env (repaid_parsed ''e1'' 5) = Inr (repaid_row ''e1'' 5)"
  by (simp_all add: repaid_to_row int4_def)

lemma no_clash_empty [simp]: "\<not> clash row []"
  by (simp add: clash_def)

lemma repaid_small:
  "small_deltas demo_env [repaid_parsed i l]" "small_deltas demo_fault_env [repaid_parsed i l]"
  "small_deltas demo_fault_env [repaid_parsed i l, repaid_parsed i l]"
  by (auto simp: small_deltas_def delta_of_def repaid_delta)

lemma demo_committed:
  "fst (storeEvents plain_sdk map_redis demo_env [repaid_event ''e1'' 5] demo_state) = Inr 1"
proof -
  obtain v where "sv_insertedEvents v = [repaid_parsed ''e1'' 5]"
    "run_tx map_redis demo_env [repaid_parsed ''e1'' 5] demo_state
       = (Inr (), v, body_db demo_env [] [repaid_parsed ''e1'' 5] (st_db demo_state))"
    using run_tx_spec [of demo_env "[repaid_parsed ''e1'' 5]" demo_state map_redis]
    by (auto simp: repaid_rows repaid_small)
  then show ?thesis
    using repaid_announced [of demo_env "''e1''" 5]
    by (auto simp: storeEvents_result repaid_batch outcome_def split: prod.splits)
qed

theorem storeEvents_idempotent_witness:
  "st_db (snd (snd (storeEvents plain_sdk map_redis demo_fault_env [repaid_event ''e1'' 5]
     (snd (snd (storeEvents plain_sdk map_redis demo_env [repaid_event ''e1'' 5] demo_state))))))
   = st_db (snd (snd (storeEvents plain_sdk map_redis demo_env [repaid_event ''e1'' 5] demo_state)))"
  by (rule storeEvents_idempotent [where env = demo_env and st = demo_state, THEN conjunct1])
    (simp_all add: demo_committed)

theorem storeEvents_invariant_witness:
  "unique_rows (ix_events (st_db (snd (snd
     (storeEvents plain_sdk map_redis demo_fault_env [repaid_event ''e1'' 5, repaid_event ''e1'' 5] demo_state)))))"
proof -
  have "unique_rows (ix_events (st_db demo_state))" "in_band (ix_scores (st_db demo_state))"
    by (simp_all add: unique_rows_def in_band_def)
  from storeEvents_invariant [OF this refl] show ?thesis by blast
qed

lemma repaid_fresh:
  "fresh_events demo_env [repaid_parsed ''e1'' 5] [] = [(repaid_parsed ''e1'' 5, repaid_row ''e1'' 5)]"
  "fresh_events demo_fault_env [repaid_parsed ''e1'' 5] [] = [(repaid_parsed ''e1'' 5, repaid_row ''e1'' 5)]"
  by (simp_all add: repaid_rows)

lemma repaid_score:
  "score_after demo_env [repaid_parsed i l] [''GA'' \<mapsto> 600] ''GA'' = Some 585"
  "score_after demo_fault_env [repaid_parsed i l, repaid_parsed i l] [''GA'' \<mapsto> 600] ''GA'' = Some 570"
  by (simp_all add: score_after_def scored_def delta_of_def repaid_delta)


theorem retry_doubles_deltas_witness:
  "fst (storeEvents plain_sdk map_redis demo_fault_env [repaid_event ''e1'' 5] demo_state) = Inr 2
   \<and> ix_scores (st_db (snd (snd (storeEvents plain_sdk map_redis demo_fault_env [repaid_event ''e1'' 5] demo_state)))) ''GA''
     = Some 570"
proof -
  let ?new = "[repaid_parsed ''e1'' 5]"
  have tr: "transient (DbError ''40001'')" by (simp add: transient_def TRANSIENT_ERROR_CODES_def)
  have "fst (storeEvents plain_sdk map_redis demo_fault_env [repaid_event ''e1'' 5] demo_state) = Inr (2 * length ?new)
    \<and> length (ix_events (st_db (snd (snd (storeEvents plain_sdk map_redis demo_fault_env [repaid_event ''e1'' 5] demo_state)))))
        = length (ix_events (st_db demo_state)) + length ?new
    \<and> ix_scores (st_db (snd (snd (storeEvents plain_sdk map_redis demo_fault_env [repaid_event ''e1'' 5] demo_state))))
        = score_after demo_fault_env (?new @ ?new) (ix_scores (st_db demo_state))
    \<and> (\<forall>u. delta_of demo_fault_env (?new @ ?new) u = 2 * delta_of demo_fault_env ?new u)"
    by (rule retry_doubles_deltas [where err = "DbError ''40001''"])
      (simp_all add: tr repaid_batch repaid_rows repaid_fresh repaid_small repaid_announced_all del: announce_all.simps)
  then show ?thesis by (simp add: repaid_score)
qed

theorem second_repayment_dropped_witness:
  "fst (storeEvents plain_sdk map_redis demo_env [repaid_event ''e1'' 5, repaid_event ''e2'' 5] demo_state) = Inr 1"
  by (rule second_repayment_dropped [where ?e1.0 = "repaid_parsed ''e1'' 5" and ?e2.0 = "repaid_parsed ''e2'' 5"
        and l = 7, THEN conjunct1])
    (simp_all add: repaid_batch repaid_rows repaid_parsed_sel repaid_small repaid_announced)

definition nan_event :: "native SorobanRawEvent" where
  "nan_event = (repaid_event ''e3'' 6)\<lparr>ev_topic := [NStr ''LoanRepaid'', NStr ''GA'', NStr ''x'']\<rparr>"

lemma nan_parses:
  "parseEvent plain_sdk nan_event = Inr (Some ((repaid_parsed ''e3'' 6)\<lparr>x_loanId := Some NaN\<rparr>))"
  by (simp add: parseEvent_def plain_sdk_def repaid_event_def nan_event_def repaid_parsed_def topic_at_def
      decodeEventType_def EVENT_TYPE_ALIASES_def SUPPORTED_WEBHOOK_EVENT_TYPES_def parse_fields_def
      parse_loan_fields_def need_topic_def decodeAddress_def decodeAmount_def decodeLoanId_def ok_fields_def
      no_fields_def admin_address_def Let_def)

theorem nan_loan_id_blocks_batch_witness:
  "st_db (snd (snd (storeEvents plain_sdk map_redis demo_env [repaid_event ''e1'' 5, nan_event] demo_state)))
     = st_db demo_state"
  by (rule nan_loan_id_blocks_batch [where e = "(repaid_parsed ''e3'' 6)\<lparr>x_loanId := Some NaN\<rparr>", THEN conjunct2])
    (simp_all add: parsed_events_def List.map_filter_simps nan_parses repaid_parses)

definition liquidated_event :: "native SorobanRawEvent" where
  "liquidated_event = (repaid_event ''e4'' 6)\<lparr>ev_topic := [NStr ''CollateralLiquidated'', NBig 7]\<rparr>"

lemma liquidated_parses:
  "parseEvent plain_sdk liquidated_event = Inr (Some
     ((repaid_parsed ''e4'' 6)\<lparr>x_eventType := ''CollateralLiquidated'', x_topics := [[], []], x_address := None\<rparr>))"
  by (simp add: parseEvent_def plain_sdk_def repaid_event_def liquidated_event_def repaid_parsed_def topic_at_def
      decodeEventType_def EVENT_TYPE_ALIASES_def SUPPORTED_WEBHOOK_EVENT_TYPES_def parse_fields_def
      parse_loan_fields_def need_topic_def decodeAmount_def decodeLoanId_def ok_fields_def no_fields_def
      admin_address_def nearest_double_exact Let_def)

theorem liquidation_without_consequence_witness:
  "\<exists>e. parseEvent plain_sdk liquidated_event = Inr (Some e) \<and> score_delta demo_env e = None
     \<and> triggerNotification e = []"
  using liquidation_without_consequence [OF liquidated_parses, of demo_env] liquidated_parses by simp

end
