(* ===== verification/StateError.thy ===== *)
theory StateError
  imports Prelude
begin

section \<open>Sequences of awaited calls\<close>

text \<open>
  An \<open>async\<close> function of the sources is a state transformer that may throw: it returns an error
  or a value together with the state it leaves, which keeps every write made before the throw.
  Triples state what holds after a normal return and after a throw.
\<close>

type_synonym ('st, 'e, 'a) act = "'st \<Rightarrow> ('e + 'a) \<times> 'st"

definition ret :: "'a \<Rightarrow> ('st, 'e, 'a) act" where
  "ret x st = (Inr x, st)"

definition throw :: "'e \<Rightarrow> ('st, 'e, 'a) act" where
  "throw e st = (Inl e, st)"

definition bind_act :: "('st, 'e, 'a) act \<Rightarrow> ('a \<Rightarrow> ('st, 'e, 'b) act) \<Rightarrow> ('st, 'e, 'b) act" where
  "bind_act m f st = (case m st of (Inl e, st1) \<Rightarrow> (Inl e, st1) | (Inr x, st1) \<Rightarrow> f x st1)"

definition reading :: "('st \<Rightarrow> 'a) \<Rightarrow> ('st, 'e, 'a) act" where
  "reading f st = (Inr (f st), st)"

definition writing :: "('st \<Rightarrow> 'st) \<Rightarrow> ('st, 'e, unit) act" where
  "writing f st = (Inr (), f st)"

definition triple ::
  "('st \<Rightarrow> bool) \<Rightarrow> ('st, 'e, 'a) act \<Rightarrow> ('a \<Rightarrow> 'st \<Rightarrow> bool) \<Rightarrow> ('st \<Rightarrow> bool) \<Rightarrow> bool" where
  "triple P m Q E \<longleftrightarrow>
     (\<forall>st. P st \<longrightarrow> (case m st of (Inr x, st') \<Rightarrow> Q x st' | (Inl e, st') \<Rightarrow> E st'))"

lemma tripleI:
  "(\<And>st x st'. P st \<Longrightarrow> m st = (Inr x, st') \<Longrightarrow> Q x st') \<Longrightarrow>
   (\<And>st e st'. P st \<Longrightarrow> m st = (Inl e, st') \<Longrightarrow> E st') \<Longrightarrow> triple P m Q E"
  by (auto simp: triple_def split: prod.splits sum.splits)

lemma tripleD:
  "triple P m Q E \<Longrightarrow> P st \<Longrightarrow> m st = (Inr x, st') \<Longrightarrow> Q x st'"
  "triple P m Q E \<Longrightarrow> P st \<Longrightarrow> m st = (Inl e, st') \<Longrightarrow> E st'"
  by (auto simp: triple_def)

lemma triple_bind:
  assumes "triple P m R E" "\<And>x. triple (R x) (f x) Q E"
  shows "triple P (bind_act m f) Q E"
proof (unfold triple_def, intro allI impI)
  fix st assume P: "P st"
  obtain r st1 where m: "m st = (r, st1)" by (cases "m st")
  show "case bind_act m f st of (Inl e, st') \<Rightarrow> E st' | (Inr x, st') \<Rightarrow> Q x st'"
  proof (cases r)
    case (Inl e)
    with m P show ?thesis using tripleD(2) [OF assms(1) P] by (simp add: bind_act_def)
  next
    case (Inr x)
    with m have "R x st1" using tripleD(1) [OF assms(1) P] by blast
    then show ?thesis using assms(2) [of x] m Inr by (simp add: bind_act_def triple_def)
  qed
qed

lemma triple_ret: "triple (Q x) (ret x) Q E"
  by (simp add: triple_def ret_def)

lemma triple_throw: "triple E (throw e) Q E"
  by (simp add: triple_def throw_def)

lemma triple_reading: "triple (\<lambda>st. Q (f st) st) (reading f) Q E"
  by (simp add: triple_def reading_def)

lemma triple_writing: "triple (\<lambda>st. Q () (f st)) (writing f) Q E"
  by (simp add: triple_def writing_def)

lemma triple_pre: "triple P m Q E \<Longrightarrow> (\<And>st. P' st \<Longrightarrow> P st) \<Longrightarrow> triple P' m Q E"
  by (simp add: triple_def)

lemma triple_post: "triple P m Q E \<Longrightarrow> (\<And>x st. Q x st \<Longrightarrow> Q' x st) \<Longrightarrow> triple P m Q' E"
  by (rule tripleI) (blast dest: tripleD)+

end
