(* ===== verification/EventIndexer.thy ===== *)
theory EventIndexer
  imports EventStore StateError JsonParse
begin

section \<open>The polling indexer (\<open>backend/src/services/eventIndexer.ts\<close>)\<close>

text \<open>
  Fetching ledger ranges page by page, the checkpoint table with its verified and suspect ranges,
  reorganisation checks and rollbacks, backfilling, and one poll. The Soroban RPC server, SHA-256
  and the locale order of event ids are parameters; every query may fail, and a failed query
  ends the poll with the writes made before it kept. \<open>trace\<close> lists the ranges a chunk completed
  for and the rollbacks, in order: it is not read by the code. Log lines and metrics are left out.
\<close>

subsection \<open>Configuration\<close>

record EventIndexerConfig =
  cfg_contractId :: "string option"
  cfg_contractIds :: "string list option"
  cfg_contractConfigs :: "string list option"
  cfg_pollIntervalMs :: "int option"
  cfg_batchSize :: "int option"
  cfg_finalityDepth :: "int option"

record indexer_env =
  QUARANTINE_ALERT_THRESHOLD :: "string option"
  INDEXER_LAG_ALERT_THRESHOLD :: "string option"
  INDEXER_FINALITY_DEPTH :: "string option"

record indexer_config =
  contractIds :: "string list"
  pollIntervalMs :: int
  batchSize :: int
  finalityDepth :: int
  lagAlertThreshold :: int
  quarantineThreshold :: int

datatype config_error = ContractIdRequired | NoContractConfigured

definition env_threshold :: "string option \<Rightarrow> string \<Rightarrow> int \<Rightarrow> int" where
  "env_threshold value dflt fallback =
     (case parseInt (case value of None \<Rightarrow> dflt | Some s \<Rightarrow> s) of
        Some n \<Rightarrow> if 0 < n then n else fallback
      | None \<Rightarrow> fallback)"

definition depth_from_env :: "string option \<Rightarrow> int \<Rightarrow> int" where
  "depth_from_env value fallback =
     (case parseInt (case value of None \<Rightarrow> [] | Some s \<Rightarrow> s) of
        Some parsed \<Rightarrow> if 0 \<le> parsed then parsed else fallback
      | None \<Rightarrow> fallback)"

text \<open>The two constructors; \<open>[...new Set(ids)]\<close> keeps first occurrences.\<close>

fun unique_ids :: "string list \<Rightarrow> string list" where
  "unique_ids [] = []"
| "unique_ids (x # xs) = x # filter (\<lambda>y. y \<noteq> x) (unique_ids xs)"

definition new_from_url :: "indexer_env \<Rightarrow> string option \<Rightarrow> config_error + indexer_config" where
  "new_from_url env contractId =
     (case contractId of
        None \<Rightarrow> Inl ContractIdRequired
      | Some c \<Rightarrow>
          if c = [] then Inl ContractIdRequired
          else Inr \<lparr>contractIds = [c], pollIntervalMs = 30000, batchSize = 100,
                    finalityDepth = depth_from_env (INDEXER_FINALITY_DEPTH env) 0,
                    lagAlertThreshold = env_threshold (INDEXER_LAG_ALERT_THRESHOLD env) ''100'' 100,
                    quarantineThreshold = env_threshold (QUARANTINE_ALERT_THRESHOLD env) ''25'' 25\<rparr>)"

definition new_from_config :: "indexer_env \<Rightarrow> EventIndexerConfig \<Rightarrow> config_error + indexer_config" where
  "new_from_config env cfg =
     (let configuredIds = (case cfg_contractIds cfg of None \<Rightarrow> [] | Some ids \<Rightarrow> ids);
          configuredFromObjects = (case cfg_contractConfigs cfg of None \<Rightarrow> [] | Some ids \<Rightarrow> ids);
          single = (case cfg_contractId cfg of None \<Rightarrow> [] | Some c \<Rightarrow> [c]);
          normalized = filter (\<lambda>c. c \<noteq> []) (configuredFromObjects @ configuredIds @ single)
      in if normalized = [] then Inl NoContractConfigured
         else Inr \<lparr>contractIds = unique_ids normalized,
                   pollIntervalMs = (case cfg_pollIntervalMs cfg of None \<Rightarrow> 30000 | Some n \<Rightarrow> n),
                   batchSize = (case cfg_batchSize cfg of None \<Rightarrow> 100 | Some n \<Rightarrow> n),
                   finalityDepth = (case cfg_finalityDepth cfg of
                       None \<Rightarrow> depth_from_env (INDEXER_FINALITY_DEPTH env) 0 | Some n \<Rightarrow> n),
                   lagAlertThreshold = env_threshold (INDEXER_LAG_ALERT_THRESHOLD env) ''100'' 100,
                   quarantineThreshold = env_threshold (QUARANTINE_ALERT_THRESHOLD env) ''25'' 25\<rparr>)"

definition getContractId :: "indexer_config \<Rightarrow> string" where
  "getContractId cfg = (case contractIds cfg of [] \<Rightarrow> ''default'' | c # _ \<Rightarrow> c)"

subsection \<open>Fetching a range\<close>

text \<open>A request names a range or a cursor; the answer is a page and the next cursor.\<close>

datatype rpc_request = InRange int int int | AfterCursor string int

type_synonym 'v rpc = "rpc_request \<Rightarrow> string + 'v SorobanRawEvent list \<times> string option"

definition in_range :: "int \<Rightarrow> int \<Rightarrow> 'v SorobanRawEvent \<Rightarrow> bool" where
  "in_range s e ev \<longleftrightarrow> s \<le> ev_ledger ev \<and> ev_ledger ev \<le> e"

text \<open>The page loop, with fuel: \<open>None\<close> when the fuel is used up.\<close>

fun fetch_pages ::
  "'v rpc \<Rightarrow> int \<Rightarrow> int \<Rightarrow> int \<Rightarrow> nat \<Rightarrow> string option \<Rightarrow> 'v SorobanRawEvent list
     \<Rightarrow> (string + 'v SorobanRawEvent list) option" where
  "fetch_pages rpc limit s e 0 cursor result = None"
| "fetch_pages rpc limit s e (Suc fuel) cursor result =
     (case rpc (case cursor of
                  Some c \<Rightarrow> if c \<noteq> [] then AfterCursor c limit else InRange s e limit
                | None \<Rightarrow> InRange s e limit) of
        Inl err \<Rightarrow> Some (Inl err)
      | Inr (pageEvents, nextCursor) \<Rightarrow>
          let events = filter (in_range s e) pageEvents;
              passedEnd = list_ex (\<lambda>ev. e < ev_ledger ev) pageEvents
          in if nextCursor = None \<or> nextCursor = Some [] \<or> nextCursor = cursor \<or> events = [] \<or> passedEnd
             then Some (Inr (result @ events))
             else fetch_pages rpc limit s e fuel nextCursor (result @ events))"

definition fetchEventsInRange ::
  "'v rpc \<Rightarrow> int \<Rightarrow> nat \<Rightarrow> int \<Rightarrow> int \<Rightarrow> (string + 'v SorobanRawEvent list) option" where
  "fetchEventsInRange rpc limit fuel s e =
     map_option (map_sum id (sort_key ev_ledger)) (fetch_pages rpc limit s e fuel None [])"

text \<open>\<open>idRank\<close> gives the place of an id in the order of \<open>localeCompare\<close>.\<close>

definition canonical_event :: "'v sdk \<Rightarrow> 'v SorobanRawEvent \<Rightarrow> json" where
  "canonical_event sdk ev =
     JObj [(''id'', JStr (ev_id ev)), (''ledger'', JInt (ev_ledger ev)), (''txHash'', JStr (ev_txHash ev)),
           (''contractId'', JStr (ev_contractId ev)),
           (''topics'', JArr (map (JStr \<circ> sv_xdr sdk) (ev_topic ev))),
           (''value'', JStr (sv_xdr sdk (ev_value ev)))]"

definition digestEvents ::
  "(string \<Rightarrow> string) \<Rightarrow> (string \<Rightarrow> nat) \<Rightarrow> 'v sdk \<Rightarrow> 'v SorobanRawEvent list \<Rightarrow> string" where
  "digestEvents sha256 idRank sdk events =
     sha256 (stringify (JArr (map (canonical_event sdk)
       (sort_key ev_ledger (sort_key (\<lambda>ev. idRank (ev_id ev)) events)))))"

subsection \<open>State\<close>

datatype checkpoint_status = Verified | Suspect

record checkpoint =
  ck_contract :: string
  ck_start :: int
  ck_end :: int
  ck_status :: checkpoint_status
  ck_digest :: "string option"

datatype trace_item = Scanned int int | RolledBack int

text \<open>\<open>positions\<close> is \<open>indexer_state\<close>: last ledger and last finalized ledger per contract.\<close>

record 's indexer =
  store :: "'s store_state"
  checkpoints :: "checkpoint list"
  positions :: "string \<Rightarrow> (int \<times> int) option"
  lagAlertActive :: bool
  running :: bool
  outbox :: "announcement list"
  trace :: "trace_item list"

datatype poll_error =
    SqlFailed db_error | RpcFailed string | StoreFailed store_error | NotReturning

text \<open>The points at which a poll queries the database or the RPC server.\<close>

datatype poll_point =
    ReadPosition nat | InitPosition | ReadVerified | FillDigest | ReadSuspects
  | MarkVerified nat | ShrinkSuspect nat | InsertBackfilled nat
  | ReadPrevious | InsertGap | InsertCheckpoint | UpdatePosition | InsertPosition

datatype fetch_call = ReorgCheck | BackfillFetch nat | ChunkFetch

record 'v poll_env =
  pe_latestLedger :: "string + js_number"
  pe_fault :: "poll_point \<Rightarrow> db_error option"
  pe_rollback_fault :: "nat \<Rightarrow> db_error option"
  pe_rpc :: "fetch_call \<Rightarrow> 'v rpc"
  pe_store :: "fetch_call \<Rightarrow> store_env"
  pe_fuel :: nat

text \<open>What stays fixed over the life of an indexer.\<close>

record ('v, 's) indexer_deps =
  d_sdk :: "'v sdk"
  d_redis :: "'s redis"
  d_sha256 :: "string \<Rightarrow> string"
  d_idRank :: "string \<Rightarrow> nat"
  d_cfg :: indexer_config

type_synonym ('s, 'a) poll_act = "('s indexer, poll_error, 'a) act"

definition sql :: "'v poll_env \<Rightarrow> poll_point \<Rightarrow> ('s, 'a) poll_act \<Rightarrow> ('s, 'a) poll_act" where
  "sql env point m =
     (case pe_fault env point of Some e \<Rightarrow> throw (SqlFailed e) | None \<Rightarrow> m)"

abbreviation contract_of :: "('v, 's) indexer_deps \<Rightarrow> string" where
  "contract_of d \<equiv> getContractId (d_cfg d)"

subsection \<open>Positions\<close>

definition getLatestLedgerSequence :: "'v poll_env \<Rightarrow> int" where
  "getLatestLedgerSequence env =
     (case pe_latestLedger env of Inr (Num n) \<Rightarrow> if 0 < n then n else 0 | _ \<Rightarrow> 0)"

definition getFinalizedLedgerSequence :: "indexer_config \<Rightarrow> 'v poll_env \<Rightarrow> int" where
  "getFinalizedLedgerSequence cfg env = max (getLatestLedgerSequence env - finalityDepth cfg) 0"

definition getLastIndexedLedger ::
  "('v, 's) indexer_deps \<Rightarrow> 'v poll_env \<Rightarrow> nat \<Rightarrow> ('s, int) poll_act" where
  "getLastIndexedLedger d env k =
     bind_act (sql env (ReadPosition k) (reading (\<lambda>st. positions st (contract_of d)))) (\<lambda>row.
       case row of
         Some (lastLedger, lastFinalized) \<Rightarrow> ret lastFinalized
       | None \<Rightarrow>
           bind_act (sql env InitPosition
             (writing (\<lambda>st. st\<lparr>positions := (positions st)(contract_of d \<mapsto> (0, 0))\<rparr>))) (\<lambda>_. ret 0))"

definition updateLastIndexedLedger ::
  "('v, 's) indexer_deps \<Rightarrow> 'v poll_env \<Rightarrow> int \<Rightarrow> ('s, unit) poll_act" where
  "updateLastIndexedLedger d env ledger =
     bind_act (sql env UpdatePosition (\<lambda>st.
       case positions st (contract_of d) of
         Some (a, b) \<Rightarrow>
           (Inr True, st\<lparr>positions := (positions st)(contract_of d \<mapsto> (max a ledger, max b ledger))\<rparr>)
       | None \<Rightarrow> (Inr False, st))) (\<lambda>updated.
       if updated then ret ()
       else sql env InsertPosition
              (writing (\<lambda>st. st\<lparr>positions := (positions st)(contract_of d \<mapsto> (ledger, ledger))\<rparr>)))"

definition recordLag :: "indexer_config \<Rightarrow> int \<Rightarrow> int \<Rightarrow> ('s, unit) poll_act" where
  "recordLag cfg lastFinalizedLedger chainTip =
     writing (\<lambda>st.
       let lag = max (chainTip - lastFinalizedLedger) 0 in
       if lagAlertThreshold cfg < lag \<and> \<not> lagAlertActive st then st\<lparr>lagAlertActive := True\<rparr>
       else if lag \<le> lagAlertThreshold cfg then st\<lparr>lagAlertActive := False\<rparr>
       else st)"

subsection \<open>Processing a chunk\<close>

record ProcessChunkResult =
  lastProcessedLedger :: int
  fetchedEvents :: nat
  insertedEvents :: nat
  rangeDigest :: string

abbreviation digest_of :: "('v, 's) indexer_deps \<Rightarrow> 'v SorobanRawEvent list \<Rightarrow> string" where
  "digest_of d \<equiv> digestEvents (d_sha256 d) (d_idRank d) (d_sdk d)"

definition fetch_act ::
  "('v, 's) indexer_deps \<Rightarrow> 'v poll_env \<Rightarrow> fetch_call \<Rightarrow> int \<Rightarrow> int \<Rightarrow> ('s, 'v SorobanRawEvent list) poll_act" where
  "fetch_act d env call s e =
     (case fetchEventsInRange (pe_rpc env call) (batchSize (d_cfg d)) (pe_fuel env) s e of
        None \<Rightarrow> throw NotReturning
      | Some (Inl err) \<Rightarrow> throw (RpcFailed err)
      | Some (Inr events) \<Rightarrow> ret events)"

definition store_act ::
  "('v, 's) indexer_deps \<Rightarrow> store_env \<Rightarrow> 'v SorobanRawEvent list \<Rightarrow> ('s, nat) poll_act" where
  "store_act d senv events st =
     (case storeEvents (d_sdk d) (d_redis d) senv events (store st) of
        (Inl err, out, s') \<Rightarrow> (Inl (StoreFailed err), st\<lparr>store := s', outbox := outbox st @ out\<rparr>)
      | (Inr n, out, s') \<Rightarrow> (Inr n, st\<lparr>store := s', outbox := outbox st @ out\<rparr>))"

definition processChunk ::
  "('v, 's) indexer_deps \<Rightarrow> 'v poll_env \<Rightarrow> fetch_call \<Rightarrow> int \<Rightarrow> int \<Rightarrow> ('s, ProcessChunkResult) poll_act" where
  "processChunk d env call startLedger endLedger =
     (if endLedger < startLedger
      then ret \<lparr>lastProcessedLedger = max (startLedger - 1) 0, fetchedEvents = 0, insertedEvents = 0,
                rangeDigest = digest_of d []\<rparr>
      else
        bind_act (fetch_act d env call startLedger endLedger) (\<lambda>events.
          if events = []
          then bind_act (writing (\<lambda>st. st\<lparr>trace := trace st @ [Scanned startLedger endLedger]\<rparr>)) (\<lambda>_.
                 ret \<lparr>lastProcessedLedger = endLedger, fetchedEvents = 0, insertedEvents = 0,
                      rangeDigest = digest_of d []\<rparr>)
          else bind_act (store_act d (pe_store env call) events) (\<lambda>insertedCount.
                 bind_act (writing (\<lambda>st. st\<lparr>trace := trace st @ [Scanned startLedger endLedger]\<rparr>)) (\<lambda>_.
                   let maxLedger = fold (\<lambda>ev m. max m (ev_ledger ev)) events startLedger in
                   ret \<lparr>lastProcessedLedger = max maxLedger endLedger, fetchedEvents = length events,
                        insertedEvents = insertedCount, rangeDigest = digest_of d events\<rparr>))))"

definition processEvents ::
  "('v, 's) indexer_deps \<Rightarrow> 'v poll_env \<Rightarrow> int \<Rightarrow> int \<Rightarrow> ('s, int) poll_act" where
  "processEvents d env startLedger endLedger =
     bind_act (processChunk d env ChunkFetch startLedger endLedger) (\<lambda>r. ret (lastProcessedLedger r))"

text \<open>\<open>reindexRange\<close>, with fuel for its loop: chunks from \<open>current\<close> on.\<close>

fun reindex_loop ::
  "('v, 's) indexer_deps \<Rightarrow> 'v poll_env \<Rightarrow> nat \<Rightarrow> int \<Rightarrow> int \<Rightarrow> nat \<times> nat \<times> int
     \<Rightarrow> ('s, nat \<times> nat \<times> int) poll_act" where
  "reindex_loop d env 0 current toLedger acc = throw NotReturning"
| "reindex_loop d env (Suc fuel) current toLedger (totalFetched, totalInserted, lastProcessed) =
     (if toLedger < current then ret (totalFetched, totalInserted, lastProcessed)
      else
        let chunkEnd = min (current + batchSize (d_cfg d) - 1) toLedger in
        bind_act (processChunk d env ChunkFetch current chunkEnd) (\<lambda>r.
          reindex_loop d env fuel (chunkEnd + 1) toLedger
            (totalFetched + fetchedEvents r, totalInserted + insertedEvents r, lastProcessedLedger r)))"

definition reindexRange ::
  "('v, 's) indexer_deps \<Rightarrow> 'v poll_env \<Rightarrow> nat \<Rightarrow> int \<Rightarrow> int \<Rightarrow> ('s, nat \<times> nat \<times> int) poll_act" where
  "reindexRange d env fuel fromLedger toLedger =
     reindex_loop d env fuel fromLedger toLedger (0, 0, fromLedger - 1)"

subsection \<open>Checkpoints\<close>

definition own :: "string \<Rightarrow> checkpoint list \<Rightarrow> checkpoint list" where
  "own contract rows = filter (\<lambda>c. ck_contract c = contract) rows"

text \<open>\<open>ORDER BY range_end DESC LIMIT 1\<close>; among equal ends the earliest row.\<close>

fun latest_row :: "checkpoint list \<Rightarrow> checkpoint option" where
  "latest_row [] = None"
| "latest_row (c # cs) =
     (case latest_row cs of None \<Rightarrow> Some c | Some c' \<Rightarrow> if ck_end c < ck_end c' then Some c' else Some c)"

text \<open>An insert; the table checks that a range does not end before it starts.\<close>

definition insert_checkpoint ::
  "'v poll_env \<Rightarrow> poll_point \<Rightarrow> checkpoint \<Rightarrow> ('s, unit) poll_act" where
  "insert_checkpoint env point row =
     sql env point
       (if ck_end row < ck_start row then throw (SqlFailed (DbError ''23514''))
        else writing (\<lambda>st. st\<lparr>checkpoints := checkpoints st @ [row]\<rparr>))"

definition recordCheckpoint ::
  "('v, 's) indexer_deps \<Rightarrow> 'v poll_env \<Rightarrow> int \<Rightarrow> int \<Rightarrow> string \<Rightarrow> ('s, unit) poll_act" where
  "recordCheckpoint d env rangeStart rangeEnd digest =
     bind_act (sql env ReadPrevious (reading (\<lambda>st. map_option ck_end (latest_row (own (contract_of d) (checkpoints st))))))
       (\<lambda>previousRangeEnd.
         bind_act
           (case previousRangeEnd of
              None \<Rightarrow> ret ()
            | Some p \<Rightarrow>
                if p + 1 < rangeStart
                then insert_checkpoint env InsertGap
                       \<lparr>ck_contract = contract_of d, ck_start = p + 1, ck_end = rangeStart - 1,
                        ck_status = Suspect, ck_digest = None\<rparr>
                else ret ())
           (\<lambda>_. insert_checkpoint env InsertCheckpoint
                  \<lparr>ck_contract = contract_of d, ck_start = rangeStart, ck_end = rangeEnd,
                   ck_status = Verified, ck_digest = Some digest\<rparr>))"

definition getLatestVerifiedCheckpoint ::
  "('v, 's) indexer_deps \<Rightarrow> 'v poll_env \<Rightarrow> ('s, checkpoint option) poll_act" where
  "getLatestVerifiedCheckpoint d env =
     sql env ReadVerified (reading (\<lambda>st.
       latest_row (filter (\<lambda>c. ck_status c = Verified) (own (contract_of d) (checkpoints st)))))"

definition suspect_rows :: "string \<Rightarrow> checkpoint list \<Rightarrow> checkpoint list" where
  "suspect_rows contract rows =
     sort_key ck_start (filter (\<lambda>c. ck_status c = Suspect) (own contract rows))"

definition getSuspectRanges ::
  "('v, 's) indexer_deps \<Rightarrow> 'v poll_env \<Rightarrow> ('s, (int \<times> int) list) poll_act" where
  "getSuspectRanges d env =
     sql env ReadSuspects (reading (\<lambda>st.
       map (\<lambda>c. (ck_start c, ck_end c)) (suspect_rows (contract_of d) (checkpoints st))))"

definition hasUnresolvedLedgerGaps :: "bool \<Rightarrow> string \<Rightarrow> checkpoint list \<Rightarrow> bool" where
  "hasUnresolvedLedgerGaps readable contract rows =
     (readable \<and> (\<exists>c\<in>set rows. ck_contract c = contract \<and> ck_status c = Suspect))"

subsection \<open>Reorganisations\<close>

text \<open>The tables the rollback transaction writes.\<close>

type_synonym rollback_tables = "idx_db \<times> checkpoint list \<times> (string \<Rightarrow> (int \<times> int) option)"

definition orphaned :: "string list \<Rightarrow> int \<Rightarrow> contract_event \<Rightarrow> bool" where
  "orphaned ids ledger row \<longleftrightarrow> ce_contract_id row \<in> set ids \<and> ledger \<le> ce_ledger row"

definition rollback_delta :: "store_env \<Rightarrow> contract_event \<Rightarrow> (string \<times> int) list \<Rightarrow> (string \<times> int) list" where
  "rollback_delta senv row m =
     (case ce_address row of
        None \<Rightarrow> m
      | Some a \<Rightarrow>
          if a = [] then m
          else if ce_event_type row = ''LoanRepaid'' then map_add_delta a (- score_repaymentDelta senv) m
          else if ce_event_type row = ''LoanDefaulted'' \<or> ce_event_type row = ''CollateralLiquidated''
            then map_add_delta a (score_defaultPenalty senv) m
          else m)"

definition reversal_rows :: "string list \<Rightarrow> int \<Rightarrow> idx_audit list \<Rightarrow> idx_audit list" where
  "reversal_rows ids ledger audits =
     map (\<lambda>a. \<lparr>ia_actor = ''SYSTEM'', ia_action = ''REORG_REVERSAL'', ia_target = ia_target a,
               ia_payload = JObj [(''reversedEventId'', the (json_get ''eventId'' (ia_payload a))),
                                  (''rollbackLedger'', JInt ledger)],
               ia_ip_address = Some ''internal-indexer'', ia_status = 200\<rparr>)
       (filter (\<lambda>a. \<exists>i\<in>set ids. json_get ''eventId'' (ia_payload a) = Some (JStr i)) audits)"

definition rollback_body ::
  "('v, 's) indexer_deps \<Rightarrow> 'v poll_env \<Rightarrow> int \<Rightarrow> nat \<Rightarrow> 's cache_service \<Rightarrow> rollback_tables
     \<Rightarrow> (db_error + unit \<times> rollback_tables) \<times> 's cache_service" where
  "rollback_body d env ledger attempt cache tables =
     (case tables of (db, cks, pos) \<Rightarrow>
        let ids = contractIds (d_cfg d);
            orphans = filter (orphaned ids ledger) (ix_events db);
            scoreRollbacks = fold (rollback_delta (pe_store env ReorgCheck)) orphans [];
            audits = ix_audit db @ reversal_rows (map ce_event_id orphans) ledger (ix_audit db);
            rest = filter (\<lambda>row. \<not> orphaned ids ledger row) (ix_events db)
        in (case updateUserScoresBulk (d_redis d) scoreRollbacks (ix_scores db, cache) of
              Inl err \<Rightarrow> (Inl err, cache)
            | Inr (scores, cache1) \<Rightarrow>
                (case pe_rollback_fault env attempt of
                   Some err \<Rightarrow> (Inl err, cache1)
                 | None \<Rightarrow>
                     (Inr ((), \<lparr>ix_events = rest, ix_audit = audits, ix_scores = scores\<rparr>,
                        filter (\<lambda>c. \<not> (ck_contract c = contract_of d \<and> ledger \<le> ck_end c)) cks,
                        (case pos (contract_of d) of
                           None \<Rightarrow> pos
                         | Some (a, b) \<Rightarrow>
                             pos(contract_of d \<mapsto> (min a (max (ledger - 1) 0), min b (max (ledger - 1) 0))))),
                      cache1))))"

definition rollbackFromLedger ::
  "('v, 's) indexer_deps \<Rightarrow> 'v poll_env \<Rightarrow> int \<Rightarrow> ('s, unit) poll_act" where
  "rollbackFromLedger d env ledger st =
     (case withTransaction (rollback_body d env ledger) (st_cache (store st))
             (st_db (store st), checkpoints st, positions st) of
        (Inl err, cache, _) \<Rightarrow> (Inl (SqlFailed err), st\<lparr>store := (store st)\<lparr>st_cache := cache\<rparr>\<rparr>)
      | (Inr _, cache, (db, cks, pos)) \<Rightarrow>
          (Inr (), st\<lparr>store := (store st)\<lparr>st_db := db, st_cache := cache\<rparr>, checkpoints := cks,
                      positions := pos, trace := trace st @ [RolledBack ledger]\<rparr>))"

definition set_digest :: "string \<Rightarrow> int \<Rightarrow> int \<Rightarrow> string \<Rightarrow> checkpoint \<Rightarrow> checkpoint" where
  "set_digest contract s e digest c =
     (if ck_contract c = contract \<and> ck_start c = s \<and> ck_end c = e \<and> ck_status c = Verified
      then c\<lparr>ck_digest := Some digest\<rparr> else c)"

definition detectAndRollbackReorg :: "('v, 's) indexer_deps \<Rightarrow> 'v poll_env \<Rightarrow> ('s, bool) poll_act" where
  "detectAndRollbackReorg d env =
     bind_act (getLatestVerifiedCheckpoint d env) (\<lambda>ck.
       case ck of
         None \<Rightarrow> ret False
       | Some c \<Rightarrow>
           bind_act (fetch_act d env ReorgCheck (ck_start c) (ck_end c)) (\<lambda>events.
             let currentDigest = digest_of d events in
             case ck_digest c of
               None \<Rightarrow>
                 bind_act (sql env FillDigest (writing (\<lambda>st.
                   st\<lparr>checkpoints := map (set_digest (contract_of d) (ck_start c) (ck_end c) currentDigest)
                                       (checkpoints st)\<rparr>))) (\<lambda>_. ret False)
             | Some digest \<Rightarrow>
                 if currentDigest = digest then ret False
                 else bind_act (rollbackFromLedger d env (ck_start c)) (\<lambda>_. ret True)))"

subsection \<open>Backfilling and polling\<close>

text \<open>The suspect rows with exactly the given range.\<close>

definition suspect_at :: "string \<Rightarrow> int \<Rightarrow> int \<Rightarrow> checkpoint \<Rightarrow> bool" where
  "suspect_at contract s e c \<longleftrightarrow>
     ck_contract c = contract \<and> ck_status c = Suspect \<and> ck_start c = s \<and> ck_end c = e"

definition mark_verified :: "string \<Rightarrow> int \<Rightarrow> int \<Rightarrow> string \<Rightarrow> checkpoint \<Rightarrow> checkpoint" where
  "mark_verified contract s e digest c =
     (if suspect_at contract s e c then c\<lparr>ck_status := Verified, ck_digest := Some digest\<rparr> else c)"

definition shrink_suspect :: "string \<Rightarrow> int \<Rightarrow> int \<Rightarrow> int \<Rightarrow> checkpoint \<Rightarrow> checkpoint" where
  "shrink_suspect contract s e newStart c =
     (if suspect_at contract s e c then c\<lparr>ck_start := newStart\<rparr> else c)"

definition backfill_range ::
  "('v, 's) indexer_deps \<Rightarrow> 'v poll_env \<Rightarrow> nat \<Rightarrow> int \<Rightarrow> int \<times> int \<Rightarrow> ('s, int) poll_act" where
  "backfill_range d env k finalizedTip rng =
     (case rng of (rangeStart, rangeEnd) \<Rightarrow>
        let end_l = min rangeEnd finalizedTip in
        if end_l < rangeStart then ret 0
        else
          bind_act (processChunk d env (BackfillFetch k) rangeStart end_l) (\<lambda>result.
            bind_act
              (if end_l = rangeEnd
               then sql env (MarkVerified k) (writing (\<lambda>st.
                      st\<lparr>checkpoints := map (mark_verified (contract_of d) rangeStart rangeEnd (rangeDigest result))
                                          (checkpoints st)\<rparr>))
               else
                 bind_act (sql env (ShrinkSuspect k) (writing (\<lambda>st.
                   st\<lparr>checkpoints := map (shrink_suspect (contract_of d) rangeStart rangeEnd (end_l + 1))
                                       (checkpoints st)\<rparr>))) (\<lambda>_.
                 insert_checkpoint env (InsertBackfilled k)
                   \<lparr>ck_contract = contract_of d, ck_start = rangeStart, ck_end = end_l,
                    ck_status = Verified, ck_digest = Some (rangeDigest result)\<rparr>))
              (\<lambda>_. ret (end_l - rangeStart + 1))))"

fun backfill_loop ::
  "('v, 's) indexer_deps \<Rightarrow> 'v poll_env \<Rightarrow> nat \<Rightarrow> int \<Rightarrow> (int \<times> int) list \<Rightarrow> int \<Rightarrow> ('s, int) poll_act" where
  "backfill_loop d env k finalizedTip [] backfilled = ret backfilled"
| "backfill_loop d env k finalizedTip (rng # ranges) backfilled =
     bind_act (backfill_range d env k finalizedTip rng) (\<lambda>n.
       backfill_loop d env (Suc k) finalizedTip ranges (backfilled + n))"

definition backfillMissingRanges ::
  "('v, 's) indexer_deps \<Rightarrow> 'v poll_env \<Rightarrow> int option \<Rightarrow> ('s, int) poll_act" where
  "backfillMissingRanges d env finalizedLedger =
     (let finalizedTip = (case finalizedLedger of
          Some n \<Rightarrow> n | None \<Rightarrow> getFinalizedLedgerSequence (d_cfg d) env)
      in if finalizedTip \<le> 0 then ret 0
         else bind_act (getSuspectRanges d env) (\<lambda>ranges. backfill_loop d env 0 finalizedTip ranges 0))"

text \<open>The next chunk after the position, up to the finalized ledger.\<close>

definition index_next :: "('v, 's) indexer_deps \<Rightarrow> 'v poll_env \<Rightarrow> int \<Rightarrow> int \<Rightarrow> int \<Rightarrow> ('s, unit) poll_act" where
  "index_next d env latestLedger finalizedLedger checkpointAfterReorg =
     (if finalizedLedger \<le> checkpointAfterReorg
      then recordLag (d_cfg d) checkpointAfterReorg latestLedger
      else
        let fromLedger = checkpointAfterReorg + 1;
            toLedger = min (fromLedger + batchSize (d_cfg d) - 1) finalizedLedger
        in bind_act (processChunk d env ChunkFetch fromLedger toLedger) (\<lambda>result.
           bind_act (recordCheckpoint d env fromLedger (lastProcessedLedger result) (rangeDigest result)) (\<lambda>_.
           bind_act (updateLastIndexedLedger d env (lastProcessedLedger result)) (\<lambda>_.
             recordLag (d_cfg d) (lastProcessedLedger result) latestLedger))))"

definition poll_to :: "('v, 's) indexer_deps \<Rightarrow> 'v poll_env \<Rightarrow> int \<Rightarrow> int \<Rightarrow> ('s, unit) poll_act" where
  "poll_to d env latestLedger finalizedLedger =
     bind_act (detectAndRollbackReorg d env) (\<lambda>_.
     bind_act (getLastIndexedLedger d env 1) (\<lambda>checkpointAfterReorg.
     bind_act (backfillMissingRanges d env (Some finalizedLedger)) (\<lambda>_.
       index_next d env latestLedger finalizedLedger checkpointAfterReorg)))"

definition pollOnce :: "('v, 's) indexer_deps \<Rightarrow> 'v poll_env \<Rightarrow> ('s, unit) poll_act" where
  "pollOnce d env =
     bind_act (reading running) (\<lambda>on.
       if \<not> on then ret ()
       else
         bind_act (getLastIndexedLedger d env 0) (\<lambda>_.
           let latestLedger = getLatestLedgerSequence env in
           if latestLedger = 0 then ret ()
           else poll_to d env latestLedger (max (latestLedger - finalityDepth (d_cfg d)) 0)))"

subsection \<open>Starting and stopping\<close>

text \<open>
  The poll loop as its timers: the polls in flight, the timeouts pending, by number, and the
  timeout \<open>pollTimeout\<close> refers to, fired or not.
\<close>

record loop_state =
  ls_running :: bool
  ls_polls :: nat
  ls_timeouts :: "nat list"
  ls_pollTimeout :: "nat option"
  ls_next :: nat

definition start_loop :: "loop_state \<Rightarrow> loop_state" where
  "start_loop s = (if ls_running s then s else s\<lparr>ls_running := True, ls_polls := ls_polls s + 1\<rparr>)"

definition scheduleNextPoll :: "loop_state \<Rightarrow> loop_state" where
  "scheduleNextPoll s =
     (if \<not> ls_running s then s
      else s\<lparr>ls_timeouts := ls_timeouts s @ [ls_next s], ls_pollTimeout := Some (ls_next s),
             ls_next := ls_next s + 1\<rparr>)"

definition poll_settles :: "loop_state \<Rightarrow> loop_state" where
  "poll_settles s = (if ls_polls s = 0 then s else scheduleNextPoll (s\<lparr>ls_polls := ls_polls s - 1\<rparr>))"

definition timeout_fires :: "nat \<Rightarrow> loop_state \<Rightarrow> loop_state" where
  "timeout_fires t s =
     (if t \<notin> set (ls_timeouts s) then s
      else s\<lparr>ls_timeouts := remove1 t (ls_timeouts s), ls_polls := ls_polls s + 1\<rparr>)"

definition stop_loop :: "loop_state \<Rightarrow> loop_state" where
  "stop_loop s =
     (case ls_pollTimeout s of
        None \<Rightarrow> s\<lparr>ls_running := False\<rparr>
      | Some t \<Rightarrow> s\<lparr>ls_running := False, ls_timeouts := remove1 t (ls_timeouts s), ls_pollTimeout := None\<rparr>)"

end
