(* ===== verification/IndexerSafety.thy ===== *)
theory IndexerSafety
  imports EventIndexer
begin

section \<open>What the indexer guarantees\<close>

text \<open>
  Completeness of a fetch against a server that pages in ledger order, and the safety of polling:
  no ledger is silently skipped, finality is respected, an unchanged chain is never rolled back,
  and a rollback removes exactly the orphaned events.
\<close>

subsection \<open>Fetching is complete\<close>

text \<open>
  The paging contract: events in ledger order, a page is the next \<open>limit\<close> events after the cursor
  (or from the start of the range), and its cursor is the token of its last event.
\<close>

definition serves_page ::
  "int \<Rightarrow> ('v SorobanRawEvent \<Rightarrow> string) \<Rightarrow> 'v SorobanRawEvent list
     \<Rightarrow> string + 'v SorobanRawEvent list \<times> string option \<Rightarrow> bool" where
  "serves_page limit tok evs res \<longleftrightarrow>
     (\<exists>c. res = Inr (take (nat limit) evs, c) \<and> (evs \<noteq> [] \<longrightarrow> c = Some (tok (last (take (nat limit) evs)))))"

definition rpc_serves :: "'v rpc \<Rightarrow> int \<Rightarrow> ('v SorobanRawEvent \<Rightarrow> string) \<Rightarrow> 'v SorobanRawEvent list \<Rightarrow> bool" where
  "rpc_serves rpc limit tok chain \<longleftrightarrow>
     0 < limit \<and> sorted (map ev_ledger chain) \<and> distinct chain \<and> inj_on tok (set chain)
     \<and> (\<forall>ev\<in>set chain. tok ev \<noteq> [])
     \<and> (\<forall>s e. serves_page limit tok (filter (in_range s e) chain) (rpc (InRange s e limit)))
     \<and> (\<forall>pre ev post. chain = pre @ ev # post \<longrightarrow> serves_page limit tok post (rpc (AfterCursor (tok ev) limit)))"

lemma filter_above:
  assumes "sorted (map f (xs @ ys))" "x \<in> set xs" "e < f x"
  shows "filter (\<lambda>y. s \<le> f y \<and> f y \<le> (e::int)) ys = []"
  using assms by (auto simp: sorted_append filter_empty_conv) (meson dual_order.strict_trans1 image_eqI leD)

lemma take_nonempty: "0 < (limit::int) \<Longrightarrow> xs \<noteq> [] \<Longrightarrow> take (nat limit) xs \<noteq> []"
  by (cases "nat limit") auto

text \<open>Later pages: \<open>before\<close> has been delivered, \<open>todo\<close> is still to come.\<close>

lemma fetch_pages_rest:
  assumes "rpc_serves rpc limit tok chain" "chain = before @ todo" "before \<noteq> []"
    and "\<forall>ev\<in>set todo. s \<le> ev_ledger ev" "length todo < fuel"
  shows "fetch_pages rpc limit s e fuel (Some (tok (last before))) result
     = Some (Inr (result @ filter (in_range s e) todo))"
  using assms(2-)
proof (induction fuel arbitrary: before todo result)
  case (Suc fuel)
  note laws = assms(1) [unfolded rpc_serves_def]
  let ?page = "take (nat limit) todo" and ?later = "drop (nat limit) todo"
  have split: "chain = butlast before @ last before # todo"
    using Suc.prems(1,2) by simp
  then have tok: "tok (last before) \<noteq> []" using laws by auto
  obtain c where c: "rpc (AfterCursor (tok (last before)) limit) = Inr (?page, c)"
    "todo \<noteq> [] \<longrightarrow> c = Some (tok (last ?page))"
    using laws split unfolding serves_page_def by blast
  have parts: "todo = ?page @ ?later" by simp
  then have parts_filter: "filter (in_range s e) todo = filter (in_range s e) ?page @ filter (in_range s e) ?later"
    by (metis filter_append)
  show ?case
  proof (cases "list_ex (\<lambda>ev. e < ev_ledger ev) ?page")
    case True
    then obtain ev where ev: "ev \<in> set ?page" "e < ev_ledger ev" by (auto simp: list_ex_iff)
    have "sorted (map ev_ledger (?page @ ?later))"
      using laws Suc.prems(1) by (simp add: sorted_append)
    then have "filter (in_range s e) ?later = []"
      unfolding in_range_def using ev by (rule filter_above)
    with True c tok parts_filter show ?thesis by (simp add: Let_def)
  next
    case low: False
    have inr: "filter (in_range s e) ?page = ?page"
      using low Suc.prems(3) by (auto simp: list_ex_iff filter_id_conv in_range_def dest: in_set_takeD)
    show ?thesis
    proof (cases "todo = []")
      case True
      with c tok show ?thesis by (simp add: Let_def)
    next
      case False
      then have page: "?page \<noteq> []" using laws take_nonempty by blast
      then have mem: "last ?page \<in> set todo" by (meson in_set_takeD last_in_set)
      then have "last ?page \<noteq> last before"
        using laws Suc.prems(1) last_in_set [OF Suc.prems(2)] by (metis disjoint_iff distinct_append)
      then have ne: "tok (last ?page) \<noteq> tok (last before)" "tok (last ?page) \<noteq> []"
        using laws mem Suc.prems(1) last_in_set [OF Suc.prems(2)] by (auto dest: inj_onD)
      have "length ?later < length todo" using False laws by simp
      then have "fetch_pages rpc limit s e fuel (Some (tok (last (before @ ?page)))) (result @ ?page)
          = Some (Inr ((result @ ?page) @ filter (in_range s e) ?later))"
        using Suc.prems by (intro Suc.IH) (auto dest: in_set_dropD)
      with False page c tok ne low inr parts_filter show ?thesis by (simp add: Let_def)
    qed
  qed
qed simp

lemma sorted_dropWhile_ge:
  "sorted (map f xs) \<Longrightarrow> x \<in> set (dropWhile (\<lambda>x. f x < (s::int)) xs) \<Longrightarrow> s \<le> f x"
  by (induction xs) (auto split: if_splits)

lemma sorted_dropWhile_gt:
  "sorted (map f xs) \<Longrightarrow> x \<in> set (dropWhile (\<lambda>x. f x \<le> (e::int)) xs) \<Longrightarrow> e < f x"
  by (induction xs) (auto split: if_splits)

text \<open>In ledger order a range is a contiguous part of the chain.\<close>

lemma range_contiguous:
  assumes "sorted (map ev_ledger chain)"
  obtains pre post where "chain = pre @ filter (in_range s e) chain @ post"
    "\<forall>ev\<in>set post. e < ev_ledger ev" "\<forall>ev\<in>set (filter (in_range s e) chain @ post). s \<le> ev_ledger ev"
proof -
  let ?pre = "takeWhile (\<lambda>ev. ev_ledger ev < s) chain" and ?rest = "dropWhile (\<lambda>ev. ev_ledger ev < s) chain"
  let ?R = "takeWhile (\<lambda>ev. ev_ledger ev \<le> e) ?rest" and ?post = "dropWhile (\<lambda>ev. ev_ledger ev \<le> e) ?rest"
  have ge: "s \<le> ev_ledger ev" if "ev \<in> set ?rest" for ev using sorted_dropWhile_ge [OF assms that] .
  have "sorted (map ev_ledger (?pre @ ?rest))" using assms by simp
  then have sr: "sorted (map ev_ledger ?rest)" by (simp only: map_append sorted_append)
  have gt: "e < ev_ledger ev" if "ev \<in> set ?post" for ev using sorted_dropWhile_gt [OF sr that] .
  have geR: "s \<le> ev_ledger ev" if "ev \<in> set ?R" for ev using ge that by (auto dest: set_takeWhileD)
  have geP: "s \<le> ev_ledger ev" if "ev \<in> set ?post" for ev using ge that by (auto dest: set_dropWhileD)
  have "filter (in_range s e) ?pre = []" by (auto simp: filter_empty_conv in_range_def dest: set_takeWhileD)
  moreover have "filter (in_range s e) ?R = ?R"
    using geR by (auto simp: filter_id_conv in_range_def dest: set_takeWhileD)
  moreover have "filter (in_range s e) ?post = []" using gt by (force simp: filter_empty_conv in_range_def)
  moreover have ch: "chain = ?pre @ ?R @ ?post" by simp
  ultimately have "filter (in_range s e) chain = ?R" by (metis append_Nil append_Nil2 filter_append)
  with ch gt ge show ?thesis by (intro that [of ?pre ?post]) auto
qed

lemma fetch_returns_range:
  assumes "rpc_serves rpc limit tok chain" "length chain + 2 \<le> fuel"
  shows "fetchEventsInRange rpc limit fuel s e = Some (Inr (filter (in_range s e) chain))"
proof -
  note laws = assms(1) [unfolded rpc_serves_def]
  let ?R = "filter (in_range s e) chain"
  obtain pre post where ch: "chain = pre @ ?R @ post" and rest: "\<forall>ev\<in>set (?R @ post). s \<le> ev_ledger ev"
    "\<forall>ev\<in>set post. e < ev_ledger ev"
    using range_contiguous [of chain s e] laws by metis
  obtain fuel' where fuel: "fuel = Suc fuel'" "length chain < fuel'" using assms(2) by (cases fuel) auto
  let ?page = "take (nat limit) ?R"
  obtain c where c: "rpc (InRange s e limit) = Inr (?page, c)" "?R \<noteq> [] \<longrightarrow> c = Some (tok (last ?page))"
    using laws unfolding serves_page_def by blast
  have inr: "filter (in_range s e) ?page = ?page" by (auto simp: filter_id_conv dest: in_set_takeD)
  have low: "\<not> list_ex (\<lambda>ev. e < ev_ledger ev) ?page"
    by (auto simp: list_ex_iff in_range_def dest!: in_set_takeD)
  have "fetch_pages rpc limit s e fuel None [] = Some (Inr ?R)"
  proof (cases "?R = []")
    case True
    with c fuel show ?thesis by (simp add: Let_def)
  next
    case False
    then have page: "?page \<noteq> []" using laws take_nonempty by blast
    then have "last ?page \<in> set chain" by (metis filter_is_subset in_set_takeD last_in_set subsetD)
    then have tok: "tok (last ?page) \<noteq> []" using laws by blast
    have "chain = (pre @ ?page) @ (drop (nat limit) ?R @ post)" using ch by (metis append.assoc append_take_drop_id)
    moreover have "\<forall>ev\<in>set (drop (nat limit) ?R @ post). s \<le> ev_ledger ev" using rest by (auto dest: in_set_dropD)
    moreover have "length (drop (nat limit) ?R @ post) < fuel'"
      using fuel(2) arg_cong [OF ch, of length] by simp
    ultimately have "fetch_pages rpc limit s e fuel' (Some (tok (last (pre @ ?page)))) ?page
        = Some (Inr (?page @ filter (in_range s e) (drop (nat limit) ?R @ post)))"
      using page by (intro fetch_pages_rest [OF assms(1)]) auto
    moreover have "filter (in_range s e) (drop (nat limit) ?R @ post) = drop (nat limit) ?R"
    proof -
      have "in_range s e x" if "x \<in> set (drop (nat limit) ?R)" for x
      proof -
        have "x \<in> set ?R" using that by (rule in_set_dropD)
        then show ?thesis by simp
      qed
      then have "filter (in_range s e) (drop (nat limit) ?R) = drop (nat limit) ?R"
        unfolding filter_id_conv by blast
      moreover have "filter (in_range s e) post = []" using rest(2) by (force simp: filter_empty_conv in_range_def)
      ultimately show ?thesis by simp
    qed
    ultimately show ?thesis using False page c tok inr low fuel by (simp add: Let_def)
  qed
  moreover have "sorted (map ev_ledger ?R)" using laws by (simp add: sorted_filter)
  ultimately show ?thesis by (simp add: fetchEventsInRange_def sort_key_id_if_sorted)
qed

subsection \<open>The coverage invariant\<close>

text \<open>A ledger is scanned when a chunk over it completed after the last rollback at or below it.\<close>

definition scanned :: "trace_item list \<Rightarrow> int \<Rightarrow> bool" where
  "scanned tr l =
     foldl (\<lambda>b item. case item of Scanned s e \<Rightarrow> b \<or> (s \<le> l \<and> l \<le> e) | RolledBack L \<Rightarrow> b \<and> l < L) False tr"

lemma scanned_snoc [simp]:
  "scanned [] l \<longleftrightarrow> False"
  "scanned (tr @ [Scanned s e]) l \<longleftrightarrow> scanned tr l \<or> (s \<le> l \<and> l \<le> e)"
  "scanned (tr @ [RolledBack L]) l \<longleftrightarrow> scanned tr l \<and> l < L"
  by (simp_all add: scanned_def)

definition last_position :: "string \<Rightarrow> 's indexer \<Rightarrow> int" where
  "last_position contract st = (case positions st contract of None \<Rightarrow> 0 | Some (a, b) \<Rightarrow> b)"

definition own_rows :: "string \<Rightarrow> 's indexer \<Rightarrow> checkpoint set" where
  "own_rows contract st = set (own contract (checkpoints st))"

definition covers :: "checkpoint \<Rightarrow> int \<Rightarrow> bool" where
  "covers c l \<longleftrightarrow> ck_start c \<le> l \<and> l \<le> ck_end c"

text \<open>A range that starts before \<open>s\<close> and reaches it.\<close>

definition straddles :: "checkpoint \<Rightarrow> int \<Rightarrow> bool" where
  "straddles c s \<longleftrightarrow> ck_start c < s \<and> s \<le> ck_end c"

definition apart :: "checkpoint \<Rightarrow> checkpoint \<Rightarrow> bool" where
  "apart c c' \<longleftrightarrow> ck_start c = ck_start c' \<and> ck_end c = ck_end c' \<or> ck_end c < ck_start c' \<or> ck_end c' < ck_start c"

definition rows_ok :: "checkpoint set \<Rightarrow> int \<Rightarrow> bool" where
  "rows_ok rows pos \<longleftrightarrow>
     0 \<le> pos
     \<and> (\<forall>c\<in>rows. 1 \<le> ck_start c \<and> ck_start c \<le> ck_end c)
     \<and> (\<forall>c\<in>rows. \<forall>v\<in>rows. ck_status c = Suspect \<longrightarrow> ck_status v = Verified \<longrightarrow> \<not> straddles c (ck_start v))
     \<and> (\<forall>c\<in>rows. \<forall>c'\<in>rows. ck_status c = Suspect \<longrightarrow> ck_status c' = Suspect \<longrightarrow> apart c c')
     \<and> (\<forall>c\<in>rows. ck_status c = Suspect \<longrightarrow> ck_end c \<le> pos)"

definition known :: "checkpoint set \<Rightarrow> trace_item list \<Rightarrow> int \<Rightarrow> bool" where
  "known rows tr l \<longleftrightarrow> scanned tr l \<or> (\<exists>c\<in>rows. ck_status c = Suspect \<and> covers c l)"

definition recorded :: "checkpoint set \<Rightarrow> int \<Rightarrow> int \<Rightarrow> bool" where
  "recorded rows pos l \<longleftrightarrow> (\<exists>c\<in>rows. l \<le> ck_end c) \<or> (rows = {} \<and> l \<le> pos)"

definition cov_inv :: "int \<Rightarrow> string \<Rightarrow> 's indexer \<Rightarrow> bool" where
  "cov_inv base contract st \<longleftrightarrow>
     rows_ok (own_rows contract st) (last_position contract st)
     \<and> (\<forall>l. base \<le> l \<longrightarrow> recorded (own_rows contract st) (last_position contract st) l
           \<longrightarrow> known (own_rows contract st) (trace st) l)"

text \<open>The invariant depends on the checkpoints, the position and the trace only.\<close>

lemma cov_inv_cong:
  "checkpoints st' = checkpoints st \<Longrightarrow> last_position C st' = last_position C st \<Longrightarrow> trace st' = trace st \<Longrightarrow>
     cov_inv base C st' = cov_inv base C st"
  by (simp add: cov_inv_def own_rows_def)

lemma own_rows_add:
  "own_rows C (st\<lparr>checkpoints := checkpoints st @ [row]\<rparr>) =
     (if ck_contract row = C then insert row (own_rows C st) else own_rows C st)"
  by (auto simp: own_rows_def own_def)

lemma cov_inv_scan:
  "cov_inv base C st \<Longrightarrow> cov_inv base C (st\<lparr>trace := trace st @ [Scanned s e]\<rparr>)"
  by (auto simp: cov_inv_def known_def own_rows_def last_position_def)

subsubsection \<open>Adding rows\<close>

lemma cov_inv_add_gap:
  assumes "cov_inv base C st" "c \<in> own_rows C st" "\<forall>r\<in>own_rows C st. ck_end r \<le> ck_end c"
    and "ck_end c < last_position C st"
    and "row = \<lparr>ck_contract = C, ck_start = ck_end c + 1, ck_end = last_position C st, ck_status = Suspect,
                ck_digest = None\<rparr>"
  shows "cov_inv base C (st\<lparr>checkpoints := checkpoints st @ [row]\<rparr>)"
proof -
  let ?st' = "st\<lparr>checkpoints := checkpoints st @ [row]\<rparr>"
  have rows: "own_rows C ?st' = insert row (own_rows C st)" using assms(5) by (simp add: own_rows_add)
  have pos: "last_position C ?st' = last_position C st" by (simp add: last_position_def)
  have ok: "rows_ok (own_rows C st) (last_position C st)" using assms(1) by (simp add: cov_inv_def)
  have below: "ck_start r \<le> ck_end c \<and> ck_end r \<le> ck_end c" if "r \<in> own_rows C st" for r
    using ok assms(3) that unfolding rows_ok_def by fastforce
  have c1: "1 \<le> ck_end c" using ok assms(2) by (auto simp: rows_ok_def)
  have "rows_ok (insert row (own_rows C st)) (last_position C st)"
    using ok below c1 assms(4,5) unfolding rows_ok_def straddles_def apart_def by fastforce
  moreover have "known (insert row (own_rows C st)) (trace st) l"
    if l: "base \<le> l" "recorded (insert row (own_rows C st)) (last_position C st) l" for l
  proof (cases "l \<le> ck_end c")
    case True
    then have "recorded (own_rows C st) (last_position C st) l" using assms(2) by (auto simp: recorded_def)
    then show ?thesis using assms(1) l(1) by (auto simp: cov_inv_def known_def)
  next
    case False
    then have "l \<le> last_position C st"
      using l(2) below assms(5) by (force simp: recorded_def)
    with False have "covers row l" using assms(5) by (simp add: covers_def)
    then show ?thesis using assms(5) by (auto simp: known_def)
  qed
  ultimately show ?thesis by (simp add: cov_inv_def rows pos)
qed

lemma cov_inv_add_verified:
  assumes "cov_inv base C st" "ck_contract row = C" "ck_status row = Verified"
    and "1 \<le> ck_start row" "ck_start row \<le> ck_end row"
    and "\<forall>c\<in>own_rows C st. ck_status c = Suspect \<longrightarrow> \<not> straddles c (ck_start row)"
    and "\<forall>l. base \<le> l \<longrightarrow> l \<le> ck_end row \<longrightarrow>
           recorded (own_rows C st) (last_position C st) l \<or> scanned (trace st) l"
  shows "cov_inv base C (st\<lparr>checkpoints := checkpoints st @ [row]\<rparr>)"
proof -
  let ?st' = "st\<lparr>checkpoints := checkpoints st @ [row]\<rparr>"
  have rows: "own_rows C ?st' = insert row (own_rows C st)" using assms(2) by (simp add: own_rows_add)
  have pos: "last_position C ?st' = last_position C st" by (simp add: last_position_def)
  have "rows_ok (insert row (own_rows C st)) (last_position C st)"
    using assms(1,3-6) by (auto simp: cov_inv_def rows_ok_def)
  moreover have "known (insert row (own_rows C st)) (trace st) l"
    if "base \<le> l" "recorded (insert row (own_rows C st)) (last_position C st) l" for l
  proof -
    have "recorded (own_rows C st) (last_position C st) l \<or> scanned (trace st) l"
      using that assms(7) by (auto simp: recorded_def)
    then show ?thesis using assms(1) that(1) by (auto simp: cov_inv_def known_def)
  qed
  ultimately show ?thesis by (simp add: cov_inv_def rows pos)
qed

subsubsection \<open>Rewriting suspect rows\<close>

lemma own_rows_map:
  "(\<And>c. ck_contract (f c) = ck_contract c) \<Longrightarrow>
     own_rows C (st\<lparr>checkpoints := map f (checkpoints st)\<rparr>) = f ` own_rows C st"
  by (auto simp: own_rows_def own_def)

lemma cov_inv_mark:
  assumes "cov_inv base C st" "\<forall>c\<in>own_rows C st. ck_status c = Suspect \<longrightarrow> \<not> straddles c s"
    and "\<forall>l. s \<le> l \<longrightarrow> l \<le> e \<longrightarrow> scanned (trace st) l"
  shows "cov_inv base C (st\<lparr>checkpoints := map (mark_verified C s e digest) (checkpoints st)\<rparr>)"
proof -
  let ?f = "mark_verified C s e digest"
  let ?st' = "st\<lparr>checkpoints := map ?f (checkpoints st)\<rparr>"
  have f: "ck_contract (?f c) = ck_contract c" "ck_start (?f c) = ck_start c" "ck_end (?f c) = ck_end c" for c
    by (simp_all add: mark_verified_def)
  have st: "ck_status (?f c) = (if suspect_at C s e c then Verified else ck_status c)" for c
    by (simp add: mark_verified_def)
  have rows: "own_rows C ?st' = ?f ` own_rows C st" by (rule own_rows_map) (rule f)
  have pos: "last_position C ?st' = last_position C st" by (simp add: last_position_def)
  have "rows_ok (?f ` own_rows C st) (last_position C st)"
    using assms(1,2) unfolding cov_inv_def rows_ok_def straddles_def apart_def
    by (simp add: f st suspect_at_def)
  moreover have "known (?f ` own_rows C st) (trace st) l"
    if l: "base \<le> l" "recorded (?f ` own_rows C st) (last_position C st) l" for l
  proof -
    have "recorded (own_rows C st) (last_position C st) l" using l(2) by (auto simp: recorded_def f)
    then consider (sc) "scanned (trace st) l"
      | (su) c where "c \<in> own_rows C st" "ck_status c = Suspect" "covers c l"
      using assms(1) l(1) by (auto simp: cov_inv_def known_def)
    then show ?thesis
    proof cases
      case su
      show ?thesis
      proof (cases "suspect_at C s e c")
        case True
        then show ?thesis using su(3) assms(3) by (auto simp: known_def suspect_at_def covers_def)
      next
        case False
        then have "?f c = c" by (simp add: mark_verified_def)
        then show ?thesis using su by (metis image_eqI known_def)
      qed
    qed (simp add: known_def)
  qed
  ultimately show ?thesis by (simp add: cov_inv_def rows pos)
qed

lemma cov_inv_shrink:
  assumes "cov_inv base C st" "s \<le> m" "m < e" "\<forall>l. s \<le> l \<longrightarrow> l \<le> m \<longrightarrow> scanned (trace st) l"
  shows "cov_inv base C (st\<lparr>checkpoints := map (shrink_suspect C s e (m + 1)) (checkpoints st)\<rparr>)"
proof -
  let ?f = "shrink_suspect C s e (m + 1)"
  let ?st' = "st\<lparr>checkpoints := map ?f (checkpoints st)\<rparr>"
  have f: "ck_contract (?f c) = ck_contract c" "ck_status (?f c) = ck_status c" "ck_end (?f c) = ck_end c"
    "ck_start (?f c) = (if suspect_at C s e c then m + 1 else ck_start c)" for c
    by (simp_all add: shrink_suspect_def)
  have rows: "own_rows C ?st' = ?f ` own_rows C st" by (rule own_rows_map) (rule f)
  have pos: "last_position C ?st' = last_position C st" by (simp add: last_position_def)
  have ok: "rows_ok (own_rows C st) (last_position C st)" using assms(1) by (simp add: cov_inv_def)
  have start: "ck_start c \<le> ck_start (?f c) \<and> ck_start (?f c) \<le> ck_end c" if "c \<in> own_rows C st" for c
    using ok that assms(2,3) by (auto simp: f suspect_at_def rows_ok_def)
  have ap: "apart (?f c) (?f c')" if "c \<in> own_rows C st" "c' \<in> own_rows C st" "ck_status c = Suspect"
    "ck_status c' = Suspect" for c c'
  proof -
    have con: "ck_contract c = C" "ck_contract c' = C" using that by (auto simp: own_rows_def own_def)
    have "apart c c'" using ok that by (simp add: rows_ok_def)
    with start [OF that(1)] start [OF that(2)] con that(3,4) show ?thesis
      unfolding apart_def f suspect_at_def by auto
  qed
  have sd: "\<not> straddles (?f c) (ck_start (?f v))"
    if "c \<in> own_rows C st" "v \<in> own_rows C st" "ck_status c = Suspect" "ck_status v = Verified" for c v
  proof -
    have "\<not> straddles c (ck_start v)" using ok that by (simp add: rows_ok_def)
    moreover have "ck_start (?f v) = ck_start v" using that(4) by (simp add: f suspect_at_def)
    ultimately show ?thesis using start [OF that(1)] by (auto simp: straddles_def f)
  qed
  have "rows_ok (?f ` own_rows C st) (last_position C st)"
    unfolding rows_ok_def ball_simps(9)
  proof (intro conjI ballI impI)
    show "0 \<le> last_position C st" using ok by (simp add: rows_ok_def)
  next
    fix c assume "c \<in> own_rows C st"
    then show "1 \<le> ck_start (?f c)" "ck_start (?f c) \<le> ck_end (?f c)"
      using start [of c] ok by (fastforce simp: rows_ok_def f)+
  next
    fix c v assume "c \<in> own_rows C st" "v \<in> own_rows C st" "ck_status (?f c) = Suspect" "ck_status (?f v) = Verified"
    then show "\<not> straddles (?f c) (ck_start (?f v))" using sd by (simp add: f(2))
  next
    fix c c' assume "c \<in> own_rows C st" "c' \<in> own_rows C st" "ck_status (?f c) = Suspect" "ck_status (?f c') = Suspect"
    then show "apart (?f c) (?f c')" using ap by (simp add: f(2))
  next
    fix c assume "c \<in> own_rows C st" "ck_status (?f c) = Suspect"
    then show "ck_end (?f c) \<le> last_position C st" using ok by (simp add: f rows_ok_def)
  qed
  moreover have "known (?f ` own_rows C st) (trace st) l"
    if l: "base \<le> l" "recorded (?f ` own_rows C st) (last_position C st) l" for l
  proof -
    have "recorded (own_rows C st) (last_position C st) l" using l(2) by (auto simp: recorded_def f)
    then consider (sc) "scanned (trace st) l"
      | (su) c where "c \<in> own_rows C st" "ck_status c = Suspect" "covers c l"
      using assms(1) l(1) by (auto simp: cov_inv_def known_def)
    then show ?thesis
    proof cases
      case su
      show ?thesis
      proof (cases "suspect_at C s e c \<and> l \<le> m")
        case True
        then show ?thesis using su(3) assms(4) by (auto simp: known_def suspect_at_def covers_def)
      next
        case False
        then have "covers (?f c) l" using su(3) by (auto simp: covers_def f)
        moreover have "ck_status (?f c) = Suspect" using su(2) by (simp add: f)
        ultimately show ?thesis using su(1) unfolding known_def by blast
      qed
    qed (simp add: known_def)
  qed
  ultimately show ?thesis by (simp add: cov_inv_def rows pos)
qed

subsubsection \<open>Rolling back\<close>

definition rolled_position :: "string \<Rightarrow> int \<Rightarrow> (string \<Rightarrow> (int \<times> int) option) \<Rightarrow> string \<Rightarrow> (int \<times> int) option" where
  "rolled_position C ledger pos =
     (case pos C of None \<Rightarrow> pos
      | Some (a, b) \<Rightarrow> pos(C \<mapsto> (min a (max (ledger - 1) 0), min b (max (ledger - 1) 0))))"

definition rolled_back :: "('v, 's) indexer_deps \<Rightarrow> int \<Rightarrow> 's indexer \<Rightarrow> 's indexer \<Rightarrow> bool" where
  "rolled_back d ledger st st' \<longleftrightarrow>
     checkpoints st' = filter (\<lambda>c. \<not> (ck_contract c = contract_of d \<and> ledger \<le> ck_end c)) (checkpoints st)
     \<and> positions st' = rolled_position (contract_of d) ledger (positions st)
     \<and> trace st' = trace st @ [RolledBack ledger]
     \<and> ix_events (st_db (store st')) =
         filter (\<lambda>row. \<not> orphaned (contractIds (d_cfg d)) ledger row) (ix_events (st_db (store st)))
     \<and> ix_audit (st_db (store st')) = ix_audit (st_db (store st))
         @ reversal_rows (map ce_event_id (filter (orphaned (contractIds (d_cfg d)) ledger) (ix_events (st_db (store st)))))
             ledger (ix_audit (st_db (store st)))
     \<and> (in_band (ix_scores (st_db (store st))) \<longrightarrow> in_band (ix_scores (st_db (store st'))))"

definition untouched :: "'s indexer \<Rightarrow> 's indexer \<Rightarrow> bool" where
  "untouched st st' \<longleftrightarrow> checkpoints st' = checkpoints st \<and> positions st' = positions st \<and> trace st' = trace st
     \<and> st_db (store st') = st_db (store st)"

definition rolled_tables :: "('v, 's) indexer_deps \<Rightarrow> int \<Rightarrow> rollback_tables \<Rightarrow> rollback_tables \<Rightarrow> bool" where
  "rolled_tables d ledger t t' \<longleftrightarrow>
     fst (snd t') = filter (\<lambda>c. \<not> (ck_contract c = contract_of d \<and> ledger \<le> ck_end c)) (fst (snd t))
     \<and> snd (snd t') = rolled_position (contract_of d) ledger (snd (snd t))
     \<and> ix_events (fst t') = filter (\<lambda>row. \<not> orphaned (contractIds (d_cfg d)) ledger row) (ix_events (fst t))
     \<and> ix_audit (fst t') = ix_audit (fst t)
         @ reversal_rows (map ce_event_id (filter (orphaned (contractIds (d_cfg d)) ledger) (ix_events (fst t))))
             ledger (ix_audit (fst t))
     \<and> (in_band (ix_scores (fst t)) \<longrightarrow> in_band (ix_scores (fst t')))"

lemma rollback_body_Inr:
  assumes "rollback_body d env ledger a cache t = (Inr ((), t'), cache')"
  shows "rolled_tables d ledger t t'"
proof -
  obtain db cks pos where t: "t = (db, cks, pos)" by (cases t)
  let ?m = "fold (rollback_delta (pe_store env ReorgCheck))
    (filter (orphaned (contractIds (d_cfg d)) ledger) (ix_events db)) []"
  obtain sc c1 where up: "updateUserScoresBulk (d_redis d) ?m (ix_scores db, cache) = Inr (sc, c1)"
    using assms t by (auto simp: rollback_body_def Let_def split: sum.splits)
  have "in_band (ix_scores db) \<longrightarrow> in_band sc"
    using updateUserScoresBulk_table [OF up] by (simp add: fold_upsert_band)
  with assms t up show ?thesis
    by (auto simp: rollback_body_def rolled_tables_def rolled_position_def Let_def split: option.splits)
qed

lemma rollbackFromLedger_result:
  "case rollbackFromLedger d env ledger st of
     (Inr _, st') \<Rightarrow> rolled_back d ledger st st' | (Inl e, st') \<Rightarrow> untouched st st'"
proof -
  let ?t = "(st_db (store st), checkpoints st, positions st)"
  obtain res cache t' where run: "withTransaction (rollback_body d env ledger) (st_cache (store st)) ?t = (res, cache, t')"
    by (cases "withTransaction (rollback_body d env ledger) (st_cache (store st)) ?t") auto
  have "tx_post (\<lambda>_. True) (\<lambda>_ _. rolled_tables d ledger ?t) ?t
      (withTransaction (rollback_body d env ledger) (st_cache (store st)) ?t)"
    by (rule withTransaction_rule) (auto intro: rollback_body_Inr)
  with run have post: "case res of Inl e \<Rightarrow> t' = ?t | Inr x \<Rightarrow> rolled_tables d ledger ?t t'"
    by (cases res) (simp_all add: tx_post_def)
  obtain db cks pos where t': "t' = (db, cks, pos)" by (cases t')
  from post t' run show ?thesis
    by (cases res) (simp_all add: rollbackFromLedger_def rolled_back_def untouched_def rolled_tables_def)
qed

lemma last_position_rolled:
  "positions st' = rolled_position C ledger (positions st) \<Longrightarrow> 1 \<le> ledger \<Longrightarrow> 0 \<le> last_position C st \<Longrightarrow>
     last_position C st' = min (last_position C st) (ledger - 1)"
  by (auto simp: last_position_def rolled_position_def split: option.splits)

lemma cov_inv_rollback:
  assumes "cov_inv base (contract_of d) st" "v \<in> own_rows (contract_of d) st" "ck_status v = Verified"
    and "rolled_back d (ck_start v) st st'"
  shows "cov_inv base (contract_of d) st'"
proof -
  let ?C = "contract_of d" and ?L = "ck_start v"
  let ?rows = "own_rows ?C st" and ?pos = "last_position ?C st"
  have ok: "rows_ok ?rows ?pos" using assms(1) by (simp add: cov_inv_def)
  have L: "1 \<le> ?L" "?L \<le> ck_end v" using ok assms(2) by (auto simp: rows_ok_def)
  have rows: "own_rows ?C st' = {c \<in> ?rows. ck_end c < ?L}"
    using assms(4) by (auto simp: rolled_back_def own_rows_def own_def)
  have pos: "last_position ?C st' = min ?pos (?L - 1)"
    using assms(4) L ok by (intro last_position_rolled) (auto simp: rolled_back_def rows_ok_def)
  have tr: "trace st' = trace st @ [RolledBack ?L]" using assms(4) by (simp add: rolled_back_def)
  have "rows_ok (own_rows ?C st') (last_position ?C st')"
    using ok L unfolding rows pos rows_ok_def by auto
  moreover have "known (own_rows ?C st') (trace st') l"
    if l: "base \<le> l" "recorded (own_rows ?C st') (last_position ?C st') l" for l
  proof -
    have lt: "l < ?L" using l(2) by (auto simp: recorded_def rows pos)
    then have "recorded ?rows ?pos l" using assms(2) L by (auto simp: recorded_def intro!: bexI [of _ v])
    then consider (sc) "scanned (trace st) l"
      | (su) c where "c \<in> ?rows" "ck_status c = Suspect" "covers c l"
      using assms(1) l(1) by (auto simp: cov_inv_def known_def)
    then show ?thesis
    proof cases
      case sc
      with lt show ?thesis by (simp add: known_def tr)
    next
      case su
      have "\<not> straddles c ?L" using ok su(1,2) assms(2,3) by (simp add: rows_ok_def)
      with su(3) lt have "ck_end c < ?L" by (auto simp: straddles_def covers_def)
      with su show ?thesis unfolding known_def rows by blast
    qed
  qed
  ultimately show ?thesis by (simp add: cov_inv_def)
qed

subsection \<open>Triples for the operations\<close>

definition inv_at :: "int \<Rightarrow> string \<Rightarrow> int \<Rightarrow> 's indexer \<Rightarrow> bool" where
  "inv_at base C x st \<longleftrightarrow> cov_inv base C st \<and> last_position C st = x"

lemma triple_sql: "triple P m Q E \<Longrightarrow> (\<And>st. P st \<Longrightarrow> E st) \<Longrightarrow> triple P (sql env point m) Q E"
  by (auto simp: sql_def triple_def throw_def split: option.splits)

lemma triple_sql_read:
  "(\<And>st. P st \<Longrightarrow> Q (f st) st) \<Longrightarrow> (\<And>st. P st \<Longrightarrow> E st) \<Longrightarrow> triple P (sql env point (reading f)) Q E"
  by (rule triple_sql) (auto simp: triple_def reading_def)

lemma triple_sql_write:
  "(\<And>st. P st \<Longrightarrow> Q () (f st)) \<Longrightarrow> (\<And>st. P st \<Longrightarrow> E st) \<Longrightarrow> triple P (sql env point (writing f)) Q E"
  by (rule triple_sql) (auto simp: triple_def writing_def)

lemma triple_if: "(b \<Longrightarrow> triple P m Q E) \<Longrightarrow> (\<not> b \<Longrightarrow> triple P m' Q E) \<Longrightarrow> triple P (if b then m else m') Q E"
  by simp

lemma triple_ret_pre: "(\<And>st. P st \<Longrightarrow> Q x st) \<Longrightarrow> triple P (ret x) Q E"
  by (simp add: triple_def ret_def)

lemma cov_inv_init:
  assumes "cov_inv base C st" "positions st C = None"
  shows "inv_at base C 0 (st\<lparr>positions := (positions st)(C \<mapsto> (0, 0))\<rparr>)"
  using assms cov_inv_cong [of "st\<lparr>positions := (positions st)(C \<mapsto> (0, 0))\<rparr>" st C base]
  by (simp add: last_position_def inv_at_def)

lemma getLast_triple:
  "triple (cov_inv base (contract_of d)) (getLastIndexedLedger d env k)
     (\<lambda>x. inv_at base (contract_of d) x) (cov_inv base (contract_of d))"
  unfolding getLastIndexedLedger_def
  by (rule triple_bind [OF triple_sql_read [where Q = "\<lambda>row st. cov_inv base (contract_of d) st
        \<and> positions st (contract_of d) = row"]])
    (auto simp: triple_def ret_def bind_act_def sql_def throw_def writing_def inv_at_def last_position_def
      intro: cov_inv_init [unfolded inv_at_def, THEN conjunct1] split: option.splits)

lemma fetch_pages_in_range:
  "fetch_pages rpc limit s e fuel cursor result = Some (Inr evs) \<Longrightarrow>
     set result \<subseteq> {ev. in_range s e ev} \<Longrightarrow> set evs \<subseteq> {ev. in_range s e ev}"
proof (induction fuel arbitrary: cursor result)
  case (Suc fuel)
  then show ?case
    by (cases "rpc (case cursor of Some c \<Rightarrow> if c \<noteq> [] then AfterCursor c limit else InRange s e limit
          | None \<Rightarrow> InRange s e limit)")
      (force simp: Let_def split: if_splits prod.splits)+
qed simp

lemma map_sum_Inr: "map_sum f g x = Inr y \<longleftrightarrow> (\<exists>z. x = Inr z \<and> y = g z)"
  by (cases x) auto

lemma fetch_act_events:
  assumes "fetch_act d env call s e st = (Inr events, st')"
  shows "st' = st \<and> set events \<subseteq> {ev. in_range s e ev}"
proof -
  obtain evs where evs: "fetch_pages (pe_rpc env call) (batchSize (d_cfg d)) s e (pe_fuel env) None [] = Some (Inr evs)"
    "events = sort_key ev_ledger evs" "st' = st"
    using assms by (auto simp: fetch_act_def fetchEventsInRange_def throw_def ret_def map_sum_Inr
        split: option.splits sum.splits)
  with fetch_pages_in_range [OF evs(1)] show ?thesis by simp
qed

lemma fold_max_ledger:
  "set events \<subseteq> {ev. in_range s e ev} \<Longrightarrow> m \<le> e \<Longrightarrow> fold (\<lambda>ev m. max m (ev_ledger ev)) events m \<le> e"
  by (induction events arbitrary: m) (auto simp: in_range_def)

text \<open>A chunk that returns has scanned its range and leaves checkpoints and positions alone.\<close>

definition chunk_frame :: "'s indexer \<Rightarrow> 's indexer \<Rightarrow> bool" where
  "chunk_frame st st' \<longleftrightarrow> checkpoints st' = checkpoints st \<and> positions st' = positions st"

lemma processChunk_result:
  assumes "s \<le> e"
  shows "case processChunk d env call s e st of
     (Inr r, st') \<Rightarrow> chunk_frame st st' \<and> trace st' = trace st @ [Scanned s e] \<and> lastProcessedLedger r = e
   | (Inl err, st') \<Rightarrow> chunk_frame st st' \<and> trace st' = trace st"
proof (cases "fetch_act d env call s e st")
  case (Pair res st1)
  show ?thesis
  proof (cases res)
    case (Inl err)
    moreover have "st1 = st" using Pair Inl
      by (auto simp: fetch_act_def throw_def ret_def split: option.splits sum.splits)
    ultimately show ?thesis using Pair assms
      by (simp add: processChunk_def bind_act_def chunk_frame_def)
  next
    case (Inr events)
    note ev = fetch_act_events [OF Pair [unfolded Inr]]
    have "fold (\<lambda>ev m. max m (ev_ledger ev)) events s \<le> e" using ev assms by (intro fold_max_ledger) auto
    then show ?thesis using Pair Inr ev assms
      by (cases "storeEvents (d_sdk d) (d_redis d) (pe_store env call) events (store st)")
        (auto simp: processChunk_def bind_act_def writing_def ret_def store_act_def chunk_frame_def Let_def
          max_def split: sum.splits)
  qed
qed

text \<open>Chunks keep any predicate on the frame and the trace that scanning more keeps.\<close>

definition scan_stable :: "('s indexer \<Rightarrow> bool) \<Rightarrow> bool" where
  "scan_stable P \<longleftrightarrow>
     (\<forall>st st'. P st \<longrightarrow> chunk_frame st st' \<longrightarrow> (trace st' = trace st \<or> (\<exists>s e. trace st' = trace st @ [Scanned s e])) \<longrightarrow> P st')"

lemma chunk_triple:
  assumes "scan_stable P" "s \<le> e"
  shows "triple P (processChunk d env call s e)
     (\<lambda>r st. P st \<and> lastProcessedLedger r = e \<and> (\<forall>l. s \<le> l \<longrightarrow> l \<le> e \<longrightarrow> scanned (trace st) l)) P"
proof (rule tripleI)
  fix st r st' assume P: "P st" and run: "processChunk d env call s e st = (Inr r, st')"
  have res: "chunk_frame st st'" "trace st' = trace st @ [Scanned s e]" "lastProcessedLedger r = e"
    using processChunk_result [OF assms(2), where d = d and env = env and call = call and st = st] run by simp_all
  have "P st'" using assms(1) P res(1,2) unfolding scan_stable_def by blast
  then show "P st' \<and> lastProcessedLedger r = e \<and> (\<forall>l. s \<le> l \<longrightarrow> l \<le> e \<longrightarrow> scanned (trace st') l)"
    by (simp add: res)
next
  fix st err st' assume P: "P st" and run: "processChunk d env call s e st = (Inl err, st')"
  have "chunk_frame st st'" "trace st' = trace st"
    using processChunk_result [OF assms(2), where d = d and env = env and call = call and st = st] run by simp_all
  then show "P st'" using assms(1) P unfolding scan_stable_def by blast
qed

lemma scan_stable_inv: "scan_stable (cov_inv base C)"
  unfolding scan_stable_def
proof (intro allI impI)
  fix st st' assume inv: "cov_inv base C st" and fr: "chunk_frame st st'"
    and tr: "trace st' = trace st \<or> (\<exists>s e. trace st' = trace st @ [Scanned s e])"
  have lp: "last_position C st' = last_position C st" using fr by (simp add: chunk_frame_def last_position_def)
  from tr show "cov_inv base C st'"
  proof
    assume "trace st' = trace st"
    then show ?thesis using inv fr lp by (subst cov_inv_cong [of st' st]) (auto simp: chunk_frame_def)
  next
    assume "\<exists>s e. trace st' = trace st @ [Scanned s e]"
    then obtain s e where t: "trace st' = trace st @ [Scanned s e]" by blast
    have "cov_inv base C st' = cov_inv base C (st\<lparr>trace := trace st @ [Scanned s e]\<rparr>)"
      using fr lp t by (intro cov_inv_cong) (auto simp: chunk_frame_def last_position_def)
    then show ?thesis using cov_inv_scan [OF inv] by simp
  qed
qed

lemma scan_stable_conj: "scan_stable P \<Longrightarrow> scan_stable Q \<Longrightarrow> scan_stable (\<lambda>st. P st \<and> Q st)"
  unfolding scan_stable_def by blast

lemma scan_stable_frame:
  "(\<And>st st'. chunk_frame st st' \<Longrightarrow> P st \<Longrightarrow> P st') \<Longrightarrow> scan_stable P"
  unfolding scan_stable_def by blast

text \<open>
  What the loop needs of the ranges it still has to fill: no suspect row straddles their start
  and some row reaches their end.
\<close>

definition pending_ok :: "string \<Rightarrow> (int \<times> int) set \<Rightarrow> 's indexer \<Rightarrow> bool" where
  "pending_ok C rngs st \<longleftrightarrow>
     (\<forall>(s, e)\<in>rngs. 1 \<le> s \<and> (\<exists>c\<in>own_rows C st. e \<le> ck_end c)
        \<and> (\<forall>c\<in>own_rows C st. ck_status c = Suspect \<longrightarrow> \<not> straddles c s))"

definition fill_inv :: "int \<Rightarrow> string \<Rightarrow> int \<Rightarrow> (int \<times> int) set \<Rightarrow> 's indexer \<Rightarrow> bool" where
  "fill_inv base C x rngs st \<longleftrightarrow> cov_inv base C st \<and> last_position C st = x \<and> pending_ok C rngs st"

lemma scan_stable_fill: "scan_stable (fill_inv base C x rngs)"
  unfolding fill_inv_def
  by (intro scan_stable_conj scan_stable_inv scan_stable_frame)
    (auto simp: chunk_frame_def last_position_def pending_ok_def own_rows_def)

lemma last_position_frame [simp]:
  "last_position C (st\<lparr>checkpoints := cks\<rparr>) = last_position C st"
  by (simp add: last_position_def)

lemma pending_ok_image:
  assumes "pending_ok C rngs st" "own_rows C st' = f ` own_rows C st"
    and "\<And>c. c \<in> own_rows C st \<Longrightarrow> ck_end (f c) = ck_end c \<and> ck_start c \<le> ck_start (f c)
           \<and> (ck_status (f c) = Suspect \<longrightarrow> ck_status c = Suspect)"
  shows "pending_ok C rngs st'"
  unfolding pending_ok_def assms(2)
proof (intro ballI, clarify, intro conjI)
  fix s e assume "(s, e) \<in> rngs"
  with assms(1) have old: "1 \<le> s" "\<exists>c\<in>own_rows C st. e \<le> ck_end c"
    "\<forall>c\<in>own_rows C st. ck_status c = Suspect \<longrightarrow> \<not> straddles c s" by (auto simp: pending_ok_def)
  show "1 \<le> s" by (rule old(1))
  show "\<exists>c\<in>f ` own_rows C st. e \<le> ck_end c" using old(2) assms(3) by fastforce
  show "\<forall>c\<in>f ` own_rows C st. ck_status c = Suspect \<longrightarrow> \<not> straddles c s"
    using old(3) assms(3) by (fastforce simp: straddles_def)
qed

lemma pending_ok_verified:
  "ck_status row = Verified \<Longrightarrow> pending_ok C rngs st \<Longrightarrow>
     pending_ok C rngs (st\<lparr>checkpoints := checkpoints st @ [row]\<rparr>)"
  by (auto simp: pending_ok_def own_rows_add)

lemma fill_mark:
  assumes "fill_inv base C x rngs st" "(s, e) \<in> rngs" "\<forall>l. s \<le> l \<longrightarrow> l \<le> e \<longrightarrow> scanned (trace st) l"
  shows "fill_inv base C x rngs (st\<lparr>checkpoints := map (mark_verified C s e digest) (checkpoints st)\<rparr>)"
proof -
  have "\<forall>c\<in>own_rows C st. ck_status c = Suspect \<longrightarrow> \<not> straddles c s"
    using assms(1,2) by (auto simp: fill_inv_def pending_ok_def)
  moreover have "pending_ok C rngs (st\<lparr>checkpoints := map (mark_verified C s e digest) (checkpoints st)\<rparr>)"
    by (rule pending_ok_image [OF _ own_rows_map])
      (use assms(1) in \<open>auto simp: fill_inv_def mark_verified_def split: if_splits\<close>)
  ultimately show ?thesis using assms(1,3) by (simp add: fill_inv_def cov_inv_mark)
qed

lemma fill_shrink:
  assumes "fill_inv base C x rngs st" "s \<le> m" "m < e" "\<forall>l. s \<le> l \<longrightarrow> l \<le> m \<longrightarrow> scanned (trace st) l"
  shows "fill_inv base C x rngs (st\<lparr>checkpoints := map (shrink_suspect C s e (m + 1)) (checkpoints st)\<rparr>)"
proof -
  have "pending_ok C rngs (st\<lparr>checkpoints := map (shrink_suspect C s e (m + 1)) (checkpoints st)\<rparr>)"
    by (rule pending_ok_image [OF _ own_rows_map])
      (use assms(1,2) in \<open>auto simp: fill_inv_def shrink_suspect_def suspect_at_def split: if_splits\<close>)
  then show ?thesis using assms by (simp add: fill_inv_def cov_inv_shrink)
qed

lemma fill_verified:
  assumes "fill_inv base C x rngs st" "(s, e) \<in> rngs" "s \<le> m" "m < e"
    and "row = \<lparr>ck_contract = C, ck_start = s, ck_end = m, ck_status = Verified, ck_digest = dg\<rparr>"
  shows "fill_inv base C x rngs (st\<lparr>checkpoints := checkpoints st @ [row]\<rparr>)"
proof -
  have p: "1 \<le> s" "\<exists>c\<in>own_rows C st. e \<le> ck_end c"
    "\<forall>c\<in>own_rows C st. ck_status c = Suspect \<longrightarrow> \<not> straddles c s"
    using assms(1,2) by (auto simp: fill_inv_def pending_ok_def)
  have "recorded (own_rows C st) (last_position C st) l" if "l \<le> m" for l
    using p(2) that assms(4) by (force simp: recorded_def)
  then have "cov_inv base C (st\<lparr>checkpoints := checkpoints st @ [row]\<rparr>)"
    using assms p by (intro cov_inv_add_verified) (auto simp: fill_inv_def)
  then show ?thesis using assms(1,5) by (simp add: fill_inv_def pending_ok_verified)
qed

lemma triple_insert:
  "(\<And>st. P st \<Longrightarrow> ck_start row \<le> ck_end row \<Longrightarrow> Q () (st\<lparr>checkpoints := checkpoints st @ [row]\<rparr>)) \<Longrightarrow>
   (\<And>st. P st \<Longrightarrow> E st) \<Longrightarrow> triple P (insert_checkpoint env point row) Q E"
  unfolding insert_checkpoint_def
  by (rule triple_sql) (auto simp: triple_def throw_def writing_def)

lemma triple_weaken:
  "triple P m Q E \<Longrightarrow> (\<And>st. P' st \<Longrightarrow> P st) \<Longrightarrow> (\<And>x st. Q x st \<Longrightarrow> Q' x st) \<Longrightarrow> (\<And>st. E st \<Longrightarrow> E' st) \<Longrightarrow>
     triple P' m Q' E'"
  by (rule tripleI) (blast dest: tripleD)+

lemma backfill_range_triple:
  assumes "(rs, re) \<in> rngs"
  shows "triple (fill_inv base (contract_of d) x rngs) (backfill_range d env k tip (rs, re))
     (\<lambda>_. fill_inv base (contract_of d) x rngs) (fill_inv base (contract_of d) x rngs)"
proof -
  let ?P = "fill_inv base (contract_of d) x rngs" and ?m = "min re tip"
  have body: "triple (\<lambda>st. ?P st \<and> lastProcessedLedger r = ?m \<and> (\<forall>l. rs \<le> l \<longrightarrow> l \<le> ?m \<longrightarrow> scanned (trace st) l))
      (if ?m = re
       then sql env (MarkVerified k) (writing (\<lambda>st.
              st\<lparr>checkpoints := map (mark_verified (contract_of d) rs re (rangeDigest r)) (checkpoints st)\<rparr>))
       else bind_act (sql env (ShrinkSuspect k) (writing (\<lambda>st.
              st\<lparr>checkpoints := map (shrink_suspect (contract_of d) rs re (?m + 1)) (checkpoints st)\<rparr>))) (\<lambda>_.
            insert_checkpoint env (InsertBackfilled k)
              \<lparr>ck_contract = contract_of d, ck_start = rs, ck_end = ?m, ck_status = Verified,
               ck_digest = Some (rangeDigest r)\<rparr>))
      (\<lambda>_. ?P) ?P" if "rs \<le> ?m" for r
  proof (rule triple_if)
    assume "?m = re"
    then show "triple (\<lambda>st. ?P st \<and> lastProcessedLedger r = ?m \<and> (\<forall>l. rs \<le> l \<longrightarrow> l \<le> ?m \<longrightarrow> scanned (trace st) l))
        (sql env (MarkVerified k) (writing (\<lambda>st.
              st\<lparr>checkpoints := map (mark_verified (contract_of d) rs re (rangeDigest r)) (checkpoints st)\<rparr>))) (\<lambda>_. ?P) ?P"
      using assms by (intro triple_sql_write) (simp_all add: fill_mark)
  next
    assume "?m \<noteq> re"
    then have m: "?m < re" by simp
    show "triple (\<lambda>st. ?P st \<and> lastProcessedLedger r = ?m \<and> (\<forall>l. rs \<le> l \<longrightarrow> l \<le> ?m \<longrightarrow> scanned (trace st) l))
        (bind_act (sql env (ShrinkSuspect k) (writing (\<lambda>st.
              st\<lparr>checkpoints := map (shrink_suspect (contract_of d) rs re (?m + 1)) (checkpoints st)\<rparr>))) (\<lambda>_.
            insert_checkpoint env (InsertBackfilled k)
              \<lparr>ck_contract = contract_of d, ck_start = rs, ck_end = ?m, ck_status = Verified,
               ck_digest = Some (rangeDigest r)\<rparr>)) (\<lambda>_. ?P) ?P"
    proof (rule triple_bind [where R = "\<lambda>_. ?P"])
      show "triple (\<lambda>st. ?P st \<and> lastProcessedLedger r = ?m \<and> (\<forall>l. rs \<le> l \<longrightarrow> l \<le> ?m \<longrightarrow> scanned (trace st) l))
          (sql env (ShrinkSuspect k) (writing (\<lambda>st.
              st\<lparr>checkpoints := map (shrink_suspect (contract_of d) rs re (?m + 1)) (checkpoints st)\<rparr>))) (\<lambda>_. ?P) ?P"
        using that m by (intro triple_sql_write) (auto intro!: fill_shrink)
      show "triple ?P (insert_checkpoint env (InsertBackfilled k)
          \<lparr>ck_contract = contract_of d, ck_start = rs, ck_end = ?m, ck_status = Verified,
           ck_digest = Some (rangeDigest r)\<rparr>) (\<lambda>_. ?P) ?P" for y
        by (rule triple_insert) (use that m assms in \<open>auto intro!: fill_verified\<close>)
    qed
  qed
  show ?thesis
    unfolding backfill_range_def Let_def prod.case
  proof (rule triple_if)
    show "triple ?P (ret 0) (\<lambda>_. ?P) ?P" by (rule triple_ret)
  next
    assume "\<not> ?m < rs"
    then have le: "rs \<le> ?m" by (simp only: not_less)
    show "triple ?P (bind_act (processChunk d env (BackfillFetch k) rs ?m) (\<lambda>result.
            bind_act
              (if ?m = re
               then sql env (MarkVerified k) (writing (\<lambda>st.
                      st\<lparr>checkpoints := map (mark_verified (contract_of d) rs re (rangeDigest result)) (checkpoints st)\<rparr>))
               else
                 bind_act (sql env (ShrinkSuspect k) (writing (\<lambda>st.
                   st\<lparr>checkpoints := map (shrink_suspect (contract_of d) rs re (?m + 1)) (checkpoints st)\<rparr>))) (\<lambda>_.
                 insert_checkpoint env (InsertBackfilled k)
                   \<lparr>ck_contract = contract_of d, ck_start = rs, ck_end = ?m,
                    ck_status = Verified, ck_digest = Some (rangeDigest result)\<rparr>))
              (\<lambda>_. ret (?m - rs + 1)))) (\<lambda>_. ?P) ?P"
      by (rule triple_bind [OF chunk_triple [OF scan_stable_fill le]])
        (rule triple_bind [OF body [OF le]], rule triple_ret)
  qed
qed

lemma backfill_loop_triple:
  "set ranges \<subseteq> rngs \<Longrightarrow>
   triple (fill_inv base (contract_of d) x rngs) (backfill_loop d env k tip ranges n)
     (\<lambda>_. fill_inv base (contract_of d) x rngs) (fill_inv base (contract_of d) x rngs)"
proof (induction ranges arbitrary: k n)
  case Nil
  show ?case unfolding backfill_loop.simps by (rule triple_ret)
next
  case (Cons rng ranges)
  obtain rs re where rng: "rng = (rs, re)" by (cases rng)
  have "triple (fill_inv base (contract_of d) x rngs) (backfill_range d env k tip rng)
      (\<lambda>_. fill_inv base (contract_of d) x rngs) (fill_inv base (contract_of d) x rngs)"
    unfolding rng by (rule backfill_range_triple) (use Cons.prems rng in auto)
  then show ?case unfolding backfill_loop.simps
    by (rule triple_bind) (use Cons in auto)
qed

lemma suspects_pending:
  assumes "inv_at base C x st"
  shows "fill_inv base C x (set (map (\<lambda>c. (ck_start c, ck_end c)) (suspect_rows C (checkpoints st)))) st"
proof -
  have ok: "rows_ok (own_rows C st) x" using assms by (auto simp: inv_at_def cov_inv_def)
  have "\<not> straddles c (ck_start c')"
    if "c \<in> own_rows C st" "ck_status c = Suspect" "c' \<in> own_rows C st" "ck_status c' = Suspect" for c c'
  proof -
    have "apart c c'" "ck_start c' \<le> ck_end c'" using ok that by (auto simp: rows_ok_def)
    then show ?thesis by (auto simp: apart_def straddles_def)
  qed
  then have "pending_ok C (set (map (\<lambda>c. (ck_start c, ck_end c)) (suspect_rows C (checkpoints st)))) st"
    using ok by (auto simp: pending_ok_def suspect_rows_def own_rows_def rows_ok_def)
  then show ?thesis using assms by (simp add: fill_inv_def inv_at_def)
qed

lemma backfill_triple:
  "triple (inv_at base (contract_of d) x) (backfillMissingRanges d env tip)
     (\<lambda>_. inv_at base (contract_of d) x) (inv_at base (contract_of d) x)"
proof -
  have loop: "triple (fill_inv base (contract_of d) x (set ranges)) (backfill_loop d env 0 n ranges 0)
      (\<lambda>_. inv_at base (contract_of d) x) (inv_at base (contract_of d) x)" for n ranges
    by (rule triple_weaken [OF backfill_loop_triple]) (auto simp: fill_inv_def inv_at_def)
  have "triple (inv_at base (contract_of d) x) (bind_act (getSuspectRanges d env) (\<lambda>ranges. backfill_loop d env 0 n ranges 0))
      (\<lambda>_. inv_at base (contract_of d) x) (inv_at base (contract_of d) x)" for n
    unfolding getSuspectRanges_def
    by (rule triple_bind [OF triple_sql_read [where Q = "\<lambda>ranges. fill_inv base (contract_of d) x (set ranges)"] loop])
      (use suspects_pending in \<open>simp_all\<close>)
  then show ?thesis
    unfolding backfillMissingRanges_def Let_def by (intro triple_if triple_ret)
qed

lemma latest_row_None: "latest_row rows = None \<longleftrightarrow> rows = []"
  by (cases rows) (auto split: option.splits if_splits)

lemma latest_row_Some: "latest_row rows = Some c \<Longrightarrow> c \<in> set rows \<and> (\<forall>r\<in>set rows. ck_end r \<le> ck_end c)"
proof (induction rows arbitrary: c)
  case (Cons a rows)
  show ?case
  proof (cases "latest_row rows")
    case None
    then have "rows = []" by (simp add: latest_row_None)
    with Cons.prems show ?thesis by simp
  next
    case (Some c')
    with Cons.IH [OF Some] Cons.prems show ?thesis by (auto split: if_splits)
  qed
qed simp

lemma own_rows_digest:
  "own_rows C (st\<lparr>checkpoints := map (set_digest C' s e dg) (checkpoints st)\<rparr>) = set_digest C' s e dg ` own_rows C st"
  by (rule own_rows_map) (simp add: set_digest_def)

lemma set_digest_sel:
  "ck_start (set_digest C s e dg c) = ck_start c" "ck_end (set_digest C s e dg c) = ck_end c"
  "ck_status (set_digest C s e dg c) = ck_status c"
  by (simp_all add: set_digest_def)

lemma cov_inv_digest:
  "cov_inv base C st \<Longrightarrow> cov_inv base C (st\<lparr>checkpoints := map (set_digest C' s e dg) (checkpoints st)\<rparr>)"
  by (simp add: cov_inv_def rows_ok_def known_def recorded_def own_rows_digest set_digest_sel straddles_def
      apart_def covers_def)

lemma cov_inv_untouched:
  "cov_inv base C st \<Longrightarrow> untouched st st' \<Longrightarrow> cov_inv base C st'"
  using cov_inv_cong [of st' st C base] by (simp add: untouched_def last_position_def)

lemma rollback_triple:
  "triple (\<lambda>st. cov_inv base (contract_of d) st \<and> v \<in> own_rows (contract_of d) st \<and> ck_status v = Verified)
     (rollbackFromLedger d env (ck_start v)) (\<lambda>_. cov_inv base (contract_of d)) (cov_inv base (contract_of d))"
proof (rule tripleI)
  fix st x st' assume "cov_inv base (contract_of d) st \<and> v \<in> own_rows (contract_of d) st \<and> ck_status v = Verified"
    "rollbackFromLedger d env (ck_start v) st = (Inr x, st')"
  then show "cov_inv base (contract_of d) st'"
    using rollbackFromLedger_result [where d = d and env = env and ledger = "ck_start v" and st = st] by (auto intro: cov_inv_rollback)
next
  fix st e st' assume "cov_inv base (contract_of d) st \<and> v \<in> own_rows (contract_of d) st \<and> ck_status v = Verified"
    "rollbackFromLedger d env (ck_start v) st = (Inl e, st')"
  then show "cov_inv base (contract_of d) st'"
    using rollbackFromLedger_result [where d = d and env = env and ledger = "ck_start v" and st = st] by (auto intro: cov_inv_untouched)
qed

lemma fetch_triple: "triple P (fetch_act d env call s e) (\<lambda>_. P) P"
  by (auto simp: triple_def fetch_act_def throw_def ret_def split: option.splits sum.splits)

lemma detect_triple:
  "triple (cov_inv base (contract_of d)) (detectAndRollbackReorg d env)
     (\<lambda>_. cov_inv base (contract_of d)) (cov_inv base (contract_of d))"
proof -
  let ?I = "cov_inv base (contract_of d)"
  let ?J = "\<lambda>c st. ?I st \<and> c \<in> own_rows (contract_of d) st \<and> ck_status c = Verified"
  have after: "triple (?J c) (let currentDigest = digest_of d events in
             case ck_digest c of
               None \<Rightarrow>
                 bind_act (sql env FillDigest (writing (\<lambda>st.
                   st\<lparr>checkpoints := map (set_digest (contract_of d) (ck_start c) (ck_end c) currentDigest)
                                       (checkpoints st)\<rparr>))) (\<lambda>_. ret False)
             | Some digest \<Rightarrow>
                 if currentDigest = digest then ret False
                 else bind_act (rollbackFromLedger d env (ck_start c)) (\<lambda>_. ret True)) (\<lambda>_. ?I) ?I" for c events
  proof (cases "ck_digest c")
    case None
    have "triple (?J c) (sql env FillDigest (writing (\<lambda>st.
        st\<lparr>checkpoints := map (set_digest (contract_of d) (ck_start c) (ck_end c) (digest_of d events)) (checkpoints st)\<rparr>)))
        (\<lambda>_. ?I) ?I"
      by (rule triple_sql_write) (simp_all add: cov_inv_digest)
    then show ?thesis unfolding None Let_def option.case by (rule triple_bind) (rule triple_ret)
  next
    case (Some dg)
    have "triple (?J c) (bind_act (rollbackFromLedger d env (ck_start c)) (\<lambda>_. ret True)) (\<lambda>_. ?I) ?I"
      by (rule triple_bind [OF rollback_triple]) (rule triple_ret)
    then show ?thesis unfolding Some Let_def option.case by (auto intro: triple_if triple_ret_pre)
  qed
  have "triple ?I (getLatestVerifiedCheckpoint d env)
      (\<lambda>ck st. case ck of None \<Rightarrow> ?I st | Some c \<Rightarrow> ?J c st) ?I"
    unfolding getLatestVerifiedCheckpoint_def
    by (rule triple_sql_read) (auto split: option.splits dest: latest_row_Some simp: own_rows_def)
  then show ?thesis
    unfolding detectAndRollbackReorg_def
  proof (rule triple_bind)
    fix ck :: "checkpoint option"
    show "triple (\<lambda>st. case ck of None \<Rightarrow> ?I st | Some c \<Rightarrow> ?J c st)
        (case ck of None \<Rightarrow> ret False
         | Some c \<Rightarrow> bind_act (fetch_act d env ReorgCheck (ck_start c) (ck_end c)) (\<lambda>events.
             let currentDigest = digest_of d events in
             case ck_digest c of
               None \<Rightarrow>
                 bind_act (sql env FillDigest (writing (\<lambda>st.
                   st\<lparr>checkpoints := map (set_digest (contract_of d) (ck_start c) (ck_end c) currentDigest)
                                       (checkpoints st)\<rparr>))) (\<lambda>_. ret False)
             | Some digest \<Rightarrow>
                 if currentDigest = digest then ret False
                 else bind_act (rollbackFromLedger d env (ck_start c)) (\<lambda>_. ret True)))
        (\<lambda>_. ?I) ?I"
    proof (cases ck)
      case None
      then show ?thesis by (simp add: triple_ret_pre)
    next
      case (Some c)
      have "triple (?J c) (fetch_act d env ReorgCheck (ck_start c) (ck_end c)) (\<lambda>_. ?J c) ?I"
        by (rule triple_weaken [OF fetch_triple [of "?J c"]]) auto
      then show ?thesis unfolding Some option.case by (rule triple_bind) (rule after)
    qed
  qed
qed

text \<open>Recording the chunk that was just scanned, right after the position.\<close>

definition chunk_done :: "int \<Rightarrow> string \<Rightarrow> int \<Rightarrow> int \<Rightarrow> 's indexer \<Rightarrow> bool" where
  "chunk_done base C x e st \<longleftrightarrow> cov_inv base C st \<and> last_position C st = x \<and> x < e
     \<and> (\<forall>l. x + 1 \<le> l \<longrightarrow> l \<le> e \<longrightarrow> scanned (trace st) l)"

definition reaches :: "string \<Rightarrow> int \<Rightarrow> 's indexer \<Rightarrow> bool" where
  "reaches C x st \<longleftrightarrow> own_rows C st = {} \<or> (\<exists>c\<in>own_rows C st. x \<le> ck_end c)"

lemma add_chunk_row:
  assumes "chunk_done base C x e st" "reaches C x st"
    and "row = \<lparr>ck_contract = C, ck_start = x + 1, ck_end = e, ck_status = Verified, ck_digest = dg\<rparr>"
  shows "cov_inv base C (st\<lparr>checkpoints := checkpoints st @ [row]\<rparr>)"
proof -
  have ok: "rows_ok (own_rows C st) x" using assms(1) by (auto simp: chunk_done_def cov_inv_def)
  have rec: "recorded (own_rows C st) (last_position C st) l \<or> scanned (trace st) l" if "l \<le> e" for l
  proof (cases "l \<le> x")
    case True
    then show ?thesis using assms(1,2) by (force simp: reaches_def recorded_def chunk_done_def)
  next
    case False
    then show ?thesis using assms(1) that by (simp add: chunk_done_def)
  qed
  show ?thesis
    using assms ok rec
    by (intro cov_inv_add_verified) (auto simp: chunk_done_def rows_ok_def straddles_def)
qed

lemma recordCheckpoint_triple:
  fixes d :: "('v, 's) indexer_deps"
  shows "triple (chunk_done base (contract_of d) x e) (recordCheckpoint d env (x + 1) e dg)
     (\<lambda>_ st. cov_inv base (contract_of d) st \<and> own_rows (contract_of d) st \<noteq> {})
     (cov_inv base (contract_of d))"
proof -
  let ?C = "contract_of d"
  let ?D = "chunk_done base ?C x e :: 's indexer \<Rightarrow> bool"
  let ?prev = "\<lambda>p st. ?D st \<and> map_option ck_end (latest_row (own ?C (checkpoints st))) = p"
  have weak: "cov_inv base ?C st" if "?D st" for st :: "'s indexer" using that by (simp add: chunk_done_def)
  have gap: "triple (?prev p)
      (case p of None \<Rightarrow> ret ()
       | Some q \<Rightarrow>
           if q + 1 < x + 1
           then insert_checkpoint env InsertGap
                  \<lparr>ck_contract = ?C, ck_start = q + 1, ck_end = x + 1 - 1, ck_status = Suspect, ck_digest = None\<rparr>
           else ret ())
      (\<lambda>_ st. ?D st \<and> reaches ?C x st) (cov_inv base ?C)" for p
  proof (cases p)
    case None
    then show ?thesis
      by (auto intro!: triple_ret_pre simp: latest_row_None reaches_def own_rows_def)
  next
    case (Some q)
    have top: "\<exists>c\<in>own_rows ?C st. ck_end c = q \<and> (\<forall>r\<in>own_rows ?C st. ck_end r \<le> ck_end c)"
      if "?prev p st" for st :: "'s indexer"
      using that Some by (auto simp: own_rows_def dest!: latest_row_Some)
    show ?thesis
    proof (cases "q < x")
      case True
      let ?row = "\<lparr>ck_contract = ?C, ck_start = q + 1, ck_end = x, ck_status = Suspect, ck_digest = None\<rparr>"
      have "triple (?prev p) (insert_checkpoint env InsertGap ?row) (\<lambda>_ st. ?D st \<and> reaches ?C x st) (cov_inv base ?C)"
      proof (rule triple_insert)
        fix st :: "'s indexer" assume st: "?prev p st"
        then obtain c where c: "c \<in> own_rows ?C st" "ck_end c = q" "\<forall>r\<in>own_rows ?C st. ck_end r \<le> ck_end c"
          using top by blast
        have "cov_inv base ?C (st\<lparr>checkpoints := checkpoints st @ [?row]\<rparr>)"
          by (rule cov_inv_add_gap [OF _ c(1,3)]) (use st c(2) True in \<open>auto simp: chunk_done_def\<close>)
        then show "?D (st\<lparr>checkpoints := checkpoints st @ [?row]\<rparr>) \<and>
            reaches ?C x (st\<lparr>checkpoints := checkpoints st @ [?row]\<rparr>)"
          using st by (auto simp: chunk_done_def reaches_def own_rows_add)
      qed (simp add: weak)
      then show ?thesis using Some True by simp
    next
      case False
      have "reaches ?C x st" if "?prev p st" for st :: "'s indexer"
        using top [OF that] False unfolding reaches_def by force
      then show ?thesis using Some False by (auto intro!: triple_ret_pre)
    qed
  qed
  have last: "triple (\<lambda>st. ?D st \<and> reaches ?C x st)
      (insert_checkpoint env InsertCheckpoint
         \<lparr>ck_contract = ?C, ck_start = x + 1, ck_end = e, ck_status = Verified, ck_digest = Some dg\<rparr>)
      (\<lambda>_ st. cov_inv base ?C st \<and> own_rows ?C st \<noteq> {}) (cov_inv base ?C)"
    by (rule triple_insert) (auto intro!: add_chunk_row simp: own_rows_add weak)
  show ?thesis
    unfolding recordCheckpoint_def
    by (rule triple_bind [OF triple_sql_read [where Q = ?prev] triple_bind [OF gap last]]) (auto simp: weak)
qed

lemma cov_inv_advance:
  assumes "cov_inv base C st" "own_rows C st \<noteq> {}" "checkpoints st' = checkpoints st" "trace st' = trace st"
    and "last_position C st \<le> last_position C st'"
  shows "cov_inv base C st'"
proof -
  have rows: "own_rows C st' = own_rows C st" using assms(3) by (simp add: own_rows_def)
  have "rows_ok (own_rows C st) (last_position C st')"
    using assms(1,5) unfolding cov_inv_def rows_ok_def by fastforce
  then show ?thesis using assms(1,2,4) rows by (simp add: cov_inv_def recorded_def)
qed

lemma update_frame:
  assumes "updateLastIndexedLedger d env n st = (res, st')" "0 \<le> n"
  shows "checkpoints st' = checkpoints st \<and> trace st' = trace st
    \<and> last_position (contract_of d) st \<le> last_position (contract_of d) st'"
  using assms
  by (auto simp: updateLastIndexedLedger_def bind_act_def sql_def throw_def ret_def writing_def last_position_def
      split: option.splits if_splits)

lemma update_triple:
  "triple (\<lambda>st. cov_inv base (contract_of d) st \<and> own_rows (contract_of d) st \<noteq> {} \<and> 0 \<le> n)
     (updateLastIndexedLedger d env n)
     (\<lambda>_. cov_inv base (contract_of d)) (cov_inv base (contract_of d))"
  by (rule tripleI) (meson update_frame cov_inv_advance)+

lemma lag_triple: "triple (cov_inv base C) (recordLag cfg a b) (\<lambda>_. cov_inv base C) E"
proof -
  have "cov_inv base C (st\<lparr>lagAlertActive := x\<rparr>) = cov_inv base C st" for st :: "'a indexer" and x
    by (rule cov_inv_cong) (simp_all add: last_position_def)
  then show ?thesis by (simp add: triple_def recordLag_def writing_def Let_def)
qed

lemma poll_chunk_triple:
  assumes "x < e"
  shows "triple (inv_at base (contract_of d) x)
     (bind_act (processChunk d env ChunkFetch (x + 1) e) (\<lambda>result.
        bind_act (recordCheckpoint d env (x + 1) (lastProcessedLedger result) (rangeDigest result)) (\<lambda>_.
        bind_act (updateLastIndexedLedger d env (lastProcessedLedger result)) (\<lambda>_.
          recordLag (d_cfg d) (lastProcessedLedger result) latest))))
     (\<lambda>_. cov_inv base (contract_of d)) (cov_inv base (contract_of d))"
proof -
  let ?C = "contract_of d"
  have st: "scan_stable (inv_at base ?C x)"
    unfolding inv_at_def by (intro scan_stable_conj scan_stable_inv scan_stable_frame)
      (auto simp: chunk_frame_def last_position_def)
  have chunk: "triple (inv_at base ?C x) (processChunk d env ChunkFetch (x + 1) e)
      (\<lambda>r st. chunk_done base ?C x (lastProcessedLedger r) st \<and> lastProcessedLedger r = e) (cov_inv base ?C)"
    by (rule triple_weaken [OF chunk_triple [OF st]])
      (use assms in \<open>auto simp: inv_at_def chunk_done_def\<close>)
  have rec: "triple (\<lambda>st. chunk_done base ?C x n st \<and> n = e) (recordCheckpoint d env (x + 1) n dg)
      (\<lambda>_ st. cov_inv base ?C st \<and> own_rows ?C st \<noteq> {} \<and> 0 \<le> n) (cov_inv base ?C)" for n dg
  proof (rule tripleI)
    fix st y st' assume a: "chunk_done base ?C x n st \<and> n = e" "recordCheckpoint d env (x + 1) n dg st = (Inr y, st')"
    then have "0 \<le> n" by (auto simp: chunk_done_def cov_inv_def rows_ok_def)
    with a show "cov_inv base ?C st' \<and> own_rows ?C st' \<noteq> {} \<and> 0 \<le> n"
      using tripleD(1) [OF recordCheckpoint_triple] by blast
  next
    fix st err st' assume "chunk_done base ?C x n st \<and> n = e" "recordCheckpoint d env (x + 1) n dg st = (Inl err, st')"
    then show "cov_inv base ?C st'" using tripleD(2) [OF recordCheckpoint_triple] by blast
  qed
  show ?thesis
    by (rule triple_bind [OF chunk triple_bind [OF rec triple_bind [OF update_triple lag_triple]]])
qed

lemma index_next_triple:
  assumes "0 < batchSize (d_cfg d)"
  shows "triple (inv_at base (contract_of d) x) (index_next d env latest fin x)
     (\<lambda>_. cov_inv base (contract_of d)) (cov_inv base (contract_of d))"
proof (cases "fin \<le> x")
  case True
  then show ?thesis unfolding index_next_def
    by (auto intro!: triple_pre [OF lag_triple] simp: inv_at_def)
next
  case False
  with assms have "x < min (x + 1 + batchSize (d_cfg d) - 1) fin" by simp
  from poll_chunk_triple [OF this] False show ?thesis
    unfolding index_next_def Let_def by simp
qed

lemma poll_to_triple:
  assumes "0 < batchSize (d_cfg d)"
  shows "triple (cov_inv base (contract_of d)) (poll_to d env latest fin)
     (\<lambda>_. cov_inv base (contract_of d)) (cov_inv base (contract_of d))"
proof -
  have fill: "triple (inv_at base (contract_of d) x) (backfillMissingRanges d env t)
      (\<lambda>_. inv_at base (contract_of d) x) (cov_inv base (contract_of d))" for x t
    by (rule triple_weaken [OF backfill_triple]) (auto simp: inv_at_def)
  show ?thesis
    unfolding poll_to_def
    by (rule triple_bind [OF detect_triple triple_bind [OF getLast_triple triple_bind [OF fill index_next_triple [OF assms]]]])
qed

lemma pollOnce_triple:
  assumes "0 < batchSize (d_cfg d)"
  shows "triple (cov_inv base (contract_of d)) (pollOnce d env)
     (\<lambda>_. cov_inv base (contract_of d)) (cov_inv base (contract_of d))"
proof -
  let ?I = "cov_inv base (contract_of d)"
  have pos: "triple ?I (getLastIndexedLedger d env k) (\<lambda>_. ?I) ?I" for k
    by (rule triple_post [OF getLast_triple]) (simp add: inv_at_def)
  have rd: "triple ?I (reading running) (\<lambda>_. ?I) ?I" by (simp add: triple_def reading_def)
  have body: "triple ?I (if latest = 0 then ret () else poll_to d env latest fin) (\<lambda>_. ?I) ?I" for latest fin
    by (intro triple_if triple_ret poll_to_triple [OF assms])
  have on: "triple ?I (if \<not> on then ret () else bind_act (getLastIndexedLedger d env 0)
      (\<lambda>_. if latest = 0 then ret () else poll_to d env latest fin)) (\<lambda>_. ?I) ?I" for on latest fin
    by (intro triple_if triple_ret triple_bind [OF pos body])
  show ?thesis
    unfolding pollOnce_def Let_def by (rule triple_bind [OF rd on])
qed

subsection \<open>Histories\<close>

lemma reindex_loop_triple:
  "0 < batchSize (d_cfg d) \<Longrightarrow>
   triple (cov_inv base (contract_of d)) (reindex_loop d env fuel current toLedger acc)
     (\<lambda>_. cov_inv base (contract_of d)) (cov_inv base (contract_of d))"
proof (induction fuel arbitrary: current acc)
  case 0
  show ?case unfolding reindex_loop.simps by (rule triple_throw)
next
  case (Suc fuel)
  obtain a b c where acc: "acc = (a, b, c)" by (cases acc)
  let ?I = "cov_inv base (contract_of d)" and ?e = "min (current + batchSize (d_cfg d) - 1) toLedger"
  have "triple ?I (processChunk d env ChunkFetch current ?e) (\<lambda>_. ?I) ?I" if "\<not> toLedger < current"
    by (rule triple_post [OF chunk_triple [OF scan_stable_inv]]) (use that Suc.prems in auto)
  then show ?case
    unfolding acc reindex_loop.simps Let_def
    by (intro triple_if triple_ret triple_bind [where R = "\<lambda>_. ?I"]) (use Suc in auto)
qed

text \<open>
  Histories of one indexer: polls, backfills and reindexing, each with its own environment and its own failures, and the position
  being set from outside, forward or back, to any ledger not below the end of a suspect range. \<open>base\<close> is the first ledger
  the history is answerable for: the one after the position the indexer started from and, when the position is set while no range
  is recorded, the one after that position, since \<open>recordCheckpoint\<close> has then no earlier range to measure a gap from.
\<close>

inductive indexer_reach :: "('v, 's) indexer_deps \<Rightarrow> int \<Rightarrow> 's indexer \<Rightarrow> bool" for d where
  fresh: "own (contract_of d) (checkpoints st) = [] \<Longrightarrow> 0 \<le> last_position (contract_of d) st \<Longrightarrow>
     base = last_position (contract_of d) st + 1 \<Longrightarrow> indexer_reach d base st"
| poll: "indexer_reach d base st \<Longrightarrow> pollOnce d env st = (res, st') \<Longrightarrow> indexer_reach d base st'"
| fill: "indexer_reach d base st \<Longrightarrow> backfillMissingRanges d env tip st = (n, st') \<Longrightarrow> indexer_reach d base st'"
| reindex: "indexer_reach d base st \<Longrightarrow> reindexRange d env fuel a b st = (r, st') \<Longrightarrow> indexer_reach d base st'"
| moved: "indexer_reach d base st \<Longrightarrow> 0 \<le> b' \<Longrightarrow>
     \<forall>c\<in>set (own (contract_of d) (checkpoints st)). ck_status c = Suspect \<longrightarrow> ck_end c \<le> b' \<Longrightarrow>
     base' = (if own (contract_of d) (checkpoints st) = [] then max base (b' + 1) else base) \<Longrightarrow>
     indexer_reach d base' (st\<lparr>positions := (positions st)(contract_of d \<mapsto> (a', b'))\<rparr>)"
| switch: "indexer_reach d base st \<Longrightarrow> indexer_reach d base (st\<lparr>running := on\<rparr>)"

lemma cov_inv_moved:
  assumes "cov_inv base C st" "0 \<le> b'" "\<forall>c\<in>own_rows C st. ck_status c = Suspect \<longrightarrow> ck_end c \<le> b'"
    and "base' = (if own_rows C st = {} then max base (b' + 1) else base)"
  shows "cov_inv base' C (st\<lparr>positions := (positions st)(C \<mapsto> (a', b'))\<rparr>)"
  using assms by (auto simp: cov_inv_def rows_ok_def recorded_def own_rows_def last_position_def split: if_splits)

lemma tripleD_any: "triple P m (\<lambda>_. Q) Q \<Longrightarrow> P st \<Longrightarrow> m st = (r, st') \<Longrightarrow> Q st'"
  by (cases r) (auto dest: tripleD)

lemma indexer_reach_inv:
  assumes "indexer_reach d base st" "0 < batchSize (d_cfg d)"
  shows "cov_inv base (contract_of d) st"
  using assms(1)
proof (induction rule: indexer_reach.induct)
  case (fresh st base)
  then show ?case by (simp add: cov_inv_def own_rows_def rows_ok_def recorded_def)
next
  case (poll base st env res st')
  show ?case by (rule tripleD_any [OF pollOnce_triple [OF assms(2)] poll.IH poll.hyps(2)])
next
  case (fill base st env tip n st')
  have "inv_at base (contract_of d) (last_position (contract_of d) st) st" using fill.IH by (simp add: inv_at_def)
  from tripleD_any [OF backfill_triple this fill.hyps(2)] show ?case by (simp add: inv_at_def)
next
  case (reindex base st env fuel a b r st')
  show ?case
    by (rule tripleD_any [OF reindex_loop_triple [OF assms(2)] reindex.IH reindex.hyps(2) [unfolded reindexRange_def]])
next
  case (moved base st b' base' a')
  show ?case
    by (rule cov_inv_moved [OF moved.IH]) (use moved.hyps in \<open>simp_all add: own_rows_def\<close>)
next
  case (switch base st on)
  then show ?case by (subst cov_inv_cong [of _ st]) (simp_all add: last_position_def)
qed

lemma reach_scanned_or_suspect:
  assumes "indexer_reach d base st" "0 < batchSize (d_cfg d)"
    and "c \<in> set (checkpoints st)" "ck_contract c = contract_of d" "base \<le> l" "l \<le> ck_end c"
  shows "(scanned (trace st) l
      \<or> (\<exists>s\<in>set (checkpoints st). ck_contract s = contract_of d \<and> ck_status s = Suspect \<and> covers s l))
    \<and> (\<not> hasUnresolvedLedgerGaps True (contract_of d) (checkpoints st) \<longrightarrow> scanned (trace st) l)"
proof -
  have "c \<in> own_rows (contract_of d) st" using assms(3,4) by (simp add: own_rows_def own_def)
  then have "recorded (own_rows (contract_of d) st) (last_position (contract_of d) st) l"
    using assms(6) by (auto simp: recorded_def)
  then have "known (own_rows (contract_of d) st) (trace st) l"
    using indexer_reach_inv [OF assms(1,2)] assms(5) by (simp add: cov_inv_def)
  then show ?thesis
    by (auto simp: known_def own_rows_def own_def hasUnresolvedLedgerGaps_def)
qed

text \<open>
  C1. No ledger is silently skipped: through any history of polls, backfills and reindexing, with failures at any query, restarts,
  rollbacks and the position set by hand to any ledger not below the end of a suspect range, every ledger from the first one the
  history answers for up to the end of any recorded range either has been scanned since it was last rolled back or lies in a range
  flagged as suspect; when the gap check reports no suspect range, all of them have been scanned. The first ledger is the one after
  the position at the start or, if higher, after any position set while no range was recorded.
\<close>

theorem no_ledger_silently_skipped:
  assumes "indexer_reach d base st" "0 < batchSize (d_cfg d)"
    and "c \<in> set (checkpoints st)" "ck_contract c = contract_of d" "base \<le> l" "l \<le> ck_end c"
  shows "(scanned (trace st) l
      \<or> (\<exists>s\<in>set (checkpoints st). ck_contract s = contract_of d \<and> ck_status s = Suspect \<and> covers s l))
    \<and> (\<not> hasUnresolvedLedgerGaps True (contract_of d) (checkpoints st) \<longrightarrow> scanned (trace st) l)"
  by (rule reach_scanned_or_suspect [OF assms])

end
