(* ===== verification/IndexerRuns.thy ===== *)
theory IndexerRuns
  imports IndexerSafety
begin

section \<open>Runs of the indexer\<close>

text \<open>
  Properties of whole runs, over the lemmas of \<open>IndexerSafety\<close>: a range of the chain ends up in the
  database, a reorganisation check rolls back exactly when the chain changed, no ledger above the
  finality depth is touched, reindexing ends, and the poll timers form a single loop.
\<close>

subsection \<open>A server that keeps the paging contract\<close>

fun after_token :: "('a \<Rightarrow> string) \<Rightarrow> string \<Rightarrow> 'a list \<Rightarrow> 'a list" where
  "after_token tok c [] = []"
| "after_token tok c (x # xs) = (if tok x = c then xs else after_token tok c xs)"

definition page_of :: "('a \<Rightarrow> string) \<Rightarrow> int \<Rightarrow> 'a list \<Rightarrow> 'a list \<times> string option" where
  "page_of tok limit xs =
     (let page = take (nat limit) xs in (page, if page = [] then None else Some (tok (last page))))"

definition chain_rpc :: "('v SorobanRawEvent \<Rightarrow> string) \<Rightarrow> 'v SorobanRawEvent list \<Rightarrow> 'v rpc" where
  "chain_rpc tok chain req =
     (case req of
        InRange s e limit \<Rightarrow> Inr (page_of tok limit (filter (in_range s e) chain))
      | AfterCursor c limit \<Rightarrow> Inr (page_of tok limit (after_token tok c chain)))"

lemma after_token_split:
  "inj_on tok (set (pre @ x # post)) \<Longrightarrow> distinct (pre @ x # post) \<Longrightarrow> after_token tok (tok x) (pre @ x # post) = post"
  by (induction pre) (auto simp: inj_on_def)

lemma page_of_serves: "0 < limit \<Longrightarrow> serves_page limit tok xs (Inr (page_of tok limit xs))"
  using take_nonempty [of limit xs] by (auto simp: serves_page_def page_of_def Let_def)

lemma chain_rpc_serves:
  "0 < limit \<Longrightarrow> sorted (map ev_ledger chain) \<Longrightarrow> distinct chain \<Longrightarrow> inj_on tok (set chain) \<Longrightarrow>
     \<forall>ev\<in>set chain. tok ev \<noteq> [] \<Longrightarrow> rpc_serves (chain_rpc tok chain) limit tok chain"
  unfolding rpc_serves_def chain_rpc_def by (auto simp: page_of_serves after_token_split)

text \<open>
  C6. Fetching a range is complete and ends: against a server that keeps the paging contract, with
  one page of fuel per event of the chain and two to spare, a fetch returns exactly the events of
  the range, in ledger order, whatever the page size.
\<close>

theorem fetch_complete:
  assumes "rpc_serves rpc limit tok chain" "length chain + 2 \<le> fuel"
  shows "fetchEventsInRange rpc limit fuel s e = Some (Inr (filter (in_range s e) chain))"
  by (rule fetch_returns_range [OF assms])

lemma repaid_sel [simp]: "ev_ledger (repaid_event i l) = l" "ev_id (repaid_event i l) = i"
  by (simp_all add: repaid_event_def)

definition demo_chain :: "native SorobanRawEvent list" where
  "demo_chain = [repaid_event ''e1'' 2, repaid_event ''e2'' 4, repaid_event ''e3'' 4, repaid_event ''e4'' 5,
     repaid_event ''e5'' 9]"

lemma demo_chain_serves: "0 < limit \<Longrightarrow> rpc_serves (chain_rpc ev_id demo_chain) limit ev_id demo_chain"
  by (rule chain_rpc_serves) (auto simp: demo_chain_def repaid_event_def)

theorem fetch_complete_witness:
  "fetchEventsInRange (chain_rpc ev_id demo_chain) 2 7 3 6
     = Some (Inr [repaid_event ''e2'' 4, repaid_event ''e3'' 4, repaid_event ''e4'' 5])"
  using fetch_complete [OF demo_chain_serves, of 2 7 3 6]
  by (simp add: demo_chain_def in_range_def repaid_event_def)

subsection \<open>A range of the chain ends up in the database\<close>

lemma storeEvents_covers:
  assumes "storeEvents sdk r senv evs st = (Inr n, out, st')"
  shows "\<forall>e\<in>set (parsed_events sdk evs). \<exists>row. to_row senv e = Inr row \<and> clash row (ix_events (st_db st'))"
proof -
  let ?run = "run_tx r senv (parsed_events sdk evs) st"
  obtain res v db where run: "?run = (res, v, db)" by (cases ?run) auto
  have "outcome senv (res, v, db) = Inr n" "st_db st' = db"
    using storeEvents_result [of sdk r senv evs st] storeEvents_db [of sdk r senv evs st] assms run by simp_all
  moreover from this obtain x where "res = Inr x" by (cases res) (auto simp: outcome_def)
  ultimately show ?thesis using run_tx_covers [of r senv _ st x v db] run by simp
qed

lemma store_all_rows:
  "store_all env a k es v db = (Inr db', v') \<Longrightarrow> row \<in> set (ix_events db') \<Longrightarrow>
     row \<in> set (ix_events db) \<or> (\<exists>e\<in>set es. to_row env e = Inr row)"
proof (induction es arbitrary: k v db)
  case (Cons e es)
  from Cons.prems obtain f db1 v1 where one: "store_one env f e v db = (Inr db1, v1)"
    and rest: "store_all env a (Suc k) es v1 db1 = (Inr db', v')"
    by (auto split: option.splits prod.splits sum.splits)
  from store_one_Inr [OF one] Cons.IH [OF rest Cons.prems(2)] show ?case
    by (auto simp: added_def split: if_splits)
qed simp

lemma storeEvents_new_rows:
  assumes "row \<in> set (ix_events (st_db (snd (snd (storeEvents sdk r senv evs st)))))"
  shows "row \<in> set (ix_events (st_db st))
     \<or> (\<exists>ev\<in>set evs. \<exists>e. parseEvent sdk ev = Inr (Some e) \<and> to_row senv e = Inr row)"
proof -
  let ?es = "parsed_events sdk evs"
  let ?Q = "\<lambda>db. row \<in> set (ix_events db) \<longrightarrow> row \<in> set (ix_events (st_db st)) \<or> (\<exists>e\<in>set ?es. to_row senv e = Inr row)"
  have "tx_post (\<lambda>_. True) (\<lambda>_ _. ?Q) (st_db st) (run_tx r senv ?es st)"
    by (rule run_tx_rule)
      (auto simp: store_body_def dest!: store_all_rows split: prod.splits sum.splits option.splits)
  then have "?Q (snd (snd (run_tx r senv ?es st)))"
    by (auto simp: tx_post_def split: prod.splits sum.splits)
  with assms consider "row \<in> set (ix_events (st_db st))"
    | e where "e \<in> set ?es" "to_row senv e = Inr row" by (auto simp: storeEvents_db)
  then show ?thesis
    by cases (auto simp: parsed_events_def List.map_filter_def split: sum.splits)
qed

text \<open>
  C7. What the chain holds, the database holds: when a chunk completes against a server that keeps the paging contract, every event
  of the range that decodes has its own row in the events table, unless a row that was there before, or the row of another event of
  the range, holds one of its unique keys: its event id, or its loan, type and ledger (for an approval and a default, its loan and
  type). The position reported is the end of the range.
\<close>

theorem processChunk_indexes_range:
  assumes "rpc_serves (pe_rpc env call) (batchSize (d_cfg d)) tok chain" "length chain + 2 \<le> pe_fuel env"
    and "s \<le> e" "processChunk d env call s e st = (Inr r, st')"
    and "ev \<in> set chain" "in_range s e ev" "parseEvent (d_sdk d) ev = Inr (Some x)"
  shows "lastProcessedLedger r = e \<and> fetchedEvents r = length (filter (in_range s e) chain)
     \<and> (\<exists>row. to_row (pe_store env call) x = Inr row
          \<and> (row \<in> set (ix_events (st_db (store st')))
             \<or> (\<exists>row'\<in>set (ix_events (st_db (store st'))). conflicts row row'
                  \<and> (row' \<in> set (ix_events (st_db (store st)))
                     \<or> (\<exists>ev'\<in>set chain. ev' \<noteq> ev \<and> in_range s e ev'
                          \<and> (\<exists>x'. parseEvent (d_sdk d) ev' = Inr (Some x') \<and> to_row (pe_store env call) x' = Inr row'))))))"
proof -
  let ?evs = "filter (in_range s e) chain"
  have fetch: "fetch_act d env call s e st = (Inr ?evs, st)"
    using fetch_returns_range [OF assms(1,2), of s e] by (simp add: fetch_act_def ret_def)
  have mem: "ev \<in> set ?evs" using assms(5,6) by simp
  then have ne: "?evs \<noteq> []" by (metis empty_iff empty_set)
  obtain res out s1 where se: "storeEvents (d_sdk d) (d_redis d) (pe_store env call) ?evs (store st) = (res, out, s1)"
    by (cases "storeEvents (d_sdk d) (d_redis d) (pe_store env call) ?evs (store st)") auto
  with fetch ne assms(3,4) obtain n where n: "res = Inr n" and r: "fetchedEvents r = length ?evs" "store st' = s1"
    by (cases res) (auto simp: processChunk_def bind_act_def store_act_def writing_def ret_def Let_def)
  have "x \<in> set (parsed_events (d_sdk d) ?evs)"
    using mem assms(7) by (force simp: parsed_events_def List.map_filter_def)
  with storeEvents_covers [OF se [unfolded n]] r(2)
  obtain row row' where row: "to_row (pe_store env call) x = Inr row" "row' \<in> set (ix_events (st_db (store st')))" "conflicts row row'"
    by (auto simp: clash_def)
  have from_batch: "row' \<in> set (ix_events (st_db (store st)))
      \<or> (\<exists>ev'\<in>set ?evs. \<exists>x'. parseEvent (d_sdk d) ev' = Inr (Some x') \<and> to_row (pe_store env call) x' = Inr row')"
    using storeEvents_new_rows [of row' "d_sdk d" "d_redis d" "pe_store env call" ?evs "store st"] row(2) r(2) se by auto
  have "row \<in> set (ix_events (st_db (store st')))
     \<or> (row' \<in> set (ix_events (st_db (store st)))
        \<or> (\<exists>ev'\<in>set chain. ev' \<noteq> ev \<and> in_range s e ev'
             \<and> (\<exists>x'. parseEvent (d_sdk d) ev' = Inr (Some x') \<and> to_row (pe_store env call) x' = Inr row')))"
    using from_batch
  proof
    assume "\<exists>ev'\<in>set ?evs. \<exists>x'. parseEvent (d_sdk d) ev' = Inr (Some x') \<and> to_row (pe_store env call) x' = Inr row'"
    then obtain ev' x' where ev': "ev' \<in> set ?evs" "parseEvent (d_sdk d) ev' = Inr (Some x')" "to_row (pe_store env call) x' = Inr row'"
      by blast
    show ?thesis
    proof (cases "ev' = ev")
      case True
      then have "row' = row" using ev'(2,3) row(1) assms(7) by simp
      then show ?thesis using row(2) by simp
    next
      case False
      then show ?thesis using ev' by auto
    qed
  qed simp
  moreover have "lastProcessedLedger r = e"
    using processChunk_result [OF assms(3), where d = d and env = env and call = call and st = st] assms(4) by simp
  ultimately show ?thesis using r(1) row by blast
qed

text \<open>A deployment with one indexed contract and a chain with one repayment.\<close>

definition demo_deps :: "(native, string \<Rightarrow> string option) indexer_deps" where
  "demo_deps = \<lparr>d_sdk = plain_sdk, d_redis = map_redis, d_sha256 = id, d_idRank = (\<lambda>_. 0),
     d_cfg = \<lparr>contractIds = [''C1''], pollIntervalMs = 30000, batchSize = 100, finalityDepth = 3,
              lagAlertThreshold = 100, quarantineThreshold = 25\<rparr>\<rparr>"

definition demo_poll :: "native SorobanRawEvent list \<Rightarrow> native poll_env" where
  "demo_poll chain = \<lparr>pe_latestLedger = Inr (Num 10), pe_fault = (\<lambda>_. None), pe_rollback_fault = (\<lambda>_. None),
     pe_rpc = (\<lambda>_. chain_rpc ev_id chain), pe_store = (\<lambda>_. demo_env), pe_fuel = 5\<rparr>"

definition demo_indexer :: "(string \<Rightarrow> string option) indexer" where
  "demo_indexer = \<lparr>store = demo_state, checkpoints = [], positions = Map.empty, lagAlertActive = False,
     running = True, outbox = [], trace = []\<rparr>"

lemma demo_deps_sel [simp]:
  "d_sdk demo_deps = plain_sdk" "d_redis demo_deps = map_redis" "batchSize (d_cfg demo_deps) = 100"
  "finalityDepth (d_cfg demo_deps) = 3" "contract_of demo_deps = ''C1''"
  by (simp_all add: demo_deps_def getContractId_def)

lemma demo_poll_sel [simp]:
  "pe_rpc (demo_poll chain) call = chain_rpc ev_id chain" "pe_store (demo_poll chain) call = demo_env"
  "pe_fuel (demo_poll chain) = 5" "pe_fault (demo_poll chain) p = None"
  by (simp_all add: demo_poll_def)

lemma demo_indexer_sel [simp]:
  "store demo_indexer = demo_state" "checkpoints demo_indexer = []" "positions demo_indexer = Map.empty"
  "trace demo_indexer = []" "running demo_indexer = True"
  by (simp_all add: demo_indexer_def)

lemma one_event_serves:
  "i \<noteq> [] \<Longrightarrow> rpc_serves (chain_rpc ev_id [repaid_event i l]) 100 ev_id [repaid_event i l]"
  by (rule chain_rpc_serves) (auto simp: repaid_event_def)

theorem processChunk_indexes_range_witness:
  "\<exists>r st'. processChunk demo_deps (demo_poll [repaid_event ''e1'' 5]) ChunkFetch 3 6 demo_indexer = (Inr r, st')
     \<and> lastProcessedLedger r = 6 \<and> fetchedEvents r = 1 \<and> repaid_row ''e1'' 5 \<in> set (ix_events (st_db (store st')))"
proof -
  let ?env = "demo_poll [repaid_event ''e1'' 5]"
  note serves = one_event_serves [of "''e1''" 5]
  have fetch: "fetch_act demo_deps ?env ChunkFetch 3 6 demo_indexer = (Inr [repaid_event ''e1'' 5], demo_indexer)"
    using fetch_returns_range [OF serves, of 5 3 6]
    by (simp add: fetch_act_def ret_def in_range_def repaid_event_def)
  obtain n out s1 where se: "storeEvents plain_sdk map_redis demo_env [repaid_event ''e1'' 5] demo_state = (Inr n, out, s1)"
    using demo_committed by (metis prod.collapse)
  obtain r st' where run: "processChunk demo_deps ?env ChunkFetch 3 6 demo_indexer = (Inr r, st')"
    using fetch se by (simp add: processChunk_def bind_act_def store_act_def writing_def ret_def Let_def)
  have "lastProcessedLedger r = 6 \<and> fetchedEvents r = length (filter (in_range 3 6) [repaid_event ''e1'' 5])
     \<and> (\<exists>row. to_row (pe_store ?env ChunkFetch) (repaid_parsed ''e1'' 5) = Inr row
          \<and> (row \<in> set (ix_events (st_db (store st')))
             \<or> (\<exists>row'\<in>set (ix_events (st_db (store st'))). conflicts row row'
                  \<and> (row' \<in> set (ix_events (st_db (store demo_indexer)))
                     \<or> (\<exists>ev'\<in>set [repaid_event ''e1'' 5]. ev' \<noteq> repaid_event ''e1'' 5 \<and> in_range 3 6 ev'
                          \<and> (\<exists>x'. parseEvent (d_sdk demo_deps) ev' = Inr (Some x') \<and> to_row (pe_store ?env ChunkFetch) x' = Inr row'))))))"
    by (rule processChunk_indexes_range [where d = demo_deps and tok = ev_id and chain = "[repaid_event ''e1'' 5]"
          and ev = "repaid_event ''e1'' 5", OF _ _ _ run])
      (simp_all add: serves repaid_parses in_range_def)
  then show ?thesis using run by (auto simp: repaid_rows in_range_def demo_state_def)
qed

subsection \<open>Reorganisations\<close>

definition same_ranges :: "checkpoint list \<Rightarrow> checkpoint list \<Rightarrow> bool" where
  "same_ranges cs cs' \<longleftrightarrow>
     map (\<lambda>c. (ck_contract c, ck_start c, ck_end c, ck_status c)) cs'
       = map (\<lambda>c. (ck_contract c, ck_start c, ck_end c, ck_status c)) cs"

lemma same_ranges_refl [simp]: "same_ranges cs cs"
  by (simp add: same_ranges_def)

lemma same_ranges_digest [simp]: "same_ranges cs (map (set_digest C s e dg) cs)"
  by (simp add: same_ranges_def set_digest_def)

text \<open>The newest verified range, and what the chain holds of a range now.\<close>

definition newest_verified :: "('v, 's) indexer_deps \<Rightarrow> 's indexer \<Rightarrow> checkpoint option" where
  "newest_verified d st = latest_row (filter (\<lambda>c. ck_status c = Verified) (own (contract_of d) (checkpoints st)))"

definition refetched :: "('v, 's) indexer_deps \<Rightarrow> 'v poll_env \<Rightarrow> checkpoint \<Rightarrow> (string + 'v SorobanRawEvent list) option" where
  "refetched d env c = fetchEventsInRange (pe_rpc env ReorgCheck) (batchSize (d_cfg d)) (pe_fuel env) (ck_start c) (ck_end c)"

lemma reorg_cases:
  "case detectAndRollbackReorg d env st of
     (Inr True, st') \<Rightarrow>
       (\<exists>c dg events. newest_verified d st = Some c \<and> refetched d env c = Some (Inr events)
          \<and> ck_digest c = Some dg \<and> digest_of d events \<noteq> dg \<and> rolled_back d (ck_start c) st st')
   | (Inr False, st') \<Rightarrow> st_db (store st') = st_db (store st) \<and> positions st' = positions st
       \<and> trace st' = trace st \<and> same_ranges (checkpoints st) (checkpoints st')
       \<and> (case newest_verified d st of
            None \<Rightarrow> True
          | Some c \<Rightarrow> (\<exists>events. refetched d env c = Some (Inr events)
                        \<and> (case ck_digest c of None \<Rightarrow> True | Some dg \<Rightarrow> digest_of d events = dg)))
   | (Inl err, st') \<Rightarrow> untouched st st'
       \<and> (pe_fault env ReadVerified \<noteq> None
          \<or> (\<exists>c. newest_verified d st = Some c
               \<and> (\<not> (\<exists>events. refetched d env c = Some (Inr events))
                  \<or> ck_digest c = None \<and> pe_fault env FillDigest \<noteq> None
                  \<or> fst (rollbackFromLedger d env (ck_start c) st) = Inl err)))"
proof -
  let ?ck = "newest_verified d st"
  show ?thesis
  proof (cases "pe_fault env ReadVerified")
    case (Some err)
    then show ?thesis
      by (simp add: detectAndRollbackReorg_def getLatestVerifiedCheckpoint_def sql_def bind_act_def throw_def untouched_def)
  next
    case ok: None
    then have get: "getLatestVerifiedCheckpoint d env st = (Inr ?ck, st)"
      by (simp add: getLatestVerifiedCheckpoint_def sql_def reading_def newest_verified_def)
    show ?thesis
    proof (cases ?ck)
      case None
      with get show ?thesis by (simp add: detectAndRollbackReorg_def bind_act_def ret_def)
    next
      case (Some c)
      show ?thesis
      proof (cases "refetched d env c")
        case None
        with get Some show ?thesis
          by (simp add: detectAndRollbackReorg_def bind_act_def fetch_act_def throw_def untouched_def refetched_def)
      next
        case fetch: (Some res)
        show ?thesis
        proof (cases res)
          case (Inl err)
          with get Some fetch show ?thesis
            by (simp add: detectAndRollbackReorg_def bind_act_def fetch_act_def throw_def untouched_def refetched_def)
        next
          case (Inr events)
          note found = get Some fetch Inr
          obtain rb st1 where roll: "rollbackFromLedger d env (ck_start c) st = (rb, st1)" by fastforce
          show ?thesis
            using found roll rollbackFromLedger_result [where d = d and env = env and ledger = "ck_start c" and st = st]
            by (cases "ck_digest c"; cases rb)
              (auto simp: detectAndRollbackReorg_def bind_act_def fetch_act_def ret_def throw_def sql_def
                writing_def untouched_def refetched_def Let_def split: option.splits)
        qed
      qed
    qed
  qed
qed

text \<open>
  C8. A reorganisation check is exact. It rolls back when the newest verified range, fetched again, has another digest than the one
  recorded, from the start of that range: exactly the events at or above it go, the others stay, with the audit trail (and one
  reversal row per audited event removed) and the score band. It answers that nothing happened only when there is no verified
  range, or the digest is the recorded one, or none was recorded, and then events, scores, audit rows, positions and ranges stay as
  they are. It fails only when a query, the fetch or the rollback fails, and then changes nothing.
\<close>

theorem detectAndRollbackReorg_exact:
  "case detectAndRollbackReorg d env st of
     (Inr True, st') \<Rightarrow>
       (\<exists>c dg events. newest_verified d st = Some c \<and> refetched d env c = Some (Inr events)
          \<and> ck_digest c = Some dg \<and> digest_of d events \<noteq> dg \<and> rolled_back d (ck_start c) st st')
   | (Inr False, st') \<Rightarrow> st_db (store st') = st_db (store st) \<and> positions st' = positions st
       \<and> trace st' = trace st \<and> same_ranges (checkpoints st) (checkpoints st')
       \<and> (case newest_verified d st of
            None \<Rightarrow> True
          | Some c \<Rightarrow> (\<exists>events. refetched d env c = Some (Inr events)
                        \<and> (case ck_digest c of None \<Rightarrow> True | Some dg \<Rightarrow> digest_of d events = dg)))
   | (Inl err, st') \<Rightarrow> untouched st st'
       \<and> (pe_fault env ReadVerified \<noteq> None
          \<or> (\<exists>c. newest_verified d st = Some c
               \<and> (\<not> (\<exists>events. refetched d env c = Some (Inr events))
                  \<or> ck_digest c = None \<and> pe_fault env FillDigest \<noteq> None
                  \<or> fst (rollbackFromLedger d env (ck_start c) st) = Inl err)))"
  by (rule reorg_cases)

text \<open>A recorded digest the chain no longer has.\<close>

definition orphaned_indexer :: "(string \<Rightarrow> string option) indexer" where
  "orphaned_indexer = demo_indexer\<lparr>checkpoints := [\<lparr>ck_contract = ''C1'', ck_start = 1, ck_end = 7, ck_status = Verified,
     ck_digest = Some ''old''\<rparr>], positions := [''C1'' \<mapsto> (7, 7)]\<rparr>"

theorem detectAndRollbackReorg_exact_witness:
  "\<exists>st'. detectAndRollbackReorg demo_deps (demo_poll []) orphaned_indexer = (Inr True, st')
     \<and> checkpoints st' = [] \<and> positions st' ''C1'' = Some (0, 0) \<and> trace st' = [RolledBack 1]"
proof -
  let ?c = "\<lparr>ck_contract = ''C1'', ck_start = 1, ck_end = 7, ck_status = Verified, ck_digest = Some ''old''\<rparr>"
  let ?env = "demo_poll []"
  obtain r st' where run: "detectAndRollbackReorg demo_deps ?env orphaned_indexer = (r, st')" by fastforce
  note exact = detectAndRollbackReorg_exact [where d = demo_deps and env = ?env and st = orphaned_indexer, unfolded run prod.case]
  have newest: "newest_verified demo_deps orphaned_indexer = Some ?c"
    by (simp add: newest_verified_def orphaned_indexer_def own_def)
  have fetched: "refetched demo_deps ?env ?c = Some (Inr [])"
    using fetch_returns_range [OF chain_rpc_serves [of 100 "[]" ev_id], of 5 1 7] by (simp add: refetched_def)
  have digest: "digest_of demo_deps [] \<noteq> ''old''" by (simp add: digestEvents_def demo_deps_def)
  have rolls: "fst (rollbackFromLedger demo_deps ?env 1 orphaned_indexer) \<noteq> Inl err" for err
    by (simp add: rollbackFromLedger_def withTransaction_def tx_loop.simps rollback_body_def orphaned_indexer_def demo_state_def
        updateUserScoresBulk_def demo_poll_def Let_def)
  have "r = Inr True"
    using exact newest fetched digest rolls by (cases r) (auto split: bool.splits)
  moreover have "checkpoints st' = [] \<and> positions st' ''C1'' = Some (0, 0) \<and> trace st' = [RolledBack 1]"
    using exact newest calculation by (auto simp: rolled_back_def rolled_position_def orphaned_indexer_def)
  ultimately show ?thesis using run by blast
qed

subsection \<open>Finality\<close>

text \<open>Calls that leave the stored events alone, and predicates kept by every step of a call.\<close>

definition keeps_store :: "('s, 'a) poll_act \<Rightarrow> bool" where
  "keeps_store m \<longleftrightarrow> (\<forall>st. store (snd (m st)) = store st)"

definition kept :: "('st \<Rightarrow> bool) \<Rightarrow> ('st, 'e, 'a) act \<Rightarrow> bool" where
  "kept P m \<longleftrightarrow> triple P m (\<lambda>_. P) P"

lemma keeps_store_prims:
  "keeps_store (ret x)" "keeps_store (throw e)" "keeps_store (reading f)"
  "(\<And>st. store (g st) = store st) \<Longrightarrow> keeps_store (writing g)"
  by (simp_all add: keeps_store_def ret_def throw_def reading_def writing_def)

lemma keeps_store_bind: "keeps_store m \<Longrightarrow> (\<And>x. keeps_store (f x)) \<Longrightarrow> keeps_store (bind_act m f)"
  unfolding keeps_store_def bind_act_def by (auto split: prod.splits sum.splits) (metis snd_conv)+

lemma keeps_store_sql: "keeps_store m \<Longrightarrow> keeps_store (sql env p m)"
  by (auto simp: sql_def keeps_store_prims split: option.splits)

lemmas keeps_store_intros = keeps_store_prims keeps_store_bind keeps_store_sql

lemma kept_bind: "kept P m \<Longrightarrow> (\<And>x. kept P (f x)) \<Longrightarrow> kept P (bind_act m f)"
  unfolding kept_def by (rule triple_bind)

lemma kept_prims: "kept P (ret x)" "kept P (throw e)" "kept P (reading f)"
  by (simp_all add: kept_def triple_def ret_def throw_def reading_def)

lemma kept_store: "keeps_store m \<Longrightarrow> kept (\<lambda>st. P (store st)) m"
  unfolding kept_def keeps_store_def triple_def by (auto split: prod.splits sum.splits) (metis snd_conv)+

lemma keeps_store_position: "keeps_store (getLastIndexedLedger d env k)"
  unfolding getLastIndexedLedger_def
  by (intro keeps_store_intros) (auto intro!: keeps_store_intros split: option.splits)

lemma keeps_store_update: "keeps_store (updateLastIndexedLedger d env l)"
  unfolding updateLastIndexedLedger_def
proof (intro keeps_store_bind keeps_store_sql)
  show "keeps_store (if updated then ret ()
      else sql env InsertPosition (writing (\<lambda>st. st\<lparr>positions := (positions st)(contract_of d \<mapsto> (l, l))\<rparr>)))" for updated
    by (auto intro!: keeps_store_intros)
qed (auto simp: keeps_store_def split: option.splits)

lemma keeps_store_lag: "keeps_store (recordLag cfg a b)"
  unfolding recordLag_def by (intro keeps_store_intros) (simp add: Let_def)

lemma keeps_store_insert: "keeps_store (insert_checkpoint env p row)"
  unfolding insert_checkpoint_def by (auto intro!: keeps_store_intros)

lemma keeps_store_checkpoint: "keeps_store (recordCheckpoint d env a b dg)"
  unfolding recordCheckpoint_def
  by (auto intro!: keeps_store_intros keeps_store_insert split: option.splits)

text \<open>Every stored event is an old one or is not above \<open>F\<close>.\<close>

definition final_upto :: "contract_event set \<Rightarrow> int \<Rightarrow> 's store_state \<Rightarrow> bool" where
  "final_upto old F s \<longleftrightarrow> (\<forall>row\<in>set (ix_events (st_db s)). row \<in> old \<or> ce_ledger row \<le> F)"

lemma to_row_ledger: "to_row senv e = Inr row \<Longrightarrow> ce_ledger row = x_ledger e"
  by (auto simp: to_row_def try_then_Inr)

lemma storeEvents_rows:
  assumes "row \<in> set (ix_events (st_db (snd (snd (storeEvents sdk r senv evs st)))))"
  shows "row \<in> set (ix_events (st_db st)) \<or> (\<exists>ev\<in>set evs. ce_ledger row = ev_ledger ev)"
  using storeEvents_new_rows [OF assms] to_row_ledger parseEvent_Some by metis

lemma kept_store_act:
  fixes d :: "('v, 's) indexer_deps"
  assumes "\<forall>ev\<in>set evs. ev_ledger ev \<le> F"
  shows "kept (\<lambda>st. final_upto old F (store st)) (store_act d senv evs)"
  unfolding kept_def triple_def
proof (intro allI impI)
  fix st :: "'s indexer" assume P: "final_upto old F (store st)"
  obtain res out s1 where se: "storeEvents (d_sdk d) (d_redis d) senv evs (store st) = (res, out, s1)"
    by (cases "storeEvents (d_sdk d) (d_redis d) senv evs (store st)") auto
  have "final_upto old F s1"
    unfolding final_upto_def
  proof
    fix row assume "row \<in> set (ix_events (st_db s1))"
    then show "row \<in> old \<or> ce_ledger row \<le> F"
      using storeEvents_rows [of row "d_sdk d" "d_redis d" senv evs "store st"] se P assms
      by (fastforce simp: final_upto_def)
  qed
  then show "case store_act d senv evs st of
      (Inl e, st') \<Rightarrow> final_upto old F (store st') | (Inr x, st') \<Rightarrow> final_upto old F (store st')"
    using se by (cases res) (simp_all add: store_act_def)
qed

lemma kept_chunk:
  fixes d :: "('v, 's) indexer_deps"
  assumes "e \<le> F"
  shows "kept (\<lambda>st. final_upto old F (store st)) (processChunk d env call s e)" (is "kept ?P _")
proof -
  have scan: "kept ?P (writing (\<lambda>st. st\<lparr>trace := trace st @ [Scanned s e]\<rparr>) :: ('s, unit) poll_act)"
    by (rule kept_store) (simp add: keeps_store_prims)
  have fetch: "triple ?P (fetch_act d env call s e) (\<lambda>evs st. ?P st \<and> (\<forall>ev\<in>set evs. ev_ledger ev \<le> F)) ?P"
  proof (rule tripleI)
    show "?P st' \<and> (\<forall>ev\<in>set evs. ev_ledger ev \<le> F)" if "?P st" "fetch_act d env call s e st = (Inr evs, st')" for st evs st'
      using fetch_act_events [OF that(2)] that(1) assms by (force simp: in_range_def)
    show "?P st'" if "?P st" "fetch_act d env call s e st = (Inl err, st')" for st err st'
      using that by (auto simp: fetch_act_def throw_def ret_def split: option.splits sum.splits)
  qed
  have on: "kept ?P (if evs = [] then bind_act (writing (\<lambda>st. st\<lparr>trace := trace st @ [Scanned s e]\<rparr>)) (\<lambda>_. ret a)
      else bind_act (store_act d senv evs) (\<lambda>n. bind_act (writing (\<lambda>st. st\<lparr>trace := trace st @ [Scanned s e]\<rparr>)) (\<lambda>_. ret (b n))))"
    if "\<forall>ev\<in>set evs. ev_ledger ev \<le> F" for evs senv and a :: ProcessChunkResult and b
    using that by (simp add: kept_bind scan kept_prims kept_store_act)
  show ?thesis
  proof (cases "e < s")
    case False
    then show ?thesis unfolding kept_def processChunk_def Let_def if_not_P [OF False]
      by (intro triple_bind [OF fetch]) (use on in \<open>auto simp: kept_def triple_def\<close>)
  qed (simp add: processChunk_def kept_prims)
qed

lemma kept_detect:
  fixes d :: "('v, 's) indexer_deps"
  shows "kept (\<lambda>st. final_upto old F (store st)) (detectAndRollbackReorg d env)"
  unfolding kept_def triple_def
proof (intro allI impI)
  fix st :: "'s indexer" assume P: "final_upto old F (store st)"
  have same: "final_upto old F (store st')" if "untouched st st'" for st'
    using that P by (simp add: untouched_def final_upto_def)
  have less: "final_upto old F (store st')" if "rolled_back d l st st'" for l st'
    using that P by (auto simp: rolled_back_def final_upto_def)
  obtain r st' where run: "detectAndRollbackReorg d env st = (r, st')" by fastforce
  note exact = reorg_cases [where d = d and env = env and st = st, unfolded run prod.case]
  have "final_upto old F (store st')"
  proof (cases r)
    case (Inl err)
    with exact same show ?thesis by simp
  next
    case (Inr b)
    with exact less P show ?thesis by (cases b) (auto simp: final_upto_def)
  qed
  with run show "case detectAndRollbackReorg d env st of
      (Inl e, st') \<Rightarrow> final_upto old F (store st') | (Inr x, st') \<Rightarrow> final_upto old F (store st')"
    by (cases r) simp_all
qed

lemma kept_backfill_range:
  fixes d :: "('v, 's) indexer_deps"
  shows "kept (\<lambda>st. final_upto old F (store st)) (backfill_range d env k F rng)" (is "kept ?P _")
proof -
  obtain s e where rng: "rng = (s, e)" by (cases rng)
  have chunk: "kept ?P (processChunk d env (BackfillFetch k) s (min e F))" by (rule kept_chunk) simp
  show ?thesis
    unfolding rng backfill_range_def prod.case Let_def
    by (rule triple_if [of _ ?P _ "\<lambda>_. ?P" ?P, folded kept_def])
      (auto intro!: kept_prims kept_bind [OF chunk] kept_bind [OF kept_store [of _ "final_upto old F"]]
        keeps_store_intros keeps_store_insert)
qed

lemma kept_backfill_loop:
  "kept (\<lambda>st. final_upto old F (store st)) (backfill_loop d env k F rngs n)"
  by (induction rngs arbitrary: k n) (auto intro!: kept_prims kept_bind kept_backfill_range)

lemma kept_index_next:
  "kept (\<lambda>st. final_upto old F (store st)) (index_next d env latest F pos)"
  unfolding index_next_def Let_def
  by (auto intro!: kept_bind kept_chunk kept_store [OF keeps_store_lag] kept_store [OF keeps_store_update]
      kept_store [OF keeps_store_checkpoint])

lemma kept_poll:
  fixes d :: "('v, 's) indexer_deps"
  shows "kept (\<lambda>st. final_upto old (getFinalizedLedgerSequence (d_cfg d) env) (store st)) (pollOnce d env)"
proof -
  let ?F = "getFinalizedLedgerSequence (d_cfg d) env"
  let ?P = "\<lambda>st :: 's indexer. final_upto old ?F (store st)"
  have ranges: "keeps_store (getSuspectRanges d env :: ('s, _) poll_act)"
    by (simp add: getSuspectRanges_def keeps_store_intros)
  have "kept ?P (poll_to d env latest ?F)" for latest
    unfolding poll_to_def backfillMissingRanges_def Let_def option.case
    by (auto intro!: kept_bind kept_detect kept_prims kept_index_next kept_backfill_loop
        kept_store [OF keeps_store_position] kept_store [OF ranges])
  then show ?thesis
    unfolding pollOnce_def Let_def
    by (auto intro!: kept_bind kept_prims kept_store [OF keeps_store_position] simp: getFinalizedLedgerSequence_def)
qed

text \<open>
  C9. Finality is respected: whatever happens during a poll, failures included, every event stored
  after it was stored before or belongs to a ledger that lies at least the configured depth below
  the chain tip.
\<close>

theorem pollOnce_respects_finality:
  assumes "pollOnce d env st = (res, st')" "row \<in> set (ix_events (st_db (store st')))"
  shows "row \<in> set (ix_events (st_db (store st)))
     \<or> ce_ledger row \<le> max (getLatestLedgerSequence env - finalityDepth (d_cfg d)) 0"
proof -
  let ?old = "set (ix_events (st_db (store st)))" and ?F = "getFinalizedLedgerSequence (d_cfg d) env"
  have "final_upto ?old ?F (store st)" by (simp add: final_upto_def)
  from tripleD_any [OF kept_poll [unfolded kept_def] this assms(1)] assms(2) show ?thesis
    by (auto simp: final_upto_def getFinalizedLedgerSequence_def)
qed

text \<open>One poll of the demonstration deployment: the chain tip is 10, the depth 3.\<close>

lemma demo_stored:
  "\<exists>out s1. storeEvents plain_sdk map_redis demo_env [repaid_event ''e1'' 5] demo_state = (Inr 1, out, s1)
     \<and> ix_events (st_db s1) = [repaid_row ''e1'' 5]"
proof -
  obtain v where v: "run_tx map_redis demo_env [repaid_parsed ''e1'' 5] demo_state
       = (Inr (), v, body_db demo_env [] [repaid_parsed ''e1'' 5] (st_db demo_state))"
    using run_tx_spec [of demo_env "[repaid_parsed ''e1'' 5]" demo_state map_redis]
    by (auto simp: repaid_rows repaid_small)
  obtain out s1 where se: "storeEvents plain_sdk map_redis demo_env [repaid_event ''e1'' 5] demo_state = (Inr 1, out, s1)"
    using demo_committed by (metis prod.collapse)
  have "st_db s1 = body_db demo_env [] [repaid_parsed ''e1'' 5] (st_db demo_state)"
    using storeEvents_db [of plain_sdk map_redis demo_env "[repaid_event ''e1'' 5]" demo_state] se v
    by (simp add: repaid_batch)
  with se show ?thesis by (simp add: body_db_def repaid_rows Let_def)
qed

lemma demo_poll_run:
  "\<exists>st'. pollOnce demo_deps (demo_poll [repaid_event ''e1'' 5]) demo_indexer = (Inr (), st')
     \<and> ix_events (st_db (store st')) = [repaid_row ''e1'' 5] \<and> trace st' = [Scanned 1 7]
     \<and> positions st' ''C1'' = Some (7, 7)
     \<and> map (\<lambda>c. (ck_contract c, ck_start c, ck_end c, ck_status c)) (checkpoints st') = [(''C1'', 1, 7, Verified)]"
proof -
  let ?env = "demo_poll [repaid_event ''e1'' 5]"
  obtain out s1 where se: "storeEvents plain_sdk map_redis demo_env [repaid_event ''e1'' 5] demo_state = (Inr 1, out, s1)"
    "ix_events (st_db s1) = [repaid_row ''e1'' 5]" using demo_stored by blast
  have fetch: "fetchEventsInRange (chain_rpc ev_id [repaid_event ''e1'' 5]) 100 5 1 7 = Some (Inr [repaid_event ''e1'' 5])"
    using fetch_returns_range [OF one_event_serves, of "''e1''" 5 5 1 7] by (simp add: in_range_def)
  have tip: "getLatestLedgerSequence ?env = 10" by (simp add: getLatestLedgerSequence_def demo_poll_def)
  note acts = bind_act_def sql_def reading_def writing_def ret_def throw_def
  show ?thesis using se fetch
    by (simp add: pollOnce_def acts getLastIndexedLedger_def tip poll_to_def detectAndRollbackReorg_def
        getLatestVerifiedCheckpoint_def own_def backfillMissingRanges_def getSuspectRanges_def suspect_rows_def
        index_next_def Let_def processChunk_def fetch_act_def store_act_def recordCheckpoint_def insert_checkpoint_def
        updateLastIndexedLedger_def recordLag_def)
qed

theorem pollOnce_respects_finality_witness:
  "\<exists>st'. pollOnce demo_deps (demo_poll [repaid_event ''e1'' 5]) demo_indexer = (Inr (), st')
     \<and> repaid_row ''e1'' 5 \<in> set (ix_events (st_db (store st')))
     \<and> (repaid_row ''e1'' 5 \<in> set (ix_events (st_db demo_state)) \<or> ce_ledger (repaid_row ''e1'' 5) \<le> 7)"
proof -
  obtain st' where st': "pollOnce demo_deps (demo_poll [repaid_event ''e1'' 5]) demo_indexer = (Inr (), st')"
    "repaid_row ''e1'' 5 \<in> set (ix_events (st_db (store st')))" using demo_poll_run by auto
  from pollOnce_respects_finality [OF this] st' show ?thesis
    by (simp add: getLatestLedgerSequence_def demo_poll_def)
qed

theorem no_ledger_silently_skipped_witness:
  "\<exists>st'. pollOnce demo_deps (demo_poll [repaid_event ''e1'' 5]) demo_indexer = (Inr (), st')
     \<and> \<not> hasUnresolvedLedgerGaps True ''C1'' (checkpoints st') \<and> scanned (trace st') 4"
proof -
  obtain st' where st': "pollOnce demo_deps (demo_poll [repaid_event ''e1'' 5]) demo_indexer = (Inr (), st')"
    "map (\<lambda>c. (ck_contract c, ck_start c, ck_end c, ck_status c)) (checkpoints st') = [(''C1'', 1, 7, Verified)]"
    by (rule exE [OF demo_poll_run], elim conjE) (rule that)
  from st'(2) obtain c where c: "checkpoints st' = [c]" "ck_contract c = ''C1''" "ck_end c = 7" "ck_status c = Verified"
    by (auto simp: map_eq_Cons_conv)
  have "indexer_reach demo_deps 1 demo_indexer"
    by (rule indexer_reach.fresh) (simp_all add: own_def last_position_def)
  then have reach: "indexer_reach demo_deps 1 st'" using st'(1) by (rule indexer_reach.poll)
  have gaps: "\<not> hasUnresolvedLedgerGaps True ''C1'' (checkpoints st')" using c by (simp add: hasUnresolvedLedgerGaps_def)
  have "scanned (trace st') 4"
    by (rule no_ledger_silently_skipped [OF reach, of c 4, THEN conjunct2, THEN mp]) (simp_all add: c hasUnresolvedLedgerGaps_def)
  with st'(1) gaps show ?thesis by blast
qed

subsection \<open>Reindexing ends\<close>

lemma chunk_returns:
  assumes "\<And>s e. fetchEventsInRange (pe_rpc env call) (batchSize (d_cfg d)) (pe_fuel env) s e \<noteq> None"
  shows "fst (processChunk d env call s e st) \<noteq> Inl NotReturning"
  using assms [of s e]
  by (auto simp: processChunk_def bind_act_def fetch_act_def store_act_def writing_def ret_def throw_def Let_def
      split: prod.splits sum.splits option.splits)

lemma reindex_loop_returns:
  assumes "\<And>s e. fetchEventsInRange (pe_rpc env ChunkFetch) (batchSize (d_cfg d)) (pe_fuel env) s e \<noteq> None"
    and "0 < batchSize (d_cfg d)"
  shows "nat (toLedger - current + 1) < fuel \<Longrightarrow>
     fst (reindex_loop d env fuel current toLedger acc st) \<noteq> Inl NotReturning"
proof (induction fuel arbitrary: current acc st)
  case (Suc fuel)
  obtain a b c where acc: "acc = (a, b, c)" by (cases acc)
  let ?e = "min (current + batchSize (d_cfg d) - 1) toLedger"
  have IH: "fst (reindex_loop d env fuel (?e + 1) toLedger acc' st') \<noteq> Inl NotReturning"
    if "current \<le> toLedger" for acc' st'
    by (rule Suc.IH) (use that Suc.prems assms(2) in linarith)
  show ?case
    using chunk_returns [OF assms(1), of current ?e st] IH unfolding acc
    by (auto simp: bind_act_def ret_def Let_def split: prod.splits sum.splits)
qed simp

text \<open>
  C23. Reindexing ends: with a positive batch size and a server that keeps the paging contract,
  \<open>reindexRange\<close> returns or throws after at most one turn per ledger of the range and one more.
\<close>

theorem reindexRange_terminates:
  assumes "rpc_serves (pe_rpc env ChunkFetch) (batchSize (d_cfg d)) tok chain" "length chain + 2 \<le> pe_fuel env"
    and "nat (toLedger - fromLedger + 1) < fuel"
  shows "fst (reindexRange d env fuel fromLedger toLedger st) \<noteq> Inl NotReturning"
  unfolding reindexRange_def
  by (rule reindex_loop_returns)
    (use assms fetch_returns_range [OF assms(1,2)] in \<open>simp_all add: rpc_serves_def\<close>)

theorem reindexRange_terminates_witness:
  "fst (reindexRange demo_deps (demo_poll [repaid_event ''e1'' 5]) 11 1 9 demo_indexer) \<noteq> Inl NotReturning"
  by (rule reindexRange_terminates [where tok = ev_id and chain = "[repaid_event ''e1'' 5]"])
    (simp_all add: one_event_serves)

text \<open>
  With a batch size of zero or less, reindexing a nonempty range never ends: the loop takes an
  empty chunk at the same or an earlier ledger again and again.
\<close>

theorem reindexRange_diverges:
  assumes "batchSize (d_cfg d) \<le> 0" "fromLedger \<le> toLedger"
  shows "reindexRange d env fuel fromLedger toLedger st = (Inl NotReturning, st)"
proof -
  have "reindex_loop d env fuel current toLedger acc st = (Inl NotReturning, st)" if "current \<le> toLedger" for current acc
    using that
  proof (induction fuel arbitrary: current acc)
    case (Suc fuel)
    obtain a b c where acc: "acc = (a, b, c)" by (cases acc)
    let ?e = "min (current + batchSize (d_cfg d) - 1) toLedger"
    have "?e < current" "?e + 1 \<le> toLedger" using assms(1) Suc.prems by auto
    with Suc show ?case unfolding acc by (simp add: Let_def processChunk_def bind_act_def ret_def)
  qed (simp add: throw_def)
  with assms(2) show ?thesis by (simp add: reindexRange_def)
qed

theorem reindexRange_diverges_witness:
  "reindexRange (demo_deps\<lparr>d_cfg := (d_cfg demo_deps)\<lparr>batchSize := 0\<rparr>\<rparr>) (demo_poll []) 1000 1 9 demo_indexer
     = (Inl NotReturning, demo_indexer)"
  by (rule reindexRange_diverges) simp_all

subsection \<open>A single poll loop\<close>

text \<open>
  Runs of the timers. \<open>stop\<close> resolves once the poll in flight has settled, so a caller that
  awaits it before calling \<open>start\<close> again starts only with no poll in flight.
\<close>

inductive loop_step :: "loop_state \<Rightarrow> loop_state \<Rightarrow> bool" where
  start: "ls_running s \<or> ls_polls s = 0 \<Longrightarrow> loop_step s (start_loop s)"
| stop: "loop_step s (stop_loop s)"
| settle: "loop_step s (poll_settles s)"
| fire: "loop_step s (timeout_fires t s)"

inductive_cases loop_stepE: "loop_step s s'"

definition idle_loop :: loop_state where
  "idle_loop = \<lparr>ls_running = False, ls_polls = 0, ls_timeouts = [], ls_pollTimeout = None, ls_next = 0\<rparr>"

text \<open>Either nothing is pending, or one poll is in flight, or one timeout known to \<open>stop\<close> is.\<close>

definition single_loop :: "loop_state \<Rightarrow> bool" where
  "single_loop s \<longleftrightarrow>
     (ls_timeouts s = [] \<and> ls_polls s \<le> 1 \<and> (ls_running s \<longrightarrow> ls_polls s = 1))
     \<or> (ls_running s \<and> ls_polls s = 0 \<and> (\<exists>t. ls_timeouts s = [t] \<and> ls_pollTimeout s = Some t))"

lemma loop_step_single: "loop_step s s' \<Longrightarrow> single_loop s \<Longrightarrow> single_loop s'"
  by (erule loop_stepE)
    (auto simp: single_loop_def start_loop_def stop_loop_def poll_settles_def scheduleNextPoll_def timeout_fires_def
      split: option.splits)

text \<open>
  There is one poll loop: as long as \<open>start\<close> is only called with no poll in flight (or while
  running, when it does nothing), at most one poll or timeout is ever pending, a running indexer
  always has exactly one of them, so polling never dies out, and after \<open>stop\<close> no timeout is left.
\<close>

theorem single_poll_loop:
  assumes "loop_step\<^sup>*\<^sup>* idle_loop s"
  shows "ls_polls s + length (ls_timeouts s) \<le> 1
     \<and> (ls_running s \<longrightarrow> ls_polls s + length (ls_timeouts s) = 1) \<and> ls_timeouts (stop_loop s) = []"
proof -
  have "single_loop s" using assms
  proof (induction rule: rtranclp_induct)
    case (step s s')
    then show ?case using loop_step_single by blast
  qed (simp add: single_loop_def idle_loop_def)
  then show ?thesis by (auto simp: single_loop_def stop_loop_def split: option.splits)
qed

theorem single_poll_loop_witness:
  "ls_polls (timeout_fires 0 (poll_settles (start_loop idle_loop))) = 1"
proof -
  let ?a = "start_loop idle_loop" let ?b = "poll_settles ?a" let ?c = "timeout_fires 0 ?b"
  have "loop_step idle_loop ?a" by (rule loop_step.start) (simp add: idle_loop_def)
  moreover have "loop_step ?a ?b" by (rule loop_step.settle)
  moreover have "loop_step ?b ?c" by (rule loop_step.fire)
  ultimately have "loop_step\<^sup>*\<^sup>* idle_loop ?c" by (meson converse_rtranclp_into_rtranclp rtranclp.rtrancl_refl)
  from single_poll_loop [OF this] show ?thesis
    by (simp add: idle_loop_def start_loop_def poll_settles_def scheduleNextPoll_def timeout_fires_def)
qed

text \<open>
  A restart during a poll doubles the loop: when \<open>start\<close> is called after \<open>stop\<close> while a poll is
  still in flight, a second poll runs beside it, and once both have settled two timeouts are
  pending of which \<open>stop\<close> clears only the younger.
\<close>

theorem restart_during_poll_doubles_loop:
  "let s = start_loop (stop_loop (start_loop idle_loop)); s' = poll_settles (poll_settles s)
   in ls_polls s = 2 \<and> length (ls_timeouts s') = 2 \<and> length (ls_timeouts (stop_loop s')) = 1"
  by (simp add: idle_loop_def start_loop_def stop_loop_def poll_settles_def scheduleNextPoll_def)

subsection \<open>Configuration\<close>

lemma set_unique_ids [simp]: "set (unique_ids xs) = set xs"
  by (induction xs) auto

lemma distinct_unique_ids: "distinct (unique_ids xs)"
  by (induction xs) auto

lemma env_threshold_pos: "0 < fallback \<Longrightarrow> 0 < env_threshold v dflt fallback"
  by (simp add: env_threshold_def split: option.splits)

lemma depth_from_env_nonneg: "0 \<le> fallback \<Longrightarrow> 0 \<le> depth_from_env v fallback"
  by (simp add: depth_from_env_def split: option.splits)

text \<open>
  C31. Every indexer that is constructed from a configuration is well formed: it has at least one
  contract, no contract twice and none with an empty id, exactly the configured ones; its alert
  thresholds are positive; its finality depth, unless given explicitly, is not negative; and the
  contract its position and checkpoints are kept under is one of the configured ones.
\<close>

theorem new_from_config_wf:
  assumes "new_from_config env cfg = Inr c"
  shows "contractIds c \<noteq> [] \<and> distinct (contractIds c) \<and> [] \<notin> set (contractIds c)
     \<and> set (contractIds c) = (set (case cfg_contractConfigs cfg of None \<Rightarrow> [] | Some ids \<Rightarrow> ids)
          \<union> set (case cfg_contractIds cfg of None \<Rightarrow> [] | Some ids \<Rightarrow> ids) \<union> set_option (cfg_contractId cfg)) - {[]}
     \<and> 0 < lagAlertThreshold c \<and> 0 < quarantineThreshold c
     \<and> (cfg_finalityDepth cfg = None \<longrightarrow> 0 \<le> finalityDepth c) \<and> getContractId c \<in> set (contractIds c)"
proof -
  let ?ids = "filter (\<lambda>c. c \<noteq> []) ((case cfg_contractConfigs cfg of None \<Rightarrow> [] | Some ids \<Rightarrow> ids)
      @ (case cfg_contractIds cfg of None \<Rightarrow> [] | Some ids \<Rightarrow> ids)
      @ (case cfg_contractId cfg of None \<Rightarrow> [] | Some c \<Rightarrow> [c]))"
  have c: "?ids \<noteq> []" "contractIds c = unique_ids ?ids"
    "lagAlertThreshold c = env_threshold (INDEXER_LAG_ALERT_THRESHOLD env) ''100'' 100"
    "quarantineThreshold c = env_threshold (QUARANTINE_ALERT_THRESHOLD env) ''25'' 25"
    "cfg_finalityDepth cfg = None \<longrightarrow> finalityDepth c = depth_from_env (INDEXER_FINALITY_DEPTH env) 0"
    using assms by (auto simp: new_from_config_def Let_def split: if_splits)
  have ids: "set (contractIds c) = set ?ids" "distinct (contractIds c)"
    by (simp_all only: c(2) set_unique_ids distinct_unique_ids)
  then have ne: "contractIds c \<noteq> []" using c(1) by (metis set_empty)
  have "set ?ids = (set (case cfg_contractConfigs cfg of None \<Rightarrow> [] | Some ids \<Rightarrow> ids)
      \<union> set (case cfg_contractIds cfg of None \<Rightarrow> [] | Some ids \<Rightarrow> ids) \<union> set_option (cfg_contractId cfg)) - {[]}"
    by (auto split: option.splits)
  moreover have "getContractId c \<in> set (contractIds c)" using ne by (simp add: getContractId_def split: list.splits)
  ultimately show ?thesis using ids ne c(3-5) by (simp add: env_threshold_pos depth_from_env_nonneg)
qed

theorem new_from_config_wf_witness:
  "\<exists>c. new_from_config \<lparr>QUARANTINE_ALERT_THRESHOLD = None, INDEXER_LAG_ALERT_THRESHOLD = None, INDEXER_FINALITY_DEPTH = None\<rparr>
       \<lparr>cfg_contractId = Some ''B'', cfg_contractIds = Some [''A'', [], ''B''], cfg_contractConfigs = None,
        cfg_pollIntervalMs = None, cfg_batchSize = None, cfg_finalityDepth = None\<rparr> = Inr c
     \<and> set (contractIds c) = {''A'', ''B''} \<and> distinct (contractIds c)"
proof -
  let ?env = "\<lparr>QUARANTINE_ALERT_THRESHOLD = None, INDEXER_LAG_ALERT_THRESHOLD = None, INDEXER_FINALITY_DEPTH = None\<rparr>"
  let ?cfg = "\<lparr>cfg_contractId = Some ''B'', cfg_contractIds = Some [''A'', [], ''B''], cfg_contractConfigs = None,
        cfg_pollIntervalMs = None, cfg_batchSize = None, cfg_finalityDepth = None\<rparr>"
  obtain c where c: "new_from_config ?env ?cfg = Inr c" by (simp add: new_from_config_def Let_def)
  from new_from_config_wf [OF this] have "set (contractIds c) = {''A'', ''B''}" "distinct (contractIds c)" by auto
  with c show ?thesis by blast
qed

end
