(* ===== verification/PauseGuard.thy ===== *)
theory PauseGuard
  imports Cache Db JsDate
begin

section \<open>The pause guard (\<open>backend/src/middleware/pauseGuard.ts\<close>)\<close>

text \<open>
  The global pause state of one process, its row in the database and its mirror in Redis. Every
  operation is given twice: as a whole (\<open>updatePauseStateFromDatabase\<close>, \<open>setPauseState\<close>), for runs
  without overlap, and cut at its awaits (\<open>pause_advance\<close>), for interleaved runs. The database may
  fail any query; \<open>pz_array\<close> is its cast of a text parameter to the \<open>TEXT[]\<close> column. Reading a date
  text back is the parameter \<open>pz_parseDate\<close>. A Redis call that times out is one whose answer is
  lost. Log lines and gauges are left out, the alert is kept.
\<close>

subsection \<open>State\<close>

datatype PauseStateSource = Database | CacheMirror | Memory | FailClosed | Unloaded

definition PAUSE_STATE_CACHE_KEY :: string where
  "PAUSE_STATE_CACHE_KEY = ''pause_state:global''"

definition PAUSE_STATE_CACHE_TTL_SECONDS :: int where
  "PAUSE_STATE_CACHE_TTL_SECONDS = 7 * 24 * 60 * 60"

definition UNVERIFIED_REASON :: string where
  "UNVERIFIED_REASON = ''Pause state could not be verified (database unavailable)''"

record PauseState =
  isPaused :: bool
  pausedAt :: "int option"
  reason :: "string option"
  contracts :: "string list"
  source :: PauseStateSource
  verifiedAt :: "int option"

definition initial_pause_state :: PauseState where
  "initial_pause_state =
     \<lparr>isPaused = False, pausedAt = None, reason = None, contracts = [], source = Unloaded, verifiedAt = None\<rparr>"

record pause_row =
  row_is_paused :: bool
  row_paused_at :: "int option"
  row_reason :: "string option"
  row_contracts :: "string list"

text \<open>The module's variables, the table's row, and the cache service.\<close>

record 's pause_sys =
  globalPauseState :: PauseState
  pendingPause :: "(string option \<times> string list) option"
  alertedSource :: "PauseStateSource option"
  raisedAlerts :: "PauseStateSource list"
  pause_table :: "pause_row option"
  pause_cache :: "'s cache_service"

record pause_env =
  pz_now :: int
  pz_read_fault :: "db_error option"
  pz_write_fault :: "db_error option"
  pz_array :: "string \<Rightarrow> db_error + string list"
  pz_parseDate :: "string \<Rightarrow> int option"
  pz_cache_timeout :: bool

definition real_source :: "PauseStateSource \<Rightarrow> bool" where
  "real_source s \<longleftrightarrow> s = Database \<or> s = CacheMirror \<or> s = Memory"

subsection \<open>Applying a state and its mirror\<close>

definition raiseFallbackAlert :: "PauseStateSource \<Rightarrow> 's pause_sys \<Rightarrow> 's pause_sys" where
  "raiseFallbackAlert src sys =
     (if alertedSource sys = Some src then sys
      else sys\<lparr>alertedSource := Some src, raisedAlerts := raisedAlerts sys @ [src]\<rparr>)"

definition applyState :: "pause_env \<Rightarrow> PauseState \<Rightarrow> 's pause_sys \<Rightarrow> 's pause_sys" where
  "applyState env next_state sys =
     (let sys1 = sys\<lparr>globalPauseState := next_state\<lparr>verifiedAt := Some (pz_now env)\<rparr>\<rparr> in
      if source next_state = Database then sys1\<lparr>alertedSource := None\<rparr>
      else raiseFallbackAlert (source next_state) sys1)"

definition cached_json :: "pause_env \<Rightarrow> PauseState \<Rightarrow> json" where
  "cached_json env st =
     JObj [(''isPaused'', JBool (isPaused st)),
           (''pausedAt'', json_opt (\<lambda>t. JStr (toISOString t)) (pausedAt st)),
           (''reason'', json_opt JStr (reason st)),
           (''contracts'', JArr (map JStr (contracts st))),
           (''cachedAt'', JStr (toISOString (pz_now env)))]"

definition mirror_json :: "'s redis \<Rightarrow> json \<Rightarrow> 's pause_sys \<Rightarrow> 's pause_sys" where
  "mirror_json r j sys =
     sys\<lparr>pause_cache := cache_set r PAUSE_STATE_CACHE_KEY j PAUSE_STATE_CACHE_TTL_SECONDS (pause_cache sys)\<rparr>"

definition mirrorToCache :: "'s redis \<Rightarrow> pause_env \<Rightarrow> 's pause_sys \<Rightarrow> 's pause_sys" where
  "mirrorToCache r env sys = mirror_json r (cached_json env (globalPauseState sys)) sys"

text \<open>A cached entry counts when its \<open>isPaused\<close> is a boolean; other members are read as strings.\<close>

definition json_strings :: "json option \<Rightarrow> string list" where
  "json_strings j =
     (case j of Some (JArr vs) \<Rightarrow> List.map_filter (\<lambda>v. case v of JStr s \<Rightarrow> Some s | _ \<Rightarrow> None) vs | _ \<Rightarrow> [])"

definition cached_state :: "pause_env \<Rightarrow> json \<Rightarrow> PauseState option" where
  "cached_state env j =
     (case json_get ''isPaused'' j of
        Some (JBool b) \<Rightarrow>
          Some \<lparr>isPaused = b,
                pausedAt = (case json_get ''pausedAt'' j of
                    Some (JStr t) \<Rightarrow> if t = [] then None else pz_parseDate env t | _ \<Rightarrow> None),
                reason = (case json_get ''reason'' j of Some (JStr t) \<Rightarrow> Some t | _ \<Rightarrow> None),
                contracts = json_strings (json_get ''contracts'' j),
                source = CacheMirror, verifiedAt = None\<rparr>
      | _ \<Rightarrow> None)"

definition readFromCache :: "'s redis \<Rightarrow> pause_env \<Rightarrow> 's pause_sys \<Rightarrow> PauseState option \<times> 's pause_sys" where
  "readFromCache r env sys =
     (case cache_get r PAUSE_STATE_CACHE_KEY (pause_cache sys) of
        (j, c) \<Rightarrow> (if pz_cache_timeout env then None else cached_state env j, sys\<lparr>pause_cache := c\<rparr>))"

subsection \<open>Falling back\<close>

definition fallback_state :: "PauseState \<Rightarrow> PauseState option \<Rightarrow> PauseState" where
  "fallback_state known cached =
     (case cached of
        Some c \<Rightarrow>
          if isPaused known \<and> \<not> isPaused c \<and> real_source (source known) then known\<lparr>source := Memory\<rparr>
          else c
      | None \<Rightarrow>
          if real_source (source known) then known\<lparr>source := Memory\<rparr>
          else known\<lparr>isPaused := True, reason := Some UNVERIFIED_REASON, source := FailClosed\<rparr>)"

definition fallBackFromDatabase :: "'s redis \<Rightarrow> pause_env \<Rightarrow> 's pause_sys \<Rightarrow> 's pause_sys" where
  "fallBackFromDatabase r env sys =
     (case readFromCache r env sys of
        (cached, sys1) \<Rightarrow> applyState env (fallback_state (globalPauseState sys) cached) sys1)"

subsection \<open>Writing and refreshing\<close>

definition or_null :: "string option \<Rightarrow> string option" where
  "or_null v = (if v = Some [] then None else v)"

definition write_pause_row ::
  "pause_env \<Rightarrow> bool \<Rightarrow> int option \<Rightarrow> string option \<Rightarrow> string list \<Rightarrow> db_error + pause_row" where
  "write_pause_row env paused now why cs =
     (case pz_write_fault env of
        Some e \<Rightarrow> Inl e
      | None \<Rightarrow>
          (case pz_array env (stringify (JArr (map JStr cs))) of
             Inl e \<Rightarrow> Inl e
           | Inr stored \<Rightarrow> Inr \<lparr>row_is_paused = paused, row_paused_at = now, row_reason = or_null why, row_contracts = stored\<rparr>))"

text \<open>What happens in memory once the statement has succeeded or failed.\<close>

definition set_succeeded ::
  "pause_env \<Rightarrow> bool \<Rightarrow> int option \<Rightarrow> string list \<Rightarrow> string option \<Rightarrow> 's pause_sys \<Rightarrow> 's pause_sys" where
  "set_succeeded env paused now cs why sys =
     applyState env \<lparr>isPaused = paused, pausedAt = now, reason = or_null why, contracts = cs, source = Database,
                     verifiedAt = None\<rparr> (sys\<lparr>pendingPause := None\<rparr>)"

definition set_failed ::
  "pause_env \<Rightarrow> string list \<Rightarrow> string option \<Rightarrow> 's pause_sys \<Rightarrow> 's pause_sys" where
  "set_failed env cs why sys =
     applyState env \<lparr>isPaused = True, pausedAt = Some (pz_now env), reason = or_null why, contracts = cs, source = Memory,
                     verifiedAt = None\<rparr> (sys\<lparr>pendingPause := Some (or_null why, cs)\<rparr>)"

definition setPauseState ::
  "'s redis \<Rightarrow> pause_env \<Rightarrow> bool \<Rightarrow> string list \<Rightarrow> string option \<Rightarrow> 's pause_sys \<Rightarrow> (db_error + unit) \<times> 's pause_sys" where
  "setPauseState r env paused cs why sys =
     (let now = (if paused then Some (pz_now env) else None) in
      case write_pause_row env paused now why cs of
        Inr row \<Rightarrow> (Inr (), mirrorToCache r env (set_succeeded env paused now cs why (sys\<lparr>pause_table := Some row\<rparr>)))
      | Inl e \<Rightarrow>
          (Inl e, if paused then mirrorToCache r env (set_failed env cs why sys) else sys))"

definition row_state :: "pause_row option \<Rightarrow> PauseState" where
  "row_state stored =
     (case stored of
        Some row \<Rightarrow> \<lparr>isPaused = row_is_paused row, pausedAt = row_paused_at row, reason = row_reason row,
                     contracts = row_contracts row, source = Database, verifiedAt = None\<rparr>
      | None \<Rightarrow> \<lparr>isPaused = False, pausedAt = None, reason = None, contracts = [], source = Database, verifiedAt = None\<rparr>)"

definition stored_paused :: "pause_row option \<Rightarrow> bool" where
  "stored_paused stored \<longleftrightarrow> (case stored of Some row \<Rightarrow> row_is_paused row | None \<Rightarrow> False)"

definition updatePauseStateFromDatabase :: "'s redis \<Rightarrow> pause_env \<Rightarrow> 's pause_sys \<Rightarrow> 's pause_sys" where
  "updatePauseStateFromDatabase r env sys =
     (case pz_read_fault env of
        Some e \<Rightarrow> fallBackFromDatabase r env sys
      | None \<Rightarrow>
          (case pendingPause sys of
             Some (why, cs) \<Rightarrow>
               if \<not> stored_paused (pause_table sys) then snd (setPauseState r env True cs why sys)
               else mirrorToCache r env (applyState env (row_state (pause_table sys)) (sys\<lparr>pendingPause := None\<rparr>))
           | None \<Rightarrow> mirrorToCache r env (applyState env (row_state (pause_table sys)) (sys\<lparr>pendingPause := None\<rparr>))))"

subsection \<open>The middleware and the other entry points\<close>

definition READ_METHODS :: "string list" where
  "READ_METHODS = [''GET'', ''HEAD'', ''OPTIONS'']"

text \<open>\<open>None\<close>: the request goes on; \<open>Some message\<close>: it is answered with 503.\<close>

definition pauseGuard :: "string \<Rightarrow> 's pause_sys \<Rightarrow> string option" where
  "pauseGuard req_method sys =
     (if req_method \<in> set READ_METHODS then None
      else if isPaused (globalPauseState sys) then
        Some (''Contract operations are temporarily paused. Reason: ''
          @ (case reason (globalPauseState sys) of
               None \<Rightarrow> ''Maintenance or security measure''
             | Some w \<Rightarrow> if w = [] then ''Maintenance or security measure'' else w)
          @ ''. Affected contracts: '' @ join_with '', '' (contracts (globalPauseState sys)))
      else None)"

definition getPauseState :: "'s redis \<Rightarrow> pause_env \<Rightarrow> 's pause_sys \<Rightarrow> (PauseState \<times> bool) \<times> 's pause_sys" where
  "getPauseState r env sys =
     (let sys1 = updatePauseStateFromDatabase r env sys in
      ((globalPauseState sys1, source (globalPauseState sys1) \<noteq> Database), sys1))"

text \<open>Start-up: create the table and its row, then load; \<open>fault k\<close> is the error of statement \<open>k\<close>.\<close>

definition initializePauseState ::
  "'s redis \<Rightarrow> pause_env \<Rightarrow> (nat \<Rightarrow> db_error option) \<Rightarrow> 's pause_sys \<Rightarrow> (db_error + unit) \<times> 's pause_sys" where
  "initializePauseState r env fault sys =
     (case fault 0 of
        Some e \<Rightarrow> (Inl e, sys)
      | None \<Rightarrow>
          (case fault 1 of
             Some e \<Rightarrow> (Inl e, sys)
           | None \<Rightarrow>
               let row = (case pause_table sys of
                     Some row \<Rightarrow> row
                   | None \<Rightarrow> \<lparr>row_is_paused = False, row_paused_at = None, row_reason = None, row_contracts = []\<rparr>)
               in (Inr (), updatePauseStateFromDatabase r env (sys\<lparr>pause_table := Some row\<rparr>))))"

definition getPauseGuardHealth :: "'s pause_sys \<Rightarrow> string" where
  "getPauseGuardHealth sys =
     (if source (globalPauseState sys) = Database then ''ok''
      else if source (globalPauseState sys) = Unloaded then ''unknown'' else ''degraded'')"

text \<open>The refresh timer: the intervals that are running, by number, and the one the module knows.\<close>

record refresh_timers =
  live_timers :: "nat list"
  refreshTimer :: "nat option"
  next_timer :: nat

definition stopPauseStateRefresh :: "refresh_timers \<Rightarrow> refresh_timers" where
  "stopPauseStateRefresh t =
     (case refreshTimer t of
        None \<Rightarrow> t
      | Some i \<Rightarrow> t\<lparr>live_timers := remove1 i (live_timers t), refreshTimer := None\<rparr>)"

definition startPauseStateRefresh :: "int option \<Rightarrow> refresh_timers \<Rightarrow> refresh_timers" where
  "startPauseStateRefresh intervalMs t =
     (let t1 = stopPauseStateRefresh t in
      case intervalMs of
        Some ms \<Rightarrow>
          if 0 < ms then t1\<lparr>live_timers := live_timers t1 @ [next_timer t1], refreshTimer := Some (next_timer t1),
                            next_timer := next_timer t1 + 1\<rparr>
          else t1
      | None \<Rightarrow> t1)"

subsection \<open>The same operations, cut at their awaits\<close>

datatype pause_task =
    RefreshAsked
  | RefreshAnswered "db_error + pause_row option"
  | FallingBack PauseState
  | FallbackRead PauseState "PauseState option"
  | SetAsked bool "string list" "string option"
  | SetAnswered bool "int option" "string list" "string option" "db_error + unit"
  | Mirroring json
  | TaskDone

fun pause_advance :: "'s redis \<Rightarrow> pause_env \<Rightarrow> pause_task \<Rightarrow> 's pause_sys \<Rightarrow> pause_task \<times> 's pause_sys" where
  "pause_advance r env RefreshAsked sys =
     (RefreshAnswered (case pz_read_fault env of Some e \<Rightarrow> Inl e | None \<Rightarrow> Inr (pause_table sys)), sys)"
| "pause_advance r env (RefreshAnswered (Inl e)) sys = (FallingBack (globalPauseState sys), sys)"
| "pause_advance r env (RefreshAnswered (Inr stored)) sys =
     (case pendingPause sys of
        Some (why, cs) \<Rightarrow>
          if \<not> stored_paused stored then (SetAsked True cs why, sys)
          else (let sys1 = applyState env (row_state stored) (sys\<lparr>pendingPause := None\<rparr>)
                in (Mirroring (cached_json env (globalPauseState sys1)), sys1))
      | None \<Rightarrow> (let sys1 = applyState env (row_state stored) (sys\<lparr>pendingPause := None\<rparr>)
                 in (Mirroring (cached_json env (globalPauseState sys1)), sys1)))"
| "pause_advance r env (FallingBack known) sys =
     (case readFromCache r env sys of (cached, sys1) \<Rightarrow> (FallbackRead known cached, sys1))"
| "pause_advance r env (FallbackRead known cached) sys = (TaskDone, applyState env (fallback_state known cached) sys)"
| "pause_advance r env (SetAsked paused cs why) sys =
     (let now = (if paused then Some (pz_now env) else None) in
      case write_pause_row env paused now why cs of
        Inr row \<Rightarrow> (SetAnswered paused now cs why (Inr ()), sys\<lparr>pause_table := Some row\<rparr>)
      | Inl e \<Rightarrow> (SetAnswered paused now cs why (Inl e), sys))"
| "pause_advance r env (SetAnswered paused now cs why (Inr u)) sys =
     (let sys1 = set_succeeded env paused now cs why sys in (Mirroring (cached_json env (globalPauseState sys1)), sys1))"
| "pause_advance r env (SetAnswered paused now cs why (Inl e)) sys =
     (if paused
      then (let sys1 = set_failed env cs why sys in (Mirroring (cached_json env (globalPauseState sys1)), sys1))
      else (TaskDone, sys))"
| "pause_advance r env (Mirroring j) sys = (TaskDone, mirror_json r j sys)"
| "pause_advance r env TaskDone sys = (TaskDone, sys)"

fun run_alone :: "'s redis \<Rightarrow> pause_env \<Rightarrow> nat \<Rightarrow> pause_task \<Rightarrow> 's pause_sys \<Rightarrow> pause_task \<times> 's pause_sys" where
  "run_alone r env 0 task sys = (task, sys)"
| "run_alone r env (Suc n) task sys = (case pause_advance r env task sys of (task1, sys1) \<Rightarrow> run_alone r env n task1 sys1)"

text \<open>The tasks of one process, interleaved; each step is taken under its own environment.\<close>

inductive pause_step :: "'s redis \<Rightarrow> pause_task list \<times> 's pause_sys \<Rightarrow> pause_task list \<times> 's pause_sys \<Rightarrow> bool" for r where
  refresh: "pause_step r (ts, sys) (ts @ [RefreshAsked], sys)"
| set_pause: "pause_step r (ts, sys) (ts @ [SetAsked paused cs why], sys)"
| advance_task: "i < length ts \<Longrightarrow> pause_advance r env (ts ! i) sys = (t, sys') \<Longrightarrow>
     pause_step r (ts, sys) (ts[i := t], sys')"

lemma run_alone_split: "run_alone r env (Suc n) task sys =
    run_alone r env n (fst (pause_advance r env task sys)) (snd (pause_advance r env task sys))"
  by (simp add: case_prod_beta)

subsection \<open>A pause is never lifted by an outage\<close>

lemma applyState_sel [simp]:
  "globalPauseState (applyState env st sys) = st\<lparr>verifiedAt := Some (pz_now env)\<rparr>"
  "pendingPause (applyState env st sys) = pendingPause sys"
  "pause_table (applyState env st sys) = pause_table sys"
  "pause_cache (applyState env st sys) = pause_cache sys"
  by (simp_all add: applyState_def raiseFallbackAlert_def Let_def)

lemma mirror_sel [simp]:
  "globalPauseState (mirrorToCache r env sys) = globalPauseState sys"
  "pendingPause (mirrorToCache r env sys) = pendingPause sys"
  "pause_table (mirrorToCache r env sys) = pause_table sys"
  by (simp_all add: mirrorToCache_def mirror_json_def)

lemma readFromCache_sel:
  "readFromCache r env sys = (cached, sys1) \<Longrightarrow>
     globalPauseState sys1 = globalPauseState sys \<and> pendingPause sys1 = pendingPause sys
     \<and> pause_table sys1 = pause_table sys"
  by (auto simp: readFromCache_def split: prod.splits)

lemma fallback_sel:
  "pendingPause (fallBackFromDatabase r env sys) = pendingPause sys"
  "pause_table (fallBackFromDatabase r env sys) = pause_table sys"
  "\<exists>cached. globalPauseState (fallBackFromDatabase r env sys)
     = (fallback_state (globalPauseState sys) cached)\<lparr>verifiedAt := Some (pz_now env)\<rparr>"
  by (cases "readFromCache r env sys"; auto simp: fallBackFromDatabase_def dest: readFromCache_sel)+

lemma fallback_keeps_pause:
  "isPaused known \<Longrightarrow> real_source (source known) \<Longrightarrow> isPaused (fallback_state known cached)"
  by (auto simp: fallback_state_def split: option.splits)

text \<open>A pause the database does not have yet is enforced.\<close>

definition pending_enforced :: "'s pause_sys \<Rightarrow> bool" where
  "pending_enforced sys \<longleftrightarrow>
     (pendingPause sys \<noteq> None \<longrightarrow> isPaused (globalPauseState sys) \<and> real_source (source (globalPauseState sys)))"

lemma set_sel:
  "globalPauseState (set_succeeded env p now cs why sys) =
     \<lparr>isPaused = p, pausedAt = now, reason = or_null why, contracts = cs, source = Database, verifiedAt = Some (pz_now env)\<rparr>"
  "pendingPause (set_succeeded env p now cs why sys) = None"
  "globalPauseState (set_failed env cs why sys) =
     \<lparr>isPaused = True, pausedAt = Some (pz_now env), reason = or_null why, contracts = cs, source = Memory,
      verifiedAt = Some (pz_now env)\<rparr>"
  "pendingPause (set_failed env cs why sys) = Some (or_null why, cs)"
  "pause_table (set_failed env cs why sys) = pause_table sys"
  "pause_table (set_succeeded env p now cs why sys) = pause_table sys"
  by (simp_all add: set_succeeded_def set_failed_def)

lemma set_enforced: "pending_enforced sys \<Longrightarrow> pending_enforced (snd (setPauseState r env p cs why sys))"
  by (cases "write_pause_row env p (if p then Some (pz_now env) else None) why cs")
    (auto simp: setPauseState_def Let_def pending_enforced_def set_sel real_source_def)

lemma cached_state_source: "cached_state env j = Some c \<Longrightarrow> source c = CacheMirror"
  by (auto simp: cached_state_def split: option.splits json.splits)

lemma readFromCache_source: "fst (readFromCache r env sys) = Some c \<Longrightarrow> source c = CacheMirror"
  by (auto simp: readFromCache_def split: prod.splits if_splits dest: cached_state_source)

lemma fallback_enforced:
  assumes "pending_enforced sys"
  shows "pending_enforced (fallBackFromDatabase r env sys)"
proof -
  obtain cached sys1 where rd: "readFromCache r env sys = (cached, sys1)" by (cases "readFromCache r env sys")
  have "real_source (source (fallback_state (globalPauseState sys) cached))" if "real_source (source (globalPauseState sys))"
    using that readFromCache_source [of r env sys] rd
    by (auto simp: fallback_state_def real_source_def split: option.splits)
  then show ?thesis
    using assms rd readFromCache_sel [OF rd] fallback_keeps_pause [of "globalPauseState sys" cached]
    by (auto simp: pending_enforced_def fallBackFromDatabase_def)
qed

lemma refresh_enforced: "pending_enforced sys \<Longrightarrow> pending_enforced (updatePauseStateFromDatabase r env sys)"
  using fallback_enforced [of sys r env] set_enforced [of sys r env True]
  by (auto simp: updatePauseStateFromDatabase_def split: option.splits)
    (auto simp: pending_enforced_def)

text \<open>
  Processes whose operations do not overlap, from start-up on; the row and the cache may change
  at any time, by another instance, an operator or an eviction.
\<close>

inductive pause_reach :: "'s redis \<Rightarrow> 's pause_sys \<Rightarrow> bool" for r where
  boot: "globalPauseState sys = initial_pause_state \<Longrightarrow> pendingPause sys = None \<Longrightarrow> pause_reach r sys"
| refreshed: "pause_reach r sys \<Longrightarrow> pause_reach r (updatePauseStateFromDatabase r env sys)"
| written: "pause_reach r sys \<Longrightarrow> pause_reach r (snd (setPauseState r env p cs why sys))"
| external: "pause_reach r sys \<Longrightarrow> pause_reach r (sys\<lparr>pause_table := row, pause_cache := c\<rparr>)"

lemma pause_reach_enforced: "pause_reach r sys \<Longrightarrow> pending_enforced sys"
proof (induction rule: pause_reach.induct)
  case (refreshed sys env)
  then show ?case by (intro refresh_enforced)
next
  case (written sys env p cs why)
  then show ?case by (intro set_enforced)
qed (simp_all add: pending_enforced_def)

lemma set_paused: "isPaused (globalPauseState (snd (setPauseState r env True cs why sys)))"
  by (cases "write_pause_row env True (Some (pz_now env)) why cs") (simp_all add: setPauseState_def Let_def set_sel)

text \<open>
  The tasks that may lift a pause when they resume: a refresh with the answer it read, an accepted write that was asked to, and a
  fallback that started from a state other than a verified pause.
\<close>

fun may_lift :: "'s pause_sys \<Rightarrow> pause_task \<Rightarrow> bool" where
  "may_lift sys (RefreshAnswered (Inr stored)) \<longleftrightarrow> \<not> stored_paused stored \<and> pendingPause sys = None"
| "may_lift sys (SetAnswered paused now cs why (Inr u)) \<longleftrightarrow> \<not> paused"
| "may_lift sys (FallbackRead known cached) \<longleftrightarrow> \<not> (isPaused known \<and> real_source (source known))"
| "may_lift sys _ \<longleftrightarrow> False"

lemma advance_lifts:
  assumes "pause_advance r env t sys = (t', sys')" "isPaused (globalPauseState sys)" "\<not> isPaused (globalPauseState sys')"
  shows "may_lift sys t"
  using assms
proof (cases "(sys, t)" rule: may_lift.cases)
  case (1 s stored)
  then show ?thesis using assms
    by (cases stored) (auto simp: Let_def row_state_def stored_paused_def split: option.splits if_splits)
next
  case (3 s known cached)
  then show ?thesis using assms fallback_keeps_pause [of known cached] by auto
qed (auto simp: Let_def set_sel mirror_json_def dest: readFromCache_sel split: prod.splits sum.splits if_splits)

text \<open>
  C17. A verified pause is lifted only on the authority of the database. Of operations that run one at a time, a refresh lifts it
  only when the row could be read, says so, and no pause is waiting to be saved; \<open>setPauseState\<close> lifts it only when it was
  asked to and its write was accepted. When operations overlap at their awaits, a step that lifts it belongs to a refresh that read
  a row saying so, perhaps before the pause, while no pause waits to be saved; to an accepted write that was asked to; or to a
  fallback that had started before the pause was known.
\<close>

theorem pause_lifted_only_by_database:
  assumes "isPaused (globalPauseState sys)" "real_source (source (globalPauseState sys))"
  shows "(\<not> isPaused (globalPauseState (updatePauseStateFromDatabase r env sys)) \<longrightarrow>
        pz_read_fault env = None \<and> pendingPause sys = None \<and> \<not> stored_paused (pause_table sys))
    \<and> (\<not> isPaused (globalPauseState (snd (setPauseState r env paused cs why sys))) \<longrightarrow>
        \<not> paused \<and> fst (setPauseState r env paused cs why sys) = Inr ())
    \<and> (\<forall>ts ts' sys'. pause_step r (ts, sys) (ts', sys') \<and> \<not> isPaused (globalPauseState sys') \<longrightarrow> (\<exists>t\<in>set ts. may_lift sys t))"
proof (rule conjI [OF _ conjI]; (rule impI | (rule allI)+, rule impI))
  assume lifted: "\<not> isPaused (globalPauseState (updatePauseStateFromDatabase r env sys))"
  have read: "pz_read_fault env = None"
  proof (rule ccontr)
    assume "pz_read_fault env \<noteq> None"
    then have "isPaused (globalPauseState (updatePauseStateFromDatabase r env sys))"
      using fallback_sel(3) [of r env sys] fallback_keeps_pause [OF assms]
      by (auto simp: updatePauseStateFromDatabase_def)
    with lifted show False by simp
  qed
  with lifted have pend: "pendingPause sys = None"
    using set_paused [of r env] by (auto simp: updatePauseStateFromDatabase_def row_state_def stored_paused_def
        split: option.splits if_splits)
  from read pend lifted show "pz_read_fault env = None \<and> pendingPause sys = None \<and> \<not> stored_paused (pause_table sys)"
    by (auto simp: updatePauseStateFromDatabase_def row_state_def stored_paused_def split: option.splits)
next
  assume "\<not> isPaused (globalPauseState (snd (setPauseState r env paused cs why sys)))"
  then show "\<not> paused \<and> fst (setPauseState r env paused cs why sys) = Inr ()"
    using assms(1) set_paused [of r env cs why sys]
    by (cases paused) (auto simp: setPauseState_def Let_def split: sum.splits)
next
  fix ts ts' sys' assume "pause_step r (ts, sys) (ts', sys') \<and> \<not> isPaused (globalPauseState sys')"
  then obtain i env t where "i < length ts" "pause_advance r env (ts ! i) sys = (t, sys')" "\<not> isPaused (globalPauseState sys')"
    using assms(1) by (auto elim!: pause_step.cases)
  then show "\<exists>t\<in>set ts. may_lift sys t" using advance_lifts [OF _ assms(1)] nth_mem by blast
qed

text \<open>
  Fail closed: when the row cannot be read and the process never learned a state, a write
  request is let through only if Redis holds a well-formed entry that says nothing is paused.
\<close>

theorem unverified_state_blocks_writes:
  assumes "pz_read_fault env \<noteq> None" "\<not> real_source (source (globalPauseState sys))"
    and "req_method \<notin> set READ_METHODS" "pauseGuard req_method (updatePauseStateFromDatabase r env sys) = None"
  shows "\<exists>c. fst (readFromCache r env sys) = Some c \<and> \<not> isPaused c"
proof -
  obtain cached sys1 where rd: "readFromCache r env sys = (cached, sys1)" by (cases "readFromCache r env sys")
  have "\<not> isPaused (fallback_state (globalPauseState sys) cached)"
    using assms rd by (auto simp: updatePauseStateFromDatabase_def fallBackFromDatabase_def pauseGuard_def
        split: if_splits option.splits)
  with assms(2) rd show ?thesis by (auto simp: fallback_state_def split: option.splits)
qed

text \<open>
  A pause that could not be saved is enforced and saved later: in every state a process reaches
  without overlapping operations, a pending pause blocks all write requests, and the next refresh
  that reaches a database accepting the write stores it.
\<close>

theorem unsaved_pause_enforced:
  assumes "pause_reach r sys" "pendingPause sys = Some (why, cs)"
  shows "(\<forall>req_method. req_method \<notin> set READ_METHODS \<longrightarrow> pauseGuard req_method sys \<noteq> None)
    \<and> (pz_read_fault env = None \<and> (\<exists>row. write_pause_row env True (Some (pz_now env)) why cs = Inr row) \<longrightarrow>
        stored_paused (pause_table (updatePauseStateFromDatabase r env sys))
        \<and> pendingPause (updatePauseStateFromDatabase r env sys) = None
        \<and> isPaused (globalPauseState (updatePauseStateFromDatabase r env sys)))"
proof -
  have paused: "isPaused (globalPauseState sys)"
    using pause_reach_enforced [OF assms(1)] assms(2) by (simp add: pending_enforced_def)
  have "stored_paused (pause_table sys') \<and> pendingPause sys' = None \<and> isPaused (globalPauseState sys')"
    if "pz_read_fault env = None" "write_pause_row env True (Some (pz_now env)) why cs = Inr row"
      "sys' = updatePauseStateFromDatabase r env sys" for row sys'
  proof (cases "stored_paused (pause_table sys)")
    case True
    then show ?thesis using that(1,3) assms(2)
      by (auto simp: updatePauseStateFromDatabase_def row_state_def stored_paused_def split: option.splits)
  next
    case False
    have "row_is_paused row" using that(2) by (auto simp: write_pause_row_def split: option.splits sum.splits)
    with False show ?thesis using that assms(2)
      by (simp add: updatePauseStateFromDatabase_def setPauseState_def set_sel stored_paused_def)
  qed
  with paused show ?thesis by (auto simp: pauseGuard_def)
qed

subsection \<open>Overlapping operations\<close>

lemma run_alone_done [simp]: "run_alone r env n TaskDone sys = (TaskDone, sys)"
  by (induction n) simp_all

lemma run_set_alone:
  "run_alone r env (Suc (Suc (Suc n))) (SetAsked p cs why) sys = (TaskDone, snd (setPauseState r env p cs why sys))"
  by (cases "write_pause_row env p (if p then Some (pz_now env) else None) why cs")
    (simp_all add: Let_def setPauseState_def mirrorToCache_def)

text \<open>
  Cut at its awaits and run without interruption, a refresh or an update does what the whole
  operation does.
\<close>

theorem pause_tasks_alone:
  "run_alone r env 5 RefreshAsked sys = (TaskDone, updatePauseStateFromDatabase r env sys)
   \<and> run_alone r env 3 (SetAsked p cs why) sys = (TaskDone, snd (setPauseState r env p cs why sys))"
proof -
  have five: "(5::nat) = Suc (Suc (Suc (Suc (Suc 0))))" and three: "(3::nat) = Suc (Suc (Suc 0))" by simp_all
  have "run_alone r env 5 RefreshAsked sys = (TaskDone, updatePauseStateFromDatabase r env sys)"
  proof (cases "pz_read_fault env")
    case read: None
    show ?thesis
    proof (cases "pendingPause sys")
      case None
      with read show ?thesis
        unfolding five by (simp add: updatePauseStateFromDatabase_def mirrorToCache_def Let_def)
    next
      case (Some p)
      obtain why cs where p: "p = (why, cs)" by (cases p)
      from Some p read show ?thesis
        unfolding five
        by (cases "write_pause_row env True (Some (pz_now env)) why cs")
          (simp_all add: updatePauseStateFromDatabase_def setPauseState_def mirrorToCache_def Let_def)
    qed
  next
    case (Some e)
    then show ?thesis
      unfolding five by (simp add: updatePauseStateFromDatabase_def fallBackFromDatabase_def split: prod.splits)
  qed
  then show ?thesis unfolding three by (simp only: run_set_alone)
qed

text \<open>An environment in which every query succeeds.\<close>

definition accepting :: "pause_env \<Rightarrow> bool" where
  "accepting env \<longleftrightarrow> pz_read_fault env = None \<and> pz_write_fault env = None \<and> (\<forall>t. \<exists>cs. pz_array env t = Inr cs)"

lemma accepting_write:
  "accepting env \<Longrightarrow> \<exists>row. write_pause_row env p now why cs = Inr row \<and> row_is_paused row = p"
  by (auto simp: accepting_def write_pause_row_def split: sum.splits) (metis Inl_Inr_False)

lemma pause_step_then: "pause_step r a b \<Longrightarrow> (pause_step r)\<^sup>*\<^sup>* b c \<Longrightarrow> (pause_step r)\<^sup>*\<^sup>* a c"
  by (rule converse_rtranclp_into_rtranclp)

lemma advance_last: "pause_advance r env t sys = (t', sys') \<Longrightarrow> pause_step r (ts @ [t], sys) (ts @ [t'], sys')"
  using pause_step.advance_task [where r = r and i = "length ts" and ts = "ts @ [t]" and env = env] by simp

lemma advance_first: "pause_advance r env t sys = (t', sys') \<Longrightarrow> pause_step r (t # ts, sys) (t' # ts, sys')"
  using pause_step.advance_task [where r = r and i = 0 and ts = "t # ts" and env = env] by simp

text \<open>
  A refresh that overlaps a pause can undo it: with a working database, a refresh that read the
  row just before \<open>setPauseState\<close> stored a pause resumes after it and installs the old answer, so
  write requests pass although the stored state and the caller's answer say paused.
\<close>

theorem stale_refresh_lifts_pause:
  assumes "accepting env" "pendingPause sys = None" "\<not> stored_paused (pause_table sys)"
  shows "\<exists>ts sys'. (pause_step r)\<^sup>*\<^sup>* ([], sys) (ts, sys') \<and> stored_paused (pause_table sys')
     \<and> pauseGuard ''POST'' sys' = None"
proof -
  obtain row where row: "write_pause_row env True (Some (pz_now env)) why cs = Inr row" "row_is_paused row"
    using accepting_write [OF assms(1), of True] by blast
  let ?read = "RefreshAnswered (Inr (pause_table sys))"
  let ?s1 = "sys\<lparr>pause_table := Some row\<rparr>"
  let ?s2 = "set_succeeded env True (Some (pz_now env)) cs why ?s1"
  let ?m2 = "Mirroring (cached_json env (globalPauseState ?s2))"
  let ?s3 = "applyState env (row_state (pause_table sys)) (?s2\<lparr>pendingPause := None\<rparr>)"
  let ?m3 = "Mirroring (cached_json env (globalPauseState ?s3))"
  have st1: "pause_step r ([], sys) ([RefreshAsked], sys)" using pause_step.refresh [of r "[]" sys] by simp
  have st2: "pause_step r ([RefreshAsked], sys) ([?read], sys)"
    using assms(1) by (intro advance_first [where env = env]) (simp add: accepting_def)
  have st3: "pause_step r ([?read], sys) ([?read, SetAsked True cs why], sys)"
    using pause_step.set_pause [of r "[?read]" sys] by simp
  have st4: "pause_step r ([?read, SetAsked True cs why], sys)
      ([?read, SetAnswered True (Some (pz_now env)) cs why (Inr ())], ?s1)"
    using advance_last [where ts = "[?read]" and r = r and env = env and t = "SetAsked True cs why" and sys = sys] row by simp
  have st5: "pause_step r ([?read, SetAnswered True (Some (pz_now env)) cs why (Inr ())], ?s1) ([?read, ?m2], ?s2)"
    using advance_last [where ts = "[?read]" and r = r and env = env and sys = ?s1
        and t = "SetAnswered True (Some (pz_now env)) cs why (Inr ())"] by (simp add: Let_def)
  have st6: "pause_step r ([?read, ?m2], ?s2) ([?m3, ?m2], ?s3)"
    by (intro advance_first [where env = env]) (simp add: Let_def set_sel)
  have "(pause_step r)\<^sup>*\<^sup>* ([], sys) ([?m3, ?m2], ?s3)"
    by (rule pause_step_then [OF st1], rule pause_step_then [OF st2], rule pause_step_then [OF st3],
        rule pause_step_then [OF st4], rule pause_step_then [OF st5], rule pause_step_then [OF st6],
        rule rtranclp.rtrancl_refl)
  moreover have "stored_paused (pause_table ?s3)" using row(2) by (simp add: set_sel stored_paused_def)
  moreover have "\<not> isPaused (globalPauseState ?s3)"
    using assms(3) by (simp add: row_state_def stored_paused_def split: option.splits)
  ultimately show ?thesis by (intro exI [of _ "[?m3, ?m2]"] exI [of _ ?s3]) (simp add: pauseGuard_def)
qed

subsection \<open>The pause on the migrated schema\<close>

text \<open>
  The column \<open>contracts\<close> is \<open>TEXT[]\<close>: an array literal starts with a brace, or with a bracket that
  opens a dimension and is then followed by a number. \<open>contracts\<close> is sent as JSON text.
\<close>

definition array_syntax :: "(string \<Rightarrow> db_error + string list) \<Rightarrow> bool" where
  "array_syntax cast \<longleftrightarrow>
     (\<forall>c rest. \<not> is_digit c \<and> c \<notin> set [CHR '' '', CHR ''+'', CHR ''-''] \<longrightarrow> (\<exists>e. cast (CHR ''['' # c # rest) = Inl e))"

lemma json_array_text: "\<exists>c rest. stringify (JArr (map JStr cs)) = CHR ''['' # c # rest \<and> (c = CHR '']'' \<or> c = CHR 0x22)"
proof (cases cs)
  case (Cons x xs)
  then show ?thesis by (cases xs) (simp_all add: json_quote_def)
qed simp

lemma write_rejected:
  assumes "array_syntax (pz_array env)"
  shows "\<exists>e. write_pause_row env p now why cs = Inl e"
proof -
  obtain c rest where "stringify (JArr (map JStr cs)) = CHR ''['' # c # rest" "c = CHR '']'' \<or> c = CHR 0x22"
    using json_array_text by blast
  moreover from this(2) have "\<not> is_digit c \<and> c \<notin> set [CHR '' '', CHR ''+'', CHR ''-'']"
    by (auto simp: is_digit_def)
  ultimately obtain e where "pz_array env (stringify (JArr (map JStr cs))) = Inl e"
    using assms unfolding array_syntax_def by metis
  then show ?thesis by (auto simp: write_pause_row_def split: option.splits)
qed

datatype pause_op = Refresh pause_env | SetPause pause_env bool "string list" "string option"

fun op_env :: "pause_op \<Rightarrow> pause_env" where
  "op_env (Refresh env) = env"
| "op_env (SetPause env p cs why) = env"

fun run_op :: "'s redis \<Rightarrow> pause_op \<Rightarrow> 's pause_sys \<Rightarrow> 's pause_sys" where
  "run_op r (Refresh env) sys = updatePauseStateFromDatabase r env sys"
| "run_op r (SetPause env p cs why) sys = snd (setPauseState r env p cs why sys)"

lemma rejected_set:
  assumes "array_syntax (pz_array env)"
  shows "(\<exists>e. fst (setPauseState r env p cs why sys) = Inl e)
     \<and> pause_table (snd (setPauseState r env p cs why sys)) = pause_table sys
     \<and> (\<not> p \<longrightarrow> snd (setPauseState r env p cs why sys) = sys)
     \<and> (p \<longrightarrow> pendingPause (snd (setPauseState r env p cs why sys)) \<noteq> None)"
proof -
  obtain e where "write_pause_row env p (if p then Some (pz_now env) else None) why cs = Inl e"
    using write_rejected [OF assms] by blast
  then show ?thesis by (cases p) (simp_all add: setPauseState_def Let_def set_sel)
qed

text \<open>A pause waits to be saved, and is enforced, while the row says otherwise.\<close>

definition stuck_pause :: "'s pause_sys \<Rightarrow> bool" where
  "stuck_pause sys \<longleftrightarrow> pendingPause sys \<noteq> None \<and> \<not> stored_paused (pause_table sys) \<and> pending_enforced sys"

lemma run_op_stuck:
  assumes "array_syntax (pz_array (op_env oper))" "stuck_pause sys"
  shows "stuck_pause (run_op r oper sys) \<and> pause_table (run_op r oper sys) = pause_table sys"
proof (cases oper)
  case (Refresh env)
  note law = assms(1) [unfolded Refresh op_env.simps]
  obtain why cs where pend: "pendingPause sys = Some (why, cs)" using assms(2) by (auto simp: stuck_pause_def)
  show ?thesis
  proof (cases "pz_read_fault env")
    case None
    then have "run_op r oper sys = snd (setPauseState r env True cs why sys)"
      using pend assms(2) Refresh by (simp add: updatePauseStateFromDatabase_def stuck_pause_def)
    then show ?thesis
      using rejected_set [OF law, of r True cs why sys] set_enforced [of sys r env True cs why] assms(2)
      by (auto simp: stuck_pause_def)
  next
    case (Some e)
    then show ?thesis using Refresh assms(2) fallback_enforced [of sys r env]
      by (simp add: updatePauseStateFromDatabase_def stuck_pause_def fallback_sel)
  qed
next
  case (SetPause env p cs why)
  then show ?thesis
    using rejected_set [of env r p cs why sys] assms set_enforced [of sys r env p cs why]
    by (cases p) (auto simp: stuck_pause_def)
qed

lemma run_ops_stuck:
  "stuck_pause sys \<Longrightarrow> \<forall>oper\<in>set ops. array_syntax (pz_array (op_env oper)) \<Longrightarrow> stuck_pause (fold (run_op r) ops sys)"
  by (induction ops arbitrary: sys) (simp_all add: run_op_stuck)

text \<open>
  On the schema of the migrations no pause is ever saved, none can be lifted and a restart
  loses it: every \<open>setPauseState\<close> fails in the database; after one with \<open>true\<close>, whatever refreshes and
  updates follow, all write requests stay blocked and the row never says paused; and a process that
  starts afterwards and reads the row lets them through.
\<close>

theorem pause_never_saved_on_migrated_schema:
  assumes "array_syntax (pz_array env)" "\<forall>oper\<in>set ops. array_syntax (pz_array (op_env oper))"
    and "pause_reach r sys" "\<not> stored_paused (pause_table sys)"
    and "sys' = fold (run_op r) ops (snd (setPauseState r env True cs why sys))"
  shows "(\<exists>e. fst (setPauseState r env True cs why sys) = Inl e)
    \<and> (\<forall>req_method. req_method \<notin> set READ_METHODS \<longrightarrow> pauseGuard req_method sys' \<noteq> None)
    \<and> \<not> stored_paused (pause_table sys')
    \<and> (\<forall>fresh req_method. pause_table fresh = pause_table sys' \<and> pendingPause fresh = None \<and> pz_read_fault env = None \<longrightarrow>
         pauseGuard req_method (updatePauseStateFromDatabase r env fresh) = None)"
proof -
  let ?s0 = "snd (setPauseState r env True cs why sys)"
  have "stuck_pause ?s0"
    using rejected_set [OF assms(1), of r True cs why sys] assms(4)
      set_enforced [OF pause_reach_enforced [OF assms(3)], of r env True cs why]
    by (simp add: stuck_pause_def)
  then have "stuck_pause (fold (run_op r) ops ?s0)" using assms(2) by (rule run_ops_stuck)
  then have stuck: "stuck_pause sys'" using assms(5) by simp
  then have "isPaused (globalPauseState sys')" by (simp add: stuck_pause_def pending_enforced_def)
  moreover have "pauseGuard req_method (updatePauseStateFromDatabase r env fresh) = None"
    if "pause_table fresh = pause_table sys'" "pendingPause fresh = None" "pz_read_fault env = None" for fresh req_method
    using that stuck by (auto simp: updatePauseStateFromDatabase_def row_state_def stored_paused_def stuck_pause_def
        pauseGuard_def split: option.splits)
  ultimately show ?thesis
    using rejected_set [OF assms(1), of r True cs why sys] stuck by (auto simp: pauseGuard_def stuck_pause_def)
qed

subsection \<open>Witnesses\<close>

text \<open>A working database, one that is down, and one with the migrated column.\<close>

definition pause_env_ok :: pause_env where
  "pause_env_ok = \<lparr>pz_now = 0, pz_read_fault = None, pz_write_fault = None, pz_array = (\<lambda>_. Inr []),
     pz_parseDate = (\<lambda>_. None), pz_cache_timeout = False\<rparr>"

definition pause_env_down :: pause_env where
  "pause_env_down = pause_env_ok\<lparr>pz_read_fault := Some (DbError ''08006''), pz_write_fault := Some (DbError ''08006'')\<rparr>"

definition pause_env_migrated :: pause_env where
  "pause_env_migrated = pause_env_ok\<lparr>pz_array := (\<lambda>t. if take 1 t = ''{'' then Inr [] else Inl (DbError ''22P02''))\<rparr>"

lemma pause_env_sel [simp]:
  "pz_read_fault pause_env_ok = None" "pz_write_fault pause_env_ok = None" "pz_array pause_env_ok t = Inr []"
  "pz_read_fault pause_env_down = Some (DbError ''08006'')" "pz_write_fault pause_env_down = Some (DbError ''08006'')"
  "pz_read_fault pause_env_migrated = None"
  "pz_array pause_env_migrated t = (if take 1 t = ''{'' then Inr [] else Inl (DbError ''22P02''))"
  by (simp_all add: pause_env_ok_def pause_env_down_def pause_env_migrated_def)

lemma migrated_syntax: "array_syntax (pz_array pause_env_migrated)"
  by (simp add: array_syntax_def)

definition booted :: "(string \<Rightarrow> string option) pause_sys" where
  "booted = \<lparr>globalPauseState = initial_pause_state, pendingPause = None, alertedSource = None, raisedAlerts = [],
     pause_table = None, pause_cache = \<lparr>isConnected = True, server = (\<lambda>_. None)\<rparr>\<rparr>"

lemma booted_sel [simp]:
  "globalPauseState booted = initial_pause_state" "pendingPause booted = None" "pause_table booted = None"
  by (simp_all add: booted_def)

lemma booted_reach: "pause_reach r booted"
  by (rule pause_reach.boot) simp_all

definition paused_in_memory :: "(string \<Rightarrow> string option) pause_sys" where
  "paused_in_memory = snd (setPauseState map_redis pause_env_down True [''C1''] None booted)"

lemma down_write: "write_pause_row pause_env_down p now why cs = Inl (DbError ''08006'')"
  by (simp add: write_pause_row_def)

lemma paused_in_memory_sel:
  "isPaused (globalPauseState paused_in_memory)" "source (globalPauseState paused_in_memory) = Memory"
  "pendingPause paused_in_memory = Some (None, [''C1''])" "pause_table paused_in_memory = None"
  by (simp_all add: paused_in_memory_def setPauseState_def down_write Let_def set_sel or_null_def)

theorem pause_lifted_only_by_database_witness:
  "isPaused (globalPauseState (updatePauseStateFromDatabase map_redis pause_env_down paused_in_memory))"
  using pause_lifted_only_by_database [OF paused_in_memory_sel(1), of map_redis pause_env_down]
  by (auto simp: paused_in_memory_sel(2) real_source_def)

theorem unsaved_pause_enforced_witness:
  "pauseGuard ''POST'' paused_in_memory \<noteq> None
   \<and> stored_paused (pause_table (updatePauseStateFromDatabase map_redis pause_env_ok paused_in_memory))"
proof -
  have reach: "pause_reach map_redis paused_in_memory"
    unfolding paused_in_memory_def by (rule pause_reach.written [OF booted_reach])
  have "\<exists>row. write_pause_row pause_env_ok True (Some (pz_now pause_env_ok)) None [''C1''] = Inr row"
    by (simp add: write_pause_row_def)
  with unsaved_pause_enforced [OF reach paused_in_memory_sel(3), of pause_env_ok] show ?thesis
    by (simp add: READ_METHODS_def)
qed

theorem stale_refresh_lifts_pause_witness:
  "\<exists>ts sys'. (pause_step map_redis)\<^sup>*\<^sup>* ([], booted) (ts, sys') \<and> stored_paused (pause_table sys')
     \<and> pauseGuard ''POST'' sys' = None"
  by (rule stale_refresh_lifts_pause [of pause_env_ok]) (simp_all add: accepting_def stored_paused_def)

theorem pause_never_saved_on_migrated_schema_witness:
  "pauseGuard ''POST'' (fold (run_op map_redis) [SetPause pause_env_migrated False [] None, Refresh pause_env_migrated]
       (snd (setPauseState map_redis pause_env_migrated True [''C1''] None booted))) \<noteq> None
   \<and> pauseGuard ''POST'' (updatePauseStateFromDatabase map_redis pause_env_migrated booted) = None"
proof -
  let ?ops = "[SetPause pause_env_migrated False [] None, Refresh pause_env_migrated]"
  let ?final = "fold (run_op map_redis) ?ops (snd (setPauseState map_redis pause_env_migrated True [''C1''] None booted))"
  have law: "\<forall>oper\<in>set ?ops. array_syntax (pz_array (op_env oper))" using migrated_syntax by simp
  have "\<not> stored_paused (pause_table booted)" by (simp add: stored_paused_def)
  note all = pause_never_saved_on_migrated_schema [OF migrated_syntax law booted_reach this refl,
      where cs = "[''C1'']" and why = None and r = map_redis]
  have "stuck_pause (snd (setPauseState map_redis pause_env_migrated True [''C1''] None booted))"
    using rejected_set [OF migrated_syntax, of map_redis True "[''C1'']" None booted]
      set_enforced [of booted map_redis pause_env_migrated True "[''C1'']" None]
    by (simp add: stuck_pause_def stored_paused_def pending_enforced_def)
  then have "pause_table ?final = None"
    using run_op_stuck [of "SetPause pause_env_migrated False [] None" _ map_redis]
      run_op_stuck [of "Refresh pause_env_migrated" _ map_redis] migrated_syntax
      rejected_set [OF migrated_syntax, of map_redis True "[''C1'']" None booted] by simp
  with all show ?thesis by (simp add: READ_METHODS_def)
qed

definition redis_unpaused :: "string \<Rightarrow> string option" where
  "redis_unpaused = [PAUSE_STATE_CACHE_KEY \<mapsto> stringify (JObj [(''isPaused'', JBool False)])]"

theorem unverified_state_blocks_writes_witness:
  "\<exists>c. fst (readFromCache map_redis pause_env_down
       (booted\<lparr>pause_cache := \<lparr>isConnected = True, server = redis_unpaused\<rparr>\<rparr>)) = Some c \<and> \<not> isPaused c"
proof -
  let ?sys = "booted\<lparr>pause_cache := \<lparr>isConnected = True, server = redis_unpaused\<rparr>\<rparr>"
  have "json_parse (stringify (JObj [(''isPaused'', JBool False)])) = Some (JObj [(''isPaused'', JBool False)])"
    by (rule json_parse_stringify) simp
  then have get: "fst (readFromCache map_redis pause_env_down ?sys) \<noteq> None"
      "\<not> isPaused (the (fst (readFromCache map_redis pause_env_down ?sys)))"
    using stringify_nonempty [of "JObj [(''isPaused'', JBool False)]"]
    by (simp_all add: readFromCache_def cache_get_def ensureConnected_def map_redis_def redis_unpaused_def
        cached_state_def pause_env_down_def pause_env_ok_def)
  then have "pauseGuard ''POST'' (updatePauseStateFromDatabase map_redis pause_env_down ?sys) = None"
    by (auto simp: updatePauseStateFromDatabase_def fallBackFromDatabase_def pauseGuard_def fallback_state_def
        initial_pause_state_def split: prod.splits)
  then show ?thesis
    by (intro unverified_state_blocks_writes [where req_method = "''POST''"])
      (simp_all add: READ_METHODS_def initial_pause_state_def real_source_def)
qed

end
