(* ===== verification/DefaultChecker.thy ===== *)
theory DefaultChecker
  imports EventIndexer
begin

section \<open>The default checker (\<open>backend/src/services/defaultChecker.ts\<close>)\<close>

text \<open>
  Finding the loans that are past their due ledger in the indexed events and submitting
  \<open>check_defaults\<close> for them in batches, under a Redis lock and behind the indexer's gap check. The
  Stellar server and the signing key are the parameter \<open>chain_env\<close>, which says for each batch what
  every call answers and whether the batch timed out. \<open>mapConcurrent\<close> is also given as the step
  relation of its workers. Log lines and job metrics are left out.
\<close>

subsection \<open>Owed and paid\<close>

record LoanReconciliation =
  lr_loanId :: int
  owedStroops :: int
  paidStroops :: int
  driftStroops :: int
  owedDisplay :: string
  paidDisplay :: string

definition loan_amount_rows :: "int \<Rightarrow> contract_event list \<Rightarrow> (string \<times> string) list" where
  "loan_amount_rows loanId rows =
     List.map_filter (\<lambda>row. map_option (\<lambda>a. (ce_event_type row, a)) (ce_amount row))
       (filter (\<lambda>row. ce_loan_id row = Some loanId \<and> ce_event_type row \<in> {''LoanApproved'', ''LoanRepaid''}) rows)"

text \<open>The loop over the rows; \<open>None\<close> when \<open>BigInt\<close> throws.\<close>

fun sum_amounts :: "(string \<times> string) list \<Rightarrow> int \<times> int \<Rightarrow> (int \<times> int) option" where
  "sum_amounts [] acc = Some acc"
| "sum_amounts ((ty, a) # rows) (owed, paid) =
     (case big_int a of
        None \<Rightarrow> None
      | Some n \<Rightarrow> sum_amounts rows (if ty = ''LoanApproved'' then (owed + n, paid) else (owed, paid + n)))"

definition reconcileLoanStroops :: "int \<Rightarrow> contract_event list \<Rightarrow> LoanReconciliation option" where
  "reconcileLoanStroops loanId rows =
     (case sum_amounts (loan_amount_rows loanId rows) (0, 0) of
        None \<Rightarrow> None
      | Some (owed, paid) \<Rightarrow>
          Some \<lparr>lr_loanId = loanId, owedStroops = owed, paidStroops = paid,
                driftStroops = (if paid < owed then owed - paid else 0),
                owedDisplay = fromStroops owed, paidDisplay = fromStroops paid\<rparr>)"

subsection \<open>Configuration\<close>

definition DEFAULT_TERM_LEDGERS :: int where
  "DEFAULT_TERM_LEDGERS = 17280"

definition LOCK_KEY :: string where
  "LOCK_KEY = ''default_checker:running''"

definition LOCK_TTL_SECONDS :: int where
  "LOCK_TTL_SECONDS = 600"

record checker_vars =
  LOAN_MANAGER_CONTRACT_ID :: "string option"
  LOAN_MANAGER_ADMIN_SECRET :: "string option"
  LOAN_TERM_LEDGERS :: "string option"
  DEFAULT_CHECK_BATCH_SIZE :: "string option"
  DEFAULT_CHECK_BATCH_TIMEOUT_MS :: "string option"
  DEFAULT_CHECK_MAX_LOANS_PER_RUN :: "string option"
  DEFAULT_CHECK_CONCURRENCY :: "string option"

record checker_config =
  ch_contractId :: string
  termLedgers :: int
  ch_batchSize :: int
  batchTimeoutMs :: int
  maxLoansPerRun :: int
  concurrency :: int

definition new_checker :: "checker_vars \<Rightarrow> checker_config" where
  "new_checker vars =
     \<lparr>ch_contractId = (case LOAN_MANAGER_CONTRACT_ID vars of None \<Rightarrow> [] | Some c \<Rightarrow> c),
      termLedgers = parsePositiveInt (LOAN_TERM_LEDGERS vars) DEFAULT_TERM_LEDGERS,
      ch_batchSize = parsePositiveInt (DEFAULT_CHECK_BATCH_SIZE vars) 25,
      batchTimeoutMs = parsePositiveInt (DEFAULT_CHECK_BATCH_TIMEOUT_MS vars) (5 * 60 * 1000),
      maxLoansPerRun = parsePositiveInt (DEFAULT_CHECK_MAX_LOANS_PER_RUN vars) 500,
      concurrency = parsePositiveInt (DEFAULT_CHECK_CONCURRENCY vars) 3\<rparr>"

datatype check_error =
    ContractNotSet | SecretNotSet | SecretInvalid | CheckSqlFailed db_error | LedgerUnavailable string

definition assertConfigured :: "(string \<Rightarrow> bool) \<Rightarrow> checker_config \<Rightarrow> string option \<Rightarrow> check_error + unit" where
  "assertConfigured valid_secret cfg secret =
     (if ch_contractId cfg = [] then Inl ContractNotSet
      else case secret of
             None \<Rightarrow> Inl SecretNotSet
           | Some s \<Rightarrow> if s = [] then Inl SecretNotSet else if valid_secret s then Inr () else Inl SecretInvalid)"

subsection \<open>Overdue loans\<close>

definition approved_ids :: "contract_event list \<Rightarrow> int list" where
  "approved_ids rows =
     remdups (List.map_filter (\<lambda>row. if ce_event_type row = ''LoanApproved'' then ce_loan_id row else None) rows)"

definition approved_ledger :: "contract_event list \<Rightarrow> int \<Rightarrow> int" where
  "approved_ledger rows l =
     Max (ce_ledger ` {row \<in> set rows. ce_event_type row = ''LoanApproved'' \<and> ce_loan_id row = Some l})"

definition still_active :: "contract_event list \<Rightarrow> int \<Rightarrow> bool" where
  "still_active rows l \<longleftrightarrow>
     \<not> (\<exists>row\<in>set rows. ce_loan_id row = Some l \<and> ce_event_type row \<in> {''LoanRepaid'', ''LoanDefaulted''})"

definition overdue_ids :: "int \<Rightarrow> int \<Rightarrow> contract_event list \<Rightarrow> int list" where
  "overdue_ids termL currentLedger rows =
     filter (\<lambda>l. still_active rows l \<and> approved_ledger rows l + termL < currentLedger) (approved_ids rows)"

text \<open>\<open>ORDER BY due_ledger ASC, loan_id ASC LIMIT n\<close>\<close>

definition fetchOverdueLoanIds :: "checker_config \<Rightarrow> int \<Rightarrow> contract_event list \<Rightarrow> int list" where
  "fetchOverdueLoanIds cfg currentLedger rows =
     filter (\<lambda>l. 0 < l)
       (take (nat (maxLoansPerRun cfg))
         (sort_key (\<lambda>l. approved_ledger rows l + termLedgers cfg)
           (sort (overdue_ids (termLedgers cfg) currentLedger rows))))"

record overdue_stats =
  overdueCount :: nat
  oldestDueLedger :: "int option"
  ledgersPastOldestDue :: "int option"

definition fetchOverdueStats :: "checker_config \<Rightarrow> int \<Rightarrow> contract_event list \<Rightarrow> overdue_stats" where
  "fetchOverdueStats cfg currentLedger rows =
     (let overdue = overdue_ids (termLedgers cfg) currentLedger rows;
          oldest = (if overdue = [] then None
                    else Some (Min ((\<lambda>l. approved_ledger rows l + termLedgers cfg) ` set overdue)))
      in \<lparr>overdueCount = length overdue, oldestDueLedger = oldest,
          ledgersPastOldestDue = map_option (\<lambda>d. max 0 (currentLedger - d)) oldest\<rparr>)"

subsection \<open>Submitting a batch\<close>

record batch_result =
  br_loanIds :: "int list"
  br_txHash :: "string option"
  br_submitStatus :: "string option"
  br_txStatus :: "string option"
  br_error :: "string option"
  br_timedOut :: bool

record submit_env =
  se_account :: "string + unit"
  se_build :: "string + unit"
  se_prepare :: "string + unit"
  se_send :: "string + string option \<times> string option"
  se_poll :: "string + string"
  se_timeout :: bool

definition batch_failed :: "int list \<Rightarrow> string \<Rightarrow> batch_result" where
  "batch_failed loanIds message =
     \<lparr>br_loanIds = loanIds, br_txHash = None, br_submitStatus = None, br_txStatus = None, br_error = Some message,
      br_timedOut = False\<rparr>"

definition submitCheckDefaults :: "submit_env \<Rightarrow> int list \<Rightarrow> string + batch_result" where
  "submitCheckDefaults se loanIds =
     (case se_account se of Inl e \<Rightarrow> Inl e | Inr _ \<Rightarrow>
      case se_build se of Inl e \<Rightarrow> Inl e | Inr _ \<Rightarrow>
      case se_prepare se of Inl e \<Rightarrow> Inr (batch_failed loanIds (''prepareTransaction failed: '' @ e)) | Inr _ \<Rightarrow>
      case se_send se of Inl e \<Rightarrow> Inr (batch_failed loanIds (''sendTransaction failed: '' @ e))
      | Inr (txHash, submitStatus) \<Rightarrow>
          if txHash = None \<or> txHash = Some []
          then Inr ((batch_failed loanIds ''sendTransaction returned no hash'')\<lparr>br_submitStatus := submitStatus\<rparr>)
          else Inr \<lparr>br_loanIds = loanIds, br_txHash = txHash, br_submitStatus = submitStatus,
                    br_txStatus = (case se_poll se of Inr status \<Rightarrow> Some status | Inl _ \<Rightarrow> None),
                    br_error = None, br_timedOut = False\<rparr>)"

definition submitCheckDefaultsWithTimeout :: "checker_config \<Rightarrow> submit_env \<Rightarrow> int list \<Rightarrow> batch_result" where
  "submitCheckDefaultsWithTimeout cfg se loanIds =
     (if se_timeout se
      then (batch_failed loanIds (''batch timed out after '' @ int_to_string (batchTimeoutMs cfg) @ ''ms''))\<lparr>br_timedOut := True\<rparr>
      else case submitCheckDefaults se loanIds of
             Inr result \<Rightarrow> result
           | Inl e \<Rightarrow> batch_failed loanIds (''default check batch failed: '' @ e))"

subsection \<open>Bounded concurrency\<close>

text \<open>
  The worker pool: the index taken next, the items being worked on, and the results. A worker that
  finishes an item takes the next one in the same turn, if there is one.
\<close>

record 'r pool =
  currentIndex :: nat
  in_flight :: "nat list"
  results :: "'r option list"

definition pool_start :: "int \<Rightarrow> 'a list \<Rightarrow> 'r pool" where
  "pool_start limit items =
     (let k = min (nat limit) (length items) in
      \<lparr>currentIndex = k, in_flight = [0..<k], results = replicate (length items) None\<rparr>)"

definition worker_finishes :: "('a \<Rightarrow> 'r) \<Rightarrow> 'a list \<Rightarrow> nat \<Rightarrow> 'r pool \<Rightarrow> 'r pool" where
  "worker_finishes fn items i p =
     (let rest = remove1 i (in_flight p); stored = (results p)[i := Some (fn (items ! i))] in
      if currentIndex p < length items
      then \<lparr>currentIndex = currentIndex p + 1, in_flight = rest @ [currentIndex p], results = stored\<rparr>
      else p\<lparr>in_flight := rest, results := stored\<rparr>)"

inductive pool_step :: "('a \<Rightarrow> 'r) \<Rightarrow> 'a list \<Rightarrow> 'r pool \<Rightarrow> 'r pool \<Rightarrow> bool" for fn items where
  finishes: "i \<in> set (in_flight p) \<Longrightarrow> pool_step fn items p (worker_finishes fn items i p)"

text \<open>
  One schedule of it, in which items finish in the order they were taken; every other schedule
  gives the same results (\<open>mapConcurrent_is_map\<close>). An item that no worker took leaves a hole.
\<close>

fun run_pool :: "('a \<Rightarrow> 'r) \<Rightarrow> 'a list \<Rightarrow> nat \<Rightarrow> 'r pool \<Rightarrow> 'r pool" where
  "run_pool fn items 0 p = p"
| "run_pool fn items (Suc n) p =
     (case in_flight p of [] \<Rightarrow> p | i # _ \<Rightarrow> run_pool fn items n (worker_finishes fn items i p))"

definition mapConcurrent :: "'a list \<Rightarrow> int \<Rightarrow> ('a \<Rightarrow> 'r) \<Rightarrow> 'r list" where
  "mapConcurrent items limit fn =
     List.map_filter id (results (run_pool fn items (length items) (pool_start limit items)))"

subsection \<open>A run\<close>

record DefaultCheckRunResult =
  rr_currentLedger :: int
  rr_termLedgers :: int
  rr_stats :: overdue_stats
  loansChecked :: nat
  successfulSubmissions :: nat
  failedSubmissions :: nat
  batches :: "batch_result list"
  skipped :: bool

record 's checker_state =
  ch_cache :: "'s cache_service"
  currentLockValue :: "string option"

record chain_env =
  ce_lockValue :: string
  ce_secret :: "string option"
  ce_valid_secret :: "string \<Rightarrow> bool"
  ce_gaps_readable :: bool
  ce_latest :: "string + int"
  ce_stats_fault :: "db_error option"
  ce_ids_fault :: "db_error option"
  ce_submit :: "int list \<Rightarrow> submit_env"

definition acquireLock :: "'s redis \<Rightarrow> string \<Rightarrow> 's checker_state \<Rightarrow> bool \<times> 's checker_state" where
  "acquireLock r lockValue st =
     (case setNotExists r LOCK_KEY (JStr lockValue) LOCK_TTL_SECONDS (ch_cache st) of
        (True, c) \<Rightarrow> (True, st\<lparr>ch_cache := c, currentLockValue := Some lockValue\<rparr>)
      | (False, c) \<Rightarrow> (False, st\<lparr>ch_cache := c\<rparr>))"

definition releaseLock :: "'s redis \<Rightarrow> 's checker_state \<Rightarrow> 's checker_state" where
  "releaseLock r st =
     (case currentLockValue st of
        None \<Rightarrow> st
      | Some v \<Rightarrow>
          if v = [] then st\<lparr>currentLockValue := None\<rparr>
          else st\<lparr>currentLockValue := None, ch_cache := snd (deleteIfMatch r LOCK_KEY (JStr v) (ch_cache st))\<rparr>)"

definition hasSuspectLedgerRanges :: "checker_config \<Rightarrow> bool \<Rightarrow> checkpoint list \<Rightarrow> bool" where
  "hasSuspectLedgerRanges cfg readable rows =
     (ch_contractId cfg \<noteq> [] \<and> hasUnresolvedLedgerGaps readable (ch_contractId cfg) rows)"

definition skipped_run :: "checker_config \<Rightarrow> DefaultCheckRunResult" where
  "skipped_run cfg =
     \<lparr>rr_currentLedger = 0, rr_termLedgers = termLedgers cfg,
      rr_stats = \<lparr>overdueCount = 0, oldestDueLedger = None, ledgersPastOldestDue = None\<rparr>,
      loansChecked = 0, successfulSubmissions = 0, failedSubmissions = 0, batches = [], skipped = True\<rparr>"

definition submitted_ok :: "batch_result \<Rightarrow> bool" where
  "submitted_ok b \<longleftrightarrow> (br_error b = None \<or> br_error b = Some []) \<and> br_txHash b \<noteq> None \<and> br_txHash b \<noteq> Some []"

text \<open>Explicit ids, validated and without duplicates, or else the overdue ones.\<close>

definition target_ids ::
  "checker_config \<Rightarrow> chain_env \<Rightarrow> int list option \<Rightarrow> int \<Rightarrow> contract_event list \<Rightarrow> check_error + int list" where
  "target_ids cfg env loanIds currentLedger rows =
     (let explicitIds = (case loanIds of None \<Rightarrow> [] | Some ids \<Rightarrow> rev (remdups (rev (filter (\<lambda>i. 0 < i) ids)))) in
      if explicitIds \<noteq> [] then Inr explicitIds
      else case ce_ids_fault env of
             Some e \<Rightarrow> Inl (CheckSqlFailed e)
           | None \<Rightarrow> Inr (fetchOverdueLoanIds cfg currentLedger rows))"

definition run_check ::
  "checker_config \<Rightarrow> chain_env \<Rightarrow> checkpoint list \<Rightarrow> contract_event list \<Rightarrow> int list option
     \<Rightarrow> check_error + DefaultCheckRunResult" where
  "run_check cfg env cks rows loanIds =
     try_then (assertConfigured (ce_valid_secret env) cfg (ce_secret env)) (\<lambda>_.
       if hasSuspectLedgerRanges cfg (ce_gaps_readable env) cks then Inr (skipped_run cfg)
       else case ce_latest env of
              Inl e \<Rightarrow> Inl (LedgerUnavailable e)
            | Inr currentLedger \<Rightarrow>
                (case ce_stats_fault env of
                   Some e \<Rightarrow> Inl (CheckSqlFailed e)
                 | None \<Rightarrow>
                     try_then (target_ids cfg env loanIds currentLedger rows) (\<lambda>targetIds.
                       let allChunks = filter (\<lambda>b. b \<noteq> []) (chunk targetIds (ch_batchSize cfg));
                           batchResults = mapConcurrent allChunks (concurrency cfg)
                             (\<lambda>b. submitCheckDefaultsWithTimeout cfg (ce_submit env b) b)
                       in Inr \<lparr>rr_currentLedger = currentLedger, rr_termLedgers = termLedgers cfg,
                               rr_stats = fetchOverdueStats cfg currentLedger rows, loansChecked = length targetIds,
                               successfulSubmissions = length (filter submitted_ok batchResults),
                               failedSubmissions = length (filter (\<lambda>b. \<not> submitted_ok b) batchResults),
                               batches = batchResults, skipped = False\<rparr>)))"

definition checkOverdueLoans ::
  "'s redis \<Rightarrow> checker_config \<Rightarrow> chain_env \<Rightarrow> checkpoint list \<Rightarrow> contract_event list \<Rightarrow> int list option
     \<Rightarrow> 's checker_state \<Rightarrow> (check_error + DefaultCheckRunResult option) \<times> 's checker_state" where
  "checkOverdueLoans r cfg env cks rows loanIds st =
     (case acquireLock r (ce_lockValue env) st of
        (False, st1) \<Rightarrow> (Inr None, st1)
      | (True, st1) \<Rightarrow> (map_sum id Some (run_check cfg env cks rows loanIds), releaseLock r st1))"

subsection \<open>The scheduler\<close>

record checker_scheduler =
  sch_interval :: bool
  sch_inFlight :: bool
  sch_runs :: nat

definition startDefaultCheckerScheduler ::
  "string option \<Rightarrow> checker_vars \<Rightarrow> checker_scheduler \<Rightarrow> checker_scheduler" where
  "startDefaultCheckerScheduler node_env vars s =
     (if sch_interval s then s
      else if node_env = Some ''test'' then s
      else if LOAN_MANAGER_CONTRACT_ID vars \<in> {None, Some []} \<or> LOAN_MANAGER_ADMIN_SECRET vars \<in> {None, Some []} then s
      else s\<lparr>sch_interval := True\<rparr>)"

definition checker_tick :: "checker_scheduler \<Rightarrow> checker_scheduler" where
  "checker_tick s =
     (if \<not> sch_interval s \<or> sch_inFlight s then s else s\<lparr>sch_inFlight := True, sch_runs := sch_runs s + 1\<rparr>)"

definition checker_settles :: "checker_scheduler \<Rightarrow> checker_scheduler" where
  "checker_settles s = (if sch_runs s = 0 then s else s\<lparr>sch_inFlight := False, sch_runs := sch_runs s - 1\<rparr>)"

definition stopDefaultCheckerScheduler :: "checker_scheduler \<Rightarrow> checker_scheduler" where
  "stopDefaultCheckerScheduler s = s\<lparr>sch_interval := False\<rparr>"

subsection \<open>The pool is a map\<close>

definition pool_inv :: "('a \<Rightarrow> 'r) \<Rightarrow> 'a list \<Rightarrow> nat \<Rightarrow> 'r pool \<Rightarrow> bool" where
  "pool_inv fn items limit p \<longleftrightarrow>
     length (results p) = length items \<and> currentIndex p \<le> length items
     \<and> distinct (in_flight p) \<and> (\<forall>i\<in>set (in_flight p). i < currentIndex p)
     \<and> length (in_flight p) \<le> limit \<and> (in_flight p = [] \<longrightarrow> currentIndex p = length items)
     \<and> (\<forall>i<length items. results p ! i =
          (if i < currentIndex p \<and> i \<notin> set (in_flight p) then Some (fn (items ! i)) else None))"

lemma pool_inv_start: "0 < limit \<Longrightarrow> pool_inv fn items (nat limit) (pool_start limit items)"
  by (auto simp: pool_inv_def pool_start_def Let_def min_def split: if_splits)

lemma pool_inv_step:
  assumes "pool_inv fn items limit p" "i \<in> set (in_flight p)"
  shows "pool_inv fn items limit (worker_finishes fn items i p)"
proof -
  have i: "i < currentIndex p" "i < length items" using assms by (auto simp: pool_inv_def)
  have d: "distinct (in_flight p)" "set (remove1 i (in_flight p)) = set (in_flight p) - {i}"
    using assms(1) by (auto simp: pool_inv_def)
  have len: "length (remove1 i (in_flight p)) = length (in_flight p) - 1" "0 < length (in_flight p)"
    using assms(2) by (auto simp: length_remove1)
  show ?thesis
  proof (cases "currentIndex p < length items")
    case True
    then show ?thesis
      using assms(1) d len i unfolding pool_inv_def worker_finishes_def Let_def
      by (auto simp: nth_list_update less_Suc_eq)
  next
    case False
    then show ?thesis
      using assms(1) d len i unfolding pool_inv_def worker_finishes_def Let_def
      by (auto simp: nth_list_update)
  qed
qed

lemma pool_inv_steps: "(pool_step fn items)\<^sup>*\<^sup>* p q \<Longrightarrow> pool_inv fn items limit p \<Longrightarrow> pool_inv fn items limit q"
  by (induction rule: rtranclp_induct) (auto elim!: pool_step.cases intro: pool_inv_step)

text \<open>The items finished so far.\<close>

definition finished :: "'r pool \<Rightarrow> nat" where
  "finished p = currentIndex p - length (in_flight p)"

lemma in_flight_le:
  assumes "pool_inv fn items limit p"
  shows "length (in_flight p) \<le> currentIndex p"
proof -
  have "set (in_flight p) \<subseteq> {0..<currentIndex p}" using assms by (auto simp: pool_inv_def)
  then have "card (set (in_flight p)) \<le> currentIndex p" using card_mono [of "{0..<currentIndex p}"] by simp
  then show ?thesis using assms by (simp add: pool_inv_def distinct_card)
qed

lemma finished_step:
  assumes "pool_inv fn items limit p" "i \<in> set (in_flight p)"
  shows "finished (worker_finishes fn items i p) = finished p + 1"
proof -
  have "Suc (length (in_flight p) - 1) = length (in_flight p)" using length_pos_if_in_set [OF assms(2)] by simp
  then show ?thesis using in_flight_le [OF assms(1)] assms(2)
    by (simp add: finished_def worker_finishes_def Let_def length_remove1)
qed

lemma run_pool_inv: "pool_inv fn items limit p \<Longrightarrow> pool_inv fn items limit (run_pool fn items n p)"
proof (induction n arbitrary: p)
  case (Suc n)
  show ?case
  proof (cases "in_flight p")
    case (Cons i rest)
    then have "pool_inv fn items limit (worker_finishes fn items i p)" by (intro pool_inv_step [OF Suc.prems]) simp
    from Suc.IH [OF this] Cons show ?thesis by simp
  qed (simp add: Suc.prems)
qed simp

lemma run_pool_finished:
  "pool_inv fn items limit p \<Longrightarrow> in_flight (run_pool fn items n p) = [] \<or> finished (run_pool fn items n p) = finished p + n"
proof (induction n arbitrary: p)
  case (Suc n)
  show ?case
  proof (cases "in_flight p")
    case (Cons i rest)
    then have i: "i \<in> set (in_flight p)" by simp
    from Suc.IH [OF pool_inv_step [OF Suc.prems i]] finished_step [OF Suc.prems i] show ?thesis
      using Cons by auto
  qed simp
qed simp

lemma run_pool_done:
  assumes "pool_inv fn items limit p" "length items \<le> n"
  shows "in_flight (run_pool fn items n p) = []"
proof (rule ccontr)
  let ?q = "run_pool fn items n p"
  assume ne: "in_flight ?q \<noteq> []"
  have inv: "pool_inv fn items limit ?q" by (rule run_pool_inv [OF assms(1)])
  have "finished ?q = finished p + n" using run_pool_finished [OF assms(1), of n] ne by blast
  moreover have "finished ?q < length items"
    using ne in_flight_le [OF inv] inv by (cases "in_flight ?q") (auto simp: finished_def pool_inv_def)
  ultimately show False using assms(2) by simp
qed

lemma pool_done_results:
  assumes "pool_inv fn items limit p" "in_flight p = []"
  shows "results p = map (Some \<circ> fn) items"
  using assms by (intro nth_equalityI) (auto simp: pool_inv_def)

lemma map_filter_Some: "List.map_filter id (map (Some \<circ> fn) items) = map fn items"
  by (induction items) (simp_all add: List.map_filter_simps)

lemma mapConcurrent_map:
  assumes "0 < limit"
  shows "mapConcurrent items limit fn = map fn items"
proof -
  let ?final = "run_pool fn items (length items) (pool_start limit items)"
  note inv = pool_inv_start [OF assms, of fn items]
  have "results ?final = map (Some \<circ> fn) items"
    by (rule pool_done_results [OF run_pool_inv [OF inv]]) (rule run_pool_done [OF inv order_refl])
  then show ?thesis by (simp add: mapConcurrent_def map_filter_Some)
qed

text \<open>
  C22. \<open>mapConcurrent\<close> is a map with bounded concurrency: in every schedule of its workers at most
  \<open>limit\<close> items are in flight, each worker turn finishes one item, so the pool comes to rest, and at
  rest the results are those of a plain map, in the order of the items.
\<close>

theorem mapConcurrent_is_map:
  assumes "0 < limit" "(pool_step fn items)\<^sup>*\<^sup>* (pool_start limit items) p"
  shows "length (in_flight p) \<le> nat limit
    \<and> (\<forall>q. pool_step fn items p q \<longrightarrow> finished q = finished p + 1 \<and> finished q \<le> length items)
    \<and> ((\<nexists>q. pool_step fn items p q) \<longrightarrow> results p = map Some (mapConcurrent items limit fn)
         \<and> mapConcurrent items limit fn = map fn items)"
proof -
  have inv: "pool_inv fn items (nat limit) p"
    by (rule pool_inv_steps [OF assms(2) pool_inv_start [OF assms(1)]])
  have turn: "finished q = finished p + 1 \<and> finished q \<le> length items" if st: "pool_step fn items p q" for q
  proof -
    obtain i where i: "i \<in> set (in_flight p)" "q = worker_finishes fn items i p" using st by (cases rule: pool_step.cases)
    have "pool_inv fn items (nat limit) q" unfolding i(2) by (rule pool_inv_step [OF inv i(1)])
    then show ?thesis using finished_step [OF inv i(1)] i(2) by (auto simp: finished_def pool_inv_def)
  qed
  have rest: "in_flight p = []" if "\<nexists>q. pool_step fn items p q"
  proof (rule ccontr)
    assume "in_flight p \<noteq> []"
    then have "hd (in_flight p) \<in> set (in_flight p)" by simp
    from pool_step.finishes [OF this] that show False by blast
  qed
  have "results p = map Some (mapConcurrent items limit fn)" if "\<nexists>q. pool_step fn items p q"
    using pool_done_results [OF inv rest [OF that]] mapConcurrent_map [OF assms(1), of items fn] by simp
  with turn show ?thesis
    using inv mapConcurrent_map [OF assms(1), of items fn] unfolding pool_inv_def by blast
qed

theorem mapConcurrent_is_map_witness:
  "length (in_flight (worker_finishes Suc [1, 2, 3 :: nat] 1 (pool_start 2 [1, 2, 3 :: nat]))) \<le> 2"
proof -
  have "pool_step Suc [1, 2, 3] (pool_start 2 [1, 2, 3 :: nat]) (worker_finishes Suc [1, 2, 3] 1 (pool_start 2 [1, 2, 3 :: nat]))"
    by (rule pool_step.finishes) (simp add: pool_start_def)
  then have "(pool_step Suc [1, 2, 3])\<^sup>*\<^sup>* (pool_start 2 [1, 2, 3 :: nat]) (worker_finishes Suc [1, 2, 3] 1 (pool_start 2 [1, 2, 3 :: nat]))"
    by (rule r_into_rtranclp)
  from mapConcurrent_is_map [OF _ this] show ?thesis by simp
qed

subsection \<open>Which loans are overdue\<close>

definition approval :: "int \<Rightarrow> contract_event \<Rightarrow> bool" where
  "approval l row \<longleftrightarrow> ce_event_type row = ''LoanApproved'' \<and> ce_loan_id row = Some l"

text \<open>Approved, every approval past its term, and no repayment and no default indexed.\<close>

definition overdue_loan :: "int \<Rightarrow> int \<Rightarrow> contract_event list \<Rightarrow> int \<Rightarrow> bool" where
  "overdue_loan termL cur rows l \<longleftrightarrow>
     (\<exists>row\<in>set rows. approval l row) \<and> (\<forall>row\<in>set rows. approval l row \<longrightarrow> ce_ledger row + termL < cur)
     \<and> (\<forall>row\<in>set rows. ce_loan_id row = Some l \<longrightarrow> ce_event_type row \<noteq> ''LoanRepaid'' \<and> ce_event_type row \<noteq> ''LoanDefaulted'')"

text \<open>The ledger of a loan's last approval, and the order by it and by loan.\<close>

definition latest_approval :: "contract_event list \<Rightarrow> int \<Rightarrow> int \<Rightarrow> bool" where
  "latest_approval rows l n \<longleftrightarrow>
     (\<exists>row\<in>set rows. approval l row \<and> ce_ledger row = n) \<and> (\<forall>row\<in>set rows. approval l row \<longrightarrow> ce_ledger row \<le> n)"

definition due_before :: "contract_event list \<Rightarrow> int \<Rightarrow> int \<Rightarrow> bool" where
  "due_before rows a b \<longleftrightarrow> (\<exists>m n. latest_approval rows a m \<and> latest_approval rows b n \<and> (m < n \<or> m = n \<and> a < b))"

lemma set_approved_ids: "l \<in> set (approved_ids rows) \<longleftrightarrow> (\<exists>row\<in>set rows. approval l row)"
  by (induction rows) (auto simp: approved_ids_def approval_def List.map_filter_simps split: option.splits)

lemma still_active_iff:
  "still_active rows l \<longleftrightarrow>
     (\<forall>row\<in>set rows. ce_loan_id row = Some l \<longrightarrow> ce_event_type row \<noteq> ''LoanRepaid'' \<and> ce_event_type row \<noteq> ''LoanDefaulted'')"
  by (auto simp: still_active_def)

lemma overdue_ids_iff: "l \<in> set (overdue_ids termL cur rows) \<longleftrightarrow> overdue_loan termL cur rows l"
proof -
  let ?A = "{row \<in> set rows. ce_event_type row = ''LoanApproved'' \<and> ce_loan_id row = Some l}"
  have "Max (ce_ledger ` ?A) + termL < cur \<longleftrightarrow> (\<forall>row\<in>?A. ce_ledger row + termL < cur)" if "?A \<noteq> {}"
  proof -
    have "Max (ce_ledger ` ?A) < cur - termL \<longleftrightarrow> (\<forall>x\<in>ce_ledger ` ?A. x < cur - termL)"
      using that by (intro Max_less_iff) auto
    then show ?thesis by (auto simp: algebra_simps)
  qed
  then show ?thesis
    unfolding overdue_ids_def overdue_loan_def approved_ledger_def still_active_iff [symmetric]
    by (auto simp: set_approved_ids approval_def)
qed

lemma distinct_fetchOverdue: "distinct (fetchOverdueLoanIds cfg cur rows)"
  by (simp add: fetchOverdueLoanIds_def overdue_ids_def approved_ids_def)

lemma fetchOverdue_set:
  "set (fetchOverdueLoanIds cfg cur rows) \<subseteq> {l. 0 < l \<and> overdue_loan (termLedgers cfg) cur rows l}"
  unfolding fetchOverdueLoanIds_def by (auto dest!: in_set_takeD simp: overdue_ids_iff)

lemma sorted_by_key_then_id:
  "sorted (map f xs) \<Longrightarrow> (\<And>k. sorted_wrt (<) (filter (\<lambda>x. f x = k) xs)) \<Longrightarrow>
   sorted_wrt (\<lambda>a b. f a < (f b :: int) \<or> f a = f b \<and> a < (b :: int)) xs"
proof (induction xs)
  case (Cons x xs)
  have "sorted_wrt (<) (filter (\<lambda>y. f y = k) xs)" for k
    using Cons.prems(2) [of k] by (simp split: if_splits)
  moreover have "f x < f y \<or> f x = f y \<and> x < y" if y: "y \<in> set xs" for y
  proof (cases "f x = f y")
    case True
    then show ?thesis using Cons.prems(2) [of "f y"] y by simp
  next
    case False
    then show ?thesis using Cons.prems(1) y by force
  qed
  ultimately show ?case using Cons.IH Cons.prems(1) by simp
qed simp

lemma overdue_order:
  fixes f :: "int \<Rightarrow> int"
  assumes "distinct xs"
  shows "sorted_wrt (\<lambda>a b. f a < f b \<or> f a = f b \<and> a < b) (sort_key f (sort xs))"
proof (rule sorted_by_key_then_id)
  show "sorted_wrt (<) (filter (\<lambda>x. f x = k) (sort_key f (sort xs)))" for k
    using assms sorted_wrt_filter [of "(<)" "sort xs"] by (simp add: sort_key_stable strict_sorted_iff)
qed simp

lemma latest_approval_ledger:
  assumes "\<exists>row\<in>set rows. approval l row"
  shows "latest_approval rows l (approved_ledger rows l)"
proof -
  let ?S = "ce_ledger ` {row \<in> set rows. ce_event_type row = ''LoanApproved'' \<and> ce_loan_id row = Some l}"
  have "finite ?S" "?S \<noteq> {}" using assms by (auto simp: approval_def)
  then have "Max ?S \<in> ?S" "\<forall>n\<in>?S. n \<le> Max ?S" by simp_all
  then show ?thesis unfolding latest_approval_def approved_ledger_def approval_def by auto
qed

text \<open>
  C20. The overdue query is exact: the loans found are distinct, at most the configured number, earliest due first and by loan among
  equals; each has been approved, is past its term by every approval and has neither a repayment, even a partial one, nor a default
  indexed; when the limit cuts loans off, those found are due no later than those left out, and when no more loans are overdue than
  the limit allows, none is left out.
\<close>

theorem fetchOverdueLoanIds_exact:
  assumes "found = fetchOverdueLoanIds cfg currentLedger rows"
  shows "sorted_wrt (due_before rows) found \<and> distinct found \<and> length found \<le> nat (maxLoansPerRun cfg)
    \<and> set found \<subseteq> {l. 0 < l \<and> overdue_loan (termLedgers cfg) currentLedger rows l}
    \<and> (\<forall>a\<in>set found. \<forall>b. 0 < b \<and> overdue_loan (termLedgers cfg) currentLedger rows b \<and> b \<notin> set found \<longrightarrow> due_before rows a b)
    \<and> (card {l. overdue_loan (termLedgers cfg) currentLedger rows l} \<le> nat (maxLoansPerRun cfg) \<longrightarrow>
         set found = {l. 0 < l \<and> overdue_loan (termLedgers cfg) currentLedger rows l})"
proof -
  let ?due = "\<lambda>l. approved_ledger rows l + termLedgers cfg"
  let ?ids = "overdue_ids (termLedgers cfg) currentLedger rows"
  let ?all = "sort_key ?due (sort ?ids)"
  let ?n = "nat (maxLoansPerRun cfg)"
  have found: "found = filter (\<lambda>l. 0 < l) (take ?n ?all)" using assms by (simp add: fetchOverdueLoanIds_def)
  have all: "set ?all = {l. overdue_loan (termLedgers cfg) currentLedger rows l}"
    by (auto simp: overdue_ids_iff)
  have ids: "distinct ?ids" by (simp add: overdue_ids_def approved_ids_def)
  have dist: "distinct ?all" using ids by simp
  have len: "length found \<le> ?n" unfolding found by (rule order_trans [OF length_filter_le]) simp
  have latest: "latest_approval rows l (approved_ledger rows l)" if "l \<in> set ?all" for l
    using that all by (intro latest_approval_ledger) (auto simp: overdue_loan_def)
  have order: "sorted_wrt (due_before rows) ?all"
    by (rule sorted_wrt_mono_rel [OF _ overdue_order [OF ids]]) (use latest in \<open>auto simp: due_before_def\<close>)
  have least: "due_before rows a b"
    if "a \<in> set found" "0 < b" "overdue_loan (termLedgers cfg) currentLedger rows b" "b \<notin> set found" for a b
  proof -
    have "a \<in> set (take ?n ?all)" "b \<in> set ?all" "b \<notin> set (take ?n ?all)" using that all by (auto simp: found)
    then have "b \<in> set (drop ?n ?all)" by (metis UnE append_take_drop_id set_append)
    moreover have "sorted_wrt (due_before rows) (take ?n ?all @ drop ?n ?all)" using order by simp
    ultimately show ?thesis using \<open>a \<in> set (take ?n ?all)\<close> unfolding sorted_wrt_append by blast
  qed
  have full: "set found = {l. 0 < l \<and> overdue_loan (termLedgers cfg) currentLedger rows l}"
    if "card {l. overdue_loan (termLedgers cfg) currentLedger rows l} \<le> ?n"
  proof -
    have "length ?all \<le> ?n" using that distinct_card [OF dist] by (simp only: all)
    then show ?thesis using all unfolding found by (auto simp: overdue_ids_iff)
  qed
  have "sorted_wrt (due_before rows) found" unfolding found using order by (intro sorted_wrt_filter sorted_wrt_take)
  moreover have "distinct found" unfolding found using dist by simp
  ultimately show ?thesis using len fetchOverdue_set [of cfg currentLedger rows] least full assms by blast
qed

subsection \<open>Batches\<close>

lemma parsePositiveInt_pos: "0 < fallback \<Longrightarrow> 0 < parsePositiveInt v fallback"
  by (simp add: parsePositiveInt_def split: option.splits)

lemma submit_loanIds: "br_loanIds (submitCheckDefaultsWithTimeout cfg se b) = b"
  by (auto simp: submitCheckDefaultsWithTimeout_def submitCheckDefaults_def batch_failed_def
      split: sum.splits prod.splits)

lemma chunk_from_lengths: "0 < n \<Longrightarrow> b \<in> set (chunk_from n xs) \<Longrightarrow> 0 < length b \<and> length b \<le> n"
proof (induction n xs rule: chunk_from.induct)
  case (1 n xs)
  from 1(3) have "xs \<noteq> []" "b = take n xs \<or> b \<in> set (chunk_from n (drop n xs))"
    by (subst (asm) chunk_from.simps; simp split: if_splits)+
  with 1 show ?case by auto
qed

lemma nonempty_chunks: "0 < sz \<Longrightarrow> filter (\<lambda>b. b \<noteq> []) (chunk xs sz) = chunk xs sz"
  using chunk_from_lengths [of "nat sz" _ xs] by (auto simp: chunk_def filter_id_conv)

text \<open>
  C21. A run submits every loan it targets exactly once. With the numbers of the constructor, the loans of the batches, taken
  together, are distinct; they are the positive ids the caller gave, or, when there are none, the overdue loans found; no batch is
  empty or larger than the batch size; every batch has a result whether it was sent, failed or timed out, and the counts add up.
\<close>

theorem run_check_batches:
  assumes "cfg = new_checker vars" "run_check cfg env cks rows loanIds = Inr res" "\<not> skipped res"
    and "given = (case loanIds of None \<Rightarrow> {} | Some ids \<Rightarrow> {i \<in> set ids. 0 < i})"
    and "submitted = concat (map br_loanIds (batches res))"
  shows "distinct submitted
    \<and> set submitted = (if given = {} then set (fetchOverdueLoanIds cfg (rr_currentLedger res) rows) else given)
    \<and> loansChecked res = length submitted
    \<and> (\<forall>b\<in>set (batches res). br_loanIds b \<noteq> [] \<and> int (length (br_loanIds b)) \<le> ch_batchSize cfg)
    \<and> successfulSubmissions res + failedSubmissions res = length (batches res)"
proof -
  have pos: "0 < ch_batchSize cfg" "0 < concurrency cfg"
    unfolding assms(1) by (simp_all add: new_checker_def parsePositiveInt_pos)
  let ?submit = "\<lambda>b. submitCheckDefaultsWithTimeout cfg (ce_submit env b) b"
  obtain cur ids where run: "target_ids cfg env loanIds cur rows = Inr ids" "rr_currentLedger res = cur"
    "batches res = map ?submit (chunk ids (ch_batchSize cfg))" "loansChecked res = length ids"
    "successfulSubmissions res = length (filter submitted_ok (batches res))"
    "failedSubmissions res = length (filter (\<lambda>b. \<not> submitted_ok b) (batches res))"
    using assms(2,3) pos
    by (auto simp: run_check_def try_then_Inr skipped_run_def mapConcurrent_map nonempty_chunks Let_def
        split: if_splits sum.splits option.splits)
  have ids: "map br_loanIds (batches res) = chunk ids (ch_batchSize cfg)"
    by (simp add: run(3) submit_loanIds comp_def)
  then have "\<forall>b\<in>set (batches res). br_loanIds b \<in> set (chunk ids (ch_batchSize cfg))" by (metis image_eqI set_map)
  then have sizes: "\<forall>b\<in>set (batches res). br_loanIds b \<noteq> [] \<and> int (length (br_loanIds b)) \<le> ch_batchSize cfg"
    using pos(1) chunk_from_lengths [of "nat (ch_batchSize cfg)" _ ids] by (fastforce simp: chunk_def)
  have sub: "submitted = ids" using ids concat_chunk [of ids "ch_batchSize cfg"] pos(1) assms(5) by simp
  have target: "distinct ids \<and> set ids = (if given = {} then set (fetchOverdueLoanIds cfg cur rows) else given)"
    using run(1) assms(4) distinct_fetchOverdue [of cfg cur rows]
    by (auto simp: target_ids_def Let_def filter_empty_conv split: if_splits option.splits)
  show ?thesis
    using run sub target sizes sum_length_filter_compl [of submitted_ok "batches res"] by (simp add: add.commute)
qed

subsection \<open>The lock\<close>

lemma setNotExists_reserve:
  "setNotExists r key v ttl c = (fst (reserve r key v ttl c) = Inr True, snd (reserve r key v ttl c))"
  by (auto simp: setNotExists_def reserve_def ensureConnected_def split: prod.splits bool.splits sum.splits)

lemma acquireLock_view:
  assumes "redis_ok r view"
  shows "fst (acquireLock r v st) \<Longrightarrow> cview view (ch_cache st) LOCK_KEY = None
      \<and> cview view (ch_cache (snd (acquireLock r v st))) = (cview view (ch_cache st))(LOCK_KEY \<mapsto> stringify (JStr v))
      \<and> currentLockValue (snd (acquireLock r v st)) = Some v"
    and "cview view (ch_cache st) LOCK_KEY \<noteq> None \<Longrightarrow> \<not> fst (acquireLock r v st)
      \<and> cview view (ch_cache (snd (acquireLock r v st))) = cview view (ch_cache st)"
  using reserve_view [OF assms, of LOCK_KEY "JStr v" LOCK_TTL_SECONDS "ch_cache st"]
  by (auto simp: acquireLock_def setNotExists_reserve split: prod.splits bool.splits sum.splits if_splits)

lemma releaseLock_view:
  assumes "redis_ok r view"
  shows "cview view (ch_cache (releaseLock r st)) = cview view (ch_cache st)
    \<or> (\<exists>v. currentLockValue st = Some v \<and> cview view (ch_cache st) LOCK_KEY = Some (stringify (JStr v))
         \<and> cview view (ch_cache (releaseLock r st)) = (cview view (ch_cache st))(LOCK_KEY := None))"
proof (cases "currentLockValue st")
  case (Some v)
  then show ?thesis
    using deleteIfMatch_view(1) [OF assms, of LOCK_KEY "JStr v" "ch_cache st"] by (auto simp: releaseLock_def)
qed (simp add: releaseLock_def)

text \<open>
  Runs exclude each other and clean up after themselves: while another run's lock is in Redis a
  run does nothing at all and answers \<open>null\<close>; a run that did take the lock found it free, touches no
  other key, and leaves its own lock behind only if Redis refused to delete it; and a run whose
  lock has expired and belongs to another instance meanwhile leaves that lock in place.
\<close>

theorem checker_lock_exclusive:
  assumes "redis_ok r view"
  shows "(cview view (ch_cache st) LOCK_KEY \<noteq> None \<longrightarrow>
        fst (checkOverdueLoans r cfg env cks rows loanIds st) = Inr None
        \<and> cview view (ch_cache (snd (checkOverdueLoans r cfg env cks rows loanIds st))) = cview view (ch_cache st))
    \<and> (fst (acquireLock r (ce_lockValue env) st) \<longrightarrow>
        cview view (ch_cache st) LOCK_KEY = None
        \<and> cview view (ch_cache (snd (checkOverdueLoans r cfg env cks rows loanIds st)))
           \<in> {cview view (ch_cache st), (cview view (ch_cache st))(LOCK_KEY \<mapsto> stringify (JStr (ce_lockValue env)))})
    \<and> (cview view (ch_cache st) LOCK_KEY = Some (stringify (JStr other)) \<and> currentLockValue st \<noteq> Some other \<longrightarrow>
        cview view (ch_cache (releaseLock r st)) = cview view (ch_cache st))"
proof (intro conjI impI)
  let ?v = "ce_lockValue env" and ?run = "checkOverdueLoans r cfg env cks rows loanIds st"
  show "fst ?run = Inr None" "cview view (ch_cache (snd ?run)) = cview view (ch_cache st)"
    if "cview view (ch_cache st) LOCK_KEY \<noteq> None"
    using acquireLock_view(2) [OF assms that, of ?v] by (auto simp: checkOverdueLoans_def split: prod.splits bool.splits)
  show "cview view (ch_cache st) LOCK_KEY = None" if "fst (acquireLock r ?v st)"
    using acquireLock_view(1) [OF assms that] by simp
  show "cview view (ch_cache (snd ?run)) \<in> {cview view (ch_cache st), (cview view (ch_cache st))(LOCK_KEY \<mapsto> stringify (JStr ?v))}"
    if acq: "fst (acquireLock r ?v st)"
  proof -
    obtain st1 where st1: "acquireLock r ?v st = (True, st1)" using acq by (cases "acquireLock r ?v st") auto
    have v: "cview view (ch_cache st) LOCK_KEY = None"
      "cview view (ch_cache st1) = (cview view (ch_cache st))(LOCK_KEY \<mapsto> stringify (JStr ?v))"
      using acquireLock_view(1) [OF assms acq] st1 by simp_all
    have "snd ?run = releaseLock r st1" using st1 by (simp add: checkOverdueLoans_def)
    with releaseLock_view [OF assms, of st1] v show ?thesis by (auto simp: fun_upd_idem)
  qed
  show "cview view (ch_cache (releaseLock r st)) = cview view (ch_cache st)"
    if other: "cview view (ch_cache st) LOCK_KEY = Some (stringify (JStr other)) \<and> currentLockValue st \<noteq> Some other"
  proof -
    have "v = other" if "stringify (JStr v) = stringify (JStr other)" for v
      using that stringify_eq_iff [of "JStr v" "JStr other"] by simp
    with releaseLock_view [OF assms, of st] other show ?thesis by auto
  qed
qed

text \<open>
  A loan with a single repayment, of whatever amount, is never found overdue again, although it
  may still owe most of its principal.
\<close>

theorem partial_repayment_hides_loan:
  assumes "row \<in> set rows" "ce_event_type row = ''LoanRepaid''" "ce_loan_id row = Some l"
  shows "l \<notin> set (fetchOverdueLoanIds cfg currentLedger rows)"
  using fetchOverdue_set [of cfg currentLedger rows] assms by (auto simp: overdue_loan_def)

subsection \<open>Witnesses\<close>

definition no_vars :: checker_vars where
  "no_vars = \<lparr>LOAN_MANAGER_CONTRACT_ID = Some ''C1'', LOAN_MANAGER_ADMIN_SECRET = Some ''S'', LOAN_TERM_LEDGERS = None,
     DEFAULT_CHECK_BATCH_SIZE = None, DEFAULT_CHECK_BATCH_TIMEOUT_MS = None, DEFAULT_CHECK_MAX_LOANS_PER_RUN = None,
     DEFAULT_CHECK_CONCURRENCY = None\<rparr>"

definition demo_submit :: submit_env where
  "demo_submit = \<lparr>se_account = Inr (), se_build = Inr (), se_prepare = Inr (),
     se_send = Inr (Some ''tx'', Some ''PENDING''), se_poll = Inr ''SUCCESS'', se_timeout = False\<rparr>"

definition demo_check :: chain_env where
  "demo_check = \<lparr>ce_lockValue = ''mine'', ce_secret = Some ''S'', ce_valid_secret = (\<lambda>_. True), ce_gaps_readable = True,
     ce_latest = Inr 20000, ce_stats_fault = None, ce_ids_fault = None, ce_submit = (\<lambda>_. demo_submit)\<rparr>"

definition approved_row :: "int \<Rightarrow> int \<Rightarrow> contract_event" where
  "approved_row l ledger = (repaid_row ''a'' ledger)\<lparr>ce_event_type := ''LoanApproved'', ce_loan_id := Some l, ce_amount := None\<rparr>"

lemma approved_row_sel [simp]:
  "ce_event_type (approved_row l n) = ''LoanApproved''" "ce_loan_id (approved_row l n) = Some l" "ce_ledger (approved_row l n) = n"
  by (simp_all add: approved_row_def repaid_row_def)

lemma demo_checker: "termLedgers (new_checker no_vars) = 17280" "maxLoansPerRun (new_checker no_vars) = 500"
  by (simp_all add: new_checker_def no_vars_def parsePositiveInt_def parseInt_def DEFAULT_TERM_LEDGERS_def)

lemma demo_overdue: "overdue_loan 17280 20000 [approved_row 7 10, approved_row 8 5000] l \<longleftrightarrow> l = 7"
  by (auto simp: overdue_loan_def approval_def)

theorem fetchOverdueLoanIds_exact_witness:
  "set (fetchOverdueLoanIds (new_checker no_vars) 20000 [approved_row 7 10, approved_row 8 5000]) = {7}"
proof -
  have "{l. overdue_loan 17280 20000 [approved_row 7 10, approved_row 8 5000] l} = {7}" using demo_overdue by blast
  with fetchOverdueLoanIds_exact [OF refl, where cfg = "new_checker no_vars" and currentLedger = 20000
      and rows = "[approved_row 7 10, approved_row 8 5000]"]
  show ?thesis by (auto simp: demo_checker demo_overdue)
qed

theorem run_check_batches_witness:
  "\<exists>res. run_check (new_checker no_vars) demo_check [] [] (Some [4, 9, 4]) = Inr res
     \<and> distinct (concat (map br_loanIds (batches res))) \<and> set (concat (map br_loanIds (batches res))) = {4, 9}
     \<and> successfulSubmissions res + failedSubmissions res = length (batches res)"
proof -
  obtain res where res: "run_check (new_checker no_vars) demo_check [] [] (Some [4, 9, 4]) = Inr res" "\<not> skipped res"
    by (simp add: run_check_def assertConfigured_def new_checker_def no_vars_def demo_check_def hasSuspectLedgerRanges_def
        hasUnresolvedLedgerGaps_def target_ids_def Let_def)
  have "{i \<in> set [4, 9, 4]. 0 < i} = {4, 9 :: int}" by auto
  with run_check_batches [OF refl res refl refl] res(1) show ?thesis by auto
qed

definition locked_state :: "(string \<Rightarrow> string option) checker_state" where
  "locked_state = \<lparr>ch_cache = \<lparr>isConnected = True, server = [LOCK_KEY \<mapsto> stringify (JStr ''theirs'')]\<rparr>, currentLockValue = None\<rparr>"

theorem checker_lock_exclusive_witness:
  "fst (checkOverdueLoans map_redis (new_checker no_vars) demo_check [] [] None locked_state) = Inr None"
  using checker_lock_exclusive [OF map_redis_ok, of locked_state "new_checker no_vars" demo_check "[]" "[]" None]
  by (simp add: locked_state_def)

theorem partial_repayment_hides_loan_witness:
  "7 \<notin> set (fetchOverdueLoanIds (new_checker no_vars) 100000 [approved_row 7 10, repaid_row ''e1'' 20])"
  by (rule partial_repayment_hides_loan [of "repaid_row ''e1'' 20"]) (simp_all add: repaid_row_def)

end
