(* ===== verification/IndexerManager.thy ===== *)
theory IndexerManager
  imports EventIndexer
begin

section \<open>Starting the indexer (\<open>backend/src/services/indexerManager.ts\<close>)\<close>

text \<open>
  The one indexer instance of a process and the configuration it is built from. A number setting
  that does not parse is \<open>NaN\<close> in the source; here the configuration is then \<open>None\<close>.
\<close>

record manager_vars =
  mv_LOAN_MANAGER_CONTRACT_ID :: "string option"
  mv_LENDING_POOL_CONTRACT_ID :: "string option"
  mv_REMITTANCE_NFT_CONTRACT_ID :: "string option"
  mv_MULTISIG_GOVERNANCE_CONTRACT_ID :: "string option"
  mv_INDEXER_POLL_INTERVAL_MS :: "string option"
  mv_INDEXER_BATCH_SIZE :: "string option"
  mv_INDEXER_FINALITY_DEPTH :: "string option"

definition manager_contracts :: "manager_vars \<Rightarrow> string list" where
  "manager_contracts mv =
     List.map_filter (\<lambda>v. case v of Some c \<Rightarrow> if trim c \<noteq> [] then Some c else None | None \<Rightarrow> None)
       [mv_LOAN_MANAGER_CONTRACT_ID mv, mv_LENDING_POOL_CONTRACT_ID mv, mv_REMITTANCE_NFT_CONTRACT_ID mv,
        mv_MULTISIG_GOVERNANCE_CONTRACT_ID mv]"

definition setting :: "string option \<Rightarrow> string \<Rightarrow> int option" where
  "setting v dflt = parseInt (case v of Some s \<Rightarrow> if s = [] then dflt else s | None \<Rightarrow> dflt)"

datatype start_result = AlreadyRunning | NoContracts | Configured "EventIndexerConfig option"

definition startIndexer :: "manager_vars \<Rightarrow> bool \<Rightarrow> start_result" where
  "startIndexer mv instance_exists =
     (if instance_exists then AlreadyRunning
      else if manager_contracts mv = [] then NoContracts
      else Configured
        (case (setting (mv_INDEXER_POLL_INTERVAL_MS mv) ''30000'', setting (mv_INDEXER_BATCH_SIZE mv) ''100'',
               setting (mv_INDEXER_FINALITY_DEPTH mv) ''5'') of
           (Some ms, Some sz, Some depth) \<Rightarrow>
             Some \<lparr>cfg_contractId = None, cfg_contractIds = None, cfg_contractConfigs = Some (manager_contracts mv),
                   cfg_pollIntervalMs = Some ms, cfg_batchSize = Some sz,
                   cfg_finalityDepth = Some depth\<rparr>
         | _ \<Rightarrow> None))"

text \<open>The instance after \<open>startIndexer\<close> and \<open>stopIndexer\<close>: the number of indexers started and not stopped.\<close>

record manager_state =
  indexerInstance :: "loop_state option"

definition run_startIndexer :: "manager_vars \<Rightarrow> manager_state \<Rightarrow> manager_state" where
  "run_startIndexer mv m =
     (case startIndexer mv (indexerInstance m \<noteq> None) of
        Configured _ \<Rightarrow>
          m\<lparr>indexerInstance := Some (start_loop
              \<lparr>ls_running = False, ls_polls = 0, ls_timeouts = [], ls_pollTimeout = None, ls_next = 0\<rparr>)\<rparr>
      | _ \<Rightarrow> m)"

definition stopIndexer :: "manager_state \<Rightarrow> manager_state" where
  "stopIndexer m = m\<lparr>indexerInstance := None\<rparr>"

text \<open>When the loan manager is configured, checkpoints and positions are kept under its id.\<close>

lemma manager_contract_first:
  assumes "startIndexer mv False = Configured (Some icfg)" "new_from_config ienv icfg = Inr cfg"
    and "mv_LOAN_MANAGER_CONTRACT_ID mv = Some c" "trim c \<noteq> []"
  shows "getContractId cfg = c"
proof -
  have ne: "c \<noteq> []" using assms(4) by (auto simp: trim_def)
  obtain rest where ids: "manager_contracts mv = c # rest"
    using assms(3,4) by (auto simp: manager_contracts_def List.map_filter_simps)
  have "cfg_contractConfigs icfg = Some (c # rest)" "cfg_contractIds icfg = None" "cfg_contractId icfg = None"
    using assms(1) ids by (auto simp: startIndexer_def split: if_splits option.splits)
  then have "contractIds cfg = unique_ids (c # filter (\<lambda>c. c \<noteq> []) rest)"
    using assms(2) ne by (auto simp: new_from_config_def Let_def split: if_splits)
  then show ?thesis by (simp add: getContractId_def)
qed

end
