(* ===== verification/NetAddress.thy ===== *)
theory NetAddress
  imports JsonParse "HOL-Library.Word"
begin

section \<open>Callback addresses (\<open>backend/src/services/webhookService.ts\<close>)\<close>

text \<open>
  The guard against callbacks into private networks: \<open>net.isIP\<close>, the block list of \<open>node:net\<close>, and
  the checks built on them. Addresses are words of 32 and 128 bits. \<open>new URL\<close> and the two DNS lookups
  are parameters: the host name of a URL, and the addresses a name resolves to at the moment of the
  check. Shown: for every IPv4 address, plain or mapped into IPv6, exactly the private ranges are
  blocked; for every IPv6 address, exactly the local ones; a check that passes means that no address
  it saw is blocked.
\<close>

datatype ip = V4 "32 word" | V6 "128 word"

subsection \<open>\<open>net.isIP\<close>\<close>

definition v4_octet :: "string \<Rightarrow> nat option" where
  "v4_octet s =
     (if s \<noteq> [] \<and> length s \<le> 3 \<and> list_all is_digit s \<and> (length s = 1 \<or> hd s \<noteq> CHR ''0'') \<and> string_to_nat s \<le> 255
      then Some (string_to_nat s) else None)"

definition v4_word :: "nat \<Rightarrow> nat \<Rightarrow> nat \<Rightarrow> nat \<Rightarrow> 32 word" where
  "v4_word a b c d = of_nat (((a * 256 + b) * 256 + c) * 256 + d)"

definition parse_v4 :: "string \<Rightarrow> (nat \<times> nat \<times> nat \<times> nat) option" where
  "parse_v4 s =
     (case map v4_octet (split_on (CHR ''.'') s) of
        [Some a, Some b, Some c, Some d] \<Rightarrow> Some (a, b, c, d)
      | _ \<Rightarrow> None)"

definition hex_value :: "string \<Rightarrow> nat" where
  "hex_value s = foldl (\<lambda>n c. 16 * n + (case hex_nibble c of Some k \<Rightarrow> k | None \<Rightarrow> 0)) 0 s"

definition v6_group :: "string \<Rightarrow> nat option" where
  "v6_group s =
     (if s \<noteq> [] \<and> length s \<le> 4 \<and> list_all (\<lambda>c. hex_nibble c \<noteq> None) s then Some (hex_value s) else None)"

text \<open>Groups between colons; the last one may be an IPv4 address where \<open>v4\<close> allows it.\<close>

fun v6_groups :: "bool \<Rightarrow> string list \<Rightarrow> nat list option" where
  "v6_groups v4 [] = Some []"
| "v6_groups v4 (p # ps) =
     (case v6_group p of
        Some g \<Rightarrow> map_option ((#) g) (v6_groups v4 ps)
      | None \<Rightarrow>
          if v4 \<and> ps = [] then map_option (\<lambda>(a, b, c, d). [a * 256 + b, c * 256 + d]) (parse_v4 p) else None)"

text \<open>The text before and after the first \<open>::\<close>.\<close>

fun cut_double :: "string \<Rightarrow> (string \<times> string) option" where
  "cut_double (c # d # s) =
     (if c = CHR '':'' \<and> d = CHR '':'' then Some ([], s)
      else map_option (\<lambda>(l, r). (c # l, r)) (cut_double (d # s)))"
| "cut_double _ = None"

definition colon_groups :: "bool \<Rightarrow> string \<Rightarrow> nat list option" where
  "colon_groups v4 s = (if s = [] then Some [] else v6_groups v4 (split_on (CHR '':'') s))"

definition zone_char :: "char \<Rightarrow> bool" where
  "zone_char c \<longleftrightarrow>
     (let n = (of_char c :: nat) in
      is_digit c \<or> (65 \<le> n \<and> n \<le> 90) \<or> (97 \<le> n \<and> n \<le> 122) \<or> c = CHR ''-'' \<or> c = CHR ''.'' \<or> c = CHR '':'')"

definition strip_zone :: "string \<Rightarrow> string option" where
  "strip_zone s =
     (let addr = takeWhile (\<lambda>c. c \<noteq> CHR ''%'') s; zone = dropWhile (\<lambda>c. c \<noteq> CHR ''%'') s in
      if zone = [] then Some addr
      else if tl zone \<noteq> [] \<and> list_all zone_char (tl zone) then Some addr else None)"

definition parse_v6 :: "string \<Rightarrow> nat list option" where
  "parse_v6 text =
     Option.bind (strip_zone text) (\<lambda>s.
       case cut_double s of
         None \<Rightarrow> Option.bind (colon_groups True s) (\<lambda>gs. if length gs = 8 then Some gs else None)
       | Some (l, r) \<Rightarrow>
           Option.bind (colon_groups False l) (\<lambda>ls.
           Option.bind (colon_groups True r) (\<lambda>rs.
             if length ls + length rs \<le> 7
             then Some (ls @ replicate (8 - length ls - length rs) 0 @ rs) else None)))"

definition v6_word :: "nat list \<Rightarrow> 128 word" where
  "v6_word gs = of_nat (foldl (\<lambda>n g. n * 65536 + g) 0 gs)"

definition parse_ip :: "string \<Rightarrow> ip option" where
  "parse_ip s =
     (case parse_v4 s of
        Some (a, b, c, d) \<Rightarrow> Some (V4 (v4_word a b c d))
      | None \<Rightarrow> map_option (\<lambda>gs. V6 (v6_word gs)) (parse_v6 s))"

definition isIP :: "string \<Rightarrow> nat" where
  "isIP s = (case parse_ip s of None \<Rightarrow> 0 | Some (V4 _) \<Rightarrow> 4 | Some (V6 _) \<Rightarrow> 6)"

subsection \<open>The block list\<close>

text \<open>
  \<open>BlockList\<close>: an address is in a subnet when it has the same leading bits. An IPv6 address is
  compared with an IPv4 subnet when it is IPv4-mapped, and an IPv4 address with an IPv6 subnet as
  its mapped form.
\<close>

definition mapped :: "32 word \<Rightarrow> 128 word" where
  "mapped a = of_nat (65535 * 2 ^ 32 + unat a)"

definition unmapped :: "128 word \<Rightarrow> 32 word option" where
  "unmapped a = (if drop_bit 32 a = 65535 then Some (ucast a) else None)"

fun in_subnet :: "ip \<Rightarrow> ip \<Rightarrow> nat \<Rightarrow> bool" where
  "in_subnet (V4 a) (V4 net) prefix \<longleftrightarrow> drop_bit (32 - prefix) a = drop_bit (32 - prefix) net"
| "in_subnet (V6 a) (V4 net) prefix \<longleftrightarrow>
     (case unmapped a of Some b \<Rightarrow> drop_bit (32 - prefix) b = drop_bit (32 - prefix) net | None \<Rightarrow> False)"
| "in_subnet (V4 a) (V6 net) prefix \<longleftrightarrow> drop_bit (128 - prefix) (mapped a) = drop_bit (128 - prefix) net"
| "in_subnet (V6 a) (V6 net) prefix \<longleftrightarrow> drop_bit (128 - prefix) a = drop_bit (128 - prefix) net"

definition BLOCKED_RANGES :: "(ip \<times> nat) list" where
  "BLOCKED_RANGES =
     [(V4 (v4_word 0 0 0 0), 8), (V4 (v4_word 10 0 0 0), 8), (V4 (v4_word 100 64 0 0), 10), (V4 (v4_word 127 0 0 0), 8),
      (V4 (v4_word 169 254 0 0), 16), (V4 (v4_word 172 16 0 0), 12), (V4 (v4_word 192 168 0 0), 16),
      (V6 (v6_word [0, 0, 0, 0, 0, 0, 0, 0]), 128), (V6 (v6_word [0, 0, 0, 0, 0, 0, 0, 1]), 128),
      (V6 (v6_word [0xfc00, 0, 0, 0, 0, 0, 0, 0]), 7), (V6 (v6_word [0xfe80, 0, 0, 0, 0, 0, 0, 0]), 10)]"

definition blocked :: "ip \<Rightarrow> bool" where
  "blocked a \<longleftrightarrow> list_ex (\<lambda>(net, prefix). in_subnet a net prefix) BLOCKED_RANGES"

subsection \<open>The checks\<close>

text \<open>\<open>replace(/^\[|\]$/g, '')\<close>.\<close>

definition strip_brackets :: "string \<Rightarrow> string" where
  "strip_brackets s =
     (let t = (case s of c # cs \<Rightarrow> if c = CHR ''['' then cs else s | [] \<Rightarrow> []) in
      if t \<noteq> [] \<and> last t = CHR '']'' then butlast t else t)"

definition isPrivateIp :: "string \<Rightarrow> bool" where
  "isPrivateIp s = (case parse_ip (strip_brackets s) of None \<Rightarrow> False | Some a \<Rightarrow> blocked a)"

definition lower_char :: "char \<Rightarrow> char" where
  "lower_char c =
     (let n = (of_char c :: nat) in if (65 \<le> n \<and> n \<le> 90) \<or> (192 \<le> n \<and> n \<le> 222 \<and> n \<noteq> 215) then char_of (n + 32) else c)"

definition ends_with :: "string \<Rightarrow> string \<Rightarrow> bool" where
  "ends_with suf s \<longleftrightarrow> length suf \<le> length s \<and> drop (length s - length suf) s = suf"

definition isPrivateHost :: "string \<Rightarrow> bool" where
  "isPrivateHost hostname =
     (let host = map lower_char (strip_brackets hostname) in
      if host = ''localhost'' \<or> ends_with ''.localhost'' host then True
      else if host = ''metadata.google.internal'' then True
      else if isIP host = 0 \<and> CHR ''.'' \<notin> set host then True
      else isPrivateIp host)"

datatype callback_error = InvalidCallbackUrl | DisallowedCallbackUrl

record resolver =
  url_hostname :: "string \<Rightarrow> string option"
  resolve4 :: "string \<Rightarrow> string list option"
  resolve6 :: "string \<Rightarrow> string list option"

text \<open>The addresses of a name; a failing lookup contributes none.\<close>

definition resolved :: "resolver \<Rightarrow> string \<Rightarrow> string list" where
  "resolved net host =
     (case resolve4 net host of None \<Rightarrow> [] | Some as \<Rightarrow> as) @ (case resolve6 net host of None \<Rightarrow> [] | Some as \<Rightarrow> as)"

definition assertCallbackUrlSafe :: "resolver \<Rightarrow> string \<Rightarrow> callback_error + unit" where
  "assertCallbackUrlSafe net callbackUrl =
     (case url_hostname net callbackUrl of
        None \<Rightarrow> Inl InvalidCallbackUrl
      | Some hostname \<Rightarrow>
          let bare = strip_brackets hostname in
          if isIP bare \<noteq> 0 then (if isPrivateIp bare then Inl DisallowedCallbackUrl else Inr ())
          else if list_ex isPrivateIp (resolved net hostname) then Inl DisallowedCallbackUrl
          else Inr ())"

subsection \<open>Exactness\<close>

text \<open>The printed form of an IPv4 address.\<close>

definition v4_text :: "nat \<Rightarrow> nat \<Rightarrow> nat \<Rightarrow> nat \<Rightarrow> string" where
  "v4_text a b c d = nat_to_string a @ ''.'' @ nat_to_string b @ ''.'' @ nat_to_string c @ ''.'' @ nat_to_string d"

definition private_v4 :: "nat \<Rightarrow> nat \<Rightarrow> bool" where
  "private_v4 a b \<longleftrightarrow> a = 0 \<or> a = 10 \<or> (a = 100 \<and> 64 \<le> b \<and> b \<le> 127) \<or> a = 127 \<or> (a = 169 \<and> b = 254)
     \<or> (a = 172 \<and> 16 \<le> b \<and> b \<le> 31) \<or> (a = 192 \<and> b = 168)"

lemma nat_to_string_hd: "0 < n \<Longrightarrow> hd (nat_to_string n) \<noteq> CHR ''0''"
proof (induction n rule: nat_to_string.induct)
  case (1 n)
  show ?case
  proof (cases "n < 10")
    case True
    then have "char_digit (hd (nat_to_string n)) = n" by (simp add: nat_to_string.simps [of n])
    moreover have "char_digit (CHR ''0'') = 0" by (simp add: char_digit_def)
    ultimately show ?thesis using 1(2) by auto
  next
    case False
    with 1 show ?thesis by (simp add: nat_to_string.simps [of n] hd_append)
  qed
qed

lemma v4_octet_print: "n \<le> 255 \<Longrightarrow> v4_octet (nat_to_string n) = Some n"
proof -
  assume n: "n \<le> 255"
  then have "length (nat_to_string n) \<le> 3" by (intro nat_to_string_length) auto
  moreover have "length (nat_to_string n) = 1 \<or> hd (nat_to_string n) \<noteq> CHR ''0''"
    using nat_to_string_hd [of n] by (cases "n = 0") (simp_all add: nat_to_string.simps [of 0])
  ultimately show ?thesis using n nat_to_string_digits [of n] by (simp add: v4_octet_def)
qed

lemma digits_free: "\<not> is_digit x \<Longrightarrow> x \<notin> set (nat_to_string n)"
  using nat_to_string_digits [of n] by (auto simp: list_all_iff)

lemma parse_v4_text:
  assumes "a \<le> 255" "b \<le> 255" "c \<le> 255" "d \<le> 255"
  shows "parse_v4 (v4_text a b c d) = Some (a, b, c, d)"
proof -
  have "CHR ''.'' \<notin> set (nat_to_string n)" for n by (rule digits_free) (simp add: is_digit_def)
  then show ?thesis
    using assms by (simp add: parse_v4_def v4_text_def split_on_sep split_on_absent v4_octet_print)
qed

text \<open>Prefixes of words as quotients.\<close>

lemma unat_prefix: "unat (drop_bit k x) = unat x div 2 ^ k"
  by (subst unat_drop_bit_eq) (rule drop_bit_eq_div)

lemma prefix_is: "drop_bit k x = y \<longleftrightarrow> unat x div 2 ^ k = unat y"
  by (simp only: word_unat_eq_iff unat_prefix)

lemma same_prefix: "drop_bit k x = drop_bit k y \<longleftrightarrow> unat x div 2 ^ k = unat y div 2 ^ k"
  by (simp only: word_unat_eq_iff unat_prefix)

lemma unat_bounds: "unat (w :: 32 word) < 2 ^ 32" "unat (v :: 128 word) < 2 ^ 128"
  using unsigned_less [of w] unsigned_less [of v] by simp_all

lemma quotient_is: "0 < k \<Longrightarrow> n div k = q \<longleftrightarrow> q * k \<le> n \<and> n < q * k + (k :: nat)"
  by (metis div_nat_eqI div_times_less_eq_dividend dividend_less_div_times mult.commute mult_Suc_right add.commute)

definition v4_nat :: "nat \<Rightarrow> nat \<Rightarrow> nat \<Rightarrow> nat \<Rightarrow> nat" where
  "v4_nat a b c d = ((a * 256 + b) * 256 + c) * 256 + d"

lemma v4_nat_flat: "v4_nat a b c d = 16777216 * a + 65536 * b + 256 * c + d"
  by (simp add: v4_nat_def)

lemma v4_nat_quotients:
  assumes "a \<le> 255" "b \<le> 255" "c \<le> 255" "d \<le> 255"
  shows "v4_nat a b c d < 2 ^ 32" "v4_nat a b c d div 2 ^ 24 = a" "v4_nat a b c d div 2 ^ 22 = 401 \<longleftrightarrow> a = 100 \<and> 64 \<le> b \<and> b \<le> 127"
    "v4_nat a b c d div 2 ^ 16 = a * 256 + b" "v4_nat a b c d div 2 ^ 20 = 2753 \<longleftrightarrow> a = 172 \<and> 16 \<le> b \<and> b \<le> 31"
proof -
  let ?n = "v4_nat a b c d"
  show "?n < 2 ^ 32" using assms by (simp add: v4_nat_def)
  show "?n div 2 ^ 24 = a" using assms by (simp add: v4_nat_def)
  show "?n div 2 ^ 16 = a * 256 + b" using assms by (simp add: v4_nat_def)
  show "?n div 2 ^ 22 = 401 \<longleftrightarrow> a = 100 \<and> 64 \<le> b \<and> b \<le> 127"
  proof
    assume "?n div 2 ^ 22 = 401"
    then have "401 * 4194304 \<le> ?n" "?n < 402 * 4194304" by simp_all
    moreover from this have "a = 100" unfolding v4_nat_flat using assms by linarith
    ultimately show "a = 100 \<and> 64 \<le> b \<and> b \<le> 127" unfolding v4_nat_flat using assms by linarith
  next
    assume "a = 100 \<and> 64 \<le> b \<and> b \<le> 127"
    then show "?n div 2 ^ 22 = 401" unfolding v4_nat_def using assms by simp linarith
  qed
  show "?n div 2 ^ 20 = 2753 \<longleftrightarrow> a = 172 \<and> 16 \<le> b \<and> b \<le> 31"
  proof
    assume "?n div 2 ^ 20 = 2753"
    then have "2753 * 1048576 \<le> ?n" "?n < 2754 * 1048576" by simp_all
    moreover from this have "a = 172" unfolding v4_nat_flat using assms by linarith
    ultimately show "a = 172 \<and> 16 \<le> b \<and> b \<le> 31" unfolding v4_nat_flat using assms by linarith
  next
    assume "a = 172 \<and> 16 \<le> b \<and> b \<le> 31"
    then show "?n div 2 ^ 20 = 2753" unfolding v4_nat_def using assms by simp linarith
  qed
qed

lemma unat_v4_word: "v4_nat a b c d < 2 ^ 32 \<Longrightarrow> unat (v4_word a b c d) = v4_nat a b c d"
  by (simp only: v4_word_def v4_nat_def unat_of_nat len_bit0 mod_less) simp

text \<open>The IPv4 part of the block list, on any word that holds the four octets.\<close>

definition in_v4_range :: "32 word \<Rightarrow> bool" where
  "in_v4_range w \<longleftrightarrow> unat w div 2 ^ 24 = 0 \<or> unat w div 2 ^ 24 = 10 \<or> unat w div 2 ^ 22 = 401 \<or> unat w div 2 ^ 24 = 127
     \<or> unat w div 2 ^ 16 = 43518 \<or> unat w div 2 ^ 20 = 2753 \<or> unat w div 2 ^ 16 = 49320"

lemma in_v4_range_private:
  assumes "a \<le> 255" "b \<le> 255" "c \<le> 255" "d \<le> 255" "unat w = v4_nat a b c d"
  shows "in_v4_range w \<longleftrightarrow> private_v4 a b"
proof -
  have "a * 256 + b = 43518 \<longleftrightarrow> a = 169 \<and> b = 254" "a * 256 + b = 49320 \<longleftrightarrow> a = 192 \<and> b = 168"
    using assms(2) by presburger+
  then show ?thesis
    by (simp only: in_v4_range_def assms(5) v4_nat_quotients [OF assms(1-4)] private_v4_def)
qed

lemma blocked_V4: "blocked (V4 w) \<longleftrightarrow> in_v4_range w"
proof -
  have "unat (mapped w) = 65535 * 2 ^ 32 + unat w"
    unfolding mapped_def unat_of_nat by (rule mod_less) (use unat_bounds(1) [of w] in simp)
  moreover have "unat w < 2 ^ 32" by (rule unat_bounds)
  ultimately have "unat (mapped w) div 2 ^ 121 = 0" "unat (mapped w) div 2 ^ 118 = 0" "1 < unat (mapped w)" by simp_all
  then have "drop_bit 121 (mapped w) \<noteq> 126" "drop_bit 118 (mapped w) \<noteq> 1018" "mapped w \<noteq> 0" "mapped w \<noteq> 1"
    by (simp_all only: prefix_is) auto
  then show ?thesis
    by (simp add: blocked_def BLOCKED_RANGES_def in_v4_range_def same_prefix unat_v4_word v4_nat_def v6_word_def unat_of_nat)
qed

text \<open>Eight groups as a number, and the quotients the block list looks at.\<close>

definition v6_nat :: "nat list \<Rightarrow> nat" where
  "v6_nat gs = foldl (\<lambda>n g. n * 65536 + g) 0 gs"

lemma v6_nat_Nil: "v6_nat [] = 0"
  by (simp add: v6_nat_def)

lemma v6_nat_snoc: "v6_nat (gs @ [g]) = v6_nat gs * 65536 + g"
  by (simp add: v6_nat_def)

lemma v6_nat_append: "v6_nat (gs @ hs) = v6_nat gs * 65536 ^ length hs + v6_nat hs"
proof (induction hs rule: rev_induct)
  case (snoc h hs)
  then show ?case using v6_nat_snoc [of "gs @ hs" h] v6_nat_snoc [of hs h] by (simp add: algebra_simps)
qed (simp add: v6_nat_Nil)

lemma v6_nat_less: "list_all (\<lambda>g. g < 65536) gs \<Longrightarrow> v6_nat gs < 65536 ^ length gs"
proof (induction gs rule: rev_induct)
  case (snoc g gs)
  then have "v6_nat gs + 1 \<le> 65536 ^ length gs" "g < 65536" by simp_all
  then have "(v6_nat gs + 1) * 65536 \<le> 65536 ^ length gs * 65536" by simp
  with \<open>g < 65536\<close> show ?case by (simp add: v6_nat_snoc)
qed (simp add: v6_nat_Nil)

lemma v6_nat_zero: "v6_nat gs = 0 \<longleftrightarrow> (\<forall>g\<in>set gs. g = 0)"
  by (induction gs rule: rev_induct) (auto simp: v6_nat_snoc v6_nat_Nil)

lemma v6_nat_split:
  assumes "list_all (\<lambda>g. g < 65536) (gs @ hs)"
  shows "v6_nat (gs @ hs) div 65536 ^ length hs = v6_nat gs" "v6_nat (gs @ hs) mod 65536 ^ length hs = v6_nat hs"
  using assms v6_nat_less [of hs] by (simp_all add: v6_nat_append)

lemma unat_v6_word: "v6_nat gs < 2 ^ 128 \<Longrightarrow> unat (v6_word gs) = v6_nat gs"
  by (simp only: v6_word_def v6_nat_def [symmetric] unat_of_nat) simp

lemma v6_eight:
  assumes "list_all (\<lambda>g. g < 65536) [g0, g1, g2, g3, g4, g5, g6, g7]"
  defines "n \<equiv> v6_nat [g0, g1, g2, g3, g4, g5, g6, g7]"
  shows "n < 2 ^ 128" "n div 2 ^ 112 = g0" "n div 2 ^ 32 = v6_nat [g0, g1, g2, g3, g4, g5]"
    "n mod 2 ^ 32 = g6 * 65536 + g7" "n \<le> 1 \<longleftrightarrow> v6_nat [g0, g1, g2, g3, g4, g5, g6] = 0 \<and> g7 \<le> 1"
proof -
  show "n < 2 ^ 128" using v6_nat_less [OF assms(1)] by (simp add: n_def)
  show "n div 2 ^ 112 = g0"
    using v6_nat_split(1) [of "[g0]" "[g1, g2, g3, g4, g5, g6, g7]"] assms(1) by (simp add: n_def v6_nat_def)
  show "n div 2 ^ 32 = v6_nat [g0, g1, g2, g3, g4, g5]"
    using v6_nat_split(1) [of "[g0, g1, g2, g3, g4, g5]" "[g6, g7]"] assms(1) by (simp add: n_def)
  show "n mod 2 ^ 32 = g6 * 65536 + g7"
    using v6_nat_split(2) [of "[g0, g1, g2, g3, g4, g5]" "[g6, g7]"] assms(1) by (simp add: n_def v6_nat_def)
  have "n = v6_nat [g0, g1, g2, g3, g4, g5, g6] * 65536 + g7"
    using v6_nat_snoc [of "[g0, g1, g2, g3, g4, g5, g6]" g7] by (simp add: n_def)
  then show "n \<le> 1 \<longleftrightarrow> v6_nat [g0, g1, g2, g3, g4, g5, g6] = 0 \<and> g7 \<le> 1" by auto
qed

lemma mapped_groups:
  assumes "list_all (\<lambda>g. g < 65536) [g0, g1, g2, g3, g4, g5]"
  shows "v6_nat [g0, g1, g2, g3, g4, g5] = 65535 \<longleftrightarrow> v6_nat [g0, g1, g2, g3, g4] = 0 \<and> g5 = 65535"
proof -
  have "v6_nat [g0, g1, g2, g3, g4, g5] = v6_nat [g0, g1, g2, g3, g4] * 65536 + g5"
    using v6_nat_snoc [of "[g0, g1, g2, g3, g4]" g5] by simp
  then show ?thesis using assms by (cases "v6_nat [g0, g1, g2, g3, g4] = 0") auto
qed

definition local_v6 :: "nat list \<Rightarrow> bool" where
  "local_v6 gs \<longleftrightarrow>
     (take 6 gs = [0, 0, 0, 0, 0, 65535] \<and> private_v4 (gs ! 6 div 256) (gs ! 6 mod 256))
     \<or> (take 7 gs = [0, 0, 0, 0, 0, 0, 0] \<and> gs ! 7 \<le> 1)
     \<or> (0xfc00 \<le> gs ! 0 \<and> gs ! 0 \<le> 0xfdff) \<or> (0xfe80 \<le> gs ! 0 \<and> gs ! 0 \<le> 0xfebf)"

lemma blocked_V6_cases:
  "blocked (V6 w) \<longleftrightarrow> (case unmapped w of Some b \<Rightarrow> in_v4_range b | None \<Rightarrow> False)
     \<or> unat w = 0 \<or> unat w = 1 \<or> unat w div 2 ^ 121 = 126 \<or> unat w div 2 ^ 118 = 1018"
proof -
  have six: "drop_bit 121 w = 126 \<longleftrightarrow> unat w div 2 ^ 121 = 126" "drop_bit 118 w = 1018 \<longleftrightarrow> unat w div 2 ^ 118 = 1018"
    "w = 0 \<longleftrightarrow> unat w = 0" "w = 1 \<longleftrightarrow> unat w = 1"
    by (simp_all only: prefix_is word_unat_eq_iff [of w]) simp_all
  have "blocked (V6 w) \<longleftrightarrow> (case unmapped w of Some b \<Rightarrow> in_v4_range b | None \<Rightarrow> False)
      \<or> w = 0 \<or> w = 1 \<or> drop_bit 121 w = 126 \<or> drop_bit 118 w = 1018"
    by (cases "unmapped w")
      (simp_all add: blocked_def BLOCKED_RANGES_def in_v4_range_def same_prefix unat_v4_word v4_nat_def v6_word_def)
  then show ?thesis by (simp only: six)
qed

lemma blocked_V6:
  assumes g: "list_all (\<lambda>g. g < 65536) [g0, g1, g2, g3, g4, g5, g6, g7]"
  shows "blocked (V6 (v6_word [g0, g1, g2, g3, g4, g5, g6, g7])) \<longleftrightarrow> local_v6 [g0, g1, g2, g3, g4, g5, g6, g7]"
proof -
  let ?gs = "[g0, g1, g2, g3, g4, g5, g6, g7]"
  let ?w = "v6_word ?gs"
  note q = v6_eight [OF g]
  have n: "unat ?w = v6_nat ?gs" by (rule unat_v6_word [OF q(1)])
  have m: "drop_bit 32 ?w = 65535 \<longleftrightarrow> v6_nat [g0, g1, g2, g3, g4] = 0 \<and> g5 = 65535"
  proof -
    have "unat (65535 :: 128 word) = 65535" "list_all (\<lambda>g. g < 65536) [g0, g1, g2, g3, g4, g5]" using g by simp_all
    from mapped_groups [OF this(2)] this(1) show ?thesis by (simp only: prefix_is n q(3))
  qed
  have "unat (ucast ?w :: 32 word) = g6 * 65536 + g7"
    using q(4) by (simp add: unsigned_ucast_eq n take_bit_eq_mod)
  also have "\<dots> = v4_nat (g6 div 256) (g6 mod 256) (g7 div 256) (g7 mod 256)"
    unfolding v4_nat_flat using mult_div_mod_eq [of 256 g6] mult_div_mod_eq [of 256 g7] by linarith
  finally have w: "unat (ucast ?w :: 32 word) = v4_nat (g6 div 256) (g6 mod 256) (g7 div 256) (g7 mod 256)" .
  have "g6 < 65536" "g7 < 65536" using g by simp_all
  then have "g6 div 256 \<le> 255" "g6 mod 256 \<le> 255" "g7 div 256 \<le> 255" "g7 mod 256 \<le> 255" by linarith+
  from in_v4_range_private [OF this w] m
  have inner: "(case unmapped ?w of Some b \<Rightarrow> in_v4_range b | None \<Rightarrow> False) \<longleftrightarrow>
      v6_nat [g0, g1, g2, g3, g4] = 0 \<and> g5 = 65535 \<and> private_v4 (g6 div 256) (g6 mod 256)"
    unfolding unmapped_def by (simp split: if_split) blast
  have "(2::nat) ^ 121 = 2 ^ 112 * 2 ^ 9" "(2::nat) ^ 118 = 2 ^ 112 * 2 ^ 6" by simp_all
  then have "v6_nat ?gs div 2 ^ 121 = g0 div 2 ^ 9" "v6_nat ?gs div 2 ^ 118 = g0 div 2 ^ 6"
    by (simp_all only: div_mult2_eq q(2))
  then have "v6_nat ?gs div 2 ^ 121 = 126 \<longleftrightarrow> 0xfc00 \<le> g0 \<and> g0 \<le> 0xfdff"
    and "v6_nat ?gs div 2 ^ 118 = 1018 \<longleftrightarrow> 0xfe80 \<le> g0 \<and> g0 \<le> 0xfebf"
    using quotient_is [of 512 g0 126] quotient_is [of 64 g0 1018] by auto
  moreover have "v6_nat ?gs = 0 \<or> v6_nat ?gs = 1 \<longleftrightarrow> v6_nat [g0, g1, g2, g3, g4, g5, g6] = 0 \<and> g7 \<le> 1"
    using q(5) by linarith
  moreover have "local_v6 ?gs \<longleftrightarrow> v6_nat [g0, g1, g2, g3, g4] = 0 \<and> g5 = 65535 \<and> private_v4 (g6 div 256) (g6 mod 256)
      \<or> v6_nat [g0, g1, g2, g3, g4, g5, g6] = 0 \<and> g7 \<le> 1
      \<or> 0xfc00 \<le> g0 \<and> g0 \<le> 0xfdff \<or> 0xfe80 \<le> g0 \<and> g0 \<le> 0xfebf"
    by (simp add: local_v6_def v6_nat_zero)
  ultimately show ?thesis unfolding blocked_V6_cases n inner by blast
qed

subsection \<open>Every text of an address\<close>

lemma hex_nibble_less: "hex_nibble c = Some k \<Longrightarrow> k < 16"
  by (auto simp: hex_nibble_def Let_def split: if_splits)

lemma hex_value_less: "hex_value s < 16 ^ length s"
proof (induction s rule: rev_induct)
  case (snoc c s)
  have "(case hex_nibble c of Some k \<Rightarrow> k | None \<Rightarrow> 0) < 16"
    using hex_nibble_less [of c] by (cases "hex_nibble c") auto
  with snoc show ?case by (simp add: hex_value_def)
qed (simp add: hex_value_def)

lemma v6_group_less: "v6_group s = Some g \<Longrightarrow> g < 65536"
proof -
  assume "v6_group s = Some g"
  then have "g = hex_value s" "length s \<le> 4" by (auto simp: v6_group_def split: if_splits)
  moreover have "(16::nat) ^ length s \<le> 16 ^ 4" using calculation(2) by (intro power_increasing) auto
  ultimately show ?thesis using hex_value_less [of s] by simp
qed

lemma parse_v4_bounds: "parse_v4 s = Some (a, b, c, d) \<Longrightarrow> a \<le> 255 \<and> b \<le> 255 \<and> c \<le> 255 \<and> d \<le> 255"
  by (auto simp: parse_v4_def v4_octet_def split: list.splits option.splits if_splits)

lemma v6_groups_less: "v6_groups v4 ps = Some gs \<Longrightarrow> list_all (\<lambda>g. g < 65536) gs"
proof (induction ps arbitrary: gs)
  case (Cons p ps)
  show ?case
  proof (cases "v6_group p")
    case None
    with Cons.prems show ?thesis by (auto dest!: parse_v4_bounds split: if_splits)
  next
    case (Some g)
    with Cons show ?thesis by (auto dest: v6_group_less)
  qed
qed simp

lemma parse_v6_wf:
  assumes "parse_v6 s = Some gs"
  shows "length gs = 8" "list_all (\<lambda>g. g < 65536) gs"
proof -
  have c: "colon_groups v t = Some hs \<Longrightarrow> list_all (\<lambda>g. g < 65536) hs" for v t hs
    by (auto simp: colon_groups_def dest: v6_groups_less split: if_splits)
  from assms show "length gs = 8" "list_all (\<lambda>g. g < 65536) gs"
    by (auto simp: parse_v6_def bind_eq_Some_conv list_all_iff dest!: c split: option.splits if_splits)
qed

text \<open>
  An address that reads as IPv6, in any of its spellings, is refused exactly when it is
  unspecified, loopback, unique local, link-local, or an IPv4 address of a private range in mapped form.
\<close>

theorem isPrivateIp_v6:
  assumes "parse_v4 (strip_brackets s) = None" "parse_v6 (strip_brackets s) = Some gs"
  shows "isPrivateIp s \<longleftrightarrow> local_v6 gs"
proof -
  obtain g0 g1 g2 g3 g4 g5 g6 g7 where gs: "gs = [g0, g1, g2, g3, g4, g5, g6, g7]"
    using parse_v6_wf(1) [OF assms(2)] by (auto simp: length_Suc_conv numeral_eq_Suc)
  show ?thesis
    using blocked_V6 parse_v6_wf(2) [OF assms(2)] assms unfolding gs by (simp add: isPrivateIp_def parse_ip_def)
qed

theorem isPrivateIp_v6_witness: "isPrivateIp ''[fe80::1]'' \<and> \<not> isPrivateIp ''2001:db8::ffff:1''"
proof
  have p: "parse_v4 (strip_brackets ''[fe80::1]'') = None" "parse_v4 (strip_brackets ''2001:db8::ffff:1'') = None"
    by (simp_all add: parse_v4_def v4_octet_def is_digit_def strip_brackets_def)
  have "parse_v6 (strip_brackets ''[fe80::1]'') = Some [0xfe80, 0, 0, 0, 0, 0, 0, 1]"
    by (simp add: parse_v6_def strip_zone_def strip_brackets_def colon_groups_def v6_group_def hex_value_def hex_nibble_def replicate_numeral_unfold)
  from isPrivateIp_v6 [OF p(1) this] show "isPrivateIp ''[fe80::1]''" by (simp add: local_v6_def)
  have "parse_v6 (strip_brackets ''2001:db8::ffff:1'') = Some [0x2001, 0xdb8, 0, 0, 0, 0, 0xffff, 1]"
    by (simp add: parse_v6_def strip_zone_def strip_brackets_def colon_groups_def v6_group_def hex_value_def hex_nibble_def replicate_numeral_unfold)
  from isPrivateIp_v6 [OF p(2) this] show "\<not> isPrivateIp ''2001:db8::ffff:1''" by (simp add: local_v6_def)
qed

lemma strip_brackets_plain: "s \<noteq> [] \<Longrightarrow> hd s \<noteq> CHR ''['' \<Longrightarrow> last s \<noteq> CHR '']'' \<Longrightarrow> strip_brackets s = s"
  by (cases s) (auto simp: strip_brackets_def)

lemma v4_text_ends: "is_digit (hd (v4_text a b c d))" "is_digit (last (v4_text a b c d))" "v4_text a b c d \<noteq> []"
  using nat_to_string_digits [of a] nat_to_string_digits [of d]
  by (auto simp: v4_text_def list_all_iff hd_append last_append)

lemma v4_text_set: "x \<in> set (v4_text a b c d) \<Longrightarrow> is_digit x \<or> x = CHR ''.''"
  using nat_to_string_digits by (auto simp: v4_text_def list_all_iff)

lemma parse_v6_mapped:
  assumes "a \<le> 255" "b \<le> 255" "c \<le> 255" "d \<le> 255"
  shows "parse_v6 (''::ffff:'' @ v4_text a b c d) = Some [0, 0, 0, 0, 0, 65535, a * 256 + b, c * 256 + d]"
proof -
  let ?t = "v4_text a b c d"
  have free: "CHR ''%'' \<notin> set ?t" "CHR '':'' \<notin> set ?t" using v4_text_set [of "CHR ''%''" a b c d] v4_text_set [of "CHR '':''" a b c d] by (auto simp: is_digit_def)
  then have "\<forall>c\<in>set (''::ffff:'' @ ?t). c \<noteq> CHR ''%''" by auto
  then have z: "strip_zone (''::ffff:'' @ ?t) = Some (''::ffff:'' @ ?t)"
    by (simp only: strip_zone_def takeWhile_eq_all_conv [THEN iffD2] dropWhile_eq_Nil_conv [THEN iffD2] Let_def if_True refl)
  have s: "split_on (CHR '':'') (''ffff:'' @ ?t) = [''ffff'', ?t]" using free(2) by (simp add: split_on_absent)
  have "hex_nibble (CHR ''.'') = None" "CHR ''.'' \<in> set ?t" by (simp_all add: hex_nibble_def v4_text_def)
  then have "v6_group ?t = None" by (auto simp: v6_group_def list_all_iff)
  moreover have "v6_group ''ffff'' = Some 65535" by (simp add: v6_group_def hex_value_def hex_nibble_def)
  ultimately have "colon_groups True (''ffff:'' @ ?t) = Some [65535, a * 256 + b, c * 256 + d]"
    unfolding colon_groups_def s using parse_v4_text [OF assms] by simp
  moreover have "cut_double (''::ffff:'' @ ?t) = Some ([], ''ffff:'' @ ?t)" by simp
  moreover have "colon_groups False [] = Some []" by (simp add: colon_groups_def)
  ultimately show ?thesis unfolding parse_v6_def z by (simp add: replicate_numeral_unfold)
qed

text \<open>
  For every IPv4 address, written in dotted form or mapped into IPv6, the guard refuses exactly
  the private, loopback, link-local, carrier-grade and unspecified ranges.
\<close>

theorem isPrivateIp_v4:
  assumes "a \<le> 255" "b \<le> 255" "c \<le> 255" "d \<le> 255"
  shows "(isPrivateIp (v4_text a b c d) \<longleftrightarrow> private_v4 a b)
    \<and> (isPrivateIp (''::ffff:'' @ v4_text a b c d) \<longleftrightarrow> private_v4 a b)"
proof
  let ?t = "v4_text a b c d"
  have "\<not> is_digit (CHR ''['')" "\<not> is_digit (CHR '']'')" by (simp_all add: is_digit_def)
  then have t: "hd ?t \<noteq> CHR ''[''" "last ?t \<noteq> CHR '']''" using v4_text_ends [of a b c d] by metis+
  then have "strip_brackets ?t = ?t" using v4_text_ends(3) by (intro strip_brackets_plain)
  moreover have "blocked (V4 (v4_word a b c d)) \<longleftrightarrow> private_v4 a b"
    using in_v4_range_private [OF assms] unat_v4_word v4_nat_quotients(1) [OF assms] by (simp add: blocked_V4)
  ultimately show "isPrivateIp ?t \<longleftrightarrow> private_v4 a b"
    using parse_v4_text [OF assms] by (simp add: isPrivateIp_def parse_ip_def)
  have m: "strip_brackets (''::ffff:'' @ ?t) = ''::ffff:'' @ ?t"
    using t v4_text_ends(3) by (intro strip_brackets_plain) auto
  have "parse_v4 (''::ffff:'' @ ?t) = None"
  proof -
    have "\<exists>x xs. split_on (CHR ''.'') (''::ffff:'' @ ?t) = (CHR '':'' # x) # xs" by (simp split: list.splits)
    then show ?thesis by (auto simp: parse_v4_def v4_octet_def is_digit_def split: list.splits option.splits)
  qed
  moreover have "local_v6 [0, 0, 0, 0, 0, 65535, a * 256 + b, c * 256 + d] \<longleftrightarrow> private_v4 a b"
    using assms by (simp add: local_v6_def)
  ultimately show "isPrivateIp (''::ffff:'' @ ?t) \<longleftrightarrow> private_v4 a b"
    using blocked_V6 [of 0 0 0 0 0 65535 "a * 256 + b" "c * 256 + d"] assms
    by (simp add: isPrivateIp_def parse_ip_def m parse_v6_mapped [OF assms] del: append.simps)
qed

theorem isPrivateIp_v4_witness:
  "isPrivateIp (v4_text 169 254 169 254) \<and> \<not> isPrivateIp (''::ffff:'' @ v4_text 8 8 8 8)"
  using isPrivateIp_v4 [of 169 254 169 254] isPrivateIp_v4 [of 8 8 8 8] by (simp add: private_v4_def)

subsection \<open>What a passed check means\<close>

lemma assertCallbackUrlSafe_ok:
  "assertCallbackUrlSafe net url = Inr () \<longleftrightarrow>
    (\<exists>host. url_hostname net url = Some host
      \<and> (if isIP (strip_brackets host) \<noteq> 0 then \<not> isPrivateIp (strip_brackets host)
          else \<forall>a\<in>set (resolved net host). \<not> isPrivateIp a))"
  by (cases "url_hostname net url") (auto simp: assertCallbackUrlSafe_def list_ex_iff Let_def)

end
