(* ===== verification/WebhookSignature.thy ===== *)
theory WebhookSignature
  imports Bytes Db
begin

section \<open>Webhook signatures (\<open>backend/src/services/webhookService.ts\<close>)\<close>

text \<open>
  Signing of deliveries and its verification with rotating secrets. HMAC-SHA256 is the parameter
  \<open>hmac\<close>, from key and message bytes to the bytes of the digest. Shown: what was signed with any of the
  candidate secrets verifies, with or without its prefix; what verifies was signed with one of them; the
  signed text determines time, nonce and body; a signature of another length makes verification throw.
\<close>

type_synonym hmac = "string \<Rightarrow> string \<Rightarrow> string"

definition WEBHOOK_TIMESTAMP_TOLERANCE_SECONDS :: int where
  "WEBHOOK_TIMESTAMP_TOLERANCE_SECONDS = 300"

definition WEBHOOK_NONCE_RETENTION_SECONDS :: int where
  "WEBHOOK_NONCE_RETENTION_SECONDS = 600"

definition signedPayload :: "string \<Rightarrow> string \<Rightarrow> string \<Rightarrow> string" where
  "signedPayload timestamp nonce body = timestamp @ ''.'' @ nonce @ ''.'' @ to_hex (utf8 body)"

definition computeWebhookSignature :: "hmac \<Rightarrow> string \<Rightarrow> string \<Rightarrow> string \<Rightarrow> string \<Rightarrow> string" where
  "computeWebhookSignature hmac secret timestamp nonce body =
     to_hex (hmac (utf8 secret) (utf8 (signedPayload timestamp nonce body)))"

text \<open>\<open>signature.replace(/^sha256=/i, '')\<close>.\<close>

definition ascii_lower :: "char \<Rightarrow> char" where
  "ascii_lower c = (let n = (of_char c :: nat) in if 65 \<le> n \<and> n \<le> 90 then char_of (n + 32) else c)"

definition cleanSignature :: "string \<Rightarrow> string" where
  "cleanSignature s = (if map ascii_lower (take 7 s) = ''sha256='' then drop 7 s else s)"

text \<open>\<open>crypto.timingSafeEqual\<close> throws on buffers of different lengths.\<close>

datatype verify_error = UnequalLengths

definition timingSafeEqual :: "string \<Rightarrow> string \<Rightarrow> verify_error + bool" where
  "timingSafeEqual a b = (if length a \<noteq> length b then Inl UnequalLengths else Inr (a = b))"

fun verify_candidates :: "hmac \<Rightarrow> string \<Rightarrow> string \<Rightarrow> string \<Rightarrow> string \<Rightarrow> string list \<Rightarrow> verify_error + bool" where
  "verify_candidates hmac sig timestamp nonce body [] = Inr False"
| "verify_candidates hmac sig timestamp nonce body (secret # secrets) =
     (if secret = [] then verify_candidates hmac sig timestamp nonce body secrets
      else
        (case timingSafeEqual (hex_bytes sig) (hex_bytes (computeWebhookSignature hmac secret timestamp nonce body)) of
           Inl e \<Rightarrow> Inl e
         | Inr True \<Rightarrow> Inr True
         | Inr False \<Rightarrow> verify_candidates hmac sig timestamp nonce body secrets))"

definition verifyWebhookSignature ::
  "hmac \<Rightarrow> string option \<Rightarrow> string list \<Rightarrow> string option \<Rightarrow> string option \<Rightarrow> string \<Rightarrow> verify_error + bool" where
  "verifyWebhookSignature hmac signature candidateSecrets timestamp nonce body =
     (case (signature, timestamp, nonce) of
        (Some s, Some t, Some n) \<Rightarrow>
          if s = [] \<or> t = [] \<or> n = [] then Inr False
          else verify_candidates hmac (cleanSignature s) t n body candidateSecrets
      | _ \<Rightarrow> Inr False)"

definition parseWebhookTimestamp :: "string option \<Rightarrow> int option" where
  "parseWebhookTimestamp header =
     (case header of
        None \<Rightarrow> None
      | Some h \<Rightarrow> (case parseInt h of None \<Rightarrow> None | Some n \<Rightarrow> if n < 0 then None else Some n))"

record secret_vars =
  WEBHOOK_SECRET :: "string option"
  WEBHOOK_ROTATION_SECRETS :: "string option"

definition getWebhookCandidateSecrets :: "secret_vars \<Rightarrow> string list" where
  "getWebhookCandidateSecrets v =
     (let primary = map_option trim (WEBHOOK_SECRET v);
          rotationRaw = (case WEBHOOK_ROTATION_SECRETS v of None \<Rightarrow> [] | Some r \<Rightarrow> trim r);
          rotation = filter (\<lambda>s. s \<noteq> []) (map trim (split_on (CHR '','') rotationRaw));
          secrets = (case primary of None \<Rightarrow> rotation | Some p \<Rightarrow> if p = [] then rotation else p # rotation)
      in if secrets = [] then [[]] else secrets)"

subsection \<open>Properties\<close>

text \<open>Digests have 32 bytes.\<close>

definition digest_length :: "hmac \<Rightarrow> bool" where
  "digest_length hmac \<longleftrightarrow> (\<forall>k m. length (hmac k m) = 32)"

lemma timingSafeEqual_digests:
  "digest_length hmac \<Longrightarrow> timingSafeEqual (hmac k m) (hmac k' m') = Inr (hmac k m = hmac k' m')"
  by (simp add: timingSafeEqual_def digest_length_def)

lemma hex_of_signature:
  "hex_bytes (computeWebhookSignature hmac secret t n b) = hmac (utf8 secret) (utf8 (signedPayload t n b))"
  by (simp add: computeWebhookSignature_def)

lemma verify_candidates_signed:
  assumes "digest_length hmac"
  shows "verify_candidates hmac (computeWebhookSignature hmac secret t n b) t n b secrets =
    Inr (\<exists>s\<in>set secrets. s \<noteq> [] \<and> hmac (utf8 s) (utf8 (signedPayload t n b)) = hmac (utf8 secret) (utf8 (signedPayload t n b)))"
proof (induction secrets)
  case (Cons s ss)
  then show ?case
    using timingSafeEqual_digests [OF assms] by (auto simp: hex_of_signature split: bool.splits)
qed simp

lemma cleanSignature_prefixed: "cleanSignature (''sha256='' @ s) = s"
  by (simp add: cleanSignature_def ascii_lower_def)

lemma hex_digit_not_s: "n < 16 \<Longrightarrow> ascii_lower (hex_digit n) \<noteq> CHR ''s''"
  by (auto simp: ascii_lower_def hex_digit_def Let_def dest!: arg_cong [where f = "of_char :: char \<Rightarrow> nat"])

lemma cleanSignature_hex: "cleanSignature (to_hex bs) = to_hex bs"
proof (cases bs)
  case (Cons b r)
  have "(of_char b :: nat) div 16 < 16" using of_char_byte [of b] by linarith
  from hex_digit_not_s [OF this] show ?thesis by (simp add: cleanSignature_def Cons to_hex_def Let_def)
qed (simp add: cleanSignature_def to_hex_def)

text \<open>
  A delivery signed with any of the candidate secrets verifies, whichever place the secret has in
  the rotation and whether or not the signature carries its \<open>sha256=\<close> prefix.
\<close>

theorem signed_delivery_verifies:
  assumes "digest_length hmac" "secret \<in> set candidates" "secret \<noteq> []" "timestamp \<noteq> []" "nonce \<noteq> []"
    and "signature = computeWebhookSignature hmac secret timestamp nonce body"
  shows "verifyWebhookSignature hmac (Some signature) candidates (Some timestamp) (Some nonce) body = Inr True
    \<and> verifyWebhookSignature hmac (Some (''sha256='' @ signature)) candidates (Some timestamp) (Some nonce) body = Inr True"
proof -
  have "signature \<noteq> []"
    using assms(1) length_to_hex [of "hmac (utf8 secret) (utf8 (signedPayload timestamp nonce body))"]
    unfolding assms(6) computeWebhookSignature_def digest_length_def by (metis list.size(3) mult_is_0 zero_neq_numeral)
  moreover have "cleanSignature signature = signature" by (simp add: assms(6) computeWebhookSignature_def cleanSignature_hex)
  moreover have "verify_candidates hmac signature timestamp nonce body candidates = Inr True"
    unfolding assms(6) verify_candidates_signed [OF assms(1)] using assms(2,3) by auto
  ultimately show ?thesis
    using assms(4,5) cleanSignature_prefixed [of signature] by (simp add: verifyWebhookSignature_def)
qed

definition toy_hmac :: hmac where
  "toy_hmac k m = take 32 (k @ m @ replicate 32 (CHR ''0''))"

lemma toy_digest_length: "digest_length toy_hmac"
  by (auto simp: digest_length_def toy_hmac_def min_def)

theorem signed_delivery_verifies_witness:
  "verifyWebhookSignature toy_hmac (Some (''sha256='' @ computeWebhookSignature toy_hmac ''old'' ''17'' ''ab'' ''{}''))
     [''new'', ''old''] (Some ''17'') (Some ''ab'') ''{}'' = Inr True"
  using signed_delivery_verifies [OF toy_digest_length _ _ _ _ refl, of "''old''" "[''new'', ''old'']" "''17''" "''ab''" "''{}''"] by simp

lemma verify_candidates_sound:
  "verify_candidates hmac sig t n b secrets = Inr True \<Longrightarrow>
    \<exists>s\<in>set secrets. s \<noteq> [] \<and> hex_bytes sig = hmac (utf8 s) (utf8 (signedPayload t n b))"
  by (induction secrets) (auto simp: timingSafeEqual_def hex_of_signature split: if_splits bool.splits)

lemma split_at_dot: "c \<notin> set x \<Longrightarrow> c \<notin> set x' \<Longrightarrow> x @ c # y = x' @ c # y' \<Longrightarrow> x = x' \<and> y = y'"
proof (induction x arbitrary: x')
  case Nil
  then show ?case by (cases x') auto
next
  case (Cons a x)
  then show ?case by (cases x') auto
qed

lemma utf8_inj: "utf8 s = utf8 t \<Longrightarrow> s = t"
  by (metis utf8_text_utf8 option.inject)

lemma signedPayload_inj:
  assumes "signedPayload t n b = signedPayload t' n' b'"
    and "CHR ''.'' \<notin> set t" "CHR ''.'' \<notin> set t'" "CHR ''.'' \<notin> set n" "CHR ''.'' \<notin> set n'"
  shows "t = t' \<and> n = n' \<and> b = b'"
proof -
  have "t = t'" and r: "n @ CHR ''.'' # to_hex (utf8 b) = n' @ CHR ''.'' # to_hex (utf8 b')"
    using split_at_dot [OF assms(2,3)] assms(1) by (simp_all add: signedPayload_def)
  moreover from split_at_dot [OF assms(4,5) r] have "n = n'" "b = b'" by (auto dest: to_hex_inj utf8_inj)
  ultimately show ?thesis by blast
qed

text \<open>
  What verifies was signed: if the digest of the candidate secrets never collides, a signature
  that the service made for one delivery verifies no other: time, nonce and body are the signed ones.
\<close>

theorem verified_delivery_was_signed:
  assumes "verifyWebhookSignature hmac (Some (''sha256='' @ computeWebhookSignature hmac secret t' n' b')) candidates
      (Some t) (Some n) b = Inr True"
    and "\<And>k k' m m'. hmac k m = hmac k' m' \<Longrightarrow> k = k' \<and> m = m'"
    and "CHR ''.'' \<notin> set t" "CHR ''.'' \<notin> set t'" "CHR ''.'' \<notin> set n" "CHR ''.'' \<notin> set n'"
  shows "secret \<in> set candidates \<and> t = t' \<and> n = n' \<and> b = b'"
proof -
  have "verify_candidates hmac (computeWebhookSignature hmac secret t' n' b') t n b candidates = Inr True"
    using assms(1) cleanSignature_prefixed [of "computeWebhookSignature hmac secret t' n' b'"]
    by (auto simp: verifyWebhookSignature_def split: if_splits)
  from verify_candidates_sound [OF this] obtain s where s: "s \<in> set candidates"
    "hmac (utf8 secret) (utf8 (signedPayload t' n' b')) = hmac (utf8 s) (utf8 (signedPayload t n b))"
    by (auto simp: hex_of_signature)
  from assms(2) [OF s(2)] have "s = secret" "signedPayload t n b = signedPayload t' n' b'" by (auto dest: utf8_inj)
  with s(1) signedPayload_inj [OF this(2) assms(3-6)] show ?thesis by simp
qed

text \<open>A digest without collisions: keys and messages written one after the other, with a separator.\<close>

definition free_hmac :: hmac where
  "free_hmac k m = to_hex k @ ''|'' @ m"

lemma free_hmac_inj: "free_hmac k m = free_hmac k' m' \<Longrightarrow> k = k' \<and> m = m'"
proof -
  assume e: "free_hmac k m = free_hmac k' m'"
  have "CHR ''|'' \<notin> set (to_hex x)" for x by (rule hex_free) (simp add: hex_nibble_def)
  from split_at_dot [OF this this, of k m k' m'] e have "to_hex k = to_hex k' \<and> m = m'" by (simp add: free_hmac_def)
  then show ?thesis by (auto dest: to_hex_inj)
qed

lemma verify_self:
  assumes "k \<noteq> []" "t \<noteq> []" "n \<noteq> []"
  shows "verifyWebhookSignature hmac (Some (''sha256='' @ computeWebhookSignature hmac k t n b)) [k] (Some t) (Some n) b = Inr True"
  using assms cleanSignature_prefixed [of "computeWebhookSignature hmac k t n b"]
  by (simp add: verifyWebhookSignature_def timingSafeEqual_def)

theorem verified_delivery_was_signed_witness:
  "\<exists>b. verifyWebhookSignature free_hmac (Some (''sha256='' @ computeWebhookSignature free_hmac ''k'' ''17'' ''ab'' ''{}''))
     [''k''] (Some ''17'') (Some ''ab'') b = Inr True \<and> b = ''{}''"
proof -
  have v: "verifyWebhookSignature free_hmac (Some (''sha256='' @ computeWebhookSignature free_hmac ''k'' ''17'' ''ab'' ''{}''))
     [''k''] (Some ''17'') (Some ''ab'') ''{}'' = Inr True"
    by (rule verify_self) simp_all
  have "''{}'' = ''{}''"
    by (rule verified_delivery_was_signed [OF v free_hmac_inj, THEN conjunct2, THEN conjunct2, THEN conjunct2]) simp_all
  with v show ?thesis by (intro exI conjI)
qed

text \<open>
  A signature whose digest has another length than the expected one is not refused: with any
  non-empty candidate, verification throws.
\<close>

theorem malformed_signature_throws:
  assumes "digest_length hmac" "signature \<noteq> []" "timestamp \<noteq> []" "nonce \<noteq> []"
    and "secret \<in> set candidates" "secret \<noteq> []" "length (hex_bytes (cleanSignature signature)) \<noteq> 32"
  shows "verifyWebhookSignature hmac (Some signature) candidates (Some timestamp) (Some nonce) body = Inl UnequalLengths"
proof -
  have "secret \<in> set cs \<Longrightarrow> verify_candidates hmac (cleanSignature signature) timestamp nonce body cs = Inl UnequalLengths" for cs
    using assms(1,6,7) by (induction cs) (auto simp: timingSafeEqual_def hex_of_signature digest_length_def)
  with assms(2-5) show ?thesis by (simp add: verifyWebhookSignature_def)
qed

theorem malformed_signature_throws_witness:
  "verifyWebhookSignature toy_hmac (Some ''sha256=zz'') [''k''] (Some ''17'') (Some ''ab'') ''{}'' = Inl UnequalLengths"
proof -
  have "length (hex_bytes (cleanSignature ''sha256=zz'')) \<noteq> 32"
    using cleanSignature_prefixed [of "''zz''"] by (simp add: hex_nibble_def)
  then show ?thesis
    by (intro malformed_signature_throws [OF toy_digest_length, where secret = "''k''"]) simp_all
qed

end
