(* ===== verification/PiiCrypto.thy ===== *)
theory PiiCrypto
  imports Bytes JsDate Db EventDecode
begin

section \<open>Field encryption (\<open>backend/src/services/piiCrypto.ts\<close>)\<close>

text \<open>
  Envelope encryption of personal data: a field is sealed with a fresh data key, which is wrapped by
  a key-encryption key, in the process or by a key management service. AES-256-GCM and the service
  are the parameter \<open>crypto\<close> with the laws \<open>crypto_laws\<close>; the random bytes an encryption draws are
  its argument. Tokens, key rotation, the access log and rotation alerts are modelled as written.
  Shown: what is encrypted, stored as a token and read back decrypts to the same text; re-encrypting
  a record keeps every text and logs every access; a key id with a colon is cut when it is read back.
\<close>

subsection \<open>State and parameters\<close>

record pii_vars =
  PII_KEK_ID :: "string option"
  PII_KMS_ENDPOINT :: "string option"
  PII_KEK_KEY :: "string option"

text \<open>
  \<open>gcm_seal key iv text\<close> is the ciphertext and the tag; \<open>gcm_open key iv tag ciphertext\<close> is \<open>None\<close> when
  \<open>final\<close> throws. The service answers with a status that is not ok, or with base64 text.
\<close>

record crypto =
  gcm_seal :: "string \<Rightarrow> string \<Rightarrow> string \<Rightarrow> string \<times> string"
  gcm_open :: "string \<Rightarrow> string \<Rightarrow> string \<Rightarrow> string \<Rightarrow> string option"
  kms_encrypt :: "string \<Rightarrow> string \<Rightarrow> string \<Rightarrow> string + string"
  kms_decrypt :: "string \<Rightarrow> string \<Rightarrow> string \<Rightarrow> string + string"

record random_draw =
  rd_dek :: string
  rd_iv :: string
  rd_wrap_iv :: string

record EncryptedField =
  ciphertext :: string
  gcm_nonce :: string
  dek_wrapped :: string
  dek_kek_id :: string
  key_version :: "int option"
  ef_created_at :: "string option"
  algorithm :: "string option"

record KeyRotationAlert =
  ra_kekId :: string
  ra_keyVersion :: int
  ra_rotatedAt :: string
  ra_reason :: string
  ra_affectedRecords :: "int option"

record access_entry =
  pa_actor :: string
  pa_record_id :: string
  pa_field :: string
  pa_reason :: string
  pa_request_id :: string

text \<open>Listeners are numbered; \<open>alerts\<close> lists every call of one.\<close>

record pii_state =
  rotationListeners :: "nat list"
  alerts :: "(nat \<times> KeyRotationAlert) list"
  access_log :: "access_entry list"

datatype pii_error = KekKeyMissing | KekKeyInvalid | KmsFailed string | AuthenticationFailed
  | InvalidPayload | MalformedPayload | NotInCharset

definition ALGORITHM :: string where
  "ALGORITHM = ''aes-256-gcm''"

definition DEFAULT_KEY_VERSION :: int where
  "DEFAULT_KEY_VERSION = 1"

definition DEFAULT_DEK_ROTATION_DAYS :: int where
  "DEFAULT_DEK_ROTATION_DAYS = 90"

subsection \<open>Keys\<close>

definition getKekId :: "pii_vars \<Rightarrow> string" where
  "getKekId v = (case PII_KEK_ID v of None \<Rightarrow> ''default-kek'' | Some k \<Rightarrow> k)"

definition getKmsEndpoint :: "pii_vars \<Rightarrow> string" where
  "getKmsEndpoint v = (case PII_KMS_ENDPOINT v of None \<Rightarrow> [] | Some e \<Rightarrow> e)"

definition getKekKey :: "pii_vars \<Rightarrow> pii_error + string" where
  "getKekKey v =
     (case PII_KEK_KEY v of
        None \<Rightarrow> Inl KekKeyMissing
      | Some hex \<Rightarrow>
          if hex = [] then Inl KekKeyMissing
          else if length hex \<noteq> 64 \<or> \<not> list_all (\<lambda>c. hex_nibble c \<noteq> None) hex then Inl KekKeyInvalid
          else Inr (hex_bytes hex))"

definition unwrapDek :: "crypto \<Rightarrow> pii_vars \<Rightarrow> string \<Rightarrow> string \<Rightarrow> pii_error + string" where
  "unwrapDek cr v dekWrapped kekId =
     (if getKmsEndpoint v \<noteq> [] then
        (case kms_decrypt cr (getKmsEndpoint v) kekId (to_base64 dekWrapped) of
           Inl status \<Rightarrow> Inl (KmsFailed status)
         | Inr plain \<Rightarrow> Inr (base64_bytes plain))
      else
        try_then (getKekKey v) (\<lambda>kek.
          case gcm_open cr kek (take 12 dekWrapped) (take 16 (drop 12 dekWrapped)) (drop 28 dekWrapped) of
            None \<Rightarrow> Inl AuthenticationFailed
          | Some dek \<Rightarrow> Inr dek))"

definition wrapDek :: "crypto \<Rightarrow> pii_vars \<Rightarrow> string \<Rightarrow> string \<Rightarrow> string \<Rightarrow> pii_error + string" where
  "wrapDek cr v wrap_iv dek kekId =
     (if getKmsEndpoint v \<noteq> [] then
        (case kms_encrypt cr (getKmsEndpoint v) kekId (to_base64 dek) of
           Inl status \<Rightarrow> Inl (KmsFailed status)
         | Inr wrapped \<Rightarrow> Inr (base64_bytes wrapped))
      else
        try_then (getKekKey v) (\<lambda>kek.
          case gcm_seal cr kek wrap_iv dek of (sealed, tag) \<Rightarrow> Inr (wrap_iv @ tag @ sealed)))"

subsection \<open>Fields\<close>

definition encryptField ::
  "crypto \<Rightarrow> pii_vars \<Rightarrow> random_draw \<Rightarrow> int \<Rightarrow> string \<Rightarrow> string option \<Rightarrow> int option \<Rightarrow> pii_error + EncryptedField" where
  "encryptField cr v rd now plaintext kek_opt version_opt =
     (let kekId = (case kek_opt of None \<Rightarrow> getKekId v | Some k \<Rightarrow> k);
          keyVersion = (case version_opt of None \<Rightarrow> DEFAULT_KEY_VERSION | Some n \<Rightarrow> n)
      in case gcm_seal cr (rd_dek rd) (rd_iv rd) (utf8 plaintext) of (encrypted, tag) \<Rightarrow>
         try_then (wrapDek cr v (rd_wrap_iv rd) (rd_dek rd) kekId) (\<lambda>wrapped.
           Inr \<lparr>ciphertext = encrypted @ tag, gcm_nonce = rd_iv rd, dek_wrapped = wrapped, dek_kek_id = kekId,
                key_version = Some keyVersion, ef_created_at = Some (toISOString now), algorithm = Some ALGORITHM\<rparr>))"

text \<open>\<open>buffer.subarray(k)\<close> and \<open>buffer.subarray(0, k)\<close>: a negative index counts from the end.\<close>

definition rel_index :: "int \<Rightarrow> string \<Rightarrow> nat" where
  "rel_index k bs = (if k < 0 then nat (int (length bs) + k) else nat k)"

definition logPiiAccess :: "bool \<Rightarrow> access_entry \<Rightarrow> pii_state \<Rightarrow> pii_state" where
  "logPiiAccess db_ok e st = (if db_ok then st\<lparr>access_log := access_log st @ [e]\<rparr> else st)"

definition open_field :: "crypto \<Rightarrow> pii_vars \<Rightarrow> string \<Rightarrow> string \<Rightarrow> string \<Rightarrow> string \<Rightarrow> pii_error + string" where
  "open_field cr v ct nonce dekWrapped kekId =
     try_then (unwrapDek cr v dekWrapped kekId) (\<lambda>dek.
       let k = rel_index (int (length ct) - 16) ct in
       case gcm_open cr dek nonce (drop k ct) (take k ct) of
         None \<Rightarrow> Inl AuthenticationFailed
       | Some decrypted \<Rightarrow> Inr decrypted)"

definition decryptField ::
  "crypto \<Rightarrow> pii_vars \<Rightarrow> bool \<Rightarrow> access_entry \<Rightarrow> EncryptedField \<Rightarrow> pii_state \<Rightarrow> (pii_error + string) \<times> pii_state" where
  "decryptField cr v db_ok entry ef st =
     (case open_field cr v (ciphertext ef) (gcm_nonce ef) (dek_wrapped ef) (dek_kek_id ef) of
        Inl e \<Rightarrow> (Inl e, st)
      | Inr decrypted \<Rightarrow>
          ((case utf8_text decrypted of None \<Rightarrow> Inl NotInCharset | Some t \<Rightarrow> Inr t), logPiiAccess db_ok entry st))"

text \<open>The moment a key was made: absent, a text read by \<open>new Date\<close>, or milliseconds.\<close>

datatype created = NoDate | DateText string | DateMs int

definition isDekExpired :: "(string \<Rightarrow> int option) \<Rightarrow> int \<Rightarrow> created \<Rightarrow> int \<Rightarrow> bool" where
  "isDekExpired date_parse now createdAt maxAgeDays =
     (case (case createdAt of
              NoDate \<Rightarrow> None
            | DateText s \<Rightarrow> if s = [] then None else date_parse s
            | DateMs t \<Rightarrow> if t = 0 then None else Some t) of
        None \<Rightarrow> False
      | Some t \<Rightarrow> maxAgeDays * 24 * 60 * 60 * 1000 \<le> now - t)"

subsection \<open>Rotation\<close>

definition onKeyRotationAlert :: "nat \<Rightarrow> pii_state \<Rightarrow> pii_state" where
  "onKeyRotationAlert l st = st\<lparr>rotationListeners := rotationListeners st @ [l]\<rparr>"

definition removeKeyRotationListener :: "nat \<Rightarrow> pii_state \<Rightarrow> pii_state" where
  "removeKeyRotationListener l st = st\<lparr>rotationListeners := remove1 l (rotationListeners st)\<rparr>"

text \<open>Every listener is called, whether or not another one throws.\<close>

definition logKeyRotationAlert :: "KeyRotationAlert \<Rightarrow> pii_state \<Rightarrow> pii_state" where
  "logKeyRotationAlert a st = st\<lparr>alerts := alerts st @ map (\<lambda>l. (l, a)) (rotationListeners st)\<rparr>"

definition next_version :: "int option \<Rightarrow> int option \<Rightarrow> int" where
  "next_version requested current =
     (case requested of
        Some n \<Rightarrow> n
      | None \<Rightarrow> (case current of Some k \<Rightarrow> if k \<noteq> 0 then k + 1 else 2 | None \<Rightarrow> 2))"

record rotation_request =
  rq_actor :: string
  rq_reason :: string
  rq_requestId :: string
  rq_newKekId :: "string option"
  rq_newKeyVersion :: "int option"

definition reencryptField ::
  "crypto \<Rightarrow> pii_vars \<Rightarrow> bool \<Rightarrow> random_draw \<Rightarrow> int \<Rightarrow> string \<Rightarrow> string \<Rightarrow> rotation_request \<Rightarrow> EncryptedField \<Rightarrow>
    pii_state \<Rightarrow> (pii_error + EncryptedField) \<times> pii_state" where
  "reencryptField cr v db_ok rd now recordId field rq ef st =
     (case decryptField cr v db_ok \<lparr>pa_actor = rq_actor rq, pa_record_id = recordId, pa_field = field,
             pa_reason = rq_reason rq, pa_request_id = rq_requestId rq\<rparr> ef st of
        (Inl e, st1) \<Rightarrow> (Inl e, st1)
      | (Inr plaintext, st1) \<Rightarrow>
          (case encryptField cr v rd now plaintext
                  (Some (case rq_newKekId rq of None \<Rightarrow> getKekId v | Some k \<Rightarrow> k))
                  (Some (next_version (rq_newKeyVersion rq) (key_version ef))) of
             Inl e \<Rightarrow> (Inl e, st1)
           | Inr ef' \<Rightarrow>
               (Inr ef', logKeyRotationAlert
                  \<lparr>ra_kekId = dek_kek_id ef', ra_keyVersion = (case key_version ef' of None \<Rightarrow> 1 | Some k \<Rightarrow> k),
                   ra_rotatedAt = toISOString now,
                   ra_reason = ''DEK/KEK rotation for record '' @ recordId @ '' field '' @ field @ '': '' @ rq_reason rq,
                   ra_affectedRecords = Some 1\<rparr> st1)))"

subsection \<open>Tokens\<close>

definition serializeEncryptedField :: "int \<Rightarrow> EncryptedField \<Rightarrow> string" where
  "serializeEncryptedField now ef =
     (let version = (case key_version ef of None \<Rightarrow> DEFAULT_KEY_VERSION | Some k \<Rightarrow> k);
          kekId = (if dek_kek_id ef = [] then ''default-kek'' else dek_kek_id ef);
          createdAt = (case ef_created_at ef of None \<Rightarrow> toISOString now | Some t \<Rightarrow> t)
      in ''pii:v'' @ int_to_string version @ '':'' @ kekId @ '':'' @ to_hex (gcm_nonce ef) @ '':''
         @ to_hex (dek_wrapped ef) @ '':'' @ to_hex (ciphertext ef) @ '':'' @ to_hex (utf8 createdAt))"

definition is_token :: "string \<Rightarrow> bool" where
  "is_token s \<longleftrightarrow> take 5 s = ''pii:v''"

definition deserializeEncryptedField :: "string \<Rightarrow> pii_error + EncryptedField" where
  "deserializeEncryptedField payload =
     (if \<not> is_token payload then Inl InvalidPayload
      else
        (let parts = split_on (CHR '':'') payload in
         if length parts < 6 then Inl MalformedPayload
         else
           (case (if 6 < length parts \<and> parts ! 6 \<noteq> [] then map_option Some (utf8_text (hex_bytes (parts ! 6))) else Some None) of
              None \<Rightarrow> Inl NotInCharset
            | Some createdAt \<Rightarrow>
                Inr \<lparr>ciphertext = hex_bytes (parts ! 5), gcm_nonce = hex_bytes (parts ! 3),
                     dek_wrapped = hex_bytes (parts ! 4), dek_kek_id = parts ! 2,
                     key_version = Some (case parseInt (remove1 (CHR ''v'') (parts ! 1)) of
                       None \<Rightarrow> DEFAULT_KEY_VERSION | Some n \<Rightarrow> n),
                     ef_created_at = createdAt, algorithm = Some ALGORITHM\<rparr>)))"

subsection \<open>Records\<close>

datatype field_value = Text string | Sealed EncryptedField

definition rotate_value ::
  "crypto \<Rightarrow> pii_vars \<Rightarrow> bool \<Rightarrow> random_draw \<Rightarrow> int \<Rightarrow> string \<Rightarrow> rotation_request \<Rightarrow> string \<times> field_value \<Rightarrow>
    pii_state \<Rightarrow> (pii_error + EncryptedField) \<times> pii_state" where
  "rotate_value cr v db_ok rd now recordId rq kv st =
     (case snd kv of
        Text t \<Rightarrow>
          if is_token t then
            (case deserializeEncryptedField t of
               Inl e \<Rightarrow> (Inl e, st)
             | Inr ef \<Rightarrow> reencryptField cr v db_ok rd now recordId (fst kv) rq ef st)
          else (encryptField cr v rd now t (rq_newKekId rq) (rq_newKeyVersion rq), st)
      | Sealed ef \<Rightarrow> reencryptField cr v db_ok rd now recordId (fst kv) rq ef st)"

text \<open>The entries in order, each with its own random bytes; the first error ends the loop.\<close>

fun reencryptRecord ::
  "crypto \<Rightarrow> pii_vars \<Rightarrow> bool \<Rightarrow> (string \<Rightarrow> random_draw) \<Rightarrow> int \<Rightarrow> string \<Rightarrow> rotation_request \<Rightarrow>
    (string \<times> field_value) list \<Rightarrow> pii_state \<Rightarrow> (pii_error + (string \<times> EncryptedField) list) \<times> pii_state" where
  "reencryptRecord cr v db_ok rds now recordId rq [] st = (Inr [], st)"
| "reencryptRecord cr v db_ok rds now recordId rq (kv # kvs) st =
     (case rotate_value cr v db_ok (rds (fst kv)) now recordId rq kv st of
        (Inl e, st1) \<Rightarrow> (Inl e, st1)
      | (Inr ef, st1) \<Rightarrow>
          (case reencryptRecord cr v db_ok rds now recordId rq kvs st1 of
             (Inl e, st2) \<Rightarrow> (Inl e, st2)
           | (Inr rest, st2) \<Rightarrow> (Inr ((fst kv, ef) # rest), st2)))"

record pii_record =
  pr_id :: string
  pr_fields :: "(string \<times> field_value) list"

text \<open>The fields of a record to migrate, in the order of the list of names.\<close>

definition fieldsToMigrate :: "string list \<Rightarrow> pii_record \<Rightarrow> (string \<times> field_value) list" where
  "fieldsToMigrate piiFields rec =
     List.map_filter (\<lambda>f. map_option (Pair f) (map_of (pr_fields rec) f)) (rev (remdups (rev piiFields)))"

fun migratePiiData ::
  "crypto \<Rightarrow> pii_vars \<Rightarrow> bool \<Rightarrow> (string \<Rightarrow> string \<Rightarrow> random_draw) \<Rightarrow> int \<Rightarrow> rotation_request \<Rightarrow> string list \<Rightarrow>
    pii_record list \<Rightarrow> pii_state \<Rightarrow> (nat \<times> (string \<times> pii_error) list) \<times> pii_state" where
  "migratePiiData cr v db_ok rds now rq piiFields [] st = ((0, []), st)"
| "migratePiiData cr v db_ok rds now rq piiFields (rec # recs) st =
     (let fs = fieldsToMigrate piiFields rec in
      if fs = [] then migratePiiData cr v db_ok rds now rq piiFields recs st
      else
        (case reencryptRecord cr v db_ok (rds (pr_id rec)) now (pr_id rec) rq fs st of
           (r, st1) \<Rightarrow>
             (case migratePiiData cr v db_ok rds now rq piiFields recs st1 of
                ((n, errs), st2) \<Rightarrow>
                  (case r of
                     Inl e \<Rightarrow> ((n, (pr_id rec, e) # errs), st2)
                   | Inr _ \<Rightarrow> ((n + 1, errs), st2)))))"

subsection \<open>Laws of the parameters\<close>

text \<open>
  Opening what was sealed under the same key and nonce gives the text back and tags have 16 bytes;
  the service unwraps under an id what it wrapped under that id.
\<close>

definition crypto_laws :: "crypto \<Rightarrow> bool" where
  "crypto_laws cr \<longleftrightarrow>
     (\<forall>k iv m. length (snd (gcm_seal cr k iv m)) = 16
        \<and> gcm_open cr k iv (snd (gcm_seal cr k iv m)) (fst (gcm_seal cr k iv m)) = Some m)
     \<and> (\<forall>ep kek bs w. kms_encrypt cr ep kek (to_base64 bs) = Inr w \<longrightarrow>
          kms_decrypt cr ep kek (to_base64 (base64_bytes w)) = Inr (to_base64 bs))"

lemma crypto_lawsD:
  assumes "crypto_laws cr"
  shows "gcm_seal cr k iv m = (c, t) \<Longrightarrow> length t = 16 \<and> gcm_open cr k iv t c = Some m"
    and "kms_encrypt cr ep kek (to_base64 bs) = Inr w \<Longrightarrow>
      kms_decrypt cr ep kek (to_base64 (base64_bytes w)) = Inr (to_base64 bs)"
proof -
  show "length t = 16 \<and> gcm_open cr k iv t c = Some m" if "gcm_seal cr k iv m = (c, t)"
    using assms that unfolding crypto_laws_def by (metis fst_conv snd_conv)
  show "kms_decrypt cr ep kek (to_base64 (base64_bytes w)) = Inr (to_base64 bs)"
    if "kms_encrypt cr ep kek (to_base64 bs) = Inr w"
    using assms that unfolding crypto_laws_def by blast
qed

lemma unwrap_wrap:
  assumes "crypto_laws cr" "length iv = 12" "wrapDek cr v iv dek kekId = Inr w"
  shows "unwrapDek cr v w kekId = Inr dek"
proof (cases "getKmsEndpoint v = []")
  case True
  then obtain kek where kek: "getKekKey v = Inr kek" "(case gcm_seal cr kek iv dek of (c, t) \<Rightarrow> Inr (iv @ t @ c)) = (Inr w :: pii_error + string)"
    using assms(3) by (auto simp: wrapDek_def try_then_Inr)
  then obtain c t where "gcm_seal cr kek iv dek = (c, t)" "w = iv @ t @ c"
    by (cases "gcm_seal cr kek iv dek") auto
  with True kek show ?thesis
    using crypto_lawsD(1) [OF assms(1), of kek iv dek] assms(2) by (simp add: unwrapDek_def)
next
  case False
  then obtain b where "kms_encrypt cr (getKmsEndpoint v) kekId (to_base64 dek) = Inr b" "w = base64_bytes b"
    using assms(3) by (auto simp: wrapDek_def split: sum.splits)
  with False show ?thesis
    using crypto_lawsD(2) [OF assms(1)] by (simp add: unwrapDek_def)
qed

lemma open_encrypted:
  assumes "crypto_laws cr" "length (rd_wrap_iv rd) = 12" "encryptField cr v rd now t kek ver = Inr ef"
  shows "open_field cr v (ciphertext ef) (gcm_nonce ef) (dek_wrapped ef) (dek_kek_id ef) = Inr (utf8 t)"
proof -
  obtain c tag where s: "gcm_seal cr (rd_dek rd) (rd_iv rd) (utf8 t) = (c, tag)"
    by (cases "gcm_seal cr (rd_dek rd) (rd_iv rd) (utf8 t)")
  have tag: "length tag = 16" "gcm_open cr (rd_dek rd) (rd_iv rd) tag c = Some (utf8 t)"
    using crypto_lawsD(1) [OF assms(1) s] by blast+
  from assms(3) s obtain w where "wrapDek cr v (rd_wrap_iv rd) (rd_dek rd) (dek_kek_id ef) = Inr w"
    and ef: "ciphertext ef = c @ tag" "gcm_nonce ef = rd_iv rd" "dek_wrapped ef = w"
    by (auto simp: encryptField_def Let_def try_then_Inr)
  from unwrap_wrap [OF assms(1,2) this(1)] tag show ?thesis
    by (simp add: open_field_def ef rel_index_def)
qed

lemma decrypt_encrypted:
  assumes "crypto_laws cr" "length (rd_wrap_iv rd) = 12" "encryptField cr v rd now t kek ver = Inr ef"
  shows "decryptField cr v db_ok entry ef st = (Inr t, logPiiAccess db_ok entry st)"
  using open_encrypted [OF assms] by (simp add: decryptField_def)

subsection \<open>Tokens read back\<close>

lemma colon_free_hex: "CHR '':'' \<notin> set (to_hex bs)"
  by (rule hex_free) (simp add: hex_nibble_def)

lemma colon_free_int: "CHR '':'' \<notin> set (int_to_string i)"
  using nat_to_string_digits [of "nat i"] nat_to_string_digits [of "nat (- i)"]
  by (auto simp: int_to_string_def list_all_iff is_digit_def)

lemma int_text_no_v: "CHR ''v'' \<notin> set (int_to_string i)"
  using nat_to_string_digits [of "nat i"] nat_to_string_digits [of "nat (- i)"]
  by (auto simp: int_to_string_def list_all_iff is_digit_def)

lemma takeWhile_all_digits: "\<forall>x\<in>set s. is_digit x \<Longrightarrow> takeWhile is_digit s = s"
  by (induction s) auto

lemma parseInt_nat: "parseInt (nat_to_string n) = Some (int n)"
proof -
  obtain c cs where c: "nat_to_string n = c # cs" by (cases "nat_to_string n") auto
  then have d: "is_digit c" "\<forall>x\<in>set cs. is_digit x" using nat_to_string_digits [of n] by (auto simp: list_all_iff)
  then have "c \<noteq> CHR ''-''" "c \<noteq> CHR ''+''" by (auto simp: is_digit_def)
  moreover have "string_to_nat (c # cs) = n" by (simp add: c [symmetric])
  ultimately show ?thesis using d digit_not_space [of c] by (simp add: parseInt_def c Let_def takeWhile_all_digits)
qed

lemma parseInt_int: "parseInt (int_to_string i) = Some i"
proof (cases "i < 0")
  case True
  then have e: "int_to_string i = CHR ''-'' # nat_to_string (nat (- i))" by (simp add: int_to_string_def)
  have "\<forall>x\<in>set (nat_to_string (nat (- i))). is_digit x"
    using nat_to_string_digits [of "nat (- i)"] by (simp add: list_all_iff)
  then show ?thesis using True by (simp add: parseInt_def e Let_def js_space_def takeWhile_all_digits)
qed (simp add: int_to_string_def parseInt_nat)

text \<open>The pieces of a token, whatever its key id.\<close>

lemma token_parts:
  assumes "key_version ef = Some n" "ef_created_at ef = Some t" "dek_kek_id ef \<noteq> []"
  shows "split_on (CHR '':'') (serializeEncryptedField now ef) =
    ''pii'' # (''v'' @ int_to_string n) # split_on (CHR '':'') (dek_kek_id ef @ '':'' @ to_hex (gcm_nonce ef) @ '':''
      @ to_hex (dek_wrapped ef) @ '':'' @ to_hex (ciphertext ef) @ '':'' @ to_hex (utf8 t))"
proof -
  have "CHR '':'' \<notin> set (''v'' @ int_to_string n)" using colon_free_int by auto
  from split_on_sep [OF this] have v: "split_on (CHR '':'') (''v'' @ int_to_string n @ CHR '':'' # r)
      = (''v'' @ int_to_string n) # split_on (CHR '':'') r" for r by simp
  have "serializeEncryptedField now ef = ''pii'' @ CHR '':'' # (''v'' @ int_to_string n @ CHR '':'' # (dek_kek_id ef @ '':''
      @ to_hex (gcm_nonce ef) @ '':'' @ to_hex (dek_wrapped ef) @ '':'' @ to_hex (ciphertext ef) @ '':'' @ to_hex (utf8 t)))"
    using assms by (simp add: serializeEncryptedField_def)
  moreover have "split_on (CHR '':'') (''pii'' @ CHR '':'' # r) = ''pii'' # split_on (CHR '':'') r" for r
    by (rule split_on_sep) simp
  ultimately show ?thesis by (simp only: v)
qed

lemma token_tail:
  "split_on (CHR '':'') (to_hex a @ '':'' @ to_hex b @ '':'' @ to_hex c @ '':'' @ to_hex d) = [to_hex a, to_hex b, to_hex c, to_hex d]"
  by (simp add: split_on_sep split_on_absent colon_free_hex)

lemma token_prefix: "is_token (serializeEncryptedField now ef)"
  by (simp add: is_token_def serializeEncryptedField_def Let_def)

lemma version_part: "remove1 (CHR ''v'') (''v'' @ int_to_string n) = int_to_string n"
  by simp

lemma deserialize_serialize:
  assumes "key_version ef = Some n" "ef_created_at ef = Some t" "t \<noteq> []" "algorithm ef = Some ALGORITHM"
    and "dek_kek_id ef \<noteq> []" "CHR '':'' \<notin> set (dek_kek_id ef)"
  shows "deserializeEncryptedField (serializeEncryptedField now ef) = Inr ef"
proof -
  have "split_on (CHR '':'') (dek_kek_id ef @ CHR '':'' # (to_hex (gcm_nonce ef) @ '':''
      @ to_hex (dek_wrapped ef) @ '':'' @ to_hex (ciphertext ef) @ '':'' @ to_hex (utf8 t)))
    = dek_kek_id ef # [to_hex (gcm_nonce ef), to_hex (dek_wrapped ef), to_hex (ciphertext ef), to_hex (utf8 t)]"
    unfolding split_on_sep [OF assms(6)] token_tail ..
  then have parts: "split_on (CHR '':'') (serializeEncryptedField now ef) = [''pii'', ''v'' @ int_to_string n, dek_kek_id ef,
      to_hex (gcm_nonce ef), to_hex (dek_wrapped ef), to_hex (ciphertext ef), to_hex (utf8 t)]"
    using token_parts [OF assms(1,2,5)] by simp
  have "to_hex (utf8 t) \<noteq> []"
    using assms(3) by (metis hex_bytes_to_hex to_hex_inj utf8_text_utf8 option.inject utf8_text.simps(1) hex_bytes.simps(2))
  then show ?thesis
    unfolding deserializeEncryptedField_def parts
    using assms token_prefix [of now ef]
    by (simp add: Let_def version_part [simplified] parseInt_int)
qed

lemma toISOString_nonempty: "toISOString t \<noteq> []"
  by (simp add: toISOString_def Let_def)

lemma encryptField_shape:
  assumes "encryptField cr v rd now t kek ver = Inr ef"
  shows "key_version ef = Some (case ver of None \<Rightarrow> DEFAULT_KEY_VERSION | Some n \<Rightarrow> n)"
    "ef_created_at ef = Some (toISOString now)" "algorithm ef = Some ALGORITHM"
    "dek_kek_id ef = (case kek of None \<Rightarrow> getKekId v | Some k \<Rightarrow> k)"
  using assms by (auto simp: encryptField_def Let_def try_then_Inr split: prod.splits)

subsection \<open>Properties\<close>

text \<open>
  C37. A field encrypted under a key id that is not empty and has no colon, written as a token and read back is
  the same field, and decrypting what was read gives the original text; the access log gains exactly the entry of
  this decryption when its INSERT succeeds and is unchanged when it fails.
\<close>

theorem encrypted_token_roundtrip:
  assumes "crypto_laws cr" "length (rd_wrap_iv rd) = 12"
    and "encryptField cr v rd now plaintext kek ver = Inr ef"
    and "dek_kek_id ef \<noteq> []" "CHR '':'' \<notin> set (dek_kek_id ef)"
  shows "deserializeEncryptedField (serializeEncryptedField later ef) = Inr ef
    \<and> decryptField cr v db_ok entry ef st =
        (Inr plaintext, if db_ok then st\<lparr>access_log := access_log st @ [entry]\<rparr> else st)"
proof -
  have "deserializeEncryptedField (serializeEncryptedField later ef) = Inr ef"
    by (rule deserialize_serialize [OF encryptField_shape(1,2) [OF assms(3)] toISOString_nonempty
        encryptField_shape(3) [OF assms(3)] assms(4,5)])
  moreover have "decryptField cr v db_ok entry ef st = (Inr plaintext, logPiiAccess db_ok entry st)"
    using decrypt_encrypted [OF assms(1-3)] by blast
  ultimately show ?thesis by (simp add: logPiiAccess_def)
qed

text \<open>Parameters that satisfy the laws: no confidentiality, an exact envelope.\<close>

definition plain_crypto :: crypto where
  "plain_crypto = \<lparr>gcm_seal = (\<lambda>k iv m. (m, replicate 16 (CHR ''T''))), gcm_open = (\<lambda>k iv t c. Some c),
     kms_encrypt = (\<lambda>ep kek p. Inr p), kms_decrypt = (\<lambda>ep kek p. Inr p)\<rparr>"

lemma plain_crypto_laws: "crypto_laws plain_crypto"
  by (simp add: crypto_laws_def plain_crypto_def)

definition demo_vars :: pii_vars where
  "demo_vars = \<lparr>PII_KEK_ID = None, PII_KMS_ENDPOINT = Some ''http://kms'', PII_KEK_KEY = None\<rparr>"

definition demo_draw :: random_draw where
  "demo_draw = \<lparr>rd_dek = replicate 32 (CHR ''k''), rd_iv = replicate 12 (CHR ''n''), rd_wrap_iv = replicate 12 (CHR ''w'')\<rparr>"

definition demo_field :: EncryptedField where
  "demo_field = \<lparr>ciphertext = ''secret'' @ replicate 16 (CHR ''T''), gcm_nonce = replicate 12 (CHR ''n''),
     dek_wrapped = replicate 32 (CHR ''k''), dek_kek_id = ''default-kek'', key_version = Some 1,
     ef_created_at = Some (toISOString 0), algorithm = Some ALGORITHM\<rparr>"

lemma demo_encrypted: "encryptField plain_crypto demo_vars demo_draw 0 ''secret'' None None = Inr demo_field"
  by (simp add: encryptField_def wrapDek_def plain_crypto_def demo_vars_def demo_draw_def demo_field_def
      getKekId_def getKmsEndpoint_def DEFAULT_KEY_VERSION_def Let_def utf8_def)

definition demo_entry :: access_entry where
  "demo_entry = \<lparr>pa_actor = ''webhook_service'', pa_record_id = ''1'', pa_field = ''webhook_secret'',
     pa_reason = ''sign_delivery'', pa_request_id = ''r''\<rparr>"

definition demo_pii_state :: pii_state where
  "demo_pii_state = \<lparr>rotationListeners = [1, 2], alerts = [], access_log = []\<rparr>"

theorem encrypted_token_roundtrip_witness:
  "deserializeEncryptedField (serializeEncryptedField 7 demo_field) = Inr demo_field
   \<and> decryptField plain_crypto demo_vars True demo_entry demo_field demo_pii_state
     = (Inr ''secret'', demo_pii_state\<lparr>access_log := [demo_entry]\<rparr>)"
  using encrypted_token_roundtrip [OF plain_crypto_laws _ demo_encrypted, of 7 True demo_entry demo_pii_state]
  by (simp add: demo_draw_def demo_field_def demo_pii_state_def)

text \<open>
  A key id with a colon, such as the resource names of key management services, does not
  survive the token: reading it back gives the part before the first colon, so the stored key id
  and the wrapped key no longer belong together.
\<close>

theorem colon_kek_id_truncated:
  assumes "encryptField cr v rd now plaintext kek ver = Inr ef"
    and "CHR '':'' \<in> set (dek_kek_id ef)"
    and "deserializeEncryptedField (serializeEncryptedField later ef) = Inr ef'"
  shows "dek_kek_id ef' = takeWhile (\<lambda>c. c \<noteq> CHR '':'') (dek_kek_id ef) \<and> dek_kek_id ef' \<noteq> dek_kek_id ef"
proof -
  obtain a b where ab: "dek_kek_id ef = a @ CHR '':'' # b" "CHR '':'' \<notin> set a"
    using split_list_first [OF assms(2)] by blast
  note shape = encryptField_shape(1,2) [OF assms(1)]
  have "split_on (CHR '':'') (serializeEncryptedField later ef) ! 2 = a"
    using token_parts [OF shape] ab by (simp add: split_on_sep)
  then have "dek_kek_id ef' = a"
    using assms(3) by (auto simp: deserializeEncryptedField_def Let_def split: if_splits option.splits)
  moreover have "takeWhile (\<lambda>c. c \<noteq> CHR '':'') (dek_kek_id ef) = a"
    using ab(2) by (auto simp: ab(1) takeWhile_append)
  ultimately show ?thesis by (simp add: ab(1))
qed

definition arn_field :: EncryptedField where
  "arn_field = demo_field\<lparr>dek_kek_id := ''arn:aws:kms''\<rparr>"

lemma arn_encrypted: "encryptField plain_crypto demo_vars demo_draw 0 ''secret'' (Some ''arn:aws:kms'') None = Inr arn_field"
  by (simp add: encryptField_def wrapDek_def plain_crypto_def demo_vars_def demo_draw_def demo_field_def arn_field_def
      getKekId_def getKmsEndpoint_def DEFAULT_KEY_VERSION_def Let_def utf8_def)

lemma arn_token_parts:
  "split_on (CHR '':'') (serializeEncryptedField 7 arn_field) =
    [''pii'', ''v1'', ''arn'', ''aws'', ''kms'', to_hex (gcm_nonce arn_field), to_hex (dek_wrapped arn_field),
     to_hex (ciphertext arn_field), to_hex (utf8 (toISOString 0))]"
proof -
  have h: "split_on (CHR '':'') (to_hex x @ CHR '':'' # r) = to_hex x # split_on (CHR '':'') r" for x r
    by (rule split_on_sep [OF colon_free_hex])
  have v: "int_to_string 1 = ''1''" by (simp add: js_simps)
  show ?thesis
    using token_parts [OF encryptField_shape(1,2) [OF arn_encrypted], of 7]
    by (simp add: arn_field_def demo_field_def DEFAULT_KEY_VERSION_def h v split_on_absent [OF colon_free_hex])
qed

theorem colon_kek_id_truncated_witness:
  "\<exists>ef'. deserializeEncryptedField (serializeEncryptedField 7 arn_field) = Inr ef' \<and> dek_kek_id ef' = ''arn''"
proof -
  have "CHR '':'' \<in> set (dek_kek_id arn_field)" by (simp add: arn_field_def)
  have n: "utf8_text (hex_bytes (to_hex (dek_wrapped arn_field))) = Some (replicate 32 (CHR ''k''))"
    by (simp add: arn_field_def demo_field_def replicate_numeral_unfold)
  have "to_hex (dek_wrapped arn_field) \<noteq> []"
    by (simp add: arn_field_def demo_field_def replicate_numeral_unfold to_hex_def Let_def)
  with n obtain ef' where ef': "deserializeEncryptedField (serializeEncryptedField 7 arn_field) = Inr ef'"
    unfolding deserializeEncryptedField_def arn_token_parts by (simp add: token_prefix)
  have "dek_kek_id ef' = takeWhile (\<lambda>c. c \<noteq> CHR '':'') (dek_kek_id arn_field)"
    using colon_kek_id_truncated [OF arn_encrypted _ ef'] by (simp add: arn_field_def)
  with ef' show ?thesis by (simp add: arn_field_def)
qed

subsection \<open>Re-encrypting a record\<close>

text \<open>The text a stored value stands for.\<close>

definition field_text :: "crypto \<Rightarrow> pii_vars \<Rightarrow> field_value \<Rightarrow> pii_error + string" where
  "field_text cr v val =
     (let unseal = (\<lambda>ef. try_then (open_field cr v (ciphertext ef) (gcm_nonce ef) (dek_wrapped ef) (dek_kek_id ef))
            (\<lambda>d. case utf8_text d of None \<Rightarrow> Inl NotInCharset | Some t \<Rightarrow> Inr t))
      in case val of
           Text t \<Rightarrow> if is_token t then try_then (deserializeEncryptedField t) unseal else Inr t
         | Sealed ef \<Rightarrow> unseal ef)"

definition is_sealed :: "field_value \<Rightarrow> bool" where
  "is_sealed val = (case val of Text t \<Rightarrow> is_token t | Sealed _ \<Rightarrow> True)"

lemma decryptField_text:
  "decryptField cr v db_ok entry ef st = (r, st') \<Longrightarrow> r = field_text cr v (Sealed ef)
    \<and> (r \<noteq> Inl NotInCharset \<longrightarrow> st' = (if \<exists>t. r = Inr t then logPiiAccess db_ok entry st else st))"
  by (auto simp: decryptField_def field_text_def try_then_def split: sum.splits option.splits)

lemma field_text_encrypted:
  assumes "crypto_laws cr" "length (rd_wrap_iv rd) = 12" "encryptField cr v rd now t kek ver = Inr ef"
  shows "field_text cr v (Sealed ef) = Inr t"
  using open_encrypted [OF assms] by (simp add: field_text_def)

lemma reencryptField_keeps:
  assumes "crypto_laws cr" "length (rd_wrap_iv rd) = 12"
    and "reencryptField cr v db_ok rd now recordId f rq ef st = (Inr ef', st')"
  shows "\<exists>t. field_text cr v (Sealed ef) = Inr t \<and> field_text cr v (Sealed ef') = Inr t
    \<and> (db_ok \<longrightarrow> access_log st' = access_log st @ [\<lparr>pa_actor = rq_actor rq, pa_record_id = recordId, pa_field = f,
             pa_reason = rq_reason rq, pa_request_id = rq_requestId rq\<rparr>])"
proof -
  let ?e = "\<lparr>pa_actor = rq_actor rq, pa_record_id = recordId, pa_field = f, pa_reason = rq_reason rq,
    pa_request_id = rq_requestId rq\<rparr>"
  obtain t st1 where d: "decryptField cr v db_ok ?e ef st = (Inr t, st1)"
    using assms(3) by (auto simp: reencryptField_def split: prod.splits sum.splits)
  obtain kek ver where e: "encryptField cr v rd now t kek ver = Inr ef'" and log: "access_log st' = access_log st1"
    using assms(3) d by (auto simp: reencryptField_def logKeyRotationAlert_def split: sum.splits)
  from decryptField_text [OF d] have "field_text cr v (Sealed ef) = Inr t" "st1 = logPiiAccess db_ok ?e st" by auto
  with field_text_encrypted [OF assms(1,2) e] log show ?thesis by (auto simp: logPiiAccess_def)
qed

definition rotation_entries :: "string \<Rightarrow> rotation_request \<Rightarrow> (string \<times> field_value) list \<Rightarrow> access_entry list" where
  "rotation_entries recordId rq kvs =
     map (\<lambda>kv. \<lparr>pa_actor = rq_actor rq, pa_record_id = recordId, pa_field = fst kv, pa_reason = rq_reason rq,
       pa_request_id = rq_requestId rq\<rparr>) (filter (is_sealed \<circ> snd) kvs)"

lemma rotate_value_keeps:
  assumes "crypto_laws cr" "length (rd_wrap_iv rd) = 12"
    and "rotate_value cr v db_ok rd now recordId rq kv st = (Inr ef', st')"
  shows "(\<exists>t. field_text cr v (snd kv) = Inr t \<and> field_text cr v (Sealed ef') = Inr t)
    \<and> (db_ok \<longrightarrow> access_log st' = access_log st @ rotation_entries recordId rq [kv])"
proof (cases "snd kv")
  case (Sealed ef)
  with assms(3) reencryptField_keeps [OF assms(1,2)] show ?thesis
    by (fastforce simp: rotate_value_def rotation_entries_def is_sealed_def)
next
  case (Text t)
  show ?thesis
  proof (cases "is_token t")
    case True
    then obtain ef where ef: "deserializeEncryptedField t = Inr ef"
      "reencryptField cr v db_ok rd now recordId (fst kv) rq ef st = (Inr ef', st')"
      using assms(3) Text by (auto simp: rotate_value_def split: sum.splits)
    from True ef(1) have "field_text cr v (Text t) = field_text cr v (Sealed ef)" by (simp add: field_text_def)
    with True Text reencryptField_keeps [OF assms(1,2) ef(2)] show ?thesis
      by (auto simp: rotation_entries_def is_sealed_def)
  next
    case False
    with assms(3) Text have "encryptField cr v rd now t (rq_newKekId rq) (rq_newKeyVersion rq) = Inr ef'" "st' = st"
      by (auto simp: rotate_value_def)
    with False Text field_text_encrypted [OF assms(1,2)] show ?thesis
      by (auto simp: field_text_def rotation_entries_def is_sealed_def)
  qed
qed

text \<open>
  Rotating the keys of a record loses nothing: every field of the result stands for the text the
  field stood for before, under the same name and in the same order, and with a working database the
  access log gains exactly one entry for each field that had to be decrypted.
\<close>

theorem reencryptRecord_keeps_text:
  assumes "crypto_laws cr" "\<And>f. length (rd_wrap_iv (rds f)) = 12"
    and "reencryptRecord cr v db_ok rds now recordId rq entries st = (Inr out, st')"
  shows "list_all2 (\<lambda>kv kv'. fst kv' = fst kv
        \<and> (\<exists>t. field_text cr v (snd kv) = Inr t \<and> field_text cr v (Sealed (snd kv')) = Inr t)) entries out
    \<and> (db_ok \<longrightarrow> access_log st' = access_log st @ rotation_entries recordId rq entries)"
  using assms(3)
proof (induction entries arbitrary: st out)
  case Nil
  then show ?case by (simp add: rotation_entries_def)
next
  case (Cons kv kvs)
  obtain ef st1 where ef: "rotate_value cr v db_ok (rds (fst kv)) now recordId rq kv st = (Inr ef, st1)"
    using Cons.prems by (auto split: prod.splits sum.splits)
  obtain rest where rest: "reencryptRecord cr v db_ok rds now recordId rq kvs st1 = (Inr rest, st')" "out = (fst kv, ef) # rest"
    using Cons.prems ef by (auto split: prod.splits sum.splits)
  have "rotation_entries recordId rq (kv # kvs) = rotation_entries recordId rq [kv] @ rotation_entries recordId rq kvs"
    by (simp add: rotation_entries_def)
  then show ?case
    using rotate_value_keeps [OF assms(1,2) ef] Cons.IH [OF rest(1)] rest(2) by auto
qed

definition demo_rotation :: rotation_request where
  "demo_rotation = \<lparr>rq_actor = ''ops'', rq_reason = ''yearly'', rq_requestId = ''r'', rq_newKekId = None, rq_newKeyVersion = None\<rparr>"

theorem reencryptRecord_keeps_text_witness:
  "\<exists>out st'. reencryptRecord plain_crypto demo_vars True (\<lambda>f. demo_draw) 0 ''7'' demo_rotation
       [(''email'', Sealed demo_field), (''phone'', Text ''0722'')] demo_pii_state = (Inr out, st')
     \<and> map fst out = [''email'', ''phone''] \<and> length (access_log st') = 1"
proof -
  let ?fs = "[(''email'', Sealed demo_field), (''phone'', Text ''0722'')]"
  let ?run = "reencryptRecord plain_crypto demo_vars True (\<lambda>f. demo_draw) 0 ''7'' demo_rotation ?fs demo_pii_state"
  have "\<exists>out. fst ?run = Inr out"
    by (simp add: rotate_value_def reencryptField_def decryptField_def open_field_def unwrapDek_def encryptField_def wrapDek_def
        plain_crypto_def demo_vars_def demo_field_def demo_draw_def demo_rotation_def getKmsEndpoint_def is_token_def
        rel_index_def Let_def)
  then obtain out st' where run: "?run = (Inr out, st')" by (metis prod.collapse)
  have w: "length (rd_wrap_iv demo_draw) = 12" by (simp add: demo_draw_def)
  note keeps = reencryptRecord_keeps_text [where cr = plain_crypto and rds = "\<lambda>f. demo_draw", OF plain_crypto_laws w run]
  then have "length (access_log st') = 1"
    by (simp add: rotation_entries_def is_sealed_def is_token_def demo_pii_state_def)
  moreover have "map fst out = [''email'', ''phone'']"
    using keeps by (auto simp: list_all2_Cons1)
  ultimately show ?thesis by (intro exI [of _ out] exI [of _ st'] conjI run)
qed

subsection \<open>Masking\<close>

datatype mask_field = EmailField | PhoneField | NameField | AddressField

definition tail_chars :: "nat \<Rightarrow> string \<Rightarrow> string" where
  "tail_chars n s = drop (length s - n) s"

text \<open>Indexing past the end reads \<open>undefined\<close>, which concatenation prints.\<close>

definition first_char_text :: "string \<Rightarrow> string" where
  "first_char_text s = (case s of [] \<Rightarrow> ''undefined'' | c # _ \<Rightarrow> [c])"

definition mask_email :: "string \<Rightarrow> string" where
  "mask_email s =
     (case split_on (CHR ''@'') s of
        loc # domain # _ \<Rightarrow>
          if domain = [] then ''***''
          else
            (let maskedLocal = (if loc = [] then ''***'' else take 1 loc @ ''***'');
                 parts = split_on (CHR ''.'') domain;
                 maskedDomain = (if 1 < length parts
                   then first_char_text (hd parts) @ ''***.'' @ join_with ''.'' (tl parts) else ''***'')
             in maskedLocal @ ''@'' @ maskedDomain)
      | _ \<Rightarrow> ''***'')"

definition maskValue :: "string \<Rightarrow> mask_field \<Rightarrow> string" where
  "maskValue s field =
     (if s = [] then ''***''
      else case field of
          EmailField \<Rightarrow> mask_email s
        | PhoneField \<Rightarrow> if length s \<le> 4 then ''****'' else ''+xx...****'' @ tail_chars 2 s
        | NameField \<Rightarrow> if length s \<le> 1 then ''*'' else take 1 s @ ''***'' @ tail_chars 1 s
        | AddressField \<Rightarrow>
            if length s \<le> 4 then ''****''
            else
              (let parts = split_on (CHR '' '') s in
               if 1 < length parts then first_char_text (hd parts) @ ''*** '' @ last parts
               else take 1 s @ ''***'' @ tail_chars 2 s))"

text \<open>Two phone numbers that end alike are masked alike: nothing but the last two characters shows.\<close>

lemma masked_phone_hides:
  "4 < length s \<Longrightarrow> 4 < length t \<Longrightarrow> tail_chars 2 s = tail_chars 2 t \<Longrightarrow>
    maskValue s PhoneField = maskValue t PhoneField"
  by (auto simp: maskValue_def)

end
