(* ===== verification/Webhooks.thy ===== *)
theory Webhooks
  imports NetAddress WebhookSignature PiiCrypto
begin

section \<open>Webhook delivery (\<open>backend/src/services/webhookService.ts\<close>)\<close>

text \<open>
  Subscriptions, the dispatch of an event to its subscribers, and the retries of failed deliveries,
  with the registration endpoint of \<open>controllers/indexerController.ts\<close> and the scheduler of
  \<open>webhookRetryProcessor.ts\<close>. The subscriber's server, DNS, the clock, nonces, HMAC, encryption and the
  failures of single statements are fields of the environment. A payload is the object as
  \<open>JSON.stringify\<close> renders it, in the order of its members; \<open>jsonb_read\<close> is the order in which the
  database gives the members back. The trace \<open>posted\<close> lists every HTTP request that left the process.
\<close>

subsection \<open>Data\<close>

type_synonym payload = "(string \<times> json) list"

record WebhookSubscription =
  ws_id :: int
  callback_url :: string
  event_types :: "string list"
  ws_secret :: "string option"
  is_active :: bool
  ws_created_at :: int
  ws_updated_at :: int

record WebhookDelivery =
  wd_id :: int
  subscription_id :: int
  event_id :: string
  event_type :: string
  wd_payload :: payload
  attempt_count :: int
  last_status_code :: "int option"
  last_error :: "string option"
  delivered_at :: "int option"
  next_retry_at :: "int option"
  wd_created_at :: int
  wd_updated_at :: int

record http_request =
  hr_url :: string
  hr_body :: string
  hr_signature :: "string option"
  hr_timestamp :: string
  hr_nonce :: string

text \<open>A request of the trace names the delivery it retries.\<close>

record webhook_state =
  subs :: "WebhookSubscription list"
  dels :: "WebhookDelivery list"
  next_sub :: int
  next_del :: int
  wh_pii :: pii_state
  posted :: "(int option \<times> http_request) list"

datatype http_result = Response int | FetchFailed string | Aborted

record webhook_env =
  WEBHOOK_MAX_PAYLOAD_BYTES :: "string option"
  WEBHOOK_REQUEST_TIMEOUT_MS :: "string option"
  we_net :: resolver
  we_http :: "http_request \<Rightarrow> http_result"
  we_hmac :: hmac
  we_crypto :: crypto
  we_vars :: pii_vars
  we_draw :: random_draw
  we_log_ok :: bool
  we_now :: int
  we_nonce :: "payload \<Rightarrow> string"
  jsonb_read :: "payload \<Rightarrow> payload"
  select_fault :: "db_error option"
  insert_fault :: "int \<Rightarrow> nat \<Rightarrow> db_error option"
  update_fault :: "int \<Rightarrow> nat \<Rightarrow> db_error option"

datatype webhook_error = SummaryTooLarge int | SecretError pii_error | RowError db_error

subsection \<open>Payloads\<close>

definition parsePositiveIntVar :: "string option \<Rightarrow> int \<Rightarrow> int" where
  "parsePositiveIntVar value fallback =
     (case parseInt (case value of None \<Rightarrow> [] | Some v \<Rightarrow> v) of
        None \<Rightarrow> fallback
      | Some n \<Rightarrow> if 0 < n then n else fallback)"

definition getWebhookRequestTimeoutMs :: "webhook_env \<Rightarrow> int" where
  "getWebhookRequestTimeoutMs e = parsePositiveIntVar (WEBHOOK_REQUEST_TIMEOUT_MS e) (30 * 1000)"

definition getWebhookMaxPayloadBytes :: "webhook_env \<Rightarrow> int" where
  "getWebhookMaxPayloadBytes e = parsePositiveIntVar (WEBHOOK_MAX_PAYLOAD_BYTES e) (64 * 1024)"

definition byteLength :: "string \<Rightarrow> int" where
  "byteLength s = int (length (utf8 s))"

definition summary_head :: "int \<Rightarrow> int \<Rightarrow> payload" where
  "summary_head originalPayloadBytes maxPayloadBytes =
     [(''truncated'', JBool True), (''reason'', JStr ''payload_too_large''),
      (''originalPayloadBytes'', JInt originalPayloadBytes), (''maxPayloadBytes'', JInt maxPayloadBytes)]"

definition pick :: "payload \<Rightarrow> string list \<Rightarrow> payload" where
  "pick p keys = List.map_filter (\<lambda>k. map_option (Pair k) (map_of p k)) keys"

definition summarizeOversizedPayload :: "payload \<Rightarrow> int \<Rightarrow> int \<Rightarrow> payload" where
  "summarizeOversizedPayload p originalPayloadBytes maxPayloadBytes =
     summary_head originalPayloadBytes maxPayloadBytes
     @ pick p [''eventId'', ''eventType'', ''loanId'', ''address'', ''ledger'']
     @ (case map_of p ''topics'' of Some (JArr ts) \<Rightarrow> [(''topicsCount'', JInt (int (length ts)))] | _ \<Rightarrow> [])"

definition is_text :: "string \<times> json \<Rightarrow> bool" where
  "is_text kv = (case snd kv of JStr _ \<Rightarrow> True | _ \<Rightarrow> False)"

definition summarizeOversizedPayloadMinimal :: "payload \<Rightarrow> int \<Rightarrow> int \<Rightarrow> payload" where
  "summarizeOversizedPayloadMinimal p originalPayloadBytes maxPayloadBytes =
     summary_head originalPayloadBytes maxPayloadBytes @ filter is_text (pick p [''eventId'', ''eventType''])"

record PreparedWebhookPayload =
  pp_body :: string
  pp_payload :: payload
  pp_timestamp :: string
  pp_nonce :: string

definition prepareWebhookPayload :: "webhook_env \<Rightarrow> payload \<Rightarrow> webhook_error + PreparedWebhookPayload" where
  "prepareWebhookPayload e p =
     (let body = stringify (JObj p);
          prepared = (\<lambda>q. \<lparr>pp_body = stringify (JObj q), pp_payload = q,
            pp_timestamp = int_to_string (we_now e div 1000), pp_nonce = we_nonce e p\<rparr>);
          payloadBytes = byteLength body;
          maxPayloadBytes = getWebhookMaxPayloadBytes e
      in if maxPayloadBytes < payloadBytes then
           (let full = summarizeOversizedPayload p payloadBytes maxPayloadBytes;
                summary = (if maxPayloadBytes < byteLength (stringify (JObj full))
                  then summarizeOversizedPayloadMinimal p payloadBytes maxPayloadBytes else full)
            in if maxPayloadBytes < byteLength (stringify (JObj summary)) then Inl (SummaryTooLarge maxPayloadBytes)
               else Inr (prepared summary))
         else Inr (prepared p))"

subsection \<open>Requests\<close>

datatype post_result = Status int | Blocked string | Failed string

definition disallowed_message :: "resolver \<Rightarrow> string \<Rightarrow> string" where
  "disallowed_message net url =
     ''Webhook callback URL resolves to a disallowed address''
     @ (case url_hostname net url of
          Some host \<Rightarrow> if isIP (strip_brackets host) \<noteq> 0 then '': '' @ host else []
        | None \<Rightarrow> [])"

definition postWebhook ::
  "webhook_env \<Rightarrow> int option \<Rightarrow> string \<Rightarrow> string \<Rightarrow> string option \<Rightarrow> string \<Rightarrow> string \<Rightarrow> webhook_state \<Rightarrow>
    post_result \<times> webhook_state" where
  "postWebhook e d url body signature timestamp nonce st =
     (case assertCallbackUrlSafe (we_net e) url of
        Inl InvalidCallbackUrl \<Rightarrow> (Failed ''Invalid webhook callback URL'', st)
      | Inl DisallowedCallbackUrl \<Rightarrow> (Blocked (disallowed_message (we_net e) url), st)
      | Inr _ \<Rightarrow>
          (let req = \<lparr>hr_url = url, hr_body = body, hr_signature = map_option (\<lambda>s. ''sha256='' @ s) signature,
                      hr_timestamp = timestamp, hr_nonce = nonce\<rparr>
           in ((case we_http e req of
                  Response s \<Rightarrow> Status s
                | FetchFailed m \<Rightarrow> Failed m
                | Aborted \<Rightarrow> Failed (''Webhook request timed out after '' @ int_to_string (getWebhookRequestTimeoutMs e) @ ''ms'')),
               st\<lparr>posted := posted st @ [(d, req)]\<rparr>)))"

definition response_ok :: "int \<Rightarrow> bool" where
  "response_ok s \<longleftrightarrow> 200 \<le> s \<and> s \<le> 299"

definition status_message :: "int \<Rightarrow> string" where
  "status_message s = ''Webhook returned status '' @ int_to_string s"

definition RETRY_DELAYS_MS :: "int list" where
  "RETRY_DELAYS_MS = [5 * 60 * 1000, 15 * 60 * 1000, 45 * 60 * 1000]"

definition MAX_RETRY_ATTEMPTS :: int where
  "MAX_RETRY_ATTEMPTS = int (length RETRY_DELAYS_MS) + 1"

definition getRetryDelayMs :: "int \<Rightarrow> int" where
  "getRetryDelayMs attemptNumber =
     RETRY_DELAYS_MS ! nat (max 0 (min (attemptNumber - 1) (int (length RETRY_DELAYS_MS) - 1)))"

text \<open>The message of a database error is its code.\<close>

definition signature_for :: "webhook_env \<Rightarrow> string option \<Rightarrow> PreparedWebhookPayload \<Rightarrow> string option" where
  "signature_for e secret pp =
     (case secret of
        None \<Rightarrow> None
      | Some s \<Rightarrow> if s = [] then None else Some (computeWebhookSignature (we_hmac e) s (pp_timestamp pp) (pp_nonce pp) (pp_body pp)))"

subsection \<open>Secrets\<close>

definition decryptWebhookSecret :: "webhook_env \<Rightarrow> string \<Rightarrow> int \<Rightarrow> webhook_state \<Rightarrow> (webhook_error + string) \<times> webhook_state" where
  "decryptWebhookSecret e token sid st =
     (if \<not> is_token token then (Inr token, st)
      else case deserializeEncryptedField token of
          Inl er \<Rightarrow> (Inl (SecretError er), st)
        | Inr ef \<Rightarrow>
            (case decryptField (we_crypto e) (we_vars e) (we_log_ok e)
                    \<lparr>pa_actor = ''webhook_service'', pa_record_id = int_to_string sid, pa_field = ''webhook_secret'',
                     pa_reason = ''sign_delivery'', pa_request_id = []\<rparr> ef (wh_pii st) of
               (Inl er, q) \<Rightarrow> (Inl (SecretError er), st\<lparr>wh_pii := q\<rparr>)
             | (Inr s, q) \<Rightarrow> (Inr s, st\<lparr>wh_pii := q\<rparr>)))"

text \<open>The secret of a row: none, or the decrypted one.\<close>

definition plainSecret :: "webhook_env \<Rightarrow> string option \<Rightarrow> int \<Rightarrow> webhook_state \<Rightarrow> (webhook_error + string option) \<times> webhook_state" where
  "plainSecret e raw sid st =
     (case raw of
        None \<Rightarrow> (Inr None, st)
      | Some token \<Rightarrow>
          if token = [] then (Inr None, st)
          else case decryptWebhookSecret e token sid st of
              (Inl er, st1) \<Rightarrow> (Inl er, st1)
            | (Inr s, st1) \<Rightarrow> (Inr (Some s), st1))"

subsection \<open>First deliveries\<close>

text \<open>The constraints of the deliveries table: the reference, \<open>NOT NULL\<close> and the lengths of its texts.\<close>

definition text_member :: "payload \<Rightarrow> string \<Rightarrow> string option" where
  "text_member p k = (case map_of p k of Some (JStr s) \<Rightarrow> Some s | _ \<Rightarrow> None)"

record delivery_outcome =
  oc_status :: "int option"
  oc_error :: "string option"
  oc_delivered :: "int option"
  oc_next :: "int option"

definition new_delivery ::
  "webhook_env \<Rightarrow> int \<Rightarrow> int \<Rightarrow> string \<Rightarrow> string \<Rightarrow> PreparedWebhookPayload \<Rightarrow> delivery_outcome \<Rightarrow> WebhookDelivery" where
  "new_delivery e did sid ei et pp oc =
     \<lparr>wd_id = did, subscription_id = sid, event_id = ei, event_type = et, wd_payload = pp_payload pp,
      attempt_count = 1, last_status_code = oc_status oc, last_error = oc_error oc, delivered_at = oc_delivered oc,
      next_retry_at = oc_next oc, wd_created_at = we_now e, wd_updated_at = we_now e\<rparr>"

definition insert_delivery ::
  "webhook_env \<Rightarrow> nat \<Rightarrow> int \<Rightarrow> PreparedWebhookPayload \<Rightarrow> delivery_outcome \<Rightarrow> webhook_state \<Rightarrow> db_error + webhook_state" where
  "insert_delivery e k sid pp oc st =
     (case insert_fault e sid k of
        Some er \<Rightarrow> Inl er
      | None \<Rightarrow>
          (case (text_member (pp_payload pp) ''eventId'', text_member (pp_payload pp) ''eventType'') of
             (Some ei, Some et) \<Rightarrow>
               if 255 < length ei \<or> 50 < length et then Inl (DbError ''22001'')
               else if sid \<notin> ws_id ` set (subs st) then Inl (DbError ''23503'')
               else Inr (st\<lparr>dels := dels st @ [new_delivery e (next_del st) sid ei et pp oc],
                    next_del := next_del st + 1\<rparr>)
           | _ \<Rightarrow> Inl (DbError ''23502'')))"

definition sendToWebhook ::
  "webhook_env \<Rightarrow> int \<Rightarrow> string \<Rightarrow> string option \<Rightarrow> PreparedWebhookPayload \<Rightarrow> webhook_state \<Rightarrow>
    (webhook_error + unit) \<times> webhook_state" where
  "sendToWebhook e sid url secret pp st =
     (case postWebhook e None url (pp_body pp) (signature_for e secret pp) (pp_timestamp pp) (pp_nonce pp) st of
        (r, st1) \<Rightarrow>
          (let retryAt = Some (we_now e + getRetryDelayMs 1);
               caught = (\<lambda>m. case insert_delivery e 1 sid pp
                   \<lparr>oc_status = None, oc_error = Some m, oc_delivered = None, oc_next = retryAt\<rparr> st1 of
                      Inl er \<Rightarrow> (Inl (RowError er), st1)
                    | Inr st2 \<Rightarrow> (Inr (), st2))
           in case r of
                Status s \<Rightarrow>
                  (case insert_delivery e 0 sid pp
                     (if response_ok s then \<lparr>oc_status = Some s, oc_error = None, oc_delivered = Some (we_now e), oc_next = None\<rparr>
                      else \<lparr>oc_status = Some s, oc_error = Some (status_message s), oc_delivered = None, oc_next = retryAt\<rparr>) st1 of
                     Inl er \<Rightarrow> caught (db_code er)
                   | Inr st2 \<Rightarrow> (Inr (), st2))
              | Blocked m \<Rightarrow> caught m
              | Failed m \<Rightarrow> caught m))"

text \<open>One subscriber of a dispatch; \<open>Promise.all\<close> lets the others run to their end when it rejects.\<close>

definition dispatch_to :: "webhook_env \<Rightarrow> PreparedWebhookPayload \<Rightarrow> WebhookSubscription \<Rightarrow> webhook_state \<Rightarrow> webhook_state" where
  "dispatch_to e pp hook st =
     (case plainSecret e (ws_secret hook) (ws_id hook) st of
        (Inl er, st1) \<Rightarrow> st1
      | (Inr secret, st1) \<Rightarrow> snd (sendToWebhook e (ws_id hook) (callback_url hook) secret pp st1))"

definition subscribed :: "payload \<Rightarrow> WebhookSubscription \<Rightarrow> bool" where
  "subscribed p s \<longleftrightarrow> is_active s \<and> (case text_member p ''eventType'' of Some t \<Rightarrow> t \<in> set (event_types s) | None \<Rightarrow> False)"

definition dispatch :: "webhook_env \<Rightarrow> payload \<Rightarrow> webhook_state \<Rightarrow> webhook_state" where
  "dispatch e p st =
     (case prepareWebhookPayload e p of
        Inl er \<Rightarrow> st
      | Inr pp \<Rightarrow>
          (case select_fault e of
             Some er \<Rightarrow> st
           | None \<Rightarrow> fold (dispatch_to e pp) (filter (subscribed p) (subs st)) st))"

subsection \<open>Retries\<close>

definition update_delivery ::
  "webhook_env \<Rightarrow> nat \<Rightarrow> int \<Rightarrow> (WebhookDelivery \<Rightarrow> WebhookDelivery) \<Rightarrow> webhook_state \<Rightarrow> db_error + webhook_state" where
  "update_delivery e k did f st =
     (case update_fault e did k of
        Some er \<Rightarrow> Inl er
      | None \<Rightarrow> Inr (st\<lparr>dels := map (\<lambda>d. if wd_id d = did then f d else d) (dels st)\<rparr>))"

definition mark_delivered :: "webhook_env \<Rightarrow> int \<Rightarrow> int \<Rightarrow> WebhookDelivery \<Rightarrow> WebhookDelivery" where
  "mark_delivered e n s d = d\<lparr>attempt_count := n, last_status_code := Some s, delivered_at := Some (we_now e),
     last_error := None, next_retry_at := None, wd_updated_at := we_now e\<rparr>"

definition mark_refused :: "webhook_env \<Rightarrow> int \<Rightarrow> int \<Rightarrow> int option \<Rightarrow> WebhookDelivery \<Rightarrow> WebhookDelivery" where
  "mark_refused e n s nextRetryTime d = d\<lparr>attempt_count := n, last_status_code := Some s,
     last_error := Some (status_message s), next_retry_at := nextRetryTime, wd_updated_at := we_now e\<rparr>"

definition mark_error :: "webhook_env \<Rightarrow> int \<Rightarrow> string \<Rightarrow> int option \<Rightarrow> WebhookDelivery \<Rightarrow> WebhookDelivery" where
  "mark_error e n m nextRetryTime d = d\<lparr>attempt_count := n, last_error := Some m,
     next_retry_at := nextRetryTime, wd_updated_at := we_now e\<rparr>"

definition retryWebhookDelivery ::
  "webhook_env \<Rightarrow> int \<Rightarrow> string \<Rightarrow> string option \<Rightarrow> payload \<Rightarrow> int \<Rightarrow> webhook_state \<Rightarrow>
    (webhook_error + unit) \<times> webhook_state" where
  "retryWebhookDelivery e did url secret p attemptCount st =
     (case prepareWebhookPayload e p of
        Inl er \<Rightarrow> (Inl er, st)
      | Inr pp \<Rightarrow>
          (case postWebhook e (Some did) url (pp_body pp) (signature_for e secret pp) (pp_timestamp pp) (pp_nonce pp) st of
             (r, st1) \<Rightarrow>
               (let n = attemptCount + 1;
                    later = (if n < MAX_RETRY_ATTEMPTS then Some (we_now e + getRetryDelayMs n) else None);
                    caught = (\<lambda>m blocked. case update_delivery e 1 did (mark_error e n m (if blocked then None else later)) st1 of
                        Inl er \<Rightarrow> (Inl (RowError er), st1)
                      | Inr st2 \<Rightarrow> (Inr (), st2))
                in case r of
                     Status s \<Rightarrow>
                       (case update_delivery e 0 did (if response_ok s then mark_delivered e n s else mark_refused e n s later) st1 of
                          Inl er \<Rightarrow> caught (db_code er) False
                        | Inr st2 \<Rightarrow> (Inr (), st2))
                   | Blocked m \<Rightarrow> caught m True
                   | Failed m \<Rightarrow> caught m False)))"

text \<open>
  The columns the query selects without naming their table. PostgreSQL resolves such a name against
  both joined tables and rejects the query when both have it (42702) or none (42703).
\<close>

record webhook_schema =
  delivery_columns :: "string list"
  subscription_columns :: "string list"

definition retry_columns :: "string list" where
  "retry_columns = [''id'', ''subscription_id'', ''callback_url'', ''secret'', ''event_id'', ''event_type'', ''payload'', ''attempt_count'']"

definition resolve_column :: "webhook_schema \<Rightarrow> string \<Rightarrow> db_error + unit" where
  "resolve_column sch c =
     (if c \<in> set (delivery_columns sch) \<and> c \<in> set (subscription_columns sch) then Inl (DbError ''42702'')
      else if c \<in> set (delivery_columns sch) \<or> c \<in> set (subscription_columns sch) then Inr ()
      else Inl (DbError ''42703''))"

definition query_accepted :: "webhook_schema \<Rightarrow> bool" where
  "query_accepted sch \<longleftrightarrow> list_all (\<lambda>c. resolve_column sch c = Inr ()) retry_columns"

definition due :: "int \<Rightarrow> WebhookDelivery \<Rightarrow> bool" where
  "due now d \<longleftrightarrow> delivered_at d = None \<and> (case next_retry_at d of Some t \<Rightarrow> t \<le> now | None \<Rightarrow> False)
     \<and> attempt_count d < MAX_RETRY_ATTEMPTS"

definition due_rows :: "int \<Rightarrow> webhook_state \<Rightarrow> (WebhookDelivery \<times> WebhookSubscription) list" where
  "due_rows now st =
     take 100 (List.map_filter (\<lambda>d. map_option (Pair d) (find (\<lambda>s. ws_id s = subscription_id d) (subs st)))
       (sort_key (\<lambda>d. the (next_retry_at d)) (filter (due now) (dels st))))"

fun run_retries :: "webhook_env \<Rightarrow> (WebhookDelivery \<times> WebhookSubscription) list \<Rightarrow> webhook_state \<Rightarrow> (webhook_error + unit) \<times> webhook_state" where
  "run_retries e [] st = (Inr (), st)"
| "run_retries e ((d, s) # rows) st =
     (if MAX_RETRY_ATTEMPTS \<le> attempt_count d then run_retries e rows st
      else case plainSecret e (ws_secret s) (ws_id s) st of
          (Inl er, st1) \<Rightarrow> (Inl er, st1)
        | (Inr secret, st1) \<Rightarrow>
            (case retryWebhookDelivery e (wd_id d) (callback_url s) secret (jsonb_read e (wd_payload d)) (attempt_count d) st1 of
               (Inl er, st2) \<Rightarrow> (Inl er, st2)
             | (Inr _, st2) \<Rightarrow> run_retries e rows st2))"

definition processRetries :: "webhook_schema \<Rightarrow> webhook_env \<Rightarrow> webhook_state \<Rightarrow> webhook_state" where
  "processRetries sch e st =
     (if \<not> query_accepted sch \<or> select_fault e \<noteq> None then st
      else snd (run_retries e (due_rows (we_now e) st) st))"

subsection \<open>Subscriptions\<close>

definition isSupported :: "string \<Rightarrow> bool" where
  "isSupported t \<longleftrightarrow> t \<in> set SUPPORTED_WEBHOOK_EVENT_TYPES"

definition registerSubscription ::
  "webhook_env \<Rightarrow> string \<Rightarrow> string list \<Rightarrow> string option \<Rightarrow> webhook_state \<Rightarrow> (webhook_error + WebhookSubscription) \<times> webhook_state" where
  "registerSubscription e url types secret st =
     (case (case secret of
              None \<Rightarrow> Inr None
            | Some s \<Rightarrow> if s = [] then Inr None
                else try_then (encryptField (we_crypto e) (we_vars e) (we_draw e) (we_now e) s None None)
                  (\<lambda>ef. Inr (Some (serializeEncryptedField (we_now e) ef)))) of
        Inl er \<Rightarrow> (Inl (SecretError er), st)
      | Inr encryptedSecret \<Rightarrow>
          (case insert_fault e (next_sub st) 0 of
             Some er \<Rightarrow> (Inl (RowError er), st)
           | None \<Rightarrow>
               (let row = \<lparr>ws_id = next_sub st, callback_url = url, event_types = types, ws_secret = encryptedSecret,
                           is_active = True, ws_created_at = we_now e, ws_updated_at = we_now e\<rparr>
                in (Inr row, st\<lparr>subs := subs st @ [row], next_sub := next_sub st + 1\<rparr>))))"

definition rotateWebhookSecret :: "webhook_env \<Rightarrow> int \<Rightarrow> string \<Rightarrow> webhook_state \<Rightarrow> (webhook_error + unit) \<times> webhook_state" where
  "rotateWebhookSecret e sid newSecret st =
     (case encryptField (we_crypto e) (we_vars e) (we_draw e) (we_now e) newSecret None None of
        Inl er \<Rightarrow> (Inl (SecretError er), st)
      | Inr ef \<Rightarrow>
          (case update_fault e sid 0 of
             Some er \<Rightarrow> (Inl (RowError er), st)
           | None \<Rightarrow> (Inr (), st\<lparr>subs := map (\<lambda>s. if ws_id s = sid
               then s\<lparr>ws_secret := Some (serializeEncryptedField (we_now e) ef), ws_updated_at := we_now e\<rparr> else s) (subs st)\<rparr>)))"

text \<open>Deleting a subscription deletes its deliveries with it (\<open>ON DELETE CASCADE\<close>).\<close>

definition deleteSubscription :: "int \<Rightarrow> webhook_state \<Rightarrow> bool \<times> webhook_state" where
  "deleteSubscription sid st =
     (sid \<in> ws_id ` set (subs st),
      st\<lparr>subs := filter (\<lambda>s. ws_id s \<noteq> sid) (subs st), dels := filter (\<lambda>d. subscription_id d \<noteq> sid) (dels st)\<rparr>)"

definition mapSubscriptionRow :: "WebhookSubscription \<Rightarrow> WebhookSubscription" where
  "mapSubscriptionRow s = s\<lparr>ws_secret := None\<rparr>"

definition listSubscriptions :: "webhook_state \<Rightarrow> WebhookSubscription list" where
  "listSubscriptions st = map mapSubscriptionRow (sort_key (\<lambda>s. - ws_created_at s) (subs st))"

text \<open>A delivery as it is answered: neither its payload nor the time of its next retry.\<close>

record delivery_view =
  dv_id :: int
  dv_subscriptionId :: int
  dv_eventId :: string
  dv_eventType :: string
  dv_attemptCount :: int
  dv_lastStatusCode :: "int option"
  dv_lastError :: "string option"
  dv_deliveredAt :: "int option"
  dv_createdAt :: int
  dv_updatedAt :: int

definition mapDeliveryRow :: "WebhookDelivery \<Rightarrow> delivery_view" where
  "mapDeliveryRow d =
     \<lparr>dv_id = wd_id d, dv_subscriptionId = subscription_id d, dv_eventId = event_id d, dv_eventType = event_type d,
      dv_attemptCount = attempt_count d, dv_lastStatusCode = last_status_code d,
      dv_lastError = (if last_error d = Some [] then None else last_error d),
      dv_deliveredAt = delivered_at d, dv_createdAt = wd_created_at d, dv_updatedAt = wd_updated_at d\<rparr>"

definition getSubscriptionDeliveries :: "int \<Rightarrow> nat \<Rightarrow> webhook_state \<Rightarrow> delivery_view list" where
  "getSubscriptionDeliveries sid limit st =
     map mapDeliveryRow (take limit (sort_key (\<lambda>d. - wd_created_at d) (filter (\<lambda>d. subscription_id d = sid) (dels st))))"

definition supported_text :: "json \<Rightarrow> string option" where
  "supported_text v = (case v of JStr t \<Rightarrow> if isSupported t then Some t else None | _ \<Rightarrow> None)"

definition normalizedEventTypes :: "json option \<Rightarrow> string list" where
  "normalizedEventTypes eventTypes = (case eventTypes of Some (JArr vs) \<Rightarrow> List.map_filter supported_text vs | _ \<Rightarrow> [])"

text \<open>\<open>createWebhookSubscription\<close>: the status of the answer and the state it leaves.\<close>

definition createWebhookSubscription ::
  "webhook_env \<Rightarrow> (string \<Rightarrow> string) \<Rightarrow> string option \<Rightarrow> json option \<Rightarrow> string option \<Rightarrow> webhook_state \<Rightarrow> nat \<times> webhook_state" where
  "createWebhookSubscription e protocol callbackUrl eventTypes secret st =
     (case callbackUrl of
        None \<Rightarrow> (400, st)
      | Some url \<Rightarrow>
          if url = [] then (400, st)
          else case url_hostname (we_net e) url of
              None \<Rightarrow> (400, st)
            | Some hostname \<Rightarrow>
                if protocol url \<notin> {''http:'', ''https:''} then (400, st)
                else if isPrivateHost hostname then (400, st)
                else
                  (let types = normalizedEventTypes eventTypes
                   in if types = [] then (400, st)
                      else case registerSubscription e url types secret st of
                          (Inl er, st1) \<Rightarrow> (500, st1)
                        | (Inr row, st1) \<Rightarrow> (201, st1)))"

subsection \<open>Payloads fit and keep their identity\<close>

lemma getWebhookMaxPayloadBytes_pos: "0 < getWebhookMaxPayloadBytes e"
  by (auto simp: getWebhookMaxPayloadBytes_def parsePositiveIntVar_def split: option.splits)

lemma map_of_pick:
  "distinct keys \<Longrightarrow> map_of (pick p keys) k = (if k \<in> set keys then map_of p k else None)"
proof (induction keys)
  case (Cons a keys)
  then show ?case by (cases "map_of p a") (auto simp: pick_def List.map_filter_simps)
qed (simp add: pick_def List.map_filter_simps)

lemma summary_identity:
  assumes "k = ''eventId'' \<or> k = ''eventType''"
  shows "text_member (summarizeOversizedPayload p n m) k = text_member p k"
    and "text_member (summarizeOversizedPayloadMinimal p n m) k = text_member p k"
proof -
  have head: "map_of (summary_head n m @ q) k = map_of q k" for q
    using assms by (auto simp: summary_head_def)
  have "map_of (pick p [''eventId'', ''eventType'', ''loanId'', ''address'', ''ledger''] @ q) k = map_of p k"
    if "map_of q k = None" for q
    using assms that map_of_pick [of "[''eventId'', ''eventType'', ''loanId'', ''address'', ''ledger'']" p k]
    by (auto simp: map_add_def split: option.splits)
  moreover have "map_of (case map_of p ''topics'' of Some (JArr ts) \<Rightarrow> [(''topicsCount'', JInt (int (length ts)))] | _ \<Rightarrow> []) k = None"
    using assms by (auto split: option.splits json.splits)
  ultimately show "text_member (summarizeOversizedPayload p n m) k = text_member p k"
    by (simp only: text_member_def summarizeOversizedPayload_def head)
  show "text_member (summarizeOversizedPayloadMinimal p n m) k = text_member p k"
    using assms unfolding text_member_def summarizeOversizedPayloadMinimal_def head
    by (auto simp: pick_def List.map_filter_simps is_text_def split: option.splits json.splits)
qed

text \<open>
  What is sent never exceeds the configured size, a payload that fits is sent as it is, and every
  payload that is sent carries the event id and type of the event, even when it had to be summarised.
\<close>

theorem prepared_payload_fits:
  assumes "prepareWebhookPayload e p = Inr pp"
  shows "byteLength (pp_body pp) \<le> getWebhookMaxPayloadBytes e
    \<and> pp_body pp = stringify (JObj (pp_payload pp))
    \<and> (byteLength (stringify (JObj p)) \<le> getWebhookMaxPayloadBytes e \<longrightarrow> pp_payload pp = p)
    \<and> text_member (pp_payload pp) ''eventId'' = text_member p ''eventId''
    \<and> text_member (pp_payload pp) ''eventType'' = text_member p ''eventType''"
  using assms by (auto simp: prepareWebhookPayload_def Let_def summary_identity split: if_splits)

definition demo_resolver :: resolver where
  "demo_resolver = \<lparr>url_hostname = (\<lambda>u. Some ''hooks.example.com''), resolve4 = (\<lambda>h. Some [''93.184.216.34'']),
     resolve6 = (\<lambda>h. None)\<rparr>"

definition demo_wenv :: "int \<Rightarrow> http_result \<Rightarrow> webhook_env" where
  "demo_wenv now res = \<lparr>WEBHOOK_MAX_PAYLOAD_BYTES = None, WEBHOOK_REQUEST_TIMEOUT_MS = None, we_net = demo_resolver,
     we_http = (\<lambda>r. res), we_hmac = toy_hmac, we_crypto = plain_crypto, we_vars = demo_vars, we_draw = demo_draw,
     we_log_ok = True, we_now = now, we_nonce = (\<lambda>p. ''0a''), jsonb_read = (\<lambda>p. p), select_fault = None,
     insert_fault = (\<lambda>s k. None), update_fault = (\<lambda>d k. None)\<rparr>"

definition demo_payload :: payload where
  "demo_payload = [(''eventId'', JStr ''e1''), (''eventType'', JStr ''LoanRepaid'')]"

lemma demo_body: "stringify (JObj demo_payload) =
    CHR ''{'' # json_quote ''eventId'' @ '':'' @ json_quote ''e1'' @ '','' @ json_quote ''eventType'' @ '':'' @ json_quote ''LoanRepaid'' @ ''}''"
  by (simp add: demo_payload_def)

lemma demo_size: "byteLength (stringify (JObj demo_payload)) = 41"
  unfolding demo_body by (simp add: byteLength_def utf8_def json_quote_def json_escape_def Let_def)

lemma demo_prepared:
  "prepareWebhookPayload (demo_wenv now res) demo_payload = Inr \<lparr>pp_body = stringify (JObj demo_payload),
     pp_payload = demo_payload, pp_timestamp = int_to_string (now div 1000), pp_nonce = ''0a''\<rparr>"
proof -
  have "parseInt [] = None" by (simp add: parseInt_def)
  then have "getWebhookMaxPayloadBytes (demo_wenv now res) = 65536"
    by (simp add: getWebhookMaxPayloadBytes_def parsePositiveIntVar_def demo_wenv_def)
  then show ?thesis
    unfolding prepareWebhookPayload_def Let_def demo_size by (simp add: demo_wenv_def)
qed

theorem prepared_payload_fits_witness:
  "\<exists>pp. prepareWebhookPayload (demo_wenv 0 (Response 200)) demo_payload = Inr pp
     \<and> text_member (pp_payload pp) ''eventId'' = Some ''e1''"
  using prepared_payload_fits [OF demo_prepared [of 0 "Response 200"]] demo_prepared [of 0 "Response 200"]
  by (simp add: demo_payload_def text_member_def)

subsection \<open>Where requests go\<close>

definition safe_target :: "resolver \<Rightarrow> string \<Rightarrow> bool" where
  "safe_target net url \<longleftrightarrow>
     (case url_hostname net url of
        None \<Rightarrow> False
      | Some host \<Rightarrow>
          if isIP (strip_brackets host) \<noteq> 0 then \<not> isPrivateIp (strip_brackets host)
          else list_all (\<lambda>a. \<not> isPrivateIp a) (resolved net host))"

lemma safe_target_iff: "assertCallbackUrlSafe net url = Inr () \<longleftrightarrow> safe_target net url"
  unfolding assertCallbackUrlSafe_ok safe_target_def by (auto simp: list_all_iff split: option.splits if_splits)

definition only_safe :: "webhook_env \<Rightarrow> webhook_state \<Rightarrow> webhook_state \<Rightarrow> bool" where
  "only_safe e st st' \<longleftrightarrow> set (posted st') \<subseteq> set (posted st) \<union> {x. safe_target (we_net e) (hr_url (snd x))}"

lemma only_safe_refl [simp]: "only_safe e st st"
  by (simp add: only_safe_def)

lemma only_safe_trans: "only_safe e a b \<Longrightarrow> only_safe e b c \<Longrightarrow> only_safe e a c"
  by (auto simp: only_safe_def)

lemma only_safe_posted: "posted b = posted c \<Longrightarrow> only_safe e a b = only_safe e a c"
  by (simp add: only_safe_def)

lemma postWebhook_only_safe: "postWebhook e d url body sig t n st = (r, st') \<Longrightarrow> only_safe e st st'"
  by (auto simp: postWebhook_def only_safe_def Let_def safe_target_iff [symmetric] split: sum.splits callback_error.splits)

lemma plainSecret_frame:
  "plainSecret e raw sid st = (r, st') \<Longrightarrow> posted st' = posted st \<and> dels st' = dels st \<and> subs st' = subs st
     \<and> next_del st' = next_del st \<and> next_sub st' = next_sub st"
  by (auto simp: plainSecret_def decryptWebhookSecret_def split: option.splits if_splits prod.splits sum.splits)

lemma insert_delivery_frame:
  "insert_delivery e k sid pp oc st = Inr st' \<Longrightarrow> posted st' = posted st \<and> subs st' = subs st \<and> next_sub st' = next_sub st"
  by (auto simp: insert_delivery_def split: option.splits if_splits)

lemma update_delivery_frame:
  "update_delivery e k did f st = Inr st' \<Longrightarrow> posted st' = posted st \<and> subs st' = subs st \<and> next_sub st' = next_sub st
     \<and> next_del st' = next_del st \<and> wh_pii st' = wh_pii st"
  by (auto simp: update_delivery_def split: option.splits)

lemma sendToWebhook_only_safe: "only_safe e st (snd (sendToWebhook e sid url secret pp st))"
proof -
  obtain r st1 where p: "postWebhook e None url (pp_body pp) (signature_for e secret pp) (pp_timestamp pp) (pp_nonce pp) st = (r, st1)"
    by (meson surj_pair)
  have "posted (snd (sendToWebhook e sid url secret pp st)) = posted st1"
    by (auto simp: sendToWebhook_def p Let_def dest!: insert_delivery_frame split: post_result.splits sum.splits)
  with postWebhook_only_safe [OF p] show ?thesis by (simp add: only_safe_def)
qed

lemma retry_only_safe: "only_safe e st (snd (retryWebhookDelivery e did url secret p n st))"
proof (cases "prepareWebhookPayload e p")
  case (Inr pp)
  obtain r st1 where p: "postWebhook e (Some did) url (pp_body pp) (signature_for e secret pp) (pp_timestamp pp) (pp_nonce pp) st = (r, st1)"
    by (meson surj_pair)
  have "posted (snd (retryWebhookDelivery e did url secret p n st)) = posted st1"
    by (auto simp: retryWebhookDelivery_def Inr p Let_def dest!: update_delivery_frame split: post_result.splits sum.splits)
  with postWebhook_only_safe [OF p] show ?thesis by (simp add: only_safe_def)
qed (simp add: retryWebhookDelivery_def)

lemma dispatch_to_only_safe: "only_safe e st (dispatch_to e pp hook st)"
proof -
  obtain r st1 where p: "plainSecret e (ws_secret hook) (ws_id hook) st = (r, st1)" by (meson surj_pair)
  have "only_safe e st st1" using plainSecret_frame [OF p] by (simp add: only_safe_def)
  then show ?thesis
    using sendToWebhook_only_safe by (auto simp: dispatch_to_def p intro: only_safe_trans split: sum.splits)
qed

lemma fold_only_safe: "only_safe e st (fold (dispatch_to e pp) hooks st)"
  by (induction hooks arbitrary: st) (auto intro: only_safe_trans dispatch_to_only_safe)

lemma run_retries_only_safe: "only_safe e st (snd (run_retries e rows st))"
proof (induction e rows st rule: run_retries.induct)
  case (2 e d s rows st)
  show ?case
  proof (cases "MAX_RETRY_ATTEMPTS \<le> attempt_count d")
    case False
    obtain r st1 where p: "plainSecret e (ws_secret s) (ws_id s) st = (r, st1)" by (meson surj_pair)
    have a: "only_safe e st st1" using plainSecret_frame [OF p] by (simp add: only_safe_def)
    show ?thesis
    proof (cases r)
      case (Inr secret)
      let ?run = "retryWebhookDelivery e (wd_id d) (callback_url s) secret (jsonb_read e (wd_payload d)) (attempt_count d) st1"
      obtain q st2 where run: "?run = (q, st2)" by (meson surj_pair)
      then have b: "only_safe e st st2" using retry_only_safe a by (metis only_safe_trans snd_conv)
      show ?thesis
        using "2.IH"(2) [OF False p [symmetric] Inr run [symmetric]] False p run Inr b
        by (auto intro: only_safe_trans split: sum.splits)
    qed (use False p a in simp)
  qed (use "2.IH"(1) in simp)
qed simp

text \<open>
  C40. No request reaches a private network: every request that a dispatch or a retry run sends goes to
  a URL whose host, as a literal or through every address it resolved to at that moment, is outside the
  private, loopback and link-local ranges.
\<close>

theorem posts_only_to_public_hosts:
  "set (posted (dispatch e p st)) \<subseteq> set (posted st) \<union> {x. safe_target (we_net e) (hr_url (snd x))}
   \<and> set (posted (processRetries sch e st)) \<subseteq> set (posted st) \<union> {x. safe_target (we_net e) (hr_url (snd x))}"
proof -
  have "only_safe e st (dispatch e p st)"
    by (auto simp: dispatch_def fold_only_safe split: sum.splits option.splits)
  moreover have "only_safe e st (processRetries sch e st)"
    by (auto simp: processRetries_def run_retries_only_safe)
  ultimately show ?thesis by (simp add: only_safe_def)
qed

subsection \<open>What a retry run does to the table\<close>

lemma max_attempts: "MAX_RETRY_ATTEMPTS = 4"
  by (simp add: MAX_RETRY_ATTEMPTS_def RETRY_DELAYS_MS_def)

lemma retry_delay_bounds: "0 < getRetryDelayMs n" "getRetryDelayMs n \<le> 2700000"
proof -
  let ?k = "nat (max 0 (min (n - 1) 2))"
  have "?k \<in> {0, 1, 2}" by auto
  then show "0 < getRetryDelayMs n" "getRetryDelayMs n \<le> 2700000"
    by (auto simp: getRetryDelayMs_def RETRY_DELAYS_MS_def)
qed

text \<open>One attempt at a delivery, as the row shows it: counted, and either settled or due again later.\<close>

definition attempted :: "int \<Rightarrow> WebhookDelivery \<Rightarrow> WebhookDelivery \<Rightarrow> bool" where
  "attempted now d d' \<longleftrightarrow>
     wd_id d' = wd_id d \<and> subscription_id d' = subscription_id d \<and> wd_payload d' = wd_payload d
     \<and> event_id d' = event_id d \<and> event_type d' = event_type d
     \<and> attempt_count d' = attempt_count d + 1
     \<and> (case next_retry_at d' of
          None \<Rightarrow> True
        | Some t \<Rightarrow> t = now + getRetryDelayMs (attempt_count d') \<and> attempt_count d' < MAX_RETRY_ATTEMPTS \<and> delivered_at d' = delivered_at d)"

definition table_attempted :: "int \<Rightarrow> int set \<Rightarrow> WebhookDelivery list \<Rightarrow> WebhookDelivery list \<Rightarrow> bool" where
  "table_attempted now ids = list_all2 (\<lambda>d d'. if wd_id d \<in> ids then attempted now d d' else d' = d)"

lemma table_attempted_refl: "table_attempted now {} ds ds"
  by (simp add: table_attempted_def list_all2_same)

lemma table_attempted_trans:
  assumes "table_attempted now A ds ds1" "table_attempted now B ds1 ds2" "A \<inter> B = {}"
  shows "table_attempted now (A \<union> B) ds ds2"
  using assms(1,2) unfolding table_attempted_def
  by (rule list_all2_trans [rotated]) (use assms(3) in \<open>auto simp: attempted_def split: if_splits\<close>)

lemma list_all2_partner:
  "list_all2 P xs ys \<Longrightarrow> x \<in> set xs \<Longrightarrow> \<exists>y\<in>set ys. P x y"
  "list_all2 P xs ys \<Longrightarrow> y \<in> set ys \<Longrightarrow> \<exists>x\<in>set xs. P x y"
  by (induction rule: list_all2_induct) auto

lemma table_attempted_ids: "table_attempted now ids ds ds' \<Longrightarrow> map wd_id ds' = map wd_id ds"
  unfolding table_attempted_def by (induction rule: list_all2_induct) (auto simp: attempted_def split: if_splits)

lemmas table_attempted_partner = list_all2_partner [where P = "\<lambda>d d'. if wd_id d \<in> ids then attempted now d d' else d' = d" for ids now,
    folded table_attempted_def]

definition posts_of :: "int \<Rightarrow> webhook_state \<Rightarrow> nat" where
  "posts_of did st = length (filter (\<lambda>x. fst x = Some did) (posted st))"

lemma postWebhook_frame:
  "postWebhook e d url body sig t n st = (r, st') \<Longrightarrow>
     dels st' = dels st \<and> subs st' = subs st \<and> next_del st' = next_del st \<and> next_sub st' = next_sub st
     \<and> (posted st' = posted st \<or> (\<exists>q. posted st' = posted st @ [(d, q)]))"
  by (auto simp: postWebhook_def Let_def split: sum.splits callback_error.splits)

text \<open>A retry whose last update works either throws before anything happened or attempts its row once.\<close>

lemma retry_attempts:
  assumes "update_fault e did (Suc 0) = None"
    and "retryWebhookDelivery e did url secret p n st = (r, st')"
    and "\<And>d. d \<in> set (dels st) \<Longrightarrow> wd_id d = did \<Longrightarrow> attempt_count d = n"
  shows "subs st' = subs st \<and> next_del st' = next_del st \<and> next_sub st' = next_sub st
    \<and> ((\<exists>er. prepareWebhookPayload e p = Inl er) \<and> r \<noteq> Inr () \<and> dels st' = dels st \<and> posted st' = posted st
       \<or> r = Inr () \<and> table_attempted (we_now e) {did} (dels st) (dels st')
         \<and> (posted st' = posted st \<or> (\<exists>q. posted st' = posted st @ [(Some did, q)])))"
proof (cases "prepareWebhookPayload e p")
  case (Inl er)
  with assms(2) show ?thesis by (auto simp: retryWebhookDelivery_def)
next
  case (Inr pp)
  obtain q st1 where p: "postWebhook e (Some did) url (pp_body pp) (signature_for e secret pp) (pp_timestamp pp) (pp_nonce pp) st = (q, st1)"
    by (meson surj_pair)
  have t: "table_attempted (we_now e) {did} ds (map (\<lambda>d. if wd_id d = did then f d else d) ds)"
    if "\<And>d. d \<in> set ds \<Longrightarrow> wd_id d = did \<Longrightarrow> attempted (we_now e) d (f d)" for f ds
    using that unfolding table_attempted_def by (induction ds) (auto split: if_splits)
  have f: "attempted (we_now e) d (mark_delivered e (n + 1) s d)"
    "attempted (we_now e) d (mark_refused e (n + 1) s (if n + 1 < MAX_RETRY_ATTEMPTS then Some (we_now e + getRetryDelayMs (n + 1)) else None) d)"
    "attempted (we_now e) d (mark_error e (n + 1) m (if n + 1 < MAX_RETRY_ATTEMPTS then Some (we_now e + getRetryDelayMs (n + 1)) else None) d)"
    "attempted (we_now e) d (mark_error e (n + 1) m None d)"
    if "attempt_count d = n" for d s m
    using that by (simp_all add: attempted_def mark_delivered_def mark_refused_def mark_error_def)
  let ?later = "if n + 1 < MAX_RETRY_ATTEMPTS then Some (we_now e + getRetryDelayMs (n + 1)) else None"
  have "\<exists>g. r = Inr () \<and> st' = st1\<lparr>dels := map (\<lambda>d. if wd_id d = did then g d else d) (dels st1)\<rparr>
      \<and> (\<forall>d. attempt_count d = n \<longrightarrow> attempted (we_now e) d (g d))"
  proof (cases q)
    case (Status s)
    show ?thesis
    proof (cases "update_fault e did 0")
      case None
      with assms(2) Status f show ?thesis
        by (intro exI [of _ "if response_ok s then mark_delivered e (n + 1) s else mark_refused e (n + 1) s ?later"])
          (auto simp: retryWebhookDelivery_def Inr p update_delivery_def Let_def)
    next
      case (Some er)
      with assms(1,2) Status f show ?thesis
        by (intro exI [of _ "mark_error e (n + 1) (db_code er) ?later"])
          (auto simp: retryWebhookDelivery_def Inr p update_delivery_def Let_def)
    qed
  next
    case (Blocked m)
    with assms(1,2) f show ?thesis
      by (intro exI [of _ "mark_error e (n + 1) m None"]) (auto simp: retryWebhookDelivery_def Inr p update_delivery_def Let_def)
  next
    case (Failed m)
    with assms(1,2) f show ?thesis
      by (intro exI [of _ "mark_error e (n + 1) m ?later"]) (auto simp: retryWebhookDelivery_def Inr p update_delivery_def Let_def)
  qed
  then obtain g where "r = Inr ()" and st': "st' = st1\<lparr>dels := map (\<lambda>d. if wd_id d = did then g d else d) (dels st1)\<rparr>"
    and g: "\<And>d. attempt_count d = n \<Longrightarrow> attempted (we_now e) d (g d)" by blast
  moreover have "table_attempted (we_now e) {did} (dels st) (dels st')"
    unfolding st' using postWebhook_frame [OF p] t [of "dels st" g] assms(3) g by simp
  ultimately show ?thesis using postWebhook_frame [OF p] by auto
qed

text \<open>The effect of the first \<open>k\<close> rows of a run.\<close>

definition run_effect :: "webhook_env \<Rightarrow> int set \<Rightarrow> webhook_state \<Rightarrow> webhook_state \<Rightarrow> bool" where
  "run_effect e ids st st' \<longleftrightarrow>
     subs st' = subs st \<and> next_del st' = next_del st \<and> next_sub st' = next_sub st
     \<and> table_attempted (we_now e) ids (dels st) (dels st')
     \<and> (\<forall>did. posts_of did st' \<le> posts_of did st + (if did \<in> ids then 1 else 0))"

lemma run_effect_refl: "run_effect e {} st st"
  by (simp add: run_effect_def table_attempted_refl)

lemma run_effect_trans:
  assumes "run_effect e A st st1" "run_effect e B st1 st2" "A \<inter> B = {}"
  shows "run_effect e (A \<union> B) st st2"
proof -
  have "posts_of did st2 \<le> posts_of did st + (if did \<in> A \<union> B then 1 else 0)" for did
  proof -
    have "posts_of did st1 \<le> posts_of did st + (if did \<in> A then 1 else 0)"
      "posts_of did st2 \<le> posts_of did st1 + (if did \<in> B then 1 else 0)"
      using assms(1,2) by (simp_all add: run_effect_def)
    with assms(3) show ?thesis by (auto split: if_splits)
  qed
  moreover have "table_attempted (we_now e) A (dels st) (dels st1)" "table_attempted (we_now e) B (dels st1) (dels st2)"
    using assms(1,2) by (simp_all add: run_effect_def)
  from table_attempted_trans [OF this assms(3)] have "table_attempted (we_now e) (A \<union> B) (dels st) (dels st2)" .
  ultimately show ?thesis using assms(1,2) by (simp add: run_effect_def)
qed

lemma run_effect_pii: "plainSecret e raw sid st = (r, st1) \<Longrightarrow> run_effect e {} st st1"
  using plainSecret_frame by (fastforce simp: run_effect_def posts_of_def table_attempted_refl)

lemma retry_effect:
  assumes "update_fault e did (Suc 0) = None" "retryWebhookDelivery e did url secret p n st = (r, st')"
    and "\<And>d. d \<in> set (dels st) \<Longrightarrow> wd_id d = did \<Longrightarrow> attempt_count d = n"
  shows "run_effect e (if r = Inr () then {did} else {}) st st'" "(\<exists>pp. prepareWebhookPayload e p = Inr pp) \<Longrightarrow> r = Inr ()"
proof -
  note a = retry_attempts [OF assms]
  show "run_effect e (if r = Inr () then {did} else {}) st st'"
    using a by (auto simp: run_effect_def posts_of_def table_attempted_refl)
  show "r = Inr ()" if "\<exists>pp. prepareWebhookPayload e p = Inr pp" using a that by auto
qed

lemma run_retries_effect:
  assumes "\<And>did. update_fault e did (Suc 0) = None" "distinct (map (wd_id \<circ> fst) rows)" "distinct (map wd_id (dels st))"
    and "\<And>x. x \<in> set rows \<Longrightarrow> fst x \<in> set (dels st) \<and> attempt_count (fst x) < MAX_RETRY_ATTEMPTS"
    and "run_retries e rows st = (r, st')"
  shows "\<exists>ids. ids \<subseteq> wd_id ` fst ` set rows \<and> run_effect e ids st st' \<and> (r = Inr () \<longrightarrow> ids = wd_id ` fst ` set rows)"
  using assms(2-5)
proof (induction rows arbitrary: st)
  case Nil
  then show ?case using run_effect_refl by auto
next
  case (Cons row rows)
  obtain d s where row: "row = (d, s)" by fastforce
  have d: "d \<in> set (dels st)" "\<not> MAX_RETRY_ATTEMPTS \<le> attempt_count d" using Cons.prems(3) [of row] row by auto
  have uniq: "d' = d" if "d' \<in> set (dels st)" "wd_id d' = wd_id d" for d'
    using Cons.prems(2) d(1) that by (auto simp: distinct_map inj_on_def)
  have fresh: "wd_id d \<notin> wd_id ` fst ` set rows" and dist: "distinct (map (wd_id \<circ> fst) rows)"
    using Cons.prems(1) row by (simp_all add: image_image comp_def)
  obtain q st1 where p: "plainSecret e (ws_secret s) (ws_id s) st = (q, st1)" by (meson surj_pair)
  have same: "dels st1 = dels st" using plainSecret_frame [OF p] by simp
  show ?case
  proof (cases q)
    case (Inl er)
    with Cons.prems(4) d(2) p row have "st' = st1" "r \<noteq> Inr ()" by auto
    then show ?thesis using run_effect_pii [OF p] by auto
  next
    case (Inr secret)
    let ?retry = "retryWebhookDelivery e (wd_id d) (callback_url s) secret (jsonb_read e (wd_payload d)) (attempt_count d) st1"
    obtain r2 st2 where run: "?retry = (r2, st2)" by (meson surj_pair)
    have eff: "run_effect e (if r2 = Inr () then {wd_id d} else {}) st1 st2"
      by (rule retry_effect(1) [OF assms(1) run]) (auto simp: same dest: uniq)
    show ?thesis
    proof (cases "r2 = Inr ()")
      case True
      with eff run_effect_trans [OF run_effect_pii [OF p], of "{wd_id d}" st2]
      have one: "run_effect e {wd_id d} st st2" by simp
      have tab: "table_attempted (we_now e) {wd_id d} (dels st) (dels st2)" using one by (simp add: run_effect_def)
      have "fst x \<in> set (dels st2) \<and> attempt_count (fst x) < MAX_RETRY_ATTEMPTS" if "x \<in> set rows" for x
      proof -
        have "wd_id (fst x) \<in> wd_id ` fst ` set rows" using that by simp
        with fresh have "wd_id (fst x) \<noteq> wd_id d" by metis
        then show ?thesis using table_attempted_partner(1) [OF tab, of "fst x"] Cons.prems(3) [of x] that by auto
      qed
      moreover have "distinct (map wd_id (dels st2))" using table_attempted_ids [OF tab] Cons.prems(2) by simp
      moreover have "run_retries e rows st2 = (r, st')" using Cons.prems(4) d(2) p Inr run True row by simp
      ultimately obtain ids where ids: "ids \<subseteq> wd_id ` fst ` set rows" "run_effect e ids st2 st'" "r = Inr () \<longrightarrow> ids = wd_id ` fst ` set rows"
        using Cons.IH [OF dist] by blast
      have "run_effect e ({wd_id d} \<union> ids) st st'"
        by (rule run_effect_trans [OF one ids(2)]) (use ids(1) fresh in blast)
      with ids(1,3) show ?thesis by (intro exI [of _ "{wd_id d} \<union> ids"]) (auto simp: row)
    next
      case False
      then obtain er where "r2 = Inl er" by (cases r2) auto
      with Cons.prems(4) d(2) p Inr run row have "st' = st2" "r \<noteq> Inr ()" by auto
      moreover have "run_effect e {} st st2" using eff False run_effect_trans [OF run_effect_pii [OF p], of "{}" st2] by simp
      ultimately show ?thesis by auto
    qed
  qed
qed

text \<open>With secrets that can be read and payloads that can be prepared, a run reaches its end.\<close>

definition serviceable :: "webhook_env \<Rightarrow> webhook_state \<Rightarrow> bool" where
  "serviceable e st \<longleftrightarrow>
     (\<forall>s\<in>set (subs st). \<forall>q. \<exists>x. fst (plainSecret e (ws_secret s) (ws_id s) q) = Inr x)
     \<and> (\<forall>d\<in>set (dels st). \<exists>pp. prepareWebhookPayload e (jsonb_read e (wd_payload d)) = Inr pp)"

lemma run_retries_completes:
  assumes "\<And>did. update_fault e did (Suc 0) = None"
    and "\<And>d s. (d, s) \<in> set rows \<Longrightarrow> (\<forall>q. \<exists>x. fst (plainSecret e (ws_secret s) (ws_id s) q) = Inr x)
      \<and> (\<exists>pp. prepareWebhookPayload e (jsonb_read e (wd_payload d)) = Inr pp)"
  shows "fst (run_retries e rows st) = Inr ()"
  using assms(2)
proof (induction rows arbitrary: st)
  case (Cons row rows)
  obtain d s where row: "row = (d, s)" by fastforce
  obtain x st1 where p: "plainSecret e (ws_secret s) (ws_id s) st = (Inr x, st1)"
    using Cons.prems [of d s] row by (metis list.set_intros(1) prod.collapse)
  have "fst (retryWebhookDelivery e did url x p' n st1) = Inr ()" if "\<exists>pp. prepareWebhookPayload e p' = Inr pp" for did url p' n
    using that assms(1)
    by (auto simp: retryWebhookDelivery_def update_delivery_def Let_def split: prod.splits post_result.splits option.splits)
  then obtain st2 where "retryWebhookDelivery e (wd_id d) (callback_url s) x (jsonb_read e (wd_payload d)) (attempt_count d) st1 = (Inr (), st2)"
    using Cons.prems [of d s] row by (metis list.set_intros(1) prod.collapse)
  moreover have "fst (run_retries e rows q) = Inr ()" for q by (rule Cons.IH, rule Cons.prems) simp
  ultimately show ?case using p row by simp
qed simp

subsection \<open>The invariant\<close>

definition delivery_ok :: "WebhookDelivery \<Rightarrow> bool" where
  "delivery_ok d \<longleftrightarrow> 1 \<le> attempt_count d \<and> attempt_count d \<le> MAX_RETRY_ATTEMPTS
     \<and> (next_retry_at d \<noteq> None \<longrightarrow> delivered_at d = None \<and> attempt_count d < MAX_RETRY_ATTEMPTS)"

text \<open>
  Identities are unique and taken from their sequences, deliveries belong to subscriptions, attempts
  are within the limit, no delivery was posted again more often than its row counts, and
  subscriptions name supported event types.
\<close>

definition wh_inv :: "webhook_state \<Rightarrow> bool" where
  "wh_inv st \<longleftrightarrow>
     distinct (map ws_id (subs st)) \<and> (\<forall>s\<in>set (subs st). ws_id s < next_sub st \<and> event_types s \<noteq> [] \<and> list_all isSupported (event_types s))
     \<and> distinct (map wd_id (dels st)) \<and> (\<forall>d\<in>set (dels st). wd_id d < next_del st \<and> subscription_id d \<in> ws_id ` set (subs st) \<and> delivery_ok d)
     \<and> (\<forall>d\<in>set (dels st). int (posts_of (wd_id d) st) < attempt_count d)
     \<and> (\<forall>did. posts_of did st \<le> 3) \<and> (\<forall>did\<ge>next_del st. posts_of did st = 0)"

lemma wh_invD:
  assumes "wh_inv st"
  shows "distinct (map ws_id (subs st))" "distinct (map wd_id (dels st))"
    "d \<in> set (dels st) \<Longrightarrow> wd_id d < next_del st" "d \<in> set (dels st) \<Longrightarrow> subscription_id d \<in> ws_id ` set (subs st)"
    "d \<in> set (dels st) \<Longrightarrow> delivery_ok d" "posts_of did st \<le> 3"
  using assms by (auto simp: wh_inv_def)

lemma in_map_filter: "x \<in> set (List.map_filter f xs) \<longleftrightarrow> (\<exists>y\<in>set xs. f y = Some x)"
  by (induction xs) (auto simp: List.map_filter_simps split: option.splits)

lemma due_rows_in:
  assumes "x \<in> set (due_rows now st)"
  shows "fst x \<in> set (dels st)" "due now (fst x)" "snd x \<in> set (subs st)"
  using assms by (auto simp: due_rows_def in_map_filter find_Some_iff dest!: in_set_takeD)

lemma map_filter_pairs: "map fst (List.map_filter (\<lambda>d. map_option (Pair d) (f d)) ds) = filter (\<lambda>d. f d \<noteq> None) ds"
  by (induction ds) (auto simp: List.map_filter_simps split: option.splits)

lemma distinct_due_rows:
  assumes "distinct (map wd_id (dels st))"
  shows "distinct (map (wd_id \<circ> fst) (due_rows now st))"
proof -
  have "distinct (map wd_id (sort_key (\<lambda>d. the (next_retry_at d)) (filter (due now) (dels st))))"
    using assms by (simp add: distinct_map inj_on_def)
  then show ?thesis
    unfolding due_rows_def map_map [symmetric] take_map [symmetric] map_filter_pairs
    by (simp add: distinct_map distinct_take inj_on_def)
qed

lemma attempted_keeps_ok: "attempted now d d' \<Longrightarrow> due now d \<Longrightarrow> delivery_ok d \<Longrightarrow> delivery_ok d'"
  by (auto simp: attempted_def due_def delivery_ok_def split: option.splits)

lemma run_effect_inv:
  assumes "wh_inv st" "run_effect e ids st st'" "\<And>d. d \<in> set (dels st) \<Longrightarrow> wd_id d \<in> ids \<Longrightarrow> due (we_now e) d"
    and "ids \<subseteq> wd_id ` set (dels st)"
  shows "wh_inv st'"
proof -
  have eff: "subs st' = subs st" "next_del st' = next_del st" "next_sub st' = next_sub st"
    and tab: "table_attempted (we_now e) ids (dels st) (dels st')"
    and posts: "posts_of did st' \<le> posts_of did st + (if did \<in> ids then 1 else 0)" for did
    using assms(2) by (auto simp: run_effect_def)
  note inv = assms(1) [unfolded wh_inv_def]
  have row: "wd_id d' < next_del st \<and> subscription_id d' \<in> ws_id ` set (subs st) \<and> delivery_ok d'
      \<and> int (posts_of (wd_id d') st') < attempt_count d'" if d': "d' \<in> set (dels st')" for d'
  proof -
    obtain d where d: "d \<in> set (dels st)" "if wd_id d \<in> ids then attempted (we_now e) d d' else d' = d"
      using table_attempted_partner(2) [OF tab d'] by blast
    have p: "int (posts_of (wd_id d) st) < attempt_count d" using inv d(1) by blast
    show ?thesis
    proof (cases "wd_id d \<in> ids")
      case True
      with d have a: "attempted (we_now e) d d'" by simp
      then have "delivery_ok d'" using attempted_keeps_ok assms(3) [OF d(1) True] inv d(1) by blast
      moreover have "wd_id d' = wd_id d" "subscription_id d' = subscription_id d" "attempt_count d' = attempt_count d + 1"
        using a by (simp_all add: attempted_def)
      ultimately show ?thesis using inv d(1) p posts [of "wd_id d"] True by auto
    next
      case False
      with d p posts [of "wd_id d"] inv show ?thesis by auto
    qed
  qed
  have "posts_of did st' \<le> 3" for did
  proof (cases "did \<in> ids")
    case True
    then obtain d where d: "d \<in> set (dels st)" "wd_id d = did" using assms(4) by blast
    with assms(3) True have "attempt_count d < 4" by (auto simp: due_def max_attempts)
    moreover have "int (posts_of did st) < attempt_count d" using inv d by blast
    ultimately show ?thesis using posts [of did] True by simp
  next
    case False
    then show ?thesis using posts [of did] wh_invD(6) [OF assms(1), of did] by simp
  qed
  moreover have "posts_of did st' = 0" if "next_del st' \<le> did" for did
  proof -
    have "did \<notin> ids" using assms(4) inv that eff(2) by force
    then show ?thesis using posts [of did] inv that eff(2) by simp
  qed
  ultimately show ?thesis
    unfolding wh_inv_def eff table_attempted_ids [OF tab] using row inv by simp
qed

lemma processRetries_effect:
  assumes "wh_inv st" "\<And>did. update_fault e did (Suc 0) = None"
  shows "\<exists>ids. ids \<subseteq> wd_id ` set (filter (due (we_now e)) (dels st)) \<and> run_effect e ids st (processRetries sch e st)"
proof (cases "query_accepted sch \<and> select_fault e = None")
  case True
  let ?rows = "due_rows (we_now e) st"
  obtain r st' where run: "run_retries e ?rows st = (r, st')" by (meson surj_pair)
  have "fst x \<in> set (dels st) \<and> attempt_count (fst x) < MAX_RETRY_ATTEMPTS" if "x \<in> set ?rows" for x
    using due_rows_in [OF that] by (simp add: due_def)
  from run_retries_effect [OF assms(2) distinct_due_rows [OF wh_invD(2) [OF assms(1)]] wh_invD(2) [OF assms(1)] this run]
  obtain ids where "ids \<subseteq> wd_id ` fst ` set ?rows" "run_effect e ids st st'" by blast
  moreover have "fst ` set ?rows \<subseteq> set (filter (due (we_now e)) (dels st))" using due_rows_in by fastforce
  ultimately show ?thesis using True run by (auto simp: processRetries_def intro!: exI [of _ ids]) blast
next
  case False
  then show ?thesis using run_effect_refl by (auto simp: processRetries_def intro!: exI [of _ "{}"])
qed

lemma processRetries_inv:
  assumes "wh_inv st" "\<And>did. update_fault e did (Suc 0) = None"
  shows "wh_inv (processRetries sch e st)"
proof -
  obtain ids where ids: "ids \<subseteq> wd_id ` set (filter (due (we_now e)) (dels st))" "run_effect e ids st (processRetries sch e st)"
    using processRetries_effect [OF assms] by blast
  have "due (we_now e) d" if "d \<in> set (dels st)" "wd_id d \<in> ids" for d
    using ids(1) that wh_invD(2) [OF assms(1)] by (auto simp: distinct_map inj_on_def dest!: subsetD)
  with ids show ?thesis by (intro run_effect_inv [OF assms(1) ids(2)]) auto
qed

subsection \<open>Every operation keeps the invariant\<close>

lemma wh_inv_cong:
  assumes "wh_inv st" "subs st' = subs st" "dels st' = dels st" "next_sub st' = next_sub st" "next_del st' = next_del st"
    "\<And>did. posts_of did st' = posts_of did st"
  shows "wh_inv st'"
  using assms by (simp add: wh_inv_def)

lemma insert_delivery_inv:
  assumes "wh_inv st" "insert_delivery e k sid pp oc st = Inr st'" "oc_next oc \<noteq> None \<Longrightarrow> oc_delivered oc = None"
  shows "wh_inv st'"
proof -
  obtain ei et where st': "st' = st\<lparr>dels := dels st @ [new_delivery e (next_del st) sid ei et pp oc], next_del := next_del st + 1\<rparr>"
    and sid: "sid \<in> ws_id ` set (subs st)"
    using assms(2) by (auto simp: insert_delivery_def split: option.splits if_splits)
  have posts: "posts_of did st' = posts_of did st" for did by (simp add: st' posts_of_def)
  have "delivery_ok (new_delivery e (next_del st) sid ei et pp oc)"
    using assms(3) by (simp add: delivery_ok_def max_attempts new_delivery_def)
  then show ?thesis
    using assms(1) sid unfolding wh_inv_def posts by (auto simp: st' new_delivery_def)
qed

lemma sendToWebhook_inv:
  assumes "wh_inv st"
  shows "wh_inv (snd (sendToWebhook e sid url secret pp st))"
proof -
  obtain r st1 where p: "postWebhook e None url (pp_body pp) (signature_for e secret pp) (pp_timestamp pp) (pp_nonce pp) st = (r, st1)"
    by (meson surj_pair)
  have "wh_inv st1"
    by (rule wh_inv_cong [OF assms]) (use postWebhook_frame [OF p] in \<open>auto simp: posts_of_def\<close>)
  then show ?thesis
    by (auto simp: sendToWebhook_def p Let_def split: post_result.splits sum.splits if_splits intro: insert_delivery_inv)
qed

lemma plainSecret_inv: "wh_inv st \<Longrightarrow> plainSecret e raw sid st = (r, st') \<Longrightarrow> wh_inv st'"
  using plainSecret_frame by (fastforce intro: wh_inv_cong simp: posts_of_def)

lemma dispatch_to_inv: "wh_inv st \<Longrightarrow> wh_inv (dispatch_to e pp hook st)"
  by (auto simp: dispatch_to_def split: prod.splits sum.splits dest: plainSecret_inv intro: sendToWebhook_inv)

lemma fold_dispatch_inv: "wh_inv st \<Longrightarrow> wh_inv (fold (dispatch_to e pp) hooks st)"
  by (induction hooks arbitrary: st) (auto intro: dispatch_to_inv)

lemma dispatch_inv: "wh_inv st \<Longrightarrow> wh_inv (dispatch e p st)"
  by (auto simp: dispatch_def split: sum.splits option.splits intro: fold_dispatch_inv)

lemma registerSubscription_inv:
  assumes "wh_inv st" "types \<noteq> []" "list_all isSupported types"
  shows "wh_inv (snd (registerSubscription e url types secret st))"
proof -
  have "wh_inv (st\<lparr>subs := subs st @ [row], next_sub := next_sub st + 1\<rparr>)"
    if "ws_id row = next_sub st" "event_types row = types" for row
    using assms that unfolding wh_inv_def posts_of_def by (auto dest: less_imp_le)
  then show ?thesis
    using assms(1) by (auto simp: registerSubscription_def Let_def split: sum.splits option.splits)
qed

lemma normalized_supported: "list_all isSupported (normalizedEventTypes types)"
proof -
  have "supported_text v = Some t \<Longrightarrow> isSupported t" for v t
    by (cases v) (auto simp: supported_text_def split: if_splits)
  then show ?thesis
    by (auto simp: normalizedEventTypes_def list_all_iff in_map_filter split: option.splits json.splits)
qed

lemma createWebhookSubscription_inv:
  assumes "wh_inv st"
  shows "wh_inv (snd (createWebhookSubscription e protocol url types secret st))"
proof -
  have "wh_inv st1" if "registerSubscription e u (normalizedEventTypes types) secret st = (r, st1)"
    "normalizedEventTypes types \<noteq> []" for u r st1
    using registerSubscription_inv [OF assms that(2) normalized_supported, of e u secret] that(1) by simp
  then show ?thesis
    using assms by (auto simp: createWebhookSubscription_def Let_def split: option.splits prod.splits sum.splits)
qed

lemma wh_inv_subs:
  assumes "wh_inv st" "map ws_id ss = map ws_id (subs st)"
    and "\<And>s. s \<in> set ss \<Longrightarrow> event_types s \<noteq> [] \<and> list_all isSupported (event_types s)"
  shows "wh_inv (st\<lparr>subs := ss\<rparr>)"
proof -
  have img: "ws_id ` set ss = ws_id ` set (subs st)" using arg_cong [OF assms(2), of set] by (simp only: list.set_map)
  have "ws_id s < next_sub st" if "s \<in> set ss" for s
  proof -
    have "ws_id s \<in> ws_id ` set (subs st)" using that img by auto
    then show ?thesis using assms(1) by (auto simp: wh_inv_def)
  qed
  with assms(1,3) show ?thesis by (simp add: wh_inv_def posts_of_def assms(2) img)
qed

lemma rotateWebhookSecret_inv: "wh_inv st \<Longrightarrow> wh_inv (snd (rotateWebhookSecret e sid s st))"
proof -
  assume i: "wh_inv st"
  have "wh_inv (st\<lparr>subs := map (\<lambda>s. if ws_id s = sid then s\<lparr>ws_secret := x, ws_updated_at := y\<rparr> else s) (subs st)\<rparr>)" for x y
    by (rule wh_inv_subs [OF i]) (use i in \<open>auto simp: wh_inv_def\<close>)
  with i show ?thesis by (auto simp: rotateWebhookSecret_def split: sum.splits option.splits)
qed

lemma deleteSubscription_inv: "wh_inv st \<Longrightarrow> wh_inv (snd (deleteSubscription sid st))"
  by (auto simp: wh_inv_def deleteSubscription_def posts_of_def distinct_map inj_on_def)

text \<open>
  The states of the service: an empty database, then any sequence of its operations. A retry run whose
  bookkeeping update fails counts no attempt, so the runs here are those whose last update works.
\<close>

inductive wh_reach :: "webhook_schema \<Rightarrow> webhook_state \<Rightarrow> bool" for sch where
  reach_empty: "wh_reach sch \<lparr>subs = [], dels = [], next_sub = 1, next_del = 1, wh_pii = q, posted = []\<rparr>"
| reach_dispatch: "wh_reach sch st \<Longrightarrow> wh_reach sch (dispatch e p st)"
| reach_retries: "wh_reach sch st \<Longrightarrow> (\<And>did. update_fault e did 1 = None) \<Longrightarrow> wh_reach sch (processRetries sch e st)"
| reach_create: "wh_reach sch st \<Longrightarrow> wh_reach sch (snd (createWebhookSubscription e protocol url types secret st))"
| reach_rotate: "wh_reach sch st \<Longrightarrow> wh_reach sch (snd (rotateWebhookSecret e sid s st))"
| reach_delete: "wh_reach sch st \<Longrightarrow> wh_reach sch (snd (deleteSubscription sid st))"

lemma wh_reach_inv: "wh_reach sch st \<Longrightarrow> wh_inv st"
proof (induction rule: wh_reach.induct)
  case (reach_empty q)
  then show ?case by (simp add: wh_inv_def posts_of_def)
next
  case (reach_retries st e)
  then show ?case by (intro processRetries_inv) auto
qed (simp_all add: dispatch_inv createWebhookSubscription_inv rotateWebhookSecret_inv deleteSubscription_inv)

text \<open>
  The effort for a delivery is bounded: in every state the service can reach, whatever subscribers
  answer, a delivery has at most four attempts, a request for it was sent again at most three times, and
  it is scheduled again only while it is undelivered and below the limit.
\<close>

theorem delivery_attempts_bounded:
  assumes "wh_reach sch st"
  shows "(\<forall>d\<in>set (dels st). 1 \<le> attempt_count d \<and> attempt_count d \<le> 4
        \<and> (next_retry_at d \<noteq> None \<longrightarrow> delivered_at d = None \<and> attempt_count d < 4))
    \<and> posts_of did st \<le> 3"
  using wh_invD(5,6) [OF wh_reach_inv [OF assms]] by (auto simp: delivery_ok_def max_attempts)

text \<open>
  In every reachable state each delivery belongs to a subscription that exists, and every subscription
  names at least one event type, all of them supported.
\<close>

theorem deliveries_have_subscribers:
  assumes "wh_reach sch st"
  shows "(\<forall>d\<in>set (dels st). \<exists>s\<in>set (subs st). ws_id s = subscription_id d)
    \<and> (\<forall>s\<in>set (subs st). event_types s \<noteq> [] \<and> set (event_types s) \<subseteq> set SUPPORTED_WEBHOOK_EVENT_TYPES)"
  using wh_reach_inv [OF assms] by (fastforce simp: wh_inv_def list_all_iff isSupported_def)

definition demo_sub :: WebhookSubscription where
  "demo_sub = \<lparr>ws_id = 1, callback_url = ''https://hooks.example.com'', event_types = [''LoanRepaid''], ws_secret = None,
     is_active = True, ws_created_at = 0, ws_updated_at = 0\<rparr>"

definition demo_subscribed :: webhook_state where
  "demo_subscribed = \<lparr>subs = [demo_sub], dels = [], next_sub = 2, next_del = 1, wh_pii = demo_pii_state, posted = []\<rparr>"

lemma demo_host_public: "\<not> isPrivateHost ''hooks.example.com''"
proof -
  have l: "map lower_char (strip_brackets ''hooks.example.com'') = ''hooks.example.com''"
    by (simp add: strip_brackets_def lower_char_def)
  have "strip_zone ''hooks.example.com'' = Some ''hooks.example.com''" by (simp add: strip_zone_def)
  moreover have "cut_double ''hooks.example.com'' = None" by simp
  moreover have "colon_groups True ''hooks.example.com'' = None"
    by (simp add: colon_groups_def v6_group_def parse_v4_def v4_octet_def is_digit_def)
  ultimately have "parse_v6 ''hooks.example.com'' = None" by (simp add: parse_v6_def)
  moreover have "parse_v4 ''hooks.example.com'' = None" by (simp add: parse_v4_def split: option.splits)
  moreover have "strip_brackets ''hooks.example.com'' = ''hooks.example.com''" by (simp add: strip_brackets_def)
  ultimately show ?thesis
    unfolding isPrivateHost_def l Let_def by (simp add: ends_with_def isPrivateIp_def parse_ip_def)
qed

lemma demo_subscribed_reach: "wh_reach sch demo_subscribed"
proof -
  let ?empty = "\<lparr>subs = [], dels = [], next_sub = 1, next_del = 1, wh_pii = demo_pii_state, posted = []\<rparr>"
  have t: "normalizedEventTypes (Some (JArr [JStr ''LoanRepaid''])) = [''LoanRepaid'']"
    by (simp add: normalizedEventTypes_def supported_text_def isSupported_def SUPPORTED_WEBHOOK_EVENT_TYPES_def List.map_filter_simps)
  have "snd (createWebhookSubscription (demo_wenv 0 Aborted) (\<lambda>u. ''https:'') (Some ''https://hooks.example.com'')
      (Some (JArr [JStr ''LoanRepaid''])) None ?empty) = demo_subscribed"
    using demo_host_public
    by (simp add: createWebhookSubscription_def t registerSubscription_def demo_wenv_def demo_resolver_def demo_subscribed_def demo_sub_def Let_def)
  then show ?thesis using reach_create [OF reach_empty [of sch demo_pii_state]] by metis
qed

theorem deliveries_have_subscribers_witness:
  "\<forall>s\<in>set (subs demo_subscribed). event_types s \<noteq> []"
  using deliveries_have_subscribers [OF demo_subscribed_reach] by blast

theorem delivery_attempts_bounded_witness: "posts_of 7 demo_subscribed \<le> 3"
  using delivery_attempts_bounded [OF demo_subscribed_reach] by blast

subsection \<open>A dispatch reaches every subscriber\<close>

text \<open>The row a first delivery leaves: delivered, or due again after the first delay.\<close>

definition first_outcome :: "webhook_env \<Rightarrow> delivery_outcome \<Rightarrow> bool" where
  "first_outcome e oc \<longleftrightarrow>
     oc_delivered oc = Some (we_now e) \<and> oc_next oc = None \<and> (\<exists>req s. we_http e req = Response s \<and> response_ok s)
     \<or> oc_delivered oc = None \<and> oc_next oc = Some (we_now e + getRetryDelayMs 1)"

definition can_insert :: "webhook_env \<Rightarrow> PreparedWebhookPayload \<Rightarrow> string \<Rightarrow> string \<Rightarrow> bool" where
  "can_insert e pp ei et \<longleftrightarrow> (\<forall>sid k. insert_fault e sid k = None) \<and> text_member (pp_payload pp) ''eventId'' = Some ei
     \<and> text_member (pp_payload pp) ''eventType'' = Some et \<and> length ei \<le> 255 \<and> length et \<le> 50"

lemma insert_works:
  assumes "can_insert e pp ei et" "sid \<in> ws_id ` set (subs st)"
  shows "insert_delivery e k sid pp oc st =
    Inr (st\<lparr>dels := dels st @ [new_delivery e (next_del st) sid ei et pp oc], next_del := next_del st + 1\<rparr>)"
  using assms by (simp add: insert_delivery_def can_insert_def)

lemma sendToWebhook_row:
  assumes "can_insert e pp ei et" "sid \<in> ws_id ` set (subs st)"
  shows "\<exists>oc. first_outcome e oc
    \<and> dels (snd (sendToWebhook e sid url secret pp st)) = dels st @ [new_delivery e (next_del st) sid ei et pp oc]
    \<and> subs (snd (sendToWebhook e sid url secret pp st)) = subs st"
proof -
  obtain r st1 where p: "postWebhook e None url (pp_body pp) (signature_for e secret pp) (pp_timestamp pp) (pp_nonce pp) st = (r, st1)"
    by (meson surj_pair)
  note frame = postWebhook_frame [OF p]
  have ins: "insert_delivery e k sid pp oc st1 =
      Inr (st1\<lparr>dels := dels st @ [new_delivery e (next_del st) sid ei et pp oc], next_del := next_del st1 + 1\<rparr>)" for k oc
    using insert_works [OF assms(1), of sid st1] assms(2) frame by simp
  have http: "r = Status s \<Longrightarrow> \<exists>req. we_http e req = Response s" for s
    using p by (auto simp: postWebhook_def Let_def split: sum.splits callback_error.splits http_result.splits)
  let ?retry = "\<lambda>st m. \<lparr>oc_status = st, oc_error = Some m, oc_delivered = None, oc_next = Some (we_now e + getRetryDelayMs 1)\<rparr>"
  show ?thesis
  proof (cases r)
    case (Status s)
    with http frame show ?thesis
      by (intro exI [of _ "if response_ok s then \<lparr>oc_status = Some s, oc_error = None, oc_delivered = Some (we_now e), oc_next = None\<rparr>
          else ?retry (Some s) (status_message s)"]) (auto simp: sendToWebhook_def p ins Let_def first_outcome_def)
  next
    case (Blocked m)
    with frame show ?thesis
      by (intro exI [of _ "?retry None m"]) (auto simp: sendToWebhook_def p ins Let_def first_outcome_def)
  next
    case (Failed m)
    with frame show ?thesis
      by (intro exI [of _ "?retry None m"]) (auto simp: sendToWebhook_def p ins Let_def first_outcome_def)
  qed
qed

definition first_row :: "webhook_env \<Rightarrow> PreparedWebhookPayload \<Rightarrow> string \<Rightarrow> string \<Rightarrow> WebhookDelivery \<Rightarrow> bool" where
  "first_row e pp ei et d \<longleftrightarrow>
     event_id d = ei \<and> event_type d = et \<and> wd_payload d = pp_payload pp \<and> attempt_count d = 1
     \<and> (delivered_at d = Some (we_now e) \<and> next_retry_at d = None \<and> (\<exists>req s. we_http e req = Response s \<and> response_ok s)
        \<or> delivered_at d = None \<and> next_retry_at d = Some (we_now e + getRetryDelayMs 1))"

lemma dispatch_to_row:
  assumes "can_insert e pp ei et" "hook \<in> set (subs st)" "\<And>q. \<exists>x. fst (plainSecret e (ws_secret hook) (ws_id hook) q) = Inr x"
  shows "\<exists>d. first_row e pp ei et d \<and> subscription_id d = ws_id hook
    \<and> dels (dispatch_to e pp hook st) = dels st @ [d] \<and> subs (dispatch_to e pp hook st) = subs st"
proof -
  obtain x st1 where p: "plainSecret e (ws_secret hook) (ws_id hook) st = (Inr x, st1)"
    using assms(3) [of st] by (metis prod.collapse)
  note frame = plainSecret_frame [OF p]
  have "ws_id hook \<in> ws_id ` set (subs st1)" using assms(2) frame by auto
  from sendToWebhook_row [OF assms(1) this, of "callback_url hook" x]
  obtain oc where oc: "first_outcome e oc"
    "dels (snd (sendToWebhook e (ws_id hook) (callback_url hook) x pp st1)) = dels st1 @ [new_delivery e (next_del st1) (ws_id hook) ei et pp oc]"
    "subs (snd (sendToWebhook e (ws_id hook) (callback_url hook) x pp st1)) = subs st1" by blast
  have "first_row e pp ei et (new_delivery e (next_del st1) (ws_id hook) ei et pp oc)"
    using oc(1) by (simp add: first_row_def first_outcome_def new_delivery_def)
  then show ?thesis using oc(2,3) frame
    by (intro exI [of _ "new_delivery e (next_del st1) (ws_id hook) ei et pp oc"]) (simp add: dispatch_to_def p new_delivery_def)
qed

lemma fold_dispatch_rows:
  assumes "can_insert e pp ei et" "set hooks \<subseteq> set (subs st)"
    and "\<And>s q. s \<in> set hooks \<Longrightarrow> \<exists>x. fst (plainSecret e (ws_secret s) (ws_id s) q) = Inr x"
  shows "\<exists>rows. dels (fold (dispatch_to e pp) hooks st) = dels st @ rows \<and> subs (fold (dispatch_to e pp) hooks st) = subs st
    \<and> map subscription_id rows = map ws_id hooks \<and> list_all (first_row e pp ei et) rows"
  using assms(2,3)
proof (induction hooks arbitrary: st)
  case (Cons hook hooks)
  obtain d where d: "first_row e pp ei et d" "subscription_id d = ws_id hook"
    "dels (dispatch_to e pp hook st) = dels st @ [d]" "subs (dispatch_to e pp hook st) = subs st"
    using dispatch_to_row [OF assms(1), of hook st] Cons.prems by auto
  obtain rows where "dels (fold (dispatch_to e pp) hooks (dispatch_to e pp hook st)) = dels st @ [d] @ rows"
    "subs (fold (dispatch_to e pp) hooks (dispatch_to e pp hook st)) = subs st"
    "map subscription_id rows = map ws_id hooks" "list_all (first_row e pp ei et) rows"
    using Cons.IH [of "dispatch_to e pp hook st"] Cons.prems d(3,4) by auto
  with d show ?case by (intro exI [of _ "d # rows"]) simp
qed simp

lemma dispatch_rows:
  assumes "prepareWebhookPayload e p = Inr pp" "select_fault e = None" "can_insert e pp ei et"
    and "\<And>s q. s \<in> set (subs st) \<Longrightarrow> \<exists>x. fst (plainSecret e (ws_secret s) (ws_id s) q) = Inr x"
  shows "\<exists>rows. dels (dispatch e p st) = dels st @ rows \<and> subs (dispatch e p st) = subs st
    \<and> map subscription_id rows = map ws_id (filter (subscribed p) (subs st)) \<and> list_all (first_row e pp ei et) rows"
  using fold_dispatch_rows [OF assms(3), of "filter (subscribed p) (subs st)" st] assms(1,2,4)
  by (auto simp: dispatch_def)

text \<open>
  A dispatch leaves one delivery for each active subscription to the event's type, in their order, and
  none for any other: it carries the event's identity, counts one attempt, and is either delivered or
  scheduled again five minutes later.
\<close>

theorem dispatch_records_every_subscriber:
  assumes "prepareWebhookPayload e p = Inr pp" "select_fault e = None" "can_insert e pp ei et"
    and "\<And>s q. s \<in> set (subs st) \<Longrightarrow> \<exists>x. fst (plainSecret e (ws_secret s) (ws_id s) q) = Inr x"
  shows "\<exists>rows. dels (dispatch e p st) = dels st @ rows
    \<and> map subscription_id rows = map ws_id (filter (subscribed p) (subs st))
    \<and> (\<forall>d\<in>set rows. event_id d = ei \<and> event_type d = et \<and> attempt_count d = 1
        \<and> (delivered_at d = Some (we_now e) \<and> next_retry_at d = None
           \<or> delivered_at d = None \<and> next_retry_at d = Some (we_now e + 300000)))"
proof -
  have "getRetryDelayMs 1 = 300000" by (simp add: getRetryDelayMs_def RETRY_DELAYS_MS_def)
  then have row: "first_row e pp ei et d \<Longrightarrow> event_id d = ei \<and> event_type d = et \<and> attempt_count d = 1
        \<and> (delivered_at d = Some (we_now e) \<and> next_retry_at d = None
           \<or> delivered_at d = None \<and> next_retry_at d = Some (we_now e + 300000))" for d
    by (auto simp: first_row_def)
  obtain rows where rows: "dels (dispatch e p st) = dels st @ rows"
    "map subscription_id rows = map ws_id (filter (subscribed p) (subs st))" "list_all (first_row e pp ei et) rows"
    using dispatch_rows [OF assms] by blast
  have "\<forall>d\<in>set rows. first_row e pp ei et d" using rows(3) by (simp add: list_all_iff)
  then show ?thesis using rows(1,2) row by blast
qed

lemma demo_can_insert:
  assumes "prepareWebhookPayload (demo_wenv now res) demo_payload = Inr pp"
  shows "can_insert (demo_wenv now res) pp ''e1'' ''LoanRepaid''"
  using assms unfolding demo_prepared by (auto simp: can_insert_def demo_wenv_def demo_payload_def text_member_def)

lemma demo_secret: "s \<in> set (subs demo_subscribed) \<Longrightarrow> \<exists>x. fst (plainSecret e (ws_secret s) (ws_id s) q) = Inr x"
  by (simp add: demo_subscribed_def demo_sub_def plainSecret_def)

lemma demo_subscriber: "filter (subscribed demo_payload) (subs demo_subscribed) = [demo_sub]"
  by (simp add: subscribed_def text_member_def demo_payload_def demo_subscribed_def demo_sub_def)

theorem dispatch_records_every_subscriber_witness:
  "length (dels (dispatch (demo_wenv 0 (Response 200)) demo_payload demo_subscribed)) = 1"
proof -
  obtain pp where pp: "prepareWebhookPayload (demo_wenv 0 (Response 200)) demo_payload = Inr pp" using demo_prepared by blast
  have "select_fault (demo_wenv 0 (Response 200)) = None" by (simp add: demo_wenv_def)
  from dispatch_records_every_subscriber [OF pp this demo_can_insert [OF pp] demo_secret]
  obtain rows where "dels (dispatch (demo_wenv 0 (Response 200)) demo_payload demo_subscribed) = dels demo_subscribed @ rows"
    "map subscription_id rows = map ws_id (filter (subscribed demo_payload) (subs demo_subscribed))" by blast
  then show ?thesis using arg_cong [where f = length] demo_subscriber
    by (metis append_Nil demo_subscribed_def length_map list.size(3,4) One_nat_def add.left_neutral plus_1_eq_Suc webhook_state.select_convs(2))
qed

subsection \<open>Retries on the migrated tables\<close>

text \<open>
  The columns the migrations give the two tables
  (\<open>1772000000000_webhook-subscriptions.cjs\<close>, \<open>1786000000016_webhook-max-attempts.cjs\<close>).
\<close>

definition migrated_schema :: webhook_schema where
  "migrated_schema = \<lparr>
     delivery_columns = [''id'', ''subscription_id'', ''event_id'', ''event_type'', ''payload'', ''attempt_count'',
       ''last_status_code'', ''last_error'', ''delivered_at'', ''next_retry_at'', ''created_at'', ''updated_at''],
     subscription_columns = [''id'', ''callback_url'', ''event_types'', ''secret'', ''is_active'', ''created_at'',
       ''updated_at'', ''max_attempts'']\<rparr>"

lemma migrated_id_ambiguous: "resolve_column migrated_schema ''id'' = Inl (DbError ''42702'')"
  by (simp add: resolve_column_def migrated_schema_def)

lemma migrated_query_refused: "\<not> query_accepted migrated_schema"
  using migrated_id_ambiguous by (simp add: query_accepted_def retry_columns_def)

text \<open>
  Both tables have a column \<open>id\<close>, so the query of \<open>processRetries\<close> is refused (42702) and any number of
  retry runs, at any times and against any receivers, leaves every delivery and the requests sent as they are.
\<close>

theorem no_retry_on_migrated_schema: "fold (processRetries migrated_schema) es st = st"
  by (induction es) (simp_all add: processRetries_def migrated_query_refused)

end
