(* ===== verification/JobMetrics.thy ===== *)
theory JobMetrics
  imports Prelude
begin

section \<open>Job metrics (\<open>backend/src/services/jobMetricsService.ts\<close>)\<close>

text \<open>
  The counters the periodic jobs report to. Shown: over any sequence of reports a job's runs are its
  successes and failures together, jobs do not disturb each other, and the last error is that of the
  last run exactly when it failed.
\<close>

record job_metrics =
  lastRunAt :: "int option"
  lastSuccessAt :: "int option"
  lastError :: "string option"
  runsTotal :: nat
  failuresTotal :: nat
  jm_durationMs :: "int option"

type_synonym metrics_map = "string \<rightharpoonup> job_metrics"

definition no_runs :: job_metrics where
  "no_runs = \<lparr>lastRunAt = None, lastSuccessAt = None, lastError = None, runsTotal = 0, failuresTotal = 0, jm_durationMs = None\<rparr>"

definition initializeJob :: "string \<Rightarrow> metrics_map \<Rightarrow> metrics_map" where
  "initializeJob jobName m = (case m jobName of None \<Rightarrow> m(jobName \<mapsto> no_runs) | Some _ \<Rightarrow> m)"

definition recordJobSuccess :: "int \<Rightarrow> string \<Rightarrow> int \<Rightarrow> metrics_map \<Rightarrow> metrics_map" where
  "recordJobSuccess now jobName durationMs m =
     (let m1 = initializeJob jobName m; metrics = the (m1 jobName)
      in m1(jobName \<mapsto> metrics\<lparr>lastRunAt := Some now, lastSuccessAt := Some now, lastError := None,
           runsTotal := runsTotal metrics + 1, jm_durationMs := Some durationMs\<rparr>))"

definition recordJobFailure :: "int \<Rightarrow> string \<Rightarrow> string \<Rightarrow> int \<Rightarrow> metrics_map \<Rightarrow> metrics_map" where
  "recordJobFailure now jobName error durationMs m =
     (let m1 = initializeJob jobName m; metrics = the (m1 jobName)
      in m1(jobName \<mapsto> metrics\<lparr>lastRunAt := Some now, lastError := Some error,
           runsTotal := runsTotal metrics + 1, failuresTotal := failuresTotal metrics + 1, jm_durationMs := Some durationMs\<rparr>))"

definition getJobMetrics :: "string \<Rightarrow> metrics_map \<Rightarrow> job_metrics option" where
  "getJobMetrics jobName m = m jobName"

definition resetJob :: "string \<Rightarrow> metrics_map \<Rightarrow> metrics_map" where
  "resetJob jobName m = m(jobName := None)"

definition resetAll :: "metrics_map \<Rightarrow> metrics_map" where
  "resetAll m = Map.empty"

text \<open>The reports a job makes.\<close>

datatype job_report = Success int int | Failure int string int

fun report :: "string \<times> job_report \<Rightarrow> metrics_map \<Rightarrow> metrics_map" where
  "report (j, Success now ms) m = recordJobSuccess now j ms m"
| "report (j, Failure now e ms) m = recordJobFailure now j e ms m"

fun failed_report :: "job_report \<Rightarrow> bool" where
  "failed_report (Success _ _) \<longleftrightarrow> False"
| "failed_report (Failure _ _ _) \<longleftrightarrow> True"

fun reported_error :: "job_report \<Rightarrow> string option" where
  "reported_error (Success _ _) = None"
| "reported_error (Failure _ e _) = Some e"

definition reports_of :: "string \<Rightarrow> (string \<times> job_report) list \<Rightarrow> job_report list" where
  "reports_of j rs = map snd (filter (\<lambda>r. fst r = j) rs)"

lemma reports_of_snoc: "reports_of j (rs @ [r]) = reports_of j rs @ (if fst r = j then [snd r] else [])"
  by (simp add: reports_of_def)

lemma report_other: "fst r \<noteq> j \<Longrightarrow> report r m j = m j"
  by (cases "(r, m)" rule: report.cases)
    (auto simp: recordJobSuccess_def recordJobFailure_def initializeJob_def Let_def split: option.splits)

definition counted :: "job_report list \<Rightarrow> job_metrics option \<Rightarrow> bool" where
  "counted rs v \<longleftrightarrow>
     (case v of
        None \<Rightarrow> rs = []
      | Some x \<Rightarrow> rs \<noteq> [] \<and> runsTotal x = length rs \<and> failuresTotal x = length (filter failed_report rs)
          \<and> lastError x = reported_error (last rs))"

lemma report_counted:
  assumes "counted (reports_of j rs) (m j)"
  shows "counted (reports_of j (rs @ [r])) (report r m j)"
proof (cases "fst r = j")
  case True
  then show ?thesis using assms
    by (cases "(r, m)" rule: report.cases)
      (auto simp: reports_of_snoc counted_def recordJobSuccess_def recordJobFailure_def initializeJob_def no_runs_def Let_def
        split: option.splits)
next
  case False
  then show ?thesis using assms by (simp add: report_other reports_of_snoc)
qed

text \<open>
  After any sequence of reports of several jobs, starting from no metrics, a job's entry counts its
  own reports: as many runs as it reported, as many failures as it reported failed, and as last error
  that of its last report, none after a success; a job that reported nothing has no entry.
\<close>

theorem metrics_count_reports:
  "case getJobMetrics j (fold report rs Map.empty) of
     None \<Rightarrow> reports_of j rs = []
   | Some x \<Rightarrow> reports_of j rs \<noteq> [] \<and> runsTotal x = length (reports_of j rs)
       \<and> failuresTotal x = length (filter failed_report (reports_of j rs))
       \<and> lastError x = reported_error (last (reports_of j rs))"
proof -
  have "counted (reports_of j rs) (fold report rs Map.empty j)"
  proof (induction rs rule: rev_induct)
    case Nil
    show ?case by (simp add: counted_def reports_of_def)
  next
    case (snoc r rs)
    then show ?case using report_counted by simp
  qed
  then show ?thesis by (simp add: counted_def getJobMetrics_def)
qed

end
