(* ===== verification/WebhookProcessor.thy ===== *)
theory WebhookProcessor
  imports Webhooks JobMetrics
begin

section \<open>The retry processor (\<open>backend/src/services/webhookRetryProcessor.ts\<close>)\<close>

text \<open>
  The timer that polls for due deliveries, the queue depth it publishes
  (\<open>refreshWebhookRetryQueueDepth\<close> of \<open>middleware/metrics.ts\<close>) and the job metrics it reports to.
  Shown: however often it is started and stopped at most one timer is armed, the one it can stop; every
  run is reported as a success, also when the query of the run is refused.
\<close>

record processor =
  retryProcessorInterval :: "nat option"
  armed :: "nat list"
  next_timer :: nat
  queue_depth :: int
  jobs :: metrics_map
  hooks :: webhook_state

text \<open>\<open>setInterval\<close> arms a new timer, \<open>clearInterval\<close> disarms one.\<close>

definition startWebhookRetryProcessor :: "processor \<Rightarrow> processor" where
  "startWebhookRetryProcessor ps =
     (case retryProcessorInterval ps of
        Some _ \<Rightarrow> ps
      | None \<Rightarrow> ps\<lparr>retryProcessorInterval := Some (next_timer ps), armed := armed ps @ [next_timer ps],
                  next_timer := next_timer ps + 1\<rparr>)"

definition stopWebhookRetryProcessor :: "processor \<Rightarrow> processor" where
  "stopWebhookRetryProcessor ps =
     (case retryProcessorInterval ps of
        None \<Rightarrow> ps
      | Some t \<Rightarrow> ps\<lparr>retryProcessorInterval := None, armed := filter (\<lambda>u. u \<noteq> t) (armed ps)\<rparr>)"

definition waiting :: "WebhookDelivery \<Rightarrow> bool" where
  "waiting d \<longleftrightarrow> delivered_at d = None \<and> next_retry_at d \<noteq> None"

definition refreshWebhookRetryQueueDepth :: "webhook_env \<Rightarrow> processor \<Rightarrow> processor" where
  "refreshWebhookRetryQueueDepth e ps =
     (case select_fault e of
        Some _ \<Rightarrow> ps
      | None \<Rightarrow> ps\<lparr>queue_depth := int (length (filter waiting (dels (hooks ps))))\<rparr>)"

text \<open>One firing of the timer; \<open>done_at\<close> is the time at which it ends.\<close>

definition processor_run :: "webhook_schema \<Rightarrow> webhook_env \<Rightarrow> int \<Rightarrow> processor \<Rightarrow> processor" where
  "processor_run sch e done_at ps =
     (let p1 = refreshWebhookRetryQueueDepth e ps;
          p2 = p1\<lparr>hooks := processRetries sch e (hooks p1)\<rparr>;
          p3 = refreshWebhookRetryQueueDepth e p2
      in p3\<lparr>jobs := recordJobSuccess done_at ''webhookRetryProcessor'' (done_at - we_now e) (jobs p3)\<rparr>)"

inductive processor_step :: "webhook_schema \<Rightarrow> processor \<Rightarrow> processor \<Rightarrow> bool" for sch where
  step_start: "processor_step sch ps (startWebhookRetryProcessor ps)"
| step_stop: "processor_step sch ps (stopWebhookRetryProcessor ps)"
| step_fire: "t \<in> set (armed ps) \<Longrightarrow> processor_step sch ps (processor_run sch e done_at ps)"

definition one_timer :: "processor \<Rightarrow> bool" where
  "one_timer ps \<longleftrightarrow> armed ps = (case retryProcessorInterval ps of None \<Rightarrow> [] | Some t \<Rightarrow> [t])"

lemma processor_run_timer [simp]:
  "armed (processor_run sch e t ps) = armed ps"
  "retryProcessorInterval (processor_run sch e t ps) = retryProcessorInterval ps"
  by (simp_all add: processor_run_def refreshWebhookRetryQueueDepth_def Let_def split: option.splits)

lemma one_timer_step: "processor_step sch ps qs \<Longrightarrow> one_timer ps \<Longrightarrow> one_timer qs"
  by (induction rule: processor_step.induct)
    (auto simp: one_timer_def startWebhookRetryProcessor_def stopWebhookRetryProcessor_def split: option.splits)

lemma one_timer_steps: "(processor_step sch)\<^sup>*\<^sup>* ps qs \<Longrightarrow> one_timer ps \<Longrightarrow> one_timer qs"
  by (induction rule: rtranclp_induct) (auto dest: one_timer_step)

definition processor_init :: "webhook_state \<Rightarrow> processor" where
  "processor_init st = \<lparr>retryProcessorInterval = None, armed = [], next_timer = 0, queue_depth = 0, jobs = Map.empty, hooks = st\<rparr>"

text \<open>
  However starts, stops and firings of the retry processor follow each other, at most one timer is
  armed, and stopping the processor leaves none, so that no run follows it.
\<close>

theorem retry_processor_one_timer:
  assumes "(processor_step sch)\<^sup>*\<^sup>* (processor_init st) ps"
  shows "length (armed ps) \<le> 1 \<and> armed (stopWebhookRetryProcessor ps) = []"
proof -
  have "one_timer ps" by (rule one_timer_steps [OF assms]) (simp add: processor_init_def one_timer_def)
  then show ?thesis by (auto simp: one_timer_def stopWebhookRetryProcessor_def split: option.splits)
qed

theorem retry_processor_one_timer_witness:
  "length (armed (startWebhookRetryProcessor (startWebhookRetryProcessor (processor_init demo_waiting)))) \<le> 1"
proof -
  let ?p = "processor_init demo_waiting"
  have "(processor_step migrated_schema)\<^sup>*\<^sup>* ?p (startWebhookRetryProcessor (startWebhookRetryProcessor ?p))"
    by (meson rtranclp.intros step_start)
  from retry_processor_one_timer [OF this] show ?thesis by blast
qed

text \<open>
  On the migrated tables a run of the processor sends nothing and changes no delivery, and yet is
  counted as a successful run with no error.
\<close>

theorem refused_retries_reported_successful:
  "hooks (processor_run migrated_schema e t ps) = hooks ps
   \<and> (case getJobMetrics ''webhookRetryProcessor'' (jobs (processor_run migrated_schema e t ps)) of
        None \<Rightarrow> False
      | Some x \<Rightarrow> lastSuccessAt x = Some t \<and> lastError x = None)"
proof -
  have "hooks (processor_run migrated_schema e t ps) = hooks ps"
    by (simp add: processor_run_def refreshWebhookRetryQueueDepth_def processRetries_def migrated_query_refused Let_def split: option.splits)
  then show ?thesis
    by (simp add: processor_run_def recordJobSuccess_def getJobMetrics_def Let_def)
qed

end
