(* ===== verification/AppErrors.thy ===== *)
theory AppErrors
  imports Prelude
begin

section \<open>Errors and their answers (\<open>backend/src/errors\<close>, \<open>middleware/errorHandler.ts\<close>)\<close>

text \<open>
  The error codes with their registry, \<open>AppError\<close> with its factories, and the handler that turns
  what a request threw into an answer. Shown: the code an error carries by default has the status of
  the answer, and in production an answer does not depend on the message of an internal error.
\<close>

subsection \<open>Codes\<close>

datatype ErrorCode =
    INVALID_AMOUNT | INVALID_PUBLIC_KEY | INVALID_SIGNATURE | INVALID_CHALLENGE | MISSING_FIELD | VALIDATION_ERROR
  | UNAUTHORIZED | TOKEN_EXPIRED | TOKEN_INVALID | CHALLENGE_EXPIRED | FORBIDDEN | ACCESS_DENIED
  | NOT_FOUND | LOAN_NOT_FOUND | USER_NOT_FOUND | POOL_NOT_FOUND | CONFLICT | DUPLICATE_REQUEST
  | RATE_LIMIT_EXCEEDED | INTERNAL_ERROR | DATABASE_ERROR | EXTERNAL_SERVICE_ERROR | BLOCKCHAIN_ERROR | SERVICE_UNAVAILABLE
  | BORROWER_MISMATCH | INSUFFICIENT_BALANCE | LOAN_ALREADY_REPAID | LOAN_NOT_ACTIVE | INVALID_LOAN_ID | INVALID_TX_XDR
  | TOKEN_REPLAY_DETECTED | INVALID_REFRESH_TOKEN | CSRF_TOKEN_INVALID

record ErrorCodeMetadata =
  em_code :: ErrorCode
  em_message :: string
  em_httpStatus :: int
  em_description :: string
  em_suggestedAction :: string

definition metadata :: "ErrorCode \<Rightarrow> string \<Rightarrow> int \<Rightarrow> string \<Rightarrow> string \<Rightarrow> ErrorCodeMetadata" where
  "metadata c m s d a = \<lparr>em_code = c, em_message = m, em_httpStatus = s, em_description = d, em_suggestedAction = a\<rparr>"

fun ERROR_CODE_REGISTRY :: "ErrorCode \<Rightarrow> ErrorCodeMetadata" where
  "ERROR_CODE_REGISTRY INVALID_AMOUNT = metadata INVALID_AMOUNT ''Amount must be a positive number'' 400
     ''The provided amount is invalid or not a positive number''
     ''Provide a valid positive number for the amount field''"
| "ERROR_CODE_REGISTRY INVALID_PUBLIC_KEY = metadata INVALID_PUBLIC_KEY ''Invalid Stellar public key'' 400
     ''The provided Stellar public key format is invalid''
     (''Provide a valid Stellar public key (starts with '' @ [CHR 0x27] @ ''G'' @ [CHR 0x27] @ '')'')"
| "ERROR_CODE_REGISTRY INVALID_SIGNATURE = metadata INVALID_SIGNATURE ''Invalid signature'' 400
     ''The provided cryptographic signature is invalid''
     ''Sign the challenge message with your wallet and retry''"
| "ERROR_CODE_REGISTRY INVALID_CHALLENGE = metadata INVALID_CHALLENGE ''Invalid challenge format'' 400
     ''The challenge message format is invalid''
     ''Request a new challenge and retry''"
| "ERROR_CODE_REGISTRY MISSING_FIELD = metadata MISSING_FIELD ''Required field is missing'' 400
     ''A required field was not provided in the request''
     ''Check the request body and include all required fields''"
| "ERROR_CODE_REGISTRY VALIDATION_ERROR = metadata VALIDATION_ERROR ''Validation failed'' 400
     ''Request validation failed''
     ''Review the validation errors and correct the input''"
| "ERROR_CODE_REGISTRY UNAUTHORIZED = metadata UNAUTHORIZED ''Unauthorized'' 401
     ''Authentication is required to access this resource''
     ''Provide valid authentication credentials''"
| "ERROR_CODE_REGISTRY TOKEN_EXPIRED = metadata TOKEN_EXPIRED ''Token has expired'' 401
     ''The JWT token has expired''
     ''Log in again to obtain a new token''"
| "ERROR_CODE_REGISTRY TOKEN_INVALID = metadata TOKEN_INVALID ''Invalid token'' 401
     ''The JWT token is invalid or malformed''
     ''Log in again to obtain a new token''"
| "ERROR_CODE_REGISTRY CHALLENGE_EXPIRED = metadata CHALLENGE_EXPIRED ''Challenge has expired'' 401
     ''The challenge message has expired (valid for 5 minutes)''
     ''Request a new challenge and sign it''"
| "ERROR_CODE_REGISTRY FORBIDDEN = metadata FORBIDDEN ''Forbidden'' 403
     ''You do not have permission to access this resource''
     ''Ensure you have the required permissions''"
| "ERROR_CODE_REGISTRY ACCESS_DENIED = metadata ACCESS_DENIED ''Access denied'' 403
     ''Access to this resource is denied''
     ''Contact support if you believe this is an error''"
| "ERROR_CODE_REGISTRY BORROWER_MISMATCH = metadata BORROWER_MISMATCH ''Borrower public key must match your authenticated wallet'' 403
     ''The borrower public key does not match the authenticated user''
     ''Ensure the borrower public key matches your wallet''"
| "ERROR_CODE_REGISTRY NOT_FOUND = metadata NOT_FOUND ''Resource not found'' 404
     ''The requested resource does not exist''
     ''Verify the resource ID and try again''"
| "ERROR_CODE_REGISTRY LOAN_NOT_FOUND = metadata LOAN_NOT_FOUND ''Loan not found'' 404
     ''The specified loan does not exist''
     ''Verify the loan ID and try again''"
| "ERROR_CODE_REGISTRY USER_NOT_FOUND = metadata USER_NOT_FOUND ''User not found'' 404
     ''The specified user does not exist''
     ''Verify the user ID and try again''"
| "ERROR_CODE_REGISTRY POOL_NOT_FOUND = metadata POOL_NOT_FOUND ''Pool not found'' 404
     ''The specified pool does not exist''
     ''Verify the pool address and try again''"
| "ERROR_CODE_REGISTRY CONFLICT = metadata CONFLICT ''Conflict'' 409
     ''The request conflicts with the current state of the resource''
     ''Review the resource state and retry''"
| "ERROR_CODE_REGISTRY DUPLICATE_REQUEST = metadata DUPLICATE_REQUEST ''Duplicate request'' 409
     ''This request has already been processed''
     ''Check if the operation was already completed''"
| "ERROR_CODE_REGISTRY RATE_LIMIT_EXCEEDED = metadata RATE_LIMIT_EXCEEDED ''Rate limit exceeded'' 429
     ''Too many requests. Please try again later''
     ''Wait before making another request''"
| "ERROR_CODE_REGISTRY INTERNAL_ERROR = metadata INTERNAL_ERROR ''Internal server error'' 500
     ''An unexpected error occurred on the server''
     ''Please try again later or contact support''"
| "ERROR_CODE_REGISTRY DATABASE_ERROR = metadata DATABASE_ERROR ''Database error'' 500
     ''A database error occurred''
     ''Please try again later or contact support''"
| "ERROR_CODE_REGISTRY EXTERNAL_SERVICE_ERROR = metadata EXTERNAL_SERVICE_ERROR ''External service error'' 500
     ''An external service failed to respond''
     ''Please try again later or contact support''"
| "ERROR_CODE_REGISTRY BLOCKCHAIN_ERROR = metadata BLOCKCHAIN_ERROR ''Blockchain error'' 500
     ''A blockchain operation failed''
     ''Please try again later or contact support''"
| "ERROR_CODE_REGISTRY SERVICE_UNAVAILABLE = metadata SERVICE_UNAVAILABLE ''Service unavailable'' 503
     ''The service is temporarily unavailable''
     ''Please try again later''"
| "ERROR_CODE_REGISTRY INSUFFICIENT_BALANCE = metadata INSUFFICIENT_BALANCE ''Insufficient balance'' 400
     ''The account has insufficient balance for this operation''
     ''Deposit more funds or reduce the amount''"
| "ERROR_CODE_REGISTRY LOAN_ALREADY_REPAID = metadata LOAN_ALREADY_REPAID ''Loan already repaid'' 400
     ''This loan has already been fully repaid''
     ''No further action is needed for this loan''"
| "ERROR_CODE_REGISTRY LOAN_NOT_ACTIVE = metadata LOAN_NOT_ACTIVE ''Loan is not active'' 400
     ''This loan is not in an active state''
     ''Verify the loan status and try again''"
| "ERROR_CODE_REGISTRY INVALID_LOAN_ID = metadata INVALID_LOAN_ID ''Invalid loan ID'' 400
     ''The provided loan ID is invalid''
     ''Provide a valid numeric loan ID''"
| "ERROR_CODE_REGISTRY INVALID_TX_XDR = metadata INVALID_TX_XDR ''Invalid transaction XDR'' 400
     ''The provided transaction XDR is invalid or malformed''
     ''Provide a valid signed transaction XDR''"
| "ERROR_CODE_REGISTRY TOKEN_REPLAY_DETECTED = metadata TOKEN_REPLAY_DETECTED ''Token replay detected. All sessions in this token family have been revoked.'' 401
     ''A previously used or revoked refresh token was used, indicating possible token theft.''
     ''Re-authenticate with your wallet to establish a new session.''"
| "ERROR_CODE_REGISTRY INVALID_REFRESH_TOKEN = metadata INVALID_REFRESH_TOKEN ''Invalid or expired refresh token'' 401
     ''The provided refresh token is invalid, expired, or malformed.''
     ''Provide a valid refresh token or sign in again.''"
| "ERROR_CODE_REGISTRY CSRF_TOKEN_INVALID = metadata CSRF_TOKEN_INVALID ''Invalid or missing CSRF token'' 403
     ''State-changing requests require a valid X-CSRF-Token header matching the session cookie.''
     ''Include a valid X-CSRF-Token header in your request.''"

definition getErrorCodeMetadata :: "ErrorCode \<Rightarrow> ErrorCodeMetadata" where
  "getErrorCodeMetadata code = ERROR_CODE_REGISTRY code"

definition getDefaultErrorCodeForStatus :: "int \<Rightarrow> ErrorCode" where
  "getDefaultErrorCodeForStatus s =
     (if s = 400 then VALIDATION_ERROR else if s = 401 then UNAUTHORIZED else if s = 403 then FORBIDDEN
      else if s = 404 then NOT_FOUND else if s = 409 then CONFLICT else if s = 429 then RATE_LIMIT_EXCEEDED
      else if s = 503 then SERVICE_UNAVAILABLE else INTERNAL_ERROR)"

subsection \<open>\<open>AppError\<close>\<close>

datatype error_status = Fail | Error

record AppError =
  ae_message :: string
  ae_statusCode :: int
  ae_status :: error_status
  ae_isOperational :: bool
  ae_errorCode :: ErrorCode
  ae_field :: "string option"
  ae_details :: "(string \<times> string) list option"

definition AppError_new ::
  "string \<Rightarrow> int \<Rightarrow> bool \<Rightarrow> ErrorCode option \<Rightarrow> string option \<Rightarrow> (string \<times> string) list option \<Rightarrow> AppError" where
  "AppError_new message statusCode isOperational errorCode field details =
     \<lparr>ae_message = message, ae_statusCode = statusCode,
      ae_status = (if 400 \<le> statusCode \<and> statusCode < 500 then Fail else Error),
      ae_isOperational = isOperational,
      ae_errorCode = (case errorCode of Some c \<Rightarrow> c | None \<Rightarrow> getDefaultErrorCodeForStatus statusCode),
      ae_field = field, ae_details = details\<rparr>"

definition or_code :: "ErrorCode option \<Rightarrow> ErrorCode \<Rightarrow> ErrorCode option" where
  "or_code c d = Some (case c of Some c' \<Rightarrow> c' | None \<Rightarrow> d)"

definition badRequest :: "string \<Rightarrow> ErrorCode option \<Rightarrow> string option \<Rightarrow> AppError" where
  "badRequest message c field = AppError_new message 400 True (or_code c INVALID_AMOUNT) field None"

definition unauthorized :: "string \<Rightarrow> ErrorCode option \<Rightarrow> AppError" where
  "unauthorized message c = AppError_new message 401 True (or_code c UNAUTHORIZED) None None"

definition forbidden :: "string \<Rightarrow> ErrorCode option \<Rightarrow> AppError" where
  "forbidden message c = AppError_new message 403 True (or_code c FORBIDDEN) None None"

definition notFound :: "string \<Rightarrow> ErrorCode option \<Rightarrow> string option \<Rightarrow> AppError" where
  "notFound message c field = AppError_new message 404 True (or_code c NOT_FOUND) field None"

definition conflict :: "string \<Rightarrow> ErrorCode option \<Rightarrow> AppError" where
  "conflict message c = AppError_new message 409 True (or_code c CONFLICT) None None"

definition internal :: "string \<Rightarrow> ErrorCode option \<Rightarrow> AppError" where
  "internal message c = AppError_new message 500 False (or_code c INTERNAL_ERROR) None None"

definition serviceUnavailable :: "string \<Rightarrow> ErrorCode option \<Rightarrow> AppError" where
  "serviceUnavailable message c = AppError_new message 503 True (or_code c SERVICE_UNAVAILABLE) None None"

definition validation :: "string \<Rightarrow> string option \<Rightarrow> (string \<times> string) list option \<Rightarrow> AppError" where
  "validation message field details = AppError_new message 400 True (Some VALIDATION_ERROR) field details"

definition withCode :: "ErrorCode \<Rightarrow> string option \<Rightarrow> string option \<Rightarrow> (string \<times> string) list option \<Rightarrow> AppError" where
  "withCode c message field details =
     (let md = ERROR_CODE_REGISTRY c
      in AppError_new (case message of Some m \<Rightarrow> m | None \<Rightarrow> em_message md) (em_httpStatus md) True (Some c) field details)"

subsection \<open>The error handler\<close>

text \<open>A validation issue: path, message and code. Any other error: its message, name and stack.\<close>

record zod_issue =
  zi_path :: string
  zi_message :: string
  zi_code :: string

datatype thrown =
    ZodError "zod_issue list"
  | App AppError
  | TooLarge
  | Unexpected string string

record error_body =
  eb_status :: int
  eb_message :: string
  eb_code :: ErrorCode
  eb_error_message :: string
  eb_field :: "string option"
  eb_issues :: "zod_issue list"
  eb_details :: "(string \<times> string) list option"
  eb_requestId :: "string option"
  eb_stack :: "string option"

definition clientMessage :: "bool \<Rightarrow> string \<Rightarrow> bool \<Rightarrow> string" where
  "clientMessage isProduction message isOperational =
     (if isOperational then message else if isProduction then ''Internal server error'' else message)"

definition truthy_text :: "string option \<Rightarrow> string option" where
  "truthy_text v = (case v of Some s \<Rightarrow> if s = [] then None else Some s | None \<Rightarrow> None)"

fun errorHandler :: "bool \<Rightarrow> string option \<Rightarrow> string option \<Rightarrow> thrown \<Rightarrow> error_body" where
  "errorHandler isProduction exposeVar requestId (ZodError issues) =
     \<lparr>eb_status = 400, eb_message = ''Validation failed'', eb_code = VALIDATION_ERROR, eb_error_message = ''Validation failed'',
      eb_field = (case issues of [] \<Rightarrow> None | i # _ \<Rightarrow> Some (zi_path i)), eb_issues = issues, eb_details = None,
      eb_requestId = requestId, eb_stack = None\<rparr>"
| "errorHandler isProduction exposeVar requestId (App err) =
     (let message = clientMessage isProduction (ae_message err) (ae_isOperational err)
      in \<lparr>eb_status = ae_statusCode err, eb_message = message, eb_code = ae_errorCode err, eb_error_message = message,
          eb_field = truthy_text (ae_field err), eb_issues = [], eb_details = ae_details err,
          eb_requestId = requestId, eb_stack = None\<rparr>)"
| "errorHandler isProduction exposeVar requestId TooLarge =
     \<lparr>eb_status = 413, eb_message = ''Request payload too large'', eb_code = VALIDATION_ERROR,
      eb_error_message = ''Request payload too large'', eb_field = None, eb_issues = [], eb_details = None,
      eb_requestId = requestId, eb_stack = None\<rparr>"
| "errorHandler isProduction exposeVar requestId (Unexpected message stack) =
     (let shouldExposeDetails = \<not> isProduction \<and> exposeVar = Some ''true''
      in \<lparr>eb_status = 500, eb_message = ''Internal server error'', eb_code = INTERNAL_ERROR,
          eb_error_message = (if shouldExposeDetails then message else ''Internal server error''),
          eb_field = None, eb_issues = [], eb_details = None, eb_requestId = requestId,
          eb_stack = (if shouldExposeDetails then Some stack else None)\<rparr>)"

subsection \<open>Properties\<close>

text \<open>What is internal to the server: unexpected errors, and \<open>AppError\<close>s that are not operational.\<close>

fun internal_alike :: "thrown \<Rightarrow> thrown \<Rightarrow> bool" where
  "internal_alike (Unexpected _ _) (Unexpected _ _) \<longleftrightarrow> True"
| "internal_alike (App a) (App b) \<longleftrightarrow> \<not> ae_isOperational a \<and> b = a\<lparr>ae_message := ae_message b\<rparr>"
| "internal_alike _ _ \<longleftrightarrow> False"

text \<open>
  In production two internal errors that differ only in their message (and stack) get the same answer,
  so that no answer lets a client tell the text of an internal error.
\<close>

theorem production_hides_internal_messages:
  assumes "internal_alike a b"
  shows "errorHandler True expose rid a = errorHandler True expose rid b"
  using assms
proof (induction a b rule: internal_alike.induct)
  case (2 a b)
  then obtain m where b: "\<not> ae_isOperational a" "b = a\<lparr>ae_message := m\<rparr>" by auto
  then show ?case by (simp add: clientMessage_def Let_def)
qed (simp_all add: Let_def)

theorem production_hides_internal_messages_witness:
  "errorHandler True (Some ''true'') None (App (internal ''duplicate key in users'' None))
   = errorHandler True (Some ''true'') None (App (internal ''connection refused'' None))
   \<and> errorHandler True (Some ''true'') None (Unexpected ''a'' ''s'') = errorHandler True (Some ''true'') None (Unexpected ''b'' ''t'')"
  using production_hides_internal_messages [of "App (internal ''duplicate key in users'' None)" "App (internal ''connection refused'' None)"]
    production_hides_internal_messages [of "Unexpected ''a'' ''s''" "Unexpected ''b'' ''t''"]
  by (simp add: internal_def AppError_new_def)

definition code_matches :: "AppError \<Rightarrow> bool" where
  "code_matches err \<longleftrightarrow> em_httpStatus (ERROR_CODE_REGISTRY (ae_errorCode err)) = ae_statusCode err"

lemma default_code_matches:
  "s \<in> {400, 401, 403, 404, 409, 429, 500, 503} \<Longrightarrow> em_httpStatus (ERROR_CODE_REGISTRY (getDefaultErrorCodeForStatus s)) = s"
  by (auto simp: getDefaultErrorCodeForStatus_def metadata_def)

lemma registry_self: "em_code (ERROR_CODE_REGISTRY c) = c"
  by (cases c) (simp_all add: metadata_def)

text \<open>
  Every factory of \<open>AppError\<close>, called without a code or with one through \<open>withCode\<close>, yields an error
  whose status is the one the registry documents for its code, and the answer of the handler has that
  status and code, a client error exactly for the statuses from 400 to 499.
\<close>

theorem factories_answer_documented_status:
  "list_all (\<lambda>err. code_matches err \<and> eb_status (errorHandler production expose rid (App err)) = ae_statusCode err
       \<and> eb_code (errorHandler production expose rid (App err)) = ae_errorCode err
       \<and> (ae_status err = Fail \<longleftrightarrow> 400 \<le> ae_statusCode err \<and> ae_statusCode err < 500))
     [badRequest m None f, unauthorized m None, forbidden m None, notFound m None f, AppErrors.conflict m None, internal m None,
      serviceUnavailable m None, validation m f d, withCode c mo f d]"
proof -
  have "code_matches (withCode c mo f d)" by (simp add: code_matches_def withCode_def AppError_new_def Let_def)
  then show ?thesis
    by (simp add: badRequest_def unauthorized_def forbidden_def notFound_def AppErrors.conflict_def internal_def serviceUnavailable_def
        validation_def code_matches_def withCode_def AppError_new_def or_code_def metadata_def Let_def)
qed

end
