(* ===== verification/JsDateParse.thy ===== *)
theory JsDateParse
  imports JsDate
begin

section \<open>Reading dates\<close>

text \<open>
  \<open>Date.parse\<close> on the format that \<open>toISOString\<close> writes; every other text is left to the parameter
  \<open>other\<close>, since the language leaves it to the implementation. Shown: a printed date of the years
  0 to 9999 reads back as itself.
\<close>

definition num_field :: "nat \<Rightarrow> string \<Rightarrow> (nat \<times> string) option" where
  "num_field k s =
     (if k \<le> length s \<and> list_all is_digit (take k s) then Some (string_to_nat (take k s), drop k s) else None)"

definition separator :: "char \<Rightarrow> string \<Rightarrow> string option" where
  "separator c s = (case s of [] \<Rightarrow> None | x # xs \<Rightarrow> if x = c then Some xs else None)"

definition field_then :: "nat \<Rightarrow> char \<Rightarrow> string \<Rightarrow> (nat \<times> string) option" where
  "field_then k c s =
     Option.bind (num_field k s) (\<lambda>(n, r). map_option (Pair n) (separator c r))"

definition month_length :: "bool \<Rightarrow> nat \<Rightarrow> int" where
  "month_length leap m = (if m = 11 then 31 else month_start leap (m + 1) - month_start leap m)"

definition make_time :: "nat \<Rightarrow> nat \<Rightarrow> nat \<Rightarrow> nat \<Rightarrow> nat \<Rightarrow> nat \<Rightarrow> nat \<Rightarrow> int option" where
  "make_time y m d h mi s ms =
     (if 1 \<le> m \<and> m \<le> 12 \<and> 1 \<le> d \<and> int d \<le> month_length (leap_year (int y)) (m - 1) \<and> h < 24 \<and> mi < 60 \<and> s < 60
      then Some ((DayFromYear (int y) + month_start (leap_year (int y)) (m - 1) + int d - 1) * 86400000
             + int h * 3600000 + int mi * 60000 + int s * 1000 + int ms)
      else None)"

definition parse_iso :: "string \<Rightarrow> int option" where
  "parse_iso t =
     Option.bind (field_then 4 (CHR ''-'') t) (\<lambda>(y, t).
     Option.bind (field_then 2 (CHR ''-'') t) (\<lambda>(m, t).
     Option.bind (field_then 2 (CHR ''T'') t) (\<lambda>(d, t).
     Option.bind (field_then 2 (CHR '':'') t) (\<lambda>(h, t).
     Option.bind (field_then 2 (CHR '':'') t) (\<lambda>(mi, t).
     Option.bind (field_then 2 (CHR ''.'') t) (\<lambda>(s, t).
     Option.bind (field_then 3 (CHR ''Z'') t) (\<lambda>(ms, t).
       if t = [] then make_time y m d h mi s ms else None)))))))"

definition Date_parse :: "(string \<Rightarrow> int option) \<Rightarrow> string \<Rightarrow> int option" where
  "Date_parse other s = (case parse_iso s of Some t \<Rightarrow> Some t | None \<Rightarrow> other s)"

subsection \<open>A printed date reads back\<close>

lemma num_field_pad:
  assumes "n < 10 ^ k" "0 < k"
  shows "num_field k (pad_num k n @ rest) = Some (n, rest)"
proof -
  have l: "length (pad_num k n) = k"
    unfolding pad_num_def by (intro length_padStart nat_to_string_length assms)
  moreover have "list_all is_digit (pad_num k n)"
    unfolding pad_num_def by (intro digits_padStart nat_to_string_digits)
  moreover have "string_to_nat (pad_num k n) = n" by (simp add: pad_num_def)
  ultimately show ?thesis by (simp add: num_field_def)
qed

lemma field_then_pad:
  "n < 10 ^ k \<Longrightarrow> 0 < k \<Longrightarrow> field_then k c (pad_num k n @ c # rest) = Some (n, rest)"
  by (simp add: field_then_def num_field_pad separator_def)

lemma month_number:
  "m < 12 \<longleftrightarrow> m \<in> {0, 1, 2, 3, 4, 5, 6, 7, 8, 9, 10, 11 :: nat}"
  by (simp, presburger)

lemma month_start_step: "m < 11 \<Longrightarrow> month_start leap m < month_start leap (Suc m)"
  using month_number [of m] by (auto simp: month_start_def)

lemma month_start_mono: "j < 12 \<Longrightarrow> i \<le> j \<Longrightarrow> month_start leap i \<le> month_start leap j"
proof (induction j)
  case (Suc j)
  then show ?case using month_start_step [of j leap] by (cases "i = Suc j") auto
qed simp

lemma count_up_to: "k < 12 \<Longrightarrow> length (filter (\<lambda>m. m \<le> k) [1..<12]) = (k :: nat)"
  unfolding month_number by (auto simp: upt_rec)

lemma month_of_at:
  assumes "k < 12" "month_start leap k \<le> doy" "k = 11 \<or> doy < month_start leap (Suc k)"
  shows "month_of leap doy = k"
proof -
  have "month_start leap m \<le> doy \<longleftrightarrow> m \<le> k" if "m \<in> set [1..<12]" for m
  proof (cases "m \<le> k")
    case True
    then show ?thesis using month_start_mono [OF assms(1) True, of leap] assms(2) by linarith
  next
    case False
    then have "k \<noteq> 11" "month_start leap (Suc k) \<le> month_start leap m"
      using that month_start_mono [of m "Suc k" leap] by auto
    then show ?thesis using False assms(3) by linarith
  qed
  then have "filter (\<lambda>m. month_start leap m \<le> doy) [1..<12] = filter (\<lambda>m. m \<le> k) [1..<12]"
    by (intro filter_cong) auto
  then show ?thesis unfolding month_of_def using count_up_to [OF assms(1)] by simp
qed

lemma month_of_cases:
  assumes "0 \<le> doy" "doy < (if leap then 366 else 365)"
  shows "month_of leap doy < 12" "month_start leap (month_of leap doy) \<le> doy"
    "doy < month_start leap (month_of leap doy) + month_length leap (month_of leap doy)"
proof -
  let ?K = "{k. k < 12 \<and> month_start leap k \<le> doy}"
  define k where "k = Max ?K"
  have "finite ?K" by simp
  moreover have "0 \<in> ?K" using assms(1) by (simp add: month_start_def)
  ultimately have k: "k \<in> ?K" and top: "\<And>j. j \<in> ?K \<Longrightarrow> j \<le> k"
    unfolding k_def using Max_in [of ?K] Max_ge [of ?K] by blast+
  have last: "k = 11 \<or> doy < month_start leap (Suc k)" using top [of "Suc k"] k by fastforce
  have eq: "month_of leap doy = k" using month_of_at [of k leap doy] k last by simp
  show "month_of leap doy < 12" "month_start leap (month_of leap doy) \<le> doy" using k eq by simp_all
  show "doy < month_start leap (month_of leap doy) + month_length leap (month_of leap doy)"
    using assms(2) last unfolding eq by (cases "k = 11") (auto simp: month_length_def month_start_def)
qed

lemma month_length_bound: "m < 12 \<Longrightarrow> month_length leap m \<le> 31"
  using month_number [of m] by (auto simp: month_length_def month_start_def)

lemma split_ms:
  fixes ms :: int
  assumes "0 \<le> ms" "ms < 86400000"
  shows "ms div 3600000 * 3600000 + ms div 60000 mod 60 * 60000 + ms div 1000 mod 60 * 1000 + ms mod 1000 = ms"
    and "ms div 3600000 < 24"
proof -
  have "ms div 60000 div 60 = ms div 3600000" "ms div 1000 div 60 = ms div 60000"
    by (simp_all add: zdiv_zmult2_eq [symmetric])
  moreover have "ms div 60000 = ms div 60000 div 60 * 60 + ms div 60000 mod 60"
    "ms div 1000 = ms div 1000 div 60 * 60 + ms div 1000 mod 60" "ms = ms div 1000 * 1000 + ms mod 1000"
    by (simp_all only: div_mult_mod_eq)
  ultimately show "ms div 3600000 * 3600000 + ms div 60000 mod 60 * 60000 + ms div 1000 mod 60 * 1000 + ms mod 1000 = ms"
    by linarith
  show "ms div 3600000 < 24" using assms by linarith
qed

definition four_digit_year :: "int \<Rightarrow> bool" where
  "four_digit_year t \<longleftrightarrow> 0 \<le> year_of_day (t div 86400000) \<and> year_of_day (t div 86400000) \<le> 9999"

lemma parse_iso_toISOString:
  assumes "four_digit_year t"
  shows "parse_iso (toISOString t) = Some t"
proof -
  define day ms y doy where "day = t div 86400000" and "ms = t mod 86400000"
    and "y = year_of_day day" and "doy = day - DayFromYear y"
  define m where "m = month_of (leap_year y) doy"
  define d where "d = doy - month_start (leap_year y) m + 1"
  have y: "0 \<le> y" "y \<le> 9999" using assms by (simp_all add: four_digit_year_def y_def day_def)
  have doy: "0 \<le> doy" "doy < (if leap_year y then 366 else 365)"
    using year_of_day_bracket [of day] DayFromYear_step [of y] by (auto simp: doy_def y_def)
  note mo = month_of_cases [OF doy, folded m_def]
  have d: "1 \<le> d" "d \<le> month_length (leap_year y) m" using mo by (simp_all add: d_def)
  then have d31: "d \<le> 31" using month_length_bound [OF mo(1), of "leap_year y"] by linarith
  have ms: "0 \<le> ms" "ms < 86400000" by (simp_all add: ms_def)
  note sp = split_ms [OF ms]
  have printed: "toISOString t = pad_num 4 (nat y) @ CHR ''-'' # pad_num 2 (m + 1) @ CHR ''-'' # pad_num 2 (nat d) @ CHR ''T''
      # pad_num 2 (nat (ms div 3600000)) @ CHR '':'' # pad_num 2 (nat (ms div 60000 mod 60)) @ CHR '':''
      # pad_num 2 (nat (ms div 1000 mod 60)) @ CHR ''.'' # pad_num 3 (nat (ms mod 1000)) @ CHR ''Z'' # []"
    using y by (simp add: toISOString_def Let_def year_string_def flip: day_def ms_def y_def doy_def m_def d_def)
  have b: "nat y < 10 ^ 4" "m + 1 < 10 ^ 2" "nat d < 10 ^ 2" "nat (ms div 3600000) < 10 ^ 2"
    "nat (ms div 60000 mod 60) < 10 ^ 2" "nat (ms div 1000 mod 60) < 10 ^ 2" "nat (ms mod 1000) < 10 ^ 3"
    using y mo(1) d31 sp(2) pos_mod_bound [of 60 "ms div 60000"] pos_mod_bound [of 60 "ms div 1000"] pos_mod_bound [of 1000 ms]
    by (simp_all add: nat_less_iff)
  have time: "make_time (nat y) (m + 1) (nat d) (nat (ms div 3600000)) (nat (ms div 60000 mod 60)) (nat (ms div 1000 mod 60))
      (nat (ms mod 1000)) = Some t"
  proof -
    have t: "day * 86400000 + ms = t" by (simp add: day_def ms_def)
    have days: "DayFromYear y + month_start (leap_year y) m + d - 1 = day" by (simp add: d_def doy_def)
    have sum: "(DayFromYear y + month_start (leap_year y) m + d - 1) * 86400000 + ms div 3600000 * 3600000
        + ms div 60000 mod 60 * 60000 + ms div 1000 mod 60 * 1000 + ms mod 1000 = t"
      unfolding days t [symmetric] using sp(1) by (simp only: add.assoc)
    have ints: "int (nat y) = y" "int (nat d) = d" "int (nat (ms div 3600000)) = ms div 3600000"
      "int (nat (ms div 60000 mod 60)) = ms div 60000 mod 60" "int (nat (ms div 1000 mod 60)) = ms div 1000 mod 60"
      "int (nat (ms mod 1000)) = ms mod 1000"
      using y d ms by (simp_all add: pos_imp_zdiv_nonneg_iff)
    have ranges: "1 \<le> m + 1 \<and> m + 1 \<le> 12 \<and> 1 \<le> nat d \<and> nat (ms div 3600000) < 24 \<and> nat (ms div 60000 mod 60) < 60
        \<and> nat (ms div 1000 mod 60) < 60"
      using mo(1) d(1) sp(2) by (intro conjI; simp add: nat_less_iff)
    show ?thesis unfolding make_time_def ints add_diff_cancel_right' sum using ranges d(2) by (intro if_P) blast
  qed
  have f: "0 < (2 :: nat)" "0 < (3 :: nat)" "0 < (4 :: nat)" by simp_all
  show ?thesis
    unfolding printed parse_iso_def
    by (simp only: field_then_pad [OF b(1) f(3)] field_then_pad [OF b(2) f(1)] field_then_pad [OF b(3) f(1)]
        field_then_pad [OF b(4) f(1)] field_then_pad [OF b(5) f(1)] field_then_pad [OF b(6) f(1)] field_then_pad [OF b(7) f(2)]
        bind.bind_lunit prod.case simp_thms if_True time)
qed

lemma Date_parse_toISOString: "four_digit_year t \<Longrightarrow> Date_parse other (toISOString t) = Some t"
  by (simp add: Date_parse_def parse_iso_toISOString)

end
