(* ===== verification/Doubles.thy ===== *)
theory Doubles
  imports Prelude "HOL-Library.Log_Nat"
begin

section \<open>Numbers as doubles\<close>

text \<open>
  A JavaScript number is a double: the rational nearest to the exact result with 53 significant bits,
  ties to the even significand. Only the range of normal numbers matters here, so the exponent is not
  bounded. \<open>dbl\<close> is that rounding, \<open>toFixed\<close> the count of units that \<open>Number.prototype.toFixed\<close> prints.
  Shown: the relative error of \<open>dbl\<close>, that it is monotone and keeps what is already a double, and that
  printing with \<open>d\<close> digits a count of units below \<open>2 ^ 52\<close> returns that count.
\<close>

subsection \<open>Rounding\<close>

definition half_even :: "rat \<Rightarrow> int" where
  "half_even y =
     (let n = \<lfloor>y\<rfloor>; f = y - of_int n
      in if f < 1 / 2 then n else if 1 / 2 < f then n + 1 else if even n then n else n + 1)"

text \<open>The binary exponent of a positive rational.\<close>

definition bexp :: "rat \<Rightarrow> int" where
  "bexp x =
     (let (p, q) = quotient_of x; k = int (floorlog 2 (nat p)) - int (floorlog 2 (nat q))
      in if 2 powi k \<le> x then k else k - 1)"

definition ulp :: "rat \<Rightarrow> rat" where
  "ulp x = 2 powi (bexp x - 52)"

definition dbl_pos :: "rat \<Rightarrow> rat" where
  "dbl_pos x = of_int (half_even (x / ulp x)) * ulp x"

definition dbl :: "rat \<Rightarrow> rat" where
  "dbl x = (if x = 0 then 0 else if x < 0 then - dbl_pos (- x) else dbl_pos x)"

text \<open>\<open>toFixed\<close> of a non-negative number: the nearest count of units, the larger one on a tie.\<close>

definition toFixed :: "nat \<Rightarrow> rat \<Rightarrow> int" where
  "toFixed d x = \<lfloor>x * 10 ^ d + 1 / 2\<rfloor>"

subsection \<open>Half-even rounding\<close>

lemma half_even_bounds: "\<lfloor>y\<rfloor> \<le> half_even y \<and> half_even y \<le> \<lfloor>y\<rfloor> + 1"
  by (simp add: half_even_def Let_def)

lemma half_even_error: "\<bar>of_int (half_even y) - y\<bar> \<le> 1 / 2"
proof -
  have "of_int \<lfloor>y\<rfloor> \<le> y" "y < of_int \<lfloor>y\<rfloor> + 1" by linarith+
  then show ?thesis by (auto simp: half_even_def Let_def abs_le_iff)
qed

lemma half_even_of_int [simp]: "half_even (of_int n) = n"
  by (simp add: half_even_def)

lemma half_even_mono:
  assumes "x \<le> y"
  shows "half_even x \<le> half_even y"
proof (cases "\<lfloor>x\<rfloor> = \<lfloor>y\<rfloor>")
  case True
  with assms show ?thesis by (auto simp: half_even_def Let_def)
next
  case False
  with floor_mono [OF assms] have "\<lfloor>x\<rfloor> + 1 \<le> \<lfloor>y\<rfloor>" by linarith
  then show ?thesis using half_even_bounds [of x] half_even_bounds [of y] by linarith
qed

subsection \<open>Binary exponents\<close>

lemma powi_step: "(2 :: rat) powi (k + 1) = 2 * 2 powi k"
  by (simp add: power_int_add)

lemma quotient_bounds:
  assumes "0 < x" "quotient_of x = (p, q)"
  shows "2 powi (int (floorlog 2 (nat p)) - int (floorlog 2 (nat q)) - 1) < x"
    and "x < 2 powi (int (floorlog 2 (nat p)) - int (floorlog 2 (nat q)) + 1)"
proof -
  let ?a = "floorlog 2 (nat p)" and ?b = "floorlog 2 (nat q)"
  have q: "0 < q" and x: "x = of_int p / of_int q"
    using assms(2) by (simp_all add: quotient_of_denom_pos quotient_of_div)
  have p: "0 < p" using assms(1) q x by (simp add: zero_less_divide_iff)
  have pb: "2 ^ (?a - 1) \<le> nat p \<and> nat p < 2 ^ ?a" and qb: "2 ^ (?b - 1) \<le> nat q \<and> nat q < 2 ^ ?b"
    using floorlog_bounds [of "nat p" 2] floorlog_bounds [of "nat q" 2] p q by auto
  have a: "0 < ?a" and b: "0 < ?b" using p q by (simp_all add: floorlog_def)
  have "(2 :: int) ^ (?a - 1) \<le> p" "p < 2 ^ ?a" "(2 :: int) ^ (?b - 1) \<le> q" "q < 2 ^ ?b"
    using pb qb p q by (simp_all add: nat_less_iff le_nat_iff)
  then have r: "(2 :: rat) ^ (?a - 1) \<le> of_int p" "(of_int p :: rat) < 2 ^ ?a" "(2 :: rat) ^ (?b - 1) \<le> of_int q" "(of_int q :: rat) < 2 ^ ?b"
    by (simp_all flip: of_int_le_iff of_int_less_iff)
  have lo: "(2 :: rat) powi (int ?a - int ?b - 1) * 2 ^ ?b = 2 ^ (?a - 1)"
    using a by (simp add: power_int_diff of_nat_diff flip: power_int_of_nat)
  have hi: "(2 :: rat) powi (int ?a - int ?b + 1) * 2 ^ (?b - 1) = 2 ^ ?a"
    using b by (simp add: power_int_diff power_int_add of_nat_diff flip: power_int_of_nat)
  have "(2 :: rat) powi (int ?a - int ?b - 1) * of_int q < 2 powi (int ?a - int ?b - 1) * 2 ^ ?b"
    using r(4) by (intro mult_strict_left_mono) auto
  then show "2 powi (int ?a - int ?b - 1) < x"
    using less_le_trans [OF _ r(1)] q unfolding lo x by (simp add: pos_less_divide_eq)
  have "(2 :: rat) powi (int ?a - int ?b + 1) * 2 ^ (?b - 1) \<le> 2 powi (int ?a - int ?b + 1) * of_int q"
    using r(3) by (intro mult_left_mono) auto
  then show "x < 2 powi (int ?a - int ?b + 1)"
    using less_le_trans [OF r(2)] q unfolding hi x by (simp add: pos_divide_less_eq)
qed

lemma bexp_bounds:
  assumes "0 < x"
  shows "2 powi (bexp x) \<le> x" "x < 2 powi (bexp x + 1)"
proof -
  obtain p q where pq: "quotient_of x = (p, q)" by (meson surj_pair)
  define k where "k = int (floorlog 2 (nat p)) - int (floorlog 2 (nat q))"
  have b: "bexp x = (if 2 powi k \<le> x then k else k - 1)" by (simp add: bexp_def pq k_def Let_def)
  note kb = quotient_bounds [OF assms pq, folded k_def]
  show "2 powi (bexp x) \<le> x" using kb b by auto
  show "x < 2 powi (bexp x + 1)" using kb b by auto
qed

lemma powi_less_cancel: "(2 :: rat) powi i < 2 powi j \<Longrightarrow> i < j"
proof (rule ccontr)
  assume h: "(2 :: rat) powi i < 2 powi j" and "\<not> i < j"
  then have "(2 :: rat) powi j \<le> 2 powi i" by (intro power_int_increasing) auto
  with h show False by simp
qed

lemma bexp_unique:
  assumes "2 powi k \<le> x" "x < 2 powi (k + 1)"
  shows "bexp x = k"
proof -
  have "0 < x" using assms(1) zero_less_power_int [of "2 :: rat" k] by linarith
  note b = bexp_bounds [OF this]
  have "(2 :: rat) powi (bexp x) < 2 powi (k + 1)" "(2 :: rat) powi k < 2 powi (bexp x + 1)"
    using assms b by linarith+
  then show ?thesis using powi_less_cancel [of "bexp x" "k + 1"] powi_less_cancel [of k "bexp x + 1"] by linarith
qed

lemma bexp_mono:
  assumes "0 < x" "x \<le> y"
  shows "bexp x \<le> bexp y"
proof -
  have "(2 :: rat) powi (bexp x) < 2 powi (bexp y + 1)"
    using bexp_bounds [of x] bexp_bounds [of y] assms by linarith
  then show ?thesis using powi_less_cancel by fastforce
qed

lemma ulp_pos [simp]: "0 < ulp x"
  by (simp add: ulp_def)

lemma ulp_scale: "2 ^ 52 * ulp x = 2 powi (bexp x)"
  by (simp add: ulp_def power_int_diff)

lemma significand:
  assumes "0 < x"
  shows "2 ^ 52 \<le> x / ulp x" "x / ulp x < 2 ^ 53"
proof -
  have "2 ^ 52 * ulp x \<le> x" using bexp_bounds(1) [OF assms] by (simp only: ulp_scale)
  then show "2 ^ 52 \<le> x / ulp x" by (simp only: pos_le_divide_eq [OF ulp_pos])
  have "x < 2 * (2 ^ 52 * ulp x)" using bexp_bounds(2) [OF assms] by (simp only: ulp_scale powi_step)
  then have "x < 2 ^ 53 * ulp x" by simp
  then show "x / ulp x < 2 ^ 53" by (simp only: pos_divide_less_eq [OF ulp_pos])
qed

subsection \<open>The rounding to a double\<close>

lemma dbl_pos_error:
  assumes "0 < x"
  shows "\<bar>dbl_pos x - x\<bar> \<le> x / 2 ^ 53"
proof -
  have "dbl_pos x - x = (of_int (half_even (x / ulp x)) - x / ulp x) * ulp x"
    using less_imp_neq [OF ulp_pos [of x]] by (simp add: dbl_pos_def left_diff_distrib)
  then have "\<bar>dbl_pos x - x\<bar> = \<bar>of_int (half_even (x / ulp x)) - x / ulp x\<bar> * ulp x"
    by (simp add: abs_mult abs_of_pos)
  also have "\<dots> \<le> 1 / 2 * ulp x" by (intro mult_right_mono half_even_error) (simp add: less_imp_le)
  also have "\<dots> \<le> x / 2 ^ 53"
    using bexp_bounds(1) [OF assms] ulp_scale [of x] by simp
  finally show ?thesis .
qed

lemma dbl_pos_binade:
  assumes "0 < x"
  shows "2 powi (bexp x) \<le> dbl_pos x" "dbl_pos x \<le> 2 powi (bexp x + 1)"
proof -
  let ?m = "half_even (x / ulp x)"
  have "half_even (of_int (2 ^ 52)) \<le> ?m" "?m \<le> half_even (of_int (2 ^ 53))"
    using significand [OF assms] by (intro half_even_mono; simp)+
  then have m: "2 ^ 52 \<le> ?m" "?m \<le> 2 ^ 53" by (simp_all only: half_even_of_int)
  then have "(of_int (2 ^ 52) :: rat) \<le> of_int ?m" "(of_int ?m :: rat) \<le> of_int (2 ^ 53)" by (simp_all only: of_int_le_iff)
  then have "2 ^ 52 * ulp x \<le> of_int ?m * ulp x" "of_int ?m * ulp x \<le> 2 * (2 ^ 52 * ulp x)"
    using ulp_pos [of x] by (simp_all add: mult_right_mono)
  then show "2 powi (bexp x) \<le> dbl_pos x" "dbl_pos x \<le> 2 powi (bexp x + 1)"
    unfolding dbl_pos_def powi_step ulp_scale .
qed

lemma dbl_pos_mono:
  assumes "0 < x" "x \<le> y"
  shows "dbl_pos x \<le> dbl_pos y"
proof (cases "bexp x = bexp y")
  case True
  then have u: "ulp x = ulp y" by (simp add: ulp_def)
  have "half_even (x / ulp y) \<le> half_even (y / ulp y)"
    using assms(2) by (intro half_even_mono divide_right_mono) (auto simp: less_imp_le)
  then show ?thesis unfolding dbl_pos_def u by (intro mult_right_mono) (auto simp: less_imp_le)
next
  case False
  with bexp_mono [OF assms] have "bexp x + 1 \<le> bexp y" by linarith
  then have "(2 :: rat) powi (bexp x + 1) \<le> 2 powi (bexp y)" by (intro power_int_increasing) auto
  then show ?thesis using dbl_pos_binade [of x] dbl_pos_binade [of y] assms by linarith
qed

lemma dbl_zero [simp]: "dbl 0 = 0"
  by (simp add: dbl_def)

lemma dbl_pos_nonneg: "0 < x \<Longrightarrow> 0 < dbl_pos x"
  using dbl_pos_binade(1) [of x] zero_less_power_int [of "2 :: rat" "bexp x"] by linarith

lemma dbl_minus: "dbl (- x) = - dbl x"
  by (simp add: dbl_def)

lemma dbl_mono: "x \<le> y \<Longrightarrow> dbl x \<le> dbl y"
  using dbl_pos_mono [of x y] dbl_pos_mono [of "- y" "- x"] dbl_pos_nonneg [of y] dbl_pos_nonneg [of "- x"]
  by (auto simp: dbl_def)

lemma dbl_error: "\<bar>dbl x - x\<bar> \<le> \<bar>x\<bar> / 2 ^ 53"
proof (cases "x < 0")
  case True
  then have "\<bar>dbl x - x\<bar> = \<bar>dbl_pos (- x) - (- x)\<bar>" by (simp add: dbl_def abs_if)
  with dbl_pos_error [of "- x"] True show ?thesis by simp
next
  case False
  then show ?thesis using dbl_pos_error [of x] by (auto simp: dbl_def)
qed

text \<open>What has at most 53 significant bits is kept.\<close>

lemma dbl_pos_whole: "x / ulp x = of_int j \<Longrightarrow> dbl_pos x = x"
proof -
  assume j: "x / ulp x = of_int j"
  have "dbl_pos x = (x / ulp x) * ulp x" unfolding dbl_pos_def j by simp
  then show ?thesis using less_imp_neq [OF ulp_pos [of x]] by simp
qed

lemma dbl_pos_exact:
  assumes "0 < m" "m \<le> 2 ^ 53"
  shows "dbl_pos (of_int m * 2 powi k) = of_int m * 2 powi k"
proof -
  let ?x = "of_int m * (2 :: rat) powi k"
  have x: "0 < ?x" using assms(1) by simp
  have "of_int m \<le> (2 :: rat) ^ 53" using assms(2) by (metis of_int_le_iff of_int_numeral of_int_power)
  show ?thesis
  proof (cases "m = 2 ^ 53")
    case True
    then have e: "?x = 2 powi (k + 53)" by (simp add: power_int_add)
    have "bexp (2 powi (k + 53)) = k + 53" by (intro bexp_unique order_refl power_int_strict_increasing) simp_all
    with e have "bexp ?x = k + 53" by simp
    then have "?x / ulp ?x = of_int (2 ^ 52)" unfolding ulp_def e by (simp add: power_int_diff power_int_add)
    then show ?thesis by (rule dbl_pos_whole)
  next
    case False
    with assms(2) have "of_int m < (2 :: rat) ^ 53" by (metis le_neq_trans of_int_less_iff of_int_numeral of_int_power)
    then have "?x < 2 powi (k + 53)" by (simp add: power_int_add)
    then have "bexp ?x < k + 53" using bexp_bounds(1) [OF x] powi_less_cancel [of "bexp ?x" "k + 53"] by linarith
    define d where "d = nat (k - (bexp ?x - 52))"
    with \<open>bexp ?x < k + 53\<close> have d: "bexp ?x - 52 + int d = k" by simp
    have "(2 :: rat) powi k = 2 ^ d * ulp ?x"
      using arg_cong [OF d, of "\<lambda>i. (2 :: rat) powi i"] by (simp add: ulp_def power_int_add mult.commute)
    then have "?x = of_int (m * 2 ^ d) * ulp ?x" by simp
    then have "?x / ulp ?x = of_int (m * 2 ^ d)" using ulp_pos [of ?x] by (metis less_irrefl nonzero_eq_divide_eq)
    then show ?thesis by (rule dbl_pos_whole)
  qed
qed

lemma dbl_pos_idem:
  assumes "0 < x"
  shows "dbl_pos (dbl_pos x) = dbl_pos x"
proof -
  let ?m = "half_even (x / ulp x)"
  have "half_even (of_int (2 ^ 52)) \<le> ?m" "?m \<le> half_even (of_int (2 ^ 53))"
    using significand [OF assms] by (intro half_even_mono; simp)+
  then have "2 ^ 52 \<le> ?m" "?m \<le> 2 ^ 53" by (simp_all only: half_even_of_int)
  then have "0 < ?m" "?m \<le> 2 ^ 53" by simp_all
  from dbl_pos_exact [OF this, of "bexp x - 52"] show ?thesis by (simp only: dbl_pos_def [of x] ulp_def [symmetric])
qed

lemma dbl_idem [simp]: "dbl (dbl x) = dbl x"
  using dbl_pos_idem [of x] dbl_pos_idem [of "- x"] dbl_pos_nonneg [of x] dbl_pos_nonneg [of "- x"] by (auto simp: dbl_def)

lemma dbl_nonneg: "0 \<le> x \<Longrightarrow> 0 \<le> dbl x"
  using dbl_mono [of 0 x] by simp

lemma dbl_of_int: "\<bar>m\<bar> \<le> 2 ^ 53 \<Longrightarrow> dbl (of_int m) = of_int m"
  using dbl_pos_exact [of m 0] dbl_pos_exact [of "- m" 0] by (auto simp: dbl_def)

lemma dbl_numeral [simp]: "num.One \<noteq> n \<Longrightarrow> (numeral n :: int) \<le> 2 ^ 53 \<Longrightarrow> dbl (numeral n) = numeral n"
  using dbl_of_int [of "numeral n"] by simp

subsection \<open>Printing with a fixed number of digits\<close>

lemma toFixed_near:
  assumes "\<bar>x * 10 ^ d - of_int n\<bar> < 1 / 2"
  shows "toFixed d x = n"
proof -
  have "- (1 / 2) < x * 10 ^ d - of_int n" "x * 10 ^ d - of_int n < 1 / 2"
    using assms unfolding abs_less_iff by linarith+
  then show ?thesis unfolding toFixed_def by (intro floor_unique) linarith+
qed

lemma toFixed_dbl:
  assumes "0 \<le> n" "n < 2 ^ 52"
  shows "toFixed d (dbl (of_int n / 10 ^ d)) = n"
proof (rule toFixed_near)
  let ?x = "of_int n / (10 :: rat) ^ d"
  have "\<bar>dbl ?x * 10 ^ d - of_int n\<bar> = \<bar>dbl ?x - ?x\<bar> * 10 ^ d"
    by (simp add: abs_mult_pos left_diff_distrib)
  also have "\<dots> \<le> \<bar>?x\<bar> / 2 ^ 53 * 10 ^ d" by (intro mult_right_mono dbl_error) simp
  also have "\<dots> = of_int n / 2 ^ 53" using assms(1) by simp
  also have "\<dots> < 1 / 2"
  proof -
    have "(of_int n :: rat) < of_int (2 ^ 52)" using assms(2) by (simp only: of_int_less_iff)
    then show ?thesis by simp
  qed
  finally show "\<bar>dbl ?x * 10 ^ d - of_int n\<bar> < 1 / 2" .
qed

end
