(* ===== verification/SqlText.thy ===== *)
theory SqlText
  imports Prelude
begin

section \<open>Query texts and their parameters\<close>

text \<open>
  A query sent to PostgreSQL is a text with placeholders \<open>$1\<close>, \<open>$2\<close>, \<dots> and a list of values. The server
  refuses it (08P01) unless the number of values is the highest placeholder. \<open>replace_first\<close> is
  \<open>String.prototype.replace\<close> with a text pattern. Shown: the placeholders of composed texts, and that a
  pattern with a placeholder above those of the text does not occur in it.
\<close>

fun placeholders :: "string \<Rightarrow> nat list" where
  "placeholders [] = []"
| "placeholders (c # s) =
     (if c = CHR ''$'' \<and> takeWhile is_digit s \<noteq> [] then string_to_nat (takeWhile is_digit s) # placeholders s
      else placeholders s)"

definition highest :: "string \<Rightarrow> nat" where
  "highest s = foldr max (placeholders s) 0"

definition bind_ok :: "string \<Rightarrow> 'a list \<Rightarrow> bool" where
  "bind_ok s params \<longleftrightarrow> highest s = length params"

fun replace_first :: "string \<Rightarrow> string \<Rightarrow> string \<Rightarrow> string" where
  "replace_first pat rep [] = (if pat = [] then rep else [])"
| "replace_first pat rep (c # s) =
     (if take (length pat) (c # s) = pat then rep @ drop (length pat) (c # s) else c # replace_first pat rep s)"

text \<open>\<open>$n\<close>.\<close>

definition dollar :: "nat \<Rightarrow> string" where
  "dollar n = CHR ''$'' # nat_to_string n"

subsection \<open>Composed texts\<close>

definition plain :: "string \<Rightarrow> bool" where
  "plain s \<longleftrightarrow> list_all (\<lambda>c. c \<noteq> CHR ''$'') s"

definition no_digit :: "string \<Rightarrow> bool" where
  "no_digit s \<longleftrightarrow> (case s of [] \<Rightarrow> True | c # _ \<Rightarrow> \<not> is_digit c)"

lemma plain_simps [simp]: "plain []" "plain (c # s) \<longleftrightarrow> c \<noteq> CHR ''$'' \<and> plain s" "plain (s @ t) \<longleftrightarrow> plain s \<and> plain t"
  by (simp_all add: plain_def)

lemma no_digit_simps [simp]: "no_digit []" "no_digit (c # s) \<longleftrightarrow> \<not> is_digit c"
  by (simp_all add: no_digit_def)

lemma placeholders_plain: "plain s \<Longrightarrow> placeholders (s @ t) = placeholders t"
  by (induction s) auto

lemma placeholders_plain_end: "plain s \<Longrightarrow> placeholders s = []"
  using placeholders_plain [of s "[]"] by simp

lemma takeWhile_nat:
  "no_digit t \<Longrightarrow> takeWhile is_digit (nat_to_string n @ t) = nat_to_string n"
  using nat_to_string_digits [of n] by (cases t) (auto simp: list_all_iff takeWhile_append)

lemma plain_digits: "list_all is_digit s \<Longrightarrow> plain s"
  by (auto simp: plain_def list_all_iff is_digit_def)

lemma placeholders_dollar: "no_digit t \<Longrightarrow> placeholders (dollar n @ t) = n # placeholders t"
  using placeholders_plain [OF plain_digits [OF nat_to_string_digits [of n]], of t]
  by (simp add: dollar_def takeWhile_nat)

lemma placeholders_dollar_end: "placeholders (dollar n) = [n]"
  using placeholders_dollar [of "[]" n] by simp

lemma placeholders_append:
  assumes "no_digit t"
  shows "placeholders (s @ t) = placeholders s @ placeholders t"
proof (induction s)
  case (Cons c s)
  have t: "takeWhile is_digit (s @ t) = takeWhile is_digit s"
    using assms by (induction s) (auto simp: no_digit_def split: list.splits)
  show ?case using Cons by (simp add: t)
qed simp

lemma foldr_max_le: "foldr max xs (0 :: nat) \<le> n \<longleftrightarrow> (\<forall>x\<in>set xs. x \<le> n)"
  by (induction xs) auto

lemma foldr_max_append: "foldr max (xs @ ys) (0 :: nat) = max (foldr max xs 0) (foldr max ys 0)"
  by (induction xs) auto

lemma highest_append: "no_digit t \<Longrightarrow> highest (s @ t) = max (highest s) (highest t)"
  by (simp add: highest_def placeholders_append foldr_max_append del: foldr_append)

lemma highest_plain [simp]: "plain s \<Longrightarrow> highest s = 0"
  by (simp add: highest_def placeholders_plain_end)

lemma highest_dollar: "no_digit t \<Longrightarrow> highest (dollar n @ t) = max n (highest t)"
  by (simp add: highest_def placeholders_dollar)

lemma highest_dollar_end [simp]: "highest (dollar n) = n"
  by (simp add: highest_def placeholders_dollar_end)

lemma highest_upper: "k \<in> set (placeholders s) \<Longrightarrow> k \<le> highest s"
  using foldr_max_le [of "placeholders s" "highest s"] by (simp add: highest_def)

lemma no_digit_dollar [simp]: "no_digit (dollar n @ t)" "no_digit (dollar n)"
  by (simp_all add: dollar_def is_digit_def)

subsection \<open>Patterns that do not occur\<close>

lemma string_to_nat_prefix: "string_to_nat s \<le> string_to_nat (s @ t)"
proof (induction t rule: rev_induct)
  case (snoc c t)
  have "string_to_nat (s @ t) \<le> string_to_nat ((s @ t) @ [c])" by (simp only: string_to_nat_snoc)
  with snoc show ?case by simp
qed simp

lemma dollar_occurs: "\<exists>k\<in>set (placeholders (u @ dollar n @ t)). n \<le> k"
proof (induction u)
  case Nil
  have "list_all is_digit (nat_to_string n)" by (rule nat_to_string_digits)
  then obtain w where w: "takeWhile is_digit (nat_to_string n @ t) = nat_to_string n @ w"
    by (auto simp: list_all_iff takeWhile_append)
  have "n \<le> string_to_nat (nat_to_string n @ w)" using string_to_nat_prefix [of "nat_to_string n" w] by simp
  then show ?case by (auto simp: dollar_def w)
next
  case (Cons c u)
  then show ?case by auto
qed

lemma replace_first_absent:
  assumes "highest s < n"
  shows "replace_first (pat @ dollar n) rep s = s"
proof -
  have absent: "take (length (pat @ dollar n)) v \<noteq> pat @ dollar n" if "s = u @ v" for u v
  proof
    assume "take (length (pat @ dollar n)) v = pat @ dollar n"
    then have "v = pat @ dollar n @ drop (length (pat @ dollar n)) v" by (metis append_assoc append_take_drop_id)
    then have "s = (u @ pat) @ dollar n @ drop (length (pat @ dollar n)) v" using that by simp
    then obtain k where "k \<in> set (placeholders s)" "n \<le> k" using dollar_occurs by metis
    then show False using highest_upper assms by fastforce
  qed
  have "replace_first (pat @ dollar n) rep v = v" if "s = u @ v" for u v
    using that
  proof (induction v arbitrary: u)
    case Nil
    then show ?case by (simp add: dollar_def)
  next
    case (Cons c v)
    have "replace_first (pat @ dollar n) rep v = v" using Cons.IH [of "u @ [c]"] Cons.prems by simp
    then show ?case using absent [OF Cons.prems] by simp
  qed
  from this [of "[]" s] show ?thesis by simp
qed

end
