(* ===== verification/Pagination.thy ===== *)
theory Pagination
  imports Db AppErrors Bytes JsDateParse Doubles SqlText
begin

section \<open>Pagination (\<open>backend/src/utils/pagination.ts\<close>, \<open>queryHelpers.ts\<close>)\<close>

text \<open>
  Parsing of query parameters, response envelopes, and keyset cursors. A query parameter is \<open>None\<close> unless
  it is a string. Texts that the language leaves to the engine are parameters: dates in other formats
  than the one \<open>toISOString\<close> writes, and the messages of syntax errors. Shown: a cursor decodes to what
  was encoded, limits are always in range, ranges are ordered, a sort field is always an allowed one,
  and the placeholders of a keyset clause are those of its parameters.
\<close>

record js_env =
  date_other :: "string \<Rightarrow> int option"
  syntax_message :: "string \<Rightarrow> string"

definition DEFAULT_LIMIT :: int where "DEFAULT_LIMIT = 50"

definition MAX_LIMIT :: int where "MAX_LIMIT = 100"

subsection \<open>Numbers\<close>

text \<open>A number as a double; \<open>None\<close> when it is not finite.\<close>

definition finite_dbl :: "rat \<Rightarrow> rat option" where
  "finite_dbl x = (if \<bar>dbl x\<bar> < 2 ^ 1024 then Some (dbl x) else None)"

definition js_integer :: "int \<Rightarrow> int option" where
  "js_integer n = map_option floor (finite_dbl (of_int n))"

text \<open>\<open>Number.parseFloat\<close>; \<open>None\<close> is \<open>NaN\<close> or an infinity.\<close>

definition float_exponent :: "string \<Rightarrow> int" where
  "float_exponent r =
     (case r of
        [] \<Rightarrow> 0
      | e # cs \<Rightarrow>
          if e = CHR ''e'' \<or> e = CHR ''E'' then
            (case cs of
               [] \<Rightarrow> 0
             | c # ds \<Rightarrow>
                 if c = CHR ''-'' then - int (string_to_nat (takeWhile is_digit ds))
                 else if c = CHR ''+'' then int (string_to_nat (takeWhile is_digit ds))
                 else int (string_to_nat (takeWhile is_digit cs)))
          else 0)"

definition unsigned_float :: "string \<Rightarrow> rat option" where
  "unsigned_float s =
     (let i = takeWhile is_digit s; r = dropWhile is_digit s;
          f = (case r of c # cs \<Rightarrow> if c = CHR ''.'' then takeWhile is_digit cs else [] | [] \<Rightarrow> []);
          rest = (case r of c # cs \<Rightarrow> if c = CHR ''.'' then dropWhile is_digit cs else r | [] \<Rightarrow> [])
      in if i = [] \<and> f = [] then None
         else Some (of_nat (string_to_nat (i @ f)) / 10 ^ length f * 10 powi float_exponent rest))"

definition parseFloat :: "string \<Rightarrow> rat option" where
  "parseFloat s =
     (case dropWhile js_space s of
        [] \<Rightarrow> None
      | c # cs \<Rightarrow>
          Option.bind (unsigned_float (if c = CHR ''-'' \<or> c = CHR ''+'' then cs else c # cs))
            (\<lambda>x. finite_dbl (if c = CHR ''-'' then - x else x)))"

subsection \<open>Query parameters\<close>

definition parsePositiveInteger :: "string option \<Rightarrow> int \<Rightarrow> int option \<Rightarrow> int" where
  "parsePositiveInteger v fallback mx =
     (case v of
        None \<Rightarrow> fallback
      | Some s \<Rightarrow>
          (case Option.bind (parseInt s) js_integer of
             None \<Rightarrow> fallback
           | Some parsed \<Rightarrow>
               if parsed < 0 then fallback
               else case mx of Some m \<Rightarrow> min parsed m | None \<Rightarrow> parsed))"

definition trimmed_text :: "string option \<Rightarrow> string option" where
  "trimmed_text v = (case v of Some s \<Rightarrow> if trim s = [] then None else Some (trim s) | None \<Rightarrow> None)"

definition two_parts :: "string \<Rightarrow> (string \<times> string) option" where
  "two_parts v =
     (case map trim (split_on (CHR '','') v) of
        a # b # _ \<Rightarrow> if a = [] \<or> b = [] then None else Some (a, b)
      | _ \<Rightarrow> None)"

definition parseDateRange :: "js_env \<Rightarrow> string option \<Rightarrow> (int \<times> int) option" where
  "parseDateRange env v =
     Option.bind v (\<lambda>s. Option.bind (two_parts s) (\<lambda>(a, b).
       Option.bind (Date_parse (date_other env) a) (\<lambda>start.
       Option.bind (Date_parse (date_other env) b) (\<lambda>stop.
         Some (if start \<le> stop then (start, stop) else (stop, start))))))"

definition parseAmountRange :: "string option \<Rightarrow> (rat \<times> rat) option" where
  "parseAmountRange v =
     Option.bind v (\<lambda>s. Option.bind (two_parts s) (\<lambda>(a, b).
       Option.bind (parseFloat a) (\<lambda>mn. Option.bind (parseFloat b) (\<lambda>mx.
         Some (if mn \<le> mx then (mn, mx) else (mx, mn))))))"

text \<open>The parameters of a request that the module reads.\<close>

record page_query =
  q_limit :: "string option"
  q_offset :: "string option"
  q_cursor :: "string option"
  q_sort :: "string option"
  q_status :: "string option"
  q_date_range :: "string option"
  q_amount_range :: "string option"

record PaginationParams =
  pp_limit :: int
  pp_offset :: int
  pp_sort :: "string option"
  pp_status :: "string option"
  pp_dateRange :: "(int \<times> int) option"
  pp_amountRange :: "(rat \<times> rat) option"

record CursorPaginationParams =
  cp_limit :: int
  cp_cursor :: "string option"
  cp_sort :: "string option"
  cp_status :: "string option"
  cp_dateRange :: "(int \<times> int) option"
  cp_amountRange :: "(rat \<times> rat) option"

definition parseQueryParams :: "js_env \<Rightarrow> page_query \<Rightarrow> PaginationParams" where
  "parseQueryParams env q =
     \<lparr>pp_limit = parsePositiveInteger (q_limit q) DEFAULT_LIMIT (Some MAX_LIMIT),
      pp_offset = parsePositiveInteger (q_offset q) 0 None,
      pp_sort = trimmed_text (q_sort q), pp_status = trimmed_text (q_status q),
      pp_dateRange = parseDateRange env (q_date_range q), pp_amountRange = parseAmountRange (q_amount_range q)\<rparr>"

definition parseCursorQueryParams :: "js_env \<Rightarrow> page_query \<Rightarrow> CursorPaginationParams" where
  "parseCursorQueryParams env q =
     \<lparr>cp_limit = parsePositiveInteger (q_limit q) DEFAULT_LIMIT (Some MAX_LIMIT),
      cp_cursor = trimmed_text (q_cursor q),
      cp_sort = trimmed_text (q_sort q), cp_status = trimmed_text (q_status q),
      cp_dateRange = parseDateRange env (q_date_range q), cp_amountRange = parseAmountRange (q_amount_range q)\<rparr>"

datatype direction = ASC | DESC

definition getSortConfig :: "string option \<Rightarrow> string list \<Rightarrow> string \<Rightarrow> direction \<Rightarrow> string \<times> direction" where
  "getSortConfig requested allowedFields defaultField defaultDirection =
     (case requested of
        None \<Rightarrow> (defaultField, defaultDirection)
      | Some s \<Rightarrow>
          if s = [] then (defaultField, defaultDirection)
          else
            (let minus = (hd s = CHR ''-''); requestedField = (if minus then tl s else s)
             in if requestedField \<notin> set allowedFields then (defaultField, defaultDirection)
                else (requestedField, if minus then DESC else ASC)))"

subsection \<open>Envelopes\<close>

record 'd paginated =
  pg_data :: 'd
  pg_total_count :: int
  pg_limit :: int
  pg_offset :: int
  pg_count :: int
  pg_has_previous :: bool
  pg_has_next :: bool

definition createPaginatedResponse :: "'d \<Rightarrow> int \<Rightarrow> int \<Rightarrow> int \<Rightarrow> int \<Rightarrow> 'd paginated" where
  "createPaginatedResponse d totalCount limit offset currentCount =
     \<lparr>pg_data = d, pg_total_count = totalCount, pg_limit = limit, pg_offset = offset, pg_count = currentCount,
      pg_has_previous = (0 < offset), pg_has_next = (offset + currentCount < totalCount)\<rparr>"

record 'd cursor_paginated =
  cg_data :: 'd
  cg_total_count :: "int option"
  cg_limit :: int
  cg_count :: int
  cg_next_cursor :: "string option"
  cg_has_previous :: bool
  cg_has_next :: bool

definition createCursorPaginatedResponse :: "'d \<Rightarrow> int option \<Rightarrow> int \<Rightarrow> int \<Rightarrow> string option \<Rightarrow> bool \<Rightarrow> 'd cursor_paginated" where
  "createCursorPaginatedResponse d totalCount limit currentCount nextCursor hasPrevious =
     \<lparr>cg_data = d, cg_total_count = totalCount, cg_limit = limit, cg_count = currentCount, cg_next_cursor = nextCursor,
      cg_has_previous = hasPrevious, cg_has_next = (nextCursor \<noteq> None)\<rparr>"

subsection \<open>Cursors\<close>

text \<open>
  A text decoded from bytes that are not UTF-8 of the model's characters: each such byte stands as a
  character that is no digit, no space and no JSON syntax.
\<close>

definition utf8_lossy :: "string \<Rightarrow> string" where
  "utf8_lossy bs =
     (case utf8_text bs of
        Some t \<Rightarrow> t
      | None \<Rightarrow> map (\<lambda>c. if (of_char c :: nat) < 128 then c else char_of (255 :: nat)) bs)"

definition url_char :: "char \<Rightarrow> char" where
  "url_char c = (if c = CHR ''+'' then CHR ''-'' else if c = CHR ''/'' then CHR ''_'' else c)"

definition unurl_char :: "char \<Rightarrow> char" where
  "unurl_char c = (if c = CHR ''-'' then CHR ''+'' else if c = CHR ''_'' then CHR ''/'' else c)"

definition base64urlEncode :: "string \<Rightarrow> string" where
  "base64urlEncode s = filter (\<lambda>c. c \<noteq> CHR ''='') (map url_char (to_base64 (utf8 s)))"

definition base64urlDecode :: "string \<Rightarrow> string" where
  "base64urlDecode s =
     (let padded = padEnd (length s + (4 - length s mod 4) mod 4) (CHR ''='') s
      in utf8_lossy (base64_bytes (map unurl_char padded)))"

definition encodeCursor :: "int \<Rightarrow> int \<Rightarrow> string" where
  "encodeCursor createdAt seq =
     base64urlEncode (stringify (JObj [(''createdAt'', JStr (toISOString createdAt)), (''seq'', JStr (int_to_string seq))]))"

text \<open>\<open>BigInt\<close> of a text: decimal with an optional sign, or hexadecimal, octal or binary with its prefix.\<close>

definition radix_nat :: "nat \<Rightarrow> string \<Rightarrow> nat option" where
  "radix_nat b s =
     (if s \<noteq> [] \<and> list_all (\<lambda>c. case hex_nibble c of Some k \<Rightarrow> k < b | None \<Rightarrow> False) s
      then Some (foldl (\<lambda>n c. b * n + the (hex_nibble c)) 0 s) else None)"

definition signed_decimal :: "string \<Rightarrow> int option" where
  "signed_decimal t =
     (case t of
        [] \<Rightarrow> None
      | c # ds \<Rightarrow>
          if c = CHR ''-'' then map_option (\<lambda>n. - int n) (radix_nat 10 ds)
          else if c = CHR ''+'' then map_option int (radix_nat 10 ds)
          else map_option int (radix_nat 10 t))"

definition js_bigint :: "string \<Rightarrow> int option" where
  "js_bigint s =
     (let t = trim s in
      case t of
        [] \<Rightarrow> Some 0
      | [c] \<Rightarrow> signed_decimal t
      | c # x # ds \<Rightarrow>
          if c = CHR ''0'' \<and> (x = CHR ''x'' \<or> x = CHR ''X'') then map_option int (radix_nat 16 ds)
          else if c = CHR ''0'' \<and> (x = CHR ''o'' \<or> x = CHR ''O'') then map_option int (radix_nat 8 ds)
          else if c = CHR ''0'' \<and> (x = CHR ''b'' \<or> x = CHR ''B'') then map_option int (radix_nat 2 ds)
          else signed_decimal t)"

definition invalid_cursor :: "string \<Rightarrow> AppError" where
  "invalid_cursor reason = badRequest (''Invalid cursor: '' @ reason) (Some VALIDATION_ERROR) None"

text \<open>A member that is a non-empty text.\<close>

definition text_field :: "string \<Rightarrow> json \<Rightarrow> string option" where
  "text_field k payload = (case json_get k payload of Some (JStr s) \<Rightarrow> if s = [] then None else Some s | _ \<Rightarrow> None)"

definition decodeCursor :: "js_env \<Rightarrow> string \<Rightarrow> AppError + int \<times> int" where
  "decodeCursor env cursor =
     (let text = base64urlDecode cursor in
      case json_parse text of
        None \<Rightarrow> Inl (invalid_cursor (syntax_message env text))
      | Some payload \<Rightarrow>
          if payload = JNull then Inl (invalid_cursor (syntax_message env text))
          else case text_field ''createdAt'' payload of
              None \<Rightarrow> Inl (invalid_cursor ''Missing or invalid createdAt'')
            | Some c \<Rightarrow>
                (case text_field ''seq'' payload of
                   None \<Rightarrow> Inl (invalid_cursor ''Missing or invalid seq'')
                 | Some s \<Rightarrow>
                     (case Date_parse (date_other env) c of
                        None \<Rightarrow> Inl (invalid_cursor ''Invalid createdAt date'')
                      | Some t \<Rightarrow>
                          (case js_bigint s of
                             None \<Rightarrow> Inl (invalid_cursor (syntax_message env s))
                           | Some n \<Rightarrow> Inr (t, n)))))"

subsection \<open>Keyset clauses\<close>

datatype sql_param = PInt int | PText string

definition buildKeysetClause :: "(int \<times> int) option \<Rightarrow> int \<Rightarrow> string \<Rightarrow> string \<times> sql_param list" where
  "buildKeysetClause cursor snapshotSeq columnPrefix =
     (let cols = (\<lambda>col. if columnPrefix = [] then col else columnPrefix @ ''.'' @ col);
          whereClause = cols ''seq'' @ '' <= '' @ dollar 1;
          params = [PInt snapshotSeq]
      in case cursor of
           None \<Rightarrow> (whereClause, params)
         | Some (createdAt, seq) \<Rightarrow>
             (whereClause @ '' AND ('' @ cols ''created_at'' @ '' < '' @ dollar (length params + 1) @ '' OR ('' @ cols ''created_at''
                @ '' = '' @ dollar (length params + 2) @ '' AND '' @ cols ''seq'' @ '' < '' @ dollar (length params + 3) @ ''))'',
              params @ [PText (toISOString createdAt), PText (toISOString createdAt), PInt seq]))"

record KeysetPaginationParams =
  kp_snapshotSeq :: int
  kp_cursor :: "string option"
  kp_limit :: int

definition parseKeysetParams :: "string option \<Rightarrow> string option \<Rightarrow> string option \<Rightarrow> AppError + KeysetPaginationParams" where
  "parseKeysetParams snapshotSeq cursor limit =
     (case (case snapshotSeq of None \<Rightarrow> Some 0 | Some s \<Rightarrow> if s = [] then Some 0 else js_bigint s) of
        None \<Rightarrow> Inl (badRequest ''Invalid snapshot_seq'' (Some VALIDATION_ERROR) None)
      | Some snap \<Rightarrow>
          Inr \<lparr>kp_snapshotSeq = snap, kp_cursor = trimmed_text cursor,
               kp_limit =
                 (case limit of
                    None \<Rightarrow> DEFAULT_LIMIT
                  | Some l \<Rightarrow>
                      if l = [] then DEFAULT_LIMIT
                      else case Option.bind (parseInt l) js_integer of
                          None \<Rightarrow> DEFAULT_LIMIT
                        | Some n \<Rightarrow> if n < 1 then DEFAULT_LIMIT else min n MAX_LIMIT)\<rparr>)"

text \<open>\<open>parseCappedLimit\<close> of \<open>queryHelpers.ts\<close>; \<open>n\<close> is \<open>Number(req.query.limit)\<close>, \<open>None\<close> when it is not finite.\<close>

definition parseCappedLimit :: "rat option \<Rightarrow> int \<Rightarrow> int" where
  "parseCappedLimit n defaultLimit =
     (case n of
        None \<Rightarrow> defaultLimit
      | Some rawLimit \<Rightarrow>
          if rawLimit \<le> 0 \<or> rawLimit \<noteq> of_int \<lfloor>rawLimit\<rfloor> then defaultLimit
          else min \<lfloor>rawLimit\<rfloor> 100)"

subsection \<open>A cursor decodes to what was encoded\<close>

lemma base64_val_url: "base64_val (unurl_char (url_char c)) = base64_val c"
  by (simp add: url_char_def unurl_char_def base64_val_def)

lemma base64_val_url_pad: "url_char c = CHR ''='' \<longleftrightarrow> c = CHR ''=''" "unurl_char (CHR ''='') = CHR ''=''"
  by (auto simp: url_char_def unurl_char_def)

lemma sextets_url:
  "List.map_filter base64_val (map unurl_char (filter (\<lambda>c. c \<noteq> CHR ''='') (map url_char xs))) = List.map_filter base64_val xs"
  by (induction xs) (auto simp: List.map_filter_simps base64_val_url base64_val_url_pad base64_val_pad split: option.splits)

lemma sextets_pad: "List.map_filter base64_val (map unurl_char (replicate n (CHR ''=''))) = []"
  by (induction n) (simp_all add: List.map_filter_simps base64_val_url_pad base64_val_pad)

lemma map_filter_append: "List.map_filter f (xs @ ys) = List.map_filter f xs @ List.map_filter f ys"
  by (simp add: List.map_filter_def)

lemma base64url_roundtrip [simp]: "base64urlDecode (base64urlEncode s) = s"
proof -
  have "base64_bytes (map unurl_char (padEnd n (CHR ''='') (base64urlEncode s))) = base64_bytes (to_base64 (utf8 s))" for n
    unfolding base64_bytes_def padEnd_def map_append map_filter_append sextets_pad
    by (simp add: base64urlEncode_def sextets_url)
  then show ?thesis by (simp add: base64urlDecode_def utf8_lossy_def Let_def)
qed

lemma hex_nibble_digit: "is_digit c \<Longrightarrow> hex_nibble c = Some (char_digit c) \<and> char_digit c < 10"
  by (auto simp: is_digit_def hex_nibble_def char_digit_def Let_def)

lemma foldl_digits:
  "list_all is_digit s \<Longrightarrow> foldl (\<lambda>n c. 10 * n + the (hex_nibble c)) a s = foldl (\<lambda>n c. 10 * n + char_digit c) a s"
  by (induction s arbitrary: a) (simp_all add: hex_nibble_digit)

lemma radix_nat_print: "radix_nat 10 (nat_to_string n) = Some n"
proof -
  have d: "list_all is_digit (nat_to_string n)" by (rule nat_to_string_digits)
  then have "list_all (\<lambda>c. case hex_nibble c of Some k \<Rightarrow> k < 10 | None \<Rightarrow> False) (nat_to_string n)"
    by (auto simp: list_all_iff hex_nibble_digit)
  moreover have "foldl (\<lambda>n c. 10 * n + the (hex_nibble c)) 0 (nat_to_string n) = string_to_nat (nat_to_string n)"
    unfolding string_to_nat_def by (rule foldl_digits [OF d])
  ultimately show ?thesis by (simp add: radix_nat_def)
qed

lemma digits_not: "list_all is_digit s \<Longrightarrow> \<not> is_digit c \<Longrightarrow> c \<notin> set s"
  by (auto simp: list_all_iff)

lemma js_bigint_print: "js_bigint (int_to_string n) = Some n"
proof (cases "n < 0")
  case True
  let ?s = "nat_to_string (nat (- n))"
  have d: "list_all is_digit ?s" by (rule nat_to_string_digits)
  have "last ?s \<in> set ?s" by simp
  then have "\<not> js_space (last ?s)" using d digit_not_space by (auto simp: list_all_iff)
  then have t: "trim (CHR ''-'' # ?s) = CHR ''-'' # ?s" by (intro trim_id) (simp_all add: js_space_def)
  obtain x xs where s: "?s = x # xs" by (cases ?s) auto
  show ?thesis using True radix_nat_print [of "nat (- n)"]
    by (simp add: int_to_string_def js_bigint_def s t [unfolded s] signed_decimal_def)
next
  case False
  let ?s = "nat_to_string (nat n)"
  have d: "list_all is_digit ?s" by (rule nat_to_string_digits)
  have "last ?s \<in> set ?s" "hd ?s \<in> set ?s" by simp_all
  then have sp: "\<not> js_space (last ?s)" "\<not> js_space (hd ?s)" using d digit_not_space by (auto simp: list_all_iff)
  have t: "trim ?s = ?s" by (intro trim_id sp) simp
  have no: "c \<notin> set ?s" if "\<not> is_digit c" for c using digits_not [OF d that] .
  have sd: "signed_decimal ?s = Some n"
  proof -
    obtain x xs where s: "?s = x # xs" by (cases ?s) auto
    have "x \<noteq> CHR ''-''" "x \<noteq> CHR ''+''" using no [of "CHR ''-''"] no [of "CHR ''+''"] s by (auto simp: is_digit_def)
    then have "signed_decimal ?s = map_option int (radix_nat 10 ?s)" by (simp add: signed_decimal_def s)
    then show ?thesis using False radix_nat_print by simp
  qed
  have "js_bigint ?s = signed_decimal ?s"
  proof (cases "tl ?s")
    case Nil
    then obtain x where s: "?s = [x]" by (cases ?s) auto
    show ?thesis using t unfolding s by (simp add: js_bigint_def)
  next
    case (Cons y ys)
    then obtain x where s: "?s = x # y # ys" by (cases ?s) auto
    have "y \<notin> {CHR ''x'', CHR ''X'', CHR ''o'', CHR ''O'', CHR ''b'', CHR ''B''}"
      using d unfolding s by (auto simp: is_digit_def)
    then show ?thesis using t unfolding s by (simp add: js_bigint_def)
  qed
  then show ?thesis using False sd by (simp add: int_to_string_def)
qed

lemma int_to_string_nonempty: "int_to_string n \<noteq> []"
  by (simp add: int_to_string_def)

lemma iso_text_nonempty: "toISOString t \<noteq> []"
  by (simp add: toISOString_def Let_def)

lemma decode_encode:
  assumes "four_digit_year t"
  shows "decodeCursor env (encodeCursor t n) = Inr (t, n)"
proof -
  let ?v = "JObj [(''createdAt'', JStr (toISOString t)), (''seq'', JStr (int_to_string n))]"
  have "json_parse (stringify ?v) = Some ?v" by (rule json_parse_stringify) simp
  then show ?thesis
    by (simp add: decodeCursor_def encodeCursor_def Let_def text_field_def iso_text_nonempty int_to_string_nonempty
        Date_parse_toISOString [OF assms] js_bigint_print del: stringify.simps)
qed

text \<open>
  A cursor decodes to the time and the sequence number it was made of, for every time of the years 0
  to 9999 and every integer.
\<close>

theorem cursor_roundtrip:
  assumes "four_digit_year t"
  shows "decodeCursor env (encodeCursor t n) = Inr (t, n)"
  by (rule decode_encode [OF assms])

lemma year_2024: "four_digit_year 1704067200123"
  by (simp add: four_digit_year_def year_of_day_def year_up.simps DayFromYear_def)

theorem cursor_roundtrip_witness:
  "decodeCursor \<lparr>date_other = (\<lambda>_. None), syntax_message = (\<lambda>s. s)\<rparr> (encodeCursor 1704067200123 (- 7)) = Inr (1704067200123, - 7)"
  by (rule cursor_roundtrip [OF year_2024])

subsection \<open>Limits, ranges and sort fields\<close>

lemma js_integer_small:
  assumes "\<bar>n\<bar> \<le> 2 ^ 53"
  shows "js_integer n = Some n"
proof -
  have "\<bar>of_int n :: rat\<bar> \<le> 2 ^ 53" using assms by (metis of_int_abs of_int_le_iff of_int_numeral of_int_power)
  then have "\<bar>of_int n :: rat\<bar> < 2 ^ 1024" by (rule le_less_trans) simp
  then show ?thesis using assms by (simp add: js_integer_def finite_dbl_def dbl_of_int)
qed

text \<open>
  Whatever a client sends: limits are between 0 and 100 (1 and 100 for keyset pages), the offset is not
  negative, date and amount ranges are in order, and the sort field is an allowed one or the default.
\<close>

theorem parsed_params_in_range:
  "0 \<le> pp_limit (parseQueryParams env q) \<and> pp_limit (parseQueryParams env q) \<le> 100 \<and> 0 \<le> pp_offset (parseQueryParams env q)
   \<and> 0 \<le> cp_limit (parseCursorQueryParams env q) \<and> cp_limit (parseCursorQueryParams env q) \<le> 100
   \<and> pred_option (\<lambda>(a, b). a \<le> b) (pp_dateRange (parseQueryParams env q))
   \<and> pred_option (\<lambda>(a, b). a \<le> b) (pp_amountRange (parseQueryParams env q))
   \<and> fst (getSortConfig s allowed d dir) \<in> insert d (set allowed)
   \<and> (case parseKeysetParams sn c l of Inr kp \<Rightarrow> 1 \<le> kp_limit kp \<and> kp_limit kp \<le> 100 | Inl err \<Rightarrow> ae_statusCode err = 400)"
proof -
  have l: "0 \<le> parsePositiveInteger v 50 (Some 100) \<and> parsePositiveInteger v 50 (Some 100) \<le> 100" for v
    by (auto simp: parsePositiveInteger_def split: option.splits)
  have o: "0 \<le> parsePositiveInteger v 0 None" for v by (auto simp: parsePositiveInteger_def split: option.splits)
  have dr: "pred_option (\<lambda>(a, b). a \<le> b) (parseDateRange env v)" for v
    by (auto simp: parseDateRange_def pred_option_def bind_eq_Some_conv set_bind_option split: if_splits)
  have ar: "pred_option (\<lambda>(a, b). a \<le> b) (parseAmountRange v)" for v
    by (auto simp: parseAmountRange_def pred_option_def bind_eq_Some_conv set_bind_option split: if_splits)
  have sc: "fst (getSortConfig s allowed d dir) \<in> insert d (set allowed)"
    by (auto simp: getSortConfig_def Let_def split: option.splits)
  have kp: "case parseKeysetParams sn c l of Inr kp \<Rightarrow> 1 \<le> kp_limit kp \<and> kp_limit kp \<le> 100 | Inl err \<Rightarrow> ae_statusCode err = 400"
    by (auto simp: parseKeysetParams_def DEFAULT_LIMIT_def MAX_LIMIT_def badRequest_def AppError_new_def split: option.splits)
  show ?thesis
    using l o dr ar sc kp by (simp add: parseQueryParams_def parseCursorQueryParams_def DEFAULT_LIMIT_def MAX_LIMIT_def)
qed

text \<open>
  A keyset clause with its parameters is accepted: its highest placeholder is the number of its
  parameters, with any column prefix that has no placeholder of its own.
\<close>

theorem keyset_clause_binds:
  assumes "plain columnPrefix"
  shows "bind_ok (fst (buildKeysetClause cursor snap columnPrefix)) (snd (buildKeysetClause cursor snap columnPrefix))"
  using assms
  by (cases cursor)
    (auto simp: buildKeysetClause_def bind_ok_def highest_def placeholders_plain placeholders_dollar placeholders_dollar_end
      is_digit_def Let_def)

theorem keyset_clause_binds_witness:
  "bind_ok (fst (buildKeysetClause (Some (0, 7)) 9 ''t'')) (snd (buildKeysetClause (Some (0, 7)) 9 ''t''))"
  by (rule keyset_clause_binds) simp

end
