(* ===== verification/Keyset.thy ===== *)
theory Keyset
  imports Pagination "HOL-Library.Product_Lexorder"
begin

section \<open>Keyset pages\<close>

text \<open>
  The page that the listing handlers (\<open>remittanceController.ts\<close>, \<open>indexerController.ts\<close>,
  \<open>adminDisputeController.ts\<close>) read: rows of a snapshot, newest first, after a cursor. A row's
  \<open>created_at\<close> has PostgreSQL's microseconds, a cursor the milliseconds of a \<open>Date\<close>. The locales state
  what a table promises; their lemmas say what a client that follows the cursors receives, while the
  table grows. \<open>keyset_rows\<close>: nothing twice, newest first. \<open>keyset_exact\<close>, where times are whole
  milliseconds: exactly the rows of the snapshot.
\<close>

subsection \<open>Pages\<close>

definition after_cursor :: "('r \<Rightarrow> int) \<Rightarrow> ('r \<Rightarrow> int) \<Rightarrow> int \<times> int \<Rightarrow> 'r \<Rightarrow> bool" where
  "after_cursor created sq c r \<longleftrightarrow> created r < 1000 * fst c \<or> created r = 1000 * fst c \<and> sq r < snd c"

definition newest_key :: "('r \<Rightarrow> int) \<Rightarrow> ('r \<Rightarrow> int) \<Rightarrow> 'r \<Rightarrow> int \<times> int" where
  "newest_key created sq r = (- created r, - sq r)"

definition newest_first :: "('r \<Rightarrow> int) \<Rightarrow> ('r \<Rightarrow> int) \<Rightarrow> 'r list \<Rightarrow> 'r list" where
  "newest_first created sq rows = sort_key (newest_key created sq) rows"

definition row_cursor :: "('r \<Rightarrow> int) \<Rightarrow> ('r \<Rightarrow> int) \<Rightarrow> 'r \<Rightarrow> int \<times> int" where
  "row_cursor created sq r = (created r div 1000, sq r)"

definition in_page :: "('r \<Rightarrow> int) \<Rightarrow> ('r \<Rightarrow> int) \<Rightarrow> int \<Rightarrow> (int \<times> int) option \<Rightarrow> 'r \<Rightarrow> bool" where
  "in_page created sq snap cursor r \<longleftrightarrow>
     sq r \<le> snap \<and> (case cursor of None \<Rightarrow> True | Some c \<Rightarrow> after_cursor created sq c r)"

definition keyset_page ::
  "('r \<Rightarrow> int) \<Rightarrow> ('r \<Rightarrow> int) \<Rightarrow> int \<Rightarrow> (int \<times> int) option \<Rightarrow> nat \<Rightarrow> 'r list \<Rightarrow> 'r list \<times> (int \<times> int) option" where
  "keyset_page created sq snap cursor limit rows =
     (let result = take (limit + 1) (newest_first created sq (filter (in_page created sq snap cursor) rows));
          hasNext = limit < length result;
          items = (if hasNext then take limit result else result)
      in (items, if hasNext \<and> items \<noteq> [] then Some (row_cursor created sq (last items)) else None))"

text \<open>The highest sequence number, pinned on the first request.\<close>

definition max_seq :: "('r \<Rightarrow> int) \<Rightarrow> 'r list \<Rightarrow> int" where
  "max_seq sq rows = (if rows = [] then 0 else Max (sq ` set rows))"

text \<open>A client that follows the cursors; each request finds the table as it is by then.\<close>

fun follow :: "('r \<Rightarrow> int) \<Rightarrow> ('r \<Rightarrow> int) \<Rightarrow> int \<Rightarrow> nat \<Rightarrow> 'r list list \<Rightarrow> (int \<times> int) option \<Rightarrow> 'r list" where
  "follow created sq snap limit [] cursor = []"
| "follow created sq snap limit (rows # later) cursor =
     (case keyset_page created sq snap cursor limit rows of
        (items, None) \<Rightarrow> items
      | (items, Some c) \<Rightarrow> items @ follow created sq snap limit later (Some c))"

definition snapshot_view :: "('r \<Rightarrow> int) \<Rightarrow> ('r \<Rightarrow> int) \<Rightarrow> int \<Rightarrow> 'r list \<Rightarrow> 'r list" where
  "snapshot_view created sq snap rows = newest_first created sq (filter (\<lambda>r. sq r \<le> snap) rows)"

subsection \<open>Order\<close>

definition newer :: "('r \<Rightarrow> int) \<Rightarrow> ('r \<Rightarrow> int) \<Rightarrow> 'r \<Rightarrow> 'r \<Rightarrow> bool" where
  "newer created sq a b \<longleftrightarrow> newest_key created sq a < newest_key created sq b"

lemma newer_trans: "newer created sq a b \<Longrightarrow> newer created sq b c \<Longrightarrow> newer created sq a c"
  unfolding newer_def by (rule less_trans)

lemma newer_irrefl [simp]: "\<not> newer created sq a a"
  by (simp add: newer_def)

lemma set_newest_first [simp]: "set (newest_first created sq rows) = set rows"
  by (simp add: newest_first_def)

lemma sorted_wrt_newer:
  assumes "distinct (map sq rows)"
  shows "sorted_wrt (newer created sq) (newest_first created sq rows)"
proof -
  have "sorted (map (newest_key created sq) (newest_first created sq rows))" by (simp add: newest_first_def)
  moreover have "distinct (map (newest_key created sq) rows)"
    using assms by (auto simp: distinct_map inj_on_def newest_key_def)
  then have "distinct (map (newest_key created sq) (newest_first created sq rows))"
    by (simp add: distinct_map newest_first_def)
  ultimately have "sorted_wrt (<) (map (newest_key created sq) (newest_first created sq rows))"
    by (simp add: strict_sorted_iff)
  then show ?thesis unfolding sorted_wrt_map newer_def .
qed

lemma filter_newest_first: "newest_first created sq (filter P rows) = filter P (newest_first created sq rows)"
  by (simp add: newest_first_def filter_sort)

lemma page_items_sorted:
  assumes "distinct (map sq rows)" "keyset_page created sq snap cursor limit rows = (items, nxt)"
  shows "sorted_wrt (newer created sq) items"
proof -
  have "distinct (map sq (filter (in_page created sq snap cursor) rows))"
    using assms(1) by (simp add: distinct_map inj_on_def)
  note s = sorted_wrt_newer [OF this, of created]
  show ?thesis using assms(2) s by (auto simp: keyset_page_def Let_def intro: sorted_wrt_take split: if_splits)
qed

lemma page_items_in:
  assumes "keyset_page created sq snap cursor limit rows = (items, nxt)" "r \<in> set items"
  shows "r \<in> set rows" "in_page created sq snap cursor r"
proof -
  have "r \<in> set (newest_first created sq (filter (in_page created sq snap cursor) rows))"
    using assms by (auto simp: keyset_page_def Let_def dest!: in_set_takeD split: if_splits)
  then show "r \<in> set rows" "in_page created sq snap cursor r" by simp_all
qed

lemma page_next:
  assumes "keyset_page created sq snap cursor limit rows = (items, Some c)"
  shows "items \<noteq> []" "c = row_cursor created sq (last items)"
  using assms by (auto simp: keyset_page_def Let_def split: if_splits)

lemma after_row_cursor: "after_cursor created sq (row_cursor created sq x) r \<Longrightarrow> newer created sq x r"
proof -
  assume a: "after_cursor created sq (row_cursor created sq x) r"
  have "1000 * (created x div 1000) \<le> created x" by simp
  with a show ?thesis by (auto simp: after_cursor_def row_cursor_def newer_def newest_key_def)
qed

lemma after_row_cursor_exact:
  "1000 dvd created x \<Longrightarrow> after_cursor created sq (row_cursor created sq x) r \<longleftrightarrow> newer created sq x r"
  by (auto simp: after_cursor_def row_cursor_def newer_def newest_key_def)

definition reached :: "('r \<Rightarrow> int) \<Rightarrow> ('r \<Rightarrow> int) \<Rightarrow> int \<Rightarrow> 'r list list \<Rightarrow> (int \<times> int) option \<Rightarrow> 'r \<Rightarrow> bool" where
  "reached created sq snap tables cursor r \<longleftrightarrow>
     sq r \<le> snap \<and> (\<exists>rows\<in>set tables. r \<in> set rows) \<and> (\<forall>x. cursor = Some (row_cursor created sq x) \<longrightarrow> newer created sq x r)"

lemma follow_in:
  "r \<in> set (follow created sq snap limit tables cursor) \<Longrightarrow> reached created sq snap tables cursor r"
proof (induction tables arbitrary: cursor)
  case (Cons rows later)
  obtain items nxt where p: "keyset_page created sq snap cursor limit rows = (items, nxt)" by (meson surj_pair)
  have here: "reached created sq snap (rows # later) cursor q" if "q \<in> set items" for q
    using page_items_in [OF p that] after_row_cursor by (auto simp: in_page_def reached_def)
  show ?case
  proof (cases nxt)
    case None
    then show ?thesis using Cons.prems here by (simp add: p)
  next
    case (Some c)
    note nx = page_next [OF p [unfolded Some]]
    have l: "reached created sq snap (rows # later) cursor (last items)" using here nx(1) by simp
    have "reached created sq snap (rows # later) cursor r" if "r \<in> set (follow created sq snap limit later (Some c))"
    proof -
      note ih = Cons.IH [OF that]
      have "newer created sq (last items) r" using ih nx(2) by (simp add: reached_def)
      then have "\<forall>x. cursor = Some (row_cursor created sq x) \<longrightarrow> newer created sq x r"
        using l newer_trans [of created sq _ "last items" r] by (simp add: reached_def)
      then show ?thesis using ih by (auto simp: reached_def)
    qed
    then show ?thesis using Cons.prems here by (auto simp: p Some)
  qed
qed simp

lemma follow_sorted:
  assumes "\<forall>rows\<in>set tables. distinct (map sq rows)"
  shows "sorted_wrt (newer created sq) (follow created sq snap limit tables cursor)"
  using assms
proof (induction tables arbitrary: cursor)
  case (Cons rows later)
  obtain items nxt where p: "keyset_page created sq snap cursor limit rows = (items, nxt)" by (meson surj_pair)
  have items: "sorted_wrt (newer created sq) items" using page_items_sorted [OF _ p] Cons.prems by simp
  show ?case
  proof (cases nxt)
    case (Some c)
    note nx = page_next [OF p [unfolded Some]]
    have "newer created sq a b" if "a \<in> set items" "b \<in> set (follow created sq snap limit later (Some c))" for a b
    proof -
      have lb: "newer created sq (last items) b" using follow_in [OF that(2)] nx(2) by (simp add: reached_def)
      show ?thesis
      proof (cases "a = last items")
        case False
        note split = append_butlast_last_id [OF nx(1)]
        have "a \<in> set (butlast items @ [last items])" using that(1) unfolding split .
        then have "a \<in> set (butlast items)" using False by simp
        moreover have "sorted_wrt (newer created sq) (butlast items @ [last items])" using items unfolding split .
        ultimately have "newer created sq a (last items)" by (simp add: sorted_wrt_append)
        then show ?thesis using lb by (rule newer_trans)
      qed (use lb in simp)
    qed
    then show ?thesis using items Cons by (simp add: p Some sorted_wrt_append)
  qed (use items in \<open>simp add: p\<close>)
qed simp

lemma newer_distinct: "sorted_wrt (newer created sq) xs \<Longrightarrow> distinct xs"
  by (induction xs) auto

subsection \<open>Exact pages\<close>

lemma filter_after:
  assumes "sorted_wrt (newer created sq) (xs @ x # ys)"
  shows "filter (newer created sq x) (xs @ x # ys) = ys"
proof -
  have "\<forall>a\<in>set xs. \<not> newer created sq x a" "\<forall>b\<in>set ys. newer created sq x b"
    using assms newer_trans newer_irrefl by (fastforce simp: sorted_wrt_append)+
  then show ?thesis by simp
qed

definition rest_of :: "('r \<Rightarrow> int) \<Rightarrow> ('r \<Rightarrow> int) \<Rightarrow> int \<Rightarrow> (int \<times> int) option \<Rightarrow> 'r list \<Rightarrow> 'r list" where
  "rest_of created sq snap cursor rows = newest_first created sq (filter (in_page created sq snap cursor) rows)"

lemma rest_of_None [simp]: "rest_of created sq snap None rows = snapshot_view created sq snap rows"
proof -
  have "in_page created sq snap None = (\<lambda>r. sq r \<le> snap)" by (simp add: in_page_def fun_eq_iff)
  then show ?thesis by (simp only: rest_of_def snapshot_view_def)
qed

lemma rest_of_Some:
  assumes "distinct (map sq rows)" "1000 dvd created x" "snapshot_view created sq snap rows = xs @ x # ys"
  shows "rest_of created sq snap (Some (row_cursor created sq x)) rows = ys"
proof -
  have "distinct (map sq (filter (\<lambda>r. sq r \<le> snap) rows))" using assms(1) by (simp add: distinct_map inj_on_def)
  note s = sorted_wrt_newer [OF this, of created, folded snapshot_view_def]
  have "filter (in_page created sq snap (Some (row_cursor created sq x))) rows
      = filter (newer created sq x) (filter (\<lambda>r. sq r \<le> snap) rows)"
    by (auto simp: in_page_def after_row_cursor_exact [of created x, OF assms(2)] intro!: filter_cong)
  then have "rest_of created sq snap (Some (row_cursor created sq x)) rows = filter (newer created sq x) (snapshot_view created sq snap rows)"
    by (simp only: rest_of_def snapshot_view_def filter_newest_first)
  then show ?thesis using filter_after s assms(3) by simp
qed

lemma page_of_rest:
  assumes "0 < limit"
  shows "keyset_page created sq snap cursor limit rows =
    (take limit (rest_of created sq snap cursor rows),
     if limit < length (rest_of created sq snap cursor rows)
     then Some (row_cursor created sq (rest_of created sq snap cursor rows ! (limit - 1))) else None)"
proof -
  let ?r = "rest_of created sq snap cursor rows"
  have "last (take limit ?r) = ?r ! (limit - 1)" if "limit < length ?r"
    using that assms by (subst last_conv_nth) (auto simp: min_def)
  then show ?thesis using assms by (auto simp: keyset_page_def Let_def min_def simp flip: rest_of_def)
qed

lemma follow_rest:
  assumes "0 < limit" "tables \<noteq> []" "length ys \<le> limit * length tables"
    and "\<forall>rows\<in>set tables. distinct (map sq rows) \<and> (\<forall>r\<in>set rows. 1000 dvd created r)
      \<and> snapshot_view created sq snap rows = xs @ ys"
    and "case cursor of None \<Rightarrow> xs = [] | Some c \<Rightarrow> xs \<noteq> [] \<and> c = row_cursor created sq (last xs)"
  shows "follow created sq snap limit tables cursor = ys"
  using assms(2-5)
proof (induction tables arbitrary: cursor xs ys)
  case (Cons rows later)
  have rows: "distinct (map sq rows)" "\<forall>r\<in>set rows. 1000 dvd created r" "snapshot_view created sq snap rows = xs @ ys"
    using Cons.prems(3) by auto
  have rest: "rest_of created sq snap cursor rows = ys"
  proof (cases cursor)
    case None
    then show ?thesis using rows(3) Cons.prems(4) by simp
  next
    case (Some c)
    then have c: "c = row_cursor created sq (last xs)" and xs: "xs = butlast xs @ [last xs]" using Cons.prems(4) by auto
    then have "snapshot_view created sq snap rows = butlast xs @ last xs # ys" using rows(3) by (metis append.assoc append_Cons append_Nil)
    moreover have "last xs \<in> set rows"
    proof -
      have "set (snapshot_view created sq snap rows) \<subseteq> set rows" by (auto simp: snapshot_view_def)
      then show ?thesis using rows(3) Cons.prems(4) by (auto simp: Some)
    qed
    ultimately show ?thesis using rest_of_Some [OF rows(1)] rows(2) unfolding Some c by blast
  qed
  show ?case
  proof (cases "limit < length ys")
    case True
    let ?c = "row_cursor created sq (ys ! (limit - 1))"
    have page: "keyset_page created sq snap cursor limit rows = (take limit ys, Some ?c)"
      using page_of_rest [OF assms(1), of created sq snap cursor rows] True by (simp add: rest)
    have later: "later \<noteq> []" using Cons.prems(2) True by (cases later) auto
    have "follow created sq snap limit later (Some ?c) = drop limit ys"
    proof (rule Cons.IH [OF later])
      show "length (drop limit ys) \<le> limit * length later" using Cons.prems(2) by simp
      show "\<forall>rows\<in>set later. distinct (map sq rows) \<and> (\<forall>r\<in>set rows. 1000 dvd created r)
          \<and> snapshot_view created sq snap rows = (xs @ take limit ys) @ drop limit ys" using Cons.prems(3) by simp
      show "case Some ?c of None \<Rightarrow> xs @ take limit ys = []
          | Some c \<Rightarrow> xs @ take limit ys \<noteq> [] \<and> c = row_cursor created sq (last (xs @ take limit ys))"
        using True assms(1) by (auto simp: last_append last_conv_nth)
    qed
    then show ?thesis by (simp add: page)
  next
    case False
    then show ?thesis using page_of_rest [OF assms(1), of created sq snap cursor rows] by (simp add: rest)
  qed
qed simp

subsection \<open>Interfaces\<close>

locale keyset_rows =
  fixes inv :: "'s \<Rightarrow> bool" and rows :: "'s \<Rightarrow> 'r list" and created :: "'r \<Rightarrow> int" and sq :: "'r \<Rightarrow> int"
  assumes seq_distinct: "inv st \<Longrightarrow> distinct (map sq (rows st))"
begin

lemma filtered_distinct: "inv st \<Longrightarrow> distinct (map sq (filter P (rows st)))"
  using seq_distinct [of st] by (simp add: distinct_map inj_on_def)

lemma follow_newest_first:
  assumes "\<forall>st\<in>set sts. inv st"
  shows "sorted_wrt (newer created sq) (follow created sq snap limit (map (\<lambda>st. filter P (rows st)) sts) cursor)"
  by (rule follow_sorted) (use assms filtered_distinct in auto)

lemma follow_no_repeats:
  assumes "\<forall>st\<in>set sts. inv st"
  shows "distinct (follow created sq snap limit (map (\<lambda>st. filter P (rows st)) sts) cursor)"
  by (rule newer_distinct [OF follow_newest_first [OF assms]])

end

locale keyset_exact = keyset_rows +
  assumes whole_ms: "inv st \<Longrightarrow> r \<in> set (rows st) \<Longrightarrow> 1000 dvd created r"
begin

lemma follow_complete:
  assumes "0 < limit" "sts \<noteq> []" "length view \<le> limit * length sts"
    and "\<forall>st\<in>set sts. inv st \<and> snapshot_view created sq snap (filter P (rows st)) = view"
  shows "follow created sq snap limit (map (\<lambda>st. filter P (rows st)) sts) None = view"
  by (rule follow_rest [where xs = "[]"]) (use assms filtered_distinct whole_ms in auto)

end

text \<open>Rows added after the snapshot was pinned are not seen.\<close>

lemma snapshot_view_grown:
  "\<forall>r\<in>set new. snap < sq r \<Longrightarrow> snapshot_view created sq snap (old @ new) = snapshot_view created sq snap old"
  by (fastforce simp: snapshot_view_def filter_empty_conv intro!: arg_cong [where f = "newest_first created sq"])

text \<open>A cursor inside a group of rows of one time that is not a whole millisecond loses the rest of the group.\<close>

lemma group_lost:
  assumes "\<not> 1000 dvd created x" "created r = created x"
  shows "\<not> after_cursor created sq (row_cursor created sq x) r"
proof -
  have "1000 * (created x div 1000) \<noteq> created x" using assms(1) by (metis dvd_triv_left)
  moreover have "1000 * (created x div 1000) \<le> created x" by simp
  ultimately show ?thesis using assms(2) by (auto simp: after_cursor_def row_cursor_def)
qed

end
