(* ===== verification/RemittanceData.thy ===== *)
theory RemittanceData
  imports Keyset
begin

section \<open>Remittance rows (\<open>backend/src/services/remittanceMapper.ts\<close>)\<close>

text \<open>
  The rows of \<open>remittances\<close> and the shape in which they are answered. Amounts are kept in units of the
  column's seven decimals; times in microseconds, as PostgreSQL keeps them. \<open>toUpperCase\<close> and
  \<open>toLowerCase\<close> are those of the language on the characters of the model (the capital forms of
  \<open>y\<close> with diaeresis and of the micro sign lie outside it and are left as they are).
\<close>

definition upper_char :: "char \<Rightarrow> string" where
  "upper_char c =
     (let n = (of_char c :: nat) in
      if n = 223 then ''SS''
      else if (97 \<le> n \<and> n \<le> 122) \<or> (224 \<le> n \<and> n \<le> 254 \<and> n \<noteq> 247) then [char_of (n - 32)] else [c])"

definition toUpperCase :: "string \<Rightarrow> string" where
  "toUpperCase s = concat (map upper_char s)"

definition toLowerCase :: "string \<Rightarrow> string" where
  "toLowerCase s =
     map (\<lambda>c. let n = (of_char c :: nat) in
       if (65 \<le> n \<and> n \<le> 90) \<or> (192 \<le> n \<and> n \<le> 222 \<and> n \<noteq> 215) then char_of (n + 32) else c) s"

datatype RemittanceStatus = Pending | Processing | Completed | Failed

fun status_text :: "RemittanceStatus \<Rightarrow> string" where
  "status_text Pending = ''pending''"
| "status_text Processing = ''processing''"
| "status_text Completed = ''completed''"
| "status_text Failed = ''failed''"

record RemittanceRow =
  rm_id :: string
  rm_sender_id :: string
  rm_recipient_address :: string
  rm_stroops :: int
  rm_from_currency :: string
  rm_to_currency :: string
  rm_memo :: "string option"
  rm_status :: RemittanceStatus
  rm_transaction_hash :: "string option"
  rm_error_message :: "string option"
  rm_xdr :: string
  rm_created_at :: int
  rm_updated_at :: int
  rm_seq :: int

record Remittance =
  re_id :: string
  re_senderId :: string
  re_recipientAddress :: string
  re_amount :: rat
  re_fromCurrency :: string
  re_toCurrency :: string
  re_memo :: "string option"
  re_status :: RemittanceStatus
  re_transactionHash :: "string option"
  re_xdr :: string
  re_createdAt :: string
  re_updatedAt :: string

text \<open>\<open>parseFloat\<close> of the text of a \<open>numeric(20,7)\<close> column.\<close>

definition column_number :: "int \<Rightarrow> rat" where
  "column_number n = dbl (of_int n / 10 ^ 7)"

definition toRemittance :: "RemittanceRow \<Rightarrow> Remittance" where
  "toRemittance r =
     \<lparr>re_id = rm_id r, re_senderId = rm_sender_id r, re_recipientAddress = rm_recipient_address r,
      re_amount = column_number (rm_stroops r), re_fromCurrency = rm_from_currency r, re_toCurrency = rm_to_currency r,
      re_memo = rm_memo r, re_status = rm_status r, re_transactionHash = rm_transaction_hash r, re_xdr = rm_xdr r,
      re_createdAt = toISOString (rm_created_at r div 1000), re_updatedAt = toISOString (rm_updated_at r div 1000)\<rparr>"

text \<open>An amount below \<open>2 ^ 52\<close> units is answered without loss: printed with seven digits it is the column's value.\<close>

lemma column_number_exact: "0 \<le> n \<Longrightarrow> n < 2 ^ 52 \<Longrightarrow> toFixed 7 (column_number n) = n"
  by (simp only: column_number_def toFixed_dbl)

end
