(* ===== verification/Compliance.thy ===== *)
theory Compliance
  imports RemittanceData
begin

section \<open>Screening and transaction monitoring (\<open>backend/src/services/complianceService.ts\<close>)\<close>

text \<open>
  Applicant screening through a provider, the rules that hold back a remittance, and the records they
  leave: profiles, an append-only audit log, alerts and reports. The provider and the filing service
  are parameters. A request's amount is the decimal the number prints as, its value as a number is
  \<open>dbl\<close> of it; settings that are not finite numbers are \<open>None\<close>. Every statement may fail. Shown: a
  remittance passes exactly when its sender is approved and no rule applies; every refusal leaves its
  records; the rule against structuring never decides.
\<close>

subsection \<open>Data\<close>

record screening_hit =
  hit_types :: "string list option"
  match_status :: "string option"

text \<open>An answer of the provider: the members \<open>content.data\<close> or \<open>data\<close>, and the top level.\<close>

record provider_data =
  pd_id :: "string option"
  pd_hits :: "screening_hit list option"
  pd_results :: "screening_hit list option"

record provider_response =
  pr_content_data :: "provider_data option"
  pr_data :: "provider_data option"
  pr_id :: "string option"
  pr_results :: "screening_hit list option"

record compliance_profile =
  cp_provider_reference :: "string option"
  cp_profile_status :: string
  cp_country_code :: string
  cp_sanctions :: bool
  cp_pep :: bool
  cp_adverse_media :: bool
  cp_screened_at :: int
  cp_next_screening_at :: int

record compliance_audit =
  ca_subject :: string
  ca_event_type :: string
  ca_decision :: string
  ca_provider_reference :: "string option"
  ca_reason_codes :: "string list"
  ca_metadata :: "(string \<times> json) list"

record monitoring_alert =
  al_id :: string
  al_subject :: string
  al_reference :: string
  al_risk_score :: int
  al_rule_codes :: "string list"

record sar_report =
  sr_id :: string
  sr_alert :: string
  sr_subject :: string
  sr_narrative :: string
  sr_filing_status :: string
  sr_provider_reference :: "string option"
  sr_filed_at :: "int option"

record compliance_state =
  profiles :: "string \<rightharpoonup> compliance_profile"
  caudit :: "compliance_audit list"
  alerts :: "monitoring_alert list"
  sars :: "sar_report list"

record applicant =
  ap_subjectId :: string
  ap_firstName :: string
  ap_lastName :: string
  ap_dateOfBirth :: "string option"
  ap_countryCode :: string

record compliance_env =
  KYC_ENFORCEMENT_ENABLED :: "string option"
  AML_HIGH_RISK_COUNTRIES :: "string option"
  reporting_threshold :: "rat option"
  daily_tx_limit :: "rat option"
  COMPLYADVANTAGE_API_KEY :: "string option"
  provider :: "applicant \<Rightarrow> provider_response option"
  SAR_FILING_API_URL :: "string option"
  SAR_FILING_API_TOKEN :: "string option"
  sar_filing :: "string \<Rightarrow> string option option"
  alert_uuid :: string
  sar_uuid :: string
  ce_now :: int
  cq_fault :: "nat \<Rightarrow> db_error option"

type_synonym 'a compliance_result = "(thrown + 'a) \<times> compliance_state"

definition db_thrown :: "db_error \<Rightarrow> thrown" where
  "db_thrown er = Unexpected (db_code er) []"

text \<open>The \<open>k\<close>-th statement of a call.\<close>

definition statement :: "compliance_env \<Rightarrow> nat \<Rightarrow> compliance_state \<Rightarrow> compliance_state \<Rightarrow> thrown + compliance_state" where
  "statement env k before after = (case cq_fault env k of Some er \<Rightarrow> Inl (db_thrown er) | None \<Rightarrow> Inr after)"

definition appendAudit ::
  "compliance_env \<Rightarrow> nat \<Rightarrow> string \<Rightarrow> string \<Rightarrow> string \<Rightarrow> string list \<Rightarrow> string option \<Rightarrow> (string \<times> json) list \<Rightarrow>
    compliance_state \<Rightarrow> thrown + compliance_state" where
  "appendAudit env k subjectId eventType decision reasonCodes ref meta st =
     statement env k st (st\<lparr>caudit := caudit st @ [\<lparr>ca_subject = subjectId, ca_event_type = eventType, ca_decision = decision,
       ca_provider_reference = ref, ca_reason_codes = reasonCodes, ca_metadata = meta\<rparr>]\<rparr>)"

definition highRiskCountries :: "compliance_env \<Rightarrow> string set" where
  "highRiskCountries env =
     set (filter (\<lambda>c. c \<noteq> []) (map (\<lambda>c. toUpperCase (trim c))
       (split_on (CHR '','') (case AML_HIGH_RISK_COUNTRIES env of Some v \<Rightarrow> v | None \<Rightarrow> []))))"

subsection \<open>Screening\<close>

definition providerRequest :: "compliance_env \<Rightarrow> applicant \<Rightarrow> thrown + provider_response" where
  "providerRequest env input =
     (case truthy_text (COMPLYADVANTAGE_API_KEY env) of
        None \<Rightarrow> Inl (App (serviceUnavailable ''Compliance screening is unavailable'' None))
      | Some _ \<Rightarrow>
          (case provider env input of
             None \<Rightarrow> Inl (App (serviceUnavailable ''Compliance screening is unavailable'' None))
           | Some r \<Rightarrow> Inr r))"

definition response_data :: "provider_response \<Rightarrow> provider_data option" where
  "response_data r = (case pr_content_data r of Some d \<Rightarrow> Some d | None \<Rightarrow> pr_data r)"

definition first_some :: "'a option list \<Rightarrow> 'a option" where
  "first_some xs = (case filter (\<lambda>x. x \<noteq> None) xs of [] \<Rightarrow> None | x # _ \<Rightarrow> x)"

definition response_hits :: "provider_response \<Rightarrow> screening_hit list" where
  "response_hits r =
     (let d = response_data r in
      case first_some [Option.bind d pd_hits, Option.bind d pd_results, pr_results r] of Some hs \<Rightarrow> hs | None \<Rightarrow> [])"

definition types_of :: "screening_hit \<Rightarrow> string list" where
  "types_of h = (case hit_types h of Some ts \<Rightarrow> ts | None \<Rightarrow> [])"

definition hit_type_set :: "screening_hit list \<Rightarrow> string set" where
  "hit_type_set hits = set (map toLowerCase (concat (map types_of hits)))"

definition starts_with :: "string \<Rightarrow> string \<Rightarrow> bool" where
  "starts_with p s \<longleftrightarrow> take (length p) s = p"

record screening_result =
  sc_status :: string
  sc_sanctions :: bool
  sc_pep :: bool
  sc_adverseMedia :: bool
  sc_reference :: "string option"

definition confirmedSanctions :: "screening_hit list \<Rightarrow> bool" where
  "confirmedSanctions hits \<longleftrightarrow>
     list_ex (\<lambda>h. match_status h = Some ''true_positive'' \<and> (''sanction'' \<in> set (types_of h) \<or> ''warning'' \<in> set (types_of h))) hits"

definition screening_decision :: "provider_response \<Rightarrow> screening_result" where
  "screening_decision r =
     (let hits = response_hits r; types = hit_type_set hits;
          sanctions = (''sanction'' \<in> types \<or> ''warning'' \<in> types);
          pep = (\<exists>t\<in>types. t = ''pep'' \<or> starts_with ''pep-class'' t);
          adverseMedia = (\<exists>t\<in>types. starts_with ''adverse-media'' t)
      in \<lparr>sc_status = (if confirmedSanctions hits then ''rejected'' else if sanctions \<or> pep \<or> adverseMedia then ''review'' else ''approved''),
          sc_sanctions = sanctions, sc_pep = pep, sc_adverseMedia = adverseMedia,
          sc_reference = truthy_text (first_some [Option.bind (response_data r) pd_id, pr_id r])\<rparr>)"

definition screening_reasons :: "screening_result \<Rightarrow> string list" where
  "screening_reasons sc = (if sc_sanctions sc then [''SANCTIONS_MATCH''] else []) @ (if sc_pep sc then [''PEP_MATCH''] else [])
     @ (if sc_adverseMedia sc then [''ADVERSE_MEDIA_MATCH''] else [])"

definition screenApplicant :: "compliance_env \<Rightarrow> applicant \<Rightarrow> compliance_state \<Rightarrow> screening_result compliance_result" where
  "screenApplicant env input st =
     (case providerRequest env input of
        Inl e \<Rightarrow> (Inl e, st)
      | Inr r \<Rightarrow>
          (let sc = screening_decision r;
               row = \<lparr>cp_provider_reference = sc_reference sc, cp_profile_status = sc_status sc,
                      cp_country_code = toUpperCase (ap_countryCode input), cp_sanctions = sc_sanctions sc, cp_pep = sc_pep sc,
                      cp_adverse_media = sc_adverseMedia sc, cp_screened_at = ce_now env,
                      cp_next_screening_at = ce_now env + 30 * 86400000\<rparr>
           in case statement env 0 st (st\<lparr>profiles := (profiles st)(ap_subjectId input \<mapsto> row)\<rparr>) of
                Inl e \<Rightarrow> (Inl e, st)
              | Inr st1 \<Rightarrow>
                  (case appendAudit env 1 (ap_subjectId input) ''ONBOARDING_SCREENING'' (sc_status sc) (screening_reasons sc)
                     (sc_reference sc) [(''matchCount'', JInt (int (length (response_hits r))))] st1 of
                     Inl e \<Rightarrow> (Inl e, st1)
                   | Inr st2 \<Rightarrow> (Inr sc, st2))))"

subsection \<open>Monitoring\<close>

text \<open>The query over the sender's remittances of the last 24 hours: count, sum, and the number near the threshold.\<close>

definition recent :: "int \<Rightarrow> string \<Rightarrow> RemittanceRow list \<Rightarrow> RemittanceRow list" where
  "recent now subject rows = filter (\<lambda>r. rm_sender_id r = subject \<and> 1000 * (now - 86400000) \<le> rm_created_at r) rows"

definition exact_amount :: "RemittanceRow \<Rightarrow> rat" where
  "exact_amount r = of_int (rm_stroops r) / 10 ^ 7"

definition amount_sum :: "RemittanceRow list \<Rightarrow> rat" where
  "amount_sum rows = sum_list (map exact_amount rows)"

definition near_threshold :: "rat option \<Rightarrow> RemittanceRow \<Rightarrow> bool" where
  "near_threshold threshold r \<longleftrightarrow>
     (case threshold of None \<Rightarrow> False | Some t \<Rightarrow> t * (8 / 10) \<le> exact_amount r \<and> exact_amount r < t)"

definition at_least :: "rat \<Rightarrow> rat option \<Rightarrow> bool" where
  "at_least x bound \<longleftrightarrow> (case bound of None \<Rightarrow> False | Some b \<Rightarrow> dbl b \<le> x)"

definition structured :: "rat option \<Rightarrow> nat \<Rightarrow> rat \<Rightarrow> bool" where
  "structured threshold near amount \<longleftrightarrow>
     2 \<le> near \<and> (case threshold of None \<Rightarrow> False | Some t \<Rightarrow> dbl (dbl t * dbl (8 / 10)) \<le> amount \<and> amount < dbl t)"

text \<open>The rules, for an amount as a number.\<close>

definition monitoring_rules :: "compliance_env \<Rightarrow> string \<Rightarrow> RemittanceRow list \<Rightarrow> rat \<Rightarrow> string list" where
  "monitoring_rules env country history amount =
     (let threshold = reporting_threshold env
      in (if at_least (of_nat (length history)) (daily_tx_limit env) then [''VELOCITY_24H''] else [])
         @ (if at_least (dbl (dbl (amount_sum history) + amount)) threshold then [''AGGREGATE_THRESHOLD''] else [])
         @ (if at_least amount threshold then [''LARGE_TRANSACTION''] else [])
         @ (if structured threshold (length (filter (near_threshold threshold) history)) amount then [''STRUCTURING''] else [])
         @ (if toUpperCase country \<in> highRiskCountries env then [''HIGH_RISK_JURISDICTION''] else []))"

definition narrative :: "string list \<Rightarrow> string \<Rightarrow> string" where
  "narrative rules ref = ''Automated monitoring detected '' @ join_with '', '' rules @ '' for transaction '' @ ref
     @ ''. Compliance review required.''"

text \<open>
  \<open>submitSar\<close>: a failing filing is only logged. \<open>sar_filing\<close> answers with the reference of the filing, or
  \<open>None\<close> when the request fails.
\<close>

definition submitSar :: "compliance_env \<Rightarrow> nat \<Rightarrow> string \<Rightarrow> compliance_state \<Rightarrow> compliance_state" where
  "submitSar env k sarId st =
     (case (truthy_text (SAR_FILING_API_URL env), truthy_text (SAR_FILING_API_TOKEN env)) of
        (Some _, Some _) \<Rightarrow>
          (case sar_filing env sarId of
             None \<Rightarrow> st
           | Some ref \<Rightarrow>
               (case statement env k st (st\<lparr>sars := map (\<lambda>s. if sr_id s = sarId
                    then s\<lparr>sr_filing_status := ''submitted'', sr_provider_reference := ref, sr_filed_at := Some (ce_now env)\<rparr> else s) (sars st)\<rparr>) of
                  Inl _ \<Rightarrow> st
                | Inr st1 \<Rightarrow> st1))
      | _ \<Rightarrow> st)"

record monitoring =
  mo_allowed :: bool
  mo_ruleCodes :: "string list"
  mo_alert :: "(string \<times> string) option"

definition monitorTransaction ::
  "compliance_env \<Rightarrow> RemittanceRow list \<Rightarrow> string \<Rightarrow> rat \<Rightarrow> string \<Rightarrow> compliance_state \<Rightarrow> monitoring compliance_result" where
  "monitorTransaction env rows subjectId amount ref st =
     (if KYC_ENFORCEMENT_ENABLED env \<noteq> Some ''true'' then (Inr \<lparr>mo_allowed = True, mo_ruleCodes = [], mo_alert = None\<rparr>, st)
      else case cq_fault env 0 of
          Some er \<Rightarrow> (Inl (db_thrown er), st)
        | None \<Rightarrow>
            (case (case profiles st subjectId of Some pf \<Rightarrow> if cp_profile_status pf = ''approved'' then Some pf else None | None \<Rightarrow> None) of
               None \<Rightarrow>
                 (case appendAudit env 1 subjectId ''TRANSACTION_BLOCKED'' ''blocked'' [''KYC_NOT_APPROVED''] None [] st of
                    Inl e \<Rightarrow> (Inl e, st)
                  | Inr st1 \<Rightarrow> (Inr \<lparr>mo_allowed = False, mo_ruleCodes = [''KYC_NOT_APPROVED''], mo_alert = None\<rparr>, st1))
             | Some pf \<Rightarrow>
                 (case cq_fault env 2 of
                    Some er \<Rightarrow> (Inl (db_thrown er), st)
                  | None \<Rightarrow>
                      (let rules = monitoring_rules env (cp_country_code pf) (recent (ce_now env) subjectId rows) (dbl amount)
                       in if rules = [] then (Inr \<lparr>mo_allowed = True, mo_ruleCodes = [], mo_alert = None\<rparr>, st)
                          else
                            (let riskScore = min (int (length rules) * 25) 100;
                                 alert = \<lparr>al_id = alert_uuid env, al_subject = subjectId, al_reference = ref, al_risk_score = riskScore, al_rule_codes = rules\<rparr>;
                                 sar = \<lparr>sr_id = sar_uuid env, sr_alert = alert_uuid env, sr_subject = subjectId, sr_narrative = narrative rules ref,
                                        sr_filing_status = ''pending_submission'', sr_provider_reference = None, sr_filed_at = None\<rparr>
                             in case statement env 3 st (st\<lparr>alerts := alerts st @ [alert]\<rparr>) of
                                  Inl e \<Rightarrow> (Inl e, st)
                                | Inr st1 \<Rightarrow>
                                    (case statement env 4 st1 (st1\<lparr>sars := sars st1 @ [sar]\<rparr>) of
                                       Inl e \<Rightarrow> (Inl e, st1)
                                     | Inr st2 \<Rightarrow>
                                         (case appendAudit env 5 subjectId ''TRANSACTION_MONITORING'' ''blocked'' rules None
                                            [(''alertId'', JStr (alert_uuid env)), (''sarId'', JStr (sar_uuid env)), (''riskScore'', JInt riskScore)] st2 of
                                            Inl e \<Rightarrow> (Inl e, st2)
                                          | Inr st3 \<Rightarrow>
                                              (Inr \<lparr>mo_allowed = False, mo_ruleCodes = rules, mo_alert = Some (alert_uuid env, sar_uuid env)\<rparr>,
                                               submitSar env 6 (sar_uuid env) st3))))))))"

subsection \<open>Records only grow\<close>

definition logs_grow :: "compliance_state \<Rightarrow> compliance_state \<Rightarrow> bool" where
  "logs_grow st st' \<longleftrightarrow> (\<exists>a. caudit st' = caudit st @ a) \<and> (\<exists>a. alerts st' = alerts st @ a)"

lemma logs_grow_refl [simp]: "logs_grow st st"
  by (simp add: logs_grow_def)

lemma submitSar_frame [simp]:
  "caudit (submitSar env k i st) = caudit st" "alerts (submitSar env k i st) = alerts st" "profiles (submitSar env k i st) = profiles st"
  by (simp_all add: submitSar_def statement_def split: option.splits)

lemma submitSar_alert_list: "map sr_alert (sars (submitSar env k i st)) = map sr_alert (sars st)"
  by (simp add: submitSar_def statement_def comp_def if_distrib cong: if_cong split: option.splits)

lemma submitSar_alerts [simp]: "sr_alert ` set (sars (submitSar env k i st)) = sr_alert ` set (sars st)"
  using arg_cong [OF submitSar_alert_list, of set] by simp

subsection \<open>When a remittance passes\<close>

definition cleared :: "compliance_env \<Rightarrow> RemittanceRow list \<Rightarrow> string \<Rightarrow> rat \<Rightarrow> compliance_state \<Rightarrow> bool" where
  "cleared env rows subject amount st \<longleftrightarrow>
     (\<exists>pf. profiles st subject = Some pf \<and> cp_profile_status pf = ''approved''
       \<and> monitoring_rules env (cp_country_code pf) (recent (ce_now env) subject rows) (dbl amount) = [])"

definition last_entry :: "compliance_state \<Rightarrow> compliance_state \<Rightarrow> compliance_audit \<Rightarrow> bool" where
  "last_entry st st' entry \<longleftrightarrow> caudit st' = caudit st @ [entry]"

lemma statement_Inr: "statement env k st st' = Inr st2 \<longleftrightarrow> cq_fault env k = None \<and> st2 = st'"
  by (auto simp: statement_def split: option.splits)

lemma monitor_outcome:
  assumes "monitorTransaction env rows subject amount ref st = (Inr m, st')" "KYC_ENFORCEMENT_ENABLED env = Some ''true''"
  shows "(mo_allowed m \<longleftrightarrow> cleared env rows subject amount st) \<and> (mo_allowed m \<longrightarrow> st' = st)
    \<and> (\<not> mo_allowed m \<longrightarrow> (\<exists>entry. last_entry st st' entry \<and> ca_subject entry = subject \<and> ca_decision entry = ''blocked''
          \<and> ca_reason_codes entry = mo_ruleCodes m))"
  using assms
  by (auto simp: monitorTransaction_def cleared_def last_entry_def appendAudit_def statement_Inr Let_def
      split: option.splits if_splits sum.splits)

text \<open>
  With enforcement on, a completed check lets a remittance pass exactly when its sender's profile is
  approved and no monitoring rule applies, and then leaves no trace; a refusal appends exactly one entry
  to the audit log, for the sender, with the codes that were answered.
\<close>

theorem monitoring_passes_iff_cleared:
  assumes "monitorTransaction env rows subject amount ref st = (Inr m, st')" "KYC_ENFORCEMENT_ENABLED env = Some ''true''"
  shows "(mo_allowed m \<longleftrightarrow> cleared env rows subject amount st) \<and> (mo_allowed m \<longrightarrow> st' = st)
    \<and> (\<not> mo_allowed m \<longrightarrow> (\<exists>entry. last_entry st st' entry \<and> ca_subject entry = subject \<and> ca_decision entry = ''blocked''
          \<and> ca_reason_codes entry = mo_ruleCodes m))"
  by (rule monitor_outcome [OF assms])

definition demo_cenv :: compliance_env where
  "demo_cenv = \<lparr>KYC_ENFORCEMENT_ENABLED = Some ''true'', AML_HIGH_RISK_COUNTRIES = None, reporting_threshold = Some 10000,
     daily_tx_limit = Some 10, COMPLYADVANTAGE_API_KEY = None, provider = (\<lambda>_. None), SAR_FILING_API_URL = None,
     SAR_FILING_API_TOKEN = None, sar_filing = (\<lambda>_. None), alert_uuid = ''a1'', sar_uuid = ''s1'', ce_now = 0, cq_fault = (\<lambda>_. None)\<rparr>"

definition no_profiles :: compliance_state where
  "no_profiles = \<lparr>profiles = Map.empty, caudit = [], alerts = [], sars = []\<rparr>"

theorem monitoring_passes_iff_cleared_witness:
  "\<exists>entry. last_entry no_profiles (snd (monitorTransaction demo_cenv [] ''GA'' 5 ''r1'' no_profiles)) entry
     \<and> ca_reason_codes entry = [''KYC_NOT_APPROVED'']"
proof -
  have r: "monitorTransaction demo_cenv [] ''GA'' 5 ''r1'' no_profiles =
    (Inr \<lparr>mo_allowed = False, mo_ruleCodes = [''KYC_NOT_APPROVED''], mo_alert = None\<rparr>,
     no_profiles\<lparr>caudit := [\<lparr>ca_subject = ''GA'', ca_event_type = ''TRANSACTION_BLOCKED'', ca_decision = ''blocked'',
       ca_provider_reference = None, ca_reason_codes = [''KYC_NOT_APPROVED''], ca_metadata = []\<rparr>]\<rparr>)"
    by (simp add: monitorTransaction_def demo_cenv_def no_profiles_def appendAudit_def statement_def)
  have "KYC_ENFORCEMENT_ENABLED demo_cenv = Some ''true''" by (simp add: demo_cenv_def)
  from monitoring_passes_iff_cleared [OF r this] show ?thesis unfolding r by auto
qed

text \<open>
  Whatever statement fails and whatever the outcome, the audit log and the alerts only grow, an alert is
  never written after its report, and every report belongs to a recorded alert.
\<close>

theorem monitoring_records_grow:
  assumes "sr_alert ` set (sars st) \<subseteq> al_id ` set (alerts st)"
  shows "logs_grow st (snd (monitorTransaction env rows subject amount ref st))
    \<and> sr_alert ` set (sars (snd (monitorTransaction env rows subject amount ref st)))
        \<subseteq> al_id ` set (alerts (snd (monitorTransaction env rows subject amount ref st)))"
proof -
  have more: "sr_alert ` set (sars st) \<subseteq> insert x (al_id ` set (alerts st))" for x using assms by blast
  show ?thesis
    using assms more
    by (simp add: monitorTransaction_def logs_grow_def appendAudit_def statement_def Let_def split: option.splits)
qed

theorem monitoring_records_grow_witness:
  "logs_grow no_profiles (snd (monitorTransaction demo_cenv [] ''GA'' 5 ''r1'' no_profiles))"
  using monitoring_records_grow [of no_profiles] by (simp add: no_profiles_def)

subsection \<open>The rule against structuring\<close>

lemma amount_sum_ge:
  assumes "\<forall>r\<in>set rows. 0 \<le> rm_stroops r" "0 \<le> b"
  shows "of_nat (length (filter (\<lambda>r. b \<le> exact_amount r) rows)) * b \<le> amount_sum rows"
  using assms(1)
proof (induction rows)
  case (Cons r rows)
  have "0 \<le> exact_amount r" using Cons.prems by (simp add: exact_amount_def)
  then show ?case using Cons assms(2) by (auto simp: amount_sum_def algebra_simps)
qed (simp add: amount_sum_def)

lemma near_sum:
  assumes "\<forall>r\<in>set rows. 0 \<le> rm_stroops r" "2 \<le> length (filter (near_threshold (Some t)) rows)" "0 \<le> t"
  shows "t \<le> amount_sum rows"
proof -
  let ?P = "\<lambda>r. t * (8 / 10) \<le> exact_amount r"
  have "length (filter (near_threshold (Some t)) rows) \<le> length (filter ?P rows)"
    by (induction rows) (auto simp: near_threshold_def)
  then have "(2 :: rat) \<le> of_nat (length (filter ?P rows))" using assms(2) by simp
  then have "2 * (t * (8 / 10)) \<le> of_nat (length (filter ?P rows)) * (t * (8 / 10))"
    using assms(3) by (intro mult_right_mono) auto
  also have "\<dots> \<le> amount_sum rows" using amount_sum_ge [OF assms(1), of "t * (8 / 10)"] assms(3) by simp
  finally show ?thesis using assms(3) by simp
qed

text \<open>
  Where the rule against structuring applies, the aggregate of the day has reached the threshold already:
  the rule never blocks a remittance that would otherwise pass, and only adds a code.
\<close>

theorem structuring_never_decides:
  assumes "''STRUCTURING'' \<in> set (monitoring_rules env country history amount)"
    and "\<forall>r\<in>set history. 0 \<le> rm_stroops r" "0 \<le> amount"
  shows "''AGGREGATE_THRESHOLD'' \<in> set (monitoring_rules env country history amount)"
proof -
  have s: "structured (reporting_threshold env) (length (filter (near_threshold (reporting_threshold env)) history)) amount"
    using assms(1) by (auto simp: monitoring_rules_def Let_def split: if_splits)
  then obtain t where t: "reporting_threshold env = Some t" "2 \<le> length (filter (near_threshold (Some t)) history)" "amount < dbl t"
    by (auto simp: structured_def split: option.splits)
  have "0 \<le> t"
  proof (rule ccontr)
    assume "\<not> 0 \<le> t"
    then have "dbl t \<le> dbl 0" by (intro dbl_mono) simp
    then show False using t(3) assms(3) by simp
  qed
  then have "dbl t \<le> dbl (amount_sum history)" by (intro dbl_mono near_sum [OF assms(2) t(2)])
  then have "dbl (dbl t) \<le> dbl (dbl (amount_sum history) + amount)" using assms(3) by (intro dbl_mono) linarith
  then show ?thesis by (simp add: monitoring_rules_def at_least_def t(1) Let_def)
qed

definition demo_row :: "int \<Rightarrow> RemittanceRow" where
  "demo_row n = \<lparr>rm_id = ''r'', rm_sender_id = ''GA'', rm_recipient_address = ''GB'', rm_stroops = n, rm_from_currency = ''USDC'',
     rm_to_currency = ''PHP'', rm_memo = None, rm_status = Pending, rm_transaction_hash = None, rm_error_message = None, rm_xdr = [],
     rm_created_at = 0, rm_updated_at = 0, rm_seq = 1\<rparr>"

theorem structuring_never_decides_witness:
  "''AGGREGATE_THRESHOLD'' \<in> set (monitoring_rules demo_cenv ''PH'' [demo_row 90000000000, demo_row 90000000000] 9000)"
proof (rule structuring_never_decides)
  have "dbl (10000 * dbl (8 / 10)) \<le> dbl 9000"
  proof (rule dbl_mono)
    have "dbl (8 / 10) - 8 / 10 \<le> 8 / 10 / 2 ^ 53"
      by (rule order_trans [OF abs_ge_self]) (use dbl_error [of "8 / 10"] in simp)
    then show "10000 * dbl (8 / 10) \<le> 9000" by simp
  qed
  then have "structured (Some 10000) 2 9000" by (simp add: structured_def)
  then show "''STRUCTURING'' \<in> set (monitoring_rules demo_cenv ''PH'' [demo_row 90000000000, demo_row 90000000000] 9000)"
    by (simp add: monitoring_rules_def demo_cenv_def near_threshold_def exact_amount_def demo_row_def Let_def numeral_2_eq_2)
qed (simp_all add: demo_row_def)

subsection \<open>Screening decisions\<close>

lemma screening_status:
  "sc_status (screening_decision r) = ''rejected'' \<longleftrightarrow> confirmedSanctions (response_hits r)"
  "sc_status (screening_decision r) = ''approved'' \<longrightarrow>
     \<not> sc_sanctions (screening_decision r) \<and> \<not> sc_pep (screening_decision r) \<and> \<not> sc_adverseMedia (screening_decision r)"
  by (simp_all add: screening_decision_def Let_def)

text \<open>
  Screening rejects exactly on a confirmed match, approves exactly when no hit has a sanction, warning,
  political or adverse-media type, and otherwise asks for a review; what is stored is what is answered.
\<close>

theorem screening_stores_its_decision:
  assumes "screenApplicant env input st = (Inr sc, st')"
  shows "\<exists>r. provider env input = Some r \<and> sc = screening_decision r
    \<and> (sc_status sc = ''rejected'' \<longleftrightarrow> confirmedSanctions (response_hits r))
    \<and> (sc_status sc = ''approved'' \<longrightarrow> \<not> sc_sanctions sc \<and> \<not> sc_pep sc \<and> \<not> sc_adverseMedia sc)
    \<and> (\<exists>pf. profiles st' (ap_subjectId input) = Some pf \<and> cp_profile_status pf = sc_status sc
         \<and> cp_next_screening_at pf = ce_now env + 2592000000)
    \<and> (\<exists>entry. last_entry st st' entry \<and> ca_decision entry = sc_status sc \<and> ca_reason_codes entry = screening_reasons sc)"
proof -
  from assms obtain r where r: "provider env input = Some r" "sc = screening_decision r"
    by (auto simp: screenApplicant_def providerRequest_def Let_def split: option.splits sum.splits)
  from assms r(1) have st': "\<exists>pf. profiles st' (ap_subjectId input) = Some pf \<and> cp_profile_status pf = sc_status (screening_decision r)
         \<and> cp_next_screening_at pf = ce_now env + 2592000000"
      "\<exists>entry. last_entry st st' entry \<and> ca_decision entry = sc_status (screening_decision r)
         \<and> ca_reason_codes entry = screening_reasons (screening_decision r)"
    by (auto simp: screenApplicant_def providerRequest_def last_entry_def appendAudit_def statement_Inr Let_def
        split: option.splits sum.splits)
  then show ?thesis using r screening_status [of r] by blast
qed

definition demo_hit :: "string \<Rightarrow> provider_response" where
  "demo_hit t = \<lparr>pr_content_data = None, pr_data = None, pr_id = None,
     pr_results = Some [\<lparr>hit_types = Some [t], match_status = Some ''true_positive''\<rparr>]\<rparr>"

definition demo_applicant :: applicant where
  "demo_applicant = \<lparr>ap_subjectId = ''GA'', ap_firstName = ''A'', ap_lastName = ''B'', ap_dateOfBirth = None, ap_countryCode = ''ph''\<rparr>"

theorem screening_stores_its_decision_witness:
  "\<exists>pf. profiles (snd (screenApplicant (demo_cenv\<lparr>COMPLYADVANTAGE_API_KEY := Some ''k'', provider := (\<lambda>_. Some (demo_hit ''sanction''))\<rparr>)
      demo_applicant no_profiles)) ''GA'' = Some pf \<and> cp_profile_status pf = ''rejected''"
proof -
  let ?env = "demo_cenv\<lparr>COMPLYADVANTAGE_API_KEY := Some ''k'', provider := (\<lambda>_. Some (demo_hit ''sanction''))\<rparr>"
  obtain st' where r: "screenApplicant ?env demo_applicant no_profiles = (Inr (screening_decision (demo_hit ''sanction'')), st')"
    by (simp add: screenApplicant_def providerRequest_def demo_cenv_def truthy_text_def statement_def appendAudit_def Let_def)
  have "confirmedSanctions (response_hits (demo_hit ''sanction''))"
    by (simp add: confirmedSanctions_def response_hits_def demo_hit_def first_some_def types_of_def response_data_def)
  then show ?thesis
    using screening_stores_its_decision [OF r] unfolding r by (auto simp: demo_applicant_def demo_cenv_def)
qed

text \<open>
  Types are compared in lower case for the flags but as they are for a confirmed match: a confirmed hit
  of type \<open>Sanction\<close> raises the sanctions flag and is still only sent to review.
\<close>

theorem capital_sanction_only_reviewed:
  "sc_sanctions (screening_decision (demo_hit ''Sanction'')) \<and> sc_status (screening_decision (demo_hit ''Sanction'')) = ''review''"
  by (simp add: screening_decision_def response_hits_def demo_hit_def first_some_def types_of_def response_data_def hit_type_set_def
      toLowerCase_def confirmedSanctions_def Let_def char_of_def bit_0)

end
