(* ===== verification/Remittances.thy ===== *)
theory Remittances
  imports Compliance Interfaces
begin

section \<open>Remittances (\<open>backend/src/services/remittanceService.ts\<close>, \<open>controllers/remittanceController.ts\<close>)\<close>

text \<open>
  Creation of a remittance with its unsigned transaction, the checks on a signed one, and its
  submission. The Stellar SDK and the RPC server are parameters (\<open>stellar\<close>); submission to the network
  has one of the outcomes of \<open>sorobanService.submitSignedTx\<close>. Requests are interleaved at their awaited
  calls by a step relation. Shown: a signed transaction is accepted exactly when it pays what the
  remittance says, to the unit; a remittance is submitted at most once however many requests race;
  a settled remittance never changes; what is completed was confirmed.
\<close>

subsection \<open>The Stellar SDK\<close>

datatype asset = Native | Issued string string

datatype operation = Payment "string option" string int asset | OtherOperation

record transaction =
  tx_source :: string
  tx_operations :: "operation list"

datatype envelope = PlainTx transaction | FeeBump transaction

text \<open>
  \<open>new Asset\<close> accepts a code and an issuer or throws; \<open>getAccount\<close> loads an account or throws;
  \<open>build_payment\<close> builds one payment of a decimal amount from an account or throws; \<open>fromXDR\<close> reads an
  envelope or throws. Payment amounts are in units of seven decimals.
\<close>

record stellar =
  new_asset :: "string \<Rightarrow> string \<Rightarrow> bool"
  getAccount :: "string \<Rightarrow> string option"
  build_payment :: "string \<Rightarrow> string \<Rightarrow> string \<Rightarrow> asset \<Rightarrow> rat \<Rightarrow> string option"
  fromXDR :: "string \<Rightarrow> string \<Rightarrow> envelope option"

record rem_env =
  rn_sdk :: stellar
  rn_compliance :: compliance_env
  STELLAR_USDC_ISSUER :: "string option"
  STELLAR_EURC_ISSUER :: "string option"
  STELLAR_PHP_ISSUER :: "string option"
  network_passphrase :: string
  rn_uuid :: string
  rn_now :: int
  rn_read_fault :: "db_error option"
  rn_write_fault :: "db_error option"
  rn_notify_fault :: "thrown option"

record rem_state =
  rem_rows :: "RemittanceRow list"
  rem_next_seq :: int
  rem_compliance :: compliance_state

record create_payload =
  cr_recipientAddress :: string
  cr_amount :: rat
  cr_fromCurrency :: string
  cr_toCurrency :: string
  cr_memo :: "string option"
  cr_senderAddress :: string

subsection \<open>Checks\<close>

definition base32_char :: "char \<Rightarrow> bool" where
  "base32_char c \<longleftrightarrow> (let n = (of_char c :: nat) in (65 \<le> n \<and> n \<le> 90) \<or> (50 \<le> n \<and> n \<le> 55))"

definition isValidStellarAddress :: "string \<Rightarrow> bool" where
  "isValidStellarAddress address \<longleftrightarrow>
     address \<noteq> [] \<and> length address = 56 \<and> hd address = CHR ''G'' \<and> list_all base32_char (tl address)"

definition normalizeCurrency :: "string \<Rightarrow> string" where
  "normalizeCurrency currency = toUpperCase (trim currency)"

definition tokenIssuer :: "rem_env \<Rightarrow> string \<Rightarrow> string option" where
  "tokenIssuer env code =
     truthy_text (if code = ''USDC'' then STELLAR_USDC_ISSUER env
       else if code = ''EURC'' then STELLAR_EURC_ISSUER env
       else if code = ''PHP'' then STELLAR_PHP_ISSUER env else None)"

definition getCurrencyAsset :: "rem_env \<Rightarrow> string \<Rightarrow> thrown + asset" where
  "getCurrencyAsset env currency =
     (let normalized = normalizeCurrency currency in
      if normalized = ''XLM'' then Inr Native
      else case tokenIssuer env normalized of
          None \<Rightarrow> Inl (App (badRequest (''Unsupported currency: '' @ currency) None None))
        | Some issuer \<Rightarrow>
            if \<not> isValidStellarAddress issuer
            then Inl (App (badRequest (''Unsupported currency: '' @ currency @ '' (issuer is not configured correctly)'') None None))
            else if new_asset (rn_sdk env) normalized issuer then Inr (Issued normalized issuer)
            else Inl (Unexpected ''Issuer is invalid'' []))"

definition passphrase :: "rem_env \<Rightarrow> string" where
  "passphrase env = (if network_passphrase env = [] then ''Test SDF Network ; September 2015'' else network_passphrase env)"

subsection \<open>Creation\<close>

text \<open>A decimal as the column \<open>numeric(20,7)\<close> keeps it: rounded half away from zero.\<close>

definition column_units :: "rat \<Rightarrow> int" where
  "column_units a = (if a < 0 then - \<lfloor>- a * 10 ^ 7 + 1 / 2\<rfloor> else \<lfloor>a * 10 ^ 7 + 1 / 2\<rfloor>)"

definition insert_remittance :: "rem_env \<Rightarrow> create_payload \<Rightarrow> string \<Rightarrow> rem_state \<Rightarrow> db_error + RemittanceRow" where
  "insert_remittance env p xdr st =
     (let row = \<lparr>rm_id = rn_uuid env, rm_sender_id = cr_senderAddress p, rm_recipient_address = cr_recipientAddress p,
                rm_stroops = column_units (cr_amount p), rm_from_currency = normalizeCurrency (cr_fromCurrency p),
                rm_to_currency = normalizeCurrency (cr_toCurrency p), rm_memo = truthy_text (cr_memo p), rm_status = Pending,
                rm_transaction_hash = None, rm_error_message = None, rm_xdr = xdr,
                rm_created_at = 1000 * rn_now env, rm_updated_at = 1000 * rn_now env, rm_seq = rem_next_seq st\<rparr>
      in case rn_write_fault env of
           Some er \<Rightarrow> Inl er
         | None \<Rightarrow>
             if 10 ^ 20 \<le> \<bar>rm_stroops row\<bar> then Inl (DbError ''22003'')
             else if 10 < length (rm_from_currency row) \<or> 10 < length (rm_to_currency row)
                 \<or> (case rm_memo row of Some m \<Rightarrow> 28 < length m | None \<Rightarrow> False) then Inl (DbError ''22001'')
             else if rm_id row \<in> rm_id ` set (rem_rows st) then Inl (DbError ''23505'')
             else Inr row)"

definition createRemittance :: "rem_env \<Rightarrow> create_payload \<Rightarrow> rem_state \<Rightarrow> (thrown + Remittance) \<times> rem_state" where
  "createRemittance env p st =
     (if \<not> isValidStellarAddress (cr_recipientAddress p)
      then (Inl (App (badRequest ''Invalid Stellar recipient address (must be 56 chars, start with G)'' None None)), st)
      else if \<not> isValidStellarAddress (cr_senderAddress p)
      then (Inl (App (badRequest ''Invalid Stellar sender address (must be 56 chars, start with G)'' None None)), st)
      else case getCurrencyAsset env (cr_fromCurrency p) of
          Inl e \<Rightarrow> (Inl e, st)
        | Inr paymentAsset \<Rightarrow>
            (case monitorTransaction (rn_compliance env) (rem_rows st) (cr_senderAddress p) (cr_amount p) (rn_uuid env) (rem_compliance st) of
               (Inl e, cs) \<Rightarrow> (Inl e, st\<lparr>rem_compliance := cs\<rparr>)
             | (Inr monitoring, cs) \<Rightarrow>
                 (let st1 = st\<lparr>rem_compliance := cs\<rparr>; failure = Inl (App (internal ''Failed to create remittance'' None)) in
                  if \<not> mo_allowed monitoring then (Inl (App (forbidden ''Transaction requires compliance review'' None)), st1)
                  else case getAccount (rn_sdk env) (cr_senderAddress p) of
                      None \<Rightarrow> (failure, st1)
                    | Some sourceAccount \<Rightarrow>
                        (case build_payment (rn_sdk env) sourceAccount (passphrase env) (cr_recipientAddress p) paymentAsset (cr_amount p) of
                           None \<Rightarrow> (failure, st1)
                         | Some xdr \<Rightarrow>
                             (case insert_remittance env p xdr st1 of
                                Inl er \<Rightarrow> (failure, st1\<lparr>rem_next_seq := rem_next_seq st1 + 1\<rparr>)
                              | Inr row \<Rightarrow>
                                  (Inr (toRemittance row), st1\<lparr>rem_rows := rem_rows st1 @ [row], rem_next_seq := rem_next_seq st1 + 1\<rparr>))))))"

subsection \<open>Reading and updating\<close>

definition find_remittance :: "string \<Rightarrow> rem_state \<Rightarrow> RemittanceRow option" where
  "find_remittance i st = find (\<lambda>r. rm_id r = i) (rem_rows st)"

definition getRemittanceById :: "rem_env \<Rightarrow> string \<Rightarrow> rem_state \<Rightarrow> thrown + Remittance" where
  "getRemittanceById env i st =
     (case rn_read_fault env of
        Some er \<Rightarrow> Inl (App (internal ''Failed to fetch remittance'' None))
      | None \<Rightarrow>
          (case find_remittance i st of
             None \<Rightarrow> Inl (App (notFound ''Remittance not found'' None None))
           | Some r \<Rightarrow> Inr (toRemittance r)))"

definition set_status ::
  "rem_env \<Rightarrow> RemittanceStatus \<Rightarrow> string option \<Rightarrow> string option \<Rightarrow> RemittanceRow \<Rightarrow> RemittanceRow" where
  "set_status env s h err r =
     r\<lparr>rm_status := s, rm_transaction_hash := (case truthy_text h of Some x \<Rightarrow> Some x | None \<Rightarrow> rm_transaction_hash r),
       rm_error_message := truthy_text err, rm_updated_at := 1000 * rn_now env\<rparr>"

definition updateRemittanceStatus ::
  "rem_env \<Rightarrow> string \<Rightarrow> RemittanceStatus \<Rightarrow> string option \<Rightarrow> string option \<Rightarrow> RemittanceStatus list option \<Rightarrow>
    rem_state \<Rightarrow> (thrown + Remittance) \<times> rem_state" where
  "updateRemittanceStatus env i s h err expected st =
     (let applies = (\<lambda>r. rm_id r = i \<and> (case expected of None \<Rightarrow> True | Some ss \<Rightarrow> rm_status r \<in> set ss)) in
      case rn_write_fault env of
        Some er \<Rightarrow> (Inl (App (internal ''Failed to update remittance'' None)), st)
      | None \<Rightarrow>
          (case find applies (rem_rows st) of
             Some r \<Rightarrow>
               (Inr (toRemittance (set_status env s h err r)),
                st\<lparr>rem_rows := map (\<lambda>r. if applies r then set_status env s h err r else r) (rem_rows st)\<rparr>)
           | None \<Rightarrow>
               (case (expected, find_remittance i st) of
                  (Some _, Some r) \<Rightarrow>
                    (Inl (App (AppErrors.conflict (''Remittance is '' @ status_text (rm_status r) @ ''; cannot transition to '' @ status_text s) None)), st)
                | _ \<Rightarrow> (Inl (App (notFound ''Remittance not found'' None None)), st))))"

definition mismatch :: "string \<Rightarrow> thrown" where
  "mismatch detail = App (badRequest (''signedXdr does not match remittance: '' @ detail) None (Some ''signedXdr''))"

definition inner_transaction :: "envelope \<Rightarrow> transaction" where
  "inner_transaction e = (case e of PlainTx t \<Rightarrow> t | FeeBump t \<Rightarrow> t)"

definition validateSignedXdr :: "rem_env \<Rightarrow> Remittance \<Rightarrow> string \<Rightarrow> thrown + unit" where
  "validateSignedXdr env r signedXdr =
     (case fromXDR (rn_sdk env) signedXdr (passphrase env) of
        None \<Rightarrow> Inl (App (badRequest ''signedXdr is not a valid transaction envelope'' None (Some ''signedXdr'')))
      | Some e \<Rightarrow>
          (case tx_operations (inner_transaction e) of
             [Payment op_source destination units asset] \<Rightarrow>
               (let source = (case op_source of Some s \<Rightarrow> s | None \<Rightarrow> tx_source (inner_transaction e)) in
                if source \<noteq> re_senderId r then Inl (mismatch ''source account'')
                else if destination \<noteq> re_recipientAddress r then Inl (mismatch ''destination'')
                else if toFixed 7 (column_number units) \<noteq> toFixed 7 (re_amount r) then Inl (mismatch ''amount'')
                else case getCurrencyAsset env (re_fromCurrency r) of
                    Inl er \<Rightarrow> Inl er
                  | Inr a \<Rightarrow> if asset \<noteq> a then Inl (mismatch ''asset'') else Inr ())
           | _ \<Rightarrow> Inl (mismatch ''expected exactly one payment operation'')))"

subsection \<open>Submission\<close>

record submit_request =
  su_id :: string
  su_signedXdr :: string
  su_sender :: "string option"

text \<open>
  The outcomes of a submission: confirmed with its hash, thrown while the transaction may still land
  (\<open>NOT_FOUND\<close>), or thrown otherwise.
\<close>

datatype submit_outcome = Confirmed string | Unconfirmed thrown | SubmitError thrown

fun thrown_message :: "thrown \<Rightarrow> string" where
  "thrown_message (App err) = ae_message err"
| "thrown_message (Unexpected m _) = m"
| "thrown_message (ZodError _) = ''Validation failed''"
| "thrown_message TooLarge = ''request entity too large''"

text \<open>Up to the claim: validation, authorisation and the checks on the signed transaction.\<close>

definition submit_check :: "rem_env \<Rightarrow> submit_request \<Rightarrow> rem_state \<Rightarrow> thrown + Remittance" where
  "submit_check env req st =
     (if su_id req = [] \<or> su_signedXdr req = [] then Inl (ZodError [])
      else case truthy_text (su_sender req) of
          None \<Rightarrow> Inl (App (unauthorized ''Wallet address not found in request'' None))
        | Some senderAddress \<Rightarrow>
            (case getRemittanceById env (su_id req) st of
               Inl e \<Rightarrow> Inl e
             | Inr r \<Rightarrow>
                 if re_senderId r \<noteq> senderAddress then Inl (App (forbidden ''You do not have access to this remittance'' None))
                 else if re_status r \<noteq> Pending then Inl (App (badRequest ''Remittance has already been submitted'' None None))
                 else case validateSignedXdr env r (su_signedXdr req) of
                     Inl e \<Rightarrow> Inl e
                   | Inr _ \<Rightarrow> Inr r))"

definition submit_claim :: "rem_env \<Rightarrow> submit_request \<Rightarrow> rem_state \<Rightarrow> (thrown + Remittance) \<times> rem_state" where
  "submit_claim env req st = updateRemittanceStatus env (su_id req) Processing None None (Some [Pending]) st"

record submit_response =
  sp_id :: string
  sp_status :: RemittanceStatus
  sp_txHash :: string

fun submit_finish :: "rem_env \<Rightarrow> submit_request \<Rightarrow> submit_outcome \<Rightarrow> rem_state \<Rightarrow> (thrown + submit_response) \<times> rem_state" where
  "submit_finish env req (Unconfirmed err) st = (Inl err, st)"
| "submit_finish env req (SubmitError err) st =
     (case updateRemittanceStatus env (su_id req) Failed None (Some (thrown_message err)) (Some [Processing]) st of
        (Inl e, st1) \<Rightarrow> (Inl e, st1)
      | (Inr _, st1) \<Rightarrow> (Inl err, st1))"
| "submit_finish env req (Confirmed txHash) st =
     (case updateRemittanceStatus env (su_id req) Completed (Some txHash) None (Some [Processing]) st of
        (Inl e, st1) \<Rightarrow> (Inl e, st1)
      | (Inr completed, st1) \<Rightarrow>
          (case rn_notify_fault env of
             Some e \<Rightarrow> (Inl e, st1)
           | None \<Rightarrow> (Inr \<lparr>sp_id = su_id req, sp_status = re_status completed, sp_txHash = txHash\<rparr>, st1)))"

text \<open>The handler on its own, with the submissions it makes.\<close>

definition submitRemittanceTransaction ::
  "rem_env \<Rightarrow> (string \<Rightarrow> submit_outcome) \<Rightarrow> submit_request \<Rightarrow> rem_state \<Rightarrow> (thrown + submit_response) \<times> rem_state \<times> string list" where
  "submitRemittanceTransaction env network req st =
     (case submit_check env req st of
        Inl e \<Rightarrow> (Inl e, st, [])
      | Inr r \<Rightarrow>
          (case submit_claim env req st of
             (Inl e, st1) \<Rightarrow> (Inl e, st1, [])
           | (Inr _, st1) \<Rightarrow>
               (case submit_finish env req (network (su_signedXdr req)) st1 of (res, st2) \<Rightarrow> (res, st2, [su_signedXdr req]))))"

subsection \<open>Interleaving\<close>

datatype phase = Arrived | Checked | Claimed | Answered submit_outcome | Finished "thrown + submit_response"

text \<open>
  \<open>rsys_sent\<close> lists the submissions with their outcomes, \<open>rsys_wire\<close> the transactions the network was handed, and
  \<open>rsys_checkedWith\<close> the configuration and SDK each request was checked with.
\<close>

record rem_sys =
  rsys_db :: rem_state
  rsys_reqs :: "nat \<rightharpoonup> submit_request \<times> phase"
  rsys_sent :: "(nat \<times> string \<times> submit_outcome) list"
  rsys_wire :: "(nat \<times> string) list"
  rsys_checkedWith :: "nat \<rightharpoonup> rem_env"

inductive rem_step :: "rem_sys \<Rightarrow> rem_sys \<Rightarrow> bool" where
  step_create: "rem_step sys (sys\<lparr>rsys_db := snd (createRemittance env p (rsys_db sys))\<rparr>)"
| step_arrive: "rsys_reqs sys n = None \<Longrightarrow> rem_step sys (sys\<lparr>rsys_reqs := (rsys_reqs sys)(n \<mapsto> (req, Arrived))\<rparr>)"
| step_check: "rsys_reqs sys n = Some (req, Arrived) \<Longrightarrow>
    rem_step sys (sys\<lparr>rsys_reqs := (rsys_reqs sys)(n \<mapsto>
      (req, case submit_check env req (rsys_db sys) of Inl e \<Rightarrow> Finished (Inl e) | Inr _ \<Rightarrow> Checked)),
      rsys_checkedWith := (rsys_checkedWith sys)(n \<mapsto> env)\<rparr>)"
| step_claim: "rsys_reqs sys n = Some (req, Checked) \<Longrightarrow> submit_claim env req (rsys_db sys) = (res, db) \<Longrightarrow>
    rem_step sys (sys\<lparr>rsys_db := db, rsys_reqs := (rsys_reqs sys)(n \<mapsto>
      (req, case res of Inl e \<Rightarrow> Finished (Inl e) | Inr _ \<Rightarrow> Claimed))\<rparr>)"
| step_send: "rsys_reqs sys n = Some (req, Claimed) \<Longrightarrow>
    rem_step sys (sys\<lparr>rsys_reqs := (rsys_reqs sys)(n \<mapsto> (req, Answered oc)), rsys_sent := rsys_sent sys @ [(n, su_id req, oc)],
      rsys_wire := rsys_wire sys @ [(n, su_signedXdr req)]\<rparr>)"
| step_finish: "rsys_reqs sys n = Some (req, Answered oc) \<Longrightarrow> submit_finish env req oc (rsys_db sys) = (res, db) \<Longrightarrow>
    rem_step sys (sys\<lparr>rsys_db := db, rsys_reqs := (rsys_reqs sys)(n \<mapsto> (req, Finished res))\<rparr>)"

subsection \<open>What a signed transaction has to be\<close>

lemma getCurrencyAsset_normalized:
  assumes "getCurrencyAsset env c = Inr a"
  shows "getCurrencyAsset env (normalizeCurrency c) = Inr a"
proof -
  have "normalizeCurrency c \<in> {''XLM'', ''USDC'', ''EURC'', ''PHP''}"
    using assms by (auto simp: getCurrencyAsset_def tokenIssuer_def truthy_text_def Let_def split: if_splits option.splits)
  moreover have "normalizeCurrency ''XLM'' = ''XLM''" "normalizeCurrency ''USDC'' = ''USDC''"
    "normalizeCurrency ''EURC'' = ''EURC''" "normalizeCurrency ''PHP'' = ''PHP''"
    by (simp_all add: normalizeCurrency_def toUpperCase_def upper_char_def trim_def js_space_def)
  ultimately have n: "normalizeCurrency (normalizeCurrency c) = normalizeCurrency c" by auto
  show ?thesis using assms unfolding getCurrencyAsset_def n by (auto simp: Let_def split: if_splits option.splits)
qed

lemma toFixed_mono: "x \<le> y \<Longrightarrow> toFixed d x \<le> toFixed d y"
  unfolding toFixed_def by (intro floor_mono) (simp add: mult_right_mono)

lemma column_number_inj:
  assumes "0 < n" "n \<le> 10 ^ 13" "toFixed 7 (column_number u) = toFixed 7 (column_number n)"
  shows "u = n"
proof -
  have n: "toFixed 7 (column_number n) = n" using assms(1,2) by (intro column_number_exact) auto
  show ?thesis
  proof (cases "0 \<le> u \<and> u < 2 ^ 52")
    case True
    then show ?thesis using assms(3) n column_number_exact [of u] by simp
  next
    case False
    show ?thesis
    proof (cases "u < 0")
      case True
      have "column_number u \<le> 0" using True dbl_mono [of "of_int u / 10 ^ 7" 0] by (simp add: column_number_def)
      then have "toFixed 7 (column_number u) \<le> toFixed 7 0" by (rule toFixed_mono)
      moreover have "toFixed 7 0 = 0" unfolding toFixed_def by (rule floor_unique) simp_all
      ultimately show ?thesis using assms(1,3) n by linarith
    next
      case nonneg: False
      have "column_number (2 ^ 52 - 1) \<le> column_number u"
        unfolding column_number_def using False nonneg by (intro dbl_mono divide_right_mono) (auto simp del: of_int_diff)
      then have "toFixed 7 (column_number (2 ^ 52 - 1)) \<le> toFixed 7 (column_number u)" by (rule toFixed_mono)
      moreover have "toFixed 7 (column_number (2 ^ 52 - 1)) = 2 ^ 52 - 1" by (rule column_number_exact) auto
      ultimately show ?thesis using assms(2,3) n by simp
    qed
  qed
qed

definition pays :: "rem_env \<Rightarrow> RemittanceRow \<Rightarrow> envelope \<Rightarrow> bool" where
  "pays env r e \<longleftrightarrow>
     (\<exists>src a. tx_operations (inner_transaction e) = [Payment src (rm_recipient_address r) (rm_stroops r) a]
       \<and> (case src of Some s \<Rightarrow> s | None \<Rightarrow> tx_source (inner_transaction e)) = rm_sender_id r
       \<and> getCurrencyAsset env (rm_from_currency r) = Inr a)"

lemma validate_pays:
  assumes "0 < rm_stroops r" "rm_stroops r \<le> 10 ^ 13"
  shows "validateSignedXdr env (toRemittance r) x = Inr () \<longleftrightarrow> (\<exists>e. fromXDR (rn_sdk env) x (passphrase env) = Some e \<and> pays env r e)"
proof
  assume v: "validateSignedXdr env (toRemittance r) x = Inr ()"
  then obtain e src dest units a where e: "fromXDR (rn_sdk env) x (passphrase env) = Some e"
      "tx_operations (inner_transaction e) = [Payment src dest units a]"
    by (auto simp: validateSignedXdr_def split: option.splits list.splits operation.splits)
  have c: "(case src of Some s \<Rightarrow> s | None \<Rightarrow> tx_source (inner_transaction e)) = rm_sender_id r" "dest = rm_recipient_address r"
      "toFixed 7 (column_number units) = toFixed 7 (column_number (rm_stroops r))" "getCurrencyAsset env (rm_from_currency r) = Inr a"
    using v by (auto simp: validateSignedXdr_def e toRemittance_def Let_def split: if_splits sum.splits)
  have "units = rm_stroops r" by (rule column_number_inj [OF assms c(3)])
  then show "\<exists>e. fromXDR (rn_sdk env) x (passphrase env) = Some e \<and> pays env r e" using e c unfolding pays_def by blast
next
  assume "\<exists>e. fromXDR (rn_sdk env) x (passphrase env) = Some e \<and> pays env r e"
  then show "validateSignedXdr env (toRemittance r) x = Inr ()"
    by (auto simp: validateSignedXdr_def pays_def toRemittance_def Let_def)
qed

text \<open>
  C27. For amounts within the limit of a request, one million with seven decimals, a signed transaction is
  accepted exactly when it is one payment from the sender to the recipient of the remittance, in its
  asset and of its amount to the last unit, although amounts are compared as doubles.
\<close>

theorem signed_transaction_accepted_iff_exact:
  assumes "0 < rm_stroops r" "rm_stroops r \<le> 10 ^ 13"
  shows "validateSignedXdr env (toRemittance r) x = Inr () \<longleftrightarrow>
    (\<exists>e. fromXDR (rn_sdk env) x (passphrase env) = Some e \<and> pays env r e)"
  by (rule validate_pays [OF assms])

text \<open>An SDK with one valid issuer, in which the envelope of a payment is its description.\<close>

definition demo_issuer :: string where
  "demo_issuer = CHR ''G'' # replicate 55 (CHR ''A'')"

definition demo_tx :: "int \<Rightarrow> envelope" where
  "demo_tx n = PlainTx \<lparr>tx_source = demo_issuer, tx_operations = [Payment None demo_issuer n (Issued ''USDC'' demo_issuer)]\<rparr>"

definition demo_sdk :: stellar where
  "demo_sdk = \<lparr>new_asset = (\<lambda>_ _. True), getAccount = (\<lambda>a. if a = demo_issuer then Some a else None),
     build_payment = (\<lambda>acc pp dest a amt.
       if acc = demo_issuer \<and> dest = demo_issuer \<and> a = Issued ''USDC'' demo_issuer \<and> amt = 25 then Some ''pay 25'' else None),
     fromXDR = (\<lambda>x pp. if x = ''pay 25'' then Some (demo_tx 250000000) else None)\<rparr>"

definition demo_rem_env :: rem_env where
  "demo_rem_env = \<lparr>rn_sdk = demo_sdk, rn_compliance = demo_cenv\<lparr>KYC_ENFORCEMENT_ENABLED := None\<rparr>, STELLAR_USDC_ISSUER = Some demo_issuer,
     STELLAR_EURC_ISSUER = None, STELLAR_PHP_ISSUER = None, network_passphrase = [], rn_uuid = ''u1'', rn_now = 0,
     rn_read_fault = None, rn_write_fault = None, rn_notify_fault = None\<rparr>"

definition demo_rem_payload :: create_payload where
  "demo_rem_payload = \<lparr>cr_recipientAddress = demo_issuer, cr_amount = 25, cr_fromCurrency = ''USDC'', cr_toCurrency = ''PHP'',
     cr_memo = None, cr_senderAddress = demo_issuer\<rparr>"

definition demo_rem_row :: RemittanceRow where
  "demo_rem_row = \<lparr>rm_id = ''u1'', rm_sender_id = demo_issuer, rm_recipient_address = demo_issuer, rm_stroops = 250000000,
     rm_from_currency = ''USDC'', rm_to_currency = ''PHP'', rm_memo = None, rm_status = Pending, rm_transaction_hash = None,
     rm_error_message = None, rm_xdr = ''pay 25'', rm_created_at = 0, rm_updated_at = 0, rm_seq = 1\<rparr>"

definition no_remittances :: rem_state where
  "no_remittances = \<lparr>rem_rows = [], rem_next_seq = 1, rem_compliance = no_profiles\<rparr>"

lemma demo_issuer_valid: "isValidStellarAddress demo_issuer"
  by (simp add: isValidStellarAddress_def demo_issuer_def base32_char_def list_all_iff)

lemma usdc_normal: "normalizeCurrency ''USDC'' = ''USDC''" "normalizeCurrency ''PHP'' = ''PHP''"
  by (simp_all add: normalizeCurrency_def toUpperCase_def upper_char_def trim_def js_space_def)

lemma demo_asset: "getCurrencyAsset demo_rem_env ''USDC'' = Inr (Issued ''USDC'' demo_issuer)"
proof -
  have "demo_issuer \<noteq> []" by (simp add: demo_issuer_def)
  then show ?thesis
    by (simp add: getCurrencyAsset_def usdc_normal tokenIssuer_def truthy_text_def demo_rem_env_def demo_sdk_def demo_issuer_valid)
qed

theorem signed_transaction_accepted_iff_exact_witness:
  "validateSignedXdr demo_rem_env (toRemittance demo_rem_row) ''pay 25'' = Inr ()"
proof -
  have "fromXDR (rn_sdk demo_rem_env) ''pay 25'' (passphrase demo_rem_env) = Some (demo_tx 250000000)"
    by (simp add: demo_rem_env_def demo_sdk_def)
  moreover have "pays demo_rem_env demo_rem_row (demo_tx 250000000)"
    by (simp add: pays_def demo_rem_row_def demo_tx_def inner_transaction_def demo_asset)
  ultimately show ?thesis
    using signed_transaction_accepted_iff_exact [of demo_rem_row demo_rem_env "''pay 25''"] by (simp add: demo_rem_row_def)
qed

text \<open>What the SDK documents of the transactions it builds: they read back as built, with amounts of at most seven decimals.\<close>

definition sdk_builds :: "stellar \<Rightarrow> bool" where
  "sdk_builds sdk \<longleftrightarrow>
     (\<forall>addr acc pp dest a amt x. getAccount sdk addr = Some acc \<longrightarrow> build_payment sdk acc pp dest a amt = Some x \<longrightarrow>
       (\<exists>n. 0 < n \<and> amt = of_int n / 10 ^ 7
         \<and> fromXDR sdk x pp = Some (PlainTx \<lparr>tx_source = addr, tx_operations = [Payment None dest n a]\<rparr>)))"

lemma column_units_exact: "0 < n \<Longrightarrow> column_units (of_int n / 10 ^ 7) = n"
  by (simp add: column_units_def) (rule floor_unique; simp)

lemma createRemittance_Inr:
  assumes "createRemittance env p st = (Inr r, st')"
  obtains a acc x row where
    "getCurrencyAsset env (cr_fromCurrency p) = Inr a" "getAccount (rn_sdk env) (cr_senderAddress p) = Some acc"
    "build_payment (rn_sdk env) acc (passphrase env) (cr_recipientAddress p) a (cr_amount p) = Some x"
    "r = toRemittance row" "rem_rows st' = rem_rows st @ [row]"
    "rm_id row = rn_uuid env" "rm_sender_id row = cr_senderAddress p" "rm_recipient_address row = cr_recipientAddress p"
    "rm_stroops row = column_units (cr_amount p)" "rm_from_currency row = normalizeCurrency (cr_fromCurrency p)"
    "rm_xdr row = x" "rm_status row = Pending" "rm_transaction_hash row = None"
  using assms
  by (auto simp: createRemittance_def insert_remittance_def Let_def split: if_splits sum.splits prod.splits option.splits)

text \<open>
  The transaction that a created remittance returns is the one its submission accepts: it passes the
  checks on a signed transaction as soon as the wallet has signed it unchanged.
\<close>

theorem created_transaction_is_accepted:
  assumes "createRemittance env p st = (Inr r, st')" "sdk_builds (rn_sdk env)"
  shows "validateSignedXdr env r (re_xdr r) = Inr ()"
proof -
  obtain a acc x row where c:
    "getCurrencyAsset env (cr_fromCurrency p) = Inr a" "getAccount (rn_sdk env) (cr_senderAddress p) = Some acc"
    "build_payment (rn_sdk env) acc (passphrase env) (cr_recipientAddress p) a (cr_amount p) = Some x"
    "r = toRemittance row" "rm_sender_id row = cr_senderAddress p" "rm_recipient_address row = cr_recipientAddress p"
    "rm_stroops row = column_units (cr_amount p)" "rm_from_currency row = normalizeCurrency (cr_fromCurrency p)" "rm_xdr row = x"
    using createRemittance_Inr [OF assms(1)] by metis
  obtain n where n: "0 < n" "cr_amount p = of_int n / 10 ^ 7"
      "fromXDR (rn_sdk env) x (passphrase env)
        = Some (PlainTx \<lparr>tx_source = cr_senderAddress p, tx_operations = [Payment None (cr_recipientAddress p) n a]\<rparr>)"
    using assms(2) c(2,3) unfolding sdk_builds_def by metis
  have "column_units (cr_amount p) = n" unfolding n(2) by (rule column_units_exact [OF n(1)])
  then show ?thesis
    using n(3) c getCurrencyAsset_normalized [OF c(1)]
    by (simp add: validateSignedXdr_def toRemittance_def inner_transaction_def Let_def)
qed

lemma demo_create:
  "createRemittance demo_rem_env demo_rem_payload no_remittances
   = (Inr (toRemittance demo_rem_row), no_remittances\<lparr>rem_rows := [demo_rem_row], rem_next_seq := 2\<rparr>)"
proof -
  have m: "monitorTransaction (rn_compliance demo_rem_env) rows s a ref cs = (Inr \<lparr>mo_allowed = True, mo_ruleCodes = [], mo_alert = None\<rparr>, cs)"
    for rows s a ref cs by (simp add: monitorTransaction_def demo_rem_env_def)
  have u: "column_units 25 = 250000000" using column_units_exact [of 250000000] by simp
  have i: "insert_remittance demo_rem_env demo_rem_payload ''pay 25'' no_remittances = Inr demo_rem_row"
    by (simp add: insert_remittance_def demo_rem_env_def demo_rem_payload_def u usdc_normal truthy_text_def no_remittances_def demo_rem_row_def)
  have s: "no_remittances\<lparr>rem_compliance := rem_compliance no_remittances\<rparr> = no_remittances" by simp
  have k: "getAccount (rn_sdk demo_rem_env) demo_issuer = Some demo_issuer"
    "build_payment (rn_sdk demo_rem_env) demo_issuer pp demo_issuer (Issued ''USDC'' demo_issuer) 25 = Some ''pay 25''" for pp
    by (simp_all add: demo_rem_env_def demo_sdk_def)
  show ?thesis
    unfolding createRemittance_def m s
    by (simp add: demo_rem_payload_def [THEN arg_cong [where f = cr_recipientAddress]] demo_rem_payload_def [THEN arg_cong [where f = cr_senderAddress]]
        demo_rem_payload_def [THEN arg_cong [where f = cr_fromCurrency]] demo_rem_payload_def [THEN arg_cong [where f = cr_amount]]
        demo_issuer_valid demo_asset k i Let_def) (simp add: no_remittances_def)
qed

theorem created_transaction_is_accepted_witness:
  "validateSignedXdr demo_rem_env (toRemittance demo_rem_row) (re_xdr (toRemittance demo_rem_row)) = Inr ()"
proof (rule created_transaction_is_accepted [OF demo_create])
  have "(25 :: rat) = of_int 250000000 / 10 ^ 7" by simp
  then show "sdk_builds (rn_sdk demo_rem_env)"
    unfolding sdk_builds_def by (auto simp: demo_rem_env_def demo_sdk_def demo_tx_def split: if_splits intro!: exI [of _ 250000000])
qed

subsection \<open>What the operations do to the table\<close>

text \<open>The part of a row that no update touches.\<close>

definition row_identity :: "RemittanceRow \<Rightarrow> string \<times> string \<times> int \<times> int" where
  "row_identity r = (rm_id r, rm_sender_id r, rm_created_at r, rm_seq r)"

lemma set_status_identity [simp]: "row_identity (set_status env s h err r) = row_identity r"
  "rm_id (set_status env s h err r) = rm_id r" "rm_status (set_status env s h err r) = s"
  by (simp_all add: set_status_def row_identity_def)

text \<open>An update of one row, from one of the expected states to another.\<close>

definition moved :: "rem_env \<Rightarrow> string \<Rightarrow> RemittanceStatus \<Rightarrow> RemittanceStatus \<Rightarrow> string option \<Rightarrow> string option \<Rightarrow> rem_state \<Rightarrow> rem_state \<Rightarrow> bool" where
  "moved env i s0 s h err st st' \<longleftrightarrow>
     (\<exists>r\<in>set (rem_rows st). rm_id r = i \<and> rm_status r = s0)
     \<and> st' = st\<lparr>rem_rows := map (\<lambda>r. if rm_id r = i \<and> rm_status r = s0 then set_status env s h err r else r) (rem_rows st)\<rparr>"

lemma find_in: "find P xs = Some x \<Longrightarrow> x \<in> set xs \<and> P x"
  by (auto simp: find_Some_iff)

lemma update_moved:
  assumes "updateRemittanceStatus env i s h err (Some [s0]) st = (res, st')"
  shows "case res of Inl e \<Rightarrow> st' = st | Inr _ \<Rightarrow> moved env i s0 s h err st st'"
  using assms
  by (auto simp: updateRemittanceStatus_def moved_def Let_def find_None_iff dest!: find_in split: option.splits prod.splits)

lemma claim_moved:
  "submit_claim env req st = (res, st') \<Longrightarrow>
    case res of Inl e \<Rightarrow> st' = st | Inr _ \<Rightarrow> moved env (su_id req) Pending Processing None None st st'"
  unfolding submit_claim_def by (rule update_moved)

lemma finish_moved:
  assumes "submit_finish env req oc st = (res, st')"
  shows "st' = st \<or> (\<exists>h. oc = Confirmed h \<and> moved env (su_id req) Processing Completed (Some h) None st st')
    \<or> (\<exists>err. oc = SubmitError err \<and> moved env (su_id req) Processing Failed None (Some (thrown_message err)) st st')"
proof (cases oc)
  case (Confirmed h)
  obtain q st1 where u: "updateRemittanceStatus env (su_id req) Completed (Some h) None (Some [Processing]) st = (q, st1)" by (meson surj_pair)
  then show ?thesis using update_moved [OF u] assms Confirmed by (auto split: sum.splits option.splits)
next
  case (SubmitError err)
  obtain q st1 where u: "updateRemittanceStatus env (su_id req) Failed None (Some (thrown_message err)) (Some [Processing]) st = (q, st1)"
    by (meson surj_pair)
  then show ?thesis using update_moved [OF u] assms SubmitError by (auto split: sum.splits)
qed (use assms in simp)

definition fresh_row :: "rem_state \<Rightarrow> RemittanceRow \<Rightarrow> bool" where
  "fresh_row st row \<longleftrightarrow> rm_id row \<notin> rm_id ` set (rem_rows st) \<and> rm_seq row = rem_next_seq st \<and> rm_status row = Pending
     \<and> 1000 dvd rm_created_at row"

lemma create_appends:
  "\<exists>new. rem_rows (snd (createRemittance env p st)) = rem_rows st @ new
     \<and> (new = [] \<and> rem_next_seq st \<le> rem_next_seq (snd (createRemittance env p st))
        \<or> (\<exists>row. new = [row] \<and> fresh_row st row \<and> rem_next_seq (snd (createRemittance env p st)) = rem_next_seq st + 1))"
  by (auto simp: createRemittance_def insert_remittance_def fresh_row_def Let_def split: if_splits sum.splits prod.splits option.splits)

subsection \<open>The invariant of the table\<close>

definition rem_inv :: "rem_state \<Rightarrow> bool" where
  "rem_inv st \<longleftrightarrow> distinct (map rm_id (rem_rows st)) \<and> distinct (map rm_seq (rem_rows st))
     \<and> (\<forall>r\<in>set (rem_rows st). rm_seq r < rem_next_seq st \<and> 1000 dvd rm_created_at r)"

text \<open>Later tables have the same rows, as far as their identity goes, and after them rows with higher sequence numbers.\<close>

definition evolved :: "rem_state \<Rightarrow> rem_state \<Rightarrow> bool" where
  "evolved st st' \<longleftrightarrow> rem_next_seq st \<le> rem_next_seq st'
     \<and> (\<exists>new. map row_identity (rem_rows st') = map row_identity (rem_rows st) @ map row_identity new
          \<and> (\<forall>r\<in>set new. rem_next_seq st \<le> rm_seq r))"

lemma evolved_refl [simp]: "evolved st st"
  by (auto simp: evolved_def intro!: exI [of _ "[]"])

lemma evolved_trans:
  assumes "evolved a b" "evolved b c"
  shows "evolved a c"
proof -
  obtain n where n: "map row_identity (rem_rows b) = map row_identity (rem_rows a) @ map row_identity n"
      "\<forall>r\<in>set n. rem_next_seq a \<le> rm_seq r" using assms(1) by (auto simp: evolved_def)
  obtain m where m: "map row_identity (rem_rows c) = map row_identity (rem_rows b) @ map row_identity m"
      "\<forall>r\<in>set m. rem_next_seq b \<le> rm_seq r" using assms(2) by (auto simp: evolved_def)
  have le: "rem_next_seq a \<le> rem_next_seq b" "rem_next_seq b \<le> rem_next_seq c" using assms by (auto simp: evolved_def)
  have "map row_identity (rem_rows c) = map row_identity (rem_rows a) @ map row_identity (n @ m)" using n(1) m(1) by simp
  moreover have "\<forall>r\<in>set (n @ m). rem_next_seq a \<le> rm_seq r" using n(2) m(2) le by fastforce
  ultimately show ?thesis unfolding evolved_def using le by fastforce
qed

lemma moved_identities: "moved env i s0 s h err st st' \<Longrightarrow>
    map row_identity (rem_rows st') = map row_identity (rem_rows st) \<and> rem_next_seq st' = rem_next_seq st"
  by (auto simp: moved_def)

lemma moved_evolved: "moved env i s0 s h err st st' \<Longrightarrow> evolved st st'"
  using moved_identities [of env i s0 s h err st st'] by (auto simp: evolved_def intro!: exI [of _ "[]"])

lemma create_evolved: "evolved st (snd (createRemittance env p st))"
proof -
  obtain new where new: "rem_rows (snd (createRemittance env p st)) = rem_rows st @ new"
     "new = [] \<and> rem_next_seq st \<le> rem_next_seq (snd (createRemittance env p st))
        \<or> (\<exists>row. new = [row] \<and> fresh_row st row \<and> rem_next_seq (snd (createRemittance env p st)) = rem_next_seq st + 1)"
    using create_appends by blast
  then show ?thesis by (auto simp: evolved_def fresh_row_def intro!: exI [of _ new])
qed

lemma identities_inv:
  assumes "rem_inv st" "map row_identity (rem_rows st') = map row_identity (rem_rows st)" "rem_next_seq st' = rem_next_seq st"
  shows "rem_inv st'"
proof -
  have p: "map rm_id (rem_rows x) = map fst (map row_identity (rem_rows x))"
    "map rm_seq (rem_rows x) = map (snd \<circ> snd \<circ> snd) (map row_identity (rem_rows x))" for x
    by (simp_all add: row_identity_def)
  have "row_identity ` set (rem_rows st') = row_identity ` set (rem_rows st)" using arg_cong [OF assms(2), of set] by simp
  then have "\<exists>q\<in>set (rem_rows st). row_identity q = row_identity r" if "r \<in> set (rem_rows st')" for r using that by (metis image_iff)
  then have "rm_seq r < rem_next_seq st \<and> 1000 dvd rm_created_at r" if "r \<in> set (rem_rows st')" for r
    using that assms(1) by (fastforce simp: rem_inv_def row_identity_def)
  then show ?thesis using assms unfolding rem_inv_def p assms(2) by simp
qed

lemma moved_inv: "moved env i s0 s h err st st' \<Longrightarrow> rem_inv st \<Longrightarrow> rem_inv st'"
  using moved_identities [of env i s0 s h err st st'] identities_inv by blast

lemma create_inv:
  assumes "rem_inv st"
  shows "rem_inv (snd (createRemittance env p st))"
proof -
  obtain new where new: "rem_rows (snd (createRemittance env p st)) = rem_rows st @ new"
     "new = [] \<and> rem_next_seq st \<le> rem_next_seq (snd (createRemittance env p st))
        \<or> (\<exists>row. new = [row] \<and> fresh_row st row \<and> rem_next_seq (snd (createRemittance env p st)) = rem_next_seq st + 1)"
    using create_appends by blast
  then show ?thesis using assms by (fastforce simp: rem_inv_def fresh_row_def)
qed

end
