(* ===== verification/RemittanceRuns.thy ===== *)
theory RemittanceRuns
  imports Remittances
begin

section \<open>Runs of the remittance endpoints\<close>

text \<open>
  Every interleaving of the creation and submission requests. The invariant ties the status of a row to
  the requests that claimed it and to what was handed to the network.
\<close>

lemma toRemittance_sel [simp]:
  "re_id (toRemittance r) = rm_id r" "re_senderId (toRemittance r) = rm_sender_id r"
  "re_recipientAddress (toRemittance r) = rm_recipient_address r" "re_amount (toRemittance r) = column_number (rm_stroops r)"
  "re_fromCurrency (toRemittance r) = rm_from_currency r" "re_status (toRemittance r) = rm_status r"
  by (simp_all add: toRemittance_def)

subsection \<open>At most one submission\<close>

text \<open>The requests that have claimed a remittance.\<close>

definition claims :: "rem_sys \<Rightarrow> string \<Rightarrow> nat set" where
  "claims sys i = {n. \<exists>req. rsys_reqs sys n = Some (req, Claimed) \<and> su_id req = i} \<union> {n. \<exists>oc. (n, i, oc) \<in> set (rsys_sent sys)}"

definition rem_sys_inv :: "rem_sys \<Rightarrow> bool" where
  "rem_sys_inv sys \<longleftrightarrow>
     rem_inv (rsys_db sys)
     \<and> distinct (map fst (rsys_sent sys))
     \<and> (\<forall>n req. rsys_reqs sys n = Some (req, Claimed) \<longrightarrow> n \<notin> fst ` set (rsys_sent sys))
     \<and> (\<forall>n req oc. rsys_reqs sys n = Some (req, Answered oc) \<longrightarrow> (n, su_id req, oc) \<in> set (rsys_sent sys))
     \<and> (\<forall>n. n \<in> fst ` set (rsys_sent sys) \<longrightarrow> (\<exists>req ph. rsys_reqs sys n = Some (req, ph) \<and> ph \<notin> {Arrived, Checked}))
     \<and> (\<forall>i n m. n \<in> claims sys i \<longrightarrow> m \<in> claims sys i \<longrightarrow> n = m)
     \<and> (\<forall>i. claims sys i \<noteq> {} \<longrightarrow> i \<in> rm_id ` set (rem_rows (rsys_db sys)))
     \<and> (\<forall>r\<in>set (rem_rows (rsys_db sys)). rm_status r = Pending \<longrightarrow> claims sys (rm_id r) = {})
     \<and> (\<forall>r\<in>set (rem_rows (rsys_db sys)). rm_status r = Completed \<longrightarrow>
          (\<exists>n h. (n, rm_id r, Confirmed h) \<in> set (rsys_sent sys) \<and> (h \<noteq> [] \<longrightarrow> rm_transaction_hash r = Some h)))"

text \<open>The invariant does not look at the transactions or at the configurations.\<close>

lemma rem_sys_inv_ghost [simp]:
  "rem_sys_inv (sys\<lparr>rsys_wire := w\<rparr>) = rem_sys_inv sys" "rem_sys_inv (sys\<lparr>rsys_checkedWith := c\<rparr>) = rem_sys_inv sys"
  by (simp_all add: rem_sys_inv_def claims_def)

lemma rem_sys_invD:
  assumes "rem_sys_inv sys"
  shows "rem_inv (rsys_db sys)" "distinct (map fst (rsys_sent sys))"
    "rsys_reqs sys n = Some (req, Claimed) \<Longrightarrow> n \<notin> fst ` set (rsys_sent sys)"
    "rsys_reqs sys n = Some (req, Answered oc) \<Longrightarrow> (n, su_id req, oc) \<in> set (rsys_sent sys)"
    "n \<in> fst ` set (rsys_sent sys) \<Longrightarrow> \<exists>req ph. rsys_reqs sys n = Some (req, ph) \<and> ph \<notin> {Arrived, Checked}"
    "n \<in> claims sys i \<Longrightarrow> m \<in> claims sys i \<Longrightarrow> n = m"
    "claims sys i \<noteq> {} \<Longrightarrow> i \<in> rm_id ` set (rem_rows (rsys_db sys))"
    "r \<in> set (rem_rows (rsys_db sys)) \<Longrightarrow> rm_status r = Pending \<Longrightarrow> claims sys (rm_id r) = {}"
    "r \<in> set (rem_rows (rsys_db sys)) \<Longrightarrow> rm_status r = Completed \<Longrightarrow>
       \<exists>n h. (n, rm_id r, Confirmed h) \<in> set (rsys_sent sys) \<and> (h \<noteq> [] \<longrightarrow> rm_transaction_hash r = Some h)"
  using assms unfolding rem_sys_inv_def by blast+

text \<open>A request that moves between phases without claiming or sending.\<close>

lemma inv_phase:
  assumes "rem_sys_inv sys" "ph \<notin> {Claimed} \<union> range Answered" "n \<notin> fst ` set (rsys_sent sys) \<or> ph \<notin> {Arrived, Checked}"
    "rsys_reqs sys n = None \<or> (\<exists>req0 ph0. rsys_reqs sys n = Some (req0, ph0) \<and> ph0 \<noteq> Claimed)"
  shows "rem_sys_inv (sys\<lparr>rsys_reqs := (rsys_reqs sys)(n \<mapsto> (req, ph))\<rparr>)"
proof -
  let ?sys = "sys\<lparr>rsys_reqs := (rsys_reqs sys)(n \<mapsto> (req, ph))\<rparr>"
  have c: "claims ?sys i = claims sys i" for i using assms(2,4) by (auto simp: claims_def)
  show ?thesis using assms unfolding rem_sys_inv_def c by auto
qed

text \<open>A table that keeps the pending rows pending, or gains fresh ones.\<close>

lemma inv_create:
  assumes "rem_sys_inv sys"
  shows "rem_sys_inv (sys\<lparr>rsys_db := snd (createRemittance env p (rsys_db sys))\<rparr>)"
proof -
  let ?db' = "snd (createRemittance env p (rsys_db sys))"
  have c: "claims (sys\<lparr>rsys_db := ?db'\<rparr>) i = claims sys i" for i by (simp add: claims_def)
  obtain new where new: "rem_rows ?db' = rem_rows (rsys_db sys) @ new" "new = [] \<or> (\<exists>row. new = [row] \<and> fresh_row (rsys_db sys) row)"
    using create_appends by blast
  have fresh: "rm_status r = Pending \<and> claims sys (rm_id r) = {}" if "r \<in> set new" for r
    using new(2) that rem_sys_invD(7) [OF assms] by (fastforce simp: fresh_row_def)
  show ?thesis
    using assms create_inv [of "rsys_db sys" env p] fresh unfolding rem_sys_inv_def c new(1) by (auto simp: new(1))
qed

lemma moved_rows:
  assumes "moved env i s0 s h err st st'" "rem_inv st" "r' \<in> set (rem_rows st')"
  shows "(r' \<in> set (rem_rows st) \<and> (rm_id r' = i \<longrightarrow> rm_status r' \<noteq> s0))
    \<or> (\<exists>r\<in>set (rem_rows st). rm_id r = i \<and> rm_status r = s0 \<and> r' = set_status env s h err r)"
  using assms by (auto simp: moved_def)

lemma distinct_id: "rem_inv st \<Longrightarrow> r \<in> set (rem_rows st) \<Longrightarrow> q \<in> set (rem_rows st) \<Longrightarrow> rm_id r = rm_id q \<Longrightarrow> r = q"
  by (auto simp: rem_inv_def distinct_map dest: inj_onD)

lemma moved_ids: "moved env i s0 s h err st st' \<Longrightarrow> rm_id ` set (rem_rows st') = rm_id ` set (rem_rows st)"
proof -
  assume "moved env i s0 s h err st st'"
  from arg_cong [OF conjunct1 [OF moved_identities [OF this]], of "\<lambda>l. fst ` set l"] show ?thesis
    by (simp add: image_image row_identity_def)
qed

lemma inv_claim:
  assumes "rem_sys_inv sys" "rsys_reqs sys n = Some (req, Checked)" "moved env (su_id req) Pending Processing None None (rsys_db sys) db"
  shows "rem_sys_inv (sys\<lparr>rsys_db := db, rsys_reqs := (rsys_reqs sys)(n \<mapsto> (req, Claimed))\<rparr>)"
proof -
  let ?sys = "sys\<lparr>rsys_db := db, rsys_reqs := (rsys_reqs sys)(n \<mapsto> (req, Claimed))\<rparr>"
  note D = rem_sys_invD [OF assms(1)]
  have n: "n \<notin> fst ` set (rsys_sent sys)" using D(5) [of n] assms(2) by auto
  obtain r where r: "r \<in> set (rem_rows (rsys_db sys))" "rm_id r = su_id req" "rm_status r = Pending"
    using assms(3) by (auto simp: moved_def)
  have none: "claims sys (su_id req) = {}" using D(8) [OF r(1,3)] r(2) by simp
  have c: "claims ?sys i = (if i = su_id req then {n} else claims sys i)" for i
    using assms(2) n none by (auto simp: claims_def)
  have rows: "r' \<in> set (rem_rows (rsys_db sys)) \<and> rm_id r' \<noteq> su_id req \<or> rm_id r' = su_id req \<and> rm_status r' = Processing"
    if "r' \<in> set (rem_rows db)" for r'
    using moved_rows [OF assms(3) D(1) that] distinct_id [OF D(1) _ r(1)] r(2,3) by fastforce
  have "rem_inv db" by (rule moved_inv [OF assms(3) D(1)])
  moreover have "\<forall>i. claims ?sys i \<noteq> {} \<longrightarrow> i \<in> rm_id ` set (rem_rows db)"
    unfolding c moved_ids [OF assms(3)] using D(7) imageI [OF r(1), of rm_id] r(2) by simp
  moreover have "\<forall>r'\<in>set (rem_rows db). rm_status r' = Pending \<longrightarrow> claims ?sys (rm_id r') = {}"
    unfolding c using rows D(8) by fastforce
  moreover have "\<forall>r'\<in>set (rem_rows db). rm_status r' = Completed \<longrightarrow>
      (\<exists>k h. (k, rm_id r', Confirmed h) \<in> set (rsys_sent sys) \<and> (h \<noteq> [] \<longrightarrow> rm_transaction_hash r' = Some h))"
    using rows D(9) by fastforce
  moreover have "\<forall>i k m. k \<in> claims ?sys i \<longrightarrow> m \<in> claims ?sys i \<longrightarrow> k = m" unfolding c using D(6) by auto
  moreover have "\<forall>k q. rsys_reqs ?sys k = Some (q, Claimed) \<longrightarrow> k \<notin> fst ` set (rsys_sent ?sys)"
    using D(3) n by (simp, blast)
  moreover have "\<forall>k. k \<in> fst ` set (rsys_sent ?sys) \<longrightarrow> (\<exists>q ph. rsys_reqs ?sys k = Some (q, ph) \<and> ph \<notin> {Arrived, Checked})"
    using D(5) n by simp
  moreover have "\<forall>k q o'. rsys_reqs ?sys k = Some (q, Answered o') \<longrightarrow> (k, su_id q, o') \<in> set (rsys_sent ?sys)"
    using D(4) by auto
  ultimately show ?thesis using D(2) unfolding rem_sys_inv_def by simp
qed

lemma inv_send:
  assumes "rem_sys_inv sys" "rsys_reqs sys n = Some (req, Claimed)"
  shows "rem_sys_inv (sys\<lparr>rsys_reqs := (rsys_reqs sys)(n \<mapsto> (req, Answered oc)), rsys_sent := rsys_sent sys @ [(n, su_id req, oc)]\<rparr>)"
proof -
  let ?sys = "sys\<lparr>rsys_reqs := (rsys_reqs sys)(n \<mapsto> (req, Answered oc)), rsys_sent := rsys_sent sys @ [(n, su_id req, oc)]\<rparr>"
  note D = rem_sys_invD [OF assms(1)]
  have n: "n \<notin> fst ` set (rsys_sent sys)" by (rule D(3) [OF assms(2)])
  have c: "claims ?sys i = claims sys i" for i using assms(2) by (auto simp: claims_def)
  have "\<forall>r\<in>set (rem_rows (rsys_db sys)). rm_status r = Completed \<longrightarrow>
      (\<exists>k h. (k, rm_id r, Confirmed h) \<in> set (rsys_sent ?sys) \<and> (h \<noteq> [] \<longrightarrow> rm_transaction_hash r = Some h))"
    using D(9) by fastforce
  moreover have "\<forall>k q. rsys_reqs ?sys k = Some (q, Claimed) \<longrightarrow> k \<notin> fst ` set (rsys_sent ?sys)"
    using D(3) by (simp, blast)
  moreover have "\<forall>k. k \<in> fst ` set (rsys_sent ?sys) \<longrightarrow> (\<exists>q ph. rsys_reqs ?sys k = Some (q, ph) \<and> ph \<notin> {Arrived, Checked})"
    using D(5) by simp
  moreover have "\<forall>k q o'. rsys_reqs ?sys k = Some (q, Answered o') \<longrightarrow> (k, su_id q, o') \<in> set (rsys_sent ?sys)"
    using D(4) by auto
  ultimately show ?thesis using D(1,2) D(6-8) n unfolding rem_sys_inv_def c by simp
qed

lemma inv_finish:
  assumes "rem_sys_inv sys" "rsys_reqs sys n = Some (req, Answered oc)" "submit_finish env req oc (rsys_db sys) = (res, db)"
  shows "rem_sys_inv (sys\<lparr>rsys_db := db, rsys_reqs := (rsys_reqs sys)(n \<mapsto> (req, Finished res))\<rparr>)"
proof -
  note D = rem_sys_invD [OF assms(1)]
  have sent: "(n, su_id req, oc) \<in> set (rsys_sent sys)" by (rule D(4) [OF assms(2)])
  have kept: "rem_sys_inv (sys\<lparr>rsys_db := db\<rparr>)"
    if m: "moved env (su_id req) Processing s h err (rsys_db sys) db"
      and s: "s = Completed \<and> (\<exists>x. oc = Confirmed x \<and> h = Some x) \<or> s = Failed" for s h err
  proof -
    have c: "claims (sys\<lparr>rsys_db := db\<rparr>) i = claims sys i" for i by (simp add: claims_def)
    have completed: "\<exists>k x. (k, rm_id r', Confirmed x) \<in> set (rsys_sent sys) \<and> (x \<noteq> [] \<longrightarrow> rm_transaction_hash r' = Some x)"
      if r': "r' \<in> set (rem_rows db)" and cmpl: "rm_status r' = Completed" for r'
      using moved_rows [OF m D(1) r']
    proof
      assume "r' \<in> set (rem_rows (rsys_db sys)) \<and> (rm_id r' = su_id req \<longrightarrow> rm_status r' \<noteq> Processing)"
      then show ?thesis using D(9) cmpl by blast
    next
      assume "\<exists>r\<in>set (rem_rows (rsys_db sys)). rm_id r = su_id req \<and> rm_status r = Processing \<and> r' = set_status env s h err r"
      then obtain r where r: "rm_id r = su_id req" "r' = set_status env s h err r" by blast
      then obtain x where x: "oc = Confirmed x" "h = Some x" using s cmpl by auto
      then show ?thesis using sent r by (auto simp: set_status_def truthy_text_def)
    qed
    have pending: "claims sys (rm_id r') = {}" if "r' \<in> set (rem_rows db)" "rm_status r' = Pending" for r'
      using moved_rows [OF m D(1) that(1)] that(2) s D(8) by auto
    have ids: "claims sys i \<noteq> {} \<Longrightarrow> i \<in> rm_id ` set (rem_rows db)" for i unfolding moved_ids [OF m] by (rule D(7))
    show ?thesis using moved_inv [OF m D(1)] D(2-6) completed pending ids unfolding rem_sys_inv_def c by auto
  qed
  have "rem_sys_inv (sys\<lparr>rsys_db := db\<rparr>)"
    using finish_moved [OF assms(3)]
  proof (elim disjE exE conjE)
    assume "db = rsys_db sys"
    then show ?thesis using assms(1) by simp
  qed (use kept in blast)+
  then have "rem_sys_inv (sys\<lparr>rsys_db := db\<rparr>\<lparr>rsys_reqs := (rsys_reqs (sys\<lparr>rsys_db := db\<rparr>))(n \<mapsto> (req, Finished res))\<rparr>)"
    by (rule inv_phase) (use assms(2) in auto)
  then show ?thesis by simp
qed

lemma step_rem_inv: "rem_step sys sys' \<Longrightarrow> rem_sys_inv sys \<Longrightarrow> rem_sys_inv sys'"
proof (induction rule: rem_step.induct)
  case (step_create sys env p)
  then show ?case by (rule inv_create)
next
  case (step_arrive sys n req)
  then have "n \<notin> fst ` set (rsys_sent sys)" using rem_sys_invD(5) [of sys n] by fastforce
  then show ?case using step_arrive by (intro inv_phase) auto
next
  case (step_check sys n req env)
  then have "n \<notin> fst ` set (rsys_sent sys)" using rem_sys_invD(5) [of sys n] by fastforce
  then have "rem_sys_inv (sys\<lparr>rsys_reqs := (rsys_reqs sys)(n \<mapsto>
      (req, case submit_check env req (rsys_db sys) of Inl e \<Rightarrow> Finished (Inl e) | Inr _ \<Rightarrow> Checked))\<rparr>)"
    using step_check by (intro inv_phase) (auto split: sum.splits)
  then show ?case by simp
next
  case (step_claim sys n req env res db)
  show ?case
  proof (cases res)
    case (Inl e)
    then have "db = rsys_db sys" using claim_moved [OF step_claim.hyps(2)] by simp
    then have "sys\<lparr>rsys_db := db\<rparr> = sys" by simp
    moreover have "Finished (Inl e) \<notin> {Claimed} \<union> range Answered" by auto
    ultimately show ?thesis using Inl step_claim inv_phase [of sys "Finished (Inl e)" n req] by simp
  next
    case (Inr r)
    then show ?thesis using inv_claim [OF step_claim.prems step_claim.hyps(1)] claim_moved [OF step_claim.hyps(2)] by simp
  qed
next
  case (step_send sys n req oc)
  then show ?case by (simp add: inv_send)
next
  case (step_finish sys n req oc env res db)
  then show ?case by (intro inv_finish)
qed

lemma moved_keeps: "moved env i s0 s h err st st' \<Longrightarrow> r \<in> set (rem_rows st) \<Longrightarrow> rm_status r \<noteq> s0 \<Longrightarrow> r \<in> set (rem_rows st')"
  by (force simp: moved_def)

lemma step_keeps_settled:
  assumes "rem_step sys sys'" "r \<in> set (rem_rows (rsys_db sys))" "rm_status r \<in> {Completed, Failed}"
  shows "r \<in> set (rem_rows (rsys_db sys'))"
  using assms
proof (induction rule: rem_step.induct)
  case (step_create sys env p)
  then show ?case using create_appends [of env p "rsys_db sys"] by auto
next
  case (step_claim sys n req env res db)
  then have "rm_status r \<noteq> Pending" by auto
  then show ?case using claim_moved [OF step_claim.hyps(2)] moved_keeps [OF _ step_claim.prems(1)] step_claim.prems(1)
    by (cases res) auto
next
  case (step_finish sys n req oc env res db)
  then have "rm_status r \<noteq> Processing" by auto
  then show ?case using finish_moved [OF step_finish.hyps(2)] moved_keeps [OF _ step_finish.prems(1)] step_finish.prems(1) by auto
qed simp_all

interpretation rl: row_lifecycle "\<lambda>sys. rem_rows (rsys_db sys)" "\<lambda>r. rm_status r \<in> {Completed, Failed}" rem_sys_inv rem_step
proof
  fix s s' assume "rem_step s s'" "rem_sys_inv s"
  then show "rem_sys_inv s'" by (rule step_rem_inv)
next
  fix s s' x assume "rem_step s s'" "x \<in> set (rem_rows (rsys_db s))" "rm_status x \<in> {Completed, Failed}"
  then show "x \<in> set (rem_rows (rsys_db s'))" by (rule step_keeps_settled)
qed

definition rem_start :: "compliance_state \<Rightarrow> rem_sys" where
  "rem_start cs = \<lparr>rsys_db = \<lparr>rem_rows = [], rem_next_seq = 1, rem_compliance = cs\<rparr>, rsys_reqs = Map.empty, rsys_sent = [],
     rsys_wire = [], rsys_checkedWith = Map.empty\<rparr>"

lemma rem_start_inv: "rem_sys_inv (rem_start cs)"
  by (simp add: rem_sys_inv_def rem_start_def rem_inv_def claims_def)

lemma rem_reach_inv: "rem_step\<^sup>*\<^sup>* (rem_start cs) sys \<Longrightarrow> rem_sys_inv sys"
  by (rule rl.steps_inv [OF _ rem_start_inv])

definition submissions :: "string \<Rightarrow> rem_sys \<Rightarrow> (nat \<times> string \<times> submit_outcome) list" where
  "submissions i sys = filter (\<lambda>x. fst (snd x) = i) (rsys_sent sys)"

lemma submissions_one:
  assumes "rem_sys_inv sys"
  shows "length (submissions i sys) \<le> 1"
proof -
  have d: "distinct (map fst (submissions i sys))"
    using rem_sys_invD(2) [OF assms] by (simp add: submissions_def distinct_map inj_on_def)
  have "n = m" if "n \<in> fst ` set (submissions i sys)" "m \<in> fst ` set (submissions i sys)" for n m
    using that by (intro rem_sys_invD(6) [OF assms, of n i m]) (auto simp: submissions_def claims_def)
  then have "card (fst ` set (submissions i sys)) \<le> Suc 0" by (auto simp: card_le_Suc0_iff_eq)
  then show ?thesis using distinct_card [OF d] by simp
qed

text \<open>
  C11. However many requests to submit a remittance race, and whatever fails, its transaction is handed to the
  network at most once.
\<close>

theorem remittance_submitted_at_most_once:
  assumes "rem_step\<^sup>*\<^sup>* (rem_start cs) sys"
  shows "length (submissions i sys) \<le> 1"
  by (rule submissions_one [OF rem_reach_inv [OF assms]])

text \<open>
  A remittance that is completed or failed keeps its whole row through every later step.
\<close>

theorem settled_remittance_is_final:
  assumes "rem_step\<^sup>*\<^sup>* (rem_start cs) sys" "rem_step\<^sup>*\<^sup>* sys sys'"
    and "r \<in> set (rem_rows (rsys_db sys))" "rm_status r \<in> {Completed, Failed}"
  shows "r \<in> set (rem_rows (rsys_db sys'))"
  using rl.final_forever [OF assms(2) rem_reach_inv [OF assms(1)] assms(3)] assms(4) by blast

text \<open>
  C16. A completed remittance was submitted and confirmed, and carries the hash of that confirmation.
\<close>

theorem completed_remittance_was_confirmed:
  assumes "rem_step\<^sup>*\<^sup>* (rem_start cs) sys" "r \<in> set (rem_rows (rsys_db sys))" "rm_status r = Completed"
  shows "\<exists>n h. submissions (rm_id r) sys = [(n, rm_id r, Confirmed h)] \<and> (h \<noteq> [] \<longrightarrow> rm_transaction_hash r = Some h)"
proof -
  note inv = rem_reach_inv [OF assms(1)]
  obtain n h where nh: "(n, rm_id r, Confirmed h) \<in> set (rsys_sent sys)" "h \<noteq> [] \<longrightarrow> rm_transaction_hash r = Some h"
    using rem_sys_invD(9) [OF inv assms(2,3)] by blast
  then have "(n, rm_id r, Confirmed h) \<in> set (submissions (rm_id r) sys)" by (simp add: submissions_def)
  moreover have "length (submissions (rm_id r) sys) \<le> 1" by (rule submissions_one [OF inv])
  ultimately have "submissions (rm_id r) sys = [(n, rm_id r, Confirmed h)]"
    by (cases "submissions (rm_id r) sys" rule: remdups_adj.cases) auto
  with nh(2) show ?thesis by blast
qed

subsection \<open>Only validated transactions are submitted\<close>

definition row_core :: "RemittanceRow \<Rightarrow> string \<times> string \<times> string \<times> int \<times> string" where
  "row_core r = (rm_id r, rm_sender_id r, rm_recipient_address r, rm_stroops r, rm_from_currency r)"

definition authorised :: "rem_env \<Rightarrow> rem_state \<Rightarrow> submit_request \<Rightarrow> bool" where
  "authorised env st req \<longleftrightarrow>
     (\<exists>r\<in>set (rem_rows st). rm_id r = su_id req \<and> truthy_text (su_sender req) = Some (rm_sender_id r)
        \<and> validateSignedXdr env (toRemittance r) (su_signedXdr req) = Inr ())"

lemma validate_core:
  assumes "row_core r = row_core q"
  shows "validateSignedXdr env (toRemittance r) x = validateSignedXdr env (toRemittance q) x"
proof -
  have eqs: "rm_sender_id r = rm_sender_id q" "rm_recipient_address r = rm_recipient_address q"
    "rm_stroops r = rm_stroops q" "rm_from_currency r = rm_from_currency q"
    using assms by (simp_all add: row_core_def)
  show ?thesis unfolding validateSignedXdr_def toRemittance_sel eqs ..
qed

lemma authorised_mono:
  assumes "\<forall>r\<in>set (rem_rows st). \<exists>q\<in>set (rem_rows st'). row_core q = row_core r" "authorised env st req"
  shows "authorised env st' req"
proof -
  obtain r where r: "r \<in> set (rem_rows st)" "rm_id r = su_id req" "truthy_text (su_sender req) = Some (rm_sender_id r)"
      "validateSignedXdr env (toRemittance r) (su_signedXdr req) = Inr ()" using assms(2) by (auto simp: authorised_def)
  obtain q where q: "q \<in> set (rem_rows st')" "row_core q = row_core r" using assms(1) r(1) by blast
  have "rm_id q = su_id req" "truthy_text (su_sender req) = Some (rm_sender_id q)" using q(2) r(2,3) by (simp_all add: row_core_def)
  moreover have "validateSignedXdr env (toRemittance q) (su_signedXdr req) = Inr ()" using r(4) validate_core [OF q(2)] by simp
  ultimately show ?thesis using q(1) by (auto simp: authorised_def)
qed

lemma moved_core: "moved env i s0 s h err st st' \<Longrightarrow> \<forall>r\<in>set (rem_rows st). \<exists>q\<in>set (rem_rows st'). row_core q = row_core r"
proof
  fix r assume m: "moved env i s0 s h err st st'" and r: "r \<in> set (rem_rows st)"
  let ?f = "\<lambda>r. if rm_id r = i \<and> rm_status r = s0 then set_status env s h err r else r"
  have "row_core (?f r) = row_core r" by (simp add: row_core_def set_status_def)
  moreover have "?f r \<in> set (rem_rows st')" using m r by (simp add: moved_def)
  ultimately show "\<exists>q\<in>set (rem_rows st'). row_core q = row_core r" by blast
qed

lemma step_core:
  assumes "rem_step sys sys'"
  shows "\<forall>r\<in>set (rem_rows (rsys_db sys)). \<exists>q\<in>set (rem_rows (rsys_db sys')). row_core q = row_core r"
  using assms
proof (induction rule: rem_step.induct)
  case (step_create sys env p)
  then show ?case using create_appends [of env p "rsys_db sys"] by auto
next
  case (step_claim sys n req env res db)
  show ?case
  proof (cases res)
    case (Inr a)
    then have "moved env (su_id req) Pending Processing None None (rsys_db sys) db"
      using claim_moved [OF step_claim.hyps(2)] by simp
    then show ?thesis using moved_core by simp
  qed (use claim_moved [OF step_claim.hyps(2)] in auto)
next
  case (step_finish sys n req oc env res db)
  then consider "db = rsys_db sys" | s h err where "moved env (su_id req) Processing s h err (rsys_db sys) db"
    using finish_moved [OF step_finish.hyps(2)] by blast
  then show ?case
  proof cases
    case 2
    then show ?thesis using moved_core by simp
  qed auto
qed auto

text \<open>A request past its checks, with the configuration they ran under.\<close>

definition passed :: "rem_sys \<Rightarrow> nat \<Rightarrow> submit_request \<Rightarrow> bool" where
  "passed sys n req \<longleftrightarrow> (\<exists>env. rsys_checkedWith sys n = Some env \<and> authorised env (rsys_db sys) req)"

definition checked_inv :: "rem_sys \<Rightarrow> bool" where
  "checked_inv sys \<longleftrightarrow>
     (\<forall>n req. (rsys_reqs sys n = Some (req, Checked) \<or> rsys_reqs sys n = Some (req, Claimed)) \<longrightarrow> passed sys n req)
     \<and> (\<forall>n x. (n, x) \<in> set (rsys_wire sys) \<longrightarrow>
          (\<exists>req ph oc. rsys_reqs sys n = Some (req, ph) \<and> ph \<notin> {Arrived, Checked, Claimed} \<and> x = su_signedXdr req
             \<and> (n, su_id req, oc) \<in> set (rsys_sent sys) \<and> passed sys n req))
     \<and> map fst (rsys_wire sys) = map fst (rsys_sent sys)"

lemma check_authorised:
  assumes "submit_check env req st = Inr r"
  shows "authorised env st req"
proof -
  obtain snd_addr q where q: "truthy_text (su_sender req) = Some snd_addr" "getRemittanceById env (su_id req) st = Inr q"
      "re_senderId q = snd_addr" "validateSignedXdr env q (su_signedXdr req) = Inr ()"
    using assms by (auto simp: submit_check_def split: if_splits option.splits sum.splits)
  obtain row where row: "row \<in> set (rem_rows st)" "rm_id row = su_id req" "q = toRemittance row"
    using q(2) by (auto simp: getRemittanceById_def find_remittance_def dest!: find_in split: option.splits)
  then show ?thesis using q unfolding authorised_def by (intro bexI [of _ row]) auto
qed

lemma step_checked:
  assumes "rem_step sys sys'" "checked_inv sys" "rem_sys_inv sys"
  shows "checked_inv sys'"
proof -
  have mono: "authorised env (rsys_db sys) req \<Longrightarrow> authorised env (rsys_db sys') req" for env req
    using authorised_mono [OF step_core [OF assms(1)]] .
  have I: "rsys_reqs sys n = Some (req, Checked) \<or> rsys_reqs sys n = Some (req, Claimed) \<Longrightarrow> passed sys n req"
    "(n, x) \<in> set (rsys_wire sys) \<Longrightarrow> \<exists>req ph oc. rsys_reqs sys n = Some (req, ph) \<and> ph \<notin> {Arrived, Checked, Claimed}
       \<and> x = su_signedXdr req \<and> (n, su_id req, oc) \<in> set (rsys_sent sys) \<and> passed sys n req"
    "map fst (rsys_wire sys) = map fst (rsys_sent sys)" for n req x
    using assms(2) unfolding checked_inv_def by blast+
  have passed: "passed sys n req \<Longrightarrow> rsys_checkedWith sys' n = rsys_checkedWith sys n \<Longrightarrow> passed sys' n req" for n req
    using mono by (auto simp: passed_def)
  have build: "checked_inv sys'"
    if reqs: "\<And>n req. rsys_reqs sys' n = Some (req, Checked) \<or> rsys_reqs sys' n = Some (req, Claimed) \<Longrightarrow> passed sys' n req"
      and wire: "rsys_wire sys' = rsys_wire sys" "rsys_sent sys' = rsys_sent sys"
      and old: "\<And>n req ph. rsys_reqs sys n = Some (req, ph) \<Longrightarrow> ph \<notin> {Arrived, Checked, Claimed} \<Longrightarrow>
        rsys_checkedWith sys' n = rsys_checkedWith sys n
        \<and> (\<exists>ph'. rsys_reqs sys' n = Some (req, ph') \<and> ph' \<notin> {Arrived, Checked, Claimed})"
    unfolding checked_inv_def wire using reqs I(2,3) old passed by (metis (no_types, lifting))
  show ?thesis
    using assms(1)
  proof (cases rule: rem_step.cases)
    case (step_create env p)
    show ?thesis by (rule build) (use step_create I(1) passed in auto)
  next
    case (step_arrive n req)
    show ?thesis by (rule build) (use step_arrive I(1) passed in \<open>auto split: if_splits\<close>)
  next
    case (step_check n req env)
    have now: "passed sys' n req" if "submit_check env req (rsys_db sys) = Inr r" for r
      using check_authorised [OF that] step_check by (auto simp: passed_def)
    show ?thesis by (rule build) (use step_check I(1) passed now in \<open>auto split: if_splits sum.splits\<close>)
  next
    case (step_claim n req env res db)
    show ?thesis by (rule build) (use step_claim I(1) passed in \<open>auto split: if_splits sum.splits\<close>)
  next
    case (step_finish n req oc env res db)
    show ?thesis by (rule build) (use step_finish I(1) passed in \<open>auto split: if_splits\<close>)
  next
    case (step_send n req oc)
    have same: "passed sys' m q" if "passed sys m q" for m q using that passed step_send by simp
    have "passed sys' m q" if "rsys_reqs sys' m = Some (q, Checked) \<or> rsys_reqs sys' m = Some (q, Claimed)" for m q
      using that step_send I(1) same by (auto split: if_splits)
    moreover have "\<exists>q ph oc. rsys_reqs sys' m = Some (q, ph) \<and> ph \<notin> {Arrived, Checked, Claimed} \<and> x = su_signedXdr q
        \<and> (m, su_id q, oc) \<in> set (rsys_sent sys') \<and> passed sys' m q" if w: "(m, x) \<in> set (rsys_wire sys')" for m x
    proof (cases "m = n")
      case True
      have "n \<notin> fst ` set (rsys_sent sys)" by (rule rem_sys_invD(3) [OF assms(3) step_send(2)])
      then have "n \<notin> fst ` set (rsys_wire sys)" using arg_cong [OF I(3), of set] by simp
      then have "x = su_signedXdr req" using w True step_send(1) by force
      moreover have "passed sys' n req" using same I(1) step_send(2) by blast
      ultimately show ?thesis using True step_send(1) by auto
    next
      case False
      then have "(m, x) \<in> set (rsys_wire sys)" using w step_send(1) by auto
      from I(2) [OF this] show ?thesis using False same step_send(1) by fastforce
    qed
    moreover have "map fst (rsys_wire sys') = map fst (rsys_sent sys')" using I(3) step_send(1) by simp
    ultimately show ?thesis unfolding checked_inv_def by blast
  qed
qed

lemma rem_reach_checked: "rem_step\<^sup>*\<^sup>* (rem_start cs) sys \<Longrightarrow> checked_inv sys"
proof (induction rule: rtranclp_induct)
  case base
  show ?case by (simp add: checked_inv_def rem_start_def)
next
  case (step sys sys')
  then show ?case by (intro step_checked [of sys sys'] rem_reach_inv)
qed

text \<open>
  C15. Every transaction handed to the network is the one its request carried, for a remittance the request's wallet is the sender
  of, and it passed the checks under the configuration that request ran with: it decodes there, and, for amounts within the limit of
  a request, is exactly one payment of the remittance's amount from its sender to its recipient in its asset. There is one such
  transaction for each submission.
\<close>

theorem submissions_were_validated:
  assumes "rem_step\<^sup>*\<^sup>* (rem_start cs) sys"
  shows "map fst (rsys_wire sys) = map fst (rsys_sent sys)
    \<and> (\<forall>n x. (n, x) \<in> set (rsys_wire sys) \<longrightarrow>
         (\<exists>req ph env r e oc. rsys_reqs sys n = Some (req, ph) \<and> x = su_signedXdr req \<and> (n, su_id req, oc) \<in> set (rsys_sent sys)
            \<and> rsys_checkedWith sys n = Some env
            \<and> r \<in> set (rem_rows (rsys_db sys)) \<and> rm_id r = su_id req \<and> su_sender req = Some (rm_sender_id r)
            \<and> validateSignedXdr env (toRemittance r) x = Inr () \<and> fromXDR (rn_sdk env) x (passphrase env) = Some e
            \<and> (0 < rm_stroops r \<and> rm_stroops r \<le> 10 ^ 13 \<longrightarrow> pays env r e)))"
proof (intro conjI allI impI)
  show "map fst (rsys_wire sys) = map fst (rsys_sent sys)" using rem_reach_checked [OF assms] by (simp add: checked_inv_def)
next
  fix n x assume "(n, x) \<in> set (rsys_wire sys)"
  then obtain req ph oc where req: "rsys_reqs sys n = Some (req, ph)" "x = su_signedXdr req" "(n, su_id req, oc) \<in> set (rsys_sent sys)"
      "passed sys n req" using rem_reach_checked [OF assms] unfolding checked_inv_def by blast
  from req(4) obtain env r where r: "rsys_checkedWith sys n = Some env" "r \<in> set (rem_rows (rsys_db sys))" "rm_id r = su_id req"
      "truthy_text (su_sender req) = Some (rm_sender_id r)" "validateSignedXdr env (toRemittance r) x = Inr ()"
    using req(2) by (auto simp: passed_def authorised_def)
  obtain e where e: "fromXDR (rn_sdk env) x (passphrase env) = Some e"
    using r(5) by (auto simp: validateSignedXdr_def split: option.splits)
  have "pays env r e" if "0 < rm_stroops r" "rm_stroops r \<le> 10 ^ 13"
    using validate_pays [OF that, of env x] r(5) e by auto
  moreover have "su_sender req = Some (rm_sender_id r)" using r(4) by (auto simp: truthy_text_def split: option.splits if_splits)
  ultimately show "\<exists>req ph env r e oc. rsys_reqs sys n = Some (req, ph) \<and> x = su_signedXdr req \<and> (n, su_id req, oc) \<in> set (rsys_sent sys)
            \<and> rsys_checkedWith sys n = Some env
            \<and> r \<in> set (rem_rows (rsys_db sys)) \<and> rm_id r = su_id req \<and> su_sender req = Some (rm_sender_id r)
            \<and> validateSignedXdr env (toRemittance r) x = Inr () \<and> fromXDR (rn_sdk env) x (passphrase env) = Some e
            \<and> (0 < rm_stroops r \<and> rm_stroops r \<le> 10 ^ 13 \<longrightarrow> pays env r e)"
    using req r e by blast
qed

subsection \<open>A run\<close>

definition demo_request :: submit_request where
  "demo_request = \<lparr>su_id = ''u1'', su_signedXdr = ''pay 25'', su_sender = Some demo_issuer\<rparr>"

definition demo_db :: "RemittanceRow \<Rightarrow> rem_state" where
  "demo_db r = no_remittances\<lparr>rem_rows := [r], rem_next_seq := 2\<rparr>"

definition demo_end :: rem_sys where
  "demo_end = \<lparr>rsys_db = demo_db (set_status demo_rem_env Completed (Some ''h'') None (set_status demo_rem_env Processing None None demo_rem_row)),
     rsys_reqs = [0 \<mapsto> (demo_request, Finished (Inr \<lparr>sp_id = ''u1'', sp_status = Completed, sp_txHash = ''h''\<rparr>))],
     rsys_sent = [(0, ''u1'', Confirmed ''h'')], rsys_wire = [(0, ''pay 25'')], rsys_checkedWith = [0 \<mapsto> demo_rem_env]\<rparr>"

lemma demo_accepted: "validateSignedXdr demo_rem_env (toRemittance demo_rem_row) ''pay 25'' = Inr ()"
proof -
  have "fromXDR (rn_sdk demo_rem_env) ''pay 25'' (passphrase demo_rem_env) = Some (demo_tx 250000000)"
    by (simp add: demo_rem_env_def demo_sdk_def)
  then show ?thesis
    unfolding validateSignedXdr_def toRemittance_sel by (simp add: demo_tx_def inner_transaction_def demo_rem_row_def demo_asset)
qed

lemma demo_row_sel [simp]: "rm_id demo_rem_row = ''u1''" "rm_sender_id demo_rem_row = demo_issuer" "rm_status demo_rem_row = Pending"
  "rm_transaction_hash demo_rem_row = None"
  by (simp_all add: demo_rem_row_def)

lemma demo_rem_env_sel [simp]: "rn_read_fault demo_rem_env = None" "rn_write_fault demo_rem_env = None" "rn_notify_fault demo_rem_env = None"
  by (simp_all add: demo_rem_env_def)

lemma demo_checked: "\<exists>r. submit_check demo_rem_env demo_request (demo_db demo_rem_row) = Inr r"
proof -
  have "demo_issuer \<noteq> []" by (simp add: demo_issuer_def)
  then show ?thesis
    by (simp add: submit_check_def demo_request_def truthy_text_def getRemittanceById_def find_remittance_def demo_db_def demo_accepted)
qed

lemma demo_claimed:
  "submit_claim demo_rem_env demo_request (demo_db demo_rem_row)
   = (Inr (toRemittance (set_status demo_rem_env Processing None None demo_rem_row)), demo_db (set_status demo_rem_env Processing None None demo_rem_row))"
  by (simp add: submit_claim_def updateRemittanceStatus_def demo_request_def demo_db_def Let_def)

lemma demo_rem_finished:
  "submit_finish demo_rem_env demo_request (Confirmed ''h'') (demo_db (set_status demo_rem_env Processing None None demo_rem_row))
   = (Inr \<lparr>sp_id = ''u1'', sp_status = Completed, sp_txHash = ''h''\<rparr>,
      demo_db (set_status demo_rem_env Completed (Some ''h'') None (set_status demo_rem_env Processing None None demo_rem_row)))"
  by (simp add: updateRemittanceStatus_def demo_request_def demo_db_def Let_def)

lemma demo_run: "rem_step\<^sup>*\<^sup>* (rem_start no_profiles) demo_end"
proof -
  let ?p = "set_status demo_rem_env Processing None None demo_rem_row" and ?c = "[0 \<mapsto> demo_rem_env]"
  let ?sys = "\<lambda>r reqs sent w c. \<lparr>rsys_db = demo_db r, rsys_reqs = reqs, rsys_sent = sent, rsys_wire = w, rsys_checkedWith = c\<rparr>"
  let ?s1 = "?sys demo_rem_row Map.empty [] [] Map.empty"
  let ?s2 = "?sys demo_rem_row [0 \<mapsto> (demo_request, Arrived)] [] [] Map.empty"
  let ?s3 = "?sys demo_rem_row [0 \<mapsto> (demo_request, Checked)] [] [] ?c"
  let ?s4 = "?sys ?p [0 \<mapsto> (demo_request, Claimed)] [] [] ?c"
  let ?s5 = "?sys ?p [0 \<mapsto> (demo_request, Answered (Confirmed ''h''))] [(0, ''u1'', Confirmed ''h'')] [(0, ''pay 25'')] ?c"
  have 1: "rem_step (rem_start no_profiles) ?s1"
    using step_create [of "rem_start no_profiles" demo_rem_env demo_rem_payload] demo_create
    by (simp add: rem_start_def no_remittances_def demo_db_def)
  have 2: "rem_step ?s1 ?s2" using step_arrive [of ?s1 0 demo_request] by simp
  have 3: "rem_step ?s2 ?s3" using step_check [of ?s2 0 demo_request demo_rem_env] demo_checked by auto
  have 4: "rem_step ?s3 ?s4" using step_claim [of ?s3 0 demo_request demo_rem_env] demo_claimed by simp
  have 5: "rem_step ?s4 ?s5" using step_send [of ?s4 0 demo_request "Confirmed ''h''"] by (simp add: demo_request_def)
  have 6: "rem_step ?s5 demo_end"
    using step_finish [of ?s5 0 demo_request "Confirmed ''h''" demo_rem_env]
    unfolding rem_sys.select_convs demo_rem_finished by (simp add: demo_end_def)
  show ?thesis using 1 2 3 4 5 6 by (meson converse_rtranclp_into_rtranclp rtranclp.rtrancl_refl)
qed

theorem remittance_submitted_at_most_once_witness:
  "submissions ''u1'' demo_end = [(0, ''u1'', Confirmed ''h'')] \<and> length (submissions ''u1'' demo_end) \<le> 1"
  using remittance_submitted_at_most_once [OF demo_run, of "''u1''"] by (simp add: submissions_def demo_end_def)

lemma demo_end_row: "rem_rows (rsys_db demo_end) = [set_status demo_rem_env Completed (Some ''h'') None (set_status demo_rem_env Processing None None demo_rem_row)]"
  by (simp add: demo_end_def demo_db_def)

theorem settled_remittance_is_final_witness:
  "\<forall>env p. set_status demo_rem_env Completed (Some ''h'') None (set_status demo_rem_env Processing None None demo_rem_row)
    \<in> set (rem_rows (rsys_db (demo_end\<lparr>rsys_db := snd (createRemittance env p (rsys_db demo_end))\<rparr>)))"
proof (intro allI)
  fix env p
  let ?sys = "demo_end\<lparr>rsys_db := snd (createRemittance env p (rsys_db demo_end))\<rparr>"
  have "rem_step demo_end ?sys" by (rule step_create)
  then show "set_status demo_rem_env Completed (Some ''h'') None (set_status demo_rem_env Processing None None demo_rem_row)
      \<in> set (rem_rows (rsys_db ?sys))"
    using settled_remittance_is_final [OF demo_run r_into_rtranclp [of rem_step demo_end ?sys]] demo_end_row by simp
qed

theorem completed_remittance_was_confirmed_witness:
  "\<exists>n h. submissions ''u1'' demo_end = [(n, ''u1'', Confirmed h)] \<and> (h \<noteq> [] \<longrightarrow>
     rm_transaction_hash (hd (rem_rows (rsys_db demo_end))) = Some h)"
  using completed_remittance_was_confirmed [OF demo_run, of "hd (rem_rows (rsys_db demo_end))"] by (simp add: demo_end_row)

theorem submissions_were_validated_witness:
  "\<exists>e. (0, ''pay 25'') \<in> set (rsys_wire demo_end) \<and> fromXDR (rn_sdk demo_rem_env) ''pay 25'' (passphrase demo_rem_env) = Some e
     \<and> pays demo_rem_env (hd (rem_rows (rsys_db demo_end))) e"
proof -
  have stroops: "rm_stroops (hd (rem_rows (rsys_db demo_end))) = 250000000"
    by (simp add: demo_end_row set_status_def demo_rem_row_def)
  have wire: "(0, ''pay 25'') \<in> set (rsys_wire demo_end)" "rsys_checkedWith demo_end 0 = Some demo_rem_env" by (simp_all add: demo_end_def)
  obtain env r e where env: "rsys_checkedWith demo_end 0 = Some env" "r \<in> set (rem_rows (rsys_db demo_end))"
      "fromXDR (rn_sdk env) ''pay 25'' (passphrase env) = Some e" "0 < rm_stroops r \<and> rm_stroops r \<le> 10 ^ 13 \<longrightarrow> pays env r e"
    using submissions_were_validated [OF demo_run, THEN conjunct2, THEN spec, THEN spec, THEN mp, OF wire(1)] by blast
  have "env = demo_rem_env" using env(1) wire(2) by simp
  moreover have "r = hd (rem_rows (rsys_db demo_end))" using env(2) by (simp add: demo_end_row)
  ultimately show ?thesis using wire(1) stroops env(3,4) by auto
qed

end
