(* ===== verification/RemittanceList.thy ===== *)
theory RemittanceList
  imports RemittanceRuns "HOL-Library.List_Lexorder"
begin

section \<open>Listing remittances (\<open>controllers/remittanceController.ts\<close>, \<open>services/remittanceService.ts\<close>)\<close>

text \<open>
  The listing builds a query text and its parameters from the request. A condition of the clause is kept
  as a value with its text, its parameters and its meaning on a row; the texts are those of the code.
  The database refuses a text whose highest placeholder is not the number of parameters, a bigint out of
  range and a NUL in a text. Shown: the count query never binds, so that the handler never answers; the
  page query alone does bind, and its pages, followed by their cursors, are the snapshot of the first one.
\<close>

subsection \<open>Conditions\<close>

datatype cond =
    CStatus string
  | CFrom int
  | CTo int
  | CSearch string
  | CSeq int
  | CAfter "int \<times> int"
  | CBefore int

fun cond_sql :: "nat \<Rightarrow> cond \<Rightarrow> string" where
  "cond_sql n (CStatus s) = '' AND status = '' @ dollar (n + 1)"
| "cond_sql n (CFrom t) = '' AND created_at >= '' @ dollar (n + 1)"
| "cond_sql n (CTo t) = '' AND created_at <= '' @ dollar (n + 1)"
| "cond_sql n (CSearch q) = '' AND (recipient_address ILIKE '' @ dollar (n + 1) @ '' OR memo ILIKE '' @ dollar (n + 2) @ '')''"
| "cond_sql n (CSeq k) = '' AND seq <= '' @ dollar (n + 1)"
| "cond_sql n (CAfter c) = '' AND (created_at < '' @ dollar (n + 1) @ '' OR (created_at = '' @ dollar (n + 2) @ '' AND seq < '' @ dollar (n + 3) @ ''))''"
| "cond_sql n (CBefore t) = '' AND created_at < '' @ dollar (n + 1)"

fun cond_params :: "cond \<Rightarrow> sql_param list" where
  "cond_params (CStatus s) = [PText s]"
| "cond_params (CFrom t) = [PText (toISOString t)]"
| "cond_params (CTo t) = [PText (toISOString t)]"
| "cond_params (CSearch q) = [PText (''%'' @ q @ ''%''), PText (''%'' @ q @ ''%'')]"
| "cond_params (CSeq k) = [PText (int_to_string k)]"
| "cond_params (CAfter c) = [PText (toISOString (fst c)), PText (toISOString (fst c)), PText (int_to_string (snd c))]"
| "cond_params (CBefore t) = [PText (toISOString t)]"

text \<open>\<open>LIKE\<close>: \<open>%\<close> for any text, \<open>_\<close> for one character, a backslash for the character after it.\<close>

fun like :: "string \<Rightarrow> string \<Rightarrow> bool" where
  "like [] s = (s = [])"
| "like (p # ps) [] = (p = CHR ''%'' \<and> like ps [])"
| "like (p # ps) (c # cs) =
     (if p = CHR ''%'' then like ps (c # cs) \<or> like (p # ps) cs
      else if p = CHR ''_'' then like ps cs
      else if p = CHR 0x5C then (case ps of e # es \<Rightarrow> e = c \<and> like es cs | [] \<Rightarrow> False)
      else p = c \<and> like ps cs)"

definition ilike :: "string \<Rightarrow> string \<Rightarrow> bool" where
  "ilike s pat \<longleftrightarrow> like (toLowerCase pat) (toLowerCase s)"

fun cond_holds :: "cond \<Rightarrow> RemittanceRow \<Rightarrow> bool" where
  "cond_holds (CStatus s) r \<longleftrightarrow> status_text (rm_status r) = s"
| "cond_holds (CFrom t) r \<longleftrightarrow> 1000 * t \<le> rm_created_at r"
| "cond_holds (CTo t) r \<longleftrightarrow> rm_created_at r \<le> 1000 * t"
| "cond_holds (CSearch q) r \<longleftrightarrow> ilike (rm_recipient_address r) (''%'' @ q @ ''%'')
     \<or> (case rm_memo r of Some m \<Rightarrow> ilike m (''%'' @ q @ ''%'') | None \<Rightarrow> False)"
| "cond_holds (CSeq k) r \<longleftrightarrow> rm_seq r \<le> k"
| "cond_holds (CAfter c) r \<longleftrightarrow> after_cursor rm_created_at rm_seq c r"
| "cond_holds (CBefore t) r \<longleftrightarrow> rm_created_at r < 1000 * t"

definition bigint :: "int \<Rightarrow> bool" where
  "bigint n \<longleftrightarrow> - (2 ^ 63) \<le> n \<and> n < 2 ^ 63"

fun cond_in_range :: "cond \<Rightarrow> bool" where
  "cond_in_range (CSeq k) \<longleftrightarrow> bigint k"
| "cond_in_range (CAfter c) \<longleftrightarrow> bigint (snd c)"
| "cond_in_range _ \<longleftrightarrow> True"

fun param_ok :: "sql_param \<Rightarrow> bool" where
  "param_ok (PInt n) = True"
| "param_ok (PText s) = list_all (\<lambda>c. c \<noteq> CHR 0x00) s"

text \<open>The clause and the parameters, one condition after the other.\<close>

definition add_cond :: "cond \<Rightarrow> string \<times> sql_param list \<Rightarrow> string \<times> sql_param list" where
  "add_cond c q = (fst q @ cond_sql (length (snd q)) c, snd q @ cond_params c)"

definition where_clause :: "string \<Rightarrow> cond list \<Rightarrow> string \<times> sql_param list" where
  "where_clause sender cs = fold add_cond cs (''sender_id = '' @ dollar 1, [PText sender])"

definition selected :: "string \<Rightarrow> cond list \<Rightarrow> RemittanceRow list \<Rightarrow> RemittanceRow list" where
  "selected sender cs rows = filter (\<lambda>r. rm_sender_id r = sender \<and> list_all (\<lambda>c. cond_holds c r) cs) rows"

text \<open>A query with a text and parameters: the database's refusals, or its result.\<close>

definition execute :: "db_error option \<Rightarrow> string \<Rightarrow> sql_param list \<Rightarrow> cond list \<Rightarrow> 'a \<Rightarrow> db_error + 'a" where
  "execute fault sql params cs result =
     (case fault of
        Some er \<Rightarrow> Inl er
      | None \<Rightarrow>
          if \<not> bind_ok sql params then Inl (DbError ''08P01'')
          else if \<not> list_all param_ok params then Inl (DbError ''22021'')
          else if \<not> list_all cond_in_range cs then Inl (DbError ''22003'')
          else Inr result)"

subsection \<open>The handlers\<close>

record list_query =
  lq_user :: "string option"
  lq_snapshot_seq :: "string option"
  lq_cursor :: "string option"
  lq_limit :: "string option"
  lq_status :: "string option"
  lq_from :: "string option"
  lq_to :: "string option"
  lq_q :: "string option"

text \<open>The fault of the n-th query, if any; an unexpected error is known by its code.\<close>

record list_env =
  le_js :: js_env
  le_fault :: "nat \<Rightarrow> db_error option"

definition date_condition :: "js_env \<Rightarrow> (int \<Rightarrow> cond) \<Rightarrow> string \<Rightarrow> string option \<Rightarrow> thrown + cond list" where
  "date_condition js mk name v =
     (case truthy_text v of
        None \<Rightarrow> Inr []
      | Some s \<Rightarrow>
          (case Date_parse (date_other js) s of
             None \<Rightarrow> Inl (App (badRequest (''Invalid '' @ [CHR 0x27] @ name @ [CHR 0x27] @ '' date format'') None None))
           | Some t \<Rightarrow> Inr [mk t]))"

definition conditions :: "js_env \<Rightarrow> list_query \<Rightarrow> thrown + cond list" where
  "conditions js q =
     (let status = (case truthy_text (lq_status q) of Some s \<Rightarrow> [CStatus s] | None \<Rightarrow> []);
          search = (case truthy_text (lq_q q) of Some s \<Rightarrow> [CSearch s] | None \<Rightarrow> [])
      in case date_condition js CFrom ''from'' (lq_from q) of
           Inl e \<Rightarrow> Inl e
         | Inr from \<Rightarrow>
             (case date_condition js CTo ''to'' (lq_to q) of
                Inl e \<Rightarrow> Inl e
              | Inr to \<Rightarrow> Inr (status @ from @ to @ search)))"

record list_page_result =
  lp_rows :: "RemittanceRow list"
  lp_next :: "string option"
  lp_snapshot :: int
  lp_limit :: int
  lp_where :: string
  lp_params :: "sql_param list"
  lp_conds :: "cond list"
  lp_sender :: string

definition newest_limited :: "int \<Rightarrow> RemittanceRow list \<Rightarrow> RemittanceRow list" where
  "newest_limited k rows = take (nat k) (newest_first rm_created_at rm_seq rows)"

definition page_sql :: "string \<Rightarrow> nat \<Rightarrow> string" where
  "page_sql w n = ''SELECT * FROM remittances WHERE '' @ w @ '' ORDER BY created_at DESC, seq DESC LIMIT '' @ dollar n"

text \<open>The page query and the next cursor.\<close>

definition query_page :: "list_env \<Rightarrow> string \<Rightarrow> int \<Rightarrow> (int \<times> int) option \<Rightarrow> cond list \<Rightarrow> int \<Rightarrow> rem_state \<Rightarrow> thrown + list_page_result" where
  "query_page env sender limit decoded cs0 snap st =
     (let cs = cs0 @ [CSeq snap] @ (case decoded of Some c \<Rightarrow> [CAfter c] | None \<Rightarrow> []);
          w = fst (where_clause sender cs);
          params = snd (where_clause sender cs) @ [PInt (limit + 1)]
      in case execute (le_fault env 1) (page_sql w (length params)) params cs
                (newest_limited (limit + 1) (selected sender cs (rem_rows st))) of
           Inl er \<Rightarrow> Inl (db_thrown er)
         | Inr result \<Rightarrow>
             (let hasNext = limit < int (length result);
                  remittances = (if hasNext then take (nat limit) result else result)
              in Inr \<lparr>lp_rows = remittances,
                      lp_next = (if hasNext \<and> remittances \<noteq> []
                        then Some (encodeCursor (rm_created_at (last remittances) div 1000) (rm_seq (last remittances)))
                        else None),
                      lp_snapshot = snap, lp_limit = limit, lp_where = w, lp_params = params,
                      lp_conds = cs, lp_sender = sender\<rparr>))"

text \<open>The snapshot is pinned by the first request.\<close>

definition pin_snapshot :: "list_env \<Rightarrow> int \<Rightarrow> rem_state \<Rightarrow> db_error + int" where
  "pin_snapshot env snap st =
     (if snap = 0 then (case le_fault env 0 of Some er \<Rightarrow> Inl er | None \<Rightarrow> Inr (max_seq rm_seq (rem_rows st))) else Inr snap)"

definition decode_optional :: "js_env \<Rightarrow> string option \<Rightarrow> AppError + (int \<times> int) option" where
  "decode_optional js c = (case c of None \<Rightarrow> Inr None | Some t \<Rightarrow> map_sum id Some (decodeCursor js t))"

text \<open>The handler up to the next cursor.\<close>

definition list_page :: "list_env \<Rightarrow> list_query \<Rightarrow> rem_state \<Rightarrow> thrown + list_page_result" where
  "list_page env q st =
     (case truthy_text (lq_user q) of
        None \<Rightarrow> Inl (App (unauthorized ''Wallet address not found in request'' None))
      | Some sender \<Rightarrow>
          (case parseKeysetParams (lq_snapshot_seq q) (lq_cursor q) (lq_limit q) of
             Inl e \<Rightarrow> Inl (App e)
           | Inr kp \<Rightarrow>
               (case decode_optional (le_js env) (kp_cursor kp) of
                  Inl e \<Rightarrow> Inl (App e)
                | Inr decoded \<Rightarrow>
                    (case conditions (le_js env) q of
                       Inl e \<Rightarrow> Inl e
                     | Inr cs \<Rightarrow>
                         (case pin_snapshot env (kp_snapshotSeq kp) st of
                            Inl er \<Rightarrow> Inl (db_thrown er)
                          | Inr snap \<Rightarrow> query_page env sender (kp_limit kp) decoded cs snap st)))))"

record list_response =
  lr_data :: "Remittance list"
  lr_next_cursor :: "string option"
  lr_snapshot_seq :: string
  lr_total_at_snapshot :: int
  lr_limit :: int

definition count_params :: "list_page_result \<Rightarrow> sql_param list" where
  "count_params p = butlast (butlast (butlast (lp_params p))) @ [PText (int_to_string (lp_snapshot p))]"

definition count_sql :: "list_page_result \<Rightarrow> string" where
  "count_sql p =
     ''SELECT COUNT(*) as count FROM remittances WHERE ''
       @ replace_first ('' AND seq <= '' @ dollar (length (lp_params p))) [] (lp_where p)
       @ '' AND seq <= '' @ dollar (length (count_params p))"

definition getRemittances :: "list_env \<Rightarrow> list_query \<Rightarrow> rem_state \<Rightarrow> thrown + list_response" where
  "getRemittances env q st =
     (case list_page env q st of
        Inl e \<Rightarrow> Inl e
      | Inr p \<Rightarrow>
          (case execute (le_fault env 2) (count_sql p) (count_params p) (lp_conds p)
                  (int (length (selected (lp_sender p) (lp_conds p) (rem_rows st)))) of
             Inl er \<Rightarrow> Inl (db_thrown er)
           | Inr count \<Rightarrow>
               Inr \<lparr>lr_data = map toRemittance (lp_rows p), lr_next_cursor = lp_next p,
                    lr_snapshot_seq = int_to_string (lp_snapshot p), lr_total_at_snapshot = count, lr_limit = lp_limit p\<rparr>))"

text \<open>The other handlers.\<close>

definition create_handler :: "rem_env \<Rightarrow> string option \<Rightarrow> (string \<Rightarrow> create_payload) \<Rightarrow> rem_state \<Rightarrow> (thrown + Remittance) \<times> rem_state" where
  "create_handler env user body st =
     (case truthy_text user of
        None \<Rightarrow> (Inl (App (unauthorized ''Wallet address not found in request'' None)), st)
      | Some senderAddress \<Rightarrow> createRemittance env (body senderAddress) st)"

definition getRemittance :: "rem_env \<Rightarrow> string option \<Rightarrow> string \<Rightarrow> rem_state \<Rightarrow> thrown + Remittance" where
  "getRemittance env user i st =
     (case truthy_text user of
        None \<Rightarrow> Inl (App (unauthorized ''Wallet address not found in request'' None))
      | Some senderAddress \<Rightarrow>
          if i = [] then Inl (App (badRequest ''Remittance ID is required'' None None))
          else case getRemittanceById env i st of
              Inl e \<Rightarrow> Inl e
            | Inr r \<Rightarrow> if re_senderId r \<noteq> senderAddress then Inl (App (forbidden ''You do not have access to this remittance'' None)) else Inr r)"

text \<open>
  The listing of the service, with its own cursor, the creation time of the last row. Its rows are
  ordered by time and then by the text of the identifier.
\<close>

record service_page =
  sl_remittances :: "Remittance list"
  sl_total :: int
  sl_nextCursor :: "string option"

definition service_conditions :: "js_env \<Rightarrow> list_query \<Rightarrow> thrown + cond list" where
  "service_conditions js q =
     (case conditions js q of
        Inl e \<Rightarrow> Inl e
      | Inr cs \<Rightarrow>
          (case truthy_text (lq_cursor q) of
             None \<Rightarrow> Inr cs
           | Some c \<Rightarrow>
               (case Date_parse (date_other js) c of
                  None \<Rightarrow> Inl (App (badRequest ''Invalid cursor'' None None))
                | Some t \<Rightarrow> Inr (cs @ [CBefore t]))))"

definition by_time_and_id :: "RemittanceRow list \<Rightarrow> RemittanceRow list" where
  "by_time_and_id rows = sort_key (\<lambda>r. - rm_created_at r) (rev (sort_key (\<lambda>r. map (of_char :: char \<Rightarrow> nat) (rm_id r)) rows))"

definition service_getRemittances :: "list_env \<Rightarrow> string \<Rightarrow> int \<Rightarrow> list_query \<Rightarrow> rem_state \<Rightarrow> thrown + service_page" where
  "service_getRemittances env userId limit q st =
     (let failure = Inl (App (internal ''Failed to fetch remittances'' None)) in
      case service_conditions (le_js env) q of
        Inl e \<Rightarrow> Inl e
      | Inr cs \<Rightarrow>
          (let w = fst (where_clause userId cs); params = snd (where_clause userId cs) in
           case execute (le_fault env 0)
                  (''SELECT * FROM remittances WHERE '' @ w @ '' ORDER BY created_at DESC, id DESC LIMIT '' @ dollar (length params + 1))
                  (params @ [PInt (limit + 1)]) cs
                  (take (nat (limit + 1)) (by_time_and_id (selected userId cs (rem_rows st)))) of
             Inl er \<Rightarrow> failure
           | Inr result \<Rightarrow>
               (case execute (le_fault env 1) (''SELECT COUNT(*) as total FROM remittances WHERE '' @ w) params cs
                       (int (length (selected userId cs (rem_rows st)))) of
                  Inl er \<Rightarrow> failure
                | Inr count \<Rightarrow>
                    (let hasNext = limit < int (length result);
                         remittances = map toRemittance (if hasNext then take (nat limit) result else result)
                     in Inr \<lparr>sl_remittances = remittances, sl_total = count,
                             sl_nextCursor = (if hasNext \<and> remittances \<noteq> [] then Some (re_createdAt (last remittances)) else None)\<rparr>))))"

subsection \<open>What binds\<close>

lemma cond_sql_digit: "no_digit (cond_sql n c @ t)" "no_digit (cond_sql n c)"
  by (cases c; simp add: is_digit_def)+

lemma highest_cond: "highest (cond_sql n c) = n + length (cond_params c)"
  by (cases c) (simp_all add: highest_def placeholders_plain placeholders_dollar placeholders_dollar_end is_digit_def)

lemma where_binds: "highest (fst (where_clause sender cs)) = length (snd (where_clause sender cs))"
proof (induction cs rule: rev_induct)
  case Nil
  show ?case by (simp add: where_clause_def highest_def placeholders_plain placeholders_dollar_end)
next
  case (snoc c cs)
  then show ?case by (simp add: where_clause_def add_cond_def highest_append [OF cond_sql_digit(2)] highest_cond)
qed

lemma where_params: "1 \<le> length (snd (where_clause sender cs))"
  by (induction cs rule: rev_induct) (simp_all add: where_clause_def add_cond_def)

lemma page_binds:
  "bind_ok (page_sql (fst (where_clause sender cs)) (length (snd (where_clause sender cs)) + 1)) (snd (where_clause sender cs) @ [x])"
proof -
  have "highest (page_sql w n) = max (highest w) n" for w n
    by (simp add: page_sql_def highest_def placeholders_plain placeholders_append placeholders_dollar_end foldr_max_append is_digit_def
        del: foldr_append)
  then show ?thesis by (simp add: bind_ok_def where_binds)
qed

lemma list_page_clause:
  assumes "list_page env q st = Inr p"
  shows "lp_where p = fst (where_clause (lp_sender p) (lp_conds p))" "length (lp_params p) = length (snd (where_clause (lp_sender p) (lp_conds p))) + 1"
    "CSeq (lp_snapshot p) \<in> set (lp_conds p)"
  using assms by (auto simp: list_page_def query_page_def Let_def split: option.splits sum.splits if_splits)

lemma where_params_two: "cs \<noteq> [] \<Longrightarrow> 2 \<le> length (snd (where_clause sender cs))"
proof (induction cs rule: rev_induct)
  case (snoc c cs)
  have "1 \<le> length (cond_params c)" by (cases c) simp_all
  then show ?case using where_params [of sender cs] by (simp add: where_clause_def add_cond_def)
qed simp

lemma count_does_not_bind:
  assumes "list_page env q st = Inr p"
  shows "highest (count_sql p) = length (count_params p) + 1" "\<not> bind_ok (count_sql p) (count_params p)"
proof -
  note c = list_page_clause [OF assms]
  let ?n = "length (snd (where_clause (lp_sender p) (lp_conds p)))"
  have n: "2 \<le> ?n" using where_params_two c(3) by (metis empty_iff empty_set)
  have w: "highest (lp_where p) = ?n" by (simp add: c(1) where_binds)
  have r: "replace_first ('' AND seq <= '' @ dollar (length (lp_params p))) [] (lp_where p) = lp_where p"
    by (rule replace_first_absent) (simp add: c(2) w)
  have l: "length (count_params p) = ?n - 1" using c(2) n by (simp add: count_params_def)
  have "highest (count_sql p) = max (highest (lp_where p)) (length (count_params p))"
    unfolding count_sql_def r
    by (simp add: highest_def placeholders_plain placeholders_append placeholders_dollar_end foldr_max_append is_digit_def del: foldr_append)
  then show "highest (count_sql p) = length (count_params p) + 1" using w l n by simp
  then show "\<not> bind_ok (count_sql p) (count_params p)" by (simp add: bind_ok_def)
qed

text \<open>
  The count query of the listing always asks for one parameter more than it is given, so the handler
  answers no request: after a page query that succeeded it fails with a protocol violation.
\<close>

theorem remittance_listing_never_answers:
  "(\<exists>e. getRemittances env q st = Inl e)
   \<and> (\<forall>p. list_page env q st = Inr p \<longrightarrow> le_fault env 2 = None \<longrightarrow>
        highest (count_sql p) = length (count_params p) + 1 \<and> getRemittances env q st = Inl (Unexpected ''08P01'' []))"
  by (auto simp: getRemittances_def execute_def db_thrown_def count_does_not_bind split: sum.splits option.splits)

definition demo_list_env :: list_env where
  "demo_list_env = \<lparr>le_js = \<lparr>date_other = (\<lambda>_. None), syntax_message = (\<lambda>s. s)\<rparr>, le_fault = (\<lambda>_. None)\<rparr>"

definition demo_list_query :: list_query where
  "demo_list_query = \<lparr>lq_user = Some demo_issuer, lq_snapshot_seq = None, lq_cursor = None, lq_limit = None, lq_status = None,
     lq_from = None, lq_to = None, lq_q = None\<rparr>"

lemma zero_text: "int_to_string 0 = ''0''"
  by code_simp

lemma demo_list_page: "\<exists>p. list_page demo_list_env demo_list_query no_remittances = Inr p \<and> lp_rows p = []"
proof -
  have w: "where_clause demo_issuer [CSeq 0] = (''sender_id = '' @ dollar 1 @ '' AND seq <= '' @ dollar 2, [PText demo_issuer, PText ''0''])"
    by (simp add: where_clause_def add_cond_def numeral_2_eq_2 zero_text)
  have "bind_ok (page_sql (fst (where_clause demo_issuer [CSeq 0])) (length (snd (where_clause demo_issuer [CSeq 0])) + 1))
      (snd (where_clause demo_issuer [CSeq 0]) @ [PInt 51])" by (rule page_binds)
  then have "bind_ok (page_sql (''sender_id = '' @ dollar 1 @ '' AND seq <= '' @ dollar 2) 3) [PText demo_issuer, PText ''0'', PInt 51]"
    unfolding w by (simp add: numeral_3_eq_3)
  moreover have "demo_issuer \<noteq> []" "list_all (\<lambda>c. c \<noteq> CHR 0x00) demo_issuer" by (simp_all add: demo_issuer_def list_all_iff)
  ultimately show ?thesis
    by (simp add: list_page_def query_page_def pin_snapshot_def decode_optional_def demo_list_env_def demo_list_query_def truthy_text_def parseKeysetParams_def trimmed_text_def DEFAULT_LIMIT_def
        conditions_def date_condition_def no_remittances_def max_seq_def w execute_def numeral_3_eq_3 bigint_def selected_def
        newest_limited_def newest_first_def Let_def)
qed

theorem remittance_listing_never_answers_witness:
  "getRemittances demo_list_env demo_list_query no_remittances = Inl (Unexpected ''08P01'' [])"
  using demo_list_page remittance_listing_never_answers [of demo_list_env demo_list_query no_remittances] by (auto simp: demo_list_env_def)

subsection \<open>Pages\<close>

text \<open>What a page query selects and the cursor it answers is a page of the keyset listing.\<close>

lemma selected_page:
  "selected sender (cs @ [CSeq snap] @ (case cursor of Some c \<Rightarrow> [CAfter c] | None \<Rightarrow> [])) rows
   = filter (in_page rm_created_at rm_seq snap cursor) (selected sender cs rows)"
  by (auto simp: selected_def in_page_def list_all_append conj_ac split: option.splits intro!: filter_cong)

text \<open>The cursor of a request, decoded.\<close>

definition page_cursor :: "list_env \<Rightarrow> list_query \<Rightarrow> (int \<times> int) option" where
  "page_cursor env q = (case decode_optional (le_js env) (trimmed_text (lq_cursor q)) of Inl e \<Rightarrow> None | Inr d \<Rightarrow> d)"

lemma parsed_cursor: "parseKeysetParams s c l = Inr kp \<Longrightarrow> kp_cursor kp = trimmed_text c"
  "parseKeysetParams s c l = Inr kp \<Longrightarrow> 1 \<le> kp_limit kp"
  by (auto simp: parseKeysetParams_def DEFAULT_LIMIT_def MAX_LIMIT_def min_def split: option.splits if_splits)

lemma list_page_Inr:
  assumes "list_page env q st = Inr p" "conditions (le_js env) q = Inr cs"
  obtains sender limit snap where "1 \<le> limit" "query_page env sender limit (page_cursor env q) cs snap st = Inr p"
proof -
  obtain sender kp decoded snap where k: "parseKeysetParams (lq_snapshot_seq q) (lq_cursor q) (lq_limit q) = Inr kp"
      "decode_optional (le_js env) (kp_cursor kp) = Inr decoded" "query_page env sender (kp_limit kp) decoded cs snap st = Inr p"
    using assms by (auto simp: list_page_def split: option.splits sum.splits)
  have "decoded = page_cursor env q" using k(2) parsed_cursor(1) [OF k(1)] by (simp add: page_cursor_def)
  then show ?thesis using that k(3) parsed_cursor(2) [OF k(1)] by blast
qed

lemma execute_Inr: "execute fault sql params cs r = Inr x \<Longrightarrow> x = r"
  by (auto simp: execute_def split: option.splits if_splits)

lemma query_page_keyset:
  assumes "query_page env sender limit cursor cs snap st = Inr p" "1 \<le> limit"
  shows "keyset_page rm_created_at rm_seq snap cursor (nat limit) (selected sender cs (rem_rows st))
      = (lp_rows p, map_option (\<lambda>_. row_cursor rm_created_at rm_seq (last (lp_rows p))) (lp_next p))"
    "lp_next p \<noteq> None \<Longrightarrow> lp_next p = Some (encodeCursor (rm_created_at (last (lp_rows p)) div 1000) (rm_seq (last (lp_rows p))))"
    "lp_snapshot p = snap" "lp_limit p = limit" "lp_sender p = sender"
proof -
  let ?cs = "cs @ [CSeq snap] @ (case cursor of Some c \<Rightarrow> [CAfter c] | None \<Rightarrow> [])"
  let ?result = "newest_limited (limit + 1) (selected sender ?cs (rem_rows st))"
  let ?items = "if limit < int (length ?result) then take (nat limit) ?result else ?result"
  have p: "lp_rows p = ?items" "lp_next p = (if limit < int (length ?result) \<and> ?items \<noteq> []
      then Some (encodeCursor (rm_created_at (last ?items) div 1000) (rm_seq (last ?items))) else None)"
      "lp_snapshot p = snap" "lp_limit p = limit" "lp_sender p = sender"
    using assms(1) unfolding query_page_def Let_def by (auto split: sum.splits dest!: execute_Inr)
  have n: "nat (limit + 1) = nat limit + 1" "limit < int (length ?result) \<longleftrightarrow> nat limit < length ?result" using assms(2) by auto
  have r: "?result = take (nat limit + 1) (newest_first rm_created_at rm_seq (filter (in_page rm_created_at rm_seq snap cursor) (selected sender cs (rem_rows st))))"
    unfolding newest_limited_def selected_page n(1) ..
  show "keyset_page rm_created_at rm_seq snap cursor (nat limit) (selected sender cs (rem_rows st))
      = (lp_rows p, map_option (\<lambda>_. row_cursor rm_created_at rm_seq (last (lp_rows p))) (lp_next p))"
    unfolding keyset_page_def r [symmetric] p(1,2) n(2) Let_def by simp
  show "lp_next p = Some (encodeCursor (rm_created_at (last (lp_rows p)) div 1000) (rm_seq (last (lp_rows p))))" if "lp_next p \<noteq> None"
    using that unfolding p(1,2) by (simp split: if_splits)
  show "lp_snapshot p = snap" "lp_limit p = limit" "lp_sender p = sender" by (rule p(3-5))+
qed

text \<open>
  The rows that the listing reads, and the cursor it makes of the last one, are the page of the keyset
  listing after the given cursor, over the rows that satisfy the filters of the request.
\<close>

theorem list_page_refines_keyset_page:
  assumes "list_page env q st = Inr p" "conditions (le_js env) q = Inr cs"
  shows "\<exists>c. keyset_page rm_created_at rm_seq (lp_snapshot p) (page_cursor env q) (nat (lp_limit p)) (selected (lp_sender p) cs (rem_rows st))
      = (lp_rows p, c) \<and> lp_next p = map_option (\<lambda>(t, n). encodeCursor t n) c"
proof -
  obtain sender limit snap where k: "1 \<le> limit" "query_page env sender limit (page_cursor env q) cs snap st = Inr p"
    using list_page_Inr [OF assms] .
  note kp = query_page_keyset [OF k(2,1)]
  show ?thesis unfolding kp(3-5) kp(1) using kp(2) by (cases "lp_next p") (auto simp: row_cursor_def)
qed

theorem list_page_refines_keyset_page_witness:
  "\<exists>p c. list_page demo_list_env demo_list_query no_remittances = Inr p
     \<and> keyset_page rm_created_at rm_seq (lp_snapshot p) (page_cursor demo_list_env demo_list_query) (nat (lp_limit p))
         (selected (lp_sender p) [] (rem_rows no_remittances)) = (lp_rows p, c)"
proof -
  have "conditions (le_js demo_list_env) demo_list_query = Inr []"
    by (simp add: conditions_def date_condition_def demo_list_query_def truthy_text_def)
  then show ?thesis using demo_list_page list_page_refines_keyset_page [of demo_list_env demo_list_query no_remittances] by metis
qed

subsection \<open>Following the cursors\<close>

lemma map_insort_key: "map f (insort_key (\<lambda>x. k (f x)) x xs) = insort_key k (f x) (map f xs)"
  by (induction xs) auto

lemma map_sort_key: "map f (sort_key (\<lambda>x. k (f x)) xs) = sort_key k (map f xs)"
  by (induction xs) (simp_all add: map_insort_key)

lemma map_newest_first: "map f (newest_first (\<lambda>x. cr (f x)) (\<lambda>x. sq (f x)) rows) = newest_first cr sq (map f rows)"
proof -
  have "newest_key (\<lambda>x. cr (f x)) (\<lambda>x. sq (f x)) = (\<lambda>x. newest_key cr sq (f x))" by (simp add: newest_key_def fun_eq_iff)
  then show ?thesis by (simp add: newest_first_def map_sort_key)
qed

lemma map_snapshot_view: "map f (snapshot_view (\<lambda>x. cr (f x)) (\<lambda>x. sq (f x)) snap rows) = snapshot_view cr sq snap (map f rows)"
  by (simp add: snapshot_view_def filter_map comp_def map_newest_first)

lemma map_keyset_page:
  "keyset_page cr sq snap cursor limit (map f rows)
   = map_prod (map f) id (keyset_page (\<lambda>x. cr (f x)) (\<lambda>x. sq (f x)) snap cursor limit rows)"
proof -
  have "in_page cr sq snap cursor \<circ> f = in_page (\<lambda>x. cr (f x)) (\<lambda>x. sq (f x)) snap cursor"
    by (auto simp: in_page_def after_cursor_def fun_eq_iff split: option.splits)
  then have eq: "take (limit + 1) (newest_first cr sq (filter (in_page cr sq snap cursor) (map f rows)))
      = map f (take (limit + 1) (newest_first (\<lambda>x. cr (f x)) (\<lambda>x. sq (f x)) (filter (in_page (\<lambda>x. cr (f x)) (\<lambda>x. sq (f x)) snap cursor) rows)))"
    by (simp add: filter_map map_newest_first [symmetric] take_map)
  define R where "R = take (limit + 1) (newest_first (\<lambda>x. cr (f x)) (\<lambda>x. sq (f x)) (filter (in_page (\<lambda>x. cr (f x)) (\<lambda>x. sq (f x)) snap cursor) rows))"
  show ?thesis unfolding keyset_page_def Let_def eq R_def [symmetric] by (auto simp: row_cursor_def last_map take_map)
qed

lemma map_follow:
  "follow cr sq snap limit (map (map f) tables) cursor = map f (follow (\<lambda>x. cr (f x)) (\<lambda>x. sq (f x)) snap limit tables cursor)"
  by (induction tables arbitrary: cursor) (auto simp: map_keyset_page split: prod.splits option.splits)

text \<open>The table as the listing of a sender sees it: who, when and in which order.\<close>

definition id_created :: "string \<times> string \<times> int \<times> int \<Rightarrow> int" where
  "id_created i = fst (snd (snd i))"

definition id_seq :: "string \<times> string \<times> int \<times> int \<Rightarrow> int" where
  "id_seq i = snd (snd (snd i))"

interpretation rk: keyset_exact rem_inv "\<lambda>st. map row_identity (rem_rows st)" id_created id_seq
  by unfold_locales (auto simp: rem_inv_def id_seq_def id_created_def row_identity_def comp_def)

lemma selected_identities:
  "map row_identity (selected sender [] rows) = filter (\<lambda>i. fst (snd i) = sender) (map row_identity rows)"
  by (simp add: selected_def filter_map comp_def row_identity_def)

lemma evolved_view:
  assumes "evolved st st'" "snap < rem_next_seq st"
  shows "snapshot_view id_created id_seq snap (filter P (map row_identity (rem_rows st')))
    = snapshot_view id_created id_seq snap (filter P (map row_identity (rem_rows st)))"
proof -
  obtain new where new: "map row_identity (rem_rows st') = map row_identity (rem_rows st) @ map row_identity new"
      "\<forall>r\<in>set new. rem_next_seq st \<le> rm_seq r" using assms(1) by (auto simp: evolved_def)
  have "\<forall>i\<in>set (filter P (map row_identity new)). snap < id_seq i"
    using new(2) assms(2) by (fastforce simp: id_seq_def row_identity_def)
  then show ?thesis unfolding new(1) filter_append by (rule snapshot_view_grown)
qed

text \<open>
  The page query by itself, without the count query that keeps the handler from answering: its pages, each read
  at the cursor of the one before, are exactly the remittances of the table at the first page, each once and the
  newest first, while requests create and settle remittances in between. Rows become visible in the order of
  their \<open>seq\<close>.
\<close>

theorem remittance_pages_cover_snapshot:
  assumes "rem_inv st" "\<forall>st'\<in>set later. rem_inv st' \<and> evolved st st'" "0 < limit"
    and "snap = max_seq rm_seq (rem_rows st)" "rem_rows st \<noteq> []"
    and "length (selected sender [] (rem_rows st)) \<le> limit * (length later + 1)"
  shows "map rm_id (follow rm_created_at rm_seq snap limit (map (\<lambda>s. selected sender [] (rem_rows s)) (st # later)) None)
    = map rm_id (newest_first rm_created_at rm_seq (selected sender [] (rem_rows st)))"
proof -
  let ?P = "\<lambda>i. fst (snd i) = sender"
  let ?view = "snapshot_view id_created id_seq snap (filter ?P (map row_identity (rem_rows st)))"
  have fn: "(\<lambda>x. id_created (row_identity x)) = rm_created_at" "(\<lambda>x. id_seq (row_identity x)) = rm_seq"
    by (simp_all add: id_created_def id_seq_def row_identity_def)
  have le: "\<forall>r\<in>set (rem_rows st). rm_seq r \<le> snap" using assms(4,5) by (simp add: max_seq_def)
  have "snap \<in> rm_seq ` set (rem_rows st)" using assms(4,5) by (simp add: max_seq_def)
  then have lt: "snap < rem_next_seq st" using assms(1) by (auto simp: rem_inv_def)
  have all: "snapshot_view rm_created_at rm_seq snap (selected sender [] (rem_rows st)) = newest_first rm_created_at rm_seq (selected sender [] (rem_rows st))"
    using le by (simp add: snapshot_view_def selected_def) (metis (mono_tags, lifting) filter_cong)
  have view: "?view = map row_identity (newest_first rm_created_at rm_seq (selected sender [] (rem_rows st)))"
    using map_snapshot_view [of row_identity id_created id_seq snap "selected sender [] (rem_rows st)"]
    by (simp add: fn all selected_identities)
  have "follow id_created id_seq snap limit (map (\<lambda>s. filter ?P (map row_identity (rem_rows s))) (st # later)) None = ?view"
  proof (rule rk.follow_complete [OF assms(3)])
    show "length ?view \<le> limit * length (st # later)" unfolding view using assms(6) by (simp add: newest_first_def)
    show "\<forall>s\<in>set (st # later). rem_inv s \<and> snapshot_view id_created id_seq snap (filter ?P (map row_identity (rem_rows s))) = ?view"
    proof
      fix s assume "s \<in> set (st # later)"
      then have "rem_inv s \<and> evolved st s" using assms(1,2) by auto
      then show "rem_inv s \<and> snapshot_view id_created id_seq snap (filter ?P (map row_identity (rem_rows s))) = ?view"
        using evolved_view [OF _ lt, of s ?P] by blast
    qed
  qed simp
  then have "map row_identity (follow rm_created_at rm_seq snap limit (map (\<lambda>s. selected sender [] (rem_rows s)) (st # later)) None) = ?view"
    using map_follow [of id_created id_seq snap limit row_identity "map (\<lambda>s. selected sender [] (rem_rows s)) (st # later)" None]
    by (simp add: fn selected_identities comp_def)
  from arg_cong [OF this [unfolded view], of "map fst"] show ?thesis by (simp add: comp_def row_identity_def)
qed

theorem remittance_pages_cover_snapshot_witness:
  "map rm_id (follow rm_created_at rm_seq 1 1 (map (\<lambda>s. selected demo_issuer [] (rem_rows s)) [demo_db demo_rem_row,
       snd (createRemittance demo_rem_env demo_rem_payload (demo_db demo_rem_row))]) None) = [''u1'']"
proof -
  let ?st = "demo_db demo_rem_row"
  have inv: "rem_inv ?st" by (simp add: rem_inv_def demo_db_def demo_rem_row_def)
  have s: "selected demo_issuer [] (rem_rows ?st) = [demo_rem_row]" by (simp add: selected_def demo_db_def)
  have m: "max_seq rm_seq (rem_rows ?st) = 1" by (simp add: max_seq_def demo_db_def demo_rem_row_def)
  let ?st' = "snd (createRemittance demo_rem_env demo_rem_payload ?st)"
  have "map rm_id (newest_first rm_created_at rm_seq (selected demo_issuer [] (rem_rows ?st))) = [''u1'']" by (simp add: s newest_first_def)
  moreover have "map rm_id (follow rm_created_at rm_seq 1 1 (map (\<lambda>s. selected demo_issuer [] (rem_rows s)) [?st, ?st']) None)
      = map rm_id (newest_first rm_created_at rm_seq (selected demo_issuer [] (rem_rows ?st)))"
  proof (rule remittance_pages_cover_snapshot [OF inv _ _ m [symmetric]])
    show "\<forall>s\<in>set [?st']. rem_inv s \<and> evolved ?st s" using create_inv [OF inv] create_evolved by simp
    show "length (selected demo_issuer [] (rem_rows ?st)) \<le> 1 * (length [?st'] + 1)" unfolding s by simp
    show "rem_rows ?st \<noteq> []" unfolding demo_db_def by simp
  qed simp
  ultimately show ?thesis by (rule trans [rotated])
qed

end
