(* ===== verification/Rbac.thy ===== *)
theory Rbac
  imports AppErrors EventDecode
begin

section \<open>Roles, scopes and tenants (\<open>auth/rbac.ts\<close>, \<open>middleware/rbac.ts\<close>, \<open>loanAccess.ts\<close>, \<open>tenantService.ts\<close>)\<close>

text \<open>
  The role of a wallet comes from lists in the environment, its scopes from a table; the middlewares are
  functions of the authenticated user, the request and the table \<open>agent_assignments\<close> that return the user
  they let through or the error they throw. Members of a request that are not texts are left out.
  Shown: exactly who passes each gate, what removing an assignment does, and what an auditor can do.
\<close>

subsection \<open>Roles\<close>

datatype UserRole = Admin | Super_admin | Ops | Support | Agent | Borrower | Auditor | Lender

fun ROLE_SCOPES :: "UserRole \<Rightarrow> string list" where
  "ROLE_SCOPES Admin = [''admin:all'']"
| "ROLE_SCOPES Super_admin = [''admin:all'']"
| "ROLE_SCOPES Ops = [''read:loans'', ''read:pool'', ''read:score'', ''read:remittances'', ''read:notifications'']"
| "ROLE_SCOPES Support = [''read:loans'', ''read:score'', ''read:remittances'', ''read:notifications'']"
| "ROLE_SCOPES Agent = [''read:loans'', ''write:loans'', ''read:pool'', ''write:pool'', ''read:score'', ''read:notifications'',
     ''write:notifications'', ''read:remittances'', ''write:remittances'', ''agents:view-assigned'']"
| "ROLE_SCOPES Borrower = [''read:loans'', ''write:loans'', ''read:score'', ''read:notifications'', ''write:notifications'',
     ''read:remittances'', ''write:remittances'']"
| "ROLE_SCOPES Auditor = [''read:audit'', ''read:compliance'', ''read:loans'', ''read:score'', ''read:notifications'', ''read:remittances'', ''read:pool'']"
| "ROLE_SCOPES Lender = [''read:loans'', ''read:pool'', ''write:loans'', ''write:pool'']"

fun ROLE_HIERARCHY :: "UserRole \<Rightarrow> nat" where
  "ROLE_HIERARCHY Admin = 4"
| "ROLE_HIERARCHY Super_admin = 4"
| "ROLE_HIERARCHY Ops = 2"
| "ROLE_HIERARCHY Support = 2"
| "ROLE_HIERARCHY Agent = 3"
| "ROLE_HIERARCHY Auditor = 2"
| "ROLE_HIERARCHY Lender = 3"
| "ROLE_HIERARCHY Borrower = 1"

record role_vars =
  SUPER_ADMIN_WALLETS :: "string option"
  OPS_WALLETS :: "string option"
  SUPPORT_WALLETS :: "string option"
  ADMIN_WALLETS :: "string option"
  AGENT_WALLETS :: "string option"
  AUDITOR_WALLETS :: "string option"
  LENDER_WALLETS :: "string option"

definition parseWalletSet :: "string option \<Rightarrow> string set" where
  "parseWalletSet wallets =
     (case truthy_text wallets of
        None \<Rightarrow> {}
      | Some w \<Rightarrow> set (filter (\<lambda>x. x \<noteq> []) (map trim (split_on (CHR '','') w))))"

definition resolveRoleForWallet :: "role_vars \<Rightarrow> string \<Rightarrow> UserRole" where
  "resolveRoleForWallet v publicKey =
     (if publicKey \<in> parseWalletSet (SUPER_ADMIN_WALLETS v) then Super_admin
      else if publicKey \<in> parseWalletSet (OPS_WALLETS v) then Ops
      else if publicKey \<in> parseWalletSet (SUPPORT_WALLETS v) then Support
      else if publicKey \<in> parseWalletSet (ADMIN_WALLETS v) then Admin
      else if publicKey \<in> parseWalletSet (AGENT_WALLETS v) then Agent
      else if publicKey \<in> parseWalletSet (AUDITOR_WALLETS v) then Auditor
      else if publicKey \<in> parseWalletSet (LENDER_WALLETS v) then Lender
      else Borrower)"

definition resolveScopesForRole :: "UserRole \<Rightarrow> string list" where
  "resolveScopesForRole role = ROLE_SCOPES role"

definition isRoleAtLeast :: "UserRole option \<Rightarrow> UserRole \<Rightarrow> bool" where
  "isRoleAtLeast role minimum = (case role of None \<Rightarrow> False | Some r \<Rightarrow> ROLE_HIERARCHY minimum \<le> ROLE_HIERARCHY r)"

subsection \<open>Requests\<close>

record JwtPayload =
  jp_publicKey :: string
  jp_role :: UserRole
  jp_scopes :: "string list"
  jp_jti :: string
  jp_iat :: int
  jp_exp :: int
  jp_tokenType :: "string option"
  jp_familyId :: "string option"
  jp_deviceFingerprint :: "string option"
  jp_assignedBorrowers :: "string list option"

record request =
  rq_user :: "JwtPayload option"
  rq_params :: "string \<rightharpoonup> string"
  rq_body :: "string \<rightharpoonup> string"
  rq_query :: "string \<rightharpoonup> string"

definition requireUser :: "request \<Rightarrow> AppError + JwtPayload" where
  "requireUser req =
     (case rq_user req of
        None \<Rightarrow> Inl (unauthorized ''Authentication required'' None)
      | Some u \<Rightarrow> if jp_publicKey u = [] then Inl (unauthorized ''Authentication required'' None) else Inr u)"

definition requireRole :: "UserRole list \<Rightarrow> request \<Rightarrow> AppError + JwtPayload" where
  "requireRole roles req =
     try_then (requireUser req) (\<lambda>user.
       if jp_role user \<notin> set roles then Inl (forbidden ''Insufficient role permissions'' (Some ACCESS_DENIED)) else Inr user)"

definition requireScopes :: "string list \<Rightarrow> request \<Rightarrow> AppError + JwtPayload" where
  "requireScopes requiredScopes req =
     try_then (requireUser req) (\<lambda>user.
       if ''admin:all'' \<in> set (jp_scopes user) then Inr user
       else case find (\<lambda>s. s \<notin> set (jp_scopes user)) requiredScopes of
           Some missingScope \<Rightarrow>
             if missingScope = [] then Inr user
             else Inl (forbidden (''Missing required scope: '' @ missingScope) (Some ACCESS_DENIED))
         | None \<Rightarrow> Inr user)"

definition requireRoleAtLeast :: "UserRole \<Rightarrow> request \<Rightarrow> AppError + JwtPayload" where
  "requireRoleAtLeast minimum req =
     try_then (requireUser req) (\<lambda>user.
       if \<not> isRoleAtLeast (Some (jp_role user)) minimum then Inl (forbidden ''Insufficient role permissions'' (Some ACCESS_DENIED)) else Inr user)"

definition canAccessWallet :: "JwtPayload \<Rightarrow> string option \<Rightarrow> bool" where
  "canAccessWallet user targetWallet =
     (case truthy_text targetWallet of
        None \<Rightarrow> False
      | Some target \<Rightarrow>
          if jp_role user = Admin \<or> jp_role user = Auditor then True
          else if jp_publicKey user = target then True
          else if jp_role user = Agent \<or> jp_role user = Lender
          then target \<in> set (case jp_assignedBorrowers user of None \<Rightarrow> [] | Some bs \<Rightarrow> bs)
          else False)"

subsection \<open>Assignments\<close>

record AgentAssignment =
  as_agent :: string
  as_borrower :: string
  as_created_at :: int
  as_created_by :: "string option"

record tenant_db =
  tn_assignments :: "AgentAssignment list"
  tn_fault :: "db_error option"

definition borrowers_of :: "string \<Rightarrow> tenant_db \<Rightarrow> string list" where
  "borrowers_of agent db = map as_borrower (filter (\<lambda>a. as_agent a = agent) (tn_assignments db))"

definition resolveAssignedBorrowers :: "tenant_db \<Rightarrow> string \<Rightarrow> UserRole option \<Rightarrow> string list" where
  "resolveAssignedBorrowers db publicKey role =
     (if role \<noteq> Some Agent \<and> role \<noteq> Some Lender then []
      else case tn_fault db of Some _ \<Rightarrow> [] | None \<Rightarrow> borrowers_of publicKey db)"

definition assignBorrowerToAgent ::
  "int \<Rightarrow> string \<Rightarrow> string \<Rightarrow> string option \<Rightarrow> tenant_db \<Rightarrow> (db_error + AgentAssignment) \<times> tenant_db" where
  "assignBorrowerToAgent now agent borrower createdBy db =
     (case tn_fault db of
        Some er \<Rightarrow> (Inl er, db)
      | None \<Rightarrow>
          (case find (\<lambda>a. as_agent a = agent \<and> as_borrower a = borrower) (tn_assignments db) of
             Some a \<Rightarrow> (Inr a, db)
           | None \<Rightarrow>
               (let row = \<lparr>as_agent = agent, as_borrower = borrower, as_created_at = now, as_created_by = createdBy\<rparr>
                in (Inr row, db\<lparr>tn_assignments := tn_assignments db @ [row]\<rparr>))))"

definition removeBorrowerFromAgent :: "string \<Rightarrow> string \<Rightarrow> tenant_db \<Rightarrow> (db_error + bool) \<times> tenant_db" where
  "removeBorrowerFromAgent agent borrower db =
     (let hit = (\<lambda>a. as_agent a = agent \<and> as_borrower a = borrower) in
      case tn_fault db of
        Some er \<Rightarrow> (Inl er, db)
      | None \<Rightarrow> (Inr (filter hit (tn_assignments db) \<noteq> []), db\<lparr>tn_assignments := filter (\<lambda>a. \<not> hit a) (tn_assignments db)\<rparr>))"

definition listAgentAssignments :: "string \<Rightarrow> tenant_db \<Rightarrow> db_error + AgentAssignment list" where
  "listAgentAssignments agent db =
     (case tn_fault db of
        Some er \<Rightarrow> Inl er
      | None \<Rightarrow> Inr (sort_key (\<lambda>a. - as_created_at a) (filter (\<lambda>a. as_agent a = agent) (tn_assignments db))))"

definition listAssignedBorrowersForAgent :: "string \<Rightarrow> tenant_db \<Rightarrow> db_error + string list" where
  "listAssignedBorrowersForAgent agent db =
     (case tn_fault db of Some er \<Rightarrow> Inl er | None \<Rightarrow> Inr (borrowers_of agent db))"

definition enrichAssignedBorrowers :: "tenant_db \<Rightarrow> JwtPayload \<Rightarrow> JwtPayload" where
  "enrichAssignedBorrowers db user =
     (if jp_role user \<noteq> Agent \<and> jp_role user \<noteq> Lender then user
      else if (case jp_assignedBorrowers user of None \<Rightarrow> 0 | Some bs \<Rightarrow> length bs) > 0 then user
      else case tn_fault db of
          Some _ \<Rightarrow> user
        | None \<Rightarrow> user\<lparr>jp_assignedBorrowers := Some (borrowers_of (jp_publicKey user) db)\<rparr>)"

subsection \<open>Tenant gates\<close>

fun first_given :: "string option list \<Rightarrow> string option" where
  "first_given [] = None"
| "first_given (Some x # xs) = Some x"
| "first_given (None # xs) = first_given xs"

definition resolveRequestedWallet :: "request \<Rightarrow> string option" where
  "resolveRequestedWallet req =
     first_given
       (map (rq_params req) [''borrower'', ''wallet'', ''userId'', ''walletAddress'', ''address'', ''agentAddress'']
        @ map (rq_body req) [''wallet'', ''borrowerPublicKey'', ''publicKey'']
        @ map (rq_query req) [''borrower'', ''wallet''])"

definition requireTenantAccess :: "tenant_db \<Rightarrow> request \<Rightarrow> AppError + JwtPayload" where
  "requireTenantAccess db req =
     try_then (requireUser req) (\<lambda>user.
       case truthy_text (resolveRequestedWallet req) of
         None \<Rightarrow> Inl (badRequest ''Wallet address is required'' None None)
       | Some target \<Rightarrow>
           (let user' = enrichAssignedBorrowers db user in
            if \<not> canAccessWallet user' (Some target)
            then Inl (forbidden ''You are not authorized to access this wallet'' (Some ACCESS_DENIED))
            else Inr user'))"

definition requireWriteTenantAccess :: "tenant_db \<Rightarrow> request \<Rightarrow> AppError + JwtPayload" where
  "requireWriteTenantAccess db req =
     try_then (requireUser req) (\<lambda>user.
       if jp_role user = Auditor then Inl (forbidden ''Auditor role is read-only'' (Some ACCESS_DENIED))
       else requireTenantAccess db req)"

definition requireAssignedBorrowerAccess :: "tenant_db \<Rightarrow> request \<Rightarrow> AppError + JwtPayload" where
  "requireAssignedBorrowerAccess db req =
     try_then (requireUser req) (\<lambda>user.
       case truthy_text (resolveRequestedWallet req) of
         None \<Rightarrow> Inl (badRequest ''Borrower wallet address is required'' None None)
       | Some target \<Rightarrow>
           if jp_role user = Admin \<or> jp_role user = Auditor then Inr user
           else
             (let user' = enrichAssignedBorrowers db user in
              if \<not> canAccessWallet user' (Some target)
              then Inl (forbidden ''You are not authorized to access this borrower'' (Some ACCESS_DENIED))
              else Inr user'))"

definition requireAuditAccess :: "request \<Rightarrow> AppError + JwtPayload" where
  "requireAuditAccess = requireRole [Admin, Auditor]"

definition requireAdmin :: "request \<Rightarrow> AppError + JwtPayload" where
  "requireAdmin = requireRole [Admin]"

definition requireAgent :: "request \<Rightarrow> AppError + JwtPayload" where
  "requireAgent = requireRole [Agent, Lender, Admin]"

definition requireBorrower :: "request \<Rightarrow> AppError + JwtPayload" where
  "requireBorrower = requireRole [Borrower, Admin]"

definition requireLender :: "request \<Rightarrow> AppError + JwtPayload" where
  "requireLender = requireRole [Lender, Agent, Admin]"

definition requireWalletOwnership :: "request \<Rightarrow> AppError + unit" where
  "requireWalletOwnership req =
     (case truthy_text (map_option jp_publicKey (rq_user req)) of
        None \<Rightarrow> Inl (unauthorized ''Authentication required'' None)
      | Some authenticatedWallet \<Rightarrow>
          (case truthy_text (first_given [rq_params req ''borrower'', rq_params req ''wallet'', rq_body req ''wallet'']) of
             None \<Rightarrow> Inl (badRequest ''Wallet address is required'' None None)
           | Some requestedWallet \<Rightarrow>
               if requestedWallet \<noteq> authenticatedWallet
               then Inl (forbidden ''You are not authorized to access this wallet'' None) else Inr ()))"

definition requireWalletParamMatchesJwt :: "string \<Rightarrow> request \<Rightarrow> AppError + unit" where
  "requireWalletParamMatchesJwt paramName req =
     (case truthy_text (map_option jp_publicKey (rq_user req)) of
        None \<Rightarrow> Inl (unauthorized ''Authentication required'' None)
      | Some authenticatedWallet \<Rightarrow>
          (case truthy_text (rq_params req paramName) of
             None \<Rightarrow> Inl (badRequest (paramName @ '' is required'') None None)
           | Some requested \<Rightarrow>
               if requested \<noteq> authenticatedWallet
               then Inl (forbidden ''You are not authorized to access this resource'' None) else Inr ()))"

subsection \<open>Loans\<close>

text \<open>
  A loan's address is that of one of its events: the query has no order, so which one is the choice \<open>pick\<close>
  of the database. \<open>loan_number\<close> is PostgreSQL's reading of the parameter as an integer. The view \<open>loan_events\<close>
  has the rows of the events under the columns \<open>ln_view_columns\<close>; a query for a column it lacks fails.
\<close>

record loan_db =
  ln_events :: "contract_event list"
  ln_view_columns :: "string list"
  ln_pick :: "contract_event list \<Rightarrow> contract_event"
  loan_number :: "string \<Rightarrow> int option"
  ln_fault :: "db_error option"

definition loan_address :: "loan_db \<Rightarrow> contract_event list \<Rightarrow> string \<Rightarrow> thrown + string option option" where
  "loan_address db rows loanId =
     (case ln_fault db of
        Some er \<Rightarrow> Inl (Unexpected (db_code er) [])
      | None \<Rightarrow>
          (case loan_number db loanId of
             None \<Rightarrow> Inl (Unexpected ''22P02'' [])
           | Some n \<Rightarrow>
               (let hits = filter (\<lambda>r. ce_loan_id r = Some n) rows in
                Inr (if hits = [] then None else Some (ce_address (ln_pick db hits))))))"

definition requireLoanBorrowerAccess :: "loan_db \<Rightarrow> tenant_db \<Rightarrow> request \<Rightarrow> thrown + unit" where
  "requireLoanBorrowerAccess ldb tdb req =
     (case rq_user req of
        None \<Rightarrow> Inl (App (unauthorized ''Authentication required'' None))
      | Some user \<Rightarrow>
          if jp_publicKey user = [] then Inl (App (unauthorized ''Authentication required'' None))
          else case truthy_text (rq_params req ''loanId'') of
              None \<Rightarrow> Inl (App (badRequest ''Loan ID is required'' None None))
            | Some loanId \<Rightarrow>
                if jp_role user \<in> {Admin, Auditor, Lender} then Inr ()
                else try_then (loan_address ldb (ln_events ldb) loanId) (\<lambda>row.
                  case row of
                    None \<Rightarrow> Inl (App (notFound ''Loan not found'' None None))
                  | Some address \<Rightarrow>
                      (let denied = Inl (App (forbidden ''You are not authorized to access this loan'' (Some ACCESS_DENIED)));
                           assigned = filter (\<lambda>b. b \<noteq> []) (case jp_assignedBorrowers user of None \<Rightarrow> [] | Some bs \<Rightarrow> bs)
                       in if address = Some (jp_publicKey user) then Inr ()
                          else if jp_role user = Agent then
                            (if assigned \<noteq> [] then (if address \<in> Some ` set assigned then Inr () else denied)
                             else case tn_fault tdb of
                                 Some er \<Rightarrow> Inl (Unexpected (db_code er) [])
                               | None \<Rightarrow>
                                   if \<exists>a\<in>set (tn_assignments tdb). as_agent a = jp_publicKey user \<and> Some (as_borrower a) = address
                                   then Inr () else denied)
                          else denied)))"

text \<open>The view as the migrations leave it: the address of an event is there under the name \<open>borrower\<close>.\<close>

definition loan_events_columns :: "string list" where
  "loan_events_columns = [''id'', ''event_id'', ''event_type'', ''loan_id'', ''borrower'', ''amount'', ''ledger'', ''ledger_closed_at'',
     ''tx_hash'', ''contract_id'', ''topics'', ''value'', ''created_at'']"

definition requireLoanOwner :: "loan_db \<Rightarrow> request \<Rightarrow> thrown + unit" where
  "requireLoanOwner ldb req =
     (case truthy_text (map_option jp_publicKey (rq_user req)) of
        None \<Rightarrow> Inl (App (unauthorized ''Authentication required'' None))
      | Some pk \<Rightarrow>
          (case (case truthy_text (rq_params req ''loanId'') of None \<Rightarrow> truthy_text (rq_params req ''id'') | i \<Rightarrow> i) of
             None \<Rightarrow> Inl (App (badRequest ''Loan ID is required'' None None))
           | Some loanId \<Rightarrow>
               try_then (if ''address'' \<in> set (ln_view_columns ldb) then loan_address ldb (ln_events ldb) loanId
                         else Inl (Unexpected ''42703'' [])) (\<lambda>row.
                 case row of
                   None \<Rightarrow> Inl (App (notFound ''Loan not found'' None None))
                 | Some address \<Rightarrow>
                     if address \<noteq> Some pk
                     then Inl (App (forbidden ''You are not authorized to access this loan'' (Some ACCESS_DENIED)))
                     else Inr ())))"

subsection \<open>Who passes\<close>

text \<open>
  The policy, on the fields of the token and the rows of the table: administrators and auditors reach every
  wallet, everybody the own one, an agent or lender a wallet that the token's claim names and, with a token
  whose claim names nobody, one that a row of the table assigns to it while the table can be read.
\<close>

definition may_reach :: "tenant_db \<Rightarrow> JwtPayload \<Rightarrow> string \<Rightarrow> bool" where
  "may_reach db u target \<longleftrightarrow>
     jp_role u \<in> {Admin, Auditor} \<or> jp_publicKey u = target
     \<or> jp_role u \<in> {Agent, Lender}
       \<and> ((\<exists>bs. jp_assignedBorrowers u = Some bs \<and> target \<in> set bs)
         \<or> jp_assignedBorrowers u \<in> {None, Some []} \<and> tn_fault db = None
           \<and> (\<exists>a\<in>set (tn_assignments db). as_agent a = jp_publicKey u \<and> as_borrower a = target))"

lemma enrich_sel [simp]: "jp_role (enrichAssignedBorrowers db u) = jp_role u" "jp_publicKey (enrichAssignedBorrowers db u) = jp_publicKey u"
  by (simp_all add: enrichAssignedBorrowers_def split: option.splits)

lemma enrich_borrowers:
  assumes "jp_role u \<in> {Agent, Lender}"
  shows "target \<in> set (case jp_assignedBorrowers (enrichAssignedBorrowers db u) of None \<Rightarrow> [] | Some bs \<Rightarrow> bs) \<longleftrightarrow>
    (\<exists>bs. jp_assignedBorrowers u = Some bs \<and> target \<in> set bs)
    \<or> jp_assignedBorrowers u \<in> {None, Some []} \<and> tn_fault db = None
      \<and> (\<exists>a\<in>set (tn_assignments db). as_agent a = jp_publicKey u \<and> as_borrower a = target)"
proof (cases "jp_assignedBorrowers u \<in> {None, Some []}")
  case True
  with assms show ?thesis by (cases "tn_fault db") (auto simp: enrichAssignedBorrowers_def borrowers_of_def)
next
  case False
  then obtain b bs where "jp_assignedBorrowers u = Some (b # bs)" by (metis insertCI list.exhaust option.exhaust)
  with assms show ?thesis by (simp add: enrichAssignedBorrowers_def)
qed

lemma access_iff: "target \<noteq> [] \<Longrightarrow> canAccessWallet (enrichAssignedBorrowers db u) (Some target) \<longleftrightarrow> may_reach db u target"
  using enrich_borrowers [of u target db] by (auto simp: canAccessWallet_def truthy_text_def may_reach_def)

lemma truthy_Some: "truthy_text x = Some y \<longleftrightarrow> x = Some y \<and> y \<noteq> []"
  by (auto simp: truthy_text_def split: option.splits if_splits)

lemma requireUser_Inr: "requireUser req = Inr u \<longleftrightarrow> rq_user req = Some u \<and> jp_publicKey u \<noteq> []"
  by (auto simp: requireUser_def split: option.splits)

lemma tenant_value:
  "requireTenantAccess db req = Inr u' \<longleftrightarrow>
     (\<exists>u target. rq_user req = Some u \<and> jp_publicKey u \<noteq> [] \<and> resolveRequestedWallet req = Some target \<and> target \<noteq> [] \<and> may_reach db u target
        \<and> u' = enrichAssignedBorrowers db u)"
proof (cases "truthy_text (resolveRequestedWallet req)")
  case (Some t)
  then have t: "resolveRequestedWallet req = Some t" "t \<noteq> []" "truthy_text (Some t) = Some t" by (auto simp: truthy_Some)
  then show ?thesis by (auto simp: requireTenantAccess_def try_then_Inr requireUser_Inr access_iff Let_def split: if_splits)
qed (auto simp: requireTenantAccess_def try_then_Inr truthy_text_def split: option.splits if_splits)

lemma assigned_value:
  "(\<exists>u'. requireAssignedBorrowerAccess db req = Inr u') \<longleftrightarrow>
     (\<exists>u target. rq_user req = Some u \<and> jp_publicKey u \<noteq> [] \<and> resolveRequestedWallet req = Some target \<and> target \<noteq> [] \<and> may_reach db u target)"
proof (cases "truthy_text (resolveRequestedWallet req)")
  case (Some t)
  then have t: "resolveRequestedWallet req = Some t" "t \<noteq> []" "truthy_text (Some t) = Some t" by (auto simp: truthy_Some)
  have admin: "jp_role u \<in> {Admin, Auditor} \<Longrightarrow> may_reach db u t" for u by (simp add: may_reach_def)
  show ?thesis
  proof (cases "requireUser req")
    case (Inr u)
    then have u: "rq_user req = Some u" "jp_publicKey u \<noteq> []" by (simp_all add: requireUser_Inr)
    have "(\<exists>u'. requireAssignedBorrowerAccess db req = Inr u') \<longleftrightarrow> may_reach db u t"
      using t admin [of u] by (auto simp: requireAssignedBorrowerAccess_def Inr access_iff Let_def)
    then show ?thesis using u t(1,2) by auto
  qed (use requireUser_Inr [of req] in \<open>auto simp: requireAssignedBorrowerAccess_def\<close>)
qed (auto simp: requireAssignedBorrowerAccess_def try_then_Inr truthy_text_def split: option.splits if_splits)


definition write_scope :: "string \<Rightarrow> bool" where
  "write_scope s \<longleftrightarrow> take 6 s = ''write:''"

lemma read_only_scopes: "jp_scopes u = xs \<Longrightarrow> set xs \<subseteq> set (resolveScopesForRole r) \<Longrightarrow> r \<in> {Auditor, Ops, Support} \<Longrightarrow>
    x \<in> set xs \<Longrightarrow> \<not> write_scope x \<and> x \<noteq> ''admin:all''"
proof -
  assume a: "set xs \<subseteq> set (resolveScopesForRole r)" "r \<in> {Auditor, Ops, Support}" "x \<in> set xs"
  have "\<forall>s\<in>set (resolveScopesForRole r). \<not> write_scope s \<and> s \<noteq> ''admin:all''"
    using a(2) by (auto simp: resolveScopesForRole_def write_scope_def)
  then show ?thesis using a by blast
qed

lemma requireScopes_Inr:
  assumes "requireScopes scopes req = Inr u" "[] \<notin> set scopes"
  shows "rq_user req = Some u" "''admin:all'' \<in> set (jp_scopes u) \<or> set scopes \<subseteq> set (jp_scopes u)"
proof -
  have "find P scopes \<noteq> Some []" for P
  proof
    assume "find P scopes = Some []"
    then have "[] \<in> set scopes" using nth_mem by (fastforce simp: find_Some_iff)
    then show False using assms(2) by contradiction
  qed
  then show "rq_user req = Some u" "''admin:all'' \<in> set (jp_scopes u) \<or> set scopes \<subseteq> set (jp_scopes u)"
    using assms(1) by (auto simp: requireScopes_def try_then_Inr requireUser_Inr find_None_iff split: if_splits option.splits)
qed

text \<open>
  An auditor, an operator or a support user whose scopes are those of its role, or fewer, passes no gate
  that asks for a writing scope, and an auditor passes no gate for the writes of a tenant.
\<close>

theorem read_only_roles_never_write:
  assumes "rq_user req = Some u" "jp_role u \<in> {Auditor, Ops, Support}" "set (jp_scopes u) \<subseteq> set (resolveScopesForRole (jp_role u))"
    and "s \<in> set scopes" "write_scope s" "[] \<notin> set scopes"
  shows "(\<exists>e. requireScopes scopes req = Inl e) \<and> (jp_role u = Auditor \<longrightarrow> (\<exists>e. requireWriteTenantAccess db req = Inl e))"
proof -
  have "requireScopes scopes req \<noteq> Inr u'" for u'
  proof
    assume r: "requireScopes scopes req = Inr u'"
    have u': "u' = u" using requireScopes_Inr(1) [OF r assms(6)] assms(1) by simp
    have "''admin:all'' \<in> set (jp_scopes u) \<or> s \<in> set (jp_scopes u)" using requireScopes_Inr(2) [OF r assms(6)] assms(4) u' by blast
    then show False using read_only_scopes [OF refl assms(3,2)] assms(5) by blast
  qed
  then have "\<exists>e. requireScopes scopes req = Inl e" by (cases "requireScopes scopes req") auto
  moreover have "jp_role u = Auditor \<Longrightarrow> \<exists>e. requireWriteTenantAccess db req = Inl e"
    using assms(1) by (auto simp: requireWriteTenantAccess_def requireUser_def)
  ultimately show ?thesis by blast
qed

definition demo_user :: "UserRole \<Rightarrow> string list option \<Rightarrow> JwtPayload" where
  "demo_user r bs = \<lparr>jp_publicKey = ''GA'', jp_role = r, jp_scopes = resolveScopesForRole r, jp_jti = ''j'', jp_iat = 0, jp_exp = 900,
     jp_tokenType = Some ''access'', jp_familyId = Some ''f'', jp_deviceFingerprint = None, jp_assignedBorrowers = bs\<rparr>"

definition demo_req :: "UserRole \<Rightarrow> string list option \<Rightarrow> string \<Rightarrow> request" where
  "demo_req r bs w = \<lparr>rq_user = Some (demo_user r bs), rq_params = [''wallet'' \<mapsto> w], rq_body = Map.empty, rq_query = Map.empty\<rparr>"

theorem read_only_roles_never_write_witness:
  "\<exists>e. requireScopes [''read:loans'', ''write:loans''] (demo_req Auditor None ''GB'') = Inl e"
  using read_only_roles_never_write [of "demo_req Auditor None ''GB''" "demo_user Auditor None" "''write:loans''" "[''read:loans'', ''write:loans'']"]
  by (simp add: demo_req_def demo_user_def write_scope_def)

subsection \<open>Assignments\<close>

definition assignments_inv :: "tenant_db \<Rightarrow> bool" where
  "assignments_inv db \<longleftrightarrow> distinct (map (\<lambda>a. (as_agent a, as_borrower a)) (tn_assignments db))"

lemma assign_inv: "assignments_inv db \<Longrightarrow> assignments_inv (snd (assignBorrowerToAgent now a b c db))"
  by (auto simp: assignments_inv_def assignBorrowerToAgent_def find_None_iff Let_def split: option.splits)

lemma remove_inv: "assignments_inv db \<Longrightarrow> assignments_inv (snd (removeBorrowerFromAgent a b db))"
  by (auto simp: assignments_inv_def removeBorrowerFromAgent_def Let_def distinct_map inj_on_def split: option.splits)

lemma borrowers_snoc:
  "borrowers_of x (db\<lparr>tn_assignments := tn_assignments db @ [row]\<rparr>) = borrowers_of x db @ (if as_agent row = x then [as_borrower row] else [])"
  by (simp add: borrowers_of_def)

lemma find_snoc: "find P xs = None \<Longrightarrow> P x \<Longrightarrow> find P (xs @ [x]) = Some x"
  by (induction xs) (auto split: if_splits)

text \<open>
  Assigning a borrower adds exactly that borrower to the agent, once however often it is repeated, and
  removing it takes exactly that borrower away.
\<close>

theorem assignments_roundtrip:
  assumes "tn_fault db = None" "assignments_inv db"
  shows "(case assignBorrowerToAgent now agent b who db of (res, db') \<Rightarrow>
        (\<exists>row. res = Inr row \<and> as_agent row = agent \<and> as_borrower row = b)
        \<and> set (borrowers_of agent db') = insert b (set (borrowers_of agent db)) \<and> distinct (borrowers_of agent db')
        \<and> snd (assignBorrowerToAgent now' agent b who' db') = db'
        \<and> (\<forall>x. x \<noteq> agent \<longrightarrow> borrowers_of x db' = borrowers_of x db))
    \<and> (case removeBorrowerFromAgent agent b db of (res, db') \<Rightarrow>
        res = Inr (b \<in> set (borrowers_of agent db)) \<and> set (borrowers_of agent db') = set (borrowers_of agent db) - {b}
        \<and> (\<forall>x. x \<noteq> agent \<longrightarrow> borrowers_of x db' = borrowers_of x db))"
proof -
  have d: "distinct (borrowers_of x db')" if "assignments_inv db'" for x db'
    using that by (auto simp: assignments_inv_def borrowers_of_def distinct_map inj_on_def)
  have d': "distinct (borrowers_of agent (snd (assignBorrowerToAgent now agent b who db)))" by (rule d [OF assign_inv [OF assms(2)]])
  have 1: "case assignBorrowerToAgent now agent b who db of (res, db') \<Rightarrow>
        (\<exists>row. res = Inr row \<and> as_agent row = agent \<and> as_borrower row = b)
        \<and> set (borrowers_of agent db') = insert b (set (borrowers_of agent db)) \<and> distinct (borrowers_of agent db')
        \<and> snd (assignBorrowerToAgent now' agent b who' db') = db'
        \<and> (\<forall>x. x \<noteq> agent \<longrightarrow> borrowers_of x db' = borrowers_of x db)"
  proof (cases "find (\<lambda>a. as_agent a = agent \<and> as_borrower a = b) (tn_assignments db)")
    case None
    from find_snoc [OF this, of "\<lparr>as_agent = agent, as_borrower = b, as_created_at = now, as_created_by = who\<rparr>"]
    show ?thesis using None assms(1) d' by (auto simp: assignBorrowerToAgent_def borrowers_snoc Let_def)
  next
    case (Some a)
    then have "a \<in> set (tn_assignments db)" "as_agent a = agent" "as_borrower a = b" by (auto simp: find_Some_iff)
    then show ?thesis using Some assms(1) d' by (auto simp: assignBorrowerToAgent_def borrowers_of_def Let_def)
  qed
  have 2: "case removeBorrowerFromAgent agent b db of (res, db') \<Rightarrow>
        res = Inr (b \<in> set (borrowers_of agent db)) \<and> set (borrowers_of agent db') = set (borrowers_of agent db) - {b}
        \<and> (\<forall>x. x \<noteq> agent \<longrightarrow> borrowers_of x db' = borrowers_of x db)"
    using assms(1)
    by (auto simp: removeBorrowerFromAgent_def borrowers_of_def Let_def filter_empty_conv intro!: arg_cong [where f = "map as_borrower"] filter_cong)
  show ?thesis using 1 2 by simp
qed

definition empty_tenant :: tenant_db where
  "empty_tenant = \<lparr>tn_assignments = [], tn_fault = None\<rparr>"

theorem assignments_roundtrip_witness:
  "set (borrowers_of ''GA'' (snd (assignBorrowerToAgent 5 ''GA'' ''GB'' None empty_tenant))) = {''GB''}"
proof -
  have "tn_fault empty_tenant = None" "assignments_inv empty_tenant" "set (borrowers_of ''GA'' empty_tenant) = {}"
    by (simp_all add: empty_tenant_def assignments_inv_def borrowers_of_def)
  then show ?thesis
    using assignments_roundtrip [where db = empty_tenant and now = 5 and agent = "''GA''" and b = "''GB''" and who = None]
    by (simp add: case_prod_beta)
qed

text \<open>
  Removing a borrower from an agent does not take effect for the tokens the agent holds: as long as the
  claim of a token lists the borrower, the gate lets it through whatever the table says.
\<close>

theorem removed_assignment_still_reaches:
  assumes "rq_user req = Some u" "jp_publicKey u \<noteq> []" "jp_role u = Agent" "jp_assignedBorrowers u = Some bs" "b \<in> set bs" "b \<noteq> []"
    and "resolveRequestedWallet req = Some b"
  shows "requireTenantAccess (snd (removeBorrowerFromAgent (jp_publicKey u) b db)) req = Inr u"
proof -
  have "enrichAssignedBorrowers db' u = u" for db' using assms(3-5) by (cases bs) (auto simp: enrichAssignedBorrowers_def)
  then show ?thesis
    using assms by (simp add: requireTenantAccess_def requireUser_def truthy_text_def canAccessWallet_def Let_def)
qed

theorem removed_assignment_still_reaches_witness:
  "requireTenantAccess (snd (removeBorrowerFromAgent ''GA'' ''GB'' empty_tenant)) (demo_req Agent (Some [''GB'']) ''GB'') = Inr (demo_user Agent (Some [''GB'']))"
proof -
  have "resolveRequestedWallet (demo_req Agent (Some [''GB'']) ''GB'') = Some ''GB''" by (simp add: resolveRequestedWallet_def demo_req_def)
  moreover have "jp_publicKey (demo_user Agent (Some [''GB''])) = ''GA''" by (simp add: demo_user_def)
  ultimately show ?thesis
    using removed_assignment_still_reaches [of "demo_req Agent (Some [''GB'']) ''GB''" "demo_user Agent (Some [''GB''])" "[''GB'']" "''GB''" empty_tenant]
    by (simp add: demo_req_def demo_user_def)
qed

text \<open>
  A super administrator is confined to its own wallet and passes no gate for administrators, although its
  rank and its scopes are theirs.
\<close>

theorem super_admin_confined:
  assumes "rq_user req = Some u" "jp_role u = Super_admin"
  shows "(requireTenantAccess db req = Inr u' \<longrightarrow> resolveRequestedWallet req = Some (jp_publicKey u))
    \<and> (\<exists>e. requireAdmin req = Inl e) \<and> (\<exists>e. requireAuditAccess req = Inl e)
    \<and> ROLE_HIERARCHY Super_admin = ROLE_HIERARCHY Admin \<and> ROLE_SCOPES Super_admin = ROLE_SCOPES Admin"
  using assms
  by (auto simp: tenant_value may_reach_def requireAdmin_def
      requireAuditAccess_def requireRole_def requireUser_def Let_def split: option.splits if_splits)

theorem super_admin_confined_witness: "\<exists>e. requireAdmin (demo_req Super_admin None ''GB'') = Inl e"
  using super_admin_confined [of "demo_req Super_admin None ''GB''" "demo_user Super_admin None" empty_tenant "demo_user Super_admin None"]
  by (simp add: demo_req_def demo_user_def)

subsection \<open>Loans\<close>

text \<open>
  A caller who is no admin, auditor or lender reaches a loan only when the event that the database picks
  names the caller or a borrower assigned to it; a lender reaches every loan.
\<close>

theorem loan_access_exact:
  assumes "rq_user req = Some u" "jp_publicKey u \<noteq> []" "rq_params req ''loanId'' = Some i" "i \<noteq> []"
    and "ln_fault ldb = None" "tn_fault tdb = None"
  shows "requireLoanBorrowerAccess ldb tdb req = Inr () \<longleftrightarrow>
    jp_role u \<in> {Admin, Auditor, Lender}
    \<or> (\<exists>n a. loan_number ldb i = Some n \<and> filter (\<lambda>r. ce_loan_id r = Some n) (ln_events ldb) \<noteq> []
        \<and> ce_address (ln_pick ldb (filter (\<lambda>r. ce_loan_id r = Some n) (ln_events ldb))) = Some a
        \<and> (a = jp_publicKey u
          \<or> jp_role u = Agent
            \<and> a \<in> set (case filter (\<lambda>b. b \<noteq> []) (case jp_assignedBorrowers u of None \<Rightarrow> [] | Some bs \<Rightarrow> bs) of
                [] \<Rightarrow> borrowers_of (jp_publicKey u) tdb | bs \<Rightarrow> bs)))"
proof (cases "jp_role u \<in> {Admin, Auditor, Lender}")
  case True
  then show ?thesis using assms by (simp add: requireLoanBorrowerAccess_def truthy_text_def)
next
  case False
  define as where "as = filter (\<lambda>b. b \<noteq> []) (case jp_assignedBorrowers u of None \<Rightarrow> [] | Some bs \<Rightarrow> bs)"
  show ?thesis
  proof (cases "loan_number ldb i")
    case None
    then show ?thesis using assms False by (simp add: requireLoanBorrowerAccess_def truthy_text_def loan_address_def)
  next
    case (Some n)
    let ?hits = "filter (\<lambda>r. ce_loan_id r = Some n) (ln_events ldb)"
    show ?thesis using assms False Some unfolding as_def [symmetric]
      by (cases "ce_address (ln_pick ldb ?hits)"; cases as)
        (auto simp: requireLoanBorrowerAccess_def truthy_text_def loan_address_def as_def [symmetric] borrowers_of_def Let_def)
  qed
qed

definition demo_loans :: loan_db where
  "demo_loans = \<lparr>ln_events = [], ln_view_columns = loan_events_columns, ln_pick = hd, loan_number = (\<lambda>_. Some 7), ln_fault = None\<rparr>"

theorem loan_access_exact_witness:
  "requireLoanBorrowerAccess demo_loans empty_tenant (demo_req Lender None ''GB''\<lparr>rq_params := [''loanId'' \<mapsto> ''7'']\<rparr>) = Inr ()"
  using loan_access_exact [of "demo_req Lender None ''GB''\<lparr>rq_params := [''loanId'' \<mapsto> ''7'']\<rparr>" "demo_user Lender None" "''7''" demo_loans empty_tenant]
  by (simp add: demo_req_def demo_user_def demo_loans_def empty_tenant_def)

text \<open>
  On the schema of the migrations no request passes the guard of a loan's owner, not even the owner's: the query
  names a column the view does not have.
\<close>

theorem no_loan_owner_on_migrated_schema:
  assumes "ln_view_columns ldb = loan_events_columns"
  shows "requireLoanOwner ldb req \<noteq> Inr ()"
  by (auto simp: requireLoanOwner_def assms loan_events_columns_def try_then_def split: option.splits)

theorem no_loan_owner_on_migrated_schema_witness:
  "requireLoanOwner demo_loans (demo_req Borrower None ''GB''\<lparr>rq_params := [''loanId'' \<mapsto> ''7'']\<rparr>) \<noteq> Inr ()"
  by (rule no_loan_owner_on_migrated_schema) (simp add: demo_loans_def)

end
