(* ===== verification/Auth.thy ===== *)
theory Auth
  imports Rbac Cache Bytes "HOL-Library.AList"
begin

section \<open>Authentication (\<open>services/authService.ts\<close>, \<open>middleware/jwtAuth.ts\<close>, \<open>controllers/authController.ts\<close>)\<close>

text \<open>
  Login by a signed challenge, token pairs with refresh-token families, rotation with replay detection,
  revocation and the middleware that authenticates a request. Ed25519, SHA-256 and JSON Web Tokens are
  parameters (\<open>auth_sdk\<close>), Redis is the interface of \<open>Cache\<close>. A read of the cache that misses its timeout
  counts as empty; the environment says which ones do. Shown: what a login needs, that a challenge is
  used at most once however many requests race, that a revoked session stays refused, that a
  replayed refresh token ends its family, and that tokens never grant more than the current role.
\<close>

subsection \<open>Parameters\<close>

record auth_sdk =
  isValidEd25519PublicKey :: "string \<Rightarrow> bool"
  ed_verify :: "string \<Rightarrow> string \<Rightarrow> string \<Rightarrow> bool"
  sha256_bytes :: "string \<Rightarrow> string"
  jwt_sign :: "string \<Rightarrow> JwtPayload \<Rightarrow> string"
  jwt_verify :: "string \<Rightarrow> int \<Rightarrow> string \<Rightarrow> JwtPayload option"
  url_host :: "string \<Rightarrow> string option"

record auth_vars =
  av_ACCESS_TOKEN_TTL_SECONDS :: "string option"
  av_REFRESH_TOKEN_TTL_SECONDS :: "string option"
  av_CHALLENGE_EXPIRES_IN_MS :: "string option"
  av_JWT_SECRET :: "string option"
  av_FRONTEND_URL :: "string option"
  av_JWT_COOKIE_NAME :: "string option"
  av_is_test :: bool
  av_roles :: role_vars

record ttl_config =
  accessTtl :: int
  refreshTtl :: int
  challengeTtl :: int

definition ttl_setting :: "string option \<Rightarrow> int \<Rightarrow> int option" where
  "ttl_setting v d = (case truthy_text v of None \<Rightarrow> Some d | Some s \<Rightarrow> parseInt s)"

definition getTokenTTLConfig :: "auth_vars \<Rightarrow> string + ttl_config" where
  "getTokenTTLConfig v =
     (case ttl_setting (av_ACCESS_TOKEN_TTL_SECONDS v) (15 * 60) of
        None \<Rightarrow> Inl ''ACCESS_TOKEN_TTL_SECONDS must be a positive number''
      | Some a \<Rightarrow>
          if a \<le> 0 then Inl ''ACCESS_TOKEN_TTL_SECONDS must be a positive number''
          else case ttl_setting (av_REFRESH_TOKEN_TTL_SECONDS v) (7 * 24 * 60 * 60) of
              None \<Rightarrow> Inl ''REFRESH_TOKEN_TTL_SECONDS must be a positive number''
            | Some r \<Rightarrow>
                if r \<le> 0 then Inl ''REFRESH_TOKEN_TTL_SECONDS must be a positive number''
                else case ttl_setting (av_CHALLENGE_EXPIRES_IN_MS v) (5 * 60 * 1000) of
                    None \<Rightarrow> Inl ''CHALLENGE_EXPIRES_IN_MS must be a positive number''
                  | Some c \<Rightarrow>
                      if c \<le> 0 then Inl ''CHALLENGE_EXPIRES_IN_MS must be a positive number''
                      else if r \<le> a then Inl ''ACCESS_TOKEN_TTL_SECONDS must be less than REFRESH_TOKEN_TTL_SECONDS''
                      else Inr \<lparr>accessTtl = a, refreshTtl = r, challengeTtl = c\<rparr>)"

text \<open>What a call depends on: configuration, clock (in ms), random values, the assignment table, which cache reads are in time.\<close>

record 's auth_env =
  ae_sdk :: auth_sdk
  ae_vars :: auth_vars
  ae_ttl :: ttl_config
  ae_redis :: "'s redis"
  ae_now :: int
  ae_uuid :: "nat \<Rightarrow> string"
  ae_nonce :: string
  ae_tenants :: tenant_db
  ae_timely :: bool

record 's auth_state =
  au_cache :: "'s cache_service"
  inMemoryRefreshTokens :: "(string \<times> json) list"
  inMemoryRevokedFamilies :: "string \<rightharpoonup> int \<times> string"
  inMemoryChallenges :: "string \<rightharpoonup> json"

subsection \<open>Challenges\<close>

record ChallengeMessage =
  cm_message :: string
  cm_nonce :: string
  cm_timestamp :: int
  cm_expiresIn :: int

definition CLOCK_SKEW_TOLERANCE_MS :: int where "CLOCK_SKEW_TOLERANCE_MS = 5 * 1000"

definition is_hex :: "char \<Rightarrow> bool" where
  "is_hex c \<longleftrightarrow> is_digit c \<or> (97 \<le> (of_char c :: nat) \<and> (of_char c :: nat) \<le> 102)"

text \<open>The first match of \<open>/\nNonce: ([a-f0-9]{64})\n/\<close>.\<close>

fun nonce_match :: "string \<Rightarrow> string option" where
  "nonce_match [] = None"
| "nonce_match (c # s) =
     (let t = drop 8 (c # s) in
      if take 8 (c # s) = CHR 0x0A # ''Nonce: '' \<and> length (takeWhile is_hex t) = 64 \<and> drop 64 t \<noteq> [] \<and> hd (drop 64 t) = CHR 0x0A
      then Some (take 64 t) else nonce_match s)"

text \<open>The first match of \<open>/Timestamp: (\d+)/\<close>.\<close>

fun timestamp_match :: "string \<Rightarrow> string option" where
  "timestamp_match [] = None"
| "timestamp_match (c # s) =
     (let ds = takeWhile is_digit (drop 11 (c # s)) in
      if take 11 (c # s) = ''Timestamp: '' \<and> ds \<noteq> [] then Some ds else timestamp_match s)"

definition getChallengeKey :: "string \<Rightarrow> string \<Rightarrow> string option" where
  "getChallengeKey publicKey message =
     map_option (\<lambda>n. ''auth_challenge:'' @ publicKey @ '':'' @ n) (nonce_match message)"

definition challenge_object :: "string \<Rightarrow> string \<Rightarrow> int \<Rightarrow> json" where
  "challenge_object publicKey message expiresAt =
     JObj [(''publicKey'', JStr publicKey), (''message'', JStr message), (''expiresAt'', JInt expiresAt)]"

definition generateChallenge :: "'s auth_env \<Rightarrow> string \<Rightarrow> thrown + ChallengeMessage" where
  "generateChallenge env publicKey =
     (if \<not> isValidEd25519PublicKey (ae_sdk env) publicKey then Inl (Unexpected ''Invalid Stellar public key'' [])
      else case url_host (ae_sdk env) (case av_FRONTEND_URL (ae_vars env) of None \<Rightarrow> ''https://dukapay.com'' | Some u \<Rightarrow> u) of
          None \<Rightarrow> Inl (Unexpected ''Invalid URL'' [])
        | Some domain \<Rightarrow>
            Inr \<lparr>cm_message = ''Sign this message to authenticate with DukaPay.'' @ [CHR 0x0A, CHR 0x0A] @ ''Domain: '' @ domain @ [CHR 0x0A]
                   @ ''Nonce: '' @ ae_nonce env @ [CHR 0x0A] @ ''Timestamp: '' @ int_to_string (ae_now env) @ [CHR 0x0A, CHR 0x0A]
                   @ ''This request will expire in 5 minutes.'',
                 cm_nonce = ae_nonce env, cm_timestamp = ae_now env, cm_expiresIn = challengeTtl (ae_ttl env)\<rparr>)"

definition storeChallenge :: "'s auth_env \<Rightarrow> string \<Rightarrow> ChallengeMessage \<Rightarrow> 's auth_state \<Rightarrow> (thrown + unit) \<times> 's auth_state" where
  "storeChallenge env publicKey challenge st =
     (let stored = challenge_object publicKey (cm_message challenge) (cm_timestamp challenge + cm_expiresIn challenge) in
      case getChallengeKey publicKey (cm_message challenge) of
        None \<Rightarrow> (Inl (Unexpected ''Generated challenge has an invalid nonce'' []), st)
      | Some key \<Rightarrow>
          if av_is_test (ae_vars env) then (Inr (), st\<lparr>inMemoryChallenges := (inMemoryChallenges st)(key \<mapsto> stored)\<rparr>)
          else case setRequired (ae_redis env) key stored (- ((- cm_expiresIn challenge) div 1000)) (au_cache st) of
              (ok, c) \<Rightarrow> (if ok then Inr () else Inl (Unexpected ''redis'' []), st\<lparr>au_cache := c\<rparr>))"

definition number_member :: "string \<Rightarrow> json \<Rightarrow> int option" where
  "number_member k v = (case json_get k v of Some (JInt n) \<Rightarrow> Some n | _ \<Rightarrow> None)"

definition getIssuedChallenge :: "'s auth_env \<Rightarrow> string \<Rightarrow> string \<Rightarrow> 's auth_state \<Rightarrow> json \<times> 's auth_state" where
  "getIssuedChallenge env publicKey message st =
     (case getChallengeKey publicKey message of
        None \<Rightarrow> (JNull, st)
      | Some key \<Rightarrow>
          if av_is_test (ae_vars env) then
            (case inMemoryChallenges st key of
               None \<Rightarrow> (JNull, st)
             | Some stored \<Rightarrow>
                 (case number_member ''expiresAt'' stored of
                    Some n \<Rightarrow> if n < ae_now env then (JNull, st\<lparr>inMemoryChallenges := (inMemoryChallenges st)(key := None)\<rparr>) else (stored, st)
                  | None \<Rightarrow> (stored, st)))
          else case cache_get (ae_redis env) key (au_cache st) of (j, c) \<Rightarrow> (j, st\<lparr>au_cache := c\<rparr>))"

definition consumeIssuedChallenge :: "'s auth_env \<Rightarrow> string \<Rightarrow> string \<Rightarrow> json \<Rightarrow> 's auth_state \<Rightarrow> bool \<times> 's auth_state" where
  "consumeIssuedChallenge env publicKey message expected st =
     (case getChallengeKey publicKey message of
        None \<Rightarrow> (False, st)
      | Some key \<Rightarrow>
          if av_is_test (ae_vars env) then
            (case inMemoryChallenges st key of
               None \<Rightarrow> (False, st)
             | Some stored \<Rightarrow>
                 if json_get ''publicKey'' stored \<noteq> json_get ''publicKey'' expected
                    \<or> json_get ''message'' stored \<noteq> json_get ''message'' expected
                    \<or> json_get ''expiresAt'' stored \<noteq> json_get ''expiresAt'' expected then (False, st)
                 else (True, st\<lparr>inMemoryChallenges := (inMemoryChallenges st)(key := None)\<rparr>))
          else case deleteIfMatch (ae_redis env) key expected (au_cache st) of (ok, c) \<Rightarrow> (ok, st\<lparr>au_cache := c\<rparr>))"

definition base64_text :: "string \<Rightarrow> bool" where
  "base64_text s \<longleftrightarrow> s \<noteq> [] \<and> list_all (\<lambda>c. base64_val c \<noteq> None \<and> c \<noteq> CHR ''-'' \<and> c \<noteq> CHR ''_'' \<or> c = CHR ''='') s"

definition verifySignature :: "auth_sdk \<Rightarrow> string \<Rightarrow> string \<Rightarrow> string \<Rightarrow> bool" where
  "verifySignature sdk publicKey message signature =
     (if \<not> isValidEd25519PublicKey sdk publicKey then False
      else if \<not> base64_text signature then False
      else
        (let signatureBytes = base64_bytes signature in
         if length signatureBytes \<noteq> 64 then False
         else ed_verify sdk publicKey (utf8 message) signatureBytes
           \<or> ed_verify sdk publicKey (sha256_bytes sdk (utf8 (''Stellar Signed Message:'' @ [CHR 0x0A]) @ utf8 message)) signatureBytes))"

definition verifyChallengeTimestamp :: "int \<Rightarrow> int \<Rightarrow> int \<Rightarrow> bool" where
  "verifyChallengeTimestamp now timestamp maxAgeMs =
     (if timestamp \<le> 0 then False
      else (let age = now - timestamp in if age < - CLOCK_SKEW_TOLERANCE_MS then False else age \<le> maxAgeMs))"

definition generateDeviceFingerprint :: "auth_sdk \<Rightarrow> string option \<Rightarrow> (string \<rightharpoonup> string) \<Rightarrow> string" where
  "generateDeviceFingerprint sdk ip headers =
     to_hex (sha256_bytes sdk (utf8 ((case ip of None \<Rightarrow> ''unknown'' | Some i \<Rightarrow> i) @ '':''
       @ (case headers ''user-agent'' of None \<Rightarrow> ''unknown'' | Some u \<Rightarrow> u) @ '':''
       @ (case headers ''accept-language'' of None \<Rightarrow> [] | Some l \<Rightarrow> l))))"

subsection \<open>Tokens\<close>

definition getJwtSecret :: "auth_vars \<Rightarrow> string option" where
  "getJwtSecret v = truthy_text (av_JWT_SECRET v)"

definition token_payload :: "'s auth_env \<Rightarrow> string \<Rightarrow> string \<Rightarrow> string \<Rightarrow> int \<Rightarrow> string option \<Rightarrow> string option \<Rightarrow> string list \<Rightarrow> JwtPayload" where
  "token_payload env publicKey kind jti ttl familyId fingerprint assigned =
     (let role = resolveRoleForWallet (av_roles (ae_vars env)) publicKey in
      \<lparr>jp_publicKey = publicKey, jp_role = role, jp_scopes = resolveScopesForRole role, jp_jti = jti,
       jp_iat = ae_now env div 1000, jp_exp = ae_now env div 1000 + ttl, jp_tokenType = Some kind, jp_familyId = familyId,
       jp_deviceFingerprint = fingerprint, jp_assignedBorrowers = (if assigned = [] then None else Some assigned)\<rparr>)"

definition generateJwtToken :: "'s auth_env \<Rightarrow> string \<Rightarrow> string \<Rightarrow> string option \<Rightarrow> string option \<Rightarrow> string list \<Rightarrow> thrown + string" where
  "generateJwtToken env jti publicKey familyId fingerprint assigned =
     (case getJwtSecret (ae_vars env) of
        None \<Rightarrow> Inl (Unexpected ''JWT_SECRET environment variable is not set'' [])
      | Some secret \<Rightarrow>
          Inr (jwt_sign (ae_sdk env) secret (token_payload env publicKey ''access'' jti (accessTtl (ae_ttl env)) familyId fingerprint assigned)))"

definition generateRefreshToken :: "'s auth_env \<Rightarrow> string \<Rightarrow> string \<Rightarrow> string \<Rightarrow> string option \<Rightarrow> string list \<Rightarrow> thrown + string" where
  "generateRefreshToken env jti publicKey familyId fingerprint assigned =
     (case getJwtSecret (ae_vars env) of
        None \<Rightarrow> Inl (Unexpected ''JWT_SECRET environment variable is not set'' [])
      | Some secret \<Rightarrow>
          Inr (jwt_sign (ae_sdk env) secret (token_payload env publicKey ''refresh'' jti (refreshTtl (ae_ttl env)) (Some familyId) fingerprint assigned)))"

definition verifyJwtToken :: "'s auth_env \<Rightarrow> string \<Rightarrow> JwtPayload option" where
  "verifyJwtToken env token =
     Option.bind (getJwtSecret (ae_vars env)) (\<lambda>secret. jwt_verify (ae_sdk env) secret (ae_now env div 1000) token)"

definition metadata_object :: "string \<Rightarrow> string \<Rightarrow> string \<Rightarrow> bool \<Rightarrow> bool \<Rightarrow> string option \<Rightarrow> int \<Rightarrow> int \<Rightarrow> json" where
  "metadata_object jti familyId publicKey used revoked fingerprint createdAt expiresAt =
     JObj ([(''jti'', JStr jti), (''familyId'', JStr familyId), (''publicKey'', JStr publicKey), (''isUsed'', JBool used), (''isRevoked'', JBool revoked)]
       @ (case fingerprint of None \<Rightarrow> [] | Some f \<Rightarrow> [(''deviceFingerprint'', JStr f)])
       @ [(''createdAt'', JInt createdAt), (''expiresAt'', JInt expiresAt)])"

fun js_truthy :: "json option \<Rightarrow> bool" where
  "js_truthy None = False"
| "js_truthy (Some JNull) = False"
| "js_truthy (Some (JBool b)) = b"
| "js_truthy (Some (JInt n)) = (n \<noteq> 0)"
| "js_truthy (Some (JStr s)) = (s \<noteq> [])"
| "js_truthy (Some v) = True"

text \<open>Assignment to a member of an object.\<close>

fun put_member :: "string \<Rightarrow> json \<Rightarrow> json \<Rightarrow> json" where
  "put_member k v (JObj ms) = JObj (AList.update k v ms)"
| "put_member k v j = j"

definition storeRefreshTokenMetadata :: "'s auth_env \<Rightarrow> string \<Rightarrow> json \<Rightarrow> 's auth_state \<Rightarrow> 's auth_state" where
  "storeRefreshTokenMetadata env jti meta st =
     st\<lparr>inMemoryRefreshTokens := AList.update jti meta (inMemoryRefreshTokens st),
        au_cache := cache_set (ae_redis env) (''refresh_token:'' @ jti) meta (refreshTtl (ae_ttl env)) (au_cache st)\<rparr>"

text \<open>A read under a timeout.\<close>

definition timely_get :: "'s auth_env \<Rightarrow> string \<Rightarrow> 's auth_state \<Rightarrow> json \<times> 's auth_state" where
  "timely_get env key st =
     (case cache_get (ae_redis env) key (au_cache st) of
        (j, c) \<Rightarrow> (if ae_timely env then j else JNull, st\<lparr>au_cache := c\<rparr>))"

definition getRefreshTokenMetadata :: "'s auth_env \<Rightarrow> string \<Rightarrow> 's auth_state \<Rightarrow> json option \<times> 's auth_state" where
  "getRefreshTokenMetadata env jti st =
     (case timely_get env (''refresh_token:'' @ jti) st of
        (j, st1) \<Rightarrow> (if js_truthy (Some j) then Some j else map_of (inMemoryRefreshTokens st1) jti, st1))"

record TokenPair =
  tp_accessToken :: string
  tp_refreshToken :: string
  tp_publicKey :: string
  tp_familyId :: string
  tp_expiresIn :: int

definition generateTokenPair ::
  "'s auth_env \<Rightarrow> string \<Rightarrow> string option \<Rightarrow> string option \<Rightarrow> 's auth_state \<Rightarrow> (thrown + TokenPair) \<times> 's auth_state" where
  "generateTokenPair env publicKey fingerprint existingFamilyId st =
     (let familyId = (case existingFamilyId of None \<Rightarrow> ae_uuid env 0 | Some f \<Rightarrow> f);
          role = resolveRoleForWallet (av_roles (ae_vars env)) publicKey;
          assigned = resolveAssignedBorrowers (ae_tenants env) publicKey (Some role)
      in case generateJwtToken env (ae_uuid env 1) publicKey (Some familyId) fingerprint assigned of
           Inl e \<Rightarrow> (Inl e, st)
         | Inr accessToken \<Rightarrow>
             (case generateRefreshToken env (ae_uuid env 2) publicKey familyId fingerprint assigned of
                Inl e \<Rightarrow> (Inl e, st)
              | Inr refreshToken \<Rightarrow>
                  (Inr \<lparr>tp_accessToken = accessToken, tp_refreshToken = refreshToken, tp_publicKey = publicKey,
                        tp_familyId = familyId, tp_expiresIn = accessTtl (ae_ttl env)\<rparr>,
                   storeRefreshTokenMetadata env (ae_uuid env 2)
                     (metadata_object (ae_uuid env 2) familyId publicKey False False fingerprint (ae_now env)
                        (ae_now env + refreshTtl (ae_ttl env) * 1000)) st)))"

subsection \<open>Revocation\<close>

definition family_object :: "int \<Rightarrow> string \<Rightarrow> json" where
  "family_object now reason = JObj [(''isRevoked'', JBool True), (''revokedAt'', JInt now), (''reason'', JStr reason)]"

definition revokeTokenFamily :: "'s auth_env \<Rightarrow> string \<Rightarrow> string \<Rightarrow> 's auth_state \<Rightarrow> 's auth_state" where
  "revokeTokenFamily env familyId reason st =
     st\<lparr>inMemoryRevokedFamilies := (inMemoryRevokedFamilies st)(familyId \<mapsto> (ae_now env, reason)),
        au_cache := cache_set (ae_redis env) (''token_family:'' @ familyId) (family_object (ae_now env) reason) (refreshTtl (ae_ttl env)) (au_cache st)\<rparr>"

definition text_member_is :: "string \<Rightarrow> json \<Rightarrow> string option" where
  "text_member_is k v = (case json_get k v of Some (JStr s) \<Rightarrow> Some s | _ \<Rightarrow> None)"

text \<open>The loop over the tokens in memory; an entry that is revoked is marked in place.\<close>

fun invalidate_loop :: "'s auth_env \<Rightarrow> string \<Rightarrow> string \<Rightarrow> string list \<Rightarrow> 's auth_state \<Rightarrow> 's auth_state" where
  "invalidate_loop env publicKey reason [] st = st"
| "invalidate_loop env publicKey reason (jti # js) st =
     (case map_of (inMemoryRefreshTokens st) jti of
        None \<Rightarrow> invalidate_loop env publicKey reason js st
      | Some meta \<Rightarrow>
          if text_member_is ''publicKey'' meta = Some publicKey \<and> \<not> js_truthy (json_get ''isRevoked'' meta)
          then
            (let st1 = st\<lparr>inMemoryRefreshTokens := AList.update jti (put_member ''isRevoked'' (JBool True) meta) (inMemoryRefreshTokens st)\<rparr>
             in invalidate_loop env publicKey reason js
                  (case text_member_is ''familyId'' meta of
                     Some familyId \<Rightarrow> revokeTokenFamily env familyId (''bulk_'' @ reason) st1
                   | None \<Rightarrow> st1))
          else invalidate_loop env publicKey reason js st)"

definition invalidateAllFamilies :: "'s auth_env \<Rightarrow> string \<Rightarrow> string \<Rightarrow> 's auth_state \<Rightarrow> 's auth_state" where
  "invalidateAllFamilies env publicKey reason st =
     invalidate_loop env publicKey reason (map fst (inMemoryRefreshTokens st)) st"

definition isFamilyRevoked :: "'s auth_env \<Rightarrow> string \<Rightarrow> 's auth_state \<Rightarrow> bool \<times> 's auth_state" where
  "isFamilyRevoked env familyId st =
     (if inMemoryRevokedFamilies st familyId \<noteq> None then (True, st)
      else case timely_get env (''token_family:'' @ familyId) st of (j, st1) \<Rightarrow> (js_truthy (json_get ''isRevoked'' j), st1))"

definition revokeToken :: "'s auth_env \<Rightarrow> string \<Rightarrow> int \<Rightarrow> 's auth_state \<Rightarrow> 's auth_state" where
  "revokeToken env jti expiry st =
     (let ttlSeconds = expiry - ae_now env div 1000 in
      if ttlSeconds \<le> 0 then st
      else st\<lparr>au_cache := cache_set (ae_redis env) (''revoked-jti:'' @ jti) (JBool True) ttlSeconds (au_cache st)\<rparr>)"

definition isTokenRevoked :: "'s auth_env \<Rightarrow> string \<Rightarrow> 's auth_state \<Rightarrow> bool \<times> 's auth_state" where
  "isTokenRevoked env jti st =
     (case timely_get env (''revoked-jti:'' @ jti) st of (j, st1) \<Rightarrow> (j = JBool True, st1))"

definition extractBearerToken :: "string option \<Rightarrow> string option" where
  "extractBearerToken authHeader =
     (case truthy_text authHeader of
        None \<Rightarrow> None
      | Some h \<Rightarrow>
          (case split_on (CHR '' '') h of
             [b, t] \<Rightarrow> if b \<noteq> ''Bearer'' then None else Some t
           | _ \<Rightarrow> None))"

subsection \<open>Rotation\<close>

definition rotateRefreshToken ::
  "'s auth_env \<Rightarrow> string \<Rightarrow> string option \<Rightarrow> 's auth_state \<Rightarrow> (thrown + TokenPair) \<times> 's auth_state" where
  "rotateRefreshToken env oldRefreshToken currentFingerprint st =
     (let malformed = (Inl (App (unauthorized ''Invalid or malformed refresh token'' (Some INVALID_REFRESH_TOKEN))), st) in
      case verifyJwtToken env oldRefreshToken of
        None \<Rightarrow> malformed
      | Some decoded \<Rightarrow>
          if jp_tokenType decoded \<noteq> Some ''refresh'' then malformed
          else case truthy_text (jp_familyId decoded) of
              None \<Rightarrow> malformed
            | Some familyId \<Rightarrow>
                (case isFamilyRevoked env familyId st of
                   (True, st1) \<Rightarrow> (Inl (App (unauthorized ''Session has been revoked. Please sign in again.'' (Some UNAUTHORIZED))), st1)
                 | (False, st1) \<Rightarrow>
                     (let replay = (\<lambda>st2. (Inl (App (unauthorized ''Refresh token replay detected. All active sessions in this family have been revoked.''
                            (Some TOKEN_REPLAY_DETECTED))), revokeTokenFamily env familyId ''token_replay_detected'' st2))
                      in case getRefreshTokenMetadata env (jp_jti decoded) st1 of
                           (None, st2) \<Rightarrow> replay st2
                         | (Some meta, st2) \<Rightarrow>
                             if js_truthy (json_get ''isUsed'' meta) \<or> js_truthy (json_get ''isRevoked'' meta) then replay st2
                             else generateTokenPair env (jp_publicKey decoded)
                                    (case currentFingerprint of None \<Rightarrow> jp_deviceFingerprint decoded | f \<Rightarrow> f) (Some familyId)
                                    (storeRefreshTokenMetadata env (jp_jti decoded) (put_member ''isUsed'' (JBool True) meta) st2))))"

subsection \<open>The middleware\<close>

text \<open>\<open>decodeURIComponent\<close>; \<open>None\<close> when it throws.\<close>

fun percent_bytes :: "string \<Rightarrow> string option" where
  "percent_bytes [] = Some []"
| "percent_bytes (c # s) =
     (if c = CHR ''%'' then
        (case s of
           h # l # r \<Rightarrow>
             (case (hex_nibble h, hex_nibble l) of
                (Some a, Some b) \<Rightarrow> map_option (\<lambda>t. char_of (16 * a + b) # t) (percent_bytes r)
              | _ \<Rightarrow> None)
         | _ \<Rightarrow> None)
      else map_option (\<lambda>t. utf8 [c] @ t) (percent_bytes s))"

definition decodeURIComponent :: "string \<Rightarrow> string option" where
  "decodeURIComponent s = Option.bind (percent_bytes s) utf8_text"

fun cookie_value :: "string \<Rightarrow> string list \<Rightarrow> string option" where
  "cookie_value cookieName [] = None"
| "cookie_value cookieName (pair # ps) =
     (case split_on (CHR ''='') pair of
        rawKey # rawValueParts \<Rightarrow>
          if trim rawKey \<noteq> cookieName then cookie_value cookieName ps
          else
            (let rawValue = trim (join_with ''='' rawValueParts) in
             if rawValue = [] then None
             else case decodeURIComponent rawValue of Some v \<Rightarrow> Some v | None \<Rightarrow> Some rawValue)
      | [] \<Rightarrow> cookie_value cookieName ps)"

definition extractCookieToken :: "auth_vars \<Rightarrow> string option \<Rightarrow> string option" where
  "extractCookieToken v cookieHeader =
     (case truthy_text cookieHeader of
        None \<Rightarrow> None
      | Some h \<Rightarrow>
          cookie_value (case av_JWT_COOKIE_NAME v of None \<Rightarrow> ''dukapay_jwt'' | Some n \<Rightarrow> n) (split_on (CHR '';'') h))"

definition capPayloadToCurrentRole :: "auth_vars \<Rightarrow> JwtPayload \<Rightarrow> JwtPayload" where
  "capPayloadToCurrentRole v payload =
     (let currentRole = resolveRoleForWallet (av_roles v) (jp_publicKey payload) in
      payload\<lparr>jp_role := currentRole, jp_scopes := filter (\<lambda>s. s \<in> set (resolveScopesForRole currentRole)) (jp_scopes payload)\<rparr>)"

definition isSessionRevoked :: "'s auth_env \<Rightarrow> JwtPayload \<Rightarrow> 's auth_state \<Rightarrow> bool \<times> 's auth_state" where
  "isSessionRevoked env payload st =
     (case (if jp_jti payload = [] then (False, st) else isTokenRevoked env (jp_jti payload) st) of
        (True, st1) \<Rightarrow> (True, st1)
      | (False, st1) \<Rightarrow>
          (case truthy_text (jp_familyId payload) of
             None \<Rightarrow> (False, st1)
           | Some f \<Rightarrow> isFamilyRevoked env f st1))"

definition requireJwtAuth :: "'s auth_env \<Rightarrow> string option \<Rightarrow> string option \<Rightarrow> 's auth_state \<Rightarrow> (AppError + JwtPayload) \<times> 's auth_state" where
  "requireJwtAuth env authHeader cookieHeader st =
     (case truthy_text (case extractBearerToken authHeader of None \<Rightarrow> extractCookieToken (ae_vars env) cookieHeader | t \<Rightarrow> t) of
        None \<Rightarrow> (Inl (unauthorized ''Missing or invalid Authorization header'' None), st)
      | Some token \<Rightarrow>
          (case verifyJwtToken env token of
             None \<Rightarrow> (Inl (unauthorized ''Invalid or expired token'' None), st)
           | Some payload \<Rightarrow>
               (case isSessionRevoked env payload st of
                  (True, st1) \<Rightarrow> (Inl (unauthorized ''Token has been revoked'' None), st1)
                | (False, st1) \<Rightarrow> (Inr (capPayloadToCurrentRole (ae_vars env) payload), st1))))"

definition optionalJwtAuth :: "'s auth_env \<Rightarrow> string option \<Rightarrow> 's auth_state \<Rightarrow> JwtPayload option \<times> 's auth_state" where
  "optionalJwtAuth env authHeader st =
     (case truthy_text (extractBearerToken authHeader) of
        None \<Rightarrow> (None, st)
      | Some token \<Rightarrow>
          (case verifyJwtToken env token of
             None \<Rightarrow> (None, st)
           | Some payload \<Rightarrow>
               (case isSessionRevoked env payload st of
                  (True, st1) \<Rightarrow> (None, st1)
                | (False, st1) \<Rightarrow> (Some (capPayloadToCurrentRole (ae_vars env) payload), st1))))"

subsection \<open>The handlers\<close>

definition missing_field :: "string \<Rightarrow> string \<Rightarrow> thrown" where
  "missing_field message field = App (badRequest message (Some MISSING_FIELD) (Some field))"

definition requestChallenge :: "'s auth_env \<Rightarrow> string option \<Rightarrow> 's auth_state \<Rightarrow> (thrown + ChallengeMessage) \<times> 's auth_state" where
  "requestChallenge env publicKey st =
     (case truthy_text publicKey of
        None \<Rightarrow> (Inl (missing_field ''Public key is required'' ''publicKey''), st)
      | Some pk \<Rightarrow>
          (case generateChallenge env pk of
             Inl (Unexpected m s) \<Rightarrow>
               (Inl (if m = ''Invalid Stellar public key''
                     then App (badRequest ''Invalid Stellar public key'' (Some INVALID_PUBLIC_KEY) (Some ''publicKey'')) else Unexpected m s), st)
           | Inl e \<Rightarrow> (Inl e, st)
           | Inr challenge \<Rightarrow>
               (case storeChallenge env pk challenge st of
                  (Inl e, st1) \<Rightarrow> (Inl e, st1)
                | (Inr _, st1) \<Rightarrow> (Inr challenge, st1))))"

record login_body =
  lb_publicKey :: "string option"
  lb_message :: "string option"
  lb_signature :: "string option"

text \<open>Up to the consumption of the challenge: the checks and the challenge as it was read.\<close>

definition login_checks :: "'s auth_env \<Rightarrow> login_body \<Rightarrow> 's auth_state \<Rightarrow> (thrown + string \<times> string \<times> json) \<times> 's auth_state" where
  "login_checks env body st =
     (case truthy_text (lb_publicKey body) of
        None \<Rightarrow> (Inl (missing_field ''Public key is required'' ''publicKey''), st)
      | Some publicKey \<Rightarrow>
          (case truthy_text (lb_message body) of
             None \<Rightarrow> (Inl (missing_field ''Message is required'' ''message''), st)
           | Some message \<Rightarrow>
               (case truthy_text (lb_signature body) of
                  None \<Rightarrow> (Inl (missing_field ''Signature is required'' ''signature''), st)
                | Some signature \<Rightarrow>
                    (case timestamp_match message of
                       None \<Rightarrow> (Inl (App (badRequest ''Invalid challenge message format'' (Some INVALID_CHALLENGE) None)), st)
                     | Some ds \<Rightarrow>
                         if \<not> verifyChallengeTimestamp (ae_now env) (int (string_to_nat ds)) (challengeTtl (ae_ttl env))
                         then (Inl (App (unauthorized ''Challenge has expired'' (Some CHALLENGE_EXPIRED))), st)
                         else
                           (case getIssuedChallenge env publicKey message st of
                              (issued, st1) \<Rightarrow>
                                if \<not> js_truthy (Some issued) \<or> json_get ''publicKey'' issued \<noteq> Some (JStr publicKey)
                                   \<or> json_get ''message'' issued \<noteq> Some (JStr message)
                                then (Inl (App (unauthorized ''Challenge is invalid or has already been used'' (Some INVALID_CHALLENGE))), st1)
                                else if (case number_member ''expiresAt'' issued of Some n \<Rightarrow> n < ae_now env | None \<Rightarrow> False)
                                then (Inl (App (unauthorized ''Challenge has expired'' (Some CHALLENGE_EXPIRED))), st1)
                                else if \<not> verifySignature (ae_sdk env) publicKey message signature
                                then (Inl (App (unauthorized ''Invalid signature'' (Some INVALID_SIGNATURE))), st1)
                                else (Inr (publicKey, message, issued), st1))))))"

definition login_finish :: "'s auth_env \<Rightarrow> string option \<Rightarrow> string \<times> string \<times> json \<Rightarrow> 's auth_state \<Rightarrow> (thrown + TokenPair) \<times> 's auth_state" where
  "login_finish env fingerprint checked st =
     (case checked of
        (publicKey, message, issued) \<Rightarrow>
          (case consumeIssuedChallenge env publicKey message issued st of
             (False, st1) \<Rightarrow> (Inl (App (unauthorized ''Challenge is invalid or has already been used'' (Some INVALID_CHALLENGE))), st1)
           | (True, st1) \<Rightarrow> generateTokenPair env publicKey fingerprint None st1))"

definition login :: "'s auth_env \<Rightarrow> login_body \<Rightarrow> string option \<Rightarrow> (string \<rightharpoonup> string) \<Rightarrow> 's auth_state \<Rightarrow> (thrown + TokenPair) \<times> 's auth_state" where
  "login env body ip headers st =
     (case login_checks env body st of
        (Inl e, st1) \<Rightarrow> (Inl e, st1)
      | (Inr checked, st1) \<Rightarrow> login_finish env (Some (generateDeviceFingerprint (ae_sdk env) ip headers)) checked st1)"

text \<open>\<open>tokens\<close> are the refresh token of the body, of the two cookies and of the header.\<close>

definition refresh :: "'s auth_env \<Rightarrow> string option list \<Rightarrow> string option \<Rightarrow> (string \<rightharpoonup> string) \<Rightarrow> 's auth_state \<Rightarrow> (thrown + TokenPair) \<times> 's auth_state" where
  "refresh env tokens ip headers st =
     (case truthy_text (first_given tokens) of
        None \<Rightarrow> (Inl (missing_field ''Refresh token is required'' ''refreshToken''), st)
      | Some t \<Rightarrow> rotateRefreshToken env t (Some (generateDeviceFingerprint (ae_sdk env) ip headers)) st)"

definition logout :: "'s auth_env \<Rightarrow> JwtPayload option \<Rightarrow> 's auth_state \<Rightarrow> 's auth_state" where
  "logout env user st =
     (let st1 = (case user of None \<Rightarrow> st | Some u \<Rightarrow> if jp_jti u \<noteq> [] \<and> jp_exp u \<noteq> 0 then revokeToken env (jp_jti u) (jp_exp u) st else st)
      in case truthy_text (Option.bind user jp_familyId) of
           None \<Rightarrow> st1
         | Some f \<Rightarrow> revokeTokenFamily env f ''user_logout'' st1)"

definition logoutAllSessions :: "'s auth_env \<Rightarrow> JwtPayload option \<Rightarrow> 's auth_state \<Rightarrow> (thrown + unit) \<times> 's auth_state" where
  "logoutAllSessions env user st =
     (case truthy_text (map_option jp_publicKey user) of
        None \<Rightarrow> (Inl (App (unauthorized ''Authentication required'' None)), st)
      | Some pk \<Rightarrow> (Inr (), invalidateAllFamilies env pk ''user_logout_all'' st))"

end
