(* ===== verification/AuthSafety.thy ===== *)
theory AuthSafety
  imports Auth "HOL-Library.Countable"
begin

section \<open>What authentication guarantees\<close>

text \<open>
  The properties of \<open>Auth\<close>: of one login, of all interleavings of logins, of sessions after a revocation,
  and of what a token grants.
\<close>

subsection \<open>Sessions that were revoked\<close>

text \<open>The operations only ever add revoked families.\<close>

lemma timely_get_families [simp]: "inMemoryRevokedFamilies (snd (timely_get env k st)) = inMemoryRevokedFamilies st"
  by (simp add: timely_get_def split: prod.splits)

lemma isTokenRevoked_families [simp]: "inMemoryRevokedFamilies (snd (isTokenRevoked env j st)) = inMemoryRevokedFamilies st"
  by (simp add: isTokenRevoked_def case_prod_beta)

lemma isFamilyRevoked_families [simp]: "inMemoryRevokedFamilies (snd (isFamilyRevoked env f st)) = inMemoryRevokedFamilies st"
  by (simp add: isFamilyRevoked_def case_prod_beta)

lemma getRefreshTokenMetadata_families [simp]: "inMemoryRevokedFamilies (snd (getRefreshTokenMetadata env j st)) = inMemoryRevokedFamilies st"
  by (simp add: getRefreshTokenMetadata_def case_prod_beta)

lemma storeRefreshTokenMetadata_families [simp]:
  "inMemoryRevokedFamilies (storeRefreshTokenMetadata env j m st) = inMemoryRevokedFamilies st"
  by (simp add: storeRefreshTokenMetadata_def)

lemma generateTokenPair_families [simp]:
  "inMemoryRevokedFamilies (snd (generateTokenPair env pk fp f st)) = inMemoryRevokedFamilies st"
  by (simp add: generateTokenPair_def Let_def split: sum.splits)

lemma isSessionRevoked_families [simp]: "inMemoryRevokedFamilies (snd (isSessionRevoked env p st)) = inMemoryRevokedFamilies st"
proof -
  obtain b st1 where t: "(if jp_jti p = [] then (False, st) else isTokenRevoked env (jp_jti p) st) = (b, st1)" by (meson surj_pair)
  have "st1 = snd (if jp_jti p = [] then (False, st) else isTokenRevoked env (jp_jti p) st)" using t by simp
  then have "inMemoryRevokedFamilies st1 = inMemoryRevokedFamilies st" by simp
  then show ?thesis unfolding isSessionRevoked_def t by (cases b) (auto split: option.splits)
qed

lemma revokeTokenFamily_families: "dom (inMemoryRevokedFamilies (revokeTokenFamily env f r st)) = insert f (dom (inMemoryRevokedFamilies st))"
  by (simp add: revokeTokenFamily_def)

lemma revokeToken_families [simp]: "inMemoryRevokedFamilies (revokeToken env j x st) = inMemoryRevokedFamilies st"
  by (simp add: revokeToken_def Let_def)

lemma challenge_families [simp]:
  "inMemoryRevokedFamilies (snd (storeChallenge env pk c st)) = inMemoryRevokedFamilies st"
  "inMemoryRevokedFamilies (snd (getIssuedChallenge env pk m st)) = inMemoryRevokedFamilies st"
  "inMemoryRevokedFamilies (snd (consumeIssuedChallenge env pk m e st)) = inMemoryRevokedFamilies st"
  by (auto simp: storeChallenge_def getIssuedChallenge_def consumeIssuedChallenge_def Let_def split: option.splits prod.splits)

lemma invalidate_loop_families:
  "dom (inMemoryRevokedFamilies st) \<subseteq> dom (inMemoryRevokedFamilies (invalidate_loop env pk r js st))"
proof (induction js arbitrary: st)
  case (Cons j js)
  obtain st' where st': "invalidate_loop env pk r (j # js) st = invalidate_loop env pk r js st'"
      "dom (inMemoryRevokedFamilies st) \<subseteq> dom (inMemoryRevokedFamilies st')"
  proof (cases "map_of (inMemoryRefreshTokens st) j")
    case (Some meta)
    let ?st1 = "st\<lparr>inMemoryRefreshTokens := AList.update j (put_member ''isRevoked'' (JBool True) meta) (inMemoryRefreshTokens st)\<rparr>"
    let ?st2 = "case text_member_is ''familyId'' meta of Some familyId \<Rightarrow> revokeTokenFamily env familyId (''bulk_'' @ r) ?st1 | None \<Rightarrow> ?st1"
    have "dom (inMemoryRevokedFamilies st) \<subseteq> dom (inMemoryRevokedFamilies ?st2)"
      by (auto simp: revokeTokenFamily_def split: option.splits)
    then show ?thesis
      using that [of ?st2] that [of st]
      by (cases "text_member_is ''publicKey'' meta = Some pk \<and> \<not> js_truthy (json_get ''isRevoked'' meta)") (simp_all add: Some Let_def)
  qed (use that [of st] in simp)
  from st'(2) Cons.IH [of st'] show ?case unfolding st'(1) by (rule subset_trans)
qed simp

definition revoked_in :: "string \<Rightarrow> 's auth_state \<Rightarrow> bool" where
  "revoked_in f st \<longleftrightarrow> inMemoryRevokedFamilies st f \<noteq> None"

text \<open>The requests that reach the module, each with its own environment.\<close>

inductive auth_step :: "'s auth_state \<Rightarrow> 's auth_state \<Rightarrow> bool" where
  step_challenge: "auth_step st (snd (requestChallenge env pk st))"
| step_login_checks: "auth_step st (snd (login_checks env body st))"
| step_login_finish: "auth_step st (snd (login_finish env fp checked st))"
| step_refresh: "auth_step st (snd (rotateRefreshToken env t fp st))"
| step_logout: "auth_step st (logout env u st)"
| step_logout_all: "auth_step st (snd (logoutAllSessions env u st))"
| step_authenticate: "auth_step st (snd (requireJwtAuth env h c st))"
| step_cache: "auth_step st (st\<lparr>au_cache := c\<rparr>)"

lemma rotate_families: "dom (inMemoryRevokedFamilies st) \<subseteq> dom (inMemoryRevokedFamilies (snd (rotateRefreshToken env t fp st)))"
proof (cases "verifyJwtToken env t")
  case (Some d)
  show ?thesis
  proof (cases "jp_tokenType d = Some ''refresh'' \<and> truthy_text (jp_familyId d) \<noteq> None")
    case True
    then obtain f where f: "truthy_text (jp_familyId d) = Some f" and k: "jp_tokenType d = Some ''refresh''" by auto
    obtain b st1 where r: "isFamilyRevoked env f st = (b, st1)" by (meson surj_pair)
    obtain m st2 where m: "getRefreshTokenMetadata env (jp_jti d) st1 = (m, st2)" by (meson surj_pair)
    have "inMemoryRevokedFamilies st2 = inMemoryRevokedFamilies st" "inMemoryRevokedFamilies st1 = inMemoryRevokedFamilies st"
      using isFamilyRevoked_families [of env f st] getRefreshTokenMetadata_families [of env "jp_jti d" st1] r m by simp_all
    then show ?thesis
      by (cases b; cases m) (auto simp: rotateRefreshToken_def Some f k r m revokeTokenFamily_def Let_def)
  qed (auto simp: rotateRefreshToken_def Some Let_def split: option.splits)
qed (simp add: rotateRefreshToken_def)

lemma login_families [simp]:
  "inMemoryRevokedFamilies (snd (login_checks env body st)) = inMemoryRevokedFamilies st"
  "inMemoryRevokedFamilies (snd (login_finish env fp ch st)) = inMemoryRevokedFamilies st"
  "inMemoryRevokedFamilies (snd (requestChallenge env pk st)) = inMemoryRevokedFamilies st"
  "inMemoryRevokedFamilies (snd (requireJwtAuth env h c st)) = inMemoryRevokedFamilies st"
proof -
  show "inMemoryRevokedFamilies (snd (login_checks env body st)) = inMemoryRevokedFamilies st"
    by (simp add: login_checks_def case_prod_beta Let_def split: option.splits)
  obtain pk' m i where ch: "ch = (pk', m, i)" by (cases ch)
  obtain b st1 where c: "consumeIssuedChallenge env pk' m i st = (b, st1)" by (meson surj_pair)
  then have "inMemoryRevokedFamilies st1 = inMemoryRevokedFamilies st" using challenge_families(3) [of env pk' m i st] by simp
  then show "inMemoryRevokedFamilies (snd (login_finish env fp ch st)) = inMemoryRevokedFamilies st"
    by (cases b) (simp_all add: login_finish_def ch c)
  show "inMemoryRevokedFamilies (snd (requestChallenge env pk st)) = inMemoryRevokedFamilies st"
  proof (cases "truthy_text pk")
    case (Some k)
    show ?thesis
    proof (cases "generateChallenge env k")
      case (Inr ch)
      obtain res st1 where s: "storeChallenge env k ch st = (res, st1)" by (meson surj_pair)
      then have "inMemoryRevokedFamilies st1 = inMemoryRevokedFamilies st" using challenge_families(1) [of env k ch st] by simp
      then show ?thesis by (cases res) (simp_all add: requestChallenge_def Some Inr s)
    next
      case (Inl e)
      then show ?thesis by (cases e) (simp_all add: requestChallenge_def Some)
    qed
  qed (simp add: requestChallenge_def)
  show "inMemoryRevokedFamilies (snd (requireJwtAuth env h c st)) = inMemoryRevokedFamilies st"
  proof -
    have "inMemoryRevokedFamilies (snd (case isSessionRevoked env p st of (True, st1) \<Rightarrow> (Inl e, st1) | (False, st1) \<Rightarrow> (Inr x, st1)))
        = inMemoryRevokedFamilies st" for p and e :: AppError and x :: JwtPayload
    proof -
      obtain b st1 where r: "isSessionRevoked env p st = (b, st1)" by (meson surj_pair)
      then have "inMemoryRevokedFamilies st1 = inMemoryRevokedFamilies st" using isSessionRevoked_families [of env p st] by simp
      then show ?thesis by (cases b) (simp_all add: r)
    qed
    then show ?thesis by (simp add: requireJwtAuth_def split: option.splits)
  qed
qed

lemma auth_step_keeps:
  assumes "auth_step st st'" "revoked_in f st"
  shows "revoked_in f st'"
  using assms
proof (induction rule: auth_step.induct)
  case (step_refresh st env t fp)
  then show ?case using rotate_families [of st env t fp] by (auto simp: revoked_in_def)
next
  case (step_logout st env u)
  then show ?case by (auto simp: revoked_in_def logout_def revokeTokenFamily_def Let_def split: option.splits)
next
  case (step_logout_all st env u)
  then show ?case using invalidate_loop_families by (fastforce simp: revoked_in_def logoutAllSessions_def invalidateAllFamilies_def split: option.splits)
qed (simp_all add: revoked_in_def)

lemma auth_steps_keep: "auth_step\<^sup>*\<^sup>* st st' \<Longrightarrow> revoked_in f st \<Longrightarrow> revoked_in f st'"
  by (induction rule: rtranclp_induct) (auto intro: auth_step_keeps)

text \<open>The token a request carries, in its header or else in its cookie, and a request both gates refuse.\<close>

definition carried :: "'s auth_env \<Rightarrow> string option \<Rightarrow> string option \<Rightarrow> string option" where
  "carried env h c = truthy_text (case extractBearerToken h of None \<Rightarrow> extractCookieToken (ae_vars env) c | Some t \<Rightarrow> Some t)"

definition refused :: "'s auth_env \<Rightarrow> string option \<Rightarrow> string option \<Rightarrow> 's auth_state \<Rightarrow> bool" where
  "refused env h c st \<longleftrightarrow>
     (\<exists>e. fst (requireJwtAuth env h c st) = Inl e \<and> ae_statusCode e = 401) \<and> fst (optionalJwtAuth env h st) = None"

lemma session_refused:
  assumes "carried env h c = Some t" "verifyJwtToken env t = Some p" "fst (isSessionRevoked env p st)"
  shows "refused env h c st"
proof -
  obtain st1 where s: "isSessionRevoked env p st = (True, st1)" using assms(3) by (metis prod.collapse)
  have "fst (requireJwtAuth env h c st) = Inl (unauthorized ''Token has been revoked'' None)"
    using assms(1,2) s by (simp add: carried_def requireJwtAuth_def split: option.splits)
  moreover have "fst (optionalJwtAuth env h st) = None"
    using assms(1,2) s by (auto simp: carried_def optionalJwtAuth_def truthy_text_def split: option.splits if_splits)
  ultimately show ?thesis by (simp add: refused_def unauthorized_def AppError_new_def)
qed

lemma session_revoked_family:
  assumes "jp_familyId p = Some f" "f \<noteq> []"
    and "\<And>st'. st' = st \<or> st' = snd (isTokenRevoked env (jp_jti p) st) \<Longrightarrow> fst (isFamilyRevoked env f st')"
  shows "fst (isSessionRevoked env p st)"
proof -
  obtain b st1 where tr: "(if jp_jti p = [] then (False, st) else isTokenRevoked env (jp_jti p) st) = (b, st1)" by (meson surj_pair)
  then have "st1 = st \<or> st1 = snd (isTokenRevoked env (jp_jti p) st)" by (auto split: if_splits)
  from assms(3) [OF this] show ?thesis
    using assms(1,2) unfolding isSessionRevoked_def tr by (cases b) (simp_all add: truthy_text_def)
qed

lemma revoked_family_not_rotated:
  assumes "verifyJwtToken env t = Some p" "jp_familyId p = Some f" "f \<noteq> []" "fst (isFamilyRevoked env f st)"
  shows "\<exists>e. fst (rotateRefreshToken env t fp st) = Inl e"
proof -
  obtain st1 where "isFamilyRevoked env f st = (True, st1)" using assms(4) by (metis prod.collapse)
  then show ?thesis using assms(1-3) by (simp add: rotateRefreshToken_def truthy_text_def Let_def)
qed

lemma revoked_in_known: "revoked_in f st \<Longrightarrow> fst (isFamilyRevoked env f st)"
  by (simp add: revoked_in_def isFamilyRevoked_def)

lemma revoked_in_refused:
  assumes "revoked_in f st" "carried env h c = Some t" "verifyJwtToken env t = Some p" "jp_familyId p = Some f" "f \<noteq> []"
  shows "refused env h c st \<and> (\<forall>fp. \<exists>e. fst (rotateRefreshToken env t fp st) = Inl e)"
proof -
  have "revoked_in f (snd (isTokenRevoked env (jp_jti p) st))" using assms(1) by (simp add: revoked_in_def)
  then have "fst (isSessionRevoked env p st)"
    using session_revoked_family [OF assms(4,5)] revoked_in_known assms(1) by blast
  then show ?thesis
    using session_refused [OF assms(2,3)] revoked_family_not_rotated [OF assms(3-5) revoked_in_known [OF assms(1)]] by blast
qed

text \<open>Reading back an entry that Redis holds.\<close>

lemma timely_get_view: "redis_ok (ae_redis env) view \<Longrightarrow> cview view (au_cache (snd (timely_get env k st))) = cview view (au_cache st)"
  using cache_get_view [of "ae_redis env" view k "au_cache st"] by (simp add: timely_get_def case_prod_beta)

lemma timely_get_entry:
  assumes "redis_ok (ae_redis env) view" "reads_reliable (ae_redis env)" "ae_timely env"
    and "cview view (au_cache st) k = Some (stringify v)" "json_wf v"
  shows "fst (timely_get env k st) = v"
  using cache_get_exact [OF assms(1,2), of k "au_cache st"] assms(3-5)
  by (simp add: timely_get_def json_parse_stringify stringify_nonempty case_prod_beta)

lemma family_entry_known:
  assumes "redis_ok (ae_redis env) view" "reads_reliable (ae_redis env)" "ae_timely env"
    and "cview view (au_cache st) (''token_family:'' @ f) = Some (stringify (family_object now reason))" "json_wf (JInt now)"
  shows "fst (isFamilyRevoked env f st)"
proof -
  have "fst (timely_get env (''token_family:'' @ f) st) = family_object now reason"
    by (rule timely_get_entry [OF assms(1-4)]) (use assms(5) in \<open>simp add: family_object_def\<close>)
  then show ?thesis by (simp add: isFamilyRevoked_def case_prod_beta family_object_def)
qed

lemma isTokenRevoked_view:
  "redis_ok (ae_redis env) view \<Longrightarrow> cview view (au_cache (snd (isTokenRevoked env j st))) = cview view (au_cache st)"
  using timely_get_view by (simp add: isTokenRevoked_def case_prod_beta)

text \<open>
  A process that sees the revocations of another: both use one Redis, which works and answers in time, and the
  entries the other left there are still in it. It may be another process, or the same one restarted.
\<close>

definition sees_revocations ::
  "('s \<Rightarrow> string \<Rightarrow> string option) \<Rightarrow> 's auth_env \<Rightarrow> 's auth_env \<Rightarrow> 's auth_state \<Rightarrow> 's auth_state \<Rightarrow> bool" where
  "sees_revocations view env0 env left st \<longleftrightarrow>
     redis_ok (ae_redis env) view \<and> reads_reliable (ae_redis env) \<and> writes_reliable (ae_redis env)
     \<and> ae_redis env0 = ae_redis env \<and> ae_timely env
     \<and> (\<forall>k. take 12 k = ''revoked-jti:'' \<or> take 13 k = ''token_family:'' \<longrightarrow>
          cview view (au_cache st) k = cview view (au_cache left) k)"

lemma logout_writes:
  assumes "redis_ok (ae_redis env0) view" "writes_reliable (ae_redis env0)"
  shows "jp_jti u \<noteq> [] \<Longrightarrow> jp_exp u \<noteq> 0 \<Longrightarrow> ae_now env0 div 1000 < jp_exp u \<Longrightarrow>
      cview view (au_cache (logout env0 (Some u) st0)) (''revoked-jti:'' @ jp_jti u) = Some (stringify (JBool True))"
    and "jp_familyId u = Some f \<Longrightarrow> f \<noteq> [] \<Longrightarrow>
      cview view (au_cache (logout env0 (Some u) st0)) (''token_family:'' @ f)
        = Some (stringify (family_object (ae_now env0) ''user_logout''))"
  using cache_set_exact [OF assms]
  by (auto simp: logout_def revokeToken_def revokeTokenFamily_def truthy_text_def Let_def split: option.splits)

definition same_family :: "JwtPayload \<Rightarrow> JwtPayload \<Rightarrow> bool" where
  "same_family p u \<longleftrightarrow> (\<exists>f. f \<noteq> [] \<and> jp_familyId p = Some f \<and> jp_familyId u = Some f)"

text \<open>
  C34. A logout ends the session. In the process that served it every token of the session's family is refused,
  in the header or in the cookie, as an access token and as a refresh token, whatever other requests do meanwhile
  and whatever becomes of Redis. A process that sees the entries the logout left in a working Redis refuses the
  tokens of the family as well, and the token that logged out even when it belongs to no family.
\<close>

theorem logout_ends_session:
  assumes "carried env h c = Some t" "verifyJwtToken env t = Some p"
    and "nat \<bar>ae_now env0\<bar> \<le> JS_MAX_INT" "0 \<le> ae_now env0" "ae_now env0 div 1000 < jp_exp u" "jp_jti u \<noteq> []"
  shows "(auth_step\<^sup>*\<^sup>* (logout env0 (Some u) st0) st \<and> same_family p u \<longrightarrow>
            refused env h c st \<and> (\<forall>fp. \<exists>e. fst (rotateRefreshToken env t fp st) = Inl e))
    \<and> (sees_revocations view env0 env (logout env0 (Some u) st0) st' \<longrightarrow>
        (same_family p u \<longrightarrow> refused env h c st' \<and> (\<forall>fp. \<exists>e. fst (rotateRefreshToken env t fp st') = Inl e))
        \<and> (jp_jti p = jp_jti u \<longrightarrow> refused env h c st'))"
proof (intro conjI impI)
  let ?out = "logout env0 (Some u) st0"
  assume a: "auth_step\<^sup>*\<^sup>* ?out st \<and> same_family p u"
  then obtain f where f: "f \<noteq> []" "jp_familyId p = Some f" "jp_familyId u = Some f" by (auto simp: same_family_def)
  then have "revoked_in f ?out"
    by (simp add: revoked_in_def logout_def truthy_text_def revokeTokenFamily_def Let_def)
  then have r: "revoked_in f st" using auth_steps_keep a by blast
  show "refused env h c st" using revoked_in_refused [OF r assms(1,2) f(2,1)] by blast
  show "\<forall>fp. \<exists>e. fst (rotateRefreshToken env t fp st) = Inl e"
    using revoked_in_refused [OF r assms(1,2) f(2,1)] by blast
next
  assume sees: "sees_revocations view env0 env (logout env0 (Some u) st0) st'" and "same_family p u"
  then obtain f where f: "f \<noteq> []" "jp_familyId p = Some f" "jp_familyId u = Some f" by (auto simp: same_family_def)
  have ok: "redis_ok (ae_redis env) view" "reads_reliable (ae_redis env)" "ae_timely env"
    and entry: "cview view (au_cache st') (''token_family:'' @ f) = Some (stringify (family_object (ae_now env0) ''user_logout''))"
    using sees logout_writes(2) [of env0 view u f st0] f by (auto simp: sees_revocations_def)
  have known: "fst (isFamilyRevoked env f st'')" if "cview view (au_cache st'') = cview view (au_cache st')" for st''
    using family_entry_known [OF ok] entry that assms(3) by simp
  then have "fst (isSessionRevoked env p st')"
    by (intro session_revoked_family [OF f(2,1)]) (use isTokenRevoked_view [OF ok(1)] in auto)
  then show "refused env h c st'" by (rule session_refused [OF assms(1,2)])
  show "\<forall>fp. \<exists>e. fst (rotateRefreshToken env t fp st') = Inl e"
    using revoked_family_not_rotated [OF assms(2) f(2,1)] known by blast
next
  assume sees: "sees_revocations view env0 env (logout env0 (Some u) st0) st'" and j: "jp_jti p = jp_jti u"
  have ok: "redis_ok (ae_redis env) view" "reads_reliable (ae_redis env)" "ae_timely env"
    and entry: "cview view (au_cache st') (''revoked-jti:'' @ jp_jti u) = Some (stringify (JBool True))"
    using sees logout_writes(1) [of env0 view u st0] assms(4-6) by (auto simp: sees_revocations_def)
  have "fst (isTokenRevoked env (jp_jti u) st')"
    using timely_get_entry [OF ok entry] by (simp add: isTokenRevoked_def case_prod_beta)
  then have "fst (isSessionRevoked env p st')"
    using j assms(6) by (cases "isTokenRevoked env (jp_jti u) st'") (simp add: isSessionRevoked_def)
  then show "refused env h c st'" by (rule session_refused [OF assms(1,2)])
qed

subsection \<open>Refresh tokens that are used twice\<close>

text \<open>What the library documents of tokens: one that was signed with the secret verifies until it expires.\<close>

definition jwt_ok :: "auth_sdk \<Rightarrow> bool" where
  "jwt_ok sdk \<longleftrightarrow> (\<forall>secret now p. jwt_verify sdk secret now (jwt_sign sdk secret p) = (if now < jp_exp p then Some p else None))"

text \<open>A pair that was issued: its tokens, and the state with the metadata of the refresh token.\<close>

lemma generateTokenPair_Inr:
  assumes "generateTokenPair env pk fp fam st = (Inr pair, st')"
  obtains secret as where "getJwtSecret (ae_vars env) = Some secret"
    "tp_refreshToken pair = jwt_sign (ae_sdk env) secret
       (token_payload env pk ''refresh'' (ae_uuid env 2) (refreshTtl (ae_ttl env)) (Some (tp_familyId pair)) fp as)"
    "tp_familyId pair = (case fam of None \<Rightarrow> ae_uuid env 0 | Some f \<Rightarrow> f)"
    "st' = storeRefreshTokenMetadata env (ae_uuid env 2)
       (metadata_object (ae_uuid env 2) (tp_familyId pair) pk False False fp (ae_now env)
          (ae_now env + refreshTtl (ae_ttl env) * 1000)) st"
  using assms
  by (auto simp: generateTokenPair_def generateJwtToken_def generateRefreshToken_def Let_def split: option.splits)

lemma generateTokenPair_total:
  assumes "getJwtSecret (ae_vars env) = Some secret"
  obtains pair meta where "generateTokenPair env pk fp (Some f) st = (Inr pair, storeRefreshTokenMetadata env (ae_uuid env 2) meta st)"
    "tp_familyId pair = f" "tp_publicKey pair = pk"
  using assms by (simp add: generateTokenPair_def generateJwtToken_def generateRefreshToken_def Let_def)

lemma stored_metadata:
  assumes "redis_ok (ae_redis env) view" "writes_reliable (ae_redis env)"
  shows "cview view (au_cache (storeRefreshTokenMetadata env j m st)) =
    (cview view (au_cache st))(''refresh_token:'' @ j \<mapsto> stringify m)"
  using cache_set_exact [OF assms] by (simp add: storeRefreshTokenMetadata_def)

lemma isFamilyRevoked_view:
  "redis_ok (ae_redis env) view \<Longrightarrow> cview view (au_cache (snd (isFamilyRevoked env f st))) = cview view (au_cache st)"
  using timely_get_view [of env view "''token_family:'' @ f" st] by (simp add: isFamilyRevoked_def case_prod_beta)

lemma metadata_wf:
  "nat \<bar>a\<bar> \<le> JS_MAX_INT \<Longrightarrow> nat \<bar>b\<bar> \<le> JS_MAX_INT \<Longrightarrow> json_wf (metadata_object j f pk u r fp a b)"
  by (simp add: metadata_object_def split: option.splits)

lemma metadata_members:
  "json_get ''isUsed'' (metadata_object j f pk u r fp a b) = Some (JBool u)"
  "json_get ''isRevoked'' (metadata_object j f pk u r fp a b) = Some (JBool r)"
  "js_truthy (Some (metadata_object j f pk u r fp a b))"
  "put_member ''isUsed'' (JBool v) (metadata_object j f pk u r fp a b) = metadata_object j f pk v r fp a b"
  by (simp_all add: metadata_object_def)

text \<open>One exchange of a refresh token whose metadata Redis holds.\<close>

lemma rotate_entry:
  assumes ok: "redis_ok (ae_redis env) view" "reads_reliable (ae_redis env)" "writes_reliable (ae_redis env)" "ae_timely env"
    and d: "verifyJwtToken env t = Some d" "jp_tokenType d = Some ''refresh''" "jp_familyId d = Some f" "f \<noteq> []"
    and live: "\<not> fst (isFamilyRevoked env f st)"
    and entry: "cview view (au_cache st) (''refresh_token:'' @ jp_jti d) = Some (stringify (metadata_object j f pk u False fp a b))"
    and wf: "nat \<bar>a\<bar> \<le> JS_MAX_INT" "nat \<bar>b\<bar> \<le> JS_MAX_INT"
  obtains st2 where "cview view (au_cache st2) = cview view (au_cache st)"
    "rotateRefreshToken env t cf st =
      (if u then (Inl (App (unauthorized ''Refresh token replay detected. All active sessions in this family have been revoked.''
              (Some TOKEN_REPLAY_DETECTED))), revokeTokenFamily env f ''token_replay_detected'' st2)
       else generateTokenPair env (jp_publicKey d) (case cf of None \<Rightarrow> jp_deviceFingerprint d | Some x \<Rightarrow> Some x) (Some f)
              (storeRefreshTokenMetadata env (jp_jti d) (metadata_object j f pk True False fp a b) st2))"
proof -
  obtain st1 where r: "isFamilyRevoked env f st = (False, st1)" using live by (metis prod.collapse)
  then have v1: "cview view (au_cache st1) = cview view (au_cache st)" using isFamilyRevoked_view [OF ok(1), of f st] by simp
  let ?m = "metadata_object j f pk u False fp a b" and ?st2 = "snd (timely_get env (''refresh_token:'' @ jp_jti d) st1)"
  have g: "fst (timely_get env (''refresh_token:'' @ jp_jti d) st1) = ?m"
    by (rule timely_get_entry [OF ok(1,2,4) _ metadata_wf [OF wf]]) (use v1 entry in simp)
  then have m: "getRefreshTokenMetadata env (jp_jti d) st1 = (Some ?m, ?st2)"
    by (simp add: getRefreshTokenMetadata_def case_prod_beta metadata_members)
  have "cview view (au_cache ?st2) = cview view (au_cache st)" using timely_get_view [OF ok(1)] v1 by simp
  then show ?thesis
    by (rule that) (simp add: rotateRefreshToken_def d truthy_text_def r m metadata_members Let_def split: option.splits)
qed

text \<open>
  C35. A refresh token is exchanged once: with a working Redis that keeps the metadata of the token, the first
  presentation of the refresh token of a pair, in any process, answers a new pair of the same family and wallet, and
  a second presentation that comes after it, in any process, is refused as a replay. From then on the process that
  saw the replay refuses every token of the family, as an access token and as a refresh token. The family is not
  revoked before the second presentation, and the identifiers of the two pairs differ.
\<close>

theorem replayed_refresh_token_ends_family:
  assumes ok: "redis_ok r view" "reads_reliable r" "writes_reliable r" "jwt_ok (ae_sdk env0)"
    and env0: "ae_redis env0 = r"
    and env1: "ae_redis env1 = r" "ae_timely env1" "ae_sdk env1 = ae_sdk env0" "ae_vars env1 = ae_vars env0"
    and env2: "ae_redis env2 = r" "ae_timely env2" "ae_sdk env2 = ae_sdk env0" "ae_vars env2 = ae_vars env0"
    and time: "ae_now env1 div 1000 < ae_now env0 div 1000 + refreshTtl (ae_ttl env0)"
      "ae_now env2 div 1000 < ae_now env0 div 1000 + refreshTtl (ae_ttl env0)"
      "nat \<bar>ae_now env0\<bar> \<le> JS_MAX_INT" "nat \<bar>ae_now env0 + refreshTtl (ae_ttl env0) * 1000\<bar> \<le> JS_MAX_INT"
    and issued: "generateTokenPair env0 pk fp fam s0 = (Inr pair, s1)" "tp_familyId pair = f" "f \<noteq> []"
    and first: "rotateRefreshToken env1 (tp_refreshToken pair) fp1 st1 = (res1, st2)" "\<not> fst (isFamilyRevoked env1 f st1)"
      "cview view (au_cache st1) (''refresh_token:'' @ ae_uuid env0 2) = cview view (au_cache s1) (''refresh_token:'' @ ae_uuid env0 2)"
    and fresh: "ae_uuid env1 2 \<noteq> ae_uuid env0 2"
    and second: "rotateRefreshToken env2 (tp_refreshToken pair) fp2 st3 = (res2, st4)" "\<not> fst (isFamilyRevoked env2 f st3)"
      "cview view (au_cache st3) (''refresh_token:'' @ ae_uuid env0 2) = cview view (au_cache st2) (''refresh_token:'' @ ae_uuid env0 2)"
  shows "(\<exists>pair'. res1 = Inr pair' \<and> tp_familyId pair' = f \<and> tp_publicKey pair' = pk)
    \<and> (\<exists>err. res2 = Inl (App err) \<and> ae_errorCode err = TOKEN_REPLAY_DETECTED)
    \<and> (\<forall>st env h c t p. auth_step\<^sup>*\<^sup>* st4 st \<longrightarrow> carried env h c = Some t \<longrightarrow> verifyJwtToken env t = Some p \<longrightarrow>
         jp_familyId p = Some f \<longrightarrow>
         refused env h c st \<and> (\<forall>fp. \<exists>e. fst (rotateRefreshToken env t fp st) = Inl e))"
proof -
  let ?j = "ae_uuid env0 2" and ?a = "ae_now env0" and ?b = "ae_now env0 + refreshTtl (ae_ttl env0) * 1000"
  obtain secret as where g: "getJwtSecret (ae_vars env0) = Some secret"
    "tp_refreshToken pair = jwt_sign (ae_sdk env0) secret
       (token_payload env0 pk ''refresh'' ?j (refreshTtl (ae_ttl env0)) (Some f) fp as)"
    "s1 = storeRefreshTokenMetadata env0 ?j (metadata_object ?j f pk False False fp ?a ?b) s0"
    using generateTokenPair_Inr [OF issued(1)] issued(2) by metis
  let ?d = "token_payload env0 pk ''refresh'' ?j (refreshTtl (ae_ttl env0)) (Some f) fp as"
  have d: "jp_tokenType ?d = Some ''refresh''" "jp_familyId ?d = Some f" "jp_jti ?d = ?j" "jp_publicKey ?d = pk"
    "jp_exp ?d = ae_now env0 div 1000 + refreshTtl (ae_ttl env0)"
    by (simp_all add: token_payload_def Let_def)
  have v: "verifyJwtToken env1 (tp_refreshToken pair) = Some ?d" "verifyJwtToken env2 (tp_refreshToken pair) = Some ?d"
    using ok(4) env1(3,4) env2(3,4) g(1,2) time(1,2) d(5) by (simp_all add: verifyJwtToken_def jwt_ok_def)
  have e1: "cview view (au_cache st1) (''refresh_token:'' @ jp_jti ?d) = Some (stringify (metadata_object ?j f pk False False fp ?a ?b))"
    using first(3) g(3) stored_metadata [of env0 view] ok(1,3) env0 d(3) by simp
  obtain x where x: "rotateRefreshToken env1 (tp_refreshToken pair) fp1 st1 =
      generateTokenPair env1 pk (case fp1 of None \<Rightarrow> jp_deviceFingerprint ?d | Some y \<Rightarrow> Some y) (Some f)
        (storeRefreshTokenMetadata env1 ?j (metadata_object ?j f pk True False fp ?a ?b) x)"
    using rotate_entry [of env1 view, OF _ _ _ env1(2) v(1) d(1,2) issued(3) first(2) e1 time(3,4)] ok(1-3) env1(1) d(3,4)
    by (metis (full_types))
  have "getJwtSecret (ae_vars env1) = Some secret" using g(1) env1(4) by simp
  from generateTokenPair_total [OF this] obtain pair' meta where p': "res1 = Inr pair'" "tp_familyId pair' = f" "tp_publicKey pair' = pk"
    "st2 = storeRefreshTokenMetadata env1 (ae_uuid env1 2) meta
       (storeRefreshTokenMetadata env1 ?j (metadata_object ?j f pk True False fp ?a ?b) x)"
    using first(1) unfolding x by (metis Pair_inject)
  have e2: "cview view (au_cache st3) (''refresh_token:'' @ jp_jti ?d) = Some (stringify (metadata_object ?j f pk True False fp ?a ?b))"
    using second(3) p'(4) stored_metadata [of env1 view] ok(1,3) env1(1) d(3) fresh by simp
  obtain y where y: "rotateRefreshToken env2 (tp_refreshToken pair) fp2 st3 =
      (Inl (App (unauthorized ''Refresh token replay detected. All active sessions in this family have been revoked.''
         (Some TOKEN_REPLAY_DETECTED))), revokeTokenFamily env2 f ''token_replay_detected'' y)"
    using rotate_entry [of env2 view, OF _ _ _ env2(2) v(2) d(1,2) issued(3) second(2) e2 time(3,4)] ok(1-3) env2(1)
    by (metis (full_types))
  then have r2: "\<exists>err. res2 = Inl (App err) \<and> ae_errorCode err = TOKEN_REPLAY_DETECTED"
    and "revoked_in f st4"
    using second(1) by (auto simp: unauthorized_def AppError_new_def or_code_def revoked_in_def revokeTokenFamily_def)
  then have "refused env h c st \<and> (\<forall>fp. \<exists>e. fst (rotateRefreshToken env t fp st) = Inl e)"
    if "auth_step\<^sup>*\<^sup>* st4 st" "carried env h c = Some t" "verifyJwtToken env t = Some p" "jp_familyId p = Some f" for st env h c t p
    using revoked_in_refused [OF auth_steps_keep [OF that(1)] that(2-4) issued(3)] by blast
  with r2 p'(1-3) show ?thesis by blast
qed

subsection \<open>What a token grants\<close>

text \<open>
  A request that is authenticated carries the current role of its wallet and no scope that this role does
  not have, whatever its token says, and its token verified and belongs to no family revoked in this process.
\<close>

theorem authenticated_user_is_capped:
  assumes "requireJwtAuth env h c st = (Inr u, st')"
  shows "jp_role u = resolveRoleForWallet (av_roles (ae_vars env)) (jp_publicKey u)
    \<and> set (jp_scopes u) \<subseteq> set (resolveScopesForRole (jp_role u))
    \<and> (\<exists>t p. verifyJwtToken env t = Some p \<and> jp_publicKey p = jp_publicKey u \<and> set (jp_scopes u) \<subseteq> set (jp_scopes p)
        \<and> (\<forall>f. jp_familyId p = Some f \<longrightarrow> f \<noteq> [] \<longrightarrow> \<not> revoked_in f st))"
proof -
  obtain t p where t: "verifyJwtToken env t = Some p" and s: "isSessionRevoked env p st = (False, st')"
      and u: "u = capPayloadToCurrentRole (ae_vars env) p"
    using assms by (auto simp: requireJwtAuth_def split: option.splits prod.splits bool.splits)
  have "\<not> revoked_in f st" if f: "jp_familyId p = Some f" "f \<noteq> []" for f
  proof
    assume "revoked_in f st"
    obtain b st1 where tr: "(if jp_jti p = [] then (False, st) else isTokenRevoked env (jp_jti p) st) = (b, st1)" by (meson surj_pair)
    have "st1 = snd (if jp_jti p = [] then (False, st) else isTokenRevoked env (jp_jti p) st)" using tr by simp
    then have "inMemoryRevokedFamilies st1 f \<noteq> None" using \<open>revoked_in f st\<close> by (simp add: revoked_in_def)
    then show False using s f unfolding isSessionRevoked_def tr by (cases b) (simp_all add: truthy_text_def isFamilyRevoked_def)
  qed
  then show ?thesis using t u by (auto simp: capPayloadToCurrentRole_def Let_def)
qed

text \<open>
  The middleware does not look at the kind of a token: the refresh token of a pair authenticates requests
  like an access token, until its own expiry, as long as its session is not revoked.
\<close>

theorem refresh_token_authenticates:
  assumes "generateTokenPair env pk fp fam st0 = (Inr pair, st1)" "jwt_ok (ae_sdk env)"
    and "ae_sdk env' = ae_sdk env" "ae_vars env' = ae_vars env" "ae_now env' div 1000 < ae_now env div 1000 + refreshTtl (ae_ttl env)"
    and "extractBearerToken h = Some (tp_refreshToken pair)" "tp_refreshToken pair \<noteq> []"
    and "\<And>p. fst (isSessionRevoked env' p st) = False"
  shows "\<exists>u. fst (requireJwtAuth env' h c st) = Inr u \<and> jp_publicKey u = pk \<and> jp_tokenType u = Some ''refresh''
    \<and> jp_scopes u = resolveScopesForRole (resolveRoleForWallet (av_roles (ae_vars env)) pk)"
proof -
  let ?f = "case fam of None \<Rightarrow> ae_uuid env 0 | Some f \<Rightarrow> f"
  let ?as = "resolveAssignedBorrowers (ae_tenants env) pk (Some (resolveRoleForWallet (av_roles (ae_vars env)) pk))"
  let ?p = "token_payload env pk ''refresh'' (ae_uuid env 2) (refreshTtl (ae_ttl env)) (Some ?f) fp ?as"
  obtain secret where s: "getJwtSecret (ae_vars env) = Some secret" "tp_refreshToken pair = jwt_sign (ae_sdk env) secret ?p"
    using assms(1) by (auto simp: generateTokenPair_def generateJwtToken_def generateRefreshToken_def Let_def split: option.splits)
  have "jp_exp ?p = ae_now env div 1000 + refreshTtl (ae_ttl env)" by (simp add: token_payload_def Let_def)
  then have v: "verifyJwtToken env' (tp_refreshToken pair) = Some ?p"
    using assms(2-5) s by (simp add: verifyJwtToken_def jwt_ok_def)
  obtain st2 where r: "isSessionRevoked env' ?p st = (False, st2)" using assms(8) [of ?p] by (metis prod.collapse)
  have "fst (requireJwtAuth env' h c st) = Inr (capPayloadToCurrentRole (ae_vars env) ?p)"
    using assms(4,6,7) v r by (simp add: requireJwtAuth_def truthy_text_def)
  then show ?thesis by (simp add: capPayloadToCurrentRole_def token_payload_def Let_def)
qed

subsection \<open>Login\<close>

definition challenge_key :: "string \<Rightarrow> bool" where
  "challenge_key k \<longleftrightarrow> take 15 k = ''auth_challenge:''"

lemma getChallengeKey_prefix: "getChallengeKey pk m = Some k \<Longrightarrow> challenge_key k"
  by (auto simp: getChallengeKey_def challenge_key_def)

text \<open>Issuing a pair leaves the challenges alone.\<close>

lemma generateTokenPair_challenges:
  assumes "redis_ok (ae_redis env) view" "challenge_key k"
  shows "cview view (au_cache (snd (generateTokenPair env pk fp fam st))) k = cview view (au_cache st) k"
proof -
  have "''refresh_token:'' @ x \<noteq> k" for x using assms(2) by (auto simp: challenge_key_def)
  then show ?thesis
    using cache_set_view [OF assms(1)]
    by (auto simp: generateTokenPair_def storeRefreshTokenMetadata_def Let_def split: sum.splits) (metis (no_types, lifting) empty_iff fun_upd_other insert_iff)
qed

lemma checks_Inr:
  assumes "login_checks env body st = (Inr (pk, m, issued), st1)"
  obtains sig ds where "lb_publicKey body = Some pk" "lb_message body = Some m" "lb_signature body = Some sig"
    "timestamp_match m = Some ds" "verifyChallengeTimestamp (ae_now env) (int (string_to_nat ds)) (challengeTtl (ae_ttl env))"
    "getIssuedChallenge env pk m st = (issued, st1)" "js_truthy (Some issued)" "json_get ''publicKey'' issued = Some (JStr pk)"
    "json_get ''message'' issued = Some (JStr m)" "case number_member ''expiresAt'' issued of Some n \<Rightarrow> ae_now env \<le> n | None \<Rightarrow> True"
    "verifySignature (ae_sdk env) pk m sig"
  using assms
  by (auto simp: login_checks_def truthy_Some not_less split: option.splits if_splits prod.splits)

text \<open>
  C30. A login that succeeds proved the possession of the wallet's key over a challenge that was stored for
  that wallet, is recent and not expired; and the challenge is gone afterwards.
\<close>

theorem login_needs_signed_challenge:
  assumes "redis_ok (ae_redis env) view" "\<not> av_is_test (ae_vars env)" "login env body ip headers st = (Inr pair, st')"
  shows "\<exists>pk m sig key v. lb_publicKey body = Some pk \<and> lb_message body = Some m \<and> lb_signature body = Some sig
    \<and> tp_publicKey pair = pk \<and> verifySignature (ae_sdk env) pk m sig
    \<and> getChallengeKey pk m = Some key \<and> cview view (au_cache st) key = Some v
    \<and> (\<exists>stored. json_parse v = Some stored \<and> json_get ''publicKey'' stored = Some (JStr pk) \<and> json_get ''message'' stored = Some (JStr m)
        \<and> v = stringify stored \<and> (case number_member ''expiresAt'' stored of Some n \<Rightarrow> ae_now env \<le> n | None \<Rightarrow> True))
    \<and> cview view (au_cache st') key = None"
proof -
  obtain pk m issued st1 where ch: "login_checks env body st = (Inr (pk, m, issued), st1)"
      and fin: "login_finish env (Some (generateDeviceFingerprint (ae_sdk env) ip headers)) (pk, m, issued) st1 = (Inr pair, st')"
    using assms(3) by (auto simp: login_def split: prod.splits sum.splits)
  obtain sig ds where k: "lb_publicKey body = Some pk" "lb_message body = Some m" "lb_signature body = Some sig"
    "getIssuedChallenge env pk m st = (issued, st1)" "js_truthy (Some issued)" "json_get ''publicKey'' issued = Some (JStr pk)"
    "json_get ''message'' issued = Some (JStr m)" "case number_member ''expiresAt'' issued of Some n \<Rightarrow> ae_now env \<le> n | None \<Rightarrow> True"
    "verifySignature (ae_sdk env) pk m sig"
    using checks_Inr [OF ch] by metis
  obtain st2 where c: "consumeIssuedChallenge env pk m issued st1 = (True, st2)" and g: "generateTokenPair env pk
      (Some (generateDeviceFingerprint (ae_sdk env) ip headers)) None st2 = (Inr pair, st')"
    using fin by (auto simp: login_finish_def split: prod.splits bool.splits)
  obtain key where key: "getChallengeKey pk m = Some key" using c by (auto simp: consumeIssuedChallenge_def split: option.splits)
  have st1: "au_cache st1 = snd (cache_get (ae_redis env) key (au_cache st))" "issued = fst (cache_get (ae_redis env) key (au_cache st))"
    using k(4) assms(2) by (auto simp: getIssuedChallenge_def key split: prod.splits)
  have del: "fst (deleteIfMatch (ae_redis env) key issued (au_cache st1))" "au_cache st2 = snd (deleteIfMatch (ae_redis env) key issued (au_cache st1))"
    using c assms(2) by (auto simp: consumeIssuedChallenge_def key split: prod.splits)
  have "cview view (au_cache st') key = None"
    using generateTokenPair_challenges [OF assms(1) getChallengeKey_prefix [OF key], of pk "Some (generateDeviceFingerprint (ae_sdk env) ip headers)" None st2]
      g deleteIfMatch_view(2) [OF assms(1) del(1)] del(2) by simp
  moreover from deleteIfMatch_view(2) [OF assms(1) del(1)] have v: "cview view (au_cache st) key = Some (stringify issued)"
    using cache_get_view [OF assms(1), of key "au_cache st"] st1(1) by simp
  moreover have "json_parse (stringify issued) = Some issued"
    using cache_get_result [OF assms(1), of key "au_cache st"] k(5) v by (auto simp: st1(2) [symmetric] split: if_splits option.splits)
  moreover have "tp_publicKey pair = pk" using g by (auto simp: generateTokenPair_def Let_def split: sum.splits)
  ultimately show ?thesis using k key v by blast
qed

subsection \<open>A challenge is used once\<close>

text \<open>
  Any number of requests for challenges and of logins, interleaved at their calls of Redis; keys may expire
  and other writers leave the challenges alone. \<open>ls_stored\<close> and \<open>ls_logins\<close> record the keys that were
  stored and the keys of the logins that answered a pair.
\<close>

record 's login_sys =
  ls_state :: "'s auth_state"
  ls_checked :: "nat \<rightharpoonup> string \<times> string \<times> json"
  ls_stored :: "string list"
  ls_logins :: "string list"

definition requested_keys :: "'s auth_env \<Rightarrow> string option \<Rightarrow> string list" where
  "requested_keys env pk =
     (case truthy_text pk of
        None \<Rightarrow> []
      | Some k \<Rightarrow>
          (case generateChallenge env k of
             Inl e \<Rightarrow> []
           | Inr ch \<Rightarrow> (case getChallengeKey k (cm_message ch) of None \<Rightarrow> [] | Some key \<Rightarrow> [key])))"

definition checked_keys :: "string \<times> string \<times> json \<Rightarrow> string list" where
  "checked_keys ch = (case getChallengeKey (fst ch) (fst (snd ch)) of None \<Rightarrow> [] | Some key \<Rightarrow> [key])"

inductive login_step :: "'s redis \<Rightarrow> ('s \<Rightarrow> string \<Rightarrow> string option) \<Rightarrow> 's login_sys \<Rightarrow> 's login_sys \<Rightarrow> bool" for r view where
  step_request: "ae_redis env = r \<Longrightarrow> \<not> av_is_test (ae_vars env) \<Longrightarrow>
    login_step r view sys (sys\<lparr>ls_state := snd (requestChallenge env pk (ls_state sys)), ls_stored := ls_stored sys @ requested_keys env pk\<rparr>)"
| step_check: "ae_redis env = r \<Longrightarrow> \<not> av_is_test (ae_vars env) \<Longrightarrow> login_checks env body (ls_state sys) = (res, st) \<Longrightarrow>
    login_step r view sys (sys\<lparr>ls_state := st, ls_checked := (case res of Inl e \<Rightarrow> ls_checked sys | Inr ch \<Rightarrow> (ls_checked sys)(n \<mapsto> ch))\<rparr>)"
| step_finish: "ae_redis env = r \<Longrightarrow> \<not> av_is_test (ae_vars env) \<Longrightarrow> ls_checked sys n = Some ch \<Longrightarrow> login_finish env fp ch (ls_state sys) = (res, st) \<Longrightarrow>
    login_step r view sys (sys\<lparr>ls_state := st, ls_checked := (ls_checked sys)(n := None),
      ls_logins := ls_logins sys @ (case res of Inl e \<Rightarrow> [] | Inr pair \<Rightarrow> checked_keys ch)\<rparr>)"
| step_other: "(\<And>k. challenge_key k \<Longrightarrow> cview view c k \<in> {None, cview view (au_cache (ls_state sys)) k}) \<Longrightarrow>
    login_step r view sys (sys\<lparr>ls_state := (ls_state sys)\<lparr>au_cache := c\<rparr>\<rparr>)"

definition live :: "('s \<Rightarrow> string \<Rightarrow> string option) \<Rightarrow> 's auth_state \<Rightarrow> string \<Rightarrow> nat" where
  "live view st k = (if cview view (au_cache st) k = None then 0 else 1)"

definition login_inv :: "('s \<Rightarrow> string \<Rightarrow> string option) \<Rightarrow> 's login_sys \<Rightarrow> bool" where
  "login_inv view sys \<longleftrightarrow> (\<forall>k. challenge_key k \<longrightarrow> count_list (ls_logins sys) k + live view (ls_state sys) k \<le> count_list (ls_stored sys) k)"

lemma request_live:
  assumes "redis_ok (ae_redis env) view" "\<not> av_is_test (ae_vars env)"
  shows "live view (snd (requestChallenge env pk st)) k \<le> live view st k + count_list (requested_keys env pk) k"
proof (cases "truthy_text pk")
  case (Some q)
  show ?thesis
  proof (cases "generateChallenge env q")
    case (Inl e)
    then show ?thesis by (cases e) (simp_all add: requestChallenge_def Some)
  next
    case (Inr ch)
    obtain res st1 where s: "storeChallenge env q ch st = (res, st1)" by (meson surj_pair)
    have r: "snd (requestChallenge env pk st) = st1" by (cases res) (simp_all add: requestChallenge_def Some Inr s)
    show ?thesis
    proof (cases "getChallengeKey q (cm_message ch)")
      case None
      then show ?thesis using s unfolding r by (simp add: storeChallenge_def Let_def)
    next
      case (Some key)
      let ?v = "challenge_object q (cm_message ch) (cm_timestamp ch + cm_expiresIn ch)" and ?t = "- ((- cm_expiresIn ch) div 1000)"
      have c: "au_cache st1 = snd (setRequired (ae_redis env) key ?v ?t (au_cache st))"
        using s assms(2) by (auto simp: storeChallenge_def Some Let_def split: prod.splits)
      have keys: "requested_keys env pk = [key]" by (simp add: requested_keys_def \<open>truthy_text pk = Some q\<close> Inr Some)
      show ?thesis
        using setRequired_view [OF assms(1), of key ?v ?t "au_cache st"] unfolding r keys live_def c by auto
    qed
  qed
qed (simp add: requestChallenge_def)

lemma finish_live:
  assumes "redis_ok (ae_redis env) view" "\<not> av_is_test (ae_vars env)" "login_finish env fp ch st = (res, st')" "challenge_key k"
  shows "(case res of Inl e \<Rightarrow> 0 | Inr p \<Rightarrow> count_list (checked_keys ch) k) + live view st' k \<le> live view st k"
proof -
  obtain pk m i where ch: "ch = (pk, m, i)" by (cases ch)
  show ?thesis
  proof (cases "getChallengeKey pk m")
    case None
    then show ?thesis using assms(3) by (auto simp: login_finish_def ch consumeIssuedChallenge_def)
  next
    case (Some key)
    obtain b c where d: "deleteIfMatch (ae_redis env) key i (au_cache st) = (b, c)" by (meson surj_pair)
    have cons: "consumeIssuedChallenge env pk m i st = (b, st\<lparr>au_cache := c\<rparr>)" using assms(2) by (simp add: consumeIssuedChallenge_def Some d)
    have keys: "checked_keys ch = [key]" by (simp add: checked_keys_def ch Some)
    note v = deleteIfMatch_view [OF assms(1), of key i "au_cache st", unfolded d fst_conv snd_conv]
    show ?thesis
    proof (cases b)
      case True
      have "st' = snd (generateTokenPair env pk fp None (st\<lparr>au_cache := c\<rparr>))" using assms(3) True by (simp add: login_finish_def ch cons)
      then have "cview view (au_cache st') k = cview view c k"
        using generateTokenPair_challenges [OF assms(1,4), of pk fp None "st\<lparr>au_cache := c\<rparr>"] by simp
      then show ?thesis using v(2) [OF True] unfolding keys live_def by (cases res) auto
    next
      case False
      then have "st' = st\<lparr>au_cache := c\<rparr>" "\<exists>e. res = Inl e" using assms(3) by (auto simp: login_finish_def ch cons)
      then show ?thesis using v(1) unfolding live_def by (auto split: if_splits)
    qed
  qed
qed

lemma checks_live:
  assumes "redis_ok (ae_redis env) view" "\<not> av_is_test (ae_vars env)" "login_checks env body st = (res, st')"
  shows "live view st' k = live view st k"
proof -
  have g: "cview view (au_cache (snd (getIssuedChallenge env pk m st))) = cview view (au_cache st)" for pk m
    using assms(2) cache_get_view [OF assms(1)] by (auto simp: getIssuedChallenge_def split: option.splits prod.splits) (metis snd_conv)
  have "cview view (au_cache (snd (login_checks env body st))) = cview view (au_cache st)"
    using g by (simp add: login_checks_def case_prod_beta Let_def split: option.splits)
  then show ?thesis using assms(3) by (simp add: live_def)
qed

lemma inv_grows:
  assumes "login_inv view sys" "ls_logins sys' = ls_logins sys @ dl" "ls_stored sys' = ls_stored sys @ ds"
    and "\<And>k. challenge_key k \<Longrightarrow> count_list dl k + live view (ls_state sys') k \<le> live view (ls_state sys) k + count_list ds k"
  shows "login_inv view sys'"
  unfolding login_inv_def
proof (intro allI impI)
  fix k assume k: "challenge_key k"
  then have "count_list (ls_logins sys) k + live view (ls_state sys) k \<le> count_list (ls_stored sys) k" using assms(1) by (simp add: login_inv_def)
  then show "count_list (ls_logins sys') k + live view (ls_state sys') k \<le> count_list (ls_stored sys') k"
    using assms(4) [OF k] unfolding assms(2,3) count_list_append by linarith
qed

lemma login_step_inv:
  assumes "redis_ok r view" "login_step r view sys sys'" "login_inv view sys"
  shows "login_inv view sys'"
  using assms(2,3)
proof (induction rule: login_step.induct)
  case (step_request env sys pk)
  show ?case
    by (rule inv_grows [OF step_request.prems, of _ "[]" "requested_keys env pk"])
      (use request_live [of env view] assms(1) step_request.hyps in simp_all)
next
  case (step_check env body sys res st n)
  show ?case
    by (rule inv_grows [OF step_check.prems, of _ "[]" "[]"])
      (use checks_live [of env view, OF _ step_check.hyps(2,3)] assms(1) step_check.hyps(1) in simp_all)
next
  case (step_finish env sys n ch fp res st)
  show ?case
    by (rule inv_grows [OF step_finish.prems, of _ "case res of Inl e \<Rightarrow> [] | Inr p \<Rightarrow> checked_keys ch" "[]"])
      (use finish_live [of env view, OF _ step_finish.hyps(2,4)] assms(1) step_finish.hyps(1) in \<open>auto split: sum.splits\<close>)
next
  case (step_other c sys)
  have "live view ((ls_state sys)\<lparr>au_cache := c\<rparr>) k \<le> live view (ls_state sys) k" if "challenge_key k" for k
    using step_other.hyps [OF that] by (auto simp: live_def)
  then show ?case by (intro inv_grows [OF step_other.prems, of _ "[]" "[]"]) simp_all
qed

text \<open>
  C26. However logins race, a challenge yields at most as many logins as it was issued: the logins that answered
  a token pair for a challenge are no more than the times that challenge was stored, once when nonces are
  not repeated.
\<close>

theorem challenge_used_at_most_once:
  assumes "redis_ok r view" "(login_step r view)\<^sup>*\<^sup>* sys0 sys" "ls_logins sys0 = []"
    and "\<forall>k. challenge_key k \<longrightarrow> cview view (au_cache (ls_state sys0)) k = None" "getChallengeKey pk m = Some key"
  shows "count_list (ls_logins sys) key \<le> count_list (ls_stored sys) key \<and> (distinct (ls_stored sys) \<longrightarrow> count_list (ls_logins sys) key \<le> 1)"
proof -
  have "login_inv view sys0" using assms(3,4) by (simp add: login_inv_def live_def)
  with assms(2) have "login_inv view sys" by (induction rule: rtranclp_induct) (auto intro: login_step_inv [OF assms(1)])
  then have "count_list (ls_logins sys) key \<le> count_list (ls_stored sys) key"
    using getChallengeKey_prefix [OF assms(5)] by (fastforce simp: login_inv_def)
  moreover have "distinct xs \<Longrightarrow> count_list xs key \<le> 1" for xs :: "string list" by (induction xs) (auto simp: count_list_0_iff)
  ultimately show ?thesis using le_trans by blast
qed


subsection \<open>Instances\<close>

text \<open>
  A token library in which a token is the number of its secret and payload, a Redis that is a map, and one
  wallet that requests a challenge and logs in.
\<close>

instance UserRole :: countable
  by countable_datatype

type_synonym payload_fields =
  "string \<times> UserRole \<times> string list \<times> string \<times> int \<times> int \<times> string option \<times> string option \<times> string option \<times> string list option"

definition payload_fields :: "JwtPayload \<Rightarrow> payload_fields" where
  "payload_fields p = (jp_publicKey p, jp_role p, jp_scopes p, jp_jti p, jp_iat p, jp_exp p, jp_tokenType p, jp_familyId p,
     jp_deviceFingerprint p, jp_assignedBorrowers p)"

definition fields_payload :: "payload_fields \<Rightarrow> JwtPayload" where
  "fields_payload x = (case x of (pk, r, s, j, i, e, t, f, d, a) \<Rightarrow>
     \<lparr>jp_publicKey = pk, jp_role = r, jp_scopes = s, jp_jti = j, jp_iat = i, jp_exp = e, jp_tokenType = t, jp_familyId = f,
      jp_deviceFingerprint = d, jp_assignedBorrowers = a\<rparr>)"

definition number_sdk :: auth_sdk where
  "number_sdk = \<lparr>isValidEd25519PublicKey = (\<lambda>_. True), ed_verify = (\<lambda>_ _ _. True), sha256_bytes = id,
     jwt_sign = (\<lambda>secret p. nat_to_string (to_nat (secret, payload_fields p))),
     jwt_verify = (\<lambda>secret now t. case from_nat (string_to_nat t) of (s, x) \<Rightarrow>
        if s = secret \<and> now < jp_exp (fields_payload x) then Some (fields_payload x) else None),
     url_host = (\<lambda>_. Some ''d'')\<rparr>"

lemma number_sdk_jwt: "jwt_ok number_sdk"
  by (simp add: jwt_ok_def number_sdk_def payload_fields_def fields_payload_def)

definition demo_vars :: auth_vars where
  "demo_vars = \<lparr>av_ACCESS_TOKEN_TTL_SECONDS = None, av_REFRESH_TOKEN_TTL_SECONDS = None, av_CHALLENGE_EXPIRES_IN_MS = None,
     av_JWT_SECRET = Some ''s'', av_FRONTEND_URL = None, av_JWT_COOKIE_NAME = None, av_is_test = False,
     av_roles = \<lparr>SUPER_ADMIN_WALLETS = None, OPS_WALLETS = None, SUPPORT_WALLETS = None, ADMIN_WALLETS = None, AGENT_WALLETS = None,
       AUDITOR_WALLETS = None, LENDER_WALLETS = None\<rparr>\<rparr>"

definition demo_auth :: "(string \<Rightarrow> string option) auth_env" where
  "demo_auth = \<lparr>ae_sdk = number_sdk, ae_vars = demo_vars, ae_ttl = \<lparr>accessTtl = 900, refreshTtl = 604800, challengeTtl = 300000\<rparr>,
     ae_redis = map_redis, ae_now = 7, ae_uuid = (\<lambda>n. CHR ''u'' # nat_to_string n), ae_nonce = replicate 64 (CHR ''a''),
     ae_tenants = empty_tenant, ae_timely = True\<rparr>"

definition cache_of :: "(string \<Rightarrow> string option) \<Rightarrow> (string \<Rightarrow> string option) auth_state" where
  "cache_of m = \<lparr>au_cache = \<lparr>isConnected = True, server = m\<rparr>, inMemoryRefreshTokens = [], inMemoryRevokedFamilies = Map.empty,
     inMemoryChallenges = Map.empty\<rparr>"

lemma demo_auth_sel [simp]: "ae_sdk demo_auth = number_sdk" "ae_vars demo_auth = demo_vars" "ae_redis demo_auth = map_redis"
  "ae_now demo_auth = 7" "ae_nonce demo_auth = replicate 64 (CHR ''a'')" "ae_timely demo_auth = True"
  "ae_ttl demo_auth = \<lparr>accessTtl = 900, refreshTtl = 604800, challengeTtl = 300000\<rparr>" "ae_tenants demo_auth = empty_tenant"
  by (simp_all add: demo_auth_def)

lemma demo_vars_sel [simp]: "av_is_test demo_vars = False" "getJwtSecret demo_vars = Some ''s''" "av_FRONTEND_URL demo_vars = None"
  by (simp_all add: demo_vars_def getJwtSecret_def truthy_text_def)

lemma map_redis_ops [simp]:
  "cache_get map_redis k \<lparr>isConnected = True, server = m\<rparr> =
     (case m k of None \<Rightarrow> JNull | Some v \<Rightarrow> if v = [] then JNull else case json_parse v of Some j \<Rightarrow> j | None \<Rightarrow> JNull, \<lparr>isConnected = True, server = m\<rparr>)"
  "cache_set map_redis k v t \<lparr>isConnected = True, server = m\<rparr> = \<lparr>isConnected = True, server = m(k \<mapsto> stringify v)\<rparr>"
  "setRequired map_redis k v t \<lparr>isConnected = True, server = m\<rparr> = (True, \<lparr>isConnected = True, server = m(k \<mapsto> stringify v)\<rparr>)"
  by (simp_all add: cache_get_def cache_set_def setRequired_def ensureConnected_def map_redis_def split: option.splits)

lemma map_redis_delete [simp]:
  "m k = Some (stringify v) \<Longrightarrow>
     deleteIfMatch map_redis k v \<lparr>isConnected = True, server = m\<rparr> = (True, \<lparr>isConnected = True, server = m(k := None)\<rparr>)"
  by (simp add: deleteIfMatch_def ensureConnected_def map_redis_def COMPARE_AND_DELETE_SCRIPT_def)

subsubsection \<open>A login\<close>

definition demo_message :: string where
  "demo_message = ''Sign this message to authenticate with DukaPay.'' @ [CHR 0x0A, CHR 0x0A] @ ''Domain: d'' @ [CHR 0x0A]
     @ ''Nonce: '' @ replicate 64 (CHR ''a'') @ [CHR 0x0A] @ ''Timestamp: 7'' @ [CHR 0x0A, CHR 0x0A]
     @ ''This request will expire in 5 minutes.''"

definition demo_key :: string where
  "demo_key = ''auth_challenge:GA:'' @ replicate 64 (CHR ''a'')"

definition demo_stored :: json where
  "demo_stored = challenge_object ''GA'' demo_message 300007"

lemma demo_message_parts: "getChallengeKey ''GA'' demo_message = Some demo_key" "timestamp_match demo_message = Some ''7''"
  by code_simp+

lemma demo_now_text: "int_to_string 7 = ''7''" "string_to_nat ''7'' = 7"
  by code_simp+

lemma demo_requested:
  "requestChallenge demo_auth (Some ''GA'') (cache_of Map.empty)
   = (Inr \<lparr>cm_message = demo_message, cm_nonce = replicate 64 (CHR ''a''), cm_timestamp = 7, cm_expiresIn = 300000\<rparr>,
      cache_of [demo_key \<mapsto> stringify demo_stored])"
proof -
  have "generateChallenge demo_auth ''GA''
      = Inr \<lparr>cm_message = demo_message, cm_nonce = replicate 64 (CHR ''a''), cm_timestamp = 7, cm_expiresIn = 300000\<rparr>"
    by (simp add: generateChallenge_def number_sdk_def demo_message_def demo_now_text)
  then show ?thesis
    by (simp add: requestChallenge_def truthy_text_def storeChallenge_def demo_message_parts cache_of_def demo_stored_def Let_def)
qed

definition demo_signature :: string where
  "demo_signature = to_base64 (replicate 64 (CHR ''x''))"

lemma demo_signature_valid: "verifySignature number_sdk ''GA'' demo_message demo_signature"
proof -
  have "base64_text demo_signature" by code_simp
  then show ?thesis by (simp add: verifySignature_def number_sdk_def demo_signature_def Let_def)
qed

definition demo_body :: login_body where
  "demo_body = \<lparr>lb_publicKey = Some ''GA'', lb_message = Some demo_message, lb_signature = Some demo_signature\<rparr>"

lemma demo_stored_parse: "json_parse (stringify demo_stored) = Some demo_stored"
  by (rule json_parse_stringify) (simp add: demo_stored_def challenge_object_def JS_MAX_INT_def)

lemma stringify_object_nonempty: "stringify (JObj ms) \<noteq> []"
  by simp

lemma demo_checks:
  "login_checks demo_auth demo_body (cache_of [demo_key \<mapsto> stringify demo_stored])
   = (Inr (''GA'', demo_message, demo_stored), cache_of [demo_key \<mapsto> stringify demo_stored])"
proof -
  have ne: "demo_message \<noteq> []" "demo_signature \<noteq> []" "stringify demo_stored \<noteq> []"
    by (simp add: demo_message_def, code_simp, simp add: demo_stored_def challenge_object_def)
  have g: "getIssuedChallenge demo_auth ''GA'' demo_message (cache_of [demo_key \<mapsto> stringify demo_stored])
      = (demo_stored, cache_of [demo_key \<mapsto> stringify demo_stored])"
    by (simp add: getIssuedChallenge_def demo_message_parts cache_of_def demo_stored_parse ne)
  have m: "json_get ''publicKey'' demo_stored = Some (JStr ''GA'')" "json_get ''message'' demo_stored = Some (JStr demo_message)"
    "number_member ''expiresAt'' demo_stored = Some 300007" "js_truthy (Some demo_stored)"
    by (simp_all add: demo_stored_def challenge_object_def number_member_def)
  show ?thesis
    by (simp add: login_checks_def demo_body_def truthy_text_def ne demo_message_parts verifyChallengeTimestamp_def demo_now_text
        CLOCK_SKEW_TOLERANCE_MS_def g m demo_signature_valid)
qed

lemma demo_login_finished: "\<exists>pair st. login_finish demo_auth fp (''GA'', demo_message, demo_stored) (cache_of [demo_key \<mapsto> stringify demo_stored]) = (Inr pair, st)
    \<and> tp_publicKey pair = ''GA''"
proof -
  have "consumeIssuedChallenge demo_auth ''GA'' demo_message demo_stored (cache_of [demo_key \<mapsto> stringify demo_stored]) = (True, cache_of Map.empty)"
    by (simp add: consumeIssuedChallenge_def demo_message_parts cache_of_def)
  then show ?thesis by (simp add: login_finish_def generateTokenPair_def generateJwtToken_def generateRefreshToken_def Let_def)
qed

theorem login_needs_signed_challenge_witness:
  "\<exists>pair st. login demo_auth demo_body None Map.empty (cache_of [demo_key \<mapsto> stringify demo_stored]) = (Inr pair, st)
     \<and> server (au_cache st) demo_key = None"
proof -
  obtain pair st where r: "login demo_auth demo_body None Map.empty (cache_of [demo_key \<mapsto> stringify demo_stored]) = (Inr pair, st)"
    using demo_login_finished [of "Some (generateDeviceFingerprint number_sdk None Map.empty)"] by (auto simp: login_def demo_checks)
  have "lb_publicKey demo_body = Some ''GA''" "lb_message demo_body = Some demo_message" by (simp_all add: demo_body_def)
  then have "server (au_cache st) demo_key = None"
    using login_needs_signed_challenge [of demo_auth "\<lambda>s. s", OF _ _ r] map_redis_ok demo_message_parts(1) by auto
  then show ?thesis using r by blast
qed

theorem challenge_used_at_most_once_witness:
  "\<exists>sys. (login_step map_redis (\<lambda>s. s))\<^sup>*\<^sup>* \<lparr>ls_state = cache_of Map.empty, ls_checked = Map.empty, ls_stored = [], ls_logins = []\<rparr> sys
     \<and> ls_logins sys = [demo_key] \<and> count_list (ls_logins sys) demo_key \<le> 1"
proof -
  let ?sys0 = "\<lparr>ls_state = cache_of Map.empty, ls_checked = Map.empty, ls_stored = [], ls_logins = []\<rparr> :: (string \<Rightarrow> string option) login_sys"
  let ?st1 = "cache_of [demo_key \<mapsto> stringify demo_stored]" and ?ch = "(''GA'', demo_message, demo_stored)"
  let ?sys1 = "\<lparr>ls_state = ?st1, ls_checked = Map.empty, ls_stored = [demo_key], ls_logins = []\<rparr> :: (string \<Rightarrow> string option) login_sys"
  let ?sys2 = "\<lparr>ls_state = ?st1, ls_checked = [0 \<mapsto> ?ch], ls_stored = [demo_key], ls_logins = []\<rparr> :: (string \<Rightarrow> string option) login_sys"
  obtain pair st where f: "login_finish demo_auth None ?ch ?st1 = (Inr pair, st)" using demo_login_finished by blast
  let ?sys3 = "\<lparr>ls_state = st, ls_checked = Map.empty, ls_stored = [demo_key], ls_logins = [demo_key]\<rparr>"
  have g: "generateChallenge demo_auth ''GA''
      = Inr \<lparr>cm_message = demo_message, cm_nonce = replicate 64 (CHR ''a''), cm_timestamp = 7, cm_expiresIn = 300000\<rparr>"
    by (simp add: generateChallenge_def number_sdk_def demo_message_def demo_now_text)
  then have k: "requested_keys demo_auth (Some ''GA'') = [demo_key]" by (simp add: requested_keys_def truthy_text_def demo_message_parts)
  have 1: "login_step map_redis (\<lambda>s. s) ?sys0 ?sys1"
    using login_step.step_request [of demo_auth map_redis "\<lambda>s. s" ?sys0 "Some ''GA''"] by (simp add: demo_requested k)
  have 2: "login_step map_redis (\<lambda>s. s) ?sys1 ?sys2"
    using login_step.step_check [of demo_auth map_redis demo_body ?sys1 "Inr ?ch" ?st1 "\<lambda>s. s" 0] by (simp add: demo_checks)
  have 3: "login_step map_redis (\<lambda>s. s) ?sys2 ?sys3"
    using login_step.step_finish [of demo_auth map_redis ?sys2 0 ?ch None "Inr pair" st "\<lambda>s. s"] f by (simp add: checked_keys_def demo_message_parts)
  have run: "(login_step map_redis (\<lambda>s. s))\<^sup>*\<^sup>* ?sys0 ?sys3" using 1 2 3 by (meson converse_rtranclp_into_rtranclp rtranclp.rtrancl_refl)
  have "count_list (ls_logins ?sys3) demo_key \<le> 1"
    using challenge_used_at_most_once [OF map_redis_ok run _ _ demo_message_parts(1)] by (simp add: cache_of_def)
  then show ?thesis using run by (intro exI [of _ ?sys3]) simp
qed

subsubsection \<open>Sessions\<close>

lemma bearer: "CHR '' '' \<notin> set t \<Longrightarrow> extractBearerToken (Some (''Bearer '' @ t)) = Some t"
  using split_on_sep [of "CHR '' ''" "''Bearer''" t] split_on_absent [of "CHR '' ''" t] by (simp add: extractBearerToken_def truthy_text_def)

definition demo_payload :: "string \<Rightarrow> JwtPayload" where
  "demo_payload kind = (demo_user Borrower None)\<lparr>jp_tokenType := Some kind\<rparr>"

definition demo_token :: "string \<Rightarrow> string" where
  "demo_token kind = jwt_sign number_sdk ''s'' (demo_payload kind)"

lemma demo_token_facts: "CHR '' '' \<notin> set (demo_token kind)" "demo_token kind \<noteq> []" "verifyJwtToken demo_auth (demo_token kind) = Some (demo_payload kind)"
proof -
  have "list_all is_digit (demo_token kind)" by (simp add: demo_token_def number_sdk_def nat_to_string_digits)
  then show "CHR '' '' \<notin> set (demo_token kind)" by (auto simp: list_all_iff is_digit_def)
  show "demo_token kind \<noteq> []" by (simp add: demo_token_def number_sdk_def nat_to_string_nonempty)
  have "jp_exp (demo_payload kind) = 900" by (simp add: demo_payload_def demo_user_def)
  then show "verifyJwtToken demo_auth (demo_token kind) = Some (demo_payload kind)"
    using number_sdk_jwt by (simp add: verifyJwtToken_def demo_token_def jwt_ok_def)
qed

lemma demo_family: "jp_familyId (demo_payload kind) = Some ''f''" "jp_jti (demo_payload kind) = ''j''" "jp_tokenType (demo_payload kind) = Some kind"
  by (simp_all add: demo_payload_def demo_user_def)

lemma demo_carried: "carried demo_auth (Some (''Bearer '' @ demo_token kind)) None = Some (demo_token kind)"
  using bearer [OF demo_token_facts(1)] demo_token_facts(2) by (simp add: carried_def truthy_text_def)

theorem logout_ends_session_witness:
  "refused demo_auth (Some (''Bearer '' @ demo_token ''access'')) None
     (logout demo_auth (Some (demo_payload ''access'')) (cache_of Map.empty))
   \<and> refused demo_auth (Some (''Bearer '' @ demo_token ''access'')) None
     (cache_of (server (au_cache (logout demo_auth (Some (demo_payload ''access'')) (cache_of Map.empty)))))"
proof -
  let ?u = "demo_payload ''access''" and ?st = "logout demo_auth (Some (demo_payload ''access'')) (cache_of Map.empty)"
  have "sees_revocations (\<lambda>s. s) demo_auth demo_auth ?st (cache_of (server (au_cache ?st)))"
    using map_redis_ok map_redis_reliable map_redis_writes by (simp add: sees_revocations_def cache_of_def)
  moreover have "same_family ?u ?u" by (simp add: same_family_def demo_family)
  moreover have "nat \<bar>ae_now demo_auth\<bar> \<le> JS_MAX_INT" by (simp add: JS_MAX_INT_def)
  moreover have "jp_exp ?u = 900" by (simp add: demo_payload_def demo_user_def)
  ultimately show ?thesis
    using logout_ends_session [OF demo_carried demo_token_facts(3), where ?env0.0 = demo_auth and u = ?u
        and ?st0.0 = "cache_of Map.empty" and st = ?st and view = "\<lambda>s. s" and st' = "cache_of (server (au_cache ?st))"] by (simp add: demo_family)
qed

lemma no_revocations: "fst (isSessionRevoked demo_auth p (cache_of Map.empty)) = False"
  by (simp add: isSessionRevoked_def isTokenRevoked_def isFamilyRevoked_def timely_get_def cache_of_def split: option.splits)

theorem authenticated_user_is_capped_witness:
  "\<exists>u st. requireJwtAuth demo_auth (Some (''Bearer '' @ demo_token ''access'')) None (cache_of Map.empty) = (Inr u, st)
     \<and> jp_role u = Borrower \<and> set (jp_scopes u) \<subseteq> set (resolveScopesForRole Borrower)"
proof -
  obtain st where "isSessionRevoked demo_auth (demo_payload ''access'') (cache_of Map.empty) = (False, st)"
    using no_revocations [of "demo_payload ''access''"] by (metis prod.collapse)
  then have r: "requireJwtAuth demo_auth (Some (''Bearer '' @ demo_token ''access'')) None (cache_of Map.empty)
      = (Inr (capPayloadToCurrentRole demo_vars (demo_payload ''access'')), st)"
    using bearer [OF demo_token_facts(1)] demo_token_facts(2,3) by (simp add: requireJwtAuth_def truthy_text_def)
  have "resolveRoleForWallet (av_roles demo_vars) x = Borrower" for x
    by (simp add: resolveRoleForWallet_def demo_vars_def parseWalletSet_def truthy_text_def)
  then show ?thesis using authenticated_user_is_capped [OF r] r by auto
qed

lemma demo_pair: "\<exists>pair st. generateTokenPair demo_auth ''GA'' None None (cache_of Map.empty) = (Inr pair, st) \<and> (\<exists>n. tp_refreshToken pair = nat_to_string n)"
  by (simp add: generateTokenPair_def generateJwtToken_def generateRefreshToken_def Let_def number_sdk_def) blast

theorem refresh_token_authenticates_witness:
  "\<exists>pair st u. generateTokenPair demo_auth ''GA'' None None (cache_of Map.empty) = (Inr pair, st)
     \<and> fst (requireJwtAuth demo_auth (Some (''Bearer '' @ tp_refreshToken pair)) None (cache_of Map.empty)) = Inr u
     \<and> jp_publicKey u = ''GA'' \<and> jp_tokenType u = Some ''refresh''"
proof -
  obtain pair st n where p: "generateTokenPair demo_auth ''GA'' None None (cache_of Map.empty) = (Inr pair, st)" "tp_refreshToken pair = nat_to_string n"
    using demo_pair by blast
  have d: "CHR '' '' \<notin> set (nat_to_string n)" "nat_to_string n \<noteq> []"
    using nat_to_string_digits [of n] by (auto simp: list_all_iff is_digit_def nat_to_string_nonempty)
  show ?thesis
    using refresh_token_authenticates [OF p(1) _ _ _ _ bearer, where env' = demo_auth and st = "cache_of Map.empty" and c = None] p d no_revocations number_sdk_jwt by auto
qed

text \<open>A pair whose refresh token is presented twice.\<close>

definition later_auth :: "(string \<Rightarrow> string option) auth_env" where
  "later_auth = demo_auth\<lparr>ae_uuid := (\<lambda>n. ''later'')\<rparr>"

lemma demo_issued:
  obtains pair s1 where "generateTokenPair demo_auth ''GA'' None (Some ''f'') (cache_of Map.empty) = (Inr pair, s1)"
    "tp_familyId pair = ''f''" "cview (\<lambda>s. s) (au_cache s1) (''token_family:'' @ f) = None" "inMemoryRevokedFamilies s1 = Map.empty"
proof -
  obtain pair meta where p: "generateTokenPair demo_auth ''GA'' None (Some ''f'') (cache_of Map.empty)
      = (Inr pair, storeRefreshTokenMetadata demo_auth (ae_uuid demo_auth 2) meta (cache_of Map.empty))" "tp_familyId pair = ''f''"
    by (rule generateTokenPair_total [of demo_auth "''s''" "''GA''" None "''f''" "cache_of Map.empty"]) auto
  show ?thesis by (rule that [OF p]) (simp_all add: storeRefreshTokenMetadata_def cache_of_def)
qed

lemma not_revoked_yet:
  "server (au_cache st) (''token_family:'' @ f) = None \<Longrightarrow> inMemoryRevokedFamilies st = Map.empty \<Longrightarrow>
     isConnected (au_cache st) \<Longrightarrow> \<not> fst (isFamilyRevoked later_auth f st)"
  by (cases "au_cache st") (simp add: isFamilyRevoked_def later_auth_def timely_get_def)

theorem replayed_refresh_token_ends_family_witness:
  "\<exists>pair s1 pair' st2 err st4.
     generateTokenPair demo_auth ''GA'' None (Some ''f'') (cache_of Map.empty) = (Inr pair, s1)
     \<and> rotateRefreshToken later_auth (tp_refreshToken pair) None (cache_of (server (au_cache s1))) = (Inr pair', st2)
     \<and> rotateRefreshToken later_auth (tp_refreshToken pair) None
         (cache_of ((server (au_cache st2))(''token_family:f'' := None))) = (Inl (App err), st4)
     \<and> ae_errorCode err = TOKEN_REPLAY_DETECTED
     \<and> refused demo_auth (Some (''Bearer '' @ demo_token ''access'')) None st4"
proof -
  obtain pair s1 where p: "generateTokenPair demo_auth ''GA'' None (Some ''f'') (cache_of Map.empty) = (Inr pair, s1)"
    "tp_familyId pair = ''f''" "server (au_cache s1) (''token_family:'' @ ''f'') = None"
    by (rule demo_issued [of "''f''"])
  let ?st1 = "cache_of (server (au_cache s1))"
  obtain res1 st2 where r1: "rotateRefreshToken later_auth (tp_refreshToken pair) None ?st1 = (res1, st2)" by (meson surj_pair)
  let ?st3 = "cache_of ((server (au_cache st2))(''token_family:f'' := None))"
  obtain res2 st4 where r2: "rotateRefreshToken later_auth (tp_refreshToken pair) None ?st3 = (res2, st4)" by (meson surj_pair)
  have live: "\<not> fst (isFamilyRevoked later_auth ''f'' ?st1)" "\<not> fst (isFamilyRevoked later_auth ''f'' ?st3)"
    using p(3) by (intro not_revoked_yet; simp add: cache_of_def)+
  have env: "ae_redis later_auth = map_redis" "ae_timely later_auth" "ae_sdk later_auth = ae_sdk demo_auth" "ae_vars later_auth = ae_vars demo_auth"
    "ae_now later_auth = 7" "ae_uuid later_auth 2 = ''later''" "ae_uuid demo_auth 2 \<noteq> ''later''"
    by (simp_all add: later_auth_def demo_auth_def)
  have js: "nat \<bar>7\<bar> \<le> JS_MAX_INT" "nat \<bar>604800007\<bar> \<le> JS_MAX_INT" by (simp_all add: JS_MAX_INT_def)
  have "(\<exists>pair'. res1 = Inr pair' \<and> tp_familyId pair' = ''f'' \<and> tp_publicKey pair' = ''GA'')
    \<and> (\<exists>err. res2 = Inl (App err) \<and> ae_errorCode err = TOKEN_REPLAY_DETECTED)
    \<and> (\<forall>st env h c t p. auth_step\<^sup>*\<^sup>* st4 st \<longrightarrow> carried env h c = Some t \<longrightarrow> verifyJwtToken env t = Some p \<longrightarrow>
         jp_familyId p = Some ''f'' \<longrightarrow>
         refused env h c st \<and> (\<forall>fp. \<exists>e. fst (rotateRefreshToken env t fp st) = Inl e))"
    by (rule replayed_refresh_token_ends_family [where r = map_redis and view = "\<lambda>s. s" and ?env0.0 = demo_auth and ?env1.0 = later_auth
          and ?env2.0 = later_auth and ?s0.0 = "cache_of Map.empty" and ?s1.0 = s1 and ?st1.0 = ?st1 and ?st2.0 = st2 and ?st3.0 = ?st3
          and pair = pair and pk = "''GA''" and fp = None and fam = "Some ''f''"])
      (use map_redis_ok map_redis_reliable map_redis_writes number_sdk_jwt env js p r1 r2 live in \<open>simp_all add: cache_of_def\<close>)
  with p(1) r1 r2 demo_carried [of "''access''"] demo_token_facts(3) [of "''access''"] demo_family(1) [of "''access''"]
  show ?thesis by blast
qed

end
