(* ===== verification/Gates.thy ===== *)
theory Gates
  imports Auth
begin

section \<open>CSRF tokens and API keys (\<open>middleware/csrf.ts\<close>, \<open>middleware/auth.ts\<close>)\<close>

text \<open>
  The double-submit check of state-changing requests and the keys of the administrative endpoints. Shown:
  exactly which requests pass, that a key of one scope opens no endpoint of another, and that a key
  whose secret is configured twice only ever has the scope of its first entry.
\<close>

subsection \<open>CSRF\<close>

definition SAFE_METHODS :: "string list" where
  "SAFE_METHODS = [''GET'', ''HEAD'', ''OPTIONS'']"

definition DEFAULT_EXEMPT_PATHS :: "string list" where
  "DEFAULT_EXEMPT_PATHS = [''/api/auth/challenge'', ''/api/v1/auth/challenge'', ''/api/auth/login'', ''/api/v1/auth/login'',
     ''/api/v1/webhooks'', ''/health'', ''/metrics'', ''/version'']"

text \<open>\<open>parseCookies\<close> throws when a value is no URI component; a later cookie of a name replaces an earlier one.\<close>

fun parse_cookie_list :: "string list \<Rightarrow> (string \<rightharpoonup> string) \<Rightarrow> (string \<rightharpoonup> string) option" where
  "parse_cookie_list [] m = Some m"
| "parse_cookie_list (cookie # cs) m =
     (case split_on (CHR ''='') cookie of
        name # rest \<Rightarrow>
          if trim name = [] then parse_cookie_list cs m
          else (case decodeURIComponent (trim (join_with ''='' rest)) of
                  None \<Rightarrow> None
                | Some v \<Rightarrow> parse_cookie_list cs (m(trim name \<mapsto> v)))
      | [] \<Rightarrow> parse_cookie_list cs m)"

definition parseCookies :: "string option \<Rightarrow> (string \<rightharpoonup> string) option" where
  "parseCookies cookieHeader =
     (case truthy_text cookieHeader of None \<Rightarrow> Some Map.empty | Some h \<Rightarrow> parse_cookie_list (split_on (CHR '';'') h) Map.empty)"

definition hasAuthCookie :: "auth_vars \<Rightarrow> string option \<Rightarrow> bool option" where
  "hasAuthCookie v cookieHeader =
     (case truthy_text cookieHeader of
        None \<Rightarrow> Some False
      | Some h \<Rightarrow>
          map_option (\<lambda>m. m (case av_JWT_COOKIE_NAME v of None \<Rightarrow> ''dukapay_jwt'' | Some n \<Rightarrow> n) \<noteq> None) (parseCookies cookieHeader))"

record csrf_request =
  cq_method :: string
  cq_path :: string
  cq_cookies :: "(string \<rightharpoonup> string) option"
  cq_cookie_header :: "string option"
  cq_headers :: "string \<rightharpoonup> string"
  cq_body_csrf :: "string option"

text \<open>What the middleware answers: the token it put in a cookie and a header, if any, and whether the request goes on.\<close>

record csrf_result =
  cf_set_cookie :: "string option"
  cf_token :: string
  cf_next :: "thrown option"

fun upper_ascii :: "string \<Rightarrow> string" where
  "upper_ascii [] = []"
| "upper_ascii (c # s) = (let n = (of_char c :: nat) in if 97 \<le> n \<and> n \<le> 122 then char_of (n - 32) else c) # upper_ascii s"

definition is_prefix :: "string \<Rightarrow> string \<Rightarrow> bool" where
  "is_prefix p s \<longleftrightarrow> take (length p) s = p"

definition csrfProtection :: "string list \<Rightarrow> string \<Rightarrow> string \<Rightarrow> csrf_request \<Rightarrow> thrown + csrf_result" where
  "csrfProtection exemptPaths cookieName fresh req =
     (case (case cq_cookies req of Some m \<Rightarrow> Some m | None \<Rightarrow> parseCookies (cq_cookie_header req)) of
        None \<Rightarrow> Inl (Unexpected ''URI malformed'' [])
      | Some cookies \<Rightarrow>
          (let present = truthy_text (cookies cookieName);
               csrfCookie = (case present of None \<Rightarrow> fresh | Some t \<Rightarrow> t);
               answer = (\<lambda>e. Inr \<lparr>cf_set_cookie = (case present of None \<Rightarrow> Some fresh | Some _ \<Rightarrow> None), cf_token = csrfCookie, cf_next = e\<rparr>)
           in if upper_ascii (cq_method req) \<in> set SAFE_METHODS then answer None
              else if \<exists>p\<in>set exemptPaths. is_prefix p (cq_path req) then answer None
              else case truthy_text (first_given [cq_headers req ''x-csrf-token'', cq_headers req ''x-xsrf-token'', cq_body_csrf req]) of
                  None \<Rightarrow> answer (Some (App (forbidden ''Missing CSRF token in state-changing request'' (Some CSRF_TOKEN_INVALID))))
                | Some submitted \<Rightarrow>
                    if length (utf8 submitted) \<noteq> length (utf8 csrfCookie) \<or> utf8 submitted \<noteq> utf8 csrfCookie
                    then answer (Some (App (forbidden ''Invalid CSRF token for state-changing request'' (Some CSRF_TOKEN_INVALID))))
                    else answer None))"

definition getCsrfTokenController :: "string option \<Rightarrow> (string \<rightharpoonup> string) \<Rightarrow> string \<Rightarrow> string \<Rightarrow> string" where
  "getCsrfTokenController locals cookies cookieName fresh =
     (case truthy_text locals of Some t \<Rightarrow> t | None \<Rightarrow> (case cookies cookieName of Some t \<Rightarrow> t | None \<Rightarrow> fresh))"

lemma utf8_inject: "utf8 s = utf8 t \<longleftrightarrow> s = t"
  using utf8_text_utf8 by (metis option.inject)

definition submitted_token :: "csrf_request \<Rightarrow> string option" where
  "submitted_token req = first_given [cq_headers req ''x-csrf-token'', cq_headers req ''x-xsrf-token'', cq_body_csrf req]"

lemma csrf_token_matches:
  "(case truthy_text (submitted_token req) of None \<Rightarrow> False
    | Some t \<Rightarrow> t = (case truthy_text c of None \<Rightarrow> fresh | Some t \<Rightarrow> t)) \<longleftrightarrow>
   (\<exists>t. submitted_token req = Some t \<and> t \<noteq> [] \<and> (c = Some t \<or> (c = None \<or> c = Some []) \<and> t = fresh))"
  by (cases "submitted_token req"; cases c) (auto simp: truthy_text_def)

lemma csrf_verdict:
  assumes "cq_cookies req = Some cookies"
  shows "(\<exists>r. csrfProtection exempt name fresh req = Inr r \<and> cf_next r = None) \<longleftrightarrow>
    upper_ascii (cq_method req) \<in> {''GET'', ''HEAD'', ''OPTIONS''} \<or> (\<exists>p\<in>set exempt. is_prefix p (cq_path req))
    \<or> (case truthy_text (submitted_token req) of None \<Rightarrow> False
       | Some t \<Rightarrow> t = (case truthy_text (cookies name) of None \<Rightarrow> fresh | Some t \<Rightarrow> t))"
proof -
  obtain ck where ck: "ck = (case truthy_text (cookies name) of None \<Rightarrow> fresh | Some t \<Rightarrow> t)" by blast
  show ?thesis
    unfolding csrfProtection_def Let_def assms option.case ck [symmetric] submitted_token_def [symmetric] SAFE_METHODS_def
    by (cases "truthy_text (submitted_token req)") (auto simp: utf8_inject)
qed

text \<open>
  A request passes the CSRF check exactly when its method is safe, its path is exempt, or it submits the
  token of its own cookie; one without a cookie would have to submit the token that is only now made.
\<close>

theorem csrf_passes_exact:
  assumes "cq_cookies req = Some cookies"
  shows "(\<exists>r. csrfProtection exempt name fresh req = Inr r \<and> cf_next r = None) \<longleftrightarrow>
    upper_ascii (cq_method req) \<in> {''GET'', ''HEAD'', ''OPTIONS''} \<or> (\<exists>p\<in>set exempt. is_prefix p (cq_path req))
    \<or> (\<exists>t. submitted_token req = Some t \<and> t \<noteq> [] \<and>
        (cookies name = Some t \<or> (cookies name = None \<or> cookies name = Some []) \<and> t = fresh))"
  by (cases "upper_ascii (cq_method req) \<in> {''GET'', ''HEAD'', ''OPTIONS''}";
      cases "\<exists>p\<in>set exempt. is_prefix p (cq_path req)")
    (simp_all add: csrf_verdict assms csrf_token_matches)

theorem csrf_passes_exact_witness:
  "(let cookies = [''csrf'' \<mapsto> ''t1''];
        req = \<lparr>cq_method = ''post'', cq_path = ''/api/v1/loans'', cq_cookies = Some cookies, cq_cookie_header = None,
               cq_headers = [''x-csrf-token'' \<mapsto> ''t1''], cq_body_csrf = None\<rparr>
    in (\<exists>r. csrfProtection DEFAULT_EXEMPT_PATHS ''csrf'' ''t2'' req = Inr r \<and> cf_next r = None))"
  unfolding Let_def
  by (subst csrf_passes_exact [where cookies = "[''csrf'' \<mapsto> ''t1'']"]) (simp_all add: submitted_token_def)

subsection \<open>API keys\<close>

datatype ApiKeyScope = Admin_disputes | Admin_indexer | Admin_webhooks | Admin_loans | Admin_audit | Admin_privacy

fun scope_text :: "ApiKeyScope \<Rightarrow> string" where
  "scope_text Admin_disputes = ''admin:disputes''"
| "scope_text Admin_indexer = ''admin:indexer''"
| "scope_text Admin_webhooks = ''admin:webhooks''"
| "scope_text Admin_loans = ''admin:loans''"
| "scope_text Admin_audit = ''admin:audit''"
| "scope_text Admin_privacy = ''admin:privacy''"

text \<open>The scope of a configured key is whatever text stands before the second colon: the cast to \<open>ApiKeyScope\<close> checks nothing.\<close>

record ParsedKey =
  pk_scope :: "string option"
  pk_value :: string

definition colon_at :: "nat \<Rightarrow> string \<Rightarrow> nat option" where
  "colon_at from s =
     (let k = length (takeWhile (\<lambda>c. c \<noteq> CHR '':'') (drop from s)) in if from + k < length s then Some (from + k) else None)"

definition parse_key_entry :: "string \<Rightarrow> ParsedKey" where
  "parse_key_entry entry =
     (case colon_at 0 entry of
        None \<Rightarrow> \<lparr>pk_scope = None, pk_value = entry\<rparr>
      | Some firstColon \<Rightarrow>
          (case colon_at (firstColon + 1) entry of
             None \<Rightarrow> \<lparr>pk_scope = None, pk_value = entry\<rparr>
           | Some secondColon \<Rightarrow> \<lparr>pk_scope = Some (take secondColon entry), pk_value = drop (secondColon + 1) entry\<rparr>))"

definition parseConfiguredKeys :: "string option \<Rightarrow> ParsedKey list" where
  "parseConfiguredKeys raw =
     (case truthy_text raw of
        None \<Rightarrow> []
      | Some s \<Rightarrow> map parse_key_entry (filter (\<lambda>e. e \<noteq> []) (map trim (split_on (CHR '','') s))))"

datatype header_value = One_value string | Many_values "string list"

record api_key_pass =
  ak_scope :: "string option"
  ak_legacy_warned :: bool

definition requireApiKey :: "string option \<Rightarrow> ApiKeyScope option \<Rightarrow> header_value option \<Rightarrow> thrown + api_key_pass" where
  "requireApiKey env requiredScope providedKey =
     (let configuredKeys = parseConfiguredKeys env
      in if configuredKeys = [] then Inl (App (internal ''Server misconfiguration: INTERNAL_API_KEY is not set'' None))
         else if providedKey = None \<or> providedKey = Some (One_value []) then Inl (App (unauthorized ''Unauthorised: missing API key'' None))
         else if providedKey = Some (Many_values []) then Inl (Unexpected ''The first argument must be of type string'' [])
         else (let keyValue = (case providedKey of Some (One_value s) \<Rightarrow> s | Some (Many_values (s # _)) \<Rightarrow> s | _ \<Rightarrow> [])
               in case find (\<lambda>k. length (utf8 (pk_value k)) = length (utf8 keyValue) \<and> utf8 (pk_value k) = utf8 keyValue) configuredKeys of
                  None \<Rightarrow> Inl (App (unauthorized ''Unauthorised: invalid API key'' None))
                | Some matchedKey \<Rightarrow>
                    (case requiredScope of
                       Some required \<Rightarrow>
                         (case pk_scope matchedKey of
                            None \<Rightarrow> Inr \<lparr>ak_scope = Some (scope_text required), ak_legacy_warned = True\<rparr>
                          | Some scope \<Rightarrow>
                              if scope \<noteq> scope_text required
                              then Inl (App (forbidden (''Unauthorised: API key lacks required scope '' @ scope_text required) None))
                              else Inr \<lparr>ak_scope = Some scope, ak_legacy_warned = False\<rparr>)
                     | None \<Rightarrow>
                         if pk_scope matchedKey \<noteq> None
                         then Inl (App (forbidden ''Unauthorised: scoped API keys cannot access this endpoint'' None))
                         else Inr \<lparr>ak_scope = None, ak_legacy_warned = True\<rparr>)))"

lemma scope_text_inject [simp]: "scope_text a = scope_text b \<longleftrightarrow> a = b"
  by (cases a; cases b) simp_all

lemma utf8_same: "(length (utf8 a) = length (utf8 b) \<and> utf8 a = utf8 b) = (a = b)"
  using utf8_inject by metis

lemma find_first_of_filter: "find P xs = (case filter P xs of [] \<Rightarrow> None | x # _ \<Rightarrow> Some x)"
  by (induction xs) auto

lemma parse_scoped_entry: "parse_key_entry (scope_text s @ '':'' @ secret) = \<lparr>pk_scope = Some (scope_text s), pk_value = secret\<rparr>"
  by (cases s) (simp_all add: parse_key_entry_def colon_at_def)

text \<open>
  A key opens an endpoint exactly when it is the secret of a configured entry and the first such entry
  is a legacy one or has the scope of the endpoint; an endpoint without a scope is open to legacy keys only.
\<close>

theorem api_key_opens_exact:
  "(\<exists>p. requireApiKey env scope (Some (One_value key)) = Inr p) \<longleftrightarrow>
     key \<noteq> [] \<and> (\<exists>k. find (\<lambda>k. pk_value k = key) (parseConfiguredKeys env) = Some k
       \<and> (pk_scope k = None \<or> (\<exists>r. scope = Some r \<and> pk_scope k = Some (scope_text r))))"
  unfolding requireApiKey_def Let_def
  by (cases "parseConfiguredKeys env = []"; cases "find (\<lambda>k. pk_value k = key) (parseConfiguredKeys env)"; cases scope)
    (auto simp: utf8_same split: option.splits)

text \<open>
  A secret whose first configured entry has a scope opens the endpoints of that scope and no other,
  whatever entries for the same secret follow: a second scope given to one secret is never granted.
\<close>

theorem scoped_key_confined:
  assumes "filter (\<lambda>k. pk_value k = key) (parseConfiguredKeys env) = k # others"
    and "pk_scope k = Some (scope_text s)" and "key \<noteq> []"
  shows "(\<exists>p. requireApiKey env scope (Some (One_value key)) = Inr p) \<longleftrightarrow> scope = Some s"
proof -
  have "find (\<lambda>k. pk_value k = key) (parseConfiguredKeys env) = Some k"
    by (simp add: find_first_of_filter assms(1))
  then show ?thesis
    unfolding requireApiKey_def Let_def using assms(2,3)
    by (cases "parseConfiguredKeys env = []"; cases scope) (auto simp: utf8_same)
qed

theorem scoped_key_confined_witness:
  "(\<exists>p. requireApiKey (Some ''admin:loans:k1, admin:audit:k1'') (Some Admin_loans) (Some (One_value ''k1'')) = Inr p)
   \<and> \<not> (\<exists>p. requireApiKey (Some ''admin:loans:k1, admin:audit:k1'') (Some Admin_audit) (Some (One_value ''k1'')) = Inr p)"
proof -
  let ?env = "Some ''admin:loans:k1, admin:audit:k1''"
  have "filter (\<lambda>k. pk_value k = ''k1'') (parseConfiguredKeys ?env)
      = \<lparr>pk_scope = Some (scope_text Admin_loans), pk_value = ''k1''\<rparr> # [\<lparr>pk_scope = Some (scope_text Admin_audit), pk_value = ''k1''\<rparr>]"
    by code_simp
  note this [THEN scoped_key_confined, of Admin_loans]
  then show ?thesis by simp
qed

end
