(* ===== verification/RateLimit.thy ===== *)
theory RateLimit
  imports AppErrors "HOL-Library.Multiset"
begin

section \<open>Rate limiting (\<open>services/rateLimitService.ts\<close>, \<open>middleware/rateLimitMiddleware.ts\<close>)\<close>

text \<open>
  The sliding window of \<open>RateLimitService\<close>: the script that runs in Redis, the window kept in memory when
  Redis fails, and the middleware that answers with the outcome. Times are milliseconds. The script
  computes in seconds with doubles; at the size of today's times their error is below a microsecond, so a
  comparison is that of the milliseconds except when a member lies exactly on the edge of the window, where
  either answer is possible: each call says which. A call has three times: the one the server read before it
  sent the script, the one on Redis's clock when the script ran, by which keys expire, and the one the server
  read when it fell back to memory. Shown, through one contract that both windows satisfy: however requests
  interleave and Redis comes and goes, each of the two windows admits at most the configured number in any span
  of its length, less the time calls may take to reach it.
\<close>

subsection \<open>Windows\<close>

datatype RateLimitTier = ANONYMOUS | AUTHENTICATED | PREMIUM | INTERNAL

record RateLimitConfig =
  maxRequests :: nat
  windowSeconds :: nat

record RateLimitResult =
  rl_allowed :: bool
  rl_remaining :: nat
  rl_resetTime :: int
  rl_currentCount :: nat
  rl_limit :: nat
  rl_tier :: "RateLimitTier option"

definition limit_of :: "nat \<Rightarrow> nat \<Rightarrow> RateLimitConfig" where
  "limit_of n s = \<lparr>maxRequests = n, windowSeconds = s\<rparr>"

fun TIER_LIMITS :: "RateLimitTier \<Rightarrow> RateLimitConfig" where
  "TIER_LIMITS ANONYMOUS = limit_of 30 60"
| "TIER_LIMITS AUTHENTICATED = limit_of 100 60"
| "TIER_LIMITS PREMIUM = limit_of 1000 60"
| "TIER_LIMITS INTERNAL = limit_of 10000 60"

datatype expensive_operation = SEARCH | LOAN_APPLICATION | SCORE_UPDATE

fun EXPENSIVE_OPERATION_LIMITS :: "expensive_operation \<Rightarrow> RateLimitConfig" where
  "EXPENSIVE_OPERATION_LIMITS SEARCH = limit_of 10 60"
| "EXPENSIVE_OPERATION_LIMITS LOAN_APPLICATION = limit_of 5 60"
| "EXPENSIVE_OPERATION_LIMITS SCORE_UPDATE = limit_of 5 86400"

definition window_ms :: "RateLimitConfig \<Rightarrow> int" where
  "window_ms config = int (windowSeconds config) * 1000"

text \<open>A sorted set of Redis with the time it expires; \<open>ZADD\<close> moves a member that is there already.\<close>

record zset =
  zs_members :: "(string \<times> int) list"
  zs_expires :: int

definition zadd :: "string \<Rightarrow> int \<Rightarrow> (string \<times> int) list \<Rightarrow> (string \<times> int) list" where
  "zadd member score z = filter (\<lambda>p. fst p \<noteq> member) z @ [(member, score)]"

definition live_members :: "int \<Rightarrow> zset option \<Rightarrow> (string \<times> int) list" where
  "live_members now z = (case z of None \<Rightarrow> [] | Some s \<Rightarrow> if zs_expires s \<le> now then [] else zs_members s)"

fun lowest_score :: "int \<Rightarrow> (string \<times> int) list \<Rightarrow> int" where
  "lowest_score d [] = d"
| "lowest_score d [p] = snd p"
| "lowest_score d (p # q # z) = min (snd p) (lowest_score d (q # z))"

text \<open>The script: its answer is allowed, remaining, count and the reset time, which Redis truncates to whole seconds.\<close>

definition SLIDING_WINDOW_SCRIPT ::
  "RateLimitConfig \<Rightarrow> bool \<Rightarrow> string \<Rightarrow> int \<Rightarrow> int \<Rightarrow> zset option \<Rightarrow> (bool \<times> nat \<times> nat \<times> int) \<times> zset option" where
  "SLIDING_WINDOW_SCRIPT config edge_removed member clock now z =
     (let clearBefore = now - window_ms config;
          kept = filter (\<lambda>p. \<not> (0 \<le> snd p \<and> (snd p < clearBefore \<or> edge_removed \<and> snd p = clearBefore))) (live_members clock z);
          currentCount = length kept
      in if currentCount < maxRequests config
         then ((True, maxRequests config - currentCount - 1, currentCount + 1, (now + window_ms config) div 1000),
               Some \<lparr>zs_members = zadd member now kept, zs_expires = clock + window_ms config\<rparr>)
         else ((False, 0, currentCount, (lowest_score now kept + window_ms config) div 1000),
               if kept = [] then None else map_option (\<lambda>s. s\<lparr>zs_members := kept\<rparr>) z))"

definition checkInMemorySlidingWindow ::
  "RateLimitConfig \<Rightarrow> RateLimitTier option \<Rightarrow> int \<Rightarrow> int list \<Rightarrow> RateLimitResult \<times> int list" where
  "checkInMemorySlidingWindow config tier nowMs stored =
     (let timestamps = filter (\<lambda>t. t > nowMs - window_ms config) stored
      in if length timestamps < maxRequests config
         then (let timestamps' = timestamps @ [nowMs]
               in (\<lparr>rl_allowed = True, rl_remaining = maxRequests config - length timestamps', rl_resetTime = hd timestamps' + window_ms config,
                    rl_currentCount = length timestamps', rl_limit = maxRequests config, rl_tier = tier\<rparr>, timestamps'))
         else (\<lparr>rl_allowed = False, rl_remaining = 0,
                rl_resetTime = (case timestamps of [] \<Rightarrow> nowMs | t # _ \<Rightarrow> t) + window_ms config,
                rl_currentCount = length timestamps, rl_limit = maxRequests config, rl_tier = tier\<rparr>, stored))"

subsection \<open>The service\<close>

record limiter =
  lm_redis :: "string \<rightharpoonup> zset"
  lm_memory :: "string \<rightharpoonup> int list"

text \<open>What Redis did in a call: failed before the script ran, ran it and lost the answer, or answered.\<close>

datatype redis_outcome = Redis_failed | Answer_lost | Answered

record limit_call =
  lc_identifier :: string
  lc_now :: int
  lc_member :: string
  lc_edge :: bool
  lc_redis :: redis_outcome
  lc_clock :: int
  lc_fallback_now :: int

definition rate_key :: "string \<Rightarrow> string" where
  "rate_key identifier = ''rate_limit:'' @ identifier"

definition checkRateLimit ::
  "RateLimitConfig \<Rightarrow> RateLimitTier option \<Rightarrow> limit_call \<Rightarrow> limiter \<Rightarrow> RateLimitResult \<times> limiter" where
  "checkRateLimit config tier call st =
     (let key = rate_key (lc_identifier call);
          ((allowed, remaining, currentCount, resetTimeSeconds), z) =
            SLIDING_WINDOW_SCRIPT config (lc_edge call) (lc_member call) (lc_clock call) (lc_now call) (lm_redis st key);
          st1 = (if lc_redis call = Redis_failed then st else st\<lparr>lm_redis := (lm_redis st)(key := z)\<rparr>)
      in if lc_redis call = Answered
         then (\<lparr>rl_allowed = allowed, rl_remaining = remaining,
                rl_resetTime = (if resetTimeSeconds = 0 then lc_now call + window_ms config else resetTimeSeconds * 1000),
                rl_currentCount = currentCount, rl_limit = maxRequests config, rl_tier = tier\<rparr>, st1)
         else (let (r, w) = checkInMemorySlidingWindow config tier (lc_fallback_now call)
                              (case lm_memory st key of None \<Rightarrow> [] | Some ts \<Rightarrow> ts)
               in (r, if rl_allowed r then st1\<lparr>lm_memory := (lm_memory st)(key \<mapsto> w)\<rparr> else st1)))"

definition resetRateLimit :: "bool \<Rightarrow> string \<Rightarrow> limiter \<Rightarrow> limiter" where
  "resetRateLimit redis_up identifier st =
     st\<lparr>lm_memory := (lm_memory st)(rate_key identifier := None),
        lm_redis := (if redis_up then (lm_redis st)(rate_key identifier := None) else lm_redis st)\<rparr>"

text \<open>\<open>getRateLimitStatus\<close> counts every member that is still stored, those outside the window too.\<close>

definition getRateLimitStatus :: "bool \<Rightarrow> string \<Rightarrow> RateLimitConfig \<Rightarrow> int \<Rightarrow> limiter \<Rightarrow> bool \<times> nat \<times> int \<times> nat" where
  "getRateLimitStatus redis_up identifier config now st =
     (let key = rate_key identifier;
          n = (if redis_up then length (live_members now (lm_redis st key))
               else length (filter (\<lambda>t. t > now - window_ms config) (case lm_memory st key of None \<Rightarrow> [] | Some ts \<Rightarrow> ts)))
      in (n < maxRequests config, maxRequests config - n, now + window_ms config, maxRequests config))"

record tier_request =
  tr_user :: "string option"
  tr_api_key :: "string option"
  tr_ip :: "string option"
  tr_body_userId :: "string option"

definition resolveTier :: "tier_request \<Rightarrow> RateLimitTier \<times> string" where
  "resolveTier req =
     (case truthy_text (map_option trim (tr_api_key req)) of
        Some apiKey \<Rightarrow>
          if take 9 apiKey = ''internal:'' \<or> take 6 apiKey = ''admin:''
          then (INTERNAL, ''svc:'' @ takeWhile (\<lambda>c. c \<noteq> CHR '':'') apiKey)
          else (PREMIUM, ''key:'' @ apiKey)
      | None \<Rightarrow>
          (case truthy_text (tr_user req) of
             Some publicKey \<Rightarrow> (AUTHENTICATED, ''user:'' @ publicKey)
           | None \<Rightarrow> (ANONYMOUS, ''anon'')))"

subsection \<open>The middleware\<close>

record limit_answer =
  la_limit :: nat
  la_remaining :: nat
  la_reset :: int
  la_used :: nat
  la_retry_after :: "int option"
  la_error :: "thrown option"

definition ceil_seconds :: "int \<Rightarrow> int" where
  "ceil_seconds ms = - ((- ms) div 1000)"

definition limit_headers :: "RateLimitConfig \<Rightarrow> string \<Rightarrow> int \<Rightarrow> RateLimitResult \<Rightarrow> limit_answer" where
  "limit_headers config message now r =
     \<lparr>la_limit = maxRequests config, la_remaining = rl_remaining r, la_reset = ceil_seconds (rl_resetTime r), la_used = rl_currentCount r,
      la_retry_after = (if rl_allowed r then None else Some (max 1 (ceil_seconds (rl_resetTime r - now)))),
      la_error = (if rl_allowed r then None else Some (App (withCode RATE_LIMIT_EXCEEDED (Some message) None None)))\<rparr>"

text \<open>\<open>getIdentifier\<close> may throw, then the address of the client is the identity; the call is given its
  identifier here, the rest of it by the environment.\<close>

definition rateLimitMiddleware ::
  "(tier_request \<Rightarrow> string + string) \<Rightarrow> RateLimitConfig \<Rightarrow> RateLimitTier option \<Rightarrow> (tier_request \<Rightarrow> bool) \<Rightarrow> string \<Rightarrow>
   tier_request \<Rightarrow> limit_call \<Rightarrow> limiter \<Rightarrow> limit_answer option \<times> limiter" where
  "rateLimitMiddleware getIdentifier config tier skipIf errorMessage req call st =
     (if skipIf req then (None, st)
      else (let identifier = (case getIdentifier req of
                  Inr i \<Rightarrow> i
                | Inl _ \<Rightarrow> ''fallback:ip:'' @ (case truthy_text (tr_ip req) of None \<Rightarrow> ''unknown'' | Some ip \<Rightarrow> ip));
                (r, st') = checkRateLimit config tier (call\<lparr>lc_identifier := identifier\<rparr>) st
            in (Some (limit_headers config errorMessage (lc_fallback_now call) r), st')))"

definition body_user :: "tier_request \<Rightarrow> string + string" where
  "body_user req = (case truthy_text (tr_body_userId req) of
     None \<Rightarrow> Inl ''Rate limiting middleware requires userId in request body'' | Some u \<Rightarrow> Inr u)"

definition scoreUpdateRateLimit :: "tier_request \<Rightarrow> limit_call \<Rightarrow> limiter \<Rightarrow> limit_answer option \<times> limiter" where
  "scoreUpdateRateLimit =
     rateLimitMiddleware body_user (EXPENSIVE_OPERATION_LIMITS SCORE_UPDATE) None (\<lambda>_. False)
       ''Too many score updates. Maximum 5 updates allowed per user per day.''"

definition user_or_ip :: "string \<Rightarrow> tier_request \<Rightarrow> string + string" where
  "user_or_ip prefix req = Inr (prefix @
     (case truthy_text (tr_user req) of Some k \<Rightarrow> '':user:'' @ k
      | None \<Rightarrow> '':ip:'' @ (case truthy_text (tr_ip req) of None \<Rightarrow> ''unknown'' | Some ip \<Rightarrow> ip)))"

definition searchRateLimit :: "tier_request \<Rightarrow> limit_call \<Rightarrow> limiter \<Rightarrow> limit_answer option \<times> limiter" where
  "searchRateLimit = rateLimitMiddleware (user_or_ip ''search'') (EXPENSIVE_OPERATION_LIMITS SEARCH) None (\<lambda>_. False)
     ''Too many search requests. Maximum 10 searches allowed per minute.''"

definition loanApplicationRateLimit :: "tier_request \<Rightarrow> limit_call \<Rightarrow> limiter \<Rightarrow> limit_answer option \<times> limiter" where
  "loanApplicationRateLimit = rateLimitMiddleware (user_or_ip ''loan'') (EXPENSIVE_OPERATION_LIMITS LOAN_APPLICATION) None (\<lambda>_. False)
     ''Too many loan applications. Maximum 5 loan applications allowed per minute.''"

fun tier_text :: "RateLimitTier \<Rightarrow> string" where
  "tier_text ANONYMOUS = ''anonymous''"
| "tier_text AUTHENTICATED = ''authenticated''"
| "tier_text PREMIUM = ''premium''"
| "tier_text INTERNAL = ''internal''"

definition tieredRateLimiter ::
  "RateLimitConfig option \<Rightarrow> tier_request \<Rightarrow> limit_call \<Rightarrow> limiter \<Rightarrow> limit_answer \<times> limiter" where
  "tieredRateLimiter overrideConfig req call st =
     (let (tier, identifier) = resolveTier req;
          config = (case overrideConfig of None \<Rightarrow> TIER_LIMITS tier | Some c \<Rightarrow> c);
          effectiveIdentifier = (if tier = ANONYMOUS then ''ip:'' @ (case truthy_text (tr_ip req) of None \<Rightarrow> ''unknown'' | Some ip \<Rightarrow> ip)
                                 else identifier);
          (r, st') = checkRateLimit config (Some tier) (call\<lparr>lc_identifier := effectiveIdentifier\<rparr>) st
      in (limit_headers config (''Rate limit exceeded for '' @ tier_text tier @ '' tier. Maximum '' @ nat_to_string (maxRequests config)
            @ '' requests per minute.'') (lc_fallback_now call) r, st'))"

definition createIpRateLimitMiddleware :: "nat \<Rightarrow> nat \<Rightarrow> tier_request \<Rightarrow> limit_call \<Rightarrow> limiter \<Rightarrow> limit_answer option \<times> limiter" where
  "createIpRateLimitMiddleware max_requests window_seconds =
     rateLimitMiddleware
       (\<lambda>req. case truthy_text (tr_ip req) of
                None \<Rightarrow> Inl ''Unable to determine client IP address for rate limiting'' | Some ip \<Rightarrow> Inr (''ip:'' @ ip))
       (limit_of max_requests window_seconds) None (\<lambda>_. False)
       (''Too many requests. Maximum '' @ nat_to_string max_requests @ '' requests allowed per hour.'')"

subsection \<open>The contract of a sliding window\<close>

text \<open>The times of the admitted requests of a sequence of calls, and the calls within a span.\<close>

fun admitted :: "('e \<Rightarrow> int \<Rightarrow> 's \<Rightarrow> bool \<times> 's) \<Rightarrow> ('e \<times> int) list \<Rightarrow> 's \<Rightarrow> int list" where
  "admitted admit [] s = []"
| "admitted admit ((e, t) # calls) s =
     (let (ok, s') = admit e t s in (if ok then [t] else []) @ admitted admit calls s')"

fun all_fresh :: "('e \<Rightarrow> 's \<Rightarrow> bool) \<Rightarrow> ('e \<Rightarrow> int \<Rightarrow> 's \<Rightarrow> bool \<times> 's) \<Rightarrow> ('e \<times> int) list \<Rightarrow> 's \<Rightarrow> bool" where
  "all_fresh fresh admit [] s \<longleftrightarrow> True"
| "all_fresh fresh admit ((e, t) # calls) s \<longleftrightarrow> fresh e s \<and> all_fresh fresh admit calls (snd (admit e t s))"

definition in_span :: "int \<Rightarrow> int \<Rightarrow> int list \<Rightarrow> nat" where
  "in_span w t ts = length (filter (\<lambda>x. t - w < x \<and> x \<le> t) ts)"

lemma length_filter_le_of: "(\<And>x. x \<in> set xs \<Longrightarrow> P x \<Longrightarrow> Q x) \<Longrightarrow> length (filter P xs) \<le> length (filter Q xs)"
  by (induction xs) auto

text \<open>
  A window: the environment of a call gives the time at which it takes effect; the call itself carries a time that is not later.
  What is recorded is exact as far as it lies within the span before the time of effect.
\<close>

locale sliding_window =
  fixes admit :: "'e \<Rightarrow> int \<Rightarrow> 's \<Rightarrow> bool \<times> 's"
    and clock :: "'e \<Rightarrow> int"
    and recorded :: "'s \<Rightarrow> int multiset"
    and fresh :: "'e \<Rightarrow> 's \<Rightarrow> bool"
    and inv :: "int \<Rightarrow> 's \<Rightarrow> bool"
    and span :: int
    and quota :: nat
  assumes inv_kept: "inv c0 s \<Longrightarrow> c0 \<le> clock e \<Longrightarrow> t \<le> clock e \<Longrightarrow> admit e t s = (ok, s') \<Longrightarrow> inv (clock e) s'"
    and admits_below_quota: "inv c0 s \<Longrightarrow> c0 \<le> clock e \<Longrightarrow> t \<le> clock e \<Longrightarrow> admit e t s = (True, s')
      \<Longrightarrow> size (filter_mset (\<lambda>x. clock e - span < x) (recorded s)) < quota"
    and records_admitted: "inv c0 s \<Longrightarrow> c0 \<le> clock e \<Longrightarrow> t \<le> clock e \<Longrightarrow> admit e t s = (True, s') \<Longrightarrow> fresh e s
      \<Longrightarrow> filter_mset (\<lambda>x. clock e - span < x) (recorded s) + {#t#} \<subseteq># recorded s'"
    and keeps_recorded: "inv c0 s \<Longrightarrow> c0 \<le> clock e \<Longrightarrow> t \<le> clock e \<Longrightarrow> admit e t s = (False, s')
      \<Longrightarrow> filter_mset (\<lambda>x. clock e - span < x) (recorded s) \<subseteq># recorded s'"
begin

text \<open>Requests admitted before, as far as they still count, are recorded.\<close>

lemma span_bound_from:
  assumes "sorted (map (clock \<circ> fst) calls)" and "\<forall>(e, t)\<in>set calls. c0 \<le> clock e \<and> t \<le> clock e \<and> clock e \<le> t + late"
    and "all_fresh fresh admit calls s"
    and "filter_mset (\<lambda>x. c0 - span < x) (mset before) \<subseteq># recorded s"
    and "\<forall>t. in_span (span - late) t before \<le> quota" and "inv c0 s"
  shows "in_span (span - late) t (before @ admitted admit calls s) \<le> quota"
  using assms
proof (induction calls arbitrary: s before c0)
  case Nil
  then show ?case by simp
next
  case (Cons call calls)
  obtain e u where call: "call = (e, u)" by fastforce
  let ?c = "clock e"
  obtain ok s' where a: "admit e u s = (ok, s')" by (meson surj_pair)
  have u: "c0 \<le> ?c" "u \<le> ?c" "?c \<le> u + late" "sorted (map (clock \<circ> fst) calls)"
      "\<forall>(e', t)\<in>set calls. ?c \<le> clock e' \<and> t \<le> clock e' \<and> clock e' \<le> t + late" "all_fresh fresh admit calls s'" "fresh e s"
    using Cons.prems(1-3) call a by (auto simp: comp_def)
  have still: "filter_mset (\<lambda>x. ?c - span < x) (mset before) \<subseteq># filter_mset (\<lambda>x. ?c - span < x) (recorded s)"
  proof -
    have "filter_mset (\<lambda>x. ?c - span < x) (mset before)
        = filter_mset (\<lambda>x. ?c - span < x) (filter_mset (\<lambda>x. c0 - span < x) (mset before))"
      unfolding filter_filter_mset using u(1) by (intro filter_mset_cong refl) auto
    then show ?thesis using multiset_filter_mono [OF Cons.prems(4)] by simp
  qed
  have i: "inv ?c s'" by (rule inv_kept [OF Cons.prems(6) u(1,2) a])
  show ?case
  proof (cases ok)
    case False
    have "filter_mset (\<lambda>x. ?c - span < x) (mset before) \<subseteq># recorded s'"
      by (rule subset_mset.order_trans [OF still keeps_recorded [OF Cons.prems(6) u(1,2)]]) (use a False in simp)
    then have "in_span (span - late) t (before @ admitted admit calls s') \<le> quota"
      using Cons.IH [of ?c s' before] u Cons.prems(5) i by blast
    then show ?thesis by (simp add: call a False)
  next
    case True
    have rec: "filter_mset (\<lambda>x. ?c - span < x) (recorded s) + {#u#} \<subseteq># recorded s'"
      by (rule records_admitted [OF Cons.prems(6) u(1,2)]) (use a True u(7) in simp_all)
    have "filter_mset (\<lambda>x. ?c - span < x) (mset (before @ [u])) \<subseteq># filter_mset (\<lambda>x. ?c - span < x) (mset before) + {#u#}"
      by simp
    also have "\<dots> \<subseteq># filter_mset (\<lambda>x. ?c - span < x) (recorded s) + {#u#}" using still by simp
    also have "\<dots> \<subseteq># recorded s'" by (rule rec)
    finally have r: "filter_mset (\<lambda>x. ?c - span < x) (mset (before @ [u])) \<subseteq># recorded s'" .
    have few: "length (filter (\<lambda>x. ?c - span < x) before) < quota"
      using admits_below_quota [OF Cons.prems(6) u(1,2), of s'] a True size_mset_mono [OF still] by (simp flip: mset_filter)
    have bound: "\<forall>v. in_span (span - late) v (before @ [u]) \<le> quota"
    proof
      fix v
      show "in_span (span - late) v (before @ [u]) \<le> quota"
      proof (cases "v - (span - late) < u \<and> u \<le> v")
        case True
        have "length (filter (\<lambda>x. v - (span - late) < x \<and> x \<le> v) before) \<le> length (filter (\<lambda>x. ?c - span < x) before)"
          using True u(3) by (intro length_filter_le_of) auto
        then show ?thesis using few True by (simp add: in_span_def)
      next
        case False
        then have "in_span (span - late) v (before @ [u]) = in_span (span - late) v before" by (auto simp: in_span_def)
        then show ?thesis using Cons.prems(5) by simp
      qed
    qed
    have "in_span (span - late) t ((before @ [u]) @ admitted admit calls s') \<le> quota"
      using Cons.IH [of ?c s' "before @ [u]"] u r bound i by blast
    then show ?thesis by (simp add: call a True)
  qed
qed

lemma span_bound:
  assumes "sorted (map (clock \<circ> fst) calls)" and "\<forall>(e, t)\<in>set calls. c0 \<le> clock e \<and> t \<le> clock e \<and> clock e \<le> t + late"
    and "all_fresh fresh admit calls s" and "inv c0 s"
  shows "in_span (span - late) t (admitted admit calls s) \<le> quota"
  using span_bound_from [of calls c0 late s "[]" t] assms by (simp add: in_span_def)

end

subsection \<open>Both windows keep the contract\<close>

text \<open>One window of Redis as the script sees it: the environment of a call is whether an edge member goes, the name of the new
  member, which is random and taken not to be in the set, and the time on Redis's clock.\<close>

definition redis_admit :: "RateLimitConfig \<Rightarrow> bool \<times> string \<times> int \<Rightarrow> int \<Rightarrow> zset option \<Rightarrow> bool \<times> zset option" where
  "redis_admit config e now z =
     (let (a, z') = SLIDING_WINDOW_SCRIPT config (fst e) (fst (snd e)) (snd (snd e)) now z in (fst a, z'))"

text \<open>What a set that is still there holds; one that has expired holds members no later than its expiry less the window.\<close>

definition zset_scores :: "zset option \<Rightarrow> int multiset" where
  "zset_scores z = (case z of None \<Rightarrow> {#} | Some s \<Rightarrow> mset (map snd (zs_members s)))"

definition new_member :: "bool \<times> string \<times> int \<Rightarrow> zset option \<Rightarrow> bool" where
  "new_member e z = (case z of None \<Rightarrow> True | Some s \<Rightarrow> fst (snd e) \<notin> fst ` set (zs_members s))"

definition redis_clock :: "bool \<times> string \<times> int \<Rightarrow> int" where
  "redis_clock e = snd (snd e)"

definition memory_admit :: "RateLimitConfig \<Rightarrow> int \<Rightarrow> int \<Rightarrow> int list \<Rightarrow> bool \<times> int list" where
  "memory_admit config e now ts = (let (r, ts') = checkInMemorySlidingWindow config None now ts in (rl_allowed r, ts'))"

definition zset_ordered :: "RateLimitConfig \<Rightarrow> int \<Rightarrow> zset option \<Rightarrow> bool" where
  "zset_ordered config c0 z =
     (case z of None \<Rightarrow> True | Some s \<Rightarrow> list_all (\<lambda>p. snd p \<le> c0 \<and> snd p \<le> zs_expires s - window_ms config) (zs_members s))"

lemma size_filter_mset_list: "size (filter_mset P (mset xs)) = length (filter P xs)"
  by (metis mset_filter size_mset)

lemma filter_later_mset: "c0 \<le> (c :: int) \<Longrightarrow> filter_mset (\<lambda>x. c - w < x) M \<subseteq># filter_mset (\<lambda>x. c0 - w < x) M"
  by (rule filter_mset_mono_strong) auto

interpretation memory_window: sliding_window "memory_admit config" id mset "\<lambda>_ _. True" "\<lambda>_ _. True" "window_ms config" "maxRequests config"
proof
  fix c0 e t :: int and s s' :: "int list"
  assume t: "t \<le> id e"
  have later: "filter_mset (\<lambda>x. id e - window_ms config < x) (mset s) \<subseteq># filter_mset (\<lambda>x. t - window_ms config < x) (mset s)"
    using t by (intro filter_later_mset) simp
  show "size (filter_mset (\<lambda>x. id e - window_ms config < x) (mset s)) < maxRequests config" if "memory_admit config e t s = (True, s')"
    using that size_mset_mono [OF later]
    by (auto simp: memory_admit_def checkInMemorySlidingWindow_def Let_def size_filter_mset_list split: if_splits)
  show "filter_mset (\<lambda>x. id e - window_ms config < x) (mset s) + {#t#} \<subseteq># mset s'" if "memory_admit config e t s = (True, s')"
    using that later by (auto simp: memory_admit_def checkInMemorySlidingWindow_def Let_def split: if_splits)
  show "filter_mset (\<lambda>x. id e - window_ms config < x) (mset s) \<subseteq># mset s'" if "memory_admit config e t s = (False, s')"
    using that by (auto simp: memory_admit_def checkInMemorySlidingWindow_def Let_def split: if_splits)
qed

definition script_keeps :: "RateLimitConfig \<Rightarrow> bool \<Rightarrow> int \<Rightarrow> int \<Rightarrow> zset option \<Rightarrow> (string \<times> int) list" where
  "script_keeps config edge clock now z =
     filter (\<lambda>p. \<not> (0 \<le> snd p \<and> (snd p < now - window_ms config \<or> edge \<and> snd p = now - window_ms config))) (live_members clock z)"

lemma redis_admit_eq:
  "redis_admit config (edge, member, clock) now z =
     (let kept = script_keeps config edge clock now z
      in if length kept < maxRequests config
         then (True, Some \<lparr>zs_members = zadd member now kept, zs_expires = clock + window_ms config\<rparr>)
         else (False, if kept = [] then None else map_option (\<lambda>s. s\<lparr>zs_members := kept\<rparr>) z))"
  by (simp add: redis_admit_def SLIDING_WINDOW_SCRIPT_def script_keeps_def Let_def)

lemma script_keeps_live:
  assumes "zset_ordered config c0 z" "now \<le> clock"
  shows "filter_mset (\<lambda>x. clock - window_ms config < x) (zset_scores z) \<subseteq># mset (map snd (script_keeps config edge clock now z))"
proof (cases z)
  case (Some s)
  show ?thesis
  proof (cases "zs_expires s \<le> clock")
    case True
    have "filter_mset (\<lambda>x. clock - window_ms config < x) (mset (map snd (zs_members s))) = {#}"
      using assms(1) True by (auto simp: zset_ordered_def Some list_all_iff)
    then show ?thesis by (simp only: zset_scores_def Some option.case empty_le)
  next
    case False
    have "mset (filter (\<lambda>p. clock - window_ms config < snd p) (zs_members s)) \<subseteq># mset (script_keeps config edge clock now z)"
      unfolding script_keeps_def live_members_def Some using False assms(2)
      by (simp, intro filter_mset_mono_strong) auto
    then have "image_mset snd (filter_mset (\<lambda>p. clock - window_ms config < snd p) (mset (zs_members s)))
        \<subseteq># image_mset snd (mset (script_keeps config edge clock now z))"
      by (intro image_mset_subseteq_mono) simp
    then show ?thesis by (simp add: zset_scores_def Some filter_mset_image_mset)
  qed
qed (simp add: zset_scores_def)

lemma script_keeps_members: "set (script_keeps config edge clock now z) \<subseteq> (case z of None \<Rightarrow> {} | Some s \<Rightarrow> set (zs_members s))"
  by (auto simp: script_keeps_def live_members_def split: option.splits if_splits)

lemma zset_ordered_kept:
  assumes "zset_ordered config c0 z" and "c0 \<le> clock" and "t \<le> clock" and "redis_admit config (edge, member, clock) t z = (ok, z')"
  shows "zset_ordered config clock z'"
proof -
  have le: "snd p \<le> clock" if "p \<in> set (script_keeps config edge clock t z)" for p
    using that assms(1,2) script_keeps_members [of config edge clock t z] by (force simp: zset_ordered_def list_all_iff split: option.splits)
  show ?thesis
  proof (cases "length (script_keeps config edge clock t z) < maxRequests config")
    case True
    then show ?thesis using assms(3,4) le by (auto simp: redis_admit_eq zset_ordered_def zadd_def list_all_iff Let_def)
  next
    case False
    then show ?thesis using assms script_keeps_members [of config edge clock t z] le
      by (cases z) (fastforce simp: redis_admit_eq zset_ordered_def list_all_iff Let_def split: if_splits)+
  qed
qed

lemma redis_records_admitted:
  assumes "zset_ordered config c0 z" and "t \<le> clock" and "redis_admit config (edge, member, clock) t z = (True, z')"
    and "new_member (edge, member, clock) z"
  shows "filter_mset (\<lambda>x. clock - window_ms config < x) (zset_scores z) + {#t#} \<subseteq># zset_scores z'"
proof -
  have "\<forall>p\<in>set (script_keeps config edge clock t z). fst p \<noteq> member"
    using assms(4) script_keeps_members [of config edge clock t z] by (force simp: new_member_def split: option.splits)
  then have "filter (\<lambda>p. fst p \<noteq> member) (script_keeps config edge clock t z) = script_keeps config edge clock t z"
    by (simp add: filter_id_conv)
  then have "zset_scores z' = mset (map snd (script_keeps config edge clock t z)) + {#t#}"
    using assms(3) by (auto simp: redis_admit_eq Let_def zset_scores_def zadd_def split: if_splits)
  then show ?thesis using script_keeps_live [OF assms(1,2), of edge] by simp
qed

lemma redis_keeps_recorded:
  assumes "zset_ordered config c0 z" and "t \<le> clock" and "redis_admit config (edge, member, clock) t z = (False, z')"
  shows "filter_mset (\<lambda>x. clock - window_ms config < x) (zset_scores z) \<subseteq># zset_scores z'"
proof (cases "script_keeps config edge clock t z = []")
  case True
  then have "filter_mset (\<lambda>x. clock - window_ms config < x) (zset_scores z) = {#}"
    using script_keeps_live [OF assms(1,2), of edge] by simp
  then show ?thesis by (simp only: empty_le)
next
  case False
  then obtain s where z: "z = Some s" by (cases z) (auto simp: script_keeps_def live_members_def)
  have "zset_scores z' = mset (map snd (script_keeps config edge clock t z))"
    using assms(3) False by (auto simp: z redis_admit_eq Let_def zset_scores_def split: if_splits)
  then show ?thesis using script_keeps_live [OF assms(1,2), of edge] by simp
qed

interpretation redis_window: sliding_window "redis_admit config" redis_clock zset_scores new_member "zset_ordered config"
  "window_ms config" "maxRequests config"
proof
  fix c0 s e t s' ok
  assume s: "zset_ordered config c0 s" and c0: "c0 \<le> redis_clock e" and t: "t \<le> redis_clock e"
  obtain edge member clock where e: "e = (edge, member, clock)" by (cases e)
  have t': "t \<le> clock" using t e by (simp add: redis_clock_def)
  show "zset_ordered config (redis_clock e) s'" if "redis_admit config e t s = (ok, s')"
    using zset_ordered_kept [OF s] c0 t that unfolding e redis_clock_def by simp
  show "size (filter_mset (\<lambda>x. redis_clock e - window_ms config < x) (zset_scores s)) < maxRequests config"
    if "redis_admit config e t s = (True, s')"
  proof -
    have "length (script_keeps config edge clock t s) < maxRequests config"
      using that by (auto simp: e redis_admit_eq Let_def split: if_splits)
    then show ?thesis using size_mset_mono [OF script_keeps_live [OF s t', of edge]] by (simp add: e redis_clock_def)
  qed
  show "filter_mset (\<lambda>x. redis_clock e - window_ms config < x) (zset_scores s) + {#t#} \<subseteq># zset_scores s'"
    if "redis_admit config e t s = (True, s')" "new_member e s"
    using redis_records_admitted [OF s t'] that unfolding e redis_clock_def by simp
  show "filter_mset (\<lambda>x. redis_clock e - window_ms config < x) (zset_scores s) \<subseteq># zset_scores s'"
    if "redis_admit config e t s = (False, s')"
    using redis_keeps_recorded [OF s t'] that unfolding e redis_clock_def by simp
qed

subsection \<open>The service keeps the limit\<close>

text \<open>Calls in the order they take effect, with what each was answered; an identifier has one configuration.\<close>

fun granted :: "(string \<Rightarrow> RateLimitConfig) \<Rightarrow> limit_call list \<Rightarrow> limiter \<Rightarrow> (limit_call \<times> bool) list" where
  "granted cfg [] st = []"
| "granted cfg (c # calls) st =
     (let (r, st') = checkRateLimit (cfg (lc_identifier c)) None c st in (c, rl_allowed r) # granted cfg calls st')"

definition redis_times :: "string \<Rightarrow> (limit_call \<times> bool) list \<Rightarrow> int list" where
  "redis_times i g = map (lc_now \<circ> fst) (filter (\<lambda>(c, ok). ok \<and> lc_identifier c = i \<and> lc_redis c = Answered) g)"

definition memory_times :: "string \<Rightarrow> (limit_call \<times> bool) list \<Rightarrow> int list" where
  "memory_times i g = map (lc_fallback_now \<circ> fst) (filter (\<lambda>(c, ok). ok \<and> lc_identifier c = i \<and> lc_redis c \<noteq> Answered) g)"

definition script_calls :: "string \<Rightarrow> limit_call list \<Rightarrow> ((bool \<times> string \<times> int) \<times> int) list" where
  "script_calls i calls = map (\<lambda>c. ((lc_edge c, lc_member c, lc_clock c), lc_now c)) (filter (\<lambda>c. lc_identifier c = i \<and> lc_redis c \<noteq> Redis_failed) calls)"

definition memory_calls :: "string \<Rightarrow> limit_call list \<Rightarrow> (int \<times> int) list" where
  "memory_calls i calls = map (\<lambda>c. (lc_fallback_now c, lc_fallback_now c)) (filter (\<lambda>c. lc_identifier c = i \<and> lc_redis c \<noteq> Answered) calls)"

definition memory_of :: "limiter \<Rightarrow> string \<Rightarrow> int list" where
  "memory_of st i = (case lm_memory st (rate_key i) of None \<Rightarrow> [] | Some ts \<Rightarrow> ts)"

lemma rate_key_inject [simp]: "rate_key a = rate_key b \<longleftrightarrow> a = b"
  by (simp add: rate_key_def)

lemma checkRateLimit_redis:
  assumes "checkRateLimit config tier c st = (r, st')"
  shows "lm_redis st' (rate_key i) =
      (if lc_identifier c = i \<and> lc_redis c \<noteq> Redis_failed
       then snd (redis_admit config (lc_edge c, lc_member c, lc_clock c) (lc_now c) (lm_redis st (rate_key i))) else lm_redis st (rate_key i))"
    and "lc_redis c = Answered \<Longrightarrow>
      rl_allowed r = fst (redis_admit config (lc_edge c, lc_member c, lc_clock c) (lc_now c) (lm_redis st (rate_key (lc_identifier c))))"
  using assms
  by (cases "SLIDING_WINDOW_SCRIPT config (lc_edge c) (lc_member c) (lc_clock c) (lc_now c) (lm_redis st (rate_key (lc_identifier c)))",
      auto simp: checkRateLimit_def redis_admit_def Let_def split: if_splits prod.splits)+

lemma checkRateLimit_memory:
  assumes "checkRateLimit config tier c st = (r, st')"
  shows "memory_of st' i =
      (if lc_identifier c = i \<and> lc_redis c \<noteq> Answered then snd (memory_admit config (lc_fallback_now c) (lc_fallback_now c) (memory_of st i)) else memory_of st i)"
    and "lc_redis c \<noteq> Answered \<Longrightarrow>
      rl_allowed r = fst (memory_admit config (lc_fallback_now c) (lc_fallback_now c) (memory_of st (lc_identifier c)))"
  using assms
  by (cases "SLIDING_WINDOW_SCRIPT config (lc_edge c) (lc_member c) (lc_clock c) (lc_now c) (lm_redis st (rate_key (lc_identifier c)))",
      auto simp: checkRateLimit_def memory_admit_def memory_of_def checkInMemorySlidingWindow_def Let_def split: if_splits prod.splits)+

lemma in_span_append: "in_span w t (xs @ ys) = in_span w t xs + in_span w t ys"
  by (simp add: in_span_def)

lemma redis_times_admitted:
  "in_span w t (redis_times i (granted cfg calls st))
   \<le> in_span w t (admitted (redis_admit (cfg i)) (script_calls i calls) (lm_redis st (rate_key i)))"
proof (induction calls arbitrary: st)
  case (Cons c calls)
  obtain r st' where r: "checkRateLimit (cfg (lc_identifier c)) None c st = (r, st')" by (meson surj_pair)
  note facts = checkRateLimit_redis(1) [OF r, of i] checkRateLimit_redis(2) [OF r]
  show ?case
    using Cons [of st'] facts
    by (cases "lc_redis c"; cases "lc_identifier c = i"; cases "rl_allowed r")
      (auto simp: r redis_times_def script_calls_def in_span_append in_span_def Let_def case_prod_beta)
qed (simp add: redis_times_def in_span_def)

lemma memory_times_admitted:
  "memory_times i (granted cfg calls st) = admitted (memory_admit (cfg i)) (memory_calls i calls) (memory_of st i)"
proof (induction calls arbitrary: st)
  case (Cons c calls)
  obtain r st' where r: "checkRateLimit (cfg (lc_identifier c)) None c st = (r, st')" by (meson surj_pair)
  show ?case
    using Cons [of st'] checkRateLimit_memory(1) [OF r, of i] checkRateLimit_memory(2) [OF r]
    by (cases "lc_redis c = Answered"; cases "lc_identifier c = i")
      (auto simp: r memory_times_def memory_calls_def Let_def case_prod_beta)
qed (simp add: memory_times_def memory_calls_def)

text \<open>Distinct names that are not in a set are new whenever they are added.\<close>

definition member_names :: "zset option \<Rightarrow> string set" where
  "member_names z = (case z of None \<Rightarrow> {} | Some s \<Rightarrow> fst ` set (zs_members s))"

lemma redis_admit_names: "member_names (snd (redis_admit config e t z)) \<subseteq> insert (fst (snd e)) (member_names z)"
  by (cases z; cases e) (auto simp: redis_admit_eq Let_def member_names_def script_keeps_def live_members_def zadd_def split: if_splits)

definition call_member :: "(bool \<times> string \<times> int) \<times> int \<Rightarrow> string" where
  "call_member call = fst (snd (fst call))"

lemma distinct_names_fresh:
  assumes "distinct (map call_member calls)" and "member_names z \<inter> set (map call_member calls) = {}"
  shows "all_fresh new_member (redis_admit config) calls z"
  using assms
proof (induction calls arbitrary: z)
  case (Cons c calls)
  obtain e t where c: "c = (e, t)" by fastforce
  have "new_member e z" using Cons.prems c by (auto simp: new_member_def member_names_def call_member_def split: option.splits)
  moreover have "member_names (snd (redis_admit config e t z)) \<inter> set (map call_member calls) = {}"
  proof -
    have "insert (fst (snd e)) (member_names z) \<inter> set (map call_member calls) = {}"
      using Cons.prems c by (auto simp: call_member_def [of "(e, t)"])
    then show ?thesis using redis_admit_names [of config e t z] by blast
  qed
  ultimately show ?case using Cons c by simp
qed simp

lemma all_fresh_trivial: "all_fresh (\<lambda>_ _. True) admit calls s"
  by (induction calls arbitrary: s) auto

lemma script_calls_distinct: "distinct (map lc_member calls) \<Longrightarrow> distinct (map call_member (script_calls i calls))"
  by (simp add: script_calls_def comp_def call_member_def distinct_map_filter)

text \<open>
  C19. From an empty limiter, in whatever way the calls of all identifiers interleave and Redis fails, loses answers or answers: when
  every call of an identifier reaches Redis at most \<open>late\<close> milliseconds after it read its time, the requests of that identifier
  admitted by Redis are at most the configured number in any span of the window's length less \<open>late\<close>, although calls may
  overtake one another; and those admitted from memory, where the time is read as the call takes effect, in any span of the window's
  length. The names of members are distinct and no clock goes back.
\<close>

theorem rate_limit_bounds_every_window:
  assumes "distinct (map lc_member calls)"
    and "sorted (map lc_clock (filter (\<lambda>c. lc_identifier c = i \<and> lc_redis c \<noteq> Redis_failed) calls))"
    and "\<forall>c\<in>set calls. lc_identifier c = i \<and> lc_redis c \<noteq> Redis_failed \<longrightarrow> lc_now c \<le> lc_clock c \<and> lc_clock c \<le> lc_now c + late"
    and "sorted (map lc_fallback_now (filter (\<lambda>c. lc_identifier c = i \<and> lc_redis c \<noteq> Answered) calls))"
  shows "in_span (window_ms (cfg i) - late) t (redis_times i (granted cfg calls \<lparr>lm_redis = Map.empty, lm_memory = Map.empty\<rparr>)) \<le> maxRequests (cfg i)
    \<and> in_span (window_ms (cfg i)) t (memory_times i (granted cfg calls \<lparr>lm_redis = Map.empty, lm_memory = Map.empty\<rparr>)) \<le> maxRequests (cfg i)"
proof -
  let ?st = "\<lparr>lm_redis = Map.empty, lm_memory = Map.empty\<rparr>"
  let ?c0 = "Min (insert 0 (set (map (redis_clock \<circ> fst) (script_calls i calls))))"
    and ?m0 = "Min (insert 0 (set (map (id \<circ> fst) (memory_calls i calls))))"
  have s: "sorted (map (redis_clock \<circ> fst) (script_calls i calls))" "sorted (map (id \<circ> fst) (memory_calls i calls))"
    using assms(2,4) by (simp_all add: script_calls_def memory_calls_def comp_def redis_clock_def)
  have timely: "\<forall>(e, t)\<in>set (script_calls i calls). ?c0 \<le> redis_clock e \<and> t \<le> redis_clock e \<and> redis_clock e \<le> t + late"
  proof (intro ballI, clarify)
    fix edge member clock t assume c: "((edge, member, clock), t) \<in> set (script_calls i calls)"
    then have "redis_clock (edge, member, clock) \<in> set (map (redis_clock \<circ> fst) (script_calls i calls))" by force
    moreover have "t \<le> clock \<and> clock \<le> t + late" using c assms(3) by (auto simp: script_calls_def)
    ultimately show "?c0 \<le> redis_clock (edge, member, clock) \<and> t \<le> redis_clock (edge, member, clock) \<and> redis_clock (edge, member, clock) \<le> t + late"
      by (simp add: redis_clock_def)
  qed
  have memory: "\<forall>(e, t)\<in>set (memory_calls i calls). ?m0 \<le> id e \<and> t \<le> id e \<and> id e \<le> t + 0"
    by (force simp: memory_calls_def)
  have "in_span (window_ms (cfg i) - late) t (admitted (redis_admit (cfg i)) (script_calls i calls) None) \<le> maxRequests (cfg i)"
    by (rule redis_window.span_bound [OF s(1) timely distinct_names_fresh [OF script_calls_distinct [OF assms(1)]]])
      (simp_all add: member_names_def zset_ordered_def)
  then have "in_span (window_ms (cfg i) - late) t (redis_times i (granted cfg calls ?st)) \<le> maxRequests (cfg i)"
    using redis_times_admitted [of "window_ms (cfg i) - late" t i cfg calls ?st] by simp
  moreover have "in_span (window_ms (cfg i)) t (memory_times i (granted cfg calls ?st)) \<le> maxRequests (cfg i)"
    unfolding memory_times_admitted using memory_window.span_bound [OF s(2) memory all_fresh_trivial, where config = "cfg i" and t = t] by simp
  ultimately show ?thesis by simp
qed

definition sample_call :: "string \<Rightarrow> int \<Rightarrow> int \<Rightarrow> redis_outcome \<Rightarrow> limit_call" where
  "sample_call m t c o1 =
     \<lparr>lc_identifier = ''u'', lc_now = t, lc_member = m, lc_edge = False, lc_redis = o1, lc_clock = c, lc_fallback_now = c\<rparr>"

theorem rate_limit_bounds_every_window_witness:
  "(let calls = [sample_call ''a'' 1 1 Answered, sample_call ''b'' 2 4 Answered, sample_call ''c'' 3 5 Answer_lost, sample_call ''d'' 1500 1550 Answered,
          sample_call ''e'' 1460 1560 Answered];
        g = granted (\<lambda>_. limit_of 1 1) calls \<lparr>lm_redis = Map.empty, lm_memory = Map.empty\<rparr>
    in map snd g = [True, False, True, True, False] \<and> in_span 900 1500 (redis_times ''u'' g) \<le> 1)"
proof -
  let ?calls = "[sample_call ''a'' 1 1 Answered, sample_call ''b'' 2 4 Answered, sample_call ''c'' 3 5 Answer_lost, sample_call ''d'' 1500 1550 Answered,
          sample_call ''e'' 1460 1560 Answered]"
  have "map snd (granted (\<lambda>_. limit_of 1 1) ?calls \<lparr>lm_redis = Map.empty, lm_memory = Map.empty\<rparr>) = [True, False, True, True, False]"
    by (simp add: sample_call_def limit_of_def checkRateLimit_def SLIDING_WINDOW_SCRIPT_def checkInMemorySlidingWindow_def Let_def
        window_ms_def live_members_def zadd_def)
  then show ?thesis
    using rate_limit_bounds_every_window [of ?calls "''u''" 100 "\<lambda>_. limit_of 1 1" 1500]
    by (simp add: Let_def sample_call_def limit_of_def window_ms_def)
qed

text \<open>
  A request that brings an API key the limiter has not seen is admitted with the thousand requests a minute of the
  premium tier, whatever the key says: the limiter never asks whether it is one of the configured keys.
\<close>

theorem unseen_api_key_passes:
  assumes "tr_api_key req = Some key" and "trim key \<noteq> []" and "take 9 (trim key) \<noteq> ''internal:''" and "take 6 (trim key) \<noteq> ''admin:''"
    and "lm_redis st (rate_key (''key:'' @ trim key)) = None" and "lm_memory st (rate_key (''key:'' @ trim key)) = None"
  shows "la_error (fst (tieredRateLimiter None req call st)) = None \<and> la_limit (fst (tieredRateLimiter None req call st)) = 1000"
proof -
  have t: "resolveTier req = (PREMIUM, ''key:'' @ trim key)"
    using assms(1-4) by (simp add: resolveTier_def truthy_text_def)
  have script: "SLIDING_WINDOW_SCRIPT (limit_of 1000 60) e m c n None
      = ((True, 999, 1, (n + 60000) div 1000), Some \<lparr>zs_members = [(m, n)], zs_expires = c + 60000\<rparr>)" for e m c n
    by (simp add: SLIDING_WINDOW_SCRIPT_def limit_of_def window_ms_def live_members_def zadd_def)
  show ?thesis
    using assms(5,6)
    by (cases "lc_redis call")
      (simp_all add: tieredRateLimiter_def t checkRateLimit_def script Let_def limit_headers_def checkInMemorySlidingWindow_def, simp_all add: limit_of_def)
qed

theorem unseen_api_key_passes_witness:
  "la_error (fst (tieredRateLimiter None \<lparr>tr_user = None, tr_api_key = Some ''made-up'', tr_ip = None, tr_body_userId = None\<rparr>
     (sample_call ''m'' 5 5 Answered) \<lparr>lm_redis = Map.empty, lm_memory = Map.empty\<rparr>)) = None"
proof -
  have "trim ''made-up'' = ''made-up''" by code_simp
  then show ?thesis
    by (intro unseen_api_key_passes [where key = "''made-up''", THEN conjunct1]) simp_all
qed

end
