(* ===== verification/CrossReconciler.thy ===== *)
theory CrossReconciler
  imports ScoreReconciliation JobMetrics StateError "HOL-Library.AList" "HOL-Library.Multiset"
begin

section \<open>Cross-contract reconciliation (\<open>services/crossContractReconciler.ts\<close>)\<close>

text \<open>
  The ledger of custody events and whether their score changes were seen: backfill from the indexed
  events, one run over the unresolved rows with its compensation and corrections, and the saga helper.
  Every statement has a number; the environment says at what time it runs and whether it fails. Shown: a saga
  that fails has undone what it did, a run settles exactly the rows it fetched and leaves one row per
  event, and what keeps a run from ever getting there.
\<close>

subsection \<open>Sagas\<close>

datatype SettlementState = PENDING | PARTIAL | COMPLETED | FAILED

text \<open>An action or a compensation says whether it returned (and did not throw) and the state it leaves.\<close>

record 'st SagaStep =
  step_name :: string
  step_action :: "'st \<Rightarrow> bool \<times> 'st"
  step_compensation :: "'st \<Rightarrow> bool \<times> 'st"

fun compensate :: "'st SagaStep list \<Rightarrow> 'st \<Rightarrow> 'st" where
  "compensate [] st = st"
| "compensate (step # executed) st = compensate executed (snd (step_compensation step st))"

text \<open>The executed steps, last first.\<close>

fun execute_steps :: "'st SagaStep list \<Rightarrow> 'st SagaStep list \<Rightarrow> 'st \<Rightarrow> ('st SagaStep list + string) \<times> 'st" where
  "execute_steps [] executed st = (Inl executed, st)"
| "execute_steps (step # steps) executed st =
     (case step_action step st of
        (True, st') \<Rightarrow> execute_steps steps (step # executed) st'
      | (False, st') \<Rightarrow> (Inr (step_name step), compensate executed st'))"

definition execute :: "'st SagaStep list \<Rightarrow> 'st \<Rightarrow> (SettlementState \<times> string option) \<times> 'st" where
  "execute steps st =
     (case execute_steps steps [] st of
        (Inr failedStep, st') \<Rightarrow> ((FAILED, Some failedStep), st')
      | (Inl executed, st') \<Rightarrow> ((if length executed = length steps then COMPLETED else PARTIAL, None), st'))"

subsection \<open>Rows\<close>

definition normalizeState :: "string \<Rightarrow> SettlementState" where
  "normalizeState s =
     (if s = ''pending'' \<or> s = ''PENDING'' then PENDING
      else if s = ''half_applied'' \<or> s = ''PARTIAL'' then PARTIAL
      else if s = ''reconciled'' \<or> s = ''COMPLETED'' then COMPLETED
      else if s = ''failed'' \<or> s = ''FAILED'' then FAILED
      else PENDING)"

fun toLegacyState :: "SettlementState \<Rightarrow> string" where
  "toLegacyState PENDING = ''pending''"
| "toLegacyState PARTIAL = ''half_applied''"
| "toLegacyState COMPLETED = ''reconciled''"
| "toLegacyState FAILED = ''failed''"

record cross_row =
  cr_id :: nat
  cr_intent_key :: string
  cr_loan_id :: "int option"
  cr_borrower :: string
  cr_operation :: string
  cr_disbursement_ledger :: "int option"
  cr_disbursement_tx_hash :: string
  cr_expected_score_delta :: int
  cr_score_applied :: bool
  cr_score_ledger :: "int option"
  cr_state :: string
  cr_attempts :: nat
  cr_updated_at :: "int option"

record CrossContractReconciliationResult =
  backfilledRows :: nat
  processedRows :: nat
  reconciledCount :: nat
  halfAppliedCount :: nat
  stillPendingCount :: nat
  correctedCount :: nat
  compensatedCount :: nat
  alertedPartialCount :: nat
  cx_autoCorrectEnabled :: bool

record cross_vars =
  CROSS_RECONCILE_MAX_ROWS_PER_RUN :: "string option"
  CROSS_RECONCILE_STALE_ATTEMPTS :: "string option"
  CROSS_RECONCILE_AUTOCORRECT_ENABLED :: "string option"
  CROSS_RECONCILE_PARTIAL_ALERT_MS :: "string option"

definition getMaxRowsPerRun :: "cross_vars \<Rightarrow> int" where
  "getMaxRowsPerRun v = parsePositiveInt (CROSS_RECONCILE_MAX_ROWS_PER_RUN v) 500"

definition getStaleAttempts :: "cross_vars \<Rightarrow> int" where
  "getStaleAttempts v = parsePositiveInt (CROSS_RECONCILE_STALE_ATTEMPTS v) 3"

definition cross_isAutoCorrectEnabled :: "cross_vars \<Rightarrow> bool" where
  "cross_isAutoCorrectEnabled v = parseBoolean (CROSS_RECONCILE_AUTOCORRECT_ENABLED v) False"

definition getPartialAlertThresholdMs :: "cross_vars \<Rightarrow> int" where
  "getPartialAlertThresholdMs v = parsePositiveInt (CROSS_RECONCILE_PARTIAL_ALERT_MS v) (60 * 60 * 1000)"

text \<open>The environment: the time and the fault of each statement, what the chain answers for a borrower (\<open>None\<close> is a
  call that throws), and the process's clock at the start and the end of a run.\<close>

record 's cross_env =
  cx_vars :: cross_vars
  cx_redis :: "'s redis"
  cx_clock :: "nat \<Rightarrow> int"
  cx_fault :: "nat \<Rightarrow> db_error option"
  getOnChainCreditScore :: "string \<Rightarrow> int option"
  cx_started :: int
  cx_finished :: int

record 's cross_state =
  cs_rows :: "cross_row list"
  cs_next_id :: nat
  cs_events :: "contract_event list"
  cs_scores :: "scores_table \<times> 's cache_service"
  cs_metrics :: metrics_map
  cs_compensations :: "(string \<times> string) list"
  cs_ticks :: nat

definition stmt :: "'s cross_env \<Rightarrow> (int \<Rightarrow> 's cross_state \<Rightarrow> (db_error + 'a) \<times> 's cross_state) \<Rightarrow> ('s cross_state, db_error, 'a) act" where
  "stmt env body st =
     (let k = cs_ticks st; st1 = st\<lparr>cs_ticks := k + 1\<rparr>
      in case cx_fault env k of Some e \<Rightarrow> (Inl e, st1) | None \<Rightarrow> body (cx_clock env k) st1)"

subsection \<open>Backfill\<close>

definition intent_key :: "contract_event \<Rightarrow> string" where
  "intent_key e = ce_event_type e @ '':'' @ (case ce_loan_id e of None \<Rightarrow> ''-'' | Some n \<Rightarrow> int_to_string n) @ '':'' @ ce_event_id e"

definition operation_of :: "string \<Rightarrow> string" where
  "operation_of t = (if t = ''LoanApproved'' then ''approve'' else if t = ''LoanRepaid'' then ''repay'' else ''default'')"

text \<open>The amount column holds whole stroops, printed in decimal.\<close>

definition stroops_of :: "string option \<Rightarrow> int" where
  "stroops_of a = (case a of None \<Rightarrow> 0 | Some s \<Rightarrow> (case parseInt s of None \<Rightarrow> 0 | Some n \<Rightarrow> n))"

definition expected_delta :: "contract_event \<Rightarrow> int" where
  "expected_delta e =
     (if ce_event_type e = ''LoanRepaid'' then max 0 (stroops_of (ce_amount e) div 100)
      else if ce_event_type e = ''LoanDefaulted'' then - 50 else 0)"

definition custody_event :: "contract_event \<Rightarrow> bool" where
  "custody_event e \<longleftrightarrow> ce_event_type e \<in> set [''LoanApproved'', ''LoanRepaid'', ''LoanDefaulted''] \<and> ce_address e \<noteq> None \<and> ce_address e \<noteq> Some []"

definition new_row :: "nat \<Rightarrow> contract_event \<Rightarrow> cross_row" where
  "new_row i e = \<lparr>cr_id = i, cr_intent_key = intent_key e, cr_loan_id = ce_loan_id e,
     cr_borrower = (case ce_address e of None \<Rightarrow> [] | Some a \<Rightarrow> a), cr_operation = operation_of (ce_event_type e),
     cr_disbursement_ledger = Some (ce_ledger e), cr_disbursement_tx_hash = ce_tx_hash e, cr_expected_score_delta = expected_delta e,
     cr_score_applied = False, cr_score_ledger = None, cr_state = ''pending'', cr_attempts = 0, cr_updated_at = None\<rparr>"

text \<open>\<open>::int\<close> and the columns of 255 characters refuse what does not fit, and with one row the whole statement.\<close>

definition row_error :: "contract_event \<Rightarrow> db_error option" where
  "row_error e =
     (if \<not> int4 (expected_delta e) then Some (DbError ''22003'')
      else if 255 < length (intent_key e) \<or> 255 < length (case ce_address e of None \<Rightarrow> [] | Some a \<Rightarrow> a) \<or> 255 < length (ce_tx_hash e)
      then Some (DbError ''22001'') else None)"

fun insert_intents :: "contract_event list \<Rightarrow> cross_row list \<times> nat \<Rightarrow> cross_row list \<times> nat" where
  "insert_intents [] (rows, i) = (rows, i)"
| "insert_intents (e # es) (rows, i) =
     (if \<exists>r\<in>set rows. cr_intent_key r = intent_key e then insert_intents es (rows, i)
      else insert_intents es (rows @ [new_row i e], i + 1))"

definition missing_events :: "'s cross_state \<Rightarrow> contract_event list" where
  "missing_events st = filter (\<lambda>e. custody_event e \<and> \<not> (\<exists>r\<in>set (cs_rows st). cr_intent_key r = intent_key e)) (cs_events st)"

definition backfillPendingRows :: "'s cross_env \<Rightarrow> ('s cross_state, db_error, nat) act" where
  "backfillPendingRows env = stmt env (\<lambda>now st.
     case List.map_filter row_error (missing_events st) of
       e # _ \<Rightarrow> (Inl e, st)
     | [] \<Rightarrow>
         (let (rows, i) = insert_intents (missing_events st) (cs_rows st, cs_next_id st)
          in (Inr (length rows - length (cs_rows st)), st\<lparr>cs_rows := rows, cs_next_id := i\<rparr>)))"

subsection \<open>A run\<close>

definition unresolved :: "cross_row \<Rightarrow> bool" where
  "unresolved r \<longleftrightarrow> cr_state r \<in> set [''pending'', ''half_applied'', ''PENDING'', ''PARTIAL'', ''reconciled'', ''failed'']
     \<and> cr_state r \<notin> set [''reconciled'', ''COMPLETED'']"

definition fetchUnresolvedRows :: "'s cross_env \<Rightarrow> ('s cross_state, db_error, cross_row list) act" where
  "fetchUnresolvedRows env = stmt env (\<lambda>now st.
     (Inr (take (nat (getMaxRowsPerRun (cx_vars env))) (sort_key cr_id (filter unresolved (cs_rows st)))), st))"

definition SCORE_EVENT_TYPES :: "string list" where
  "SCORE_EVENT_TYPES = [''ScoreUpdated'', ''ScoreDecreased'']"

definition score_ledgers :: "string \<Rightarrow> int option \<Rightarrow> contract_event list \<Rightarrow> int list" where
  "score_ledgers borrower sinceLedger es =
     map ce_ledger (filter (\<lambda>e. ce_address e = Some borrower \<and> ce_event_type e \<in> set SCORE_EVENT_TYPES
       \<and> (case sinceLedger of None \<Rightarrow> 0 | Some l \<Rightarrow> l) \<le> ce_ledger e) es)"

definition findMatchingScoreLedger :: "'s cross_env \<Rightarrow> string \<Rightarrow> int option \<Rightarrow> ('s cross_state, db_error, int option) act" where
  "findMatchingScoreLedger env borrower sinceLedger = stmt env (\<lambda>now st.
     (Inr (case sort (score_ledgers borrower sinceLedger (cs_events st)) of [] \<Rightarrow> None | l # _ \<Rightarrow> Some l), st))"

definition update_row :: "nat \<Rightarrow> (cross_row \<Rightarrow> cross_row) \<Rightarrow> 's cross_state \<Rightarrow> 's cross_state" where
  "update_row i f st = st\<lparr>cs_rows := map (\<lambda>r. if cr_id r = i then f r else r) (cs_rows st)\<rparr>"

definition checked :: "int \<Rightarrow> string \<Rightarrow> cross_row \<Rightarrow> cross_row" where
  "checked now s r = r\<lparr>cr_state := s, cr_attempts := cr_attempts r + 1, cr_updated_at := Some now\<rparr>"

definition markReconciled :: "'s cross_env \<Rightarrow> nat \<Rightarrow> int option \<Rightarrow> bool \<Rightarrow> ('s cross_state, db_error, unit) act" where
  "markReconciled env i scoreLedger applied = stmt env (\<lambda>now st.
     (Inr (), update_row i (\<lambda>r. (checked now ''reconciled'' r)\<lparr>cr_score_applied := applied, cr_score_ledger := scoreLedger\<rparr>) st))"

definition markState :: "'s cross_env \<Rightarrow> nat \<Rightarrow> SettlementState \<Rightarrow> ('s cross_state, db_error, unit) act" where
  "markState env i s = stmt env (\<lambda>now st. (Inr (), update_row i (checked now (toLegacyState s)) st))"

text \<open>The handlers only write to the log; the model keeps what they were asked to compensate.\<close>

definition compensationHandlers :: "string list" where
  "compensationHandlers = [''lending_pool_deposit'', ''lending_pool_withdraw'', ''agent_vault_collateral'', ''loan_manager_repay'', ''score_update'']"

definition runCompensation :: "string \<Rightarrow> string \<Rightarrow> 's cross_state \<Rightarrow> bool \<times> 's cross_state" where
  "runCompensation operation intent st =
     (if operation \<in> set compensationHandlers then (True, st\<lparr>cs_compensations := cs_compensations st @ [(operation, intent)]\<rparr>) else (False, st))"

definition compensatePartial :: "'s cross_env \<Rightarrow> cross_row \<Rightarrow> ('s cross_state, db_error, bool) act" where
  "compensatePartial env row st =
     (let handlerKey = (if cr_operation row = ''repay'' \<or> cr_operation row = ''default'' then ''score_update'' else ''lending_pool_deposit'');
          (compensated, st1) = runCompensation handlerKey (cr_intent_key row) st
      in if compensated
         then (case markState env (cr_id row) FAILED st1 of (Inl e, st2) \<Rightarrow> (Inl e, st2) | (Inr _, st2) \<Rightarrow> (Inr True, st2))
         else (Inr False, st1))"

record cross_acc =
  ca_result :: CrossContractReconciliationResult
  corrections :: "(string \<times> int) list"

definition stale_row :: "'s cross_env \<Rightarrow> bool \<Rightarrow> cross_row \<Rightarrow> cross_acc \<Rightarrow> ('s cross_state, db_error, cross_acc) act" where
  "stale_row env autoCorrect row acc =
     bind_act (markState env (cr_id row) PARTIAL) (\<lambda>_ st.
       (let (c, st1) = compensatePartial env row st;
            res = (ca_result acc)\<lparr>halfAppliedCount := halfAppliedCount (ca_result acc) + 1,
                    compensatedCount := compensatedCount (ca_result acc) + (if c = Inr True then 1 else 0)\<rparr>;
            corr = (if autoCorrect
                    then (case getOnChainCreditScore env (cr_borrower row) of
                            None \<Rightarrow> corrections acc | Some s \<Rightarrow> AList.update (cr_borrower row) s (corrections acc))
                    else corrections acc)
        in (Inr \<lparr>ca_result = res, corrections = corr\<rparr>, st1)))"

definition reconcile_row :: "'s cross_env \<Rightarrow> bool \<Rightarrow> int \<Rightarrow> cross_row \<Rightarrow> cross_acc \<Rightarrow> ('s cross_state, db_error, cross_acc) act" where
  "reconcile_row env autoCorrect staleAttempts row acc0 =
     (let acc = acc0\<lparr>ca_result := (ca_result acc0)\<lparr>processedRows := processedRows (ca_result acc0) + 1\<rparr>\<rparr>;
          reconciled = acc\<lparr>ca_result := (ca_result acc)\<lparr>reconciledCount := reconciledCount (ca_result acc) + 1\<rparr>\<rparr>
      in if cr_expected_score_delta row = 0
         then bind_act (markReconciled env (cr_id row) None False) (\<lambda>_. ret reconciled)
         else bind_act (findMatchingScoreLedger env (cr_borrower row) (cr_disbursement_ledger row)) (\<lambda>scoreLedger.
           case scoreLedger of
             Some l \<Rightarrow> bind_act (markReconciled env (cr_id row) (Some l) True) (\<lambda>_. ret reconciled)
           | None \<Rightarrow>
               if staleAttempts \<le> int (cr_attempts row) + 1 then stale_row env autoCorrect row acc
               else bind_act (markState env (cr_id row) PENDING) (\<lambda>_.
                 ret (acc\<lparr>ca_result := (ca_result acc)\<lparr>stillPendingCount := stillPendingCount (ca_result acc) + 1\<rparr>\<rparr>))))"

fun reconcile_rows :: "'s cross_env \<Rightarrow> bool \<Rightarrow> int \<Rightarrow> cross_row list \<Rightarrow> cross_acc \<Rightarrow> ('s cross_state, db_error, cross_acc) act" where
  "reconcile_rows env auto stale [] acc = ret acc"
| "reconcile_rows env auto stale (row # rows) acc = bind_act (reconcile_row env auto stale row acc) (reconcile_rows env auto stale rows)"

definition alertStuckPartials :: "'s cross_env \<Rightarrow> ('s cross_state, db_error, nat) act" where
  "alertStuckPartials env = stmt env (\<lambda>now st.
     (let stuck = filter (\<lambda>r. cr_state r \<in> set [''half_applied'', ''PARTIAL'']
            \<and> (case cr_updated_at r of None \<Rightarrow> False | Some t \<Rightarrow> t < now - getPartialAlertThresholdMs (cx_vars env))) (cs_rows st)
      in (Inr (length stuck),
          if stuck = [] then st
          else st\<lparr>cs_metrics := recordJobFailure now ''crossContractReconciler.partial_stuck''
            (nat_to_string (length stuck) @ '' settlements stuck in PARTIAL > '' @ int_to_string (getPartialAlertThresholdMs (cx_vars env)) @ ''ms'')
            0 (cs_metrics st)\<rparr>)))"

definition correct_scores :: "'s cross_env \<Rightarrow> (string \<times> int) list \<Rightarrow> ('s cross_state, db_error, unit) act" where
  "correct_scores env cs =
     (if cs = [] then ret ()
      else stmt env (\<lambda>now st. case setAbsoluteUserScoresBulk (cx_redis env) cs (cs_scores st) of
             Inl e \<Rightarrow> (Inl e, st) | Inr sc \<Rightarrow> (Inr (), st\<lparr>cs_scores := sc\<rparr>)))"

definition no_result :: "bool \<Rightarrow> CrossContractReconciliationResult" where
  "no_result auto = \<lparr>backfilledRows = 0, processedRows = 0, reconciledCount = 0, halfAppliedCount = 0, stillPendingCount = 0,
     correctedCount = 0, compensatedCount = 0, alertedPartialCount = 0, cx_autoCorrectEnabled = auto\<rparr>"

definition cross_body :: "'s cross_env \<Rightarrow> ('s cross_state, db_error, CrossContractReconciliationResult) act" where
  "cross_body env =
     (let auto = cross_isAutoCorrectEnabled (cx_vars env)
      in bind_act (backfillPendingRows env) (\<lambda>n.
         bind_act (fetchUnresolvedRows env) (\<lambda>rows.
         bind_act (reconcile_rows env auto (getStaleAttempts (cx_vars env)) rows
                     \<lparr>ca_result = (no_result auto)\<lparr>backfilledRows := n\<rparr>, corrections = []\<rparr>) (\<lambda>acc.
         bind_act (correct_scores env (corrections acc)) (\<lambda>_.
         bind_act (alertStuckPartials env) (\<lambda>a.
         ret ((ca_result acc)\<lparr>correctedCount := length (corrections acc), alertedPartialCount := a\<rparr>)))))))"

definition cross_run :: "'s cross_env \<Rightarrow> ('s cross_state, db_error, CrossContractReconciliationResult) act" where
  "cross_run env st =
     (case cross_body env st of
        (Inr r, st') \<Rightarrow> (Inr r, st'\<lparr>cs_metrics := recordJobSuccess (cx_finished env) ''crossContractReconciler''
                                  (cx_finished env - cx_started env) (cs_metrics st')\<rparr>)
      | (Inl e, st') \<Rightarrow> (Inl e, st'\<lparr>cs_metrics := recordJobFailure (cx_finished env) ''crossContractReconciler'' (db_code e)
                                  (cx_finished env - cx_started env) (cs_metrics st')\<rparr>))"

subsection \<open>A saga is all or nothing\<close>

lemma execute_steps_outcome:
  assumes "\<forall>s\<in>set steps. \<forall>st st'. step_action s st = (True, st') \<longrightarrow> snd (step_compensation s st') = st"
    and "\<forall>s\<in>set steps. \<forall>st st'. step_action s st = (False, st') \<longrightarrow> st' = st"
    and "compensate executed st = start"
  shows "(\<exists>ex st'. execute_steps steps executed st = (Inl ex, st') \<and> length ex = length executed + length steps
            \<and> st' = fold (\<lambda>s st. snd (step_action s st)) steps st)
       \<or> (\<exists>n\<in>step_name ` set steps. execute_steps steps executed st = (Inr n, start))"
  using assms
proof (induction steps arbitrary: executed st)
  case (Cons s steps)
  obtain ok st1 where a: "step_action s st = (ok, st1)" by (meson surj_pair)
  show ?case
  proof (cases ok)
    case True
    then have "snd (step_compensation s st1) = st" using Cons.prems(1) a by simp
    then have "compensate (s # executed) st1 = start" using Cons.prems(3) by simp
    with Cons.IH [of "s # executed" st1] Cons.prems(1,2) a True show ?thesis by auto
  next
    case False
    with a Cons.prems(2,3) show ?thesis by auto
  qed
qed simp

text \<open>
  A saga is all or nothing: when each compensation undoes its action and an action that throws has changed
  nothing, executing it either completes with the effect of all actions in order or fails, naming a step, in the state it began.
\<close>

theorem saga_all_or_nothing:
  assumes "\<forall>s\<in>set steps. \<forall>st st'. step_action s st = (True, st') \<longrightarrow> snd (step_compensation s st') = st"
    and "\<forall>s\<in>set steps. \<forall>st st'. step_action s st = (False, st') \<longrightarrow> st' = st"
  shows "execute steps st = ((COMPLETED, None), fold (\<lambda>s st. snd (step_action s st)) steps st)
    \<or> (\<exists>n\<in>step_name ` set steps. execute steps st = ((FAILED, Some n), st))"
  using execute_steps_outcome [OF assms, of "[]" st st] by (auto simp: execute_def)

definition add_step :: "int \<Rightarrow> int SagaStep" where
  "add_step n = \<lparr>step_name = int_to_string n, step_action = (\<lambda>st. if st + n < 10 then (True, st + n) else (False, st)),
     step_compensation = (\<lambda>st. (True, st - n))\<rparr>"

theorem saga_all_or_nothing_witness:
  "execute [add_step 3, add_step 4] 0 = ((COMPLETED, None), 7) \<and> snd (execute [add_step 3, add_step 4, add_step 5] 0) = (0 :: int)"
proof -
  have laws: "\<forall>s\<in>set ss. \<forall>st st'. step_action s st = (True, st') \<longrightarrow> snd (step_compensation s st') = st"
      "\<forall>s\<in>set ss. \<forall>st st'. step_action s st = (False, st') \<longrightarrow> st' = st" if "set ss \<subseteq> range add_step" for ss
    using that by (auto simp: add_step_def split: if_splits)
  have "execute [add_step 3, add_step 4] 0 = ((COMPLETED, None), 7)" by (simp add: execute_def add_step_def)
  moreover have "fst (fst (execute [add_step 3, add_step 4, add_step 5] 0)) = FAILED" by (simp add: execute_def add_step_def)
  moreover have "snd (execute [add_step 3, add_step 4, add_step 5] 0) = (0 :: int)"
    using saga_all_or_nothing [of "[add_step 3, add_step 4, add_step 5]" 0] laws [of "[add_step 3, add_step 4, add_step 5]"]
      calculation(2) by auto
  ultimately show ?thesis by simp
qed

subsection \<open>One row per event\<close>

definition intents_inv :: "'s cross_state \<Rightarrow> bool" where
  "intents_inv st \<longleftrightarrow> distinct (map cr_intent_key (cs_rows st)) \<and> distinct (map cr_id (cs_rows st)) \<and> (\<forall>r\<in>set (cs_rows st). cr_id r < cs_next_id st)"

definition has_row :: "contract_event \<Rightarrow> 's cross_state \<Rightarrow> bool" where
  "has_row e st \<longleftrightarrow> intent_key e \<in> cr_intent_key ` set (cs_rows st)"

text \<open>What the statements after the backfill keep: which rows there are, and the events.\<close>

definition same_intents :: "'s cross_state \<Rightarrow> 's cross_state \<Rightarrow> bool" where
  "same_intents st0 st \<longleftrightarrow> map cr_id (cs_rows st) = map cr_id (cs_rows st0)
     \<and> map cr_intent_key (cs_rows st) = map cr_intent_key (cs_rows st0) \<and> cs_next_id st = cs_next_id st0 \<and> cs_events st = cs_events st0"

definition keeps_intents :: "('s cross_state, 'e, 'a) act \<Rightarrow> bool" where
  "keeps_intents m \<longleftrightarrow> (\<forall>st0. triple (same_intents st0) m (\<lambda>_. same_intents st0) (same_intents st0))"

lemma same_intents_refl [simp]: "same_intents st st"
  by (simp add: same_intents_def)

lemma same_intents_ticks [simp]:
  "same_intents st0 (st\<lparr>cs_ticks := k\<rparr>) = same_intents st0 st"
  "same_intents st0 (st\<lparr>cs_metrics := m\<rparr>) = same_intents st0 st"
  "same_intents st0 (st\<lparr>cs_scores := sc\<rparr>) = same_intents st0 st"
  "same_intents st0 (st\<lparr>cs_compensations := c\<rparr>) = same_intents st0 st"
  by (simp_all add: same_intents_def)

lemma same_intents_update:
  "(\<And>r. cr_id (f r) = cr_id r \<and> cr_intent_key (f r) = cr_intent_key r) \<Longrightarrow> same_intents st0 (update_row i f st) = same_intents st0 st"
  by (auto simp: same_intents_def update_row_def comp_def if_distrib cong: if_cong)

lemma keeps_bind: "keeps_intents m \<Longrightarrow> (\<And>x. keeps_intents (f x)) \<Longrightarrow> keeps_intents (bind_act m f)"
  by (auto simp: keeps_intents_def intro: triple_bind)

lemma keeps_ret: "keeps_intents (ret x)"
  by (simp add: keeps_intents_def triple_def ret_def)

lemma keeps_iff: "keeps_intents m \<longleftrightarrow> (\<forall>st0 st. same_intents st0 st \<longrightarrow> same_intents st0 (snd (m st)))"
  unfolding keeps_intents_def triple_def by (simp add: case_prod_beta split: sum.splits)

lemma keeps_stmt: "(\<And>now st0 st. same_intents st0 st \<Longrightarrow> same_intents st0 (snd (body now st))) \<Longrightarrow> keeps_intents (stmt env body)"
  unfolding keeps_iff stmt_def Let_def by (auto split: option.splits)

lemma keeps_marks: "keeps_intents (markReconciled env i l a)" "keeps_intents (markState env i s)"
  unfolding markReconciled_def markState_def
  by (auto intro!: keeps_stmt simp: same_intents_update checked_def)

lemma keeps_reads: "keeps_intents (fetchUnresolvedRows env)" "keeps_intents (findMatchingScoreLedger env b l)" "keeps_intents (alertStuckPartials env)"
  unfolding fetchUnresolvedRows_def findMatchingScoreLedger_def alertStuckPartials_def
  by (auto intro!: keeps_stmt simp: Let_def)

lemma keeps_compensate: "keeps_intents (compensatePartial env row)"
proof -
  have "snd (compensatePartial env row st) = snd (markState env (cr_id row) FAILED (snd (runCompensation k (cr_intent_key row) st)))"
    if "k = (if cr_operation row = ''repay'' \<or> cr_operation row = ''default'' then ''score_update'' else ''lending_pool_deposit'')" for st k
    unfolding compensatePartial_def that [symmetric]
    by (auto simp: that runCompensation_def compensationHandlers_def Let_def split: prod.splits sum.splits)
  moreover have "same_intents st0 (snd (runCompensation k i st)) = same_intents st0 st" for st0 st k i
    by (simp add: runCompensation_def)
  ultimately show ?thesis using keeps_marks(2) unfolding keeps_iff by metis
qed

lemma keeps_correct: "keeps_intents (correct_scores env cs)"
  by (auto simp: correct_scores_def keeps_ret intro!: keeps_stmt split: sum.splits)

lemma keeps_stale: "keeps_intents (stale_row env auto row acc)"
  unfolding stale_row_def
proof (rule keeps_bind [OF keeps_marks(2)])
  fix x
  show "keeps_intents (\<lambda>st. let (c, st1) = compensatePartial env row st;
            res = (ca_result acc)\<lparr>halfAppliedCount := halfAppliedCount (ca_result acc) + 1,
                    compensatedCount := compensatedCount (ca_result acc) + (if c = Inr True then 1 else 0)\<rparr>;
            corr = (if auto
                    then (case getOnChainCreditScore env (cr_borrower row) of
                            None \<Rightarrow> corrections acc | Some s \<Rightarrow> AList.update (cr_borrower row) s (corrections acc))
                    else corrections acc)
        in (Inr \<lparr>ca_result = res, corrections = corr\<rparr>, st1))"
    using keeps_compensate [of env row] unfolding keeps_iff Let_def by (simp add: case_prod_beta)
qed

lemma keeps_row: "keeps_intents (reconcile_row env auto stale row acc)"
  unfolding reconcile_row_def Let_def
  by (auto intro!: keeps_bind keeps_ret keeps_marks keeps_reads keeps_stale split: option.splits)

lemma keeps_rows: "keeps_intents (reconcile_rows env auto stale rows acc)"
  by (induction rows arbitrary: acc) (auto intro!: keeps_bind keeps_ret keeps_row)

definition after_backfill :: "'s cross_env \<Rightarrow> nat \<Rightarrow> ('s cross_state, db_error, CrossContractReconciliationResult) act" where
  "after_backfill env n =
     (let auto = cross_isAutoCorrectEnabled (cx_vars env)
      in bind_act (fetchUnresolvedRows env) (\<lambda>rows.
         bind_act (reconcile_rows env auto (getStaleAttempts (cx_vars env)) rows
                     \<lparr>ca_result = (no_result auto)\<lparr>backfilledRows := n\<rparr>, corrections = []\<rparr>) (\<lambda>acc.
         bind_act (correct_scores env (corrections acc)) (\<lambda>_.
         bind_act (alertStuckPartials env) (\<lambda>a.
         ret ((ca_result acc)\<lparr>correctedCount := length (corrections acc), alertedPartialCount := a\<rparr>))))))"

lemma cross_body_eq: "cross_body env = bind_act (backfillPendingRows env) (after_backfill env)"
  by (rule ext) (simp add: cross_body_def after_backfill_def [abs_def] Let_def)

lemma keeps_after: "keeps_intents (after_backfill env n)"
  unfolding after_backfill_def Let_def
  by (auto intro!: keeps_bind keeps_ret keeps_rows keeps_reads keeps_correct)

text \<open>The backfill adds one row for each key it does not find.\<close>

lemma new_row_key [simp]: "cr_intent_key (new_row i e) = intent_key e" "cr_id (new_row i e) = i"
  by (simp_all add: new_row_def)

lemma insert_intents_keys:
  "insert_intents es (rows, i) = (rows', i') \<Longrightarrow>
     cr_intent_key ` set rows' = cr_intent_key ` set rows \<union> intent_key ` set es
     \<and> (distinct (map cr_intent_key rows) \<longrightarrow> distinct (map cr_intent_key rows'))
     \<and> (distinct (map cr_id rows) \<and> (\<forall>r\<in>set rows. cr_id r < i) \<longrightarrow> distinct (map cr_id rows') \<and> (\<forall>r\<in>set rows'. cr_id r < i'))"
proof (induction es arbitrary: rows i)
  case (Cons e es)
  show ?case
  proof (cases "\<exists>r\<in>set rows. cr_intent_key r = intent_key e")
    case True
    then have "insert_intents es (rows, i) = (rows', i')" using Cons.prems by simp
    moreover have "intent_key e \<in> cr_intent_key ` set rows" using True by (metis imageI)
    ultimately show ?thesis using Cons.IH [of rows i] by auto
  next
    case False
    then have "insert_intents es (rows @ [new_row i e], i + 1) = (rows', i')" using Cons.prems by (simp del: insert_intents.simps add: insert_intents.simps(2))
    from Cons.IH [OF this] False show ?thesis by (auto simp: less_Suc_eq)
  qed
qed simp

lemma backfill_outcome:
  assumes "intents_inv st"
  shows "intents_inv (snd (backfillPendingRows env st)) \<and> cs_events (snd (backfillPendingRows env st)) = cs_events st
    \<and> (\<forall>n. fst (backfillPendingRows env st) = Inr n \<longrightarrow> (\<forall>e\<in>set (cs_events st). custody_event e \<longrightarrow> has_row e (snd (backfillPendingRows env st))))"
proof (cases "cx_fault env (cs_ticks st) = None \<and> List.map_filter row_error (missing_events (st\<lparr>cs_ticks := cs_ticks st + 1\<rparr>)) = []")
  case False
  then show ?thesis using assms
    by (auto simp: backfillPendingRows_def stmt_def Let_def intents_inv_def split: option.splits list.splits)
next
  case True
  let ?st = "st\<lparr>cs_ticks := cs_ticks st + 1\<rparr>"
  obtain rows i where ins: "insert_intents (missing_events ?st) (cs_rows st, cs_next_id st) = (rows, i)" by (meson surj_pair)
  have keys: "has_row e (?st\<lparr>cs_rows := rows, cs_next_id := i\<rparr>)" if "e \<in> set (cs_events st)" "custody_event e" for e
  proof (cases "intent_key e \<in> cr_intent_key ` set (cs_rows st)")
    case True
    then show ?thesis using insert_intents_keys [OF ins] by (simp add: has_row_def)
  next
    case False
    then have "e \<in> set (missing_events ?st)" using that by (auto simp: missing_events_def intro: rev_image_eqI)
    then show ?thesis using insert_intents_keys [OF ins] by (simp add: has_row_def)
  qed
  have inv: "intents_inv (?st\<lparr>cs_rows := rows, cs_next_id := i\<rparr>)"
    using insert_intents_keys [OF ins] assms by (simp add: intents_inv_def)
  have "backfillPendingRows env st = (Inr (length rows - length (cs_rows st)), ?st\<lparr>cs_rows := rows, cs_next_id := i\<rparr>)"
    using True ins by (simp add: backfillPendingRows_def stmt_def Let_def)
  then show ?thesis using keys inv by simp
qed

lemma same_intents_inv: "same_intents st0 st \<Longrightarrow> intents_inv st0 \<Longrightarrow> intents_inv st"
  and same_intents_row: "same_intents st0 st \<Longrightarrow> has_row e st0 \<Longrightarrow> has_row e st"
proof -
  assume s: "same_intents st0 st"
  have keys: "map cr_intent_key (cs_rows st) = map cr_intent_key (cs_rows st0)" "map cr_id (cs_rows st) = map cr_id (cs_rows st0)"
    using s by (simp_all add: same_intents_def)
  have sets: "cr_id ` set (cs_rows st) = cr_id ` set (cs_rows st0)" "cr_intent_key ` set (cs_rows st) = cr_intent_key ` set (cs_rows st0)"
    using keys by (metis list.set_map)+
  show "intents_inv st0 \<Longrightarrow> intents_inv st"
    using keys sets s unfolding intents_inv_def same_intents_def by (metis (no_types, lifting) imageE imageI)
  show "has_row e st0 \<Longrightarrow> has_row e st" using sets by (simp add: has_row_def)
qed


subsection \<open>What a run settles\<close>

definition settled_state :: "'s cross_env \<Rightarrow> contract_event list \<Rightarrow> cross_row \<Rightarrow> string" where
  "settled_state env es row =
     (if cr_expected_score_delta row = 0 \<or> score_ledgers (cr_borrower row) (cr_disbursement_ledger row) es \<noteq> [] then ''reconciled''
      else if getStaleAttempts (cx_vars env) \<le> int (cr_attempts row) + 1 then ''failed'' else ''pending'')"

definition states :: "'s cross_state \<Rightarrow> (nat \<times> string) list" where
  "states st = map (\<lambda>r. (cr_id r, cr_state r)) (cs_rows st)"

definition set_state :: "nat \<Rightarrow> string \<Rightarrow> (nat \<times> string) list \<Rightarrow> (nat \<times> string) list" where
  "set_state i s v = map (\<lambda>p. if fst p = i then (i, s) else p) v"

lemma states_update:
  "(\<And>r. cr_id (f r) = cr_id r \<and> cr_state (f r) = s) \<Longrightarrow> states (update_row i f st) = set_state i s (states st)"
  by (auto simp: states_def update_row_def set_state_def)

lemma states_irrelevant [simp]:
  "states (st\<lparr>cs_ticks := k\<rparr>) = states st" "states (st\<lparr>cs_metrics := m\<rparr>) = states st"
  "states (st\<lparr>cs_scores := sc\<rparr>) = states st" "states (st\<lparr>cs_compensations := c\<rparr>) = states st"
  by (simp_all add: states_def)

lemma update_row_events [simp]: "cs_events (update_row i f st) = cs_events st"
  by (simp add: update_row_def)

lemma set_state_twice [simp]: "set_state i s (set_state i s' v) = set_state i s v"
  by (auto simp: set_state_def)

lemma stmt_ok: "cx_fault env = (\<lambda>_. None) \<Longrightarrow> stmt env body st = body (cx_clock env (cs_ticks st)) (st\<lparr>cs_ticks := cs_ticks st + 1\<rparr>)"
  by (simp add: stmt_def Let_def)

lemma markState_ok:
  assumes "cx_fault env = (\<lambda>_. None)"
  obtains st' where "markState env i s st = (Inr (), st')" "states st' = set_state i (toLegacyState s) (states st)" "cs_events st' = cs_events st"
proof -
  let ?st = "update_row i (checked (cx_clock env (cs_ticks st)) (toLegacyState s)) (st\<lparr>cs_ticks := cs_ticks st + 1\<rparr>)"
  have "markState env i s st = (Inr (), ?st)" by (simp add: markState_def stmt_ok assms)
  moreover have "states ?st = set_state i (toLegacyState s) (states st)" by (subst states_update) (simp_all add: checked_def)
  ultimately show ?thesis using that by simp
qed

lemma markReconciled_ok:
  assumes "cx_fault env = (\<lambda>_. None)"
  obtains st' where "markReconciled env i l a st = (Inr (), st')" "states st' = set_state i ''reconciled'' (states st)" "cs_events st' = cs_events st"
proof -
  let ?f = "\<lambda>r. (checked (cx_clock env (cs_ticks st)) ''reconciled'' r)\<lparr>cr_score_applied := a, cr_score_ledger := l\<rparr>"
  let ?st = "update_row i ?f (st\<lparr>cs_ticks := cs_ticks st + 1\<rparr>)"
  have "markReconciled env i l a st = (Inr (), ?st)" by (simp add: markReconciled_def stmt_ok assms)
  moreover have "states ?st = set_state i ''reconciled'' (states st)" by (subst states_update) (simp_all add: checked_def)
  ultimately show ?thesis using that by simp
qed

lemma compensatePartial_ok:
  assumes "cx_fault env = (\<lambda>_. None)"
  obtains st' where "compensatePartial env row st = (Inr True, st')" "states st' = set_state (cr_id row) ''failed'' (states st)" "cs_events st' = cs_events st"
proof -
  define k where "k = (if cr_operation row = ''repay'' \<or> cr_operation row = ''default'' then ''score_update'' else ''lending_pool_deposit'')"
  let ?st1 = "st\<lparr>cs_compensations := cs_compensations st @ [(k, cr_intent_key row)]\<rparr>"
  have r: "runCompensation k (cr_intent_key row) st = (True, ?st1)" by (simp add: runCompensation_def compensationHandlers_def k_def)
  obtain st' where m: "markState env (cr_id row) FAILED ?st1 = (Inr (), st')" "states st' = set_state (cr_id row) ''failed'' (states ?st1)"
      "cs_events st' = cs_events ?st1"
    using markState_ok [OF assms, of "cr_id row" FAILED ?st1] by (metis toLegacyState.simps(4))
  have "compensatePartial env row st = (Inr True, st')"
    unfolding compensatePartial_def k_def [symmetric] Let_def using r m(1) by simp
  then show ?thesis using that m by simp
qed

lemma stale_row_ok:
  assumes "cx_fault env = (\<lambda>_. None)"
  obtains acc' st' where "stale_row env auto row acc st = (Inr acc', st')" "states st' = set_state (cr_id row) ''failed'' (states st)" "cs_events st' = cs_events st"
proof -
  obtain st1 where m: "markState env (cr_id row) PARTIAL st = (Inr (), st1)" "states st1 = set_state (cr_id row) (toLegacyState PARTIAL) (states st)"
      "cs_events st1 = cs_events st"
    by (rule markState_ok [OF assms])
  obtain st2 where c: "compensatePartial env row st1 = (Inr True, st2)" "states st2 = set_state (cr_id row) ''failed'' (states st1)" "cs_events st2 = cs_events st1"
    by (rule compensatePartial_ok [OF assms])
  show ?thesis
  proof (rule that)
    show "stale_row env auto row acc st = (Inr (case fst (stale_row env auto row acc st) of Inr a \<Rightarrow> a), st2)"
      by (simp add: stale_row_def bind_act_def m(1) c(1) Let_def)
  qed (simp_all add: m c)
qed

lemma findMatching_ok:
  assumes "cx_fault env = (\<lambda>_. None)"
  obtains l st' where "findMatchingScoreLedger env b since st = (Inr l, st')" "l = None \<longleftrightarrow> score_ledgers b since (cs_events st) = []"
    "states st' = states st" "cs_events st' = cs_events st"
proof -
  let ?l = "case sort (score_ledgers b since (cs_events st)) of [] \<Rightarrow> None | l # _ \<Rightarrow> Some l"
  have "?l = None \<longleftrightarrow> score_ledgers b since (cs_events st) = []"
    by (cases "sort (score_ledgers b since (cs_events st))") (auto dest: arg_cong [where f = set])
  then show ?thesis using that [of ?l "st\<lparr>cs_ticks := cs_ticks st + 1\<rparr>"] by (simp add: findMatchingScoreLedger_def stmt_ok assms)
qed

lemma reconcile_row_ok:
  assumes f: "cx_fault env = (\<lambda>_. None)"
  obtains acc' st' where "reconcile_row env auto (getStaleAttempts (cx_vars env)) row acc st = (Inr acc', st')"
    "states st' = set_state (cr_id row) (settled_state env (cs_events st) row) (states st)" "cs_events st' = cs_events st"
proof (cases "cr_expected_score_delta row = 0")
  case True
  obtain st1 where m: "markReconciled env (cr_id row) None False st = (Inr (), st1)" "states st1 = set_state (cr_id row) ''reconciled'' (states st)"
      "cs_events st1 = cs_events st"
    by (rule markReconciled_ok [OF f])
  show ?thesis using that True m by (auto simp: reconcile_row_def bind_act_def ret_def settled_state_def Let_def)
next
  case False
  obtain l st1 where s: "findMatchingScoreLedger env (cr_borrower row) (cr_disbursement_ledger row) st = (Inr l, st1)"
      "l = None \<longleftrightarrow> score_ledgers (cr_borrower row) (cr_disbursement_ledger row) (cs_events st) = []"
      "states st1 = states st" "cs_events st1 = cs_events st"
    by (rule findMatching_ok [OF f])
  show ?thesis
  proof (cases l)
    case (Some x)
    obtain st2 where m: "markReconciled env (cr_id row) (Some x) True st1 = (Inr (), st2)" "states st2 = set_state (cr_id row) ''reconciled'' (states st1)"
        "cs_events st2 = cs_events st1"
      by (rule markReconciled_ok [OF f])
    show ?thesis using that False s Some m by (auto simp: reconcile_row_def bind_act_def ret_def settled_state_def Let_def)
  next
    case None
    note n = False None s
    show ?thesis
    proof (cases "getStaleAttempts (cx_vars env) \<le> int (cr_attempts row) + 1")
      case True
      let ?acc = "acc\<lparr>ca_result := (ca_result acc)\<lparr>processedRows := processedRows (ca_result acc) + 1\<rparr>\<rparr>"
      obtain acc' st2 where m: "stale_row env auto row ?acc st1 = (Inr acc', st2)" "states st2 = set_state (cr_id row) ''failed'' (states st1)"
          "cs_events st2 = cs_events st1"
        by (rule stale_row_ok [OF f])
      have "reconcile_row env auto (getStaleAttempts (cx_vars env)) row acc st = (Inr acc', st2)"
        using n True m(1) by (simp add: reconcile_row_def bind_act_def Let_def)
      then show ?thesis using that n True m by (simp add: settled_state_def)
    next
      case fresh: False
      obtain st2 where m: "markState env (cr_id row) PENDING st1 = (Inr (), st2)" "states st2 = set_state (cr_id row) (toLegacyState PENDING) (states st1)"
          "cs_events st2 = cs_events st1"
        by (rule markState_ok [OF f])
      show ?thesis using that n fresh m by (auto simp: reconcile_row_def bind_act_def ret_def settled_state_def Let_def)
    qed
  qed
qed

lemma reconcile_rows_ok:
  assumes f: "cx_fault env = (\<lambda>_. None)"
  shows "\<exists>acc' st'. reconcile_rows env auto (getStaleAttempts (cx_vars env)) rows acc st = (Inr acc', st')
    \<and> states st' = fold (\<lambda>row. set_state (cr_id row) (settled_state env (cs_events st) row)) rows (states st) \<and> cs_events st' = cs_events st"
proof (induction rows arbitrary: acc st)
  case (Cons row rows)
  obtain acc1 st1 where r: "reconcile_row env auto (getStaleAttempts (cx_vars env)) row acc st = (Inr acc1, st1)"
    "states st1 = set_state (cr_id row) (settled_state env (cs_events st) row) (states st)" "cs_events st1 = cs_events st"
    by (rule reconcile_row_ok [OF f])
  show ?case using Cons.IH [of acc1 st1] r by (auto simp: bind_act_def)
qed (simp add: ret_def)

lemma fold_set_state:
  assumes "distinct (map cr_id rows)"
  shows "fold (\<lambda>row. set_state (cr_id row) (g row)) rows v
    = map (\<lambda>p. (fst p, case map_of (map (\<lambda>row. (cr_id row, g row)) rows) (fst p) of None \<Rightarrow> snd p | Some s \<Rightarrow> s)) v"
  using assms
proof (induction rows arbitrary: v)
  case (Cons row rows)
  have none: "map_of (map (\<lambda>row. (cr_id row, g row)) rows) (cr_id row) = None"
    using Cons.prems by (auto simp: map_of_eq_None_iff)
  show ?case using Cons.IH [of "set_state (cr_id row) (g row) v"] Cons.prems none
    by (auto simp: set_state_def)
qed simp

definition backfilled :: "'s cross_state \<Rightarrow> cross_row list" where
  "backfilled st = fst (insert_intents (missing_events st) (cs_rows st, cs_next_id st))"

definition fetched :: "'s cross_env \<Rightarrow> cross_row list \<Rightarrow> cross_row list" where
  "fetched env rows = take (nat (getMaxRowsPerRun (cx_vars env))) (sort_key cr_id (filter unresolved rows))"

lemma states_tail: "states (snd (bind_act (correct_scores env c) (\<lambda>_. bind_act (alertStuckPartials env) (\<lambda>a. ret (g a))) st)) = states st"
proof -
  have "states (snd (correct_scores env c st)) = states st" for st
    by (auto simp: correct_scores_def stmt_def ret_def Let_def split: option.splits sum.splits)
  moreover have "states (snd (alertStuckPartials env st)) = states st" for st
    by (auto simp: alertStuckPartials_def stmt_def Let_def split: option.splits)
  ultimately show ?thesis
    unfolding bind_act_def ret_def by (simp add: case_prod_beta split: sum.splits)
qed

lemma map_of_fetched:
  assumes "distinct (map cr_id rows)" and "r \<in> set rows"
  shows "map_of (map (\<lambda>row. (cr_id row, g row)) (fetched env rows)) (cr_id r) = (if r \<in> set (fetched env rows) then Some (g r) else None)"
proof -
  have sub: "set (fetched env rows) \<subseteq> set rows" by (auto simp: fetched_def dest: in_set_takeD)
  have inj: "inj_on cr_id (set rows)" using assms(1) by (simp add: distinct_map)
  show ?thesis
  proof (cases "r \<in> set (fetched env rows)")
    case True
    have "map_of (map (\<lambda>row. (cr_id row, g row)) xs) (cr_id r) = Some (g r)" if "r \<in> set xs" "set xs \<subseteq> set rows" for xs
      using that inj assms(2) by (induction xs) (auto dest: inj_onD)
    then show ?thesis using True sub by simp
  next
    case False
    then have "cr_id r \<notin> cr_id ` set (fetched env rows)" using sub inj assms(2) by (metis image_iff inj_onD subsetD)
    then show ?thesis using False by (simp add: map_of_eq_None_iff image_image)
  qed
qed

lemma distinct_fetched: "distinct (map cr_id rows) \<Longrightarrow> distinct (map cr_id (fetched env rows))"
  by (auto simp: fetched_def distinct_map distinct_take dest!: in_set_takeD intro: inj_on_subset)

lemma backfill_ok:
  assumes "cx_fault env = (\<lambda>_. None)" and "List.map_filter row_error (missing_events st) = []"
  obtains n st1 where "backfillPendingRows env st = (Inr n, st1)" "cs_rows st1 = backfilled st" "cs_events st1 = cs_events st"
proof -
  have "missing_events (st\<lparr>cs_ticks := k\<rparr>) = missing_events st" for k by (simp add: missing_events_def)
  then show ?thesis using that assms
    by (simp add: backfillPendingRows_def stmt_ok backfilled_def case_prod_beta Let_def)
qed

text \<open>
  A run in which no statement fails settles exactly the rows it fetched, the first unresolved ones up to the limit:
  each is reconciled when no score change is expected or a score event of its borrower is indexed at or after its ledger, failed once it
  is stale, and pending before; every other row keeps its state.
\<close>

theorem run_settles_fetched:
  assumes "cx_fault env = (\<lambda>_. None)" and "intents_inv st" and "List.map_filter row_error (missing_events st) = []"
  shows "states (snd (cross_run env st)) =
    map (\<lambda>r. (cr_id r, if r \<in> set (fetched env (backfilled st)) then settled_state env (cs_events st) r else cr_state r)) (backfilled st)"
proof -
  obtain n st1 where b: "backfillPendingRows env st = (Inr n, st1)" "cs_rows st1 = backfilled st" "cs_events st1 = cs_events st"
    by (rule backfill_ok [OF assms(1,3)])
  have dist: "distinct (map cr_id (backfilled st))"
    using backfill_outcome [OF assms(2), of env] b by (simp add: intents_inv_def)
  have fetch: "fetchUnresolvedRows env st1 = (Inr (fetched env (backfilled st)), st1\<lparr>cs_ticks := Suc (cs_ticks st1)\<rparr>)"
    by (simp add: fetchUnresolvedRows_def stmt_ok assms(1) fetched_def b(2))
  let ?acc = "\<lparr>ca_result = (no_result (cross_isAutoCorrectEnabled (cx_vars env)))\<lparr>backfilledRows := n\<rparr>, corrections = []\<rparr>"
  obtain acc st2 where r: "reconcile_rows env (cross_isAutoCorrectEnabled (cx_vars env)) (getStaleAttempts (cx_vars env)) (fetched env (backfilled st)) ?acc
        (st1\<lparr>cs_ticks := Suc (cs_ticks st1)\<rparr>) = (Inr acc, st2)"
      "states st2 = fold (\<lambda>row. set_state (cr_id row) (settled_state env (cs_events st) row)) (fetched env (backfilled st)) (states st1)"
    using reconcile_rows_ok [OF assms(1), of "cross_isAutoCorrectEnabled (cx_vars env)" "fetched env (backfilled st)" ?acc "st1\<lparr>cs_ticks := Suc (cs_ticks st1)\<rparr>"] b(3)
    by auto
  have "snd (cross_body env st) = snd (bind_act (correct_scores env (corrections acc)) (\<lambda>_. bind_act (alertStuckPartials env)
          (\<lambda>a. ret ((ca_result acc)\<lparr>correctedCount := length (corrections acc), alertedPartialCount := a\<rparr>))) st2)"
    by (simp add: cross_body_def bind_act_def [of "backfillPendingRows env"] bind_act_def [of "fetchUnresolvedRows env"]
        bind_act_def [of "reconcile_rows env a b c d" for a b c d] b(1) fetch r(1) Let_def)
  then have "states (snd (cross_body env st)) = states st2" by (simp only: states_tail)
  moreover have "states (snd (cross_run env st)) = states (snd (cross_body env st))"
    by (simp add: cross_run_def case_prod_beta split: sum.splits)
  ultimately have "states (snd (cross_run env st)) = states st2" by simp
  also have "\<dots> = map (\<lambda>r. (cr_id r, if r \<in> set (fetched env (backfilled st)) then settled_state env (cs_events st) r else cr_state r)) (backfilled st)"
    unfolding r(2) fold_set_state [OF distinct_fetched [OF dist]] states_def [of st1] b(2)
    by (simp add: map_of_fetched [OF dist])
  finally show ?thesis .
qed

definition demo_event :: "string \<Rightarrow> string \<Rightarrow> string \<Rightarrow> int \<Rightarrow> contract_event" where
  "demo_event i t amount l = \<lparr>ce_event_id = i, ce_event_type = t, ce_loan_id = Some 1, ce_address = Some ''GB'', ce_amount = Some amount,
     ce_ledger = l, ce_ledger_closed_at = 0, ce_tx_hash = ''tx'', ce_contract_id = ''C'', ce_topics = [], ce_value = [],
     ce_interest_rate_bps = None, ce_term_ledgers = None\<rparr>"

definition demo_cross :: "contract_event list \<Rightarrow> unit cross_state" where
  "demo_cross es = \<lparr>cs_rows = [], cs_next_id = 1, cs_events = es, cs_scores = (Map.empty, undefined), cs_metrics = Map.empty,
     cs_compensations = [], cs_ticks = 0\<rparr>"

definition demo_cross_env :: "unit cross_env" where
  "demo_cross_env = \<lparr>cx_vars = \<lparr>CROSS_RECONCILE_MAX_ROWS_PER_RUN = None, CROSS_RECONCILE_STALE_ATTEMPTS = None,
       CROSS_RECONCILE_AUTOCORRECT_ENABLED = None, CROSS_RECONCILE_PARTIAL_ALERT_MS = None\<rparr>,
     cx_redis = undefined, cx_clock = int, cx_fault = (\<lambda>_. None), getOnChainCreditScore = (\<lambda>_. None), cx_started = 0, cx_finished = 0\<rparr>"

lemma demo_repaid_fits: "row_error (demo_event ''e1'' ''LoanRepaid'' ''500'' 7) = None"
  by (simp add: row_error_def expected_delta_def demo_event_def stroops_of_def intent_key_def int4_def parseInt_def) code_simp


lemma demo_missing:
  "missing_events (demo_cross [demo_event ''e1'' ''LoanRepaid'' ''500'' 7]) = [demo_event ''e1'' ''LoanRepaid'' ''500'' 7]"
  by (simp add: missing_events_def demo_cross_def custody_event_def demo_event_def)

lemma demo_backfilled:
  "backfilled (demo_cross [demo_event ''e1'' ''LoanRepaid'' ''500'' 7]) = [new_row 1 (demo_event ''e1'' ''LoanRepaid'' ''500'' 7)]"
  by (simp add: backfilled_def demo_missing) (simp add: demo_cross_def)

lemma demo_settled:
  "settled_state demo_cross_env (cs_events (demo_cross [demo_event ''e1'' ''LoanRepaid'' ''500'' 7])) (new_row 1 (demo_event ''e1'' ''LoanRepaid'' ''500'' 7)) = ''pending''"
proof -
  have "expected_delta (demo_event ''e1'' ''LoanRepaid'' ''500'' 7) = 5" by (simp add: expected_delta_def demo_event_def stroops_of_def) code_simp
  then show ?thesis
    by (simp add: settled_state_def new_row_def demo_cross_def score_ledgers_def SCORE_EVENT_TYPES_def getStaleAttempts_def demo_cross_env_def
        parsePositiveInt_def parseInt_def demo_event_def)
qed

theorem run_settles_fetched_witness:
  "states (snd (cross_run demo_cross_env (demo_cross [demo_event ''e1'' ''LoanRepaid'' ''500'' 7]))) = [(1, ''pending'')]"
proof -
  let ?e = "demo_event ''e1'' ''LoanRepaid'' ''500'' 7"
  have f: "new_row 1 ?e \<in> set (fetched demo_cross_env [new_row 1 ?e])"
    by (simp add: fetched_def unresolved_def new_row_def getMaxRowsPerRun_def demo_cross_env_def parsePositiveInt_def parseInt_def)
  show ?thesis
    using run_settles_fetched [of demo_cross_env "demo_cross [?e]"] demo_repaid_fits demo_settled f
    by (simp add: demo_missing demo_backfilled List.map_filter_def) (simp add: demo_cross_env_def demo_cross_def intents_inv_def)
qed

subsection \<open>What keeps rows from being settled\<close>

text \<open>
  One repayment of at least 214748364800 stroops that names a borrower and has no row yet makes every run fail, whatever
  else it finds, and leaves all rows as they were: the expected change does not fit the column and the backfill is one statement.
\<close>

theorem large_repayment_blocks_runs:
  assumes "e \<in> set (cs_events st)" and "custody_event e" and "ce_event_type e = ''LoanRepaid''"
    and "214748364800 \<le> stroops_of (ce_amount e)" and "\<not> has_row e st"
  shows "\<exists>er. fst (cross_run env st) = Inl er \<and> cs_rows (snd (cross_run env st)) = cs_rows st"
proof -
  have "(214748364800 :: int) div 100 \<le> stroops_of (ce_amount e) div 100" using assms(4) by (rule zdiv_mono1) simp
  then have "row_error e \<noteq> None" using assms(3) by (simp add: row_error_def expected_delta_def int4_def)
  moreover have "e \<in> set (missing_events (st\<lparr>cs_ticks := cs_ticks st + 1\<rparr>))"
    using assms(1,2,5) by (simp add: missing_events_def has_row_def) (metis imageI)
  ultimately have "List.map_filter row_error (missing_events (st\<lparr>cs_ticks := cs_ticks st + 1\<rparr>)) \<noteq> []"
    by (auto simp: List.map_filter_def filter_empty_conv)
  then have "\<exists>er. backfillPendingRows env st = (Inl er, st\<lparr>cs_ticks := cs_ticks st + 1\<rparr>)"
    by (auto simp: backfillPendingRows_def stmt_def Let_def split: option.splits list.splits)
  then show ?thesis by (auto simp: cross_run_def cross_body_eq bind_act_def)
qed

theorem large_repayment_blocks_runs_witness:
  "\<exists>er. fst (cross_run demo_cross_env (demo_cross [demo_event ''e2'' ''LoanRepaid'' ''214748364800'' 9])) = Inl er"
proof -
  let ?e = "demo_event ''e2'' ''LoanRepaid'' ''214748364800'' 9"
  have "parseInt ''214748364800'' = Some 214748364800"
    by (simp add: parseInt_def string_to_nat_def js_space_def is_digit_def char_digit_def)
  then show ?thesis
    using large_repayment_blocks_runs [of ?e "demo_cross [?e]" demo_cross_env]
    by (auto simp: demo_cross_def demo_event_def custody_event_def has_row_def stroops_of_def)
qed

definition open_ids :: "(nat \<times> string) list \<Rightarrow> nat list" where
  "open_ids v = map fst (filter (\<lambda>p. snd p \<in> set [''pending'', ''half_applied'', ''PENDING'', ''PARTIAL'', ''failed'']) v)"

lemma unresolved_state: "unresolved r \<longleftrightarrow> cr_state r \<in> set [''pending'', ''half_applied'', ''PENDING'', ''PARTIAL'', ''failed'']"
  by (auto simp: unresolved_def)

lemma map_sort_ids: "map f (sort_key f xs) = sort (map f xs)" for f :: "'a \<Rightarrow> 'b :: linorder"
  by (rule properties_for_sort [symmetric]) simp_all

lemma fetched_ids:
  "map cr_id (fetched env rows) = take (nat (getMaxRowsPerRun (cx_vars env))) (sort (open_ids (map (\<lambda>r. (cr_id r, cr_state r)) rows)))"
  by (simp add: fetched_def take_map [symmetric] map_sort_ids open_ids_def filter_map comp_def unresolved_state [abs_def])

text \<open>
  A run that reconciles none of the rows it fetched leaves the next one with the same rows: failed rows are fetched again and again,
  and as long as the first ones up to the limit find no score event, no later row is ever looked at.
\<close>

theorem unreconciled_rows_are_fetched_again:
  assumes "cx_fault env = (\<lambda>_. None)" and "intents_inv st" and "List.map_filter row_error (missing_events st) = []"
    and "\<forall>r\<in>set (fetched env (backfilled st)). settled_state env (cs_events st) r \<noteq> ''reconciled''"
  shows "map cr_id (fetched env (cs_rows (snd (cross_run env st)))) = map cr_id (fetched env (backfilled st))"
proof -
  let ?rows = "backfilled st"
  have fetched_open: "unresolved r" if "r \<in> set (fetched env ?rows)" for r
    using that by (auto simp: fetched_def dest: in_set_takeD)
  have new_open: "settled_state env (cs_events st) r \<in> set [''pending'', ''half_applied'', ''PENDING'', ''PARTIAL'', ''failed'']"
      if "r \<in> set (fetched env ?rows)" for r
    using assms(4) that by (auto simp: settled_state_def split: if_splits)
  have "open_ids (states (snd (cross_run env st))) = open_ids (map (\<lambda>r. (cr_id r, cr_state r)) ?rows)"
  proof -
    have same: "open_ids (map (\<lambda>r. (cr_id r, g r)) rs) = open_ids (map (\<lambda>r. (cr_id r, cr_state r)) rs)"
      if "\<And>r. r \<in> set rs \<Longrightarrow> g r \<in> set [''pending'', ''half_applied'', ''PENDING'', ''PARTIAL'', ''failed''] \<longleftrightarrow> unresolved r" for g rs
      using that by (induction rs) (auto simp: open_ids_def unresolved_state)
    show ?thesis unfolding run_settles_fetched [OF assms(1-3)]
    proof (rule same)
      fix r
      show "(if r \<in> set (fetched env ?rows) then settled_state env (cs_events st) r else cr_state r)
          \<in> set [''pending'', ''half_applied'', ''PENDING'', ''PARTIAL'', ''failed''] \<longleftrightarrow> unresolved r"
      proof (cases "r \<in> set (fetched env ?rows)")
        case True
        with fetched_open [OF True] new_open [OF True] show ?thesis by (simp only: if_True)
      next
        case False
        then show ?thesis by (simp only: if_False unresolved_state)
      qed
    qed
  qed
  then show ?thesis unfolding fetched_ids states_def by simp
qed

theorem unreconciled_rows_are_fetched_again_witness:
  "map cr_id (fetched demo_cross_env (cs_rows (snd (cross_run demo_cross_env (demo_cross [demo_event ''e1'' ''LoanRepaid'' ''500'' 7])))))
   = map cr_id (fetched demo_cross_env (backfilled (demo_cross [demo_event ''e1'' ''LoanRepaid'' ''500'' 7])))"
proof (rule unreconciled_rows_are_fetched_again)
  let ?e = "demo_event ''e1'' ''LoanRepaid'' ''500'' 7"
  show "cx_fault demo_cross_env = (\<lambda>_. None)" "intents_inv (demo_cross [?e])"
    by (simp_all add: demo_cross_env_def demo_cross_def intents_inv_def)
  show "List.map_filter row_error (missing_events (demo_cross [?e])) = []"
    by (simp add: demo_missing demo_repaid_fits List.map_filter_def)
  show "\<forall>r\<in>set (fetched demo_cross_env (backfilled (demo_cross [?e]))). settled_state demo_cross_env (cs_events (demo_cross [?e])) r \<noteq> ''reconciled''"
    using demo_settled by (auto simp: demo_backfilled fetched_def dest: in_set_takeD split: if_splits)
qed

end
