(* ===== verification/Sanitize.thy ===== *)
theory Sanitize
  imports Json
begin

section \<open>HTML sanitising (\<open>utils/sanitize.ts\<close>)\<close>

text \<open>
  The regular expressions of \<open>sanitizeHtml\<close> as matchers at the start of a text, and the replacement of all their
  matches from left to right. Both are deterministic: a tag name ends where its letters and digits do, and
  every alternative of an attribute value after the first two matches. Shown: a tag
  that is not allowed is removed with all it holds, and which texts keep a tag or an attribute all the same.
\<close>

definition ALLOWED_TAGS :: "string list" where
  "ALLOWED_TAGS = [''b'', ''i'', ''em'', ''strong'', ''p'', ''br'', ''ul'', ''ol'', ''li'']"

definition letter :: "char \<Rightarrow> bool" where
  "letter c \<longleftrightarrow> (let n = (of_char c :: nat) in 65 \<le> n \<and> n \<le> 90 \<or> 97 \<le> n \<and> n \<le> 122)"

definition alnum :: "char \<Rightarrow> bool" where
  "alnum c \<longleftrightarrow> letter c \<or> is_digit c"

definition lower_char :: "char \<Rightarrow> char" where
  "lower_char c = (let n = (of_char c :: nat) in if 65 \<le> n \<and> n \<le> 90 then char_of (n + 32) else c)"

text \<open>\<open>TAG_RE\<close> after the \<open><\<close>: the matched text behind it, the tag name, and what follows the match.\<close>

definition tag_rest :: "string \<Rightarrow> (string \<times> string \<times> string) option" where
  "tag_rest s =
     (let (slash, s1) = (case s of c # cs \<Rightarrow> if c = CHR ''/'' then (''/'', cs) else ([], s) | [] \<Rightarrow> ([], s));
          name = takeWhile alnum s1; s2 = dropWhile alnum s1;
          body = takeWhile (\<lambda>c. c \<noteq> CHR ''>'') s2; s3 = dropWhile (\<lambda>c. c \<noteq> CHR ''>'') s2
      in if name = [] \<or> \<not> letter (hd name) then None
         else if s2 \<noteq> [] \<and> hd s2 = CHR ''_'' then None
         else if s3 = [] then None
         else Some (slash @ name @ body @ ''>'', name, tl s3))"

text \<open>\<open>ATTR_RE\<close>: how long a match at the start is.\<close>

definition attr_value :: "string \<Rightarrow> nat" where
  "attr_value s =
     (case s of
        c # cs \<Rightarrow>
          if (c = CHR 0x22 \<or> c = CHR 0x27) \<and> c \<in> set cs then length (takeWhile (\<lambda>d. d \<noteq> c) cs) + 2
          else length (takeWhile (\<lambda>d. \<not> js_space d \<and> d \<noteq> CHR ''>'') s)
      | [] \<Rightarrow> 0)"

definition attr_len :: "string \<Rightarrow> nat option" where
  "attr_len s =
     (let ws = length (takeWhile js_space s); s1 = drop ws s;
          nm = length (takeWhile (\<lambda>c. letter c \<or> c = CHR ''-'') s1); s2 = drop nm s1;
          ws2 = length (takeWhile js_space s2); s3 = drop ws2 s2
      in if ws = 0 \<or> nm = 0 then None
         else if s3 = [] \<or> hd s3 \<noteq> CHR ''='' then Some (ws + nm)
         else (let ws3 = length (takeWhile js_space (tl s3))
               in Some (ws + nm + ws2 + 1 + ws3 + attr_value (drop ws3 (tl s3)))))"

function strip_attrs :: "string \<Rightarrow> string" where
  "strip_attrs s =
     (case s of
        [] \<Rightarrow> []
      | c # cs \<Rightarrow> (case attr_len s of Some n \<Rightarrow> if n = 0 then c # strip_attrs cs else strip_attrs (drop n s) | None \<Rightarrow> c # strip_attrs cs))"
  by pat_completeness auto
termination
  by (relation "measure length") auto

declare strip_attrs.simps [simp del]

definition rtrim :: "string \<Rightarrow> string" where
  "rtrim s = rev (dropWhile js_space (rev s))"

definition clean_tag :: "string \<Rightarrow> string \<Rightarrow> string" where
  "clean_tag match tagName =
     (if map lower_char tagName \<notin> set ALLOWED_TAGS then []
      else (let selfClosing = drop (length match - 2) match = ''/>'' \<and> 2 \<le> length match;
                cleaned = rtrim (strip_attrs match)
            in if selfClosing then butlast cleaned @ '' />'' else cleaned))"

lemma tag_rest_shorter: "tag_rest cs = Some (m, tagName, rest) \<Longrightarrow> length rest < Suc (length cs)"
proof -
  assume rest: "tag_rest cs = Some (m, tagName, rest)"
  have "length (tl (dropWhile P (dropWhile Q s))) \<le> length s" for P Q and s :: string
  proof -
    have "length (dropWhile P (dropWhile Q s)) \<le> length s" using length_dropWhile_le [of P "dropWhile Q s"] length_dropWhile_le [of Q s] by linarith
    then show ?thesis by simp
  qed
  then show ?thesis
    using rest by (auto simp: tag_rest_def Let_def le_imp_less_Suc le_SucI split: if_splits list.splits)
qed

function stripDisallowed :: "string \<Rightarrow> string" where
  "stripDisallowed html =
     (case html of
        [] \<Rightarrow> []
      | c # cs \<Rightarrow>
          if c \<noteq> CHR ''<'' then c # stripDisallowed cs
          else (case tag_rest cs of
                  None \<Rightarrow> c # stripDisallowed cs
                | Some (m, tagName, rest) \<Rightarrow> clean_tag (CHR ''<'' # m) tagName @ stripDisallowed rest))"
  by pat_completeness auto
termination
  by (relation "measure length") (auto dest: tag_rest_shorter)

declare stripDisallowed.simps [simp del]

definition sanitizeHtml :: "string \<Rightarrow> string" where
  "sanitizeHtml input = (if input = [] then input else stripDisallowed input)"

subsection \<open>What is removed and what is not\<close>

lemma stripDisallowed_text: "CHR ''<'' \<notin> set t \<Longrightarrow> stripDisallowed (t @ s) = t @ stripDisallowed s"
  by (induction t) (auto simp: stripDisallowed.simps [of "_ # _"])

lemma takeWhile_all_then: "\<forall>c\<in>set a. P c \<Longrightarrow> \<not> P x \<Longrightarrow> takeWhile P (a @ x # b) = a" "\<forall>c\<in>set a. P c \<Longrightarrow> \<not> P x \<Longrightarrow> dropWhile P (a @ x # b) = x # b"
  by (induction a) auto

lemma tag_rest_plain:
  assumes "name \<noteq> []" "letter (hd name)" "\<forall>c\<in>set name. alnum c" "CHR ''>'' \<notin> set body" "body = [] \<or> \<not> alnum (hd body) \<and> hd body \<noteq> CHR ''_''"
  shows "tag_rest (name @ body @ CHR ''>'' # s) = Some (name @ body @ ''>'', name, s)"
proof -
  obtain x y where xy: "body @ CHR ''>'' # s = x # y" "\<not> alnum x" "x \<noteq> CHR ''_''"
    using assms(5) by (cases body) (auto simp: alnum_def letter_def is_digit_def)
  have n: "takeWhile alnum (name @ body @ CHR ''>'' # s) = name" "dropWhile alnum (name @ body @ CHR ''>'' # s) = body @ CHR ''>'' # s"
    unfolding xy(1) using takeWhile_all_then [OF assms(3) xy(2)] by auto
  have b: "takeWhile (\<lambda>c. c \<noteq> CHR ''>'') (body @ CHR ''>'' # s) = body" "dropWhile (\<lambda>c. c \<noteq> CHR ''>'') (body @ CHR ''>'' # s) = CHR ''>'' # s"
    using assms(4) by (auto intro!: takeWhile_all_then)
  have "hd name \<noteq> CHR ''/''" using assms(2) by (auto simp: letter_def)
  then show ?thesis using assms(1,2) n b xy by (cases name) (auto simp: tag_rest_def Let_def)
qed

text \<open>
  A tag whose name is not allowed is removed with all it holds and the text before it, which has no \<open><\<close>, is kept; what follows is
  sanitised on its own.
\<close>

theorem disallowed_tag_removed:
  assumes "CHR ''<'' \<notin> set t" and "name \<noteq> []" "letter (hd name)" "\<forall>c\<in>set name. alnum c" "map lower_char name \<notin> set ALLOWED_TAGS"
    and "CHR ''>'' \<notin> set body" "body = [] \<or> \<not> alnum (hd body) \<and> hd body \<noteq> CHR ''_''"
  shows "sanitizeHtml (t @ ''<'' @ name @ body @ ''>'' @ s) = t @ sanitizeHtml s"
proof -
  have "stripDisallowed (''<'' @ name @ body @ ''>'' @ s) = stripDisallowed s"
    using tag_rest_plain [OF assms(2-4,6,7), of s] assms(5) by (simp add: stripDisallowed.simps [of "_ # _"] clean_tag_def)
  moreover have "sanitizeHtml u = stripDisallowed u" for u by (cases u) (simp_all add: sanitizeHtml_def stripDisallowed.simps)
  ultimately show ?thesis using stripDisallowed_text [OF assms(1), of "''<'' @ name @ body @ ''>'' @ s"] by simp
qed

theorem disallowed_tag_removed_witness: "sanitizeHtml ''hi <script src=x>there'' = ''hi there''"
proof -
  have "map lower_char ''script'' \<notin> set ALLOWED_TAGS" "\<forall>c\<in>set ''script''. alnum c" by code_simp+
  moreover have "sanitizeHtml ''there'' = ''there''" by code_simp
  ultimately show ?thesis
    using disallowed_tag_removed [of "''hi ''" "''script''" "'' src=x''" "''there''"]
    by (simp add: letter_def alnum_def is_digit_def)
qed

text \<open>
  Sanitised text may still hold a script tag, a frame with a source, or a handler: a removed tag can complete the one around it, a removed
  attribute can join a tag name with what follows, and an attribute set off by a slash is none for the expression.
\<close>

theorem sanitised_text_may_hold_scripts:
  "sanitizeHtml ''<<script>script>'' = ''<script>''
   \<and> sanitizeHtml (''<i x='' @ [CHR 0x22, CHR 0x22] @ ''frame/src=javascript:alert(1)>'') = ''<iframe/src=javascript:alert(1)>''
   \<and> sanitizeHtml ''<b/onclick=alert(1)>'' = ''<b/onclick=alert(1)>''"
  by code_simp

end
