(* ===== verification/Disputes.thy ===== *)
theory Disputes
  imports AppErrors Sanitize EventDecode
begin

section \<open>Disputes of defaults (\<open>controllers/adminDisputeController.ts\<close>, \<open>loanController.contestDefault\<close>)\<close>

text \<open>
  A borrower contests a default, an administrator resolves or rejects the dispute. Nothing is a transaction: every
  statement is its own, and the environment says which fail. An event a handler writes has no id, ledger or
  transaction; whether \<open>contract_events\<close> takes it is part of the environment, and under the constraints of
  the migrations it does not. Shown: a dispute is decided once and keeps its decision, and what happens to a
  decision whose event is refused.
\<close>

subsection \<open>State\<close>

record dispute =
  dp_id :: nat
  dp_loan_id :: int
  dp_borrower :: string
  dp_reason :: string
  dp_status :: string
  dp_admin_note :: "string option"
  dp_resolution :: "string option"
  dp_resolved_at :: "int option"

record written_event =
  we_loan_id :: int
  we_address :: string
  we_event_type :: string

record dispute_db =
  dd_disputes :: "dispute list"
  dd_next_id :: nat
  dd_indexed :: "contract_event list"
  dd_written :: "written_event list"
  dd_notified :: "(string \<times> string \<times> string) list"
  dd_admin_notices :: "string list"

record dispute_env =
  dv_now :: int
  dv_fault :: "nat \<Rightarrow> db_error option"
  dv_nullable :: bool
  dv_loan_number :: "string \<Rightarrow> int option"
  dv_notified :: bool
  dv_admin_mailed :: bool

text \<open>Statement \<open>k\<close> of a handler, and the insert of an event without the columns the migrations require.\<close>

definition statement :: "dispute_env \<Rightarrow> nat \<Rightarrow> 'a \<Rightarrow> thrown + 'a" where
  "statement env k x = (case dv_fault env k of Some e \<Rightarrow> Inl (Unexpected (db_code e) []) | None \<Rightarrow> Inr x)"

definition write_event :: "dispute_env \<Rightarrow> nat \<Rightarrow> int \<Rightarrow> string \<Rightarrow> string \<Rightarrow> dispute_db \<Rightarrow> thrown + dispute_db" where
  "write_event env k loan address t db =
     try_then (statement env k ()) (\<lambda>_.
       if dv_nullable env
       then Inr (db\<lparr>dd_written := dd_written db @ [\<lparr>we_loan_id = loan, we_address = address, we_event_type = t\<rparr>]\<rparr>)
       else Inl (Unexpected ''23502'' []))"

subsection \<open>Contesting\<close>

definition text_between :: "nat \<Rightarrow> nat \<Rightarrow> string \<Rightarrow> bool" where
  "text_between lo hi s \<longleftrightarrow> lo \<le> length s \<and> length s \<le> hi"

definition zod_refused :: thrown where
  "zod_refused = ZodError []"

definition contestDefault ::
  "dispute_env \<Rightarrow> string option \<Rightarrow> string \<Rightarrow> string \<Rightarrow> dispute_db \<Rightarrow> (thrown + nat) \<times> dispute_db" where
  "contestDefault env user loanId reason db =
     (if \<not> text_between 5 500 reason then (Inl zod_refused, db)
      else case truthy_text user of
          None \<Rightarrow> (Inl (App (unauthorized ''Authentication required'' None)), db)
        | Some borrower \<Rightarrow>
            (case try_then (statement env 0 ()) (\<lambda>_. case dv_loan_number env loanId of None \<Rightarrow> Inl (Unexpected ''22P02'' []) | Some n \<Rightarrow> Inr n) of
               Inl e \<Rightarrow> (Inl e, db)
             | Inr n \<Rightarrow>
                 if \<not> (\<exists>e\<in>set (dd_indexed db). ce_loan_id e = Some n \<and> ce_event_type e = ''LoanDefaulted'')
                 then (Inl (App (badRequest ''Loan is not defaulted or does not exist'' None None)), db)
                 else (case statement env 1 () of
                         Inl e \<Rightarrow> (Inl e, db)
                       | Inr _ \<Rightarrow>
                           (let i = dd_next_id db;
                                d = \<lparr>dp_id = i, dp_loan_id = n, dp_borrower = borrower, dp_reason = sanitizeHtml reason, dp_status = ''open'',
                                     dp_admin_note = None, dp_resolution = None, dp_resolved_at = None\<rparr>;
                                db1 = db\<lparr>dd_disputes := dd_disputes db @ [d], dd_next_id := i + 1\<rparr>
                            in case write_event env 2 n borrower ''LoanDisputed'' db1 of
                                 Inl e \<Rightarrow> (Inl e, db1)
                               | Inr db2 \<Rightarrow>
                                   if dv_admin_mailed env
                                   then (Inr i, db2\<lparr>dd_admin_notices := dd_admin_notices db2 @
                                     [''Borrower '' @ borrower @ '' has contested the default on loan #'' @ loanId @ ''. Reason: '' @ sanitizeHtml reason]\<rparr>)
                                   else (Inl (Unexpected ''mail'' []), db2)))))"

subsection \<open>Deciding\<close>

datatype DisputeAction = Uphold | Overturn | Settle | Confirm | Reverse

definition disputeId_of :: "string \<Rightarrow> thrown + nat" where
  "disputeId_of s =
     (if s = [] \<or> \<not> list_all is_digit s \<or> string_to_nat s = 0 then Inl zod_refused
      else if int4 (int (string_to_nat s)) then Inr (string_to_nat s) else Inl (Unexpected ''22003'' []))"

definition open_dispute :: "nat \<Rightarrow> dispute_db \<Rightarrow> dispute option" where
  "open_dispute i db = find (\<lambda>d. dp_id d = i \<and> dp_status d = ''open'') (dd_disputes db)"

definition update_dispute :: "nat \<Rightarrow> (dispute \<Rightarrow> dispute) \<Rightarrow> dispute_db \<Rightarrow> dispute_db" where
  "update_dispute i f db = db\<lparr>dd_disputes := map (\<lambda>d. if dp_id d = i then f d else d) (dd_disputes db)\<rparr>"

definition notify_borrower :: "dispute_env \<Rightarrow> dispute \<Rightarrow> string \<Rightarrow> string \<Rightarrow> dispute_db \<Rightarrow> dispute_db" where
  "notify_borrower env d t message db =
     (if dv_notified env then db\<lparr>dd_notified := dd_notified db @ [(dp_borrower d, t, message)]\<rparr> else db)"

definition resolveLoanDispute ::
  "dispute_env \<Rightarrow> string \<Rightarrow> DisputeAction \<Rightarrow> string \<Rightarrow> string option \<Rightarrow> dispute_db \<Rightarrow> (thrown + unit) \<times> dispute_db" where
  "resolveLoanDispute env disputeId action resolution adminNote db =
     (case disputeId_of disputeId of
        Inl e \<Rightarrow> (Inl e, db)
      | Inr i \<Rightarrow>
          if \<not> text_between 5 1000 resolution \<or> (case adminNote of None \<Rightarrow> False | Some s \<Rightarrow> 500 < length s) then (Inl zod_refused, db)
          else case try_then (statement env 0 ()) (\<lambda>_. case open_dispute i db of
                   None \<Rightarrow> Inl (App (notFound ''Dispute not found or already resolved'' None None)) | Some d \<Rightarrow> Inr d) of
              Inl e \<Rightarrow> (Inl e, db)
            | Inr d \<Rightarrow>
                (case statement env 1 () of
                   Inl e \<Rightarrow> (Inl e, db)
                 | Inr _ \<Rightarrow>
                     (let db1 = update_dispute i (\<lambda>d. d\<lparr>dp_status := ''resolved'', dp_resolution := Some resolution,
                            dp_admin_note := truthy_text adminNote, dp_resolved_at := Some (dv_now env)\<rparr>) db;
                          reversed = (action = Reverse \<or> action = Overturn \<or> action = Settle)
                      in case write_event env 2 (dp_loan_id d) (dp_borrower d) (if reversed then ''DefaultReversed'' else ''DefaultConfirmed'') db1 of
                           Inl e \<Rightarrow> (Inl e, db1)
                         | Inr db2 \<Rightarrow>
                             (Inr (), notify_borrower env d (if reversed then ''repayment_confirmed'' else ''loan_defaulted'')
                                (''Your dispute for loan '' @ int_to_string (dp_loan_id d) @ '' has been resolved: '' @ resolution) db2))))"

definition rejectLoanDispute ::
  "dispute_env \<Rightarrow> string \<Rightarrow> string option \<Rightarrow> string option \<Rightarrow> dispute_db \<Rightarrow> (thrown + unit) \<times> dispute_db" where
  "rejectLoanDispute env disputeId note note2 db =
     (case disputeId_of disputeId of
        Inl e \<Rightarrow> (Inl e, db)
      | Inr i \<Rightarrow>
          if \<exists>s\<in>set (List.map_filter id [note, note2]). 500 < length s then (Inl zod_refused, db)
          else case try_then (statement env 0 ()) (\<lambda>_. case open_dispute i db of
                   None \<Rightarrow> Inl (App (notFound ''Dispute not found or already processed'' None None)) | Some d \<Rightarrow> Inr d) of
              Inl e \<Rightarrow> (Inl e, db)
            | Inr d \<Rightarrow>
                (case statement env 1 () of
                   Inl e \<Rightarrow> (Inl e, db)
                 | Inr _ \<Rightarrow>
                     (let admin_note = (case note of None \<Rightarrow> note2 | Some s \<Rightarrow> Some s);
                          msg = ''Your dispute for loan '' @ int_to_string (dp_loan_id d) @ '' was rejected by admin.'';
                          db1 = update_dispute i (\<lambda>d. d\<lparr>dp_status := ''rejected'',
                            dp_resolution := Some (case admin_note of None \<Rightarrow> ''rejected by admin'' | Some s \<Rightarrow> s), dp_resolved_at := Some (dv_now env)\<rparr>) db
                      in (Inr (), notify_borrower env d ''loan_defaulted''
                            (case truthy_text admin_note of None \<Rightarrow> msg | Some s \<Rightarrow> msg @ '' Note: '' @ s) db1))))"

subsection \<open>The listing\<close>

definition dispute_status_filter :: "string \<Rightarrow> string" where
  "dispute_status_filter s = (if s = ''pending'' then ''open'' else if s = ''dismissed'' then ''rejected'' else s)"

text \<open>The text of the page query, as far as its conditions: the table's name and the first condition are joined as they are.\<close>

definition dispute_page_text :: "string \<Rightarrow> string" where
  "dispute_page_text status =
     ''SELECT * FROM loan_disputes'' @
     (if dispute_status_filter status \<noteq> ''all'' then ''WHERE status = $1 AND seq <= $2'' else '' WHERE seq <= $1'')"

subsection \<open>Requests\<close>

inductive dispute_step :: "dispute_db \<Rightarrow> dispute_db \<Rightarrow> bool" where
  contest: "dispute_step db (snd (contestDefault env user loanId reason db))"
| resolve: "dispute_step db (snd (resolveLoanDispute env i action resolution note db))"
| reject: "dispute_step db (snd (rejectLoanDispute env i note note2 db))"
| index: "dispute_step db (db\<lparr>dd_indexed := dd_indexed db @ es\<rparr>)"

subsection \<open>Decisions\<close>

definition dispute_ok :: "dispute \<Rightarrow> bool" where
  "dispute_ok d \<longleftrightarrow> (dp_status d = ''open'' \<and> dp_resolution d = None \<and> dp_resolved_at d = None
     \<or> dp_status d \<in> {''resolved'', ''rejected''} \<and> dp_resolution d \<noteq> None \<and> dp_resolved_at d \<noteq> None)"

definition disputes_inv :: "dispute_db \<Rightarrow> bool" where
  "disputes_inv db \<longleftrightarrow> distinct (map dp_id (dd_disputes db)) \<and> list_all (\<lambda>d. dp_id d < dd_next_id db \<and> dispute_ok d) (dd_disputes db)"

text \<open>What a request does to the disputes: nothing, one more that is open, or a decision of an open one.\<close>

definition disputes_step :: "dispute_db \<Rightarrow> dispute_db \<Rightarrow> bool" where
  "disputes_step db db' \<longleftrightarrow>
     dd_disputes db' = dd_disputes db \<and> dd_next_id db' = dd_next_id db
     \<or> (\<exists>d. dd_disputes db' = dd_disputes db @ [d] \<and> dp_id d = dd_next_id db \<and> dd_next_id db' = dd_next_id db + 1
          \<and> dp_status d = ''open'' \<and> dp_resolution d = None \<and> dp_resolved_at d = None)
     \<or> (\<exists>i d f. find (\<lambda>d. dp_id d = i \<and> dp_status d = ''open'') (dd_disputes db) = Some d \<and> dd_next_id db' = dd_next_id db
          \<and> dd_disputes db' = map (\<lambda>d. if dp_id d = i then f d else d) (dd_disputes db)
          \<and> (\<forall>d. dp_id (f d) = dp_id d \<and> dp_status (f d) \<in> {''resolved'', ''rejected''} \<and> dp_resolution (f d) \<noteq> None \<and> dp_resolved_at (f d) \<noteq> None))"

lemma write_event_disputes: "write_event env k l a t db = Inr db' \<Longrightarrow> dd_disputes db' = dd_disputes db \<and> dd_next_id db' = dd_next_id db"
  by (auto simp: write_event_def statement_def try_then_def split: option.splits if_splits)

lemma notify_disputes [simp]: "dd_disputes (notify_borrower env d t m db) = dd_disputes db" "dd_next_id (notify_borrower env d t m db) = dd_next_id db"
  by (simp_all add: notify_borrower_def)

lemma contest_disputes: "disputes_step db (snd (contestDefault env user loanId reason db))"
  by (auto simp: contestDefault_def disputes_step_def Let_def dest!: write_event_disputes split: option.splits sum.splits)

lemma decision_disputes:
  assumes "open_dispute i db = Some d" and "\<forall>d. dp_id (f d) = dp_id d \<and> dp_status (f d) \<in> {''resolved'', ''rejected''} \<and> dp_resolution (f d) \<noteq> None \<and> dp_resolved_at (f d) \<noteq> None"
    and "dd_disputes db' = dd_disputes (update_dispute i f db)" "dd_next_id db' = dd_next_id (update_dispute i f db)"
  shows "disputes_step db db'"
  unfolding disputes_step_def using assms by (auto simp: open_dispute_def update_dispute_def)

lemma resolve_disputes: "disputes_step db (snd (resolveLoanDispute env i action resolution note db))"
proof (cases "disputeId_of i")
  case (Inr n)
  show ?thesis
  proof (cases "open_dispute n db")
    case (Some d)
    show ?thesis
      using Inr Some decision_disputes [OF Some, where f = "\<lambda>d. d\<lparr>dp_status := ''resolved'', dp_resolution := Some resolution,
                            dp_admin_note := truthy_text note, dp_resolved_at := Some (dv_now env)\<rparr>"]
      by (auto simp: resolveLoanDispute_def disputes_step_def [of db db] try_then_def statement_def Let_def
          dest!: write_event_disputes split: option.splits sum.splits if_splits)
  qed (auto simp: resolveLoanDispute_def disputes_step_def Inr try_then_def statement_def split: option.splits)
qed (simp add: resolveLoanDispute_def disputes_step_def)

lemma reject_disputes: "disputes_step db (snd (rejectLoanDispute env i note note2 db))"
proof (cases "disputeId_of i")
  case (Inr n)
  show ?thesis
  proof (cases "open_dispute n db")
    case (Some d)
    show ?thesis
      using Inr Some decision_disputes [OF Some, where f = "\<lambda>d. d\<lparr>dp_status := ''rejected'',
          dp_resolution := Some (case (case note of None \<Rightarrow> note2 | Some s \<Rightarrow> Some s) of None \<Rightarrow> ''rejected by admin'' | Some s \<Rightarrow> s),
          dp_resolved_at := Some (dv_now env)\<rparr>"]
      by (auto simp: rejectLoanDispute_def disputes_step_def [of db db] try_then_def statement_def Let_def
          split: option.splits sum.splits if_splits)
  qed (auto simp: rejectLoanDispute_def disputes_step_def Inr try_then_def statement_def split: option.splits)
qed (simp add: rejectLoanDispute_def disputes_step_def)

lemma update_closes:
  "(\<And>d. dp_status (f d) \<noteq> ''open'') \<Longrightarrow>
   find (\<lambda>d. dp_id d = n \<and> dp_status d = ''open'') (map (\<lambda>d. if dp_id d = n then f d else d) ds) = None"
  by (induction ds) auto

lemma index_disputes: "disputes_step db (db\<lparr>dd_indexed := es\<rparr>)"
  by (simp add: disputes_step_def)

lemma dispute_step_effect: "dispute_step db db' \<Longrightarrow> disputes_step db db'"
  by (erule dispute_step.cases) (simp_all only: contest_disputes resolve_disputes reject_disputes index_disputes)

lemma disputes_step_inv:
  assumes "disputes_inv db" and "disputes_step db db'"
  shows "disputes_inv db' \<and> (\<forall>d\<in>set (dd_disputes db). dp_status d \<noteq> ''open'' \<longrightarrow> d \<in> set (dd_disputes db'))"
  using assms(2) unfolding disputes_step_def
proof (elim disjE exE conjE)
  fix i d f
  assume f: "find (\<lambda>d. dp_id d = i \<and> dp_status d = ''open'') (dd_disputes db) = Some d" "dd_next_id db' = dd_next_id db"
    and m: "dd_disputes db' = map (\<lambda>d. if dp_id d = i then f d else d) (dd_disputes db)"
    and fs: "\<forall>d. dp_id (f d) = dp_id d \<and> dp_status (f d) \<in> {''resolved'', ''rejected''} \<and> dp_resolution (f d) \<noteq> None \<and> dp_resolved_at (f d) \<noteq> None"
  have d: "d \<in> set (dd_disputes db)" "dp_id d = i" "dp_status d = ''open''" using f(1) by (auto simp: find_Some_iff)
  have ids: "map dp_id (dd_disputes db') = map dp_id (dd_disputes db)" using fs by (simp add: m)
  have new: "dp_id (f x) = dp_id x" "dispute_ok (f x)" for x using fs by (simp_all add: dispute_ok_def)
  have "disputes_inv db'"
    using assms(1) new unfolding disputes_inv_def ids f(2) by (auto simp: m list_all_iff)
  moreover have "x \<in> set (dd_disputes db')" if "x \<in> set (dd_disputes db)" "dp_status x \<noteq> ''open''" for x
  proof -
    have "inj_on dp_id (set (dd_disputes db))" using assms(1) by (simp add: disputes_inv_def distinct_map)
    then have "dp_id x \<noteq> i" using that d by (metis inj_onD)
    then show ?thesis using that by (force simp: m)
  qed
  ultimately show ?thesis by blast
qed (use assms(1) in \<open>auto simp: disputes_inv_def dispute_ok_def list_all_iff less_Suc_eq\<close>)

text \<open>
  Whatever requests come and whichever of their statements fail, a dispute that has been decided keeps its decision, its note and
  its time; ids stay unique, and a dispute has a decision exactly when it is not open.
\<close>

theorem decided_dispute_is_final:
  assumes "disputes_inv db" and "dispute_step\<^sup>*\<^sup>* db db'"
  shows "disputes_inv db' \<and> (\<forall>d\<in>set (dd_disputes db). dp_status d \<noteq> ''open'' \<longrightarrow> d \<in> set (dd_disputes db'))"
  using assms(2)
proof (induction rule: rtranclp_induct)
  case (step y z)
  then show ?case using disputes_step_inv [of y z] dispute_step_effect [of y z] by blast
qed (use assms(1) in simp)

text \<open>
  Under the constraints of the migrations a resolution is stored and its consequences are lost: the request answers an error, no event
  marks the loan, the borrower hears nothing, and the dispute is no longer open, so that it cannot be resolved again.
\<close>

theorem resolution_lost_on_migrated_schema:
  assumes "\<not> dv_nullable env" and "dv_fault env = (\<lambda>_. None)" and "disputes_inv db"
    and "disputeId_of i = Inr n" and "open_dispute n db = Some d" and "text_between 5 1000 resolution"
  shows "\<exists>db'. resolveLoanDispute env i action resolution None db = (Inl (Unexpected ''23502'' []), db')
    \<and> dd_written db' = dd_written db \<and> dd_notified db' = dd_notified db \<and> open_dispute n db' = None"
proof -
  let ?f = "\<lambda>d. d\<lparr>dp_status := ''resolved'', dp_resolution := Some resolution, dp_admin_note := truthy_text None, dp_resolved_at := Some (dv_now env)\<rparr>"
  have "resolveLoanDispute env i action resolution None db = (Inl (Unexpected ''23502'' []), update_dispute n ?f db)"
    using assms by (simp add: resolveLoanDispute_def statement_def try_then_def write_event_def Let_def)
  moreover have "open_dispute n (update_dispute n ?f db) = None"
    unfolding open_dispute_def update_dispute_def by (simp add: update_closes)
  ultimately show ?thesis by (simp add: update_dispute_def)
qed

text \<open>
  Under the same constraints contesting a default answers an error although the dispute is stored; trying again stores another one.
\<close>

theorem contest_stored_and_refused_on_migrated_schema:
  assumes "\<not> dv_nullable env" and "dv_fault env = (\<lambda>_. None)" and "text_between 5 500 reason" and "borrower \<noteq> []"
    and "dv_loan_number env loanId = Some n" and "e \<in> set (dd_indexed db)" "ce_loan_id e = Some n" "ce_event_type e = ''LoanDefaulted''"
  shows "\<exists>db'. contestDefault env (Some borrower) loanId reason db = (Inl (Unexpected ''23502'' []), db')
    \<and> length (dd_disputes db') = length (dd_disputes db) + 1 \<and> dd_admin_notices db' = dd_admin_notices db"
  using assms by (auto simp: contestDefault_def statement_def try_then_def write_event_def truthy_text_def Let_def)

text \<open>
  Where the table takes the event, resolving an open dispute stores the decision, writes one event that confirms or reverses the
  default, and answers; the same request then finds no open dispute.
\<close>

theorem resolution_takes_effect:
  assumes "dv_nullable env" and "dv_fault env = (\<lambda>_. None)" and "disputes_inv db"
    and "disputeId_of i = Inr n" and "open_dispute n db = Some d" and "text_between 5 1000 resolution"
  shows "\<exists>db'. resolveLoanDispute env i action resolution None db = (Inr (), db')
    \<and> dd_written db' = dd_written db @ [\<lparr>we_loan_id = dp_loan_id d, we_address = dp_borrower d,
         we_event_type = (if action \<in> {Reverse, Overturn, Settle} then ''DefaultReversed'' else ''DefaultConfirmed'')\<rparr>]
    \<and> resolveLoanDispute env i action resolution None db' = (Inl (App (notFound ''Dispute not found or already resolved'' None None)), db')"
proof -
  let ?f = "\<lambda>d. d\<lparr>dp_status := ''resolved'', dp_resolution := Some resolution, dp_admin_note := truthy_text None, dp_resolved_at := Some (dv_now env)\<rparr>"
  obtain db' where r: "resolveLoanDispute env i action resolution None db = (Inr (), db')" "dd_disputes db' = dd_disputes (update_dispute n ?f db)"
      "dd_written db' = dd_written db @ [\<lparr>we_loan_id = dp_loan_id d, we_address = dp_borrower d,
         we_event_type = (if action \<in> {Reverse, Overturn, Settle} then ''DefaultReversed'' else ''DefaultConfirmed'')\<rparr>]"
    using assms by (simp add: resolveLoanDispute_def statement_def try_then_def write_event_def notify_borrower_def update_dispute_def Let_def)
  have "open_dispute n db' = None"
    unfolding open_dispute_def r(2) update_dispute_def by (simp add: update_closes)
  then have "resolveLoanDispute env i action resolution None db' = (Inl (App (notFound ''Dispute not found or already resolved'' None None)), db')"
    using assms(2,4,6) by (simp add: resolveLoanDispute_def statement_def try_then_def)
  then show ?thesis using r by blast
qed

text \<open>
  The page query of every listing but the one of all disputes joins the table's name with the word that follows it.
\<close>

theorem dispute_listing_joins_words:
  "take 31 (dispute_page_text status) = ''SELECT * FROM loan_disputesWHER'' \<longleftrightarrow> dispute_status_filter status \<noteq> ''all''"
  by (simp add: dispute_page_text_def)

subsection \<open>Witnesses\<close>

definition demo_dispute :: dispute where
  "demo_dispute = \<lparr>dp_id = 1, dp_loan_id = 7, dp_borrower = ''GB'', dp_reason = ''wrong'', dp_status = ''open'', dp_admin_note = None,
     dp_resolution = None, dp_resolved_at = None\<rparr>"

definition defaulted_event :: contract_event where
  "defaulted_event = \<lparr>ce_event_id = ''e'', ce_event_type = ''LoanDefaulted'', ce_loan_id = Some 7, ce_address = Some ''GB'', ce_amount = None,
     ce_ledger = 1, ce_ledger_closed_at = 0, ce_tx_hash = ''tx'', ce_contract_id = ''C'', ce_topics = [], ce_value = [],
     ce_interest_rate_bps = None, ce_term_ledgers = None\<rparr>"

definition demo_disputes :: dispute_db where
  "demo_disputes = \<lparr>dd_disputes = [demo_dispute], dd_next_id = 2, dd_indexed = [defaulted_event], dd_written = [], dd_notified = [], dd_admin_notices = []\<rparr>"

definition dispute_env_of :: "bool \<Rightarrow> dispute_env" where
  "dispute_env_of nullable = \<lparr>dv_now = 9, dv_fault = (\<lambda>_. None), dv_nullable = nullable, dv_loan_number = (\<lambda>_. Some 7), dv_notified = True, dv_admin_mailed = True\<rparr>"

lemma demo_disputes_facts:
  "disputes_inv demo_disputes" "disputeId_of ''1'' = Inr 1" "open_dispute 1 demo_disputes = Some demo_dispute" "text_between 5 1000 ''reversed''"
  by (simp_all add: disputes_inv_def dispute_ok_def demo_disputes_def demo_dispute_def disputeId_of_def is_digit_def string_to_nat_def char_digit_def int4_def
      open_dispute_def text_between_def)

theorem decided_dispute_is_final_witness:
  "disputes_inv (snd (rejectLoanDispute (dispute_env_of True) ''1'' None None demo_disputes))"
  using decided_dispute_is_final [OF demo_disputes_facts(1) r_into_rtranclp [of dispute_step, OF dispute_step.reject]] by blast

theorem resolution_lost_on_migrated_schema_witness:
  "\<exists>db'. resolveLoanDispute (dispute_env_of False) ''1'' Reverse ''reversed'' None demo_disputes = (Inl (Unexpected ''23502'' []), db') \<and> open_dispute 1 db' = None"
  using resolution_lost_on_migrated_schema [OF _ _ demo_disputes_facts, of "dispute_env_of False" Reverse] by (auto simp: dispute_env_of_def)

theorem contest_stored_and_refused_on_migrated_schema_witness:
  "\<exists>db'. contestDefault (dispute_env_of False) (Some ''GB'') ''7'' ''wrong'' demo_disputes = (Inl (Unexpected ''23502'' []), db') \<and> length (dd_disputes db') = 2"
  using contest_stored_and_refused_on_migrated_schema [of "dispute_env_of False" "''wrong''" "''GB''" "''7''" 7 defaulted_event demo_disputes]
  by (auto simp: dispute_env_of_def text_between_def demo_disputes_def defaulted_event_def)

theorem resolution_takes_effect_witness:
  "\<exists>db'. resolveLoanDispute (dispute_env_of True) ''1'' Reverse ''reversed'' None demo_disputes = (Inr (), db')
     \<and> map we_event_type (dd_written db') = [''DefaultReversed'']"
  using resolution_takes_effect [OF _ _ demo_disputes_facts, of "dispute_env_of True" Reverse]
  by (auto simp: dispute_env_of_def demo_disputes_def)

end
