(* ===== verification/Amortization.thy ===== *)
theory Amortization
  imports Money Doubles JsDate AppErrors EventDecode "HOL-Library.Product_Lexorder"
begin

section \<open>Repayment schedules (\<open>controllers/loanController.ts\<close>, \<open>money/decimal.ts\<close>)\<close>

text \<open>
  The schedules a borrower is shown, computed with doubles and rounded to cents at every step. Every operation is that on
  the rationals followed by \<open>dbl\<close>. \<open>cents c\<close> is the double nearest to \<open>c\<close> hundredths. Shown: up to ten million, the errors
  of the doubles never reach half a stroop, so rounding recovers whole cents, each column of a repayment preview adds up to
  the total it is a schedule of, to the cent, each row to its total, and the balance ends at zero.
\<close>

subsection \<open>Rounding to cents\<close>

definition roundToCents :: "rat \<Rightarrow> MoneyError + rat" where
  "roundToCents v =
     try_then (amountToStroops v) (\<lambda>stroops.
       try_then (roundDiv stroops 100000 DEFAULT_MODE) (\<lambda>c. Inr (dbl (dbl (of_int c) / 100))))"

text \<open>\<open>Math.round\<close>.\<close>

definition js_round :: "rat \<Rightarrow> int" where
  "js_round x = \<lfloor>x + 1 / 2\<rfloor>"

definition addDays :: "int \<Rightarrow> int \<Rightarrow> int" where
  "addDays date days = date + days * 86400000"

definition LEDGER_DAY :: rat where
  "LEDGER_DAY = 17280"

definition period_count :: "rat \<Rightarrow> nat" where
  "period_count termDays = (let k = js_round (dbl (termDays / 30)) in nat (max 1 (if k = 0 then 1 else k)))"

subsection \<open>The schedule of a loan\<close>

record amortization_row =
  am_date :: string
  am_principalPortion :: rat
  am_interestPortion :: rat
  am_totalDue :: rat
  am_runningBalance :: rat

record amortization =
  az_principal :: rat
  az_interestRateBps :: int
  az_termLedgers :: int
  az_totalInterest :: rat
  az_totalDue :: rat
  az_schedule :: "amortization_row list"

fun amortization_loop :: "int \<Rightarrow> rat \<Rightarrow> nat \<Rightarrow> rat \<Rightarrow> rat \<Rightarrow> nat list \<Rightarrow> rat \<Rightarrow> rat \<Rightarrow> MoneyError + amortization_row list" where
  "amortization_loop startDate daysPerPeriod periodCount rawP rawI [] remP remI = Inr []"
| "amortization_loop startDate daysPerPeriod periodCount rawP rawI (i # is) remP remI =
     try_then (roundToCents (if i = periodCount then remP else rawP)) (\<lambda>p.
     try_then (roundToCents (if i = periodCount then remI else rawI)) (\<lambda>q.
     try_then (roundToCents (dbl (remP - p))) (\<lambda>remP'.
     try_then (roundToCents (dbl (remI - q))) (\<lambda>remI'.
     try_then (roundToCents (dbl (p + q))) (\<lambda>due.
     try_then (amortization_loop startDate daysPerPeriod periodCount rawP rawI is remP' remI') (\<lambda>rows.
       Inr (\<lparr>am_date = toISOString (addDays startDate (js_round (dbl (daysPerPeriod * of_nat i)))), am_principalPortion = p,
             am_interestPortion = q, am_totalDue = due, am_runningBalance = max 0 remP'\<rparr> # rows)))))))"

definition buildAmortizationSchedule :: "rat \<Rightarrow> int \<Rightarrow> int \<Rightarrow> int \<Rightarrow> MoneyError + amortization" where
  "buildAmortizationSchedule amount interestRateBps termLedgers startDate =
     (let totalInterest = dbl (amount * dbl (of_int interestRateBps / 10000));
          totalDue = dbl (amount + totalInterest);
          termDays = dbl (of_int termLedgers / LEDGER_DAY);
          periodCount = period_count termDays;
          daysPerPeriod = dbl (termDays / of_nat periodCount)
      in try_then (amortization_loop startDate daysPerPeriod periodCount (dbl (amount / of_nat periodCount))
                     (dbl (totalInterest / of_nat periodCount)) [1..<periodCount + 1] amount totalInterest) (\<lambda>schedule.
         try_then (roundToCents amount) (\<lambda>p.
         try_then (roundToCents totalInterest) (\<lambda>ti.
         try_then (roundToCents totalDue) (\<lambda>td.
           Inr \<lparr>az_principal = p, az_interestRateBps = interestRateBps, az_termLedgers = termLedgers, az_totalInterest = ti,
                az_totalDue = td, az_schedule = schedule\<rparr>)))))"

subsection \<open>The preview with fees\<close>

record preview_row =
  pr_period :: nat
  pr_due_date :: string
  pr_principal :: rat
  pr_interest :: rat
  pr_fees :: rat
  pr_total :: rat
  pr_remaining_balance :: rat

record preview =
  pv_principal :: rat
  pv_interestRateBps :: int
  pv_termLedgers :: int
  pv_feeRateBps :: int
  pv_totalInterest :: rat
  pv_totalFees :: rat
  pv_totalDue :: rat
  pv_schedule :: "preview_row list"

fun preview_loop :: "int \<Rightarrow> rat \<Rightarrow> nat \<Rightarrow> rat \<Rightarrow> rat \<Rightarrow> rat \<Rightarrow> nat list \<Rightarrow> rat \<Rightarrow> rat \<Rightarrow> rat \<Rightarrow> MoneyError + preview_row list" where
  "preview_loop startDate daysPerPeriod periodCount rawP rawI rawF [] remP remI remF = Inr []"
| "preview_loop startDate daysPerPeriod periodCount rawP rawI rawF (i # is) remP remI remF =
     try_then (roundToCents (if i = periodCount then remP else rawP)) (\<lambda>p.
     try_then (roundToCents (if i = periodCount then remI else rawI)) (\<lambda>q.
     try_then (roundToCents (if i = periodCount then remF else rawF)) (\<lambda>f.
     try_then (roundToCents (dbl (remP - p))) (\<lambda>remP'.
     try_then (roundToCents (dbl (remI - q))) (\<lambda>remI'.
     try_then (roundToCents (dbl (remF - f))) (\<lambda>remF'.
     try_then (roundToCents (dbl (dbl (p + q) + f))) (\<lambda>total.
     try_then (roundToCents remP') (\<lambda>balance.
     try_then (preview_loop startDate daysPerPeriod periodCount rawP rawI rawF is remP' remI' remF') (\<lambda>rows.
       Inr (\<lparr>pr_period = i, pr_due_date = toISOString (addDays startDate (js_round (dbl (daysPerPeriod * of_nat i)))), pr_principal = p,
             pr_interest = q, pr_fees = f, pr_total = total, pr_remaining_balance = max 0 balance\<rparr> # rows))))))))))"

definition buildRepaymentPreviewSchedule :: "rat \<Rightarrow> int \<Rightarrow> int \<Rightarrow> int \<Rightarrow> int \<Rightarrow> MoneyError + preview" where
  "buildRepaymentPreviewSchedule amount interestRateBps termLedgers startDate feeRateBps =
     try_then (roundToCents (dbl (amount * dbl (of_int interestRateBps / 10000)))) (\<lambda>totalInterest.
     try_then (roundToCents (dbl (amount * dbl (of_int feeRateBps / 10000)))) (\<lambda>totalFees.
     try_then (roundToCents (dbl (dbl (amount + totalInterest) + totalFees))) (\<lambda>totalDue.
       (let termDays = dbl (of_int termLedgers / LEDGER_DAY);
            periodCount = period_count termDays;
            daysPerPeriod = dbl (termDays / of_nat periodCount)
        in try_then (preview_loop startDate daysPerPeriod periodCount (dbl (amount / of_nat periodCount))
                       (dbl (totalInterest / of_nat periodCount)) (dbl (totalFees / of_nat periodCount))
                       [1..<periodCount + 1] amount totalInterest totalFees) (\<lambda>schedule.
           try_then (roundToCents amount) (\<lambda>p.
             Inr \<lparr>pv_principal = p, pv_interestRateBps = interestRateBps, pv_termLedgers = termLedgers, pv_feeRateBps = feeRateBps,
                  pv_totalInterest = totalInterest, pv_totalFees = totalFees, pv_totalDue = totalDue, pv_schedule = schedule\<rparr>))))))"

subsection \<open>The preview of a stored loan\<close>

record LoanTermConfig =
  defaultTermLedgers :: int
  defaultInterestRateBps :: int
  defaultFeeRateBps :: int
  ledgerCloseSeconds :: int

record loan_term_vars =
  lv_DEFAULT_TERM_LEDGERS :: "string option"
  lv_DEFAULT_INTEREST_RATE_BPS :: "string option"
  lv_DEFAULT_FEE_RATE_BPS :: "string option"
  lv_LEDGER_CLOSE_SECONDS :: "string option"

definition int_setting :: "string option \<Rightarrow> int \<Rightarrow> int option" where
  "int_setting v d = (case truthy_text v of None \<Rightarrow> Some d | Some s \<Rightarrow> parseInt s)"

definition getLoanTermConfig :: "loan_term_vars \<Rightarrow> string + LoanTermConfig" where
  "getLoanTermConfig v =
     (case int_setting (lv_DEFAULT_TERM_LEDGERS v) 17280 of
        None \<Rightarrow> Inl ''DEFAULT_TERM_LEDGERS must be a positive number''
      | Some t \<Rightarrow>
          if t \<le> 0 then Inl ''DEFAULT_TERM_LEDGERS must be a positive number''
          else case int_setting (lv_DEFAULT_INTEREST_RATE_BPS v) 1200 of
              None \<Rightarrow> Inl ''DEFAULT_INTEREST_RATE_BPS must be a positive number''
            | Some r \<Rightarrow>
                if r \<le> 0 then Inl ''DEFAULT_INTEREST_RATE_BPS must be a positive number''
                else case int_setting (lv_DEFAULT_FEE_RATE_BPS v) 100 of
                    None \<Rightarrow> Inl ''DEFAULT_FEE_RATE_BPS must be a non-negative number''
                  | Some f \<Rightarrow>
                      if f < 0 then Inl ''DEFAULT_FEE_RATE_BPS must be a non-negative number''
                      else case int_setting (lv_LEDGER_CLOSE_SECONDS v) 5 of
                          None \<Rightarrow> Inl ''LEDGER_CLOSE_SECONDS must be a positive number''
                        | Some l \<Rightarrow>
                            if l \<le> 0 then Inl ''LEDGER_CLOSE_SECONDS must be a positive number''
                            else Inr \<lparr>defaultTermLedgers = t, defaultInterestRateBps = r, defaultFeeRateBps = f, ledgerCloseSeconds = l\<rparr>)"

text \<open>\<open>Number\<close> of the decimal text of a stroop amount.\<close>

definition stroopsToAmount :: "stroop_value \<Rightarrow> MoneyError + rat" where
  "stroopsToAmount v = try_then (toWholeStroops v) (\<lambda>s. Inr (dbl (of_int s / 10000000)))"

definition loan_rows :: "int \<Rightarrow> contract_event list \<Rightarrow> contract_event list" where
  "loan_rows loan es = sort_key (\<lambda>e. (ce_ledger_closed_at e, ce_ledger e)) (filter (\<lambda>e. ce_loan_id e = Some loan) es)"

text \<open>A row's time is always there; an error of the money policy is an unexpected one.\<close>

definition getLoanRepaymentPreview :: "LoanTermConfig \<Rightarrow> int \<Rightarrow> contract_event list \<Rightarrow> thrown + preview" where
  "getLoanRepaymentPreview config loan es =
     (let rows = loan_rows loan es;
          approvals = filter (\<lambda>e. ce_event_type e = ''LoanApproved'') rows
      in if rows = [] then Inl (App (notFound ''Loan not found'' (Some LOAN_NOT_FOUND) (Some ''loanId'')))
         else case (find (\<lambda>e. ce_event_type e = ''LoanRequested'') rows, approvals) of
             (Some request, a # as) \<Rightarrow>
               (let approval = last (a # as)
                in case truthy_text (ce_amount request) of
                     None \<Rightarrow> Inl (App (notFound ''Loan not fully approved'' (Some LOAN_NOT_FOUND) (Some ''loanId'')))
                   | Some amt \<Rightarrow>
                       (case try_then (stroopsToAmount (SStr amt)) (\<lambda>p. buildRepaymentPreviewSchedule p
                                (case ce_interest_rate_bps approval of None \<Rightarrow> defaultInterestRateBps config | Some r \<Rightarrow> r)
                                (case ce_term_ledgers approval of None \<Rightarrow> defaultTermLedgers config | Some t \<Rightarrow> t)
                                (ce_ledger_closed_at approval) (defaultFeeRateBps config)) of
                          Inl _ \<Rightarrow> Inl (Unexpected ''MoneyError'' [])
                        | Inr pv \<Rightarrow> Inr pv))
           | _ \<Rightarrow> Inl (App (notFound ''Loan not fully approved'' (Some LOAN_NOT_FOUND) (Some ''loanId''))))"

subsection \<open>Whole cents\<close>

definition cents :: "int \<Rightarrow> rat" where
  "cents c = dbl (of_int c / 100)"

lemma cents_0 [simp]: "cents 0 = 0"
  by (simp add: cents_def)

lemma roundDiv_near:
  obtains c where "roundDiv s 100000 DEFAULT_MODE = Inr c" "2 * \<bar>s - c * 100000\<bar> \<le> 100000"
  using half_even_pos [of 100000 s] that by (auto simp: DEFAULT_MODE_def nearest_def)

lemma roundDiv_whole: "roundDiv (c * 100000) 100000 DEFAULT_MODE = Inr c"
proof -
  obtain q where q: "roundDiv (c * 100000) 100000 DEFAULT_MODE = Inr q" "2 * \<bar>c * 100000 - q * 100000\<bar> \<le> 100000"
    by (rule roundDiv_near)
  have "q = c" using q(2) by (simp add: abs_if split: if_splits)
  then show ?thesis using q(1) by simp
qed

lemma roundToCents_stroops:
  assumes "\<bar>v - of_int s / 10000000\<bar> < 1 / 20000000" "\<bar>v\<bar> < 1000000000000" "roundDiv s 100000 DEFAULT_MODE = Inr c" "\<bar>c\<bar> \<le> 2 ^ 53"
  shows "roundToCents v = Inr (cents c)"
proof -
  have "\<bar>v\<bar> < 10 ^ 21" using assms(2) by simp
  then show ?thesis
    using amountToStroops_exact [OF assms(1)] assms(3) dbl_of_int [OF assms(4)] by (simp add: roundToCents_def cents_def)
qed

text \<open>A number within half a stroop of whole cents rounds to them.\<close>

lemma of_int_abs_le: "\<bar>c\<bar> \<le> numeral n \<Longrightarrow> \<bar>of_int c :: rat\<bar> \<le> numeral n"
  by (metis of_int_abs of_int_le_iff of_int_numeral)

lemma roundToCents_exact:
  assumes "\<bar>v - of_int c / 100\<bar> < 1 / 20000000" "\<bar>c\<bar> \<le> 10000000000"
  shows "roundToCents v = Inr (cents c)"
proof (rule roundToCents_stroops)
  have c: "\<bar>of_int c :: rat\<bar> \<le> 10000000000" using assms(2) by (rule of_int_abs_le)
  show "\<bar>v - of_int (c * 100000) / 10000000\<bar> < 1 / 20000000" using assms(1) by simp
  show "\<bar>v\<bar> < 1000000000000" using assms(1) c unfolding abs_less_iff abs_le_iff by auto
  show "\<bar>c\<bar> \<le> 2 ^ 53" using assms(2) by simp
qed (rule roundDiv_whole)

lemma dbl_bound: "\<bar>x\<bar> \<le> b \<Longrightarrow> \<bar>dbl x - x\<bar> \<le> b / 9000000000000000"
proof -
  assume "\<bar>x\<bar> \<le> b"
  moreover from this have "\<bar>x\<bar> / 2 ^ 53 \<le> b / 9000000000000000" by (intro frac_le) auto
  ultimately show ?thesis using dbl_error [of x] by linarith
qed

lemma cents_bound: "\<bar>c\<bar> \<le> 1000000000 \<Longrightarrow> \<bar>cents c - of_int c / 100\<bar> \<le> 1 / 800000000"
  using dbl_bound [of "of_int c / 100" 10000000] of_int_abs_le [of c] by (simp add: cents_def)

lemma roundToCents_cents: "\<bar>c\<bar> \<le> 1000000000 \<Longrightarrow> roundToCents (cents c) = Inr (cents c)"
  using cents_bound [of c] by (intro roundToCents_exact) linarith+

text \<open>Differences and sums of whole cents.\<close>

lemma roundToCents_diff:
  assumes "\<bar>a\<bar> \<le> 1000000000" "\<bar>b\<bar> \<le> 1000000000"
  shows "roundToCents (dbl (cents a - cents b)) = Inr (cents (a - b))"
proof (rule roundToCents_exact)
  note e = cents_bound [OF assms(1)] cents_bound [OF assms(2)]
  have s: "\<bar>of_int a :: rat\<bar> \<le> 1000000000" "\<bar>of_int b :: rat\<bar> \<le> 1000000000" using assms by (auto intro: of_int_abs_le)
  have "\<bar>cents a - cents b\<bar> \<le> 20000001" using e s unfolding abs_le_iff by linarith
  then have "\<bar>dbl (cents a - cents b) - (cents a - cents b)\<bar> \<le> 20000001 / 9000000000000000" by (rule dbl_bound)
  then show "\<bar>dbl (cents a - cents b) - of_int (a - b) / 100\<bar> < 1 / 20000000"
    using e unfolding abs_le_iff abs_less_iff of_int_diff by (simp add: field_simps)
qed (use assms in linarith)

lemma roundToCents_sum:
  assumes "\<bar>a\<bar> \<le> 1000000000" "\<bar>b\<bar> \<le> 1000000000" "\<bar>c\<bar> \<le> 1000000000"
  shows "roundToCents (dbl (dbl (cents a + cents b) + cents c)) = Inr (cents (a + b + c))"
proof (rule roundToCents_exact)
  note e = cents_bound [OF assms(1)] cents_bound [OF assms(2)] cents_bound [OF assms(3)]
  have s: "\<bar>of_int a :: rat\<bar> \<le> 1000000000" "\<bar>of_int b :: rat\<bar> \<le> 1000000000" "\<bar>of_int c :: rat\<bar> \<le> 1000000000"
    using assms by (auto intro: of_int_abs_le)
  have "\<bar>cents a + cents b\<bar> \<le> 20000001" using e s unfolding abs_le_iff by linarith
  then have d1: "\<bar>dbl (cents a + cents b) - (cents a + cents b)\<bar> \<le> 20000001 / 9000000000000000" by (rule dbl_bound)
  then have "\<bar>dbl (cents a + cents b) + cents c\<bar> \<le> 30000002" using e s unfolding abs_le_iff by linarith
  then have "\<bar>dbl (dbl (cents a + cents b) + cents c) - (dbl (cents a + cents b) + cents c)\<bar> \<le> 30000002 / 9000000000000000" by (rule dbl_bound)
  then show "\<bar>dbl (dbl (cents a + cents b) + cents c) - of_int (a + b + c) / 100\<bar> < 1 / 20000000"
    using e d1 unfolding abs_le_iff abs_less_iff of_int_add by (simp add: field_simps)
qed (use assms in linarith)

text \<open>Any amount rounds to some whole cents, at most half a cent and a stroop away.\<close>

lemma roundToCents_some:
  assumes "0 \<le> x" "x \<le> 100000000"
  obtains p where "roundToCents x = Inr (cents p)" "0 \<le> p" "of_int p \<le> 100 * x + 1"
proof -
  define s where "s = \<lfloor>x * 10000000 + 1 / 2\<rfloor>"
  have x: "\<bar>x\<bar> < 10 ^ 21" using assms by simp
  have a: "amountToStroops x = Inr s"
    using toFixed_seven_parse [OF x, of HalfEven] assms(1)
    by (auto simp: amountToStroops_def STROOP_DECIMALS_def DEFAULT_MODE_def s_def split: option.splits)
  have s: "0 \<le> s" "of_int s \<le> x * 10000000 + 1 / 2"
    using assms(1) by (auto simp: s_def)
  obtain p where p: "roundDiv s 100000 DEFAULT_MODE = Inr p" "2 * \<bar>s - p * 100000\<bar> \<le> 100000" by (rule roundDiv_near)
  have p0: "0 \<le> p" using p(2) s(1) by (simp add: abs_if split: if_splits)
  have "2 * (p * 100000) \<le> 2 * s + 100000" using p(2) by (simp add: abs_if split: if_splits)
  then have "(of_int (2 * (p * 100000)) :: rat) \<le> of_int (2 * s + 100000)" by (simp only: of_int_le_iff)
  then have le: "of_int p \<le> 100 * x + 1" using s(2) by simp
  then have "(of_int p :: rat) \<le> of_int 10000000001" using assms(2) by simp
  then have "p \<le> 10000000001" by (simp only: of_int_le_iff)
  then have "dbl (of_int p) = of_int p" using p0 by (intro dbl_of_int) simp
  then show ?thesis using that a p(1) p0 le by (simp add: roundToCents_def cents_def)
qed

subsection \<open>Columns add up\<close>

definition row_cents :: "preview_row \<Rightarrow> int \<times> int \<times> int \<Rightarrow> bool" where
  "row_cents r t = (case t of (a, b, c) \<Rightarrow> pr_principal r = cents a \<and> pr_interest r = cents b \<and> pr_fees r = cents c \<and> pr_total r = cents (a + b + c))"

lemma preview_loop_exact:
  assumes raw: "roundToCents rawP = Inr (cents p)" "roundToCents rawI = Inr (cents q)" "roundToCents rawF = Inr (cents f)"
    and nonneg: "0 \<le> p" "0 \<le> q" "0 \<le> f"
    and "i \<le> n" and "\<bar>a\<bar> + int (n + 1 - i) * p \<le> 1000000000" "\<bar>b\<bar> + int (n + 1 - i) * q \<le> 1000000000" "\<bar>c\<bar> + int (n + 1 - i) * f \<le> 1000000000"
  shows "\<exists>rows ts. preview_loop start days n rawP rawI rawF [i..<n + 1] (cents a) (cents b) (cents c) = Inr rows
    \<and> list_all2 row_cents rows ts \<and> length ts = n + 1 - i
    \<and> sum_list (map fst ts) = a \<and> sum_list (map (fst \<circ> snd) ts) = b \<and> sum_list (map (snd \<circ> snd) ts) = c
    \<and> pr_remaining_balance (last rows) = 0"
  using assms(7-)
proof (induction "n - i" arbitrary: i a b c)
  case 0
  then have i: "i = n" by simp
  have le: "\<bar>a\<bar> \<le> 1000000000" "\<bar>b\<bar> \<le> 1000000000" "\<bar>c\<bar> \<le> 1000000000" using 0 nonneg i by auto
  show ?case
    using roundToCents_cents [OF le(1)] roundToCents_cents [OF le(2)] roundToCents_cents [OF le(3)] roundToCents_cents [of 0]
      roundToCents_diff [OF le(1) le(1)] roundToCents_diff [OF le(2) le(2)] roundToCents_diff [OF le(3) le(3)] roundToCents_sum [OF le]
    by (intro exI [of _ "[\<lparr>pr_period = n, pr_due_date = toISOString (addDays start (js_round (dbl (days * of_nat n)))), pr_principal = cents a,
             pr_interest = cents b, pr_fees = cents c, pr_total = cents (a + b + c), pr_remaining_balance = 0\<rparr>]"] exI [of _ "[(a, b, c)]"])
      (simp add: i row_cents_def)
next
  case (Suc m)
  define k where "k = int (n - i)"
  have len: "int (n + 1 - i) = k + 1" "0 \<le> k" "int (n + 1 - Suc i) = k" "i < n" using Suc.hyps(2) by (auto simp: k_def)
  have big: "\<bar>x\<bar> \<le> 1000000000 \<and> y \<le> 1000000000 \<and> \<bar>x - y\<bar> + k * y \<le> 1000000000" if "\<bar>x\<bar> + (k + 1) * y \<le> 1000000000" "0 \<le> y" for x y
  proof -
    have "0 \<le> k * y" using len(2) that(2) by simp
    then show ?thesis using that by (simp add: distrib_right abs_if split: if_splits)
  qed
  note A = big [OF Suc.prems(2) [unfolded len] nonneg(1)] and B = big [OF Suc.prems(3) [unfolded len] nonneg(2)]
    and C = big [OF Suc.prems(4) [unfolded len] nonneg(3)]
  have abs: "\<bar>p\<bar> \<le> 1000000000" "\<bar>q\<bar> \<le> 1000000000" "\<bar>f\<bar> \<le> 1000000000" using A B C nonneg by auto
  obtain rows ts where ih: "preview_loop start days n rawP rawI rawF [Suc i..<n + 1] (cents (a - p)) (cents (b - q)) (cents (c - f)) = Inr rows"
      "list_all2 row_cents rows ts" "length ts = n + 1 - Suc i" "sum_list (map fst ts) = a - p" "sum_list (map (fst \<circ> snd) ts) = b - q"
      "sum_list (map (snd \<circ> snd) ts) = c - f" "pr_remaining_balance (last rows) = 0"
  proof -
    have "m = n - Suc i" "Suc i \<le> n" using Suc.hyps(2) len(4) by auto
    then show ?thesis
      using that Suc.hyps(1) [of "Suc i" "a - p" "b - q" "c - f", unfolded len(3)] A B C by blast
  qed
  have small: "\<bar>a - p\<bar> \<le> 1000000000" using A nonneg(1) len(2) by (smt (verit) mult_nonneg_nonneg)
  have cons: "[i..<n + 1] = i # [Suc i..<n + 1]" using len(4) by (simp add: upt_conv_Cons)
  let ?row = "\<lparr>pr_period = i, pr_due_date = toISOString (addDays start (js_round (dbl (days * of_nat i)))), pr_principal = cents p,
             pr_interest = cents q, pr_fees = cents f, pr_total = cents (p + q + f), pr_remaining_balance = max 0 (cents (a - p))\<rparr>"
  have "preview_loop start days n rawP rawI rawF [i..<n + 1] (cents a) (cents b) (cents c) = Inr (?row # rows)"
    unfolding cons
    using raw len(4) ih(1) A B C roundToCents_diff [of a p] roundToCents_diff [of b q] roundToCents_diff [of c f] roundToCents_sum [OF abs]
      roundToCents_cents [OF small] abs
    by simp
  moreover have "rows \<noteq> []" using ih(2,3) len(4) by auto
  ultimately show ?case using ih len(4)
    by (intro exI [of _ "?row # rows"] exI [of _ "(p, q, f) # ts"]) (simp add: row_cents_def)
qed

lemma dbl_le_twice: "0 \<le> x \<Longrightarrow> dbl x \<le> 2 * x"
proof -
  assume "0 \<le> x"
  moreover from this have "dbl x - x \<le> x / 2 ^ 53" using dbl_error [of x] abs_ge_self [of "dbl x - x"] by simp
  ultimately show ?thesis by simp
qed

lemma cents_nonneg: "0 \<le> c \<Longrightarrow> 0 \<le> cents c"
  unfolding cents_def by (rule dbl_nonneg) simp

lemma cents_le_twice: "0 \<le> c \<Longrightarrow> cents c \<le> of_int c / 50"
  using dbl_le_twice [of "of_int c / 100"] by (simp add: cents_def)

lemma portion_in_range:
  assumes "0 \<le> c" "c \<le> 100000001" "1 \<le> n" "n \<le> 1000000"
  obtains p where "roundToCents (dbl (cents c / of_nat n)) = Inr (cents p)" "0 \<le> p" "\<bar>c\<bar> + int n * p \<le> 1000000000"
proof -
  have n: "(1 :: rat) \<le> of_nat n" "(of_nat n :: rat) \<le> 1000000" using assms(3,4) by (simp_all add: of_nat_le_iff [of n 1000000, where 'a = rat, simplified])
  have c: "(of_int c :: rat) \<le> 100000001" using assms(2) by (simp add: of_int_le_iff [of c 100000001, where 'a = rat, simplified])
  let ?x = "dbl (cents c / of_nat n)"
  have x0: "0 \<le> ?x" using cents_nonneg [OF assms(1)] by (intro dbl_nonneg) simp
  have nx: "of_nat n * ?x \<le> of_int c / 25"
  proof -
    have "?x \<le> 2 * (cents c / of_nat n)" using cents_nonneg [OF assms(1)] by (intro dbl_le_twice) simp
    then have "of_nat n * ?x \<le> of_nat n * (2 * (cents c / of_nat n))" by (intro mult_left_mono) auto
    also have "\<dots> = 2 * cents c" using n by simp
    also have "\<dots> \<le> of_int c / 25" using cents_le_twice [OF assms(1)] by simp
    finally show ?thesis .
  qed
  have "1 * ?x \<le> of_nat n * ?x" using n x0 by (intro mult_right_mono) auto
  then have "?x \<le> 100000000" using nx c by simp
  with x0 obtain p where p: "roundToCents ?x = Inr (cents p)" "0 \<le> p" "of_int p \<le> 100 * ?x + 1" by (rule roundToCents_some)
  have "of_nat n * of_int p \<le> of_nat n * (100 * ?x + 1)" using p(3) by (intro mult_left_mono) auto
  also have "\<dots> = 100 * (of_nat n * ?x) + of_nat n" by (simp add: distrib_left)
  also have "\<dots> \<le> 4 * of_int c + 1000000" using nx n by simp
  finally have "(of_int (int n * p) :: rat) \<le> of_int (4 * c + 1000000)" by simp
  then have "int n * p \<le> 4 * c + 1000000" by (simp only: of_int_le_iff)
  then show ?thesis using that p assms by simp
qed

lemma rate_of_amount:
  assumes "0 \<le> c" "c \<le> 100000000" "0 \<le> bps" "bps \<le> 10000"
  obtains i where "roundToCents (dbl (cents c * dbl (of_int bps / 10000))) = Inr (cents i)" "0 \<le> i" "i \<le> 100000001"
proof -
  have r: "0 \<le> dbl (of_int bps / 10000)" "dbl (of_int bps / 10000) \<le> 1"
    using assms(3,4) dbl_mono [of "of_int bps / 10000" 1] dbl_of_int [of 1] by (auto intro: dbl_nonneg)
  have "(of_int c :: rat) \<le> 100000000" using assms(2) by (simp add: of_int_le_iff [of c 100000000, where 'a = rat, simplified])
  then have c: "0 \<le> cents c" "cents c \<le> 1000000"
    using cents_nonneg [OF assms(1)] dbl_mono [of "of_int c / 100" 1000000] by (simp_all add: cents_def)
  have "cents c * dbl (of_int bps / 10000) \<le> 1000000 * 1" using r c by (intro mult_mono) auto
  then have x: "dbl (cents c * dbl (of_int bps / 10000)) \<le> 1000000"
    using dbl_mono [of "cents c * dbl (of_int bps / 10000)" 1000000] by simp
  have x0: "0 \<le> dbl (cents c * dbl (of_int bps / 10000))" using r c by (intro dbl_nonneg) simp
  have "dbl (cents c * dbl (of_int bps / 10000)) \<le> 100000000" using x by simp
  with x0 obtain i where i: "roundToCents (dbl (cents c * dbl (of_int bps / 10000))) = Inr (cents i)" "0 \<le> i"
      "of_int i \<le> 100 * dbl (cents c * dbl (of_int bps / 10000)) + 1"
    by (rule roundToCents_some)
  have "(of_int i :: rat) \<le> of_int 100000001" using i(3) x by simp
  then have "i \<le> 100000001" by (simp only: of_int_le_iff)
  then show ?thesis using that i by blast
qed

lemma period_count_pos: "1 \<le> period_count d"
  by (simp add: period_count_def Let_def)

text \<open>
  C36. For an amount of whole cents up to a million, rates up to one hundred percent and at most a million periods, the repayment preview answers
  a schedule in whole cents in which the principal column adds up to the amount, the interest and the fee column to the totals shown, every
  row to its total and the totals to the total due, exactly, and whose last balance is zero.
\<close>

theorem preview_adds_up:
  assumes "0 \<le> c" "c \<le> 100000000" and "0 \<le> bps" "bps \<le> 10000" and "0 \<le> feeBps" "feeBps \<le> 10000"
    and "period_count (dbl (of_int term / LEDGER_DAY)) \<le> 1000000"
  shows "\<exists>pv ts. buildRepaymentPreviewSchedule (cents c) bps term start feeBps = Inr pv
    \<and> list_all2 row_cents (pv_schedule pv) ts \<and> length ts = period_count (dbl (of_int term / LEDGER_DAY))
    \<and> sum_list (map fst ts) = c \<and> pv_totalInterest pv = cents (sum_list (map (fst \<circ> snd) ts)) \<and> pv_totalFees pv = cents (sum_list (map (snd \<circ> snd) ts))
    \<and> pv_totalDue pv = cents (sum_list (map fst ts) + sum_list (map (fst \<circ> snd) ts) + sum_list (map (snd \<circ> snd) ts))
    \<and> pr_remaining_balance (last (pv_schedule pv)) = 0"
proof -
  let ?n = "period_count (dbl (of_int term / LEDGER_DAY))"
  obtain i where i: "roundToCents (dbl (cents c * dbl (of_int bps / 10000))) = Inr (cents i)" "0 \<le> i" "i \<le> 100000001"
    by (rule rate_of_amount [OF assms(1-4)])
  obtain f where f: "roundToCents (dbl (cents c * dbl (of_int feeBps / 10000))) = Inr (cents f)" "0 \<le> f" "f \<le> 100000001"
    by (rule rate_of_amount [OF assms(1,2,5,6)])
  have c': "c \<le> 100000001" using assms(2) by simp
  note n = period_count_pos [of "dbl (of_int term / LEDGER_DAY)"] assms(7)
  obtain p where p: "roundToCents (dbl (cents c / of_nat ?n)) = Inr (cents p)" "0 \<le> p" "\<bar>c\<bar> + int ?n * p \<le> 1000000000"
    by (rule portion_in_range [OF assms(1) c' n])
  obtain q where q: "roundToCents (dbl (cents i / of_nat ?n)) = Inr (cents q)" "0 \<le> q" "\<bar>i\<bar> + int ?n * q \<le> 1000000000"
    by (rule portion_in_range [OF i(2,3) n])
  obtain g where g: "roundToCents (dbl (cents f / of_nat ?n)) = Inr (cents g)" "0 \<le> g" "\<bar>f\<bar> + int ?n * g \<le> 1000000000"
    by (rule portion_in_range [OF f(2,3) n])
  obtain rows ts where loop: "preview_loop start (dbl (dbl (of_int term / LEDGER_DAY) / of_nat ?n)) ?n (dbl (cents c / of_nat ?n))
        (dbl (cents i / of_nat ?n)) (dbl (cents f / of_nat ?n)) [1..<?n + 1] (cents c) (cents i) (cents f) = Inr rows"
      "list_all2 row_cents rows ts" "length ts = ?n"
      "sum_list (map fst ts) = c" "sum_list (map (fst \<circ> snd) ts) = i" "sum_list (map (snd \<circ> snd) ts) = f" "pr_remaining_balance (last rows) = 0"
    using preview_loop_exact [OF p(1) q(1) g(1) p(2) q(2) g(2) n(1), where a = c and b = i and c = f and start = start
        and days = "dbl (dbl (of_int term / LEDGER_DAY) / of_nat ?n)"] p(3) q(3) g(3) by auto
  have "roundToCents (dbl (dbl (cents c + cents i) + cents f)) = Inr (cents (c + i + f))"
    using assms(1,2) i f by (intro roundToCents_sum) simp_all
  moreover have "roundToCents (cents c) = Inr (cents c)" using assms(1,2) by (intro roundToCents_cents) simp
  ultimately show ?thesis
    using i(1) f(1) loop by (auto simp: buildRepaymentPreviewSchedule_def Let_def)
qed

lemma demo_period_count: "period_count (dbl (of_int 1036800 / LEDGER_DAY)) = 2"
proof -
  have "\<lfloor>5 / 2 :: rat\<rfloor> = 2" by (simp add: floor_eq_iff)
  then show ?thesis by (simp add: LEDGER_DAY_def period_count_def js_round_def Let_def)
qed

theorem preview_adds_up_witness:
  "\<exists>pv ts. buildRepaymentPreviewSchedule (cents 145) 1000 1036800 0 100 = Inr pv \<and> length ts = 2 \<and> sum_list (map fst ts) = (145 :: int)
    \<and> list_all2 row_cents (pv_schedule pv) ts"
  using preview_adds_up [of 145 1000 100 1036800 0] demo_period_count by auto

lemma roundToCents_near:
  assumes "\<bar>v - of_int s / 10000000\<bar> \<le> 1 / 50000000" "\<bar>s\<bar> \<le> 10000000" "roundDiv s 100000 DEFAULT_MODE = Inr c" "\<bar>c\<bar> \<le> 1000"
  shows "roundToCents v = Inr (cents c)"
proof (rule roundToCents_stroops [OF _ _ assms(3)])
  have "\<bar>of_int s :: rat\<bar> \<le> 10000000" using assms(2) by (rule of_int_abs_le)
  then show "\<bar>v\<bar> < 1000000000000" using assms(1) unfolding abs_le_iff abs_less_iff by auto
  show "\<bar>v - of_int s / 10000000\<bar> < 1 / 20000000" using assms(1) by (rule le_less_trans) simp
qed (use assms(4) in simp)

lemma demo_interest:
  defines "x \<equiv> dbl (cents 145 * dbl (of_int 1000 / 10000))"
  shows "\<bar>x - 145 / 1000\<bar> \<le> 1 / 100000000" and "roundToCents x = Inr (cents 14)" and "roundToCents (dbl (x / 2)) = Inr (cents 7)"
    and "roundToCents (dbl (x - cents 7)) = Inr (cents 8)"
proof -
  have a: "\<bar>cents 145 - 145 / 100\<bar> \<le> 1 / 800000000" using cents_bound [of 145] by simp
  have r: "\<bar>dbl (1 / 10) - 1 / 10\<bar> \<le> 1 / 9000000000000000" using dbl_bound [of "1 / 10" 1] by simp
  have r1: "\<bar>dbl (1 / 10)\<bar> \<le> 1" using r unfolding abs_le_iff by linarith
  have "\<bar>cents 145 * dbl (1 / 10) - 145 / 1000\<bar> = \<bar>(cents 145 - 145 / 100) * dbl (1 / 10) + 145 / 100 * (dbl (1 / 10) - 1 / 10)\<bar>"
    by (simp add: algebra_simps)
  also have "\<dots> \<le> \<bar>cents 145 - 145 / 100\<bar> * \<bar>dbl (1 / 10)\<bar> + \<bar>145 / 100\<bar> * \<bar>dbl (1 / 10) - 1 / 10\<bar>"
    unfolding abs_mult [symmetric] by (rule abs_triangle_ineq)
  also have "\<dots> \<le> 1 / 800000000 * 1 + 145 / 100 * (1 / 9000000000000000)"
    using a r r1 by (intro add_mono mult_mono) auto
  finally have m: "\<bar>cents 145 * dbl (1 / 10) - 145 / 1000\<bar> \<le> 1 / 700000000" by simp
  then have "\<bar>cents 145 * dbl (1 / 10)\<bar> \<le> 1" unfolding abs_le_iff by linarith
  then have "\<bar>x - cents 145 * dbl (1 / 10)\<bar> \<le> 1 / 9000000000000000" using dbl_bound [of "cents 145 * dbl (1 / 10)" 1] by (simp add: x_def)
  with m show x: "\<bar>x - 145 / 1000\<bar> \<le> 1 / 100000000" unfolding abs_le_iff by linarith
  show "roundToCents x = Inr (cents 14)"
    by (rule roundToCents_near [where s = 1450000]) (use x in \<open>simp_all add: roundDiv_def DEFAULT_MODE_def\<close>)
  have "\<bar>x / 2\<bar> \<le> 1" using x unfolding abs_le_iff by linarith
  then have "\<bar>dbl (x / 2) - x / 2\<bar> \<le> 1 / 9000000000000000" using dbl_bound [of "x / 2" 1] by simp
  then have h: "\<bar>dbl (x / 2) - 725 / 10000\<bar> \<le> 1 / 50000000" using x unfolding abs_le_iff by linarith
  show "roundToCents (dbl (x / 2)) = Inr (cents 7)"
    by (rule roundToCents_near [where s = 725000]) (use h in \<open>simp_all add: roundDiv_def DEFAULT_MODE_def\<close>)
  have c7: "\<bar>cents 7 - 7 / 100\<bar> \<le> 1 / 800000000" using cents_bound [of 7] by simp
  have "\<bar>x - cents 7\<bar> \<le> 1" using x c7 unfolding abs_le_iff by linarith
  then have "\<bar>dbl (x - cents 7) - (x - cents 7)\<bar> \<le> 1 / 9000000000000000" using dbl_bound [of "x - cents 7" 1] by simp
  then have d: "\<bar>dbl (x - cents 7) - 75 / 1000\<bar> \<le> 1 / 50000000" using x c7 unfolding abs_le_iff by linarith
  show "roundToCents (dbl (x - cents 7)) = Inr (cents 8)"
    by (rule roundToCents_near [where s = 750000]) (use d in \<open>simp_all add: roundDiv_def DEFAULT_MODE_def\<close>)
qed

text \<open>
  The interest of the schedule without fees need not add up to the total shown with it: for 1.45 at ten percent over sixty days the total is
  0.14 and the two portions are 0.07 and 0.08, because the total enters the columns before it is rounded.
\<close>

theorem schedule_interest_off_by_a_cent:
  "\<exists>az. buildAmortizationSchedule (cents 145) 1000 1036800 0 = Inr az \<and> az_totalInterest az = cents 14
    \<and> map am_interestPortion (az_schedule az) = [cents 7, cents 8]"
proof -
  let ?x = "dbl (cents 145 * dbl (of_int 1000 / 10000))"
  note x = demo_interest
  obtain p where p: "roundToCents (dbl (cents 145 / of_nat 2)) = Inr (cents p)" "0 \<le> p" "\<bar>145\<bar> + int 2 * p \<le> 1000000000"
    by (rule portion_in_range [of 145 2]) simp_all
  have q: "\<bar>p\<bar> \<le> 1000000000" "\<bar>145 - p\<bar> \<le> 1000000000" using p(2,3) by auto
  have sum: "roundToCents (dbl (cents a + cents b)) = Inr (cents (a + b))" if "\<bar>a\<bar> \<le> 1000000000" "\<bar>b\<bar> \<le> 1000000000" for a b
    using roundToCents_sum [OF that, of 0] by simp
  have t: "\<bar>cents 145 + ?x\<bar> \<le> 2" using x(1) cents_bound [of 145] unfolding abs_le_iff by simp
  obtain d where d: "roundToCents (dbl (cents 145 + ?x)) = Inr d"
  proof -
    have "0 \<le> dbl (cents 145 + ?x)" using x(1) cents_nonneg [of 145] unfolding abs_le_iff by (intro dbl_nonneg) auto
    moreover have "dbl (cents 145 + ?x) \<le> 100000000" using dbl_bound [OF t] t unfolding abs_le_iff by linarith
    ultimately show ?thesis using that by (metis roundToCents_some)
  qed
  have two: "[1..<2 + 1] = [1, 2 :: nat]" by (simp add: upt_rec)
  have rows: "amortization_loop 0 days 2 (dbl (cents 145 / of_nat 2)) (dbl (?x / of_nat 2)) [1, 2] (cents 145) ?x = Inr rs
      \<Longrightarrow> map am_interestPortion rs = [cents 7, cents 8]" for days rs
    using x p(1) q roundToCents_diff [of 145 p] roundToCents_cents [of 8] roundToCents_diff [of 8 8] roundToCents_cents [of "145 - p"]
      roundToCents_diff [of "145 - p" "145 - p"] sum [of p 7] sum [of "145 - p" 8] by auto
  have ok: "\<exists>rs. amortization_loop 0 days 2 (dbl (cents 145 / of_nat 2)) (dbl (?x / of_nat 2)) [1, 2] (cents 145) ?x = Inr rs" for days
    using x p(1) q roundToCents_diff [of 145 p] roundToCents_cents [of 8] roundToCents_diff [of 8 8] roundToCents_cents [of "145 - p"]
      roundToCents_diff [of "145 - p" "145 - p"] sum [of p 7] sum [of "145 - p" 8] by simp
  obtain rs where rs: "amortization_loop 0 (dbl (dbl (of_int 1036800 / LEDGER_DAY) / of_nat 2)) 2 (dbl (cents 145 / of_nat 2)) (dbl (?x / of_nat 2)) [1, 2] (cents 145) ?x = Inr rs"
    using ok by blast
  have "roundToCents (cents 145) = Inr (cents 145)" by (rule roundToCents_cents) simp
  then show ?thesis
    using rs rows [OF rs] d x(2) unfolding buildAmortizationSchedule_def Let_def demo_period_count two by simp
qed

end
