(* ===== verification/LoanStatus.thy ===== *)
theory LoanStatus
  imports Amortization "HOL-Library.Multiset"
begin

section \<open>What a loan owes (\<open>controllers/loanController.ts\<close>)\<close>

text \<open>
  The same loan is summarised twice: the listing of a borrower's loans computes in SQL, the page of one loan with the money
  policy. Both are functions of the indexed events, the last indexed ledger and the configured defaults. PostgreSQL's division of
  numerics is a parameter: it rounds to some number of digits. Shown: the page's interest is the exact one rounded half to even, the
  two agree on the status of a loan unless what it owes lies between half a stroop and a stroop, and where they do not agree.
\<close>

subsection \<open>The page of a loan\<close>

text \<open>\<open>getLatestLedger\<close>: the least ledger any indexer has finished.\<close>

definition getLatestLedger :: "(int option \<times> int) list \<Rightarrow> int" where
  "getLatestLedger rows =
     (case map (\<lambda>(finalized, l). case finalized of None \<Rightarrow> l | Some f \<Rightarrow> f) rows of [] \<Rightarrow> 0 | l # ls \<Rightarrow> fold min ls l)"

definition stored_amount :: "contract_event \<Rightarrow> stroop_value" where
  "stored_amount e = (case ce_amount e of None \<Rightarrow> SNull | Some s \<Rightarrow> SStr s)"

fun sum_whole :: "stroop_value list \<Rightarrow> MoneyError + int" where
  "sum_whole [] = Inr 0"
| "sum_whole (v # vs) = try_then (toWholeStroops v) (\<lambda>a. try_then (sum_whole vs) (\<lambda>s. Inr (a + s)))"

text \<open>\<open>x || d\<close> for a column that may be null.\<close>

definition or_default :: "int option \<Rightarrow> int \<Rightarrow> int" where
  "or_default v d = (case v of None \<Rightarrow> d | Some x \<Rightarrow> if x = 0 then d else x)"

datatype loan_status = Pending_indexing | Defaulted | Active | Repaid

record loan_summary =
  ls_principal :: int
  ls_accruedInterest :: "int option"
  ls_totalRepaid :: int
  ls_totalOwed :: "int option"
  ls_rateBps :: int
  ls_termLedgers :: int
  ls_elapsedLedgers :: int
  ls_status :: loan_status
  ls_disputeFrozen :: bool

definition freeze_ledger :: "int option \<Rightarrow> contract_event list \<Rightarrow> int option" where
  "freeze_ledger disputed rows =
     (case disputed of
        None \<Rightarrow> None
      | Some t \<Rightarrow> (case rev (filter (\<lambda>e. ce_ledger_closed_at e \<le> t) rows) of [] \<Rightarrow> None | e # _ \<Rightarrow> Some (ce_ledger e)))"

text \<open>The amounts of the answer before their conversion; \<open>disputed\<close> is the time of the oldest open dispute.\<close>

definition getLoanDetails :: "LoanTermConfig \<Rightarrow> int \<Rightarrow> int option \<Rightarrow> int \<Rightarrow> contract_event list \<Rightarrow> thrown + loan_summary" where
  "getLoanDetails config currentLedger disputed loan es =
     (let rows = loan_rows loan es;
          of_type = (\<lambda>t. filter (\<lambda>e. ce_event_type e = t) rows);
          approval = (case rev (of_type ''LoanApproved'') of [] \<Rightarrow> None | a # _ \<Rightarrow> Some a)
      in if rows = [] then Inl (App (notFound ''Loan not found'' (Some LOAN_NOT_FOUND) (Some ''loanId'')))
         else case try_then (toWholeStroops (case of_type ''LoanRequested'' of [] \<Rightarrow> SUndefined | r # _ \<Rightarrow> stored_amount r)) (\<lambda>p.
                   try_then (sum_whole (map stored_amount (of_type ''LoanRepaid''))) (\<lambda>r. Inr (p, r))) of
             Inl _ \<Rightarrow> Inl (Unexpected ''MoneyError'' [])
           | Inr (p, totalRepaid) \<Rightarrow>
               (let rateBps = or_default (Option.bind approval ce_interest_rate_bps) (defaultInterestRateBps config);
                    termLedgers = or_default (Option.bind approval ce_term_ledgers) (defaultTermLedgers config);
                    approvedLedger = (case approval of None \<Rightarrow> 0 | Some a \<Rightarrow> ce_ledger a);
                    freezeLedger = freeze_ledger disputed rows;
                    elapsedLedgers = max 0 ((case freezeLedger of None \<Rightarrow> currentLedger | Some f \<Rightarrow> f) - approvedLedger);
                    isDefaulted = list_ex (\<lambda>e. ce_event_type e = ''LoanDefaulted'') rows;
                    isPending = approvedLedger \<le> 0 \<or> currentLedger < approvedLedger
                in case (if isPending then Inr 0 else roundDiv (p * rateBps * elapsedLedgers) (10000 * termLedgers) DEFAULT_MODE) of
                     Inl _ \<Rightarrow> Inl (Unexpected ''MoneyError'' [])
                   | Inr accrued \<Rightarrow>
                       (let owed = p + accrued - totalRepaid
                        in Inr \<lparr>ls_principal = p, ls_accruedInterest = (if isPending then None else Some accrued), ls_totalRepaid = totalRepaid,
                                ls_totalOwed = (if isPending then None else Some owed), ls_rateBps = rateBps, ls_termLedgers = termLedgers,
                                ls_elapsedLedgers = elapsedLedgers,
                                ls_status = (if isPending then Pending_indexing else if isDefaulted then Defaulted else if 0 < owed then Active else Repaid),
                                ls_disputeFrozen = (freezeLedger \<noteq> None)\<rparr>)))"

subsection \<open>The listing\<close>

text \<open>The number a stored amount is, and \<open>MAX\<close> and \<open>SUM\<close> over the rows of a type, which pass over null.\<close>

definition column_amount :: "contract_event \<Rightarrow> int option" where
  "column_amount e = (case ce_amount e of None \<Rightarrow> None | Some s \<Rightarrow> (case toWholeStroops (SStr s) of Inl _ \<Rightarrow> None | Inr n \<Rightarrow> Some n))"

definition max_of :: "'a :: linorder list \<Rightarrow> 'a option" where
  "max_of xs = (case xs of [] \<Rightarrow> None | x # xs \<Rightarrow> Some (fold max xs x))"

definition max_column :: "string \<Rightarrow> (contract_event \<Rightarrow> int option) \<Rightarrow> contract_event list \<Rightarrow> int option" where
  "max_column t f rows = max_of (List.map_filter f (filter (\<lambda>e. ce_event_type e = t) rows))"

record listed_loan =
  ll_principal :: "int option"
  ll_accrued_interest :: "rat option"
  ll_total_repaid :: int
  ll_total_owed :: "rat option"
  ll_status :: loan_status

text \<open>
  The row of one loan. The products by the term are of integers, so they may be out of range; a default is taken to be an integer
  in range. The time of the next payment is left out, and with it the filters and the page, which do not touch the row.
\<close>

definition list_loan :: "(int \<Rightarrow> int \<Rightarrow> rat) \<Rightarrow> LoanTermConfig \<Rightarrow> int \<Rightarrow> string \<Rightarrow> int \<Rightarrow> contract_event list \<Rightarrow> db_error + listed_loan" where
  "list_loan pg_div config currentLedger borrower loan es =
     (let rows = filter (\<lambda>e. ce_loan_id e = Some loan \<and> ce_address e = Some borrower) es;
          p = max_column ''LoanRequested'' column_amount rows;
          approved_ledger = max_column ''LoanApproved'' (\<lambda>e. Some (ce_ledger e)) rows;
          rate = (case max_column ''LoanApproved'' ce_interest_rate_bps rows of None \<Rightarrow> defaultInterestRateBps config | Some r \<Rightarrow> r);
          term = (case max_column ''LoanApproved'' ce_term_ledgers rows of None \<Rightarrow> defaultTermLedgers config | Some t \<Rightarrow> t);
          repaid = sum_list (List.map_filter column_amount (filter (\<lambda>e. ce_event_type e = ''LoanRepaid'') rows));
          is_defaulted = list_ex (\<lambda>e. ce_event_type e = ''LoanDefaulted'') rows;
          elapsed = max 0 (currentLedger - (case approved_ledger of None \<Rightarrow> 0 | Some l \<Rightarrow> l))
      in if \<not> int4 (10000 * term) \<or> approved_ledger \<noteq> None \<and> \<not> int4 (term * ledgerCloseSeconds config) then Inl (DbError ''22003'')
         else if term = 0 \<and> p \<noteq> None then Inl (DbError ''22012'')
         else (let accrued = map_option (\<lambda>p. pg_div (p * rate * elapsed) (10000 * term)) p;
                   owed = (case (p, accrued) of (Some p, Some a) \<Rightarrow> Some (of_int p + a - of_int repaid) | _ \<Rightarrow> None)
               in Inr \<lparr>ll_principal = p, ll_accrued_interest = accrued, ll_total_repaid = repaid, ll_total_owed = owed,
                       ll_status = (if (case approved_ledger of None \<Rightarrow> True | Some l \<Rightarrow> l = 0 \<or> currentLedger < l) then Pending_indexing
                                    else if is_defaulted then Defaulted
                                    else case owed of Some x \<Rightarrow> if 1 \<le> x then Active else Repaid | None \<Rightarrow> Repaid)\<rparr>))"

subsection \<open>The two agree\<close>

text \<open>
  What the proof needs of PostgreSQL's division: it rounds to a grid that holds the integers, so it never falls below an integer
  the quotient reaches, and never reaches one the quotient misses by more than a half.
\<close>

definition numeric_division :: "(int \<Rightarrow> int \<Rightarrow> rat) \<Rightarrow> bool" where
  "numeric_division pg_div \<longleftrightarrow>
     (\<forall>a b k. 0 < b \<longrightarrow> (k * b \<le> a \<longrightarrow> of_int k \<le> pg_div a b) \<and> (2 * a < (2 * k - 1) * b \<longrightarrow> pg_div a b < of_int k))"

lemma column_stored: "column_amount e = Some n \<Longrightarrow> toWholeStroops (stored_amount e) = Inr n"
  by (auto simp: column_amount_def stored_amount_def split: option.splits sum.splits)

lemma sum_whole_columns:
  "\<forall>e\<in>set rows. column_amount e \<noteq> None \<Longrightarrow>
   sum_whole (map stored_amount rows) = Inr (\<Sum>e\<leftarrow>rows. the (column_amount e))"
  by (induction rows) (auto simp: column_stored)

lemma map_filter_the: "\<forall>e\<in>set rows. f e \<noteq> None \<Longrightarrow> List.map_filter f rows = map (\<lambda>e. the (f e)) rows"
  by (induction rows) (auto simp: map_filter_simps)

lemma sum_list_sort_key: "sum_list (map (f :: _ \<Rightarrow> int) (sort_key g xs)) = sum_list (map f xs)"
  by (metis mset_map mset_sort sum_mset_sum_list)

definition loan_events_of :: "int \<Rightarrow> string \<Rightarrow> contract_event list \<Rightarrow> contract_event list" where
  "loan_events_of loan t es = filter (\<lambda>e. ce_loan_id e = Some loan \<and> ce_event_type e = t) es"

lemma of_type_loan_rows:
  "filter (\<lambda>e. ce_event_type e = t) (loan_rows loan es)
   = sort_key (\<lambda>e. (ce_ledger_closed_at e, ce_ledger e)) (loan_events_of loan t es)"
  by (simp add: loan_rows_def filter_sort loan_events_of_def conj_commute)

lemma of_type_listed:
  assumes "\<forall>e\<in>set es. ce_loan_id e = Some loan \<longrightarrow> ce_address e = Some borrower"
  shows "filter (\<lambda>e. ce_event_type e = t) (filter (\<lambda>e. ce_loan_id e = Some loan \<and> ce_address e = Some borrower) es)
         = loan_events_of loan t es"
  using assms unfolding loan_events_of_def filter_filter by (intro filter_cong) auto

lemma list_ex_listed:
  assumes "\<forall>e\<in>set es. ce_loan_id e = Some loan \<longrightarrow> ce_address e = Some borrower"
  shows "list_ex (\<lambda>e. ce_event_type e = t) (filter (\<lambda>e. ce_loan_id e = Some loan \<and> ce_address e = Some borrower) es)
         \<longleftrightarrow> loan_events_of loan t es \<noteq> []"
  using assms by (auto simp: list_ex_iff loan_events_of_def filter_empty_conv)

lemma list_ex_loan_rows: "list_ex (\<lambda>e. ce_event_type e = t) (loan_rows loan es) \<longleftrightarrow> loan_events_of loan t es \<noteq> []"
  by (auto simp: loan_rows_def list_ex_iff loan_events_of_def filter_empty_conv)

lemma rounded_reaches:
  assumes "nearest a b q" "0 < b"
  shows "k * b \<le> a \<Longrightarrow> k \<le> q" and "2 * a < (2 * k - 1) * b \<Longrightarrow> q < k"
proof -
  have q: "2 * (a - q * b) \<le> b" "2 * (q * b - a) \<le> b"
    using assms by (simp_all add: nearest_def abs_if split: if_splits)
  show "k \<le> q" if "k * b \<le> a"
  proof (rule ccontr)
    assume "\<not> k \<le> q"
    then have "(q + 1) * b \<le> k * b" using assms(2) by (intro mult_right_mono) auto
    then show False using q that assms(2) by (simp add: algebra_simps)
  qed
  show "q < k" if "2 * a < (2 * k - 1) * b"
  proof (rule ccontr)
    assume "\<not> q < k"
    then have "k * b \<le> q * b" using assms(2) by (intro mult_right_mono) auto
    then show False using q that by (simp add: algebra_simps)
  qed
qed

lemma half_even_reaches:
  assumes "0 < b"
  obtains q where "roundDiv a b DEFAULT_MODE = Inr q" "nearest a b q"
  using half_even_pos [OF assms, of a] by (auto simp: DEFAULT_MODE_def)

text \<open>A loan with one request and one approval that says everything, and amounts that can be read.\<close>

definition plain_loan :: "LoanTermConfig \<Rightarrow> int \<Rightarrow> contract_event list \<Rightarrow> int \<Rightarrow> int \<Rightarrow> int \<Rightarrow> int \<Rightarrow> bool" where
  "plain_loan config loan es p rate t since \<longleftrightarrow>
     (\<exists>r a. loan_events_of loan ''LoanRequested'' es = [r] \<and> column_amount r = Some p
        \<and> loan_events_of loan ''LoanApproved'' es = [a] \<and> ce_ledger a = since \<and> ce_interest_rate_bps a = Some rate \<and> ce_term_ledgers a = Some t)
     \<and> list_all (\<lambda>e. column_amount e \<noteq> None) (loan_events_of loan ''LoanRepaid'' es)
     \<and> 0 < since \<and> rate \<noteq> 0 \<and> 0 < t \<and> int4 (10000 * t) \<and> int4 (t * ledgerCloseSeconds config)"

definition repaid_of :: "int \<Rightarrow> contract_event list \<Rightarrow> int" where
  "repaid_of loan es = (\<Sum>e\<leftarrow>loan_events_of loan ''LoanRepaid'' es. the (column_amount e))"

definition status_of :: "int \<Rightarrow> contract_event list \<Rightarrow> int \<Rightarrow> int \<Rightarrow> bool \<Rightarrow> loan_status" where
  "status_of loan es currentLedger since owing =
     (if currentLedger < since then Pending_indexing else if loan_events_of loan ''LoanDefaulted'' es \<noteq> [] then Defaulted
      else if owing then Active else Repaid)"

lemma page_of_plain_loan:
  assumes "plain_loan config loan es p rate t since" "roundDiv (p * rate * max 0 (currentLedger - since)) (10000 * t) DEFAULT_MODE = Inr q"
  shows "\<exists>d. getLoanDetails config currentLedger None loan es = Inr d \<and> ls_principal d = p \<and> ls_totalRepaid d = repaid_of loan es
           \<and> ls_status d = status_of loan es currentLedger since (0 < p + q - repaid_of loan es)"
proof -
  obtain r a where ra: "loan_events_of loan ''LoanRequested'' es = [r]" "toWholeStroops (stored_amount r) = Inr p"
      "loan_events_of loan ''LoanApproved'' es = [a]" "ce_ledger a = since" "ce_interest_rate_bps a = Some rate" "ce_term_ledgers a = Some t"
    and pos: "0 < since" "rate \<noteq> 0" "0 < t"
    using assms(1) by (auto simp: plain_loan_def column_stored)
  have nonempty: "loan_rows loan es \<noteq> []"
    using of_type_loan_rows [of "''LoanRequested''" loan es] ra(1) by auto
  have repaid: "sum_whole (map stored_amount (sort_key (\<lambda>e. (ce_ledger_closed_at e, ce_ledger e)) (loan_events_of loan ''LoanRepaid'' es)))
      = Inr (repaid_of loan es)"
    using assms(1) by (subst sum_whole_columns) (auto simp: plain_loan_def list_all_iff sum_list_sort_key repaid_of_def)
  show ?thesis
    using ra pos nonempty repaid assms(2)
    by (cases "currentLedger < since")
       (simp_all add: getLoanDetails_def Let_def of_type_loan_rows list_ex_loan_rows or_default_def freeze_ledger_def status_of_def)
qed

lemma row_of_plain_loan:
  assumes "plain_loan config loan es p rate t since" "\<forall>e\<in>set es. ce_loan_id e = Some loan \<longrightarrow> ce_address e = Some borrower"
  shows "\<exists>l. list_loan pg_div config currentLedger borrower loan es = Inr l \<and> ll_principal l = Some p
           \<and> ll_total_repaid l = repaid_of loan es
           \<and> ll_status l = status_of loan es currentLedger since
               (1 \<le> of_int p + pg_div (p * rate * max 0 (currentLedger - since)) (10000 * t) - of_int (repaid_of loan es))"
proof -
  obtain r a where ra: "loan_events_of loan ''LoanRequested'' es = [r]" "column_amount r = Some p"
      "loan_events_of loan ''LoanApproved'' es = [a]" "ce_ledger a = since" "ce_interest_rate_bps a = Some rate" "ce_term_ledgers a = Some t"
    and pos: "0 < since" "rate \<noteq> 0" "0 < t" "int4 (10000 * t)" "int4 (t * ledgerCloseSeconds config)"
    using assms(1) by (auto simp: plain_loan_def)
  have repaid: "sum_list (List.map_filter column_amount (loan_events_of loan ''LoanRepaid'' es)) = repaid_of loan es"
    using assms(1) by (subst map_filter_the) (auto simp: plain_loan_def list_all_iff repaid_of_def)
  show ?thesis
    using ra pos repaid
    by (cases "currentLedger < since")
       (simp_all add: list_loan_def Let_def max_column_def of_type_listed [OF assms(2)] list_ex_listed [OF assms(2)]
          max_of_def map_filter_simps status_of_def del: filter_filter)
qed

text \<open>The page of a loan and the listing of its borrower's loans agree. For a loan with one request, one approval that says rate
  and term, readable amounts and no open dispute, whose events all name the borrower, both answer, with the same principal and the
  same sum of repayments, and with the same status unless what is owed lies from half a stroop up to, and not including, a
  stroop.\<close>

theorem loan_status_agrees:
  assumes pg: "numeric_division pg_div" and plain: "plain_loan config loan es p rate t since"
    and named: "\<forall>e\<in>set es. ce_loan_id e = Some loan \<longrightarrow> ce_address e = Some borrower"
  shows "\<exists>d l. getLoanDetails config currentLedger None loan es = Inr d \<and> list_loan pg_div config currentLedger borrower loan es = Inr l
           \<and> ls_principal d = p \<and> ll_principal l = Some p
           \<and> ls_totalRepaid d = repaid_of loan es \<and> ll_total_repaid l = repaid_of loan es
           \<and> (ls_status d = ll_status l
              \<or> (let owed = of_int (p - repaid_of loan es) + of_int (p * rate * (currentLedger - since)) / of_int (10000 * t)
                 in 1 / 2 \<le> owed \<and> owed < (1 :: rat)))"
proof -
  let ?N = "p * rate * max 0 (currentLedger - since)" and ?D = "10000 * t" and ?k = "1 + repaid_of loan es - p"
  have D: "0 < ?D" using plain by (simp add: plain_loan_def)
  obtain q where q: "roundDiv ?N ?D DEFAULT_MODE = Inr q" "nearest ?N ?D q"
    by (rule half_even_reaches [OF D])
  have threshold: "0 < p + q - repaid_of loan es \<longleftrightarrow> ?k \<le> q" by linarith
  obtain d where d: "getLoanDetails config currentLedger None loan es = Inr d" "ls_principal d = p" "ls_totalRepaid d = repaid_of loan es"
      "ls_status d = status_of loan es currentLedger since (?k \<le> q)"
    using page_of_plain_loan [OF plain q(1)] unfolding threshold by blast
  obtain l where l: "list_loan pg_div config currentLedger borrower loan es = Inr l" "ll_principal l = Some p"
      "ll_total_repaid l = repaid_of loan es" "ll_status l = status_of loan es currentLedger since (of_int ?k \<le> pg_div ?N ?D)"
    using row_of_plain_loan [OF plain named, of pg_div currentLedger] by (auto simp: algebra_simps)
  consider (pending) "currentLedger < since" | (reached) "since \<le> currentLedger" "?k * ?D \<le> ?N" 
    | (missed) "since \<le> currentLedger" "2 * ?N < (2 * ?k - 1) * ?D"
    | (between) "since \<le> currentLedger" "?N < ?k * ?D" "(2 * ?k - 1) * ?D \<le> 2 * ?N"
    by linarith
  then have "ls_status d = ll_status l \<or> (let owed = of_int (p - repaid_of loan es) + of_int (p * rate * (currentLedger - since)) / of_int ?D
                 in 1 / 2 \<le> owed \<and> owed < (1 :: rat))"
  proof cases
    case pending
    then show ?thesis by (simp add: d l status_of_def)
  next
    case reached
    then have "of_int ?k \<le> pg_div ?N ?D" "?k \<le> q"
      using pg D rounded_reaches(1) [OF q(2) D, of ?k] unfolding numeric_division_def by blast+
    then show ?thesis by (simp only: d(4) l(4) simp_thms)
  next
    case missed
    then have "\<not> of_int ?k \<le> pg_div ?N ?D" "\<not> ?k \<le> q"
      using pg D rounded_reaches(2) [OF q(2) D, of ?k] unfolding numeric_division_def not_le by blast+
    then show ?thesis by (simp only: d(4) l(4) simp_thms)
  next
    case between
    then have "of_int ?N < (of_int (?k * ?D) :: rat)" "of_int ((2 * ?k - 1) * ?D) \<le> (of_int (2 * ?N) :: rat)"
      by (simp_all only: of_int_less_iff of_int_le_iff)
    then have "of_int ?N / of_int ?D < (of_int ?k :: rat)" "(of_int ?k :: rat) - 1 / 2 \<le> of_int ?N / of_int ?D"
      using D by (simp_all add: field_simps)
    then show ?thesis using between(1) by (simp add: Let_def max_def)
  qed
  then show ?thesis using d(1-3) l(1-3) by blast
qed

lemma exact_numeric_division: "numeric_division (\<lambda>a b. of_int a / of_int b)"
proof -
  have "of_int k \<le> (of_int a / of_int b :: rat)" if "0 < b" "k * b \<le> a" for a b k :: int
  proof -
    have "of_int (k * b) \<le> (of_int a :: rat)" using that(2) by (simp only: of_int_le_iff)
    then show ?thesis using that(1) by (simp add: field_simps)
  qed
  moreover have "of_int a / of_int b < (of_int k :: rat)" if "0 < b" "2 * a < (2 * k - 1) * b" for a b k :: int
  proof -
    have "a < k * b" using that by (simp add: algebra_simps)
    then have "of_int a < (of_int (k * b) :: rat)" by (simp only: of_int_less_iff)
    then show ?thesis using that(1) by (simp add: field_simps)
  qed
  ultimately show ?thesis unfolding numeric_division_def by blast
qed

text \<open>A loan of three stroops, requested and approved in ledger 1, with the repayments given.\<close>

definition loan_event :: "string \<Rightarrow> string option \<Rightarrow> int option \<Rightarrow> int option \<Rightarrow> contract_event" where
  "loan_event type amount rate term =
     \<lparr>ce_event_id = type, ce_event_type = type, ce_loan_id = Some 7, ce_address = Some ''GB'', ce_amount = amount, ce_ledger = 1,
      ce_ledger_closed_at = 0, ce_tx_hash = [], ce_contract_id = [], ce_topics = [], ce_value = [],
      ce_interest_rate_bps = rate, ce_term_ledgers = term\<rparr>"

definition sample_loan :: "int \<Rightarrow> int \<Rightarrow> contract_event list" where
  "sample_loan rate term =
     [loan_event ''LoanRequested'' (Some ''3'') None None, loan_event ''LoanApproved'' None (Some rate) (Some term),
      loan_event ''LoanRepaid'' (Some ''3'') None None]"

definition sample_terms :: LoanTermConfig where
  "sample_terms = \<lparr>defaultTermLedgers = 17280, defaultInterestRateBps = 1200, defaultFeeRateBps = 0, ledgerCloseSeconds = 5\<rparr>"

lemmas sample_defs = sample_loan_def sample_terms_def loan_event_def loan_events_of_def

lemma three_stroops: "whole_of_text ''3'' = Inr 3"
  by code_simp

lemma sample_plain: "rate \<noteq> 0 \<Longrightarrow> 0 < term \<Longrightarrow> term \<le> 214748 \<Longrightarrow> plain_loan sample_terms 7 (sample_loan rate term) 3 rate term 1"
  by (simp add: plain_loan_def sample_defs column_amount_def three_stroops int4_def)

theorem loan_status_agrees_witness:
  "numeric_division (\<lambda>a b. of_int a / of_int b) \<and> plain_loan sample_terms 7 (sample_loan 1200 17280) 3 1200 17280 1
   \<and> (\<forall>e\<in>set (sample_loan 1200 17280). ce_loan_id e = Some 7 \<longrightarrow> ce_address e = Some ''GB'')
   \<and> (\<exists>d l. getLoanDetails sample_terms 1 None 7 (sample_loan 1200 17280) = Inr d
           \<and> list_loan (\<lambda>a b. of_int a / of_int b) sample_terms 1 ''GB'' 7 (sample_loan 1200 17280) = Inr l
           \<and> ls_status d = ll_status l)"
proof -
  have plain: "plain_loan sample_terms 7 (sample_loan 1200 17280) 3 1200 17280 1" by (rule sample_plain) simp_all
  have named: "\<forall>e\<in>set (sample_loan 1200 17280). ce_loan_id e = Some 7 \<longrightarrow> ce_address e = Some ''GB''"
    by (simp add: sample_defs)
  have "repaid_of 7 (sample_loan 1200 17280) = 3" by (simp add: repaid_of_def sample_defs column_amount_def three_stroops)
  then show ?thesis
    using loan_status_agrees [OF exact_numeric_division plain named, of 1] plain named exact_numeric_division by auto
qed

text \<open>The page and the listing may differ. Of three quarters of a stroop of interest the page makes a stroop that is still owed,
  and the listing calls the loan repaid; a rate of zero is zero in the listing, and the configured rate on the page.\<close>

theorem loan_status_differs:
  "map_sum id ls_status (getLoanDetails sample_terms 2 None 7 (sample_loan 2500 1)) = Inr Active
   \<and> map_sum id ll_status (list_loan (\<lambda>a b. of_int a / of_int b) sample_terms 2 ''GB'' 7 (sample_loan 2500 1)) = Inr Repaid
   \<and> map_sum id ls_rateBps (getLoanDetails sample_terms 17281 None 7 (sample_loan 0 17280)) = Inr 1200
   \<and> map_sum id ll_accrued_interest (list_loan (\<lambda>a b. of_int a / of_int b) sample_terms 17281 ''GB'' 7 (sample_loan 0 17280)) = Inr (Some 0)"
  by (intro conjI) code_simp+

text \<open>The listing fails for a loan with a long term. A term of more than 214748 ledgers, twelve and a half days at five seconds
  a ledger, times ten thousand is out of the range of an integer: the query fails, whatever else the borrower has borrowed, while
  the page of the loan answers.\<close>

theorem long_term_blocks_listing:
  assumes "max_column ''LoanApproved'' ce_term_ledgers (filter (\<lambda>e. ce_loan_id e = Some loan \<and> ce_address e = Some borrower) es) = Some t"
    and "214748 < t"
  shows "list_loan pg_div config currentLedger borrower loan es = Inl (DbError ''22003'')"
  using assms by (simp add: list_loan_def Let_def int4_def)

theorem long_term_blocks_listing_witness:
  "list_loan (\<lambda>a b. of_int a / of_int b) sample_terms 2 ''GB'' 7 (sample_loan 1200 518400) = Inl (DbError ''22003'')
   \<and> map_sum id ls_status (getLoanDetails sample_terms 2 None 7 (sample_loan 1200 518400)) = Inr Repaid"
proof -
  have "map_sum id ls_status (getLoanDetails sample_terms 2 None 7 (sample_loan 1200 518400)) = Inr Repaid" by code_simp
  then show ?thesis by (simp add: long_term_blocks_listing [of _ _ _ 518400] max_column_def max_of_def sample_defs map_filter_simps)
qed

end
