(* ===== verification/Spec2Isabelle.thy ===== *)
theory Spec2Isabelle
  imports MoneyFormat AuditMerkle Idempotency ScoreDecay AgentFloat IndexerRuns PauseGuard DefaultChecker IndexerManager WebhookProcessor
    RemittanceList AuthSafety Gates RateLimit CrossReconciler Disputes LoanStatus
begin

text \<open>
  A verification library for DukaPay: a remittance and micro-lending backend in TypeScript
  (\<open>src/backend/src\<close>) whose loans, pool and credit NFTs live in Soroban contracts on Stellar, with
  a web frontend (\<open>src/frontend/src\<close>). The backend keeps in PostgreSQL what it learns from the chain
  and in Redis what must be shared between instances.

  \<^bold>\<open>The parts and how they interact.\<close> A request passes rate limits, authentication by
  tokens from signed challenges, and guards on its role, its scopes and the wallet it asks for.
  The event indexer polls the Soroban RPC server for ledger ranges, decodes contract events, stores
  them in one transaction together with audit rows and credit-score changes, and announces them (webhooks, event streams, notifications, pause state).
  Scores are also reconciled with the chain and decayed by scheduled jobs, and their cached
  copies are dropped on every write. A scheduled checker submits overdue loans for default, and
  refuses to while the index has gaps. Write requests pass the pause guard, which follows the pause
  events of the contracts through a table and a Redis key. Requests that move money carry an
  idempotency key, guarded by a Redis lock. Float transfers between agents go through a
  two-signature life cycle. Borrowers contest defaults, and see schedules and balances computed from
  the indexed events; a reconciler matches custody events with score events. Amounts are
  integers in stroops, converted, rounded and split by one money policy. Audit rows are sealed into
  hash-linked Merkle batches.

  \<^bold>\<open>Theories.\<close>
  \<^item> \<open>Prelude\<close>: decimal text, list, option and sum lemmas, the collections the others extend.
    \<open>StateError\<close>: sequences of awaited calls as state transformers that may throw, with triples.
    \<open>Interfaces\<close>: the locales for a row life cycle and an append-only log.
    \<open>JsDate\<close>, \<open>Json\<close>, \<open>JsonParse\<close>: \<open>toISOString\<close>, \<open>JSON.stringify\<close>, \<open>JSON.parse\<close>, \<open>parseInt\<close>.
  \<^item> \<open>Money\<close> (\<open>backend/src/money/decimal.ts\<close>, \<open>split.ts\<close>) and \<open>MoneyFormat\<close>
    (\<open>frontend/src/lib/money\<close>): rounding modes, stroop conversion, pro-rata splitting, formatting.
    Shown: rounding bounds, exact round trips, that a split pays out exactly the total with shares
    within one stroop of the ideal, and that both sides of the wire agree.
  \<^item> \<open>AuditMerkle\<close> (\<open>backend/src/services/auditMerkleService.ts\<close>): leaves, proofs, sealing and
    anchoring. Shown: proofs verify, verification is sound for a collision-free hash, sealed batches
    never change, and every reachable state serves valid proofs.
  \<^item> \<open>Cache\<close> (\<open>cacheService.ts\<close>) and \<open>Idempotency\<close> (\<open>middleware/idempotency.ts\<close>): Redis as an
    interface, compare-and-delete, the middleware as a step relation over any number of concurrent
    requests. Shown: one handler run per key while its lock lives, mutual exclusion, and that a
    replay is the original response.
  \<^item> \<open>Db\<close> (\<open>db/connection.ts\<close>): \<open>withRetry\<close> and \<open>withTransaction\<close> over any transaction body, with the
    variables the body captures kept across attempts. Shown: atomicity, bounded attempts.
  \<^item> \<open>Scores\<close>, \<open>ScoreReconciliation\<close>, \<open>ScoreDecay\<close> (the services of those names): bulk upserts,
    reconciliation runs and their scheduler, exponential decay over the reals.
  \<^item> \<open>AgentFloat\<close> (\<open>services/agentFloatService.ts\<close>): float transfers as a step relation, an
    instance of the locales of \<open>Interfaces\<close>. Shown: two distinct approvals before execution unless an initiation
    stopped between its two INSERTs, finality of settled transfers, limits.
  \<^item> \<open>EventDecode\<close>, \<open>EventStore\<close>, \<open>EventIndexer\<close> (\<open>services/eventIndexer.ts\<close>,
    \<open>ledgerCheckpoints.ts\<close>): decoding, storing, and polling with checkpoints, reorganisation
    checks, backfill and reindexing. \<open>IndexerSafety\<close> holds the coverage invariant and the triple of
    every operation; \<open>IndexerRuns\<close> the properties of whole runs. Shown: no ledger after the first one a history
    answers for is silently skipped, storing is idempotent and refines an abstract batch, fetching is complete and ends, a
    reorganisation check is exact, finality is respected, reindexing ends, one poll loop.
  \<^item> \<open>IndexerManager\<close> (\<open>services/indexerManager.ts\<close>): the configuration the indexer is started
    with. \<open>PauseGuard\<close> (\<open>middleware/pauseGuard.ts\<close>): the pause state in memory, table and cache,
    its refresh, and the middleware. Shown: what can lift a pause, of whole operations and of overlapping ones,
    unverified state blocks writes, and what becomes of a pause on the schema of the migrations.
  \<^item> \<open>DefaultChecker\<close> (\<open>services/defaultChecker.ts\<close>): the worker pool, overdue selection, batches,
    submission and polling, lock and scheduler. Shown: the pool is \<open>map\<close>, the overdue set is exact,
    batches partition it, runs exclude each other.
  \<^item> \<open>Bytes\<close>: UTF-8, hexadecimal and base64 text of byte strings, with their round trips.
    \<open>PiiCrypto\<close> (\<open>services/piiCrypto.ts\<close>): envelope encryption of fields, tokens, key rotation, the
    access log. Shown: tokens decrypt to the text they were made of, rotation keeps every text.
  \<^item> \<open>NetAddress\<close>, \<open>WebhookSignature\<close>, \<open>Webhooks\<close> (\<open>services/webhookService.ts\<close>), \<open>WebhookProcessor\<close>
    (\<open>webhookRetryProcessor.ts\<close>) and \<open>JobMetrics\<close> (\<open>jobMetricsService.ts\<close>): the guard against private
    addresses, signing and verification, subscriptions, first deliveries and retries as transitions
    of a table of deliveries and a trace of requests. Shown: exactly the private ranges are blocked,
    requests only go to addresses the guard passed, every delivery is attempted at most four times,
    a dispatch leaves one row per subscriber, and no retry is ever made on the migrated tables.
  \<^item> \<open>AppErrors\<close> (\<open>errors/\<close>, \<open>middleware/errorHandler.ts\<close>): error codes, the errors handlers throw, and
    the middleware that answers them. \<open>Doubles\<close>: rounding to binary64 and \<open>toFixed\<close>.
    \<open>JsDateParse\<close>: \<open>Date.parse\<close> of ISO texts. \<open>SqlText\<close>: placeholders of query texts.
  \<^item> \<open>Pagination\<close> (\<open>utils/pagination.ts\<close>) and \<open>Keyset\<close>: query parameters, cursors and pages, with the
    locales for what a table promises its listing. Shown: cursors round trip, pages followed by their
    cursors repeat nothing, and are complete where times are whole milliseconds.
  \<^item> \<open>Compliance\<close> (\<open>services/complianceService.ts\<close>): screening and transaction monitoring.
    \<open>RemittanceData\<close>, \<open>Remittances\<close>, \<open>RemittanceRuns\<close>, \<open>RemittanceList\<close> (\<open>remittanceService.ts\<close>,
    \<open>remittanceMapper.ts\<close>, \<open>remittanceController.ts\<close>): creation, the checks on a signed transaction,
    submission as a step relation over concurrent requests, and the listings. Shown: a remittance is
    submitted at most once, what is sent is what was validated, what is completed was confirmed, settled rows
    are final, and the count query of the listing never binds, so that it never answers.
  \<^item> \<open>Rbac\<close> (\<open>auth/rbac.ts\<close>, \<open>middleware/rbac.ts\<close>, \<open>loanAccess.ts\<close>, \<open>tenantService.ts\<close>): roles, scopes, assignments
    and the guards on them. \<open>Auth\<close> (\<open>authService.ts\<close>, \<open>middleware/jwtAuth.ts\<close>, \<open>authController.ts\<close>): challenges,
    token families and revocation, with \<open>AuthSafety\<close> for runs of concurrent requests. \<open>Gates\<close>
    (\<open>middleware/csrf.ts\<close>, \<open>middleware/auth.ts\<close>): CSRF tokens and API keys. Shown: a challenge yields tokens at most
    once, a login needs a signed challenge, a logout ends its session, a replayed refresh token
    ends its family, scopes are capped to the current role, and exactly who passes each guard.
  \<^item> \<open>RateLimit\<close> (\<open>rateLimitService.ts\<close>, \<open>rateLimitMiddleware.ts\<close>): the sliding window in Redis and in memory,
    two instances of one locale. Shown: how many requests a span of time admits, with calls that reach Redis late
    and overtake one another.
  \<^item> \<open>CrossReconciler\<close> (\<open>services/crossContractReconciler.ts\<close>): intents of custody events against the score events
    that answer them, compensation, and the saga helper. Shown: one row per event, which rows a run settles,
    sagas are all or nothing, and what blocks every run.
  \<^item> \<open>Sanitize\<close> (\<open>utils/sanitize.ts\<close>) and \<open>Disputes\<close> (\<open>controllers/adminDisputeController.ts\<close>,
    \<open>loanController.contestDefault\<close>): disputes of defaults. Shown: a decision is final, and what happens to it on
    the tables of the migrations.
  \<^item> \<open>Amortization\<close>, \<open>LoanStatus\<close> (\<open>controllers/loanController.ts\<close>): repayment schedules in doubles rounded to
    cents, and what a loan owes on its page and in the listing. Shown: the columns of a repayment preview
    add up to the cent, and where page and listing agree.
  \<^item> This theory: properties over several of them at once (pause events through store and guard,
    defaults against the coverage of the index, reconciliation against indexed borrowers).

  \<^bold>\<open>State and effects.\<close> A table is a list of records in insertion order or a map by key; an \<open>async\<close>
  method is a function from the state to a result or error and the state it leaves. Every statement
  that writes may fail where the environment of the theory says so (\<open>store_env\<close>, \<open>poll_env\<close>, \<open>float_env\<close>, the
  choices of the step relations): a theorem over all environments covers these failures. \<open>AuditMerkle\<close> has no
  failing statements inside a sealing run, and the read-only endpoints are given for queries that succeed. Concurrent
  requests are interleaved, at their awaits, by the step relations of \<open>Idempotency\<close>, \<open>PauseGuard\<close>, \<open>Remittances\<close> and
  \<open>AuthSafety\<close> (logins); \<open>AgentFloat\<close>, \<open>Disputes\<close> and \<open>CrossReconciler\<close> take whole requests and runs one at a time.
  A statement that fails has no effect; the process and the database run in UTC.

  \<^bold>\<open>Parameters.\<close> The Stellar SDK (\<open>sdk\<close>, \<open>stellar\<close>), the RPC server (\<open>rpc\<close>), the screening and filing services, dates
  outside the ISO format (\<open>js_env\<close>), signatures and JSON Web Tokens (\<open>auth_sdk\<close>), SHA-256, the order of
  \<open>localeCompare\<close>, the Redis server (\<open>redis\<close>) and PostgreSQL's cast to numeric are arguments; what a
  property needs of them is a named hypothesis (\<open>rpc_serves\<close>, \<open>redis_ok\<close>, injectivity of the
  hash, the array syntax of a text column) and each such property has a witness on a concrete instance.

  \<^bold>\<open>Fuel.\<close> \<open>fetch_pages\<close> and \<open>reindex_loop\<close> carry fuel because the sources loop as long as the
  server sends pages and the batch size moves them on. One page per event of the chain and two to
  spare is enough for a fetch (\<open>fetch_complete\<close>), one turn per ledger and one more for reindexing
  (\<open>reindexRange_terminates\<close>). Every other loop is structural or bounded by the source.

  \<^bold>\<open>Not modelled.\<close> Express routing, OpenAPI descriptions, the rendering parts of the frontend,
  the package behind \<open>rateLimiter.ts\<close>, notifications, logging and metrics, the Rust contracts, and the
  floating-point helpers of \<open>calculations.ts\<close>. Numbers that the sources keep
  as doubles are integers where the code keeps them integral, and rounded as the standard says where
  it does not.
\<close>

section \<open>Properties across components\<close>

text \<open>The indexer's announcement of a pause, with the pause guard behind it.\<close>

definition guarded_env :: "'s redis \<Rightarrow> pause_env \<Rightarrow> 's pause_sys \<Rightarrow> store_env \<Rightarrow> store_env" where
  "guarded_env r penv psys senv =
     senv\<lparr>pause_persists := (\<lambda>paused cs. fst (setPauseState r penv paused cs
       (Some (if paused then ''Emergency pause triggered by contract'' else ''Contract pause lifted'')) psys) = Inr ())\<rparr>"

lemma fresh_events_id: "(e, row) \<in> set (fresh_events env es rows) \<Longrightarrow> ce_event_id row = x_eventId e"
proof (induction es arbitrary: rows)
  case (Cons a es)
  then show ?case by (auto simp: to_row_def try_then_Inr split: sum.splits if_splits)
qed simp

lemma announce_all_pause:
  assumes "e \<in> set es" "x_eventType e = ''PoolPaused''" "\<not> pause_persists env True [x_contractId e]"
  shows "\<not> snd (announce_all env es)"
  using assms(1)
proof (induction es)
  case (Cons a es)
  have "\<not> snd (announce env e)" using assms(2,3) by (auto simp: announce_def Let_def split: option.splits)
  with Cons show ?case by (auto split: prod.splits bool.splits)
qed simp

text \<open>
  A pause event is stored once and then lost: on the schema of the migrations, storing a batch
  with a new \<open>PoolPaused\<close> event commits the batch and then fails, and storing the batch again
  succeeds without announcing the pause a second time.
\<close>

theorem pause_event_lost_after_failure:
  assumes "array_syntax (pz_array penv)" "env = guarded_env r penv psys senv"
    and "\<And>k. stmt_fault senv 0 k = None" "commit_fault senv 0 = None"
    and "\<forall>x\<in>set (parsed_events sdk evs). \<exists>row. to_row env x = Inr row"
    and "small_deltas env (map fst (fresh_events env (parsed_events sdk evs) (ix_events (st_db st))))"
    and "e \<in> set (map fst (fresh_events env (parsed_events sdk evs) (ix_events (st_db st))))"
    and "x_eventType e = ''PoolPaused''"
    and "storeEvents sdk red env evs st = (res, out, st1)"
  shows "res = Inl AnnouncementFailed
    \<and> (\<exists>row\<in>set (ix_events (st_db st1)). ce_event_id row = x_eventId e)
    \<and> set (fst (snd (storeEvents sdk red env evs st1))) \<subseteq> range QuarantineAlert"
proof -
  let ?es = "parsed_events sdk evs" and ?fr = "fresh_events env (parsed_events sdk evs) (ix_events (st_db st))"
  have flt: "\<And>k. stmt_fault env 0 k = None" "commit_fault env 0 = None"
    using assms(2-4) by (simp_all add: guarded_env_def)
  obtain v where v: "sv_insertedEvents v = map fst ?fr" "run_tx red env ?es st = (Inr (), v, body_db env [] ?es (st_db st))"
    using run_tx_spec [OF flt assms(5,6)] by blast
  obtain err where "fst (setPauseState r penv True [x_contractId e] (Some ''Emergency pause triggered by contract'') psys) = Inl err"
    using rejected_set [OF assms(1)] by metis
  then have "\<not> pause_persists env True [x_contractId e]" using assms(2) by (simp add: guarded_env_def)
  with assms(7,8) v(1) have "\<not> snd (announce_all env (sv_insertedEvents v))" by (metis announce_all_pause)
  then have res: "res = Inl AnnouncementFailed"
    using storeEvents_result [of sdk red env evs st] v(2) assms(9) by (simp add: outcome_def)
  have db: "st_db st1 = body_db env [] ?es (st_db st)"
    using storeEvents_db [of sdk red env evs st] v(2) assms(9) by simp
  obtain row where row: "(e, row) \<in> set ?fr" using assms(7) by auto
  then have "row \<in> set (ix_events (st_db st1))" unfolding db by (force simp: body_db_def Let_def)
  then have "\<exists>row\<in>set (ix_events (st_db st1)). ce_event_id row = x_eventId e" using fresh_events_id [OF row] by blast
  moreover have "set (fst (snd (storeEvents sdk red env evs st1))) \<subseteq> range QuarantineAlert"
    by (rule storeEvents_replay [where env = env and st = st, THEN conjunct2, THEN conjunct2])
      (use assms(9) res in simp_all)
  ultimately show ?thesis using res by blast
qed

definition paused_event :: "native SorobanRawEvent" where
  "paused_event = (repaid_event ''p1'' 6)\<lparr>ev_topic := [NStr ''PoolPaused'']\<rparr>"

definition paused_parsed :: ContractEvent where
  "paused_parsed = \<lparr>x_eventId = ''p1'', x_eventType = ''PoolPaused'', x_ledger = 6, x_ledgerClosedAt = 0,
     x_txHash = ''tx'', x_contractId = ''C1'', x_topics = [[]], x_value = [], x_amount = None, x_loanId = None,
     x_interestRateBps = None, x_termLedgers = None, x_address = None, x_adminAddress = None, x_borrowerRefund = None\<rparr>"

lemma paused_batch: "parsed_events plain_sdk [paused_event] = [paused_parsed]"
  by (simp add: parsed_events_def List.map_filter_simps parseEvent_def plain_sdk_def repaid_event_def paused_event_def
      paused_parsed_def topic_at_def decodeEventType_def EVENT_TYPE_ALIASES_def SUPPORTED_WEBHOOK_EVENT_TYPES_def
      parse_fields_def parse_loan_fields_def parse_other_fields_def admin_updated_types_def ok_fields_def no_fields_def
      admin_address_def Let_def)

lemma paused_type: "x_eventType paused_parsed = ''PoolPaused''"
  by (simp add: paused_parsed_def)

lemma paused_row: "\<exists>row. to_row env paused_parsed = Inr row"
  by (simp add: to_row_def paused_parsed_def int_column_def text_column_def numeric_column_def int4_def)

theorem pause_event_lost_after_failure_witness:
  "fst (storeEvents plain_sdk map_redis (guarded_env map_redis pause_env_migrated booted demo_env) [paused_event] demo_state)
     = Inl AnnouncementFailed"
proof -
  let ?env = "guarded_env map_redis pause_env_migrated booted demo_env"
  obtain row where row: "to_row ?env paused_parsed = Inr row" using paused_row by blast
  then have fresh: "fresh_events ?env [paused_parsed] [] = [(paused_parsed, row)]" by simp
  obtain res out st1 where run: "storeEvents plain_sdk map_redis ?env [paused_event] demo_state = (res, out, st1)"
    by (cases "storeEvents plain_sdk map_redis ?env [paused_event] demo_state") auto
  have "small_deltas ?env [paused_parsed]"
    by (simp add: small_deltas_def delta_of_def score_delta_def paused_parsed_def)
  then have "res = Inl AnnouncementFailed"
    by (intro pause_event_lost_after_failure [where e = paused_parsed, OF migrated_syntax refl _ _ _ _ _ _ run, THEN conjunct1])
      (use row fresh in \<open>simp_all add: paused_batch paused_type\<close>)
  with run show ?thesis by simp
qed

subsection \<open>Defaults are only submitted on a complete index\<close>

text \<open>
  C2. No loan is submitted for default on an incomplete view of the chain: with the indexer and the
  default checker configured from the same environment, when a run submits any batch after the gap
  check could be read, every ledger from the first one the indexer's history answers for (after its start or,
  if higher, after any position set by hand while no range was recorded) up to the end of any recorded
  range has been scanned since it was last rolled back.
\<close>

theorem defaults_only_on_complete_index:
  assumes "startIndexer mv False = Configured (Some icfg)" "new_from_config ienv icfg = Inr (d_cfg d)"
    and "mv_LOAN_MANAGER_CONTRACT_ID mv = Some contract" "trim contract \<noteq> []"
    and "LOAN_MANAGER_CONTRACT_ID cvars = Some contract"
    and "0 < batchSize (d_cfg d)" "indexer_reach d base st"
    and "checkOverdueLoans r (new_checker cvars) env (checkpoints st) rows loanIds cst = (Inr (Some res), cst')"
    and "batches res \<noteq> []" "ce_gaps_readable env"
    and "c \<in> set (checkpoints st)" "ck_contract c = contract" "base \<le> l" "l \<le> ck_end c"
  shows "scanned (trace st) l"
proof -
  have id: "contract_of d = contract" using manager_contract_first [OF assms(1-4)] .
  have ne: "contract \<noteq> []" using assms(4) by (auto simp: trim_def)
  then have cid: "ch_contractId (new_checker cvars) = contract" using assms(5) by (simp add: new_checker_def)
  have run: "run_check (new_checker cvars) env (checkpoints st) rows loanIds = Inr res"
    using assms(8) by (auto simp: checkOverdueLoans_def map_sum_Inr split: prod.splits bool.splits)
  have "\<not> hasUnresolvedLedgerGaps True contract (checkpoints st)"
  proof
    assume "hasUnresolvedLedgerGaps True contract (checkpoints st)"
    then have "batches res = []"
      using run assms(10) cid ne by (auto simp: run_check_def try_then_Inr hasSuspectLedgerRanges_def skipped_run_def)
    with assms(9) show False ..
  qed
  with reach_scanned_or_suspect [OF assms(7,6,11), of l] assms(12-14) id show ?thesis by simp
qed

definition demo_manager :: manager_vars where
  "demo_manager = \<lparr>mv_LOAN_MANAGER_CONTRACT_ID = Some ''C1'', mv_LENDING_POOL_CONTRACT_ID = None,
     mv_REMITTANCE_NFT_CONTRACT_ID = None, mv_MULTISIG_GOVERNANCE_CONTRACT_ID = None, mv_INDEXER_POLL_INTERVAL_MS = None,
     mv_INDEXER_BATCH_SIZE = None, mv_INDEXER_FINALITY_DEPTH = Some ''3''\<rparr>"

definition demo_indexer_env :: indexer_env where
  "demo_indexer_env = \<lparr>QUARANTINE_ALERT_THRESHOLD = None, INDEXER_LAG_ALERT_THRESHOLD = None, INDEXER_FINALITY_DEPTH = None\<rparr>"

lemma demo_configured:
  "\<exists>icfg. startIndexer demo_manager False = Configured (Some icfg) \<and> new_from_config demo_indexer_env icfg = Inr (d_cfg demo_deps)"
proof -
  have n: "string_to_nat ''30000'' = 30000" "string_to_nat ''100'' = 100" "string_to_nat ''25'' = 25" "string_to_nat ''3'' = 3"
    by (simp_all add: string_to_nat_def char_digit_def)
  then show ?thesis
    by (simp add: startIndexer_def demo_manager_def manager_contracts_def List.map_filter_simps trim_def js_space_def
        setting_def parseInt_def is_digit_def Let_def new_from_config_def demo_indexer_env_def env_threshold_def demo_deps_def)
qed

theorem defaults_only_on_complete_index_witness:
  "\<exists>st res cst. pollOnce demo_deps (demo_poll [repaid_event ''e1'' 5]) demo_indexer = (Inr (), st)
     \<and> fst (checkOverdueLoans map_redis (new_checker no_vars) demo_check (checkpoints st) [] (Some [4])
           \<lparr>ch_cache = \<lparr>isConnected = True, server = (\<lambda>_. None)\<rparr>, currentLockValue = None\<rparr>) = Inr (Some res)
     \<and> batches res \<noteq> [] \<and> scanned (trace st) 4"
proof -
  obtain icfg where icfg: "startIndexer demo_manager False = Configured (Some icfg)"
    "new_from_config demo_indexer_env icfg = Inr (d_cfg demo_deps)" using demo_configured by blast
  obtain st where st: "pollOnce demo_deps (demo_poll [repaid_event ''e1'' 5]) demo_indexer = (Inr (), st)"
    "map (\<lambda>c. (ck_contract c, ck_start c, ck_end c, ck_status c)) (checkpoints st) = [(''C1'', 1, 7, Verified)]"
    by (rule exE [OF demo_poll_run], elim conjE) (rule that)
  from st(2) obtain c where c: "checkpoints st = [c]" "ck_contract c = ''C1''" "ck_end c = 7" "ck_status c = Verified"
    by (auto simp: map_eq_Cons_conv)
  have "indexer_reach demo_deps 1 demo_indexer"
    by (rule indexer_reach.fresh) (simp_all add: own_def last_position_def)
  then have reach: "indexer_reach demo_deps 1 st" using st(1) by (rule indexer_reach.poll)
  let ?cst = "\<lparr>ch_cache = \<lparr>isConnected = True, server = (\<lambda>_. None)\<rparr>, currentLockValue = None\<rparr>"
  have chunks: "filter (\<lambda>b. b \<noteq> []) (chunk [4 :: int] 25) = [[4]]"
    by (simp add: chunk_def chunk_from.simps)
  have pos: "parsePositiveInt None 25 = 25" "parsePositiveInt None 3 = 3" by (simp_all add: parsePositiveInt_def parseInt_def)
  obtain res where res: "run_check (new_checker no_vars) demo_check (checkpoints st) [] (Some [4]) = Inr res" "batches res \<noteq> []"
    using c by (simp add: run_check_def assertConfigured_def new_checker_def no_vars_def demo_check_def hasSuspectLedgerRanges_def
        hasUnresolvedLedgerGaps_def target_ids_def Let_def chunks pos mapConcurrent_map)
  have lock: "fst (acquireLock map_redis v ?cst)" for v
    by (simp add: acquireLock_def setNotExists_def ensureConnected_def map_redis_def)
  obtain st1 where st1: "acquireLock map_redis (ce_lockValue demo_check) ?cst = (True, st1)"
    using lock [of "ce_lockValue demo_check"] by (cases "acquireLock map_redis (ce_lockValue demo_check) ?cst") auto
  obtain cst' where run: "checkOverdueLoans map_redis (new_checker no_vars) demo_check (checkpoints st) [] (Some [4]) ?cst
      = (Inr (Some res), cst')"
    using st1 res(1) by (simp add: checkOverdueLoans_def)
  have "scanned (trace st) 4"
    by (rule defaults_only_on_complete_index [OF icfg _ _ _ _ reach run res(2), where contract = "''C1''" and c = c])
      (simp_all add: demo_manager_def no_vars_def trim_def js_space_def demo_check_def c)
  with st(1) run res(2) show ?thesis by (metis fst_conv)
qed

subsection \<open>Reconciliation of a loan against the indexed events\<close>

text \<open>The decoder gives an approval no amount.\<close>

lemma approved_no_amount:
  assumes "parseEvent sdk ev = Inr (Some e)" "x_eventType e = ''LoanApproved''"
  shows "x_amount e = None"
proof -
  from assms obtain f where f: "parse_fields sdk ''LoanApproved'' ev = Inr (Some f)" "x_amount e = f_amount f"
    by (metis parseEvent_Some)
  have "f_amount f = None" if "approved_fields sdk ev l a = Inr (Some f)" for l a
    using that by (cases "sv_native sdk (ev_value ev)")
      (auto simp: approved_fields_def ok_fields_def no_fields_def split: option.splits js_number.splits)
  then show ?thesis using f
    by (auto simp: parse_fields_def parse_loan_fields_def need_topic_def try_then_Inr split: option.splits)
qed

definition approvals_bare :: "contract_event list \<Rightarrow> bool" where
  "approvals_bare rows \<longleftrightarrow> (\<forall>row\<in>set rows. ce_event_type row = ''LoanApproved'' \<longrightarrow> ce_amount row = None)"

lemma to_row_amount:
  "to_row env e = Inr row \<Longrightarrow> ce_event_type row = x_eventType e \<and> (x_amount e = None \<longrightarrow> ce_amount row = None)"
  by (auto simp: to_row_def try_then_Inr numeric_column_def)

lemma storeEvents_bare:
  assumes "approvals_bare (ix_events (st_db st))"
  shows "approvals_bare (ix_events (st_db (snd (snd (storeEvents sdk r senv evs st)))))"
  unfolding approvals_bare_def
proof (intro ballI impI)
  fix row assume row: "row \<in> set (ix_events (st_db (snd (snd (storeEvents sdk r senv evs st)))))"
    and ty: "ce_event_type row = ''LoanApproved''"
  from storeEvents_new_rows [OF row] show "ce_amount row = None"
  proof
    assume "\<exists>ev\<in>set evs. \<exists>e. parseEvent sdk ev = Inr (Some e) \<and> to_row senv e = Inr row"
    then obtain ev e where e: "parseEvent sdk ev = Inr (Some e)" "to_row senv e = Inr row" by blast
    then show ?thesis using to_row_amount [OF e(2)] approved_no_amount [OF e(1)] ty by simp
  qed (use assms ty in \<open>simp add: approvals_bare_def\<close>)
qed

lemma sum_amounts_owed:
  "\<forall>p\<in>set rows. fst p \<noteq> ''LoanApproved'' \<Longrightarrow> sum_amounts rows (owed, paid) = Some (owed', paid') \<Longrightarrow> owed' = owed"
proof (induction rows arbitrary: paid)
  case (Cons p rows)
  then show ?case by (cases p) (auto split: option.splits)
qed simp

text \<open>
  The owed side of the reconciliation is always zero: in a table filled by the indexer no approval
  carries an amount, so for every loan \<open>reconcileLoanStroops\<close> reports nothing owed, and no drift as
  soon as nothing negative was paid.
\<close>

theorem reconcile_never_sees_principal:
  assumes "approvals_bare (ix_events (st_db st))" "st' = snd (snd (storeEvents sdk r senv evs st))"
    and "reconcileLoanStroops loanId (ix_events (st_db st')) = Some res"
  shows "owedStroops res = 0 \<and> (0 \<le> paidStroops res \<longrightarrow> driftStroops res = 0)"
proof -
  let ?rows = "loan_amount_rows loanId (ix_events (st_db st'))"
  have "approvals_bare (ix_events (st_db st'))" using storeEvents_bare [OF assms(1)] assms(2) by simp
  then have "\<forall>p\<in>set ?rows. fst p \<noteq> ''LoanApproved''"
    by (auto simp: loan_amount_rows_def List.map_filter_def approvals_bare_def)
  moreover obtain owed paid where sum: "sum_amounts ?rows (0, 0) = Some (owed, paid)"
    using assms(3) by (auto simp: reconcileLoanStroops_def split: option.splits)
  ultimately have "owed = 0" using sum_amounts_owed by blast
  with sum assms(3) show ?thesis by (auto simp: reconcileLoanStroops_def)
qed

theorem reconcile_never_sees_principal_witness:
  "\<exists>res. reconcileLoanStroops 7 (ix_events (st_db (snd (snd
       (storeEvents plain_sdk map_redis demo_env [repaid_event ''e1'' 5] demo_state))))) = Some res \<and> owedStroops res = 0"
proof -
  obtain out s1 where s1: "storeEvents plain_sdk map_redis demo_env [repaid_event ''e1'' 5] demo_state = (Inr 1, out, s1)"
    "ix_events (st_db s1) = [repaid_row ''e1'' 5]" using demo_stored by blast
  obtain res where res: "reconcileLoanStroops 7 (ix_events (st_db s1)) = Some res"
    by (simp add: s1(2) reconcileLoanStroops_def loan_amount_rows_def List.map_filter_simps repaid_row_def big_int_text)
  have "approvals_bare (ix_events (st_db demo_state))" by (simp add: approvals_bare_def)
  from reconcile_never_sees_principal [OF this refl, of 7 plain_sdk map_redis demo_env "[repaid_event ''e1'' 5]" res] s1 res
  show ?thesis by simp
qed

end
